(* ===== verification/Prelude.thy ===== *)
theory Prelude
  imports Complex_Main "HOL-Library.AList" "HOL-Library.Multiset"
    "HOL-Library.List_Lexorder" "HOL-Library.Product_Lexorder"
begin

text \<open>
  What the component theories share: the JavaScript values the app reads off storage and
  relays, its strings (lists of UTF-16 code units), the insertion-ordered \<open>Map\<close>, and two
  interfaces (locales) that several components use: an ordered map, and a replay of a log of
  steps under an invariant.
\<close>

named_theorems js_simps \<open>definitions that read a dynamic JavaScript value\<close>

section \<open>Strings\<close>

text \<open>
  A JavaScript string is a list of UTF-16 code units; \<open>length\<close> counts units, and \<open><\<close> compares
  them unit by unit, which is the lexicographic order of \<open>List_Lexorder\<close>. A source literal
  \<open>'kin'\<close> is written \<open>u ''kin''\<close>.
\<close>

type_synonym ustr = "nat list"

definition u :: "string \<Rightarrow> ustr" where
  "u s = map of_char s"

lemma u_inject [simp]: "u s = u t \<longleftrightarrow> s = t"
proof -
  have "inj (of_char :: char \<Rightarrow> nat)"
    by (simp add: inj_on_def)
  then show ?thesis
    by (simp add: u_def inj_map_eq_map)
qed

lemma u_Nil_iff [simp]: "u s = [] \<longleftrightarrow> s = []" "[] = u s \<longleftrightarrow> s = []"
  by (auto simp: u_def)

lemma length_u [simp]: "length (u s) = length s"
  by (simp add: u_def)

definition starts_with :: "ustr \<Rightarrow> ustr \<Rightarrow> bool" where
  "starts_with s p \<longleftrightarrow> take (length p) s = p"

definition ends_with :: "ustr \<Rightarrow> ustr \<Rightarrow> bool" where
  "ends_with s p \<longleftrightarrow> length p \<le> length s \<and> drop (length s - length p) s = p"

text \<open>
  \<open>toLowerCase\<close> on the ASCII letters. The strings the code lowercases are hex keys, slot labels
  and origins; a unit outside ASCII is left as it is.
\<close>

definition lower_unit :: "nat \<Rightarrow> nat" where
  "lower_unit c = (if 65 \<le> c \<and> c \<le> 90 then c + 32 else c)"

definition lower :: "ustr \<Rightarrow> ustr" where
  "lower = map lower_unit"

lemma lower_unit_idem [simp]: "lower_unit (lower_unit c) = lower_unit c"
  by (simp add: lower_unit_def)

lemma lower_idem [simp]: "lower (lower s) = lower s"
  by (simp add: lower_def)

lemma length_lower [simp]: "length (lower s) = length s"
  by (simp add: lower_def)

lemma lower_Nil [simp]: "lower [] = []"
  by (simp add: lower_def)

lemma lower_eq_Nil [simp]: "lower s = [] \<longleftrightarrow> s = []"
  by (simp add: lower_def)

text \<open>The white space \<open>String.prototype.trim\<close> removes.\<close>

definition is_space :: "nat \<Rightarrow> bool" where
  "is_space c \<longleftrightarrow> (9 \<le> c \<and> c \<le> 13) \<or> c = 32 \<or> c = 160 \<or> c = 0x1680
     \<or> (0x2000 \<le> c \<and> c \<le> 0x200A) \<or> c = 0x2028 \<or> c = 0x2029 \<or> c = 0x202F \<or> c = 0x205F
     \<or> c = 0x3000 \<or> c = 0xFEFF"

definition trim :: "ustr \<Rightarrow> ustr" where
  "trim s = rev (dropWhile is_space (rev (dropWhile is_space s)))"

text \<open>Lowercase hexadecimal of a fixed length: \<open>/^[0-9a-f]{n}$/\<close>.\<close>

definition hex_unit :: "nat \<Rightarrow> bool" where
  "hex_unit c \<longleftrightarrow> (48 \<le> c \<and> c \<le> 57) \<or> (97 \<le> c \<and> c \<le> 102)"

definition is_hex_str :: "nat \<Rightarrow> ustr \<Rightarrow> bool" where
  "is_hex_str n s \<longleftrightarrow> length s = n \<and> list_all hex_unit s"

abbreviation hex32 :: "ustr \<Rightarrow> bool" where
  "hex32 \<equiv> is_hex_str 32"

abbreviation hex64 :: "ustr \<Rightarrow> bool" where
  "hex64 \<equiv> is_hex_str 64"

text \<open>A key of one digit repeated, for concrete evaluation.\<close>

definition hexes :: "nat \<Rightarrow> nat \<Rightarrow> ustr" where
  "hexes n c = replicate n c"

lemma is_hex_hexes [simp]: "is_hex_str n (hexes m c) \<longleftrightarrow> m = n \<and> (n = 0 \<or> hex_unit c)"
  by (auto simp: is_hex_str_def hexes_def list_all_iff)

lemma lower_hex: "is_hex_str n s \<Longrightarrow> lower s = s"
proof -
  assume "is_hex_str n s"
  then have "list_all hex_unit s"
    by (simp add: is_hex_str_def)
  then have "map lower_unit s = s"
    by (induction s) (auto simp: hex_unit_def lower_unit_def)
  then show ?thesis
    by (simp add: lower_def)
qed

lemma hex_no_slash: "is_hex_str n s \<Longrightarrow> 47 \<notin> set s"
  by (auto simp: is_hex_str_def hex_unit_def list_all_iff)

section \<open>Numbers and dynamic values\<close>

text \<open>
  A finite JavaScript number is a rational here: the code only compares, copies, floors and adds
  timestamps and clocks, and every double is a rational. The infinities and \<open>NaN\<close> are kept,
  since the guards have to refuse them.
\<close>

datatype jnum = Fin rat | PosInf | NegInf | NaN

datatype jsval =
    JUndef
  | JNull
  | JBool bool
  | JNum jnum
  | JStr ustr
  | JArr "jsval list"
  | JObj "(ustr \<times> jsval) list"

text \<open>Property access; a property that is not there reads as \<open>undefined\<close>.\<close>

fun fld :: "jsval \<Rightarrow> ustr \<Rightarrow> jsval" where
  "fld (JObj ps) k = (case map_of ps k of None \<Rightarrow> JUndef | Some v \<Rightarrow> v)"
| "fld _ k = JUndef"

fun isObj :: "jsval \<Rightarrow> bool" where
  "isObj (JObj ps) = True"
| "isObj _ = False"

text \<open>\<open>!raw || typeof raw !== 'object'\<close> lets arrays through.\<close>

fun is_object_type :: "jsval \<Rightarrow> bool" where
  "is_object_type (JObj ps) = True"
| "is_object_type (JArr vs) = True"
| "is_object_type _ = False"

definition fin_num :: "jsval \<Rightarrow> (rat \<Rightarrow> bool) \<Rightarrow> bool" where
  "fin_num v P = (case v of JNum (Fin r) \<Rightarrow> P r | _ \<Rightarrow> False)"

definition is_int_rat :: "rat \<Rightarrow> bool" where
  "is_int_rat r \<longleftrightarrow> of_int \<lfloor>r\<rfloor> = r"

definition MAX_SAFE_INTEGER :: rat where
  "MAX_SAFE_INTEGER = 9007199254740991"

definition is_safe_integer :: "rat \<Rightarrow> bool" where
  "is_safe_integer r \<longleftrightarrow> is_int_rat r \<and> - MAX_SAFE_INTEGER \<le> r \<and> r \<le> MAX_SAFE_INTEGER"

definition is_str :: "jsval \<Rightarrow> (ustr \<Rightarrow> bool) \<Rightarrow> bool" where
  "is_str v P = (case v of JStr s \<Rightarrow> P s | _ \<Rightarrow> False)"

definition is_bool :: "jsval \<Rightarrow> bool" where
  "is_bool v = (case v of JBool b \<Rightarrow> True | _ \<Rightarrow> False)"

definition is_arr :: "jsval \<Rightarrow> (jsval list \<Rightarrow> bool) \<Rightarrow> bool" where
  "is_arr v P = (case v of JArr vs \<Rightarrow> P vs | _ \<Rightarrow> False)"

definition opt_or :: "jsval \<Rightarrow> bool \<Rightarrow> bool" where
  "opt_or v b \<longleftrightarrow> v = JUndef \<or> b"

lemma fin_num_iff: "fin_num v P \<longleftrightarrow> (\<exists>r. v = JNum (Fin r) \<and> P r)"
  by (auto simp: fin_num_def split: jsval.splits jnum.splits)

lemma is_str_iff: "is_str v P \<longleftrightarrow> (\<exists>s. v = JStr s \<and> P s)"
  by (auto simp: is_str_def split: jsval.splits)

lemma is_bool_iff: "is_bool v \<longleftrightarrow> (\<exists>b. v = JBool b)"
  by (auto simp: is_bool_def split: jsval.splits)

lemma is_arr_iff: "is_arr v P \<longleftrightarrow> (\<exists>vs. v = JArr vs \<and> P vs)"
  by (auto simp: is_arr_def split: jsval.splits)

lemma isObj_iff: "isObj v \<longleftrightarrow> (\<exists>ps. v = JObj ps)"
  by (cases v) auto

lemmas js_iffs = fin_num_iff is_str_iff is_bool_iff is_arr_iff

declare fin_num_def [js_simps] is_str_def [js_simps] is_bool_def [js_simps]
  is_arr_def [js_simps] opt_or_def [js_simps]

section \<open>The platform\<close>

text \<open>
  What the code calls that is neither in the repository nor in the language: the WHATWG URL parser
  (\<open>new URL\<close>, which throws or gives an object; the code reads four of its properties) and the
  printing of a number that is not an integer below \<open>10^21\<close>. Both are arguments of the model.
\<close>

record url =
  url_protocol :: ustr
  url_hostname :: ustr
  url_origin :: ustr
  url_href :: ustr

record platform =
  url_parse :: "ustr \<Rightarrow> url option"
  number_text :: "rat \<Rightarrow> ustr"

text \<open>\<open>String.prototype.split\<close> on one unit, and decimal numerals.\<close>

fun split_on :: "nat \<Rightarrow> ustr \<Rightarrow> ustr list" where
  "split_on c [] = [ [] ]"
| "split_on c (x # s) = (if x = c then [] # split_on c s
     else (case split_on c s of [] \<Rightarrow> [ [x] ] | p # ps \<Rightarrow> (x # p) # ps))"

definition digit_unit :: "nat \<Rightarrow> bool" where
  "digit_unit c \<longleftrightarrow> 48 \<le> c \<and> c \<le> 57"

definition is_digits :: "ustr \<Rightarrow> bool" where
  "is_digits s \<longleftrightarrow> s \<noteq> [] \<and> list_all digit_unit s"

definition dec_val :: "ustr \<Rightarrow> nat" where
  "dec_val s = foldl (\<lambda>a c. a * 10 + (c - 48)) 0 s"

fun nat_text :: "nat \<Rightarrow> ustr" where
  "nat_text n = (if n < 10 then [48 + n] else nat_text (n div 10) @ [48 + n mod 10])"

declare nat_text.simps [simp del]

lemma split_on_nonempty [simp]: "split_on c s \<noteq> []"
  by (cases s) (auto split: list.splits)

lemma split_on_single: "c \<notin> set s \<Longrightarrow> split_on c s = [s]"
  by (induction s) auto

lemma split_on_append: "c \<notin> set s \<Longrightarrow> split_on c (s @ c # t) = s # split_on c t"
  by (induction s) auto

lemma dec_val_snoc: "dec_val (s @ [c]) = dec_val s * 10 + (c - 48)"
  by (simp add: dec_val_def)

lemma dec_val_nat_text [simp]: "dec_val (nat_text n) = n"
proof (induction n rule: nat_text.induct)
  case (1 n)
  show ?case
  proof (cases "n < 10")
    case True
    then show ?thesis by (simp add: nat_text.simps [of n] dec_val_def)
  next
    case False
    with 1 show ?thesis by (simp add: nat_text.simps [of n] dec_val_snoc)
  qed
qed

lemma is_digits_nat_text [simp]: "is_digits (nat_text n)"
proof (induction n rule: nat_text.induct)
  case (1 n)
  show ?case
  proof (cases "n < 10")
    case True
    then show ?thesis by (simp add: nat_text.simps [of n] is_digits_def digit_unit_def)
  next
    case False
    have "n mod 10 < 10" by simp
    with False 1 show ?thesis
      by (simp add: nat_text.simps [of n] is_digits_def digit_unit_def)
  qed
qed

lemma nat_text_inject [simp]: "nat_text m = nat_text n \<longleftrightarrow> m = n"
  by (metis dec_val_nat_text)

lemma digits_no_dot: "is_digits s \<Longrightarrow> 46 \<notin> set s" and digits_no_colon: "is_digits s \<Longrightarrow> 58 \<notin> set s"
  by (auto simp: is_digits_def digit_unit_def list_all_iff)

lemma length_nat_text_byte: "n \<le> 255 \<Longrightarrow> length (nat_text n) \<le> 3"
  by (simp add: nat_text.simps [of n] nat_text.simps [of "n div 10"] nat_text.simps [of "n div 10 div 10"])

section \<open>Conversions of a dynamic value\<close>

text \<open>The text of a number: an integer below \<open>10^21\<close> in decimal, everything else as the platform prints it.\<close>

definition js_number_text :: "platform \<Rightarrow> jnum \<Rightarrow> ustr" where
  "js_number_text P n = (case n of
      NaN \<Rightarrow> u ''NaN'' | PosInf \<Rightarrow> u ''Infinity'' | NegInf \<Rightarrow> u ''-Infinity''
    | Fin r \<Rightarrow> if is_int_rat r \<and> \<bar>r\<bar> < 10 ^ 21
        then (if r < 0 then 45 # nat_text (nat (- \<lfloor>r\<rfloor>)) else nat_text (nat \<lfloor>r\<rfloor>))
        else number_text P r)"

definition join_comma :: "ustr list \<Rightarrow> ustr" where
  "join_comma ss = (case ss of [] \<Rightarrow> [] | s # r \<Rightarrow> foldl (\<lambda>a t. a @ 44 # t) s r)"

text \<open>
  \<open>String(v)\<close>. \<open>None\<close> is the \<open>TypeError\<close> of an object with a property of its own named \<open>toString\<close>:
  a property read off storage is never a function, and the inherited \<open>valueOf\<close> gives the object
  back. An array is its elements joined by commas, \<open>null\<close> and \<open>undefined\<close> as the empty text.
\<close>

fun js_String :: "platform \<Rightarrow> jsval \<Rightarrow> ustr option" where
  "js_String P JUndef = Some (u ''undefined'')"
| "js_String P JNull = Some (u ''null'')"
| "js_String P (JBool b) = Some (if b then u ''true'' else u ''false'')"
| "js_String P (JNum n) = Some (js_number_text P n)"
| "js_String P (JStr s) = Some s"
| "js_String P (JArr vs) = map_option join_comma
     (those (map (\<lambda>v. if v = JUndef \<or> v = JNull then Some [] else js_String P v) vs))"
| "js_String P (JObj ps) = (if map_of ps (u ''toString'') = None then Some (u ''[object Object]'') else None)"

text \<open>The length of \<open>JSON.stringify(v)\<close>: quoted strings with their escapes, \<open>undefined\<close> properties left out.\<close>

fun json_str_units :: "ustr \<Rightarrow> nat" where
  "json_str_units [] = 0"
| "json_str_units (c # s) =
     (if 0xD800 \<le> c \<and> c \<le> 0xDBFF then
        (case s of d # t \<Rightarrow> if 0xDC00 \<le> d \<and> d \<le> 0xDFFF then 2 + json_str_units t else 6 + json_str_units s
                 | [] \<Rightarrow> 6)
      else if 0xDC00 \<le> c \<and> c \<le> 0xDFFF then 6 + json_str_units s
      else if c \<in> {8, 9, 10, 12, 13, 34, 92} then 2 + json_str_units s
      else if c < 32 then 6 + json_str_units s
      else 1 + json_str_units s)"

definition comma_sum :: "nat list \<Rightarrow> nat" where
  "comma_sum ns = sum_list ns + (length ns - 1)"

fun json_len :: "platform \<Rightarrow> jsval \<Rightarrow> nat" where
  "json_len P JUndef = 4"
| "json_len P JNull = 4"
| "json_len P (JBool b) = (if b then 4 else 5)"
| "json_len P (JNum n) = (case n of Fin r \<Rightarrow> length (js_number_text P n) | _ \<Rightarrow> 4)"
| "json_len P (JStr s) = 2 + json_str_units s"
| "json_len P (JArr vs) = 2 + comma_sum (map (json_len P) vs)"
| "json_len P (JObj ps) = 2 + comma_sum (map (\<lambda>p. 2 + json_str_units (fst p) + 1 + json_len P (snd p))
     (filter (\<lambda>p. snd p \<noteq> JUndef) ps))"

text \<open>
  A guard that may throw gives \<open>None\<close>. \<open>a && b\<close> does not look at \<open>b\<close> when \<open>a\<close> is false, and
  \<open>every\<close> stops at the first element that fails.
\<close>

definition and_then :: "bool \<Rightarrow> bool option \<Rightarrow> bool option" where
  "and_then b x = (if b then x else Some False)"

fun every_opt :: "('a \<Rightarrow> bool option) \<Rightarrow> 'a list \<Rightarrow> bool option" where
  "every_opt f [] = Some True"
| "every_opt f (x # xs) = (case f x of None \<Rightarrow> None | Some b \<Rightarrow> and_then b (every_opt f xs))"

lemma and_then_True [simp]: "and_then b x = Some True \<longleftrightarrow> b \<and> x = Some True"
  by (simp add: and_then_def)

lemma every_opt_True: "every_opt f xs = Some True \<longleftrightarrow> (\<forall>x \<in> set xs. f x = Some True)"
  by (induction xs) (auto split: option.splits)

lemma every_opt_total: "(\<And>x. x \<in> set xs \<Longrightarrow> f x \<noteq> None) \<Longrightarrow> every_opt f xs \<noteq> None"
  by (induction xs) (auto simp: and_then_def split: option.splits)

section \<open>Checks in sequence\<close>

text \<open>
  A function that refuses with the first reason found is a chain of checks in the sum type:
  \<open>check b e k\<close> goes on to \<open>k\<close> when \<open>b\<close> holds and refuses with \<open>e\<close> otherwise, \<open>need x e k\<close> goes on
  with the value of \<open>x\<close>.
\<close>

named_theorems check_simps \<open>when a chain of checks gives a result\<close>

definition check :: "bool \<Rightarrow> 'e \<Rightarrow> 'e + 'a \<Rightarrow> 'e + 'a" where
  "check b e k = (if b then k else Inl e)"

definition need :: "'b option \<Rightarrow> 'e \<Rightarrow> ('b \<Rightarrow> 'e + 'a) \<Rightarrow> 'e + 'a" where
  "need x e k = (case x of None \<Rightarrow> Inl e | Some y \<Rightarrow> k y)"

lemma check_Inr [check_simps]: "check b e k = Inr r \<longleftrightarrow> b \<and> k = Inr r"
  by (simp add: check_def)

lemma need_Inr [check_simps]: "need x e k = Inr r \<longleftrightarrow> (\<exists>y. x = Some y \<and> k y = Inr r)"
  by (simp add: need_def split: option.split)

lemma need_Some [simp]: "need (Some y) e k = k y"
  by (simp add: need_def)

lemma check_True [simp]: "check True e k = k"
  by (simp add: check_def)

section \<open>Lists\<close>

text \<open>\<open>[...new Set(xs)]\<close>: the first occurrence of each element, in order.\<close>

fun uniq :: "'a list \<Rightarrow> 'a list" where
  "uniq [] = []"
| "uniq (x # xs) = x # removeAll x (uniq xs)"

lemma set_uniq [simp]: "set (uniq xs) = set xs"
  by (induction xs) auto

lemma distinct_removeAll_gen: "distinct xs \<Longrightarrow> distinct (removeAll x xs)"
  by (induction xs) auto

lemma distinct_uniq [simp]: "distinct (uniq xs)"
  by (induction xs) (auto simp: distinct_removeAll_gen)

lemma length_uniq: "length (uniq xs) \<le> length xs"
  by (induction xs) (auto intro: le_trans [OF length_filter_le] simp: removeAll_filter_not_eq)

lemma uniq_distinct: "distinct xs \<Longrightarrow> uniq xs = xs"
  by (induction xs) (auto simp: removeAll_id)

text \<open>\<open>findIndex\<close>, and moving the element found to the front (\<open>splice\<close> then \<open>unshift\<close>).\<close>

fun find_index :: "('a \<Rightarrow> bool) \<Rightarrow> 'a list \<Rightarrow> nat option" where
  "find_index P [] = None"
| "find_index P (x # xs) = (if P x then Some 0 else map_option Suc (find_index P xs))"

definition move_front :: "nat \<Rightarrow> 'a list \<Rightarrow> 'a list" where
  "move_front i xs = xs ! i # take i xs @ drop (Suc i) xs"

lemma find_index_Some: "find_index P xs = Some i \<Longrightarrow> i < length xs \<and> P (xs ! i)"
  by (induction xs arbitrary: i) (auto split: if_splits)

lemma find_index_None: "find_index P xs = None \<longleftrightarrow> (\<forall>x \<in> set xs. \<not> P x)"
  by (induction xs) auto

lemma mset_move_front: "i < length xs \<Longrightarrow> mset (move_front i xs) = mset xs"
proof -
  assume i: "i < length xs"
  have "mset (move_front i xs) = mset (take i xs @ xs ! i # drop (Suc i) xs)"
    by (simp add: move_front_def)
  also have "take i xs @ xs ! i # drop (Suc i) xs = xs"
    using i by (rule id_take_nth_drop [symmetric])
  finally show ?thesis .
qed

lemma set_move_front: "i < length xs \<Longrightarrow> set (move_front i xs) = set xs"
  by (metis mset_move_front set_mset_mset)

lemma filter_eq_replicate: "filter (\<lambda>x. x = k) zs = replicate (count (mset zs) k) k"
  by (induction zs) auto

lemma sort_key_perm:
  assumes m: "mset xs = mset ys" and inj: "inj_on f (set xs)"
  shows "sort_key f xs = sort_key f ys"
proof (rule properties_for_sort_key)
  show "mset (sort_key f ys) = mset xs"
    using m by simp
  show "sorted (map f (sort_key f ys))"
    by simp
  have eq: "set ys = set xs"
    using m by (metis set_mset_mset)
  fix k
  assume "k \<in> set (sort_key f ys)"
  then have k: "k \<in> set xs"
    using eq by simp
  have one: "filter (\<lambda>x. f k = f x) zs = replicate (count (mset zs) k) k"
    if "set zs = set xs" for zs
  proof -
    have "filter (\<lambda>x. f k = f x) zs = filter (\<lambda>x. x = k) zs"
      using that k inj by (intro filter_cong) (auto dest: inj_onD)
    then show ?thesis
      by (simp add: filter_eq_replicate)
  qed
  show "filter (\<lambda>x. f k = f x) (sort_key f ys) = filter (\<lambda>x. f k = f x) xs"
    using one [of "sort_key f ys"] one [of xs] eq m by simp
qed

text \<open>A loop whose body may fail.\<close>

fun fold_opt :: "('a \<Rightarrow> 's \<Rightarrow> 's option) \<Rightarrow> 'a list \<Rightarrow> 's \<Rightarrow> 's option" where
  "fold_opt f [] s = Some s"
| "fold_opt f (x # xs) s = (case f x s of None \<Rightarrow> None | Some s' \<Rightarrow> fold_opt f xs s')"

lemma fold_opt_inv:
  assumes "I s" and "\<And>x s. x \<in> set xs \<Longrightarrow> I s \<Longrightarrow> \<exists>s'. f x s = Some s' \<and> I s'"
  shows "\<exists>s'. fold_opt f xs s = Some s' \<and> I s'"
  using assms
proof (induction xs arbitrary: s)
  case (Cons x xs)
  obtain s' where "f x s = Some s'" "I s'"
    using Cons.prems by auto
  then show ?case
    using Cons.IH [of s'] Cons.prems(2) by auto
qed simp

section \<open>An insertion-ordered map\<close>

lemma set_update: "set (AList.update k v xs) \<subseteq> insert (k, v) (set xs)"
  by (induction xs) auto

lemma set_delete: "set (AList.delete k xs) \<subseteq> set xs"
  by (auto simp: AList.delete_eq)

text \<open>
  A JavaScript \<open>Map\<close> keeps the position of a key that is set again and appends a new one;
  \<open>AList.update\<close> does exactly that. The interface states what the clients use of it.
\<close>

locale ordered_map =
  fixes get :: "'m \<Rightarrow> 'k \<Rightarrow> 'v option"
    and put :: "'k \<Rightarrow> 'v \<Rightarrow> 'm \<Rightarrow> 'm"
    and keys :: "'m \<Rightarrow> 'k list"
    and wf :: "'m \<Rightarrow> bool"
  assumes get_put: "get (put k v m) k' = (if k' = k then Some v else get m k')"
    and keys_get: "k \<in> set (keys m) \<longleftrightarrow> get m k \<noteq> None"
    and keys_put: "keys (put k v m) = (if k \<in> set (keys m) then keys m else keys m @ [k])"
    and wf_put: "wf m \<Longrightarrow> wf (put k v m)"
    and wf_keys: "wf m \<Longrightarrow> distinct (keys m)"
begin

lemma get_put_same: "get (put k v m) k = Some v"
  by (simp add: get_put)

lemma set_keys_put: "set (keys (put k v m)) = insert k (set (keys m))"
  by (auto simp: keys_put)

definition put_all :: "('k \<times> 'v) list \<Rightarrow> 'm \<Rightarrow> 'm" where
  "put_all = fold (\<lambda>(k, v). put k v)"

lemma put_all_keys: "set (keys (put_all kvs m)) = set (map fst kvs) \<union> set (keys m)"
  by (induction kvs arbitrary: m) (auto simp: put_all_def set_keys_put)

lemma put_all_prefix: "\<exists>new. keys (put_all kvs m) = keys m @ new"
proof (induction kvs arbitrary: m)
  case Nil
  show ?case by (simp add: put_all_def)
next
  case (Cons kv kvs)
  obtain new where "keys (put_all kvs (put (fst kv) (snd kv) m)) = keys (put (fst kv) (snd kv) m) @ new"
    using Cons.IH by blast
  then show ?case
    by (cases kv) (auto simp: put_all_def keys_put)
qed

end

interpretation jmap: ordered_map "map_of :: ('k \<times> 'v) list \<Rightarrow> 'k \<Rightarrow> 'v option" "AList.update"
  "map fst" "\<lambda>m. distinct (map fst m)"
proof (unfold_locales, goal_cases)
  case (1 k v m k')
  show ?case by (simp add: update_conv')
next
  case (2 k m)
  show ?case by (metis map_of_eq_None_iff set_map)
next
  case (3 k v m)
  show ?case by (simp add: update_keys)
next
  case (4 m k v)
  then show ?case by (rule distinct_update)
qed simp

section \<open>Replaying a log\<close>

text \<open>
  Several components fold a list of events over a state: operations over a directory, acks over
  the stored Keeps, probe outcomes over the router's state. The provider shows that one event
  keeps the invariant and never leaves a final state; the client gets the whole log.
\<close>

locale replay =
  fixes step :: "'s \<Rightarrow> 'e \<Rightarrow> 's"
    and inv :: "'s \<Rightarrow> bool"
  assumes step_inv: "inv s \<Longrightarrow> inv (step s e)"
begin

lemma run_inv: "inv s \<Longrightarrow> inv (foldl step s es)"
  by (induction es arbitrary: s) (auto intro: step_inv)

end

locale sticky_replay = replay step inv
  for step :: "'s \<Rightarrow> 'e \<Rightarrow> 's" and inv :: "'s \<Rightarrow> bool" +
  fixes final :: "'s \<Rightarrow> bool"
  assumes step_final: "inv s \<Longrightarrow> final s \<Longrightarrow> final (step s e)"
begin

lemma run_final: "inv s \<Longrightarrow> final s \<Longrightarrow> final (foldl step s es)"
  by (induction es arbitrary: s) (auto intro: step_inv step_final)

end

end
