(* ===== verification/Text_Sanitize.thy ===== *)
theory Text_Sanitize
  imports Prelude
begin

text \<open>
  \<open>src/lib/text-sanitize.ts\<close>: the one sanitiser of attacker-controlled display text. It strips a
  class of control and invisible units, trims, and caps at a number of code points without cutting
  a surrogate pair in half.
\<close>

section \<open>The sanitiser\<close>

definition CONTROL_BIDI :: "nat \<Rightarrow> bool" where
  "CONTROL_BIDI c \<longleftrightarrow> c \<le> 0x1F \<or> (0x7F \<le> c \<and> c \<le> 0x9F) \<or> (0x200B \<le> c \<and> c \<le> 0x200F)
     \<or> (0x2028 \<le> c \<and> c \<le> 0x202E) \<or> (0x2066 \<le> c \<and> c \<le> 0x2069)"

definition CONTROL_BIDI_MULTILINE :: "nat \<Rightarrow> bool" where
  "CONTROL_BIDI_MULTILINE c \<longleftrightarrow> c \<le> 0x08 \<or> (0x0B \<le> c \<and> c \<le> 0x1F) \<or> (0x7F \<le> c \<and> c \<le> 0x9F)
     \<or> (0x200B \<le> c \<and> c \<le> 0x200F) \<or> (0x2028 \<le> c \<and> c \<le> 0x202E) \<or> (0x2066 \<le> c \<and> c \<le> 0x2069)"

definition high_surrogate :: "nat \<Rightarrow> bool" where
  "high_surrogate c \<longleftrightarrow> 0xD800 \<le> c \<and> c \<le> 0xDBFF"

definition low_surrogate :: "nat \<Rightarrow> bool" where
  "low_surrogate c \<longleftrightarrow> 0xDC00 \<le> c \<and> c \<le> 0xDFFF"

text \<open>\<open>Array.from(value)\<close>: the code points of a string, a lone surrogate standing for itself.\<close>

fun code_points :: "ustr \<Rightarrow> ustr list" where
  "code_points [] = []"
| "code_points [c] = [ [c] ]"
| "code_points (c # d # s) =
     (if high_surrogate c \<and> low_surrogate d then [c, d] # code_points s
      else [c] # code_points (d # s))"

definition capCodePoints :: "ustr \<Rightarrow> nat \<Rightarrow> ustr" where
  "capCodePoints s n = (if length s \<le> n then s else concat (take n (code_points s)))"

definition sanitizeDisplayName :: "ustr \<Rightarrow> nat \<Rightarrow> ustr" where
  "sanitizeDisplayName raw n = capCodePoints (trim (filter (\<lambda>c. \<not> CONTROL_BIDI c) raw)) n"

definition sanitizeNote :: "ustr \<Rightarrow> nat \<Rightarrow> ustr" where
  "sanitizeNote raw n = capCodePoints (trim (filter (\<lambda>c. \<not> CONTROL_BIDI_MULTILINE c) raw)) n"

section \<open>Bounds\<close>

lemma concat_code_points [simp]: "concat (code_points s) = s"
  by (induction s rule: code_points.induct) auto

lemma length_code_points: "length (code_points s) \<le> length s"
  by (induction s rule: code_points.induct) auto

lemma set_trim: "set (trim s) \<subseteq> set s"
  by (auto simp: trim_def dest!: set_dropWhileD)

lemma length_trim: "length (trim s) \<le> length s"
proof -
  have "length (trim s) \<le> length (dropWhile is_space s)"
    using length_dropWhile_le [of is_space "rev (dropWhile is_space s)"] by (simp add: trim_def)
  then show ?thesis
    using length_dropWhile_le [of is_space s] by linarith
qed

lemma set_concat_take: "set (concat (take n xss)) \<subseteq> set (concat xss)"
  by (auto dest: in_set_takeD)

lemma set_capCodePoints: "set (capCodePoints s n) \<subseteq> set s"
  using set_concat_take [of n "code_points s"] by (simp add: capCodePoints_def)

lemma length_concat_take: "length (concat (take n xss)) \<le> length (concat xss)"
proof -
  have "concat xss = concat (take n xss) @ concat (drop n xss)"
    by (metis append_take_drop_id concat_append)
  then have "length (concat xss) = length (concat (take n xss)) + length (concat (drop n xss))"
    by (metis length_append)
  then show ?thesis
    by simp
qed

lemma length_capCodePoints: "length (capCodePoints s n) \<le> length s"
  using length_concat_take [of n "code_points s"] by (simp add: capCodePoints_def)

lemma code_points_Cons_single:
  "\<not> (high_surrogate c \<and> low_surrogate d) \<Longrightarrow> t = [] \<or> hd t = d \<Longrightarrow>
     code_points (c # t) = [c] # code_points t"
  by (cases t) auto

lemma concat_take_hd:
  "concat (take m (code_points (d # s))) = [] \<or> hd (concat (take m (code_points (d # s)))) = d"
  by (cases m; cases s) auto

lemma code_points_take: "code_points (concat (take n (code_points s))) = take n (code_points s)"
proof (induction s arbitrary: n rule: code_points.induct)
  case 1
  show ?case by simp
next
  case (2 c)
  show ?case by (cases n) auto
next
  case (3 c d s)
  show ?case
  proof (cases "n = 0 \<or> high_surrogate c \<and> low_surrogate d")
    case True
    then show ?thesis using "3.IH"(1) by (cases n) auto
  next
    case False
    then obtain m where n: "n = Suc m" by (cases n) auto
    have pair: "\<not> (high_surrogate c \<and> low_surrogate d)" using False by blast
    then have "code_points (concat (take m (code_points (d # s)))) = take m (code_points (d # s))"
      by (rule "3.IH"(2))
    with code_points_Cons_single [OF pair concat_take_hd [of m d s]] pair n show ?thesis
      by auto
  qed
qed

lemma capCodePoints_points: "length (code_points (capCodePoints s n)) \<le> n"
proof (cases "length s \<le> n")
  case True
  then show ?thesis
    using length_code_points [of s] by (simp add: capCodePoints_def)
next
  case False
  then show ?thesis by (simp add: capCodePoints_def code_points_take)
qed

text \<open>
  Sanitised display text holds none of the control, bidi and invisible units, at most
  \<open>maxLen\<close> code points, and never more units than the raw text.
\<close>

lemma sanitizeDisplayName_safe:
  "(\<nexists>c. c \<in> set (sanitizeDisplayName raw n) \<and> CONTROL_BIDI c)
    \<and> length (code_points (sanitizeDisplayName raw n)) \<le> n
    \<and> length (sanitizeDisplayName raw n) \<le> length raw"
proof -
  let ?f = "filter (\<lambda>c. \<not> CONTROL_BIDI c) raw"
  have "set (sanitizeDisplayName raw n) \<subseteq> set ?f"
    unfolding sanitizeDisplayName_def using set_capCodePoints set_trim by blast
  moreover have "length (sanitizeDisplayName raw n) \<le> length (trim ?f)"
    unfolding sanitizeDisplayName_def by (rule length_capCodePoints)
  moreover have "length (trim ?f) \<le> length raw"
    using length_trim [of ?f] length_filter_le [of "\<lambda>c. \<not> CONTROL_BIDI c" raw] by linarith
  ultimately show ?thesis
    by (auto simp: sanitizeDisplayName_def intro: capCodePoints_points)
qed

lemma length_sanitizeDisplayName: "length (sanitizeDisplayName raw n) \<le> length raw"
proof -
  have "length (sanitizeDisplayName raw n) \<le> length (trim (filter (\<lambda>c. \<not> CONTROL_BIDI c) raw))"
    unfolding sanitizeDisplayName_def by (rule length_capCodePoints)
  then show ?thesis
    using length_trim [of "filter (\<lambda>c. \<not> CONTROL_BIDI c) raw"]
      length_filter_le [of "\<lambda>c. \<not> CONTROL_BIDI c" raw] by linarith
qed

lemma length_sanitizeNote: "length (sanitizeNote raw n) \<le> length raw"
proof -
  have "length (sanitizeNote raw n) \<le> length (trim (filter (\<lambda>c. \<not> CONTROL_BIDI_MULTILINE c) raw))"
    unfolding sanitizeNote_def by (rule length_capCodePoints)
  then show ?thesis
    using length_trim [of "filter (\<lambda>c. \<not> CONTROL_BIDI_MULTILINE c) raw"]
      length_filter_le [of "\<lambda>c. \<not> CONTROL_BIDI_MULTILINE c" raw] by linarith
qed

section \<open>Surrogate pairs survive\<close>

text \<open>A string is well-formed UTF-16 when no code point of it is a lone surrogate.\<close>

definition surrogate :: "nat \<Rightarrow> bool" where
  "surrogate c \<longleftrightarrow> high_surrogate c \<or> low_surrogate c"

definition wf_utf16 :: "ustr \<Rightarrow> bool" where
  "wf_utf16 s \<longleftrightarrow> list_all (\<lambda>p. case p of [c] \<Rightarrow> \<not> surrogate c | _ \<Rightarrow> True) (code_points s)"

lemma high_not_low: "high_surrogate c \<Longrightarrow> \<not> low_surrogate c"
  by (simp add: high_surrogate_def low_surrogate_def)

lemma wf_utf16_Nil [simp]: "wf_utf16 []"
  by (simp add: wf_utf16_def)

lemma wf_utf16_plain [simp]: "\<not> surrogate c \<Longrightarrow> wf_utf16 (c # s) \<longleftrightarrow> wf_utf16 s"
  by (cases s) (auto simp: wf_utf16_def surrogate_def)

lemma wf_utf16_surrogate:
  "surrogate c \<Longrightarrow> wf_utf16 (c # s) \<longleftrightarrow>
     (case s of [] \<Rightarrow> False | d # t \<Rightarrow> high_surrogate c \<and> low_surrogate d \<and> wf_utf16 t)"
  by (cases s) (auto simp: wf_utf16_def surrogate_def)

lemma wf_utf16_cap: "wf_utf16 s \<Longrightarrow> wf_utf16 (capCodePoints s n)"
  by (auto simp: wf_utf16_def capCodePoints_def code_points_take list_all_iff dest: in_set_takeD)

lemma wf_utf16_filter:
  assumes "\<And>c. surrogate c \<Longrightarrow> P c"
  shows "wf_utf16 s \<Longrightarrow> wf_utf16 (filter P s)"
proof (induction s rule: length_induct)
  case (1 s)
  show ?case
  proof (cases s)
    case Nil
    then show ?thesis by simp
  next
    case (Cons c t)
    show ?thesis
    proof (cases "surrogate c")
      case False
      with 1 Cons show ?thesis by auto
    next
      case True
      then obtain d t' where t: "t = d # t'" "high_surrogate c" "low_surrogate d" "wf_utf16 t'"
        using 1(2) Cons by (auto simp: wf_utf16_surrogate split: list.splits)
      then have "wf_utf16 (filter P t')"
        using 1(1) Cons by simp
      moreover have "P c" "P d"
        using t assms by (auto simp: surrogate_def)
      ultimately show ?thesis
        using True Cons t by (simp add: wf_utf16_surrogate)
    qed
  qed
qed

lemma wf_utf16_append_plain:
  "\<not> surrogate c \<Longrightarrow> wf_utf16 (s @ [c]) \<longleftrightarrow> wf_utf16 s"
proof (induction s rule: length_induct)
  case (1 s)
  show ?case
  proof (cases s)
    case Nil
    with 1 show ?thesis by simp
  next
    case (Cons d t)
    show ?thesis
    proof (cases "surrogate d")
      case False
      with 1 Cons show ?thesis by simp
    next
      case True
      show ?thesis
      proof (cases t)
        case Nil
        with 1(2) True Cons show ?thesis
          by (auto simp: wf_utf16_surrogate surrogate_def)
      next
        case (Cons e t')
        have "wf_utf16 (t' @ [c]) \<longleftrightarrow> wf_utf16 t'"
          using 1 \<open>s = d # t\<close> Cons by simp
        with True \<open>s = d # t\<close> Cons show ?thesis
          by (simp add: wf_utf16_surrogate)
      qed
    qed
  qed
qed

lemma space_not_surrogate: "is_space c \<Longrightarrow> \<not> surrogate c"
  by (auto simp: is_space_def surrogate_def high_surrogate_def low_surrogate_def)

lemma wf_utf16_dropWhile: "wf_utf16 s \<Longrightarrow> wf_utf16 (dropWhile is_space s)"
  by (induction s) (auto simp: space_not_surrogate)

lemma wf_utf16_rdrop: "wf_utf16 s \<Longrightarrow> wf_utf16 (rev (dropWhile is_space (rev s)))"
  by (induction s rule: rev_induct) (auto simp: wf_utf16_append_plain space_not_surrogate)

lemma wf_utf16_trim: "wf_utf16 s \<Longrightarrow> wf_utf16 (trim s)"
  by (simp add: trim_def wf_utf16_dropWhile wf_utf16_rdrop)

lemma sanitize_no_control: "c \<in> set (sanitizeDisplayName raw n) \<Longrightarrow> \<not> CONTROL_BIDI c"
  unfolding sanitizeDisplayName_def using set_capCodePoints set_trim by fastforce

lemma wf_sanitize: "wf_utf16 raw \<Longrightarrow> wf_utf16 (sanitizeDisplayName raw n)"
  unfolding sanitizeDisplayName_def
  by (intro wf_utf16_cap wf_utf16_trim wf_utf16_filter)
    (auto simp: surrogate_def high_surrogate_def low_surrogate_def CONTROL_BIDI_def)

text \<open>
  The sanitisers never leave a lone surrogate: text without one stays without
  one, wherever the cap falls.
\<close>

lemma sanitize_keeps_utf16:
  assumes "wf_utf16 raw"
  shows "wf_utf16 (sanitizeDisplayName raw n) \<and> wf_utf16 (sanitizeNote raw n)"
proof -
  have "\<And>c. surrogate c \<Longrightarrow> \<not> CONTROL_BIDI c" "\<And>c. surrogate c \<Longrightarrow> \<not> CONTROL_BIDI_MULTILINE c"
    by (auto simp: surrogate_def high_surrogate_def low_surrogate_def CONTROL_BIDI_def
        CONTROL_BIDI_MULTILINE_def)
  then show ?thesis
    unfolding sanitizeDisplayName_def sanitizeNote_def
    using assms by (auto intro!: wf_utf16_cap wf_utf16_trim wf_utf16_filter)
qed

end
