(* ===== verification/Safe_Url.thy ===== *)
theory Safe_Url
  imports Prelude
begin

unbundle bit_operations_syntax

text \<open>
  \<open>src/lib/safe-url.ts\<close>: the guard that keeps a contact-controlled URL from making the app fetch
  from the victim's own network. The URL parser is the platform's; everything after it (IPv4 and
  IPv6 classification, the internal names, the odd numeral forms) is modelled.
\<close>

section \<open>IPv4\<close>

text \<open>\<open>Number(p)\<close> of one part; every caller passes digits, so anything else is \<open>NaN\<close>.\<close>

definition octet :: "ustr \<Rightarrow> nat option" where
  "octet p = (if is_digits p then Some (dec_val p) else None)"

definition private_range :: "nat \<Rightarrow> nat \<Rightarrow> bool" where
  "private_range a b \<longleftrightarrow> a = 0 \<or> a = 10 \<or> a = 127 \<or> (a = 169 \<and> b = 254)
     \<or> (a = 172 \<and> 16 \<le> b \<and> b \<le> 31) \<or> (a = 192 \<and> b = 168) \<or> (a = 100 \<and> 64 \<le> b \<and> b \<le> 127)"

definition isPrivateIPv4 :: "ustr \<Rightarrow> bool" where
  "isPrivateIPv4 ip =
     (let parts = split_on 46 ip
      in if length parts \<noteq> 4 then True
         else case those (map octet parts) of
             None \<Rightarrow> True
           | Some nums \<Rightarrow> if list_ex (\<lambda>n. n > 255) nums then True else private_range (nums ! 0) (nums ! 1))"

text \<open>\<open>/^\d{1,3}(\.\d{1,3}){3}$/\<close>\<close>

definition dotted_quad :: "ustr \<Rightarrow> bool" where
  "dotted_quad h = (let ps = split_on 46 h in length ps = 4 \<and> list_all (\<lambda>p. is_digits p \<and> length p \<le> 3) ps)"

section \<open>IPv6\<close>

definition hex_digit :: "nat \<Rightarrow> nat" where
  "hex_digit d = (if d < 10 then 48 + d else 87 + d)"

fun hex_text :: "nat \<Rightarrow> ustr" where
  "hex_text n = (if n < 16 then [hex_digit n] else hex_text (n div 16) @ [hex_digit (n mod 16)])"

declare hex_text.simps [simp del]

definition hex_unit_val :: "nat \<Rightarrow> nat" where
  "hex_unit_val c = (if c \<le> 57 then c - 48 else c - 87)"

definition hex_val :: "ustr \<Rightarrow> nat" where
  "hex_val s = foldl (\<lambda>a c. a * 16 + hex_unit_val c) 0 s"

text \<open>The last colon of a text, and what is before and after it.\<close>

fun split_last_colon :: "ustr \<Rightarrow> (ustr \<times> ustr) option" where
  "split_last_colon [] = None"
| "split_last_colon (c # s) = (case split_last_colon s of
       Some (p, q) \<Rightarrow> Some (c # p, q)
     | None \<Rightarrow> if c = 58 then Some ([], s) else None)"

definition line_terminator :: "nat \<Rightarrow> bool" where
  "line_terminator c \<longleftrightarrow> c = 10 \<or> c = 13 \<or> c = 0x2028 \<or> c = 0x2029"

fun split_dcolon :: "ustr \<Rightarrow> ustr list" where
  "split_dcolon [] = [ [] ]"
| "split_dcolon [c] = [ [c] ]"
| "split_dcolon (c # d # s) = (if c = 58 \<and> d = 58 then [] # split_dcolon s
     else (case split_dcolon (d # s) of [] \<Rightarrow> [ [c] ] | p # ps \<Rightarrow> (c # p) # ps))"

definition hextet :: "ustr \<Rightarrow> nat option" where
  "hextet g = (if g \<noteq> [] \<and> length g \<le> 4 \<and> list_all hex_unit g then Some (hex_val g) else None)"

definition groups :: "ustr \<Rightarrow> nat list option" where
  "groups part = (if part = [] then Some [] else those (map hextet (split_on 58 part)))"

text \<open>The embedded dotted-quad tail becomes two hextets; an octet over 255 is no address.\<close>

definition expand_dotted :: "ustr \<Rightarrow> ustr option" where
  "expand_dotted h =
     (case split_last_colon h of
        Some (p, q) \<Rightarrow>
          if dotted_quad q \<and> \<not> list_ex line_terminator p
          then let o4 = map dec_val (split_on 46 q)
               in if list_ex (\<lambda>n. n > 255) o4 then None
                  else Some (p @ [58] @ hex_text (o4 ! 0 * 256 + o4 ! 1) @ [58] @ hex_text (o4 ! 2 * 256 + o4 ! 3))
          else Some h
      | None \<Rightarrow> Some h)"

definition hextets_of :: "ustr list \<Rightarrow> nat list option" where
  "hextets_of halves =
     (case halves of
        [a] \<Rightarrow> (case groups a of Some hd' \<Rightarrow> if length hd' = 8 then Some hd' else None | None \<Rightarrow> None)
      | [a, b] \<Rightarrow> (case (groups a, groups b) of
            (Some hd', Some tl') \<Rightarrow>
              if length hd' + length tl' \<le> 7
              then Some (hd' @ replicate (8 - length hd' - length tl') 0 @ tl') else None
          | _ \<Rightarrow> None)
      | _ \<Rightarrow> None)"

definition parseIPv6 :: "ustr \<Rightarrow> nat list option" where
  "parseIPv6 h =
     (case expand_dotted h of
        None \<Rightarrow> None
      | Some text' \<Rightarrow> map_option (\<lambda>hs. concat (map (\<lambda>x. [x div 256, x mod 256]) hs))
          (hextets_of (split_dcolon text')))"

definition v4_of :: "nat list \<Rightarrow> ustr" where
  "v4_of bs = nat_text (bs ! 0) @ [46] @ nat_text (bs ! 1) @ [46] @ nat_text (bs ! 2) @ [46] @ nat_text (bs ! 3)"

definition isInternalIPv6 :: "nat list \<Rightarrow> bool" where
  "isInternalIPv6 b =
     (if list_all (\<lambda>x. x = 0) (take 15 b) \<and> (b ! 15 = 0 \<or> b ! 15 = 1) then True
      else if b ! 0 AND 0xFE = 0xFC then True
      else if b ! 0 = 0xFE \<and> b ! 1 AND 0xC0 = 0x80 then True
      else if b ! 0 = 0xFE \<and> b ! 1 AND 0xC0 = 0xC0 then True
      else if b ! 0 = 0xFF then True
      else if b ! 0 = 0 \<and> b ! 1 = 0x64 \<and> b ! 2 = 0xFF \<and> b ! 3 = 0x9B
              \<and> (list_all (\<lambda>x. x = 0) (take 8 (drop 4 b)) \<or> (b ! 4 = 0 \<and> b ! 5 = 1)) then True
      else if b ! 0 = 0x20 \<and> b ! 1 = 2 then isPrivateIPv4 (v4_of (take 4 (drop 2 b)))
      else if list_all (\<lambda>x. x = 0) (take 10 b) \<and> b ! 10 = 0xFF \<and> b ! 11 = 0xFF
           then isPrivateIPv4 (v4_of (drop 12 b))
      else if list_all (\<lambda>x. x = 0) (take 12 b) then isPrivateIPv4 (v4_of (drop 12 b))
      else False)"

section \<open>Hosts and base URLs\<close>

definition all_hex_after_0x :: "ustr \<Rightarrow> bool" where
  "all_hex_after_0x h \<longleftrightarrow> take 2 h = u ''0x'' \<and> drop 2 h \<noteq> [] \<and> list_all hex_unit (drop 2 h)"

definition all_octal_after_0 :: "ustr \<Rightarrow> bool" where
  "all_octal_after_0 h \<longleftrightarrow> take 1 h = u ''0'' \<and> drop 1 h \<noteq> [] \<and> list_all (\<lambda>c. 48 \<le> c \<and> c \<le> 55) (drop 1 h)"

definition strip_brackets :: "ustr \<Rightarrow> ustr" where
  "strip_brackets h = (if starts_with h (u ''['') \<and> ends_with h (u '']'')
     then take (length h - 2) (drop 1 h) else h)"

definition strip_root_dot :: "ustr \<Rightarrow> ustr" where
  "strip_root_dot h = (if ends_with h (u ''.'') then butlast h else h)"

definition isPrivateOrInternalHost :: "ustr \<Rightarrow> bool" where
  "isPrivateOrInternalHost hostname =
     (if hostname = [] then True
      else let h = strip_root_dot (strip_brackets (lower hostname))
           in if h = u ''localhost'' \<or> ends_with h (u ''.localhost'') then True
              else if 58 \<in> set h then (case parseIPv6 h of None \<Rightarrow> True | Some b \<Rightarrow> isInternalIPv6 b)
              else if dotted_quad h then isPrivateIPv4 h
              else if is_digits h \<or> all_hex_after_0x h \<or> all_octal_after_0 h then True
              else if 46 \<in> set h \<and> list_ex (\<lambda>p. all_hex_after_0x p \<or> all_octal_after_0 p) (split_on 46 h) then True
              else False)"

definition loopback_name :: "ustr \<Rightarrow> bool" where
  "loopback_name h \<longleftrightarrow> h = u ''localhost'' \<or> h = u ''127.0.0.1''"

definition isSafeBlossomBase :: "platform \<Rightarrow> ustr \<Rightarrow> bool" where
  "isSafeBlossomBase pf raw =
     (case url_parse pf raw of
        None \<Rightarrow> False
      | Some url \<Rightarrow>
          if url_protocol url = u ''http:'' \<and> loopback_name (url_hostname url) then True
          else if url_protocol url \<noteq> u ''https:'' then False
          else \<not> isPrivateOrInternalHost (url_hostname url))"

definition isSafeContactBlossomBase :: "platform \<Rightarrow> ustr \<Rightarrow> bool" where
  "isSafeContactBlossomBase pf raw =
     (if \<not> isSafeBlossomBase pf raw then False
      else case url_parse pf raw of
          None \<Rightarrow> False
        | Some url \<Rightarrow>
            if url_protocol url \<noteq> u ''https:'' then True
            else let host = lower (url_hostname url)
                 in if starts_with host (u ''['') \<and> ends_with host (u '']'') then False
                    else let h = strip_root_dot host
                         in if 58 \<in> set h \<or> list_all is_digits (split_on 46 h) then False
                            else 46 \<in> set h)"

end
