(* ===== verification/Contact_Types.thy ===== *)
theory Contact_Types
  imports Text_Sanitize
begin

text \<open>
  \<open>src/types/contacts-v2.ts\<close>, \<open>src/lib/contact-origins.ts\<close> and \<open>src/lib/contact-checks.ts\<close>: the
  contacts data model. A field the source marks with \<open>?\<close> is an \<open>option\<close>. An operation's \<open>action\<close>
  and its \<open>value\<close> are one datatype, \<open>contact_value\<close>: a value has a type only once the action is
  known. \<open>linkedFromItemId\<close> and \<open>bondAssertion\<close> stay dynamic values, because the guards let more
  than strings and records through.
\<close>

section \<open>Enumerations\<close>

datatype tier = Kin | Kith | Ken

datatype ceiling_tier = AtMost tier | NoTier

datatype contact_type = Person | Organisation

datatype lifecycle = Suggested | Pending | Active | Rejected | Removed

datatype verification = Unverified | Proven | Mutual

datatype provenance = Direct | GuardianShare | AppProposal | LegacyImport | KeyLinked

datatype method_kind = Phone | Email | Website | PostalAddress | OtherMethod

datatype method_verification = MethodUnverified | MethodProven

datatype sharing = Private | Grantable

datatype actor_role = Owner | Guardian | Dependant | App

datatype tier_source = FromDirect | GuardianVouched | GuardianLimited

datatype intro_status = IntroPending | IntroAccepted | IntroRejected

fun CONTACT_TIER_RANK :: "tier \<Rightarrow> nat" where
  "CONTACT_TIER_RANK Ken = 1"
| "CONTACT_TIER_RANK Kith = 2"
| "CONTACT_TIER_RANK Kin = 3"

definition OWNER_DIRECTORY_ID :: ustr where
  "OWNER_DIRECTORY_ID = u ''owner''"

section \<open>Facts and items\<close>

record contact_origin =
  co_id :: ustr
  co_owner :: ustr
  co_method :: ustr
  co_addedAt :: rat
  co_inviteId :: "ustr option"
  co_inviteName :: "ustr option"
  co_caption :: "ustr option"
  co_appName :: "ustr option"

record contact_check =
  cc_id :: ustr
  cc_identity :: ustr
  cc_owner :: ustr
  cc_method :: ustr
  cc_checkedAt :: rat
  cc_source :: "ustr option"
  cc_evidence :: "ustr option"

record direct_evidence =
  de_owner :: ustr
  de_secret :: "ustr option"
  de_verifiedAt :: rat
  de_bond :: jsval
  de_group :: "ustr option"
  de_default :: "bool option"

record contact_identity =
  ci_itemId :: ustr
  ci_pubkey :: ustr
  ci_label :: "ustr option"
  ci_provenance :: provenance
  ci_verification :: verification
  ci_direct :: "direct_evidence option"
  ci_linkedFrom :: jsval
  ci_addedAt :: rat

record contact_method =
  cm_itemId :: ustr
  cm_kind :: method_kind
  cm_label :: "ustr option"
  cm_value :: ustr
  cm_verification :: method_verification
  cm_sharing :: sharing
  cm_addedAt :: rat

record access_grant_ref =
  ag_grantId :: ustr
  ag_purpose :: ustr
  ag_fields :: "ustr list"
  ag_recipient :: ustr
  ag_createdAt :: rat
  ag_expiresAt :: "rat option"

record guardian_vouch =
  gv_vouchId :: ustr
  gv_guardian :: ustr
  gv_tier :: tier
  gv_role :: "ustr option"
  gv_createdAt :: rat
  gv_operationId :: ustr
  gv_revokedBy :: "ustr option"

record guardian_ceiling =
  gc_guardian :: ustr
  gc_maxTier :: ceiling_tier
  gc_createdAt :: rat
  gc_operationId :: ustr
  gc_revokedBy :: "ustr option"

datatype block_scope = WholeContact | OneIdentity ustr

record block_fact =
  bf_blockedBy :: ustr
  bf_scope :: block_scope
  bf_blockedAt :: rat
  bf_reason :: "ustr option"
  bf_operationId :: ustr
  bf_liftedBy :: "ustr option"

record list_membership =
  lm_owner :: ustr
  lm_addedAt :: rat
  lm_removedAt :: "rat option"

record intro_value =
  iv_grantId :: ustr
  iv_owner :: ustr
  iv_pubkey :: ustr
  iv_displayName :: ustr
  iv_appName :: "ustr option"

record app_introduction =
  ai_intro :: intro_value
  ai_status :: intro_status
  ai_restricted :: bool
  ai_clock :: int
  ai_createdAt :: rat

record shared_check =
  sk_pubkey :: ustr
  sk_verification :: verification
  sk_verifiedAt :: "rat option"

record shared_check_record =
  sr_pubkey :: ustr
  sr_method :: ustr
  sr_checkedAt :: rat

record shared_value =
  sv_guardian :: ustr
  sv_tier :: "tier option"
  sv_blocked :: "bool option"
  sv_checks :: "shared_check list option"
  sv_checkRecords :: "shared_check_record list option"

record shared_context =
  sc_value :: shared_value
  sc_receivedAt :: rat

record share_sent =
  ss_directoryId :: ustr
  ss_contactId :: ustr
  ss_sharedAt :: rat

record picture_pointer =
  pp_server :: ustr
  pp_hash :: ustr
  pp_key :: ustr
  pp_plainHash :: ustr

section \<open>The materialised record\<close>

record contact_record =
  origins :: "contact_origin list option"
  checks :: "contact_check list option"
  mergedContactIds :: "ustr list option"
  sharedContexts :: "shared_context list option"
  sharesSent :: "share_sent list option"
  appIntroductions :: "app_introduction list option"
  primaryIdentityPubkey :: "ustr option"
  listMemberships :: "list_membership list option"
  directoryId :: ustr
  contactId :: ustr
  ctype :: contact_type
  displayName :: ustr
  tier :: tier
  tierSetByActorRole :: "actor_role option"
  roles :: "ustr list"
  identities :: "contact_identity list"
  contactMethods :: "contact_method list"
  accessGrants :: "access_grant_ref list"
  lifecycle :: lifecycle
  createdAt :: rat
  updatedAt :: rat
  removedAt :: "rat option"
  archived :: "bool option"
  createdByActorRole :: actor_role
  createdByOperationId :: ustr
  vouches :: "guardian_vouch list"
  ceilings :: "guardian_ceiling list"
  blocks :: "block_fact list"
  noteText :: "ustr option"
  picture :: "picture_pointer option"

section \<open>Operations\<close>

record add_value =
  av_intro :: "intro_value option"
  av_owner :: "ustr option"
  av_type :: contact_type
  av_displayName :: ustr
  av_tier :: tier
  av_roles :: "ustr list option"
  av_lifecycle :: "lifecycle option"

record identity_value =
  iy_itemId :: ustr
  iy_pubkey :: ustr
  iy_label :: "ustr option"
  iy_provenance :: provenance
  iy_verification :: verification
  iy_direct :: "direct_evidence option"
  iy_linkedFrom :: jsval

record update_identity_value =
  uy_itemId :: ustr
  uy_label :: "ustr option"
  uy_verification :: "verification option"
  uy_direct :: "direct_evidence option"

record method_value =
  mv_itemId :: ustr
  mv_kind :: method_kind
  mv_label :: "ustr option"
  mv_value :: ustr
  mv_verification :: method_verification
  mv_sharing :: sharing

record update_method_value =
  um_itemId :: ustr
  um_label :: "ustr option"
  um_value :: "ustr option"
  um_verification :: "method_verification option"
  um_sharing :: "sharing option"

datatype contact_value =
    Add add_value
  | Rename ustr
  | SetTier tier
  | SetRoles "ustr list"
  | AddIdentity identity_value
  | UpdateIdentity update_identity_value
  | AddMethod method_value
  | UpdateMethod update_method_value
  | RemoveItem ustr
  | Evidence update_identity_value
  | Vouch ustr tier "ustr option"
  | RevokeVouch
  | Ceiling ustr ceiling_tier
  | RevokeCeiling ustr
  | Block block_scope "ustr option"
  | Unblock
  | SetLifecycle lifecycle
  | Archive
  | Remove
  | KeyLink ustr ustr ustr "ustr option" \<comment> \<open>item, pubkey, linked-from item, label\<close>
  | Note ustr
  | SetPicture picture_pointer
  | ClearPicture
  | LinkList ustr
  | UnlinkList ustr
  | AppProposeList intro_value
  | ReviewAppList ustr bool
  | ReceiveShare shared_value
  | RecordShare ustr ustr
  | RecordOrigin contact_origin
  | RemoveOrigin ustr
  | RecordCheck contact_check
  | RemoveCheck ustr

record contact_operation =
  op_owner :: "ustr option"
  op_id :: ustr
  op_directory :: ustr
  op_contact :: ustr
  op_itemId :: "ustr option"
  op_actor :: ustr
  op_role :: actor_role
  op_device :: ustr
  op_clock :: int
  op_target :: "ustr option"
  op_value :: contact_value
  op_createdAt :: rat

section \<open>Effective contacts\<close>

record effective_contact =
  ec_record :: contact_record
  ec_tier :: ceiling_tier
  ec_source :: tier_source
  ec_blocked :: bool
  ec_blockedBy :: "ustr list"

end
