(* ===== verification/Contact_Membership.thy ===== *)
theory Contact_Membership
  imports Contact_Types
begin

text \<open>
  \<open>src/lib/contacts-v2-membership.ts\<close>: which of the owner's identities has a contact in its list.
  A membership is never deleted, only dated as removed, and the primary identity is always one of
  the active memberships.
\<close>

section \<open>The operations\<close>

abbreviation memberships :: "contact_record \<Rightarrow> list_membership list" where
  "memberships r \<equiv> (case listMemberships r of None \<Rightarrow> [] | Some ms \<Rightarrow> ms)"

definition active_member :: "list_membership \<Rightarrow> bool" where
  "active_member m \<longleftrightarrow> lm_removedAt m = None"

definition contactBelongsToList :: "contact_record \<Rightarrow> ustr \<Rightarrow> bool" where
  "contactBelongsToList r owner =
     (case listMemberships r of
        None \<Rightarrow> False
      | Some ms \<Rightarrow> list_ex (\<lambda>m. lm_owner m = owner \<and> active_member m) ms)"

definition linkContactList :: "contact_record \<Rightarrow> ustr \<Rightarrow> rat \<Rightarrow> contact_record" where
  "linkContactList r owner ts =
     (if contactBelongsToList r owner then r
      else r\<lparr>listMemberships := Some (filter (\<lambda>m. lm_owner m \<noteq> owner) (memberships r)
               @ [\<lparr>lm_owner = owner, lm_addedAt = ts, lm_removedAt = None\<rparr>]),
             primaryIdentityPubkey := (case primaryIdentityPubkey r of None \<Rightarrow> Some owner | Some p \<Rightarrow> Some p),
             updatedAt := ts,
             createdAt := min (createdAt r) ts\<rparr>)"

definition oldest :: "list_membership list \<Rightarrow> ustr option" where
  "oldest ms = (case sort_key (\<lambda>m. (lm_addedAt m, lm_owner m)) (filter active_member ms) of
     [] \<Rightarrow> None | m # _ \<Rightarrow> Some (lm_owner m))"

text \<open>\<open>ms.map(m => P(m) ? { ...m, removedAt: at } : m)\<close>.\<close>

definition close_if :: "(list_membership \<Rightarrow> bool) \<Rightarrow> rat \<Rightarrow> list_membership \<Rightarrow> list_membership" where
  "close_if P ts m = (if P m then m\<lparr>lm_removedAt := Some ts\<rparr> else m)"

definition unlinkContactList :: "contact_record \<Rightarrow> ustr \<Rightarrow> rat \<Rightarrow> contact_record" where
  "unlinkContactList r owner ts =
     (if \<not> contactBelongsToList r owner then r
      else let ms = map (close_if (\<lambda>m. lm_owner m = owner) ts) (memberships r);
               p = (if primaryIdentityPubkey r = Some owner then oldest ms else primaryIdentityPubkey r);
               r' = r\<lparr>listMemberships := Some ms, primaryIdentityPubkey := p, updatedAt := ts\<rparr>
           in if p = None then r'\<lparr>lifecycle := Removed, removedAt := Some ts\<rparr> else r')"

definition removeContactLists :: "contact_record \<Rightarrow> rat \<Rightarrow> contact_record" where
  "removeContactLists r ts =
     (case listMemberships r of
        None \<Rightarrow> r
      | Some ms \<Rightarrow> r\<lparr>primaryIdentityPubkey := None,
          listMemberships := Some (map (close_if active_member ts) ms)\<rparr>)"

section \<open>The membership invariant\<close>

text \<open>
  What \<open>validContactLists\<close> asks of a record read back: owners are hex keys and occur once, times
  are not negative, and the primary identity is an active membership exactly when there is one.
\<close>

definition wf_lists :: "contact_record \<Rightarrow> bool" where
  "wf_lists r \<longleftrightarrow>
     (case listMemberships r of
        None \<Rightarrow> primaryIdentityPubkey r = None
      | Some ms \<Rightarrow>
          distinct (map lm_owner ms)
          \<and> (\<forall>m \<in> set ms. hex64 (lm_owner m) \<and> 0 \<le> lm_addedAt m
               \<and> (case lm_removedAt m of None \<Rightarrow> True | Some t \<Rightarrow> 0 \<le> t))
          \<and> (case primaryIdentityPubkey r of
               None \<Rightarrow> \<not> list_ex active_member ms
             | Some p \<Rightarrow> list_ex (\<lambda>m. lm_owner m = p \<and> active_member m) ms))"

lemma close_if_owner [simp]: "lm_owner (close_if P ts m) = lm_owner m"
  by (simp add: close_if_def)

lemma close_if_owner_comp [simp]: "lm_owner \<circ> close_if P ts = lm_owner"
  by (simp add: fun_eq_iff)

lemma close_if_addedAt [simp]: "lm_addedAt (close_if P ts m) = lm_addedAt m"
  by (simp add: close_if_def)

lemma close_if_removedAt [simp]:
  "lm_removedAt (close_if P ts m) = (if P m then Some ts else lm_removedAt m)"
  by (simp add: close_if_def)

lemma close_if_active [simp]: "active_member (close_if P ts m) \<longleftrightarrow> active_member m \<and> \<not> P m"
  by (simp add: active_member_def)

lemma oldest_None: "oldest ms = None \<longleftrightarrow> \<not> list_ex active_member ms"
proof -
  have "oldest ms = None \<longleftrightarrow> sort_key (\<lambda>m. (lm_addedAt m, lm_owner m)) (filter active_member ms) = []"
    by (simp add: oldest_def split: list.split)
  also have "\<dots> \<longleftrightarrow> filter active_member ms = []"
    by (metis length_0_conv length_sort)
  also have "\<dots> \<longleftrightarrow> \<not> list_ex active_member ms"
    by (auto simp: filter_empty_conv list_ex_iff)
  finally show ?thesis .
qed

lemma oldest_Some:
  assumes "oldest ms = Some p"
  shows "\<exists>m \<in> set ms. active_member m \<and> lm_owner m = p
           \<and> (\<forall>m' \<in> set ms. active_member m' \<longrightarrow> lm_addedAt m \<le> lm_addedAt m')"
proof -
  let ?k = "\<lambda>m. (lm_addedAt m, lm_owner m)"
  obtain m rest where s: "sort_key ?k (filter active_member ms) = m # rest" and p: "p = lm_owner m"
    using assms by (auto simp: oldest_def split: list.splits)
  have mem: "set (m # rest) = set (filter active_member ms)"
    using s by (metis set_sort)
  have "sorted (map ?k (m # rest))"
    using s by (metis sorted_sort_key)
  then have "\<forall>m' \<in> set rest. ?k m \<le> ?k m'"
    by simp
  then have "\<forall>m' \<in> set (m # rest). lm_addedAt m \<le> lm_addedAt m'"
    by (auto simp: less_eq_prod_def)
  with mem p show ?thesis
    by auto
qed

lemma wf_lists_link:
  assumes "wf_lists r" and "hex64 owner" and "0 \<le> ts"
  shows "wf_lists (linkContactList r owner ts)"
proof (cases "contactBelongsToList r owner")
  case True
  then show ?thesis using assms by (simp add: linkContactList_def)
next
  case False
  let ?ms = "filter (\<lambda>m. lm_owner m \<noteq> owner) (memberships r)"
  have d: "distinct (map lm_owner ?ms)"
    using assms(1) by (auto simp: wf_lists_def distinct_map inj_on_def split: option.splits)
  have all: "\<forall>m \<in> set ?ms. hex64 (lm_owner m) \<and> 0 \<le> lm_addedAt m
               \<and> (case lm_removedAt m of None \<Rightarrow> True | Some t \<Rightarrow> 0 \<le> t)"
    using assms(1) by (auto simp: wf_lists_def split: option.splits)
  have prim: "\<exists>m \<in> set ?ms. lm_owner m = p \<and> active_member m" if "primaryIdentityPubkey r = Some p" for p
    using that assms(1) False
    by (auto simp: wf_lists_def contactBelongsToList_def list_ex_iff split: option.splits)
  show ?thesis
    using False d all prim assms(2,3)
    by (auto simp: linkContactList_def wf_lists_def list_ex_iff active_member_def split: option.splits)
qed

lemma contactBelongs_memberships: "contactBelongsToList r owner \<Longrightarrow> \<exists>ms. listMemberships r = Some ms"
  by (auto simp: contactBelongsToList_def split: option.splits)

lemma unlink_primary:
  fixes ts :: rat
  assumes wf: "wf_lists r" and on: "contactBelongsToList r owner"
  defines "ms \<equiv> map (close_if (\<lambda>m. lm_owner m = owner) ts) (memberships r)"
  defines "p \<equiv> if primaryIdentityPubkey r = Some owner then oldest ms else primaryIdentityPubkey r"
  shows "case p of None \<Rightarrow> \<not> list_ex active_member ms
           | Some q \<Rightarrow> list_ex (\<lambda>m. lm_owner m = q \<and> active_member m) ms"
proof (cases "primaryIdentityPubkey r = Some owner")
  case True
  then show ?thesis
    using oldest_None [of ms] oldest_Some [of ms] unfolding p_def
    by (auto simp: list_ex_iff split: option.split)
next
  case False
  obtain q where q: "primaryIdentityPubkey r = Some q"
    using wf on by (auto simp: wf_lists_def contactBelongsToList_def list_ex_iff split: option.splits)
  then have "list_ex (\<lambda>m. lm_owner m = q \<and> active_member m) (memberships r)"
    using wf contactBelongs_memberships [OF on] by (auto simp: wf_lists_def)
  with False q show ?thesis
    unfolding p_def ms_def by (auto simp: list_ex_iff)
qed

lemma wf_lists_unlink:
  assumes wf: "wf_lists r" and ts: "0 \<le> ts"
  shows "wf_lists (unlinkContactList r owner ts)"
proof (cases "contactBelongsToList r owner")
  case False
  then show ?thesis using wf by (simp add: unlinkContactList_def)
next
  case True
  then obtain ms where ms: "listMemberships r = Some ms"
    using contactBelongs_memberships by blast
  let ?ms = "map (close_if (\<lambda>m. lm_owner m = owner) ts) ms"
  have "distinct (map lm_owner ?ms)"
    using wf ms by (simp add: wf_lists_def)
  moreover have "\<forall>m \<in> set ?ms. hex64 (lm_owner m) \<and> 0 \<le> lm_addedAt m
               \<and> (case lm_removedAt m of None \<Rightarrow> True | Some t \<Rightarrow> 0 \<le> t)"
    using wf ms ts by (simp add: wf_lists_def)
  moreover have mm: "memberships r = ms"
    using ms by simp
  ultimately show ?thesis
    using unlink_primary [OF wf True, of ts, unfolded mm] True unfolding mm
    by (cases "primaryIdentityPubkey r = Some owner")
      (auto simp: unlinkContactList_def wf_lists_def Let_def mm)
qed

lemma wf_lists_removeAll:
  assumes "wf_lists r" and "0 \<le> ts"
  shows "wf_lists (removeContactLists r ts)"
  using assms by (auto simp: wf_lists_def removeContactLists_def list_ex_iff active_member_def
      split: option.splits)

section \<open>Functional behaviour\<close>

lemma belongs_link:
  "contactBelongsToList (linkContactList r owner ts) other
     \<longleftrightarrow> other = owner \<or> contactBelongsToList r other"
  by (auto simp: linkContactList_def contactBelongsToList_def list_ex_iff active_member_def
      split: option.splits)

lemma belongs_unlink:
  "contactBelongsToList (unlinkContactList r owner ts) other
     \<longleftrightarrow> other \<noteq> owner \<and> contactBelongsToList r other"
  by (auto simp: unlinkContactList_def contactBelongsToList_def list_ex_iff Let_def split: option.splits)

lemma lifecycle_unlink:
  assumes wf: "wf_lists r"
  shows "lifecycle (unlinkContactList r owner ts) =
    (if contactBelongsToList r owner \<and> (\<nexists>o'. contactBelongsToList r o' \<and> o' \<noteq> owner)
     then Removed else lifecycle r)"
proof (cases "contactBelongsToList r owner")
  case False
  then show ?thesis by (simp add: unlinkContactList_def)
next
  case True
  let ?ms = "map (close_if (\<lambda>m. lm_owner m = owner) ts) (memberships r)"
  let ?p = "if primaryIdentityPubkey r = Some owner then oldest ?ms else primaryIdentityPubkey r"
  have lc: "lifecycle (unlinkContactList r owner ts) = (if ?p = None then Removed else lifecycle r)"
    using True by (auto simp: unlinkContactList_def Let_def)
  have "?p = None \<longleftrightarrow> \<not> list_ex active_member ?ms"
    using unlink_primary [OF wf True, of ts]
    by (cases ?p) (auto simp: list_ex_iff)
  also have "\<dots> \<longleftrightarrow> (\<nexists>o'. contactBelongsToList r o' \<and> o' \<noteq> owner)"
    using contactBelongs_memberships [OF True]
    by (fastforce simp: contactBelongsToList_def list_ex_iff)
  finally show ?thesis
    using True lc by simp
qed

text \<open>
  Linking puts the contact in that list and leaves every other list as it was;
  unlinking takes it out of that list only, and the record becomes a tombstone exactly when that was
  its last active list.
\<close>

theorem link_unlink_lists:
  assumes "wf_lists r"
  shows "(contactBelongsToList (linkContactList r owner ts) other
            \<longleftrightarrow> other = owner \<or> contactBelongsToList r other)
    \<and> (contactBelongsToList (unlinkContactList r owner ts) other
            \<longleftrightarrow> other \<noteq> owner \<and> contactBelongsToList r other)
    \<and> lifecycle (unlinkContactList r owner ts) =
         (if contactBelongsToList r owner \<and> (\<nexists>o'. contactBelongsToList r o' \<and> o' \<noteq> owner)
          then Removed else lifecycle r)"
  using lifecycle_unlink [OF assms] by (simp add: belongs_link belongs_unlink)

end
