(* ===== verification/Js_Objects.thy ===== *)
theory Js_Objects
  imports Prelude "HOL-Library.Monad_Syntax"
begin

text \<open>
  Objects that are written to storage and read back: encoders from typed records to dynamic values,
  the typed readings that a guard justifies, and the lemmas that relate a guard, a reading and an
  encoder of the same field. The contact records and the stored Keeps share them.
\<close>

named_theorems reads \<open>a guarded field has a typed reading\<close>

abbreviation JS :: "string \<Rightarrow> jsval" where
  "JS s \<equiv> JStr (u s)"

abbreviation get :: "jsval \<Rightarrow> string \<Rightarrow> jsval" where
  "get v k \<equiv> fld v (u k)"

section \<open>Readers\<close>

definition as_str :: "jsval \<Rightarrow> ustr option" where
  "as_str v = (case v of JStr s \<Rightarrow> Some s | _ \<Rightarrow> None)"

definition as_num :: "jsval \<Rightarrow> rat option" where
  "as_num v = (case v of JNum (Fin r) \<Rightarrow> Some r | _ \<Rightarrow> None)"

definition as_bool :: "jsval \<Rightarrow> bool option" where
  "as_bool v = (case v of JBool b \<Rightarrow> Some b | _ \<Rightarrow> None)"

definition as_list :: "(jsval \<Rightarrow> 'a option) \<Rightarrow> jsval \<Rightarrow> 'a list option" where
  "as_list f v = (case v of JArr vs \<Rightarrow> those (map f vs) | _ \<Rightarrow> None)"

definition as_opt :: "(jsval \<Rightarrow> 'a option) \<Rightarrow> jsval \<Rightarrow> 'a option option" where
  "as_opt f v = (if v = JUndef then Some None else map_option Some (f v))"

definition as_enum :: "(string \<times> 'a) list \<Rightarrow> jsval \<Rightarrow> 'a option" where
  "as_enum tbl v = (case v of JStr s \<Rightarrow> map_of (map (\<lambda>(k, x). (u k, x)) tbl) s | _ \<Rightarrow> None)"

lemma as_simps [simp]:
  "as_str (JStr s) = Some s" "as_num (JNum (Fin r)) = Some r" "as_bool (JBool b) = Some b"
  "as_opt f JUndef = Some None" "as_list f (JArr vs) = those (map f vs)"
  "as_enum tbl (JStr s) = map_of (map (\<lambda>(k, x). (u k, x)) tbl) s"
  by (simp_all add: as_str_def as_num_def as_bool_def as_opt_def as_list_def as_enum_def)

text \<open>
  A reading succeeds, and what it gives has the bound. The guards are facts about one field each, so
  a record's reading is a chain of \<open>yields_bind\<close>, one per field.
\<close>

definition yields :: "'a option \<Rightarrow> ('a \<Rightarrow> bool) \<Rightarrow> bool" where
  "yields a Q \<longleftrightarrow> (\<exists>x. a = Some x \<and> Q x)"

lemma yields_Some [simp]: "yields (Some x) Q \<longleftrightarrow> Q x"
  by (simp add: yields_def)

lemma yields_bind: "yields a Q \<Longrightarrow> (\<And>x. Q x \<Longrightarrow> yields (g x) R) \<Longrightarrow> yields (a \<bind> g) R"
  by (auto simp: yields_def)

lemma yields_map: "yields a (\<lambda>x. R (g x)) \<Longrightarrow> yields (map_option g a) R"
  by (auto simp: yields_def)

lemma yields_mono: "yields a Q \<Longrightarrow> (\<And>x. Q x \<Longrightarrow> R x) \<Longrightarrow> yields a R"
  by (auto simp: yields_def)

lemma yields_opt: "opt_or v b \<Longrightarrow> (b \<Longrightarrow> yields (f v) Q) \<Longrightarrow> yields (as_opt f v) (pred_option Q)"
  by (auto simp: as_opt_def opt_or_def yields_def)

lemma yields_those: "(\<And>v. v \<in> set vs \<Longrightarrow> yields (f v) Q) \<Longrightarrow>
    yields (those (map f vs)) (\<lambda>xs. list_all Q xs \<and> length xs = length vs)"
proof (induction vs)
  case Nil
  show ?case by simp
next
  case (Cons v vs)
  have "yields (f v) Q" and "yields (those (map f vs)) (\<lambda>xs. list_all Q xs \<and> length xs = length vs)"
    using Cons by auto
  then show ?case
    by (auto simp: yields_def)
qed

lemma read_str [reads]: "is_str v Q \<Longrightarrow> yields (as_str v) Q"
  by (auto simp: js_iffs)

lemma read_num [reads]: "fin_num v Q \<Longrightarrow> yields (as_num v) Q"
  by (auto simp: js_iffs)

lemma read_bool [reads]: "is_bool v \<Longrightarrow> yields (as_bool v) (\<lambda>b. True)"
  by (auto simp: js_iffs)

lemma read_arr:
  assumes "is_arr v R" and "\<And>vs. R vs \<Longrightarrow> (\<forall>x \<in> set vs. yields (f x) Q) \<and> S (length vs)"
  shows "yields (as_list f v) (\<lambda>xs. list_all Q xs \<and> S (length xs))"
proof -
  obtain vs where v: "v = JArr vs" "R vs"
    using assms(1) by (auto simp: js_iffs)
  have "yields (those (map f vs)) (\<lambda>xs. list_all Q xs \<and> length xs = length vs)"
    using assms(2) [OF v(2)] by (intro yields_those) simp
  then show ?thesis
    using v assms(2) [OF v(2)] by (auto simp: yields_def)
qed

lemma read_all:
  assumes "is_arr v (list_all P)" and "\<And>x. P x \<Longrightarrow> yields (f x) Q"
  shows "yields (as_list f v) (list_all Q)"
proof -
  have "yields (as_list f v) (\<lambda>xs. list_all Q xs \<and> True)"
    using assms by (intro read_arr [where R = "list_all P" and S = "\<lambda>n. True"]) (auto simp: list_all_iff)
  then show ?thesis
    by simp
qed

section \<open>Encoders\<close>

definition enc_num :: "rat \<Rightarrow> jsval" where
  "enc_num r = JNum (Fin r)"

definition enc_opt :: "('a \<Rightarrow> jsval) \<Rightarrow> 'a option \<Rightarrow> jsval" where
  "enc_opt f x = (case x of None \<Rightarrow> JUndef | Some y \<Rightarrow> f y)"

definition enc_list :: "('a \<Rightarrow> jsval) \<Rightarrow> 'a list \<Rightarrow> jsval" where
  "enc_list f xs = JArr (map f xs)"

definition obj :: "(string \<times> jsval) list \<Rightarrow> jsval" where
  "obj ps = JObj (map (\<lambda>(k, v). (u k, v)) ps)"

lemma isObj_obj [simp]: "isObj (obj ps)" "is_object_type (obj ps)" "obj ps \<noteq> JUndef"
  by (simp_all add: obj_def)

lemma get_obj [simp]: "get (obj ps) k = (case map_of ps k of None \<Rightarrow> JUndef | Some v \<Rightarrow> v)"
proof -
  have "map_of (map (\<lambda>(k, v). (u k, v)) ps) (u k) = map_of ps k"
    by (induction ps) auto
  then show ?thesis by (simp add: obj_def)
qed

lemma enc_opt_simps [simp]: "enc_opt f None = JUndef" "enc_opt f (Some x) = f x"
  by (simp_all add: enc_opt_def)

lemma enc_arr [simp]: "is_arr (enc_list f xs) R = R (map f xs)"
  by (simp add: enc_list_def is_arr_def)

lemma enc_list_undef [simp]: "enc_list f xs \<noteq> JUndef"
  by (simp add: enc_list_def)

lemma enc_opt_or: "opt_or (enc_opt f x) (G (enc_opt f x)) = pred_option (\<lambda>y. f y = JUndef \<or> G (f y)) x"
  by (cases x) (simp_all add: opt_or_def)

section \<open>Integers\<close>

text \<open>
  Times, revisions and counters that a guard keeps within \<open>Number.isSafeInteger\<close> are integers of the
  model: on that range the sums and comparisons of doubles are exact.
\<close>

definition MAX_SAFE :: int where
  "MAX_SAFE = 9007199254740991"

definition safe_int :: "int \<Rightarrow> bool" where
  "safe_int n \<longleftrightarrow> - MAX_SAFE \<le> n \<and> n \<le> MAX_SAFE"

definition isSafeInt :: "jsval \<Rightarrow> bool" where
  "isSafeInt v = fin_num v is_safe_integer"

text \<open>A safe integer that is not negative.\<close>

definition isCount :: "jsval \<Rightarrow> bool" where
  "isCount v = fin_num v (\<lambda>r. is_safe_integer r \<and> 0 \<le> r)"

definition as_int :: "jsval \<Rightarrow> int option" where
  "as_int v = (case v of JNum (Fin r) \<Rightarrow> Some \<lfloor>r\<rfloor> | _ \<Rightarrow> None)"

definition enc_int :: "int \<Rightarrow> jsval" where
  "enc_int n = JNum (Fin (of_int n))"

lemma is_safe_of_int [simp]: "is_safe_integer (of_int n) = safe_int n"
proof -
  have "- MAX_SAFE_INTEGER \<le> (of_int n :: rat) \<longleftrightarrow> - MAX_SAFE \<le> n"
    using of_int_le_iff [of "- MAX_SAFE" n, where ?'a = rat] by (simp add: MAX_SAFE_INTEGER_def MAX_SAFE_def)
  moreover have "(of_int n :: rat) \<le> MAX_SAFE_INTEGER \<longleftrightarrow> n \<le> MAX_SAFE"
    using of_int_le_iff [of n MAX_SAFE, where ?'a = rat] by (simp add: MAX_SAFE_INTEGER_def MAX_SAFE_def)
  ultimately show ?thesis
    by (simp add: is_safe_integer_def is_int_rat_def safe_int_def)
qed

lemma isSafeInt_iff: "isSafeInt v \<longleftrightarrow> (\<exists>n. v = enc_int n \<and> safe_int n)"
proof
  assume "isSafeInt v"
  then obtain r where r: "v = JNum (Fin r)" "is_safe_integer r"
    by (auto simp: isSafeInt_def fin_num_iff)
  then have "r = of_int \<lfloor>r\<rfloor>"
    by (auto simp: is_safe_integer_def is_int_rat_def)
  then show "\<exists>n. v = enc_int n \<and> safe_int n"
    using r by (metis enc_int_def is_safe_of_int)
qed (auto simp: isSafeInt_def fin_num_iff enc_int_def)

lemma int_simps [simp]:
  "as_int (enc_int n) = Some n" "isSafeInt (enc_int n) = safe_int n" "enc_int n \<noteq> JUndef" "enc_int n \<noteq> JNull"
  by (simp_all add: as_int_def enc_int_def isSafeInt_def fin_num_def)

lemma read_int [reads]: "isSafeInt v \<Longrightarrow> yields (as_int v) safe_int"
  by (auto simp: isSafeInt_iff)

lemma isCount_enc [simp]: "isCount (enc_int n) \<longleftrightarrow> safe_int n \<and> 0 \<le> n"
  by (simp add: isCount_def enc_int_def fin_num_def)

lemma read_count [reads]: "isCount v \<Longrightarrow> yields (as_int v) (\<lambda>n. safe_int n \<and> 0 \<le> n)"
proof -
  assume c: "isCount v"
  then have "isSafeInt v"
    by (auto simp: isCount_def isSafeInt_def fin_num_iff)
  with c show ?thesis
    by (auto simp: isSafeInt_iff)
qed

section \<open>Names from a table\<close>

definition in_table :: "(string \<times> 'a) list \<Rightarrow> jsval \<Rightarrow> bool" where
  "in_table tbl v = is_str v (\<lambda>s. s \<in> set (map (\<lambda>(k, x). u k) tbl))"

definition name_in :: "(string \<times> 'a) list \<Rightarrow> 'a \<Rightarrow> ustr" where
  "name_in tbl x = (case find (\<lambda>(k, y). y = x) tbl of Some (k, y) \<Rightarrow> u k | None \<Rightarrow> [])"

definition enc_enum :: "(string \<times> 'a) list \<Rightarrow> 'a \<Rightarrow> jsval" where
  "enc_enum tbl x = JStr (name_in tbl x)"

definition table_ok :: "(string \<times> 'a) list \<Rightarrow> bool" where
  "table_ok tbl \<longleftrightarrow> distinct (map fst tbl)"

lemma read_table [reads]: "in_table tbl v \<Longrightarrow> yields (as_enum tbl v) (\<lambda>x. True)"
proof -
  assume "in_table tbl v"
  then obtain k x where v: "v = JStr (u k)" and kx: "(k, x) \<in> set tbl"
    by (auto simp: in_table_def is_str_iff)
  have "u k \<in> set (map fst (map (\<lambda>(k, x). (u k, x)) tbl))"
    using kx by force
  then have "map_of (map (\<lambda>(k, x). (u k, x)) tbl) (u k) \<noteq> None"
    by (metis map_of_eq_None_iff set_map)
  then show ?thesis
    using v by (cases "map_of (map (\<lambda>(k, x). (u k, x)) tbl) (u k)") (simp_all add: yields_def)
qed

lemma map_of_u: "map_of (map (\<lambda>(k, x). (u k, x)) tbl) (u k) = map_of tbl k"
  by (induction tbl) auto

lemma enum_roundtrip:
  assumes "table_ok tbl" and "x \<in> snd ` set tbl"
  shows "as_enum tbl (enc_enum tbl x) = Some x" and "in_table tbl (enc_enum tbl x)"
proof -
  have "find (\<lambda>(k, y). y = x) tbl \<noteq> None"
    using assms(2) by (auto simp: find_None_iff)
  then obtain p where p: "find (\<lambda>(k, y). y = x) tbl = Some p"
    by blast
  moreover from p have "snd p = x"
    by (auto simp: find_Some_iff case_prod_unfold)
  ultimately obtain k where k: "find (\<lambda>(k, y). y = x) tbl = Some (k, x)"
    by (cases p) auto
  then have mem: "(k, x) \<in> set tbl"
    by (auto simp: find_Some_iff in_set_conv_nth)
  with assms(1) have "map_of tbl k = Some x"
    by (simp add: table_ok_def)
  then show "as_enum tbl (enc_enum tbl x) = Some x"
    using k by (simp add: enc_enum_def name_in_def map_of_u)
  show "in_table tbl (enc_enum tbl x)"
    using k mem by (force simp: enc_enum_def name_in_def in_table_def is_str_def)
qed

section \<open>Records of entries\<close>

text \<open>
  \<open>Object.entries\<close> of a record with text keys. An object has each key once; where a list of pairs
  repeats one the first counts, as it does in \<open>fld\<close>. No key of the records read here is an array index.
\<close>

definition entries :: "(ustr \<times> jsval) list \<Rightarrow> (ustr \<times> jsval) list" where
  "entries ps = map (\<lambda>k. (k, the (map_of ps k))) (uniq (map fst ps))"

definition is_record :: "jsval \<Rightarrow> (ustr \<Rightarrow> jsval \<Rightarrow> bool) \<Rightarrow> bool" where
  "is_record v P = (case v of JObj ps \<Rightarrow> list_all (\<lambda>(k, x). P k x) (entries ps) | _ \<Rightarrow> False)"

definition as_record :: "(jsval \<Rightarrow> 'a option) \<Rightarrow> jsval \<Rightarrow> (ustr \<times> 'a) list option" where
  "as_record f v = (case v of
     JObj ps \<Rightarrow> those (map (\<lambda>(k, x). map_option (Pair k) (f x)) (entries ps)) | _ \<Rightarrow> None)"

definition enc_record_of :: "('a \<Rightarrow> jsval) \<Rightarrow> (ustr \<times> 'a) list \<Rightarrow> jsval" where
  "enc_record_of f m = JObj (map (\<lambda>(k, x). (k, f x)) m)"

lemma entries_distinct: "distinct (map fst ps) \<Longrightarrow> entries ps = ps"
proof -
  assume d: "distinct (map fst ps)"
  have "map (\<lambda>k. (k, the (map_of ps k))) (map fst ps) = map id ps"
    unfolding map_map using d by (intro map_cong) auto
  then show ?thesis
    using d by (simp add: entries_def uniq_distinct)
qed

lemma keys_entries: "map fst (entries ps) = uniq (map fst ps)"
  by (simp add: entries_def comp_def)

lemma enc_record_entries:
  "distinct (map fst m) \<Longrightarrow> entries (map (\<lambda>(k, x). (k, f x)) m) = map (\<lambda>(k, x). (k, f x)) m"
  by (intro entries_distinct) (simp add: comp_def case_prod_unfold)

lemma is_record_enc [simp]:
  "distinct (map fst m) \<Longrightarrow> is_record (enc_record_of f m) P \<longleftrightarrow> list_all (\<lambda>(k, x). P k (f x)) m"
  unfolding is_record_def enc_record_of_def
  by (simp only: jsval.case enc_record_entries) (simp add: list_all_iff case_prod_unfold)

lemma those_map_Some: "(\<And>x. x \<in> set xs \<Longrightarrow> f (g x) = Some x) \<Longrightarrow> those (map f (map g xs)) = Some xs"
  by (induction xs) auto

lemma as_record_enc [simp]:
  assumes d: "distinct (map fst m)" and f: "\<And>k x. (k, x) \<in> set m \<Longrightarrow> f (g x) = Some x"
  shows "as_record f (enc_record_of g m) = Some m"
proof -
  have "those (map (\<lambda>(k, x). map_option (Pair k) (f x)) (map (\<lambda>(k, x). (k, g x)) m)) = Some m"
    using f by (intro those_map_Some) auto
  then show ?thesis
    using d by (simp add: as_record_def enc_record_of_def enc_record_entries)
qed

lemma as_list_enc: "(\<And>x. x \<in> set xs \<Longrightarrow> f (g x) = Some x) \<Longrightarrow> as_list f (enc_list g xs) = Some xs"
  unfolding as_list_def enc_list_def by (simp only: jsval.case those_map_Some)

lemma as_opt_enc: "(\<And>y. x = Some y \<Longrightarrow> g y \<noteq> JUndef \<and> f (g y) = Some y) \<Longrightarrow> as_opt f (enc_opt g x) = Some x"
  by (cases x) (auto simp: as_opt_def)

lemma read_record:
  assumes "is_record v P" and "\<And>k x. P k x \<Longrightarrow> Kp k \<and> yields (f x) Q"
  shows "yields (as_record f v) (\<lambda>m. distinct (map fst m) \<and> list_all (\<lambda>(k, x). Kp k \<and> Q x) m)"
proof -
  obtain ps where v: "v = JObj ps" and P: "list_all (\<lambda>(k, x). P k x) (entries ps)"
    using assms(1) by (auto simp: is_record_def split: jsval.splits)
  have ex: "\<exists>m. those (map (\<lambda>(k, x). map_option (Pair k) (f x)) es) = Some m
      \<and> map fst m = map fst es \<and> list_all (\<lambda>(k, x). Kp k \<and> Q x) m"
    if "list_all (\<lambda>(k, x). P k x) es" for es
    using that
  proof (induction es)
    case (Cons e es)
    then obtain k x m where "e = (k, x)" "P k x" "those (map (\<lambda>(k, x). map_option (Pair k) (f x)) es) = Some m"
        "map fst m = map fst es" "list_all (\<lambda>(k, x). Kp k \<and> Q x) m"
      by (cases e) auto
    moreover obtain y where "f x = Some y" "Q y" "Kp k"
      using assms(2) [OF \<open>P k x\<close>] by (auto simp: yields_def)
    ultimately show ?case
      by simp
  qed simp
  then obtain m where "as_record f v = Some m" "map fst m = map fst (entries ps)"
      "list_all (\<lambda>(k, x). Kp k \<and> Q x) m"
    using ex [OF P] v by (auto simp: as_record_def)
  then show ?thesis
    by (simp add: yields_def keys_entries)
qed

end
