(* ===== verification/Contact_Guards.thy ===== *)
theory Contact_Guards
  imports Contact_Membership Safe_Url Js_Objects
begin

text \<open>
  The structural guards of \<open>src/lib/contacts-v2-reducer.ts\<close>, \<open>contact-origins.ts\<close>,
  \<open>contact-checks.ts\<close> and \<open>validContactLists\<close> of \<open>contacts-v2-membership.ts\<close>, over the dynamic
  values a row decrypts to, and the typed readings (\<open>cast_\<close>\dots) they justify. \<open>validateOperation\<close>
  and \<open>validateRecord\<close> are \<open>bool option\<close>: \<open>None\<close> is the \<open>TypeError\<close> that \<open>String(v)\<close> can throw.
\<close>

section \<open>Caps and patterns\<close>

definition CAP_NAME :: nat where "CAP_NAME = 100"
definition CAP_ROLE :: nat where "CAP_ROLE = 40"
definition CAP_ROLES :: nat where "CAP_ROLES = 12"
definition CAP_LABEL :: nat where "CAP_LABEL = 60"
definition CAP_METHOD_VALUE :: nat where "CAP_METHOD_VALUE = 200"
definition CAP_REASON :: nat where "CAP_REASON = 200"
definition CAP_NOTE :: nat where "CAP_NOTE = 2000"
definition CAP_PICTURE_SERVER :: nat where "CAP_PICTURE_SERVER = 512"
definition CAP_BOND_ASSERTION_BYTES :: nat where "CAP_BOND_ASSERTION_BYTES = 4096"

text \<open>\<open>/^(owner|bots|quarantine|dependant:[0-9a-f]{64})$/\<close>.\<close>

definition DIRECTORY_ID :: "ustr \<Rightarrow> bool" where
  "DIRECTORY_ID s \<longleftrightarrow> s = u ''owner'' \<or> s = u ''bots'' \<or> s = u ''quarantine''
     \<or> (starts_with s (u ''dependant:'') \<and> hex64 (drop 10 s))"

text \<open>\<open>/^[0-9a-f]{1,128}$/\<close>.\<close>

definition SHARED_SECRET :: "ustr \<Rightarrow> bool" where
  "SHARED_SECRET s \<longleftrightarrow> 1 \<le> length s \<and> length s \<le> 128 \<and> list_all hex_unit s"

section \<open>Guards on one value\<close>

definition isHex :: "jsval \<Rightarrow> nat \<Rightarrow> bool" where
  "isHex v n = is_str v (is_hex_str n)"

definition isOptHex :: "jsval \<Rightarrow> nat \<Rightarrow> bool" where
  "isOptHex v n = opt_or v (isHex v n)"

definition isStr :: "jsval \<Rightarrow> nat \<Rightarrow> bool" where
  "isStr v cap = is_str v (\<lambda>s. 0 < length s \<and> length s \<le> cap)"

definition isOptStr :: "jsval \<Rightarrow> nat \<Rightarrow> bool" where
  "isOptStr v cap = opt_or v (isStr v cap)"

definition isFiniteNum :: "jsval \<Rightarrow> bool" where
  "isFiniteNum v = fin_num v (\<lambda>r. True)"

definition isTier :: "jsval \<Rightarrow> bool" where
  "isTier v \<longleftrightarrow> v = JS ''kin'' \<or> v = JS ''kith'' \<or> v = JS ''ken''"

definition isCeilingTier :: "jsval \<Rightarrow> bool" where
  "isCeilingTier v \<longleftrightarrow> isTier v \<or> v = JS ''none''"

definition isVerification :: "jsval \<Rightarrow> bool" where
  "isVerification v \<longleftrightarrow> v = JS ''unverified'' \<or> v = JS ''proven'' \<or> v = JS ''mutual''"

definition isMethodVerification :: "jsval \<Rightarrow> bool" where
  "isMethodVerification v \<longleftrightarrow> v = JS ''unverified'' \<or> v = JS ''proven''"

definition isProvenance :: "jsval \<Rightarrow> bool" where
  "isProvenance v \<longleftrightarrow> v = JS ''direct'' \<or> v = JS ''guardian-share'' \<or> v = JS ''app-proposal''
     \<or> v = JS ''legacy-import'' \<or> v = JS ''key-link''"

definition isMethodKind :: "jsval \<Rightarrow> bool" where
  "isMethodKind v \<longleftrightarrow> v = JS ''phone'' \<or> v = JS ''email'' \<or> v = JS ''website''
     \<or> v = JS ''postal-address'' \<or> v = JS ''other''"

definition isSharing :: "jsval \<Rightarrow> bool" where
  "isSharing v \<longleftrightarrow> v = JS ''private'' \<or> v = JS ''grantable''"

definition isLifecycleValue :: "jsval \<Rightarrow> bool" where
  "isLifecycleValue v \<longleftrightarrow> v = JS ''suggested'' \<or> v = JS ''pending'' \<or> v = JS ''active'' \<or> v = JS ''rejected''"

definition isRecordLifecycle :: "jsval \<Rightarrow> bool" where
  "isRecordLifecycle v \<longleftrightarrow> isLifecycleValue v \<or> v = JS ''removed''"

definition isActorRole :: "jsval \<Rightarrow> bool" where
  "isActorRole v \<longleftrightarrow> v = JS ''owner'' \<or> v = JS ''guardian'' \<or> v = JS ''dependant'' \<or> v = JS ''app''"

definition isContactType :: "jsval \<Rightarrow> bool" where
  "isContactType v \<longleftrightarrow> v = JS ''person'' \<or> v = JS ''organisation''"

definition isRoles :: "jsval \<Rightarrow> bool" where
  "isRoles v = is_arr v (\<lambda>vs. length vs \<le> CAP_ROLES \<and> list_all (\<lambda>r. isStr r CAP_ROLE) vs)"

definition everyElement :: "jsval \<Rightarrow> (jsval \<Rightarrow> bool) \<Rightarrow> bool" where
  "everyElement v guard = is_arr v (list_all (\<lambda>el. isObj el \<and> guard el))"

definition isBoundedObject :: "platform \<Rightarrow> jsval \<Rightarrow> nat \<Rightarrow> bool" where
  "isBoundedObject P v cap \<longleftrightarrow> isObj v \<and> json_len P v \<le> cap"

section \<open>Guards on the parts of a record\<close>

definition CONTACT_ORIGIN_METHODS :: "ustr list" where
  "CONTACT_ORIGIN_METHODS = map u [''qr'', ''npub'', ''nip05'', ''link'', ''import'',
     ''accepted-request'', ''app'', ''manual'']"

definition CONTACT_CHECK_METHODS :: "ustr list" where
  "CONTACT_CHECK_METHODS = map u [''words'', ''in-person'', ''nip05'', ''app-attested'']"

definition CONTACT_CHECK_SOURCES :: "ustr list" where
  "CONTACT_CHECK_SOURCES = map u [''nip05'', ''facebook'', ''instagram'', ''x'', ''youtube'',
     ''website'', ''printed-card'', ''other'']"

definition one_of :: "ustr list \<Rightarrow> jsval \<Rightarrow> bool" where
  "one_of ss v = is_str v (\<lambda>s. s \<in> set ss)"

definition max_time :: rat where
  "max_time = 253402300799999"

definition valid_stamp :: "jsval \<Rightarrow> bool" where
  "valid_stamp v = fin_num v (\<lambda>r. is_safe_integer r \<and> 0 \<le> r \<and> r \<le> max_time)"

definition short_text :: "nat \<Rightarrow> jsval \<Rightarrow> bool" where
  "short_text cap v = opt_or v (is_str v (\<lambda>s. length s \<le> cap))"

definition validContactOrigin :: "jsval \<Rightarrow> bool" where
  "validContactOrigin v \<longleftrightarrow> is_object_type v
     \<and> isHex (get v ''id'') 32
     \<and> isHex (get v ''ownerIdentityPubkey'') 64
     \<and> one_of CONTACT_ORIGIN_METHODS (get v ''method'') \<and> valid_stamp (get v ''addedAt'')
     \<and> isOptHex (get v ''inviteId'') 32
     \<and> list_all (short_text 200) [get v ''inviteName'', get v ''caption'', get v ''appName'']"

definition validContactCheck :: "jsval \<Rightarrow> bool" where
  "validContactCheck v \<longleftrightarrow> is_object_type v
     \<and> isHex (get v ''id'') 32
     \<and> isHex (get v ''identityPubkey'') 64
     \<and> isHex (get v ''ownerIdentityPubkey'') 64
     \<and> one_of CONTACT_CHECK_METHODS (get v ''method'') \<and> valid_stamp (get v ''checkedAt'')
     \<and> opt_or (get v ''source'') (one_of CONTACT_CHECK_SOURCES (get v ''source''))
     \<and> short_text 2000 (get v ''evidence'')"

definition validPicturePointer :: "platform \<Rightarrow> jsval \<Rightarrow> bool" where
  "validPicturePointer P v = (case v of
      JObj ps \<Rightarrow> length ps = 4
        \<and> list_all (\<lambda>k. k \<in> set (map fst ps)) (map u [''server'', ''hash'', ''key'', ''plainHash''])
        \<and> is_str (get v ''server'') (\<lambda>s. 0 < length s \<and> length s \<le> CAP_PICTURE_SERVER
            \<and> starts_with s (u ''https://'') \<and> isSafeBlossomBase P s)
        \<and> isHex (get v ''hash'') 64 \<and> isHex (get v ''key'') 64 \<and> isHex (get v ''plainHash'') 64
    | _ \<Rightarrow> False)"

definition validCheckRecord :: "jsval \<Rightarrow> bool" where
  "validCheckRecord c \<longleftrightarrow> isHex (get c ''pubkey'') 64
     \<and> one_of CONTACT_CHECK_METHODS (get c ''method'')
     \<and> fin_num (get c ''checkedAt'') (\<lambda>r. is_safe_integer r \<and> 0 \<le> r)"

definition validSharedCheck :: "jsval \<Rightarrow> bool" where
  "validSharedCheck c \<longleftrightarrow> isHex (get c ''pubkey'') 64 \<and> isVerification (get c ''verification'')
     \<and> opt_or (get c ''verifiedAt'') (fin_num (get c ''verifiedAt'') (\<lambda>r. 0 \<le> r))"

definition validSharedContext :: "jsval \<Rightarrow> bool" where
  "validSharedContext v \<longleftrightarrow> isObj v \<and> isHex (get v ''guardianPubkey'') 64
     \<and> opt_or (get v ''tier'') (isTier (get v ''tier''))
     \<and> opt_or (get v ''blocked'') (is_bool (get v ''blocked''))
     \<and> opt_or (get v ''checkRecords'') (is_arr (get v ''checkRecords'') (\<lambda>cs. length cs \<le> 128)
          \<and> everyElement (get v ''checkRecords'') validCheckRecord)
     \<and> opt_or (get v ''checks'') (everyElement (get v ''checks'') validSharedCheck)"

definition validIntroduction :: "jsval \<Rightarrow> bool" where
  "validIntroduction v \<longleftrightarrow> isObj v \<and> isHex (get v ''grantId'') 32
     \<and> isHex (get v ''ownerIdentityPubkey'') 64 \<and> isHex (get v ''pubkey'') 64
     \<and> isStr (get v ''displayName'') CAP_NAME \<and> isOptStr (get v ''appName'') CAP_NAME"

definition isDirect :: "platform \<Rightarrow> jsval \<Rightarrow> bool" where
  "isDirect P v \<longleftrightarrow> isObj v \<and> isHex (get v ''ownerPubkey'') 64 \<and> isFiniteNum (get v ''verifiedAt'')
     \<and> opt_or (get v ''sharedSecret'') (is_str (get v ''sharedSecret'') SHARED_SECRET)
     \<and> opt_or (get v ''groupId'') (isStr (get v ''groupId'') CAP_LABEL)
     \<and> opt_or (get v ''isDefaultForGroup'') (is_bool (get v ''isDefaultForGroup''))
     \<and> opt_or (get v ''bondAssertion'') (isBoundedObject P (get v ''bondAssertion'') CAP_BOND_ASSERTION_BYTES)"

definition isScope :: "jsval \<Rightarrow> bool" where
  "isScope v \<longleftrightarrow> isObj v \<and> (get v ''kind'' = JS ''contact''
     \<or> get v ''kind'' = JS ''identity'' \<and> isHex (get v ''itemId'') 32)"

section \<open>Operations\<close>

definition ACTIONS :: "ustr list" where
  "ACTIONS = map u [''add'', ''rename'', ''set-tier'', ''set-roles'', ''add-identity'', ''update-identity'',
     ''add-method'', ''update-method'', ''remove-item'', ''evidence'', ''vouch'', ''revoke-vouch'',
     ''ceiling'', ''revoke-ceiling'', ''block'', ''unblock'', ''set-lifecycle'', ''archive'',
     ''remove'', ''key-link'', ''note'', ''set-picture'', ''clear-picture'', ''link-list'', ''unlink-list'',
     ''app-propose-list'', ''review-app-list'', ''receive-share'', ''record-share'', ''record-check'',
     ''remove-check'', ''record-origin'', ''remove-origin'']"

definition APP_ALLOWED_ACTIONS :: "ustr list" where
  "APP_ALLOWED_ACTIONS = map u [''add'', ''add-identity'', ''add-method'', ''app-propose-list'']"

text \<open>
  The action-specific guard, with the operation's \<open>targetOperationId\<close> as its last argument. Only an
  \<open>add-identity\<close> that names a \<open>linkedFromItemId\<close> converts a value with \<open>String\<close>.
\<close>

definition validateAdd :: "jsval \<Rightarrow> bool" where
  "validateAdd v \<longleftrightarrow> isObj v \<and> isContactType (get v ''type'')
     \<and> isStr (get v ''displayName'') CAP_NAME \<and> isTier (get v ''tier'')
     \<and> opt_or (get v ''roles'') (isRoles (get v ''roles''))
     \<and> opt_or (get v ''lifecycle'') (isLifecycleValue (get v ''lifecycle''))
     \<and> isOptHex (get v ''ownerIdentityPubkey'') 64
     \<and> opt_or (get v ''appIntroduction'') (validIntroduction (get v ''appIntroduction''))"

definition validIdentityHead :: "jsval \<Rightarrow> bool" where
  "validIdentityHead v \<longleftrightarrow> isObj v \<and> isHex (get v ''itemId'') 32 \<and> isHex (get v ''pubkey'') 64
     \<and> isOptStr (get v ''label'') CAP_LABEL"

definition validateAddIdentity :: "platform \<Rightarrow> jsval \<Rightarrow> bool option" where
  "validateAddIdentity P v =
     and_then (validIdentityHead v \<and> isProvenance (get v ''provenance'') \<and> isVerification (get v ''verification'')
         \<and> opt_or (get v ''direct'') (isDirect P (get v ''direct'')))
       (if get v ''linkedFromItemId'' = JUndef then Some True
        else map_option hex32 (js_String P (get v ''linkedFromItemId'')))"

definition validateUpdateIdentity :: "platform \<Rightarrow> jsval \<Rightarrow> bool" where
  "validateUpdateIdentity P v \<longleftrightarrow> isObj v \<and> isHex (get v ''itemId'') 32 \<and> isOptStr (get v ''label'') CAP_LABEL
     \<and> opt_or (get v ''verification'') (isVerification (get v ''verification''))
     \<and> opt_or (get v ''direct'') (isDirect P (get v ''direct''))"

definition validateAddMethod :: "jsval \<Rightarrow> bool" where
  "validateAddMethod v \<longleftrightarrow> isObj v \<and> isHex (get v ''itemId'') 32
     \<and> isMethodKind (get v ''kind'') \<and> isStr (get v ''value'') CAP_METHOD_VALUE
     \<and> isOptStr (get v ''label'') CAP_LABEL
     \<and> isMethodVerification (get v ''verification'') \<and> isSharing (get v ''sharingPolicy'')"

definition validateUpdateMethod :: "jsval \<Rightarrow> bool" where
  "validateUpdateMethod v \<longleftrightarrow> isObj v \<and> isHex (get v ''itemId'') 32 \<and> isOptStr (get v ''label'') CAP_LABEL
     \<and> opt_or (get v ''value'') (isStr (get v ''value'') CAP_METHOD_VALUE)
     \<and> opt_or (get v ''verification'') (isMethodVerification (get v ''verification''))
     \<and> opt_or (get v ''sharingPolicy'') (isSharing (get v ''sharingPolicy''))"

definition validateValue :: "platform \<Rightarrow> ustr \<Rightarrow> jsval \<Rightarrow> jsval \<Rightarrow> bool option" where
  "validateValue P act v target =
    (if act = u ''add'' then Some (validateAdd v)
     else if act = u ''app-propose-list'' then Some (validIntroduction v)
     else if act = u ''receive-share'' then Some (validSharedContext v)
     else if act = u ''record-share'' then Some (isObj v \<and> is_str (get v ''directoryId'') DIRECTORY_ID
       \<and> isHex (get v ''contactId'') 32)
     else if act = u ''review-app-list'' then Some (isObj v \<and> isHex (get v ''grantId'') 32 \<and> is_bool (get v ''accept''))
     else if act = u ''link-list'' then Some (isObj v \<and> isHex (get v ''ownerIdentityPubkey'') 64)
     else if act = u ''unlink-list'' then Some (isObj v \<and> isHex (get v ''ownerIdentityPubkey'') 64)
     else if act = u ''record-origin'' then Some (validContactOrigin v)
     else if act = u ''remove-origin'' then Some (isObj v \<and> isHex (get v ''id'') 32)
     else if act = u ''record-check'' then Some (validContactCheck v)
     else if act = u ''remove-check'' then Some (isObj v \<and> isHex (get v ''id'') 32)
     else if act = u ''rename'' then Some (isObj v \<and> isStr (get v ''displayName'') CAP_NAME)
     else if act = u ''set-tier'' then Some (isObj v \<and> isTier (get v ''tier''))
     else if act = u ''set-roles'' then Some (isObj v \<and> isRoles (get v ''roles''))
     else if act = u ''add-identity'' then validateAddIdentity P v
     else if act = u ''key-link'' then Some (validIdentityHead v \<and> isHex (get v ''linkedFromItemId'') 32)
     else if act = u ''update-identity'' then Some (validateUpdateIdentity P v)
     else if act = u ''evidence'' then Some (validateUpdateIdentity P v)
     else if act = u ''add-method'' then Some (validateAddMethod v)
     else if act = u ''update-method'' then Some (validateUpdateMethod v)
     else if act = u ''remove-item'' then Some (isObj v \<and> isHex (get v ''itemId'') 32)
     else if act = u ''vouch'' then Some (isObj v \<and> isHex (get v ''guardianPubkey'') 64
       \<and> isTier (get v ''tier'') \<and> isOptStr (get v ''role'') CAP_ROLE)
     else if act = u ''revoke-vouch'' then Some (isObj v \<and> isHex target 32)
     else if act = u ''ceiling'' then Some (isObj v \<and> isHex (get v ''guardianPubkey'') 64
       \<and> isCeilingTier (get v ''maxTier''))
     else if act = u ''revoke-ceiling'' then Some (isObj v \<and> isHex (get v ''guardianPubkey'') 64)
     else if act = u ''block'' then Some (isObj v \<and> isScope (get v ''scope'') \<and> isOptStr (get v ''reason'') CAP_REASON)
     else if act = u ''unblock'' then Some (isObj v \<and> isHex target 32)
     else if act = u ''set-lifecycle'' then Some (isObj v \<and> isLifecycleValue (get v ''lifecycle''))
     else if act = u ''note'' then Some (isObj v \<and> is_str (get v ''note'') (\<lambda>s. length s \<le> CAP_NOTE))
     else if act = u ''set-picture'' then Some (validPicturePointer P v)
     else if act = u ''clear-picture'' then Some (v = JObj [])
     else if act = u ''remove'' then Some (isObj v)
     else if act = u ''archive'' then Some (isObj v)
     else Some False)"

definition validEnvelope :: "jsval \<Rightarrow> bool" where
  "validEnvelope v \<longleftrightarrow> isObj v
     \<and> isOptHex (get v ''ownerIdentityPubkey'') 64
     \<and> isHex (get v ''operationId'') 32
     \<and> is_str (get v ''directoryId'') DIRECTORY_ID
     \<and> isHex (get v ''contactId'') 32
     \<and> isOptHex (get v ''itemId'') 32
     \<and> isHex (get v ''actorPubkey'') 64
     \<and> isActorRole (get v ''actorRole'')
     \<and> isHex (get v ''actorDeviceId'') 32
     \<and> fin_num (get v ''logicalClock'') (\<lambda>r. is_int_rat r \<and> 1 \<le> r)
     \<and> fin_num (get v ''createdAt'') (\<lambda>r. 0 \<le> r)
     \<and> isOptHex (get v ''targetOperationId'') 32
     \<and> one_of ACTIONS (get v ''action'')"

text \<open>The guards that look at the actor and the action together.\<close>

definition actorMay :: "jsval \<Rightarrow> bool" where
  "actorMay v \<longleftrightarrow>
     \<not> (get v ''actorRole'' = JS ''app'' \<and> \<not> one_of APP_ALLOWED_ACTIONS (get v ''action''))
     \<and> \<not> (get v ''actorRole'' = JS ''dependant''
          \<and> (get v ''action'' = JS ''set-picture'' \<or> get v ''action'' = JS ''clear-picture''))
     \<and> \<not> (get v ''actorRole'' = JS ''app'' \<and> get v ''action'' = JS ''add'' \<and> isObj (get v ''value'')
          \<and> get (get v ''value'') ''ownerIdentityPubkey'' \<noteq> JUndef)
     \<and> \<not> ((get v ''action'' = JS ''record-check'' \<or> get v ''action'' = JS ''record-origin'')
          \<and> (\<not> isObj (get v ''value'')
             \<or> get v ''ownerIdentityPubkey'' \<noteq> get (get v ''value'') ''ownerIdentityPubkey''))
     \<and> \<not> (get v ''action'' = JS ''block'' \<and> get (get v ''value'') ''blockedBy'' \<noteq> JUndef
          \<and> get (get v ''value'') ''blockedBy'' \<noteq> get v ''actorPubkey'')"

definition validateOperation :: "platform \<Rightarrow> jsval \<Rightarrow> bool option" where
  "validateOperation P v =
     and_then (validEnvelope v \<and> actorMay v)
       (case get v ''action'' of
          JStr act \<Rightarrow> validateValue P act (get v ''value'') (get v ''targetOperationId'')
        | _ \<Rightarrow> Some False)"

section \<open>Records read back\<close>

definition isVouchFact :: "jsval \<Rightarrow> bool" where
  "isVouchFact v \<longleftrightarrow> isHex (get v ''guardianPubkey'') 64 \<and> isHex (get v ''operationId'') 32
     \<and> isTier (get v ''tier'') \<and> isFiniteNum (get v ''createdAt'')
     \<and> isOptStr (get v ''role'') CAP_ROLE \<and> isOptHex (get v ''revokedByOperationId'') 32"

definition isCeilingFact :: "jsval \<Rightarrow> bool" where
  "isCeilingFact v \<longleftrightarrow> isHex (get v ''guardianPubkey'') 64 \<and> isHex (get v ''operationId'') 32
     \<and> isCeilingTier (get v ''maxTier'') \<and> isFiniteNum (get v ''createdAt'')
     \<and> isOptHex (get v ''revokedByOperationId'') 32"

definition isBlockFact :: "jsval \<Rightarrow> bool" where
  "isBlockFact v \<longleftrightarrow> isHex (get v ''blockedBy'') 64 \<and> isHex (get v ''operationId'') 32
     \<and> isScope (get v ''scope'') \<and> isFiniteNum (get v ''blockedAt'')
     \<and> isOptStr (get v ''reason'') CAP_REASON \<and> isOptHex (get v ''liftedByOperationId'') 32"

definition isIdentityItem :: "jsval \<Rightarrow> bool" where
  "isIdentityItem v \<longleftrightarrow> isHex (get v ''itemId'') 32 \<and> isHex (get v ''pubkey'') 64
     \<and> isProvenance (get v ''provenance'') \<and> isVerification (get v ''verification'')
     \<and> isFiniteNum (get v ''addedAt'')"

definition isMethodItem :: "jsval \<Rightarrow> bool" where
  "isMethodItem v \<longleftrightarrow> isHex (get v ''itemId'') 32 \<and> isMethodKind (get v ''kind'')
     \<and> is_str (get v ''value'') (\<lambda>s. length s \<le> CAP_METHOD_VALUE)
     \<and> isMethodVerification (get v ''verification'') \<and> isSharing (get v ''sharingPolicy'')
     \<and> isFiniteNum (get v ''addedAt'')"

text \<open>\<open>validContactLists\<close>: the loop carries the owners seen; it gives the active ones, or fails.\<close>

definition valid_time :: "jsval \<Rightarrow> bool" where
  "valid_time v = fin_num v (\<lambda>r. 0 \<le> r)"

fun scan_lists :: "jsval list \<Rightarrow> ustr list \<Rightarrow> ustr list \<Rightarrow> ustr list option" where
  "scan_lists [] seen active = Some active"
| "scan_lists (m # ms) seen active =
     (case get m ''ownerIdentityPubkey'' of
        JStr owner \<Rightarrow>
          if \<not> is_object_type m \<or> \<not> hex64 owner \<or> owner \<in> set seen
             \<or> \<not> valid_time (get m ''addedAt'')
             \<or> (get m ''removedAt'' \<noteq> JUndef \<and> \<not> valid_time (get m ''removedAt''))
          then None
          else scan_lists ms (owner # seen) (if get m ''removedAt'' = JUndef then active @ [owner] else active)
      | _ \<Rightarrow> None)"

definition validContactLists :: "jsval \<Rightarrow> bool" where
  "validContactLists raw =
     (case get raw ''listMemberships'' of
        JUndef \<Rightarrow> get raw ''primaryIdentityPubkey'' = JUndef
      | JArr ms \<Rightarrow> (case scan_lists ms [] [] of
            None \<Rightarrow> False
          | Some active \<Rightarrow>
              if active = [] then get raw ''primaryIdentityPubkey'' = JUndef
              else is_str (get raw ''primaryIdentityPubkey'') (\<lambda>p. p \<in> set active))
      | _ \<Rightarrow> False)"

definition validAppIntroduction :: "platform \<Rightarrow> jsval \<Rightarrow> bool option" where
  "validAppIntroduction P v =
     and_then (isObj v \<and> validIntroduction v)
       (case js_String P (get v ''status'') of
          None \<Rightarrow> None
        | Some s \<Rightarrow> Some (s \<in> {u ''pending'', u ''accepted'', u ''rejected''}
            \<and> is_bool (get v ''restricted'')
            \<and> fin_num (get v ''logicalClock'') (\<lambda>r. is_int_rat r \<and> 0 < r)
            \<and> fin_num (get v ''createdAt'') (\<lambda>r. 0 \<le> r)))"

definition validAppIntroductions :: "platform \<Rightarrow> jsval \<Rightarrow> bool option" where
  "validAppIntroductions P v = (case v of
      JUndef \<Rightarrow> Some True
    | JArr vs \<Rightarrow> (case every_opt (validAppIntroduction P) vs of
          None \<Rightarrow> None
        | Some b \<Rightarrow> Some (b \<and> distinct (map (\<lambda>i. get i ''grantId'') vs)))
    | _ \<Rightarrow> Some False)"

definition validSent :: "jsval \<Rightarrow> bool" where
  "validSent v \<longleftrightarrow> is_str (get v ''directoryId'') DIRECTORY_ID \<and> isHex (get v ''contactId'') 32
     \<and> isFiniteNum (get v ''sharedAt'')"

text \<open>What is checked before the introductions, and what is checked after them.\<close>

definition validRecordHead :: "jsval \<Rightarrow> bool" where
  "validRecordHead raw \<longleftrightarrow> isObj raw \<and> validContactLists raw
     \<and> opt_or (get raw ''origins'') (is_arr (get raw ''origins'') (\<lambda>vs. length vs \<le> 64 \<and> list_all validContactOrigin vs))
     \<and> opt_or (get raw ''checks'') (is_arr (get raw ''checks'') (\<lambda>vs. length vs \<le> 128 \<and> list_all validContactCheck vs))
     \<and> opt_or (get raw ''mergedContactIds'') (is_arr (get raw ''mergedContactIds'') (list_all (\<lambda>i. isHex i 32)))
     \<and> opt_or (get raw ''sharedContexts'') (everyElement (get raw ''sharedContexts'')
          (\<lambda>v. validSharedContext v \<and> isFiniteNum (get v ''receivedAt'')))
     \<and> opt_or (get raw ''sharesSent'') (everyElement (get raw ''sharesSent'') validSent)"

definition validRecordBody :: "platform \<Rightarrow> jsval \<Rightarrow> bool" where
  "validRecordBody P raw \<longleftrightarrow> isStr (get raw ''directoryId'') 120
     \<and> isHex (get raw ''contactId'') 32
     \<and> isContactType (get raw ''type'')
     \<and> is_str (get raw ''displayName'') (\<lambda>s. length s \<le> CAP_NAME)
     \<and> isTier (get raw ''tier'')
     \<and> opt_or (get raw ''tierSetByActorRole'') (isActorRole (get raw ''tierSetByActorRole''))
     \<and> isRoles (get raw ''roles'')
     \<and> everyElement (get raw ''identities'') isIdentityItem
     \<and> everyElement (get raw ''contactMethods'') isMethodItem
     \<and> everyElement (get raw ''accessGrants'') (\<lambda>v. True)
     \<and> isRecordLifecycle (get raw ''lifecycle'')
     \<and> isFiniteNum (get raw ''createdAt'') \<and> isFiniteNum (get raw ''updatedAt'')
     \<and> opt_or (get raw ''removedAt'') (isFiniteNum (get raw ''removedAt''))
     \<and> opt_or (get raw ''archived'') (is_bool (get raw ''archived''))
     \<and> isActorRole (get raw ''createdByActorRole'')
     \<and> isHex (get raw ''createdByOperationId'') 32
     \<and> everyElement (get raw ''vouches'') isVouchFact
     \<and> everyElement (get raw ''ceilings'') isCeilingFact
     \<and> everyElement (get raw ''blocks'') isBlockFact
     \<and> opt_or (get raw ''notes'') (is_str (get raw ''notes'') (\<lambda>s. length s \<le> CAP_NOTE))
     \<and> opt_or (get raw ''picture'') (validPicturePointer P (get raw ''picture''))"

definition validateRecord :: "platform \<Rightarrow> jsval \<Rightarrow> bool option" where
  "validateRecord P raw = and_then (validRecordHead raw)
     (case validAppIntroductions P (get raw ''appIntroductions'') of
        None \<Rightarrow> None
      | Some b \<Rightarrow> and_then b (Some (validRecordBody P raw)))"

end
