(* ===== verification/Contact_Decode.thy ===== *)
theory Contact_Decode
  imports Contact_Guards
begin

text \<open>
  The typed reading of a guarded value: what the TypeScript casts \<open>op.value as AddContactValue\<close>
  \dots\ rely on. Each \<open>cast\<close> reads exactly the fields the interface of \<open>src/types/contacts-v2.ts\<close>
  names; the \<open>wf\<close> predicates are the bounds the guards leave on the typed value. The lemmas show that
  a value its guard accepts always has a typed reading within those bounds.
\<close>

named_theorems guard_simps \<open>the guards of this component\<close>
named_theorems wf_simps \<open>the bounds on typed values\<close>

declare isHex_def [guard_simps] isOptHex_def [guard_simps] isStr_def [guard_simps]
  isOptStr_def [guard_simps] isFiniteNum_def [guard_simps] isTier_def [guard_simps]
  isCeilingTier_def [guard_simps] isVerification_def [guard_simps] isMethodVerification_def [guard_simps]
  isProvenance_def [guard_simps] isMethodKind_def [guard_simps] isSharing_def [guard_simps]
  isLifecycleValue_def [guard_simps] isRecordLifecycle_def [guard_simps] isActorRole_def [guard_simps]
  isContactType_def [guard_simps] opt_or_def [guard_simps] js_iffs [guard_simps]

section \<open>Tables of names\<close>

definition tiers :: "(string \<times> tier) list" where
  "tiers = [(''kin'', Kin), (''kith'', Kith), (''ken'', Ken)]"

definition ceiling_tiers :: "(string \<times> ceiling_tier) list" where
  "ceiling_tiers = [(''kin'', AtMost Kin), (''kith'', AtMost Kith), (''ken'', AtMost Ken), (''none'', NoTier)]"

definition contact_types :: "(string \<times> contact_type) list" where
  "contact_types = [(''person'', Person), (''organisation'', Organisation)]"

definition lifecycles :: "(string \<times> lifecycle) list" where
  "lifecycles = [(''suggested'', Suggested), (''pending'', Pending), (''active'', Active), (''rejected'', Rejected)]"

definition verifications :: "(string \<times> verification) list" where
  "verifications = [(''unverified'', Unverified), (''proven'', Proven), (''mutual'', Mutual)]"

definition method_verifications :: "(string \<times> method_verification) list" where
  "method_verifications = [(''unverified'', MethodUnverified), (''proven'', MethodProven)]"

definition provenances :: "(string \<times> provenance) list" where
  "provenances = [(''direct'', Direct), (''guardian-share'', GuardianShare), (''app-proposal'', AppProposal),
     (''legacy-import'', LegacyImport), (''key-link'', KeyLinked)]"

definition method_kinds :: "(string \<times> method_kind) list" where
  "method_kinds = [(''phone'', Phone), (''email'', Email), (''website'', Website),
     (''postal-address'', PostalAddress), (''other'', OtherMethod)]"

definition sharings :: "(string \<times> sharing) list" where
  "sharings = [(''private'', Private), (''grantable'', Grantable)]"

definition actor_roles :: "(string \<times> actor_role) list" where
  "actor_roles = [(''owner'', Owner), (''guardian'', Guardian), (''dependant'', Dependant), (''app'', App)]"

declare tiers_def [guard_simps] ceiling_tiers_def [guard_simps] contact_types_def [guard_simps]
  lifecycles_def [guard_simps] verifications_def [guard_simps] method_verifications_def [guard_simps]
  provenances_def [guard_simps] method_kinds_def [guard_simps] sharings_def [guard_simps]
  actor_roles_def [guard_simps]

lemma read_hex [reads]: "isHex v n \<Longrightarrow> yields (as_str v) (is_hex_str n)"
  by (auto simp: guard_simps)

lemma read_text [reads]: "isStr v n \<Longrightarrow> yields (as_str v) (\<lambda>s. s \<noteq> [] \<and> length s \<le> n)"
  by (auto simp: guard_simps)

lemma read_one_of [reads]: "one_of ss v \<Longrightarrow> yields (as_str v) (\<lambda>s. s \<in> set ss)"
  by (auto simp: one_of_def guard_simps)

lemma read_finite [reads]: "isFiniteNum v \<Longrightarrow> yields (as_num v) (\<lambda>r. True)"
  by (auto simp: guard_simps)

lemma read_tier [reads]: "isTier v \<Longrightarrow> yields (as_enum tiers v) (\<lambda>t. True)"
  by (auto simp: guard_simps)

lemma read_ceiling [reads]: "isCeilingTier v \<Longrightarrow> yields (as_enum ceiling_tiers v) (\<lambda>t. True)"
  by (auto simp: guard_simps)

lemma read_contact_type [reads]: "isContactType v \<Longrightarrow> yields (as_enum contact_types v) (\<lambda>t. True)"
  by (auto simp: guard_simps)

lemma read_lifecycle [reads]: "isLifecycleValue v \<Longrightarrow> yields (as_enum lifecycles v) (\<lambda>t. t \<noteq> Removed)"
  by (auto simp: guard_simps)

lemma read_verification [reads]: "isVerification v \<Longrightarrow> yields (as_enum verifications v) (\<lambda>t. True)"
  by (auto simp: guard_simps)

lemma read_method_verification [reads]:
  "isMethodVerification v \<Longrightarrow> yields (as_enum method_verifications v) (\<lambda>t. True)"
  by (auto simp: guard_simps)

lemma read_provenance [reads]: "isProvenance v \<Longrightarrow> yields (as_enum provenances v) (\<lambda>t. True)"
  by (auto simp: guard_simps)

lemma read_method_kind [reads]: "isMethodKind v \<Longrightarrow> yields (as_enum method_kinds v) (\<lambda>t. True)"
  by (auto simp: guard_simps)

lemma read_sharing [reads]: "isSharing v \<Longrightarrow> yields (as_enum sharings v) (\<lambda>t. True)"
  by (auto simp: guard_simps)

lemma read_actor_role [reads]: "isActorRole v \<Longrightarrow> yields (as_enum actor_roles v) (\<lambda>t. True)"
  by (auto simp: guard_simps)

lemma read_roles [reads]:
  "isRoles v \<Longrightarrow> yields (as_list as_str v)
     (\<lambda>rs. list_all (\<lambda>r. r \<noteq> [] \<and> length r \<le> CAP_ROLE) rs \<and> length rs \<le> CAP_ROLES)"
  unfolding isRoles_def by (erule read_arr) (simp add: list_all_iff read_text)

lemma read_opt_hex [reads]: "isOptHex v n \<Longrightarrow> yields (as_opt as_str v) (pred_option (is_hex_str n))"
  unfolding isOptHex_def by (erule yields_opt, erule reads)

lemma read_opt_text [reads]:
  "isOptStr v n \<Longrightarrow> yields (as_opt as_str v) (pred_option (\<lambda>s. s \<noteq> [] \<and> length s \<le> n))"
  unfolding isOptStr_def by (erule yields_opt, erule reads)

lemma read_short [reads]: "short_text n v \<Longrightarrow> yields (as_opt as_str v) (pred_option (\<lambda>s. length s \<le> n))"
  unfolding short_text_def by (erule yields_opt, erule reads)

section \<open>The parts of a record\<close>

abbreviation text_upto :: "nat \<Rightarrow> ustr \<Rightarrow> bool" where
  "text_upto n s \<equiv> s \<noteq> [] \<and> length s \<le> n"

abbreviation stamp :: "rat \<Rightarrow> bool" where
  "stamp r \<equiv> is_safe_integer r \<and> 0 \<le> r \<and> r \<le> max_time"

definition cast_intro :: "jsval \<Rightarrow> intro_value option" where
  "cast_intro v = do {
     g \<leftarrow> as_str (get v ''grantId''); w \<leftarrow> as_str (get v ''ownerIdentityPubkey'');
     p \<leftarrow> as_str (get v ''pubkey''); d \<leftarrow> as_str (get v ''displayName'');
     a \<leftarrow> as_opt as_str (get v ''appName'');
     Some \<lparr>iv_grantId = g, iv_owner = w, iv_pubkey = p, iv_displayName = d, iv_appName = a\<rparr> }"

definition wf_intro :: "intro_value \<Rightarrow> bool" where
  "wf_intro i \<longleftrightarrow> hex32 (iv_grantId i) \<and> hex64 (iv_owner i) \<and> hex64 (iv_pubkey i)
     \<and> text_upto CAP_NAME (iv_displayName i) \<and> pred_option (text_upto CAP_NAME) (iv_appName i)"

lemma read_intro [reads]: "validIntroduction v \<Longrightarrow> yields (cast_intro v) wf_intro"
  unfolding validIntroduction_def cast_intro_def
  by (elim conjE, (rule yields_bind, erule reads)+, simp add: wf_intro_def)

definition cast_origin :: "jsval \<Rightarrow> contact_origin option" where
  "cast_origin v = do {
     i \<leftarrow> as_str (get v ''id''); w \<leftarrow> as_str (get v ''ownerIdentityPubkey'');
     m \<leftarrow> as_str (get v ''method''); t \<leftarrow> as_num (get v ''addedAt'');
     n \<leftarrow> as_opt as_str (get v ''inviteId''); nn \<leftarrow> as_opt as_str (get v ''inviteName'');
     c \<leftarrow> as_opt as_str (get v ''caption''); a \<leftarrow> as_opt as_str (get v ''appName'');
     Some \<lparr>co_id = i, co_owner = w, co_method = m, co_addedAt = t, co_inviteId = n,
           co_inviteName = nn, co_caption = c, co_appName = a\<rparr> }"

definition wf_origin :: "contact_origin \<Rightarrow> bool" where
  "wf_origin c \<longleftrightarrow> hex32 (co_id c) \<and> hex64 (co_owner c) \<and> co_method c \<in> set CONTACT_ORIGIN_METHODS
     \<and> stamp (co_addedAt c) \<and> pred_option hex32 (co_inviteId c)
     \<and> pred_option (\<lambda>s. length s \<le> 200) (co_inviteName c)
     \<and> pred_option (\<lambda>s. length s \<le> 200) (co_caption c)
     \<and> pred_option (\<lambda>s. length s \<le> 200) (co_appName c)"

lemma read_stamp [reads]: "valid_stamp v \<Longrightarrow> yields (as_num v) stamp"
  unfolding valid_stamp_def by (rule read_num)

lemma read_origin [reads]: "validContactOrigin v \<Longrightarrow> yields (cast_origin v) wf_origin"
  unfolding validContactOrigin_def cast_origin_def list.pred_inject
  by (elim conjE, (rule yields_bind, erule reads)+, simp add: wf_origin_def)

definition cast_check :: "jsval \<Rightarrow> contact_check option" where
  "cast_check v = do {
     i \<leftarrow> as_str (get v ''id''); k \<leftarrow> as_str (get v ''identityPubkey'');
     w \<leftarrow> as_str (get v ''ownerIdentityPubkey''); m \<leftarrow> as_str (get v ''method'');
     t \<leftarrow> as_num (get v ''checkedAt''); s \<leftarrow> as_opt as_str (get v ''source'');
     e \<leftarrow> as_opt as_str (get v ''evidence'');
     Some \<lparr>cc_id = i, cc_identity = k, cc_owner = w, cc_method = m, cc_checkedAt = t,
           cc_source = s, cc_evidence = e\<rparr> }"

definition wf_check :: "contact_check \<Rightarrow> bool" where
  "wf_check c \<longleftrightarrow> hex32 (cc_id c) \<and> hex64 (cc_identity c) \<and> hex64 (cc_owner c)
     \<and> cc_method c \<in> set CONTACT_CHECK_METHODS \<and> stamp (cc_checkedAt c)
     \<and> pred_option (\<lambda>s. s \<in> set CONTACT_CHECK_SOURCES) (cc_source c)
     \<and> pred_option (\<lambda>s. length s \<le> 2000) (cc_evidence c)"

lemma read_check [reads]: "validContactCheck v \<Longrightarrow> yields (cast_check v) wf_check"
  unfolding validContactCheck_def cast_check_def
  by (elim conjE, (rule yields_bind, (erule reads | (erule yields_opt, erule reads)))+, simp add: wf_check_def)

definition cast_picture :: "jsval \<Rightarrow> picture_pointer option" where
  "cast_picture v = do {
     s \<leftarrow> as_str (get v ''server''); h \<leftarrow> as_str (get v ''hash'');
     k \<leftarrow> as_str (get v ''key''); p \<leftarrow> as_str (get v ''plainHash'');
     Some \<lparr>pp_server = s, pp_hash = h, pp_key = k, pp_plainHash = p\<rparr> }"

definition wf_picture :: "platform \<Rightarrow> picture_pointer \<Rightarrow> bool" where
  "wf_picture P p \<longleftrightarrow> text_upto CAP_PICTURE_SERVER (pp_server p) \<and> starts_with (pp_server p) (u ''https://'')
     \<and> isSafeBlossomBase P (pp_server p) \<and> hex64 (pp_hash p) \<and> hex64 (pp_key p) \<and> hex64 (pp_plainHash p)"

lemma read_picture [reads]: "validPicturePointer P v \<Longrightarrow> yields (cast_picture v) (wf_picture P)"
proof -
  assume "validPicturePointer P v"
  then have "is_str (get v ''server'') (\<lambda>s. 0 < length s \<and> length s \<le> CAP_PICTURE_SERVER
            \<and> starts_with s (u ''https://'') \<and> isSafeBlossomBase P s)"
    and "isHex (get v ''hash'') 64" and "isHex (get v ''key'') 64" and "isHex (get v ''plainHash'') 64"
    by (auto simp: validPicturePointer_def split: jsval.splits)
  then show ?thesis
    unfolding cast_picture_def by - ((rule yields_bind, erule reads)+, simp add: wf_picture_def)
qed

definition cast_check_record :: "jsval \<Rightarrow> shared_check_record option" where
  "cast_check_record v = do {
     p \<leftarrow> as_str (get v ''pubkey''); m \<leftarrow> as_str (get v ''method''); t \<leftarrow> as_num (get v ''checkedAt'');
     Some \<lparr>sr_pubkey = p, sr_method = m, sr_checkedAt = t\<rparr> }"

definition wf_check_record :: "shared_check_record \<Rightarrow> bool" where
  "wf_check_record r \<longleftrightarrow> hex64 (sr_pubkey r) \<and> sr_method r \<in> set CONTACT_CHECK_METHODS
     \<and> is_safe_integer (sr_checkedAt r) \<and> 0 \<le> sr_checkedAt r"

lemma read_check_record [reads]: "validCheckRecord v \<Longrightarrow> yields (cast_check_record v) wf_check_record"
  unfolding validCheckRecord_def cast_check_record_def
  by (elim conjE, (rule yields_bind, erule reads)+, simp add: wf_check_record_def)

definition cast_shared_check :: "jsval \<Rightarrow> shared_check option" where
  "cast_shared_check v = do {
     p \<leftarrow> as_str (get v ''pubkey''); c \<leftarrow> as_enum verifications (get v ''verification'');
     t \<leftarrow> as_opt as_num (get v ''verifiedAt'');
     Some \<lparr>sk_pubkey = p, sk_verification = c, sk_verifiedAt = t\<rparr> }"

definition wf_shared_check :: "shared_check \<Rightarrow> bool" where
  "wf_shared_check c \<longleftrightarrow> hex64 (sk_pubkey c) \<and> pred_option (\<lambda>t. 0 \<le> t) (sk_verifiedAt c)"

lemma read_shared_check [reads]: "validSharedCheck v \<Longrightarrow> yields (cast_shared_check v) wf_shared_check"
  unfolding validSharedCheck_def cast_shared_check_def
  by (elim conjE, (rule yields_bind, (erule reads | (erule yields_opt, erule reads)))+,
      simp add: wf_shared_check_def)

definition cast_shared :: "jsval \<Rightarrow> shared_value option" where
  "cast_shared v = do {
     g \<leftarrow> as_str (get v ''guardianPubkey''); t \<leftarrow> as_opt (as_enum tiers) (get v ''tier'');
     b \<leftarrow> as_opt as_bool (get v ''blocked'');
     rs \<leftarrow> as_opt (as_list cast_check_record) (get v ''checkRecords'');
     cs \<leftarrow> as_opt (as_list cast_shared_check) (get v ''checks'');
     Some \<lparr>sv_guardian = g, sv_tier = t, sv_blocked = b, sv_checks = cs, sv_checkRecords = rs\<rparr> }"

definition wf_shared :: "shared_value \<Rightarrow> bool" where
  "wf_shared s \<longleftrightarrow> hex64 (sv_guardian s)
     \<and> pred_option (list_all wf_shared_check) (sv_checks s)
     \<and> pred_option (\<lambda>rs. list_all wf_check_record rs \<and> length rs \<le> 128) (sv_checkRecords s)"

lemma read_elements:
  assumes "everyElement v G" and "\<And>x. G x \<Longrightarrow> yields (f x) Q"
  shows "yields (as_list f v) (list_all Q)"
proof -
  have "yields (as_list f v) (\<lambda>xs. list_all Q xs \<and> True)"
    using assms unfolding everyElement_def by (elim read_arr) (simp add: list_all_iff)
  then show ?thesis
    by simp
qed

lemma read_check_records [reads]:
  assumes "is_arr v (\<lambda>cs. length cs \<le> 128) \<and> everyElement v validCheckRecord"
  shows "yields (as_list cast_check_record v) (\<lambda>rs. list_all wf_check_record rs \<and> length rs \<le> 128)"
proof -
  have "is_arr v (\<lambda>cs. length cs \<le> 128 \<and> list_all (\<lambda>el. isObj el \<and> validCheckRecord el) cs)"
    using assms by (auto simp: everyElement_def js_iffs)
  then show ?thesis
    by (rule read_arr) (simp add: list_all_iff read_check_record)
qed

lemma read_shared_checks [reads]:
  "everyElement v validSharedCheck \<Longrightarrow> yields (as_list cast_shared_check v) (list_all wf_shared_check)"
  by (erule read_elements) (rule read_shared_check)

lemma read_shared [reads]: "validSharedContext v \<Longrightarrow> yields (cast_shared v) wf_shared"
  unfolding validSharedContext_def cast_shared_def
  by (elim conjE, (rule yields_bind, (erule reads | (erule yields_opt, erule reads)))+, simp add: wf_shared_def)

definition cast_direct :: "jsval \<Rightarrow> direct_evidence option" where
  "cast_direct v = do {
     w \<leftarrow> as_str (get v ''ownerPubkey''); t \<leftarrow> as_num (get v ''verifiedAt'');
     s \<leftarrow> as_opt as_str (get v ''sharedSecret''); g \<leftarrow> as_opt as_str (get v ''groupId'');
     d \<leftarrow> as_opt as_bool (get v ''isDefaultForGroup'');
     Some \<lparr>de_owner = w, de_secret = s, de_verifiedAt = t, de_bond = get v ''bondAssertion'',
           de_group = g, de_default = d\<rparr> }"

definition wf_direct :: "platform \<Rightarrow> direct_evidence \<Rightarrow> bool" where
  "wf_direct P d \<longleftrightarrow> hex64 (de_owner d) \<and> pred_option SHARED_SECRET (de_secret d)
     \<and> opt_or (de_bond d) (isBoundedObject P (de_bond d) CAP_BOND_ASSERTION_BYTES)
     \<and> pred_option (text_upto CAP_LABEL) (de_group d)"

lemma read_direct [reads]: "isDirect P v \<Longrightarrow> yields (cast_direct v) (wf_direct P)"
  unfolding isDirect_def cast_direct_def
  by (elim conjE, (rule yields_bind, (erule reads | (erule yields_opt, erule reads)))+, simp add: wf_direct_def)

definition cast_scope :: "jsval \<Rightarrow> block_scope option" where
  "cast_scope v = (if get v ''kind'' = JS ''contact'' then Some WholeContact
     else map_option OneIdentity (as_str (get v ''itemId'')))"

fun wf_scope :: "block_scope \<Rightarrow> bool" where
  "wf_scope WholeContact = True"
| "wf_scope (OneIdentity i) = hex32 i"

lemma read_scope [reads]: "isScope v \<Longrightarrow> yields (cast_scope v) wf_scope"
  by (auto simp: isScope_def cast_scope_def intro!: yields_map yields_mono [OF read_hex])

section \<open>The value of an operation\<close>

definition cast_add :: "jsval \<Rightarrow> add_value option" where
  "cast_add v = do {
     t \<leftarrow> as_enum contact_types (get v ''type''); d \<leftarrow> as_str (get v ''displayName'');
     k \<leftarrow> as_enum tiers (get v ''tier''); rs \<leftarrow> as_opt (as_list as_str) (get v ''roles'');
     l \<leftarrow> as_opt (as_enum lifecycles) (get v ''lifecycle'');
     w \<leftarrow> as_opt as_str (get v ''ownerIdentityPubkey'');
     i \<leftarrow> as_opt cast_intro (get v ''appIntroduction'');
     Some \<lparr>av_intro = i, av_owner = w, av_type = t, av_displayName = d, av_tier = k, av_roles = rs,
           av_lifecycle = l\<rparr> }"

abbreviation wf_roles :: "ustr list \<Rightarrow> bool" where
  "wf_roles rs \<equiv> list_all (\<lambda>r. r \<noteq> [] \<and> length r \<le> CAP_ROLE) rs \<and> length rs \<le> CAP_ROLES"

definition wf_add :: "add_value \<Rightarrow> bool" where
  "wf_add a \<longleftrightarrow> text_upto CAP_NAME (av_displayName a) \<and> pred_option wf_roles (av_roles a)
     \<and> pred_option (\<lambda>l. l \<noteq> Removed) (av_lifecycle a) \<and> pred_option hex64 (av_owner a)
     \<and> pred_option wf_intro (av_intro a)"

lemma read_add [reads]: "validateAdd v \<Longrightarrow> yields (cast_add v) wf_add"
  unfolding validateAdd_def cast_add_def
  by (elim conjE, (rule yields_bind, (erule reads | (erule yields_opt, erule reads)))+, simp add: wf_add_def)

definition cast_identity :: "jsval \<Rightarrow> identity_value option" where
  "cast_identity v = do {
     i \<leftarrow> as_str (get v ''itemId''); p \<leftarrow> as_str (get v ''pubkey''); l \<leftarrow> as_opt as_str (get v ''label'');
     r \<leftarrow> as_enum provenances (get v ''provenance''); c \<leftarrow> as_enum verifications (get v ''verification'');
     d \<leftarrow> as_opt cast_direct (get v ''direct'');
     Some \<lparr>iy_itemId = i, iy_pubkey = p, iy_label = l, iy_provenance = r, iy_verification = c,
           iy_direct = d, iy_linkedFrom = get v ''linkedFromItemId''\<rparr> }"

definition wf_identity :: "platform \<Rightarrow> identity_value \<Rightarrow> bool" where
  "wf_identity P i \<longleftrightarrow> hex32 (iy_itemId i) \<and> hex64 (iy_pubkey i)
     \<and> pred_option (text_upto CAP_LABEL) (iy_label i) \<and> pred_option (wf_direct P) (iy_direct i)
     \<and> opt_or (iy_linkedFrom i) (map_option hex32 (js_String P (iy_linkedFrom i)) = Some True)"

lemma read_identity:
  assumes "validateAddIdentity P v = Some True"
  shows "yields (cast_identity v) (wf_identity P)"
proof -
  have "opt_or (get v ''linkedFromItemId'')
      (map_option hex32 (js_String P (get v ''linkedFromItemId'')) = Some True)"
    using assms by (auto simp: validateAddIdentity_def opt_or_def split: if_splits)
  moreover have "validIdentityHead v" "isProvenance (get v ''provenance'')"
    "isVerification (get v ''verification'')" "opt_or (get v ''direct'') (isDirect P (get v ''direct''))"
    using assms by (auto simp: validateAddIdentity_def)
  ultimately show ?thesis
    unfolding validIdentityHead_def cast_identity_def
    by - (elim conjE, (rule yields_bind, (erule reads | (erule yields_opt, erule reads)))+,
        simp add: wf_identity_def)
qed

definition cast_key_link :: "jsval \<Rightarrow> contact_value option" where
  "cast_key_link v = do {
     i \<leftarrow> as_str (get v ''itemId''); p \<leftarrow> as_str (get v ''pubkey''); l \<leftarrow> as_opt as_str (get v ''label'');
     f \<leftarrow> as_str (get v ''linkedFromItemId'');
     Some (KeyLink i p f l) }"

definition cast_update_identity :: "jsval \<Rightarrow> update_identity_value option" where
  "cast_update_identity v = do {
     i \<leftarrow> as_str (get v ''itemId''); l \<leftarrow> as_opt as_str (get v ''label'');
     c \<leftarrow> as_opt (as_enum verifications) (get v ''verification''); d \<leftarrow> as_opt cast_direct (get v ''direct'');
     Some \<lparr>uy_itemId = i, uy_label = l, uy_verification = c, uy_direct = d\<rparr> }"

definition wf_update_identity :: "platform \<Rightarrow> update_identity_value \<Rightarrow> bool" where
  "wf_update_identity P i \<longleftrightarrow> hex32 (uy_itemId i) \<and> pred_option (text_upto CAP_LABEL) (uy_label i)
     \<and> pred_option (wf_direct P) (uy_direct i)"

lemma read_update_identity [reads]:
  "validateUpdateIdentity P v \<Longrightarrow> yields (cast_update_identity v) (wf_update_identity P)"
  unfolding validateUpdateIdentity_def cast_update_identity_def
  by (elim conjE, (rule yields_bind, (erule reads | (erule yields_opt, erule reads)))+,
      simp add: wf_update_identity_def)

definition cast_method :: "jsval \<Rightarrow> method_value option" where
  "cast_method v = do {
     i \<leftarrow> as_str (get v ''itemId''); k \<leftarrow> as_enum method_kinds (get v ''kind'');
     x \<leftarrow> as_str (get v ''value''); l \<leftarrow> as_opt as_str (get v ''label'');
     c \<leftarrow> as_enum method_verifications (get v ''verification''); s \<leftarrow> as_enum sharings (get v ''sharingPolicy'');
     Some \<lparr>mv_itemId = i, mv_kind = k, mv_label = l, mv_value = x, mv_verification = c, mv_sharing = s\<rparr> }"

definition wf_method :: "method_value \<Rightarrow> bool" where
  "wf_method m \<longleftrightarrow> hex32 (mv_itemId m) \<and> text_upto CAP_METHOD_VALUE (mv_value m)
     \<and> pred_option (text_upto CAP_LABEL) (mv_label m)"

lemma read_method [reads]: "validateAddMethod v \<Longrightarrow> yields (cast_method v) wf_method"
  unfolding validateAddMethod_def cast_method_def
  by (elim conjE, (rule yields_bind, erule reads)+, simp add: wf_method_def)

definition cast_update_method :: "jsval \<Rightarrow> update_method_value option" where
  "cast_update_method v = do {
     i \<leftarrow> as_str (get v ''itemId''); l \<leftarrow> as_opt as_str (get v ''label''); x \<leftarrow> as_opt as_str (get v ''value'');
     c \<leftarrow> as_opt (as_enum method_verifications) (get v ''verification'');
     s \<leftarrow> as_opt (as_enum sharings) (get v ''sharingPolicy'');
     Some \<lparr>um_itemId = i, um_label = l, um_value = x, um_verification = c, um_sharing = s\<rparr> }"

definition wf_update_method :: "update_method_value \<Rightarrow> bool" where
  "wf_update_method m \<longleftrightarrow> hex32 (um_itemId m) \<and> pred_option (text_upto CAP_LABEL) (um_label m)
     \<and> pred_option (text_upto CAP_METHOD_VALUE) (um_value m)"

lemma read_update_method [reads]: "validateUpdateMethod v \<Longrightarrow> yields (cast_update_method v) wf_update_method"
  unfolding validateUpdateMethod_def cast_update_method_def
  by (elim conjE, (rule yields_bind, (erule reads | (erule yields_opt, erule reads)))+,
      simp add: wf_update_method_def)

definition cast_review :: "jsval \<Rightarrow> contact_value option" where
  "cast_review v = do { g \<leftarrow> as_str (get v ''grantId''); b \<leftarrow> as_bool (get v ''accept''); Some (ReviewAppList g b) }"

definition cast_record_share :: "jsval \<Rightarrow> contact_value option" where
  "cast_record_share v = do {
     d \<leftarrow> as_str (get v ''directoryId''); c \<leftarrow> as_str (get v ''contactId''); Some (RecordShare d c) }"

definition cast_vouch :: "jsval \<Rightarrow> contact_value option" where
  "cast_vouch v = do {
     g \<leftarrow> as_str (get v ''guardianPubkey''); t \<leftarrow> as_enum tiers (get v ''tier'');
     r \<leftarrow> as_opt as_str (get v ''role''); Some (Vouch g t r) }"

definition cast_ceiling :: "jsval \<Rightarrow> contact_value option" where
  "cast_ceiling v = do {
     g \<leftarrow> as_str (get v ''guardianPubkey''); t \<leftarrow> as_enum ceiling_tiers (get v ''maxTier''); Some (Ceiling g t) }"

definition cast_block :: "jsval \<Rightarrow> contact_value option" where
  "cast_block v = do { s \<leftarrow> cast_scope (get v ''scope''); r \<leftarrow> as_opt as_str (get v ''reason''); Some (Block s r) }"

definition cast_value :: "ustr \<Rightarrow> jsval \<Rightarrow> contact_value option" where
  "cast_value act v =
    (if act = u ''add'' then map_option Add (cast_add v)
     else if act = u ''app-propose-list'' then map_option AppProposeList (cast_intro v)
     else if act = u ''receive-share'' then map_option ReceiveShare (cast_shared v)
     else if act = u ''record-share'' then cast_record_share v
     else if act = u ''review-app-list'' then cast_review v
     else if act = u ''link-list'' then map_option LinkList (as_str (get v ''ownerIdentityPubkey''))
     else if act = u ''unlink-list'' then map_option UnlinkList (as_str (get v ''ownerIdentityPubkey''))
     else if act = u ''record-origin'' then map_option RecordOrigin (cast_origin v)
     else if act = u ''remove-origin'' then map_option RemoveOrigin (as_str (get v ''id''))
     else if act = u ''record-check'' then map_option RecordCheck (cast_check v)
     else if act = u ''remove-check'' then map_option RemoveCheck (as_str (get v ''id''))
     else if act = u ''rename'' then map_option Rename (as_str (get v ''displayName''))
     else if act = u ''set-tier'' then map_option SetTier (as_enum tiers (get v ''tier''))
     else if act = u ''set-roles'' then map_option SetRoles (as_list as_str (get v ''roles''))
     else if act = u ''add-identity'' then map_option AddIdentity (cast_identity v)
     else if act = u ''key-link'' then cast_key_link v
     else if act = u ''update-identity'' then map_option UpdateIdentity (cast_update_identity v)
     else if act = u ''evidence'' then map_option Evidence (cast_update_identity v)
     else if act = u ''add-method'' then map_option AddMethod (cast_method v)
     else if act = u ''update-method'' then map_option UpdateMethod (cast_update_method v)
     else if act = u ''remove-item'' then map_option RemoveItem (as_str (get v ''itemId''))
     else if act = u ''vouch'' then cast_vouch v
     else if act = u ''revoke-vouch'' then Some RevokeVouch
     else if act = u ''ceiling'' then cast_ceiling v
     else if act = u ''revoke-ceiling'' then map_option RevokeCeiling (as_str (get v ''guardianPubkey''))
     else if act = u ''block'' then cast_block v
     else if act = u ''unblock'' then Some Unblock
     else if act = u ''set-lifecycle'' then map_option SetLifecycle (as_enum lifecycles (get v ''lifecycle''))
     else if act = u ''note'' then map_option Note (as_str (get v ''note''))
     else if act = u ''set-picture'' then map_option SetPicture (cast_picture v)
     else if act = u ''clear-picture'' then Some ClearPicture
     else if act = u ''remove'' then Some Remove
     else if act = u ''archive'' then Some Archive
     else None)"

fun wf_value :: "platform \<Rightarrow> contact_value \<Rightarrow> bool" where
  "wf_value P (Add a) = wf_add a"
| "wf_value P (Rename d) = text_upto CAP_NAME d"
| "wf_value P (SetTier t) = True"
| "wf_value P (SetRoles rs) = wf_roles rs"
| "wf_value P (AddIdentity i) = wf_identity P i"
| "wf_value P (UpdateIdentity i) = wf_update_identity P i"
| "wf_value P (AddMethod m) = wf_method m"
| "wf_value P (UpdateMethod m) = wf_update_method m"
| "wf_value P (RemoveItem i) = hex32 i"
| "wf_value P (Evidence i) = wf_update_identity P i"
| "wf_value P (Vouch g t r) = (hex64 g \<and> pred_option (text_upto CAP_ROLE) r)"
| "wf_value P RevokeVouch = True"
| "wf_value P (Ceiling g t) = hex64 g"
| "wf_value P (RevokeCeiling g) = hex64 g"
| "wf_value P (Block s r) = (wf_scope s \<and> pred_option (text_upto CAP_REASON) r)"
| "wf_value P Unblock = True"
| "wf_value P (SetLifecycle l) = (l \<noteq> Removed)"
| "wf_value P Archive = True"
| "wf_value P Remove = True"
| "wf_value P (KeyLink i p f l) = (hex32 i \<and> hex64 p \<and> hex32 f \<and> pred_option (text_upto CAP_LABEL) l)"
| "wf_value P (Note s) = (length s \<le> CAP_NOTE)"
| "wf_value P (SetPicture p) = wf_picture P p"
| "wf_value P ClearPicture = True"
| "wf_value P (LinkList w) = hex64 w"
| "wf_value P (UnlinkList w) = hex64 w"
| "wf_value P (AppProposeList i) = wf_intro i"
| "wf_value P (ReviewAppList g b) = hex32 g"
| "wf_value P (ReceiveShare s) = wf_shared s"
| "wf_value P (RecordShare d c) = (DIRECTORY_ID d \<and> hex32 c)"
| "wf_value P (RecordOrigin c) = wf_origin c"
| "wf_value P (RemoveOrigin i) = hex32 i"
| "wf_value P (RecordCheck c) = wf_check c"
| "wf_value P (RemoveCheck i) = hex32 i"

lemma yields_if:
  "(if c then a else b) = Some True \<Longrightarrow> (a = Some True \<Longrightarrow> yields x R) \<Longrightarrow> (b = Some True \<Longrightarrow> yields y R)
    \<Longrightarrow> yields (if c then x else y) R"
  by (simp split: if_splits)

lemma read_key_link:
  "validIdentityHead v \<Longrightarrow> isHex (get v ''linkedFromItemId'') 32 \<Longrightarrow> yields (cast_key_link v) (wf_value P)"
  unfolding validIdentityHead_def cast_key_link_def
  by (elim conjE, (rule yields_bind, erule reads)+, simp)

lemma read_review:
  "isHex (get v ''grantId'') 32 \<Longrightarrow> is_bool (get v ''accept'') \<Longrightarrow> yields (cast_review v) (wf_value P)"
  unfolding cast_review_def by ((rule yields_bind, erule reads)+, simp)

lemma read_record_share:
  "is_str (get v ''directoryId'') DIRECTORY_ID \<Longrightarrow> isHex (get v ''contactId'') 32 \<Longrightarrow>
     yields (cast_record_share v) (wf_value P)"
  unfolding cast_record_share_def by ((rule yields_bind, erule reads)+, simp)

lemma read_vouch:
  "isHex (get v ''guardianPubkey'') 64 \<Longrightarrow> isTier (get v ''tier'') \<Longrightarrow> isOptStr (get v ''role'') CAP_ROLE \<Longrightarrow>
     yields (cast_vouch v) (wf_value P)"
  unfolding cast_vouch_def by ((rule yields_bind, erule reads)+, simp)

lemma read_ceiling_value:
  "isHex (get v ''guardianPubkey'') 64 \<Longrightarrow> isCeilingTier (get v ''maxTier'') \<Longrightarrow>
     yields (cast_ceiling v) (wf_value P)"
  unfolding cast_ceiling_def by ((rule yields_bind, erule reads)+, simp)

lemma read_block:
  "isScope (get v ''scope'') \<Longrightarrow> isOptStr (get v ''reason'') CAP_REASON \<Longrightarrow> yields (cast_block v) (wf_value P)"
  unfolding cast_block_def by ((rule yields_bind, erule reads)+, simp)

lemmas read_values = read_key_link read_review read_record_share read_vouch read_ceiling_value read_block

lemma read_value:
  "validateValue P act v target = Some True \<Longrightarrow> yields (cast_value act v) (wf_value P)"
  unfolding validateValue_def cast_value_def
  by (elim yields_if; (rule yields_map)?; simp; (elim conjE)?; (intro read_values reads read_identity)?; assumption?)

section \<open>Operations\<close>

definition cast_operation :: "jsval \<Rightarrow> contact_operation option" where
  "cast_operation v = do {
     w \<leftarrow> as_opt as_str (get v ''ownerIdentityPubkey''); i \<leftarrow> as_str (get v ''operationId'');
     d \<leftarrow> as_str (get v ''directoryId''); c \<leftarrow> as_str (get v ''contactId'');
     it \<leftarrow> as_opt as_str (get v ''itemId''); a \<leftarrow> as_str (get v ''actorPubkey'');
     r \<leftarrow> as_enum actor_roles (get v ''actorRole''); dv \<leftarrow> as_str (get v ''actorDeviceId'');
     k \<leftarrow> as_num (get v ''logicalClock''); t \<leftarrow> as_num (get v ''createdAt'');
     g \<leftarrow> as_opt as_str (get v ''targetOperationId''); act \<leftarrow> as_str (get v ''action'');
     x \<leftarrow> cast_value act (get v ''value'');
     Some \<lparr>op_owner = w, op_id = i, op_directory = d, op_contact = c, op_itemId = it, op_actor = a,
           op_role = r, op_device = dv, op_clock = \<lfloor>k\<rfloor>, op_target = g, op_value = x, op_createdAt = t\<rparr> }"

text \<open>What an app, and a dependant, may author; and who a check or an origin is filed under.\<close>

fun actor_may :: "contact_operation \<Rightarrow> contact_value \<Rightarrow> bool" where
  "actor_may p (Add a) = (op_role p = App \<longrightarrow> av_owner a = None)"
| "actor_may p (AddIdentity i) = True"
| "actor_may p (AddMethod m) = True"
| "actor_may p (AppProposeList i) = True"
| "actor_may p (SetPicture x) = (op_role p \<notin> {App, Dependant})"
| "actor_may p ClearPicture = (op_role p \<notin> {App, Dependant})"
| "actor_may p (RecordCheck c) = (op_role p \<noteq> App \<and> op_owner p = Some (cc_owner c))"
| "actor_may p (RecordOrigin c) = (op_role p \<noteq> App \<and> op_owner p = Some (co_owner c))"
| "actor_may p v = (op_role p \<noteq> App)"

definition wf_operation :: "platform \<Rightarrow> contact_operation \<Rightarrow> bool" where
  "wf_operation P p \<longleftrightarrow> pred_option hex64 (op_owner p) \<and> hex32 (op_id p) \<and> DIRECTORY_ID (op_directory p)
     \<and> hex32 (op_contact p) \<and> pred_option hex32 (op_itemId p) \<and> hex64 (op_actor p) \<and> hex32 (op_device p)
     \<and> 1 \<le> op_clock p \<and> 0 \<le> op_createdAt p \<and> pred_option hex32 (op_target p)
     \<and> wf_value P (op_value p) \<and> actor_may p (op_value p)"

text \<open>The action a value belongs to.\<close>

fun action_of :: "contact_value \<Rightarrow> string" where
  "action_of (Add a) = ''add''"
| "action_of (Rename d) = ''rename''"
| "action_of (SetTier t) = ''set-tier''"
| "action_of (SetRoles rs) = ''set-roles''"
| "action_of (AddIdentity i) = ''add-identity''"
| "action_of (UpdateIdentity i) = ''update-identity''"
| "action_of (AddMethod m) = ''add-method''"
| "action_of (UpdateMethod m) = ''update-method''"
| "action_of (RemoveItem i) = ''remove-item''"
| "action_of (Evidence i) = ''evidence''"
| "action_of (Vouch g t r) = ''vouch''"
| "action_of RevokeVouch = ''revoke-vouch''"
| "action_of (Ceiling g t) = ''ceiling''"
| "action_of (RevokeCeiling g) = ''revoke-ceiling''"
| "action_of (Block s r) = ''block''"
| "action_of Unblock = ''unblock''"
| "action_of (SetLifecycle l) = ''set-lifecycle''"
| "action_of Archive = ''archive''"
| "action_of Remove = ''remove''"
| "action_of (KeyLink i p f l) = ''key-link''"
| "action_of (Note s) = ''note''"
| "action_of (SetPicture p) = ''set-picture''"
| "action_of ClearPicture = ''clear-picture''"
| "action_of (LinkList w) = ''link-list''"
| "action_of (UnlinkList w) = ''unlink-list''"
| "action_of (AppProposeList i) = ''app-propose-list''"
| "action_of (ReviewAppList g b) = ''review-app-list''"
| "action_of (ReceiveShare s) = ''receive-share''"
| "action_of (RecordShare d c) = ''record-share''"
| "action_of (RecordOrigin c) = ''record-origin''"
| "action_of (RemoveOrigin i) = ''remove-origin''"
| "action_of (RecordCheck c) = ''record-check''"
| "action_of (RemoveCheck i) = ''remove-check''"

lemma if_Some: "(if c then a else b) = Some x \<Longrightarrow> (c \<Longrightarrow> a = Some x \<Longrightarrow> R) \<Longrightarrow> (b = Some x \<Longrightarrow> R) \<Longrightarrow> R"
  by (simp split: if_splits)

lemmas cast_value_parts = cast_record_share_def cast_review_def cast_key_link_def cast_vouch_def
  cast_ceiling_def cast_block_def

lemma cast_value_action: "cast_value act v = Some x \<Longrightarrow> act = u (action_of x)"
  unfolding cast_value_def
  by (elim if_Some; auto simp: cast_value_parts bind_eq_Some_conv)

lemma cast_add_owner: "cast_add v = Some a \<Longrightarrow> get v ''ownerIdentityPubkey'' = JUndef \<Longrightarrow> av_owner a = None"
  by (auto simp: cast_add_def bind_eq_Some_conv as_opt_def)

lemma cast_check_owner: "cast_check v = Some c \<Longrightarrow> get v ''ownerIdentityPubkey'' = JStr (cc_owner c)"
  by (auto simp: cast_check_def bind_eq_Some_conv as_str_def split: jsval.splits)

lemma cast_origin_owner: "cast_origin v = Some c \<Longrightarrow> get v ''ownerIdentityPubkey'' = JStr (co_owner c)"
  by (auto simp: cast_origin_def bind_eq_Some_conv as_str_def split: jsval.splits)

lemma actor_may_intro:
  assumes "op_role p = App \<longrightarrow> action_of x \<in> {''add'', ''add-identity'', ''add-method'', ''app-propose-list''}"
    and "op_role p = Dependant \<longrightarrow> action_of x \<notin> {''set-picture'', ''clear-picture''}"
    and "\<And>a. x = Add a \<Longrightarrow> op_role p = App \<Longrightarrow> av_owner a = None"
    and "\<And>c. x = RecordCheck c \<Longrightarrow> op_owner p = Some (cc_owner c)"
    and "\<And>c. x = RecordOrigin c \<Longrightarrow> op_owner p = Some (co_owner c)"
  shows "actor_may p x"
  using assms by (cases x) simp_all

lemma cast_operation_actor:
  assumes cast: "cast_operation v = Some p" and may: "actorMay v" and obj: "isObj (get v ''value'')"
  shows "actor_may p (op_value p)"
proof -
  obtain act where act: "get v ''action'' = JStr act" and cv: "cast_value act (get v ''value'') = Some (op_value p)"
    and role: "as_enum actor_roles (get v ''actorRole'') = Some (op_role p)"
    and w: "as_opt as_str (get v ''ownerIdentityPubkey'') = Some (op_owner p)"
    using cast by (auto simp: cast_operation_def bind_eq_Some_conv as_str_def split: jsval.splits)
  have a: "get v ''action'' = JS (action_of (op_value p))"
    using cast_value_action [OF cv] act by simp
  have acts: "op_value p = x \<Longrightarrow> cast_value (u (action_of x)) (get v ''value'') = Some x" for x
    using cv act a by simp
  have app: "op_role p = App \<longleftrightarrow> get v ''actorRole'' = JS ''app''"
    and dep: "op_role p = Dependant \<longleftrightarrow> get v ''actorRole'' = JS ''dependant''"
    using role by (auto simp: actor_roles_def as_enum_def split: jsval.splits if_splits)
  show ?thesis
  proof (rule actor_may_intro)
    show "op_role p = App \<longrightarrow>
        action_of (op_value p) \<in> {''add'', ''add-identity'', ''add-method'', ''app-propose-list''}"
      using may a app by (auto simp: actorMay_def one_of_def APP_ALLOWED_ACTIONS_def is_str_def)
    show "op_role p = Dependant \<longrightarrow> action_of (op_value p) \<notin> {''set-picture'', ''clear-picture''}"
      using may a dep by (auto simp: actorMay_def)
    show "av_owner ad = None" if x: "op_value p = Add ad" and r: "op_role p = App" for ad
    proof (rule cast_add_owner)
      show "cast_add (get v ''value'') = Some ad"
        using acts [OF x] by (simp add: cast_value_def)
      show "get (get v ''value'') ''ownerIdentityPubkey'' = JUndef"
        using may a app x r obj by (simp add: actorMay_def)
    qed
    show "op_owner p = Some (cc_owner c)" if x: "op_value p = RecordCheck c" for c
    proof -
      have "cast_check (get v ''value'') = Some c"
        using acts [OF x] by (simp add: cast_value_def)
      then show ?thesis
        using may a x w by (simp add: actorMay_def cast_check_owner as_opt_def)
    qed
    show "op_owner p = Some (co_owner c)" if x: "op_value p = RecordOrigin c" for c
    proof -
      have "cast_origin (get v ''value'') = Some c"
        using acts [OF x] by (simp add: cast_value_def)
      then show ?thesis
        using may a x w by (simp add: actorMay_def cast_origin_owner as_opt_def)
    qed
  qed
qed

lemma validateValue_obj:
  assumes "validateValue P act v target = Some True"
    and "act \<noteq> u ''record-origin''" and "act \<noteq> u ''record-check''"
  shows "isObj v"
  using assms unfolding validateValue_def
  by (elim if_Some; auto simp: validateAdd_def validIntroduction_def validSharedContext_def
      validateAddIdentity_def validIdentityHead_def validateUpdateIdentity_def validateAddMethod_def
      validateUpdateMethod_def validPicturePointer_def split: jsval.splits)

lemma guarded_cast:
  assumes "validateOperation P v = Some True"
  shows "\<exists>p. cast_operation v = Some p \<and> wf_operation P p"
proof -
  have env: "validEnvelope v" and may: "actorMay v"
    using assms by (auto simp: validateOperation_def)
  obtain act where act: "get v ''action'' = JStr act"
      and val: "validateValue P act (get v ''value'') (get v ''targetOperationId'') = Some True"
    using assms by (auto simp: validateOperation_def split: jsval.splits)
  have obj: "isObj (get v ''value'')"
    using validateValue_obj [OF val] may act by (auto simp: actorMay_def)
  have "yields (cast_operation v) (\<lambda>p. actor_may p (op_value p) \<longrightarrow> wf_operation P p)"
    using env read_value [OF val] unfolding validEnvelope_def cast_operation_def act as_simps bind.bind_lunit
    by - (elim conjE, (rule yields_bind, (erule reads | assumption))+,
        simp add: wf_operation_def)
  then show ?thesis
    using cast_operation_actor [OF _ may obj] by (auto simp: yields_def)
qed

text \<open>
  An operation the guard accepts has a typed reading, with every field in the bounds
  the guards set and an actor allowed to author it: the cast the reducer makes is sound.
\<close>

lemma validateOperation_cast:
  assumes "validateOperation P v = Some True"
  shows "\<exists>p. cast_operation v = Some p \<and> wf_operation P p"
  using assms by (rule guarded_cast)

text \<open>A platform whose URL parser knows nothing, and an operation, for concrete evaluation.\<close>

definition sample_platform :: platform where
  "sample_platform = \<lparr>url_parse = \<lambda>s. None, number_text = \<lambda>r. u ''0.5''\<rparr>"

definition envelope :: "string \<Rightarrow> jsval \<Rightarrow> jsval" where
  "envelope act v = JObj [(u ''operationId'', JStr (hexes 32 49)), (u ''directoryId'', JS ''owner''),
     (u ''contactId'', JStr (hexes 32 50)), (u ''actorPubkey'', JStr (hexes 64 97)),
     (u ''actorRole'', JS ''owner''), (u ''actorDeviceId'', JStr (hexes 32 51)),
     (u ''logicalClock'', JNum (Fin 1)), (u ''createdAt'', JNum (Fin 1000)), (u ''action'', JS act), (u ''value'', v)]"

definition sample_rename :: jsval where
  "sample_rename = envelope ''rename'' (JObj [(u ''displayName'', JS ''Ann'')])"

lemma sample_rename_valid: "validateOperation sample_platform sample_rename = Some True"
  by (simp add: validateOperation_def sample_rename_def envelope_def validEnvelope_def actorMay_def guard_simps
      one_of_def ACTIONS_def APP_ALLOWED_ACTIONS_def validateValue_def CAP_NAME_def DIRECTORY_ID_def
      is_int_rat_def hex_unit_def)

lemma validateOperation_cast_witness:
  "\<exists>p. cast_operation sample_rename = Some p \<and> wf_operation sample_platform p"
  by (rule validateOperation_cast [OF sample_rename_valid])

section \<open>Rows that throw\<close>

text \<open>What \<open>String\<close> throws on: an object with a \<open>toString\<close> of its own, or an array that holds such a value.\<close>

fun hostile :: "jsval \<Rightarrow> bool" where
  "hostile (JObj ps) \<longleftrightarrow> map_of ps (u ''toString'') \<noteq> None"
| "hostile (JArr vs) \<longleftrightarrow> (\<exists>v \<in> set vs. hostile v)"
| "hostile _ \<longleftrightarrow> False"

lemma those_None: "those xs = None \<longleftrightarrow> None \<in> set xs"
  by (induction xs) (auto split: option.splits)

lemma js_String_throws: "js_String P v = None \<longleftrightarrow> hostile v"
proof (induction v)
  case (JArr vs)
  have "js_String P x = None \<longleftrightarrow> hostile x" if "x \<in> set vs" for x
    using JArr that by blast
  then have "(\<exists>x \<in> set vs. x \<noteq> JUndef \<and> x \<noteq> JNull \<and> js_String P x = None) \<longleftrightarrow> (\<exists>x \<in> set vs. hostile x)"
    by (metis hostile.simps(3,4))
  moreover have "None \<in> set (map (\<lambda>v. if v = JUndef \<or> v = JNull then Some [] else js_String P v) vs)
      \<longleftrightarrow> (\<exists>x \<in> set vs. x \<noteq> JUndef \<and> x \<noteq> JNull \<and> js_String P x = None)"
    by (induction vs) auto
  ultimately show ?case
    unfolding js_String.simps hostile.simps map_option_is_None those_None by blast
qed auto

text \<open>The row without the field \<open>linkedFromItemId\<close> of its value.\<close>

definition drop_link :: "jsval \<Rightarrow> jsval" where
  "drop_link v = (case v of JObj ps \<Rightarrow> JObj (filter (\<lambda>p. fst p \<noteq> u ''linkedFromItemId'') ps) | _ \<Rightarrow> v)"

definition without_link :: "jsval \<Rightarrow> jsval" where
  "without_link v = (case v of JObj ps \<Rightarrow> JObj (map (\<lambda>(k, x). (k, if k = u ''value'' then drop_link x else x)) ps) | _ \<Rightarrow> v)"

lemma get_drop_link: "get (drop_link v) k = (if k = ''linkedFromItemId'' then JUndef else get v k)"
proof (cases v)
  case (JObj ps)
  have "map_of (filter (\<lambda>p. fst p \<noteq> u ''linkedFromItemId'') ps) (u k) = (if k = ''linkedFromItemId'' then None else map_of ps (u k))"
    by (induction ps) auto
  then show ?thesis
    by (simp add: JObj drop_link_def)
qed (simp_all add: drop_link_def)

lemma get_without_link: "get (without_link v) k = (if k = ''value'' then drop_link (get v k) else get v k)"
proof (cases v)
  case (JObj ps)
  have "map_of (map (\<lambda>(k, x). (k, if k = u ''value'' then drop_link x else x)) ps) (u k)
      = map_option (\<lambda>x. if k = ''value'' then drop_link x else x) (map_of ps (u k))"
    by (induction ps) auto
  then show ?thesis
    by (auto simp: JObj without_link_def drop_link_def split: option.split)
qed (simp_all add: without_link_def drop_link_def)

lemma isObj_links: "isObj (drop_link v) = isObj v" "isObj (without_link v) = isObj v"
  by (cases v; simp add: drop_link_def without_link_def)+

lemma without_link_guards:
  "validEnvelope (without_link v) = validEnvelope v" "actorMay (without_link v) = actorMay v"
  unfolding validEnvelope_def actorMay_def by (simp_all add: get_without_link get_drop_link isObj_links)

text \<open>
  C40 (error): A row makes the guard throw exactly when it adds an identity, the \<open>linkedFromItemId\<close> of
  its value is an object with a \<open>toString\<close> of its own or an array in which such an object is nested, and the
  row would be valid without that field. Every other value, however malformed, is answered with true or
  false: the first fault found in any other field is answered before the field that throws is looked at.
\<close>

theorem validateOperation_throws:
  "validateOperation P v = None \<longleftrightarrow>
     get v ''action'' = JS ''add-identity'' \<and> hostile (get (get v ''value'') ''linkedFromItemId'')
     \<and> validateOperation P (without_link v) = Some True"
proof -
  have val: "validateValue P act x t = None \<longleftrightarrow> act = u ''add-identity'' \<and> validateAddIdentity P x = None" for act x t
    by (auto simp: validateValue_def)
  have link: "validateAddIdentity P x = None \<longleftrightarrow> hostile (get x ''linkedFromItemId'') \<and> validateAddIdentity P (drop_link x) = Some True"
    for x
  proof -
    have "validIdentityHead (drop_link x) = validIdentityHead x"
      by (simp add: validIdentityHead_def get_drop_link isObj_links)
    moreover have "get x ''linkedFromItemId'' = JUndef \<Longrightarrow> \<not> hostile (get x ''linkedFromItemId'')"
      by simp
    ultimately show ?thesis
      by (auto simp: validateAddIdentity_def get_drop_link and_then_def js_String_throws)
  qed
  have add: "validateValue P (u ''add-identity'') x t = validateAddIdentity P x" for x t
    by (simp add: validateValue_def)
  show ?thesis
  proof (cases "get v ''action'' = JS ''add-identity''")
    case True
    then show ?thesis
      using link [of "get v ''value''"]
      by (auto simp: validateOperation_def without_link_guards get_without_link and_then_def add)
  next
    case False
    have "validateValue P act x t \<noteq> None" if "get v ''action'' = JStr act" for act x t
      using that False val [of act x t] by auto
    then show ?thesis
      using False by (auto simp: validateOperation_def and_then_def split: jsval.splits)
  qed
qed

end
