(* ===== verification/Contact_Reducer.thy ===== *)
theory Contact_Reducer
  imports Contact_Decode
begin

text \<open>
  \<open>sortOperations\<close>, \<open>applyAdd\<close> and \<open>applyOne\<close> of \<open>src/lib/contacts-v2-reducer.ts\<close>: one guarded
  operation applied to one contact record. \<open>None\<close> is the \<open>null\<close> of an operation that is skipped.
\<close>

section \<open>Helpers\<close>

text \<open>A JavaScript optional string is falsy when absent and when empty.\<close>

definition falsy :: "ustr option \<Rightarrow> bool" where
  "falsy s \<longleftrightarrow> s = None \<or> s = Some []"

definition clean :: "ustr \<Rightarrow> nat \<Rightarrow> ustr" where
  "clean raw cap = sanitizeDisplayName raw cap"

text \<open>\<open>...(value.x ? { x: f(value.x) } : {})\<close>.\<close>

definition keep :: "(ustr \<Rightarrow> ustr) \<Rightarrow> ustr option \<Rightarrow> ustr option" where
  "keep f s = (if falsy s then None else map_option f s)"

definition normaliseContactOrigin :: "contact_origin \<Rightarrow> contact_origin" where
  "normaliseContactOrigin c = \<lparr>co_id = co_id c, co_owner = co_owner c, co_method = co_method c,
     co_addedAt = co_addedAt c, co_inviteId = keep (\<lambda>s. s) (co_inviteId c),
     co_inviteName = keep (\<lambda>s. sanitizeDisplayName s 200) (co_inviteName c),
     co_caption = keep (\<lambda>s. sanitizeDisplayName s 200) (co_caption c),
     co_appName = keep (\<lambda>s. sanitizeDisplayName s 200) (co_appName c)\<rparr>"

definition normaliseContactCheck :: "contact_check \<Rightarrow> contact_check" where
  "normaliseContactCheck c = \<lparr>cc_id = cc_id c, cc_identity = cc_identity c, cc_owner = cc_owner c,
     cc_method = cc_method c, cc_checkedAt = cc_checkedAt c, cc_source = keep (\<lambda>s. s) (cc_source c),
     cc_evidence = keep (\<lambda>s. sanitizeNote s 2000) (cc_evidence c)\<rparr>"

definition normaliseDirect :: "direct_evidence option \<Rightarrow> direct_evidence option" where
  "normaliseDirect = map_option (\<lambda>d. \<lparr>de_owner = de_owner d, de_secret = de_secret d,
     de_verifiedAt = de_verifiedAt d, de_bond = de_bond d, de_group = de_group d, de_default = de_default d\<rparr>)"

text \<open>\<open>[...new Set(roles.map(r => clean(r, CAP_ROLE)).filter(r => r.length > 0))]\<close>.\<close>

definition cleanRoles :: "ustr list \<Rightarrow> ustr list" where
  "cleanRoles rs = uniq (filter (\<lambda>r. r \<noteq> []) (map (\<lambda>r. clean r CAP_ROLE) rs))"

fun verification_rank :: "verification \<Rightarrow> nat" where
  "verification_rank Unverified = 0"
| "verification_rank Proven = 1"
| "verification_rank Mutual = 2"

section \<open>The total order of operations\<close>

definition op_order :: "contact_operation \<Rightarrow> int \<times> ustr \<times> ustr" where
  "op_order p = (op_clock p, op_actor p, op_id p)"

definition sortOperations :: "contact_operation list \<Rightarrow> contact_operation list" where
  "sortOperations = sort_key op_order"

section \<open>Adding\<close>

abbreviation from_old :: "contact_record option \<Rightarrow> (contact_record \<Rightarrow> 'a) \<Rightarrow> 'a \<Rightarrow> 'a" where
  "from_old r f d \<equiv> (case r of None \<Rightarrow> d | Some x \<Rightarrow> f x)"

definition applyAdd :: "contact_record option \<Rightarrow> contact_operation \<Rightarrow> add_value \<Rightarrow> contact_record" where
  "applyAdd old p v =
     (let name = clean (av_displayName v) CAP_NAME;
          fresh_roles = (case av_roles v of None \<Rightarrow> [] | Some rs \<Rightarrow> cleanRoles rs);
          promoted = (from_old old (\<lambda>r. createdByActorRole r = App) False \<and> op_role p \<noteq> App)
      in if from_old old (\<lambda>r. lifecycle r \<noteq> Removed) False
         then (the old)\<lparr>ctype := av_type v, displayName := name, tier := av_tier v,
                tierSetByActorRole := (if promoted then Some (op_role p) else tierSetByActorRole (the old)),
                roles := (case av_roles v of None \<Rightarrow> roles (the old) | Some rs \<Rightarrow> cleanRoles rs),
                lifecycle := (case av_lifecycle v of None \<Rightarrow> lifecycle (the old) | Some l \<Rightarrow> l),
                updatedAt := op_createdAt p\<rparr>
         else \<lparr>origins = from_old old origins None, checks = from_old old checks None,
                mergedContactIds = None,
                sharedContexts = from_old old sharedContexts None, sharesSent = from_old old sharesSent None,
                appIntroductions = from_old old appIntroductions None,
                primaryIdentityPubkey = from_old old
                  (\<lambda>r. if listMemberships r = None then None else primaryIdentityPubkey r) None,
                listMemberships = from_old old listMemberships None,
                directoryId = op_directory p, contactId = op_contact p, ctype = av_type v,
                displayName = name, tier = av_tier v,
                tierSetByActorRole = (if promoted then Some (op_role p) else None),
                roles = fresh_roles,
                identities = from_old old identities [], contactMethods = from_old old contactMethods [],
                accessGrants = from_old old accessGrants [],
                lifecycle = (case av_lifecycle v of None \<Rightarrow> Active | Some l \<Rightarrow> l),
                createdAt = from_old old createdAt (op_createdAt p), updatedAt = op_createdAt p,
                removedAt = None, archived = None,
                createdByActorRole = from_old old createdByActorRole (op_role p),
                createdByOperationId = from_old old createdByOperationId (op_id p),
                vouches = from_old old vouches [], ceilings = from_old old ceilings [],
                blocks = from_old old blocks [], noteText = from_old old noteText None,
                picture = from_old old picture None\<rparr>)"

definition link_given :: "ustr option \<Rightarrow> rat \<Rightarrow> contact_record \<Rightarrow> contact_record" where
  "link_given w ts r = (case w of None \<Rightarrow> r | Some o' \<Rightarrow> if o' = [] then r else linkContactList r o' ts)"

definition introduce :: "intro_value \<Rightarrow> intro_status \<Rightarrow> bool \<Rightarrow> contact_operation \<Rightarrow> app_introduction" where
  "introduce i st restricted p = \<lparr>ai_intro = i, ai_status = st, ai_restricted = restricted,
     ai_clock = op_clock p, ai_createdAt = op_createdAt p\<rparr>"

definition applyAddOp :: "contact_record option \<Rightarrow> contact_operation \<Rightarrow> add_value \<Rightarrow> contact_record" where
  "applyAddOp old p v =
     (let next = applyAdd old p v;
          next' = (case av_intro v of
              Some i \<Rightarrow> if old = None \<and> op_role p = App
                then (linkContactList next (iv_owner i) (op_createdAt p))
                       \<lparr>appIntroductions := Some [introduce i IntroAccepted True p]\<rparr>
                else next
            | None \<Rightarrow> next)
      in link_given (av_owner v) (op_createdAt p) next')"

section \<open>Handlers on a live record\<close>

text \<open>
  Each takes the record already touched (\<open>updatedAt\<close> set); \<open>record\<close> is the untouched one where the
  code returns it.
\<close>

definition opt_list :: "'a list option \<Rightarrow> 'a list" where
  "opt_list xs = (case xs of None \<Rightarrow> [] | Some ys \<Rightarrow> ys)"

lemma opt_list_simps [simp]: "opt_list None = []" "opt_list (Some ys) = ys"
  by (simp_all add: opt_list_def)

definition receiveShare :: "contact_record \<Rightarrow> contact_record \<Rightarrow> contact_operation \<Rightarrow> shared_value \<Rightarrow> contact_record" where
  "receiveShare r t p v = (if sv_guardian v \<noteq> op_actor p then r
     else t\<lparr>sharedContexts := Some (opt_list (sharedContexts r) @ [\<lparr>sc_value = v, sc_receivedAt = op_createdAt p\<rparr>])\<rparr>)"

definition recordShare :: "contact_record \<Rightarrow> contact_record \<Rightarrow> contact_operation \<Rightarrow> ustr \<Rightarrow> ustr \<Rightarrow> contact_record" where
  "recordShare r t p d c = t\<lparr>sharesSent := Some (opt_list (sharesSent r)
     @ [\<lparr>ss_directoryId = d, ss_contactId = c, ss_sharedAt = op_createdAt p\<rparr>])\<rparr>"

definition appProposeList :: "contact_record \<Rightarrow> contact_record \<Rightarrow> contact_operation \<Rightarrow> intro_value \<Rightarrow> contact_record" where
  "appProposeList r t p i =
     (if list_ex (\<lambda>a. iv_grantId (ai_intro a) = iv_grantId i) (opt_list (appIntroductions r)) then r
      else let inList = contactBelongsToList r (iv_owner i);
               held = list_ex (\<lambda>a. iv_owner (ai_intro a) = iv_owner i \<and> ai_restricted a) (opt_list (appIntroductions r))
           in t\<lparr>appIntroductions := Some (opt_list (appIntroductions r)
                @ [introduce i (if inList then IntroAccepted else IntroPending) (\<not> inList \<or> held) p])\<rparr>)"

definition reviewAppList :: "contact_record \<Rightarrow> contact_record \<Rightarrow> contact_operation \<Rightarrow> ustr \<Rightarrow> bool \<Rightarrow> contact_record" where
  "reviewAppList r t p g accept =
     (case List.find (\<lambda>a. iv_grantId (ai_intro a) = g \<and> ai_status a = IntroPending) (opt_list (appIntroductions r)) of
        None \<Rightarrow> r
      | Some i \<Rightarrow>
          (if accept then linkContactList t (iv_owner (ai_intro i)) (op_createdAt p) else t)
            \<lparr>appIntroductions := Some (map (\<lambda>a. if iv_grantId (ai_intro a) = g
                then a\<lparr>ai_status := (if accept then IntroAccepted else IntroRejected)\<rparr> else a)
              (opt_list (appIntroductions r)))\<rparr>)"

definition addIdentity :: "contact_record \<Rightarrow> contact_operation \<Rightarrow> identity_value \<Rightarrow> contact_record" where
  "addIdentity t p v =
     (case find_index (\<lambda>i. ci_itemId i = iy_itemId v \<or> ci_pubkey i = iy_pubkey v) (identities t) of
        Some n \<Rightarrow>
          let e = identities t ! n in
          if ci_pubkey e \<noteq> iy_pubkey v \<or> op_role p = App then t
          else t\<lparr>identities := (identities t)[n := e\<lparr>
              ci_verification := (if verification_rank (iy_verification v) > verification_rank (ci_verification e)
                then iy_verification v else ci_verification e),
              ci_direct := (case ci_direct e of Some d \<Rightarrow> Some d | None \<Rightarrow> normaliseDirect (iy_direct v))\<rparr>]\<rparr>
      | None \<Rightarrow> t\<lparr>identities := identities t @ [\<lparr>ci_itemId = iy_itemId v, ci_pubkey = iy_pubkey v,
            ci_label = map_option (\<lambda>l. clean l CAP_LABEL) (iy_label v), ci_provenance = iy_provenance v,
            ci_verification = iy_verification v, ci_direct = normaliseDirect (iy_direct v),
            ci_linkedFrom = iy_linkedFrom v, ci_addedAt = op_createdAt p\<rparr>]\<rparr>)"

definition keyLink :: "contact_record \<Rightarrow> contact_operation \<Rightarrow> ustr \<Rightarrow> ustr \<Rightarrow> ustr \<Rightarrow> contact_record" where
  "keyLink t p item pubkey from_item =
     (if list_ex (\<lambda>i. ci_itemId i = item) (identities t) then t
      else t\<lparr>identities := identities t @ [\<lparr>ci_itemId = item, ci_pubkey = pubkey, ci_label = None,
            ci_provenance = KeyLinked, ci_verification = Proven, ci_direct = None,
            ci_linkedFrom = JStr from_item, ci_addedAt = op_createdAt p\<rparr>]\<rparr>)"

definition recordOrigin :: "contact_record \<Rightarrow> contact_origin \<Rightarrow> contact_record" where
  "recordOrigin t v =
     (let c = normaliseContactOrigin v; os = opt_list (origins t)
      in if 64 \<le> length os \<and> \<not> list_ex (\<lambda>x. co_id x = co_id c) os then t
         else t\<lparr>origins := Some (filter (\<lambda>x. co_id x \<noteq> co_id c) os @ [c])\<rparr>)"

definition removeOrigin :: "contact_record \<Rightarrow> ustr \<Rightarrow> contact_record" where
  "removeOrigin t i = t\<lparr>origins := Some (filter (\<lambda>x. co_id x \<noteq> i) (opt_list (origins t)))\<rparr>"

definition recordCheck :: "contact_record \<Rightarrow> contact_check \<Rightarrow> contact_record" where
  "recordCheck t v =
     (let c = normaliseContactCheck v; cs = opt_list (checks t)
      in if \<not> list_ex (\<lambda>i. ci_pubkey i = cc_identity c) (identities t) then t
         else if 128 \<le> length cs \<and> \<not> list_ex (\<lambda>x. cc_id x = cc_id c) cs then t
         else t\<lparr>checks := Some (filter (\<lambda>x. cc_id x \<noteq> cc_id c) cs @ [c])\<rparr>)"

definition removeCheck :: "contact_record \<Rightarrow> ustr \<Rightarrow> contact_record" where
  "removeCheck t i = t\<lparr>checks := Some (filter (\<lambda>x. cc_id x \<noteq> i) (opt_list (checks t)))\<rparr>"

definition updateIdentity :: "contact_record \<Rightarrow> update_identity_value \<Rightarrow> contact_record option" where
  "updateIdentity t v =
     (if \<not> list_ex (\<lambda>i. ci_itemId i = uy_itemId v) (identities t) then None
      else Some (t\<lparr>identities := map (\<lambda>i. if ci_itemId i \<noteq> uy_itemId v then i else i\<lparr>
          ci_label := (case uy_label v of None \<Rightarrow> ci_label i | Some l \<Rightarrow> Some (clean l CAP_LABEL)),
          ci_verification := (case uy_verification v of None \<Rightarrow> ci_verification i | Some c \<Rightarrow> c),
          ci_direct := (case normaliseDirect (uy_direct v) of None \<Rightarrow> ci_direct i | Some d \<Rightarrow> Some d)\<rparr>)
        (identities t)\<rparr>))"

definition addMethod :: "contact_record \<Rightarrow> contact_operation \<Rightarrow> method_value \<Rightarrow> contact_record" where
  "addMethod t p v =
     (if list_ex (\<lambda>m. cm_itemId m = mv_itemId v) (contactMethods t) then t
      else t\<lparr>contactMethods := contactMethods t @ [\<lparr>cm_itemId = mv_itemId v, cm_kind = mv_kind v,
            cm_label = map_option (\<lambda>l. clean l CAP_LABEL) (mv_label v), cm_value = clean (mv_value v) CAP_METHOD_VALUE,
            cm_verification = mv_verification v, cm_sharing = mv_sharing v, cm_addedAt = op_createdAt p\<rparr>]\<rparr>)"

definition updateMethod :: "contact_record \<Rightarrow> update_method_value \<Rightarrow> contact_record option" where
  "updateMethod t v =
     (if \<not> list_ex (\<lambda>m. cm_itemId m = um_itemId v) (contactMethods t) then None
      else Some (t\<lparr>contactMethods := map (\<lambda>m. if cm_itemId m \<noteq> um_itemId v then m else m\<lparr>
          cm_label := (case um_label v of None \<Rightarrow> cm_label m | Some l \<Rightarrow> Some (clean l CAP_LABEL)),
          cm_value := (case um_value v of None \<Rightarrow> cm_value m | Some x \<Rightarrow> clean x CAP_METHOD_VALUE),
          cm_verification := (case um_verification v of None \<Rightarrow> cm_verification m | Some c \<Rightarrow> c),
          cm_sharing := (case um_sharing v of None \<Rightarrow> cm_sharing m | Some s \<Rightarrow> s)\<rparr>)
        (contactMethods t)\<rparr>))"

definition removeItem :: "contact_record \<Rightarrow> contact_record \<Rightarrow> ustr \<Rightarrow> contact_record" where
  "removeItem r t i =
     (let is = filter (\<lambda>x. ci_itemId x \<noteq> i) (identities t); ms = filter (\<lambda>x. cm_itemId x \<noteq> i) (contactMethods t)
      in if length is = length (identities t) \<and> length ms = length (contactMethods t) then r
         else t\<lparr>identities := is, contactMethods := ms\<rparr>)"

definition applyVouch :: "contact_record \<Rightarrow> contact_operation \<Rightarrow> ustr \<Rightarrow> tier \<Rightarrow> ustr option \<Rightarrow> contact_record option" where
  "applyVouch t p g k role =
     (if g \<noteq> op_actor p then None
      else Some (t\<lparr>vouches := map (\<lambda>e. if gv_guardian e = g \<and> falsy (gv_revokedBy e)
             then e\<lparr>gv_revokedBy := Some (op_id p)\<rparr> else e) (vouches t)
           @ [\<lparr>gv_vouchId = op_id p, gv_guardian = g, gv_tier = k, gv_role = role,
                gv_createdAt = op_createdAt p, gv_operationId = op_id p, gv_revokedBy = None\<rparr>]\<rparr>))"

definition revokeVouch :: "contact_record \<Rightarrow> contact_operation \<Rightarrow> contact_record option" where
  "revokeVouch t p =
     (case List.find (\<lambda>v. Some (gv_operationId v) = op_target p) (vouches t) of
        None \<Rightarrow> None
      | Some m \<Rightarrow>
          if \<not> falsy (gv_revokedBy m) \<or> gv_guardian m \<noteq> op_actor p then None
          else Some (t\<lparr>vouches := map (\<lambda>v. if Some (gv_operationId v) = op_target p
                 then v\<lparr>gv_revokedBy := Some (op_id p)\<rparr> else v) (vouches t)\<rparr>))"

definition applyCeiling :: "contact_record \<Rightarrow> contact_operation \<Rightarrow> ustr \<Rightarrow> ceiling_tier \<Rightarrow> contact_record option" where
  "applyCeiling t p g k =
     (if g \<noteq> op_actor p then None
      else Some (t\<lparr>ceilings := map (\<lambda>e. if gc_guardian e = g \<and> falsy (gc_revokedBy e)
             then e\<lparr>gc_revokedBy := Some (op_id p)\<rparr> else e) (ceilings t)
           @ [\<lparr>gc_guardian = g, gc_maxTier = k, gc_createdAt = op_createdAt p,
                gc_operationId = op_id p, gc_revokedBy = None\<rparr>]\<rparr>))"

definition revokeCeiling :: "contact_record \<Rightarrow> contact_operation \<Rightarrow> ustr \<Rightarrow> contact_record option" where
  "revokeCeiling t p g =
     (if g \<noteq> op_actor p \<or> \<not> list_ex (\<lambda>c. gc_guardian c = g \<and> falsy (gc_revokedBy c)) (ceilings t) then None
      else Some (t\<lparr>ceilings := map (\<lambda>c. if gc_guardian c = g \<and> falsy (gc_revokedBy c)
             then c\<lparr>gc_revokedBy := Some (op_id p)\<rparr> else c) (ceilings t)\<rparr>))"

definition applyBlock :: "contact_record \<Rightarrow> contact_operation \<Rightarrow> block_scope \<Rightarrow> ustr option \<Rightarrow> contact_record" where
  "applyBlock t p scope reason =
     t\<lparr>blocks := blocks t @ [\<lparr>bf_blockedBy = op_actor p, bf_scope = scope, bf_blockedAt = op_createdAt p,
        bf_reason = keep (\<lambda>s. s) (map_option (\<lambda>s. clean s CAP_REASON) reason),
        bf_operationId = op_id p, bf_liftedBy = None\<rparr>]\<rparr>"

definition applyUnblock :: "contact_record \<Rightarrow> contact_operation \<Rightarrow> contact_record option" where
  "applyUnblock t p =
     (case List.find (\<lambda>b. Some (bf_operationId b) = op_target p) (blocks t) of
        None \<Rightarrow> None
      | Some m \<Rightarrow>
          if \<not> falsy (bf_liftedBy m) \<or> bf_blockedBy m \<noteq> op_actor p then None
          else Some (t\<lparr>blocks := map (\<lambda>b. if Some (bf_operationId b) = op_target p
                 then b\<lparr>bf_liftedBy := Some (op_id p)\<rparr> else b) (blocks t)\<rparr>))"

section \<open>One operation\<close>

fun applyLive :: "contact_record \<Rightarrow> contact_record \<Rightarrow> contact_operation \<Rightarrow> contact_value \<Rightarrow> contact_record option" where
  "applyLive r t p (ReceiveShare v) = Some (receiveShare r t p v)"
| "applyLive r t p (RecordShare d c) = Some (recordShare r t p d c)"
| "applyLive r t p (AppProposeList i) = Some (appProposeList r t p i)"
| "applyLive r t p (ReviewAppList g b) = Some (reviewAppList r t p g b)"
| "applyLive r t p (LinkList w) = Some (linkContactList r w (op_createdAt p))"
| "applyLive r t p (UnlinkList w) = Some (unlinkContactList r w (op_createdAt p))"
| "applyLive r t p (Rename d) = (if op_role p = App \<and> createdByActorRole r \<noteq> App then None
     else Some (t\<lparr>displayName := clean d CAP_NAME\<rparr>))"
| "applyLive r t p (SetTier k) = Some (t\<lparr>tier := k, tierSetByActorRole := Some (op_role p)\<rparr>)"
| "applyLive r t p (SetRoles rs) = Some (t\<lparr>roles := cleanRoles rs\<rparr>)"
| "applyLive r t p (SetLifecycle l) = Some (t\<lparr>lifecycle := l\<rparr>)"
| "applyLive r t p (Note s) = Some (t\<lparr>noteText := Some (sanitizeNote s CAP_NOTE)\<rparr>)"
| "applyLive r t p (SetPicture x) = Some (t\<lparr>picture := Some x\<rparr>)"
| "applyLive r t p ClearPicture = Some (t\<lparr>picture := None\<rparr>)"
| "applyLive r t p Remove = Some ((removeContactLists t (op_createdAt p))
     \<lparr>lifecycle := Removed, removedAt := Some (op_createdAt p), archived := None\<rparr>)"
| "applyLive r t p Archive = Some ((removeContactLists t (op_createdAt p))
     \<lparr>lifecycle := Removed, removedAt := Some (op_createdAt p), archived := Some True\<rparr>)"
| "applyLive r t p (AddIdentity v) = Some (addIdentity t p v)"
| "applyLive r t p (KeyLink i k f l) = Some (keyLink t p i k f)"
| "applyLive r t p (RecordOrigin v) = Some (recordOrigin t v)"
| "applyLive r t p (RemoveOrigin i) = Some (removeOrigin t i)"
| "applyLive r t p (RecordCheck v) = Some (recordCheck t v)"
| "applyLive r t p (RemoveCheck i) = Some (removeCheck t i)"
| "applyLive r t p (UpdateIdentity v) = updateIdentity t v"
| "applyLive r t p (Evidence v) = updateIdentity t v"
| "applyLive r t p (AddMethod v) = Some (addMethod t p v)"
| "applyLive r t p (UpdateMethod v) = updateMethod t v"
| "applyLive r t p (RemoveItem i) = Some (removeItem r t i)"
| "applyLive r t p (Vouch g k role) = applyVouch t p g k role"
| "applyLive r t p RevokeVouch = revokeVouch t p"
| "applyLive r t p (Ceiling g k) = applyCeiling t p g k"
| "applyLive r t p (RevokeCeiling g) = revokeCeiling t p g"
| "applyLive r t p (Block s reason) = Some (applyBlock t p s reason)"
| "applyLive r t p Unblock = applyUnblock t p"
| "applyLive r t p (Add v) = None"

fun safetyAction :: "contact_value \<Rightarrow> bool" where
  "safetyAction (Block s r) = True"
| "safetyAction Unblock = True"
| "safetyAction _ = False"

definition applyOne :: "contact_record option \<Rightarrow> contact_operation \<Rightarrow> contact_record option" where
  "applyOne old p =
     (case op_value p of
        Add v \<Rightarrow> Some (applyAddOp old p v)
      | v \<Rightarrow>
          (case old of
             None \<Rightarrow> None
           | Some r \<Rightarrow>
               if lifecycle r = Removed \<and> \<not> (v = Remove \<and> archived r = Some True) \<and> \<not> safetyAction v then None
               else applyLive r (r\<lparr>updatedAt := op_createdAt p\<rparr>) p v))"

end
