(* ===== verification/Contact_Records.thy ===== *)
theory Contact_Records
  imports Contact_Reducer
begin

text \<open>
  The record invariant: every operation the guard accepts keeps a record within what
  \<open>validateRecord\<close> asks of a row read back, so the reducer never writes a record that the next read
  would drop. \<open>enc_record\<close> is the record as the JavaScript object the store encrypts.
\<close>

section \<open>The invariant\<close>

definition wf_ci :: "contact_identity \<Rightarrow> bool" where
  "wf_ci i \<longleftrightarrow> hex32 (ci_itemId i) \<and> hex64 (ci_pubkey i)"

definition wf_cm :: "contact_method \<Rightarrow> bool" where
  "wf_cm m \<longleftrightarrow> hex32 (cm_itemId m) \<and> length (cm_value m) \<le> CAP_METHOD_VALUE"

definition wf_gv :: "guardian_vouch \<Rightarrow> bool" where
  "wf_gv v \<longleftrightarrow> hex64 (gv_guardian v) \<and> hex32 (gv_operationId v)
     \<and> pred_option (text_upto CAP_ROLE) (gv_role v) \<and> pred_option hex32 (gv_revokedBy v)"

definition wf_gc :: "guardian_ceiling \<Rightarrow> bool" where
  "wf_gc c \<longleftrightarrow> hex64 (gc_guardian c) \<and> hex32 (gc_operationId c) \<and> pred_option hex32 (gc_revokedBy c)"

definition wf_bf :: "block_fact \<Rightarrow> bool" where
  "wf_bf b \<longleftrightarrow> hex64 (bf_blockedBy b) \<and> hex32 (bf_operationId b) \<and> wf_scope (bf_scope b)
     \<and> pred_option (text_upto CAP_REASON) (bf_reason b) \<and> pred_option hex32 (bf_liftedBy b)"

definition wf_ai :: "app_introduction \<Rightarrow> bool" where
  "wf_ai a \<longleftrightarrow> wf_intro (ai_intro a) \<and> 1 \<le> ai_clock a \<and> 0 \<le> ai_createdAt a"

definition wf_ss :: "share_sent \<Rightarrow> bool" where
  "wf_ss s \<longleftrightarrow> DIRECTORY_ID (ss_directoryId s) \<and> hex32 (ss_contactId s)"

abbreviation grant_of :: "app_introduction \<Rightarrow> ustr" where
  "grant_of a \<equiv> iv_grantId (ai_intro a)"

definition wf_intros :: "app_introduction list \<Rightarrow> bool" where
  "wf_intros as \<longleftrightarrow> list_all wf_ai as \<and> distinct (map grant_of as)"

text \<open>All of the record but its list memberships.\<close>

definition wf_body :: "platform \<Rightarrow> contact_record \<Rightarrow> bool" where
  "wf_body P r \<longleftrightarrow>
     pred_option (\<lambda>os. length os \<le> 64 \<and> list_all wf_origin os) (origins r)
     \<and> pred_option (\<lambda>cs. length cs \<le> 128 \<and> list_all wf_check cs) (checks r)
     \<and> pred_option (list_all hex32) (mergedContactIds r)
     \<and> pred_option (list_all (\<lambda>s. wf_shared (sc_value s))) (sharedContexts r)
     \<and> pred_option (list_all wf_ss) (sharesSent r)
     \<and> pred_option wf_intros (appIntroductions r)
     \<and> DIRECTORY_ID (directoryId r) \<and> hex32 (contactId r)
     \<and> length (displayName r) \<le> CAP_NAME \<and> wf_roles (roles r)
     \<and> list_all wf_ci (identities r) \<and> list_all wf_cm (contactMethods r)
     \<and> hex32 (createdByOperationId r)
     \<and> list_all wf_gv (vouches r) \<and> list_all wf_gc (ceilings r) \<and> list_all wf_bf (blocks r)
     \<and> pred_option (\<lambda>s. length s \<le> CAP_NOTE) (noteText r) \<and> pred_option (wf_picture P) (picture r)"

definition wf_record :: "platform \<Rightarrow> contact_record \<Rightarrow> bool" where
  "wf_record P r \<longleftrightarrow> wf_lists r \<and> wf_body P r"

section \<open>The invariant is kept\<close>

lemma length_clean: "length (clean s n) \<le> length s"
  by (simp add: clean_def length_sanitizeDisplayName)

lemma wf_cleanRoles: "wf_roles rs \<Longrightarrow> wf_roles (cleanRoles rs)"
proof -
  assume rs: "wf_roles rs"
  let ?f = "filter (\<lambda>r. r \<noteq> []) (map (\<lambda>r. clean r CAP_ROLE) rs)"
  have "length (cleanRoles rs) \<le> length ?f"
    unfolding cleanRoles_def by (rule length_uniq)
  also have "\<dots> \<le> length rs"
    using length_filter_le [of "\<lambda>r. r \<noteq> []" "map (\<lambda>r. clean r CAP_ROLE) rs"] by simp
  finally have "length (cleanRoles rs) \<le> CAP_ROLES"
    using rs by simp
  moreover have "list_all (\<lambda>r. r \<noteq> [] \<and> length r \<le> CAP_ROLE) (cleanRoles rs)"
    using rs length_clean [of _ CAP_ROLE] by (fastforce simp: cleanRoles_def list_all_iff intro: order_trans)
  ultimately show ?thesis by simp
qed

lemma keep_pred: "pred_option Q s \<Longrightarrow> (\<And>x. Q x \<Longrightarrow> R (f x)) \<Longrightarrow> pred_option R (keep f s)"
  by (cases s) (auto simp: keep_def)

lemma keep_nonempty: "pred_option (\<lambda>x. x \<noteq> []) (keep (\<lambda>s. s) s)"
  by (cases s) (auto simp: keep_def falsy_def)

lemma wf_normaliseContactOrigin: "wf_origin c \<Longrightarrow> wf_origin (normaliseContactOrigin c)"
  unfolding wf_origin_def normaliseContactOrigin_def contact_origin.simps
  by (intro conjI; (elim conjE)?; (elim keep_pred)?; assumption?)
    (auto intro: order_trans [OF length_sanitizeDisplayName])

lemma wf_normaliseContactCheck: "wf_check c \<Longrightarrow> wf_check (normaliseContactCheck c)"
  unfolding wf_check_def normaliseContactCheck_def contact_check.simps
  by (intro conjI; (elim conjE)?; (elim keep_pred)?; assumption?)
    (auto intro: order_trans [OF length_sanitizeNote])

lemma wf_lists_cong:
  "listMemberships r = listMemberships s \<Longrightarrow> primaryIdentityPubkey r = primaryIdentityPubkey s \<Longrightarrow>
     wf_lists r = wf_lists s"
  by (simp add: wf_lists_def cong: option.case_cong)

lemma wf_body_cong_lists:
  "wf_body P (r\<lparr>listMemberships := a\<rparr>) = wf_body P r" "wf_body P (r\<lparr>primaryIdentityPubkey := b\<rparr>) = wf_body P r"
  "wf_body P (r\<lparr>updatedAt := t\<rparr>) = wf_body P r" "wf_body P (r\<lparr>createdAt := t\<rparr>) = wf_body P r"
  "wf_body P (r\<lparr>lifecycle := l\<rparr>) = wf_body P r" "wf_body P (r\<lparr>removedAt := s\<rparr>) = wf_body P r"
  "wf_body P (r\<lparr>archived := ar\<rparr>) = wf_body P r" "wf_body P (r\<lparr>tier := k\<rparr>) = wf_body P r"
  "wf_body P (r\<lparr>tierSetByActorRole := q\<rparr>) = wf_body P r"
  by (simp_all add: wf_body_def)

lemma wf_body_link [simp]: "wf_body P (linkContactList r w t) = wf_body P r"
  by (simp add: linkContactList_def wf_body_cong_lists)

lemma wf_body_unlink [simp]: "wf_body P (unlinkContactList r w t) = wf_body P r"
  by (simp add: unlinkContactList_def wf_body_cong_lists Let_def)

lemma wf_body_removeAll [simp]: "wf_body P (removeContactLists r t) = wf_body P r"
  by (simp add: removeContactLists_def wf_body_cong_lists split: option.split)

lemma wf_lists_updates [simp]:
  "wf_lists (r\<lparr>updatedAt := t\<rparr>) = wf_lists r" "wf_lists (r\<lparr>lifecycle := l\<rparr>) = wf_lists r"
  "wf_lists (r\<lparr>removedAt := s\<rparr>) = wf_lists r" "wf_lists (r\<lparr>archived := ar\<rparr>) = wf_lists r"
  "wf_lists (r\<lparr>tier := k\<rparr>) = wf_lists r" "wf_lists (r\<lparr>tierSetByActorRole := q\<rparr>) = wf_lists r"
  "wf_lists (r\<lparr>createdAt := t\<rparr>) = wf_lists r" "wf_lists (r\<lparr>appIntroductions := ai\<rparr>) = wf_lists r"
  "wf_lists (r\<lparr>mergedContactIds := mi\<rparr>) = wf_lists r" "wf_lists (r\<lparr>sharedContexts := sc\<rparr>) = wf_lists r"
  "wf_lists (r\<lparr>sharesSent := ss\<rparr>) = wf_lists r" "wf_lists (r\<lparr>displayName := dn\<rparr>) = wf_lists r"
  "wf_lists (r\<lparr>roles := rs\<rparr>) = wf_lists r" "wf_lists (r\<lparr>noteText := n\<rparr>) = wf_lists r"
  "wf_lists (r\<lparr>picture := pc\<rparr>) = wf_lists r" "wf_lists (r\<lparr>identities := is\<rparr>) = wf_lists r"
  "wf_lists (r\<lparr>origins := os\<rparr>) = wf_lists r" "wf_lists (r\<lparr>checks := cs\<rparr>) = wf_lists r"
  "wf_lists (r\<lparr>contactMethods := ms\<rparr>) = wf_lists r" "wf_lists (r\<lparr>vouches := vs\<rparr>) = wf_lists r"
  "wf_lists (r\<lparr>ceilings := gs\<rparr>) = wf_lists r" "wf_lists (r\<lparr>blocks := bs\<rparr>) = wf_lists r"
  "wf_lists (r\<lparr>ctype := ct\<rparr>) = wf_lists r"
  by (rule wf_lists_cong; simp)+

lemma wf_lists_app_intros: "wf_lists (r\<lparr>appIntroductions := ai, updatedAt := t\<rparr>) = wf_lists r"
  by simp

text \<open>An optional list with one element more, one element replaced, or some taken out.\<close>

lemma pred_opt_list: "pred_option (list_all Q) xs \<longleftrightarrow> list_all Q (opt_list xs)"
  by (cases xs) auto

lemma wf_intros_opt: "pred_option wf_intros as \<longleftrightarrow> wf_intros (opt_list as)"
  by (cases as) (auto simp: wf_intros_def)

lemma list_all_filter: "list_all Q xs \<Longrightarrow> list_all Q (filter R xs)"
  by (simp add: list_all_iff)

lemma list_all_update: "list_all Q xs \<Longrightarrow> Q x \<Longrightarrow> list_all Q (xs[n := x])"
  by (auto simp: list_all_iff dest: set_update_subset_insert [THEN subsetD])

lemma list_all_map_imp: "list_all Q xs \<Longrightarrow> (\<And>x. Q x \<Longrightarrow> Q (f x)) \<Longrightarrow> list_all Q (map f xs)"
  by (simp add: list_all_iff)

lemma length_filter_drop: "list_ex (\<lambda>x. f x = k) xs \<Longrightarrow> length (filter (\<lambda>x. f x \<noteq> k) xs) < length xs"
  by (induction xs) (auto intro: le_less_trans [OF length_filter_le])

abbreviation touched :: "contact_record \<Rightarrow> contact_operation \<Rightarrow> contact_record" where
  "touched r p \<equiv> r\<lparr>updatedAt := op_createdAt p\<rparr>"

lemma wf_body_receiveShare:
  "wf_body P r \<Longrightarrow> wf_shared v \<Longrightarrow> wf_body P (receiveShare r (touched r p) p v)"
  by (simp add: receiveShare_def wf_body_def pred_opt_list)

lemma wf_body_recordShare:
  "wf_body P r \<Longrightarrow> DIRECTORY_ID d \<Longrightarrow> hex32 c \<Longrightarrow> wf_body P (recordShare r (touched r p) p d c)"
  by (simp add: recordShare_def wf_body_def pred_opt_list wf_ss_def)

lemma wf_body_intros:
  "wf_body P (r\<lparr>appIntroductions := as\<rparr>) \<longleftrightarrow> wf_body P (r\<lparr>appIntroductions := None\<rparr>) \<and> pred_option wf_intros as"
  by (auto simp: wf_body_def)

lemma wf_body_no_intros: "wf_body P r \<Longrightarrow> wf_body P (r\<lparr>appIntroductions := None\<rparr>)"
  by (simp add: wf_body_def)

lemma wf_body_intros_of: "wf_body P r \<Longrightarrow> wf_intros (opt_list (appIntroductions r))"
  by (simp add: wf_body_def wf_intros_opt)

lemma wf_intros_snoc:
  "wf_intros as \<Longrightarrow> wf_ai a \<Longrightarrow> \<not> list_ex (\<lambda>b. grant_of b = grant_of a) as \<Longrightarrow> wf_intros (as @ [a])"
  by (auto simp: wf_intros_def list_ex_iff)

lemma wf_body_appProposeList:
  assumes "wf_body P r" and "wf_intro i" and "1 \<le> op_clock p" and "0 \<le> op_createdAt p"
  shows "wf_body P (appProposeList r (touched r p) p i)"
proof (cases "list_ex (\<lambda>a. grant_of a = iv_grantId i) (opt_list (appIntroductions r))")
  case True
  then show ?thesis using assms by (simp add: appProposeList_def)
next
  case False
  have snoc: "wf_intros (opt_list (appIntroductions r) @ [introduce i st b p])" for st b
    using False assms by (intro wf_intros_snoc wf_body_intros_of) (simp_all add: introduce_def wf_ai_def)
  have "wf_body P ((touched r p)\<lparr>appIntroductions := Some as\<rparr>)" if "wf_intros as" for as
    using that assms(1) by (simp add: wf_body_def)
  then show ?thesis
    using False snoc by (simp only: appProposeList_def Let_def if_False)
qed

lemma wf_intros_status: "wf_intros as \<Longrightarrow> wf_intros (map (\<lambda>a. if G a then a\<lparr>ai_status := st\<rparr> else a) as)"
proof -
  assume as: "wf_intros as"
  have "map grant_of (map (\<lambda>a. if G a then a\<lparr>ai_status := st\<rparr> else a) as) = map grant_of as"
    by simp
  moreover have "list_all wf_ai (map (\<lambda>a. if G a then a\<lparr>ai_status := st\<rparr> else a) as)"
    using as by (auto simp: wf_intros_def list_all_iff wf_ai_def)
  ultimately show ?thesis
    using as unfolding wf_intros_def by metis
qed

lemma find_opt_list: "List.find Q (opt_list as) = Some x \<Longrightarrow> x \<in> set (opt_list as) \<and> Q x"
  by (metis find_Some_iff2 nth_mem find_Some_iff)

lemma reviewAppList_wf:
  assumes body: "wf_body P r" and lists: "wf_lists r" and t: "0 \<le> op_createdAt p"
  shows "wf_body P (reviewAppList r (touched r p) p g b) \<and> wf_lists (reviewAppList r (touched r p) p g b)"
proof (cases "List.find (\<lambda>a. grant_of a = g \<and> ai_status a = IntroPending) (opt_list (appIntroductions r))")
  case None
  then have "reviewAppList r (touched r p) p g b = r"
    by (simp only: reviewAppList_def option.case)
  with body lists show ?thesis by argo
next
  case (Some i)
  then have "i \<in> set (opt_list (appIntroductions r))"
    by (rule find_opt_list [THEN conjunct1])
  then have "wf_intro (ai_intro i)"
    using wf_body_intros_of [OF body] by (auto simp: wf_intros_def list_all_iff wf_ai_def)
  then have i: "hex64 (iv_owner (ai_intro i))"
    by (simp add: wf_intro_def)
  let ?n = "if b then linkContactList (touched r p) (iv_owner (ai_intro i)) (op_createdAt p) else touched r p"
  let ?as = "map (\<lambda>a. if grant_of a = g then a\<lparr>ai_status := if b then IntroAccepted else IntroRejected\<rparr> else a)
     (opt_list (appIntroductions r))"
  have n: "wf_body P ?n"
    using body by (simp add: wf_body_cong_lists)
  have "wf_body P (?n\<lparr>appIntroductions := Some ?as\<rparr>)"
    unfolding wf_body_intros [of P "Some ?as" ?n] option.pred_inject
    by (intro conjI wf_body_no_intros n wf_intros_status wf_body_intros_of [OF body])
  moreover have "wf_lists ?n"
    using lists i t by (simp add: wf_lists_link)
  moreover have "reviewAppList r (touched r p) p g b = ?n\<lparr>appIntroductions := Some ?as\<rparr>"
    using Some by (simp only: reviewAppList_def option.case)
  ultimately show ?thesis
    by simp
qed

lemma wf_body_addIdentity:
  assumes "wf_body P t" and "wf_identity P v"
  shows "wf_body P (addIdentity t p v)"
proof (cases "find_index (\<lambda>i. ci_itemId i = iy_itemId v \<or> ci_pubkey i = iy_pubkey v) (identities t)")
  case None
  then show ?thesis using assms by (simp add: addIdentity_def wf_body_def wf_ci_def wf_identity_def)
next
  case (Some n)
  then have "n < length (identities t)"
    using find_index_Some by blast
  then have "wf_ci (identities t ! n)"
    using assms(1) by (auto simp: wf_body_def list_all_iff)
  then have "wf_ci ((identities t ! n)\<lparr>ci_verification := c, ci_direct := d\<rparr>)" for c d
    by (simp add: wf_ci_def)
  then show ?thesis
    using Some assms(1) by (simp add: addIdentity_def Let_def wf_body_def list_all_update)
qed

lemma wf_body_keyLink:
  "wf_body P t \<Longrightarrow> hex32 i \<Longrightarrow> hex64 k \<Longrightarrow> wf_body P (keyLink t p i k f)"
  by (simp add: keyLink_def wf_body_def wf_ci_def)

lemma wf_opt_filter: "pred_option (\<lambda>xs. length xs \<le> n \<and> list_all Q xs) xs \<Longrightarrow>
    length (filter R (opt_list xs)) \<le> n \<and> list_all Q (filter R (opt_list xs))"
  by (cases xs) (auto simp: list_all_iff intro: order_trans [OF length_filter_le])

lemma wf_opt_put:
  assumes xs: "pred_option (\<lambda>xs. length xs \<le> n \<and> list_all Q xs) xs" and x: "Q x"
    and room: "\<not> (n \<le> length (opt_list xs) \<and> \<not> list_ex (\<lambda>y. f y = f x) (opt_list xs))"
  shows "length (filter (\<lambda>y. f y \<noteq> f x) (opt_list xs) @ [x]) \<le> n
    \<and> list_all Q (filter (\<lambda>y. f y \<noteq> f x) (opt_list xs) @ [x])"
proof -
  have len: "length (opt_list xs) \<le> n" and all: "list_all Q (opt_list xs)"
    using xs by (cases xs; simp)+
  have "length (filter (\<lambda>y. f y \<noteq> f x) (opt_list xs)) < n"
    using room len length_filter_drop [of f "f x" "opt_list xs"]
      length_filter_le [of "\<lambda>y. f y \<noteq> f x" "opt_list xs"] by linarith
  then show ?thesis
    using x list_all_filter [OF all] by simp
qed

lemma wf_body_origins: "wf_body P t \<Longrightarrow> length os \<le> 64 \<and> list_all wf_origin os \<Longrightarrow> wf_body P (t\<lparr>origins := Some os\<rparr>)"
  by (simp add: wf_body_def)

lemma wf_body_checks: "wf_body P t \<Longrightarrow> length cs \<le> 128 \<and> list_all wf_check cs \<Longrightarrow> wf_body P (t\<lparr>checks := Some cs\<rparr>)"
  by (simp add: wf_body_def)

lemma wf_origins_of: "wf_body P t \<Longrightarrow> pred_option (\<lambda>os. length os \<le> 64 \<and> list_all wf_origin os) (origins t)"
  and wf_checks_of: "wf_body P t \<Longrightarrow> pred_option (\<lambda>cs. length cs \<le> 128 \<and> list_all wf_check cs) (checks t)"
  by (simp_all add: wf_body_def)

lemma wf_body_recordOrigin:
  assumes t: "wf_body P t" and v: "wf_origin v"
  shows "wf_body P (recordOrigin t v)"
proof -
  note put = wf_body_origins [OF t wf_opt_put [OF wf_origins_of [OF t] wf_normaliseContactOrigin [OF v], where f = co_id]]
  show ?thesis
    unfolding recordOrigin_def Let_def using t put by (simp only: split: if_split) blast
qed

lemma wf_body_removeOrigin: "wf_body P t \<Longrightarrow> wf_body P (removeOrigin t i)"
  unfolding removeOrigin_def by (intro wf_body_origins wf_opt_filter wf_origins_of)

lemma wf_body_recordCheck:
  assumes t: "wf_body P t" and v: "wf_check v"
  shows "wf_body P (recordCheck t v)"
proof -
  note put = wf_body_checks [OF t wf_opt_put [OF wf_checks_of [OF t] wf_normaliseContactCheck [OF v], where f = cc_id]]
  show ?thesis
    unfolding recordCheck_def Let_def using t put by (simp only: split: if_split) blast
qed

lemma wf_body_removeCheck: "wf_body P t \<Longrightarrow> wf_body P (removeCheck t i)"
  unfolding removeCheck_def by (intro wf_body_checks wf_opt_filter wf_checks_of)

lemma wf_body_updateIdentity:
  assumes "wf_body P t" and "updateIdentity t v = Some t'"
  shows "wf_body P t'"
proof -
  let ?f = "\<lambda>i. if ci_itemId i \<noteq> uy_itemId v then i else i\<lparr>
          ci_label := (case uy_label v of None \<Rightarrow> ci_label i | Some l \<Rightarrow> Some (clean l CAP_LABEL)),
          ci_verification := (case uy_verification v of None \<Rightarrow> ci_verification i | Some c \<Rightarrow> c),
          ci_direct := (case normaliseDirect (uy_direct v) of None \<Rightarrow> ci_direct i | Some d \<Rightarrow> Some d)\<rparr>"
  have "list_all wf_ci (map ?f (identities t))"
    using assms(1) by (intro list_all_map_imp) (auto simp: wf_body_def wf_ci_def)
  moreover have "t' = t\<lparr>identities := map ?f (identities t)\<rparr>"
    using assms(2) by (simp add: updateIdentity_def split: if_splits)
  ultimately show ?thesis
    using assms(1) by (simp add: wf_body_def)
qed

lemma length_clean_le: "length s \<le> n \<Longrightarrow> length (clean s m) \<le> n"
  using length_clean order_trans by blast

lemma wf_body_addMethod: "wf_body P t \<Longrightarrow> wf_method v \<Longrightarrow> wf_body P (addMethod t p v)"
  by (simp add: addMethod_def wf_body_def wf_cm_def wf_method_def length_clean_le)

lemma wf_body_updateMethod:
  assumes "wf_body P t" and "wf_update_method v" and "updateMethod t v = Some t'"
  shows "wf_body P t'"
proof -
  let ?f = "\<lambda>m. if cm_itemId m \<noteq> um_itemId v then m else m\<lparr>
          cm_label := (case um_label v of None \<Rightarrow> cm_label m | Some l \<Rightarrow> Some (clean l CAP_LABEL)),
          cm_value := (case um_value v of None \<Rightarrow> cm_value m | Some x \<Rightarrow> clean x CAP_METHOD_VALUE),
          cm_verification := (case um_verification v of None \<Rightarrow> cm_verification m | Some c \<Rightarrow> c),
          cm_sharing := (case um_sharing v of None \<Rightarrow> cm_sharing m | Some s \<Rightarrow> s)\<rparr>"
  have "wf_cm (?f m)" if "wf_cm m" for m
    using that assms(2) by (cases "um_value v") (auto simp: wf_cm_def wf_update_method_def length_clean_le)
  then have "list_all wf_cm (map ?f (contactMethods t))"
    using assms(1) by (intro list_all_map_imp) (simp_all add: wf_body_def)
  moreover have "t' = t\<lparr>contactMethods := map ?f (contactMethods t)\<rparr>"
    using assms(3) by (simp add: updateMethod_def split: if_splits)
  ultimately show ?thesis
    using assms(1) by (simp add: wf_body_def)
qed

lemma wf_body_removeItem: "wf_body P r \<Longrightarrow> wf_body P (removeItem r (touched r p) i)"
  by (simp add: removeItem_def Let_def wf_body_def list_all_filter)

lemma wf_body_vouches: "wf_body P t \<Longrightarrow> list_all wf_gv vs \<Longrightarrow> wf_body P (t\<lparr>vouches := vs\<rparr>)"
  and wf_body_ceilings: "wf_body P t \<Longrightarrow> list_all wf_gc cs \<Longrightarrow> wf_body P (t\<lparr>ceilings := cs\<rparr>)"
  and wf_body_blocks: "wf_body P t \<Longrightarrow> list_all wf_bf bs \<Longrightarrow> wf_body P (t\<lparr>blocks := bs\<rparr>)"
  by (simp_all add: wf_body_def)

lemma wf_facts_of: "wf_body P t \<Longrightarrow> list_all wf_gv (vouches t)" "wf_body P t \<Longrightarrow> list_all wf_gc (ceilings t)"
  "wf_body P t \<Longrightarrow> list_all wf_bf (blocks t)"
  by (simp_all add: wf_body_def)

lemma wf_facts_revoked:
  "hex32 i \<Longrightarrow> list_all wf_gv vs \<Longrightarrow> list_all wf_gv (map (\<lambda>v. if G v then v\<lparr>gv_revokedBy := Some i\<rparr> else v) vs)"
  "hex32 i \<Longrightarrow> list_all wf_gc cs \<Longrightarrow> list_all wf_gc (map (\<lambda>c. if H c then c\<lparr>gc_revokedBy := Some i\<rparr> else c) cs)"
  "hex32 i \<Longrightarrow> list_all wf_bf bs \<Longrightarrow> list_all wf_bf (map (\<lambda>b. if K b then b\<lparr>bf_liftedBy := Some i\<rparr> else b) bs)"
  by (auto simp: list_all_iff wf_gv_def wf_gc_def wf_bf_def)

lemma wf_body_vouch:
  assumes "wf_body P t" and "hex32 (op_id p)" and "hex64 g" and "pred_option (text_upto CAP_ROLE) role"
    and "applyVouch t p g k role = Some t'"
  shows "wf_body P t'"
  using assms wf_facts_revoked(1) [OF assms(2) wf_facts_of(1) [OF assms(1)]]
  by (auto simp: applyVouch_def wf_gv_def intro!: wf_body_vouches split: if_splits)

lemma wf_body_revokeVouch:
  assumes "wf_body P t" and "hex32 (op_id p)" and "revokeVouch t p = Some t'"
  shows "wf_body P t'"
  using assms wf_facts_revoked(1) [OF assms(2) wf_facts_of(1) [OF assms(1)]]
  by (auto simp: revokeVouch_def intro!: wf_body_vouches split: if_splits option.splits)

lemma wf_body_ceiling:
  assumes "wf_body P t" and "hex32 (op_id p)" and "hex64 g" and "applyCeiling t p g k = Some t'"
  shows "wf_body P t'"
  using assms wf_facts_revoked(2) [OF assms(2) wf_facts_of(2) [OF assms(1)]]
  by (auto simp: applyCeiling_def wf_gc_def intro!: wf_body_ceilings split: if_splits)

lemma wf_body_revokeCeiling:
  assumes "wf_body P t" and "hex32 (op_id p)" and "revokeCeiling t p g = Some t'"
  shows "wf_body P t'"
  using assms wf_facts_revoked(2) [OF assms(2) wf_facts_of(2) [OF assms(1)]]
  by (auto simp: revokeCeiling_def intro!: wf_body_ceilings split: if_splits)

lemma wf_body_block:
  assumes "wf_body P t" and "hex32 (op_id p)" and "hex64 (op_actor p)" and "wf_scope s"
    and "pred_option (text_upto CAP_REASON) reason"
  shows "wf_body P (applyBlock t p s reason)"
proof -
  have "pred_option (text_upto CAP_REASON) (keep (\<lambda>s. s) (map_option (\<lambda>s. clean s CAP_REASON) reason))"
    using assms(5) by (cases reason) (auto simp: keep_def falsy_def length_clean_le)
  then show ?thesis
    using assms wf_facts_of(3) [OF assms(1)] unfolding applyBlock_def
    by (intro wf_body_blocks) (simp_all add: wf_bf_def)
qed

lemma wf_body_unblock:
  assumes "wf_body P t" and "hex32 (op_id p)" and "applyUnblock t p = Some t'"
  shows "wf_body P t'"
  using assms wf_facts_revoked(3) [OF assms(2) wf_facts_of(3) [OF assms(1)]]
  by (auto simp: applyUnblock_def intro!: wf_body_blocks split: if_splits option.splits)

lemma wf_lists_handlers:
  "wf_lists (receiveShare r (touched r p) p v) = wf_lists r"
  "wf_lists (recordShare r (touched r p) p d c) = wf_lists r"
  "wf_lists (appProposeList r (touched r p) p i) = wf_lists r"
  "wf_lists (addIdentity t p iv) = wf_lists t" "wf_lists (keyLink t p it k f) = wf_lists t"
  "wf_lists (recordOrigin t orig) = wf_lists t" "wf_lists (removeOrigin t it) = wf_lists t"
  "wf_lists (recordCheck t chk) = wf_lists t" "wf_lists (removeCheck t it) = wf_lists t"
  "wf_lists (addMethod t p m) = wf_lists t" "wf_lists (removeItem r (touched r p) it) = wf_lists r"
  "wf_lists (applyBlock t p s reason) = wf_lists t"
  by (simp_all add: receiveShare_def recordShare_def appProposeList_def addIdentity_def keyLink_def
      recordOrigin_def removeOrigin_def recordCheck_def removeCheck_def addMethod_def removeItem_def
      applyBlock_def Let_def split: option.split)

lemma wf_lists_partial:
  "updateIdentity t iv = Some t' \<Longrightarrow> wf_lists t' = wf_lists t"
  "updateMethod t mv = Some t' \<Longrightarrow> wf_lists t' = wf_lists t"
  "applyVouch t p g k role = Some t' \<Longrightarrow> wf_lists t' = wf_lists t"
  "revokeVouch t p = Some t' \<Longrightarrow> wf_lists t' = wf_lists t"
  "applyCeiling t p g c = Some t' \<Longrightarrow> wf_lists t' = wf_lists t"
  "revokeCeiling t p g = Some t' \<Longrightarrow> wf_lists t' = wf_lists t"
  "applyUnblock t p = Some t' \<Longrightarrow> wf_lists t' = wf_lists t"
  by (auto simp: updateIdentity_def updateMethod_def applyVouch_def revokeVouch_def applyCeiling_def
      revokeCeiling_def applyUnblock_def split: if_splits option.splits)

section \<open>One operation keeps the invariant\<close>

lemma pred_opt_mono: "pred_option Q x \<Longrightarrow> x = Some y \<Longrightarrow> Q y"
  by simp

lemma wf_applyAdd:
  assumes old: "pred_option (wf_record P) old" and p: "wf_operation P p" and v: "wf_add v"
  shows "wf_record P (applyAdd old p v)"
proof -
  have name: "length (clean (av_displayName v) CAP_NAME) \<le> CAP_NAME"
    using v by (simp add: wf_add_def length_clean_le)
  have rs: "av_roles v = Some rs \<Longrightarrow> wf_roles (cleanRoles rs)" for rs
    using v wf_cleanRoles [of rs] by (simp add: wf_add_def)
  show ?thesis
  proof (cases "from_old old (\<lambda>r. lifecycle r \<noteq> Removed) False")
    case True
    then obtain r where r: "old = Some r" and w: "wf_record P r"
      using old by (auto split: option.splits)
    have "wf_lists (applyAdd old p v) = wf_lists r"
      using True by (rule_tac wf_lists_cong) (simp_all add: applyAdd_def r)
    moreover have "wf_body P (applyAdd old p v)"
      using True w name rs by (cases "av_roles v") (simp_all add: applyAdd_def r wf_record_def wf_body_def)
    ultimately show ?thesis
      using w by (simp add: wf_record_def)
  next
    case False
    show ?thesis
    proof (cases old)
      case None
      then show ?thesis
        using p name rs False
        by (cases "av_roles v") (simp_all add: applyAdd_def wf_record_def wf_lists_def wf_body_def wf_operation_def)
    next
      case (Some r)
      then have w: "wf_record P r"
        using old by simp
      have "wf_lists (applyAdd old p v) = wf_lists r"
        using False w Some
        by (rule_tac wf_lists_cong) (auto simp: applyAdd_def wf_record_def wf_lists_def split: option.splits)
      moreover have "wf_body P (applyAdd old p v)"
        using False w name rs p Some
        by (cases "av_roles v") (simp_all add: applyAdd_def wf_record_def wf_body_def wf_operation_def)
      ultimately show ?thesis
        using w by (simp add: wf_record_def)
    qed
  qed
qed

lemma wf_record_link:
  "wf_record P r \<Longrightarrow> hex64 w \<Longrightarrow> 0 \<le> t \<Longrightarrow> wf_record P (linkContactList r w t)"
  by (simp add: wf_record_def wf_lists_link)

lemma wf_applyAddOp:
  assumes old: "pred_option (wf_record P) old" and p: "wf_operation P p" and v: "wf_add v"
  shows "wf_record P (applyAddOp old p v)"
proof -
  let ?n = "applyAdd old p v"
  have t: "0 \<le> op_createdAt p" and k: "1 \<le> op_clock p"
    using p by (simp_all add: wf_operation_def)
  have n: "wf_record P ?n"
    using assms by (rule wf_applyAdd)
  have "wf_record P ((linkContactList ?n (iv_owner i) (op_createdAt p))
      \<lparr>appIntroductions := Some [introduce i IntroAccepted True p]\<rparr>)" if "av_intro v = Some i" for i
  proof -
    have i: "wf_intro i"
      using v that by (simp add: wf_add_def)
    then have "wf_record P (linkContactList ?n (iv_owner i) (op_createdAt p))"
      using n t by (intro wf_record_link) (auto simp: wf_intro_def)
    moreover have "wf_intros [introduce i IntroAccepted True p]"
      using i t k by (simp add: wf_intros_def wf_ai_def introduce_def)
    ultimately show ?thesis
      by (simp add: wf_record_def wf_body_def)
  qed
  moreover have "hex64 w" if "av_owner v = Some w" for w
    using v that by (simp add: wf_add_def)
  ultimately show ?thesis
    using n t by (auto simp: applyAddOp_def link_given_def Let_def wf_record_link split: option.split)
qed

lemma wf_body_touched: "wf_body P (touched r p) = wf_body P r"
  by (simp add: wf_body_cong_lists)

lemmas wf_body_handlers = wf_body_receiveShare wf_body_recordShare wf_body_appProposeList wf_body_addIdentity
  wf_body_keyLink wf_body_recordOrigin wf_body_removeOrigin wf_body_recordCheck wf_body_removeCheck
  wf_body_addMethod wf_body_removeItem wf_body_block

lemmas wf_body_partial = wf_body_updateIdentity wf_body_updateMethod wf_body_vouch wf_body_revokeVouch
  wf_body_ceiling wf_body_revokeCeiling wf_body_unblock

lemma wf_applyLive:
  assumes r: "wf_record P r" and p: "wf_operation P p" and v: "wf_value P v"
    and res: "applyLive r (touched r p) p v = Some r'"
  shows "wf_record P r'"
proof -
  have b: "wf_body P r" and l: "wf_lists r" and t: "0 \<le> op_createdAt p" and k: "1 \<le> op_clock p"
    and i: "hex32 (op_id p)" and a: "hex64 (op_actor p)"
    using r p by (simp_all add: wf_record_def wf_operation_def)
  have bt: "wf_body P (touched r p)" and lt: "wf_lists (touched r p)"
    using b l by (simp_all add: wf_body_touched)
  note handlers = wf_body_handlers [where P = P] wf_lists_handlers wf_lists_link wf_lists_unlink
  note partial = wf_body_partial [OF bt] wf_lists_partial
  show ?thesis
  proof (cases v)
    case (ReviewAppList g ok)
    then show ?thesis
      using res reviewAppList_wf [OF b l t] by (auto simp: wf_record_def)
  next
    case (UpdateIdentity x)
    then show ?thesis using res partial lt by (auto simp: wf_record_def)
  next
    case (Evidence x)
    then show ?thesis using res partial lt by (auto simp: wf_record_def)
  next
    case (UpdateMethod x)
    then show ?thesis using res v partial lt by (auto simp: wf_record_def)
  next
    case (Vouch g' k' role)
    then show ?thesis using res v i partial lt by (auto simp: wf_record_def)
  next
    case RevokeVouch
    then show ?thesis using res v i partial lt by (auto simp: wf_record_def)
  next
    case (Ceiling g' k')
    then show ?thesis using res v i partial lt by (auto simp: wf_record_def)
  next
    case (RevokeCeiling g')
    then show ?thesis using res v i partial lt by (auto simp: wf_record_def)
  next
    case Unblock
    then show ?thesis using res v i partial lt by (auto simp: wf_record_def)
  next
    case (Note s)
    have "length (sanitizeNote s CAP_NOTE) \<le> CAP_NOTE"
      using v Note by (auto intro: order_trans [OF length_sanitizeNote])
    then show ?thesis
      using res Note b lt by (auto simp: wf_record_def wf_body_def)
  next
    case (Rename d)
    then show ?thesis
      using res v b lt by (auto simp: wf_record_def wf_body_def length_clean_le split: if_splits)
  next
    case (SetRoles rs)
    then show ?thesis
      using res v b lt wf_cleanRoles [of rs] by (auto simp: wf_record_def wf_body_def)
  next
    case Remove
    then show ?thesis
      using res bt wf_lists_removeAll [OF lt t] by (auto simp: wf_record_def wf_body_cong_lists)
  next
    case Archive
    then show ?thesis
      using res bt wf_lists_removeAll [OF lt t] by (auto simp: wf_record_def wf_body_cong_lists)
  next
    case (SetPicture x)
    then show ?thesis
      using res v b lt by (auto simp: wf_record_def wf_body_def)
  next
    case ClearPicture
    then show ?thesis
      using res b lt by (auto simp: wf_record_def wf_body_def)
  next
    case (LinkList w)
    then show ?thesis using res v b l t by (auto simp: wf_record_def wf_lists_link)
  next
    case (UnlinkList w)
    then show ?thesis using res v b l t by (auto simp: wf_record_def wf_lists_unlink)
  next
    case (AddIdentity x)
    then show ?thesis using res v bt lt by (auto simp: wf_record_def handlers)
  next
    case (KeyLink x1 x2 x3 x4)
    then show ?thesis using res v bt lt by (auto simp: wf_record_def handlers)
  next
    case (Block s reason)
    then show ?thesis using res v bt lt i a by (auto simp: wf_record_def handlers)
  next
    case (AppProposeList x)
    then show ?thesis using res v b l k t by (auto simp: wf_record_def handlers)
  next
    case (ReceiveShare x)
    then show ?thesis using res v b l by (auto simp: wf_record_def handlers)
  next
    case (RecordShare d c)
    then show ?thesis using res v b l by (auto simp: wf_record_def handlers)
  next
    case (RemoveItem x)
    then show ?thesis using res v b l by (auto simp: wf_record_def handlers)
  next
    case (SetTier x)
    then show ?thesis using res bt lt by (auto simp: wf_record_def wf_body_cong_lists)
  next
    case (SetLifecycle x)
    then show ?thesis using res bt lt by (auto simp: wf_record_def wf_body_cong_lists)
  next
    case (Add x)
    then show ?thesis using res by simp
  qed (use res v bt lt in \<open>auto simp: wf_record_def handlers\<close>)
qed

lemma applyOne_keeps:
  assumes "pred_option (wf_record P) old" and "wf_operation P p" and "applyOne old p = Some r"
  shows "wf_record P r"
proof -
  have v: "wf_value P (op_value p)"
    using assms(2) by (simp add: wf_operation_def)
  show ?thesis
  proof (cases "\<exists>a. op_value p = Add a")
    case True
    then show ?thesis
      using assms v by (auto simp: applyOne_def wf_applyAddOp)
  next
    case False
    then obtain r0 where "old = Some r0" and "applyLive r0 (touched r0 p) p (op_value p) = Some r"
      using assms(3) by (auto simp: applyOne_def split: contact_value.splits option.splits if_splits)
    then show ?thesis
      using wf_applyLive [OF _ assms(2) v] assms(1) by simp
  qed
qed

text \<open>
  an operation the guard accepts, applied to a record within the bounds the reader
  checks (or to none), gives a record within them: whatever the actor, no guarded row can push a
  record out of shape.
\<close>

lemma applyOne_wf:
  assumes "pred_option (wf_record P) old" and "wf_operation P p" and "applyOne old p = Some r"
  shows "wf_record P r"
  using assms by (rule applyOne_keeps)

end
