(* ===== verification/Contact_Store.thy ===== *)
theory Contact_Store
  imports Contact_Records
begin

text \<open>
  The materialised record as the JavaScript object that is encrypted and stored (the shape of
  \<open>ContactRecord\<close>), and the round trip through the reader's guard \<open>validateRecord\<close>: a record within
  the invariant is accepted when it is read back.
\<close>

section \<open>Encoding\<close>

fun enc_tier :: "tier \<Rightarrow> jsval" where
  "enc_tier Kin = JS ''kin''" | "enc_tier Kith = JS ''kith''" | "enc_tier Ken = JS ''ken''"

fun enc_ceiling_tier :: "ceiling_tier \<Rightarrow> jsval" where
  "enc_ceiling_tier (AtMost t) = enc_tier t" | "enc_ceiling_tier NoTier = JS ''none''"

fun enc_type :: "contact_type \<Rightarrow> jsval" where
  "enc_type Person = JS ''person''" | "enc_type Organisation = JS ''organisation''"

fun enc_lifecycle :: "lifecycle \<Rightarrow> jsval" where
  "enc_lifecycle Suggested = JS ''suggested''" | "enc_lifecycle Pending = JS ''pending''"
| "enc_lifecycle Active = JS ''active''" | "enc_lifecycle Rejected = JS ''rejected''"
| "enc_lifecycle Removed = JS ''removed''"

fun enc_verification :: "verification \<Rightarrow> jsval" where
  "enc_verification Unverified = JS ''unverified''" | "enc_verification Proven = JS ''proven''"
| "enc_verification Mutual = JS ''mutual''"

fun enc_provenance :: "provenance \<Rightarrow> jsval" where
  "enc_provenance Direct = JS ''direct''" | "enc_provenance GuardianShare = JS ''guardian-share''"
| "enc_provenance AppProposal = JS ''app-proposal''" | "enc_provenance LegacyImport = JS ''legacy-import''"
| "enc_provenance KeyLinked = JS ''key-link''"

fun enc_method_kind :: "method_kind \<Rightarrow> jsval" where
  "enc_method_kind Phone = JS ''phone''" | "enc_method_kind Email = JS ''email''"
| "enc_method_kind Website = JS ''website''" | "enc_method_kind PostalAddress = JS ''postal-address''"
| "enc_method_kind OtherMethod = JS ''other''"

fun enc_method_verification :: "method_verification \<Rightarrow> jsval" where
  "enc_method_verification MethodUnverified = JS ''unverified''"
| "enc_method_verification MethodProven = JS ''proven''"

fun enc_sharing :: "sharing \<Rightarrow> jsval" where
  "enc_sharing Private = JS ''private''" | "enc_sharing Grantable = JS ''grantable''"

fun enc_role :: "actor_role \<Rightarrow> jsval" where
  "enc_role Owner = JS ''owner''" | "enc_role Guardian = JS ''guardian''"
| "enc_role Dependant = JS ''dependant''" | "enc_role App = JS ''app''"

fun enc_status :: "intro_status \<Rightarrow> jsval" where
  "enc_status IntroPending = JS ''pending''" | "enc_status IntroAccepted = JS ''accepted''"
| "enc_status IntroRejected = JS ''rejected''"

fun enc_scope :: "block_scope \<Rightarrow> jsval" where
  "enc_scope WholeContact = obj [(''kind'', JS ''contact'')]"
| "enc_scope (OneIdentity i) = obj [(''kind'', JS ''identity''), (''itemId'', JStr i)]"

definition enc_origin :: "contact_origin \<Rightarrow> jsval" where
  "enc_origin c = obj [(''id'', JStr (co_id c)), (''ownerIdentityPubkey'', JStr (co_owner c)),
     (''method'', JStr (co_method c)), (''addedAt'', enc_num (co_addedAt c)),
     (''inviteId'', enc_opt JStr (co_inviteId c)), (''inviteName'', enc_opt JStr (co_inviteName c)),
     (''caption'', enc_opt JStr (co_caption c)), (''appName'', enc_opt JStr (co_appName c))]"

definition enc_check :: "contact_check \<Rightarrow> jsval" where
  "enc_check c = obj [(''id'', JStr (cc_id c)), (''identityPubkey'', JStr (cc_identity c)),
     (''ownerIdentityPubkey'', JStr (cc_owner c)), (''method'', JStr (cc_method c)),
     (''checkedAt'', enc_num (cc_checkedAt c)), (''source'', enc_opt JStr (cc_source c)),
     (''evidence'', enc_opt JStr (cc_evidence c))]"

definition enc_direct :: "direct_evidence \<Rightarrow> jsval" where
  "enc_direct d = obj [(''ownerPubkey'', JStr (de_owner d)), (''sharedSecret'', enc_opt JStr (de_secret d)),
     (''verifiedAt'', enc_num (de_verifiedAt d)), (''bondAssertion'', de_bond d),
     (''groupId'', enc_opt JStr (de_group d)), (''isDefaultForGroup'', enc_opt JBool (de_default d))]"

definition enc_identity :: "contact_identity \<Rightarrow> jsval" where
  "enc_identity i = obj [(''itemId'', JStr (ci_itemId i)), (''pubkey'', JStr (ci_pubkey i)),
     (''label'', enc_opt JStr (ci_label i)), (''provenance'', enc_provenance (ci_provenance i)),
     (''verification'', enc_verification (ci_verification i)), (''direct'', enc_opt enc_direct (ci_direct i)),
     (''linkedFromItemId'', ci_linkedFrom i), (''addedAt'', enc_num (ci_addedAt i))]"

definition enc_method :: "contact_method \<Rightarrow> jsval" where
  "enc_method m = obj [(''itemId'', JStr (cm_itemId m)), (''kind'', enc_method_kind (cm_kind m)),
     (''label'', enc_opt JStr (cm_label m)), (''value'', JStr (cm_value m)),
     (''verification'', enc_method_verification (cm_verification m)),
     (''sharingPolicy'', enc_sharing (cm_sharing m)), (''addedAt'', enc_num (cm_addedAt m))]"

definition enc_grant :: "access_grant_ref \<Rightarrow> jsval" where
  "enc_grant g = obj [(''grantId'', JStr (ag_grantId g)), (''purpose'', JStr (ag_purpose g)),
     (''fields'', enc_list JStr (ag_fields g)), (''recipientPubkey'', JStr (ag_recipient g)),
     (''createdAt'', enc_num (ag_createdAt g)), (''expiresAt'', enc_opt enc_num (ag_expiresAt g))]"

definition enc_vouch :: "guardian_vouch \<Rightarrow> jsval" where
  "enc_vouch v = obj [(''vouchId'', JStr (gv_vouchId v)), (''guardianPubkey'', JStr (gv_guardian v)),
     (''tier'', enc_tier (gv_tier v)), (''role'', enc_opt JStr (gv_role v)),
     (''createdAt'', enc_num (gv_createdAt v)), (''operationId'', JStr (gv_operationId v)),
     (''revokedByOperationId'', enc_opt JStr (gv_revokedBy v))]"

definition enc_ceiling :: "guardian_ceiling \<Rightarrow> jsval" where
  "enc_ceiling c = obj [(''guardianPubkey'', JStr (gc_guardian c)), (''maxTier'', enc_ceiling_tier (gc_maxTier c)),
     (''createdAt'', enc_num (gc_createdAt c)), (''operationId'', JStr (gc_operationId c)),
     (''revokedByOperationId'', enc_opt JStr (gc_revokedBy c))]"

definition enc_block :: "block_fact \<Rightarrow> jsval" where
  "enc_block b = obj [(''blockedBy'', JStr (bf_blockedBy b)), (''scope'', enc_scope (bf_scope b)),
     (''blockedAt'', enc_num (bf_blockedAt b)), (''reason'', enc_opt JStr (bf_reason b)),
     (''operationId'', JStr (bf_operationId b)), (''liftedByOperationId'', enc_opt JStr (bf_liftedBy b))]"

definition enc_member :: "list_membership \<Rightarrow> jsval" where
  "enc_member m = obj [(''ownerIdentityPubkey'', JStr (lm_owner m)), (''addedAt'', enc_num (lm_addedAt m)),
     (''removedAt'', enc_opt enc_num (lm_removedAt m))]"

definition enc_intro :: "app_introduction \<Rightarrow> jsval" where
  "enc_intro a = obj [(''grantId'', JStr (iv_grantId (ai_intro a))),
     (''ownerIdentityPubkey'', JStr (iv_owner (ai_intro a))), (''pubkey'', JStr (iv_pubkey (ai_intro a))),
     (''displayName'', JStr (iv_displayName (ai_intro a))), (''appName'', enc_opt JStr (iv_appName (ai_intro a))),
     (''status'', enc_status (ai_status a)), (''restricted'', JBool (ai_restricted a)),
     (''logicalClock'', enc_num (of_int (ai_clock a))), (''createdAt'', enc_num (ai_createdAt a))]"

definition enc_shared_check :: "shared_check \<Rightarrow> jsval" where
  "enc_shared_check c = obj [(''pubkey'', JStr (sk_pubkey c)), (''verification'', enc_verification (sk_verification c)),
     (''verifiedAt'', enc_opt enc_num (sk_verifiedAt c))]"

definition enc_check_record :: "shared_check_record \<Rightarrow> jsval" where
  "enc_check_record c = obj [(''pubkey'', JStr (sr_pubkey c)), (''method'', JStr (sr_method c)),
     (''checkedAt'', enc_num (sr_checkedAt c))]"

definition enc_shared :: "shared_context \<Rightarrow> jsval" where
  "enc_shared s = obj [(''guardianPubkey'', JStr (sv_guardian (sc_value s))),
     (''tier'', enc_opt enc_tier (sv_tier (sc_value s))), (''blocked'', enc_opt JBool (sv_blocked (sc_value s))),
     (''checks'', enc_opt (enc_list enc_shared_check) (sv_checks (sc_value s))),
     (''checkRecords'', enc_opt (enc_list enc_check_record) (sv_checkRecords (sc_value s))),
     (''receivedAt'', enc_num (sc_receivedAt s))]"

definition enc_sent :: "share_sent \<Rightarrow> jsval" where
  "enc_sent s = obj [(''directoryId'', JStr (ss_directoryId s)), (''contactId'', JStr (ss_contactId s)),
     (''sharedAt'', enc_num (ss_sharedAt s))]"

definition enc_picture :: "picture_pointer \<Rightarrow> jsval" where
  "enc_picture p = obj [(''server'', JStr (pp_server p)), (''hash'', JStr (pp_hash p)),
     (''key'', JStr (pp_key p)), (''plainHash'', JStr (pp_plainHash p))]"

definition enc_record :: "contact_record \<Rightarrow> jsval" where
  "enc_record r = obj
    [(''origins'', enc_opt (enc_list enc_origin) (origins r)),
     (''checks'', enc_opt (enc_list enc_check) (checks r)),
     (''mergedContactIds'', enc_opt (enc_list JStr) (mergedContactIds r)),
     (''sharedContexts'', enc_opt (enc_list enc_shared) (sharedContexts r)),
     (''sharesSent'', enc_opt (enc_list enc_sent) (sharesSent r)),
     (''appIntroductions'', enc_opt (enc_list enc_intro) (appIntroductions r)),
     (''primaryIdentityPubkey'', enc_opt JStr (primaryIdentityPubkey r)),
     (''listMemberships'', enc_opt (enc_list enc_member) (listMemberships r)),
     (''directoryId'', JStr (directoryId r)), (''contactId'', JStr (contactId r)),
     (''type'', enc_type (ctype r)), (''displayName'', JStr (displayName r)), (''tier'', enc_tier (tier r)),
     (''tierSetByActorRole'', enc_opt enc_role (tierSetByActorRole r)),
     (''roles'', enc_list JStr (roles r)), (''identities'', enc_list enc_identity (identities r)),
     (''contactMethods'', enc_list enc_method (contactMethods r)),
     (''accessGrants'', enc_list enc_grant (accessGrants r)), (''lifecycle'', enc_lifecycle (lifecycle r)),
     (''createdAt'', enc_num (createdAt r)), (''updatedAt'', enc_num (updatedAt r)),
     (''removedAt'', enc_opt enc_num (removedAt r)), (''archived'', enc_opt JBool (archived r)),
     (''createdByActorRole'', enc_role (createdByActorRole r)),
     (''createdByOperationId'', JStr (createdByOperationId r)),
     (''vouches'', enc_list enc_vouch (vouches r)), (''ceilings'', enc_list enc_ceiling (ceilings r)),
     (''blocks'', enc_list enc_block (blocks r)), (''notes'', enc_opt JStr (noteText r)),
     (''picture'', enc_opt enc_picture (picture r))]"

section \<open>The guards on encoded parts\<close>

lemma enc_enums [simp]:
  "isTier (enc_tier t)" "isVerification (enc_verification v)" "isMethodVerification (enc_method_verification mv)"
  "isProvenance (enc_provenance pv)" "isMethodKind (enc_method_kind k)" "isSharing (enc_sharing sh)"
  "isActorRole (enc_role ro)" "isRecordLifecycle (enc_lifecycle lc)" "isContactType (enc_type ty)"
  by ((cases t; simp add: isTier_def), (cases v; simp add: isVerification_def),
      (cases mv; simp add: isMethodVerification_def), (cases pv; simp add: isProvenance_def),
      (cases k; simp add: isMethodKind_def), (cases sh; simp add: isSharing_def),
      (cases ro; simp add: isActorRole_def),
      (cases lc; simp add: isRecordLifecycle_def isLifecycleValue_def), (cases ty; simp add: isContactType_def))

lemma enc_ceiling_guard [simp]: "isCeilingTier (enc_ceiling_tier c)"
  by (cases c) (simp_all add: isCeilingTier_def)

lemma enc_guards [simp]:
  "isHex (JStr s) n = is_hex_str n s" "isStr (JStr s) n = (s \<noteq> [] \<and> length s \<le> n)"
  "isFiniteNum (enc_num r)" "is_bool (JBool b)" "is_str (JStr s) Q = Q s" "fin_num (enc_num r) R = R r"
  "one_of ss (JStr s) = (s \<in> set ss)" "valid_stamp (enc_num r) = stamp r" "enc_num r \<noteq> JUndef"
  by (simp_all add: guard_simps enc_num_def one_of_def valid_stamp_def)

lemma enc_opt_hex [simp]: "isOptHex (enc_opt JStr x) n = pred_option (is_hex_str n) x"
  by (cases x) (simp_all add: isOptHex_def opt_or_def)

lemma enc_opt_str [simp]: "isOptStr (enc_opt JStr x) n = pred_option (text_upto n) x"
  by (cases x) (simp_all add: isOptStr_def opt_or_def)

lemma enc_opt_short [simp]: "short_text n (enc_opt JStr x) = pred_option (\<lambda>s. length s \<le> n) x"
  by (cases x) (simp_all add: short_text_def opt_or_def)

lemma enc_elements [simp]: "everyElement (enc_list f xs) G = list_all (\<lambda>x. isObj (f x) \<and> G (f x)) xs"
  by (simp add: everyElement_def enc_list_def is_arr_def list_all_iff)

lemma enc_scope_guard [simp]: "isScope (enc_scope s) = wf_scope s"
  by (cases s) (simp_all add: isScope_def)

lemma enc_origin_valid: "wf_origin c \<Longrightarrow> validContactOrigin (enc_origin c)"
  by (simp add: validContactOrigin_def enc_origin_def wf_origin_def)

lemma enc_check_valid: "wf_check c \<Longrightarrow> validContactCheck (enc_check c)"
  by (simp add: validContactCheck_def enc_check_def wf_check_def enc_opt_or)

lemma enc_vouch_valid: "wf_gv v \<Longrightarrow> isVouchFact (enc_vouch v)"
  by (simp add: isVouchFact_def enc_vouch_def wf_gv_def)

lemma enc_ceiling_valid: "wf_gc c \<Longrightarrow> isCeilingFact (enc_ceiling c)"
  by (simp add: isCeilingFact_def enc_ceiling_def wf_gc_def)

lemma enc_block_valid: "wf_bf b \<Longrightarrow> isBlockFact (enc_block b)"
  by (simp add: isBlockFact_def enc_block_def wf_bf_def)

lemma enc_identity_valid: "wf_ci i \<Longrightarrow> isIdentityItem (enc_identity i)"
  by (simp add: isIdentityItem_def enc_identity_def wf_ci_def)

lemma enc_method_valid: "wf_cm m \<Longrightarrow> isMethodItem (enc_method m)"
  by (simp add: isMethodItem_def enc_method_def wf_cm_def)

lemma enc_sent_valid: "wf_ss s \<Longrightarrow> validSent (enc_sent s)"
  by (simp add: validSent_def enc_sent_def wf_ss_def)

lemma enc_shared_check_valid: "wf_shared_check c \<Longrightarrow> validSharedCheck (enc_shared_check c)"
  by (cases "sk_verifiedAt c")
    (simp_all add: validSharedCheck_def enc_shared_check_def wf_shared_check_def opt_or_def)

lemma enc_check_record_valid: "wf_check_record c \<Longrightarrow> validCheckRecord (enc_check_record c)"
  by (simp add: validCheckRecord_def enc_check_record_def wf_check_record_def)

lemma enc_shared_valid: "wf_shared (sc_value s) \<Longrightarrow> validSharedContext (enc_shared s)"
  by (cases "sv_checks (sc_value s)"; cases "sv_checkRecords (sc_value s)"; cases "sv_tier (sc_value s)";
      cases "sv_blocked (sc_value s)")
    (auto simp: validSharedContext_def enc_shared_def wf_shared_def opt_or_def list_all_iff
      enc_shared_check_valid enc_check_record_valid, auto simp: enc_shared_check_def enc_check_record_def)

lemma enc_picture_valid: "wf_picture P p \<Longrightarrow> validPicturePointer P (enc_picture p)"
  by (auto simp: validPicturePointer_def enc_picture_def obj_def wf_picture_def)

lemma enc_picture_obj: "enc_picture p \<noteq> JUndef"
  by (simp add: enc_picture_def)

lemma enc_intro_valid: "wf_ai a \<Longrightarrow> validAppIntroduction P (enc_intro a) = Some True"
  by (cases "ai_status a")
    (auto simp: validAppIntroduction_def enc_intro_def validIntroduction_def wf_ai_def wf_intro_def is_int_rat_def)

lemma enc_intros_valid:
  assumes "pred_option wf_intros as"
  shows "validAppIntroductions P (enc_opt (enc_list enc_intro) as) = Some True"
proof (cases as)
  case (Some xs)
  have g: "get (enc_intro a) ''grantId'' = JStr (grant_of a)" for a
    by (simp add: enc_intro_def)
  have "every_opt (validAppIntroduction P) (map enc_intro xs) = Some True"
    using assms Some by (auto simp: every_opt_True wf_intros_def list_all_iff enc_intro_valid)
  moreover have "distinct (map (\<lambda>i. get i ''grantId'') (map enc_intro xs))"
    using assms Some by (simp add: wf_intros_def o_def g distinct_map inj_on_def)
  ultimately show ?thesis
    using Some by (simp add: validAppIntroductions_def enc_list_def)
qed (simp add: validAppIntroductions_def)

lemma scan_enc:
  assumes "distinct (map lm_owner ms)" and "\<forall>m \<in> set ms. lm_owner m \<notin> set seen"
    and "\<forall>m \<in> set ms. hex64 (lm_owner m) \<and> 0 \<le> lm_addedAt m
           \<and> (case lm_removedAt m of None \<Rightarrow> True | Some t \<Rightarrow> 0 \<le> t)"
  shows "scan_lists (map enc_member ms) seen act = Some (act @ map lm_owner (filter active_member ms))"
  using assms
proof (induction ms arbitrary: seen act)
  case (Cons m ms)
  have "scan_lists (enc_member m # map enc_member ms) seen act
      = scan_lists (map enc_member ms) (lm_owner m # seen) (if active_member m then act @ [lm_owner m] else act)"
    using Cons.prems by (cases "lm_removedAt m") (simp_all add: enc_member_def valid_time_def active_member_def)
  also have "\<dots> = Some ((if active_member m then act @ [lm_owner m] else act) @ map lm_owner (filter active_member ms))"
    using Cons.prems by (intro Cons.IH) (auto simp: image_iff)
  finally show ?case by simp
qed simp

lemma enc_lists_valid:
  assumes wf: "wf_lists r"
    and ms: "get raw ''listMemberships'' = enc_opt (enc_list enc_member) (listMemberships r)"
    and pr: "get raw ''primaryIdentityPubkey'' = enc_opt JStr (primaryIdentityPubkey r)"
  shows "validContactLists raw"
proof (cases "listMemberships r")
  case None
  then show ?thesis using wf ms pr by (simp add: validContactLists_def wf_lists_def)
next
  case (Some xs)
  have "scan_lists (map enc_member xs) [] [] = Some (map lm_owner (filter active_member xs))"
    using wf Some scan_enc [of xs "[]" "[]"] by (simp add: wf_lists_def)
  moreover have "case primaryIdentityPubkey r of None \<Rightarrow> \<not> list_ex active_member xs
       | Some p \<Rightarrow> list_ex (\<lambda>m. lm_owner m = p \<and> active_member m) xs"
    using wf Some by (simp add: wf_lists_def)
  ultimately show ?thesis
    using Some ms pr
    by (cases "primaryIdentityPubkey r")
      (auto simp: validContactLists_def enc_list_def list_ex_iff filter_empty_conv image_iff)
qed

section \<open>The round trip\<close>

lemma enc_opt_list_guard:
  "opt_or (enc_opt (enc_list f) x) (is_arr (enc_opt (enc_list f) x) R) = pred_option (\<lambda>xs. R (map f xs)) x"
  "opt_or (enc_opt (enc_list f) x) (everyElement (enc_opt (enc_list f) x) G)
     = pred_option (list_all (\<lambda>y. isObj (f y) \<and> G (f y))) x"
  by (cases x; simp add: opt_or_def)+

lemma list_all_enc: "list_all Q xs \<Longrightarrow> (\<And>x. Q x \<Longrightarrow> R (f x)) \<Longrightarrow> list_all R (map f xs)"
  "list_all Q xs \<Longrightarrow> (\<And>x. Q x \<Longrightarrow> S x) \<Longrightarrow> list_all S xs"
  by (auto simp: list_all_iff)

lemma enc_head:
  assumes "wf_record P r"
  shows "validRecordHead (enc_record r)"
proof -
  have body: "wf_body P r" and lists: "wf_lists r"
    using assms by (simp_all add: wf_record_def)
  have "validContactLists (enc_record r)"
    by (rule enc_lists_valid [OF lists]) (simp_all add: enc_record_def)
  moreover have "pred_option (\<lambda>os. length (map enc_origin os) \<le> 64 \<and> list_all validContactOrigin (map enc_origin os)) (origins r)"
    using body by (cases "origins r") (auto simp: wf_body_def list_all_iff enc_origin_valid)
  moreover have "pred_option (\<lambda>cs. length (map enc_check cs) \<le> 128 \<and> list_all validContactCheck (map enc_check cs)) (checks r)"
    using body by (cases "checks r") (auto simp: wf_body_def list_all_iff enc_check_valid)
  moreover have "pred_option (\<lambda>xs. list_all (\<lambda>i. isHex i 32) (map JStr xs)) (mergedContactIds r)"
    using body by (cases "mergedContactIds r") (auto simp: wf_body_def list_all_iff)
  moreover have "pred_option (list_all (\<lambda>s. isObj (enc_shared s)
       \<and> validSharedContext (enc_shared s) \<and> isFiniteNum (get (enc_shared s) ''receivedAt''))) (sharedContexts r)"
  proof -
    have "isObj (enc_shared s) \<and> isFiniteNum (get (enc_shared s) ''receivedAt'')" for s
      by (simp add: enc_shared_def)
    then show ?thesis
      using body by (cases "sharedContexts r") (auto simp: wf_body_def list_all_iff enc_shared_valid)
  qed
  moreover have "pred_option (list_all (\<lambda>s. isObj (enc_sent s) \<and> validSent (enc_sent s))) (sharesSent r)"
    using body by (cases "sharesSent r") (auto simp: wf_body_def list_all_iff enc_sent_valid, auto simp: enc_sent_def)
  ultimately show ?thesis
    unfolding validRecordHead_def by (simp add: enc_record_def enc_opt_list_guard)
qed

lemma enc_body:
  assumes "wf_body P r"
  shows "validRecordBody P (enc_record r)"
proof -
  have objs: "isObj (enc_identity i)" "isObj (enc_method m)" "isObj (enc_grant g)" "isObj (enc_vouch v)"
    "isObj (enc_ceiling c)" "isObj (enc_block b)" for i m g v c b
    by (simp_all add: enc_identity_def enc_method_def enc_grant_def enc_vouch_def enc_ceiling_def enc_block_def)
  have dir: "directoryId r \<noteq> [] \<and> length (directoryId r) \<le> 120"
    using assms by (auto simp: wf_body_def DIRECTORY_ID_def is_hex_str_def)
  have roles: "isRoles (enc_list JStr (roles r))"
    using assms by (simp add: isRoles_def wf_body_def list_all_iff)
  have pic: "opt_or (enc_opt enc_picture (picture r)) (validPicturePointer P (enc_opt enc_picture (picture r)))"
    using assms by (cases "picture r") (simp_all add: opt_or_def wf_body_def enc_picture_valid)
  have note_ok: "opt_or (enc_opt JStr (noteText r)) (is_str (enc_opt JStr (noteText r)) (\<lambda>s. length s \<le> CAP_NOTE))"
    using assms by (cases "noteText r") (simp_all add: opt_or_def wf_body_def)
  have opts: "opt_or (enc_opt enc_role x) (isActorRole (enc_opt enc_role x))"
    "opt_or (enc_opt enc_num y) (isFiniteNum (enc_opt enc_num y))"
    "opt_or (enc_opt JBool z) (is_bool (enc_opt JBool z))" for x y z
    by (cases x; cases y; cases z; simp add: opt_or_def)+
  have "list_all isIdentityItem (map enc_identity (identities r))" "list_all isMethodItem (map enc_method (contactMethods r))"
    "list_all isVouchFact (map enc_vouch (vouches r))" "list_all isCeilingFact (map enc_ceiling (ceilings r))"
    "list_all isBlockFact (map enc_block (blocks r))"
    using assms by (auto simp: wf_body_def list_all_iff enc_identity_valid enc_method_valid enc_vouch_valid
        enc_ceiling_valid enc_block_valid)
  then have els: "list_all (\<lambda>x. isIdentityItem (enc_identity x)) (identities r)"
    "list_all (\<lambda>x. isMethodItem (enc_method x)) (contactMethods r)" "list_all (\<lambda>x. isVouchFact (enc_vouch x)) (vouches r)"
    "list_all (\<lambda>x. isCeilingFact (enc_ceiling x)) (ceilings r)" "list_all (\<lambda>x. isBlockFact (enc_block x)) (blocks r)"
    by (simp_all add: list.pred_map o_def)
  have plain: "hex32 (contactId r)" "length (displayName r) \<le> CAP_NAME" "hex32 (createdByOperationId r)"
    using assms by (simp_all add: wf_body_def)
  show ?thesis
    unfolding validRecordBody_def
    using plain dir roles pic note_ok els objs opts by (simp add: enc_record_def list_all_iff)
qed

lemma stored_valid:
  assumes "wf_record P r"
  shows "validateRecord P (enc_record r) = Some True"
proof -
  have "get (enc_record r) ''appIntroductions'' = enc_opt (enc_list enc_intro) (appIntroductions r)"
    by (simp add: enc_record_def)
  moreover have "pred_option wf_intros (appIntroductions r)" and "wf_body P r"
    using assms by (simp_all add: wf_record_def wf_body_def)
  ultimately show ?thesis
    using enc_head [OF assms] by (simp add: validateRecord_def enc_intros_valid enc_body)
qed

text \<open>
  a record within the invariant, stored as an object and read back, is accepted by
  the reader's guard, which neither drops it nor throws.
\<close>

lemma validateRecord_stored:
  assumes "wf_record P r"
  shows "validateRecord P (enc_record r) = Some True"
  using assms by (rule stored_valid)

end
