(* ===== verification/Key_Groups.thy ===== *)
theory Key_Groups
  imports Prelude "HOL-Library.Monad_Syntax"
begin

text \<open>
  The union-find inside \<open>applyOperations\<close> (\<open>src/lib/contacts-v2-reducer.ts\<close>): \<open>parent\<close> maps a record
  key to a key of its group, and \<open>root\<close> follows it, pointing what it passes at the root. The
  lemmas show that \<open>root\<close> returns, that compressing paths changes no group, and that uniting two keys
  merges exactly their two groups.
\<close>

section \<open>The union-find\<close>

text \<open>
  \<open>root\<close> with its path compression. The recursion follows parents; the fuel is more than the
  number of keys with a parent, which bounds a path since the parents never form a cycle
  (\<open>root_total\<close>).
\<close>

type_synonym parents = "(ustr \<times> ustr) list"

fun root_fuel :: "nat \<Rightarrow> ustr \<Rightarrow> parents \<Rightarrow> (ustr \<times> parents) option" where
  "root_fuel 0 key m = None"
| "root_fuel (Suc n) key m =
     (case map_of m key of
        None \<Rightarrow> Some (key, m)
      | Some p \<Rightarrow>
          if p = [] \<or> p = key then Some (key, m)
          else (case root_fuel n p m of
                  None \<Rightarrow> None
                | Some (r, m') \<Rightarrow> Some (r, AList.update key r m')))"

definition root_of :: "ustr \<Rightarrow> parents \<Rightarrow> (ustr \<times> parents) option" where
  "root_of key m = root_fuel (Suc (length m)) key m"

text \<open>\<open>if (root(other) !== root(key)) parent.set(root(key), root(other))\<close>.\<close>

definition unite :: "ustr \<Rightarrow> ustr \<Rightarrow> parents \<Rightarrow> parents option" where
  "unite key other m = do {
     (ro, m1) \<leftarrow> root_of other m;
     (rk, m2) \<leftarrow> root_of key m1;
     if ro \<noteq> rk then do {
       (rk', m3) \<leftarrow> root_of key m2;
       (ro', m4) \<leftarrow> root_of other m3;
       Some (AList.update rk' ro' m4) }
     else Some m2 }"

section \<open>Links, tops and acyclicity\<close>

definition links :: "parents \<Rightarrow> (ustr \<times> ustr) set" where
  "links m = {(k, p). map_of m k = Some p \<and> p \<noteq> [] \<and> p \<noteq> k}"

definition acyc :: "parents \<Rightarrow> bool" where
  "acyc m \<longleftrightarrow> acyclic (links m)"

definition is_top :: "parents \<Rightarrow> ustr \<Rightarrow> bool" where
  "is_top m r \<longleftrightarrow> (\<forall>p. (r, p) \<notin> links m)"

definition leads :: "parents \<Rightarrow> ustr \<Rightarrow> ustr \<Rightarrow> bool" where
  "leads m x r \<longleftrightarrow> (x, r) \<in> (links m)\<^sup>* \<and> is_top m r"

definition same_group :: "parents \<Rightarrow> ustr \<Rightarrow> ustr \<Rightarrow> bool" where
  "same_group m x y \<longleftrightarrow> (\<exists>r. leads m x r \<and> leads m y r)"

lemma links_fun: "(x, y) \<in> links m \<Longrightarrow> (x, z) \<in> links m \<Longrightarrow> y = z"
  by (simp add: links_def)

lemma leads_step: "(x, y) \<in> links m \<Longrightarrow> leads m x r \<longleftrightarrow> leads m y r"
proof
  assume xy: "(x, y) \<in> links m" and l: "leads m x r"
  then have "x \<noteq> r"
    by (auto simp: leads_def is_top_def)
  then obtain z where "(x, z) \<in> links m" "(z, r) \<in> (links m)\<^sup>*"
    using l by (auto simp: leads_def elim: converse_rtranclE)
  then show "leads m y r"
    using links_fun [OF xy] l by (simp add: leads_def)
next
  assume "(x, y) \<in> links m" and "leads m y r"
  then show "leads m x r"
    by (auto simp: leads_def intro: converse_rtrancl_into_rtrancl)
qed

lemma leads_top: "is_top m x \<Longrightarrow> leads m x r \<longleftrightarrow> r = x"
  by (auto simp: leads_def is_top_def elim: converse_rtranclE)

lemma leads_fun: "leads m x r \<Longrightarrow> leads m x t \<Longrightarrow> r = t"
proof -
  assume r: "leads m x r" and t: "leads m x t"
  have "(x, r) \<in> (links m)\<^sup>*"
    using r by (simp add: leads_def)
  then show "r = t"
    using r t
  proof (induction rule: converse_rtrancl_induct)
    case base
    then show ?case using leads_top [of m r t] by (simp add: leads_def)
  next
    case (step y z)
    then show ?case using leads_step [of y z m] by simp
  qed
qed

lemma links_finite: "finite (links m)" and links_range: "Range (links m) \<subseteq> snd ` set m"
proof -
  have "links m \<subseteq> set m"
    by (auto simp: links_def dest: map_of_SomeD)
  then show "finite (links m)"
    by (rule finite_subset) simp
  show "Range (links m) \<subseteq> snd ` set m"
    by (force simp: links_def dest: map_of_SomeD)
qed

definition above :: "parents \<Rightarrow> ustr \<Rightarrow> ustr set" where
  "above m x = {y. (x, y) \<in> (links m)\<^sup>+}"

lemma above_finite: "finite (above m x)" and above_card: "card (above m x) \<le> length m"
proof -
  have sub: "above m x \<subseteq> snd ` set m"
    using links_range [of m] by (auto simp: above_def dest!: tranclD2)
  then show "finite (above m x)"
    by (rule finite_subset) simp
  have "card (above m x) \<le> card (snd ` set m)"
    using sub by (intro card_mono) auto
  also have "\<dots> \<le> length m"
    using card_image_le [of "set m" snd] card_length [of m] by simp
  finally show "card (above m x) \<le> length m" .
qed

lemma above_step: "acyc m \<Longrightarrow> (x, y) \<in> links m \<Longrightarrow> card (above m y) < card (above m x)"
proof (rule psubset_card_mono [OF above_finite])
  assume m: "acyc m" and xy: "(x, y) \<in> links m"
  have "above m y \<subseteq> above m x"
    using xy by (auto simp: above_def intro: trancl_into_trancl2)
  moreover have "y \<in> above m x" "y \<notin> above m y"
    using m xy by (auto simp: above_def acyc_def acyclic_def)
  ultimately show "above m y \<subset> above m x"
    by auto
qed

section \<open>Compression changes no group\<close>

lemma compress:
  assumes m: "acyc m" and kr: "leads m key r" and ne: "r \<noteq> key"
  defines "m' \<equiv> AList.update key r m"
  shows "acyc m' \<and> (\<forall>x t. leads m' x t \<longleftrightarrow> leads m x t)"
proof -
  obtain p where kp: "(key, p) \<in> links m" and pr: "(p, r) \<in> (links m)\<^sup>*"
    using kr ne by (auto simp: leads_def elim: converse_rtranclE)
  have plus: "(key, r) \<in> (links m)\<^sup>+"
    using kp pr by (rule rtrancl_into_trancl2)
  then have "r \<noteq> []"
    by (auto simp: links_def dest: tranclD2)
  then have links: "links m' = {(k, q). if k = key then q = r else (k, q) \<in> links m}"
    using ne by (auto simp: links_def m'_def update_conv' split: if_splits)
  have sub: "links m' \<subseteq> (links m)\<^sup>+"
    using plus by (auto simp: links split: if_splits)
  have ac: "acyc m'"
    using m acyclic_subset [OF _ sub] by (simp add: acyc_def acyclic_def)
  have top: "is_top m' t \<longleftrightarrow> is_top m t" for t
    using kp by (auto simp: is_top_def links)
  have fwd: "(x, t) \<in> (links m)\<^sup>*" if "(x, t) \<in> (links m')\<^sup>*" for x t
    using that sub by (metis rtrancl_mono trancl_rtrancl_absorb subsetD)
  have bwd: "(x, t) \<in> (links m')\<^sup>*" if "(x, t) \<in> (links m)\<^sup>*" and t: "is_top m t" for x t
    using that(1)
  proof (induction rule: converse_rtrancl_induct)
    case (step x y)
    show ?case
    proof (cases "x = key")
      case True
      have "leads m x t"
        using step t by (auto simp: leads_def)
      then have "t = r"
        using True kr leads_fun by blast
      then show ?thesis
        using True by (auto simp: links)
    next
      case False
      then have "(x, y) \<in> links m'"
        using step by (simp add: links)
      then show ?thesis
        using step.IH by (rule converse_rtrancl_into_rtrancl)
    qed
  qed simp
  show ?thesis
    using ac top fwd bwd by (auto simp: leads_def)
qed

section \<open>The root is found\<close>

lemma root_fuel_spec:
  assumes "acyc m" and "card (above m key) < n"
  shows "\<exists>r m'. root_fuel n key m = Some (r, m') \<and> leads m key r \<and> acyc m'
           \<and> (\<forall>x t. leads m' x t \<longleftrightarrow> leads m x t)"
  using assms(2)
proof (induction n arbitrary: key)
  case (Suc n)
  show ?case
  proof (cases "\<exists>p. (key, p) \<in> links m")
    case False
    then have "is_top m key"
      by (simp add: is_top_def)
    moreover have "root_fuel (Suc n) key m = Some (key, m)"
      using False by (auto simp: links_def split: option.split)
    ultimately show ?thesis
      using assms(1) by (auto simp: leads_top)
  next
    case True
    then obtain p where p: "(key, p) \<in> links m" by blast
    then have "card (above m p) < n"
      using above_step [OF assms(1) p] Suc.prems by simp
    then obtain r m' where r: "root_fuel n p m = Some (r, m')" "leads m p r" "acyc m'"
        and same: "\<forall>x t. leads m' x t \<longleftrightarrow> leads m x t"
      using Suc.IH by blast
    have kr: "leads m key r"
      using p r(2) leads_step by blast
    have "(key, r) \<in> (links m)\<^sup>+"
      using p r(2) by (auto simp: leads_def intro: rtrancl_into_trancl2)
    then have "r \<noteq> key"
      using assms(1) by (auto simp: acyc_def acyclic_def)
    then have "acyc (AList.update key r m') \<and> (\<forall>x t. leads (AList.update key r m') x t \<longleftrightarrow> leads m' x t)"
      using compress [OF r(3)] kr same by blast
    moreover have "root_fuel (Suc n) key m = Some (r, AList.update key r m')"
      using p r(1) by (auto simp: links_def)
    ultimately show ?thesis
      using kr same by blast
  qed
qed simp

lemma root_spec:
  "acyc m \<Longrightarrow> \<exists>r m'. root_of key m = Some (r, m') \<and> leads m key r \<and> acyc m' \<and> (\<forall>x t. leads m' x t \<longleftrightarrow> leads m x t)"
  unfolding root_of_def using above_card [of m key] by (intro root_fuel_spec) auto

lemma acyc_Nil [simp]: "acyc []"
  by (simp add: acyc_def links_def acyclic_def)

section \<open>Uniting merges two groups\<close>

lemma hang:
  assumes m: "acyc m" and a: "is_top m a" and b: "is_top m b" and ne: "a \<noteq> b" and nb: "b \<noteq> []"
  defines "m' \<equiv> AList.update a b m"
  shows "acyc m' \<and> (\<forall>x t. leads m' x t \<longleftrightarrow> (if leads m x a then t = b else leads m x t))"
proof -
  have links: "links m' = insert (a, b) (links m)"
    using a ne nb by (auto simp: links_def m'_def update_conv' is_top_def split: if_splits)
  have "(b, a) \<notin> (links m)\<^sup>*"
    using b ne by (auto simp: is_top_def elim: converse_rtranclE)
  then have ac: "acyc m'"
    using m by (simp add: acyc_def links)
  have top: "is_top m' t \<longleftrightarrow> is_top m t \<and> t \<noteq> a" for t
    by (auto simp: is_top_def links)
  have star: "(links m)\<^sup>* \<subseteq> (links m')\<^sup>*"
    by (rule rtrancl_mono) (auto simp: links)
  have some: "leads m' x b" if "leads m x a" for x
  proof -
    have "(x, a) \<in> (links m')\<^sup>*" and "(a, b) \<in> links m'"
      using that star by (auto simp: leads_def links)
    then show ?thesis
      using top b ne by (auto simp: leads_def)
  qed
  have other: "leads m' x t" if "leads m x t" and "t \<noteq> a" for x t
    using that star top by (auto simp: leads_def)
  have ex: "\<exists>t. leads m x t" for x
    using root_spec [OF m] by blast
  have "leads m' x t \<longleftrightarrow> (if leads m x a then t = b else leads m x t)" for x t
  proof (cases "leads m x a")
    case True
    then show ?thesis
      using some [OF True] leads_fun [of m' x] by auto
  next
    case False
    obtain t' where t': "leads m x t'"
      using ex by blast
    with False have "leads m' x t'"
      using other by blast
    then show ?thesis
      using False t' leads_fun [of m' x] leads_fun [of m x] by metis
  qed
  with ac show ?thesis
    by blast
qed

lemma unite_spec:
  assumes m: "acyc m" and ko: "other \<noteq> []"
  shows "\<exists>m'. unite key other m = Some m' \<and> acyc m'
    \<and> (\<exists>rk ro. leads m key rk \<and> leads m other ro
         \<and> (\<forall>x t. leads m' x t \<longleftrightarrow> (if leads m x rk then t = ro else leads m x t)))"
proof -
  obtain ro m1 where 1: "root_of other m = Some (ro, m1)" "leads m other ro" "acyc m1"
      and s1: "\<forall>x t. leads m1 x t \<longleftrightarrow> leads m x t"
    using root_spec [OF m] by blast
  obtain rk m2 where 2: "root_of key m1 = Some (rk, m2)" "leads m key rk" "acyc m2"
      and s2: "\<forall>x t. leads m2 x t \<longleftrightarrow> leads m x t"
    using root_spec [OF 1(3)] s1 by metis
  obtain rk' m3 where 3: "root_of key m2 = Some (rk', m3)" "leads m key rk'" "acyc m3"
      and s3: "\<forall>x t. leads m3 x t \<longleftrightarrow> leads m x t"
    using root_spec [OF 2(3)] s2 by metis
  obtain ro' m4 where 4: "root_of other m3 = Some (ro', m4)" "leads m other ro'" "acyc m4"
      and s4: "\<forall>x t. leads m4 x t \<longleftrightarrow> leads m x t"
    using root_spec [OF 3(3)] s3 by metis
  have eq: "rk' = rk" "ro' = ro"
    using 1(2) 2(2) 3(2) 4(2) leads_fun by blast+
  show ?thesis
  proof (cases "ro = rk")
    case True
    have "leads m x rk \<Longrightarrow> leads m x t \<longleftrightarrow> t = ro" for x t
      using True leads_fun by blast
    then show ?thesis
      using 1 2 s2 True by (auto simp: unite_def)
  next
    case False
    have "is_top m4 rk" "is_top m4 ro"
      using 1(2) 2(2) s4 by (metis leads_def)+
    moreover have "ro \<noteq> []"
      using 1(2) ko by (auto simp: leads_def links_def elim: rtranclE)
    ultimately have "acyc (AList.update rk ro m4)
        \<and> (\<forall>x t. leads (AList.update rk ro m4) x t \<longleftrightarrow> (if leads m4 x rk then t = ro else leads m4 x t))"
      using 4(3) False by (intro hang) auto
    moreover have "unite key other m = Some (AList.update rk ro m4)"
      using 1(1) 2(1) 3(1) 4(1) eq False by (simp add: unite_def)
    ultimately show ?thesis
      using 1(2) 2(2) s4 by auto
  qed
qed

lemma acyc_update_top:
  assumes "acyc m" and "is_top m a" and "is_top m b" and "a \<noteq> b"
  shows "acyc (AList.update a b m)"
proof (cases "b = []")
  case True
  then have "links (AList.update a b m) \<subseteq> links m"
    by (auto simp: links_def update_conv' split: if_splits)
  then show ?thesis
    using assms(1) acyclic_subset by (auto simp: acyc_def)
next
  case False
  then show ?thesis
    using hang [OF assms] by blast
qed

lemma unite_total: "acyc m \<Longrightarrow> \<exists>m'. unite key other m = Some m' \<and> acyc m'"
proof -
  assume m: "acyc m"
  obtain ro m1 where 1: "root_of other m = Some (ro, m1)" "leads m other ro" "acyc m1"
      and s1: "\<forall>x t. leads m1 x t \<longleftrightarrow> leads m x t"
    using root_spec [OF m] by blast
  obtain rk m2 where 2: "root_of key m1 = Some (rk, m2)" "leads m key rk" "acyc m2"
      and s2: "\<forall>x t. leads m2 x t \<longleftrightarrow> leads m x t"
    using root_spec [OF 1(3)] s1 by metis
  obtain rk' m3 where 3: "root_of key m2 = Some (rk', m3)" "leads m key rk'" "acyc m3"
      and s3: "\<forall>x t. leads m3 x t \<longleftrightarrow> leads m x t"
    using root_spec [OF 2(3)] s2 by metis
  obtain ro' m4 where 4: "root_of other m3 = Some (ro', m4)" "leads m other ro'" "acyc m4"
      and s4: "\<forall>x t. leads m4 x t \<longleftrightarrow> leads m x t"
    using root_spec [OF 3(3)] s3 by metis
  have eq: "rk' = rk" "ro' = ro"
    using 1(2) 2(2) 3(2) 4(2) leads_fun by blast+
  have "is_top m4 rk" "is_top m4 ro"
    using 1(2) 2(2) s4 by (metis leads_def)+
  then have "ro \<noteq> rk \<Longrightarrow> acyc (AList.update rk ro m4)"
    using 4(3) by (intro acyc_update_top) auto
  then show ?thesis
    using 1 2 3 4 eq by (simp add: unite_def)
qed

lemma root_total: "acyc m \<Longrightarrow> \<exists>r m'. root_of key m = Some (r, m') \<and> acyc m'"
  using root_spec by blast

lemma same_group_refl: "acyc m \<Longrightarrow> same_group m x x"
  using root_spec [of m x] by (auto simp: same_group_def)

text \<open>
  The union-find with path compression is the equivalence it stands for. Uniting
  two keys always returns, leaves the parents without a cycle, and puts two keys in one group exactly
  when they were in one before, or one was in each of the two groups united.
\<close>

lemma unite_groups:
  assumes "acyc m" and "other \<noteq> []"
  shows "\<exists>m'. unite key other m = Some m' \<and> acyc m'
    \<and> (\<forall>x y. same_group m' x y \<longleftrightarrow> same_group m x y
         \<or> (same_group m x key \<and> same_group m y other) \<or> (same_group m x other \<and> same_group m y key))"
proof -
  obtain m' rk ro where u: "unite key other m = Some m'" "acyc m'" and k: "leads m key rk" and o': "leads m other ro"
      and l: "\<forall>x t. leads m' x t \<longleftrightarrow> (if leads m x rk then t = ro else leads m x t)"
    using unite_spec [OF assms] by blast
  have ex: "\<exists>t. leads m x t" for x
    using root_spec [OF assms(1)] by blast
  have key: "same_group m x key \<longleftrightarrow> leads m x rk" for x
    using k leads_fun by (auto simp: same_group_def)
  have other: "same_group m x other \<longleftrightarrow> leads m x ro" for x
    using o' leads_fun by (auto simp: same_group_def)
  have "same_group m' x y \<longleftrightarrow> same_group m x y \<or> (leads m x rk \<and> leads m y ro) \<or> (leads m x ro \<and> leads m y rk)" for x y
  proof -
    obtain tx ty where x: "leads m x tx" and y: "leads m y ty"
      using ex by blast
    have mx: "leads m x t \<longleftrightarrow> t = tx" and my: "leads m y t \<longleftrightarrow> t = ty" for t
      using x y leads_fun by blast+
    show ?thesis
      unfolding same_group_def l [rule_format] mx my by auto
  qed
  then show ?thesis
    using u by (auto simp: key other)
qed

lemma unite_groups_witness:
  "\<exists>m'. unite [1] [2] [] = Some m' \<and> acyc m'
    \<and> (\<forall>x y. same_group m' x y \<longleftrightarrow> same_group [] x y
         \<or> (same_group [] x [1] \<and> same_group [] y [2]) \<or> (same_group [] x [2] \<and> same_group [] y [1]))"
  by (rule unite_groups) simp_all

end
