(* ===== verification/Contact_Replay.thy ===== *)
theory Contact_Replay
  imports Contact_Store Key_Groups
begin

text \<open>
  \<open>applyOperations\<close> of \<open>src/lib/contacts-v2-reducer.ts\<close>: the whole log. A first replay materialises
  each record by itself and groups the records that hold one key (a union-find over record keys, with
  path compression); when a group has more than one member a second replay applies every operation
  to the group's first record. A \<open>Map\<close> is an association list in insertion order; the reference
  comparison of the source, whether an operation is the first \<open>add\<close> of its record, is the comparison
  of positions in the sorted log.
\<close>

section \<open>Keys\<close>

definition recordKey :: "ustr \<Rightarrow> ustr \<Rightarrow> ustr" where
  "recordKey dir contact = dir @ 47 # contact"

definition after_slash :: "ustr \<Rightarrow> ustr" where
  "after_slash key = tl (dropWhile (\<lambda>c. c \<noteq> 47) key)"

lemma after_slash_key: "47 \<notin> set dir \<Longrightarrow> after_slash (recordKey dir contact) = contact"
proof -
  assume "47 \<notin> set dir"
  then have "dropWhile (\<lambda>c. c \<noteq> 47) (dir @ 47 # contact) = 47 # contact"
    by (induction dir) auto
  then show ?thesis
    by (simp add: after_slash_def recordKey_def)
qed

abbreviation opKey :: "contact_operation \<Rightarrow> ustr" where
  "opKey p \<equiv> recordKey (op_directory p) (op_contact p)"

section \<open>The first replay\<close>

record replay_state =
  rs_raw :: "(ustr \<times> contact_record) list"
  rs_firstAdds :: "(ustr \<times> nat \<times> contact_operation) list"
  rs_parent :: parents
  rs_holders :: "(ustr \<times> ustr list) list"
  rs_items :: "(ustr \<times> ustr \<times> ustr) list"

definition replay_start :: replay_state where
  "replay_start = \<lparr>rs_raw = [], rs_firstAdds = [], rs_parent = [], rs_holders = [], rs_items = []\<rparr>"

definition lookup_list :: "('k \<times> 'v list) list \<Rightarrow> 'k \<Rightarrow> 'v list" where
  "lookup_list m k = (case map_of m k of None \<Rightarrow> [] | Some xs \<Rightarrow> xs)"

text \<open>An \<open>add-identity\<close> or \<open>key-link\<close> that went through: the key joins the records that hold it.\<close>

definition gainKey :: "contact_operation \<Rightarrow> ustr \<Rightarrow> ustr \<Rightarrow> ustr \<Rightarrow> contact_record \<Rightarrow> replay_state \<Rightarrow> replay_state option" where
  "gainKey p key item pubkey next s =
     (let s1 = s\<lparr>rs_items := AList.update (recordKey (op_directory p) item) (pubkey, key) (rs_items s)\<rparr>
      in if \<not> list_ex (\<lambda>i. ci_pubkey i = pubkey) (identities next) then Some s1
         else let slot = recordKey (op_directory p) pubkey;
                  current = lookup_list (rs_holders s1) slot
              in do {
                   m \<leftarrow> fold_opt (unite key) current (rs_parent s1);
                   Some (s1\<lparr>rs_parent := m,
                     rs_holders := AList.update slot (if key \<in> set current then current else current @ [key]) (rs_holders s1)\<rparr>) })"

text \<open>\<open>for (const holder of current) if (root(holder) === root(key)) current.delete(holder)\<close>.\<close>

definition dropHolder :: "ustr \<Rightarrow> ustr \<Rightarrow> ustr list \<times> parents \<Rightarrow> (ustr list \<times> parents) option" where
  "dropHolder key holder st = do {
     (rh, m1) \<leftarrow> root_of holder (snd st);
     (rk, m2) \<leftarrow> root_of key m1;
     Some (if rh = rk then removeAll holder (fst st) else fst st, m2) }"

definition loseItem :: "contact_operation \<Rightarrow> ustr \<Rightarrow> ustr \<Rightarrow> replay_state \<Rightarrow> replay_state option" where
  "loseItem p key item s =
     (case map_of (rs_items s) (recordKey (op_directory p) item) of
        None \<Rightarrow> Some s
      | Some (pubkey, ikey) \<Rightarrow> do {
          (ri, m1) \<leftarrow> root_of ikey (rs_parent s);
          (rk, m2) \<leftarrow> root_of key m1;
          if ri \<noteq> rk then Some (s\<lparr>rs_parent := m2\<rparr>)
          else let slot = recordKey (op_directory p) pubkey in
            (case map_of (rs_holders s) slot of
               None \<Rightarrow> Some (s\<lparr>rs_parent := m2\<rparr>)
             | Some current \<Rightarrow> do {
                 (left, m3) \<leftarrow> fold_opt (dropHolder key) current (current, m2);
                 Some (s\<lparr>rs_parent := m3, rs_holders := AList.update slot left (rs_holders s)\<rparr>) }) })"

definition noteFirstAdd :: "nat \<Rightarrow> contact_operation \<Rightarrow> replay_state \<Rightarrow> replay_state" where
  "noteFirstAdd i p s =
     (case op_value p of
        Add v \<Rightarrow> if map_of (rs_firstAdds s) (opKey p) = None
          then s\<lparr>rs_firstAdds := AList.update (opKey p) (i, p) (rs_firstAdds s)\<rparr> else s
      | _ \<Rightarrow> s)"

definition replayStep :: "nat \<times> contact_operation \<Rightarrow> replay_state \<Rightarrow> replay_state option" where
  "replayStep ip s =
     (let p = snd ip; key = opKey p; s1 = noteFirstAdd (fst ip) p s in
      case applyOne (map_of (rs_raw s1) key) p of
        None \<Rightarrow> Some s1
      | Some next \<Rightarrow>
          let s2 = s1\<lparr>rs_raw := AList.update key next (rs_raw s1)\<rparr> in
          (case op_value p of
             AddIdentity v \<Rightarrow> gainKey p key (iy_itemId v) (iy_pubkey v) next s2
           | KeyLink item pubkey f l \<Rightarrow> gainKey p key item pubkey next s2
           | RemoveItem item \<Rightarrow> loseItem p key item s2
           | _ \<Rightarrow> Some s2))"

definition addToGroup :: "ustr \<Rightarrow> (ustr \<times> ustr list) list \<times> parents \<Rightarrow> ((ustr \<times> ustr list) list \<times> parents) option" where
  "addToGroup key st = do {
     (r, m) \<leftarrow> root_of key (snd st);
     Some (AList.update r (lookup_list (fst st) r @ [key]) (fst st), m) }"

section \<open>The second replay\<close>

definition aliasMap :: "ustr list list \<Rightarrow> (ustr \<times> ustr) list" where
  "aliasMap gs = fold (\<lambda>members. fold (\<lambda>k. AList.update k (hd members)) members) gs []"

definition groupedMap :: "ustr list list \<Rightarrow> (ustr \<times> ustr list) list" where
  "groupedMap gs = fold (\<lambda>members. AList.update (hd members) members) gs []"

definition alias_of :: "(ustr \<times> ustr) list \<Rightarrow> ustr \<Rightarrow> ustr" where
  "alias_of aliases key = (case map_of aliases key of None \<Rightarrow> key | Some c \<Rightarrow> c)"

text \<open>\<open>itemAliases\<close> and \<open>itemForPubkey\<close>: one item id per key of a merged record.\<close>

definition noteItem :: "(ustr \<Rightarrow> ustr) \<Rightarrow> contact_operation \<Rightarrow> (ustr \<times> ustr) list \<times> (ustr \<times> ustr) list
    \<Rightarrow> (ustr \<times> ustr) list \<times> (ustr \<times> ustr) list" where
  "noteItem canon p st =
     (let put = (\<lambda>item pubkey.
          let slot = recordKey (canon (opKey p)) pubkey;
              it = (case map_of (snd st) slot of None \<Rightarrow> item | Some x \<Rightarrow> x)
          in (AList.update (recordKey (opKey p) item) it (fst st), AList.update slot it (snd st)))
      in case op_value p of
           AddIdentity v \<Rightarrow> put (iy_itemId v) (iy_pubkey v)
         | KeyLink item pubkey f l \<Rightarrow> put item pubkey
         | _ \<Rightarrow> st)"

definition remapItem :: "(ustr \<times> ustr) list \<Rightarrow> ustr \<Rightarrow> ustr \<Rightarrow> ustr" where
  "remapItem itemAliases source item =
     (case map_of itemAliases (recordKey source item) of None \<Rightarrow> item | Some x \<Rightarrow> x)"

fun remap_js :: "(ustr \<Rightarrow> ustr) \<Rightarrow> jsval \<Rightarrow> jsval" where
  "remap_js f (JStr s) = JStr (f s)"
| "remap_js f v = v"

fun remap_scope :: "(ustr \<Rightarrow> ustr) \<Rightarrow> block_scope \<Rightarrow> block_scope" where
  "remap_scope f (OneIdentity i) = OneIdentity (f i)"
| "remap_scope f WholeContact = WholeContact"

fun remap_value :: "(ustr \<Rightarrow> ustr) \<Rightarrow> contact_value \<Rightarrow> contact_value" where
  "remap_value f (AddIdentity v) = AddIdentity (v\<lparr>iy_itemId := f (iy_itemId v), iy_linkedFrom := remap_js f (iy_linkedFrom v)\<rparr>)"
| "remap_value f (UpdateIdentity v) = UpdateIdentity (v\<lparr>uy_itemId := f (uy_itemId v)\<rparr>)"
| "remap_value f (Evidence v) = Evidence (v\<lparr>uy_itemId := f (uy_itemId v)\<rparr>)"
| "remap_value f (AddMethod v) = AddMethod (v\<lparr>mv_itemId := f (mv_itemId v)\<rparr>)"
| "remap_value f (UpdateMethod v) = UpdateMethod (v\<lparr>um_itemId := f (um_itemId v)\<rparr>)"
| "remap_value f (RemoveItem i) = RemoveItem (f i)"
| "remap_value f (KeyLink i k src l) = KeyLink (f i) k (f src) l"
| "remap_value f (Block s r) = Block (remap_scope f s) r"
| "remap_value f v = v"

definition remapOperation :: "ustr \<Rightarrow> (ustr \<Rightarrow> ustr) \<Rightarrow> contact_operation \<Rightarrow> contact_operation" where
  "remapOperation canonicalId f p = p\<lparr>op_contact := canonicalId,
     op_itemId := (case op_itemId p of None \<Rightarrow> None | Some i \<Rightarrow> if i = [] then Some i else Some (f i)),
     op_value := remap_value f (op_value p)\<rparr>"

text \<open>The first \<open>add\<close> of a duplicate, folded into the group's live record.\<close>

definition mergeAdd :: "contact_operation \<Rightarrow> add_value \<Rightarrow> contact_record \<Rightarrow> contact_record" where
  "mergeAdd p v r =
     (case av_intro v of
        Some i \<Rightarrow> (case applyOne (Some r) (p\<lparr>op_value := AppProposeList i\<rparr>) of None \<Rightarrow> r | Some r' \<Rightarrow> r')
      | None \<Rightarrow>
          if op_role p = App then r
          else let r1 = link_given (av_owner v) (op_createdAt p) r
               in r1\<lparr>tier := (if CONTACT_TIER_RANK (av_tier v) > CONTACT_TIER_RANK (tier r1) then av_tier v else tier r1),
                    tierSetByActorRole := (if CONTACT_TIER_RANK (av_tier v) \<ge> CONTACT_TIER_RANK (tier r1)
                       then Some (op_role p) else tierSetByActorRole r1),
                    createdAt := min (createdAt r1) (op_createdAt p)\<rparr>)"

text \<open>The list a first \<open>add\<close> names: the one chosen, else the one its app introduction names.\<close>

definition add_owner :: "contact_operation option \<Rightarrow> ustr option" where
  "add_owner p = (case p of None \<Rightarrow> None | Some q \<Rightarrow>
     (case op_value q of
        Add v \<Rightarrow> (case av_owner v of Some w \<Rightarrow> Some w | None \<Rightarrow> map_option iv_owner (av_intro v))
      | _ \<Rightarrow> None))"

definition needsReview :: "(ustr \<times> nat \<times> contact_operation) list \<Rightarrow> ustr list \<Rightarrow> ustr \<Rightarrow> intro_value \<Rightarrow> bool" where
  "needsReview firstAdds members source i \<longleftrightarrow>
     list_ex (\<lambda>other. other \<noteq> source \<and> add_owner (map_option snd (map_of firstAdds other)) \<noteq> Some (iv_owner i)) members"

definition holdForReview :: "intro_value \<Rightarrow> contact_record \<Rightarrow> contact_record" where
  "holdForReview i r = r\<lparr>primaryIdentityPubkey := None, listMemberships := Some [],
     appIntroductions := map_option (map (\<lambda>a. if grant_of a = iv_grantId i then a\<lparr>ai_status := IntroPending\<rparr> else a))
       (appIntroductions r)\<rparr>"

definition reviewed :: "(ustr \<times> nat \<times> contact_operation) list \<Rightarrow> ustr list \<Rightarrow> ustr \<Rightarrow> bool
    \<Rightarrow> contact_value \<Rightarrow> contact_record \<Rightarrow> contact_record" where
  "reviewed firstAdds members source first v next =
     (case v of
        Add a \<Rightarrow> (case av_intro a of
            Some i \<Rightarrow> if first \<and> needsReview firstAdds members source i then holdForReview i next else next
          | None \<Rightarrow> next)
      | _ \<Rightarrow> next)"

text \<open>What the second replay reads of the first, and one step of it.\<close>

record merge_context =
  mc_firstAdds :: "(ustr \<times> nat \<times> contact_operation) list"
  mc_aliases :: "(ustr \<times> ustr) list"
  mc_grouped :: "(ustr \<times> ustr list) list"
  mc_itemAliases :: "(ustr \<times> ustr) list"

definition mergeStep :: "merge_context \<Rightarrow> nat \<times> contact_operation
    \<Rightarrow> (ustr \<times> contact_record) list \<Rightarrow> (ustr \<times> contact_record) list" where
  "mergeStep mc ip out =
     (let operation = snd ip; source = opKey operation; key = alias_of (mc_aliases mc) source;
          p = remapOperation (after_slash key) (remapItem (mc_itemAliases mc) source) operation;
          members = (case map_of (mc_grouped mc) key of None \<Rightarrow> [key] | Some g \<Rightarrow> g);
          rec = map_of out key;
          first = (map_option fst (map_of (mc_firstAdds mc) source) = Some (fst ip))
      in if first \<and> key \<noteq> source \<and> rec \<noteq> None then
           (case op_value operation of
              Add v \<Rightarrow> if lifecycle (the rec) = Removed then out
                else AList.update key (mergeAdd p v (the rec)) out
            | _ \<Rightarrow> out)
         else
           (case applyOne rec p of
              None \<Rightarrow> out
            | Some next \<Rightarrow>
                AList.update key (reviewed (mc_firstAdds mc) members source first (op_value operation) next) out))"

definition nameMerged :: "(ustr \<times> ustr list) list \<Rightarrow> ustr \<times> contact_record \<Rightarrow> ustr \<times> contact_record" where
  "nameMerged grouped kr =
     (case map_of grouped (fst kr) of
        None \<Rightarrow> kr
      | Some g \<Rightarrow> if 1 < length g then (fst kr, snd kr\<lparr>mergedContactIds := Some (map after_slash (tl g))\<rparr>) else kr)"

section \<open>The whole log\<close>

text \<open>\<open>ops.filter(validateOperation)\<close>, each row that is kept read as a \<open>ContactOperation\<close>.\<close>

fun validOperations :: "platform \<Rightarrow> jsval list \<Rightarrow> contact_operation list option" where
  "validOperations P [] = Some []"
| "validOperations P (v # vs) =
     (case validateOperation P v of
        None \<Rightarrow> None
      | Some b \<Rightarrow> (case validOperations P vs of
          None \<Rightarrow> None
        | Some ps \<Rightarrow> Some (if b then (case cast_operation v of None \<Rightarrow> ps | Some p \<Rightarrow> p # ps) else ps)))"

definition mergeGroups :: "contact_operation list \<Rightarrow> replay_state \<Rightarrow> ustr list list \<Rightarrow> (ustr \<times> contact_record) list" where
  "mergeGroups ops s gs =
     (let aliases = aliasMap gs; grouped = groupedMap gs;
          items = fst (fold (noteItem (alias_of aliases)) ops ([], []));
          mc = \<lparr>mc_firstAdds = rs_firstAdds s, mc_aliases = aliases, mc_grouped = grouped, mc_itemAliases = items\<rparr>
      in map (nameMerged grouped) (fold (mergeStep mc) (enumerate 0 ops) []))"

definition replayLog :: "contact_operation list \<Rightarrow> (ustr \<times> contact_record) list option" where
  "replayLog ops = do {
     s \<leftarrow> fold_opt replayStep (enumerate 0 ops) replay_start;
     (gs, m) \<leftarrow> fold_opt addToGroup (map fst (rs_raw s)) ([], rs_parent s);
     if list_ex (\<lambda>g. 1 < length g) (map snd gs) then Some (mergeGroups ops s (map snd gs))
     else Some (rs_raw s) }"

definition applyOperations :: "platform \<Rightarrow> jsval list \<Rightarrow> (ustr \<times> contact_record) list option" where
  "applyOperations P rows = do {
     ops \<leftarrow> validOperations P rows;
     replayLog (sortOperations ops) }"

end
