(* ===== verification/Contact_Log.thy ===== *)
theory Contact_Log
  imports Contact_Replay
begin

text \<open>
  What the whole log gives: \<open>applyOperations\<close> returns unless a guard throws, every record it gives
  passes the reader's guard, and the result does not depend on the order the rows arrive in.
\<close>

section \<open>The first replay returns well-formed records\<close>

lemma in_update: "x \<in> set (AList.update k v m) \<Longrightarrow> x = (k, v) \<or> x \<in> set m"
  by (induction m) (auto split: if_splits)

text \<open>A record table: its records are within the invariant, its keys end in a contact id.\<close>

definition wf_table :: "platform \<Rightarrow> (ustr \<times> contact_record) list \<Rightarrow> bool" where
  "wf_table P m \<longleftrightarrow> (\<forall>x \<in> set m. wf_record P (snd x) \<and> hex32 (after_slash (fst x)))"

lemma wf_table_Nil [simp]: "wf_table P []"
  by (simp add: wf_table_def)

lemma wf_table_update:
  "wf_table P m \<Longrightarrow> wf_record P r \<Longrightarrow> hex32 (after_slash k) \<Longrightarrow> wf_table P (AList.update k r m)"
  by (fastforce simp: wf_table_def dest: in_update)

lemma wf_table_lookup: "wf_table P m \<Longrightarrow> pred_option (wf_record P) (map_of m k)"
  by (fastforce simp: wf_table_def option.pred_set dest: map_of_SomeD)

lemma depend_len: "length ''dependant:'' = 10"
  by simp

lemma dir_no_slash: "DIRECTORY_ID d \<Longrightarrow> 47 \<notin> set d"
proof -
  assume d: "DIRECTORY_ID d"
  have lit: "47 \<notin> set (u ''owner'')" "47 \<notin> set (u ''bots'')" "47 \<notin> set (u ''quarantine'')"
    "47 \<notin> set (u ''dependant:'')"
    by (simp_all add: u_def)
  have "47 \<notin> set d" if "starts_with d (u ''dependant:'')" and "hex64 (drop 10 d)"
  proof -
    have "d = u ''dependant:'' @ drop 10 d"
      using that(1) append_take_drop_id [of 10 d] unfolding starts_with_def by (metis length_u depend_len)
    then show ?thesis
      using lit(4) hex_no_slash [OF that(2)] by (metis Un_iff set_append)
  qed
  then show ?thesis
    using d lit by (auto simp: DIRECTORY_ID_def)
qed

lemma opKey_contact: "wf_operation P p \<Longrightarrow> after_slash (opKey p) = op_contact p \<and> hex32 (op_contact p)"
  by (simp add: wf_operation_def after_slash_key dir_no_slash)

definition replay_inv :: "platform \<Rightarrow> replay_state \<Rightarrow> bool" where
  "replay_inv P s \<longleftrightarrow> acyc (rs_parent s) \<and> wf_table P (rs_raw s)"

lemma gainKey_total:
  assumes "replay_inv P s"
  shows "\<exists>s'. gainKey p key item pubkey next s = Some s' \<and> replay_inv P s'"
proof -
  let ?xs = "lookup_list (rs_holders s) (recordKey (op_directory p) pubkey)"
  obtain m where "fold_opt (unite key) ?xs (rs_parent s) = Some m \<and> acyc m"
    using assms unite_total fold_opt_inv [of acyc "rs_parent s" ?xs "unite key"] by (auto simp: replay_inv_def)
  then show ?thesis
    using assms by (simp add: gainKey_def Let_def replay_inv_def)
qed

lemma dropHolder_total: "acyc (snd st) \<Longrightarrow> \<exists>st'. dropHolder key h st = Some st' \<and> acyc (snd st')"
proof -
  assume "acyc (snd st)"
  then obtain rh m1 rk m2 where "root_of h (snd st) = Some (rh, m1)" "root_of key m1 = Some (rk, m2)" "acyc m2"
    using root_total by metis
  then show ?thesis
    by (simp add: dropHolder_def)
qed

lemma loseItem_total:
  assumes "replay_inv P s"
  shows "\<exists>s'. loseItem p key item s = Some s' \<and> replay_inv P s'"
proof (cases "map_of (rs_items s) (recordKey (op_directory p) item)")
  case None
  then show ?thesis using assms by (simp add: loseItem_def)
next
  case (Some x)
  obtain pubkey ikey where x: "x = (pubkey, ikey)" by (cases x)
  obtain ri m1 rk m2 where r: "root_of ikey (rs_parent s) = Some (ri, m1)" "root_of key m1 = Some (rk, m2)" "acyc m2"
    using assms root_total by (metis replay_inv_def)
  have drop: "\<exists>left m3. fold_opt (dropHolder key) xs (xs, m2) = Some (left, m3) \<and> acyc m3" for xs
    using r(3) dropHolder_total fold_opt_inv [of "\<lambda>st. acyc (snd st)" "(xs, m2)" xs "dropHolder key"] by auto
  show ?thesis
  proof (cases "map_of (rs_holders s) (recordKey (op_directory p) pubkey)")
    case None
    then show ?thesis using assms Some x r by (simp add: loseItem_def Let_def replay_inv_def)
  next
    case (Some xs)
    obtain left m3 where "fold_opt (dropHolder key) xs (xs, m2) = Some (left, m3)" "acyc m3"
      using drop by blast
    then show ?thesis
      using assms Some \<open>map_of (rs_items s) _ = Some x\<close> x r by (simp add: loseItem_def Let_def replay_inv_def)
  qed
qed

lemma noteFirstAdd_same [simp]:
  "rs_raw (noteFirstAdd i p s) = rs_raw s" "rs_parent (noteFirstAdd i p s) = rs_parent s"
  "rs_holders (noteFirstAdd i p s) = rs_holders s" "rs_items (noteFirstAdd i p s) = rs_items s"
  by (auto simp: noteFirstAdd_def split: contact_value.split)

lemma replayStep_total:
  assumes s: "replay_inv P s" and p: "wf_operation P (snd ip)"
  shows "\<exists>s'. replayStep ip s = Some s' \<and> replay_inv P s'"
proof (cases "applyOne (map_of (rs_raw s) (opKey (snd ip))) (snd ip)")
  case None
  then show ?thesis
    using s by (simp add: replayStep_def Let_def replay_inv_def)
next
  case (Some r)
  have "wf_record P r"
    using applyOne_keeps [OF wf_table_lookup p Some] s by (simp add: replay_inv_def)
  then have "replay_inv P ((noteFirstAdd (fst ip) (snd ip) s)\<lparr>rs_raw := AList.update (opKey (snd ip)) r (rs_raw s)\<rparr>)"
    using s opKey_contact [OF p] by (simp add: replay_inv_def wf_table_update)
  note inv = this gainKey_total [OF this] loseItem_total [OF this]
  show ?thesis
    using Some inv by (cases "op_value (snd ip)") (simp_all add: replayStep_def Let_def)
qed

lemma enumerate_snd: "ip \<in> set (enumerate n xs) \<Longrightarrow> snd ip \<in> set xs"
  by (metis image_eqI list.set_map map_snd_enumerate)

lemma first_replay:
  assumes "list_all (wf_operation P) ops"
  shows "\<exists>s. fold_opt replayStep (enumerate n ops) replay_start = Some s \<and> replay_inv P s"
proof (rule fold_opt_inv)
  show "replay_inv P replay_start"
    by (simp add: replay_inv_def replay_start_def)
  fix ip s
  assume "ip \<in> set (enumerate n ops)" and "replay_inv P s"
  then show "\<exists>s'. replayStep ip s = Some s' \<and> replay_inv P s'"
    using assms by (intro replayStep_total) (auto simp: list_all_iff dest: enumerate_snd)
qed

section \<open>The second replay keeps them well formed\<close>

definition wf_map :: "(ustr \<Rightarrow> bool) \<Rightarrow> (ustr \<times> ustr) list \<Rightarrow> bool" where
  "wf_map Q m \<longleftrightarrow> (\<forall>x \<in> set m. Q (snd x))"

lemma wf_map_update: "wf_map Q m \<Longrightarrow> Q v \<Longrightarrow> wf_map Q (AList.update k v m)"
  by (auto simp: wf_map_def dest!: in_update)

lemma wf_map_lookup: "wf_map Q m \<Longrightarrow> map_of m k = Some v \<Longrightarrow> Q v"
  by (fastforce simp: wf_map_def dest: map_of_SomeD)

lemma remapItem_hex: "wf_map hex32 al \<Longrightarrow> hex32 i \<Longrightarrow> hex32 (remapItem al src i)"
  by (auto simp: remapItem_def dest: wf_map_lookup split: option.split)

lemma wf_identity_remap:
  assumes v: "wf_identity P v" and f: "\<And>i. hex32 i \<Longrightarrow> hex32 (f i)"
  shows "wf_identity P (v\<lparr>iy_itemId := f (iy_itemId v), iy_linkedFrom := remap_js f (iy_linkedFrom v)\<rparr>)"
  using assms by (cases "iy_linkedFrom v") (auto simp: wf_identity_def opt_or_def)

lemma wf_value_remap:
  assumes "wf_value P v" and f: "\<And>i. hex32 i \<Longrightarrow> hex32 (f i)"
  shows "wf_value P (remap_value f v)"
proof (cases v)
  case (AddIdentity x)
  then show ?thesis using assms wf_identity_remap [OF _ f] by simp
next
  case (Block s r)
  then show ?thesis using assms by (cases s) auto
qed (use assms in \<open>auto simp: wf_update_identity_def wf_method_def wf_update_method_def\<close>)

lemma actor_may_remap: "actor_may p (remap_value f v) = actor_may p v"
  by (cases v) simp_all

lemma actor_may_cong:
  "op_role p = op_role q \<Longrightarrow> op_owner p = op_owner q \<Longrightarrow> actor_may p v = actor_may q v"
  by (cases v) simp_all

lemma wf_remapOperation:
  assumes "wf_operation P p" and "hex32 c" and f: "\<And>i. hex32 i \<Longrightarrow> hex32 (f i)"
  shows "wf_operation P (remapOperation c f p)"
  using assms wf_value_remap [OF _ f] actor_may_cong [of "remapOperation c f p" p]
  by (auto simp: wf_operation_def remapOperation_def actor_may_remap split: option.split)

lemma wf_record_given:
  "wf_record P r \<Longrightarrow> pred_option hex64 w \<Longrightarrow> 0 \<le> t \<Longrightarrow> wf_record P (link_given w t r)"
  by (cases w) (simp_all add: link_given_def wf_record_link)

lemma wf_record_scalars: "wf_record P (r\<lparr>tier := k, tierSetByActorRole := q, createdAt := t\<rparr>) = wf_record P r"
  by (simp add: wf_record_def wf_body_cong_lists)

lemma wf_mergeAdd:
  assumes r: "wf_record P r" and p: "wf_operation P p" and v: "op_value p = Add v"
  shows "wf_record P (mergeAdd p v r)"
proof -
  have a: "wf_add v" and t: "0 \<le> op_createdAt p"
    using p v by (simp_all add: wf_operation_def)
  show ?thesis
  proof (cases "av_intro v")
    case (Some i)
    then have "wf_operation P (p\<lparr>op_value := AppProposeList i\<rparr>)"
      using a p by (simp add: wf_operation_def wf_add_def)
    then show ?thesis
      using Some r applyOne_keeps [of P "Some r" "p\<lparr>op_value := AppProposeList i\<rparr>"]
      by (auto simp: mergeAdd_def split: option.split)
  next
    case None
    have "wf_record P (link_given (av_owner v) (op_createdAt p) r)"
      using a t r by (intro wf_record_given) (simp_all add: wf_add_def)
    then show ?thesis
      using None r by (simp add: mergeAdd_def Let_def wf_record_scalars)
  qed
qed

lemma wf_holdForReview: "wf_record P r \<Longrightarrow> wf_record P (holdForReview i r)"
proof -
  assume r: "wf_record P r"
  have "wf_intros as \<Longrightarrow> wf_intros (map (\<lambda>a. if grant_of a = iv_grantId i then a\<lparr>ai_status := IntroPending\<rparr> else a) as)" for as
    by (rule wf_intros_status)
  then show ?thesis
    using r by (cases "appIntroductions r") (simp_all add: holdForReview_def wf_record_def wf_body_def wf_lists_def)
qed

lemma wf_reviewed: "wf_record P r \<Longrightarrow> wf_record P (reviewed fa g s b v r)"
  by (simp add: reviewed_def wf_holdForReview split: contact_value.split option.split)

definition wf_context :: "merge_context \<Rightarrow> bool" where
  "wf_context mc \<longleftrightarrow> wf_map (\<lambda>k. hex32 (after_slash k)) (mc_aliases mc) \<and> wf_map hex32 (mc_itemAliases mc)"

lemma wf_mergeStep:
  assumes out: "wf_table P out" and mc: "wf_context mc" and p: "wf_operation P (snd ip)"
  shows "wf_table P (mergeStep mc ip out)"
proof -
  define source where "source = opKey (snd ip)"
  define key where "key = alias_of (mc_aliases mc) source"
  define q where "q = remapOperation (after_slash key) (remapItem (mc_itemAliases mc) source) (snd ip)"
  have key: "hex32 (after_slash key)"
    using mc opKey_contact [OF p] wf_map_lookup
    by (fastforce simp: key_def source_def alias_of_def wf_context_def split: option.split)
  have q: "wf_operation P q"
    unfolding q_def using mc by (intro wf_remapOperation p key remapItem_hex) (simp_all add: wf_context_def)
  have add: "op_value q = Add v" if "op_value (snd ip) = Add v" for v
    using that by (simp add: q_def remapOperation_def)
  have one: "wf_table P (AList.update key (reviewed fa g s b v r) out)" if "applyOne (map_of out key) q = Some r" for fa g s b v r
    using applyOne_keeps [OF wf_table_lookup [OF out] q that] out key by (intro wf_table_update wf_reviewed)
  have merge: "wf_table P (AList.update key (mergeAdd q v r) out)" if "map_of out key = Some r" "op_value (snd ip) = Add v" for v r
    using wf_mergeAdd [OF _ q add [OF that(2)]] wf_table_lookup [OF out, of key] that(1) out key by (intro wf_table_update) auto
  show ?thesis
    unfolding mergeStep_def Let_def source_def [symmetric] key_def [symmetric] q_def [symmetric]
    using out one merge by (auto split: contact_value.split option.split)
qed

abbreviation key_ok :: "ustr \<Rightarrow> bool" where
  "key_ok k \<equiv> hex32 (after_slash k)"

definition wf_members :: "ustr list list \<Rightarrow> bool" where
  "wf_members gs \<longleftrightarrow> (\<forall>g \<in> set gs. \<forall>k \<in> set g. key_ok k)"

lemma fold_inv: "I s \<Longrightarrow> (\<And>x s. x \<in> set xs \<Longrightarrow> I s \<Longrightarrow> I (f x s)) \<Longrightarrow> I (fold f xs s)"
  by (induction xs arbitrary: s) auto

lemma aliasMap_wf: "wf_members gs \<Longrightarrow> wf_map key_ok (aliasMap gs)"
proof -
  assume gs: "wf_members gs"
  have "wf_map key_ok (fold (\<lambda>k. AList.update k (hd g)) g m)" if "g \<in> set gs" and "wf_map key_ok m" for g m
  proof (cases "g = []")
    case False
    then have "key_ok (hd g)"
      using gs that(1) by (auto simp: wf_members_def)
    show ?thesis
    proof (rule fold_inv [where I = "wf_map key_ok"])
      show "wf_map key_ok m" by (rule that(2))
    qed (rule wf_map_update [where Q = key_ok, OF _ \<open>key_ok (hd g)\<close>])
  qed (use that in simp)
  then show ?thesis
    unfolding aliasMap_def by (rule_tac fold_inv [where I = "wf_map key_ok"]) (auto simp: wf_map_def)
qed

lemma groupedMap_wf: "wf_members gs \<Longrightarrow> map_of (groupedMap gs) k = Some g \<Longrightarrow> \<forall>x \<in> set g. key_ok x"
proof -
  assume gs: "wf_members gs" and k: "map_of (groupedMap gs) k = Some g"
  have "\<forall>x \<in> set (groupedMap gs). \<forall>y \<in> set (snd x). key_ok y"
    unfolding groupedMap_def using gs
    by (rule_tac fold_inv [where I = "\<lambda>m. \<forall>x \<in> set m. \<forall>y \<in> set (snd x). key_ok y"])
      (auto simp: wf_members_def dest!: in_update)
  then show ?thesis
    using map_of_SomeD [OF k] by fastforce
qed

lemma noteItem_wf:
  assumes "wf_operation P p" and "wf_map hex32 (fst st)" and "wf_map hex32 (snd st)"
  shows "wf_map hex32 (fst (noteItem canon p st)) \<and> wf_map hex32 (snd (noteItem canon p st))"
proof -
  have v: "wf_value P (op_value p)"
    using assms(1) by (simp add: wf_operation_def)
  have it: "hex32 i \<Longrightarrow> hex32 (case map_of (snd st) sl of None \<Rightarrow> i | Some x \<Rightarrow> x)" for i sl
    using wf_map_lookup [OF assms(3), of sl] by (simp split: option.split)
  show ?thesis
    using v it assms(2,3)
    by (cases "op_value p") (auto simp: noteItem_def Let_def wf_identity_def intro!: wf_map_update)
qed

lemma in_set_tlD: "x \<in> set (tl g) \<Longrightarrow> x \<in> set g"
  by (cases g) auto

lemma nameMerged_wf:
  assumes gs: "wf_members gs" and r: "wf_record P (snd kr)"
  shows "wf_record P (snd (nameMerged (groupedMap gs) kr))"
proof (cases "map_of (groupedMap gs) (fst kr)")
  case None
  then show ?thesis using r by (simp add: nameMerged_def)
next
  case (Some g)
  have "list_all hex32 (map after_slash (tl g))"
    using groupedMap_wf [OF gs Some] by (auto simp: list_all_iff dest: in_set_tlD)
  then show ?thesis
    using r Some by (simp add: nameMerged_def wf_record_def wf_body_def)
qed

lemma mergeGroups_wf:
  assumes ops: "list_all (wf_operation P) ops" and gs: "wf_members gs" and x: "x \<in> set (mergeGroups ops s gs)"
  shows "wf_record P (snd x)"
proof -
  define st where "st = fold (noteItem (alias_of (aliasMap gs))) ops ([], [])"
  define mc where "mc = \<lparr>mc_firstAdds = rs_firstAdds s, mc_aliases = aliasMap gs,
    mc_grouped = groupedMap gs, mc_itemAliases = fst st\<rparr>"
  have "wf_map hex32 (fst st) \<and> wf_map hex32 (snd st)"
    unfolding st_def using ops
    by (rule_tac fold_inv [where I = "\<lambda>st. wf_map hex32 (fst st) \<and> wf_map hex32 (snd st)"])
      (auto simp: wf_map_def [where m = "[]"] list_all_iff intro: noteItem_wf [THEN conjunct1] noteItem_wf [THEN conjunct2])
  then have mc: "wf_context mc"
    using aliasMap_wf [OF gs] by (simp add: wf_context_def mc_def)
  have "wf_table P (fold (mergeStep mc) (enumerate 0 ops) [])"
    using ops mc by (rule_tac fold_inv [where I = "wf_table P"])
      (auto simp: list_all_iff dest: enumerate_snd intro: wf_mergeStep)
  moreover have "mergeGroups ops s gs = map (nameMerged (groupedMap gs)) (fold (mergeStep mc) (enumerate 0 ops) [])"
    by (simp add: mergeGroups_def Let_def mc_def st_def)
  ultimately show ?thesis
    using x gs nameMerged_wf by (fastforce simp: wf_table_def)
qed

lemma grouping_total:
  assumes "acyc m" and "\<forall>k \<in> set ks. key_ok k"
  shows "\<exists>gs m'. fold_opt addToGroup ks ([], m) = Some (gs, m') \<and> wf_members (map snd gs)"
proof -
  have "\<exists>st. fold_opt addToGroup ks ([], m) = Some st \<and> (acyc (snd st) \<and> wf_members (map snd (fst st)))"
  proof (rule fold_opt_inv)
    show "acyc (snd ([], m)) \<and> wf_members (map snd (fst ([], m)))"
      using assms by (simp add: wf_members_def)
    fix k :: ustr and st :: "(ustr \<times> ustr list) list \<times> parents"
    assume k: "k \<in> set ks" and st: "acyc (snd st) \<and> wf_members (map snd (fst st))"
    then obtain r m' where r: "root_of k (snd st) = Some (r, m')" "acyc m'"
      using root_total by blast
    have "\<forall>x \<in> set (lookup_list (fst st) r). key_ok x"
      using st map_of_SomeD [of "fst st" r]
      by (cases "map_of (fst st) r") (force simp: lookup_list_def wf_members_def)+
    then have "wf_members (map snd (AList.update r (lookup_list (fst st) r @ [k]) (fst st)))"
      using st assms(2) k by (fastforce simp: wf_members_def dest!: in_update)
    then show "\<exists>st'. addToGroup k st = Some st' \<and> acyc (snd st') \<and> wf_members (map snd (fst st'))"
      using r by (simp add: addToGroup_def)
  qed
  then show ?thesis
    by auto
qed

section \<open>The whole log\<close>

lemma validOperations_None: "validOperations P rows = None \<longleftrightarrow> (\<exists>v \<in> set rows. validateOperation P v = None)"
  by (induction rows) (auto split: option.splits)

lemma validOperations_wf: "validOperations P rows = Some ops \<Longrightarrow> list_all (wf_operation P) ops"
proof (induction rows arbitrary: ops)
  case (Cons v rows)
  obtain b ps where v: "validateOperation P v = Some b" and ps: "validOperations P rows = Some ps"
    using Cons.prems by (auto split: option.splits)
  have "wf_operation P p" if "b" "cast_operation v = Some p" for p
    using guarded_cast [of P v] v that by simp
  then show ?case
    using Cons.IH [OF ps] Cons.prems v ps by (auto split: if_splits option.splits)
qed simp

lemma replayLog_total:
  assumes "list_all (wf_operation P) ops"
  shows "\<exists>m. replayLog ops = Some m \<and> (\<forall>x \<in> set m. wf_record P (snd x))"
proof -
  obtain s where s: "fold_opt replayStep (enumerate 0 ops) replay_start = Some s" "replay_inv P s"
    using first_replay [OF assms] by blast
  then obtain gs m where g: "fold_opt addToGroup (map fst (rs_raw s)) ([], rs_parent s) = Some (gs, m)"
      "wf_members (map snd gs)"
    using grouping_total [of "rs_parent s" "map fst (rs_raw s)"] by (auto simp: replay_inv_def wf_table_def)
  show ?thesis
    using s g mergeGroups_wf [OF assms g(2)] by (auto simp: replayLog_def replay_inv_def wf_table_def)
qed

text \<open>
  C1 (safety): replaying any list of rows whatever either stops because a guard threw on one of the
  rows, or returns records that every one pass the reader's guard: no loop of the reducer runs on, and
  no mix of rows, actors and merged groups makes a record the next read would drop.
\<close>

theorem applyOperations_safe:
  "case applyOperations P rows of
     None \<Rightarrow> (\<exists>v \<in> set rows. validateOperation P v = None)
   | Some m \<Rightarrow> (\<nexists>x. x \<in> set m \<and> validateRecord P (enc_record (snd x)) \<noteq> Some True)"
proof (cases "validOperations P rows")
  case None
  then have "applyOperations P rows = None"
    by (simp add: applyOperations_def)
  moreover have "\<exists>v \<in> set rows. validateOperation P v = None"
    using None by (simp add: validOperations_None)
  ultimately show ?thesis
    by simp
next
  case (Some ops)
  have "list_all (wf_operation P) (sortOperations ops)"
    using validOperations_wf [OF Some] by (simp add: list_all_iff sortOperations_def)
  then obtain m where "replayLog (sortOperations ops) = Some m" and "\<forall>x \<in> set m. wf_record P (snd x)"
    using replayLog_total by blast
  then show ?thesis
    using Some stored_valid by (auto simp: applyOperations_def)
qed

text \<open>The rows as a stored set: what the fold reads of them does not depend on their order.\<close>

definition read_row :: "platform \<Rightarrow> jsval \<Rightarrow> contact_operation option" where
  "read_row P v = (if validateOperation P v = Some True then cast_operation v else None)"

lemma validOperations_filter: "validOperations P rows = Some ops \<Longrightarrow> ops = List.map_filter (read_row P) rows"
  by (induction rows arbitrary: ops)
    (auto simp: read_row_def List.map_filter_simps split: option.splits if_splits)

lemma mset_map_filter: "mset xs = mset ys \<Longrightarrow> mset (List.map_filter f xs) = mset (List.map_filter f ys)"
  by (simp add: List.map_filter_def)

lemma cast_operation_id: "cast_operation v = Some p \<Longrightarrow> get v ''operationId'' = JStr (op_id p)"
  by (auto simp: cast_operation_def bind_eq_Some_conv as_str_def split: jsval.splits)

lemma applyOperations_perm:
  assumes perm: "mset rows = mset rows'"
    and ids: "\<forall>v \<in> set rows. \<forall>w \<in> set rows. get v ''operationId'' = get w ''operationId'' \<longrightarrow> v = w"
  shows "applyOperations P rows = applyOperations P rows'"
proof (cases "validOperations P rows")
  case None
  then have "\<exists>v \<in> set rows. validateOperation P v = None"
    by (simp add: validOperations_None)
  then have "validOperations P rows' = None"
    using perm by (metis set_mset_mset validOperations_None)
  with None show ?thesis
    by (simp add: applyOperations_def)
next
  case (Some ops)
  have "\<not> (\<exists>v \<in> set rows. validateOperation P v = None)"
    using Some by (metis option.distinct(1) validOperations_None)
  then obtain ops' where ops': "validOperations P rows' = Some ops'"
    using perm by (metis not_None_eq set_mset_mset validOperations_None)
  have eq: "ops = List.map_filter (read_row P) rows" "ops' = List.map_filter (read_row P) rows'"
    using Some ops' validOperations_filter by blast+
  have "inj_on op_order (set ops)"
  proof (rule inj_onI)
    fix p q
    assume pq: "p \<in> set ops" "q \<in> set ops" "op_order p = op_order q"
    then obtain v w where v: "v \<in> set rows" "read_row P v = Some p" and w: "w \<in> set rows" "read_row P w = Some q"
      unfolding eq by (auto simp: List.map_filter_def)
    have "get v ''operationId'' = get w ''operationId''"
      using v w pq(3) cast_operation_id [of v p] cast_operation_id [of w q]
      by (auto simp: read_row_def op_order_def split: if_splits)
    with v w ids show "p = q"
      by auto
  qed
  moreover have "mset ops = mset ops'"
    using eq mset_map_filter [OF perm] by simp
  ultimately have "sortOperations ops = sortOperations ops'"
    unfolding sortOperations_def by (intro sort_key_perm)
  then show ?thesis
    using Some ops' by (simp add: applyOperations_def)
qed

text \<open>
  C2 (functional): every device that holds the same rows computes the same records: the order they
  arrived in makes no difference, as long as an operation id names one operation (it is the key the
  rows are stored under).
\<close>

theorem applyOperations_order:
  assumes perm: "mset rows = mset rows'"
    and ids: "\<forall>v \<in> set rows. \<forall>w \<in> set rows. get v ''operationId'' = get w ''operationId'' \<longrightarrow> v = w"
  shows "applyOperations P rows = applyOperations P rows'"
  using assms by (rule applyOperations_perm)

definition sample_add :: jsval where
  "sample_add = JObj [(u ''operationId'', JStr (hexes 32 48)), (u ''directoryId'', JS ''owner''),
     (u ''contactId'', JStr (hexes 32 50)), (u ''actorPubkey'', JStr (hexes 64 97)),
     (u ''actorRole'', JS ''owner''), (u ''actorDeviceId'', JStr (hexes 32 51)),
     (u ''logicalClock'', JNum (Fin 1)), (u ''createdAt'', JNum (Fin 500)), (u ''action'', JS ''add''),
     (u ''value'', obj [(''type'', JS ''person''), (''displayName'', JS ''Bea''), (''tier'', JS ''kin'')])]"

lemma applyOperations_order_witness:
  "applyOperations sample_platform [sample_rename, sample_add]
     = applyOperations sample_platform [sample_add, sample_rename]"
proof (rule applyOperations_order)
  have "get sample_add ''operationId'' \<noteq> get sample_rename ''operationId''"
    by (simp add: sample_add_def sample_rename_def envelope_def hexes_def)
  then show "\<forall>v \<in> set [sample_rename, sample_add]. \<forall>w \<in> set [sample_rename, sample_add].
      get v ''operationId'' = get w ''operationId'' \<longrightarrow> v = w"
    by auto
qed simp

text \<open>One hostile row: an \<open>add-identity\<close> whose \<open>linkedFromItemId\<close> has a \<open>toString\<close> of its own.\<close>

definition hostile_row :: jsval where
  "hostile_row = envelope ''add-identity'' (obj [(''itemId'', JStr (hexes 32 52)), (''pubkey'', JStr (hexes 64 98)),
     (''provenance'', JS ''direct''), (''verification'', JS ''unverified''),
     (''linkedFromItemId'', obj [(''toString'', JNull)])])"

text \<open>
  One such row anywhere in a log makes the whole replay throw, whatever the other rows
  are: it is not skipped as a malformed value is.
\<close>

theorem hostile_row_throws: "applyOperations P (before @ hostile_row # rest) = None"
proof -
  have "js_String P (obj [(''toString'', JNull)]) = None"
    by (simp add: obj_def)
  then have "validateAddIdentity P (obj [(''itemId'', JStr (hexes 32 52)), (''pubkey'', JStr (hexes 64 98)),
     (''provenance'', JS ''direct''), (''verification'', JS ''unverified''),
     (''linkedFromItemId'', obj [(''toString'', JNull)])]) = None"
    by (simp add: validateAddIdentity_def validIdentityHead_def and_then_def guard_simps hex_unit_def)
  then have "validateOperation P hostile_row = None"
    by (simp add: validateOperation_def hostile_row_def envelope_def validEnvelope_def actorMay_def guard_simps
        one_of_def ACTIONS_def APP_ALLOWED_ACTIONS_def validateValue_def DIRECTORY_ID_def and_then_def
        is_int_rat_def hex_unit_def)
  then have "validOperations P (before @ hostile_row # rest) = None"
    by (auto simp: validOperations_None)
  then show ?thesis
    by (simp add: applyOperations_def)
qed

end
