(* ===== verification/Contact_Facts.thy ===== *)
theory Contact_Facts
  imports Contact_Log
begin

text \<open>
  What an operation can and cannot do to the facts of a record: blocks are lifted, and vouches and
  ceilings revoked, only by their author; a tombstone stays one until an \<open>add\<close>. Each is stated for
  one record's whole log through the replay interface of the prelude.
\<close>

section \<open>One record's log\<close>

definition stepRecord :: "contact_record option \<Rightarrow> contact_operation \<Rightarrow> contact_record option" where
  "stepRecord old p = (case applyOne old p of None \<Rightarrow> old | Some r \<Rightarrow> Some r)"

definition replayRecord :: "contact_record option \<Rightarrow> contact_operation list \<Rightarrow> contact_record option" where
  "replayRecord = foldl stepRecord"

text \<open>One record folded over raw rows: a row the guard refuses, or throws on, is not applied.\<close>

definition stepRow :: "platform \<Rightarrow> contact_record option \<Rightarrow> jsval \<Rightarrow> contact_record option" where
  "stepRow P old v = (case read_row P v of None \<Rightarrow> old | Some p \<Rightarrow> stepRecord old p)"

lemma read_row_wf: "read_row P v = Some p \<Longrightarrow> wf_operation P p"
  using guarded_cast [of P v] by (auto simp: read_row_def split: if_splits)

lemma stepRecord_wf:
  "pred_option (wf_record P) old \<Longrightarrow> wf_operation P p \<Longrightarrow> pred_option (wf_record P) (stepRecord old p)"
  by (auto simp: stepRecord_def intro: applyOne_keeps split: option.split)

interpretation row_log: replay "stepRow P" "pred_option (wf_record P)" for P
proof
  show "pred_option (wf_record P) (stepRow P s v)" if "pred_option (wf_record P) s" for s v
    using that read_row_wf stepRecord_wf by (auto simp: stepRow_def split: option.split)
qed

section \<open>What applyOne leaves alone\<close>

lemma applyAddOp_facts:
  "vouches (applyAddOp (Some r) p v) = vouches r" "ceilings (applyAddOp (Some r) p v) = ceilings r"
  "blocks (applyAddOp (Some r) p v) = blocks r"
  by (simp_all add: applyAddOp_def applyAdd_def link_given_def linkContactList_def Let_def split: option.split)

lemma link_facts [simp]:
  "vouches (linkContactList r w t) = vouches r" "ceilings (linkContactList r w t) = ceilings r"
  "blocks (linkContactList r w t) = blocks r" "vouches (unlinkContactList r w t) = vouches r"
  "ceilings (unlinkContactList r w t) = ceilings r" "blocks (unlinkContactList r w t) = blocks r"
  "vouches (removeContactLists r t) = vouches r" "ceilings (removeContactLists r t) = ceilings r"
  "blocks (removeContactLists r t) = blocks r"
  by (simp_all add: linkContactList_def unlinkContactList_def removeContactLists_def Let_def split: option.split)

lemmas handler_defs = receiveShare_def recordShare_def appProposeList_def reviewAppList_def addIdentity_def
  keyLink_def recordOrigin_def removeOrigin_def recordCheck_def removeCheck_def addMethod_def removeItem_def
  updateIdentity_def updateMethod_def

lemma applyLive_blocks:
  assumes "applyLive r (touched r p) p v = Some r'"
  shows "blocks r' = blocks r \<or> (\<exists>s reason. v = Block s reason \<and> r' = applyBlock (touched r p) p s reason)
     \<or> (v = Unblock \<and> applyUnblock (touched r p) p = Some r')"
  using assms
  by (cases v) (auto simp: handler_defs Let_def applyVouch_def revokeVouch_def applyCeiling_def revokeCeiling_def
      split: if_splits option.splits)

lemma applyOne_live:
  "applyOne (Some r) p = Some r' \<Longrightarrow>
     (\<exists>v. op_value p = Add v \<and> r' = applyAddOp (Some r) p v) \<or> applyLive r (touched r p) p (op_value p) = Some r'"
  by (auto simp: applyOne_def split: contact_value.splits if_splits)

lemma applyOne_blocks:
  assumes "applyOne (Some r) p = Some r'"
  shows "blocks r' = blocks r \<or> (\<exists>b. blocks r' = blocks r @ [b] \<and> bf_blockedBy b = op_actor p \<and> bf_operationId b = op_id p)
     \<or> (\<exists>m. m \<in> set (blocks r) \<and> Some (bf_operationId m) = op_target p \<and> bf_blockedBy m = op_actor p
          \<and> blocks r' = map (\<lambda>b. if Some (bf_operationId b) = op_target p
              then b\<lparr>bf_liftedBy := Some (op_id p)\<rparr> else b) (blocks r))"
proof -
  consider (add) v where "r' = applyAddOp (Some r) p v" | (live) "applyLive r (touched r p) p (op_value p) = Some r'"
    using applyOne_live [OF assms] by blast
  then show ?thesis
  proof cases
    case add
    then show ?thesis by (simp add: applyAddOp_facts)
  next
    case live
    from applyLive_blocks [OF live] show ?thesis
    proof (elim disjE exE conjE)
      assume "applyUnblock (touched r p) p = Some r'"
      then obtain m where m: "List.find (\<lambda>b. Some (bf_operationId b) = op_target p) (blocks r) = Some m"
          and "bf_blockedBy m = op_actor p"
          and "blocks r' = map (\<lambda>b. if Some (bf_operationId b) = op_target p
              then b\<lparr>bf_liftedBy := Some (op_id p)\<rparr> else b) (blocks r)"
        by (auto simp: applyUnblock_def split: option.splits if_splits)
      moreover have "m \<in> set (blocks r) \<and> Some (bf_operationId m) = op_target p"
        using m by (auto simp: find_Some_iff)
      ultimately show ?thesis by blast
    qed (auto simp: applyBlock_def)
  qed
qed

section \<open>Blocks\<close>

text \<open>
  \<open>author\<close> names the one actor behind each operation id. The log below keeps the operations that
  agree with it and are not by \<open>a\<close>.
\<close>

definition othersStep :: "(ustr \<Rightarrow> ustr) \<Rightarrow> ustr \<Rightarrow> contact_record option \<Rightarrow> contact_operation \<Rightarrow> contact_record option" where
  "othersStep author a s p = (if author (op_id p) = op_actor p \<and> op_actor p \<noteq> a then stepRecord s p else s)"

definition authored :: "(ustr \<Rightarrow> ustr) \<Rightarrow> contact_record option \<Rightarrow> bool" where
  "authored author s \<longleftrightarrow> (\<forall>r. s = Some r \<longrightarrow> (\<forall>b \<in> set (blocks r). bf_blockedBy b = author (bf_operationId b)))"

definition holds :: "block_fact \<Rightarrow> ustr \<Rightarrow> contact_record option \<Rightarrow> bool" where
  "holds b a s \<longleftrightarrow> (\<exists>r. s = Some r \<and> b \<in> set (blocks r) \<and> bf_blockedBy b = a)"

lemma stepRecord_authored:
  assumes s: "authored author s" and p: "author (op_id p) = op_actor p"
  shows "authored author (stepRecord s p)"
proof (cases "applyOne s p")
  case None
  then show ?thesis using s by (simp add: stepRecord_def)
next
  case (Some r')
  show ?thesis
  proof (cases s)
    case None
    then have "blocks r' = []"
      using Some by (auto simp: applyOne_def applyAddOp_def applyAdd_def link_given_def linkContactList_def Let_def
          split: contact_value.splits option.splits)
    then show ?thesis using Some by (simp add: stepRecord_def authored_def)
  next
    case (Some r)
    then show ?thesis
      using applyOne_blocks [of r p r'] \<open>applyOne s p = Some r'\<close> s p
      by (auto simp: stepRecord_def authored_def)
  qed
qed

interpretation block_log: sticky_replay "othersStep author a" "authored author" "holds b a" for author a b
proof
  show "authored author (othersStep author a s p)" if "authored author s" for s p
    using that stepRecord_authored by (auto simp: othersStep_def)
  show "holds b a (othersStep author a s p)" if s: "authored author s" "holds b a s" for s p
  proof (cases "author (op_id p) = op_actor p \<and> op_actor p \<noteq> a")
    case True
    obtain r where r: "s = Some r" "b \<in> set (blocks r)" "bf_blockedBy b = a"
      using s(2) by (auto simp: holds_def)
    show ?thesis
    proof (cases "applyOne (Some r) p")
      case None
      then show ?thesis using r True s by (simp add: othersStep_def stepRecord_def)
    next
      case (Some r')
      have "b \<in> set (blocks r')"
        using applyOne_blocks [OF Some]
      proof (elim disjE exE conjE)
        fix m
        assume m: "m \<in> set (blocks r)" "Some (bf_operationId m) = op_target p" "bf_blockedBy m = op_actor p"
          and eq: "blocks r' = map (\<lambda>b. if Some (bf_operationId b) = op_target p
              then b\<lparr>bf_liftedBy := Some (op_id p)\<rparr> else b) (blocks r)"
        have "Some (bf_operationId b) \<noteq> op_target p"
          using m r s(1) True unfolding authored_def by (metis option.inject)
        then show ?thesis
          using eq r(2) by force
      qed (use r in auto)
      then show ?thesis
        using r Some True by (simp add: othersStep_def stepRecord_def holds_def)
    qed
  qed (use s in \<open>auto simp: othersStep_def\<close>)
qed

lemma foldl_othersStep:
  "(\<And>p. p \<in> set ops \<Longrightarrow> author (op_id p) = op_actor p \<and> op_actor p \<noteq> a) \<Longrightarrow>
     foldl (othersStep author a) s ops = replayRecord s ops"
  by (induction ops arbitrary: s) (auto simp: replayRecord_def othersStep_def)

lemma replayRecord_authored:
  "(\<And>p. p \<in> set ops \<Longrightarrow> author (op_id p) = op_actor p) \<Longrightarrow> authored author s \<Longrightarrow> authored author (replayRecord s ops)"
  by (induction ops arbitrary: s) (auto simp: replayRecord_def stepRecord_authored)

text \<open>
  C3 (safety): a block a record's log has put in place stays in it, unlifted as it was, through any
  further operations none of which is by the block's author, whoever their authors are: guardians,
  dependants, apps and the owner alike. Operation ids name one operation each.
\<close>

theorem block_stands:
  assumes ids: "inj_on op_id (set (before @ ops))"
    and r: "replayRecord None before = Some r" and b: "b \<in> set (blocks r)"
    and others: "\<forall>p \<in> set ops. op_actor p \<noteq> bf_blockedBy b"
  shows "\<exists>r'. replayRecord (Some r) ops = Some r' \<and> b \<in> set (blocks r')"
proof -
  define author where "author i = op_actor (the_inv_into (set (before @ ops)) op_id i)" for i
  have author: "author (op_id p) = op_actor p" if "p \<in> set (before @ ops)" for p
    using the_inv_into_f_f [OF ids that] by (simp add: author_def)
  have "authored author (replayRecord None before)"
    using author by (intro replayRecord_authored) (auto simp: authored_def)
  moreover have "holds b (bf_blockedBy b) (Some r)"
    using b by (simp add: holds_def)
  ultimately have "holds b (bf_blockedBy b) (foldl (othersStep author (bf_blockedBy b)) (Some r) ops)"
    using r by (intro block_log.run_final) auto
  then show ?thesis
    using author others foldl_othersStep [of ops author "bf_blockedBy b" "Some r"] by (auto simp: holds_def)
qed

text \<open>Operations for concrete evaluation.\<close>

definition sample_op :: "nat \<Rightarrow> nat \<Rightarrow> actor_role \<Rightarrow> int \<Rightarrow> ustr option \<Rightarrow> contact_value \<Rightarrow> contact_operation" where
  "sample_op i a role k target v = \<lparr>op_owner = None, op_id = hexes 32 i, op_directory = u ''owner'',
     op_contact = hexes 32 50, op_itemId = None, op_actor = hexes 64 a, op_role = role, op_device = hexes 32 51,
     op_clock = k, op_target = target, op_value = v, op_createdAt = of_int k\<rparr>"

definition sample_person :: add_value where
  "sample_person = \<lparr>av_intro = None, av_owner = None, av_type = Person, av_displayName = u ''Bea'',
     av_tier = Kin, av_roles = None, av_lifecycle = None\<rparr>"

abbreviation op_add :: contact_operation where
  "op_add \<equiv> sample_op 48 97 Owner 1 None (Add sample_person)"

abbreviation op_block :: contact_operation where
  "op_block \<equiv> sample_op 49 98 Guardian 2 None (Block WholeContact None)"

abbreviation op_lift :: contact_operation where
  "op_lift \<equiv> sample_op 50 97 Owner 3 (Some (hexes 32 49)) Unblock"

lemma hexes_inject [simp]: "hexes n a = hexes n b \<longleftrightarrow> n = 0 \<or> a = b"
  by (auto simp: hexes_def)

lemma sample_op_simps [simp]:
  "op_id (sample_op i a ro k tg v) = hexes 32 i" "op_actor (sample_op i a ro k tg v) = hexes 64 a"
  "op_value (sample_op i a ro k tg v) = v" "op_role (sample_op i a ro k tg v) = ro"
  "op_target (sample_op i a ro k tg v) = tg" "op_createdAt (sample_op i a ro k tg v) = of_int k"
  by (simp_all add: sample_op_def)

definition sample_record :: contact_record where
  "sample_record = applyAdd None op_add sample_person"

definition blocked_record :: contact_record where
  "blocked_record = applyBlock (touched sample_record op_block) op_block WholeContact None"

lemma sample_person_simps [simp]: "av_intro sample_person = None" "av_owner sample_person = None"
  "av_tier sample_person = Kin"
  by (simp_all add: sample_person_def)

lemma sample_live [simp]: "lifecycle sample_record = Active" "blocks sample_record = []" "vouches sample_record = []"
  "createdByActorRole sample_record = Owner" "tier sample_record = Kin" "tierSetByActorRole sample_record = None"
  "ceilings sample_record = []"
  by (simp_all add: sample_record_def applyAdd_def sample_person_def Let_def)

lemma sample_add_applied: "applyOne None op_add = Some sample_record"
  by (simp add: applyOne_def applyAddOp_def sample_record_def link_given_def Let_def)

lemma sample_blocked: "replayRecord None [op_add, op_block] = Some blocked_record"
  by (simp add: replayRecord_def stepRecord_def sample_add_applied applyOne_def [of "Some sample_record"] blocked_record_def)

lemma block_stands_witness:
  "\<exists>r' b. b \<in> set (blocks blocked_record) \<and> bf_blockedBy b = hexes 64 98
     \<and> replayRecord (Some blocked_record) [op_lift] = Some r' \<and> b \<in> set (blocks r')"
proof -
  let ?b = "hd (blocks blocked_record)"
  have b: "?b \<in> set (blocks blocked_record)" "bf_blockedBy ?b = hexes 64 98"
    by (simp_all add: blocked_record_def applyBlock_def)
  have "\<exists>r'. replayRecord (Some blocked_record) [op_lift] = Some r' \<and> ?b \<in> set (blocks r')"
    using b by (intro block_stands [OF _ sample_blocked b(1)]) auto
  with b show ?thesis
    by blast
qed

section \<open>Vouches and ceilings\<close>

lemma find_vouch: "List.find Q xs = Some m \<Longrightarrow> m \<in> set xs \<and> Q m"
  by (auto simp: find_Some_iff)

lemma applyLive_vouches:
  assumes "applyLive r (touched r p) p v = Some r'"
  shows "vouches r' = vouches r
     \<or> (\<exists>g k ro. v = Vouch g k ro \<and> applyVouch (touched r p) p g k ro = Some r')
     \<or> (v = RevokeVouch \<and> revokeVouch (touched r p) p = Some r')"
  using assms
  by (cases v) (auto simp: handler_defs Let_def applyCeiling_def revokeCeiling_def applyBlock_def applyUnblock_def
      split: if_splits option.splits)

lemma applyLive_ceilings:
  assumes "applyLive r (touched r p) p v = Some r'"
  shows "ceilings r' = ceilings r
     \<or> (\<exists>g k. v = Ceiling g k \<and> applyCeiling (touched r p) p g k = Some r')
     \<or> (\<exists>g. v = RevokeCeiling g \<and> revokeCeiling (touched r p) p g = Some r')"
  using assms
  by (cases v) (auto simp: handler_defs Let_def applyVouch_def revokeVouch_def applyBlock_def applyUnblock_def
      split: if_splits option.splits)

lemma in_map_keep: "x \<in> set xs \<Longrightarrow> \<not> G x \<Longrightarrow> x \<in> set (map (\<lambda>y. if G y then f y else y) xs)"
  by force

lemma vouches_kept:
  assumes live: "applyLive r (touched r p) p v = Some r'" and inj: "inj_on gv_operationId (set (vouches r))"
    and x: "x \<in> set (vouches r)" and g: "gv_guardian x \<noteq> op_actor p"
  shows "x \<in> set (vouches r')"
  using applyLive_vouches [OF live]
proof (elim disjE exE conjE)
  fix g' k ro
  assume "applyVouch (touched r p) p g' k ro = Some r'"
  then show ?thesis
    using x g in_map_keep [OF x] by (auto simp: applyVouch_def split: if_splits)
next
  assume "revokeVouch (touched r p) p = Some r'"
  then obtain m where m: "List.find (\<lambda>v. Some (gv_operationId v) = op_target p) (vouches r) = Some m"
      and gm: "gv_guardian m = op_actor p"
      and eq: "vouches r' = map (\<lambda>v. if Some (gv_operationId v) = op_target p
                 then v\<lparr>gv_revokedBy := Some (op_id p)\<rparr> else v) (vouches r)"
    by (auto simp: revokeVouch_def split: option.splits if_splits)
  have "Some (gv_operationId x) \<noteq> op_target p"
    using find_vouch [OF m] gm g x inj by (metis inj_onD option.inject)
  then show ?thesis
    unfolding eq using x by (intro in_map_keep)
qed (use x in simp)

lemma ceilings_kept:
  assumes live: "applyLive r (touched r p) p v = Some r'"
    and x: "x \<in> set (ceilings r)" and g: "gc_guardian x \<noteq> op_actor p"
  shows "x \<in> set (ceilings r')"
  using applyLive_ceilings [OF live]
proof (elim disjE exE conjE)
  fix g' k
  assume "applyCeiling (touched r p) p g' k = Some r'"
  then show ?thesis
    using x g in_map_keep [OF x] by (auto simp: applyCeiling_def split: if_splits)
next
  fix g'
  assume "revokeCeiling (touched r p) p g' = Some r'"
  then show ?thesis
    using x g in_map_keep [OF x] by (auto simp: revokeCeiling_def split: if_splits)
qed (use x in simp)

lemma vouches_new:
  assumes live: "applyLive r (touched r p) p v = Some r'"
    and x: "x \<in> set (vouches r')" and g: "gv_guardian x \<noteq> op_actor p" and inj: "inj_on gv_operationId (set (vouches r))"
  shows "x \<in> set (vouches r)"
  using applyLive_vouches [OF live]
proof (elim disjE exE conjE)
  fix g' k ro
  assume "applyVouch (touched r p) p g' k ro = Some r'"
  then show ?thesis
    using x g by (auto simp: applyVouch_def split: if_splits)
next
  assume "revokeVouch (touched r p) p = Some r'"
  then obtain m where m: "List.find (\<lambda>v. Some (gv_operationId v) = op_target p) (vouches r) = Some m"
      and gm: "gv_guardian m = op_actor p"
      and eq: "vouches r' = map (\<lambda>v. if Some (gv_operationId v) = op_target p
                 then v\<lparr>gv_revokedBy := Some (op_id p)\<rparr> else v) (vouches r)"
    by (auto simp: revokeVouch_def split: option.splits if_splits)
  have "gv_guardian y = op_actor p" if "y \<in> set (vouches r)" "Some (gv_operationId y) = op_target p" for y
    using find_vouch [OF m] gm inj that by (metis inj_onD option.inject)
  then show ?thesis
    using x g unfolding eq by (auto split: if_splits)
qed (use x in simp)

lemma ceilings_new:
  assumes live: "applyLive r (touched r p) p v = Some r'"
    and x: "x \<in> set (ceilings r')" and g: "gc_guardian x \<noteq> op_actor p"
  shows "x \<in> set (ceilings r)"
  using applyLive_ceilings [OF live] x g
  by (auto simp: applyCeiling_def revokeCeiling_def split: if_splits)

text \<open>
  An operation makes, changes and revokes vouches and ceilings of its own actor only:
  every vouch and ceiling of any other guardian is in the record afterwards as it was before, and
  there is none that was not.
\<close>

theorem standing_is_personal:
  assumes res: "applyOne (Some r) p = Some r'" and inj: "inj_on gv_operationId (set (vouches r))"
  shows "{x \<in> set (vouches r'). gv_guardian x \<noteq> op_actor p} = {x \<in> set (vouches r). gv_guardian x \<noteq> op_actor p}
    \<and> {x \<in> set (ceilings r'). gc_guardian x \<noteq> op_actor p} = {x \<in> set (ceilings r). gc_guardian x \<noteq> op_actor p}"
proof -
  consider (add) v where "r' = applyAddOp (Some r) p v" | (live) "applyLive r (touched r p) p (op_value p) = Some r'"
    using applyOne_live [OF res] by blast
  then show ?thesis
  proof cases
    case add
    then show ?thesis by (simp add: applyAddOp_facts)
  next
    case live
    then show ?thesis
      using vouches_kept [OF live inj] vouches_new [OF live _ _ inj] ceilings_kept [OF live] ceilings_new [OF live]
      by blast
  qed
qed

abbreviation op_vouch :: contact_operation where
  "op_vouch \<equiv> sample_op 52 98 Guardian 2 None (Vouch (hexes 64 98) Kith None)"

lemma standing_is_personal_witness:
  "\<exists>r'. applyOne (Some sample_record) op_vouch = Some r'
    \<and> {x \<in> set (vouches r'). gv_guardian x \<noteq> hexes 64 98} = {}
    \<and> {x \<in> set (ceilings r'). gc_guardian x \<noteq> hexes 64 98} = {}"
proof -
  obtain r' where r': "applyOne (Some sample_record) op_vouch = Some r'"
    by (simp add: applyOne_def applyVouch_def)
  have "inj_on gv_operationId (set (vouches sample_record))"
    by simp
  from standing_is_personal [OF r' this] r' show ?thesis
    by auto
qed

section \<open>Tombstones\<close>

text \<open>
  What a tombstone keeps: it stays removed, and nothing that describes the person changes. Blocks,
  list memberships and dates may.
\<close>

definition entombed :: "contact_record \<Rightarrow> contact_record option \<Rightarrow> bool" where
  "entombed r0 s \<longleftrightarrow> (\<exists>r. s = Some r \<and> lifecycle r = Removed \<and> displayName r = displayName r0 \<and> tier r = tier r0
     \<and> roles r = roles r0 \<and> identities r = identities r0 \<and> contactMethods r = contactMethods r0
     \<and> vouches r = vouches r0 \<and> ceilings r = ceilings r0 \<and> noteText r = noteText r0 \<and> picture r = picture r0
     \<and> appIntroductions r = appIntroductions r0 \<and> sharedContexts r = sharedContexts r0)"

definition noAddStep :: "contact_record option \<Rightarrow> contact_operation \<Rightarrow> contact_record option" where
  "noAddStep s p = (case op_value p of Add v \<Rightarrow> s | _ \<Rightarrow> stepRecord s p)"

lemma removed_step:
  assumes r: "lifecycle r = Removed" and res: "applyOne (Some r) p = Some r'" and na: "\<nexists>v. op_value p = Add v"
  shows "(\<exists>bs. r' = (touched r p)\<lparr>blocks := bs\<rparr>)
    \<or> r' = (removeContactLists (touched r p) (op_createdAt p))
         \<lparr>lifecycle := Removed, removedAt := Some (op_createdAt p), archived := None\<rparr>"
proof -
  have live: "applyLive r (touched r p) p (op_value p) = Some r'"
    using applyOne_live [OF res] na by blast
  have "op_value p = Remove \<or> safetyAction (op_value p)"
    using r res na by (auto simp: applyOne_def split: contact_value.splits if_splits)
  then show ?thesis
    using live
    by (cases "op_value p") (auto simp: applyBlock_def applyUnblock_def split: option.splits if_splits)
qed

lemma removeContactLists_keeps [simp]:
  "displayName (removeContactLists r t) = displayName r" "tier (removeContactLists r t) = tier r"
  "roles (removeContactLists r t) = roles r" "identities (removeContactLists r t) = identities r"
  "contactMethods (removeContactLists r t) = contactMethods r" "noteText (removeContactLists r t) = noteText r"
  "picture (removeContactLists r t) = picture r" "appIntroductions (removeContactLists r t) = appIntroductions r"
  "sharedContexts (removeContactLists r t) = sharedContexts r"
  by (simp_all add: removeContactLists_def split: option.split)

interpretation tomb_log: sticky_replay noAddStep "\<lambda>s. True" "entombed r0" for r0
proof
  show "entombed r0 (noAddStep s p)" if s: "entombed r0 s" for s p
  proof -
    obtain r where r: "s = Some r" "lifecycle r = Removed"
      using s by (auto simp: entombed_def)
    have "entombed r0 (stepRecord s p)" if na: "\<nexists>v. op_value p = Add v"
    proof (cases "applyOne (Some r) p")
      case None
      then show ?thesis using s r by (simp add: stepRecord_def)
    next
      case (Some r')
      then show ?thesis
        using removed_step [OF r(2) Some na] s r by (auto simp: stepRecord_def entombed_def)
    qed
    then show ?thesis
      using s by (auto simp: noAddStep_def split: contact_value.split)
  qed
qed simp

lemma foldl_noAddStep:
  "(\<And>p. p \<in> set ops \<Longrightarrow> \<nexists>v. op_value p = Add v) \<Longrightarrow> foldl noAddStep s ops = replayRecord s ops"
  by (induction ops arbitrary: s) (auto simp: replayRecord_def noAddStep_def split: contact_value.splits)

text \<open>
  C4 (safety): a removed or archived record stays removed through any operations without an
  \<open>add\<close>, and none of them changes its name, tier, roles, keys, methods, vouches, ceilings, note,
  picture or introductions: a straggling edit cannot undo a deletion or alter what it kept.
\<close>

theorem tombstone_stays:
  assumes "lifecycle r = Removed" and "\<forall>p \<in> set ops. \<nexists>v. op_value p = Add v"
  shows "entombed r (replayRecord (Some r) ops)"
proof -
  have "entombed r (foldl noAddStep (Some r) ops)"
    using assms(1) by (intro tomb_log.run_final) (simp_all add: entombed_def)
  then show ?thesis
    using foldl_noAddStep [of ops] assms(2) by simp
qed

lemma tombstone_stays_witness:
  "entombed (sample_record\<lparr>lifecycle := Removed\<rparr>)
     (replayRecord (Some (sample_record\<lparr>lifecycle := Removed\<rparr>)) [op_block, op_lift, op_vouch])"
  by (rule tombstone_stays) simp_all

section \<open>Apps\<close>

text \<open>
  An \<open>add\<close> an app authors against a record that is already there does not stop at
  proposing: it renames a live record and sets its tier, and brings a removed one back to life.
\<close>

theorem app_add_retiers:
  assumes "op_role p = App" and "op_value p = Add v" and "av_owner v = None"
  shows "\<exists>r'. applyOne (Some r) p = Some r' \<and> tier r' = av_tier v
    \<and> displayName r' = clean (av_displayName v) CAP_NAME
    \<and> (lifecycle r = Removed \<and> av_lifecycle v = None \<longrightarrow> lifecycle r' = Active)
    \<and> createdByActorRole r' = createdByActorRole r"
  using assms by (auto simp: applyOne_def applyAddOp_def applyAdd_def link_given_def Let_def split: option.split)

lemma app_add_retiers_witness:
  "\<exists>r'. applyOne (Some (sample_record\<lparr>lifecycle := Removed, tier := Ken\<rparr>)) (sample_op 48 99 App 7 None (Add sample_person)) = Some r'
    \<and> tier r' = Kin \<and> lifecycle r' = Active \<and> createdByActorRole r' = Owner"
  using app_add_retiers [of "sample_op 48 99 App 7 None (Add sample_person)" sample_person
      "sample_record\<lparr>lifecycle := Removed, tier := Ken\<rparr>"]
  by (auto simp: sample_person_def)

section \<open>Lists\<close>

lemma sample_lists: "wf_lists sample_record"
  by (simp add: sample_record_def applyAdd_def sample_person_def Let_def wf_lists_def)

lemma link_unlink_lists_witness:
  "contactBelongsToList (linkContactList sample_record (hexes 64 97) 5) (hexes 64 97)
   \<and> \<not> contactBelongsToList (unlinkContactList sample_record (hexes 64 97) 5) (hexes 64 97)"
  using link_unlink_lists [OF sample_lists, of "hexes 64 97" 5 "hexes 64 97"] by simp

end
