(* ===== verification/Contact_Effective.thy ===== *)
theory Contact_Effective
  imports Contact_Facts
begin

text \<open>
  \<open>src/lib/contacts-v2-effective.ts\<close> and \<open>src/lib/contacts-v2-rights.ts\<close>: the tier a record is worth
  once guardians' vouches and ceilings are counted, the separate blocked flag, and what the current
  actor may do. The lemmas tie the resolver to the minimum of maxima its header states, and the
  rights to what the reducer accepts.
\<close>

section \<open>The resolver\<close>

record effective_context =
  ctx_guardians :: "ustr list"
  ctx_childCeiling :: ceiling_tier
  ctx_isDependant :: bool
  ctx_creator :: "actor_role option"

definition APP_CREATED_CEILING :: ceiling_tier where
  "APP_CREATED_CEILING = AtMost Ken"

fun rankOf :: "ceiling_tier \<Rightarrow> nat" where
  "rankOf NoTier = 0"
| "rankOf (AtMost t) = CONTACT_TIER_RANK t"

definition tierOfRank :: "nat \<Rightarrow> ceiling_tier" where
  "tierOfRank n = (if CONTACT_TIER_RANK Kin \<le> n then AtMost Kin
     else if CONTACT_TIER_RANK Kith \<le> n then AtMost Kith
     else if CONTACT_TIER_RANK Ken \<le> n then AtMost Ken else NoTier)"

definition activeVouches :: "contact_record \<Rightarrow> effective_context \<Rightarrow> guardian_vouch list" where
  "activeVouches r ctx = filter (\<lambda>v. falsy (gv_revokedBy v) \<and> gv_guardian v \<in> set (ctx_guardians ctx)) (vouches r)"

definition vouchedRank :: "contact_record \<Rightarrow> effective_context \<Rightarrow> nat" where
  "vouchedRank r ctx = fold (\<lambda>v n. if rankOf (AtMost (gv_tier v)) > n then rankOf (AtMost (gv_tier v)) else n)
     (activeVouches r ctx) 0"

definition tierActor :: "contact_record \<Rightarrow> effective_context \<Rightarrow> actor_role" where
  "tierActor r ctx = (case tierSetByActorRole r of Some a \<Rightarrow> a
     | None \<Rightarrow> (case ctx_creator ctx of Some a \<Rightarrow> a | None \<Rightarrow> createdByActorRole r))"

definition ownRank :: "contact_record \<Rightarrow> effective_context \<Rightarrow> nat" where
  "ownRank r ctx =
     (let direct = rankOf (AtMost (tier r));
          n = (if ctx_isDependant ctx \<and> tierActor r ctx \<noteq> Guardian
               then min direct (rankOf (ctx_childCeiling ctx)) else direct)
      in if tierActor r ctx = App then min n (rankOf APP_CREATED_CEILING) else n)"

definition ceilingStep :: "effective_context \<Rightarrow> guardian_ceiling \<Rightarrow> nat \<Rightarrow> nat" where
  "ceilingStep ctx c n =
     (if \<not> falsy (gc_revokedBy c) then n
      else if gc_guardian c \<notin> set (ctx_guardians ctx) then n
      else if rankOf (gc_maxTier c) < n then rankOf (gc_maxTier c) else n)"

definition activeBlocks :: "contact_record \<Rightarrow> block_fact list" where
  "activeBlocks r = filter (\<lambda>b. falsy (bf_liftedBy b)) (blocks r)"

definition resolveEffective :: "contact_record \<Rightarrow> effective_context \<Rightarrow> effective_contact" where
  "resolveEffective r ctx =
     (let vouched = vouchedRank r ctx; own = ownRank r ctx;
          evidence = max (rankOf (AtMost (tier r))) vouched;
          before = max own vouched;
          vouchWins = (0 < vouched \<and> own \<le> vouched);
          eff = fold (ceilingStep ctx) (ceilings r) before;
          src = (if eff < before then GuardianLimited
                 else if \<not> vouchWins \<and> eff < evidence then GuardianLimited
                 else if vouchWins then GuardianVouched else FromDirect);
          active = activeBlocks r
      in \<lparr>ec_record = r\<lparr>picture := None\<rparr>, ec_tier = tierOfRank eff, ec_source = src,
          ec_blocked = (active \<noteq> []), ec_blockedBy = uniq (map bf_blockedBy active)\<rparr>)"

definition resolveEffectiveDirectory :: "contact_record list \<Rightarrow> effective_context \<Rightarrow> effective_contact list" where
  "resolveEffectiveDirectory rs ctx = map (\<lambda>r. resolveEffective r ctx) rs"

section \<open>The rank it computes\<close>

lemma rank_le_3: "rankOf c \<le> 3"
  by (cases c rule: rankOf.cases) (auto split: tier.splits, case_tac t, auto)

lemma rank_tierOfRank: "n \<le> 3 \<Longrightarrow> rankOf (tierOfRank n) = n"
  by (auto simp: tierOfRank_def)

lemma fold_max_rank: "fold (\<lambda>v n. if f v > n then f v else n) xs n = Max (insert n (f ` set xs))"
proof (induction xs arbitrary: n)
  case (Cons x xs)
  have "(if f x > n then f x else n) = max n (f x)"
    by (auto simp: max_def)
  then have "fold (\<lambda>v n. if f v > n then f v else n) (x # xs) n = Max (insert (max n (f x)) (f ` set xs))"
    using Cons [of "max n (f x)"] by (simp only: fold.simps o_apply)
  also have "\<dots> = Max (insert n (f ` set (x # xs)))"
    by (cases "set xs = {}") (simp_all add: ac_simps)
  finally show ?case .
qed (simp add: max_def)

definition ceilingRanks :: "contact_record \<Rightarrow> effective_context \<Rightarrow> nat set" where
  "ceilingRanks r ctx = (\<lambda>c. rankOf (gc_maxTier c)) `
     {c \<in> set (ceilings r). falsy (gc_revokedBy c) \<and> gc_guardian c \<in> set (ctx_guardians ctx)}"

lemma fold_ceilings:
  "fold (ceilingStep ctx) cs n = Min (insert n ((\<lambda>c. rankOf (gc_maxTier c)) `
     {c \<in> set cs. falsy (gc_revokedBy c) \<and> gc_guardian c \<in> set (ctx_guardians ctx)}))"
proof (induction cs arbitrary: n)
  case (Cons c cs)
  let ?R = "\<lambda>cs. (\<lambda>c. rankOf (gc_maxTier c)) ` {c \<in> set cs. falsy (gc_revokedBy c) \<and> gc_guardian c \<in> set (ctx_guardians ctx)}"
  have fin: "finite (?R xs)" for xs
    by simp
  show ?case
  proof (cases "falsy (gc_revokedBy c) \<and> gc_guardian c \<in> set (ctx_guardians ctx)")
    case True
    then have "?R (c # cs) = insert (rankOf (gc_maxTier c)) (?R cs)"
      by auto
    moreover have "ceilingStep ctx c n = min n (rankOf (gc_maxTier c))"
      using True by (simp add: ceilingStep_def min_def)
    then have "fold (ceilingStep ctx) (c # cs) n = Min (insert (min n (rankOf (gc_maxTier c))) (?R cs))"
      using Cons [of "min n (rankOf (gc_maxTier c))"] by (simp only: fold.simps o_apply)
    moreover have "Min (insert (min a b) S) = Min (insert a (insert b S))" if "finite S" for a b :: nat and S
      using that by (cases "S = {}") (simp_all add: ac_simps)
    ultimately show ?thesis
      using fin by simp
  next
    case False
    then have "?R (c # cs) = ?R cs"
      by auto
    then show ?thesis
      using Cons [of n] False by (auto simp: ceilingStep_def)
  qed
qed simp

lemma vouchedRank_Max: "vouchedRank r ctx = Max (insert 0 ((\<lambda>v. CONTACT_TIER_RANK (gv_tier v)) ` set (activeVouches r ctx)))"
  using fold_max_rank [of "\<lambda>v. rankOf (AtMost (gv_tier v))" "activeVouches r ctx" 0] by (simp add: vouchedRank_def)

lemma vouchedRank_le: "vouchedRank r ctx \<le> 3"
  using rank_le_3 [of "AtMost t" for t] by (auto simp: vouchedRank_Max)

lemma ownRank_le: "ownRank r ctx \<le> CONTACT_TIER_RANK (tier r)"
  by (auto simp: ownRank_def Let_def min_def)

lemma rank_effective:
  "rankOf (ec_tier (resolveEffective r ctx)) = Min (insert (max (ownRank r ctx) (vouchedRank r ctx)) (ceilingRanks r ctx))"
proof -
  have fin: "finite (ceilingRanks r ctx)"
    by (simp add: ceilingRanks_def)
  have "max (ownRank r ctx) (vouchedRank r ctx) \<le> 3"
    using ownRank_le [of r ctx] rank_le_3 [of "AtMost (tier r)"] vouchedRank_le [of r ctx] by simp
  then have "Min (insert (max (ownRank r ctx) (vouchedRank r ctx)) (ceilingRanks r ctx)) \<le> 3"
    using fin by (meson Min_le finite.insertI insertI1 order_trans)
  then show ?thesis
    using fold_ceilings [of ctx "ceilings r"] by (simp add: resolveEffective_def Let_def rank_tierOfRank ceilingRanks_def)
qed

text \<open>
  C5 (refinement): the resolver computes what its specification says: the least of the ceilings of
  the guardians that count and the greater of the record's own, capped, rank and the strongest vouch
  of such a guardian. The blocks have no part in it, the blocked flag is there exactly when a block
  has not been lifted, and the picture pointer is not in the result.
\<close>

theorem resolveEffective_spec:
  "rankOf (ec_tier (resolveEffective r ctx))
     = Min (insert (max (ownRank r ctx) (Max (insert 0 ((\<lambda>v. CONTACT_TIER_RANK (gv_tier v)) ` set (activeVouches r ctx)))))
         (ceilingRanks r ctx))
   \<and> ec_tier (resolveEffective (r\<lparr>blocks := bs\<rparr>) ctx) = ec_tier (resolveEffective r ctx)
   \<and> ec_source (resolveEffective (r\<lparr>blocks := bs\<rparr>) ctx) = ec_source (resolveEffective r ctx)
   \<and> (ec_blocked (resolveEffective r ctx) \<longleftrightarrow> (\<exists>b. b \<in> set (blocks r) \<and> falsy (bf_liftedBy b)))
   \<and> set (ec_blockedBy (resolveEffective r ctx)) = bf_blockedBy ` {b \<in> set (blocks r). falsy (bf_liftedBy b)}
   \<and> picture (ec_record (resolveEffective r ctx)) = None"
proof -
  have same: "vouchedRank (r\<lparr>blocks := bs\<rparr>) ctx = vouchedRank r ctx" "ownRank (r\<lparr>blocks := bs\<rparr>) ctx = ownRank r ctx"
    by (simp_all add: vouchedRank_def activeVouches_def ownRank_def tierActor_def cong: option.case_cong)
  show ?thesis
    unfolding rank_effective vouchedRank_Max
    by (auto simp: resolveEffective_def Let_def same activeBlocks_def filter_empty_conv)
qed




section \<open>Rights\<close>

datatype lock_copy = GUARDIAN_BLOCK_LOCK_COPY | OTHER_GUARDIAN_BLOCK_LOCK_COPY | DEPENDANT_BLOCK_LOCK_COPY

record actor_rights =
  canRename :: bool
  canSetTier :: bool
  canEditRoles :: bool
  canEditMethods :: bool
  canEditNote :: bool
  canAddIdentity :: bool
  canBlock :: bool
  canUnblock :: bool
  unblockBlockedReason :: "lock_copy option"
  canRemove :: bool
  canArchive :: bool
  canVouch :: bool
  canSetCeiling :: bool

definition NO_RIGHTS :: actor_rights where
  "NO_RIGHTS = \<lparr>canRename = False, canSetTier = False, canEditRoles = False, canEditMethods = False,
     canEditNote = False, canAddIdentity = False, canBlock = False, canUnblock = False,
     unblockBlockedReason = None, canRemove = False, canArchive = False, canVouch = False,
     canSetCeiling = False\<rparr>"

definition ownBlocks :: "contact_record \<Rightarrow> ustr \<Rightarrow> block_fact list" where
  "ownBlocks r actor = filter (\<lambda>b. lower (bf_blockedBy b) = lower actor) (activeBlocks r)"

definition lockReason :: "contact_record \<Rightarrow> actor_role \<Rightarrow> ustr \<Rightarrow> ustr list \<Rightarrow> lock_copy" where
  "lockReason r role actor guardians =
     (if role = Dependant then GUARDIAN_BLOCK_LOCK_COPY
      else let others = filter (\<lambda>b. lower (bf_blockedBy b) \<noteq> lower actor) (activeBlocks r);
               dependantApplied = (starts_with (directoryId r) (u ''dependant:'')
                 \<and> list_ex (\<lambda>b. lower (bf_blockedBy b) \<notin> lower ` set guardians) others)
           in if dependantApplied then DEPENDANT_BLOCK_LOCK_COPY else OTHER_GUARDIAN_BLOCK_LOCK_COPY)"

definition resolveActorRights :: "contact_record \<Rightarrow> actor_role \<Rightarrow> ustr \<Rightarrow> ustr list \<Rightarrow> actor_rights" where
  "resolveActorRights r role actor guardians =
     (if role = App then NO_RIGHTS
      else if lifecycle r = Removed then NO_RIGHTS
      else let active = activeBlocks r; mine = ownBlocks r actor;
               allMine = (active \<noteq> [] \<and> length active = length mine)
           in \<lparr>canRename = True, canSetTier = True, canEditRoles = True, canEditMethods = True,
               canEditNote = True, canAddIdentity = True, canBlock = (active = []), canUnblock = allMine,
               unblockBlockedReason = (if active \<noteq> [] \<and> \<not> allMine then Some (lockReason r role actor guardians) else None),
               canRemove = True, canArchive = True, canVouch = (role = Guardian), canSetCeiling = (role = Guardian)\<rparr>)"

lemma length_filter_eq: "length (filter Q xs) = length xs \<longleftrightarrow> (\<forall>x \<in> set xs. Q x)"
proof (induction xs)
  case (Cons x xs)
  have "length (filter Q xs) \<le> length xs"
    by (rule length_filter_le)
  with Cons show ?case
    by (auto, linarith)
qed simp

lemma find_block:
  assumes "inj_on bf_operationId (set bs)" and "b \<in> set bs"
  shows "List.find (\<lambda>x. Some (bf_operationId x) = Some (bf_operationId b)) bs = Some b"
proof -
  have "\<exists>m. List.find (\<lambda>x. Some (bf_operationId x) = Some (bf_operationId b)) bs = Some m"
  proof (rule ccontr)
    assume "\<not> ?thesis"
    then have "List.find (\<lambda>x. Some (bf_operationId x) = Some (bf_operationId b)) bs = None"
      by simp
    then show False
      using assms(2) by (auto simp: find_None_iff)
  qed
  then obtain m where m: "List.find (\<lambda>x. Some (bf_operationId x) = Some (bf_operationId b)) bs = Some m"
    by blast
  then have "m \<in> set bs \<and> bf_operationId m = bf_operationId b"
    by (auto simp: find_Some_iff)
  then have "m = b"
    using assms by (auto dest: inj_onD)
  with m show ?thesis by simp
qed

text \<open>
  The Unblock the pages offer is the one the reducer takes. On a record that is
  not removed, and for an actor that is not an app, it is offered exactly when there is an unlifted
  block and the reducer accepts the actor's lifting of every one of them.
\<close>

lemma canUnblock_iff_accepted:
  assumes wf: "wf_record P r" and ids: "inj_on bf_operationId (set (blocks r))"
    and actor: "hex64 actor" and role: "role \<noteq> App" and live: "lifecycle r \<noteq> Removed"
    and p: "\<And>b. op_value (p b) = Unblock \<and> op_target (p b) = Some (bf_operationId b) \<and> op_actor (p b) = actor"
  shows "canUnblock (resolveActorRights r role actor guardians) \<longleftrightarrow>
     activeBlocks r \<noteq> [] \<and> (\<forall>b \<in> set (activeBlocks r). applyOne (Some r) (p b) \<noteq> None)"
proof -
  have accepted: "applyOne (Some r) (p b) \<noteq> None \<longleftrightarrow> bf_blockedBy b = actor" if b: "b \<in> set (activeBlocks r)" for b
  proof -
    have "b \<in> set (blocks r)" "falsy (bf_liftedBy b)"
      using b by (auto simp: activeBlocks_def)
    then show ?thesis
      using p [of b] find_block [OF ids, of b] live by (simp add: applyOne_def applyUnblock_def)
  qed
  have "lower (bf_blockedBy b) = lower actor \<longleftrightarrow> bf_blockedBy b = actor" if b: "b \<in> set (activeBlocks r)" for b
  proof -
    have "hex64 (bf_blockedBy b)"
      using wf b by (auto simp: wf_record_def wf_body_def list_all_iff wf_bf_def activeBlocks_def)
    then show ?thesis
      using actor by (simp add: lower_hex)
  qed
  then have "length (activeBlocks r) = length (ownBlocks r actor) \<longleftrightarrow> (\<forall>b \<in> set (activeBlocks r). bf_blockedBy b = actor)"
    using length_filter_eq [of "\<lambda>b. lower (bf_blockedBy b) = lower actor" "activeBlocks r"]
    by (auto simp: ownBlocks_def)
  then show ?thesis
    using role live accepted by (simp add: resolveActorRights_def Let_def)
qed

lemma sample_record_wf: "wf_record sample_platform sample_record"
proof -
  have "wf_operation sample_platform op_add"
    by (simp add: wf_operation_def sample_op_def DIRECTORY_ID_def hex_unit_def wf_add_def sample_person_def CAP_NAME_def)
  then show ?thesis
    using applyOne_keeps [of sample_platform None op_add] sample_add_applied by simp
qed

lemma applyOne_wf_witness: "wf_record sample_platform sample_record"
proof -
  have "wf_operation sample_platform op_add"
    by (simp add: wf_operation_def sample_op_def DIRECTORY_ID_def hex_unit_def wf_add_def sample_person_def CAP_NAME_def)
  then show ?thesis
    using applyOne_wf [of sample_platform None op_add] sample_add_applied by simp
qed

lemma validateRecord_stored_witness: "validateRecord sample_platform (enc_record sample_record) = Some True"
  by (rule validateRecord_stored [OF sample_record_wf])

lemma blocked_record_wf: "wf_record sample_platform blocked_record"
proof -
  have "applyOne (Some sample_record) op_block = Some blocked_record"
    by (simp add: applyOne_def blocked_record_def)
  moreover have "wf_operation sample_platform op_block"
    by (simp add: wf_operation_def sample_op_def DIRECTORY_ID_def hex_unit_def)
  ultimately show ?thesis
    using applyOne_keeps [of sample_platform "Some sample_record" op_block] sample_record_wf by simp
qed

lemma canUnblock_iff_accepted_witness:
  "canUnblock (resolveActorRights blocked_record Guardian (hexes 64 98) []) \<longleftrightarrow>
     activeBlocks blocked_record \<noteq> []
     \<and> list_all (\<lambda>b. applyOne (Some blocked_record) (sample_op 53 98 Guardian 4 (Some (bf_operationId b)) Unblock) \<noteq> None)
         (activeBlocks blocked_record)"
proof -
  have "lifecycle blocked_record = Active" "inj_on bf_operationId (set (blocks blocked_record))"
    by (simp_all add: blocked_record_def applyBlock_def)
  then show ?thesis
    unfolding list_all_iff
    by (intro canUnblock_iff_accepted [OF blocked_record_wf]) (simp_all add: hex_unit_def)
qed

end
