(* ===== verification/Contact_Clock.thy ===== *)
theory Contact_Clock
  imports Contact_Log Contact_Effective "HOL-Library.Log_Nat"
begin

text \<open>
  \<open>contacts-v2-clock.ts\<close> and the directory a surface acts in (\<open>contacts-v2-scope.ts\<close>): the Lamport
  clock stamped on an operation, what a device has seen, and the union of two operation sets. Rows
  are dynamic values, as they come off storage. The clock is a double, so its successor is rounded.
\<close>

section \<open>Clocks\<close>

text \<open>The double nearest to a whole number, ties to the even significand of 53 bits.\<close>

definition to_double :: "nat \<Rightarrow> nat" where
  "to_double n =
     (let unit = 2 ^ (floorlog 2 n - 53); q = n div unit; r = n mod unit
      in if 2 * r < unit \<or> 2 * r = unit \<and> even q then q * unit else (q + 1) * unit)"

definition safeClock :: "jsval \<Rightarrow> nat" where
  "safeClock v = (case v of JNum (Fin r) \<Rightarrow> if r \<le> 0 then 0 else nat \<lfloor>r\<rfloor> | _ \<Rightarrow> 0)"

definition nextClock :: "jsval \<Rightarrow> jsval \<Rightarrow> nat" where
  "nextClock local observedMax = to_double (max (safeClock local) (safeClock observedMax) + 1)"

record frontier =
  fr_maxClock :: nat
  fr_opIds :: "jsval set"

definition see_op :: "jsval \<Rightarrow> frontier \<Rightarrow> frontier" where
  "see_op op f = \<lparr>fr_maxClock = (if safeClock (get op ''logicalClock'') > fr_maxClock f
       then safeClock (get op ''logicalClock'') else fr_maxClock f),
     fr_opIds = insert (get op ''operationId'') (fr_opIds f)\<rparr>"

definition frontierOf :: "jsval list \<Rightarrow> frontier" where
  "frontierOf ops = fold see_op ops \<lparr>fr_maxClock = 0, fr_opIds = {}\<rparr>"

definition by_id :: "jsval list \<Rightarrow> (jsval \<times> jsval) list \<Rightarrow> (jsval \<times> jsval) list" where
  "by_id ops m = fold (\<lambda>op m. AList.update (get op ''operationId'') op m) ops m"

definition mergeOps :: "jsval list \<Rightarrow> jsval list \<Rightarrow> jsval list \<times> frontier" where
  "mergeOps local remote =
     (let ops = map snd (by_id local (by_id remote []))
      in (ops, frontierOf ops))"

section \<open>The directory of a surface\<close>

record scope_input =
  si_signingMode :: ustr
  si_identityId :: "ustr option"
  si_activeDependant :: "(ustr \<times> ustr) option"
  si_childMode :: bool
  si_dependantCount :: nat

record contacts_scope =
  csc_directoryId :: "ustr option"
  csc_actorRole :: actor_role
  csc_directoryIsDependant :: bool
  csc_subjectName :: "ustr option"
  csc_canManageFamily :: bool

definition directoryIdForDependant :: "ustr \<Rightarrow> ustr" where
  "directoryIdForDependant dep = u ''dependant:'' @ lower dep"

definition resolveContactsScope :: "scope_input \<Rightarrow> contacts_scope" where
  "resolveContactsScope inp =
     (if si_signingMode inp = u ''paired-child'' then
        (let identityId = map_option trim (si_identityId inp) in
         \<lparr>csc_directoryId = (case identityId of None \<Rightarrow> None
            | Some i \<Rightarrow> if i = [] then None else Some (directoryIdForDependant i)),
          csc_actorRole = Dependant, csc_directoryIsDependant = True, csc_subjectName = None, csc_canManageFamily = False\<rparr>)
      else case si_activeDependant inp of
          Some (dep, name) \<Rightarrow>
            \<lparr>csc_directoryId = Some (directoryIdForDependant dep), csc_actorRole = Guardian, csc_directoryIsDependant = True,
             csc_subjectName = Some name, csc_canManageFamily = False\<rparr>
        | None \<Rightarrow>
            \<lparr>csc_directoryId = Some OWNER_DIRECTORY_ID, csc_actorRole = Owner, csc_directoryIsDependant = False,
             csc_subjectName = None, csc_canManageFamily = (\<not> si_childMode inp \<and> si_dependantCount inp > 0)\<rparr>)"

text \<open>The loop keeps the first of each normalised key and drops empty ones.\<close>

definition normalisePubkeys :: "ustr list \<Rightarrow> ustr list" where
  "normalisePubkeys raw = uniq (filter (\<lambda>pk. pk \<noteq> []) (map (\<lambda>pk. lower (trim pk)) raw))"

definition familyLogNeeded :: "ustr \<Rightarrow> contacts_scope \<Rightarrow> bool \<Rightarrow> bool \<Rightarrow> bool" where
  "familyLogNeeded page sc familyContactsUnlocked personaAdvancedForDependant =
     (if page = u ''family-contacts'' then familyContactsUnlocked \<and> csc_canManageFamily sc
      else if page = u ''persona-advanced'' then personaAdvancedForDependant \<and> csc_actorRole sc = Guardian
      else if page = u ''transition-ceremony'' then csc_actorRole sc = Guardian
      else False)"

definition truthy_text :: "ustr option \<Rightarrow> bool" where
  "truthy_text s \<longleftrightarrow> s \<noteq> None \<and> s \<noteq> Some []"

definition familyLogEnabled :: "ustr option \<Rightarrow> ustr \<Rightarrow> contacts_scope \<Rightarrow> bool \<Rightarrow> ustr option \<Rightarrow> bool" where
  "familyLogEnabled encryptionKey page sc familyContactsUnlocked pendingDepPubkey =
     (truthy_text encryptionKey \<and> familyLogNeeded page sc familyContactsUnlocked (truthy_text pendingDepPubkey))"

definition dependantIdsMissingChildSettings :: "ustr list \<Rightarrow> ustr list \<Rightarrow> ustr list" where
  "dependantIdsMissingChildSettings dependantIds loadedIds = filter (\<lambda>i. i \<notin> set loadedIds) dependantIds"

text \<open>All but who created the contact, which the caller adds.\<close>

definition scopeEffectiveContext :: "contacts_scope \<Rightarrow> ustr list \<Rightarrow> ceiling_tier \<Rightarrow> effective_context" where
  "scopeEffectiveContext sc activeGuardianPubkeys defaultChildCeiling =
     \<lparr>ctx_guardians = normalisePubkeys activeGuardianPubkeys, ctx_childCeiling = defaultChildCeiling,
      ctx_isDependant = csc_directoryIsDependant sc, ctx_creator = None\<rparr>"

section \<open>The clock moves on\<close>

lemma to_double_exact: "n < 2 ^ 53 \<Longrightarrow> to_double n = n"
proof -
  assume n: "n < 2 ^ 53"
  have "floorlog 2 n \<le> 53"
    using n by (simp add: floorlog_le_iff)
  then show ?thesis
    by (simp add: to_double_def)
qed

lemma to_double_53: "to_double (2 ^ 53 + 1) = 2 ^ 53"
proof -
  have "floorlog 2 (9007199254740993 :: nat) = 54"
    by (rule antisym [OF floorlog_leI floorlog_geI]) simp_all
  then show ?thesis
    by (simp add: to_double_def)
qed

lemma fold_see_max:
  "fr_maxClock f \<le> fr_maxClock (fold see_op ops f)
   \<and> (op \<in> set ops \<longrightarrow> safeClock (get op ''logicalClock'') \<le> fr_maxClock (fold see_op ops f))"
proof (induction ops arbitrary: f)
  case (Cons x ops)
  have "fr_maxClock f \<le> fr_maxClock (see_op x f)" "safeClock (get x ''logicalClock'') \<le> fr_maxClock (see_op x f)"
    by (simp_all add: see_op_def)
  then show ?case
    using Cons.IH [of "see_op x f"] by (auto intro: le_trans)
qed simp

lemma frontier_max: "op \<in> set ops \<Longrightarrow> safeClock (get op ''logicalClock'') \<le> fr_maxClock (frontierOf ops)"
  using fold_see_max by (simp add: frontierOf_def)

lemma frontier_ids: "fr_opIds (frontierOf ops) = (\<lambda>op. get op ''operationId'') ` set ops"
proof -
  have "fr_opIds (fold see_op ops f) = fr_opIds f \<union> (\<lambda>op. get op ''operationId'') ` set ops" for f
    by (induction ops arbitrary: f) (auto simp: see_op_def)
  then show ?thesis
    by (simp add: frontierOf_def)
qed

lemma cast_operation_clock:
  "cast_operation v = Some q \<Longrightarrow> wf_operation P q \<Longrightarrow> op_clock q = int (safeClock (get v ''logicalClock''))"
  by (auto simp: cast_operation_def bind_eq_Some_conv as_num_def safeClock_def wf_operation_def split: jsval.splits jnum.splits)

text \<open>Operations authored after what the device has seen sort behind all of it.\<close>

lemma row_of_op:
  assumes "validOperations P rows = Some ops" "q \<in> set ops"
  obtains v where "v \<in> set rows" "cast_operation v = Some q" "wf_operation P q"
proof -
  have "q \<in> set (List.map_filter (read_row P) rows)"
    using assms validOperations_filter by metis
  then obtain v where v: "v \<in> set rows" "read_row P v = Some q"
    by (auto simp: List.map_filter_def)
  then have "validateOperation P v = Some True" "cast_operation v = Some q"
    by (auto simp: read_row_def split: if_splits)
  then show ?thesis
    using that v(1) guarded_cast [of P v] by auto
qed

lemma sort_key_last:
  assumes "\<And>q. q \<in> set ops \<Longrightarrow> f q < f p"
  shows "sort_key f (ops @ [p]) = sort_key f ops @ [p]"
proof (rule properties_for_sort_key)
  show "sorted (map f (sort_key f ops @ [p]))"
    using assms by (auto simp: sorted_append intro: less_imp_le)
  show "filter (\<lambda>x. f k = f x) (sort_key f ops @ [p]) = filter (\<lambda>x. f k = f x) (ops @ [p])" for k
    using sort_key_stable [of f "f k" ops] by (simp add: eq_commute)
qed simp

text \<open>
  An operation stamped with the next clock comes after everything the device
  holds: every valid row of the log has a smaller clock, so the replay applies the new operation
  last, as long as the clocks seen are below two to the power of 53.
\<close>

lemma authored_sorts_last:
  assumes "validOperations P rows = Some ops" "fr_maxClock (frontierOf rows) < 2 ^ 53 - 1" "safeClock local < 2 ^ 53 - 1"
    and "op_clock p = int (nextClock local (JNum (Fin (of_nat (fr_maxClock (frontierOf rows))))))"
  shows "sortOperations (ops @ [p]) = sortOperations ops @ [p]"
proof -
  let ?m = "fr_maxClock (frontierOf rows)"
  have "safeClock (JNum (Fin (of_nat ?m))) = ?m"
    by (simp add: safeClock_def)
  then have clock: "op_clock p = int (max (safeClock local) ?m + 1)"
    using assms(2,3) by (simp add: assms(4) nextClock_def to_double_exact)
  have "op_order q < op_order p" if q: "q \<in> set ops" for q
  proof -
    obtain v where v: "v \<in> set rows" "cast_operation v = Some q" "wf_operation P q"
      using row_of_op [OF assms(1) q] .
    then have "op_clock q \<le> int ?m"
      using frontier_max [OF v(1)] cast_operation_clock [OF v(2,3)] by simp
    also have "\<dots> < op_clock p"
      unfolding clock by simp
    finally show ?thesis
      by (simp add: op_order_def less_prod_def)
  qed
  then show ?thesis
    unfolding sortOperations_def by (rule sort_key_last)
qed

definition sample_authored :: "contact_operation \<Rightarrow> contact_operation" where
  "sample_authored q = q\<lparr>op_clock := 2\<rparr>"

lemma sample_row:
  "\<exists>q. validOperations sample_platform [sample_rename] = Some [q] \<and> fr_maxClock (frontierOf [sample_rename]) = 1"
proof -
  obtain q where "cast_operation sample_rename = Some q"
    using guarded_cast [OF sample_rename_valid] by blast
  moreover have "fr_maxClock (frontierOf [sample_rename]) = 1"
    by (simp add: frontierOf_def see_op_def safeClock_def sample_rename_def envelope_def)
  ultimately show ?thesis
    using sample_rename_valid by simp
qed

lemma authored_sorts_last_witness:
  "\<exists>q. validOperations sample_platform [sample_rename] = Some [q]
     \<and> sortOperations [q, sample_authored q] = sortOperations [q] @ [sample_authored q]"
proof -
  obtain q where q: "validOperations sample_platform [sample_rename] = Some [q]" "fr_maxClock (frontierOf [sample_rename]) = 1"
    using sample_row by blast
  have "nextClock JUndef (JNum (Fin (of_nat 1))) = 2"
    by (simp add: nextClock_def safeClock_def to_double_exact)
  then have "op_clock (sample_authored q) = int (nextClock JUndef (JNum (Fin (of_nat (fr_maxClock (frontierOf [sample_rename]))))))"
    by (simp add: q(2) sample_authored_def)
  moreover have "fr_maxClock (frontierOf [sample_rename]) < 2 ^ 53 - 1" "safeClock JUndef < 2 ^ 53 - 1"
    by (simp_all add: q(2) safeClock_def)
  ultimately show ?thesis
    using authored_sorts_last [OF q(1), of JUndef "sample_authored q"] q(1) by (intro exI [of _ q]) simp
qed

text \<open>A row that claims a clock of two to the power of 53; the guard asks for an integer only.\<close>

definition far_row :: jsval where
  "far_row = JObj [(u ''operationId'', JStr (hexes 32 49)), (u ''directoryId'', JS ''owner''),
     (u ''contactId'', JStr (hexes 32 50)), (u ''actorPubkey'', JStr (hexes 64 98)),
     (u ''actorRole'', JS ''owner''), (u ''actorDeviceId'', JStr (hexes 32 51)),
     (u ''logicalClock'', JNum (Fin 9007199254740992)), (u ''createdAt'', JNum (Fin 1000)), (u ''action'', JS ''rename''),
     (u ''value'', JObj [(u ''displayName'', JS ''Ann'')])]"

text \<open>
  One valid row with a clock of two to the power of 53 stops the clock of every device
  that holds it: the next clock is that same number again, so an operation authored later ties with
  it and is ordered by its author's key, not after it.
\<close>

lemma clock_sticks:
  "validateOperation P far_row = Some True
   \<and> fr_maxClock (frontierOf [far_row]) = 2 ^ 53
   \<and> nextClock (JNum (Fin 9007199254740992)) (JNum (Fin 9007199254740992)) = 2 ^ 53
   \<and> nextClock (JNum (Fin 1)) (JNum (Fin 9007199254740992)) = 2 ^ 53"
proof (intro conjI)
  show "validateOperation P far_row = Some True"
    by (simp add: validateOperation_def far_row_def validEnvelope_def actorMay_def guard_simps
        one_of_def ACTIONS_def APP_ALLOWED_ACTIONS_def validateValue_def CAP_NAME_def DIRECTORY_ID_def
        is_int_rat_def hex_unit_def)
  show "fr_maxClock (frontierOf [far_row]) = 2 ^ 53"
    by (simp add: frontierOf_def see_op_def safeClock_def far_row_def)
  show "nextClock (JNum (Fin 9007199254740992)) (JNum (Fin 9007199254740992)) = 2 ^ 53"
      "nextClock (JNum (Fin 1)) (JNum (Fin 9007199254740992)) = 2 ^ 53"
    using to_double_53 by (simp_all add: nextClock_def safeClock_def)
qed

section \<open>Merging\<close>

abbreviation opId :: "jsval \<Rightarrow> jsval" where
  "opId v \<equiv> get v ''operationId''"

text \<open>An operation id names one operation: rows with one id are the same row.\<close>

definition one_per_id :: "jsval list \<Rightarrow> bool" where
  "one_per_id rows \<longleftrightarrow> (\<forall>v \<in> set rows. \<forall>w \<in> set rows. opId v = opId w \<longrightarrow> v = w)"

definition keyed :: "(jsval \<times> jsval) list \<Rightarrow> bool" where
  "keyed m \<longleftrightarrow> distinct (map fst m) \<and> (\<forall>(k, v) \<in> set m. k = opId v)"

lemma by_id_keyed: "keyed m \<Longrightarrow> keyed (by_id ops m)"
proof (induction ops arbitrary: m)
  case (Cons op ops)
  have "keyed (AList.update (opId op) op m)"
    using Cons.prems set_update [of "opId op" op m] by (auto simp: keyed_def distinct_update)
  then show ?case
    using Cons.IH by (simp add: by_id_def)
qed (simp add: by_id_def)

lemma by_id_keys: "fst ` set (by_id ops m) = opId ` set ops \<union> fst ` set m"
proof (induction ops arbitrary: m)
  case (Cons op ops)
  have "fst ` set (AList.update (opId op) op m) = insert (opId op) (fst ` set m)"
    using dom_update [of "opId op" op m] by simp
  then show ?case
    using Cons.IH [of "AList.update (opId op) op m"] by (auto simp: by_id_def)
qed (simp add: by_id_def)

lemma by_id_values: "snd ` set (by_id ops m) \<subseteq> set ops \<union> snd ` set m"
proof (induction ops arbitrary: m)
  case (Cons op ops)
  have "snd ` set (by_id (op # ops) m) \<subseteq> set ops \<union> snd ` set (AList.update (opId op) op m)"
    using Cons.IH [of "AList.update (opId op) op m"] by (simp add: by_id_def)
  also have "\<dots> \<subseteq> set ops \<union> insert op (snd ` set m)"
    using set_update [of "opId op" op m] by (intro Un_mono order_refl) auto
  finally show ?case
    by simp
qed (simp add: by_id_def)

lemma merge_set:
  assumes "one_per_id (local @ remote)"
  shows "set (fst (mergeOps local remote)) = set local \<union> set remote \<and> distinct (map opId (fst (mergeOps local remote)))"
proof -
  let ?m = "by_id local (by_id remote [])"
  have keyed: "keyed ?m"
    by (intro by_id_keyed) (simp add: keyed_def)
  have keys: "fst ` set ?m = opId ` (set local \<union> set remote)"
    by (simp add: by_id_keys image_Un)
  have vals: "snd ` set ?m \<subseteq> set local \<union> set remote"
    using by_id_values [of local "by_id remote []"] by_id_values [of remote "[]"] by auto
  have "v \<in> snd ` set ?m" if v: "v \<in> set local \<union> set remote" for v
  proof -
    obtain w where w: "(opId v, w) \<in> set ?m"
      using keys v by force
    then have "opId w = opId v"
      using keyed by (auto simp: keyed_def)
    moreover have "w \<in> set local \<union> set remote"
      using w vals by force
    ultimately have "w = v"
      using assms v by (auto simp: one_per_id_def)
    then show ?thesis
      using w by force
  qed
  moreover have "map opId (map snd ?m) = map fst ?m"
    using keyed by (auto simp: keyed_def)
  then have "distinct (map opId (map snd ?m))"
    using keyed by (simp only: keyed_def)
  ultimately show ?thesis
    using vals by (auto simp: mergeOps_def Let_def)
qed

lemma merge_mset:
  assumes "one_per_id (a @ b)" "one_per_id (c @ d)" "set a \<union> set b = set c \<union> set d"
  shows "mset (fst (mergeOps a b)) = mset (fst (mergeOps c d))"
  using merge_set [OF assms(1)] merge_set [OF assms(2)] assms(3)
  by (intro set_eq_iff_mset_eq_distinct [THEN iffD1]) (auto dest: distinct_map [THEN iffD1])

lemma frontier_clock: "fr_maxClock (frontierOf ops) = Max (insert 0 ((\<lambda>op. safeClock (get op ''logicalClock'')) ` set ops))"
proof -
  have step: "fr_maxClock (see_op op f) = max (fr_maxClock f) (safeClock (get op ''logicalClock''))" for op f
    by (simp add: see_op_def max_def)
  have "fr_maxClock (fold see_op ops f) = Max (insert (fr_maxClock f) ((\<lambda>op. safeClock (get op ''logicalClock'')) ` set ops))" for f
  proof (induction ops arbitrary: f)
    case (Cons op ops)
    then show ?case
      by (simp add: step max.assoc [symmetric] flip: Max_insert del: Max_insert)
        (cases "ops = []"; simp add: max.assoc)
  qed simp
  then show ?thesis
    by (simp add: frontierOf_def)
qed

text \<open>
  C37 (equivalence): Two devices that take in each other's operations hold the same rows, stamp
  from the same frontier (the same greatest clock and the same set of operation ids), and compute the same
  directory, whichever merges into which and however often; nothing either had is lost. This is for logs in
  which an operation id names one row: of two different rows with one id each device keeps its own.
\<close>

theorem merge_converges:
  assumes "one_per_id (a @ b)"
  shows "applyOperations P (fst (mergeOps a b)) = applyOperations P (fst (mergeOps b a))
    \<and> applyOperations P (fst (mergeOps (fst (mergeOps a b)) b)) = applyOperations P (fst (mergeOps a b))
    \<and> mset (fst (mergeOps a b)) = mset (fst (mergeOps b a)) \<and> set (fst (mergeOps a b)) = set a \<union> set b
    \<and> snd (mergeOps a b) = snd (mergeOps b a)"
proof -
  have ba: "one_per_id (b @ a)" and merged: "one_per_id (fst (mergeOps a b) @ b)" and one: "one_per_id (fst (mergeOps a b))"
    using assms merge_set [OF assms] by (auto simp: one_per_id_def)
  have same: "mset (fst (mergeOps a b)) = mset (fst (mergeOps b a))"
    by (rule merge_mset [OF assms ba]) auto
  moreover have "mset (fst (mergeOps a b)) = mset (fst (mergeOps (fst (mergeOps a b)) b))"
    using merge_set [OF assms] by (intro merge_mset [OF assms merged]) auto
  moreover have "snd (mergeOps a b) = frontierOf (fst (mergeOps a b))" for a b
    by (simp add: mergeOps_def Let_def)
  then have "fr_maxClock (snd (mergeOps a b)) = fr_maxClock (snd (mergeOps b a))" "fr_opIds (snd (mergeOps a b)) = fr_opIds (snd (mergeOps b a))"
    using mset_eq_setD [OF same] by (simp_all add: frontier_clock frontier_ids)
  then have "snd (mergeOps a b) = snd (mergeOps b a)"
    by simp
  ultimately show ?thesis
    using applyOperations_perm [of "fst (mergeOps a b)"] one merge_set [OF assms]
    unfolding one_per_id_def by metis
qed

theorem merge_converges_witness:
  "applyOperations sample_platform (fst (mergeOps [sample_rename] [sample_add]))
     = applyOperations sample_platform (fst (mergeOps [sample_add] [sample_rename]))
   \<and> set (fst (mergeOps [sample_rename] [sample_add])) = {sample_rename, sample_add}"
proof -
  have "one_per_id ([sample_rename] @ [sample_add])"
    by (auto simp: one_per_id_def sample_add_def sample_rename_def envelope_def hexes_def)
  then show ?thesis
    using merge_converges [of "[sample_rename]" "[sample_add]"] by auto
qed

end
