(* ===== verification/Signing_Scope.thy ===== *)
theory Signing_Scope
  imports Prelude
begin

text \<open>
  What a dependant's signing request is about, and what the guardian's stage says of it:
  \<open>scope-inference.ts\<close> (event template to scope and origin), \<open>autonomy-gate.ts\<close> (the scope by
  stage matrix), \<open>audit-visibility.ts\<close> and the request counter of \<open>rate-limit.ts\<close>.
\<close>

section \<open>Scopes and stages\<close>

datatype scope =
    Sign_in | Venue_entry | Post_public | Dm_private | Upload_photo | React_zap_reply
  | Pair_device | Mutate_identity | App_permission

datatype stage =
    Full_control | Request_approve | Autonomous_alerts | Autonomous_logging | Full_autonomy

text \<open>
  The five stages are ordered by how much the dependant may do without the guardian; the order
  is the one in which the type lists them.
\<close>

fun stage_rank :: "stage \<Rightarrow> nat" where
  "stage_rank Full_control = 0"
| "stage_rank Request_approve = 1"
| "stage_rank Autonomous_alerts = 2"
| "stage_rank Autonomous_logging = 3"
| "stage_rank Full_autonomy = 4"

lemma stage_rank_inject [simp]: "stage_rank a = stage_rank b \<longleftrightarrow> a = b"
  by (cases a; cases b) auto

instantiation stage :: linorder
begin

definition less_eq_stage :: "stage \<Rightarrow> stage \<Rightarrow> bool" where
  "less_eq_stage a b \<longleftrightarrow> stage_rank a \<le> stage_rank b"

definition less_stage :: "stage \<Rightarrow> stage \<Rightarrow> bool" where
  "less_stage a b \<longleftrightarrow> stage_rank a < stage_rank b"

instance
  by standard (auto simp: less_eq_stage_def less_stage_def)

end

text \<open>
  An unsigned event template: its kind, author and content, and its tags, each a list of strings. A
  kind that is not an integer falls under none of the cases below, like any unlisted one.
\<close>

record template =
  tpl_kind :: int
  tpl_pubkey :: ustr
  tpl_content :: ustr
  tpl_tags :: "ustr list list"

text \<open>\<open>t[i]\<close> on a tag; \<open>None\<close> is \<open>undefined\<close>.\<close>

definition tag_at :: "ustr list \<Rightarrow> nat \<Rightarrow> ustr option" where
  "tag_at t i = (if i < length t then Some (t ! i) else None)"

definition tag_value :: "ustr list list \<Rightarrow> ustr \<Rightarrow> ustr option" where
  "tag_value ts name = Option.bind (find (\<lambda>t. tag_at t 0 = Some name) ts) (\<lambda>t. tag_at t 1)"

definition inferScope :: "template \<Rightarrow> scope option" where
  "inferScope t =
     (let k = tpl_kind t in
      if k = 21236 then Some Sign_in
      else if k = 21235 then Some Venue_entry
      else if k = 1 then
        (if \<exists>tag \<in> set (tpl_tags t). tag_at tag 0 = Some (u ''e'') then Some React_zap_reply else Some Post_public)
      else if k = 7 \<or> k = 9734 then Some React_zap_reply
      else if k = 4 \<or> k = 13 \<or> k = 1059 then Some Dm_private
      else if k = 24242 then Some Upload_photo
      else if k = 24133 then Some Pair_device
      else if k = 0 then Some Mutate_identity
      else if k = 30420 then Some App_permission
      else if k = 31000 then
        (case tag_value (tpl_tags t) (u ''type'') of
           Some v \<Rightarrow> if ends_with v (u ''name-change'') then Some Mutate_identity else None
         | None \<Rightarrow> None)
      else None)"

definition safeOriginForGrant :: "platform \<Rightarrow> ustr \<Rightarrow> ustr option" where
  "safeOriginForGrant P raw =
     (case url_parse P raw of
        None \<Rightarrow> None
      | Some l \<Rightarrow>
          if url_protocol l = u ''https:'' then Some (url_origin l)
          else if url_protocol l = u ''http:'' \<and> (url_hostname l = u ''localhost'' \<or> url_hostname l = u ''127.0.0.1'')
            then Some (url_origin l)
          else None)"

definition inferOrigin :: "platform \<Rightarrow> template \<Rightarrow> scope \<Rightarrow> ustr option" where
  "inferOrigin P t sc =
     (case sc of
        Sign_in \<Rightarrow> (case tag_value (tpl_tags t) (u ''origin'') of
            None \<Rightarrow> None | Some v \<Rightarrow> if v = [] then None else safeOriginForGrant P v)
      | Upload_photo \<Rightarrow> Option.bind (tag_value (tpl_tags t) (u ''u'')) (safeOriginForGrant P)
      | Dm_private \<Rightarrow> (case tag_value (tpl_tags t) (u ''p'') of
            None \<Rightarrow> None | Some v \<Rightarrow> if hex64 (lower v) then Some (lower v) else None)
      | React_zap_reply \<Rightarrow> (case tag_value (tpl_tags t) (u ''p'') of
            None \<Rightarrow> None | Some v \<Rightarrow> if hex64 (lower v) then Some (lower v) else None)
      | _ \<Rightarrow> None)"

section \<open>The stage matrix\<close>

datatype autonomy_decision = Allow_it | Require_pin | Block_it ustr

fun checkAutonomy :: "stage \<Rightarrow> autonomy_decision" where
  "checkAutonomy Full_control = Require_pin"
| "checkAutonomy Request_approve = Require_pin"
| "checkAutonomy Autonomous_alerts = Allow_it"
| "checkAutonomy Autonomous_logging = Allow_it"
| "checkAutonomy Full_autonomy = Allow_it"

datatype policy = Blocked | Ask_origin | Ask_every | Auto_alert | Auto_log | Auto

fun POLICY_MATRIX :: "scope \<Rightarrow> stage \<Rightarrow> policy" where
  "POLICY_MATRIX Sign_in st = (case st of
     Full_control \<Rightarrow> Ask_every | Request_approve \<Rightarrow> Ask_origin | Autonomous_alerts \<Rightarrow> Auto_alert
   | Autonomous_logging \<Rightarrow> Auto_log | Full_autonomy \<Rightarrow> Auto)"
| "POLICY_MATRIX Venue_entry st = (case st of
     Full_control \<Rightarrow> Ask_every | Request_approve \<Rightarrow> Auto | Autonomous_alerts \<Rightarrow> Auto
   | Autonomous_logging \<Rightarrow> Auto | Full_autonomy \<Rightarrow> Auto)"
| "POLICY_MATRIX Post_public st = (case st of
     Full_control \<Rightarrow> Ask_every | Request_approve \<Rightarrow> Ask_every | Autonomous_alerts \<Rightarrow> Auto_alert
   | Autonomous_logging \<Rightarrow> Auto_log | Full_autonomy \<Rightarrow> Auto)"
| "POLICY_MATRIX Dm_private st = (case st of
     Full_control \<Rightarrow> Ask_every | Request_approve \<Rightarrow> Ask_origin | Autonomous_alerts \<Rightarrow> Auto_alert
   | Autonomous_logging \<Rightarrow> Auto_log | Full_autonomy \<Rightarrow> Auto)"
| "POLICY_MATRIX Upload_photo st = (case st of
     Full_control \<Rightarrow> Ask_every | Request_approve \<Rightarrow> Ask_origin | Autonomous_alerts \<Rightarrow> Auto_alert
   | Autonomous_logging \<Rightarrow> Auto_log | Full_autonomy \<Rightarrow> Auto)"
| "POLICY_MATRIX React_zap_reply st = (case st of
     Full_control \<Rightarrow> Ask_every | Request_approve \<Rightarrow> Ask_origin | Autonomous_alerts \<Rightarrow> Auto_alert
   | Autonomous_logging \<Rightarrow> Auto_log | Full_autonomy \<Rightarrow> Auto)"
| "POLICY_MATRIX Pair_device st = (case st of
     Full_control \<Rightarrow> Ask_every | Request_approve \<Rightarrow> Ask_every | Autonomous_alerts \<Rightarrow> Ask_every
   | Autonomous_logging \<Rightarrow> Ask_every | Full_autonomy \<Rightarrow> Auto)"
| "POLICY_MATRIX Mutate_identity st = (case st of
     Full_control \<Rightarrow> Ask_every | Request_approve \<Rightarrow> Ask_every | Autonomous_alerts \<Rightarrow> Auto_alert
   | Autonomous_logging \<Rightarrow> Auto_log | Full_autonomy \<Rightarrow> Auto)"
| "POLICY_MATRIX App_permission st = (case st of
     Full_control \<Rightarrow> Ask_every | Request_approve \<Rightarrow> Ask_every | Autonomous_alerts \<Rightarrow> Ask_every
   | Autonomous_logging \<Rightarrow> Ask_every | Full_autonomy \<Rightarrow> Ask_every)"

fun resolvePolicy :: "stage \<Rightarrow> scope option \<Rightarrow> policy" where
  "resolvePolicy st None = (if st = Full_autonomy then Auto else Ask_every)"
| "resolvePolicy st (Some sc) = POLICY_MATRIX sc st"

definition isOriginScopedScope :: "scope \<Rightarrow> bool" where
  "isOriginScopedScope sc \<longleftrightarrow> sc = Sign_in \<or> sc = Dm_private \<or> sc = Upload_photo \<or> sc = React_zap_reply"

text \<open>\<open>!!origin\<close>: null, undefined and the empty text are all false; so is an absent stage to the first test.\<close>

definition dependantAllowAlwaysPersists :: "scope option \<Rightarrow> ustr option \<Rightarrow> stage option \<Rightarrow> bool" where
  "dependantAllowAlwaysPersists sc org st \<longleftrightarrow>
     st \<noteq> Some Full_control \<and> sc \<noteq> None \<and> (org \<noteq> None \<and> org \<noteq> Some []) \<and> isOriginScopedScope (the sc)"

datatype visibility_override = Default_rule | Force_visible | Force_hidden

fun defaultVisibilityByStage :: "stage \<Rightarrow> bool" where
  "defaultVisibilityByStage Autonomous_alerts = True"
| "defaultVisibilityByStage Autonomous_logging = True"
| "defaultVisibilityByStage Full_autonomy = True"
| "defaultVisibilityByStage Full_control = False"
| "defaultVisibilityByStage Request_approve = False"

definition resolveAuditVisibility :: "stage \<Rightarrow> visibility_override option \<Rightarrow> bool" where
  "resolveAuditVisibility st ov =
     (if ov = Some Force_visible then True
      else if ov = Some Force_hidden then False
      else defaultVisibilityByStage st)"

text \<open>
  The policies by how much they let through unasked. The order of the type is not this one:
  \<open>ask-origin\<close> can be answered once for all, so it lets through more than \<open>ask-every\<close>.
\<close>

fun policy_rank :: "policy \<Rightarrow> nat" where
  "policy_rank Blocked = 0"
| "policy_rank Ask_every = 1"
| "policy_rank Ask_origin = 2"
| "policy_rank Auto_alert = 3"
| "policy_rank Auto_log = 4"
| "policy_rank Auto = 5"

instantiation policy :: linorder
begin

definition less_eq_policy :: "policy \<Rightarrow> policy \<Rightarrow> bool" where
  "less_eq_policy a b \<longleftrightarrow> policy_rank a \<le> policy_rank b"

definition less_policy :: "policy \<Rightarrow> policy \<Rightarrow> bool" where
  "less_policy a b \<longleftrightarrow> policy_rank a < policy_rank b"

lemma policy_rank_inject [simp]: "policy_rank a = policy_rank b \<longleftrightarrow> a = b"
  by (cases a; cases b) auto

instance
  by standard (auto simp: less_eq_policy_def less_policy_def)

end

lemma resolvePolicy_le: "a \<le> b \<Longrightarrow> resolvePolicy a sc \<le> resolvePolicy b sc"
proof (cases sc)
  case None
  assume "a \<le> b"
  then show ?thesis
    using None by (cases a; cases b) (auto simp: less_eq_stage_def less_eq_policy_def)
next
  case (Some s)
  assume "a \<le> b"
  then show ?thesis
    using Some by (cases s; cases a; cases b) (simp_all add: less_eq_stage_def less_eq_policy_def)
qed

text \<open>
  The scope by stage matrix is coherent: moving a dependant to a freer stage
  never makes any scope stricter, full control asks about everything, a standing app permission
  is asked about at every stage, no cell refuses outright, and the cells that offer "allow
  always" are those of the origin-scoped scopes at the request-approve stage, where the choice
  is the one \<open>dependantAllowAlwaysPersists\<close> saves.
\<close>

lemma resolvePolicy_coherent:
  "mono (\<lambda>st. resolvePolicy st sc)
   \<and> resolvePolicy Full_control sc = Ask_every
   \<and> resolvePolicy st (Some App_permission) = Ask_every
   \<and> resolvePolicy st sc \<noteq> Blocked
   \<and> (resolvePolicy st sc = Ask_origin \<longleftrightarrow>
        st = Request_approve \<and> dependantAllowAlwaysPersists sc (Some (u ''https://a.example'')) (Some st))"
proof -
  have "resolvePolicy Full_control sc = Ask_every"
    by (cases sc) (simp, case_tac a, simp_all)
  moreover have "resolvePolicy st (Some App_permission) = Ask_every"
    by (cases st) auto
  moreover have "resolvePolicy st sc \<noteq> Blocked"
    by (cases sc; cases st) (simp_all, (case_tac a, simp_all)+)
  moreover have "resolvePolicy st sc = Ask_origin \<longleftrightarrow>
        st = Request_approve \<and> dependantAllowAlwaysPersists sc (Some (u ''https://a.example'')) (Some st)"
    by (cases sc; cases st)
      (simp_all add: dependantAllowAlwaysPersists_def isOriginScopedScope_def, (case_tac a, simp_all)+)
  ultimately show ?thesis
    by (auto simp: mono_def resolvePolicy_le)
qed

lemma checkAutonomy_visible: "checkAutonomy st = Allow_it \<longleftrightarrow> defaultVisibilityByStage st"
  by (cases st) auto

lemma inferOrigin_scoped: "inferOrigin P t sc \<noteq> None \<Longrightarrow> isOriginScopedScope sc"
  by (cases sc) (auto simp: inferOrigin_def isOriginScopedScope_def)

lemma safeOriginForGrant_https:
  "safeOriginForGrant P raw = Some org \<Longrightarrow>
   \<exists>l. url_parse P raw = Some l \<and> org = url_origin l \<and> url_protocol l \<in> {u ''https:'', u ''http:''}"
  by (auto simp: safeOriginForGrant_def split: option.splits if_splits)

section \<open>The request counter\<close>

record rate_state =
  rl_count :: nat
  rl_windowStart :: rat

definition DEFAULT_RATE_LIMIT :: nat where
  "DEFAULT_RATE_LIMIT = 10"

definition RATE_LIMIT_WINDOW_MS :: rat where
  "RATE_LIMIT_WINDOW_MS = 60000"

definition checkRateLimit :: "nat \<Rightarrow> rate_state option \<Rightarrow> rat \<Rightarrow> bool \<times> rate_state" where
  "checkRateLimit limit st now =
     (case st of
        None \<Rightarrow> (True, \<lparr>rl_count = 1, rl_windowStart = now\<rparr>)
      | Some s \<Rightarrow>
          if now - rl_windowStart s \<ge> RATE_LIMIT_WINDOW_MS
          then (True, \<lparr>rl_count = 1, rl_windowStart = now\<rparr>)
          else if rl_count s + 1 > limit then (False, s)
          else (True, \<lparr>rl_count = rl_count s + 1, rl_windowStart = rl_windowStart s\<rparr>))"

text \<open>The caller: each request is checked against the state the one before it left.\<close>

fun served :: "nat \<Rightarrow> rate_state option \<Rightarrow> rat list \<Rightarrow> rat list" where
  "served limit st [] = []"
| "served limit st (t # ts) =
     (case checkRateLimit limit st t of
        (ok, st') \<Rightarrow> (if ok then [t] else []) @ served limit (Some st') ts)"

definition hits_in :: "rat \<Rightarrow> rat list \<Rightarrow> nat" where
  "hits_in a ts = length (filter (\<lambda>t. a \<le> t \<and> t < a + RATE_LIMIT_WINDOW_MS) ts)"

lemma hits_in_append: "hits_in a (xs @ ys) = hits_in a xs + hits_in a ys"
  by (simp add: hits_in_def)

lemma served_later: "t \<in> set (served limit st ts) \<Longrightarrow> t \<in> set ts"
  by (induction ts arbitrary: st) (auto split: prod.splits if_splits)

lemma hits_in_none:
  "(\<And>t. t \<in> set ts \<Longrightarrow> a + RATE_LIMIT_WINDOW_MS \<le> t) \<Longrightarrow> hits_in a (served limit st ts) = 0"
  by (force simp: hits_in_def filter_empty_conv dest: served_later)

lemma hits_in_one: "hits_in a [t] \<le> 1"
  by (simp add: hits_in_def)

abbreviation opened :: "rat \<Rightarrow> rate_state" where
  "opened t \<equiv> \<lparr>rl_count = 1, rl_windowStart = t\<rparr>"

abbreviation counted :: "rate_state \<Rightarrow> rate_state" where
  "counted s \<equiv> \<lparr>rl_count = rl_count s + 1, rl_windowStart = rl_windowStart s\<rparr>"

lemma served_cases:
  fixes s :: rate_state
  obtains (fresh) "RATE_LIMIT_WINDOW_MS \<le> t - rl_windowStart s"
      "hits_in a (served limit (Some s) (t # ts)) = hits_in a [t] + hits_in a (served limit (Some (opened t)) ts)"
  | (refused) "t - rl_windowStart s < RATE_LIMIT_WINDOW_MS" "limit < rl_count s + 1"
      "hits_in a (served limit (Some s) (t # ts)) = hits_in a (served limit (Some s) ts)"
  | (counted) "t - rl_windowStart s < RATE_LIMIT_WINDOW_MS" "rl_count s + 1 \<le> limit"
      "hits_in a (served limit (Some s) (t # ts)) = hits_in a [t] + hits_in a (served limit (Some (counted s)) ts)"
proof -
  have cons: "hits_in a (t # served limit r ts) = hits_in a [t] + hits_in a (served limit r ts)" for r
    using hits_in_append [of a "[t]" "served limit r ts"] by simp
  show ?thesis
    using that
    by (cases "RATE_LIMIT_WINDOW_MS \<le> t - rl_windowStart s"; cases "limit < rl_count s + 1")
      (simp_all add: checkRateLimit_def cons not_le not_less)
qed

text \<open>A window that opened inside the interval outlasts it.\<close>

lemma served_inside:
  assumes "sorted ts" "rl_count s \<le> L" "a \<le> rl_windowStart s" "limit \<le> L"
  shows "hits_in a (served limit (Some s) ts) \<le> L - rl_count s"
  using assms
proof (induction ts arbitrary: s)
  case (Cons t ts)
  show ?case
  proof (cases "a + RATE_LIMIT_WINDOW_MS \<le> t")
    case True
    then have "a + RATE_LIMIT_WINDOW_MS \<le> x" if "x \<in> set (t # ts)" for x
      using Cons.prems(1) that by fastforce
    then show ?thesis
      by (metis hits_in_none le0)
  next
    case False
    show ?thesis
    proof (cases rule: served_cases [of t s a limit ts])
      case fresh
      then show ?thesis
        using False Cons.prems(3) by linarith
    next
      case refused
      then show ?thesis
        using Cons.IH [of s] Cons.prems by simp
    next
      case counted
      then have "hits_in a (served limit (Some (counted s)) ts) \<le> L - (rl_count s + 1)"
        using Cons.IH [of "counted s"] Cons.prems by simp
      then show ?thesis
        using counted hits_in_one [of a t] Cons.prems(4) by linarith
    qed
  qed
qed (simp add: hits_in_def)

lemma served_after:
  assumes "sorted ts" "\<And>t. t \<in> set ts \<Longrightarrow> a \<le> t" "rl_count s \<le> L" "limit \<le> L" "1 \<le> L"
  shows "hits_in a (served limit (Some s) ts) \<le> (L - rl_count s) + L"
  using assms
proof (induction ts arbitrary: s)
  case (Cons t ts)
  show ?case
  proof (cases rule: served_cases [of t s a limit ts])
    case fresh
    then show ?thesis
      using served_inside [of ts "opened t" L a limit] hits_in_one [of a t] Cons.prems by simp
  next
    case refused
    then show ?thesis
      using Cons.IH [of s] Cons.prems by simp
  next
    case counted
    then have "hits_in a (served limit (Some (counted s)) ts) \<le> (L - (rl_count s + 1)) + L"
      using Cons.IH [of "counted s"] Cons.prems by simp
    then show ?thesis
      using counted hits_in_one [of a t] Cons.prems(4) by linarith
  qed
qed (simp add: hits_in_def)

lemma served_across:
  assumes "sorted ts" "rl_count s \<le> L" "limit \<le> L" "1 \<le> L"
  shows "hits_in a (served limit (Some s) ts) \<le> 2 * L"
  using assms
proof (induction ts arbitrary: s)
  case (Cons t ts)
  show ?case
  proof (cases "a \<le> t")
    case True
    then have "\<And>x. x \<in> set (t # ts) \<Longrightarrow> a \<le> x"
      using Cons.prems(1) by fastforce
    then show ?thesis
      using served_after [of "t # ts" a s L limit] Cons.prems by simp
  next
    case False
    then have "hits_in a [t] = 0"
      by (simp add: hits_in_def)
    then show ?thesis
      using Cons.IH [of "opened t"] Cons.IH [of s] Cons.IH [of "counted s"] Cons.prems
      by (cases rule: served_cases [of t s a limit ts]) simp_all
  qed
qed (simp add: hits_in_def)

lemma served_start: "served limit None (t # ts) = t # served limit (Some (opened t)) ts"
  by (simp add: checkRateLimit_def)

text \<open>
  The request counter bounds a flood however it is timed: whatever the requests
  (at times in order), at most twice the cap are served in any interval of one window's length,
  and at most the cap within the window the first request opened.
\<close>

lemma rate_limit_bound:
  assumes "sorted (t # ts)" "1 \<le> limit"
  shows "hits_in a (served limit None (t # ts)) \<le> 2 * limit
         \<and> hits_in t (served limit None (t # ts)) \<le> limit"
proof
  have split: "hits_in x (served limit None (t # ts)) = hits_in x [t] + hits_in x (served limit (Some (opened t)) ts)" for x
    using hits_in_append [of x "[t]" "served limit (Some (opened t)) ts"] by (simp add: served_start del: served.simps)
  have "hits_in t (served limit (Some (opened t)) ts) \<le> limit - 1"
    using served_inside [of ts "opened t" limit t limit] assms by simp
  then show "hits_in t (served limit None (t # ts)) \<le> limit"
    using split [of t] hits_in_one [of t t] assms(2) by linarith
  show "hits_in a (served limit None (t # ts)) \<le> 2 * limit"
  proof (cases "a \<le> t")
    case True
    then have "\<And>x. x \<in> set ts \<Longrightarrow> a \<le> x"
      using assms(1) by fastforce
    then show ?thesis
      using served_after [of ts a "opened t" limit limit] split [of a] hits_in_one [of a t] assms by simp
  next
    case False
    then show ?thesis
      using served_across [of ts "opened t" limit limit a] split [of a] assms by (simp add: hits_in_def)
  qed
qed

lemma rate_limit_bound_witness:
  "hits_in 30000 (served 2 None [0, 1, 2, 59999, 60000, 60001, 60002]) \<le> 2 * 2
   \<and> hits_in 0 (served 2 None [0, 1, 2, 59999, 60000, 60001, 60002]) \<le> 2
   \<and> served 2 None [0, 1, 2, 59999, 60000, 60001, 60002] = [0, 1, 60000, 60001]"
proof -
  have "sorted [0, 1, 2, 59999, 60000, 60001, 60002 :: rat]"
    by simp
  then have "hits_in 30000 (served 2 None [0, 1, 2, 59999, 60000, 60001, 60002]) \<le> 2 * 2
      \<and> hits_in 0 (served 2 None [0, 1, 2, 59999, 60000, 60001, 60002]) \<le> 2"
    by (intro rate_limit_bound) simp_all
  moreover have "served 2 None [0, 1, 2, 59999, 60000, 60001, 60002] = [0, 1, 60000, 60001]"
    by (simp add: checkRateLimit_def RATE_LIMIT_WINDOW_MS_def)
  ultimately show ?thesis
    by (simp only: simp_thms)
qed

end
