(* ===== verification/Grant_Schedule.thy ===== *)
theory Grant_Schedule
  imports Prelude
begin

text \<open>
  \<open>grant-schedule.ts\<close>: the weekly windows a guardian sets for a dependant or for one rule, the
  validation of a schedule that came off the wire, the time check made at every signature and
  the intersection of two schedules. The time-zone database is not in the repository: the clock
  of a zone (what \<open>Intl.DateTimeFormat\<close> prints for an instant, or that it refuses the zone) is a
  parameter. Instants are milliseconds.
\<close>

section \<open>Windows\<close>

record window =
  w_start :: ustr
  w_end :: ustr

datatype weekday = Mon | Tue | Wed | Thu | Fri | Sat | Sun

definition WEEKDAY_KEYS :: "weekday list" where
  "WEEKDAY_KEYS = [Mon, Tue, Wed, Thu, Fri, Sat, Sun]"

instantiation weekday :: enum
begin

definition enum_weekday :: "weekday list" where
  "enum_weekday = [Mon, Tue, Wed, Thu, Fri, Sat, Sun]"

definition enum_all_weekday :: "(weekday \<Rightarrow> bool) \<Rightarrow> bool" where
  "enum_all_weekday Q \<longleftrightarrow> Q Mon \<and> Q Tue \<and> Q Wed \<and> Q Thu \<and> Q Fri \<and> Q Sat \<and> Q Sun"

definition enum_ex_weekday :: "(weekday \<Rightarrow> bool) \<Rightarrow> bool" where
  "enum_ex_weekday Q \<longleftrightarrow> Q Mon \<or> Q Tue \<or> Q Wed \<or> Q Thu \<or> Q Fri \<or> Q Sat \<or> Q Sun"

instance
proof
  have all: "(\<forall>k. Q k) \<longleftrightarrow> Q Mon \<and> Q Tue \<and> Q Wed \<and> Q Thu \<and> Q Fri \<and> Q Sat \<and> Q Sun" for Q
    by (metis weekday.exhaust)
  show "(UNIV :: weekday set) = set enum_class.enum"
    unfolding set_eq_iff by (subst all) (simp add: enum_weekday_def)
  show "distinct (enum_class.enum :: weekday list)"
    by (simp add: enum_weekday_def)
  show "enum_class.enum_all Q \<longleftrightarrow> Ball UNIV Q" for Q :: "weekday \<Rightarrow> bool"
    by (simp add: enum_all_weekday_def all)
  show "enum_class.enum_ex Q \<longleftrightarrow> Bex UNIV Q" for Q :: "weekday \<Rightarrow> bool"
    using all [of "\<lambda>k. \<not> Q k"] by (auto simp: enum_ex_weekday_def)
qed

end

fun weekday_key :: "weekday \<Rightarrow> ustr" where
  "weekday_key Mon = u ''mon''"
| "weekday_key Tue = u ''tue''"
| "weekday_key Wed = u ''wed''"
| "weekday_key Thu = u ''thu''"
| "weekday_key Fri = u ''fri''"
| "weekday_key Sat = u ''sat''"
| "weekday_key Sun = u ''sun''"

record schedule =
  sch_tz :: ustr
  sch_paused :: bool
  sch_weekly :: "weekday \<Rightarrow> window list option"
  sch_overrides :: "(ustr \<times> window list) list option"
  sch_issuedAt :: rat

text \<open>\<open>/^([01]\d|2[0-3]):([0-5]\d)$/\<close>.\<close>

definition HHMM_RE :: "ustr \<Rightarrow> bool" where
  "HHMM_RE s = (case s of
     [a, b, c, d, e] \<Rightarrow> ((a = 48 \<or> a = 49) \<and> digit_unit b \<or> a = 50 \<and> 48 \<le> b \<and> b \<le> 51)
        \<and> c = 58 \<and> (48 \<le> d \<and> d \<le> 53) \<and> digit_unit e
   | _ \<Rightarrow> False)"

text \<open>\<open>/^\d{4}-\d{2}-\d{2}$/\<close>.\<close>

definition ISO_DATE_RE :: "ustr \<Rightarrow> bool" where
  "ISO_DATE_RE s \<longleftrightarrow> length s = 10 \<and> s ! 4 = 45 \<and> s ! 7 = 45
     \<and> list_all digit_unit (take 4 s) \<and> list_all digit_unit (take 2 (drop 5 s)) \<and> list_all digit_unit (drop 8 s)"

text \<open>\<open>"HH:MM"\<close> to minutes since midnight; the callers have validated the text.\<close>

definition hhmmToMinutes :: "ustr \<Rightarrow> nat" where
  "hhmmToMinutes s = (case split_on 58 s of h # m # _ \<Rightarrow> dec_val h * 60 + dec_val m | _ \<Rightarrow> 0)"

definition pad2 :: "nat \<Rightarrow> ustr" where
  "pad2 n = (if length (nat_text n) < 2 then 48 # nat_text n else nat_text n)"

definition minutesToHHMM :: "nat \<Rightarrow> ustr" where
  "minutesToHHMM m = pad2 (m div 60) @ 58 # pad2 (m mod 60)"

definition isoWeekdayToKey :: "nat \<Rightarrow> weekday" where
  "isoWeekdayToKey day = WEEKDAY_KEYS ! (day - 1)"

definition wf_window :: "window \<Rightarrow> bool" where
  "wf_window w \<longleftrightarrow> HHMM_RE (w_start w) \<and> HHMM_RE (w_end w) \<and> hhmmToMinutes (w_start w) < hhmmToMinutes (w_end w)"

definition in_window :: "nat \<Rightarrow> window \<Rightarrow> bool" where
  "in_window m w \<longleftrightarrow> hhmmToMinutes (w_start w) \<le> m \<and> m < hhmmToMinutes (w_end w)"

definition in_windows :: "nat \<Rightarrow> window list \<Rightarrow> bool" where
  "in_windows m ws \<longleftrightarrow> (\<exists>w \<in> set ws. in_window m w)"

lemma in_windows_simps [simp]:
  "in_windows m [] = False" "in_windows m (w # ws) = (in_window m w \<or> in_windows m ws)"
  "in_windows m (vs @ ws) = (in_windows m vs \<or> in_windows m ws)"
  by (auto simp: in_windows_def)

lemma pad2_digits: "n < 100 \<Longrightarrow> pad2 n = [48 + n div 10, 48 + n mod 10]"
  by (auto simp: pad2_def nat_text.simps [of n] nat_text.simps [of "n div 10"])

lemma dec_val_pad2: "dec_val (pad2 n) = n"
proof -
  have "dec_val (48 # s) = dec_val s" for s
    by (simp add: dec_val_def)
  then show ?thesis
    by (simp add: pad2_def)
qed

lemma pad2_no_colon: "58 \<notin> set (pad2 n)"
  using digits_no_colon [OF is_digits_nat_text [of n]] by (auto simp: pad2_def)

lemma hhmm_round [simp]: "hhmmToMinutes (minutesToHHMM m) = m"
proof -
  have "split_on 58 (minutesToHHMM m) = [pad2 (m div 60), pad2 (m mod 60)]"
    by (simp add: minutesToHHMM_def split_on_append pad2_no_colon split_on_single)
  then show ?thesis
    by (simp add: hhmmToMinutes_def dec_val_pad2)
qed

lemma HHMM_RE_minutes:
  assumes "m < 1440"
  shows "HHMM_RE (minutesToHHMM m)"
proof -
  have h: "m div 60 < 24" and d: "m mod 60 < 60"
    using assms by auto
  have "m div 60 div 10 \<le> 2" and "m mod 60 div 10 \<le> 5"
    using h d by auto
  moreover have "m div 60 mod 10 \<le> 3" if "m div 60 div 10 = 2"
    using that h div_mult_mod_eq [of "m div 60" 10] by linarith
  moreover have "m div 60 div 10 = 0 \<or> m div 60 div 10 = 1 \<or> m div 60 div 10 = 2"
    using h by auto
  ultimately show ?thesis
    using h d by (auto simp: HHMM_RE_def minutesToHHMM_def pad2_digits digit_unit_def)
qed

lemma HHMM_RE_bound: "HHMM_RE s \<Longrightarrow> hhmmToMinutes s < 1440"
  by (auto simp: HHMM_RE_def hhmmToMinutes_def digit_unit_def dec_val_def split: list.splits)

lemma wf_window_of:
  "s < e \<Longrightarrow> e < 1440 \<Longrightarrow> wf_window \<lparr>w_start = minutesToHHMM s, w_end = minutesToHHMM e\<rparr>"
  by (simp add: wf_window_def HHMM_RE_minutes)

section \<open>Intersecting two lists of windows\<close>

definition overlap :: "window \<Rightarrow> window \<Rightarrow> window list" where
  "overlap aw bw =
     (let start = max (hhmmToMinutes (w_start aw)) (hhmmToMinutes (w_start bw));
          finish = min (hhmmToMinutes (w_end aw)) (hhmmToMinutes (w_end bw))
      in if finish > start then [\<lparr>w_start = minutesToHHMM start, w_end = minutesToHHMM finish\<rparr>] else [])"

definition pairwise :: "window list \<Rightarrow> window list \<Rightarrow> window list" where
  "pairwise a b = concat (map (\<lambda>aw. concat (map (overlap aw) b)) a)"

definition mergeWindow :: "window list \<Rightarrow> window \<Rightarrow> window list" where
  "mergeWindow merged w =
     (if merged \<noteq> [] \<and> hhmmToMinutes (w_start w) \<le> hhmmToMinutes (w_end (last merged))
      then butlast merged @ [(last merged)\<lparr>w_end :=
             minutesToHHMM (max (hhmmToMinutes (w_end (last merged))) (hhmmToMinutes (w_end w)))\<rparr>]
      else merged @ [w])"

fun intersectWindowLists :: "window list option \<Rightarrow> window list option \<Rightarrow> window list" where
  "intersectWindowLists None None = []"
| "intersectWindowLists None (Some b) = b"
| "intersectWindowLists (Some a) None = a"
| "intersectWindowLists (Some a) (Some b) =
     foldl mergeWindow [] (sort_key (\<lambda>w. hhmmToMinutes (w_start w)) (pairwise a b))"

lemma overlap_in: "in_windows m (overlap aw bw) \<longleftrightarrow> in_window m aw \<and> in_window m bw"
  by (auto simp: overlap_def in_window_def Let_def)

lemma in_windows_concat: "in_windows m (concat (map f xs)) \<longleftrightarrow> (\<exists>x \<in> set xs. in_windows m (f x))"
  by (auto simp: in_windows_def)

lemma pairwise_in: "in_windows m (pairwise a b) \<longleftrightarrow> in_windows m a \<and> in_windows m b"
  unfolding pairwise_def in_windows_concat overlap_in by (auto simp: in_windows_def)

lemma overlap_wf: "wf_window aw \<Longrightarrow> w \<in> set (overlap aw bw) \<Longrightarrow> wf_window w"
  by (auto simp: overlap_def Let_def wf_window_def split: if_splits
    intro!: HHMM_RE_minutes dest: HHMM_RE_bound)

lemma pairwise_wf: "\<forall>w \<in> set a. wf_window w \<Longrightarrow> w \<in> set (pairwise a b) \<Longrightarrow> wf_window w"
  by (auto simp: pairwise_def intro: overlap_wf)

definition gaps :: "window list \<Rightarrow> bool" where
  "gaps ws \<longleftrightarrow> (\<forall>w \<in> set ws. wf_window w)
     \<and> sorted_wrt (\<lambda>v w. hhmmToMinutes (w_end v) < hhmmToMinutes (w_start w)) ws"

lemma mergeWindow_step:
  assumes g: "gaps merged" and w: "wf_window w"
    and later: "merged \<noteq> [] \<Longrightarrow> hhmmToMinutes (w_start (last merged)) \<le> hhmmToMinutes (w_start w)"
  shows "gaps (mergeWindow merged w)"
    and "in_windows m (mergeWindow merged w) \<longleftrightarrow> in_windows m merged \<or> in_window m w"
    and "hhmmToMinutes (w_start (last (mergeWindow merged w))) \<le> hhmmToMinutes (w_start w)"
proof -
  have "gaps (mergeWindow merged w)
      \<and> (in_windows m (mergeWindow merged w) \<longleftrightarrow> in_windows m merged \<or> in_window m w)
      \<and> hhmmToMinutes (w_start (last (mergeWindow merged w))) \<le> hhmmToMinutes (w_start w)"
  proof (cases merged rule: rev_cases)
    case Nil
    then show ?thesis
      using w by (simp add: mergeWindow_def gaps_def)
  next
    case (snoc vs v)
    have v: "wf_window v" and vs: "gaps vs"
      "\<forall>x \<in> set vs. hhmmToMinutes (w_end x) < hhmmToMinutes (w_start v)"
      using g snoc by (auto simp: gaps_def sorted_wrt_append)
    have le: "hhmmToMinutes (w_start v) \<le> hhmmToMinutes (w_start w)"
      using later snoc by simp
    show ?thesis
    proof (cases "hhmmToMinutes (w_start w) \<le> hhmmToMinutes (w_end v)")
      case True
      let ?e = "max (hhmmToMinutes (w_end v)) (hhmmToMinutes (w_end w))"
      have "?e < 1440" and "hhmmToMinutes (w_start v) < ?e"
        using v w by (auto simp: wf_window_def HHMM_RE_bound)
      then have "wf_window (v\<lparr>w_end := minutesToHHMM ?e\<rparr>)"
        using v by (simp add: wf_window_def HHMM_RE_minutes)
      moreover have "in_window m (v\<lparr>w_end := minutesToHHMM ?e\<rparr>) \<longleftrightarrow> in_window m v \<or> in_window m w"
        using True le v w by (auto simp: in_window_def wf_window_def)
      ultimately show ?thesis
        using True snoc vs le by (auto simp: mergeWindow_def gaps_def sorted_wrt_append)
    next
      case False
      then show ?thesis
        using snoc vs v w le
        by (fastforce simp: mergeWindow_def gaps_def sorted_wrt_append wf_window_def)
    qed
  qed
  then show "gaps (mergeWindow merged w)"
    and "in_windows m (mergeWindow merged w) \<longleftrightarrow> in_windows m merged \<or> in_window m w"
    and "hhmmToMinutes (w_start (last (mergeWindow merged w))) \<le> hhmmToMinutes (w_start w)"
    by blast+
qed

lemma mergeWindow_nonempty [simp]: "mergeWindow merged w \<noteq> []"
  by (simp add: mergeWindow_def)

lemma merge_all:
  assumes "gaps merged" and "\<forall>w \<in> set ws. wf_window w"
    and "sorted (map (\<lambda>w. hhmmToMinutes (w_start w)) ws)"
    and "\<And>w. merged \<noteq> [] \<Longrightarrow> w \<in> set ws \<Longrightarrow> hhmmToMinutes (w_start (last merged)) \<le> hhmmToMinutes (w_start w)"
  shows "gaps (foldl mergeWindow merged ws)
         \<and> (in_windows m (foldl mergeWindow merged ws) \<longleftrightarrow> in_windows m merged \<or> in_windows m ws)"
  using assms
proof (induction ws arbitrary: merged)
  case (Cons w ws)
  have w: "wf_window w" and later: "merged \<noteq> [] \<Longrightarrow> hhmmToMinutes (w_start (last merged)) \<le> hhmmToMinutes (w_start w)"
    using Cons.prems by auto
  note step = mergeWindow_step [OF Cons.prems(1) w later]
  have "hhmmToMinutes (w_start (last (mergeWindow merged w))) \<le> hhmmToMinutes (w_start x)" if "x \<in> set ws" for x
    using step(3) Cons.prems(3) that by fastforce
  then show ?case
    using Cons.IH [OF step(1)] Cons.prems(2,3) step(2) [of m] by auto
qed simp

lemma intersectWindowLists_both:
  assumes "\<forall>w \<in> set a. wf_window w" and "\<forall>w \<in> set b. wf_window w"
  shows "gaps (intersectWindowLists (Some a) (Some b))
         \<and> (in_windows m (intersectWindowLists (Some a) (Some b)) \<longleftrightarrow> in_windows m a \<and> in_windows m b)"
proof -
  let ?ws = "sort_key (\<lambda>w. hhmmToMinutes (w_start w)) (pairwise a b)"
  have "\<forall>w \<in> set ?ws. wf_window w"
    using pairwise_wf [OF assms(1)] by simp
  then have "gaps (foldl mergeWindow [] ?ws)
      \<and> (in_windows m (foldl mergeWindow [] ?ws) \<longleftrightarrow> in_windows m [] \<or> in_windows m ?ws)"
    by (intro merge_all) (auto simp: gaps_def)
  moreover have "in_windows m ?ws \<longleftrightarrow> in_windows m (pairwise a b)"
    by (simp add: in_windows_def)
  ultimately show ?thesis
    by (simp add: pairwise_in)
qed

section \<open>Calendar dates\<close>

text \<open>
  \<open>Date.UTC\<close> as the standard defines it (the month counted from zero and normalised, a year below
  100 taken as 19xx), the weekday of a date, and the split of \<open>YYYY-MM-DD\<close>.
\<close>

definition day_from_year :: "int \<Rightarrow> int" where
  "day_from_year y = 365 * (y - 1970) + (y - 1969) div 4 - (y - 1901) div 100 + (y - 1601) div 400"

definition leap_year :: "int \<Rightarrow> bool" where
  "leap_year y \<longleftrightarrow> y mod 4 = 0 \<and> (y mod 100 \<noteq> 0 \<or> y mod 400 = 0)"

definition days_before :: "int \<Rightarrow> nat \<Rightarrow> int" where
  "days_before y mn = [0, 31, 59, 90, 120, 151, 181, 212, 243, 273, 304, 334] ! mn
     + (if leap_year y \<and> mn \<ge> 2 then 1 else 0)"

definition utc_day :: "int \<Rightarrow> int \<Rightarrow> int \<Rightarrow> int" where
  "utc_day y m d =
     (let full = (if 0 \<le> y \<and> y \<le> 99 then 1900 + y else y); ym = full + m div 12; mn = nat (m mod 12)
      in day_from_year ym + days_before ym mn + d - 1)"

definition utc_ms :: "int \<Rightarrow> int \<Rightarrow> int \<Rightarrow> nat \<Rightarrow> nat \<Rightarrow> rat" where
  "utc_ms y m d hh mi = of_int ((utc_day y m d * 1440 + int (hh * 60 + mi)) * 60000)"

text \<open>\<open>getUTCDay\<close>: the epoch was a Thursday, Sunday is 0.\<close>

definition utc_weekday :: "int \<Rightarrow> nat" where
  "utc_weekday day = nat ((4 + day) mod 7)"

definition date_parts :: "ustr \<Rightarrow> nat \<times> nat \<times> nat" where
  "date_parts s = (case split_on 45 s of y # m # d # _ \<Rightarrow> (dec_val y, dec_val m, dec_val d) | _ \<Rightarrow> (0, 0, 0))"

text \<open>
  Whether the three getters of \<open>new Date(Date.UTC(yy, mm - 1, dd))\<close> give back what went in: they do
  exactly for a calendar date, and never for a year that is read as 19xx.
\<close>

definition days_in_month :: "nat \<Rightarrow> nat \<Rightarrow> nat" where
  "days_in_month y m = (if m = 2 then (if leap_year (int y) then 29 else 28)
     else if m \<in> {4, 6, 9, 11} then 30 else 31)"

definition real_date :: "nat \<times> nat \<times> nat \<Rightarrow> bool" where
  "real_date = (\<lambda>(y, m, d). 100 \<le> y \<and> 1 \<le> m \<and> m \<le> 12 \<and> 1 \<le> d \<and> d \<le> days_in_month y m)"

definition parseIsoDateInTz :: "ustr \<Rightarrow> ustr \<Rightarrow> nat option" where
  "parseIsoDateInTz d tz =
     (if \<not> ISO_DATE_RE d then None
      else case date_parts d of (yy, mm, dd) \<Rightarrow>
        let day = utc_weekday (utc_day (int yy) (int mm - 1) (int dd))
        in Some (if day = 0 then 7 else day))"

section \<open>The time check\<close>

text \<open>What \<open>formatToParts\<close> prints, each part read by \<open>Number\<close>; \<open>None\<close> is the \<open>RangeError\<close>.\<close>

record tz_parts =
  p_year :: nat
  p_month :: nat
  p_day :: nat
  p_hour :: nat
  p_minute :: nat
  p_weekday :: ustr

type_synonym tz_clock = "ustr \<Rightarrow> rat \<Rightarrow> tz_parts option"

record tz_time =
  t_weekday :: nat
  t_isoDate :: ustr
  t_minutes :: nat

definition weekday_number :: "ustr \<Rightarrow> nat" where
  "weekday_number wk =
     (if wk = u ''Mon'' then 1 else if wk = u ''Tue'' then 2 else if wk = u ''Wed'' then 3
      else if wk = u ''Thu'' then 4 else if wk = u ''Fri'' then 5 else if wk = u ''Sat'' then 6
      else if wk = u ''Sun'' then 7 else 1)"

definition extractInTz :: "tz_clock \<Rightarrow> rat \<Rightarrow> ustr \<Rightarrow> tz_time option" where
  "extractInTz C now tz = map_option (\<lambda>p.
     let hh = (if p_hour p = 24 then 0 else p_hour p)
     in \<lparr>t_weekday = weekday_number (p_weekday p),
         t_isoDate = nat_text (p_year p) @ 45 # pad2 (p_month p) @ 45 # pad2 (p_day p),
         t_minutes = hh * 60 + p_minute p\<rparr>) (C tz now)"

definition override_of :: "schedule \<Rightarrow> ustr \<Rightarrow> window list option" where
  "override_of s isoDate = Option.bind (sch_overrides s) (\<lambda>o'. map_of o' isoDate)"

definition resolveDayWindows :: "schedule \<Rightarrow> ustr \<Rightarrow> nat \<Rightarrow> window list" where
  "resolveDayWindows s isoDate weekday =
     (case override_of s isoDate of
        Some ov \<Rightarrow> ov
      | None \<Rightarrow> (case sch_weekly s (isoWeekdayToKey weekday) of Some ws \<Rightarrow> ws | None \<Rightarrow> []))"

text \<open>The outer option is the exception of \<open>extractInTz\<close>, the inner one the code's \<open>undefined\<close>.\<close>

definition absoluteDateFromTzClock :: "tz_clock \<Rightarrow> rat \<Rightarrow> ustr \<Rightarrow> nat \<Rightarrow> rat option option" where
  "absoluteDateFromTzClock C probe tz minutesOfDay =
     Option.bind (extractInTz C probe tz) (\<lambda>e.
       case date_parts (t_isoDate e) of (yy, mm, dd) \<Rightarrow>
       let hh = minutesOfDay div 60; mi = minutesOfDay mod 60;
           utcGuess = utc_ms (int yy) (int mm - 1) (int dd) hh mi
       in Option.bind (extractInTz C utcGuess tz) (\<lambda>partsAtGuess.
          let targetMinutes = hh * 60 + mi;
              offsetMin = int (t_minutes partsAtGuess) - int targetMinutes;
              candidate = utcGuess - of_int offsetMin * 60 * 1000
          in Option.bind (extractInTz C candidate tz) (\<lambda>verify.
             Some (if t_isoDate verify = t_isoDate e \<and> t_minutes verify = targetMinutes
                   then Some candidate else None))))"

fun firstStart :: "tz_clock \<Rightarrow> schedule \<Rightarrow> rat \<Rightarrow> rat \<Rightarrow> nat \<Rightarrow> nat \<Rightarrow> window list \<Rightarrow> rat option option" where
  "firstStart C s now probe dayOffset minutesOfDay [] = Some None"
| "firstStart C s now probe dayOffset minutesOfDay (w # ws) =
     (let startMin = hhmmToMinutes (w_start w) in
      if dayOffset = 0 \<and> startMin \<le> minutesOfDay then firstStart C s now probe dayOffset minutesOfDay ws
      else Option.bind (absoluteDateFromTzClock C probe (sch_tz s) startMin) (\<lambda>start.
        case start of
          Some t \<Rightarrow> if t > now then Some (Some t) else firstStart C s now probe dayOffset minutesOfDay ws
        | None \<Rightarrow> firstStart C s now probe dayOffset minutesOfDay ws))"

fun scanDays :: "tz_clock \<Rightarrow> schedule \<Rightarrow> rat \<Rightarrow> nat list \<Rightarrow> rat option option" where
  "scanDays C s now [] = Some None"
| "scanDays C s now (dayOffset # days) =
     (let probe = now + of_nat dayOffset * 24 * 60 * 60 * 1000 in
      Option.bind (extractInTz C probe (sch_tz s)) (\<lambda>e.
        let windows = resolveDayWindows s (t_isoDate e) (t_weekday e) in
        Option.bind (firstStart C s now probe dayOffset (t_minutes e)
            (sort_key (\<lambda>w. hhmmToMinutes (w_start w)) windows)) (\<lambda>r.
          case r of Some t \<Rightarrow> Some (Some t) | None \<Rightarrow> scanDays C s now days)))"

definition findNextAllowedAt :: "tz_clock \<Rightarrow> schedule \<Rightarrow> rat \<Rightarrow> nat \<Rightarrow> rat option option" where
  "findNextAllowedAt C s now horizonDays = scanDays C s now [0..<Suc horizonDays]"

datatype within_result = Allowed | Denied "rat option"

definition isWithinSchedule :: "tz_clock \<Rightarrow> schedule \<Rightarrow> rat \<Rightarrow> nat \<Rightarrow> within_result option" where
  "isWithinSchedule C s now horizonDays =
     (if sch_paused s then Some (Denied None)
      else Option.bind (extractInTz C now (sch_tz s)) (\<lambda>e.
        if \<exists>w \<in> set (resolveDayWindows s (t_isoDate e) (t_weekday e)). in_window (t_minutes e) w
        then Some Allowed
        else map_option Denied (findNextAllowedAt C s now horizonDays)))"

definition wf_schedule :: "schedule \<Rightarrow> bool" where
  "wf_schedule s \<longleftrightarrow>
     (\<forall>k ws w. sch_weekly s k = Some ws \<longrightarrow> w \<in> set ws \<longrightarrow> wf_window w)
     \<and> (\<forall>d ws w. override_of s d = Some ws \<longrightarrow> w \<in> set ws \<longrightarrow> wf_window w)"

lemma resolveDayWindows_wf: "wf_schedule s \<Longrightarrow> w \<in> set (resolveDayWindows s d k) \<Longrightarrow> wf_window w"
  by (cases "override_of s d"; cases "sch_weekly s (isoWeekdayToKey k)")
    (auto simp: resolveDayWindows_def wf_schedule_def)

lemma absoluteDate_verified:
  assumes "absoluteDateFromTzClock C probe tz m = Some (Some t)" and "extractInTz C probe tz = Some e"
  shows "\<exists>v. extractInTz C t tz = Some v \<and> t_isoDate v = t_isoDate e \<and> t_minutes v = m"
  using assms(1)
  unfolding absoluteDateFromTzClock_def assms(2) Let_def div_mult_mod_eq
  by (auto simp: bind_eq_Some_conv split: if_splits prod.splits)

lemma firstStart_sound:
  "firstStart C s now probe k m ws = Some (Some t) \<Longrightarrow>
   now < t \<and> (\<exists>w \<in> set ws. absoluteDateFromTzClock C probe (sch_tz s) (hhmmToMinutes (w_start w)) = Some (Some t))"
  by (induction ws) (auto simp: Let_def bind_eq_Some_conv split: if_splits option.splits)

lemma scanDays_sound:
  assumes "scanDays C s now ks = Some (Some t)" and "wf_schedule s"
    and day: "\<And>x y a b. extractInTz C x (sch_tz s) = Some a \<Longrightarrow> extractInTz C y (sch_tz s) = Some b \<Longrightarrow>
      t_isoDate a = t_isoDate b \<Longrightarrow> t_weekday a = t_weekday b"
  shows "now < t \<and> (\<exists>e. extractInTz C t (sch_tz s) = Some e \<and>
    in_windows (t_minutes e) (resolveDayWindows s (t_isoDate e) (t_weekday e)))"
  using assms(1)
proof (induction ks)
  case (Cons k ks)
  let ?probe = "now + of_nat k * 24 * 60 * 60 * 1000"
  obtain e where e: "extractInTz C ?probe (sch_tz s) = Some e"
    using Cons.prems by (auto simp: Let_def bind_eq_Some_conv)
  let ?ws = "resolveDayWindows s (t_isoDate e) (t_weekday e)"
  obtain r where r: "firstStart C s now ?probe k (t_minutes e) (sort_key (\<lambda>w. hhmmToMinutes (w_start w)) ?ws) = Some r"
    using Cons.prems e by (auto simp: Let_def bind_eq_Some_conv)
  show ?case
  proof (cases r)
    case None
    then show ?thesis
      using Cons e r by (simp add: Let_def)
  next
    case (Some t')
    then have "t' = t"
      using Cons.prems e r by (simp add: Let_def)
    with Some r obtain w where w: "now < t" "w \<in> set ?ws"
        "absoluteDateFromTzClock C ?probe (sch_tz s) (hhmmToMinutes (w_start w)) = Some (Some t)"
      using firstStart_sound [OF r [unfolded Some]] by auto
    obtain v where v: "extractInTz C t (sch_tz s) = Some v" "t_isoDate v = t_isoDate e"
        "t_minutes v = hhmmToMinutes (w_start w)"
      using absoluteDate_verified [OF w(3) e] by blast
    have "in_window (t_minutes v) w"
      using resolveDayWindows_wf [OF assms(2) w(2)] v(3) by (simp add: in_window_def wf_window_def)
    then have "in_windows (t_minutes v) (resolveDayWindows s (t_isoDate v) (t_weekday v))"
      using day [OF v(1) e v(2)] v(2) w(2) by (auto simp: in_windows_def)
    then show ?thesis
      using w(1) v(1) by blast
  qed
qed simp

lemma isWithinSchedule_allowed:
  "isWithinSchedule C s now h = Some Allowed \<longleftrightarrow>
   \<not> sch_paused s \<and> (\<exists>e. extractInTz C now (sch_tz s) = Some e \<and>
     in_windows (t_minutes e) (resolveDayWindows s (t_isoDate e) (t_weekday e)))"
  by (auto simp: isWithinSchedule_def in_windows_def bind_eq_Some_conv split: if_splits)

lemma isWithinSchedule_next:
  assumes "isWithinSchedule C s now h = Some (Denied (Some t))" and "wf_schedule s"
    and "\<And>x y a b. extractInTz C x (sch_tz s) = Some a \<Longrightarrow> extractInTz C y (sch_tz s) = Some b \<Longrightarrow>
      t_isoDate a = t_isoDate b \<Longrightarrow> t_weekday a = t_weekday b"
  shows "now < t \<and> isWithinSchedule C s t h' = Some Allowed"
proof -
  have p: "\<not> sch_paused s" and "findNextAllowedAt C s now h = Some (Some t)"
    using assms(1) by (auto simp: isWithinSchedule_def bind_eq_Some_conv split: if_splits)
  then show ?thesis
    using scanDays_sound [OF _ assms(2,3)] p
    by (auto simp: findNextAllowedAt_def isWithinSchedule_allowed)
qed

section \<open>Intersecting two schedules\<close>

definition override_keys :: "schedule \<Rightarrow> ustr list" where
  "override_keys s = (case sch_overrides s of None \<Rightarrow> [] | Some o' \<Rightarrow> map fst o')"

definition merged_overrides :: "schedule \<Rightarrow> schedule \<Rightarrow> ustr \<Rightarrow> (ustr \<times> window list) list" where
  "merged_overrides a b tz =
     map (\<lambda>date.
       let weekdayKey = (case parseIsoDateInTz date tz of Some day \<Rightarrow> isoWeekdayToKey day | None \<Rightarrow> Mon);
           aResolved = (case override_of a date of Some ws \<Rightarrow> Some ws | None \<Rightarrow> sch_weekly a weekdayKey);
           bResolved = (case override_of b date of Some ws \<Rightarrow> Some ws | None \<Rightarrow> sch_weekly b weekdayKey)
       in (date, intersectWindowLists aResolved bResolved))
     (uniq (override_keys a @ override_keys b))"

fun intersectSchedules :: "schedule option \<Rightarrow> schedule option \<Rightarrow> schedule option" where
  "intersectSchedules None None = None"
| "intersectSchedules None (Some b) = Some b"
| "intersectSchedules (Some a) None = Some a"
| "intersectSchedules (Some a) (Some b) =
     (if sch_paused a \<or> sch_paused b
      then Some \<lparr>sch_tz = (if sch_paused a then sch_tz a else sch_tz b), sch_paused = True,
                 sch_weekly = (\<lambda>k. None), sch_overrides = None,
                 sch_issuedAt = max (sch_issuedAt a) (sch_issuedAt b)\<rparr>
      else
        (let overrides = merged_overrides a b (sch_tz a)
         in Some \<lparr>sch_tz = sch_tz a, sch_paused = False,
                  sch_weekly = (\<lambda>k. case intersectWindowLists (sch_weekly a k) (sch_weekly b k) of
                     [] \<Rightarrow> None | w # ws \<Rightarrow> Some (w # ws)),
                  sch_overrides = (if overrides = [] then None else Some overrides),
                  sch_issuedAt = max (sch_issuedAt a) (sch_issuedAt b)\<rparr>))"

lemma override_of_keys: "override_of s d = None \<longleftrightarrow> d \<notin> set (override_keys s)"
  by (cases "sch_overrides s") (auto simp: override_of_def override_keys_def map_of_eq_None_iff)

lemma map_of_keyed: "map_of (map (\<lambda>d. (d, f d)) ds) d = (if d \<in> set ds then Some (f d) else None)"
  by (induction ds) auto

text \<open>What a schedule lists for a day: the override, else the weekly entry, else nothing said.\<close>

definition listed :: "schedule \<Rightarrow> ustr \<Rightarrow> nat \<Rightarrow> window list option" where
  "listed s isoDate weekday =
     (case override_of s isoDate of Some ov \<Rightarrow> Some ov | None \<Rightarrow> sch_weekly s (isoWeekdayToKey weekday))"

lemma resolve_listed: "resolveDayWindows s d k = (case listed s d k of Some ws \<Rightarrow> ws | None \<Rightarrow> [])"
  by (auto simp: resolveDayWindows_def listed_def split: option.splits)

lemma intersect_day:
  assumes "intersectSchedules (Some a) (Some b) = Some c" "\<not> sch_paused a" "\<not> sch_paused b"
    and "parseIsoDateInTz d (sch_tz a) = Some k"
  shows "resolveDayWindows c d k = intersectWindowLists (listed a d k) (listed b d k)"
proof (cases "d \<in> set (override_keys a) \<union> set (override_keys b)")
  case True
  then have "uniq (override_keys a @ override_keys b) \<noteq> []"
    by (metis Un_iff empty_iff list.set(1) set_append set_uniq)
  then have "sch_overrides c = Some (merged_overrides a b (sch_tz a))"
    using assms(1-3) by (auto simp: merged_overrides_def Let_def)
  then have "override_of c d = map_of (merged_overrides a b (sch_tz a)) d"
    by (simp add: override_of_def)
  then have "override_of c d = Some (intersectWindowLists (listed a d k) (listed b d k))"
    using True assms(4)
    by (simp add: merged_overrides_def Let_def map_of_keyed listed_def cong: option.case_cong)
  then show ?thesis
    by (simp add: resolveDayWindows_def)
next
  case False
  then have "override_of c d = None"
    using assms(1-3) by (auto simp: Let_def override_of_def merged_overrides_def map_of_keyed)
  moreover have "override_of a d = None" "override_of b d = None"
    using False by (simp_all add: override_of_keys)
  moreover have "sch_weekly c = (\<lambda>k. case intersectWindowLists (sch_weekly a k) (sch_weekly b k) of
      [] \<Rightarrow> None | w # ws \<Rightarrow> Some (w # ws))"
    using assms(1-3) by (auto simp: Let_def)
  ultimately show ?thesis
    by (auto simp: resolveDayWindows_def listed_def split: list.splits)
qed

lemma listed_wf: "wf_schedule s \<Longrightarrow> listed s d k = Some ws \<Longrightarrow> \<forall>w \<in> set ws. wf_window w"
  by (cases "override_of s d") (auto simp: listed_def wf_schedule_def)

lemma intersectSchedules_both:
  assumes "intersectSchedules (Some a) (Some b) = Some c" "wf_schedule a" "wf_schedule b"
    and "sch_tz b = sch_tz a"
    and "\<And>e. extractInTz C now (sch_tz a) = Some e \<Longrightarrow>
      parseIsoDateInTz (t_isoDate e) (sch_tz a) = Some (t_weekday e)
      \<and> listed a (t_isoDate e) (t_weekday e) \<noteq> None \<and> listed b (t_isoDate e) (t_weekday e) \<noteq> None"
  shows "isWithinSchedule C c now h = Some Allowed \<longleftrightarrow>
         isWithinSchedule C a now h = Some Allowed \<and> isWithinSchedule C b now h = Some Allowed"
proof (cases "sch_paused a \<or> sch_paused b")
  case True
  then have "sch_paused c"
    using assms(1) by (auto split: if_splits)
  with True show ?thesis
    by (auto simp: isWithinSchedule_allowed)
next
  case False
  then have c: "sch_tz c = sch_tz a" "\<not> sch_paused c"
    using assms(1) by (auto simp: Let_def)
  show ?thesis
  proof (cases "extractInTz C now (sch_tz a)")
    case None
    then show ?thesis
      using c assms(4) by (simp add: isWithinSchedule_allowed)
  next
    case (Some e)
    let ?d = "t_isoDate e" and ?k = "t_weekday e"
    obtain wa wb where ab: "listed a ?d ?k = Some wa" "listed b ?d ?k = Some wb"
        and k: "parseIsoDateInTz ?d (sch_tz a) = Some ?k"
      using assms(5) [OF Some] by auto
    have "resolveDayWindows c ?d ?k = intersectWindowLists (Some wa) (Some wb)"
      using intersect_day [OF assms(1) _ _ k] False ab by simp
    moreover have "resolveDayWindows a ?d ?k = wa" "resolveDayWindows b ?d ?k = wb"
      using ab by (simp_all add: resolve_listed)
    moreover have "in_windows m (intersectWindowLists (Some wa) (Some wb)) \<longleftrightarrow> in_windows m wa \<and> in_windows m wb" for m
      using intersectWindowLists_both listed_wf [OF assms(2) ab(1)] listed_wf [OF assms(3) ab(2)] by blast
    ultimately show ?thesis
      using Some False c assms(4) by (simp add: isWithinSchedule_allowed del: intersectWindowLists.simps)
  qed
qed

section \<open>Validation\<close>

datatype window_path = Weekly_at weekday nat | Override_at ustr nat

datatype schedule_error =
    Not_an_object | Unsupported_version | Tz_not_text | Tz_unknown | IssuedAt_not_positive
  | Weekly_not_object | Weekday_not_array weekday
  | Overrides_not_object | Override_key_not_iso ustr | Override_key_not_date ustr | Override_not_array ustr
  | Paused_not_boolean
  | Window_not_object window_path | Window_start_not_hhmm window_path | Window_end_not_hhmm window_path
  | Window_end_not_after_start window_path

definition validateWindow :: "jsval \<Rightarrow> window_path \<Rightarrow> schedule_error option" where
  "validateWindow w path =
     (if \<not> is_object_type w then Some (Window_not_object path)
      else case fld w (u ''start'') of
        JStr s \<Rightarrow>
          if \<not> HHMM_RE s then Some (Window_start_not_hhmm path)
          else (case fld w (u ''end'') of
            JStr e \<Rightarrow>
              if \<not> HHMM_RE e then Some (Window_end_not_hhmm path)
              else if hhmmToMinutes e \<le> hhmmToMinutes s then Some (Window_end_not_after_start path)
              else None
          | _ \<Rightarrow> Some (Window_end_not_hhmm path))
      | _ \<Rightarrow> Some (Window_start_not_hhmm path))"

text \<open>\<open>throw\<close> on the first violation: the first element of a list that fails decides.\<close>

fun first_error :: "('a \<Rightarrow> 'e option) \<Rightarrow> 'a list \<Rightarrow> 'e option" where
  "first_error f [] = None"
| "first_error f (x # xs) = (case f x of Some e \<Rightarrow> Some e | None \<Rightarrow> first_error f xs)"

definition or_error :: "'e option \<Rightarrow> 'e option \<Rightarrow> 'e option" where
  "or_error a b = (case a of Some e \<Rightarrow> Some e | None \<Rightarrow> b)"

definition validateWeekday :: "jsval \<Rightarrow> weekday \<Rightarrow> schedule_error option" where
  "validateWeekday weekly key =
     (case fld weekly (weekday_key key) of
        JUndef \<Rightarrow> None
      | JArr ws \<Rightarrow> first_error (\<lambda>(i, w). validateWindow w (Weekly_at key i)) (enumerate 0 ws)
      | _ \<Rightarrow> Some (Weekday_not_array key))"

definition validateOverride :: "ustr \<times> jsval \<Rightarrow> schedule_error option" where
  "validateOverride = (\<lambda>(date, windows).
     if \<not> ISO_DATE_RE date then Some (Override_key_not_iso date)
     else if \<not> real_date (date_parts date) then Some (Override_key_not_date date)
     else case windows of
       JArr ws \<Rightarrow> first_error (\<lambda>(i, w). validateWindow w (Override_at date i)) (enumerate 0 ws)
     | _ \<Rightarrow> Some (Override_not_array date))"

text \<open>\<open>Object.entries\<close>: an array has its indices for keys.\<close>

fun js_entries :: "jsval \<Rightarrow> (ustr \<times> jsval) list" where
  "js_entries (JObj ps) = ps"
| "js_entries (JArr vs) = map (\<lambda>(i, v). (nat_text i, v)) (enumerate 0 vs)"
| "js_entries _ = []"

definition validateSchedule :: "tz_clock \<Rightarrow> jsval \<Rightarrow> schedule_error option" where
  "validateSchedule C s =
     (if \<not> is_object_type s then Some Not_an_object
      else if fld s (u ''v'') \<noteq> JNum (Fin 1) then Some Unsupported_version
      else if \<not> is_str (fld s (u ''tz'')) (\<lambda>t. t \<noteq> []) then Some Tz_not_text
      else if \<not> is_str (fld s (u ''tz'')) (\<lambda>t. C t 0 \<noteq> None) then Some Tz_unknown
      else if \<not> fin_num (fld s (u ''issuedAt'')) (\<lambda>n. n > 0) then Some IssuedAt_not_positive
      else if \<not> is_object_type (fld s (u ''weekly'')) then Some Weekly_not_object
      else or_error (first_error (validateWeekday (fld s (u ''weekly''))) WEEKDAY_KEYS)
       (or_error (if fld s (u ''overrides'') = JUndef then None
                  else if \<not> is_object_type (fld s (u ''overrides'')) then Some Overrides_not_object
                  else first_error validateOverride (js_entries (fld s (u ''overrides''))))
        (if fld s (u ''paused'') \<noteq> JUndef \<and> \<not> is_bool (fld s (u ''paused'')) then Some Paused_not_boolean
         else None)))"

text \<open>The value a validated schedule is used as.\<close>

definition text_of :: "jsval \<Rightarrow> ustr" where
  "text_of v = (case v of JStr s \<Rightarrow> s | _ \<Rightarrow> [])"

definition as_window :: "jsval \<Rightarrow> window" where
  "as_window v = \<lparr>w_start = text_of (fld v (u ''start'')), w_end = text_of (fld v (u ''end''))\<rparr>"

definition as_windows :: "jsval \<Rightarrow> window list option" where
  "as_windows v = (case v of JArr ws \<Rightarrow> Some (map as_window ws) | _ \<Rightarrow> None)"

definition as_schedule :: "jsval \<Rightarrow> schedule" where
  "as_schedule s =
     \<lparr>sch_tz = text_of (fld s (u ''tz'')),
      sch_paused = (fld s (u ''paused'') = JBool True),
      sch_weekly = (\<lambda>k. as_windows (fld (fld s (u ''weekly'')) (weekday_key k))),
      sch_overrides = (if fld s (u ''overrides'') = JUndef then None
        else Some (map (\<lambda>(d, ws). (d, case as_windows ws of Some l \<Rightarrow> l | None \<Rightarrow> [])) (js_entries (fld s (u ''overrides''))))),
      sch_issuedAt = (case fld s (u ''issuedAt'') of JNum (Fin r) \<Rightarrow> r | _ \<Rightarrow> 0)\<rparr>"

lemma or_error_None [simp]: "or_error a b = None \<longleftrightarrow> a = None \<and> b = None"
  by (auto simp: or_error_def split: option.splits)

lemma first_error_None: "first_error f xs = None \<longleftrightarrow> (\<forall>x \<in> set xs. f x = None)"
  by (induction xs) (auto split: option.splits)

lemma validateWindow_wf: "validateWindow w path = None \<Longrightarrow> wf_window (as_window w)"
  by (auto simp: validateWindow_def wf_window_def as_window_def text_of_def
      split: if_splits jsval.splits)

lemma first_error_windows:
  assumes "first_error (\<lambda>(i, w). validateWindow w (p i)) (enumerate 0 ws) = None"
  shows "\<forall>w \<in> set (map as_window ws). wf_window w"
proof
  fix w
  assume "w \<in> set (map as_window ws)"
  then obtain i where i: "i < length ws" "w = as_window (ws ! i)"
    by (auto simp: in_set_conv_nth)
  then have "(i, ws ! i) \<in> set (enumerate 0 ws)"
    by (simp add: in_set_enumerate_eq)
  then have "validateWindow (ws ! i) (p i) = None"
    using assms by (auto simp: first_error_None)
  then show "wf_window w"
    using i validateWindow_wf by simp
qed

lemma validateSchedule_wf:
  assumes ok: "validateSchedule C v = None"
  shows "wf_schedule (as_schedule v)"
proof -
  have wk: "\<forall>k \<in> set WEEKDAY_KEYS. validateWeekday (fld v (u ''weekly'')) k = None"
    and ov: "fld v (u ''overrides'') \<noteq> JUndef \<Longrightarrow> \<forall>p \<in> set (js_entries (fld v (u ''overrides''))). validateOverride p = None"
    using ok by (auto simp: validateSchedule_def first_error_None split: if_splits)
  have k: "k \<in> set WEEKDAY_KEYS" for k
    by (cases k) (simp_all add: WEEKDAY_KEYS_def)
  have "wf_window w" if s: "sch_weekly (as_schedule v) k = Some ws" and w: "w \<in> set ws" for k ws w
  proof -
    obtain l where l: "fld (fld v (u ''weekly'')) (weekday_key k) = JArr l" "ws = map as_window l"
      using s by (auto simp: as_schedule_def as_windows_def split: jsval.splits)
    then have "first_error (\<lambda>(i, w). validateWindow w (Weekly_at k i)) (enumerate 0 l) = None"
      using wk k [of k] by (auto simp: validateWeekday_def)
    then show ?thesis
      using first_error_windows l(2) w by blast
  qed
  moreover have "wf_window w" if o: "override_of (as_schedule v) d = Some ws" and w: "w \<in> set ws" for d ws w
  proof -
    have def: "fld v (u ''overrides'') \<noteq> JUndef"
      using o by (auto simp: override_of_def as_schedule_def split: if_splits)
    obtain x where x: "(d, x) \<in> set (js_entries (fld v (u ''overrides'')))"
        "ws = (case as_windows x of Some l \<Rightarrow> l | None \<Rightarrow> [])"
      using o def by (auto simp: override_of_def as_schedule_def dest!: map_of_SomeD)
    then obtain l where l: "x = JArr l" "ws = map as_window l"
      using w by (auto simp: as_windows_def split: jsval.splits)
    have "validateOverride (d, x) = None"
      using ov [OF def] x(1) by blast
    then have "first_error (\<lambda>(i, w). validateWindow w (Override_at d i)) (enumerate 0 l) = None"
      using l(1) by (auto simp: validateOverride_def split: if_splits)
    then show ?thesis
      using first_error_windows l(2) w by blast
  qed
  ultimately show ?thesis
    by (auto simp: wf_schedule_def)
qed

section \<open>What the schedules promise\<close>

text \<open>A zone whose clock runs through January 1970, and three schedules in it.\<close>

definition sample_clock :: tz_clock where
  "sample_clock tz t =
     (let m = \<lfloor>t / 60000\<rfloor>; d = nat (m div 1440); r = nat (m mod 1440) in
      if tz = u ''UTC'' \<and> 0 \<le> m \<and> d < 28
      then Some \<lparr>p_year = 1970, p_month = 1, p_day = d + 1, p_hour = r div 60, p_minute = r mod 60,
                 p_weekday = [u ''Thu'', u ''Fri'', u ''Sat'', u ''Sun'', u ''Mon'', u ''Tue'', u ''Wed''] ! (d mod 7)\<rparr>
      else None)"

definition window_value :: "string \<Rightarrow> string \<Rightarrow> jsval" where
  "window_value a b = JObj [(u ''start'', JStr (u a)), (u ''end'', JStr (u b))]"

definition schedule_value :: "(ustr \<times> jsval) list \<Rightarrow> jsval" where
  "schedule_value weekly = JObj [(u ''v'', JNum (Fin 1)), (u ''tz'', JStr (u ''UTC'')),
     (u ''weekly'', JObj weekly), (u ''issuedAt'', JNum (Fin 1700000000))]"

definition friday_value :: jsval where
  "friday_value = schedule_value [(u ''fri'', JArr [window_value ''10:00'' ''11:30''])]"

definition thursday_value :: jsval where
  "thursday_value = schedule_value [(u ''thu'', JArr [window_value ''00:02'' ''00:05'', window_value ''14:00'' ''18:00''])]"

definition thursday_wide_value :: jsval where
  "thursday_wide_value = schedule_value [(u ''thu'', JArr [window_value ''00:01'' ''15:00''])]"

lemma sample_clock_day:
  assumes "extractInTz sample_clock x tz = Some a" and "extractInTz sample_clock y tz = Some b"
    and "t_isoDate a = t_isoDate b"
  shows "t_weekday a = t_weekday b"
proof -
  have "t_weekday c = weekday_number ([u ''Thu'', u ''Fri'', u ''Sat'', u ''Sun'', u ''Mon'', u ''Tue'', u ''Wed''] ! (nat (\<lfloor>z / 60000\<rfloor> div 1440) mod 7))
      \<and> t_isoDate c = nat_text 1970 @ 45 # pad2 1 @ 45 # pad2 (nat (\<lfloor>z / 60000\<rfloor> div 1440) + 1)"
    if "extractInTz sample_clock z tz = Some c" for z c
    using that by (auto simp: extractInTz_def sample_clock_def Let_def split: if_splits)
  note reading = this
  note a = reading [OF assms(1)] and b = reading [OF assms(2)]
  have "pad2 (nat (\<lfloor>x / 60000\<rfloor> div 1440) + 1) = pad2 (nat (\<lfloor>y / 60000\<rfloor> div 1440) + 1)"
    using a b assms(3) by simp
  then have "nat (\<lfloor>x / 60000\<rfloor> div 1440) + 1 = nat (\<lfloor>y / 60000\<rfloor> div 1440) + 1"
    by (metis dec_val_pad2)
  then show ?thesis
    using a b by simp
qed

lemma sample_text: "nat_text 1970 = [49, 57, 55, 48]"
  by (simp add: nat_text.simps [of "_ :: nat"])

lemma sample_at0: "extractInTz sample_clock 60000 (u ''UTC'') = Some \<lparr>t_weekday = 4, t_isoDate = u ''1970-01-01'', t_minutes = 1\<rparr>"
  "extractInTz sample_clock 120000 (u ''UTC'') = Some \<lparr>t_weekday = 4, t_isoDate = u ''1970-01-01'', t_minutes = 2\<rparr>"
  "extractInTz sample_clock 180000 (u ''UTC'') = Some \<lparr>t_weekday = 4, t_isoDate = u ''1970-01-01'', t_minutes = 3\<rparr>"
  by (simp_all add: extractInTz_def sample_clock_def weekday_number_def sample_text pad2_digits u_def [of "''1970-01-01''"])

lemma sample_date: "date_parts (u ''1970-01-01'') = (1970, 1, 1)"
  by (simp add: date_parts_def u_def dec_val_def)

lemma sample_minutes: "hhmmToMinutes (u ''00:02'') = 2" "hhmmToMinutes (u ''00:05'') = 5"
  "hhmmToMinutes (u ''14:00'') = 840" "hhmmToMinutes (u ''18:00'') = 1080" 
  "hhmmToMinutes (u ''00:01'') = 1" "hhmmToMinutes (u ''15:00'') = 900" 
  "hhmmToMinutes (u ''10:00'') = 600" "hhmmToMinutes (u ''11:30'') = 690" 
  by (simp_all add: hhmmToMinutes_def u_def dec_val_def)

lemma sample_hhmm: "HHMM_RE (u ''00:02'')" "HHMM_RE (u ''00:05'')" "HHMM_RE (u ''14:00'')" "HHMM_RE (u ''18:00'')"
  "HHMM_RE (u ''00:01'')" "HHMM_RE (u ''15:00'')" "HHMM_RE (u ''10:00'')" "HHMM_RE (u ''11:30'')"
  by (simp_all add: HHMM_RE_def u_def digit_unit_def)

lemmas sample_values = thursday_value_def thursday_wide_value_def friday_value_def schedule_value_def window_value_def

lemma sample_valid: "validateSchedule sample_clock thursday_value = None" "validateSchedule sample_clock thursday_wide_value = None"
  "validateSchedule sample_clock friday_value = None"
  by (simp_all add: sample_values validateSchedule_def is_str_def fin_num_def sample_clock_def WEEKDAY_KEYS_def
    validateWeekday_def validateWindow_def sample_minutes sample_hhmm or_error_def)

lemma weekday_fun_eq: "f = g \<longleftrightarrow> f Mon = g Mon \<and> f Tue = g Tue \<and> f Wed = g Wed \<and> f Thu = g Thu \<and> f Fri = g Fri \<and> f Sat = g Sat \<and> f Sun = g Sun"
proof
  assume r: "f Mon = g Mon \<and> f Tue = g Tue \<and> f Wed = g Wed \<and> f Thu = g Thu \<and> f Fri = g Fri \<and> f Sat = g Sat \<and> f Sun = g Sun"
  show "f = g"
  proof
    show "f k = g k" for k
      using r by (cases k) auto
  qed
qed simp

lemma thursday: "isoWeekdayToKey 4 = Thu"
  by (simp add: isoWeekdayToKey_def WEEKDAY_KEYS_def)

lemma sample_schedules:
  "as_schedule thursday_value = \<lparr>sch_tz = u ''UTC'', sch_paused = False,
     sch_weekly = (\<lambda>k. if k = Thu then Some [\<lparr>w_start = u ''00:02'', w_end = u ''00:05''\<rparr>, \<lparr>w_start = u ''14:00'', w_end = u ''18:00''\<rparr>] else None),
     sch_overrides = None, sch_issuedAt = 1700000000\<rparr>"
  "as_schedule thursday_wide_value = \<lparr>sch_tz = u ''UTC'', sch_paused = False,
     sch_weekly = (\<lambda>k. if k = Thu then Some [\<lparr>w_start = u ''00:01'', w_end = u ''15:00''\<rparr>] else None),
     sch_overrides = None, sch_issuedAt = 1700000000\<rparr>"
  "as_schedule friday_value = \<lparr>sch_tz = u ''UTC'', sch_paused = False,
     sch_weekly = (\<lambda>k. if k = Fri then Some [\<lparr>w_start = u ''10:00'', w_end = u ''11:30''\<rparr>] else None),
     sch_overrides = None, sch_issuedAt = 1700000000\<rparr>"
  by (simp_all add: as_schedule_def sample_values as_windows_def as_window_def text_of_def weekday_fun_eq)

lemma sample_day: "resolveDayWindows s (u ''1970-01-01'') 4 = (case override_of s (u ''1970-01-01'') of Some ov \<Rightarrow> ov | None \<Rightarrow>
   (case sch_weekly s Thu of Some ws \<Rightarrow> ws | None \<Rightarrow> []))"
  unfolding resolveDayWindows_def thursday by (rule refl)

lemmas sample_eval = sample_at0 sample_minutes sample_schedules sample_day override_of_def in_window_def isWithinSchedule_def findNextAllowedAt_def

lemma sample_utc: "utc_ms 1970 0 1 0 2 = 120000"
  by (simp add: utc_ms_def utc_day_def days_before_def day_from_year_def leap_year_def)

lemma sample_next: "absoluteDateFromTzClock sample_clock 60000 (u ''UTC'') 2 = Some (Some 120000)"
  by (simp add: absoluteDateFromTzClock_def sample_at0 sample_date sample_utc)

text \<open>
  The time a refusal promises is kept: when a schedule that passed validation
  refuses a signature and names the next allowed instant, that instant lies in the future and the
  same schedule allows it. The one thing assumed of the zone's clock is that a calendar date has
  one weekday.
\<close>

lemma next_allowed_is_allowed:
  assumes "validateSchedule C v = None"
    and "isWithinSchedule C (as_schedule v) now h = Some (Denied (Some t))"
    and "\<And>x y a b. extractInTz C x (sch_tz (as_schedule v)) = Some a \<Longrightarrow>
      extractInTz C y (sch_tz (as_schedule v)) = Some b \<Longrightarrow> t_isoDate a = t_isoDate b \<Longrightarrow> t_weekday a = t_weekday b"
  shows "now < t \<and> isWithinSchedule C (as_schedule v) t h' = Some Allowed"
  by (rule isWithinSchedule_next [OF assms(2) validateSchedule_wf [OF assms(1)]]) (rule assms(3))

lemma next_allowed_is_allowed_witness:
  "isWithinSchedule sample_clock (as_schedule thursday_value) 60000 0 = Some (Denied (Some 120000))
   \<and> isWithinSchedule sample_clock (as_schedule thursday_value) 120000 0 = Some Allowed"
proof -
  have "isWithinSchedule sample_clock (as_schedule thursday_value) 60000 0 = Some (Denied (Some 120000))"
    by (simp add: sample_eval sample_next)
  then show ?thesis
    using next_allowed_is_allowed [OF sample_valid(1), of 60000 0 120000 0] sample_clock_day by blast
qed

text \<open>
  C34 (refinement): Intersecting two validated schedules of one zone is the conjunction of their
  time checks: on a date both schedules say something about (an override, or an entry for that
  weekday, an empty one included) the result allows exactly the minutes both allow. The zone's
  clock is assumed to give the calendar's weekday for its date.
\<close>

theorem intersection_is_conjunction:
  assumes "validateSchedule C va = None" "validateSchedule C vb = None"
    and "intersectSchedules (Some (as_schedule va)) (Some (as_schedule vb)) = Some c"
    and "sch_tz (as_schedule vb) = sch_tz (as_schedule va)"
    and "\<And>e. extractInTz C now (sch_tz (as_schedule va)) = Some e \<Longrightarrow>
      parseIsoDateInTz (t_isoDate e) (sch_tz (as_schedule va)) = Some (t_weekday e)
      \<and> listed (as_schedule va) (t_isoDate e) (t_weekday e) \<noteq> None
      \<and> listed (as_schedule vb) (t_isoDate e) (t_weekday e) \<noteq> None"
  shows "isWithinSchedule C c now h = Some Allowed \<longleftrightarrow>
         isWithinSchedule C (as_schedule va) now h = Some Allowed
         \<and> isWithinSchedule C (as_schedule vb) now h = Some Allowed"
  using intersectSchedules_both [OF assms(3) validateSchedule_wf [OF assms(1)] validateSchedule_wf [OF assms(2)] assms(4,5)]
  by blast

theorem intersection_is_conjunction_witness:
  "isWithinSchedule sample_clock (the (intersectSchedules (Some (as_schedule thursday_value)) (Some (as_schedule thursday_wide_value)))) 180000 0 = Some Allowed
   \<and> isWithinSchedule sample_clock (as_schedule thursday_value) 180000 0 = Some Allowed
   \<and> isWithinSchedule sample_clock (as_schedule thursday_wide_value) 180000 0 = Some Allowed"
proof -
  let ?a = "as_schedule thursday_value" and ?b = "as_schedule thursday_wide_value"
  have "intersectSchedules (Some ?a) (Some ?b) = Some (the (intersectSchedules (Some ?a) (Some ?b)))"
    by (simp add: sample_schedules Let_def)
  moreover have "sch_tz ?b = u ''UTC''" "sch_tz ?a = u ''UTC''"
    by (simp_all add: sample_schedules)
  moreover have "parseIsoDateInTz (u ''1970-01-01'') (u ''UTC'') = Some 4"
    by code_simp
  moreover have "listed ?a (u ''1970-01-01'') 4 \<noteq> None" "listed ?b (u ''1970-01-01'') 4 \<noteq> None"
    unfolding listed_def thursday by (simp_all add: sample_schedules override_of_def)
  moreover have "isWithinSchedule sample_clock ?a 180000 0 = Some Allowed" "isWithinSchedule sample_clock ?b 180000 0 = Some Allowed"
    by (simp_all add: sample_eval)
  ultimately show ?thesis
    using intersection_is_conjunction [OF sample_valid(1,2), of _ 180000 0] sample_at0(3) by auto
qed

text \<open>
  A weekday one schedule does not mention is not a restriction to the intersection,
  although the time check of that schedule refuses the whole day: a rule with its own Thursday
  windows allows a signature on Thursday that the dependant's default schedule, which lists only
  Fridays, refuses.
\<close>

theorem intersection_extends_default:
  "validateSchedule sample_clock friday_value = None \<and> validateSchedule sample_clock thursday_value = None
   \<and> isWithinSchedule sample_clock (as_schedule friday_value) 120000 0 = Some (Denied None)
   \<and> map_option (\<lambda>s. isWithinSchedule sample_clock s 120000 0)
       (intersectSchedules (Some (as_schedule friday_value)) (Some (as_schedule thursday_value))) = Some (Some Allowed)"
proof -
  let ?f = "as_schedule friday_value" and ?t = "as_schedule thursday_value"
  have "intersectSchedules (Some ?f) (Some ?t) = Some \<lparr>sch_tz = u ''UTC'', sch_paused = False,
      sch_weekly = (\<lambda>k. if k = Thu then sch_weekly ?t Thu else if k = Fri then sch_weekly ?f Fri else None),
      sch_overrides = None, sch_issuedAt = 1700000000\<rparr>"
    by (simp add: sample_schedules Let_def weekday_fun_eq merged_overrides_def override_keys_def)
  moreover have "isWithinSchedule sample_clock ?f 120000 0 = Some (Denied None)"
    by (simp add: sample_eval)
  ultimately show ?thesis
    using sample_valid(1,3) by (simp add: sample_eval)
qed

end
