(* ===== verification/Child_Rules.thy ===== *)
theory Child_Rules
  imports Signing_Scope Grant_Schedule
begin

text \<open>
  \<open>child-rules.ts\<close> and \<open>types/child-rules.ts\<close>: a guardian's rules for a dependant's own phone,
  keyed by a deterministic id, and the search for the rule that decides a request. The hash
  (lowercase hex of the SHA-256 of a text) is a parameter.
\<close>

section \<open>Rules\<close>

datatype decision = Allow | Deny

record app_binding =
  ab_appId :: ustr
  ab_installKey :: ustr

record child_rule =
  cr_id :: ustr
  cr_dependantId :: ustr
  cr_persona :: ustr
  cr_scope :: ustr
  cr_target :: ustr
  cr_decision :: decision
  cr_appPermission :: "app_binding option"
  cr_schedule :: "schedule option"
  cr_label :: "ustr option"
  cr_createdAt :: rat
  cr_updatedAt :: rat
  cr_expiresAt :: "rat option"
  cr_tombstonedAt :: "rat option"
  cr_lastUsedAt :: "rat option"

definition is_app_target :: "ustr \<Rightarrow> bool" where
  "is_app_target t \<longleftrightarrow> starts_with t (u ''app:'')"

definition targetKey :: "ustr \<Rightarrow> ustr" where
  "targetKey t = (if is_app_target t then t else lower t)"

definition childRuleId :: "(ustr \<Rightarrow> ustr) \<Rightarrow> ustr \<Rightarrow> ustr \<Rightarrow> ustr \<Rightarrow> ustr \<Rightarrow> ustr" where
  "childRuleId sha256_hex dependantId persona scope target =
     (let t = (if is_app_target target then target else lower target);
          text = lower (u ''signet:child-rule:v1:'' @ dependantId @ u ''|'' @ persona @ u ''|'' @ scope @ u ''|'') @ t
      in take 32 (sha256_hex text))"

definition siteTarget :: "platform \<Rightarrow> ustr \<Rightarrow> ustr option" where
  "siteTarget P org = (case safeOriginForGrant P org of
     None \<Rightarrow> None | Some safe \<Rightarrow> if safe = [] then None else Some (u ''site:'' @ safe))"

definition normaliseAppId :: "ustr \<Rightarrow> ustr" where
  "normaliseAppId appId = (if hex64 (lower appId) then lower appId else appId)"

definition appTarget :: "ustr \<Rightarrow> ustr" where
  "appTarget appId = u ''app:'' @ normaliseAppId appId"

text \<open>\<open>/^kind:(0|[1-9]\d{0,4})$/\<close>, then the bound.\<close>

definition kindFromScope :: "ustr \<Rightarrow> nat option" where
  "kindFromScope scope =
     (let d = drop 5 scope in
      if starts_with scope (u ''kind:'') \<and> is_digits d \<and> length d \<le> 5 \<and> (d = [48] \<or> hd d \<noteq> 48) \<and> dec_val d \<le> 65535
      then Some (dec_val d) else None)"

definition scope_unit :: "nat \<Rightarrow> bool" where
  "scope_unit c \<longleftrightarrow> (97 \<le> c \<and> c \<le> 122) \<or> (48 \<le> c \<and> c \<le> 57) \<or> c = 58 \<or> c = 95 \<or> c = 45"

definition isValidRuleScope :: "ustr \<Rightarrow> bool" where
  "isValidRuleScope scope =
     (if scope = u ''*'' then True
      else if starts_with scope (u ''kind:'') then kindFromScope scope \<noteq> None
      else 1 \<le> length scope \<and> length scope \<le> 64 \<and> list_all scope_unit scope)"

definition peerTarget :: "ustr \<Rightarrow> ustr option" where
  "peerTarget hex = (if hex64 (lower hex) then Some (u ''peer:'' @ lower hex) else None)"

text \<open>\<open>typeof t === 'number' && t > 0\<close>.\<close>

definition stamped :: "rat option \<Rightarrow> bool" where
  "stamped t = (case t of Some x \<Rightarrow> x > 0 | None \<Rightarrow> False)"

definition isLiveRule :: "child_rule \<Rightarrow> rat \<Rightarrow> bool" where
  "isLiveRule r nowMs =
     (if stamped (cr_tombstonedAt r) then False
      else if stamped (cr_expiresAt r) \<and> the (cr_expiresAt r) \<le> nowMs then False
      else True)"

definition tombstonesForRemovedDependant :: "child_rule list \<Rightarrow> ustr \<Rightarrow> rat \<Rightarrow> child_rule list" where
  "tombstonesForRemovedDependant rules dependantId nowMs =
     map (\<lambda>r. r\<lparr>cr_tombstonedAt := Some nowMs, cr_updatedAt := max nowMs (cr_updatedAt r + 1)\<rparr>)
       (filter (\<lambda>r. lower (cr_dependantId r) = lower dependantId \<and> \<not> stamped (cr_tombstonedAt r)) rules)"

definition persona_matches :: "ustr \<Rightarrow> child_rule \<Rightarrow> bool" where
  "persona_matches persona r \<longleftrightarrow> cr_persona r = u ''*'' \<or> lower (cr_persona r) = lower persona"

definition blocks_app :: "ustr \<Rightarrow> ustr list \<Rightarrow> rat \<Rightarrow> child_rule \<Rightarrow> bool" where
  "blocks_app persona targets nowMs r \<longleftrightarrow>
     cr_decision r = Deny \<and> cr_target r \<in> set (filter is_app_target targets) \<and> isLiveRule r nowMs
     \<and> persona_matches persona r"

definition findBlockingAppRule :: "child_rule list \<Rightarrow> ustr \<Rightarrow> ustr list \<Rightarrow> rat \<Rightarrow> child_rule option" where
  "findBlockingAppRule rules persona targets nowMs =
     (if filter is_app_target targets = [] then None else find (blocks_app persona targets nowMs) rules)"

text \<open>The four levels of precedence.\<close>

definition levels :: "ustr \<Rightarrow> ustr list \<Rightarrow> (child_rule \<Rightarrow> bool) list" where
  "levels persona targets =
     [\<lambda>r. lower (cr_persona r) = lower persona \<and> targetKey (cr_target r) \<in> set (map targetKey targets),
      \<lambda>r. cr_persona r = u ''*'' \<and> targetKey (cr_target r) \<in> set (map targetKey targets),
      \<lambda>r. lower (cr_persona r) = lower persona \<and> cr_target r = u ''*'',
      \<lambda>r. cr_persona r = u ''*'' \<and> cr_target r = u ''*'']"

fun first_level :: "child_rule list \<Rightarrow> (child_rule \<Rightarrow> bool) list \<Rightarrow> child_rule option" where
  "first_level live [] = None"
| "first_level live (level # more_levels) =
     (case filter level live of
        [] \<Rightarrow> first_level live more_levels
      | hit # hits \<Rightarrow> (case find (\<lambda>r. cr_decision r = Deny) (hit # hits) of
                       Some d \<Rightarrow> Some d | None \<Rightarrow> Some hit))"

definition in_scope :: "ustr \<Rightarrow> rat \<Rightarrow> child_rule \<Rightarrow> bool" where
  "in_scope scope nowMs r \<longleftrightarrow> (cr_scope r = scope \<or> cr_scope r = u ''*'') \<and> isLiveRule r nowMs"

definition findRule :: "child_rule list \<Rightarrow> ustr \<Rightarrow> ustr \<Rightarrow> ustr list \<Rightarrow> rat \<Rightarrow> child_rule option" where
  "findRule rules persona scope targets nowMs =
     (case findBlockingAppRule rules persona targets nowMs of
        Some blocker \<Rightarrow> Some blocker
      | None \<Rightarrow> first_level (filter (in_scope scope nowMs) rules) (levels persona targets))"

section \<open>Rules from remembered grants\<close>

record remembered_grant =
  rg_dependantId :: ustr
  rg_scope :: ustr
  rg_origin :: ustr
  rg_decision :: decision
  rg_decidedAt :: rat
  rg_expiresAt :: "rat option"
  rg_lastUsedAt :: "rat option"
  rg_tombstonedAt :: "rat option"
  rg_schedule :: "schedule option"

definition is_http :: "ustr \<Rightarrow> bool" where
  "is_http s \<longleftrightarrow> starts_with (lower s) (u ''http:'') \<or> starts_with (lower s) (u ''https:'')"

definition grantTarget :: "platform \<Rightarrow> remembered_grant \<Rightarrow> ustr option" where
  "grantTarget P g = (if is_http (rg_origin g) then siteTarget P (rg_origin g) else peerTarget (rg_origin g))"

definition grant_rule :: "(ustr \<Rightarrow> ustr) \<Rightarrow> ustr \<Rightarrow> remembered_grant \<Rightarrow> ustr \<Rightarrow> child_rule" where
  "grant_rule H dep g target =
     \<lparr>cr_id = childRuleId H dep (u ''*'') (rg_scope g) target,
      cr_dependantId = dep, cr_persona = u ''*'', cr_scope = rg_scope g, cr_target = target,
      cr_decision = rg_decision g, cr_appPermission = None, cr_schedule = rg_schedule g, cr_label = None,
      cr_createdAt = rg_decidedAt g * 1000, cr_updatedAt = rg_decidedAt g * 1000,
      cr_expiresAt = (if stamped (rg_expiresAt g) then Some (the (rg_expiresAt g) * 1000) else None),
      cr_tombstonedAt = None,
      cr_lastUsedAt = map_option (\<lambda>t. t * 1000) (rg_lastUsedAt g)\<rparr>"

definition ruleFromGrant :: "platform \<Rightarrow> (ustr \<Rightarrow> ustr) \<Rightarrow> ustr \<Rightarrow> rat \<Rightarrow> remembered_grant \<Rightarrow> child_rule option" where
  "ruleFromGrant P H dep nowMs g =
     (if lower (rg_dependantId g) \<noteq> dep then None
      else if stamped (rg_tombstonedAt g) then None
      else if stamped (rg_expiresAt g) \<and> the (rg_expiresAt g) * 1000 \<le> nowMs then None
      else map_option (grant_rule H dep g) (grantTarget P g))"

definition rulesFromLegacyGrants :: "platform \<Rightarrow> (ustr \<Rightarrow> ustr) \<Rightarrow> ustr \<Rightarrow> remembered_grant list \<Rightarrow> rat \<Rightarrow> child_rule list" where
  "rulesFromLegacyGrants P H dependantId grants nowMs =
     List.map_filter (ruleFromGrant P H (lower dependantId) nowMs) grants"

section \<open>What the search finds\<close>

lemma find_Some_in: "find Q xs = Some x \<Longrightarrow> x \<in> set xs \<and> Q x"
  by (auto simp: find_Some_iff)

lemma find_None_all: "find Q xs = None \<longleftrightarrow> (\<forall>x \<in> set xs. \<not> Q x)"
  by (auto simp: find_None_iff)

lemma findBlocking_Some:
  "findBlockingAppRule rs persona targets now = Some r \<Longrightarrow> r \<in> set rs \<and> blocks_app persona targets now r"
  by (auto simp: findBlockingAppRule_def dest!: find_Some_in split: if_splits)

lemma findBlocking_None:
  "findBlockingAppRule rs persona targets now = None \<longleftrightarrow> (\<forall>r \<in> set rs. \<not> blocks_app persona targets now r)"
  by (auto simp: findBlockingAppRule_def find_None_all blocks_app_def filter_empty_conv)

text \<open>The level a rule is found at; \<open>None\<close> when it does not apply to the request at all.\<close>

definition level_of :: "ustr \<Rightarrow> ustr list \<Rightarrow> child_rule \<Rightarrow> nat option" where
  "level_of persona targets r = find_index (\<lambda>l. l r) (levels persona targets)"

lemma find_index_less: "find_index Q xs = Some i \<Longrightarrow> j < i \<Longrightarrow> \<not> Q (xs ! j)"
  by (induction xs arbitrary: i j) (auto simp: nth_Cons split: if_splits nat.splits)

lemma find_index_least: "j < length xs \<Longrightarrow> Q (xs ! j) \<Longrightarrow> \<exists>i. find_index Q xs = Some i \<and> i \<le> j"
  by (induction xs arbitrary: j) (fastforce simp: nth_Cons split: nat.splits)+

lemma first_level_spec:
  "case first_level live ls of
     None \<Rightarrow> \<forall>r \<in> set live. find_index (\<lambda>l. l r) ls = None
   | Some r \<Rightarrow> r \<in> set live \<and> (\<exists>i < length ls. (ls ! i) r
       \<and> (\<forall>x \<in> set live. \<forall>j < i. \<not> (ls ! j) x)
       \<and> (cr_decision r = Allow \<longrightarrow> (\<forall>x \<in> set live. (ls ! i) x \<longrightarrow> cr_decision x = Allow)))"
proof (induction ls)
  case Nil
  then show ?case by simp
next
  case (Cons l ls)
  show ?case
  proof (cases "filter l live")
    case Nil
    then have none: "\<forall>r \<in> set live. \<not> l r"
      by (simp add: filter_empty_conv)
    show ?thesis
    proof (cases "first_level live ls")
      case None
      then show ?thesis
        using Cons.IH Nil none by simp
    next
      case (Some r)
      then obtain i where i: "r \<in> set live" "i < length ls" "(ls ! i) r" "\<forall>x \<in> set live. \<forall>j < i. \<not> (ls ! j) x"
          "cr_decision r = Allow \<longrightarrow> (\<forall>x \<in> set live. (ls ! i) x \<longrightarrow> cr_decision x = Allow)"
        using Cons.IH by auto
      have "\<forall>x \<in> set live. \<forall>j < Suc i. \<not> ((l # ls) ! j) x"
        using none i(4) by (auto simp: nth_Cons split: nat.splits)
      then show ?thesis
        using Some Nil i by (auto intro!: exI [of _ "Suc i"])
    qed
  next
    case (Cons hit hits)
    let ?d = "find (\<lambda>r. cr_decision r = Deny) (hit # hits)"
    have sub: "set (hit # hits) = {x \<in> set live. l x}"
      using Cons by (metis set_filter)
    show ?thesis
    proof (cases ?d)
      case None
      then have "\<forall>x \<in> set (hit # hits). cr_decision x \<noteq> Deny"
        by (simp add: find_None_all del: find.simps)
      then have "\<forall>x \<in> set live. l x \<longrightarrow> cr_decision x = Allow"
        using sub by (metis (mono_tags, lifting) decision.exhaust mem_Collect_eq)
      moreover have "hit \<in> set live" "l hit"
        using sub by auto
      moreover have "first_level live (l # ls) = Some hit"
        using None Cons by (simp del: find.simps)
      ultimately show ?thesis
        by (auto intro!: exI [of _ 0] simp del: first_level.simps)
    next
      case (Some d)
      then have "d \<in> set (hit # hits)" "cr_decision d = Deny"
        using find_Some_in [OF Some] by (simp_all only:)
      moreover have "first_level live (l # ls) = Some d"
        using Some Cons by (simp del: find.simps)
      moreover have "d \<in> set live" "l d"
        using sub calculation(1) by blast+
      ultimately show ?thesis
        by (auto intro!: exI [of _ 0] simp del: first_level.simps)
    qed
  qed
qed

text \<open>A rule that applies to a request: live, of its scope and found at some level.\<close>

definition applies :: "ustr \<Rightarrow> ustr \<Rightarrow> ustr list \<Rightarrow> rat \<Rightarrow> nat \<Rightarrow> child_rule \<Rightarrow> bool" where
  "applies persona scope targets now i r \<longleftrightarrow> in_scope scope now r \<and> level_of persona targets r = Some i"

lemma findRule_None:
  "findRule rs persona scope targets now = None \<Longrightarrow>
   (\<forall>r \<in> set rs. \<not> blocks_app persona targets now r) \<and> (\<forall>r \<in> set rs. \<forall>i. \<not> applies persona scope targets now i r)"
  using first_level_spec [of "filter (in_scope scope now) rs" "levels persona targets"]
  by (auto simp: findRule_def findBlocking_None applies_def level_of_def split: option.splits)

lemma findRule_Some:
  assumes "findRule rs persona scope targets now = Some r"
  shows "r \<in> set rs \<and> isLiveRule r now
    \<and> (blocks_app persona targets now r \<or>
       (\<forall>x \<in> set rs. \<not> blocks_app persona targets now x)
       \<and> (\<exists>i. applies persona scope targets now i r
            \<and> (\<forall>x \<in> set rs. \<forall>j. applies persona scope targets now j x \<longrightarrow>
                 i \<le> j \<and> (j = i \<longrightarrow> cr_decision r = Allow \<longrightarrow> cr_decision x = Allow))))"
proof (cases "findBlockingAppRule rs persona targets now")
  case (Some b)
  then show ?thesis
    using assms findBlocking_Some [OF Some] by (auto simp: findRule_def blocks_app_def)
next
  case None
  let ?live = "filter (in_scope scope now) rs" and ?ls = "levels persona targets"
  have "first_level ?live ?ls = Some r"
    using assms None by (simp add: findRule_def)
  then obtain i where i: "r \<in> set ?live" "i < length ?ls" "(?ls ! i) r" "\<forall>x \<in> set ?live. \<forall>j < i. \<not> (?ls ! j) x"
      "cr_decision r = Allow \<longrightarrow> (\<forall>x \<in> set ?live. (?ls ! i) x \<longrightarrow> cr_decision x = Allow)"
    using first_level_spec [of ?live ?ls] by auto
  obtain k where k: "find_index (\<lambda>l. l r) ?ls = Some k" "k \<le> i"
    using find_index_least [of i ?ls "\<lambda>l. l r"] i by blast
  then have "(?ls ! k) r"
    using find_index_Some [OF k(1)] by simp
  then have "k = i"
    using k(2) i(1,4) by (metis le_neq_implies_less)
  have "i \<le> j \<and> (j = i \<longrightarrow> cr_decision r = Allow \<longrightarrow> cr_decision x = Allow)"
    if x: "x \<in> set rs" "applies persona scope targets now j x" for x j
  proof -
    have "x \<in> set ?live" "(?ls ! j) x"
      using x find_index_Some by (fastforce simp: applies_def level_of_def)+
    then show ?thesis
      using i(4,5) by (metis not_le)
  qed
  moreover have "applies persona scope targets now i r"
    using i(1) k \<open>k = i\<close> by (simp add: applies_def level_of_def)
  ultimately show ?thesis
    using i(1) None by (auto simp: findBlocking_None in_scope_def)
qed

lemma findRule_decision_le:
  assumes "set rs = set rs'" and "findRule rs persona scope targets now = Some r"
  shows "\<exists>r'. findRule rs' persona scope targets now = Some r' \<and> (cr_decision r = Allow \<longrightarrow> cr_decision r' = Allow)"
proof (cases "findRule rs' persona scope targets now")
  case None
  then show ?thesis
    using findRule_None [OF None] findRule_Some [OF assms(2)] assms(1) by metis
next
  case (Some r')
  show ?thesis
  proof (cases "cr_decision r = Allow")
    case True
    then have "\<not> blocks_app persona targets now r"
      by (simp add: blocks_app_def)
    then obtain i where i: "\<forall>x \<in> set rs. \<not> blocks_app persona targets now x" "applies persona scope targets now i r"
        "\<And>x j. x \<in> set rs \<Longrightarrow> applies persona scope targets now j x \<Longrightarrow> i \<le> j \<and> (j = i \<longrightarrow> cr_decision x = Allow)"
      using findRule_Some [OF assms(2)] True by blast
    have r': "r' \<in> set rs" and r: "r \<in> set rs'"
      using findRule_Some [OF Some] findRule_Some [OF assms(2)] assms(1) by auto
    then obtain j where "applies persona scope targets now j r'" "j \<le> i"
      using findRule_Some [OF Some] i(1,2) by blast
    then have "cr_decision r' = Allow"
      using i(3) [OF r'] by (metis le_antisym)
    then show ?thesis
      using Some by simp
  qed (simp add: Some)
qed

lemma findRule_set_eq:
  assumes "set rs = set rs'"
  shows "map_option cr_decision (findRule rs persona scope targets now)
       = map_option cr_decision (findRule rs' persona scope targets now)"
proof (cases "findRule rs persona scope targets now")
  case None
  then have "findRule rs' persona scope targets now = None"
    using findRule_decision_le [OF assms [symmetric], of persona scope targets now]
    by (cases "findRule rs' persona scope targets now") auto
  then show ?thesis
    using None by simp
next
  case (Some r)
  obtain r' where r': "findRule rs' persona scope targets now = Some r'" "cr_decision r = Allow \<longrightarrow> cr_decision r' = Allow"
    using findRule_decision_le [OF assms Some] by blast
  then have "cr_decision r' = Allow \<longrightarrow> cr_decision r = Allow"
    using findRule_decision_le [OF assms [symmetric] r'(1)] Some by auto
  then show ?thesis
    using r' Some by (cases "cr_decision r"; cases "cr_decision r'") auto
qed

section \<open>Properties\<close>

text \<open>
  An allowing rule decides a request only when it is a live rule for that scope,
  no app named by the request is blocked by a live denial at any scope, no applicable rule stands
  at a more specific level (persona and target, any persona, any target, neither), and no denial
  stands at its own level; when no rule is found, none applies.
\<close>

lemma findRule_precedence:
  "case findRule rs persona scope targets now of
     None \<Rightarrow> \<nexists>r. r \<in> set rs \<and> (blocks_app persona targets now r \<or> (\<exists>i. applies persona scope targets now i r))
   | Some r \<Rightarrow> r \<in> set rs \<and> isLiveRule r now
       \<and> (cr_decision r = Allow \<longrightarrow>
           (\<exists>i. applies persona scope targets now i r
             \<and> (\<nexists>x. x \<in> set rs \<and> blocks_app persona targets now x)
             \<and> (\<nexists>x j. x \<in> set rs \<and> applies persona scope targets now j x \<and> j < i)
             \<and> (\<nexists>x. x \<in> set rs \<and> applies persona scope targets now i x \<and> cr_decision x = Deny)))"
proof (cases "findRule rs persona scope targets now")
  case None
  then show ?thesis
    using findRule_None [OF None] by auto
next
  case (Some r)
  note f = findRule_Some [OF Some]
  have "\<exists>i. applies persona scope targets now i r
             \<and> (\<nexists>x. x \<in> set rs \<and> blocks_app persona targets now x)
             \<and> (\<nexists>x j. x \<in> set rs \<and> applies persona scope targets now j x \<and> j < i)
             \<and> (\<nexists>x. x \<in> set rs \<and> applies persona scope targets now i x \<and> cr_decision x = Deny)"
    if a: "cr_decision r = Allow"
  proof -
    have "\<not> blocks_app persona targets now r"
      using a by (simp add: blocks_app_def)
    then show ?thesis
      using f a by (metis decision.distinct(1) linorder_not_le)
  qed
  then show ?thesis
    using Some f by simp
qed

definition sample_rule :: "decision \<Rightarrow> string \<Rightarrow> string \<Rightarrow> child_rule" where
  "sample_rule d scope target =
     \<lparr>cr_id = u ''0'', cr_dependantId = u ''d'', cr_persona = u ''*'', cr_scope = u scope, cr_target = u target,
      cr_decision = d, cr_appPermission = None, cr_schedule = None, cr_label = None, cr_createdAt = 1, cr_updatedAt = 1,
      cr_expiresAt = None, cr_tombstonedAt = None, cr_lastUsedAt = None\<rparr>"

definition chess_rules :: "child_rule list" where
  "chess_rules = [sample_rule Deny ''*'' ''*'', sample_rule Allow ''s'' ''site:a'']"

lemma chess_found:
  "findRule chess_rules (u ''p'') (u ''s'') [u ''site:a''] 5 = Some (sample_rule Allow ''s'' ''site:a'')"
  by (simp add: findRule_def findBlockingAppRule_def levels_def in_scope_def isLiveRule_def stamped_def
      is_app_target_def starts_with_def targetKey_def lower_def lower_unit_def chess_rules_def sample_rule_def u_def)

lemma findRule_precedence_witness:
  "\<nexists>x. x \<in> set chess_rules \<and> blocks_app (u ''p'') [u ''site:a''] 5 x"
proof -
  have "cr_decision (sample_rule Allow ''s'' ''site:a'') = Allow"
    by (simp add: sample_rule_def)
  then show ?thesis
    using findRule_precedence [where rs = chess_rules and persona = "u ''p''" and scope = "u ''s''"
      and targets = "[u ''site:a'']" and now = 5]
    unfolding chess_found option.case by blast
qed

text \<open>
  The decision for a request does not depend on the order of the rules nor on
  repetitions: two phones that hold the same set of rules decide alike.
\<close>

theorem findRule_order_free:
  assumes "set rs = set rs'"
  shows "map_option cr_decision (findRule rs persona scope targets now)
       = map_option cr_decision (findRule rs' persona scope targets now)"
  using assms by (rule findRule_set_eq)

theorem findRule_order_free_witness:
  "map_option cr_decision (findRule (rev chess_rules) (u ''p'') (u ''s'') [u ''site:a''] 5) = Some Allow"
  using findRule_order_free [of "rev chess_rules" chess_rules "u ''p''" "u ''s''" "[u ''site:a'']" 5]
  by (simp add: chess_found) (simp add: sample_rule_def)

text \<open>
  The one-off copy of remembered grants yields only rules that are live at the
  time of the copy, belong to the dependant, name a site or a peer (never everything), and carry
  the deterministic id of their own fields, so a second guardian device makes the same records.
\<close>

theorem legacy_rules_wf:
  "list_all (\<lambda>r. isLiveRule r now \<and> cr_dependantId r = lower dep \<and> cr_target r \<noteq> u ''*'' \<and> \<not> is_app_target (cr_target r)
      \<and> cr_id r = childRuleId H (cr_dependantId r) (cr_persona r) (cr_scope r) (cr_target r))
    (rulesFromLegacyGrants P H dep gs now)"
proof -
  have site: "t \<noteq> u ''*'' \<and> \<not> is_app_target t" if "siteTarget P g = Some t" for g t
    using that by (auto simp: siteTarget_def is_app_target_def starts_with_def u_def split: option.splits if_splits)
  have peer: "t \<noteq> u ''*'' \<and> \<not> is_app_target t" if "peerTarget g = Some t" for g t
    using that by (auto simp: peerTarget_def is_app_target_def starts_with_def u_def split: if_splits)
  have "isLiveRule r now \<and> cr_dependantId r = lower dep \<and> cr_target r \<noteq> u ''*'' \<and> \<not> is_app_target (cr_target r)
      \<and> cr_id r = childRuleId H (cr_dependantId r) (cr_persona r) (cr_scope r) (cr_target r)"
    if r: "ruleFromGrant P H (lower dep) now g = Some r" for g r
  proof -
    obtain t where t: "grantTarget P g = Some t" "r = grant_rule H (lower dep) g t"
        and live: "\<not> (stamped (rg_expiresAt g) \<and> the (rg_expiresAt g) * 1000 \<le> now)"
      using r by (auto simp: ruleFromGrant_def split: if_splits)
    have "t \<noteq> u ''*'' \<and> \<not> is_app_target t"
      using t(1) site peer by (auto simp: grantTarget_def split: if_splits)
    moreover have "isLiveRule r now"
      using live t(2) by (auto simp: grant_rule_def isLiveRule_def stamped_def split: option.splits)
    ultimately show ?thesis
      using t(2) by (simp add: grant_rule_def)
  qed
  then show ?thesis
    by (auto simp: rulesFromLegacyGrants_def list_all_iff List.map_filter_def)
qed

lemma tombstones_newer:
  assumes "0 < nowMs" and "r' \<in> set (tombstonesForRemovedDependant rs dep nowMs)"
  shows "\<exists>r \<in> set rs. cr_id r' = cr_id r \<and> cr_updatedAt r < cr_updatedAt r' \<and> (\<forall>t. \<not> isLiveRule r' t)"
  using assms by (force simp: tombstonesForRemovedDependant_def isLiveRule_def stamped_def)

end
