(* ===== verification/Grant_Merge.thy ===== *)
theory Grant_Merge
  imports Child_Rules
begin

text \<open>
  The merge of \<open>grants-sync.ts\<close>: a guardian's remembered grants on two devices, last writer wins
  per dependant, scope and origin, with the schedule of a grant on a clock of its own. Sealing,
  relays and the JSON text of a payload are not modelled.
\<close>

section \<open>One grant against another\<close>

text \<open>The schedule of a grant on the wire: dropped when it is missing or does not validate.\<close>

definition parseScheduleField :: "tz_clock \<Rightarrow> jsval \<Rightarrow> schedule option" where
  "parseScheduleField C raw =
     (if raw = JUndef \<or> raw = JNull then None
      else if \<not> is_object_type raw then None
      else if validateSchedule C raw = None then Some (as_schedule raw) else None)"

definition grantKey :: "remembered_grant \<Rightarrow> ustr" where
  "grantKey g = rg_dependantId g @ u ''|'' @ rg_scope g @ u ''|'' @ rg_origin g"

definition effectiveTime :: "remembered_grant \<Rightarrow> rat" where
  "effectiveTime g = max (rg_decidedAt g) (case rg_tombstonedAt g of None \<Rightarrow> 0 | Some t \<Rightarrow> t)"

text \<open>\<open>!!g.tombstonedAt\<close>.\<close>

definition revoked :: "remembered_grant \<Rightarrow> bool" where
  "revoked g \<longleftrightarrow> (case rg_tombstonedAt g of None \<Rightarrow> False | Some t \<Rightarrow> t \<noteq> 0)"

text \<open>
  The schedule picked, and whether it is the remote object: the caller compares the two by
  reference, and a schedule that came over the wire is never the object of the local record.
\<close>

definition pickNewerSchedule :: "schedule option \<Rightarrow> schedule option \<Rightarrow> schedule option \<times> bool" where
  "pickNewerSchedule local remote =
     (case (local, remote) of
        (None, None) \<Rightarrow> (None, False)
      | (None, Some r) \<Rightarrow> (Some r, True)
      | (Some l, None) \<Rightarrow> (Some l, False)
      | (Some l, Some r) \<Rightarrow> if sch_issuedAt r \<ge> sch_issuedAt l then (Some r, True) else (Some l, False))"

definition grant_wins :: "remembered_grant \<Rightarrow> remembered_grant \<Rightarrow> bool" where
  "grant_wins r l \<longleftrightarrow> effectiveTime r > effectiveTime l \<or> (effectiveTime r = effectiveTime l \<and> revoked r \<and> \<not> revoked l)"

section \<open>Two lists\<close>

type_synonym merge_state = "(ustr \<times> remembered_grant) list \<times> remembered_grant list"

definition merge_one :: "remembered_grant \<Rightarrow> merge_state \<Rightarrow> merge_state" where
  "merge_one r s =
     (case s of (byKey, toSave) \<Rightarrow>
        (let key = grantKey r in
         case map_of byKey key of
           None \<Rightarrow> (AList.update key r byKey, toSave @ [r])
         | Some l \<Rightarrow>
             (case pickNewerSchedule (rg_schedule l) (rg_schedule r) of (newSchedule, fromRemote) \<Rightarrow>
                if grant_wins r l then
                  (let merged = r\<lparr>rg_schedule := newSchedule\<rparr> in (AList.update key merged byKey, toSave @ [merged]))
                else if fromRemote then
                  (let merged = l\<lparr>rg_schedule := newSchedule\<rparr> in (AList.update key merged byKey, toSave @ [merged]))
                else s)))"

definition local_grants :: "remembered_grant list \<Rightarrow> (ustr \<times> remembered_grant) list" where
  "local_grants gs = fold (\<lambda>g. AList.update (grantKey g) g) gs []"

definition mergeGrantLists :: "remembered_grant list \<Rightarrow> remembered_grant list \<Rightarrow> remembered_grant list \<times> remembered_grant list" where
  "mergeGrantLists local remote =
     (case fold merge_one remote (local_grants local, []) of (byKey, toSave) \<Rightarrow> (map snd byKey, toSave))"

section \<open>What a key ends up with\<close>

text \<open>The record of a key in a list of grants that holds at most one per key.\<close>

definition grant_of_key :: "ustr \<Rightarrow> remembered_grant list \<Rightarrow> remembered_grant option" where
  "grant_of_key k gs = find (\<lambda>g. grantKey g = k) gs"

lemma grant_of_key_None: "k \<notin> grantKey ` set gs \<Longrightarrow> grant_of_key k gs = None"
  unfolding grant_of_key_def find_None_iff by force

definition one_grant_per_key :: "remembered_grant list \<Rightarrow> bool" where
  "one_grant_per_key gs \<longleftrightarrow> distinct (map grantKey gs)"

definition combined :: "remembered_grant \<Rightarrow> remembered_grant \<Rightarrow> remembered_grant" where
  "combined l r = (if grant_wins r l then r else l)\<lparr>rg_schedule := fst (pickNewerSchedule (rg_schedule l) (rg_schedule r))\<rparr>"

definition joined :: "remembered_grant option \<Rightarrow> remembered_grant option \<Rightarrow> remembered_grant option" where
  "joined l r = (case l of None \<Rightarrow> r | Some x \<Rightarrow> (case r of None \<Rightarrow> l | Some y \<Rightarrow> Some (combined x y)))"

lemma grantKey_schedule [simp]: "grantKey (g\<lparr>rg_schedule := s\<rparr>) = grantKey g"
  by (simp add: grantKey_def)

lemma effectiveTime_schedule [simp]: "effectiveTime (g\<lparr>rg_schedule := s\<rparr>) = effectiveTime g"
  by (simp add: effectiveTime_def)

lemma revoked_schedule [simp]: "revoked (g\<lparr>rg_schedule := s\<rparr>) = revoked g"
  by (simp add: revoked_def)

lemma pick_local: "\<not> snd (pickNewerSchedule l r) \<Longrightarrow> fst (pickNewerSchedule l r) = l"
  by (auto simp: pickNewerSchedule_def split: option.splits if_splits)

lemma merge_one_get:
  "map_of (fst (merge_one r s)) k = (if k = grantKey r then joined (map_of (fst s) k) (Some r) else map_of (fst s) k)"
proof (cases "map_of (fst s) (grantKey r)")
  case None
  then show ?thesis
    by (cases s) (simp add: merge_one_def joined_def Let_def update_conv')
next
  case (Some l)
  have same: "l\<lparr>rg_schedule := rg_schedule l\<rparr> = l"
    by simp
  show ?thesis
    using Some pick_local [of "rg_schedule l" "rg_schedule r"] same
    by (cases s; cases "pickNewerSchedule (rg_schedule l) (rg_schedule r)")
      (auto simp: merge_one_def joined_def combined_def Let_def update_conv' simp del: same)
qed

definition keyed_grants :: "(ustr \<times> remembered_grant) list \<Rightarrow> bool" where
  "keyed_grants m \<longleftrightarrow> distinct (map fst m) \<and> list_all (\<lambda>kv. fst kv = grantKey (snd kv)) m"

lemma keyed_update: "keyed_grants m \<Longrightarrow> k = grantKey g \<Longrightarrow> keyed_grants (AList.update k g m)"
proof -
  have "set (AList.update k g m) \<subseteq> insert (k, g) (set m)"
    by (induction m) auto
  then show "keyed_grants m \<Longrightarrow> k = grantKey g \<Longrightarrow> keyed_grants (AList.update k g m)"
    by (auto simp: keyed_grants_def list_all_iff distinct_update)
qed

lemma keyed_get: "keyed_grants m \<Longrightarrow> map_of m k = Some g \<Longrightarrow> grantKey g = k"
  by (auto simp: keyed_grants_def list_all_iff dest!: map_of_SomeD)

lemma merge_one_keyed: "keyed_grants (fst s) \<Longrightarrow> keyed_grants (fst (merge_one r s))"
  using keyed_get [of "fst s" "grantKey r"]
  by (auto simp: merge_one_def Let_def split: prod.splits option.splits intro!: keyed_update)

lemma find_snd:
  assumes "keyed_grants m"
  shows "grant_of_key k (map snd m) = map_of m k"
  using assms
proof (induction m)
  case (Cons kv m)
  then show ?case
    by (cases kv) (auto simp: keyed_grants_def grant_of_key_def)
qed (simp add: grant_of_key_def)

lemma local_get:
  assumes "one_grant_per_key gs"
  shows "keyed_grants (local_grants gs) \<and> map_of (local_grants gs) k = grant_of_key k gs"
proof -
  have "keyed_grants (fold (\<lambda>g. AList.update (grantKey g) g) gs m)
      \<and> map_of (fold (\<lambda>g. AList.update (grantKey g) g) gs m) k = (case grant_of_key k gs of Some g \<Rightarrow> Some g | None \<Rightarrow> map_of m k)"
    if "keyed_grants m" "distinct (map grantKey gs)" for m
    using that
  proof (induction gs arbitrary: m)
    case (Cons g gs)
    have "grant_of_key (grantKey g) gs = None"
      using Cons.prems(2) by (simp add: grant_of_key_None)
    moreover have "keyed_grants (AList.update (grantKey g) g m)"
      using Cons.prems(1) by (simp add: keyed_update)
    ultimately show ?case
      using Cons.IH [of "AList.update (grantKey g) g m"] Cons.prems(2)
      by (auto simp: update_conv' grant_of_key_def split: option.split)
  qed (simp add: grant_of_key_def)
  from this [of "[]"] assms show ?thesis
    by (auto simp: local_grants_def one_grant_per_key_def keyed_grants_def split: option.split)
qed

lemma remote_get:
  assumes "keyed_grants (fst s)" "distinct (map grantKey rs)"
  shows "keyed_grants (fst (fold merge_one rs s)) \<and> map_of (fst (fold merge_one rs s)) k = joined (map_of (fst s) k) (grant_of_key k rs)"
  using assms
proof (induction rs arbitrary: s)
  case Nil
  then show ?case
    by (simp add: joined_def grant_of_key_def split: option.split)
next
  case (Cons r rs)
  have none: "grant_of_key (grantKey r) rs = None"
    using Cons.prems(2) by (simp add: grant_of_key_None)
  have "keyed_grants (fst (merge_one r s))"
    using Cons.prems(1) by (rule merge_one_keyed)
  from Cons.IH [OF this] Cons.prems(2) show ?case
    using none by (auto simp: merge_one_get grant_of_key_def joined_def split: option.splits)
qed

lemma merge_get:
  assumes "one_grant_per_key local" "one_grant_per_key remote"
  shows "one_grant_per_key (fst (mergeGrantLists local remote))
    \<and> grant_of_key k (fst (mergeGrantLists local remote)) = joined (grant_of_key k local) (grant_of_key k remote)"
proof -
  let ?s = "fold merge_one remote (local_grants local, [])"
  have s: "keyed_grants (fst ?s)" "map_of (fst ?s) k = joined (grant_of_key k local) (grant_of_key k remote)"
    using remote_get [of "(local_grants local, [])" remote k] local_get [OF assms(1), of k] assms(2)
    by (simp_all add: one_grant_per_key_def)
  have "fst (mergeGrantLists local remote) = map snd (fst ?s)"
    by (simp add: mergeGrantLists_def split: prod.split)
  moreover have "map grantKey (map snd (fst ?s)) = map fst (fst ?s)"
    using s(1) by (auto simp: keyed_grants_def list_all_iff)
  moreover have "distinct (map fst (fst ?s))"
    using s(1) by (simp add: keyed_grants_def)
  ultimately show ?thesis
    using s(2) find_snd [OF s(1), of k] by (simp only: one_grant_per_key_def)
qed

lemma effective_combined: "effectiveTime (combined l r) = max (effectiveTime l) (effectiveTime r)"
  by (auto simp: combined_def grant_wins_def max_def)

lemma revoked_combined:
  "effectiveTime l \<le> effectiveTime r \<Longrightarrow> revoked r \<Longrightarrow> revoked (combined l r)"
  "effectiveTime r \<le> effectiveTime l \<Longrightarrow> revoked l \<Longrightarrow> revoked (combined l r)"
  by (auto simp: combined_def grant_wins_def)

text \<open>
  C38 (functional): The merge of two devices' grants loses no key and invents none; a key both hold
  ends with a record whose last action is the later of the two, and a revocation at least as new
  as the other side's action always wins, so a revoked grant never comes back by syncing.
\<close>

theorem grant_merge_newest:
  assumes "one_grant_per_key local" "one_grant_per_key remote"
    and "grant_of_key k local = Some l" "grant_of_key k remote = Some r"
  shows "\<exists>m. grant_of_key k (fst (mergeGrantLists local remote)) = Some m
    \<and> effectiveTime m = max (effectiveTime l) (effectiveTime r)
    \<and> (revoked r \<and> effectiveTime l \<le> effectiveTime r \<longrightarrow> revoked m)
    \<and> (revoked l \<and> effectiveTime r \<le> effectiveTime l \<longrightarrow> revoked m)
    \<and> (\<forall>j. grant_of_key j (fst (mergeGrantLists local remote)) = None
          \<longleftrightarrow> grant_of_key j local = None \<and> grant_of_key j remote = None)"
proof -
  have "grant_of_key k (fst (mergeGrantLists local remote)) = Some (combined l r)"
    using merge_get [OF assms(1,2), of k] assms(3,4) by (simp add: joined_def)
  moreover have "grant_of_key j (fst (mergeGrantLists local remote)) = None
      \<longleftrightarrow> grant_of_key j local = None \<and> grant_of_key j remote = None" for j
    using merge_get [OF assms(1,2), of j] by (simp add: joined_def split: option.split)
  ultimately show ?thesis
    using effective_combined revoked_combined by (intro exI [of _ "combined l r"]) simp
qed

text \<open>A grant, the same grant revoked later, and a schedule issued at a given time.\<close>

definition sample_grant :: "rat option \<Rightarrow> schedule option \<Rightarrow> remembered_grant" where
  "sample_grant tombstone sched = \<lparr>rg_dependantId = replicate 64 97, rg_scope = u ''sign-in'', rg_origin = u ''https://a.example'',
     rg_decision = Allow, rg_decidedAt = 10, rg_expiresAt = None, rg_lastUsedAt = None, rg_tombstonedAt = tombstone,
     rg_schedule = sched\<rparr>"

definition sample_schedule :: "bool \<Rightarrow> schedule" where
  "sample_schedule paused = \<lparr>sch_tz = u ''UTC'', sch_paused = paused, sch_weekly = (\<lambda>_. None), sch_overrides = None, sch_issuedAt = 5\<rparr>"

theorem grant_merge_newest_witness:
  "\<exists>m. grant_of_key (grantKey (sample_grant None None)) (fst (mergeGrantLists [sample_grant None None] [sample_grant (Some 20) None])) = Some m
     \<and> effectiveTime m = 20 \<and> revoked m"
proof -
  let ?a = "sample_grant None None" and ?b = "sample_grant (Some 20) None"
  have key: "grantKey ?b = grantKey ?a"
    by (simp add: sample_grant_def grantKey_def)
  have times: "effectiveTime ?a = 10" "effectiveTime ?b = 20" "revoked ?b"
    by (simp_all add: sample_grant_def effectiveTime_def revoked_def)
  have "grant_of_key (grantKey ?a) [?a] = Some ?a" "grant_of_key (grantKey ?a) [?b] = Some ?b"
    by (simp_all add: grant_of_key_def key)
  from grant_merge_newest [OF _ _ this] times show ?thesis
    by (auto simp: one_grant_per_key_def)
qed

text \<open>
  Two devices whose schedules of one grant were issued at the same time never agree:
  each takes the other's, however often they sync; and a schedule that has not changed at all is
  saved again by every merge, although nothing of the record differs.
\<close>

lemma equal_schedules_swap:
  "let a = sample_grant None (Some (sample_schedule True)); b = sample_grant None (Some (sample_schedule False))
   in fst (mergeGrantLists [a] [b]) = [b] \<and> fst (mergeGrantLists [b] [a]) = [a] \<and> a \<noteq> b
      \<and> mergeGrantLists [a] [a] = ([a], [a])"
proof -
  let ?a = "sample_grant None (Some (sample_schedule True))" and ?b = "sample_grant None (Some (sample_schedule False))"
  have key: "grantKey ?b = grantKey ?a"
    by (simp add: sample_grant_def grantKey_def)
  have time: "\<not> grant_wins ?a ?b" "\<not> grant_wins ?b ?a" "\<not> grant_wins ?a ?a"
    by (simp_all add: grant_wins_def sample_grant_def effectiveTime_def revoked_def)
  have pick: "pickNewerSchedule (Some (sample_schedule p)) (Some (sample_schedule q)) = (Some (sample_schedule q), True)" for p q
    by (simp add: pickNewerSchedule_def sample_schedule_def)
  have sched: "rg_schedule (sample_grant t s) = s" "(sample_grant t s)\<lparr>rg_schedule := s'\<rparr> = sample_grant t s'" for t s s'
    by (simp_all add: sample_grant_def)
  have "?a \<noteq> ?b"
    by (simp add: sample_grant_def sample_schedule_def)
  then show ?thesis
    by (simp add: mergeGrantLists_def local_grants_def merge_one_def key time pick sched Let_def)
qed

end
