(* ===== verification/App_Permission.thy ===== *)
theory App_Permission
  imports Signing_Scope Text_Sanitize Child_Rules
begin

text \<open>
  \<open>app-permission.ts\<close>: an app asks a persona to sign one fixed statement (kind 30420). The shape
  of the statement, the app's claim about itself, the request that arrives as a URL, and the
  details a guardian's card may show.

  Parameters beside the URL parser: whether 64 hex digits lift to a point of the curve, the
  Unicode class Cf, the decoding of base64 and UTF-8, and \<open>JSON.parse\<close>.
\<close>

record app_env =
  env_platform :: platform
  env_lift_x :: "ustr \<Rightarrow> bool"
  env_Cf :: "ustr \<Rightarrow> bool"
  env_base64_text :: "ustr \<Rightarrow> ustr option"
  env_json :: "ustr \<Rightarrow> jsval option"

section \<open>The statement\<close>

record permission_details =
  pd_appId :: ustr
  pd_installKey :: ustr
  pd_validFrom :: nat
  pd_validUntil :: nat

record permission_template =
  pt_pubkey :: ustr
  pt_tags :: "(ustr \<times> ustr) list"

datatype template_refusal =
    No_keys | No_kind | No_content | No_pubkey | No_tags
  | No_d | No_p | No_valid_from | No_valid_until | No_v | No_role | No_expiration

definition APP_PERMISSION_KIND :: int where
  "APP_PERMISSION_KIND = 30420"

definition APP_PERMISSION_FRESHNESS_S :: int where
  "APP_PERMISSION_FRESHNESS_S = 300"

definition APP_PERMISSION_MAX_VALIDITY_S :: nat where
  "APP_PERMISSION_MAX_VALIDITY_S = 90 * 86400"

definition APP_PERMISSION_NAME_MAX :: nat where
  "APP_PERMISSION_NAME_MAX = 64"

definition APP_PERMISSION_REASON_MAX :: nat where
  "APP_PERMISSION_REASON_MAX = 200"

definition TEMPLATE_KEYS :: "ustr list" where
  "TEMPLATE_KEYS = [u ''content'', u ''kind'', u ''pubkey'', u ''tags'']"

definition TAG_NAMES :: "ustr list" where
  "TAG_NAMES = [u ''d'', u ''p'', u ''valid_from'', u ''valid_until'', u ''v'', u ''role'', u ''expiration'']"

definition APP_ID :: "ustr \<Rightarrow> bool" where
  "APP_ID s \<longleftrightarrow> 1 \<le> length s \<and> length s \<le> 64
     \<and> list_all (\<lambda>c. (97 \<le> c \<and> c \<le> 122) \<or> digit_unit c \<or> c = 45) s"

text \<open>\<open>/^(0|[1-9][0-9]{0,15})$/\<close> and a safe integer.\<close>

definition uint :: "ustr \<Rightarrow> nat option" where
  "uint s = (if is_digits s \<and> (s = [48] \<or> hd s \<noteq> 48) \<and> length s \<le> 16 \<and> dec_val s \<le> 9007199254740991
     then Some (dec_val s) else None)"

definition isXOnlyPoint :: "app_env \<Rightarrow> ustr \<Rightarrow> bool" where
  "isXOnlyPoint E hex \<longleftrightarrow> hex64 hex \<and> env_lift_x E hex"

text \<open>The loop over the tags: each a pair of strings, its name in the list and not seen before.\<close>

fun read_tags :: "jsval list \<Rightarrow> (ustr \<times> ustr) list \<Rightarrow> (ustr \<times> ustr) list option" where
  "read_tags [] vals = Some vals"
| "read_tags (tag # tags) vals =
     (case tag of
        JArr [JStr name, JStr x] \<Rightarrow>
          if name \<notin> set TAG_NAMES \<or> map_of vals name \<noteq> None then None
          else read_tags tags (vals @ [(name, x)])
      | _ \<Rightarrow> None)"

fun object_fields :: "jsval \<Rightarrow> (ustr \<times> jsval) list option" where
  "object_fields (JObj ps) = Some ps"
| "object_fields _ = None"

fun string_value :: "jsval \<Rightarrow> ustr option" where
  "string_value (JStr s) = Some s"
| "string_value _ = None"

fun array_value :: "jsval \<Rightarrow> jsval list option" where
  "array_value (JArr vs) = Some vs"
| "array_value _ = None"

lemma value_readers [simp]:
  "object_fields v = Some ps \<longleftrightarrow> v = JObj ps" "string_value v = Some s \<longleftrightarrow> v = JStr s" "array_value v = Some vs \<longleftrightarrow> v = JArr vs"
  by (cases v; simp)+

definition checkDetails :: "app_env \<Rightarrow> int \<Rightarrow> bool \<Rightarrow> ustr \<Rightarrow> (ustr \<times> ustr) list \<Rightarrow> template_refusal + permission_details" where
  "checkDetails E nowS checkTime pubkey vals =
     (let v = (\<lambda>name. the (map_of vals (u name))) in
      check (APP_ID (v ''d'')) No_d
     (check (isXOnlyPoint E (v ''p'') \<and> v ''p'' \<noteq> pubkey) No_p
     (need (uint (v ''valid_from'')) No_valid_from (\<lambda>validFrom.
      check (\<not> (checkTime \<and> \<bar>int validFrom - nowS\<bar> > APP_PERMISSION_FRESHNESS_S)) No_valid_from
     (need (uint (v ''valid_until'')) No_valid_until (\<lambda>validUntil.
      check (validFrom < validUntil \<and> validUntil \<le> validFrom + APP_PERMISSION_MAX_VALIDITY_S) No_valid_until
     (check (v ''v'' = u ''1'') No_v
     (check (v ''role'' = u ''player'') No_role
     (check (v ''expiration'' = v ''valid_until'') No_expiration
     (Inr \<lparr>pd_appId = v ''d'', pd_installKey = v ''p'', pd_validFrom = validFrom, pd_validUntil = validUntil\<rparr>))))))))))"

definition validateAppPermissionTemplate ::
    "app_env \<Rightarrow> int \<Rightarrow> bool \<Rightarrow> jsval \<Rightarrow> template_refusal + (permission_template \<times> permission_details)" where
  "validateAppPermissionTemplate E nowS checkTime raw =
     need (object_fields raw) No_keys (\<lambda>ps.
      check (sort (map fst ps) = TEMPLATE_KEYS) No_keys
     (check (fld raw (u ''kind'') = JNum (Fin (of_int APP_PERMISSION_KIND))) No_kind
     (check (fld raw (u ''content'') = JStr []) No_content
     (need (string_value (fld raw (u ''pubkey''))) No_pubkey (\<lambda>pubkey.
      check (hex64 pubkey) No_pubkey
     (need (array_value (fld raw (u ''tags''))) No_tags (\<lambda>tags.
      check (length tags = length TAG_NAMES) No_tags
     (need (read_tags tags []) No_tags (\<lambda>vals.
      case checkDetails E nowS checkTime pubkey vals of
        Inl e \<Rightarrow> Inl e
      | Inr d \<Rightarrow> Inr (\<lparr>pt_pubkey = pubkey, pt_tags = vals\<rparr>, d))))))))))"

definition appPermissionTemplateOf :: "template \<Rightarrow> jsval" where
  "appPermissionTemplateOf t = JObj
     [(u ''kind'', JNum (Fin (of_int (tpl_kind t)))), (u ''pubkey'', JStr (tpl_pubkey t)),
      (u ''content'', JStr (tpl_content t)), (u ''tags'', JArr (map (\<lambda>tag. JArr (map JStr tag)) (tpl_tags t)))]"

section \<open>The app's claim\<close>

record permission_claim =
  pc_permission :: ustr
  pc_name :: ustr
  pc_origin :: ustr
  pc_reason :: ustr

definition strip_format :: "app_env \<Rightarrow> ustr \<Rightarrow> ustr" where
  "strip_format E s = concat (filter (\<lambda>p. \<not> (env_Cf E p \<or> p = [0x180E])) (code_points s))"

definition boundedText :: "app_env \<Rightarrow> jsval \<Rightarrow> nat \<Rightarrow> ustr option" where
  "boundedText E raw n =
     (case raw of
        JStr s \<Rightarrow>
          let clean = trim (strip_format E (sanitizeDisplayName s (length s)));
              points = length (code_points clean)
          in if 1 \<le> points \<and> points \<le> n then Some clean else None
      | _ \<Rightarrow> None)"

definition isPermission :: "jsval \<Rightarrow> bool" where
  "isPermission raw \<longleftrightarrow> is_str raw (\<lambda>s. s = u ''online-play'')"

definition canonicalOrigin :: "app_env \<Rightarrow> jsval \<Rightarrow> ustr option" where
  "canonicalOrigin E raw =
     (case raw of
        JStr s \<Rightarrow> (case safeOriginForGrant (env_platform E) s of
            Some safe \<Rightarrow> if safe \<noteq> [] \<and> safe = s then Some safe else None
          | None \<Rightarrow> None)
      | _ \<Rightarrow> None)"

definition checkAppPermissionClaim :: "app_env \<Rightarrow> jsval \<Rightarrow> permission_claim option" where
  "checkAppPermissionClaim E raw =
     (case raw of
        JObj ps \<Rightarrow>
          if sort (map fst ps) \<noteq> [u ''name'', u ''origin'', u ''permission'', u ''reason''] then None
          else if \<not> isPermission (fld raw (u ''permission'')) then None
          else (case (canonicalOrigin E (fld raw (u ''origin'')),
                      boundedText E (fld raw (u ''name'')) APP_PERMISSION_NAME_MAX,
                      boundedText E (fld raw (u ''reason'')) APP_PERMISSION_REASON_MAX) of
              (Some org, Some name, Some reason) \<Rightarrow>
                Some \<lparr>pc_permission = u ''online-play'', pc_name = name, pc_origin = org, pc_reason = reason\<rparr>
            | _ \<Rightarrow> None)
      | _ \<Rightarrow> None)"

definition claim_value :: "permission_claim \<Rightarrow> jsval" where
  "claim_value c = JObj
     [(u ''permission'', JStr (pc_permission c)), (u ''origin'', JStr (pc_origin c)),
      (u ''name'', JStr (pc_name c)), (u ''reason'', JStr (pc_reason c))]"

section \<open>The guardian's card\<close>

text \<open>The fields of a child's ask that the card reads.\<close>

record sign_ask =
  sa_persona :: ustr
  sa_scope :: "ustr option"
  sa_method :: ustr
  sa_target :: ustr
  sa_template :: "template option"
  sa_contentTruncated :: bool
  sa_tagsTruncated :: bool
  sa_appPermission :: "jsval option"

definition appPermissionAskDetails :: "app_env \<Rightarrow> sign_ask \<Rightarrow> (permission_claim \<times> permission_details) option" where
  "appPermissionAskDetails E ask =
     (case sa_template ask of
        None \<Rightarrow> None
      | Some tpl \<Rightarrow>
          if sa_scope ask \<noteq> Some (u ''app-permission'') \<or> sa_method ask \<noteq> u ''sign_event''
             \<or> sa_tagsTruncated ask \<or> sa_contentTruncated ask then None
          else (case Option.bind (sa_appPermission ask) (checkAppPermissionClaim E) of
            None \<Rightarrow> None
          | Some claim \<Rightarrow>
              if siteTarget (env_platform E) (pc_origin claim) \<noteq> Some (sa_target ask) then None
              else (case validateAppPermissionTemplate E 0 False (appPermissionTemplateOf tpl) of
                Inl _ \<Rightarrow> None
              | Inr (t, d) \<Rightarrow> if pt_pubkey t \<noteq> sa_persona ask then None else Some (claim, d))))"

section \<open>The request\<close>

datatype request_refusal =
    Bad_action | Bad_permission | Bad_origin | Bad_callback | Bad_t | Bad_challenge
  | Bad_relay | Bad_session | Bad_name | Bad_reason | Bad_template

record permission_request =
  pq_claim :: permission_claim
  pq_template :: permission_template
  pq_details :: permission_details
  pq_relay :: ustr
  pq_sessionPubkey :: ustr
  pq_challenge :: ustr
  pq_t :: nat
  pq_callback :: ustr

definition isValidOriginScheme :: "url \<Rightarrow> bool" where
  "isValidOriginScheme l \<longleftrightarrow> url_protocol l = u ''https:''
     \<or> url_protocol l = u ''http:'' \<and> (url_hostname l = u ''localhost'' \<or> url_hostname l = u ''127.0.0.1'')"

text \<open>\<open>/^wss:\/\//i\<close>, or \<open>ws://\<close> to the loopback names followed by a port, a path or the end.\<close>

definition isValidRelayUrl :: "ustr \<Rightarrow> bool" where
  "isValidRelayUrl l \<longleftrightarrow>
     (let s = lower l; after = (\<lambda>p. starts_with s p \<and>
            (drop (length p) s = [] \<or> hd (drop (length p) s) = 58 \<or> hd (drop (length p) s) = 47))
      in starts_with s (u ''wss://'') \<or> after (u ''ws://localhost'') \<or> after (u ''ws://127.0.0.1''))"

definition base64url_unit :: "nat \<Rightarrow> bool" where
  "base64url_unit c \<longleftrightarrow> (65 \<le> c \<and> c \<le> 90) \<or> (97 \<le> c \<and> c \<le> 122) \<or> digit_unit c \<or> c = 95 \<or> c = 45"

definition B64URL :: "ustr \<Rightarrow> bool" where
  "B64URL s \<longleftrightarrow> (let body = takeWhile base64url_unit s; rest = dropWhile base64url_unit s
     in body \<noteq> [] \<and> (rest = [] \<or> rest = [61] \<or> rest = [61, 61]))"

text \<open>Padding off, the URL alphabet to the standard one, padding on; then the platform decodes.\<close>

definition decodeBase64Url :: "app_env \<Rightarrow> ustr \<Rightarrow> ustr option" where
  "decodeBase64Url E raw =
     (if \<not> B64URL raw then None
      else let b64 = map (\<lambda>c. if c = 45 then 43 else if c = 95 then 47 else c) (filter (\<lambda>c. c \<noteq> 61) raw)
           in env_base64_text E (b64 @ replicate ((4 - length b64 mod 4) mod 4) 61))"

definition checked_template :: "app_env \<Rightarrow> int \<Rightarrow> jsval \<Rightarrow> (permission_template \<times> permission_details) option" where
  "checked_template E nowS parsed =
     (case validateAppPermissionTemplate E nowS True parsed of Inl _ \<Rightarrow> None | Inr r \<Rightarrow> Some r)"

text \<open>\<open>params\<close> is \<open>URLSearchParams.get\<close>: the first value of a name, or nothing.\<close>

definition parseAppPermissionRequest ::
    "app_env \<Rightarrow> (ustr \<Rightarrow> ustr option) \<Rightarrow> int \<Rightarrow> request_refusal + permission_request" where
  "parseAppPermissionRequest E params nowS =
     (let param = (\<lambda>n. case params (u n) of None \<Rightarrow> [] | Some x \<Rightarrow> x);
          text_param = (\<lambda>n. case params (u n) of None \<Rightarrow> JNull | Some x \<Rightarrow> JStr x) in
      check (params (u ''action'') = Some (u ''app-permission'')) Bad_action
     (check (isPermission (text_param ''permission'')) Bad_permission
     (need (url_parse (env_platform E) (param ''origin'')) Bad_origin (\<lambda>originUrl.
      check (isValidOriginScheme originUrl) Bad_origin
     (need (url_parse (env_platform E) (param ''callback'')) Bad_callback (\<lambda>callbackUrl.
      check (isValidOriginScheme callbackUrl \<and> url_origin callbackUrl = url_origin originUrl) Bad_callback
     (need (uint (param ''t'')) Bad_t (\<lambda>t.
      check (\<bar>nowS - int t\<bar> \<le> APP_PERMISSION_FRESHNESS_S) Bad_t
     (check (hex64 (lower (param ''challenge''))) Bad_challenge
     (check (param ''relay'' \<noteq> [] \<and> length (param ''relay'') \<le> 1024 \<and> isValidRelayUrl (param ''relay'')) Bad_relay
     (check (isXOnlyPoint E (lower (param ''sessionPubkey''))) Bad_session
     (need (boundedText E (text_param ''name'') APP_PERMISSION_NAME_MAX) Bad_name (\<lambda>name.
      need (boundedText E (text_param ''reason'') APP_PERMISSION_REASON_MAX) Bad_reason (\<lambda>reason.
      check (param ''template'' \<noteq> [] \<and> length (param ''template'') \<le> 4096) Bad_template
     (need (Option.bind (decodeBase64Url E (param ''template'')) (env_json E)) Bad_template (\<lambda>parsed.
      need (checked_template E nowS parsed) Bad_template (\<lambda>(tpl, d). Inr
        \<lparr>pq_claim = \<lparr>pc_permission = u ''online-play'', pc_name = name, pc_origin = url_origin originUrl, pc_reason = reason\<rparr>,
         pq_template = tpl, pq_details = d, pq_relay = param ''relay'',
         pq_sessionPubkey = lower (param ''sessionPubkey''), pq_challenge = lower (param ''challenge''),
         pq_t = t, pq_callback = url_href callbackUrl\<rparr>)))))))))))))))))"

section \<open>Text that is stripped stays stripped\<close>

lemma code_points_plain: "\<not> surrogate c \<Longrightarrow> code_points (c # s) = [c] # code_points s"
  by (cases s) (auto simp: surrogate_def)

lemma code_points_pair: "high_surrogate c \<Longrightarrow> low_surrogate d \<Longrightarrow> code_points (c # d # s) = [c, d] # code_points s"
  by simp

text \<open>Every code point of well-formed text is a plain unit or a pair, so any selection of them stands.\<close>

definition good_point :: "ustr \<Rightarrow> bool" where
  "good_point p \<longleftrightarrow> (\<exists>c. p = [c] \<and> \<not> surrogate c) \<or> (\<exists>c d. p = [c, d] \<and> high_surrogate c \<and> low_surrogate d)"

lemma wf_points: "wf_utf16 s \<Longrightarrow> list_all good_point (code_points s)"
  by (induction s rule: code_points.induct)
    (auto simp: good_point_def wf_utf16_def surrogate_def)

lemma points_concat: "list_all good_point ps \<Longrightarrow> code_points (concat ps) = ps \<and> wf_utf16 (concat ps)"
proof (induction ps)
  case (Cons p ps)
  then consider c where "p = [c]" "\<not> surrogate c" | c d where "p = [c, d]" "high_surrogate c" "low_surrogate d"
    by (auto simp: good_point_def)
  then show ?case
  proof cases
    case 1
    then show ?thesis
      using Cons by (simp add: code_points_plain)
  next
    case 2
    then show ?thesis
      using Cons by (simp add: code_points_pair wf_utf16_surrogate surrogate_def)
  qed
qed simp

lemma code_points_snoc: "wf_utf16 s \<Longrightarrow> \<not> surrogate c \<Longrightarrow> code_points (s @ [c]) = code_points s @ [ [c] ]"
proof -
  assume s: "wf_utf16 s" "\<not> surrogate c"
  then have "list_all good_point (code_points s @ [ [c] ])"
    by (simp add: wf_points good_point_def)
  then show ?thesis
    using points_concat [of "code_points s @ [ [c] ]"] by simp
qed

lemma points_dropWhile: "wf_utf16 s \<Longrightarrow> set (code_points (dropWhile is_space s)) \<subseteq> set (code_points s)"
  by (induction s) (auto simp: space_not_surrogate code_points_plain)

lemma points_rdrop: "wf_utf16 s \<Longrightarrow> set (code_points (rev (dropWhile is_space (rev s)))) \<subseteq> set (code_points s)"
  by (induction s rule: rev_induct)
    (auto simp: wf_utf16_append_plain space_not_surrogate code_points_snoc)

lemma points_trim: "wf_utf16 s \<Longrightarrow> set (code_points (trim s)) \<subseteq> set (code_points s)"
  using points_dropWhile [of s] points_rdrop [of "dropWhile is_space s"] wf_utf16_dropWhile [of s]
  by (auto simp: trim_def)

lemma dropWhile_idem: "dropWhile Q (dropWhile Q xs) = dropWhile Q xs"
  by (induction xs) auto

lemma dropWhile_fix: "dropWhile Q x = x \<Longrightarrow> dropWhile Q (take k x) = take k x"
proof (cases x)
  case (Cons a y)
  assume whole: "dropWhile Q x = x"
  have "\<not> Q a"
  proof
    assume "Q a"
    then have "length (dropWhile Q y) = length (a # y)"
      using whole Cons by simp
    then show False
      using length_dropWhile_le [of Q y] by simp
  qed
  then show ?thesis
    using Cons by (cases k) simp_all
qed simp

lemma trim_idem [simp]: "trim (trim s) = trim s"
proof -
  let ?f = "dropWhile is_space s"
  have "trim s = take (length ?f - length (takeWhile is_space (rev ?f))) ?f"
    by (simp add: trim_def dropWhile_eq_drop [of is_space "rev ?f"] rev_drop)
  then have "dropWhile is_space (trim s) = trim s"
    using dropWhile_fix [OF dropWhile_idem] by simp
  then show ?thesis
    by (simp add: trim_def dropWhile_idem)
qed

lemma boundedText_stable:
  assumes "boundedText E (JStr s) n = Some t" and "wf_utf16 s"
  shows "boundedText E (JStr t) n = Some t"
    and "\<forall>p \<in> set (code_points t). \<not> env_Cf E p \<and> p \<noteq> [0x180E]"
    and "\<forall>c \<in> set t. \<not> CONTROL_BIDI c"
proof -
  let ?a = "sanitizeDisplayName s (length s)" and ?Q = "\<lambda>p. \<not> (env_Cf E p \<or> p = [0x180E])"
  have t: "t = trim (strip_format E ?a)" and len: "1 \<le> length (code_points t)" "length (code_points t) \<le> n"
    using assms(1) by (auto simp: boundedText_def Let_def split: if_splits)
  have "wf_utf16 ?a"
    using assms(2) wf_sanitize by simp
  then have good: "list_all good_point (filter ?Q (code_points ?a))"
    using wf_points by (auto simp: list_all_iff)
  then have b: "code_points (strip_format E ?a) = filter ?Q (code_points ?a)" "wf_utf16 (strip_format E ?a)"
    using points_concat by (auto simp: strip_format_def)
  then have q: "\<forall>p \<in> set (code_points t). ?Q p"
    using points_trim [OF b(2)] t by auto
  then show "\<forall>p \<in> set (code_points t). \<not> env_Cf E p \<and> p \<noteq> [0x180E]"
    by simp
  have "set (strip_format E ?a) \<subseteq> set ?a"
  proof -
    have "set (concat (filter ?Q (code_points ?a))) \<subseteq> set (concat (code_points ?a))"
      by (auto simp del: concat_code_points)
    then show ?thesis
      by (simp only: strip_format_def concat_code_points)
  qed
  then show c: "\<forall>c \<in> set t. \<not> CONTROL_BIDI c"
    using set_trim [of "strip_format E ?a"] sanitize_no_control [of _ s "length s"] t by blast
  then have "filter (\<lambda>c. \<not> CONTROL_BIDI c) t = t"
    by simp
  then have "sanitizeDisplayName t (length t) = t"
    by (simp add: sanitizeDisplayName_def t capCodePoints_def)
  moreover have "strip_format E t = t"
    using q by (simp add: strip_format_def)
  ultimately show "boundedText E (JStr t) n = Some t"
    using len by (simp add: boundedText_def Let_def t)
qed

section \<open>Properties\<close>

lemma read_tags_stable:
  "read_tags tags acc = Some vals \<Longrightarrow>
   \<exists>new. vals = acc @ new \<and> length new = length tags
     \<and> read_tags (map (\<lambda>(n, x). JArr [JStr n, JStr x]) new) acc = Some vals"
proof (induction tags arbitrary: acc)
  case (Cons tag tags)
  then obtain name x where tag: "tag = JArr [JStr name, JStr x]" "name \<in> set TAG_NAMES" "map_of acc name = None"
      and rest: "read_tags tags (acc @ [(name, x)]) = Some vals"
    using Cons.prems by (auto split: jsval.splits list.splits if_splits)
  then obtain new where new: "vals = (acc @ [(name, x)]) @ new" "length new = length tags"
      "read_tags (map (\<lambda>(n, x). JArr [JStr n, JStr x]) new) (acc @ [(name, x)]) = Some vals"
    using Cons.IH by blast
  then show ?case
    using tag by (intro exI [of _ "(name, x) # new"]) simp
qed simp

definition template_value :: "permission_template \<Rightarrow> jsval" where
  "template_value t = JObj
     [(u ''kind'', JNum (Fin (of_int APP_PERMISSION_KIND))), (u ''pubkey'', JStr (pt_pubkey t)),
      (u ''content'', JStr []), (u ''tags'', JArr (map (\<lambda>(n, x). JArr [JStr n, JStr x]) (pt_tags t)))]"

lemma template_keys: "sort (map fst (case template_value t of JObj ps \<Rightarrow> ps)) = TEMPLATE_KEYS"
  by (simp add: template_value_def TEMPLATE_KEYS_def u_def)

lemma validate_Inr:
  assumes "validateAppPermissionTemplate E nowS ct raw = Inr (t, d)"
  obtains ps tags where "raw = JObj ps" "fld raw (u ''tags'') = JArr tags" "length tags = length TAG_NAMES"
    "hex64 (pt_pubkey t)" "read_tags tags [] = Some (pt_tags t)" "checkDetails E nowS ct (pt_pubkey t) (pt_tags t) = Inr d"
proof -
  obtain ps pubkey tags vals where r: "raw = JObj ps" "fld raw (u ''tags'') = JArr tags" "length tags = length TAG_NAMES"
      "hex64 pubkey" "read_tags tags [] = Some vals"
      "(case checkDetails E nowS ct pubkey vals of Inl e \<Rightarrow> Inl e
        | Inr d \<Rightarrow> Inr (\<lparr>pt_pubkey = pubkey, pt_tags = vals\<rparr>, d)) = Inr (t, d)"
    using assms unfolding validateAppPermissionTemplate_def check_simps value_readers by blast
  then have "checkDetails E nowS ct pubkey vals = Inr d" "t = \<lparr>pt_pubkey = pubkey, pt_tags = vals\<rparr>"
    by (auto split: sum.splits)
  with r show thesis
    by (intro that [of ps tags]) simp_all
qed

lemma validate_again:
  assumes "validateAppPermissionTemplate E nowS ct raw = Inr (t, d)"
  shows "validateAppPermissionTemplate E nowS ct (template_value t) = Inr (t, d)"
proof -
  obtain tags where r: "hex64 (pt_pubkey t)" "read_tags tags [] = Some (pt_tags t)" "length tags = length TAG_NAMES"
      "checkDetails E nowS ct (pt_pubkey t) (pt_tags t) = Inr d"
    using validate_Inr [OF assms] by metis
  then have "read_tags (map (\<lambda>(n, x). JArr [JStr n, JStr x]) (pt_tags t)) [] = Some (pt_tags t)"
      "length (pt_tags t) = length TAG_NAMES"
    using read_tags_stable [OF r(2)] by auto
  moreover have "sort [u ''kind'', u ''pubkey'', u ''content'', u ''tags''] = TEMPLATE_KEYS"
    by (simp add: TEMPLATE_KEYS_def u_def)
  ultimately show ?thesis
    using r by (simp add: validateAppPermissionTemplate_def template_value_def)
qed

lemma checkDetails_bounds:
  assumes "checkDetails E nowS ct pk vals = Inr d"
  shows "pd_validFrom d < pd_validUntil d \<and> pd_validUntil d \<le> pd_validFrom d + APP_PERMISSION_MAX_VALIDITY_S
    \<and> (ct \<longrightarrow> \<bar>int (pd_validFrom d) - nowS\<bar> \<le> APP_PERMISSION_FRESHNESS_S)
    \<and> isXOnlyPoint E (pd_installKey d) \<and> pd_installKey d \<noteq> pk \<and> APP_ID (pd_appId d)"
  using assms by (auto simp: checkDetails_def Let_def check_simps)

text \<open>
  A statement that passes the one-shape check is exactly representable: written
  out again from what was read (whatever the order of its keys and tags was), it passes with the
  same reading; the window it grants is non-empty and at most ninety days, the key it names is a
  curve point and not the signer's own, and the freshness check, when asked for, held.
\<close>

lemma template_roundtrip:
  assumes "validateAppPermissionTemplate E nowS ct raw = Inr (t, d)"
  shows "validateAppPermissionTemplate E nowS ct (template_value t) = Inr (t, d)
    \<and> pd_validFrom d < pd_validUntil d \<and> pd_validUntil d \<le> pd_validFrom d + APP_PERMISSION_MAX_VALIDITY_S
    \<and> (ct \<longrightarrow> \<bar>int (pd_validFrom d) - nowS\<bar> \<le> APP_PERMISSION_FRESHNESS_S)
    \<and> isXOnlyPoint E (pd_installKey d) \<and> pd_installKey d \<noteq> pt_pubkey t"
proof -
  have "checkDetails E nowS ct (pt_pubkey t) (pt_tags t) = Inr d"
    using validate_Inr [OF assms] by metis
  then show ?thesis
    using validate_again [OF assms] checkDetails_bounds by blast
qed

definition sample_env :: app_env where
  "sample_env =
     \<lparr>env_platform = \<lparr>url_parse = (\<lambda>s. Some \<lparr>url_protocol = u ''https:'', url_hostname = s, url_origin = u ''https://a'', url_href = s\<rparr>),
                      number_text = (\<lambda>r. [])\<rparr>,
      env_lift_x = (\<lambda>s. True), env_Cf = (\<lambda>p. p = [0xAD] \<or> p = [0xDB40, 0xDC01]),
      env_base64_text = Some, env_json = (\<lambda>s. None)\<rparr>"

definition sample_statement :: jsval where
  "sample_statement = JObj
     [(u ''tags'', JArr (map (\<lambda>(n, x). JArr [JStr n, JStr x])
         [(u ''d'', u ''chess''), (u ''p'', replicate 64 98), (u ''valid_from'', u ''1000''), (u ''valid_until'', u ''2000''),
          (u ''v'', u ''1''), (u ''role'', u ''player''), (u ''expiration'', u ''2000'')])),
      (u ''content'', JStr []), (u ''kind'', JNum (Fin 30420)), (u ''pubkey'', JStr (replicate 64 97))]"

lemma sample_uint: "uint (u ''1000'') = Some 1000" "uint (u ''2000'') = Some 2000"
  by (simp_all add: uint_def is_digits_def digit_unit_def dec_val_def u_def)

lemma sample_hex: "hex64 (replicate 64 97)" "hex64 (replicate 64 98)" "replicate 64 98 \<noteq> replicate 64 (97::nat)"
  by (simp_all add: is_hex_str_def list_all_iff hex_unit_def)

lemma sample_statement_ok:
  assumes "\<And>s. env_lift_x E s" and "\<bar>1000 - nowS\<bar> \<le> 300"
  shows "\<exists>t d. validateAppPermissionTemplate E nowS True sample_statement = Inr (t, d)"
proof -
  have "sort [u ''tags'', u ''content'', u ''kind'', u ''pubkey''] = TEMPLATE_KEYS"
    by (simp add: TEMPLATE_KEYS_def u_def)
  moreover have "APP_ID (u ''chess'')"
    by (simp add: APP_ID_def u_def)
  ultimately show ?thesis
    using sample_hex sample_uint assms
    by (simp add: validateAppPermissionTemplate_def sample_statement_def APP_PERMISSION_KIND_def TAG_NAMES_def
        checkDetails_def Let_def isXOnlyPoint_def APP_PERMISSION_FRESHNESS_S_def APP_PERMISSION_MAX_VALIDITY_S_def)
qed

lemma template_roundtrip_witness:
  "\<exists>t d. validateAppPermissionTemplate sample_env 900 True (template_value t) = Inr (t, d) \<and> pd_validFrom d < pd_validUntil d"
proof -
  obtain t d where "validateAppPermissionTemplate sample_env 900 True sample_statement = Inr (t, d)"
    using sample_statement_ok [of sample_env 900] by (auto simp: sample_env_def)
  from template_roundtrip [OF this] show ?thesis
    by blast
qed

text \<open>
  The text an app supplies about itself is stable once cleaned: for a well-formed
  string the cleaned name has between one code point and the cap, no control, bidi or Unicode
  format character, and cleaning it again on the guardian's phone changes nothing.
\<close>

theorem boundedText_clean:
  assumes "boundedText E (JStr s) n = Some t" and "wf_utf16 s"
  shows "boundedText E (JStr t) n = Some t
    \<and> 1 \<le> length (code_points t) \<and> length (code_points t) \<le> n
    \<and> (\<nexists>c. c \<in> set t \<and> CONTROL_BIDI c)
    \<and> (\<nexists>p. p \<in> set (code_points t) \<and> env_Cf E p)"
  using boundedText_stable [OF assms] by (auto simp: boundedText_def Let_def split: if_splits)

theorem boundedText_clean_witness:
  "boundedText sample_env (JStr [0x20, 65, 0xAD, 66]) 64 = Some [65, 66]
   \<and> boundedText sample_env (JStr [65, 66]) 64 = Some [65, 66]"
proof -
  have "boundedText sample_env (JStr [0x20, 65, 0xAD, 66]) 64 = Some [65, 66]"
    by (simp add: boundedText_def strip_format_def sanitizeDisplayName_def capCodePoints_def CONTROL_BIDI_def
        trim_def is_space_def high_surrogate_def low_surrogate_def sample_env_def)
  moreover have "wf_utf16 [0x20, 65, 0xAD, 66]"
    by (simp add: wf_utf16_def high_surrogate_def low_surrogate_def surrogate_def)
  ultimately show ?thesis
    using boundedText_clean by blast
qed

text \<open>
  With a lone surrogate the strip can make what it removes: a soft hyphen between the
  halves of a pair is dropped, the halves join, and a name that is one invisible Unicode tag
  character passes as a name of one character.
\<close>

theorem boundedText_joins:
  "boundedText sample_env (JStr [0xDB40, 0xAD, 0xDC01]) 64 = Some [0xDB40, 0xDC01]
   \<and> env_Cf sample_env [0xDB40, 0xDC01] \<and> code_points [0xDB40, 0xDC01] = [ [0xDB40, 0xDC01] ]"
  by (simp add: boundedText_def strip_format_def sanitizeDisplayName_def capCodePoints_def CONTROL_BIDI_def
      trim_def is_space_def high_surrogate_def low_surrogate_def sample_env_def)

lemma claim_again:
  assumes "boundedText E (JStr n) APP_PERMISSION_NAME_MAX = Some name" "boundedText E (JStr r) APP_PERMISSION_REASON_MAX = Some reason"
    and "wf_utf16 n" "wf_utf16 r" and "safeOriginForGrant (env_platform E) org = Some org" "org \<noteq> []"
  shows "checkAppPermissionClaim E (claim_value \<lparr>pc_permission = u ''online-play'', pc_name = name, pc_origin = org, pc_reason = reason\<rparr>)
       = Some \<lparr>pc_permission = u ''online-play'', pc_name = name, pc_origin = org, pc_reason = reason\<rparr>"
proof -
  have "sort [u ''permission'', u ''origin'', u ''name'', u ''reason''] = [u ''name'', u ''origin'', u ''permission'', u ''reason'']"
    by (simp add: u_def)
  then show ?thesis
    using boundedText_stable(1) [OF assms(1,3)] boundedText_stable(1) [OF assms(2,4)] assms(5,6)
    by (simp add: checkAppPermissionClaim_def claim_value_def isPermission_def is_str_def canonicalOrigin_def)
qed

lemma safeOrigin_scheme:
  "url_parse P s = Some l \<Longrightarrow> isValidOriginScheme l \<Longrightarrow> safeOriginForGrant P s = Some (url_origin l)"
  by (auto simp: safeOriginForGrant_def isValidOriginScheme_def)

text \<open>
  A request the child's phone accepts carries a claim the guardian's phone
  accepts as it stands: checked again from its four fields it reads the same, and the keys the
  answer goes to are well-formed. Of the platform this uses that query values are well-formed
  UTF-16 and that the origin of an accepted URL is itself a URL of that origin.
\<close>

theorem request_claim_passes:
  assumes parsed: "parseAppPermissionRequest E params nowS = Inr r"
    and utf16: "\<And>n s. params n = Some s \<Longrightarrow> wf_utf16 s"
    and origins: "\<And>s l. url_parse (env_platform E) s = Some l \<Longrightarrow> isValidOriginScheme l \<Longrightarrow> url_origin l \<noteq> []
      \<and> (\<exists>l'. url_parse (env_platform E) (url_origin l) = Some l' \<and> isValidOriginScheme l' \<and> url_origin l' = url_origin l)"
  shows "checkAppPermissionClaim E (claim_value (pq_claim r)) = Some (pq_claim r)
    \<and> hex64 (pq_sessionPubkey r) \<and> hex64 (pq_challenge r)"
proof -
  let ?text = "\<lambda>n. case params (u n) of None \<Rightarrow> JNull | Some x \<Rightarrow> JStr x"
  obtain l name reason where l: "url_parse (env_platform E) (case params (u ''origin'') of None \<Rightarrow> [] | Some x \<Rightarrow> x) = Some l"
      "isValidOriginScheme l"
      and texts: "boundedText E (?text ''name'') APP_PERMISSION_NAME_MAX = Some name"
        "boundedText E (?text ''reason'') APP_PERMISSION_REASON_MAX = Some reason"
      and claim: "pq_claim r = \<lparr>pc_permission = u ''online-play'', pc_name = name, pc_origin = url_origin l, pc_reason = reason\<rparr>"
      and keys: "isXOnlyPoint E (pq_sessionPubkey r)" "hex64 (pq_challenge r)"
    using parsed unfolding parseAppPermissionRequest_def Let_def check_simps by auto
  obtain n where n: "params (u ''name'') = Some n" "boundedText E (JStr n) APP_PERMISSION_NAME_MAX = Some name"
    using texts(1) by (cases "params (u ''name'')") (auto simp: boundedText_def)
  obtain m where m: "params (u ''reason'') = Some m" "boundedText E (JStr m) APP_PERMISSION_REASON_MAX = Some reason"
    using texts(2) by (cases "params (u ''reason'')") (auto simp: boundedText_def)
  have "safeOriginForGrant (env_platform E) (url_origin l) = Some (url_origin l)" "url_origin l \<noteq> []"
    using origins [OF l] safeOrigin_scheme by metis+
  then show ?thesis
    using claim_again [OF n(2) m(2) utf16 [OF n(1)] utf16 [OF m(1)]] claim keys by (simp add: isXOnlyPoint_def)
qed

definition sample_params :: "ustr \<Rightarrow> ustr option" where
  "sample_params = map_of
     [(u ''action'', u ''app-permission''), (u ''permission'', u ''online-play''), (u ''origin'', u ''https://a''),
      (u ''callback'', u ''https://a''), (u ''t'', u ''1000''), (u ''challenge'', replicate 64 97),
      (u ''relay'', u ''wss://r''), (u ''sessionPubkey'', replicate 64 98), (u ''name'', u ''Chess''),
      (u ''reason'', u ''Play''), (u ''template'', u ''AAAA'')]"

definition request_env :: app_env where
  "request_env = sample_env\<lparr>env_json := \<lambda>s. Some sample_statement\<rparr>"

lemma wf_ascii: "list_all (\<lambda>c. c < 128) s \<Longrightarrow> wf_utf16 s"
  by (induction s) (auto simp: surrogate_def high_surrogate_def low_surrogate_def)

lemma sample_request:
  "\<exists>r. parseAppPermissionRequest request_env sample_params 1000 = Inr r
     \<and> pq_claim r = \<lparr>pc_permission = u ''online-play'', pc_name = u ''Chess'', pc_origin = u ''https://a'', pc_reason = u ''Play''\<rparr>"
proof -
  have texts: "boundedText request_env (JStr (u ''Chess'')) APP_PERMISSION_NAME_MAX = Some (u ''Chess'')"
      "boundedText request_env (JStr (u ''Play'')) APP_PERMISSION_REASON_MAX = Some (u ''Play'')"
    by (simp_all add: boundedText_def strip_format_def sanitizeDisplayName_def capCodePoints_def CONTROL_BIDI_def
      trim_def is_space_def high_surrogate_def low_surrogate_def request_env_def sample_env_def u_def
      APP_PERMISSION_NAME_MAX_def APP_PERMISSION_REASON_MAX_def)
  have pars: "env_platform request_env = env_platform sample_env"
    by (simp add: request_env_def)
  have lowers: "lower (replicate 64 97) = replicate 64 97" "lower (replicate 64 98) = replicate 64 98"
    using lower_hex sample_hex by blast+
  have pts: "isXOnlyPoint request_env (replicate 64 98)"
    using sample_hex by (simp add: isXOnlyPoint_def request_env_def sample_env_def)
  have relay: "isValidRelayUrl (u ''wss://r'')"
    by (simp add: isValidRelayUrl_def starts_with_def lower_def lower_unit_def u_def)
  have "\<exists>t d. checked_template request_env 1000 sample_statement = Some (t, d)"
    using sample_statement_ok [of request_env 1000] by (auto simp: checked_template_def request_env_def sample_env_def)
  then obtain t d where tpl: "checked_template request_env 1000 sample_statement = Some (t, d)"
    by blast
  have b64: "Option.bind (decodeBase64Url request_env (u ''AAAA'')) (env_json request_env) = Some sample_statement"
    by (simp add: decodeBase64Url_def B64URL_def base64url_unit_def digit_unit_def request_env_def sample_env_def u_def)
  have "isPermission (JStr (u ''online-play''))"
    by (simp add: isPermission_def is_str_def)
  then show ?thesis
    using texts lowers pts relay tpl b64 sample_hex sample_uint pars
    by (simp add: parseAppPermissionRequest_def Let_def sample_params_def sample_env_def isValidOriginScheme_def
        APP_PERMISSION_FRESHNESS_S_def)
qed

theorem request_claim_passes_witness:
  "\<exists>r. parseAppPermissionRequest request_env sample_params 1000 = Inr r
     \<and> checkAppPermissionClaim request_env (claim_value (pq_claim r)) = Some (pq_claim r)"
proof -
  obtain r where r: "parseAppPermissionRequest request_env sample_params 1000 = Inr r"
    using sample_request by blast
  have "wf_utf16 s" if "sample_params n = Some s" for n s
    using that by (intro wf_ascii) (auto simp: sample_params_def u_def list_all_iff split: if_splits)
  then have "checkAppPermissionClaim request_env (claim_value (pq_claim r)) = Some (pq_claim r)"
    using request_claim_passes [OF r] by (auto simp: request_env_def sample_env_def isValidOriginScheme_def)
  with r show ?thesis
    by blast
qed

end
