(* ===== verification/Child_Gate.thy ===== *)
theory Child_Gate
  imports App_Permission
begin

text \<open>
  \<open>child-gate.ts\<close>: the decision for one request on a dependant's own phone, from the guardian's
  rules payload, the request and the counter's state. The time-zone clock and the parameters of
  \<open>App_Permission\<close> are arguments; \<open>None\<close> is the exception of a schedule whose zone the clock refuses.
\<close>

section \<open>Input and verdict\<close>

record rules_payload =
  rp_dependantId :: ustr
  rp_stage :: stage
  rp_defaultSchedule :: "schedule option"
  rp_ceilingKinds :: "int list"
  rp_rules :: "child_rule list"
  rp_disconnectedApps :: "ustr list"
  rp_personas :: "ustr list option"
  rp_updatedAt :: rat

datatype sign_reason = By_rule | By_stage
datatype deny_reason = Rule_denies | Rate_limited | Disconnected_app
datatype ask_reason = Stage_asks | Outside_ceiling

datatype verdict =
    Sign sign_reason "ustr option" bool
  | Refuse deny_reason "ustr option"
  | Blocked_by_schedule "rat option"
  | Ask ask_reason bool

record gate_input =
  gi_rules :: "rules_payload option"
  gi_persona :: ustr
  gi_template :: template
  gi_appId :: ustr
  gi_siteOrigin :: "ustr option"
  gi_nowMs :: rat
  gi_rateState :: rate_state
  gi_appPermission :: "jsval option"
  gi_appPermissionApproved :: bool

section \<open>Targets\<close>

text \<open>\<open>if (t && !out.includes(t)) out.push(t)\<close>.\<close>

definition push_new :: "ustr option \<Rightarrow> ustr list \<Rightarrow> ustr list" where
  "push_new t out = (case t of Some x \<Rightarrow> if x \<in> set out then out else out @ [x] | None \<Rightarrow> out)"

text \<open>A string that is absent or empty is false.\<close>

definition truthy_str :: "ustr option \<Rightarrow> ustr option" where
  "truthy_str s = (if s = Some [] then None else s)"

definition inferredTarget :: "app_env \<Rightarrow> template \<Rightarrow> scope option \<Rightarrow> ustr option" where
  "inferredTarget E t sc =
     Option.bind (truthy_str (Option.bind sc (inferOrigin (env_platform E) t)))
       (\<lambda>org. if is_http org then siteTarget (env_platform E) org else peerTarget org)"

definition childTargetsFor :: "app_env \<Rightarrow> template \<Rightarrow> scope option \<Rightarrow> ustr \<Rightarrow> ustr option \<Rightarrow> ustr list" where
  "childTargetsFor E t sc appId siteOrigin =
     push_new (if appId = [] then None else Some (appTarget appId))
       (push_new (Option.bind (truthy_str siteOrigin) (siteTarget (env_platform E)))
         (push_new (inferredTarget E t sc) []))"

section \<open>The decision\<close>

definition RELAY_AUTH_KIND :: int where
  "RELAY_AUTH_KIND = 22242"

definition OWN_APP_ID :: ustr where
  "OWN_APP_ID = u ''mysignet''"

definition alwaysOffered :: "rules_payload \<Rightarrow> bool" where
  "alwaysOffered rp \<longleftrightarrow> rp_stage rp \<noteq> Full_control"

fun scope_name :: "scope \<Rightarrow> ustr" where
  "scope_name Sign_in = u ''sign-in''"
| "scope_name Venue_entry = u ''venue-entry''"
| "scope_name Post_public = u ''post-public''"
| "scope_name Dm_private = u ''dm-private''"
| "scope_name Upload_photo = u ''upload-photo''"
| "scope_name React_zap_reply = u ''react-zap-reply''"
| "scope_name Pair_device = u ''pair-device''"
| "scope_name Mutate_identity = u ''mutate-identity''"
| "scope_name App_permission = u ''app-permission''"

definition int_text :: "int \<Rightarrow> ustr" where
  "int_text k = (if k < 0 then 45 # nat_text (nat (- k)) else nat_text (nat k))"

definition scope_key :: "template \<Rightarrow> scope option \<Rightarrow> ustr" where
  "scope_key t sc = (case sc of Some s \<Rightarrow> scope_name s | None \<Rightarrow> u ''kind:'' @ int_text (tpl_kind t))"

text \<open>
  The schedule step: nothing to check, allowed, or the verdict that blocks. The default horizon of
  the search for the next allowed instant is thirty days.
\<close>

definition schedule_step :: "tz_clock \<Rightarrow> schedule option \<Rightarrow> rat \<Rightarrow> (verdict option) option" where
  "schedule_step C sched nowMs =
     (case sched of
        None \<Rightarrow> Some None
      | Some s \<Rightarrow> map_option (\<lambda>w. case w of Allowed \<Rightarrow> None | Denied next \<Rightarrow> Some (Blocked_by_schedule next))
          (isWithinSchedule C s nowMs 30))"

definition after_schedule :: "tz_clock \<Rightarrow> schedule option \<Rightarrow> rat \<Rightarrow> verdict \<Rightarrow> verdict option" where
  "after_schedule C sched nowMs v =
     map_option (\<lambda>b. case b of Some blocked \<Rightarrow> blocked | None \<Rightarrow> v) (schedule_step C sched nowMs)"

definition stage_verdict :: "rules_payload \<Rightarrow> scope option \<Rightarrow> verdict" where
  "stage_verdict rp sc =
     (let policy = resolvePolicy (rp_stage rp) sc in
      if policy = Auto then Sign By_stage None False
      else if policy = Auto_alert \<or> policy = Auto_log then Sign By_stage None True
      else Ask Stage_asks (alwaysOffered rp))"

definition ruled_verdict :: "rules_payload \<Rightarrow> child_rule option \<Rightarrow> scope option \<Rightarrow> int option \<Rightarrow> bool \<Rightarrow> verdict" where
  "ruled_verdict rp rule sc ceilingKind ownRelayAuth =
     (let everyKind = (rp_stage rp = Full_autonomy \<and> rp_ceilingKinds rp = []) in
      if (\<exists>k \<in> set_option ceilingKind. \<not> everyKind \<and> k \<notin> set (rp_ceilingKinds rp))
        then Ask Outside_ceiling (alwaysOffered rp)
      else if ownRelayAuth \<and> (\<forall>r \<in> set_option rule. cr_decision r \<noteq> Deny) then Sign By_stage None False
      else case rule of
        Some r \<Rightarrow> if cr_decision r = Allow then Sign By_rule (Some (cr_id r)) True else Refuse Rule_denies (Some (cr_id r))
      | None \<Rightarrow> stage_verdict rp sc)"

definition usable_rules :: "rules_payload \<Rightarrow> child_rule list" where
  "usable_rules rp = (if rp_stage rp = Full_control
     then filter (\<lambda>r. cr_decision r = Deny) (rp_rules rp) else rp_rules rp)"

definition decideWithRules ::
    "tz_clock \<Rightarrow> rules_payload \<Rightarrow> ustr \<Rightarrow> scope option \<Rightarrow> ustr \<Rightarrow> ustr list \<Rightarrow> rat \<Rightarrow> int option \<Rightarrow> bool \<Rightarrow> verdict option" where
  "decideWithRules C rp persona sc scopeKey targets nowMs ceilingKind ownRelayAuth =
     (let rule = findRule (usable_rules rp) persona scopeKey targets nowMs;
          effective = intersectSchedules (rp_defaultSchedule rp) (Option.bind rule cr_schedule)
      in after_schedule C effective nowMs (ruled_verdict rp rule sc ceilingKind ownRelayAuth))"

definition preflight :: "rules_payload option \<Rightarrow> ustr \<Rightarrow> ustr \<Rightarrow> rat \<Rightarrow> rate_state \<Rightarrow> verdict option" where
  "preflight rules persona appId nowMs rateState =
     (let app = normaliseAppId appId;
          blocker = Option.bind rules (\<lambda>rp. if app = [] then None
            else findBlockingAppRule (rp_rules rp) persona [appTarget app] nowMs)
      in if (\<exists>rp \<in> set_option rules. \<exists>a \<in> set (rp_disconnectedApps rp). normaliseAppId a = app)
           then Some (Refuse Disconnected_app None)
         else case blocker of
           Some b \<Rightarrow> Some (Refuse Rule_denies (Some (cr_id b)))
         | None \<Rightarrow> if \<not> fst (checkRateLimit DEFAULT_RATE_LIMIT (Some rateState) nowMs)
                   then Some (Refuse Rate_limited None) else None)"

section \<open>App permissions\<close>

definition standing_rule :: "ustr \<Rightarrow> ustr \<Rightarrow> permission_details \<Rightarrow> child_rule \<Rightarrow> bool" where
  "standing_rule persona target d r \<longleftrightarrow>
     cr_scope r = u ''app-permission'' \<and> cr_decision r = Allow \<and> cr_persona r = persona \<and> cr_target r = target
     \<and> (\<exists>b \<in> set_option (cr_appPermission r). ab_appId b = pd_appId d \<and> ab_installKey b = pd_installKey d)
     \<and> (\<exists>e \<in> set_option (cr_expiresAt r). of_nat (pd_validUntil d) * 1000 \<le> e)"

text \<open>The grant that lets a full-autonomy dependant sign: a standing one, else the guardian's delegation.\<close>

definition permission_grant ::
    "rules_payload \<Rightarrow> ustr \<Rightarrow> rat \<Rightarrow> ustr list \<Rightarrow> bool \<Rightarrow> ustr \<Rightarrow> permission_details \<Rightarrow> child_rule option" where
  "permission_grant rp persona nowMs targets approved target d =
     (let standing = findRule (filter (standing_rule persona target d) (rp_rules rp)) persona (u ''app-permission'') [target] nowMs;
          delegation = (if approved
            then findRule (filter (\<lambda>r. cr_scope r = u ''app-permission-self'') (rp_rules rp)) persona (u ''app-permission-self'') targets nowMs
            else None)
      in case standing of
           Some r \<Rightarrow> Some r
         | None \<Rightarrow> (case delegation of
             Some r \<Rightarrow> if cr_decision r = Allow then Some r else None
           | None \<Rightarrow> None))"

definition autonomy_grant ::
    "app_env \<Rightarrow> rules_payload \<Rightarrow> ustr \<Rightarrow> rat \<Rightarrow> ustr list \<Rightarrow> template \<Rightarrow> jsval option \<Rightarrow> bool \<Rightarrow> child_rule option" where
  "autonomy_grant E rp persona nowMs targets tpl claim approved =
     (if rp_stage rp \<noteq> Full_autonomy then None
      else case Option.bind claim (checkAppPermissionClaim E) of
        None \<Rightarrow> None
      | Some c \<Rightarrow> (case validateAppPermissionTemplate E \<lfloor>nowMs / 1000\<rfloor> True (appPermissionTemplateOf tpl) of
          Inl _ \<Rightarrow> None
        | Inr (t, d) \<Rightarrow> (case siteTarget (env_platform E) (pc_origin c) of
            None \<Rightarrow> None
          | Some target \<Rightarrow>
              if int (pd_validUntil d) > \<lfloor>nowMs / 1000\<rfloor> \<and> pt_pubkey t = persona \<and> target \<in> set targets
              then permission_grant rp persona nowMs targets approved target d else None)))"

definition decideAppPermission ::
    "tz_clock \<Rightarrow> app_env \<Rightarrow> rules_payload \<Rightarrow> ustr \<Rightarrow> rat \<Rightarrow> ustr list \<Rightarrow> template \<Rightarrow> jsval option \<Rightarrow> bool \<Rightarrow> verdict option" where
  "decideAppPermission C E rp persona nowMs targets tpl claim approved =
     (case schedule_step C (rp_defaultSchedule rp) nowMs of
        None \<Rightarrow> None
      | Some (Some blocked) \<Rightarrow> Some blocked
      | Some None \<Rightarrow>
          (case findRule (filter (\<lambda>r. cr_decision r = Deny) (rp_rules rp)) persona (u ''app-permission'') targets nowMs of
             Some deny \<Rightarrow> Some (Refuse Rule_denies (Some (cr_id deny)))
           | None \<Rightarrow>
               (case autonomy_grant E rp persona nowMs targets tpl claim approved of
                  Some allowed \<Rightarrow>
                    after_schedule C (intersectSchedules (rp_defaultSchedule rp) (cr_schedule allowed)) nowMs
                      (Sign By_rule (Some (cr_id allowed)) True)
                | None \<Rightarrow> Some (Ask Stage_asks False))))"

section \<open>Entry points\<close>

definition own_relay_auth :: "gate_input \<Rightarrow> bool" where
  "own_relay_auth g \<longleftrightarrow> tpl_kind (gi_template g) = RELAY_AUTH_KIND \<and> truthy_str (gi_siteOrigin g) = None
     \<and> normaliseAppId (gi_appId g) = OWN_APP_ID"

definition decideChildRequest :: "tz_clock \<Rightarrow> app_env \<Rightarrow> gate_input \<Rightarrow> verdict option" where
  "decideChildRequest C E g =
     (case preflight (gi_rules g) (gi_persona g) (gi_appId g) (gi_nowMs g) (gi_rateState g) of
        Some early \<Rightarrow> Some early
      | None \<Rightarrow> (case gi_rules g of
          None \<Rightarrow> Some (Ask Stage_asks False)
        | Some rp \<Rightarrow>
            (let sc = inferScope (gi_template g);
                 targets = childTargetsFor E (gi_template g) sc (gi_appId g) (gi_siteOrigin g)
             in if sc = Some App_permission
                then decideAppPermission C E rp (gi_persona g) (gi_nowMs g) targets (gi_template g)
                       (gi_appPermission g) (gi_appId g = u ''mysignet'' \<and> gi_appPermissionApproved g)
                else decideWithRules C rp (gi_persona g) sc (scope_key (gi_template g) sc) targets (gi_nowMs g)
                       (Some (tpl_kind (gi_template g))) (own_relay_auth g))))"

definition decideChildCrypto ::
    "tz_clock \<Rightarrow> rules_payload option \<Rightarrow> ustr \<Rightarrow> ustr \<Rightarrow> ustr \<Rightarrow> rat \<Rightarrow> rate_state \<Rightarrow> verdict option" where
  "decideChildCrypto C rules persona appId peer nowMs rateState =
     (case preflight rules persona appId nowMs rateState of
        Some early \<Rightarrow> Some early
      | None \<Rightarrow> (case rules of
          None \<Rightarrow> Some (Ask Stage_asks False)
        | Some rp \<Rightarrow>
            (let app = normaliseAppId appId;
                 targets = (case peerTarget peer of Some p \<Rightarrow> [p] | None \<Rightarrow> []) @ (if app = [] then [] else [appTarget app])
             in decideWithRules C rp persona (Some Dm_private) (u ''dm-private'') targets nowMs None False)))"

section \<open>What a signature without asking means\<close>

text \<open>A schedule that is not there does not restrict.\<close>

definition schedule_open :: "tz_clock \<Rightarrow> schedule option \<Rightarrow> rat \<Rightarrow> bool" where
  "schedule_open C sched nowMs \<longleftrightarrow> (\<forall>s \<in> set_option sched. isWithinSchedule C s nowMs 30 = Some Allowed)"

definition schedule_verdict :: "within_result \<Rightarrow> verdict option" where
  "schedule_verdict w = (case w of Allowed \<Rightarrow> None | Denied next \<Rightarrow> Some (Blocked_by_schedule next))"

lemma schedule_verdict_simps [simp]:
  "schedule_verdict w = None \<longleftrightarrow> w = Allowed" "schedule_verdict w \<noteq> Some (Sign a b c)"
  by (cases w; simp add: schedule_verdict_def)+

lemma schedule_step_Some:
  "schedule_step C (Some s) nowMs = map_option schedule_verdict (isWithinSchedule C s nowMs 30)"
  by (simp add: schedule_step_def schedule_verdict_def [abs_def])

lemma schedule_step_None [simp]: "schedule_step C None nowMs = Some None"
  by (simp add: schedule_step_def)

lemma schedule_step_Sign [simp]: "schedule_step C sched nowMs \<noteq> Some (Some (Sign a b c))"
  by (cases sched) (auto simp: schedule_step_Some)

lemma schedule_step_open: "schedule_step C sched nowMs = Some None \<longleftrightarrow> schedule_open C sched nowMs"
  by (cases sched) (auto simp: schedule_step_Some schedule_open_def)

lemma after_schedule_Sign:
  "after_schedule C sched nowMs v = Some (Sign a b c) \<longleftrightarrow> schedule_open C sched nowMs \<and> v = Sign a b c"
proof (cases "schedule_step C sched nowMs")
  case None
  then show ?thesis
    by (simp add: after_schedule_def schedule_step_open [symmetric])
next
  case (Some x)
  then show ?thesis
    using schedule_step_Sign [of C sched nowMs a b c]
    by (cases x) (simp_all add: after_schedule_def schedule_step_open [symmetric])
qed

lemma preflight_None:
  "preflight rules persona appId nowMs rs = None \<longleftrightarrow>
     (\<forall>rp \<in> set_option rules. (\<forall>a \<in> set (rp_disconnectedApps rp). normaliseAppId a \<noteq> normaliseAppId appId)
        \<and> (normaliseAppId appId \<noteq> [] \<longrightarrow>
            (\<forall>r \<in> set (rp_rules rp). \<not> blocks_app persona [appTarget (normaliseAppId appId)] nowMs r)))
     \<and> fst (checkRateLimit DEFAULT_RATE_LIMIT (Some rs) nowMs)"
  by (cases rules) (auto simp: preflight_def Let_def findBlocking_None [symmetric] split: option.splits if_splits)

lemma ruled_verdict_Sign:
  assumes "ruled_verdict rp rule sc ck own = Sign why rid audit"
  shows "(\<forall>k \<in> set_option ck. k \<in> set (rp_ceilingKinds rp) \<or> rp_stage rp = Full_autonomy \<and> rp_ceilingKinds rp = [])
    \<and> (\<forall>r \<in> set_option rule. cr_decision r = Allow)
    \<and> (own \<or> (\<exists>r. rule = Some r) \<or> Auto_alert \<le> resolvePolicy (rp_stage rp) sc)"
proof -
  have d: "cr_decision r \<noteq> Deny \<longleftrightarrow> cr_decision r = Allow" for r
    by (cases "cr_decision r") auto
  have "Auto_alert \<le> resolvePolicy (rp_stage rp) sc" if "stage_verdict rp sc = Sign why rid audit"
    using that by (auto simp: stage_verdict_def Let_def less_eq_policy_def split: if_splits)
  then show ?thesis
    using assms d by (auto simp: ruled_verdict_def Let_def split: if_splits option.splits)
qed

lemma usable_allow: "r \<in> set (usable_rules rp) \<Longrightarrow> cr_decision r = Allow \<Longrightarrow> r \<in> set (rp_rules rp) \<and> rp_stage rp \<noteq> Full_control"
  by (auto simp: usable_rules_def split: if_splits)

lemma decideWithRules_Sign:
  assumes "decideWithRules C rp persona sc key targets nowMs ck own = Some (Sign why rid audit)"
  shows "(\<forall>k \<in> set_option ck. k \<in> set (rp_ceilingKinds rp) \<or> rp_stage rp = Full_autonomy \<and> rp_ceilingKinds rp = [])
    \<and> (case findRule (usable_rules rp) persona key targets nowMs of
         None \<Rightarrow> schedule_open C (rp_defaultSchedule rp) nowMs \<and> (own \<or> Auto_alert \<le> resolvePolicy (rp_stage rp) sc)
       | Some r \<Rightarrow> r \<in> set (rp_rules rp) \<and> isLiveRule r nowMs \<and> cr_decision r = Allow \<and> rp_stage rp \<noteq> Full_control
           \<and> schedule_open C (intersectSchedules (rp_defaultSchedule rp) (cr_schedule r)) nowMs)"
proof -
  let ?rule = "findRule (usable_rules rp) persona key targets nowMs"
  have o: "schedule_open C (intersectSchedules (rp_defaultSchedule rp) (Option.bind ?rule cr_schedule)) nowMs"
    and v: "ruled_verdict rp ?rule sc ck own = Sign why rid audit"
    using assms by (auto simp: decideWithRules_def Let_def after_schedule_Sign)
  note s = ruled_verdict_Sign [OF v]
  show ?thesis
  proof (cases ?rule)
    case None
    moreover have "intersectSchedules x None = x" for x
      by (cases x) auto
    ultimately show ?thesis
      using s o by simp
  next
    case (Some r)
    then show ?thesis
      using s o findRule_Some [OF Some] usable_allow by auto
  qed
qed

lemma inferScope_app_permission: "inferScope t = Some App_permission \<longleftrightarrow> tpl_kind t = 30420"
  by (auto simp: inferScope_def Let_def split: if_splits option.splits)

lemma decideChildRequest_Sign:
  assumes "decideChildRequest C E g = Some (Sign why rid audit)"
  obtains rp where "gi_rules g = Some rp"
    and "preflight (Some rp) (gi_persona g) (gi_appId g) (gi_nowMs g) (gi_rateState g) = None"
    and "tpl_kind (gi_template g) = 30420 \<Longrightarrow>
       decideAppPermission C E rp (gi_persona g) (gi_nowMs g)
         (childTargetsFor E (gi_template g) (Some App_permission) (gi_appId g) (gi_siteOrigin g)) (gi_template g)
         (gi_appPermission g) (gi_appId g = u ''mysignet'' \<and> gi_appPermissionApproved g) = Some (Sign why rid audit)"
    and "tpl_kind (gi_template g) \<noteq> 30420 \<Longrightarrow>
       decideWithRules C rp (gi_persona g) (inferScope (gi_template g)) (scope_key (gi_template g) (inferScope (gi_template g)))
         (childTargetsFor E (gi_template g) (inferScope (gi_template g)) (gi_appId g) (gi_siteOrigin g)) (gi_nowMs g)
         (Some (tpl_kind (gi_template g))) (own_relay_auth g) = Some (Sign why rid audit)"
proof (cases "preflight (gi_rules g) (gi_persona g) (gi_appId g) (gi_nowMs g) (gi_rateState g)")
  case (Some early)
  then have "early = Sign why rid audit"
    using assms by (simp add: decideChildRequest_def)
  then show ?thesis
    using Some by (auto simp: preflight_def Let_def split: if_splits option.splits)
next
  case None
  then obtain rp where rp: "gi_rules g = Some rp"
    using assms by (auto simp: decideChildRequest_def split: option.splits)
  show ?thesis
  proof (rule that [OF rp])
    show "preflight (Some rp) (gi_persona g) (gi_appId g) (gi_nowMs g) (gi_rateState g) = None"
      using None rp by simp
  qed (use assms None rp inferScope_app_permission [of "gi_template g"] in \<open>auto simp: decideChildRequest_def Let_def split: if_splits\<close>)
qed

text \<open>
  C7 (safety): The gate signs a request (other than an app permission) without asking only when
  rules are cached, the app is neither disconnected nor blocked, the counter allows it, the kind is
  within the ceiling (an empty ceiling admits every kind at full autonomy only), and either a live
  allowing rule decides it, below full control and inside the intersected schedule, or no rule
  applies, the default schedule is open, and the stage signs that scope silently or the request is
  the app's own relay authentication.
\<close>

theorem gate_signs_only:
  assumes "decideChildRequest C E g = Some (Sign why rid audit)" and "tpl_kind (gi_template g) \<noteq> 30420"
  shows "\<exists>rp. gi_rules g = Some rp
    \<and> (\<nexists>a. a \<in> set (rp_disconnectedApps rp) \<and> normaliseAppId a = normaliseAppId (gi_appId g))
    \<and> fst (checkRateLimit DEFAULT_RATE_LIMIT (Some (gi_rateState g)) (gi_nowMs g))
    \<and> (tpl_kind (gi_template g) \<in> set (rp_ceilingKinds rp) \<or> rp_stage rp = Full_autonomy \<and> rp_ceilingKinds rp = [])
    \<and> (case findRule (usable_rules rp) (gi_persona g) (scope_key (gi_template g) (inferScope (gi_template g)))
           (childTargetsFor E (gi_template g) (inferScope (gi_template g)) (gi_appId g) (gi_siteOrigin g)) (gi_nowMs g) of
         None \<Rightarrow> schedule_open C (rp_defaultSchedule rp) (gi_nowMs g)
           \<and> (own_relay_auth g \<or> Auto_alert \<le> resolvePolicy (rp_stage rp) (inferScope (gi_template g)))
       | Some r \<Rightarrow> r \<in> set (rp_rules rp) \<and> isLiveRule r (gi_nowMs g) \<and> cr_decision r = Allow \<and> rp_stage rp \<noteq> Full_control
           \<and> schedule_open C (intersectSchedules (rp_defaultSchedule rp) (cr_schedule r)) (gi_nowMs g))"
proof (rule decideChildRequest_Sign [OF assms(1)])
  fix rp
  assume rp: "gi_rules g = Some rp"
    and pre: "preflight (Some rp) (gi_persona g) (gi_appId g) (gi_nowMs g) (gi_rateState g) = None"
    and d: "tpl_kind (gi_template g) \<noteq> 30420 \<Longrightarrow>
       decideWithRules C rp (gi_persona g) (inferScope (gi_template g)) (scope_key (gi_template g) (inferScope (gi_template g)))
         (childTargetsFor E (gi_template g) (inferScope (gi_template g)) (gi_appId g) (gi_siteOrigin g)) (gi_nowMs g)
         (Some (tpl_kind (gi_template g))) (own_relay_auth g) = Some (Sign why rid audit)"
  show ?thesis
    using decideWithRules_Sign [OF d [OF assms(2)]] pre rp by (auto simp: preflight_None)
qed

lemma autonomy_grant_Some:
  assumes "autonomy_grant E rp persona nowMs targets tpl claim approved = Some r"
  shows "rp_stage rp = Full_autonomy \<and> r \<in> set (rp_rules rp) \<and> isLiveRule r nowMs \<and> cr_decision r = Allow
    \<and> (\<exists>t d. validateAppPermissionTemplate E \<lfloor>nowMs / 1000\<rfloor> True (appPermissionTemplateOf tpl) = Inr (t, d)
        \<and> \<lfloor>nowMs / 1000\<rfloor> < int (pd_validUntil d) \<and> pt_pubkey t = persona
        \<and> ((\<exists>target. standing_rule persona target d r) \<or> cr_scope r = u ''app-permission-self'' \<and> approved))"
proof -
  obtain target t d where g: "rp_stage rp = Full_autonomy"
      "validateAppPermissionTemplate E \<lfloor>nowMs / 1000\<rfloor> True (appPermissionTemplateOf tpl) = Inr (t, d)"
      "\<lfloor>nowMs / 1000\<rfloor> < int (pd_validUntil d)" "pt_pubkey t = persona"
      "permission_grant rp persona nowMs targets approved target d = Some r"
    using assms by (auto simp: autonomy_grant_def split: if_splits option.splits sum.splits prod.splits)
  have "r \<in> set (rp_rules rp) \<and> isLiveRule r nowMs \<and> cr_decision r = Allow
      \<and> (standing_rule persona target d r \<or> cr_scope r = u ''app-permission-self'' \<and> approved)"
  proof (cases "findRule (filter (standing_rule persona target d) (rp_rules rp)) persona (u ''app-permission'') [target] nowMs")
    case (Some x)
    then have "x = r"
      using g(5) by (simp add: permission_grant_def)
    then show ?thesis
      using findRule_Some [OF Some] by (auto simp: standing_rule_def)
  next
    case None
    then have "approved" "findRule (filter (\<lambda>r. cr_scope r = u ''app-permission-self'') (rp_rules rp)) persona (u ''app-permission-self'') targets nowMs = Some r"
        "cr_decision r = Allow"
      using g(5) by (auto simp: permission_grant_def split: option.splits if_splits)
    then show ?thesis
      using findRule_Some by fastforce
  qed
  then show ?thesis
    using g by blast
qed

lemma decideAppPermission_Sign:
  assumes "decideAppPermission C E rp persona nowMs targets tpl claim approved = Some (Sign why rid audit)"
  shows "schedule_open C (rp_defaultSchedule rp) nowMs
    \<and> findRule (filter (\<lambda>r. cr_decision r = Deny) (rp_rules rp)) persona (u ''app-permission'') targets nowMs = None
    \<and> (\<exists>r. autonomy_grant E rp persona nowMs targets tpl claim approved = Some r \<and> rid = Some (cr_id r)
         \<and> schedule_open C (intersectSchedules (rp_defaultSchedule rp) (cr_schedule r)) nowMs)"
  using assms
  by (auto simp: decideAppPermission_def after_schedule_Sign schedule_step_open [symmetric] split: option.splits)

lemma standing_rule_bound:
  "standing_rule persona target d r \<Longrightarrow> cr_scope r = u ''app-permission'' \<and> cr_persona r = persona
     \<and> (\<exists>b. cr_appPermission r = Some b \<and> ab_appId b = pd_appId d \<and> ab_installKey b = pd_installKey d)
     \<and> (\<exists>e. cr_expiresAt r = Some e \<and> of_nat (pd_validUntil d) * 1000 \<le> e)"
  by (auto simp: standing_rule_def)

text \<open>
  C8 (safety): An app permission (kind 30420) is signed without asking only at full autonomy,
  within the default schedule, for a statement of the one shape that is fresh, not expired and the
  persona's own, and on a live allowing rule that is either bound to that app and install and outlasts
  the statement, or the guardian's self-permission delegation together with the consent given in the app
  itself; a rule of any other scope never grants it. And no denial stands in the way: no live denial
  whose scope covers app permissions applies to the persona and to a target of the request, at whatever
  level of persona and target, and none blocks the app.
\<close>

theorem app_permission_signed:
  assumes "decideChildRequest C E g = Some (Sign why rid audit)" and "tpl_kind (gi_template g) = 30420"
  shows "\<exists>rp r t d. gi_rules g = Some rp \<and> rp_stage rp = Full_autonomy \<and> schedule_open C (rp_defaultSchedule rp) (gi_nowMs g)
    \<and> r \<in> set (rp_rules rp) \<and> isLiveRule r (gi_nowMs g) \<and> cr_decision r = Allow \<and> rid = Some (cr_id r)
    \<and> validateAppPermissionTemplate E \<lfloor>gi_nowMs g / 1000\<rfloor> True (appPermissionTemplateOf (gi_template g)) = Inr (t, d)
    \<and> \<lfloor>gi_nowMs g / 1000\<rfloor> < int (pd_validUntil d) \<and> pt_pubkey t = gi_persona g
    \<and> (cr_scope r = u ''app-permission'' \<and> cr_persona r = gi_persona g
          \<and> (\<exists>b. cr_appPermission r = Some b \<and> ab_appId b = pd_appId d \<and> ab_installKey b = pd_installKey d)
          \<and> (\<exists>e. cr_expiresAt r = Some e \<and> of_nat (pd_validUntil d) * 1000 \<le> e)
        \<or> cr_scope r = u ''app-permission-self'' \<and> gi_appId g = u ''mysignet'' \<and> gi_appPermissionApproved g)
    \<and> (\<nexists>x i. x \<in> set (rp_rules rp) \<and> cr_decision x = Deny
         \<and> (applies (gi_persona g) (u ''app-permission'')
                (childTargetsFor E (gi_template g) (Some App_permission) (gi_appId g) (gi_siteOrigin g)) (gi_nowMs g) i x
            \<or> blocks_app (gi_persona g)
                (childTargetsFor E (gi_template g) (Some App_permission) (gi_appId g) (gi_siteOrigin g)) (gi_nowMs g) x))"
proof (rule decideChildRequest_Sign [OF assms(1)])
  fix rp
  let ?targets = "childTargetsFor E (gi_template g) (Some App_permission) (gi_appId g) (gi_siteOrigin g)"
  assume rp: "gi_rules g = Some rp"
    and d: "tpl_kind (gi_template g) = 30420 \<Longrightarrow>
       decideAppPermission C E rp (gi_persona g) (gi_nowMs g) ?targets (gi_template g)
         (gi_appPermission g) (gi_appId g = u ''mysignet'' \<and> gi_appPermissionApproved g) = Some (Sign why rid audit)"
  note s = decideAppPermission_Sign [OF d [OF assms(2)]]
  then obtain r where r: "autonomy_grant E rp (gi_persona g) (gi_nowMs g) ?targets (gi_template g) (gi_appPermission g)
      (gi_appId g = u ''mysignet'' \<and> gi_appPermissionApproved g) = Some r" "rid = Some (cr_id r)"
    by blast
  have "\<nexists>x i. x \<in> set (rp_rules rp) \<and> cr_decision x = Deny
         \<and> (applies (gi_persona g) (u ''app-permission'') ?targets (gi_nowMs g) i x \<or> blocks_app (gi_persona g) ?targets (gi_nowMs g) x)"
    using s findRule_None by fastforce
  then show ?thesis
    using autonomy_grant_Some [OF r(1)] standing_rule_bound s r(2) rp by blast
qed

text \<open>
  C9 (safety): At full control nothing is signed without the guardian: whatever rules are cached,
  the only request that passes is the app's authentication to its own relays.
\<close>

theorem full_control_asks:
  assumes "gi_rules g = Some rp" "rp_stage rp = Full_control" "decideChildRequest C E g = Some (Sign why rid audit)"
  shows "own_relay_auth g"
proof (rule decideChildRequest_Sign [OF assms(3)])
  fix rp'
  let ?t = "gi_template g"
  assume rp': "gi_rules g = Some rp'"
    and p: "tpl_kind ?t = 30420 \<Longrightarrow>
       decideAppPermission C E rp' (gi_persona g) (gi_nowMs g) (childTargetsFor E ?t (Some App_permission) (gi_appId g) (gi_siteOrigin g)) ?t
         (gi_appPermission g) (gi_appId g = u ''mysignet'' \<and> gi_appPermissionApproved g) = Some (Sign why rid audit)"
    and d: "tpl_kind ?t \<noteq> 30420 \<Longrightarrow>
       decideWithRules C rp' (gi_persona g) (inferScope ?t) (scope_key ?t (inferScope ?t))
         (childTargetsFor E ?t (inferScope ?t) (gi_appId g) (gi_siteOrigin g)) (gi_nowMs g)
         (Some (tpl_kind ?t)) (own_relay_auth g) = Some (Sign why rid audit)"
  have rp: "rp' = rp"
    using rp' assms(1) by simp
  have ask: "\<not> Auto_alert \<le> resolvePolicy Full_control sc" for sc
    by (cases sc) (simp add: less_eq_policy_def, rename_tac s, case_tac s, simp_all add: less_eq_policy_def)
  show "own_relay_auth g"
  proof (cases "tpl_kind ?t = 30420")
    case True
    then show ?thesis
      using decideAppPermission_Sign [OF p] autonomy_grant_Some assms(2) rp by fastforce
  next
    case False
    then show ?thesis
      using decideWithRules_Sign [OF d] assms(2) rp ask by (auto split: option.splits)
  qed
qed

lemma preflight_refuses:
  assumes "normaliseAppId app \<noteq> []"
    and "(\<exists>r \<in> set (rp_rules rp). blocks_app persona [appTarget (normaliseAppId app)] nowMs r)
      \<or> (\<exists>a \<in> set (rp_disconnectedApps rp). normaliseAppId a = normaliseAppId app)"
  shows "\<exists>why rid. preflight (Some rp) persona app nowMs rs = Some (Refuse why rid) \<and> why \<noteq> Rate_limited"
proof (cases "\<exists>a \<in> set (rp_disconnectedApps rp). normaliseAppId a = normaliseAppId app")
  case True
  then show ?thesis
    by (simp add: preflight_def Let_def)
next
  case False
  then obtain b where "findBlockingAppRule (rp_rules rp) persona [appTarget (normaliseAppId app)] nowMs = Some b"
    using assms(2) findBlocking_None by (metis not_None_eq)
  then show ?thesis
    using False assms(1) by (auto simp: preflight_def Let_def)
qed

lemma preflight_decides:
  assumes "preflight (Some rp) (gi_persona g) (gi_appId g) (gi_nowMs g) (gi_rateState g) = Some v" "gi_rules g = Some rp"
  shows "decideChildRequest C E g = Some v"
    "decideChildCrypto C (Some rp) (gi_persona g) (gi_appId g) peer (gi_nowMs g) (gi_rateState g) = Some v"
  using assms by (simp_all add: decideChildRequest_def decideChildCrypto_def)

text \<open>
  C10 (safety): A blocked or disconnected app gets nothing, at any stage and whatever else the rules
  say: every event it asks to have signed and every decryption or encryption is refused.
\<close>

theorem blocked_app_refused:
  assumes "gi_rules g = Some rp" "normaliseAppId (gi_appId g) \<noteq> []"
    and "(\<exists>r \<in> set (rp_rules rp). blocks_app (gi_persona g) [appTarget (normaliseAppId (gi_appId g))] (gi_nowMs g) r)
      \<or> (\<exists>a \<in> set (rp_disconnectedApps rp). normaliseAppId a = normaliseAppId (gi_appId g))"
  shows "(\<exists>why rid. decideChildRequest C E g = Some (Refuse why rid) \<and> why \<noteq> Rate_limited)
    \<and> (\<exists>why rid. decideChildCrypto C (Some rp) (gi_persona g) (gi_appId g) peer (gi_nowMs g) (gi_rateState g) = Some (Refuse why rid)
         \<and> why \<noteq> Rate_limited)"
  using preflight_refuses [OF assms(2,3), of "gi_rateState g"] preflight_decides [OF _ assms(1)] by blast

section \<open>The gate at work\<close>

definition sample_payload :: "stage \<Rightarrow> int list \<Rightarrow> child_rule list \<Rightarrow> rules_payload" where
  "sample_payload st kinds rules =
     \<lparr>rp_dependantId = u ''d'', rp_stage = st, rp_defaultSchedule = None, rp_ceilingKinds = kinds, rp_rules = rules,
      rp_disconnectedApps = [], rp_personas = None, rp_updatedAt = 1\<rparr>"

definition sample_gate :: "rules_payload \<Rightarrow> int \<Rightarrow> ustr list list \<Rightarrow> ustr \<Rightarrow> gate_input" where
  "sample_gate rp kind tags app =
     \<lparr>gi_rules = Some rp, gi_persona = replicate 64 97,
      gi_template = \<lparr>tpl_kind = kind, tpl_pubkey = replicate 64 97, tpl_content = [], tpl_tags = tags\<rparr>,
      gi_appId = app, gi_siteOrigin = None, gi_nowMs = 1000000, gi_rateState = \<lparr>rl_count = 1, rl_windowStart = 999999\<rparr>,
      gi_appPermission = None, gi_appPermissionApproved = False\<rparr>"

lemmas gate_simps = decideChildRequest_def sample_gate_def sample_payload_def preflight_def Let_def checkRateLimit_def
  RATE_LIMIT_WINDOW_MS_def DEFAULT_RATE_LIMIT_def findBlockingAppRule_def inferScope_def scope_key_def
  decideWithRules_def ruled_verdict_def stage_verdict_def after_schedule_def usable_rules_def

lemma no_rules: "findRule [] persona scope targets now = None"
  by (simp add: findRule_def findBlockingAppRule_def levels_def)

definition posting :: gate_input where
  "posting = sample_gate (sample_payload Autonomous_alerts [1, 7] []) 1 [] (u ''chess'')"

lemma posting_signed: "decideChildRequest sample_clock sample_env posting = Some (Sign By_stage None True)"
  by (simp add: posting_def gate_simps no_rules own_relay_auth_def RELAY_AUTH_KIND_def)

theorem gate_signs_only_witness:
  "\<exists>rp. gi_rules posting = Some rp \<and> 1 \<in> set (rp_ceilingKinds rp)
     \<and> fst (checkRateLimit DEFAULT_RATE_LIMIT (Some (gi_rateState posting)) (gi_nowMs posting))"
  using gate_signs_only [OF posting_signed] by (auto simp: posting_def sample_gate_def sample_payload_def)

definition relay_login :: gate_input where
  "relay_login = sample_gate (sample_payload Full_control [22242] []) 22242 [] OWN_APP_ID"

lemma own_app: "normaliseAppId OWN_APP_ID = OWN_APP_ID"
  by (simp add: normaliseAppId_def OWN_APP_ID_def is_hex_str_def)

lemma relay_login_own: "own_relay_auth relay_login"
  by (simp add: own_relay_auth_def relay_login_def sample_gate_def RELAY_AUTH_KIND_def truthy_str_def own_app)

lemma relay_login_signed: "decideChildRequest sample_clock sample_env relay_login = Some (Sign By_stage None False)"
  using relay_login_own by (simp add: relay_login_def gate_simps no_rules)

theorem full_control_asks_witness:
  "own_relay_auth relay_login \<and> decideChildRequest sample_clock sample_env relay_login = Some (Sign By_stage None False)"
  using full_control_asks [OF _ _ relay_login_signed] relay_login_signed
  by (simp add: relay_login_def sample_gate_def sample_payload_def)

definition blocked_chess :: gate_input where
  "blocked_chess = sample_gate (sample_payload Full_autonomy [] [sample_rule Deny ''sign-in'' ''app:chess'']) 1 [] (u ''chess'')"

theorem blocked_app_refused_witness:
  "\<exists>why rid. decideChildRequest sample_clock sample_env blocked_chess = Some (Refuse why rid) \<and> why \<noteq> Rate_limited"
proof -
  have n: "normaliseAppId (u ''chess'') = u ''chess''"
    by (simp add: normaliseAppId_def is_hex_str_def)
  have "appTarget (u ''chess'') = u ''app:chess''" "is_app_target (u ''app:chess'')"
    by (simp_all add: appTarget_def n is_app_target_def starts_with_def) (simp_all add: u_def)
  then have "blocks_app (gi_persona blocked_chess) [appTarget (normaliseAppId (gi_appId blocked_chess))] (gi_nowMs blocked_chess)
      (sample_rule Deny ''sign-in'' ''app:chess'')"
    by (simp add: blocked_chess_def sample_gate_def n blocks_app_def sample_rule_def isLiveRule_def stamped_def persona_matches_def)
  then show ?thesis
    using blocked_app_refused [where g = blocked_chess and rp = "sample_payload Full_autonomy [] [sample_rule Deny ''sign-in'' ''app:chess'']"]
    by (auto simp: blocked_chess_def sample_gate_def sample_payload_def n)
qed

text \<open>An online-play request with the guardian's delegation and consent given in the app.\<close>

definition play_tags :: "ustr list list" where
  "play_tags = [[u ''d'', u ''chess''], [u ''p'', replicate 64 98], [u ''valid_from'', u ''1000''], [u ''valid_until'', u ''2000''],
     [u ''v'', u ''1''], [u ''role'', u ''player''], [u ''expiration'', u ''2000'']]"

definition play_claim :: jsval where
  "play_claim = JObj [(u ''permission'', JStr (u ''online-play'')), (u ''origin'', JStr (u ''https://a'')),
     (u ''name'', JStr (u ''Chess'')), (u ''reason'', JStr (u ''Play''))]"

definition play_request :: gate_input where
  "play_request = (sample_gate (sample_payload Full_autonomy [] [sample_rule Allow ''app-permission-self'' ''*'']) 30420 play_tags OWN_APP_ID)
     \<lparr>gi_siteOrigin := Some (u ''https://a''), gi_appPermission := Some play_claim, gi_appPermissionApproved := True\<rparr>"

lemma play_statement:
  "\<exists>t d. validateAppPermissionTemplate sample_env 1000 True (appPermissionTemplateOf (gi_template play_request)) = Inr (t, d)
     \<and> pd_validUntil d = 2000 \<and> pt_pubkey t = replicate 64 97"
proof -
  have "sort [u ''kind'', u ''pubkey'', u ''content'', u ''tags''] = TEMPLATE_KEYS"
    by (simp add: TEMPLATE_KEYS_def u_def)
  moreover have "APP_ID (u ''chess'')"
    by (simp add: APP_ID_def u_def)
  ultimately show ?thesis
    using sample_hex sample_uint
    by (simp add: validateAppPermissionTemplate_def appPermissionTemplateOf_def play_request_def sample_gate_def play_tags_def
        APP_PERMISSION_KIND_def TAG_NAMES_def checkDetails_def Let_def isXOnlyPoint_def sample_env_def
        APP_PERMISSION_FRESHNESS_S_def APP_PERMISSION_MAX_VALIDITY_S_def)
qed

lemma sample_texts:
  "boundedText sample_env (JStr (u ''Chess'')) APP_PERMISSION_NAME_MAX = Some (u ''Chess'')"
  "boundedText sample_env (JStr (u ''Play'')) APP_PERMISSION_REASON_MAX = Some (u ''Play'')"
  by (simp_all add: boundedText_def strip_format_def sanitizeDisplayName_def capCodePoints_def CONTROL_BIDI_def
      trim_def is_space_def high_surrogate_def low_surrogate_def sample_env_def u_def
      APP_PERMISSION_NAME_MAX_def APP_PERMISSION_REASON_MAX_def)

lemma play_claim_ok:
  "\<exists>c. checkAppPermissionClaim sample_env play_claim = Some c \<and> pc_origin c = u ''https://a''"
proof -
  have "sort [u ''permission'', u ''origin'', u ''name'', u ''reason''] = [u ''name'', u ''origin'', u ''permission'', u ''reason'']"
    by (simp add: u_def)
  moreover have "canonicalOrigin sample_env (JStr (u ''https://a'')) = Some (u ''https://a'')"
    by (simp add: canonicalOrigin_def safeOriginForGrant_def sample_env_def)
  ultimately show ?thesis
    using sample_texts by (simp add: checkAppPermissionClaim_def play_claim_def isPermission_def is_str_def)
qed

lemma play_signed: "decideChildRequest sample_clock sample_env play_request = Some (Sign By_rule (Some (u ''0'')) True)"
proof -
  let ?site = "u ''site:'' @ u ''https://a''" and ?rule = "sample_rule Allow ''app-permission-self'' ''*''"
  have site: "siteTarget (env_platform sample_env) s = Some ?site" for s
    by (simp add: siteTarget_def safeOriginForGrant_def sample_env_def)
  have app: "appTarget OWN_APP_ID \<noteq> ?site"
    by (simp add: appTarget_def own_app) (simp add: OWN_APP_ID_def u_def)
  have targets: "childTargetsFor sample_env (gi_template play_request) (Some App_permission) OWN_APP_ID (Some (u ''https://a''))
      = [?site, appTarget OWN_APP_ID]"
    using app by (simp add: childTargetsFor_def push_new_def truthy_str_def site inferredTarget_def inferOrigin_def OWN_APP_ID_def)
  have found: "findRule [?rule] (replicate 64 97) (u ''app-permission-self'') [?site, appTarget OWN_APP_ID] 1000000 = Some ?rule"
  proof -
    have t: "targetKey (u ''*'') \<noteq> targetKey ?site" "targetKey (u ''*'') \<noteq> targetKey (appTarget OWN_APP_ID)"
      by (simp_all add: targetKey_def is_app_target_def starts_with_def lower_def appTarget_def own_app) (simp_all add: u_def)
    have "length (lower (u ''*'')) \<noteq> length (lower (replicate 64 97))"
      by simp
    then have "lower (u ''*'') \<noteq> lower (replicate 64 97)"
      by metis
    then show ?thesis
      using t by (simp add: findRule_def findBlockingAppRule_def blocks_app_def levels_def in_scope_def isLiveRule_def
          stamped_def sample_rule_def)
  qed
  obtain t d where st: "validateAppPermissionTemplate sample_env 1000 True (appPermissionTemplateOf (gi_template play_request)) = Inr (t, d)"
      "pd_validUntil d = 2000" "pt_pubkey t = replicate 64 97"
    using play_statement by blast
  obtain c where c: "checkAppPermissionClaim sample_env play_claim = Some c"
    using play_claim_ok by blast
  have grant: "autonomy_grant sample_env (sample_payload Full_autonomy [] [?rule]) (replicate 64 97) 1000000
      [?site, appTarget OWN_APP_ID] (gi_template play_request) (Some play_claim) True = Some ?rule"
  proof -
    have "\<not> standing_rule (replicate 64 97) ?site d ?rule" "cr_scope ?rule = u ''app-permission-self''" "cr_decision ?rule = Allow"
      by (simp_all add: standing_rule_def sample_rule_def)
    then show ?thesis
      using st c found by (simp add: autonomy_grant_def site sample_payload_def permission_grant_def no_rules)
  qed
  have "preflight (Some (sample_payload Full_autonomy [] [?rule])) (replicate 64 97) OWN_APP_ID 1000000
      \<lparr>rl_count = 1, rl_windowStart = 999999\<rparr> = None"
    by (simp add: gate_simps own_app blocks_app_def sample_rule_def)
  moreover have "filter (\<lambda>r. cr_decision r = Deny) [?rule] = []" "cr_schedule ?rule = None" "cr_id ?rule = u ''0''"
    by (simp_all add: sample_rule_def)
  moreover have "inferScope (gi_template play_request) = Some App_permission"
    by (simp add: inferScope_app_permission play_request_def sample_gate_def)
  ultimately show ?thesis
    using targets grant
    by (simp add: decideChildRequest_def play_request_def sample_gate_def decideAppPermission_def
        sample_payload_def no_rules after_schedule_def OWN_APP_ID_def)
qed

theorem app_permission_signed_witness:
  "\<exists>rp r. gi_rules play_request = Some rp \<and> rp_stage rp = Full_autonomy \<and> r \<in> set (rp_rules rp) \<and> cr_decision r = Allow"
  using app_permission_signed [OF play_signed] by (auto simp: play_request_def sample_gate_def)

end
