(* ===== verification/Child_Wire.thy ===== *)
theory Child_Wire
  imports Child_Gate
begin

text \<open>
  The validating half of \<open>child-rules-wire.ts\<close>: what the child accepts of a rules payload it has
  decrypted, and which of two payloads it keeps. Sealing, signing and opening the event are calls
  into the encryption packages. The two guardians of the wire are here as one function each, from
  a dynamic value to an optional payload.
\<close>

section \<open>Field checks\<close>

text \<open>\<open>typeof n === 'number' && Number.isSafeInteger(n) && n > 0\<close>.\<close>

definition posInt :: "jsval \<Rightarrow> rat option" where
  "posInt v = (case v of JNum (Fin r) \<Rightarrow> if is_safe_integer r \<and> r > 0 then Some r else None | _ \<Rightarrow> None)"

definition nip55_unit :: "nat \<Rightarrow> bool" where
  "nip55_unit c \<longleftrightarrow> (65 \<le> c \<and> c \<le> 90) \<or> (97 \<le> c \<and> c \<le> 122) \<or> digit_unit c \<or> c = 46 \<or> c = 95"

text \<open>The part of a text after a given prefix.\<close>

definition after_prefix :: "string \<Rightarrow> ustr \<Rightarrow> ustr option" where
  "after_prefix p s = (if starts_with s (u p) then Some (drop (length p) s) else None)"

definition has_rest :: "string \<Rightarrow> (ustr \<Rightarrow> bool) \<Rightarrow> ustr \<Rightarrow> bool" where
  "has_rest p Q s \<longleftrightarrow> (case after_prefix p s of Some r \<Rightarrow> Q r | None \<Rightarrow> False)"

definition site_rest :: "ustr \<Rightarrow> bool" where
  "site_rest r \<longleftrightarrow> 1 \<le> length r \<and> length r \<le> 200 \<and> list_all (\<lambda>c. \<not> is_space c) r"

definition TARGET_RE :: "ustr \<Rightarrow> bool" where
  "TARGET_RE t \<longleftrightarrow> has_rest ''site:http://'' site_rest t \<or> has_rest ''site:https://'' site_rest t
     \<or> has_rest ''app:'' hex64 t
     \<or> has_rest ''app:nip55:'' (\<lambda>r. 1 \<le> length r \<and> length r \<le> 200 \<and> list_all nip55_unit r) t
     \<or> t = u ''app:mysignet'' \<or> has_rest ''peer:'' hex64 t \<or> t = u ''*''"

definition SCOPE_RE :: "ustr \<Rightarrow> bool" where
  "SCOPE_RE s \<longleftrightarrow> s = u ''*'' \<or> 1 \<le> length s \<and> length s \<le> 64 \<and> list_all scope_unit s"

definition parseScheduleValue :: "tz_clock \<Rightarrow> jsval \<Rightarrow> schedule option" where
  "parseScheduleValue C raw =
     (if \<not> is_object_type raw then None
      else if validateSchedule C raw = None then Some (as_schedule raw) else None)"

definition decision_of :: "jsval \<Rightarrow> decision option" where
  "decision_of v = (if v = JStr (u ''allow'') then Some Allow else if v = JStr (u ''deny'') then Some Deny else None)"

definition label_of :: "jsval \<Rightarrow> ustr option" where
  "label_of v = (case v of
     JStr s \<Rightarrow> (let l = sanitizeDisplayName s 100 in if l = [] then None else Some l)
   | _ \<Rightarrow> None)"

text \<open>
  The binding of a standing permission: absent, or well-formed on a rule that may carry one; the
  outer option is the refusal. A value that is not an object has no property \<open>v\<close>, and \<open>null\<close> is
  refused before it is read.
\<close>

definition binding_of :: "app_env \<Rightarrow> jsval \<Rightarrow> app_binding option option" where
  "binding_of E r =
     (let p = fld r (u ''appPermission'') in
      if p = JUndef then Some None
      else if fld p (u ''v'') = JNum (Fin 1) \<and> is_str (fld p (u ''appId'')) APP_ID
        \<and> is_str (fld p (u ''installKey'')) (isXOnlyPoint E) \<and> posInt (fld r (u ''expiresAt'')) \<noteq> None
        \<and> fld r (u ''scope'') = JStr (u ''app-permission'') \<and> fld r (u ''persona'') \<noteq> JStr (u ''*'')
        \<and> is_str (fld r (u ''target'')) (\<lambda>t. starts_with t (u ''site:''))
      then Some (Some \<lparr>ab_appId = text_of (fld p (u ''appId'')), ab_installKey = text_of (fld p (u ''installKey''))\<rparr>)
      else None)"

section \<open>One rule\<close>

text \<open>Each check of the source refuses with \<open>null\<close>; the refusal carries nothing.\<close>

definition parseChildRuleRecord :: "tz_clock \<Rightarrow> app_env \<Rightarrow> (ustr \<Rightarrow> ustr) \<Rightarrow> jsval \<Rightarrow> unit + child_rule" where
  "parseChildRuleRecord C E H r =
     check (is_object_type r) ()
    (need (string_value (fld r (u ''dependantId''))) () (\<lambda>dep.
     check (hex64 dep) ()
    (need (string_value (fld r (u ''persona''))) () (\<lambda>persona.
     check (persona = u ''*'' \<or> hex64 persona) ()
    (need (string_value (fld r (u ''scope''))) () (\<lambda>scope.
     check (SCOPE_RE scope \<and> isValidRuleScope scope) ()
    (need (string_value (fld r (u ''target''))) () (\<lambda>target.
     check (TARGET_RE target) ()
    (need (decision_of (fld r (u ''decision''))) () (\<lambda>decision.
     need (posInt (fld r (u ''createdAt''))) () (\<lambda>created.
     need (posInt (fld r (u ''updatedAt''))) () (\<lambda>updated.
     check (fld r (u ''id'') = JStr (childRuleId H dep persona scope target)) ()
    (need (binding_of E r) () (\<lambda>binding.
     Inr \<lparr>cr_id = childRuleId H dep persona scope target, cr_dependantId = dep, cr_persona = persona, cr_scope = scope,
          cr_target = target, cr_decision = decision, cr_appPermission = binding,
          cr_schedule = parseScheduleValue C (fld r (u ''schedule'')), cr_label = label_of (fld r (u ''label'')),
          cr_createdAt = created, cr_updatedAt = updated, cr_expiresAt = posInt (fld r (u ''expiresAt'')),
          cr_tombstonedAt = posInt (fld r (u ''tombstonedAt'')), cr_lastUsedAt = posInt (fld r (u ''lastUsedAt''))\<rparr>))))))))))))))"

section \<open>The payload\<close>

fun stage_name :: "stage \<Rightarrow> ustr" where
  "stage_name Full_control = u ''full-control''"
| "stage_name Request_approve = u ''request-approve''"
| "stage_name Autonomous_alerts = u ''autonomous-alerts''"
| "stage_name Autonomous_logging = u ''autonomous-logging''"
| "stage_name Full_autonomy = u ''full-autonomy''"

definition STAGES :: "stage list" where
  "STAGES = [Full_control, Request_approve, Autonomous_alerts, Autonomous_logging, Full_autonomy]"

definition stage_of :: "jsval \<Rightarrow> stage option" where
  "stage_of v = (case v of JStr s \<Rightarrow> find (\<lambda>st. stage_name st = s) STAGES | _ \<Rightarrow> None)"

definition CHILD_CEILING_MAX :: nat where
  "CHILD_CEILING_MAX = 64"

definition kind_value :: "jsval \<Rightarrow> int option" where
  "kind_value v = (case v of JNum (Fin r) \<Rightarrow> if is_int_rat r \<and> 0 \<le> r \<and> r \<le> 65535 then Some \<lfloor>r\<rfloor> else None | _ \<Rightarrow> None)"

text \<open>\<open>Array.isArray(v) && v.length <= n && v.every(ok)\<close>, read as the list of its elements.\<close>

definition array_of :: "nat \<Rightarrow> (jsval \<Rightarrow> 'a option) \<Rightarrow> jsval \<Rightarrow> 'a list option" where
  "array_of n f v = (case v of JArr vs \<Rightarrow> if length vs \<le> n then those (map f vs) else None | _ \<Rightarrow> None)"

definition text_where :: "(ustr \<Rightarrow> bool) \<Rightarrow> jsval \<Rightarrow> ustr option" where
  "text_where Q v = (case v of JStr s \<Rightarrow> if Q s then Some s else None | _ \<Rightarrow> None)"

definition optional :: "(jsval \<Rightarrow> 'a option) \<Rightarrow> jsval \<Rightarrow> 'a option option" where
  "optional f v = (if v = JUndef then Some None else map_option Some (f v))"

text \<open>The loop over the rules: a rule that does not parse, of another dependant or tombstoned is passed over.\<close>

definition kept_rule :: "tz_clock \<Rightarrow> app_env \<Rightarrow> (ustr \<Rightarrow> ustr) \<Rightarrow> ustr \<Rightarrow> jsval \<Rightarrow> child_rule option" where
  "kept_rule C E H dep item =
     (case parseChildRuleRecord C E H item of
        Inl _ \<Rightarrow> None
      | Inr rule \<Rightarrow> if cr_dependantId rule \<noteq> dep \<or> cr_tombstonedAt rule \<noteq> None then None
                    else Some (rule\<lparr>cr_lastUsedAt := None\<rparr>))"

definition checkPayload :: "tz_clock \<Rightarrow> app_env \<Rightarrow> (ustr \<Rightarrow> ustr) \<Rightarrow> jsval \<Rightarrow> unit + rules_payload" where
  "checkPayload C E H o' =
     check (is_object_type o') ()
    (check (fld o' (u ''v'') = JNum (Fin 1)) ()
    (need (text_where hex64 (fld o' (u ''dependantId''))) () (\<lambda>dep.
     need (stage_of (fld o' (u ''stage''))) () (\<lambda>st.
     need (posInt (fld o' (u ''updatedAt''))) () (\<lambda>updated.
     need (array_of CHILD_CEILING_MAX kind_value (fld o' (u ''ceilingKinds''))) () (\<lambda>kinds.
     need (array_of 2000 Some (fld o' (u ''rules''))) () (\<lambda>items.
     need (array_of 64 (text_where (\<lambda>s. 0 < length s \<and> length s \<le> 200)) (fld o' (u ''disconnectedApps''))) () (\<lambda>apps.
     need (optional (array_of 32 (text_where hex64)) (fld o' (u ''personas''))) () (\<lambda>personas.
     need (optional (parseScheduleValue C) (fld o' (u ''defaultSchedule''))) () (\<lambda>sched.
     Inr \<lparr>rp_dependantId = dep, rp_stage = st, rp_defaultSchedule = sched, rp_ceilingKinds = kinds,
          rp_rules = List.map_filter (kept_rule C E H dep) items,
          rp_disconnectedApps = apps, rp_personas = map_option uniq personas, rp_updatedAt = updated\<rparr>))))))))))"

definition newerRulesPayload :: "rules_payload option \<Rightarrow> rules_payload option \<Rightarrow> rules_payload option" where
  "newerRulesPayload current incoming =
     (case incoming of
        None \<Rightarrow> current
      | Some i \<Rightarrow> (case current of
          None \<Rightarrow> incoming
        | Some c \<Rightarrow> if rp_updatedAt i > rp_updatedAt c then incoming else current))"

section \<open>What is accepted\<close>

text \<open>A time in milliseconds: a safe integer above zero.\<close>

definition wire_time :: "rat \<Rightarrow> bool" where
  "wire_time t \<longleftrightarrow> is_safe_integer t \<and> 0 < t"

definition wf_binding :: "app_env \<Rightarrow> child_rule \<Rightarrow> bool" where
  "wf_binding E r \<longleftrightarrow> (\<forall>b \<in> set_option (cr_appPermission r).
     APP_ID (ab_appId b) \<and> isXOnlyPoint E (ab_installKey b) \<and> cr_scope r = u ''app-permission'' \<and> cr_persona r \<noteq> u ''*'' \<and> cr_expiresAt r \<noteq> None
     \<and> starts_with (cr_target r) (u ''site:''))"

text \<open>A rule as the wire admits it: well-formed fields, its own deterministic id, a schedule that validates.\<close>

definition wf_rule :: "app_env \<Rightarrow> (ustr \<Rightarrow> ustr) \<Rightarrow> child_rule \<Rightarrow> bool" where
  "wf_rule E H r \<longleftrightarrow> hex64 (cr_dependantId r) \<and> (cr_persona r = u ''*'' \<or> hex64 (cr_persona r))
     \<and> SCOPE_RE (cr_scope r) \<and> isValidRuleScope (cr_scope r) \<and> TARGET_RE (cr_target r)
     \<and> cr_id r = childRuleId H (cr_dependantId r) (cr_persona r) (cr_scope r) (cr_target r)
     \<and> wire_time (cr_createdAt r) \<and> wire_time (cr_updatedAt r) \<and> pred_option wire_time (cr_expiresAt r)
     \<and> (\<forall>l \<in> set_option (cr_label r). l \<noteq> [] \<and> length (code_points l) \<le> 100 \<and> (\<nexists>c. c \<in> set l \<and> CONTROL_BIDI c))
     \<and> (\<forall>s \<in> set_option (cr_schedule r). wf_schedule s) \<and> wf_binding E r"

lemma posInt_wire: "posInt v = Some n \<Longrightarrow> wire_time n"
  by (auto simp: posInt_def wire_time_def split: jsval.splits jnum.splits if_splits)

lemma label_safe: "label_of v = Some l \<Longrightarrow> l \<noteq> [] \<and> length (code_points l) \<le> 100 \<and> (\<nexists>c. c \<in> set l \<and> CONTROL_BIDI c)"
  using sanitizeDisplayName_safe by (auto simp: label_of_def Let_def split: jsval.splits if_splits)

lemma parseSchedule_wf: "parseScheduleValue C raw = Some s \<Longrightarrow> wf_schedule s"
  by (auto simp: parseScheduleValue_def validateSchedule_wf split: if_splits)

lemma binding_some:
  assumes "binding_of E r = Some (Some b)"
  shows "APP_ID (ab_appId b) \<and> isXOnlyPoint E (ab_installKey b) \<and> posInt (fld r (u ''expiresAt'')) \<noteq> None \<and> fld r (u ''scope'') = JStr (u ''app-permission'')
    \<and> fld r (u ''persona'') \<noteq> JStr (u ''*'') \<and> is_str (fld r (u ''target'')) (\<lambda>t. starts_with t (u ''site:''))"
  using assms by (auto simp: binding_of_def Let_def text_of_def is_str_iff split: if_splits)

lemma parse_rule:
  assumes "parseChildRuleRecord C E H r = Inr rule"
  shows "wf_rule E H rule \<and> cr_schedule rule = parseScheduleValue C (fld r (u ''schedule''))"
proof -
  obtain dep persona scope target decision created updated binding where p:
      "fld r (u ''dependantId'') = JStr dep" "hex64 dep" "fld r (u ''persona'') = JStr persona" "persona = u ''*'' \<or> hex64 persona"
      "fld r (u ''scope'') = JStr scope" "SCOPE_RE scope \<and> isValidRuleScope scope" "fld r (u ''target'') = JStr target" "TARGET_RE target"
      "posInt (fld r (u ''createdAt'')) = Some created" "posInt (fld r (u ''updatedAt'')) = Some updated"
      "binding_of E r = Some binding"
      "rule = \<lparr>cr_id = childRuleId H dep persona scope target, cr_dependantId = dep, cr_persona = persona, cr_scope = scope,
          cr_target = target, cr_decision = decision, cr_appPermission = binding,
          cr_schedule = parseScheduleValue C (fld r (u ''schedule'')), cr_label = label_of (fld r (u ''label'')),
          cr_createdAt = created, cr_updatedAt = updated, cr_expiresAt = posInt (fld r (u ''expiresAt'')),
          cr_tombstonedAt = posInt (fld r (u ''tombstonedAt'')), cr_lastUsedAt = posInt (fld r (u ''lastUsedAt''))\<rparr>"
    using assms unfolding parseChildRuleRecord_def check_simps value_readers by (elim exE conjE) auto
  have "wf_binding E rule"
  proof (cases binding)
    case (Some b)
    then show ?thesis
      using binding_some [of E r b] p by (simp add: wf_binding_def is_str_iff)
  qed (simp add: wf_binding_def p(12))
  then show ?thesis
    using p(2,4,6,8) posInt_wire [OF p(9)] posInt_wire [OF p(10)] posInt_wire
    by (auto simp: wf_rule_def p(12) pred_option_def elem_set intro: parseSchedule_wf dest: label_safe)
qed

definition wf_payload :: "app_env \<Rightarrow> (ustr \<Rightarrow> ustr) \<Rightarrow> rules_payload \<Rightarrow> bool" where
  "wf_payload E H p \<longleftrightarrow> hex64 (rp_dependantId p) \<and> wire_time (rp_updatedAt p)
     \<and> length (rp_ceilingKinds p) \<le> CHILD_CEILING_MAX \<and> list_all (\<lambda>k. 0 \<le> k \<and> k \<le> 65535) (rp_ceilingKinds p)
     \<and> list_all (\<lambda>r. wf_rule E H r \<and> cr_dependantId r = rp_dependantId p \<and> cr_tombstonedAt r = None \<and> cr_lastUsedAt r = None) (rp_rules p)
     \<and> length (rp_rules p) \<le> 2000
     \<and> length (rp_disconnectedApps p) \<le> 64 \<and> list_all (\<lambda>a. a \<noteq> [] \<and> length a \<le> 200) (rp_disconnectedApps p)
     \<and> (\<forall>ps \<in> set_option (rp_personas p). length ps \<le> 32 \<and> distinct ps \<and> list_all hex64 ps)
     \<and> (\<forall>s \<in> set_option (rp_defaultSchedule p). wf_schedule s)"

lemma those_Some: "those xs = Some ys \<longleftrightarrow> xs = map Some ys"
  by (induction xs arbitrary: ys) (auto split: option.splits)

lemma array_of_Some:
  assumes "array_of n f v = Some xs" and "\<And>w x. f w = Some x \<Longrightarrow> Q x"
  shows "length xs \<le> n \<and> list_all Q xs"
proof -
  obtain vs where vs: "length vs \<le> n" "map f vs = map Some xs"
    using assms(1) by (auto simp: array_of_def those_Some split: jsval.splits if_splits)
  then have len: "length xs = length vs"
    by (metis length_map)
  have "Q x" if x: "x \<in> set xs" for x
  proof -
    obtain i where i: "i < length xs" "x = xs ! i"
      using x by (metis in_set_conv_nth)
    then have "f (vs ! i) = Some x"
      using vs(2) len by (metis nth_map)
    then show ?thesis
      by (rule assms(2))
  qed
  then show ?thesis
    using vs(1) len by (simp add: list_all_iff)
qed

lemma kept_wf:
  "kept_rule C E H dep item = Some r \<Longrightarrow>
   wf_rule E H r \<and> cr_dependantId r = dep \<and> cr_tombstonedAt r = None \<and> cr_lastUsedAt r = None"
  by (auto simp: kept_rule_def wf_rule_def wf_binding_def split: sum.splits if_splits dest!: parse_rule)

lemma map_filter_kept: "(\<And>x y. f x = Some y \<Longrightarrow> Q y) \<Longrightarrow> list_all Q (List.map_filter f xs)"
  by (auto simp: List.map_filter_def list_all_iff)

lemma length_map_filter: "length (List.map_filter f xs) \<le> length xs"
  by (simp add: List.map_filter_def)

lemma text_where_Some: "text_where Q v = Some s \<Longrightarrow> Q s"
  by (auto simp: text_where_def split: jsval.splits if_splits)

lemma kind_value_range: "kind_value v = Some k \<Longrightarrow> 0 \<le> k \<and> k \<le> 65535"
  by (auto simp: kind_value_def is_int_rat_def floor_le_iff split: jsval.splits jnum.splits if_splits)

lemma checkPayload_wf:
  assumes "checkPayload C E H v = Inr p"
  shows "wf_payload E H p"
proof -
  obtain dep st updated kinds items apps personas sched where c:
      "text_where hex64 (fld v (u ''dependantId'')) = Some dep" "posInt (fld v (u ''updatedAt'')) = Some updated"
      "array_of CHILD_CEILING_MAX kind_value (fld v (u ''ceilingKinds'')) = Some kinds"
      "array_of 2000 Some (fld v (u ''rules'')) = Some items"
      "array_of 64 (text_where (\<lambda>s. 0 < length s \<and> length s \<le> 200)) (fld v (u ''disconnectedApps'')) = Some apps"
      "optional (array_of 32 (text_where hex64)) (fld v (u ''personas'')) = Some personas"
      "optional (parseScheduleValue C) (fld v (u ''defaultSchedule'')) = Some sched"
    and p: "p = \<lparr>rp_dependantId = dep, rp_stage = st, rp_defaultSchedule = sched, rp_ceilingKinds = kinds,
          rp_rules = List.map_filter (kept_rule C E H dep) items,
          rp_disconnectedApps = apps, rp_personas = map_option uniq personas, rp_updatedAt = updated\<rparr>"
    using assms unfolding checkPayload_def check_simps by auto
  have "length items \<le> 2000"
    using array_of_Some [OF c(4), of "\<lambda>x. True"] by simp
  then have rules: "list_all (\<lambda>r. wf_rule E H r \<and> cr_dependantId r = dep \<and> cr_tombstonedAt r = None \<and> cr_lastUsedAt r = None)
      (List.map_filter (kept_rule C E H dep) items) \<and> length (List.map_filter (kept_rule C E H dep) items) \<le> 2000"
    using map_filter_kept [where f = "kept_rule C E H dep", OF kept_wf] length_map_filter [of "kept_rule C E H dep" items]
    by fastforce
  have ps: "length (uniq xs) \<le> 32 \<and> distinct (uniq xs) \<and> list_all hex64 (uniq xs)" if "personas = Some xs" for xs
  proof -
    have "array_of 32 (text_where hex64) (fld v (u ''personas'')) = Some xs"
      using c(6) that by (simp add: optional_def split: if_splits)
    then have "length xs \<le> 32" "list_all hex64 xs"
      using array_of_Some [of 32 "text_where hex64" "fld v (u ''personas'')" xs hex64] text_where_Some by blast+
    then show ?thesis
      using length_uniq [of xs] by (simp add: list_all_iff)
  qed
  have ss: "wf_schedule s" if "sched = Some s" for s
    using c(7) that by (auto simp: optional_def dest: parseSchedule_wf split: if_splits)
  have apps: "length apps \<le> 64 \<and> list_all (\<lambda>a. a \<noteq> [] \<and> length a \<le> 200) apps"
    using array_of_Some [OF c(5), of "\<lambda>a. a \<noteq> [] \<and> length a \<le> 200"] text_where_Some by fastforce
  have kinds: "length kinds \<le> CHILD_CEILING_MAX \<and> list_all (\<lambda>k. 0 \<le> k \<and> k \<le> 65535) kinds"
    using array_of_Some [OF c(3), of "\<lambda>k. 0 \<le> k \<and> k \<le> 65535"] kind_value_range by simp
  show ?thesis
    using rules ps ss apps kinds text_where_Some [OF c(1)] posInt_wire [OF c(2)]
    by (auto simp: wf_payload_def p elem_set)
qed

section \<open>Properties\<close>

text \<open>
  C39 (type): Whatever arrives, a payload the child keeps is well-formed: at most 64 kinds, all in range,
  at most 2000 rules, at most 64 disconnected apps with names of 1 to 200 units, at most 32 personas, each
  a key and none twice; times are positive safe integers, every schedule is validated, labels are clean; and
  every rule is of that dependant, has a scope and a target of the admitted forms and the deterministic id of
  its own fields, holds no tombstone and no usage time, and binds a standing permission to an app and a
  point of the curve only on a site rule of one persona with an expiry.
\<close>

theorem checkPayload_typed:
  assumes "checkPayload C E H v = Inr p"
  shows "wf_payload E H p"
  using assms by (rule checkPayload_wf)

definition zero_hash :: "ustr \<Rightarrow> ustr" where
  "zero_hash s = replicate 64 48"

definition wire_rule :: "jsval \<Rightarrow> jsval" where
  "wire_rule sched = JObj
     [(u ''id'', JStr (replicate 32 48)), (u ''dependantId'', JStr (replicate 64 97)), (u ''persona'', JStr (u ''*'')),
      (u ''scope'', JStr (u ''sign-in'')), (u ''target'', JStr (u ''*'')), (u ''decision'', JStr (u ''allow'')),
      (u ''createdAt'', JNum (Fin 1)), (u ''updatedAt'', JNum (Fin 1)), (u ''schedule'', sched)]"

definition wire_payload :: "jsval \<Rightarrow> jsval \<Rightarrow> jsval" where
  "wire_payload rule_sched default_sched = JObj
     [(u ''v'', JNum (Fin 1)), (u ''dependantId'', JStr (replicate 64 97)), (u ''stage'', JStr (u ''full-autonomy'')),
      (u ''updatedAt'', JNum (Fin 5)), (u ''ceilingKinds'', JArr [JNum (Fin 1), JNum (Fin 7)]),
      (u ''rules'', JArr [wire_rule rule_sched]), (u ''disconnectedApps'', JArr [JStr (u ''chess'')]),
      (u ''defaultSchedule'', default_sched)]"

lemma wire_rule_parsed:
  "\<exists>rule. parseChildRuleRecord sample_clock sample_env zero_hash (wire_rule sched) = Inr rule
     \<and> cr_decision rule = Allow \<and> cr_dependantId rule = replicate 64 97 \<and> cr_tombstonedAt rule = None
     \<and> cr_schedule rule = parseScheduleValue sample_clock sched"
proof -
  have "SCOPE_RE (u ''sign-in'')" "isValidRuleScope (u ''sign-in'')" "TARGET_RE (u ''*'')"
    by (simp_all add: SCOPE_RE_def isValidRuleScope_def starts_with_def TARGET_RE_def) (simp_all add: u_def scope_unit_def)
  then show ?thesis
    using sample_hex by (simp add: parseChildRuleRecord_def wire_rule_def decision_of_def posInt_def is_safe_integer_def
        is_int_rat_def MAX_SAFE_INTEGER_def childRuleId_def Let_def zero_hash_def binding_of_def)
qed

lemma wire_payload_parsed:
  assumes "parseScheduleValue sample_clock default_sched = Some s" "default_sched \<noteq> JUndef"
  shows "\<exists>p r. checkPayload sample_clock sample_env zero_hash (wire_payload rule_sched default_sched) = Inr p
    \<and> rp_rules p = [r] \<and> cr_decision r = Allow \<and> cr_schedule r = parseScheduleValue sample_clock rule_sched"
proof -
  obtain rule where "parseChildRuleRecord sample_clock sample_env zero_hash (wire_rule rule_sched) = Inr rule"
     "cr_decision rule = Allow" "cr_dependantId rule = replicate 64 97" "cr_tombstonedAt rule = None"
     "cr_schedule rule = parseScheduleValue sample_clock rule_sched"
    using wire_rule_parsed by blast
  then show ?thesis
    using sample_hex assms by (simp add: checkPayload_def wire_payload_def text_where_def stage_of_def STAGES_def posInt_def is_safe_integer_def
        is_int_rat_def MAX_SAFE_INTEGER_def array_of_def CHILD_CEILING_MAX_def kind_value_def optional_def
        List.map_filter_def kept_rule_def)
qed

lemma parse_thursday: "parseScheduleValue sample_clock thursday_value = Some (as_schedule thursday_value)"
  using sample_valid(1) by (simp add: parseScheduleValue_def thursday_value_def schedule_value_def)

theorem checkPayload_typed_witness:
  "\<exists>p. checkPayload sample_clock sample_env zero_hash (wire_payload thursday_value thursday_value) = Inr p
     \<and> wf_payload sample_env zero_hash p \<and> rp_rules p \<noteq> []"
proof -
  have "thursday_value \<noteq> JUndef"
    by (simp add: thursday_value_def schedule_value_def)
  then obtain p r where "checkPayload sample_clock sample_env zero_hash (wire_payload thursday_value thursday_value) = Inr p"
      "rp_rules p = [r]"
    using wire_payload_parsed [OF parse_thursday] by blast
  then show ?thesis
    using checkPayload_typed by fastforce
qed

text \<open>
  A schedule that cannot be read is treated in two ways: as the default schedule it
  refuses the whole payload, on a rule it is dropped and the rule stands without any schedule, so
  an allowing rule that was to hold on Thursdays only holds at every hour.
\<close>

lemma unreadable_schedule:
  assumes "validateSchedule C bad \<noteq> None" "bad \<noteq> JUndef"
  shows "(fld v (u ''defaultSchedule'') = bad \<longrightarrow> checkPayload C E H v = Inl ())
    \<and> (fld r (u ''schedule'') = bad \<and> parseChildRuleRecord C E H r = Inr rule \<longrightarrow> cr_schedule rule = None)"
proof -
  have none: "parseScheduleValue C bad = None"
    using assms by (auto simp: parseScheduleValue_def)
  have "checkPayload C E H v \<noteq> Inr p" if "fld v (u ''defaultSchedule'') = bad" for p
    using that none assms(2) by (simp add: checkPayload_def check_simps optional_def)
  then have "fld v (u ''defaultSchedule'') = bad \<longrightarrow> checkPayload C E H v = Inl ()"
    by (cases "checkPayload C E H v") auto
  then show ?thesis
    using parse_rule [of C E H r rule] none by auto
qed

lemma unreadable_schedule_witness:
  "\<exists>p r. checkPayload sample_clock sample_env zero_hash (wire_payload (JBool True) thursday_value) = Inr p
     \<and> rp_rules p = [r] \<and> cr_decision r = Allow \<and> cr_schedule r = None
     \<and> checkPayload sample_clock sample_env zero_hash (wire_payload thursday_value (JBool True)) = Inl ()"
proof -
  have bad: "validateSchedule sample_clock (JBool True) \<noteq> None" "JBool True \<noteq> JUndef"
    by (simp_all add: validateSchedule_def)
  have "thursday_value \<noteq> JUndef"
    by (simp add: thursday_value_def schedule_value_def)
  then obtain p r where p: "checkPayload sample_clock sample_env zero_hash (wire_payload (JBool True) thursday_value) = Inr p"
      "rp_rules p = [r]" "cr_decision r = Allow" "cr_schedule r = parseScheduleValue sample_clock (JBool True)"
    using wire_payload_parsed [OF parse_thursday] by blast
  moreover have "parseScheduleValue sample_clock (JBool True) = None"
    by (simp add: parseScheduleValue_def)
  moreover have "checkPayload sample_clock sample_env zero_hash (wire_payload thursday_value (JBool True)) = Inl ()"
    using unreadable_schedule [OF bad] by (simp add: wire_payload_def)
  ultimately show ?thesis
    by auto
qed

lemma newer_step:
  "\<exists>q. newerRulesPayload (Some p) (Some i) = Some q \<and> (q = p \<or> q = i) \<and> rp_updatedAt p \<le> rp_updatedAt q \<and> rp_updatedAt i \<le> rp_updatedAt q"
  by (auto simp: newerRulesPayload_def)

lemma newer_fold:
  "\<exists>q. foldl newerRulesPayload (Some p) (map Some ps) = Some q \<and> q \<in> set (p # ps)
     \<and> list_all (\<lambda>x. rp_updatedAt x \<le> rp_updatedAt q) (p # ps)"
proof (induction ps arbitrary: p)
  case (Cons i ps)
  obtain m where m: "newerRulesPayload (Some p) (Some i) = Some m" "m = p \<or> m = i"
      "rp_updatedAt p \<le> rp_updatedAt m" "rp_updatedAt i \<le> rp_updatedAt m"
    using newer_step by blast
  obtain q where q: "foldl newerRulesPayload (Some m) (map Some ps) = Some q" "q \<in> set (m # ps)"
      "list_all (\<lambda>x. rp_updatedAt x \<le> rp_updatedAt q) (m # ps)"
    using Cons.IH by blast
  then show ?case
    using m by auto
qed simp

text \<open>
  However many payloads arrive and in whatever order, the child ends with one of
  those it received, no older than any of them; opening fails (a null) never displace it.
\<close>

lemma newest_payload_kept:
  "\<exists>q. foldl newerRulesPayload None (Some p # map Some ps) = Some q \<and> q \<in> set (p # ps)
     \<and> list_all (\<lambda>x. rp_updatedAt x \<le> rp_updatedAt q) (p # ps)
     \<and> newerRulesPayload (Some q) None = Some q"
  using newer_fold [of p ps] by (auto simp: newerRulesPayload_def)

end
