(* ===== verification/Policy_Compiler.thy ===== *)
theory Policy_Compiler
  imports Child_Wire
begin

text \<open>
  \<open>policy-compiler.ts\<close>: from a dependant's stage, grants and rules to the policy of each client slot
  of the family's signing device, with the records of \<open>heartwood-mgmt-types.ts\<close> it reads and
  writes. Kinds are integers; a lookup in the table of kinds may hit a name every object inherits,
  and iterating that throws, so a compilation is an option.
\<close>

section \<open>Device slots and policies\<close>

record device_slot =
  ds_slotIndex :: int
  ds_label :: ustr
  ds_secretFingerprint :: ustr
  ds_autoApprove :: bool
  ds_signingApproved :: bool
  ds_strictPermissions :: bool
  ds_currentPubkey :: "ustr option"
  ds_authorizedPubkeys :: "ustr list"
  ds_allowedKinds :: "int list"
  ds_allowedMethods :: "ustr list"
  ds_escalate :: bool
  ds_petitionOnDeny :: bool
  ds_auditChildWrap :: bool
  ds_boundIdentity :: "ustr option"

record slot_policy =
  sp_allowedMethods :: "ustr list"
  sp_allowedKinds :: "int list"
  sp_autoApprove :: bool
  sp_escalate :: bool
  sp_petitionOnDeny :: bool
  sp_auditChildWrap :: bool
  sp_boundIdentity :: "ustr option"

definition TOFU_SAFE_METHODS :: "ustr list" where
  "TOFU_SAFE_METHODS = [u ''sign_event'', u ''nip44_encrypt'', u ''nip44_decrypt'', u ''nip04_encrypt'',
     u ''nip04_decrypt'', u ''get_public_key'']"

text \<open>The locked policy; the binding is the caller's.\<close>

definition LOCKED_SLOT_POLICY :: "ustr option \<Rightarrow> slot_policy" where
  "LOCKED_SLOT_POLICY bound = \<lparr>sp_allowedMethods = [], sp_allowedKinds = [], sp_autoApprove = False,
     sp_escalate = False, sp_petitionOnDeny = False, sp_auditChildWrap = False, sp_boundIdentity = bound\<rparr>"

record compiler_grant =
  cg_scope :: ustr
  cg_decision :: decision
  cg_hasSchedule :: bool
  cg_tombstoned :: bool
  cg_expired :: bool

record rule_like =
  rl_scope :: ustr
  rl_decision :: decision
  rl_tombstonedAt :: "rat option"
  rl_expiresAt :: "rat option"
  rl_updatedAt :: "rat option"

record approval =
  ap_kind :: rat
  ap_until :: rat

record compiler_dependant =
  cd_id :: ustr
  cd_identityPubkeys :: "ustr list"
  cd_dormantIdentityPubkeys :: "ustr list"
  cd_autonomyStage :: stage
  cd_hasDefaultSchedule :: bool
  cd_auditVisible :: bool
  cd_petitionOnDeny :: bool
  cd_grants :: "compiler_grant list"
  cd_defaultSchedulePaused :: "bool option"
  cd_childRules :: "rule_like list option"
  cd_approvedOnceKinds :: "approval list option"

record compiler_input =
  ci_dependants :: "compiler_dependant list"
  ci_guardianClientPubkey :: "ustr option"
  ci_deviceSlots :: "device_slot list"
  ci_nowSeconds :: "rat option"

datatype slot_reason = Dependant_slot ustr | Guardian_slot

record compiled_slot =
  cs_slotIndex :: int
  cs_secretFingerprint :: ustr
  cs_policy :: slot_policy
  cs_reason :: slot_reason
  cs_changed :: bool

record compile_result =
  res_slots :: "compiled_slot list"
  res_untouched :: nat
  res_warned :: bool

section \<open>Scopes and kinds\<close>

definition SCOPE_KINDS :: "(scope \<times> int list) list" where
  "SCOPE_KINDS = [(Sign_in, [21236]), (Venue_entry, [21235]), (Post_public, [1]), (React_zap_reply, [1, 7, 9734]),
     (Dm_private, [4, 13, 1059]), (Upload_photo, [24242]), (Mutate_identity, [0]), (App_permission, [])]"

text \<open>
  \<open>SCOPE_KINDS[name]\<close>, read with \<open>if (!ks) continue\<close> or \<open>?? []\<close>: nothing for an unknown name. The
  table is an object literal, so twelve names are inherited: they give a function or an object that
  no loop can iterate, a \<open>TypeError\<close>, here \<open>None\<close>.
\<close>

definition OBJECT_NAMES :: "ustr list" where
  "OBJECT_NAMES = map u [''constructor'', ''__proto__'', ''toString'', ''toLocaleString'', ''valueOf'', ''hasOwnProperty'',
     ''isPrototypeOf'', ''propertyIsEnumerable'', ''__defineGetter__'', ''__defineSetter__'', ''__lookupGetter__'',
     ''__lookupSetter__'']"

definition scope_kinds :: "ustr \<Rightarrow> int list option" where
  "scope_kinds name =
     (case find (\<lambda>(sc, ks). scope_name sc = name) SCOPE_KINDS of
        Some (sc, ks) \<Rightarrow> Some ks
      | None \<Rightarrow> if name \<in> set OBJECT_NAMES then None else Some [])"

definition sortedUniqueKinds :: "int list \<Rightarrow> int list" where
  "sortedUniqueKinds kinds = sort (uniq kinds)"

definition ALL_SCOPE_KINDS :: "int list" where
  "ALL_SCOPE_KINDS = sortedUniqueKinds (concat (map snd SCOPE_KINDS))"

definition NEVER_LISTED_KINDS :: "int list" where
  "NEVER_LISTED_KINDS = [24133, 31000]"

definition INTERACTIVE_STAGE_METHODS :: "ustr list" where
  "INTERACTIVE_STAGE_METHODS = [u ''get_public_key'', u ''sign_event'']"

definition AUTONOMOUS_STAGE_METHODS :: "ustr list" where
  "AUTONOMOUS_STAGE_METHODS = [u ''get_public_key'', u ''sign_event'', u ''nip44_encrypt'', u ''nip44_decrypt'']"

definition GUARDIAN_REQUIRED_METHODS :: "ustr list" where
  "GUARDIAN_REQUIRED_METHODS = [u ''sign_event'', u ''get_public_key'', u ''nip44_encrypt'', u ''nip44_decrypt'']"

definition CHILD_DEVICE_LABEL :: ustr where
  "CHILD_DEVICE_LABEL = u ''MySignet''"

definition CHILD_DEVICE_LABEL_PREFIX :: ustr where
  "CHILD_DEVICE_LABEL_PREFIX = u ''signet:child-device:''"

definition sameSet :: "ustr list \<Rightarrow> ustr list \<Rightarrow> bool" where
  "sameSet a b \<longleftrightarrow> length (uniq a) = length (uniq b) \<and> list_all (\<lambda>v. v \<in> set b) (uniq a)"

definition sameSortedKinds :: "int list \<Rightarrow> int list \<Rightarrow> bool" where
  "sameSortedKinds a b \<longleftrightarrow> sortedUniqueKinds a = sortedUniqueKinds b"

definition lower_opt :: "ustr option \<Rightarrow> ustr" where
  "lower_opt s = lower (case s of None \<Rightarrow> [] | Some t \<Rightarrow> t)"

definition isChildDeviceSlot :: "device_slot \<Rightarrow> bool" where
  "isChildDeviceSlot slot \<longleftrightarrow> ds_label slot = CHILD_DEVICE_LABEL \<or> starts_with (ds_label slot) CHILD_DEVICE_LABEL_PREFIX"

definition expectedToEscalate :: "slot_policy \<Rightarrow> bool" where
  "expectedToEscalate p \<longleftrightarrow> \<not> sp_autoApprove p \<and> sp_escalate p"

definition isAutonomousStage :: "stage \<Rightarrow> bool" where
  "isAutonomousStage st \<longleftrightarrow> st = Autonomous_alerts \<or> st = Autonomous_logging \<or> st = Full_autonomy"

text \<open>The set of excluded scopes, in the order they were added.\<close>

definition excludes :: "compiler_grant \<Rightarrow> bool" where
  "excludes g \<longleftrightarrow> \<not> (cg_tombstoned g \<or> cg_expired g)
     \<and> (cg_decision g = Deny \<or> cg_decision g = Allow \<and> cg_hasSchedule g)"

definition excludedScopes :: "compiler_grant list \<Rightarrow> ustr list" where
  "excludedScopes grants = uniq (map cg_scope (filter excludes grants))"

definition autonomousKinds :: "compiler_grant list \<Rightarrow> (int list \<times> bool) option" where
  "autonomousKinds grants =
     (case those (map scope_kinds (excludedScopes grants)) of
        None \<Rightarrow> None
      | Some kss \<Rightarrow>
          (let excludedKinds = uniq (concat kss);
               kinds = filter (\<lambda>k. k \<notin> set excludedKinds \<and> k \<notin> set NEVER_LISTED_KINDS) ALL_SCOPE_KINDS
           in Some (sortedUniqueKinds kinds, 0 < length excludedKinds)))"

section \<open>A child's own phone\<close>

definition CHILD_DIRECT_LABEL_PREFIX :: ustr where
  "CHILD_DIRECT_LABEL_PREFIX = u ''signet:child-device:v2:''"

definition childDirectSlotLabel :: "ustr \<Rightarrow> ustr" where
  "childDirectSlotLabel depId = CHILD_DIRECT_LABEL_PREFIX @ take 16 depId"

definition isChildDirectSlot :: "ustr \<Rightarrow> bool" where
  "isChildDirectSlot label = starts_with label CHILD_DIRECT_LABEL_PREFIX"

record direct_input =
  di_stage :: stage
  di_paused :: bool
  di_rules :: "rule_like list"
  di_approvedOnceKinds :: "approval list"
  di_boundPersona :: ustr
  di_auditVisible :: bool
  di_nowSeconds :: rat

definition CHILD_INTERNAL_KINDS :: "int list" where
  "CHILD_INTERNAL_KINDS = [22242]"

definition CHILD_DIRECT_METHODS :: "ustr list" where
  "CHILD_DIRECT_METHODS = [u ''get_public_key'', u ''sign_event'', u ''nip44_encrypt'', u ''nip44_decrypt'']"

text \<open>\<open>isLiveRule\<close> reads two fields, which a compiler rule has too.\<close>

definition live_like :: "rule_like \<Rightarrow> rat \<Rightarrow> bool" where
  "live_like r nowMs =
     (if stamped (rl_tombstonedAt r) then False
      else if stamped (rl_expiresAt r) \<and> the (rl_expiresAt r) \<le> nowMs then False
      else True)"

text \<open>The kinds of the scopes the stage lets through unasked: the policies whose names start with \<open>auto\<close>.\<close>

definition stage_kinds :: "stage \<Rightarrow> int list" where
  "stage_kinds st =
     concat (map snd (filter (\<lambda>(sc, ks). resolvePolicy st (Some sc) \<in> {Auto_alert, Auto_log, Auto}) SCOPE_KINDS))"

text \<open>One live allow rule: a \<open>kind:\<close> rule goes to the third group, any other scope's kinds to the first.\<close>

definition take_rule :: "rule_like \<Rightarrow> int list \<times> (int \<times> rat) list \<Rightarrow> (int list \<times> (int \<times> rat) list) option" where
  "take_rule r acc =
     (case kindFromScope (rl_scope r) of
        Some n \<Rightarrow> Some (fst acc, snd acc @ [(int n, case rl_updatedAt r of None \<Rightarrow> 0 | Some t \<Rightarrow> t)])
      | None \<Rightarrow> if starts_with (rl_scope r) (u ''kind:'') then Some acc
                else map_option (\<lambda>ks. (fst acc @ ks, snd acc)) (scope_kinds (rl_scope r)))"

definition rule_kinds :: "direct_input \<Rightarrow> (int list \<times> (int \<times> rat) list) option" where
  "rule_kinds inp =
     (if di_stage inp = Full_control then Some ([], [])
      else fold_opt take_rule
        (filter (\<lambda>r. rl_decision r = Allow \<and> live_like r (di_nowSeconds inp * 1000)) (di_rules inp)) ([], []))"

definition approved_kinds :: "approval list \<Rightarrow> rat \<Rightarrow> int list" where
  "approved_kinds aps now =
     map (\<lambda>a. \<lfloor>ap_kind a\<rfloor>)
       (filter (\<lambda>a. is_int_rat (ap_kind a) \<and> ap_kind a \<ge> 0 \<and> ap_kind a \<le> 65535 \<and> ap_until a > now) aps)"

text \<open>The ordered list of the loop with \<open>push\<close>: each kind once, never a forbidden one.\<close>

definition in_order :: "int list \<Rightarrow> int list" where
  "in_order ks = filter (\<lambda>k. k \<notin> set NEVER_LISTED_KINDS) (uniq ks)"

definition direct_base :: "direct_input \<Rightarrow> int list \<Rightarrow> slot_policy" where
  "direct_base inp kinds = \<lparr>sp_allowedMethods = CHILD_DIRECT_METHODS, sp_allowedKinds = kinds, sp_autoApprove = True,
     sp_escalate = False, sp_petitionOnDeny = False, sp_auditChildWrap = di_auditVisible inp,
     sp_boundIdentity = Some (lower (di_boundPersona inp))\<rparr>"

definition compileChildDirectPolicy :: "direct_input \<Rightarrow> slot_policy option" where
  "compileChildDirectPolicy inp =
     (if di_paused inp then Some (LOCKED_SLOT_POLICY (Some (lower (di_boundPersona inp))))
      else if di_stage inp = Full_autonomy then Some (direct_base inp [])
      else map_option (\<lambda>(scopeKinds, kindRules).
        let tier1 = CHILD_INTERNAL_KINDS @ stage_kinds (di_stage inp) @ scopeKinds;
            tier2 = approved_kinds (di_approvedOnceKinds inp) (di_nowSeconds inp);
            tier3 = map fst (sort_key (\<lambda>r. - snd r) kindRules);
            ordered = in_order ([22242] @ sortedUniqueKinds tier1 @ tier2 @ tier3)
        in direct_base inp (sortedUniqueKinds (take CHILD_CEILING_MAX ordered))) (rule_kinds inp))"

section \<open>One slot\<close>

text \<open>\<open>if (slot.boundIdentity) policy.boundIdentity = slot.boundIdentity\<close>: an empty binding is left out.\<close>

definition autonomous_ceiling :: "compiler_dependant \<Rightarrow> int list option" where
  "autonomous_ceiling dep =
     map_option (\<lambda>(kinds, exclusionApplied).
       if cd_autonomyStage dep = Full_autonomy \<and> \<not> exclusionApplied then [] else kinds) (autonomousKinds (cd_grants dep))"

definition compileDependantSlotPolicy :: "compiler_dependant \<Rightarrow> device_slot \<Rightarrow> slot_policy option" where
  "compileDependantSlotPolicy dep slot =
     (let bound = lower_opt (ds_boundIdentity slot); binding = truthy_str (ds_boundIdentity slot) in
      if bound \<noteq> [] \<and> bound \<in> set (cd_dormantIdentityPubkeys dep) then Some (LOCKED_SLOT_POLICY binding)
      else
        (let autonomous = isAutonomousStage (cd_autonomyStage dep);
             methods = (if autonomous then AUTONOMOUS_STAGE_METHODS else INTERACTIVE_STAGE_METHODS);
             choice = (if cd_hasDefaultSchedule dep \<or> \<not> autonomous then Some (False, [])
                       else map_option (\<lambda>kinds. (True, kinds)) (autonomous_ceiling dep))
         in map_option (\<lambda>(autoApprove, allowedKinds).
              \<lparr>sp_allowedMethods = methods, sp_allowedKinds = allowedKinds, sp_autoApprove = autoApprove,
               sp_escalate = True, sp_petitionOnDeny = cd_petitionOnDeny dep,
               sp_auditChildWrap = cd_auditVisible dep \<and> isChildDeviceSlot slot, sp_boundIdentity = binding\<rparr>) choice))"

definition compileGuardianSlotPolicy :: "device_slot \<Rightarrow> slot_policy" where
  "compileGuardianSlotPolicy slot =
     (let all_methods = uniq (ds_allowedMethods slot @ GUARDIAN_REQUIRED_METHODS);
          methods = (if ds_strictPermissions slot then filter (\<lambda>m. m \<in> set TOFU_SAFE_METHODS) all_methods else all_methods)
      in \<lparr>sp_allowedMethods = methods, sp_allowedKinds = ds_allowedKinds slot, sp_autoApprove = True, sp_escalate = False,
          sp_petitionOnDeny = False, sp_auditChildWrap = False, sp_boundIdentity = None\<rparr>)"

definition policyDiffersFromSlot :: "slot_policy \<Rightarrow> device_slot \<Rightarrow> bool" where
  "policyDiffersFromSlot p slot \<longleftrightarrow>
     \<not> sameSet (sp_allowedMethods p) (ds_allowedMethods slot)
     \<or> \<not> sameSortedKinds (sp_allowedKinds p) (ds_allowedKinds slot)
     \<or> sp_autoApprove p \<noteq> ds_autoApprove slot
     \<or> sp_escalate p \<noteq> ds_escalate slot
     \<or> sp_petitionOnDeny p \<noteq> ds_petitionOnDeny slot
     \<or> sp_auditChildWrap p \<noteq> ds_auditChildWrap slot
     \<or> (sp_boundIdentity p \<noteq> None \<and> lower_opt (sp_boundIdentity p) \<noteq> lower_opt (ds_boundIdentity slot))"

definition compileChildDirectSlot :: "compiler_dependant \<Rightarrow> device_slot \<Rightarrow> rat \<Rightarrow> slot_policy option" where
  "compileChildDirectSlot dep slot nowSeconds =
     (let bound = lower_opt (ds_boundIdentity slot) in
      if bound = [] \<or> bound \<in> set (cd_dormantIdentityPubkeys dep)
      then Some (LOCKED_SLOT_POLICY (if bound = [] then None else Some bound))
      else compileChildDirectPolicy
        \<lparr>di_stage = cd_autonomyStage dep, di_paused = (cd_defaultSchedulePaused dep = Some True),
         di_rules = (case cd_childRules dep of None \<Rightarrow> [] | Some rs \<Rightarrow> rs),
         di_approvedOnceKinds = (case cd_approvedOnceKinds dep of None \<Rightarrow> [] | Some aps \<Rightarrow> aps),
         di_boundPersona = bound, di_auditVisible = cd_auditVisible dep, di_nowSeconds = nowSeconds\<rparr>)"

definition isGuardianSlot :: "device_slot \<Rightarrow> ustr option \<Rightarrow> bool" where
  "isGuardianSlot slot guardianClientPubkey =
     (case truthy_str guardianClientPubkey of
        None \<Rightarrow> False
      | Some g \<Rightarrow> lower_opt (ds_currentPubkey slot) = lower g \<or> (\<exists>p \<in> set (ds_authorizedPubkeys slot). lower p = lower g))"

text \<open>The label of a child's own phone names the dependant; the binding must be one of theirs either way.\<close>

definition binds :: "compiler_dependant \<Rightarrow> ustr \<Rightarrow> bool" where
  "binds dep bound \<longleftrightarrow> (\<exists>p \<in> set (cd_identityPubkeys dep). lower p = bound)"

definition findDependantForSlot :: "device_slot \<Rightarrow> compiler_dependant list \<Rightarrow> compiler_dependant option" where
  "findDependantForSlot slot dependants =
     (let bound = lower_opt (ds_boundIdentity slot) in
      if isChildDirectSlot (ds_label slot) then
        (let tag = drop (length CHILD_DIRECT_LABEL_PREFIX) (ds_label slot) in
         find (\<lambda>dep. tag \<noteq> [] \<and> lower (take 16 (cd_id dep)) = lower tag \<and> binds dep bound) dependants)
      else if bound = [] then None
      else find (\<lambda>dep. binds dep bound) dependants)"

section \<open>The whole inventory\<close>

definition compiled :: "device_slot \<Rightarrow> slot_reason \<Rightarrow> slot_policy \<Rightarrow> compiled_slot" where
  "compiled slot reason p = \<lparr>cs_slotIndex = ds_slotIndex slot, cs_secretFingerprint = ds_secretFingerprint slot,
     cs_policy = p, cs_reason = reason, cs_changed = policyDiffersFromSlot p slot\<rparr>"

text \<open>What the body of the loop pushes for a slot: \<open>Some None\<close> leaves the slot untouched.\<close>

definition compileSlot :: "compiler_input \<Rightarrow> rat \<Rightarrow> device_slot \<Rightarrow> compiled_slot option option" where
  "compileSlot inp nowSeconds slot =
     (if isGuardianSlot slot (ci_guardianClientPubkey inp)
      then Some (Some (compiled slot Guardian_slot (compileGuardianSlotPolicy slot)))
      else case findDependantForSlot slot (ci_dependants inp) of
          None \<Rightarrow> Some None
        | Some dep \<Rightarrow> map_option (\<lambda>p. Some (compiled slot (Dependant_slot (cd_id dep)) p))
            (if isChildDirectSlot (ds_label slot) then compileChildDirectSlot dep slot nowSeconds
             else compileDependantSlotPolicy dep slot))"

definition compileSlotPolicies :: "compiler_input \<Rightarrow> rat \<Rightarrow> compile_result option" where
  "compileSlotPolicies inp clock =
     (let now = (case ci_nowSeconds inp of Some t \<Rightarrow> t | None \<Rightarrow> of_int \<lfloor>clock / 1000\<rfloor>) in
      map_option (\<lambda>rows.
        \<lparr>res_slots = List.map_filter id rows, res_untouched = length (filter (\<lambda>row. row = None) rows),
         res_warned = (truthy_str (ci_guardianClientPubkey inp) \<noteq> None
           \<and> \<not> (\<exists>slot \<in> set (ci_deviceSlots inp). isGuardianSlot slot (ci_guardianClientPubkey inp)))\<rparr>)
        (those (map (compileSlot inp now) (ci_deviceSlots inp))))"

section \<open>From the app's records\<close>

text \<open>
  The fields of a \<open>DependantIdentity\<close> the compiler reads: \<open>dep_publicKey\<close> and \<open>dep_displayName\<close> are those
  of its \<open>naturalPerson\<close>, \<open>dep_personaKey\<close> that of its \<open>persona\<close>.
\<close>

record extra_persona =
  xp_publicKey :: ustr
  xp_displayName :: ustr
  xp_hidden :: bool

record dependant_identity =
  dep_id :: ustr
  dep_publicKey :: ustr
  dep_displayName :: ustr
  dep_personaKey :: ustr
  dep_extraPersonas :: "extra_persona list option"
  dep_naturalPersonActive :: "bool option"
  dep_autonomyStage :: stage
  dep_auditVisibility :: "visibility_override option"
  dep_petitionOnDeny :: "bool option"
  dep_defaultSchedule :: "schedule option"

definition isDependantNaturalPersonActive :: "'a dependant_identity_scheme \<Rightarrow> bool" where
  "isDependantNaturalPersonActive dep =
     (case dep_naturalPersonActive dep of Some b \<Rightarrow> b | None \<Rightarrow> trim (dep_displayName dep) \<noteq> [])"

definition compiler_grant_of :: "rat \<Rightarrow> remembered_grant \<Rightarrow> compiler_grant" where
  "compiler_grant_of nowSeconds g =
     \<lparr>cg_scope = rg_scope g, cg_decision = rg_decision g, cg_hasSchedule = (rg_schedule g \<noteq> None),
      cg_tombstoned = (case rg_tombstonedAt g of Some t \<Rightarrow> t \<noteq> 0 | None \<Rightarrow> False),
      cg_expired = (case rg_expiresAt g of Some t \<Rightarrow> t < nowSeconds | None \<Rightarrow> False)\<rparr>"

definition approvedFor :: "(ustr \<times> approval list) list option \<Rightarrow> ustr \<Rightarrow> approval list" where
  "approvedFor table dep =
     concat (map snd (filter (\<lambda>(k, aps). lower k = lower dep) (case table of None \<Rightarrow> [] | Some t \<Rightarrow> t)))"

record compiler_args =
  ca_dependants :: "dependant_identity list"
  ca_grants :: "remembered_grant list"
  ca_guardianClientPubkey :: "ustr option"
  ca_deviceSlots :: "device_slot list"
  ca_nowSeconds :: rat
  ca_childRules :: "(ustr \<times> rule_like) list option"
  ca_approvedOnceKinds :: "(ustr \<times> approval list) list option"

definition compiler_dependant_of :: "compiler_args \<Rightarrow> 'a dependant_identity_scheme \<Rightarrow> compiler_dependant" where
  "compiler_dependant_of args dep =
     \<lparr>cd_id = dep_id dep,
      cd_identityPubkeys = uniq (map lower (filter (\<lambda>p. p \<noteq> [])
        ([dep_publicKey dep, dep_personaKey dep] @ (case dep_extraPersonas dep of None \<Rightarrow> [] | Some ps \<Rightarrow> map xp_publicKey ps)))),
      cd_dormantIdentityPubkeys = (if isDependantNaturalPersonActive dep \<or> dep_publicKey dep = [] then []
        else [lower (dep_publicKey dep)]),
      cd_autonomyStage = dep_autonomyStage dep,
      cd_hasDefaultSchedule = (dep_defaultSchedule dep \<noteq> None),
      cd_auditVisible = resolveAuditVisibility (dep_autonomyStage dep) (dep_auditVisibility dep),
      cd_petitionOnDeny = (dep_petitionOnDeny dep = Some True),
      cd_grants = map (compiler_grant_of (ca_nowSeconds args))
        (filter (\<lambda>g. lower (rg_dependantId g) = lower (dep_id dep)) (ca_grants args)),
      cd_defaultSchedulePaused = Some (case dep_defaultSchedule dep of None \<Rightarrow> False | Some s \<Rightarrow> sch_paused s),
      cd_childRules = Some (map snd (filter (\<lambda>(d, r). lower d = lower (dep_id dep))
        (case ca_childRules args of None \<Rightarrow> [] | Some rs \<Rightarrow> rs))),
      cd_approvedOnceKinds = Some (approvedFor (ca_approvedOnceKinds args) (dep_id dep))\<rparr>"

definition buildCompilerInput :: "compiler_args \<Rightarrow> compiler_input" where
  "buildCompilerInput args =
     \<lparr>ci_dependants = map (compiler_dependant_of args) (ca_dependants args),
      ci_guardianClientPubkey = ca_guardianClientPubkey args, ci_deviceSlots = ca_deviceSlots args,
      ci_nowSeconds = Some (ca_nowSeconds args)\<rparr>"

section \<open>The ceiling\<close>

lemma set_sortedUnique [simp]: "set (sortedUniqueKinds ks) = set ks"
  by (simp add: sortedUniqueKinds_def)

lemma strict_sorted_unique: "sorted_wrt (<) (sortedUniqueKinds ks)"
  by (simp add: sortedUniqueKinds_def strict_sorted_iff)

lemma sortedUnique_Nil [simp]: "sortedUniqueKinds ks = [] \<longleftrightarrow> ks = []"
  by (metis set_empty set_sortedUnique)

lemma sortedUnique_idem [simp]: "sortedUniqueKinds (sortedUniqueKinds ks) = sortedUniqueKinds ks"
  by (simp add: sortedUniqueKinds_def sorted_sort_id uniq_distinct)

lemma length_sortedUnique: "length (sortedUniqueKinds ks) \<le> length ks"
  by (simp add: sortedUniqueKinds_def length_uniq)

lemma set_in_order [simp]: "set (in_order ks) = set ks - set NEVER_LISTED_KINDS"
  by (auto simp: in_order_def)

lemma in_order_head: "k \<notin> set NEVER_LISTED_KINDS \<Longrightarrow> \<exists>rest. in_order (k # ks) = k # rest"
  by (simp add: in_order_def)

text \<open>Why a kind may be listed: relay login, the stage, an approval that has not run out, or a live allow rule.\<close>

definition by_stage :: "stage \<Rightarrow> int \<Rightarrow> bool" where
  "by_stage st k \<longleftrightarrow> (\<exists>(sc, ks) \<in> set SCOPE_KINDS. k \<in> set ks \<and> Auto_alert \<le> resolvePolicy st (Some sc))"

definition by_approval :: "direct_input \<Rightarrow> int \<Rightarrow> bool" where
  "by_approval inp k \<longleftrightarrow> (\<exists>a \<in> set (di_approvedOnceKinds inp). ap_kind a = of_int k \<and> ap_until a > di_nowSeconds inp)"

definition rule_lists :: "rule_like \<Rightarrow> int \<Rightarrow> bool" where
  "rule_lists r k \<longleftrightarrow> map_option int (kindFromScope (rl_scope r)) = Some k
     \<or> (case scope_kinds (rl_scope r) of Some ks \<Rightarrow> k \<in> set ks | None \<Rightarrow> False)"

definition by_live_rule :: "direct_input \<Rightarrow> int \<Rightarrow> bool" where
  "by_live_rule inp k \<longleftrightarrow> di_stage inp \<noteq> Full_control
     \<and> (\<exists>r \<in> set (di_rules inp). rl_decision r = Allow \<and> live_like r (di_nowSeconds inp * 1000) \<and> rule_lists r k)"

definition licensed :: "direct_input \<Rightarrow> int \<Rightarrow> bool" where
  "licensed inp k \<longleftrightarrow> k = 22242 \<or> by_stage (di_stage inp) k \<or> by_approval inp k \<or> by_live_rule inp k"

lemma auto_policies: "p \<in> {Auto_alert, Auto_log, Auto} \<longleftrightarrow> Auto_alert \<le> p"
  by (cases p) (simp_all add: less_eq_policy_def)

lemma stage_kinds_by_stage: "k \<in> set (stage_kinds st) \<longleftrightarrow> by_stage st k"
  unfolding stage_kinds_def by_stage_def auto_policies by (auto simp: case_prod_beta) force+

lemma approved_by_approval: "k \<in> set (approved_kinds (di_approvedOnceKinds inp) (di_nowSeconds inp)) \<Longrightarrow> by_approval inp k"
  by (auto simp: approved_kinds_def by_approval_def is_int_rat_def elim!: Ints_cases)

definition gathered :: "int list \<times> (int \<times> rat) list \<Rightarrow> int set" where
  "gathered acc = set (fst acc) \<union> fst ` set (snd acc)"

lemma take_rule_lists: "take_rule r acc = Some acc' \<Longrightarrow> gathered acc' \<subseteq> gathered acc \<union> {k. rule_lists r k}"
  by (auto simp: gathered_def take_rule_def rule_lists_def split: option.splits if_splits)

lemma fold_take_rule:
  "fold_opt take_rule rs acc = Some acc' \<Longrightarrow> gathered acc' \<subseteq> gathered acc \<union> {k. \<exists>r \<in> set rs. rule_lists r k}"
proof (induction rs arbitrary: acc)
  case (Cons r rs)
  then obtain mid where mid: "take_rule r acc = Some mid" "fold_opt take_rule rs mid = Some acc'"
    by (auto split: option.splits)
  show ?case
    using take_rule_lists [OF mid(1)] Cons.IH [OF mid(2)] by auto
qed simp

lemma rule_kinds_live:
  assumes "rule_kinds inp = Some (ks, kr)" and "k \<in> set ks \<or> k \<in> fst ` set kr"
  shows "by_live_rule inp k"
proof (cases "di_stage inp = Full_control")
  case False
  let ?live = "filter (\<lambda>r. rl_decision r = Allow \<and> live_like r (di_nowSeconds inp * 1000)) (di_rules inp)"
  have "fold_opt take_rule ?live ([], []) = Some (ks, kr)"
    using assms(1) False by (simp add: rule_kinds_def)
  from fold_take_rule [OF this] assms(2) have "\<exists>r \<in> set ?live. rule_lists r k"
    by (auto simp: gathered_def)
  then show ?thesis
    using False by (auto simp: by_live_rule_def)
qed (use assms in \<open>simp add: rule_kinds_def\<close>)

text \<open>The list before the final sort: relay login first, then only what is licensed.\<close>

definition direct_order :: "direct_input \<Rightarrow> int list \<Rightarrow> (int \<times> rat) list \<Rightarrow> int list" where
  "direct_order inp scopeKinds kindRules =
     in_order ([22242] @ sortedUniqueKinds (CHILD_INTERNAL_KINDS @ stage_kinds (di_stage inp) @ scopeKinds)
       @ approved_kinds (di_approvedOnceKinds inp) (di_nowSeconds inp) @ map fst (sort_key (\<lambda>r. - snd r) kindRules))"

lemma direct_policy_eq:
  assumes "\<not> di_paused inp" "di_stage inp \<noteq> Full_autonomy"
  shows "compileChildDirectPolicy inp =
    map_option (\<lambda>(ks, kr). direct_base inp (sortedUniqueKinds (take CHILD_CEILING_MAX (direct_order inp ks kr)))) (rule_kinds inp)"
  using assms by (simp add: compileChildDirectPolicy_def direct_order_def Let_def)

lemma direct_policy_cases:
  assumes "compileChildDirectPolicy inp = Some p" "\<not> di_paused inp" "di_stage inp \<noteq> Full_autonomy"
  obtains ks kr where "rule_kinds inp = Some (ks, kr)"
    "p = direct_base inp (sortedUniqueKinds (take CHILD_CEILING_MAX (direct_order inp ks kr)))"
  using assms by (auto simp: direct_policy_eq)

lemma direct_order_licensed:
  assumes "rule_kinds inp = Some (ks, kr)" and "k \<in> set (direct_order inp ks kr)"
  shows "k \<notin> set NEVER_LISTED_KINDS \<and> licensed inp k"
  using assms(2) rule_kinds_live [OF assms(1), of k]
  by (auto simp: direct_order_def licensed_def stage_kinds_by_stage CHILD_INTERNAL_KINDS_def dest: approved_by_approval)

lemma direct_order_relay: "\<exists>rest. direct_order inp ks kr = 22242 # rest"
  unfolding direct_order_def append_Cons by (rule in_order_head) (simp add: NEVER_LISTED_KINDS_def)

lemma ceiling_kinds:
  assumes "rule_kinds inp = Some (ks, kr)"
  defines "c \<equiv> sortedUniqueKinds (take CHILD_CEILING_MAX (direct_order inp ks kr))"
  shows "sorted_wrt (<) c \<and> length c \<le> CHILD_CEILING_MAX \<and> 22242 \<in> set c
    \<and> list_all (\<lambda>k. k \<notin> set NEVER_LISTED_KINDS \<and> licensed inp k) c"
proof -
  obtain rest where rest: "direct_order inp ks kr = 22242 # rest"
    using direct_order_relay by blast
  have "length c \<le> CHILD_CEILING_MAX"
    unfolding c_def by (rule le_trans [OF length_sortedUnique]) simp
  moreover have "22242 \<in> set c"
    by (simp add: c_def rest CHILD_CEILING_MAX_def)
  moreover have "list_all (\<lambda>k. k \<notin> set NEVER_LISTED_KINDS \<and> licensed inp k) c"
    using direct_order_licensed [OF assms(1)] by (auto simp: c_def list_all_iff dest: in_set_takeD)
  ultimately show ?thesis
    using strict_sorted_unique by (simp add: c_def)
qed

text \<open>
  C31 (bounds): The compiled policy of a child's own phone, whenever one is compiled. While the child is paused
  it is locked: no method, no kind, nothing approved. At full autonomy its list of kinds is empty, which the
  head of the file reads as every kind. At every other stage the list is never empty: strictly increasing, at
  most 64 kinds, always the relay login kind 22242, never the pairing kind 24133 nor the
  credential kind 31000, and each kind on it has a licence: the stage lets one of its scopes through
  unasked, the guardian approved it once and the approval has not run out, or a live allow rule covers
  it, which at full control none does. (No policy is compiled when a live allow rule has one of the
  inherited object names as its scope.)
\<close>

theorem child_ceiling:
  assumes "compileChildDirectPolicy inp = Some p"
  shows "if di_paused inp then sp_allowedMethods p = [] \<and> sp_allowedKinds p = [] \<and> \<not> sp_autoApprove p
    else sp_autoApprove p \<and> sp_allowedMethods p = CHILD_DIRECT_METHODS
      \<and> (if di_stage inp = Full_autonomy then sp_allowedKinds p = []
         else sorted_wrt (<) (sp_allowedKinds p) \<and> length (sp_allowedKinds p) \<le> 64 \<and> 22242 \<in> set (sp_allowedKinds p)
           \<and> list_all (\<lambda>k. k \<noteq> 24133 \<and> k \<noteq> 31000 \<and> licensed inp k) (sp_allowedKinds p))"
proof (cases "di_paused inp \<or> di_stage inp = Full_autonomy")
  case True
  then show ?thesis
    using assms by (auto simp: compileChildDirectPolicy_def LOCKED_SLOT_POLICY_def direct_base_def)
next
  case False
  then obtain ks kr where k: "rule_kinds inp = Some (ks, kr)"
      "p = direct_base inp (sortedUniqueKinds (take CHILD_CEILING_MAX (direct_order inp ks kr)))"
    using direct_policy_cases [OF assms] by blast
  show ?thesis
    using ceiling_kinds [OF k(1)] False
    by (simp add: k(2) direct_base_def NEVER_LISTED_KINDS_def CHILD_CEILING_MAX_def list_all_iff)
qed

definition sample_direct :: direct_input where
  "sample_direct = \<lparr>di_stage = Request_approve, di_paused = False,
     di_rules = [\<lparr>rl_scope = u ''kind:5'', rl_decision = Allow, rl_tombstonedAt = None, rl_expiresAt = None, rl_updatedAt = Some 7\<rparr>],
     di_approvedOnceKinds = [\<lparr>ap_kind = 30420, ap_until = 100\<rparr>, \<lparr>ap_kind = 24133, ap_until = 100\<rparr>, \<lparr>ap_kind = 3, ap_until = 10\<rparr>],
     di_boundPersona = [97], di_auditVisible = False, di_nowSeconds = 50\<rparr>"


lemma sample_rule_kinds: "rule_kinds sample_direct = Some ([], [(5, 7)])"
proof -
  have "kindFromScope (u ''kind:5'') = Some 5"
    by (simp add: kindFromScope_def u_def starts_with_def is_digits_def digit_unit_def dec_val_def of_char_def)
  then show ?thesis
    by (simp add: rule_kinds_def sample_direct_def live_like_def stamped_def take_rule_def)
qed

lemma sample_ceiling:
  "\<exists>p. compileChildDirectPolicy sample_direct = Some p \<and> sp_allowedKinds p = [5, 21235, 22242, 30420]"
proof -
  have stage: "stage_kinds Request_approve = [21235]"
    by (simp add: stage_kinds_def SCOPE_KINDS_def)
  have "direct_order sample_direct [] [(5, 7)] = [22242, 21235, 30420, 5]"
    by (simp add: direct_order_def sample_direct_def stage CHILD_INTERNAL_KINDS_def approved_kinds_def is_int_rat_def
        in_order_def NEVER_LISTED_KINDS_def sortedUniqueKinds_def)
  moreover have "\<not> di_paused sample_direct" "di_stage sample_direct \<noteq> Full_autonomy"
    by (simp_all add: sample_direct_def)
  ultimately show ?thesis
    by (simp add: direct_policy_eq sample_rule_kinds direct_base_def sortedUniqueKinds_def CHILD_CEILING_MAX_def)
qed

theorem child_ceiling_witness:
  "\<exists>p. compileChildDirectPolicy sample_direct = Some p \<and> sp_allowedKinds p = [5, 21235, 22242, 30420]
     \<and> list_all (\<lambda>k. k \<noteq> 24133 \<and> k \<noteq> 31000 \<and> licensed sample_direct k) (sp_allowedKinds p)"
proof -
  obtain p where p: "compileChildDirectPolicy sample_direct = Some p" "sp_allowedKinds p = [5, 21235, 22242, 30420]"
    using sample_ceiling by blast
  have "\<not> di_paused sample_direct" "di_stage sample_direct \<noteq> Full_autonomy"
    by (simp_all add: sample_direct_def)
  then show ?thesis
    using child_ceiling [OF p(1)] p by simp
qed

lemma fold_opt_None: "x \<in> set xs \<Longrightarrow> (\<And>s. f x s = None) \<Longrightarrow> fold_opt f xs s = None"
  by (induction xs arbitrary: s) (auto split: option.splits)

lemma inherited_scope_kinds: "s \<in> set OBJECT_NAMES \<Longrightarrow> scope_kinds s = None"
  by (auto simp: scope_kinds_def SCOPE_KINDS_def OBJECT_NAMES_def)

lemma constructor_scope:
  "isValidRuleScope (u ''constructor'')" "kindFromScope (u ''constructor'') = None"
  "\<not> starts_with (u ''constructor'') (u ''kind:'')" "u ''constructor'' \<in> set OBJECT_NAMES"
proof -
  show no: "\<not> starts_with (u ''constructor'') (u ''kind:'')"
    by (simp add: starts_with_def u_def of_char_def)
  then show "kindFromScope (u ''constructor'') = None"
    by (simp add: kindFromScope_def)
  show "isValidRuleScope (u ''constructor'')"
    using no by (simp add: isValidRuleScope_def scope_unit_def u_def of_char_def)
qed (simp add: OBJECT_NAMES_def)

text \<open>
  A live allow rule whose scope is a name every object inherits, such as
  \<open>constructor\<close>, is well-formed for the rule checks and makes the compilation of the whole
  policy throw, so that no ceiling is published.
\<close>

lemma inherited_scope_throws:
  assumes "r \<in> set (di_rules inp)" "rl_decision r = Allow" "live_like r (di_nowSeconds inp * 1000)"
    "rl_scope r = u ''constructor''" "\<not> di_paused inp" "di_stage inp \<noteq> Full_control" "di_stage inp \<noteq> Full_autonomy"
  shows "isValidRuleScope (rl_scope r) \<and> compileChildDirectPolicy inp = None"
proof -
  have "take_rule r acc = None" for acc
    using constructor_scope inherited_scope_kinds by (simp add: take_rule_def assms(4))
  then have "rule_kinds inp = None"
    unfolding rule_kinds_def using assms by (auto intro!: fold_opt_None [where x = r])
  then show ?thesis
    using assms(4-7) constructor_scope(1) by (simp add: direct_policy_eq)
qed

definition constructor_rule :: rule_like where
  "constructor_rule = \<lparr>rl_scope = u ''constructor'', rl_decision = Allow, rl_tombstonedAt = None, rl_expiresAt = None,
     rl_updatedAt = Some 7\<rparr>"

lemma inherited_scope_throws_witness:
  "compileChildDirectPolicy sample_direct \<noteq> None
   \<and> compileChildDirectPolicy (sample_direct\<lparr>di_rules := constructor_rule # di_rules sample_direct\<rparr>) = None"
proof -
  let ?inp = "sample_direct\<lparr>di_rules := constructor_rule # di_rules sample_direct\<rparr>"
  have "compileChildDirectPolicy ?inp = None"
    using inherited_scope_throws [of constructor_rule ?inp]
    by (simp add: constructor_rule_def sample_direct_def live_like_def stamped_def)
  then show ?thesis
    using sample_ceiling by auto
qed

section \<open>When a policy is sent\<close>

definition compile_time :: "compiler_input \<Rightarrow> rat \<Rightarrow> rat" where
  "compile_time inp clock = (case ci_nowSeconds inp of Some t \<Rightarrow> t | None \<Rightarrow> of_int \<lfloor>clock / 1000\<rfloor>)"

text \<open>
  What it means for a slot to hold another policy than the compiled one: methods and kinds as
  sets, every flag, and the binding when the policy carries one.
\<close>

definition drifted :: "slot_policy \<Rightarrow> device_slot \<Rightarrow> bool" where
  "drifted p slot \<longleftrightarrow> set (sp_allowedMethods p) \<noteq> set (ds_allowedMethods slot)
     \<or> set (sp_allowedKinds p) \<noteq> set (ds_allowedKinds slot)
     \<or> (sp_autoApprove p, sp_escalate p, sp_petitionOnDeny p, sp_auditChildWrap p)
         \<noteq> (ds_autoApprove slot, ds_escalate slot, ds_petitionOnDeny slot, ds_auditChildWrap slot)
     \<or> (\<exists>b. sp_boundIdentity p = Some b \<and> lower b \<noteq> lower_opt (ds_boundIdentity slot))"

lemma sameSet_sets: "sameSet a b \<longleftrightarrow> set a = set b"
proof
  assume "sameSet a b"
  then have "card (set a) = card (set b)" "set a \<subseteq> set b"
    using distinct_card [of "uniq a"] distinct_card [of "uniq b"] by (auto simp: sameSet_def list_all_iff)
  then show "set a = set b"
    by (simp add: card_subset_eq)
next
  assume "set a = set b"
  then show "sameSet a b"
    using distinct_card [of "uniq a"] distinct_card [of "uniq b"] by (simp add: sameSet_def list_all_iff)
qed

lemma sameSortedKinds_sets: "sameSortedKinds a b \<longleftrightarrow> set a = set b"
proof
  assume "sameSortedKinds a b"
  then show "set a = set b"
    unfolding sameSortedKinds_def by (metis set_sortedUnique)
next
  assume "set a = set b"
  then show "sameSortedKinds a b"
    unfolding sameSortedKinds_def using strict_sorted_unique set_sortedUnique by (metis strict_sorted_equal)
qed

lemma differs_iff_drifted: "policyDiffersFromSlot p slot \<longleftrightarrow> drifted p slot"
  by (auto simp: policyDiffersFromSlot_def drifted_def sameSet_sets sameSortedKinds_sets lower_opt_def)

text \<open>A compiled policy never changes whom the slot is bound to.\<close>

definition keeps_binding :: "slot_policy \<Rightarrow> device_slot \<Rightarrow> bool" where
  "keeps_binding p slot \<longleftrightarrow> (\<forall>b. sp_boundIdentity p = Some b \<longrightarrow> lower b = lower_opt (ds_boundIdentity slot))"

lemma lower_opt_lower [simp]: "lower (lower_opt b) = lower_opt b"
  by (simp add: lower_opt_def split: option.split)

lemma truthy_Some: "truthy_str b = Some x \<Longrightarrow> b = Some x"
  by (auto simp: truthy_str_def split: option.splits if_splits)

lemma dependant_binding: "compileDependantSlotPolicy dep slot = Some p \<Longrightarrow> keeps_binding p slot"
  by (auto simp: compileDependantSlotPolicy_def Let_def LOCKED_SLOT_POLICY_def keeps_binding_def lower_opt_def
      dest!: truthy_Some split: if_splits)

lemma direct_binding: "compileChildDirectPolicy inp = Some p \<Longrightarrow> sp_boundIdentity p = Some (lower (di_boundPersona inp))"
  by (auto simp: compileChildDirectPolicy_def LOCKED_SLOT_POLICY_def direct_base_def Let_def split: if_splits)

lemma direct_slot_binding: "compileChildDirectSlot dep slot now = Some p \<Longrightarrow> keeps_binding p slot"
  by (auto simp: compileChildDirectSlot_def Let_def LOCKED_SLOT_POLICY_def keeps_binding_def
      dest!: direct_binding split: if_splits)

lemma guardian_binding: "keeps_binding (compileGuardianSlotPolicy slot) slot"
  by (simp add: compileGuardianSlotPolicy_def keeps_binding_def Let_def)

lemma compiled_row:
  assumes "compileSlot inp now slot = Some (Some row)"
  shows "cs_slotIndex row = ds_slotIndex slot" "cs_secretFingerprint row = ds_secretFingerprint slot"
    "cs_changed row \<longleftrightarrow> drifted (cs_policy row) slot" "keeps_binding (cs_policy row) slot"
proof -
  obtain reason p where row: "row = compiled slot reason p" and keeps: "keeps_binding p slot"
    using assms guardian_binding [of slot] dependant_binding [of _ slot] direct_slot_binding [of _ slot now]
    by (auto simp: compileSlot_def split: if_splits option.splits)
  show "cs_slotIndex row = ds_slotIndex slot" "cs_secretFingerprint row = ds_secretFingerprint slot"
    "cs_changed row \<longleftrightarrow> drifted (cs_policy row) slot" "keeps_binding (cs_policy row) slot"
    using keeps by (simp_all add: row compiled_def differs_iff_drifted)
qed

section \<open>What an autonomous slot lists\<close>

definition excluded_kind :: "compiler_grant list \<Rightarrow> int \<Rightarrow> bool" where
  "excluded_kind grants k \<longleftrightarrow>
     (\<exists>g \<in> set grants. excludes g \<and> (case scope_kinds (cg_scope g) of Some ks \<Rightarrow> k \<in> set ks | None \<Rightarrow> False))"

lemma scope_kinds_all: "scope_kinds name = Some ks \<Longrightarrow> set ks \<subseteq> set ALL_SCOPE_KINDS"
  by (auto simp: scope_kinds_def ALL_SCOPE_KINDS_def split: option.splits if_splits dest!: find_Some_in)

lemma those_concat:
  assumes "those (map f xs) = Some ys"
  shows "k \<in> set (concat ys) \<longleftrightarrow> (\<exists>x \<in> set xs. case f x of Some ks \<Rightarrow> k \<in> set ks | None \<Rightarrow> False)"
proof -
  have "k \<in> set (concat ys) \<longleftrightarrow> (\<exists>ks \<in> set (map Some ys). case ks of Some ks \<Rightarrow> k \<in> set ks | None \<Rightarrow> False)"
    by auto
  also have "map Some ys = map f xs"
    using assms by (simp add: those_Some)
  finally show ?thesis
    by simp
qed

lemma autonomousKinds_spec:
  assumes "autonomousKinds grants = Some (ks, ex)"
  shows "set ks = {k \<in> set ALL_SCOPE_KINDS. \<not> excluded_kind grants k}" "ex \<longleftrightarrow> (\<exists>k. excluded_kind grants k)"
proof -
  obtain kss where kss: "those (map scope_kinds (excludedScopes grants)) = Some kss"
      "ks = sortedUniqueKinds (filter (\<lambda>k. k \<notin> set (uniq (concat kss)) \<and> k \<notin> set NEVER_LISTED_KINDS) ALL_SCOPE_KINDS)"
      "ex = (0 < length (uniq (concat kss)))"
    using assms by (auto simp: autonomousKinds_def Let_def split: option.splits)
  have "k \<in> set (concat kss) \<longleftrightarrow> excluded_kind grants k" for k
    unfolding those_concat [OF kss(1)] by (auto simp: excluded_kind_def excludedScopes_def)
  then have cat: "set (concat kss) = Collect (excluded_kind grants)"
    by blast
  have "set ALL_SCOPE_KINDS \<inter> set NEVER_LISTED_KINDS = {}"
    by (auto simp: ALL_SCOPE_KINDS_def SCOPE_KINDS_def NEVER_LISTED_KINDS_def)
  then show "set ks = {k \<in> set ALL_SCOPE_KINDS. \<not> excluded_kind grants k}"
    unfolding kss(2) set_sortedUnique set_filter set_uniq cat by auto
  have "ex \<longleftrightarrow> set (concat kss) \<noteq> {}"
    by (metis kss(3) length_greater_0_conv set_empty set_uniq)
  then show "ex \<longleftrightarrow> (\<exists>k. excluded_kind grants k)"
    unfolding cat by blast
qed

text \<open>
  The policy of a child at an autonomous stage without a default schedule: it approves the kinds of the known
  scopes that no active denial or scheduled grant excludes. When the grants exclude every one of
  those kinds the list is empty, which the head of the file reads as all kinds, as at full autonomy with nothing excluded.
\<close>

lemma autonomous_kinds_listed:
  assumes "compileDependantSlotPolicy dep slot = Some p" "isAutonomousStage (cd_autonomyStage dep)"
    "\<not> cd_hasDefaultSchedule dep" "lower_opt (ds_boundIdentity slot) \<notin> set (cd_dormantIdentityPubkeys dep)"
  shows "sp_autoApprove p \<and> u ''sign_event'' \<in> set (sp_allowedMethods p)"
    "set (sp_allowedKinds p) =
      (if cd_autonomyStage dep = Full_autonomy \<and> \<not> (\<exists>j. excluded_kind (cd_grants dep) j) then {}
       else {k \<in> set ALL_SCOPE_KINDS. \<not> excluded_kind (cd_grants dep) k})"
    "list_all (excluded_kind (cd_grants dep)) ALL_SCOPE_KINDS \<Longrightarrow> sp_allowedKinds p = []"
proof -
  obtain ks ex where ks: "autonomousKinds (cd_grants dep) = Some (ks, ex)"
      "sp_allowedKinds p = (if cd_autonomyStage dep = Full_autonomy \<and> \<not> ex then [] else ks)"
      "sp_autoApprove p" "sp_allowedMethods p = AUTONOMOUS_STAGE_METHODS"
    using assms by (auto simp: compileDependantSlotPolicy_def autonomous_ceiling_def Let_def)
  note spec = autonomousKinds_spec [OF ks(1)]
  show "sp_autoApprove p \<and> u ''sign_event'' \<in> set (sp_allowedMethods p)"
    using ks(3,4) by (simp add: AUTONOMOUS_STAGE_METHODS_def)
  show kinds: "set (sp_allowedKinds p) =
      (if cd_autonomyStage dep = Full_autonomy \<and> \<not> (\<exists>j. excluded_kind (cd_grants dep) j) then {}
       else {k \<in> set ALL_SCOPE_KINDS. \<not> excluded_kind (cd_grants dep) k})"
  proof (cases "cd_autonomyStage dep = Full_autonomy \<and> \<not> (\<exists>j. excluded_kind (cd_grants dep) j)")
    case True
    then show ?thesis
      using spec(2) by (simp add: ks(2))
  next
    case False
    then show ?thesis
      unfolding spec(1) [symmetric] spec(2) [symmetric] ks(2) by presburger
  qed
  show "sp_allowedKinds p = []" if "list_all (excluded_kind (cd_grants dep)) ALL_SCOPE_KINDS"
  proof -
    have "{k \<in> set ALL_SCOPE_KINDS. \<not> excluded_kind (cd_grants dep) k} = {}"
      using that by (auto simp: list_all_iff)
    then have "set (sp_allowedKinds p) = {}"
      unfolding kinds by simp
    then show ?thesis
      by simp
  qed
qed

text \<open>A child at the alerts stage, with a denial for each of the given scopes.\<close>

definition denial :: "scope \<Rightarrow> compiler_grant" where
  "denial sc = \<lparr>cg_scope = scope_name sc, cg_decision = Deny, cg_hasSchedule = False, cg_tombstoned = False, cg_expired = False\<rparr>"

definition sample_child :: "scope list \<Rightarrow> compiler_dependant" where
  "sample_child scopes = \<lparr>cd_id = replicate 64 97, cd_identityPubkeys = [replicate 64 98], cd_dormantIdentityPubkeys = [],
     cd_autonomyStage = Autonomous_alerts, cd_hasDefaultSchedule = False, cd_auditVisible = True,
     cd_petitionOnDeny = False, cd_grants = map denial scopes, cd_defaultSchedulePaused = None,
     cd_childRules = None, cd_approvedOnceKinds = None\<rparr>"

definition sample_slot :: device_slot where
  "sample_slot = \<lparr>ds_slotIndex = 3, ds_label = u ''MySignet'', ds_secretFingerprint = replicate 64 99, ds_autoApprove = False,
     ds_signingApproved = True, ds_strictPermissions = True, ds_currentPubkey = None, ds_authorizedPubkeys = [],
     ds_allowedKinds = [], ds_allowedMethods = [], ds_escalate = True, ds_petitionOnDeny = False,
     ds_auditChildWrap = False, ds_boundIdentity = Some (replicate 64 98)\<rparr>"

lemma excluded_by_denials:
  "excluded_kind (map denial scopes) k \<longleftrightarrow> (\<exists>sc \<in> set scopes. case scope_kinds (scope_name sc) of Some ks \<Rightarrow> k \<in> set ks | None \<Rightarrow> False)"
  by (auto simp: excluded_kind_def denial_def excludes_def)

lemma scope_kinds_named: "scope_kinds (scope_name sc) = (if sc = Pair_device then Some [] else map_of SCOPE_KINDS sc)"
  by (cases sc) (simp_all add: scope_kinds_def SCOPE_KINDS_def OBJECT_NAMES_def)

definition listed_scopes :: "scope list" where
  "listed_scopes = [Sign_in, Venue_entry, React_zap_reply, Dm_private, Upload_photo, Mutate_identity]"

lemma sample_child_compiles: "\<exists>p. compileDependantSlotPolicy (sample_child scopes) sample_slot = Some p"
proof -
  have "those (map scope_kinds xs) \<noteq> None" if "set xs \<subseteq> range scope_name" for xs
    using that
  proof (induction xs)
    case (Cons x xs)
    then obtain sc where "x = scope_name sc"
      by auto
    then have "scope_kinds x \<noteq> None"
      by (simp only: scope_kinds_named) (cases sc; simp add: SCOPE_KINDS_def)
    then show ?case
      using Cons by auto
  qed simp
  moreover have "set (excludedScopes (map denial scopes)) \<subseteq> range scope_name"
    by (auto simp: excludedScopes_def denial_def)
  ultimately have "those (map scope_kinds (excludedScopes (map denial scopes))) \<noteq> None"
    by blast
  then show ?thesis
    by (auto simp: compileDependantSlotPolicy_def autonomous_ceiling_def autonomousKinds_def sample_child_def isAutonomousStage_def Let_def)
qed

lemma every_scope_denied:
  "\<exists>p q. compileDependantSlotPolicy (sample_child listed_scopes) sample_slot = Some p \<and> sp_allowedKinds p = [] \<and> sp_autoApprove p
    \<and> compileDependantSlotPolicy (sample_child (tl listed_scopes)) sample_slot = Some q \<and> 21236 \<in> set (sp_allowedKinds q)"
proof -
  have child: "isAutonomousStage (cd_autonomyStage (sample_child scopes))" "\<not> cd_hasDefaultSchedule (sample_child scopes)"
      "lower_opt (ds_boundIdentity sample_slot) \<notin> set (cd_dormantIdentityPubkeys (sample_child scopes))"
      "cd_grants (sample_child scopes) = map denial scopes" "cd_autonomyStage (sample_child scopes) = Autonomous_alerts" for scopes
    by (simp_all add: sample_child_def isAutonomousStage_def)
  obtain p q where pq: "compileDependantSlotPolicy (sample_child listed_scopes) sample_slot = Some p"
      "compileDependantSlotPolicy (sample_child (tl listed_scopes)) sample_slot = Some q"
    using sample_child_compiles by blast
  have every: "list_all (excluded_kind (map denial listed_scopes)) ALL_SCOPE_KINDS"
    unfolding list_all_iff excluded_by_denials scope_kinds_named
    by (simp add: listed_scopes_def ALL_SCOPE_KINDS_def SCOPE_KINDS_def)
  have one: "\<not> excluded_kind (map denial (tl listed_scopes)) 21236" "21236 \<in> set ALL_SCOPE_KINDS"
    unfolding excluded_by_denials scope_kinds_named
    by (simp_all add: listed_scopes_def ALL_SCOPE_KINDS_def SCOPE_KINDS_def)
  show ?thesis
    using autonomous_kinds_listed(1,3) [OF pq(1) child(1-3)] autonomous_kinds_listed(2) [OF pq(2) child(1-3)] child(4,5) pq every one
    by simp
qed

text \<open>The keys a dependant's record names: the real identity, the default persona, the extra ones.\<close>

definition dep_keys :: "'a dependant_identity_scheme \<Rightarrow> ustr list" where
  "dep_keys dep = [dep_publicKey dep, dep_personaKey dep] @ (case dep_extraPersonas dep of None \<Rightarrow> [] | Some ps \<Rightarrow> map xp_publicKey ps)"

lemma binds_own_key:
  "binds (compiler_dependant_of args dep) bound \<Longrightarrow> \<exists>key \<in> set (dep_keys dep). key \<noteq> [] \<and> lower key = bound"
proof -
  have "cd_identityPubkeys (compiler_dependant_of args dep) = uniq (map lower (filter (\<lambda>key. key \<noteq> []) (dep_keys dep)))"
    by (simp add: compiler_dependant_of_def dep_keys_def)
  then have "set (cd_identityPubkeys (compiler_dependant_of args dep)) = lower ` set (filter (\<lambda>key. key \<noteq> []) (dep_keys dep))"
    by simp
  moreover assume "binds (compiler_dependant_of args dep) bound"
  ultimately show ?thesis
    by (auto simp: binds_def)
qed

lemma find_binds: "findDependantForSlot slot deps = Some dep \<Longrightarrow> dep \<in> set deps \<and> binds dep (lower_opt (ds_boundIdentity slot))"
  by (auto simp: findDependantForSlot_def Let_def dest!: find_Some_in split: if_splits)

lemma dormant_slot_locked:
  assumes "lower_opt (ds_boundIdentity slot) \<in> set (cd_dormantIdentityPubkeys dep)" "lower_opt (ds_boundIdentity slot) \<noteq> []"
    "(if child then compileChildDirectSlot dep slot now else compileDependantSlotPolicy dep slot) = Some p"
  shows "\<exists>b. p = LOCKED_SLOT_POLICY b"
  using assms by (auto simp: compileChildDirectSlot_def compileDependantSlotPolicy_def Let_def split: if_splits)

lemma result_row:
  assumes "compileSlotPolicies inp clock = Some res" "row \<in> set (res_slots res)"
  shows "\<exists>slot \<in> set (ci_deviceSlots inp). compileSlot inp (compile_time inp clock) slot = Some (Some row)"
proof -
  obtain rows where rows: "map (compileSlot inp (compile_time inp clock)) (ci_deviceSlots inp) = map Some rows"
      "row \<in> set (List.map_filter id rows)"
    using assms by (auto simp: compileSlotPolicies_def compile_time_def those_Some)
  have "Some row \<in> set rows"
    using rows(2) by (induction rows) (auto simp: List.map_filter_def split: option.splits if_splits)
  then have "Some (Some row) \<in> set (map Some rows)"
    by simp
  then show ?thesis
    unfolding rows(1) [symmetric] by force
qed

text \<open>
  C32 (safety): A policy the compiler writes for a child goes to a slot bound to one of that child's
  own keys, and if it is the key of a real identity that has not been activated the policy is the locked
  one, whatever the stage, the rules, the grants or the approvals: it lists no method and no kind, approves
  nothing, and neither escalates, petitions nor wraps an audit copy. (By the head of the file
  a method that is not listed is refused.)
\<close>

theorem dormant_identity_locked:
  assumes "compileSlotPolicies (buildCompilerInput args) clock = Some res" "row \<in> set (res_slots res)"
    "cs_reason row = Dependant_slot d"
  shows "\<exists>slot dep. slot \<in> set (ca_deviceSlots args) \<and> dep \<in> set (ca_dependants args) \<and> d = dep_id dep
    \<and> cs_secretFingerprint row = ds_secretFingerprint slot
    \<and> lower_opt (ds_boundIdentity slot) \<in> lower ` set (filter (\<lambda>key. key \<noteq> []) (dep_keys dep))
    \<and> (isDependantNaturalPersonActive dep \<or> lower_opt (ds_boundIdentity slot) \<noteq> lower (dep_publicKey dep)
        \<or> sp_allowedMethods (cs_policy row) = [] \<and> sp_allowedKinds (cs_policy row) = [] \<and> \<not> sp_autoApprove (cs_policy row)
          \<and> \<not> sp_escalate (cs_policy row) \<and> \<not> sp_petitionOnDeny (cs_policy row) \<and> \<not> sp_auditChildWrap (cs_policy row))"
proof -
  let ?inp = "buildCompilerInput args" and ?now = "compile_time (buildCompilerInput args) clock"
  obtain slot where slot: "slot \<in> set (ca_deviceSlots args)" "compileSlot ?inp ?now slot = Some (Some row)"
    using result_row [OF assms(1,2)] by (auto simp: buildCompilerInput_def)
  then obtain cd p where cd: "findDependantForSlot slot (ci_dependants ?inp) = Some cd"
      "(if isChildDirectSlot (ds_label slot) then compileChildDirectSlot cd slot ?now else compileDependantSlotPolicy cd slot) = Some p"
      "row = compiled slot (Dependant_slot (cd_id cd)) p"
    using assms(3) by (auto simp: compileSlot_def compiled_def split: if_splits option.splits)
  then obtain dep where dep: "dep \<in> set (ca_dependants args)" "cd = compiler_dependant_of args dep"
    using find_binds [OF cd(1)] by (auto simp: buildCompilerInput_def)
  obtain key where key: "key \<in> set (dep_keys dep)" "key \<noteq> []" "lower key = lower_opt (ds_boundIdentity slot)"
    using binds_own_key find_binds [OF cd(1)] dep(2) by blast
  have "\<exists>b. p = LOCKED_SLOT_POLICY b"
    if "\<not> isDependantNaturalPersonActive dep" "lower_opt (ds_boundIdentity slot) = lower (dep_publicKey dep)"
  proof -
    have "lower_opt (ds_boundIdentity slot) \<noteq> []"
      using key(2,3) by (metis lower_eq_Nil)
    moreover have "lower_opt (ds_boundIdentity slot) \<in> set (cd_dormantIdentityPubkeys cd)"
      using that calculation by (auto simp: dep(2) compiler_dependant_of_def)
    ultimately show ?thesis
      using dormant_slot_locked cd(2) by blast
  qed
  moreover have "lower_opt (ds_boundIdentity slot) \<in> lower ` set (filter (\<lambda>key. key \<noteq> []) (dep_keys dep))"
    unfolding key(3) [symmetric] using key(1,2) by simp
  moreover have "d = dep_id dep" "cs_secretFingerprint row = ds_secretFingerprint slot" "cs_policy row = p"
    using assms(3) by (simp_all add: cd(3) compiled_def dep(2) compiler_dependant_of_def)
  ultimately show ?thesis
    using slot(1) dep(1) by (fastforce simp: LOCKED_SLOT_POLICY_def)
qed

text \<open>One child whose real identity is not active, and one slot bound to it.\<close>

definition sample_args :: compiler_args where
  "sample_args = \<lparr>ca_dependants = [\<lparr>dep_id = replicate 64 97, dep_publicKey = replicate 64 98, dep_displayName = [],
       dep_personaKey = replicate 64 100, dep_extraPersonas = None, dep_naturalPersonActive = Some False,
       dep_autonomyStage = Full_autonomy, dep_auditVisibility = None, dep_petitionOnDeny = None, dep_defaultSchedule = None\<rparr>],
     ca_grants = [], ca_guardianClientPubkey = None, ca_deviceSlots = [sample_slot], ca_nowSeconds = 50,
     ca_childRules = None, ca_approvedOnceKinds = None\<rparr>"

lemma sample_args_slot:
  "compileSlot (buildCompilerInput sample_args) 50 sample_slot = Some (Some (compiled sample_slot (Dependant_slot (replicate 64 97))
      (LOCKED_SLOT_POLICY (truthy_str (ds_boundIdentity sample_slot)))))"
proof -
  let ?inp = "buildCompilerInput sample_args" and ?cd = "compiler_dependant_of sample_args (hd (ca_dependants sample_args))"
  have b: "lower (replicate 64 98) = replicate 64 98" "lower_opt (ds_boundIdentity sample_slot) = replicate 64 98"
    by (simp_all add: lower_def lower_unit_def lower_opt_def sample_slot_def)
  have inp: "ci_dependants ?inp = [?cd]" "ci_guardianClientPubkey ?inp = None" "ci_deviceSlots ?inp = [sample_slot]"
      "ci_nowSeconds ?inp = Some 50"
    by (simp_all add: buildCompilerInput_def sample_args_def)
  have cd: "replicate 64 98 \<in> set (cd_dormantIdentityPubkeys ?cd)" "binds ?cd (replicate 64 98)" "cd_id ?cd = replicate 64 97"
    by (simp_all add: compiler_dependant_of_def sample_args_def isDependantNaturalPersonActive_def b binds_def)
  have no: "\<not> isChildDirectSlot (ds_label sample_slot)"
    by (simp add: isChildDirectSlot_def sample_slot_def starts_with_def CHILD_DIRECT_LABEL_PREFIX_def u_def of_char_def)
  have "compileDependantSlotPolicy ?cd sample_slot = Some (LOCKED_SLOT_POLICY (truthy_str (ds_boundIdentity sample_slot)))"
    by (simp add: compileDependantSlotPolicy_def b cd)
  moreover have "findDependantForSlot sample_slot [?cd] = Some ?cd"
    by (simp add: findDependantForSlot_def no b cd)
  ultimately show ?thesis
    by (simp add: compileSlot_def inp isGuardianSlot_def truthy_str_def no cd(3))
qed

lemma sample_args_row:
  "\<exists>res row. compileSlotPolicies (buildCompilerInput sample_args) 0 = Some res \<and> row \<in> set (res_slots res)
     \<and> cs_reason row = Dependant_slot (replicate 64 97)"
proof -
  let ?inp = "buildCompilerInput sample_args"
  have "ci_guardianClientPubkey ?inp = None" "ci_deviceSlots ?inp = [sample_slot]" "ci_nowSeconds ?inp = Some 50"
    by (simp_all add: buildCompilerInput_def sample_args_def)
  then show ?thesis
    using sample_args_slot by (simp add: compileSlotPolicies_def truthy_str_def List.map_filter_def compiled_def)
qed

theorem dormant_identity_locked_witness:
  "\<exists>res row. compileSlotPolicies (buildCompilerInput sample_args) 0 = Some res \<and> row \<in> set (res_slots res)
     \<and> sp_allowedMethods (cs_policy row) = [] \<and> \<not> sp_escalate (cs_policy row)"
proof -
  obtain res row where row: "compileSlotPolicies (buildCompilerInput sample_args) 0 = Some res" "row \<in> set (res_slots res)"
      "cs_reason row = Dependant_slot (replicate 64 97)"
    using sample_args_row by blast
  obtain slot dep where "slot \<in> set (ca_deviceSlots sample_args)" "dep \<in> set (ca_dependants sample_args)"
      "isDependantNaturalPersonActive dep \<or> lower_opt (ds_boundIdentity slot) \<noteq> lower (dep_publicKey dep)
        \<or> sp_allowedMethods (cs_policy row) = [] \<and> sp_allowedKinds (cs_policy row) = [] \<and> \<not> sp_autoApprove (cs_policy row)
          \<and> \<not> sp_escalate (cs_policy row) \<and> \<not> sp_petitionOnDeny (cs_policy row) \<and> \<not> sp_auditChildWrap (cs_policy row)"
    using dormant_identity_locked [OF row] by blast
  then have "sp_allowedMethods (cs_policy row) = [] \<and> \<not> sp_escalate (cs_policy row)"
    by (simp add: sample_args_def sample_slot_def lower_opt_def isDependantNaturalPersonActive_def)
  then show ?thesis
    using row by blast
qed

end
