(* ===== verification/Policy_Push.thy ===== *)
theory Policy_Push
  imports Policy_Compiler "HOL-Library.Sublist" "HOL-Library.Multiset"
begin

text \<open>
  \<open>policy-push.ts\<close>: sending the compiled policies to the family's signing device, slot by slot. The two
  calls to the device are a parameter (\<open>push_io\<close>), each a function of a state of their own that may fail with
  a message; nothing is assumed of them. A line of \<open>errors\<close> is kept as its parts.
\<close>

section \<open>One run\<close>

record 's push_io =
  io_listClients :: "'s \<Rightarrow> (ustr + device_slot list) \<times> 's"
  io_updateClientPolicy :: "int \<Rightarrow> ustr \<Rightarrow> slot_policy \<Rightarrow> 's \<Rightarrow> ustr option \<times> 's"

record push_input =
  pi_dependants :: "dependant_identity list"
  pi_grants :: "remembered_grant list"
  pi_guardianClientPubkey :: "ustr option"
  pi_nowSeconds :: rat
  pi_childRules :: "(ustr \<times> rule_like) list option"
  pi_approvedOnceKinds :: "(ustr \<times> approval list) list option"

text \<open>Why a call of \<open>compile\<close> failed: the message of the device, or a \<open>TypeError\<close> of the compiler.\<close>

datatype push_failure = Device_error ustr | Not_iterable

datatype push_error =
    List_failed push_failure
  | Slot_failed int ustr
  | Refresh_failed int ustr push_failure

record push_result =
  pr_pushed :: nat
  pr_unchanged :: nat
  pr_untouched :: nat
  pr_errors :: "push_error list"
  pr_warned :: bool

definition isStaleChallengeError :: "ustr \<Rightarrow> bool" where
  "isStaleChallengeError message = sublist (u ''stale_management_challenge'') (lower message)"

definition isStaleClientSlotError :: "ustr \<Rightarrow> bool" where
  "isStaleClientSlotError message = sublist (u ''stale_client_slot'') (lower message)"

definition isRefreshAndRetryError :: "ustr \<Rightarrow> bool" where
  "isRefreshAndRetryError message \<longleftrightarrow> isStaleChallengeError message \<or> isStaleClientSlotError message"

definition push_compiler_input :: "push_input \<Rightarrow> device_slot list \<Rightarrow> compiler_input" where
  "push_compiler_input inp slots = buildCompilerInput
     \<lparr>ca_dependants = pi_dependants inp, ca_grants = pi_grants inp, ca_guardianClientPubkey = pi_guardianClientPubkey inp,
      ca_deviceSlots = slots, ca_nowSeconds = pi_nowSeconds inp, ca_childRules = pi_childRules inp,
      ca_approvedOnceKinds = pi_approvedOnceKinds inp\<rparr>"

text \<open>\<open>compile\<close>: the clock of the compiler is not read, since the input carries \<open>nowSeconds\<close>.\<close>

definition compile_inventory :: "'s push_io \<Rightarrow> push_input \<Rightarrow> 's \<Rightarrow> (push_failure + compile_result) \<times> 's" where
  "compile_inventory io inp s =
     (case io_listClients io s of
        (Inl m, s') \<Rightarrow> (Inl (Device_error m), s')
      | (Inr slots, s') \<Rightarrow>
          (case compileSlotPolicies (push_compiler_input inp slots) 0 of
             None \<Rightarrow> (Inl Not_iterable, s') | Some c \<Rightarrow> (Inr c, s')))"

definition pushOne :: "'s push_io \<Rightarrow> compiled_slot \<Rightarrow> 's \<Rightarrow> ustr option \<times> 's" where
  "pushOne io row = io_updateClientPolicy io (cs_slotIndex row) (cs_secretFingerprint row) (cs_policy row)"

definition failed_with :: "push_error \<Rightarrow> push_result \<Rightarrow> push_result" where
  "failed_with e r = r\<lparr>pr_errors := pr_errors r @ [e]\<rparr>"

definition sent_one :: "push_result \<Rightarrow> push_result" where
  "sent_one r = r\<lparr>pr_pushed := pr_pushed r + 1\<rparr>"

definition left_one :: "push_result \<Rightarrow> push_result" where
  "left_one r = r\<lparr>pr_unchanged := pr_unchanged r + 1\<rparr>"

definition retry_slot :: "'s push_io \<Rightarrow> push_input \<Rightarrow> int \<Rightarrow> ustr \<Rightarrow> push_result \<times> 's \<Rightarrow> push_result \<times> 's" where
  "retry_slot io inp i msg = (\<lambda>(r, s).
     (case compile_inventory io inp s of
        (Inl e, s1) \<Rightarrow> (failed_with (Refresh_failed i msg e) r, s1)
      | (Inr again, s1) \<Rightarrow>
          (case find (\<lambda>x. cs_slotIndex x = i) (res_slots again) of
             None \<Rightarrow> (r\<lparr>pr_untouched := pr_untouched r + 1\<rparr>, s1)
           | Some fresh \<Rightarrow>
               if \<not> cs_changed fresh then (left_one r, s1)
               else (case pushOne io fresh s1 of
                       (None, s2) \<Rightarrow> (sent_one r, s2) | (Some m, s2) \<Rightarrow> (failed_with (Slot_failed i m) r, s2)))))"

definition push_slot :: "'s push_io \<Rightarrow> push_input \<Rightarrow> compiled_slot \<Rightarrow> push_result \<times> 's \<Rightarrow> push_result \<times> 's" where
  "push_slot io inp row = (\<lambda>(r, s).
     if \<not> cs_changed row then (left_one r, s)
     else (case pushOne io row s of
             (None, s1) \<Rightarrow> (sent_one r, s1)
           | (Some m, s1) \<Rightarrow>
               if \<not> isRefreshAndRetryError m then (failed_with (Slot_failed (cs_slotIndex row) m) r, s1)
               else retry_slot io inp (cs_slotIndex row) m (r, s1)))"

definition runPolicyPush :: "'s push_io \<Rightarrow> push_input \<Rightarrow> 's \<Rightarrow> push_result \<times> 's" where
  "runPolicyPush io inp s =
     (let none = \<lparr>pr_pushed = 0, pr_unchanged = 0, pr_untouched = 0, pr_errors = [], pr_warned = False\<rparr> in
      case compile_inventory io inp s of
        (Inl e, s1) \<Rightarrow> (failed_with (List_failed e) none, s1)
      | (Inr c, s1) \<Rightarrow> fold (push_slot io inp) (res_slots c)
          (none\<lparr>pr_untouched := res_untouched c, pr_warned := res_warned c\<rparr>, s1))"

text \<open>\<open>pushChildDirectCeiling\<close>: only the slot named is pushed; the result says whether the device has it.\<close>

definition ceiling_attempt :: "'s push_io \<Rightarrow> push_input \<Rightarrow> int \<Rightarrow> ustr \<Rightarrow> 's \<Rightarrow> (push_failure + bool) \<times> 's" where
  "ceiling_attempt io inp i fingerprint s =
     (case compile_inventory io inp s of
        (Inl e, s1) \<Rightarrow> (Inl e, s1)
      | (Inr c, s1) \<Rightarrow>
          (case find (\<lambda>x. cs_slotIndex x = i \<and> lower (cs_secretFingerprint x) = lower fingerprint) (res_slots c) of
             None \<Rightarrow> (Inr False, s1)
           | Some row \<Rightarrow> if \<not> cs_changed row then (Inr True, s1)
               else (case pushOne io row s1 of (None, s2) \<Rightarrow> (Inr True, s2) | (Some m, s2) \<Rightarrow> (Inl (Device_error m), s2))))"

definition may_retry :: "push_failure \<Rightarrow> bool" where
  "may_retry e = (case e of Device_error m \<Rightarrow> isRefreshAndRetryError m | Not_iterable \<Rightarrow> False)"

definition pushChildDirectCeiling :: "'s push_io \<Rightarrow> push_input \<Rightarrow> int \<Rightarrow> ustr \<Rightarrow> 's \<Rightarrow> bool \<times> 's" where
  "pushChildDirectCeiling io inp i fingerprint s =
     (case ceiling_attempt io inp i fingerprint s of
        (Inr ok, s1) \<Rightarrow> (ok, s1)
      | (Inl e, s1) \<Rightarrow>
          if \<not> may_retry e then (False, s1)
          else (case ceiling_attempt io inp i fingerprint s1 of (Inr ok, s2) \<Rightarrow> (ok, s2) | (Inl e2, s2) \<Rightarrow> (False, s2)))"

section \<open>The calls of a run\<close>

text \<open>Any device, with a record of the calls made to it and of what each returned.\<close>

datatype device_call =
    Listed "ustr + device_slot list"
  | Sent int ustr slot_policy "ustr option"

definition recording :: "'s push_io \<Rightarrow> (device_call list \<times> 's) push_io" where
  "recording io =
     \<lparr>io_listClients = (\<lambda>(tr, s). case io_listClients io s of (r, s') \<Rightarrow> (r, (tr @ [Listed r], s'))),
      io_updateClientPolicy = (\<lambda>i f p (tr, s). case io_updateClientPolicy io i f p s of (r, s') \<Rightarrow> (r, (tr @ [Sent i f p r], s')))\<rparr>"

text \<open>The policy the records ask for at a slot, none where the slot is not the family's.\<close>

definition wanted :: "push_input \<Rightarrow> device_slot \<Rightarrow> slot_policy option" where
  "wanted inp slot =
     (case compileSlot (push_compiler_input inp []) (pi_nowSeconds inp) slot of
        Some (Some row) \<Rightarrow> Some (cs_policy row) | _ \<Rightarrow> None)"

definition off :: "push_input \<Rightarrow> device_slot \<Rightarrow> bool" where
  "off inp slot \<longleftrightarrow> (case wanted inp slot of None \<Rightarrow> False | Some p \<Rightarrow> drifted p slot)"

text \<open>An update is warranted by an inventory read before it: it names a slot listed there that is off, and carries what is wanted.\<close>

definition warranted :: "push_input \<Rightarrow> device_call list \<Rightarrow> device_call \<Rightarrow> bool" where
  "warranted inp before c =
     (case c of
        Listed r \<Rightarrow> True
      | Sent i f p out \<Rightarrow> \<exists>slots slot. Listed (Inr slots) \<in> set before \<and> slot \<in> set slots \<and> ds_slotIndex slot = i
          \<and> ds_secretFingerprint slot = f \<and> wanted inp slot = Some p \<and> drifted p slot \<and> keeps_binding p slot)"

fun all_warranted :: "push_input \<Rightarrow> device_call list \<Rightarrow> device_call list \<Rightarrow> bool" where
  "all_warranted inp before [] = True"
| "all_warranted inp before (c # cs) \<longleftrightarrow> warranted inp before c \<and> all_warranted inp (before @ [c]) cs"

definition is_sent :: "device_call \<Rightarrow> bool" where
  "is_sent c = (case c of Sent i f p out \<Rightarrow> True | Listed r \<Rightarrow> False)"

definition confirmed :: "device_call \<Rightarrow> bool" where
  "confirmed c = (case c of Sent i f p out \<Rightarrow> out = None | Listed r \<Rightarrow> False)"

lemma all_warranted_append [simp]:
  "all_warranted inp before (xs @ ys) \<longleftrightarrow> all_warranted inp before xs \<and> all_warranted inp (before @ xs) ys"
  by (induction xs arbitrary: before) auto

lemma recording_simps [simp]:
  "io_listClients (recording io) (tr, s) = (case io_listClients io s of (r, s') \<Rightarrow> (r, (tr @ [Listed r], s')))"
  "io_updateClientPolicy (recording io) i f p (tr, s) = (case io_updateClientPolicy io i f p s of (r, s') \<Rightarrow> (r, (tr @ [Sent i f p r], s')))"
  by (simp_all add: recording_def)

section \<open>From an inventory to its rows\<close>

lemma compile_any_inventory:
  "compileSlot (push_compiler_input inp slots) now slot = compileSlot (push_compiler_input inp []) now slot"
proof -
  have "ci_dependants (push_compiler_input inp slots) = ci_dependants (push_compiler_input inp [])"
    "ci_guardianClientPubkey (push_compiler_input inp slots) = ci_guardianClientPubkey (push_compiler_input inp [])"
    by (simp_all add: push_compiler_input_def buildCompilerInput_def compiler_dependant_of_def [abs_def])
  then show ?thesis
    unfolding compileSlot_def by (simp only:)
qed

lemma push_time [simp]: "compile_time (push_compiler_input inp slots) clock = pi_nowSeconds inp"
  by (simp add: compile_time_def push_compiler_input_def buildCompilerInput_def)

lemma push_slots [simp]: "ci_deviceSlots (push_compiler_input inp slots) = slots"
  by (simp add: push_compiler_input_def buildCompilerInput_def)

definition named_by :: "push_input \<Rightarrow> device_slot \<Rightarrow> compiled_slot \<Rightarrow> bool" where
  "named_by inp slot row \<longleftrightarrow> ds_slotIndex slot = cs_slotIndex row \<and> ds_secretFingerprint slot = cs_secretFingerprint row
     \<and> wanted inp slot = Some (cs_policy row) \<and> keeps_binding (cs_policy row) slot \<and> (cs_changed row \<longleftrightarrow> drifted (cs_policy row) slot)"

definition known :: "push_input \<Rightarrow> device_call list \<Rightarrow> compiled_slot \<Rightarrow> bool" where
  "known inp before row \<longleftrightarrow> (\<exists>slots slot. Listed (Inr slots) \<in> set before \<and> slot \<in> set slots \<and> named_by inp slot row)"

lemma row_named:
  assumes "compileSlot (push_compiler_input inp []) (pi_nowSeconds inp) slot = Some (Some row)"
  shows "named_by inp slot row"
  using compiled_row [OF assms] assms by (simp add: named_by_def wanted_def)

lemma rows_of_inventory:
  assumes "compileSlotPolicies (push_compiler_input inp slots) 0 = Some c"
  shows "\<exists>rows. map (compileSlot (push_compiler_input inp []) (pi_nowSeconds inp)) slots = map Some rows
     \<and> res_slots c = List.map_filter id rows \<and> res_untouched c = length (filter (\<lambda>row. row = None) rows)"
proof -
  have "compileSlotPolicies i 0 = map_option (\<lambda>rows.
        \<lparr>res_slots = List.map_filter id rows, res_untouched = length (filter (\<lambda>row. row = None) rows),
         res_warned = (truthy_str (ci_guardianClientPubkey i) \<noteq> None
           \<and> \<not> (\<exists>slot \<in> set (ci_deviceSlots i). isGuardianSlot slot (ci_guardianClientPubkey i)))\<rparr>)
        (those (map (compileSlot i (compile_time i 0)) (ci_deviceSlots i)))" for i
    by (simp add: compileSlotPolicies_def compile_time_def)
  moreover have "compileSlot (push_compiler_input inp slots) = compileSlot (push_compiler_input inp [])"
    using compile_any_inventory by blast
  ultimately show ?thesis
    using assms by (auto simp: those_Some)
qed

lemma rows_counted:
  assumes "map (compileSlot (push_compiler_input inp []) (pi_nowSeconds inp)) slots = map Some rows"
  shows "length (List.map_filter id rows) + length (filter (\<lambda>row. row = None) rows) = length slots
    \<and> length (filter cs_changed (List.map_filter id rows)) = length (filter (off inp) slots)
    \<and> (\<forall>slot \<in> set slots. \<forall>p. wanted inp slot = Some p \<longrightarrow> (\<exists>row \<in> set (List.map_filter id rows). named_by inp slot row))"
  using assms
proof (induction slots arbitrary: rows)
  case (Cons slot slots)
  then obtain row rows' where rows: "rows = row # rows'"
      "compileSlot (push_compiler_input inp []) (pi_nowSeconds inp) slot = Some row"
      "map (compileSlot (push_compiler_input inp []) (pi_nowSeconds inp)) slots = map Some rows'"
    by (cases rows) auto
  show ?case
  proof (cases row)
    case None
    then have "wanted inp slot = None"
      using rows(2) by (simp add: wanted_def)
    then show ?thesis
      using Cons.IH [OF rows(3)] None by (auto simp: rows(1) off_def List.map_filter_def)
  next
    case (Some a)
    then have "named_by inp slot a"
      using rows(2) row_named by simp
    then show ?thesis
      using Cons.IH [OF rows(3)] Some by (auto simp: rows(1) off_def named_by_def List.map_filter_def)
  qed
qed (simp add: List.map_filter_def)

lemma rows_known:
  assumes "compileSlotPolicies (push_compiler_input inp slots) 0 = Some c" "Listed (Inr slots) \<in> set tr" "row \<in> set (res_slots c)"
  shows "known inp tr row"
proof -
  obtain slot where "slot \<in> set slots" "compileSlot (push_compiler_input inp []) (pi_nowSeconds inp) slot = Some (Some row)"
    using result_row [OF assms(1,3)] compile_any_inventory [of inp slots] by auto
  then show ?thesis
    using row_named assms(2) unfolding known_def by blast
qed

section \<open>From the rows to the calls\<close>

definition handled :: "push_result \<Rightarrow> nat" where
  "handled r = pr_pushed r + pr_unchanged r + pr_untouched r + length (pr_errors r)"

lemma push_counters [simp]:
  "handled (failed_with e r) = Suc (handled r)" "handled (sent_one r) = Suc (handled r)" "handled (left_one r) = Suc (handled r)"
  "handled (r\<lparr>pr_untouched := Suc (pr_untouched r)\<rparr>) = Suc (handled r)"
  "pr_pushed (failed_with e r) = pr_pushed r" "pr_pushed (sent_one r) = Suc (pr_pushed r)" "pr_pushed (left_one r) = pr_pushed r"
  by (simp_all add: handled_def failed_with_def sent_one_def left_one_def)

lemma known_more: "known inp tr row \<Longrightarrow> known inp (tr @ cs) row"
  by (auto simp: known_def)

lemma known_warranted:
  "known inp tr row \<Longrightarrow> cs_changed row \<Longrightarrow> warranted inp tr (Sent (cs_slotIndex row) (cs_secretFingerprint row) (cs_policy row) out)"
  by (fastforce simp: known_def named_by_def warranted_def)

lemma compile_recorded:
  assumes "compile_inventory (recording io) inp (tr, s) = (x, st)"
  shows "\<exists>r s'. io_listClients io s = (r, s') \<and> st = (tr @ [Listed r], s')
    \<and> (case x of Inl e \<Rightarrow> (case r of Inl m \<Rightarrow> True | Inr slots \<Rightarrow> compileSlotPolicies (push_compiler_input inp slots) 0 = None)
       | Inr c \<Rightarrow> (\<exists>slots. r = Inr slots \<and> compileSlotPolicies (push_compiler_input inp slots) 0 = Some c))"
  using assms by (auto simp: compile_inventory_def split: prod.splits sum.splits option.splits)

lemma push_recorded:
  assumes "pushOne (recording io) row (tr, s) = (out, st)"
  shows "\<exists>s'. st = (tr @ [Sent (cs_slotIndex row) (cs_secretFingerprint row) (cs_policy row) out], s')"
  using assms by (auto simp: pushOne_def split: prod.splits)

text \<open>What one turn of the loop adds: calls, each warranted, and one slot accounted for.\<close>

definition one_turn :: "push_input \<Rightarrow> device_call list \<Rightarrow> nat \<Rightarrow> push_result \<Rightarrow> push_result \<Rightarrow> device_call list \<Rightarrow> bool" where
  "one_turn inp tr most r r' cs \<longleftrightarrow> all_warranted inp tr cs \<and> handled r' = Suc (handled r)
     \<and> pr_pushed r' = pr_pushed r + length (filter confirmed cs) \<and> length (filter is_sent cs) \<le> most"

lemmas one_turn_simps = one_turn_def is_sent_def confirmed_def

lemma retry_slot_turn:
  assumes "retry_slot (recording io) inp i msg (r, (tr, s)) = (r', st)"
  shows "\<exists>cs s'. st = (tr @ cs, s') \<and> one_turn inp tr 1 r r' cs"
proof -
  obtain x st1 where x: "compile_inventory (recording io) inp (tr, s) = (x, st1)"
    by (cases "compile_inventory (recording io) inp (tr, s)") blast
  obtain list s1 where l: "st1 = (tr @ [Listed list], s1)"
      "case x of Inl e \<Rightarrow> (case list of Inl m \<Rightarrow> True | Inr slots \<Rightarrow> compileSlotPolicies (push_compiler_input inp slots) 0 = None)
       | Inr c \<Rightarrow> (\<exists>slots. list = Inr slots \<and> compileSlotPolicies (push_compiler_input inp slots) 0 = Some c)"
    using compile_recorded [OF x] by blast
  let ?tr = "tr @ [Listed list]"
  have quiet: "\<exists>cs s'. st = (tr @ cs, s') \<and> one_turn inp tr 1 r r' cs"
    if "st = st1" "handled r' = Suc (handled r)" "pr_pushed r' = pr_pushed r"
    using that by (intro exI [of _ "[Listed list]"]) (simp add: l(1) one_turn_simps warranted_def)
  show ?thesis
  proof (cases x)
    case (Inl e)
    then show ?thesis
      using assms x by (intro quiet) (auto simp: retry_slot_def)
  next
    case (Inr c)
    then obtain slots where c: "list = Inr slots" "compileSlotPolicies (push_compiler_input inp slots) 0 = Some c"
      using l(2) by auto
    show ?thesis
    proof (cases "find (\<lambda>x. cs_slotIndex x = i) (res_slots c)")
      case None
      then show ?thesis
        using assms x Inr by (intro quiet) (auto simp: retry_slot_def)
    next
      case (Some fresh)
      have k: "known inp ?tr fresh"
        using rows_known [OF c(2)] find_Some_in [OF Some] by (simp add: c(1))
      show ?thesis
      proof (cases "cs_changed fresh")
        case False
        then show ?thesis
          using assms x Inr Some by (intro quiet) (auto simp: retry_slot_def)
      next
        case True
        obtain out st2 where out: "pushOne (recording io) fresh st1 = (out, st2)"
          by (cases "pushOne (recording io) fresh st1") blast
        obtain s2 where s2: "st2 = (?tr @ [Sent (cs_slotIndex fresh) (cs_secretFingerprint fresh) (cs_policy fresh) out], s2)"
          using push_recorded [OF out [unfolded l(1)]] by blast
        have r': "r' = (case out of None \<Rightarrow> sent_one r | Some m \<Rightarrow> failed_with (Slot_failed i m) r)" "st = st2"
          using assms x Inr Some True out by (auto simp: retry_slot_def split: option.splits)
        show ?thesis
          using known_warranted [OF k True, of out]
          by (intro exI [of _ "[Listed list, Sent (cs_slotIndex fresh) (cs_secretFingerprint fresh) (cs_policy fresh) out]"] exI [of _ s2])
             (simp add: one_turn_simps r' s2 warranted_def split: option.split)
      qed
    qed
  qed
qed

lemma push_slot_turn:
  assumes "push_slot (recording io) inp row (r, (tr, s)) = (r', st)" "known inp tr row"
  shows "\<exists>cs s'. st = (tr @ cs, s') \<and> one_turn inp tr (if cs_changed row then 2 else 0) r r' cs
    \<and> (cs_changed row \<longrightarrow> (\<exists>out. Sent (cs_slotIndex row) (cs_secretFingerprint row) (cs_policy row) out \<in> set cs))"
proof (cases "cs_changed row")
  case False
  then show ?thesis
    using assms(1) by (auto simp: push_slot_def one_turn_simps)
next
  case True
  obtain out st1 where out: "pushOne (recording io) row (tr, s) = (out, st1)"
    by (cases "pushOne (recording io) row (tr, s)") blast
  let ?c = "Sent (cs_slotIndex row) (cs_secretFingerprint row) (cs_policy row) out"
  obtain s1 where s1: "st1 = (tr @ [?c], s1)"
    using push_recorded [OF out] by blast
  have w: "warranted inp tr ?c"
    by (rule known_warranted [OF assms(2) True])
  show ?thesis
  proof (cases "\<exists>m. out = Some m \<and> isRefreshAndRetryError m")
    case False
    then have "st = st1" "handled r' = Suc (handled r)" "pr_pushed r' = pr_pushed r + (if out = None then 1 else 0)"
      using assms(1) True out by (auto simp: push_slot_def split: option.splits)
    then show ?thesis
      using w True by (intro exI [of _ "[?c]"] exI [of _ s1]) (simp add: s1 one_turn_simps)
  next
    case again: True
    then obtain m where m: "out = Some m" "retry_slot (recording io) inp (cs_slotIndex row) m (r, (tr @ [?c], s1)) = (r', st)"
      using assms(1) True out s1 by (auto simp: push_slot_def)
    obtain cs s' where cs: "st = ((tr @ [?c]) @ cs, s')" "one_turn inp (tr @ [?c]) 1 r r' cs"
      using retry_slot_turn [OF m(2)] by blast
    have "one_turn inp tr 2 r r' (?c # cs)"
      using w cs(2) m(1) by (simp add: one_turn_simps)
    then show ?thesis
      using True cs(1) by (intro exI [of _ "?c # cs"] exI [of _ s']) auto
  qed
qed

lemma push_slots_calls:
  assumes "fold (push_slot (recording io) inp) rows (r, (tr, s)) = (r', st)" "\<forall>row \<in> set rows. known inp tr row"
  shows "\<exists>cs s'. st = (tr @ cs, s') \<and> all_warranted inp tr cs \<and> handled r' = handled r + length rows
    \<and> pr_pushed r' = pr_pushed r + length (filter confirmed cs) \<and> length (filter is_sent cs) \<le> 2 * length (filter cs_changed rows)
    \<and> (\<forall>row \<in> set rows. cs_changed row \<longrightarrow> (\<exists>out. Sent (cs_slotIndex row) (cs_secretFingerprint row) (cs_policy row) out \<in> set cs))"
  using assms
proof (induction rows arbitrary: r tr s)
  case Nil
  then show ?case
    by (intro exI [of _ "[]"] exI [of _ s]) simp
next
  case (Cons row rows)
  obtain r1 st1 where one: "push_slot (recording io) inp row (r, (tr, s)) = (r1, st1)"
    by (cases "push_slot (recording io) inp row (r, (tr, s))") blast
  obtain cs1 s1 where cs1: "st1 = (tr @ cs1, s1)" "one_turn inp tr (if cs_changed row then 2 else 0) r r1 cs1"
      "cs_changed row \<longrightarrow> (\<exists>out. Sent (cs_slotIndex row) (cs_secretFingerprint row) (cs_policy row) out \<in> set cs1)"
    using push_slot_turn [OF one] Cons.prems(2) by auto
  have rest: "fold (push_slot (recording io) inp) rows (r1, (tr @ cs1, s1)) = (r', st)"
    using Cons.prems(1) one cs1(1) by simp
  have "\<forall>row \<in> set rows. known inp (tr @ cs1) row"
    using Cons.prems(2) known_more by simp
  from Cons.IH [OF rest this] obtain cs s' where cs: "st = ((tr @ cs1) @ cs, s')" "all_warranted inp (tr @ cs1) cs"
      "handled r' = handled r1 + length rows" "pr_pushed r' = pr_pushed r1 + length (filter confirmed cs)"
      "length (filter is_sent cs) \<le> 2 * length (filter cs_changed rows)"
      "\<forall>row \<in> set rows. cs_changed row \<longrightarrow> (\<exists>out. Sent (cs_slotIndex row) (cs_secretFingerprint row) (cs_policy row) out \<in> set cs)"
    by blast
  show ?case
    using cs cs1(2,3) by (intro exI [of _ "cs1 @ cs"] exI [of _ s']) (auto simp: one_turn_def split: if_splits)
qed

section \<open>A run corrects what is off\<close>

lemma run_calls:
  assumes "runPolicyPush (recording io) inp ([], s) = (res, (calls, s'))"
  shows "\<exists>r cs. calls = Listed r # cs \<and> r = fst (io_listClients io s) \<and> all_warranted inp [Listed r] cs
    \<and> (case r of Inl m \<Rightarrow> cs = [] \<and> res = failed_with (List_failed (Device_error m)) \<lparr>pr_pushed = 0, pr_unchanged = 0,
           pr_untouched = 0, pr_errors = [], pr_warned = False\<rparr>
       | Inr slots \<Rightarrow> compileSlotPolicies (push_compiler_input inp slots) 0 = None \<and> cs = []
         \<or> handled res = length slots \<and> pr_pushed res = length (filter confirmed cs)
           \<and> length (filter is_sent cs) \<le> 2 * length (filter (off inp) slots)
           \<and> (\<forall>slot \<in> set slots. \<forall>p. wanted inp slot = Some p \<and> drifted p slot
                \<longrightarrow> (\<exists>out. Sent (ds_slotIndex slot) (ds_secretFingerprint slot) p out \<in> set cs)))"
proof -
  obtain x st where x: "compile_inventory (recording io) inp ([], s) = (x, st)"
    by (cases "compile_inventory (recording io) inp ([], s)") blast
  obtain r s1 where r: "io_listClients io s = (r, s1)" "st = ([Listed r], s1)"
      "case x of Inl e \<Rightarrow> (case r of Inl m \<Rightarrow> True | Inr slots \<Rightarrow> compileSlotPolicies (push_compiler_input inp slots) 0 = None)
       | Inr c \<Rightarrow> (\<exists>slots. r = Inr slots \<and> compileSlotPolicies (push_compiler_input inp slots) 0 = Some c)"
    using compile_recorded [OF x] by auto
  show ?thesis
  proof (cases x)
    case (Inl e)
    then have "calls = [Listed r]" "res = failed_with (List_failed e) \<lparr>pr_pushed = 0, pr_unchanged = 0,
           pr_untouched = 0, pr_errors = [], pr_warned = False\<rparr>"
      using assms x r(2) by (simp_all add: runPolicyPush_def)
    moreover have "e = Device_error m" if "r = Inl m" for m
      using x r(1) that Inl by (simp add: compile_inventory_def)
    ultimately show ?thesis
      using r(1,3) Inl by (cases r) simp_all
  next
    case (Inr c)
    then obtain slots where slots: "r = Inr slots" "compileSlotPolicies (push_compiler_input inp slots) 0 = Some c"
      using r(3) by auto
    let ?none = "\<lparr>pr_pushed = 0, pr_unchanged = 0, pr_untouched = res_untouched c, pr_errors = [], pr_warned = res_warned c\<rparr>"
    have run: "fold (push_slot (recording io) inp) (res_slots c) (?none, ([Listed r], s1)) = (res, (calls, s'))"
      using assms x r(2) Inr by (simp add: runPolicyPush_def)
    have "\<forall>row \<in> set (res_slots c). known inp [Listed r] row"
      using rows_known [OF slots(2)] slots(1) by simp
    from push_slots_calls [OF run this] obtain cs where cs: "calls = Listed r # cs" "all_warranted inp [Listed r] cs"
        "handled res = res_untouched c + length (res_slots c)" "pr_pushed res = length (filter confirmed cs)"
        "length (filter is_sent cs) \<le> 2 * length (filter cs_changed (res_slots c))"
        "\<forall>row \<in> set (res_slots c). cs_changed row \<longrightarrow> (\<exists>out. Sent (cs_slotIndex row) (cs_secretFingerprint row) (cs_policy row) out \<in> set cs)"
      by (auto simp: handled_def)
    obtain rows where rows: "map (compileSlot (push_compiler_input inp []) (pi_nowSeconds inp)) slots = map Some rows"
        "res_slots c = List.map_filter id rows" "res_untouched c = length (filter (\<lambda>row. row = None) rows)"
      using rows_of_inventory [OF slots(2)] by blast
    note counts = rows_counted [OF rows(1)]
    have "\<exists>out. Sent (ds_slotIndex slot) (ds_secretFingerprint slot) p out \<in> set cs"
      if "slot \<in> set slots" "wanted inp slot = Some p" "drifted p slot" for slot p
    proof -
      have "\<exists>row \<in> set (res_slots c). named_by inp slot row"
        unfolding rows(2) using counts that(1,2) by blast
      then obtain row where "row \<in> set (res_slots c)" "named_by inp slot row"
        by blast
      then show ?thesis
        using cs(6) that(2,3) by (fastforce simp: named_by_def)
    qed
    then show ?thesis
      using cs counts rows(2,3) r(1) slots(1) by auto
  qed
qed


text \<open>Nothing is sent to a device whose slots all hold what is wanted: the bound is then zero.\<close>

lemma settled_device_is_left_alone:
  assumes "runPolicyPush (recording io) inp ([], s) = (res, (calls, s'))" "fst (io_listClients io s) = Inr slots"
    "filter (off inp) slots = []"
  shows "filter is_sent calls = []"
  using run_calls [OF assms(1)] assms(2,3) by (auto simp: is_sent_def filter_empty_conv)






section \<open>One child's ceiling, and what is approved once\<close>

text \<open>The slot named was found in an inventory, and holds what is wanted or was sent it and confirmed.\<close>

definition device_has :: "push_input \<Rightarrow> int \<Rightarrow> ustr \<Rightarrow> device_call list \<Rightarrow> bool" where
  "device_has inp i f calls \<longleftrightarrow> (\<exists>slots slot p. Listed (Inr slots) \<in> set calls \<and> slot \<in> set slots \<and> ds_slotIndex slot = i
     \<and> lower (ds_secretFingerprint slot) = lower f \<and> wanted inp slot = Some p
     \<and> (\<not> drifted p slot \<or> Sent i (ds_secretFingerprint slot) p None \<in> set calls))"

lemma attempt_calls:
  assumes "ceiling_attempt (recording io) inp i f (tr, s) = (x, st)"
  shows "\<exists>cs s'. st = (tr @ cs, s') \<and> (x = Inr True \<longrightarrow> device_has inp i f cs)"
proof -
  obtain y st1 where y: "compile_inventory (recording io) inp (tr, s) = (y, st1)"
    by (cases "compile_inventory (recording io) inp (tr, s)") blast
  obtain list s1 where l: "st1 = (tr @ [Listed list], s1)"
      "case y of Inl e \<Rightarrow> (case list of Inl m \<Rightarrow> True | Inr slots \<Rightarrow> compileSlotPolicies (push_compiler_input inp slots) 0 = None)
       | Inr c \<Rightarrow> (\<exists>slots. list = Inr slots \<and> compileSlotPolicies (push_compiler_input inp slots) 0 = Some c)"
    using compile_recorded [OF y] by blast
  have quiet: ?thesis if "st = st1" "x \<noteq> Inr True"
    using that l(1) by auto
  show ?thesis
  proof (cases y)
    case (Inl e)
    then show ?thesis
      using assms y by (intro quiet) (auto simp: ceiling_attempt_def)
  next
    case (Inr c)
    then obtain slots where c: "list = Inr slots" "compileSlotPolicies (push_compiler_input inp slots) 0 = Some c"
      using l(2) by auto
    show ?thesis
    proof (cases "find (\<lambda>x. cs_slotIndex x = i \<and> lower (cs_secretFingerprint x) = lower f) (res_slots c)")
      case None
      then show ?thesis
        using assms y Inr by (intro quiet) (auto simp: ceiling_attempt_def)
    next
      case (Some row)
      have row: "row \<in> set (res_slots c)" "cs_slotIndex row = i" "lower (cs_secretFingerprint row) = lower f"
        using find_Some_in [OF Some] by simp_all
      obtain slot where slot: "slot \<in> set slots" "named_by inp slot row"
        using rows_known [OF c(2), of "[Listed list]" row] row(1) c(1) by (auto simp: known_def)
      obtain out st2 where out: "pushOne (recording io) row st1 = (out, st2)"
        by (cases "pushOne (recording io) row st1") blast
      obtain s2 where s2: "st2 = ((tr @ [Listed list]) @ [Sent (cs_slotIndex row) (cs_secretFingerprint row) (cs_policy row) out], s2)"
        using push_recorded [OF out [unfolded l(1)]] by blast
      have res: "(x, st) = (if \<not> cs_changed row then (Inr True, st1)
          else (case out of None \<Rightarrow> Inr True | Some m \<Rightarrow> Inl (Device_error m), st2))"
        using assms y Inr Some out by (cases out) (simp_all add: ceiling_attempt_def split: if_splits)
      have has: "device_has inp i f (Listed list # cs)"
        if "\<not> cs_changed row \<or> Sent i (ds_secretFingerprint slot) (cs_policy row) None \<in> set cs" for cs
        unfolding device_has_def using slot row(2,3) c(1) that by (fastforce simp: named_by_def)
      show ?thesis
      proof (cases "cs_changed row")
        case False
        then show ?thesis
          using res l(1) has [of "[]"] by (intro exI [of _ "[Listed list]"] exI [of _ s1]) simp
      next
        case True
        then show ?thesis
          using res s2 has [of "[Sent (cs_slotIndex row) (cs_secretFingerprint row) (cs_policy row) out]"] slot(2) row(2)
          by (intro exI [of _ "[Listed list, Sent (cs_slotIndex row) (cs_secretFingerprint row) (cs_policy row) out]"] exI [of _ s2])
             (auto simp: named_by_def split: option.splits)
      qed
    qed
  qed
qed

text \<open>When a widening of a child's ceiling reports success, the device holds the compiled policy or has confirmed it.\<close>

lemma ceiling_confirmed:
  assumes "pushChildDirectCeiling (recording io) inp i f ([], s) = (True, (calls, s'))"
  shows "device_has inp i f calls"
proof -
  obtain x st where x: "ceiling_attempt (recording io) inp i f ([], s) = (x, st)"
    by (cases "ceiling_attempt (recording io) inp i f ([], s)") blast
  obtain cs s1 where cs: "st = (cs, s1)" "x = Inr True \<longrightarrow> device_has inp i f cs"
    using attempt_calls [OF x] by auto
  obtain y st2 where y: "ceiling_attempt (recording io) inp i f (cs, s1) = (y, st2)"
    by (cases "ceiling_attempt (recording io) inp i f (cs, s1)") blast
  obtain cs2 s2 where cs2: "st2 = (cs @ cs2, s2)" "y = Inr True \<longrightarrow> device_has inp i f cs2"
    using attempt_calls [OF y] by auto
  have more_calls: "device_has inp i f cs2 \<Longrightarrow> device_has inp i f (cs @ cs2)"
    unfolding device_has_def by fastforce
  show ?thesis
    using assms x cs y cs2 more_calls by (auto simp: pushChildDirectCeiling_def split: sum.splits if_splits)
qed

text \<open>The approvals of one kind given once, per dependant; a failed push takes back the entry it added.\<close>

definition addOnceEntry :: "(ustr \<times> approval list) list \<Rightarrow> ustr \<Rightarrow> approval \<Rightarrow> (ustr \<times> approval list) list" where
  "addOnceEntry table depId e =
     filter (\<lambda>(k, v). lower k \<noteq> lower depId) table
       @ [(lower depId, concat (map snd (filter (\<lambda>(k, v). lower k = lower depId) table)) @ [e])]"

fun remove_once :: "ustr \<Rightarrow> approval \<Rightarrow> (ustr \<times> approval list) list \<Rightarrow> (ustr \<times> approval list) list" where
  "remove_once i e [] = []"
| "remove_once i e ((k, v) # table) =
     (if lower k \<noteq> i \<or> e \<notin> set v then (k, v) # remove_once i e table
      else if remove1 e v = [] then table else (k, remove1 e v) # table)"

definition removeOnceEntry :: "(ustr \<times> approval list) list \<Rightarrow> ustr \<Rightarrow> approval \<Rightarrow> (ustr \<times> approval list) list" where
  "removeOnceEntry table depId e = remove_once (lower depId) e table"

lemma approvedFor_simps [simp]:
  "approvedFor (Some []) x = []"
  "approvedFor (Some ((k, v) # table)) x = (if lower k = lower x then v else []) @ approvedFor (Some table) x"
  "approvedFor (Some (t1 @ t2)) x = approvedFor (Some t1) x @ approvedFor (Some t2) x"
  by (simp_all add: approvedFor_def)

lemma approved_added:
  "approvedFor (Some (addOnceEntry table d e)) x = approvedFor (Some table) x @ (if lower d = lower x then [e] else [])"
proof -
  have "approvedFor (Some (filter (\<lambda>(k, v). lower k \<noteq> lower d) table)) x = (if lower d = lower x then [] else approvedFor (Some table) x)"
    by (induction table) auto
  moreover have "concat (map snd (filter (\<lambda>(k, v). lower k = lower d) table)) = approvedFor (Some table) d"
    by (simp add: approvedFor_def)
  ultimately show ?thesis
    by (simp add: addOnceEntry_def) (simp add: approvedFor_def)
qed

lemma approved_removed:
  "mset (approvedFor (Some (removeOnceEntry table d e)) x)
    = mset (approvedFor (Some table) x) - (if lower d = lower x then {#e#} else {#})"
proof -
  have "mset (approvedFor (Some (remove_once i e table)) x) = mset (approvedFor (Some table) x) - (if i = lower x then {#e#} else {#})" for i
  proof (induction table)
    case (Cons entry table)
    obtain k v where entry: "entry = (k, v)"
      by (cases entry)
    have nil: "remove1 e v = [] \<Longrightarrow> e \<in> set v \<Longrightarrow> mset v = {#e#}"
      by (metis mset.simps(1) mset_remove1 insert_DiffM set_mset_mset)
    show ?case
    proof (cases "lower k = i \<and> e \<in> set v")
      case True
      then have "mset v + M - {#e#} = mset (remove1 e v) + M" for M
        by (simp add: diff_union_single_conv)
      then show ?thesis
        using True nil by (auto simp: entry)
    next
      case False
      have "mset v + (M - {#e#}) = mset v + M - {#e#}" if "e \<notin> set v" for M
      proof -
        have none: "count (mset v) e = 0"
          using that by (simp add: count_mset_0_iff)
        show ?thesis
          by (rule multiset_eqI) (auto simp: none)
      qed
      then show ?thesis
        using False Cons.IH by (auto simp: entry)
    qed
  qed simp
  then show ?thesis
    by (simp add: removeOnceEntry_def)
qed

text \<open>Taking an entry back leaves every other approval, one that a concurrent verdict added meanwhile included.\<close>

lemma rollback_keeps_others:
  "mset (approvedFor (Some (removeOnceEntry (addOnceEntry (addOnceEntry table d e) d' e') d e)) x)
    = mset (approvedFor (Some (addOnceEntry table d' e')) x)"
  by (simp add: approved_removed approved_added)

end
