(* ===== verification/Signer_Router.thy ===== *)
theory Signer_Router
  imports App_Permission "HOL-Library.Sublist"
begin

text \<open>
  \<open>bunker-router.ts\<close>: which remote signer serves which identity. The probe that asks a signer what
  it is and its retry loop, the routes a router hands out, the connection one route opens lazily,
  and the choice of a signer for a slot. Requests, timers and key derivation are effects: their
  outcomes are inputs here.
\<close>

section \<open>The probe\<close>

record capabilities =
  cap_version :: jnum
  cap_methods :: "ustr list"

definition parseHeartwoodCapabilities :: "app_env \<Rightarrow> ustr \<Rightarrow> capabilities option" where
  "parseHeartwoodCapabilities E raw =
     (case env_json E raw of
        None \<Rightarrow> None
      | Some parsed \<Rightarrow>
          if \<not> is_object_type parsed \<or> is_arr parsed (\<lambda>_. True) then None
          else (case fld parsed (u ''version'') of
              JNum v \<Rightarrow> (case fld parsed (u ''methods'') of
                  JArr ms \<Rightarrow> map_option (\<lambda>names. \<lparr>cap_version = v, cap_methods = names\<rparr>) (those (map string_value ms))
                | _ \<Rightarrow> None)
            | _ \<Rightarrow> None))"

text \<open>
  How a request fails: with the text the signer replied, with the probe's own timeout, with the
  timeout of the request, or with any other exception.
\<close>

datatype probe_failure = Replied_error ustr | Probe_timeout | Request_timeout | Other_exception

datatype transient_reason = Timed_out | Transport_failed

datatype probe_outcome = Router_built capabilities | Not_heartwood | Error_reply | Transient transient_reason

fun classifyProbeError :: "probe_failure \<Rightarrow> probe_outcome" where
  "classifyProbeError (Replied_error _) = Error_reply"
| "classifyProbeError Probe_timeout = Transient Timed_out"
| "classifyProbeError Request_timeout = Transient Timed_out"
| "classifyProbeError Other_exception = Transient Transport_failed"

definition probe :: "app_env \<Rightarrow> probe_failure + ustr \<Rightarrow> probe_outcome" where
  "probe E answer =
     (case answer of
        Inl failure \<Rightarrow> classifyProbeError failure
      | Inr raw \<Rightarrow> (case parseHeartwoodCapabilities E raw of
          None \<Rightarrow> Not_heartwood
        | Some caps \<Rightarrow> if u ''sign_event'' \<in> set (cap_methods caps) then Router_built caps else Not_heartwood))"

definition ASSUMED_CHILD_METHODS :: "ustr list" where
  "ASSUMED_CHILD_METHODS = [u ''get_public_key'', u ''sign_event'', u ''nip44_encrypt'', u ''nip44_decrypt'']"

definition assumed_capabilities :: capabilities where
  "assumed_capabilities = \<lparr>cap_version = Fin 0, cap_methods = ASSUMED_CHILD_METHODS\<rparr>"

section \<open>The retry loop\<close>

definition ROUTER_PROBE_BACKOFF_MS :: "nat list" where
  "ROUTER_PROBE_BACKOFF_MS = [2000, 5000, 15000, 30000, 60000]"

definition MAX_ERROR_REPLIES :: nat where
  "MAX_ERROR_REPLIES = 3"

definition MAX_CONSECUTIVE_TIMEOUTS :: nat where
  "MAX_CONSECUTIVE_TIMEOUTS = 5"

datatype probe_state = Probing | Retrying | Ready | Unsupported

text \<open>
  One turn of the loop as the world answers it: whether the probe is still the current one and the
  primary connected when the turn starts, the outcome of the probe, and both again when it has
  come back. What the loop does is the list of states it reports and the waits between turns; it
  ends with a router, without one, or is still waiting when the observed turns run out.
\<close>

record turn =
  tn_current :: bool
  tn_connected :: bool
  tn_outcome :: probe_outcome
  tn_still_current :: bool
  tn_still_connected :: bool

datatype probe_result = Found capabilities | Stopped | Waiting

record probe_trace =
  pr_states :: "probe_state list"
  pr_waits :: "nat list"
  pr_result :: probe_result

definition alive :: "turn \<Rightarrow> bool" where
  "alive t \<longleftrightarrow> tn_current t \<and> tn_connected t"

definition still_alive :: "turn \<Rightarrow> bool" where
  "still_alive t \<longleftrightarrow> tn_still_current t \<and> tn_still_connected t"

definition ended :: "probe_state list \<Rightarrow> probe_result \<Rightarrow> probe_trace" where
  "ended states res = \<lparr>pr_states = states, pr_waits = [], pr_result = res\<rparr>"

definition wait_for :: "nat list \<Rightarrow> nat \<Rightarrow> nat" where
  "wait_for backoff attempt = backoff ! min attempt (length backoff - 1)"

fun probe_loop :: "nat list \<Rightarrow> nat \<Rightarrow> nat \<Rightarrow> nat \<Rightarrow> turn list \<Rightarrow> probe_trace" where
  "probe_loop backoff errorReplies timeouts attempt [] = ended [] Waiting"
| "probe_loop backoff errorReplies timeouts attempt (t # ts) =
     (if \<not> alive t then ended [] Stopped
      else case tn_outcome t of
        Router_built caps \<Rightarrow> if tn_still_current t then ended [Ready] (Found caps) else ended [] Stopped
      | outcome \<Rightarrow>
          if \<not> still_alive t then ended [] Stopped
          else if outcome = Not_heartwood then ended [Unsupported] Stopped
          else
            (let errs = (if outcome = Error_reply then errorReplies + 1 else 0);
                 lost = (if outcome = Transient Timed_out then timeouts + 1 else 0)
             in if outcome = Error_reply \<and> errs \<ge> MAX_ERROR_REPLIES then ended [Unsupported] Stopped
                else if outcome = Transient Timed_out \<and> lost \<ge> MAX_CONSECUTIVE_TIMEOUTS then ended [Unsupported] Stopped
                else
                  (let rest = probe_loop backoff errs lost (attempt + 1) ts
                   in rest\<lparr>pr_states := Retrying # pr_states rest, pr_waits := wait_for backoff attempt # pr_waits rest\<rparr>)))"

text \<open>The options of a run; the first report and the shortcut of a child paired straight to the device.\<close>

record probe_options =
  po_backoffMs :: "nat list option"
  po_assumeHeartwood :: bool

definition createRouterWithRetry :: "probe_options \<Rightarrow> bool \<Rightarrow> bool \<Rightarrow> turn list \<Rightarrow> probe_trace" where
  "createRouterWithRetry opts current linked turns =
     (let backoff = (case po_backoffMs opts of Some (b # bs) \<Rightarrow> b # bs | _ \<Rightarrow> ROUTER_PROBE_BACKOFF_MS)
      in if po_assumeHeartwood opts
         then (if \<not> (current \<and> linked) then ended [] Stopped else ended [Ready] (Found assumed_capabilities))
         else (let run = probe_loop backoff 0 0 0 turns
               in run\<lparr>pr_states := (if current then Probing # pr_states run else pr_states run)\<rparr>))"

section \<open>What ends the loop\<close>

text \<open>A turn after which the loop may go on: alive throughout, and an answer that settles nothing.\<close>

definition unsettled :: "turn \<Rightarrow> bool" where
  "unsettled t \<longleftrightarrow> alive t \<and> still_alive t \<and> (tn_outcome t = Error_reply \<or> (\<exists>r. tn_outcome t = Transient r))"

text \<open>The specification: no settling turn, no three error replies in a row, no five timeouts in a row.\<close>

definition keeps_waiting :: "probe_outcome list \<Rightarrow> bool" where
  "keeps_waiting os \<longleftrightarrow> \<not> sublist (replicate MAX_ERROR_REPLIES Error_reply) os
     \<and> \<not> sublist (replicate MAX_CONSECUTIVE_TIMEOUTS (Transient Timed_out)) os"

lemma prefix_replicate_Cons: "prefix (replicate n x) (y # ys) \<longleftrightarrow> n = 0 \<or> y = x \<and> prefix (replicate (n - 1) x) ys"
  by (cases n) auto

lemma sublist_replicate_Suc_Cons:
  "sublist (replicate (Suc n) x) (y # ys) \<longleftrightarrow> (y = x \<and> prefix (replicate n x) ys) \<or> sublist (replicate (Suc n) x) ys"
  by (auto simp: sublist_Cons_right)

text \<open>
  With a run of \<open>k\<close> behind it, a list gives the run of \<open>n\<close> when it starts with the missing \<open>n - k\<close>
  or holds a run of its own.
\<close>

definition completes :: "nat \<Rightarrow> nat \<Rightarrow> 'a \<Rightarrow> 'a list \<Rightarrow> bool" where
  "completes k n x os \<longleftrightarrow> prefix (replicate (n - k) x) os \<or> sublist (replicate n x) os"

lemma completes_zero: "completes 0 n x os \<longleftrightarrow> sublist (replicate n x) os"
  by (auto simp: completes_def)

lemma completes_Nil: "k < n \<Longrightarrow> \<not> completes k n x []"
  by (auto simp: completes_def)

lemma completes_other:
  assumes "y \<noteq> x" "k < n"
  shows "completes k n x (y # os) \<longleftrightarrow> completes 0 n x os"
proof -
  obtain m where m: "n = Suc m"
    using assms(2) by (cases n) auto
  have "\<not> prefix (replicate (n - k) x) (y # os)"
    using assms by (simp add: prefix_replicate_Cons del: replicate_Suc)
  moreover have "sublist (replicate n x) (y # os) \<longleftrightarrow> sublist (replicate n x) os"
    using assms(1) unfolding m sublist_replicate_Suc_Cons by simp
  ultimately show ?thesis
    by (simp only: completes_zero) (simp only: completes_def simp_thms)
qed

lemma completes_same:
  assumes "k < n"
  shows "completes k n x (x # os) \<longleftrightarrow> n = Suc k \<or> completes (Suc k) n x os"
proof -
  obtain m where m: "n = Suc m" "k \<le> m"
    using assms by (cases n) auto
  have longer: "prefix (replicate (m - k) x) os" if "prefix (replicate m x) os"
  proof -
    have "replicate m x = replicate (m - k) x @ replicate k x"
      using m(2) by (simp add: replicate_add [symmetric])
    then show ?thesis
      using that by (metis append_prefixD)
  qed
  have "prefix (replicate (n - k) x) (x # os) \<longleftrightarrow> prefix (replicate (m - k) x) os"
    using m by (simp add: Suc_diff_le)
  moreover have "sublist (replicate n x) (x # os) \<longleftrightarrow> prefix (replicate m x) os \<or> sublist (replicate n x) os"
    unfolding m sublist_replicate_Suc_Cons by simp
  moreover have "n = Suc k \<Longrightarrow> prefix (replicate (m - k) x) os" "n - Suc k = m - k"
    using m by simp_all
  ultimately show ?thesis
    unfolding completes_def using longer by metis
qed

lemma loop_waits:
  assumes "e < MAX_ERROR_REPLIES" "l < MAX_CONSECUTIVE_TIMEOUTS"
  shows "pr_result (probe_loop backoff e l a ts) = Waiting \<longleftrightarrow> list_all unsettled ts
    \<and> \<not> completes e MAX_ERROR_REPLIES Error_reply (map tn_outcome ts)
    \<and> \<not> completes l MAX_CONSECUTIVE_TIMEOUTS (Transient Timed_out) (map tn_outcome ts)"
  using assms
proof (induction ts arbitrary: e l a)
  case Nil
  then show ?case
    by (simp add: ended_def completes_Nil)
next
  case (Cons t ts)
  have pos: "0 < MAX_ERROR_REPLIES" "0 < MAX_CONSECUTIVE_TIMEOUTS"
    by (simp_all add: MAX_ERROR_REPLIES_def MAX_CONSECUTIVE_TIMEOUTS_def)
  show ?case
  proof (cases "unsettled t")
    case False
    then show ?thesis
      by (auto simp: unsettled_def ended_def Let_def alive_def still_alive_def split: probe_outcome.split transient_reason.split)
  next
    case True
    then consider (err) "tn_outcome t = Error_reply" | (lost) "tn_outcome t = Transient Timed_out"
      | (transport) "tn_outcome t = Transient Transport_failed"
      by (auto simp: unsettled_def) (metis transient_reason.exhaust)
    then show ?thesis
    proof cases
      case err
      show ?thesis
        using True Cons.prems Cons.IH [of "Suc e" 0 "Suc a"] pos
        by (auto simp add: err unsettled_def ended_def Let_def completes_same completes_other)
    next
      case lost
      show ?thesis
        using True Cons.prems Cons.IH [of 0 "Suc l" "Suc a"] pos
        by (auto simp add: lost unsettled_def ended_def Let_def completes_same completes_other)
    next
      case transport
      show ?thesis
        using True Cons.prems Cons.IH [of 0 0 "Suc a"] pos
        by (simp add: transport unsettled_def Let_def completes_other)
    qed
  qed
qed

text \<open>
  The retry loop goes on exactly as long as every turn leaves the question open
  (the probe is current, the primary connected, the answer an error or a transient failure) and no
  three error replies in a row and no five timeouts in a row have come back. So a signer that only
  errors is given up after three turns and a silent one after five, whatever came before, while
  failures of the transport never count.
\<close>

lemma probe_gives_up:
  "pr_result (createRouterWithRetry \<lparr>po_backoffMs = b, po_assumeHeartwood = False\<rparr> cur lnk ts) = Waiting
     \<longleftrightarrow> list_all unsettled ts \<and> keeps_waiting (map tn_outcome ts)"
  by (simp add: createRouterWithRetry_def Let_def loop_waits completes_zero keeps_waiting_def
      MAX_ERROR_REPLIES_def MAX_CONSECUTIVE_TIMEOUTS_def)

end
