(* ===== verification/Signer_Routes.thy ===== *)
theory Signer_Routes
  imports Signer_Router
begin

text \<open>
  The other half of \<open>bunker-router.ts\<close>: the routes a router caches, the signer a slot resolves to,
  and the lifecycle of the connection behind one route as a step relation. The query part of a
  \<open>bunker:\<close> address without its secret is a parameter (\<open>URLSearchParams\<close>).
\<close>

section \<open>Addresses\<close>

text \<open>\<open>(slotPubkeyHex || '').trim().toLowerCase()\<close>.\<close>

definition slot_key :: "ustr option \<Rightarrow> ustr" where
  "slot_key pk = lower (trim (case pk of None \<Rightarrow> [] | Some s \<Rightarrow> s))"

definition line_end :: "nat \<Rightarrow> bool" where
  "line_end c \<longleftrightarrow> c \<in> {10, 13, 0x2028, 0x2029}"

text \<open>\<open>/^bunker:\/\/([0-9a-fA-F]{64})(\?(.*))?$/\<close>: the query, empty when there is none.\<close>

definition bunker_query :: "ustr \<Rightarrow> ustr option" where
  "bunker_query uri =
     (let after = drop 9 uri; rest = drop 64 after in
      if starts_with uri (u ''bunker://'') \<and> hex64 (lower (take 64 after)) then
        (case rest of
           [] \<Rightarrow> Some []
         | c # q \<Rightarrow> if c = 63 \<and> \<not> list_ex line_end q then Some q else None)
      else None)"

definition buildSlotBunkerUri :: "(ustr \<Rightarrow> ustr) \<Rightarrow> ustr \<Rightarrow> ustr \<Rightarrow> ustr option" where
  "buildSlotBunkerUri without_secret baseUri slotPubkeyHex =
     (let pk = slot_key (Some slotPubkeyHex) in
      if \<not> hex64 pk then None
      else (case bunker_query (trim baseUri) of
          None \<Rightarrow> None
        | Some q \<Rightarrow> (let qs = without_secret q in Some (u ''bunker://'' @ pk @ (if qs = [] then [] else 63 # qs)))))"

section \<open>The router\<close>

record route =
  ro_clientSecret :: ustr
  ro_uri :: ustr
  ro_pubkey :: ustr
  ro_destroyed :: bool

record router =
  rt_primaryPubkey :: ustr
  rt_primaryUri :: ustr
  rt_clientSecret :: ustr
  rt_routes :: "(ustr \<times> route) list"
  rt_destroyed :: bool

datatype backend = Primary | Routed route

definition new_route :: "ustr \<Rightarrow> ustr \<Rightarrow> ustr \<Rightarrow> route" where
  "new_route secret uri pk = \<lparr>ro_clientSecret = secret, ro_uri = uri, ro_pubkey = slot_key (Some pk), ro_destroyed = False\<rparr>"

text \<open>
  \<open>backendFor\<close>: the router after the call, and the signer it hands out. A destroyed route in the
  cache is dropped and made again; when the address cannot be built it stays dropped. The view that
  a guardian install may wrap around a route it hands out is not part of the state.
\<close>

definition backendFor :: "(ustr \<Rightarrow> ustr) \<Rightarrow> router \<Rightarrow> ustr option \<Rightarrow> router \<times> backend option" where
  "backendFor without_secret r slot =
     (if rt_destroyed r then (r, None)
      else
        (let pk = slot_key slot in
         if \<not> hex64 pk then (r, None)
         else if pk = lower (rt_primaryPubkey r) then (r, Some Primary)
         else
           (case map_of (rt_routes r) pk of
              Some route \<Rightarrow> if \<not> ro_destroyed route then (r, Some (Routed route))
                else (let r1 = r\<lparr>rt_routes := AList.delete pk (rt_routes r)\<rparr> in
                      case buildSlotBunkerUri without_secret (rt_primaryUri r) pk of
                        None \<Rightarrow> (r1, None)
                      | Some uri \<Rightarrow> (let fresh = new_route (rt_clientSecret r) uri pk in
                          (r1\<lparr>rt_routes := AList.update pk fresh (rt_routes r1)\<rparr>, Some (Routed fresh))))
            | None \<Rightarrow>
                (case buildSlotBunkerUri without_secret (rt_primaryUri r) pk of
                   None \<Rightarrow> (r, None)
                 | Some uri \<Rightarrow> (let fresh = new_route (rt_clientSecret r) uri pk in
                     (r\<lparr>rt_routes := AList.update pk fresh (rt_routes r)\<rparr>, Some (Routed fresh)))))))"

definition destroy_router :: "router \<Rightarrow> router" where
  "destroy_router r = r\<lparr>rt_destroyed := True, rt_routes := [], rt_clientSecret := replicate 64 48\<rparr>"

text \<open>A consumer that holds a route may destroy it; the cache still holds the same object.\<close>

definition destroy_route :: "ustr \<Rightarrow> router \<Rightarrow> router" where
  "destroy_route pk r = (case map_of (rt_routes r) pk of
     None \<Rightarrow> r
   | Some route \<Rightarrow> r\<lparr>rt_routes := AList.update pk (route\<lparr>ro_destroyed := True, ro_clientSecret := replicate 64 48\<rparr>) (rt_routes r)\<rparr>)"

section \<open>A signer for a slot\<close>

text \<open>The primary is given by its key and the router, when there is one, by its state.\<close>

definition resolveSlotBunkerBackend ::
    "(ustr \<Rightarrow> ustr) \<Rightarrow> ustr option \<Rightarrow> router option \<Rightarrow> ustr option \<Rightarrow> ustr list option \<Rightarrow> router option \<times> backend option" where
  "resolveSlotBunkerBackend without_secret primary router slotPubkeyHex withheld =
     (case primary of
        None \<Rightarrow> (router, None)
      | Some pubkey \<Rightarrow>
          (let primaryPk = slot_key (Some pubkey); slot = slot_key slotPubkeyHex in
           if primaryPk = [] then (router, None)
           else if slot = [] then (router, None)
           else if (\<exists>ws \<in> set_option withheld. \<exists>w \<in> set ws. lower (trim w) = slot) then (router, None)
           else if primaryPk = slot then (router, Some Primary)
           else (case router of
               None \<Rightarrow> (None, None)
             | Some r \<Rightarrow> (case backendFor without_secret r (Some slot) of (r', b) \<Rightarrow> (Some r', b)))))"

definition resolveNpBunkerBackend ::
    "(ustr \<Rightarrow> ustr) \<Rightarrow> ustr option \<Rightarrow> router option \<Rightarrow> ustr option \<Rightarrow> ustr list option \<Rightarrow> router option \<times> backend option" where
  "resolveNpBunkerBackend = resolveSlotBunkerBackend"

text \<open>
  The server's own transport. A backend is told apart by what it is; only the key of the extension
  and of the local slots is read.
\<close>

datatype primary_keypair = Natural_person | Persona

datatype 'b transport = Device_route 'b | Extension | Local_person | Local_persona

record 'b transport_input =
  ti_primaryKeypair :: primary_keypair
  ti_npBunkerBackend :: "'b option"
  ti_personaBunkerBackend :: "'b option"
  ti_nip07Key :: "ustr option"
  ti_localNaturalPersonKey :: "ustr option"
  ti_localPersonaKey :: "ustr option"

definition resolveServerTransportBackend :: "'b transport_input \<Rightarrow> 'b transport option" where
  "resolveServerTransportBackend inp =
     (let persona = (ti_primaryKeypair inp = Persona);
          wantedKey = (if persona then ti_localPersonaKey inp else ti_localNaturalPersonKey inp);
          wanted = map_option (\<lambda>_. if persona then Local_persona else Local_person) wantedKey;
          routed = (if persona then ti_personaBunkerBackend inp else ti_npBunkerBackend inp)
      in case routed of
           Some b \<Rightarrow> Some (Device_route b)
         | None \<Rightarrow>
             if ti_nip07Key inp \<noteq> None \<and> wantedKey \<noteq> None
                \<and> slot_key (ti_nip07Key inp) \<noteq> [] \<and> slot_key (ti_nip07Key inp) = slot_key wantedKey then Some Extension
             else if ti_nip07Key inp \<noteq> None \<and> ti_localNaturalPersonKey inp = None \<and> ti_localPersonaKey inp = None
               then Some Extension
             else wanted)"

section \<open>The routes stay what they are\<close>

text \<open>Each cached route is keyed by its own key, addresses it, and holds the router's client secret while alive.\<close>

definition wf_route :: "router \<Rightarrow> ustr \<Rightarrow> route \<Rightarrow> bool" where
  "wf_route r pk route \<longleftrightarrow> hex64 pk \<and> ro_pubkey route = pk \<and> take 73 (ro_uri route) = u ''bunker://'' @ pk
     \<and> (ro_destroyed route \<or> ro_clientSecret route = rt_clientSecret r)"

definition wf_router :: "router \<Rightarrow> bool" where
  "wf_router r \<longleftrightarrow> distinct (map fst (rt_routes r)) \<and> (\<forall>(pk, route) \<in> set (rt_routes r). wf_route r pk route)"

lemma slot_key_hex: "hex64 pk \<Longrightarrow> slot_key (Some pk) = pk"
proof -
  assume h: "hex64 pk"
  have none: "dropWhile is_space xs = xs" if "list_all hex_unit xs" for xs
    using that by (cases xs) (auto simp: hex_unit_def is_space_def)
  have "list_all hex_unit pk" "list_all hex_unit (rev pk)"
    using h by (simp_all add: is_hex_str_def list_all_iff)
  then show ?thesis
    using h by (simp add: slot_key_def trim_def none lower_hex)
qed

lemma built_uri: "buildSlotBunkerUri f base pk = Some uri \<Longrightarrow> hex64 pk \<Longrightarrow> take 73 uri = u ''bunker://'' @ pk"
  by (auto simp: buildSlotBunkerUri_def Let_def slot_key_hex is_hex_str_def u_def split: if_splits option.splits)

lemma new_route_wf:
  "buildSlotBunkerUri f base pk = Some uri \<Longrightarrow> hex64 pk \<Longrightarrow> wf_route r pk (new_route (rt_clientSecret r) uri pk)"
  by (simp add: wf_route_def new_route_def slot_key_hex built_uri)

lemma wf_router_get: "wf_router r \<Longrightarrow> map_of (rt_routes r) pk = Some route \<Longrightarrow> wf_route r pk route"
  by (auto simp: wf_router_def dest: map_of_SomeD)

lemma wf_router_put:
  assumes "wf_router r" "wf_route r pk route"
  shows "wf_router (r\<lparr>rt_routes := AList.update pk route (rt_routes r)\<rparr>)"
  using assms set_update [of pk route "rt_routes r"]
  by (auto simp: wf_router_def wf_route_def intro: distinct_update)

lemma wf_router_delete: "wf_router r \<Longrightarrow> wf_router (r\<lparr>rt_routes := AList.delete pk (rt_routes r)\<rparr>)"
  using set_delete [of pk "rt_routes r"] by (auto simp: wf_router_def wf_route_def intro: distinct_delete)

lemma backendFor_wf: "wf_router r \<Longrightarrow> wf_router (fst (backendFor f r slot))"
  using wf_router_put [of "r\<lparr>rt_routes := AList.delete (slot_key slot) (rt_routes r)\<rparr>"]
  by (auto simp: backendFor_def Let_def wf_router_delete new_route_wf wf_router_put
      dest!: new_route_wf [where r = "r\<lparr>rt_routes := AList.delete (slot_key slot) (rt_routes r)\<rparr>"] split: option.split)

text \<open>What may happen to a router: a lookup, a consumer destroying a route it was given, the end.\<close>

datatype router_event = Lookup "ustr option" | Kill_route ustr | Shut_down

fun router_step :: "(ustr \<Rightarrow> ustr) \<Rightarrow> router \<Rightarrow> router_event \<Rightarrow> router" where
  "router_step f r (Lookup slot) = fst (backendFor f r slot)"
| "router_step f r (Kill_route pk) = destroy_route pk r"
| "router_step f r Shut_down = destroy_router r"

lemma destroy_route_wf: "wf_router r \<Longrightarrow> wf_router (destroy_route pk r)"
  by (auto simp: destroy_route_def wf_route_def intro!: wf_router_put dest: wf_router_get split: option.split)

lemma router_step_wf: "wf_router r \<Longrightarrow> wf_router (router_step f r e)"
  by (cases e) (simp_all add: backendFor_wf destroy_route_wf, simp add: destroy_router_def wf_router_def)

interpretation routes: replay "router_step f" wf_router for f
  by unfold_locales (rule router_step_wf)

lemma backendFor_primary [simp]: "rt_primaryPubkey (fst (backendFor f r slot)) = rt_primaryPubkey r"
  by (auto simp: backendFor_def Let_def split: option.split)

lemma backendFor_given:
  assumes "wf_router r" "backendFor f r slot = (r', Some (Routed route))"
  shows "wf_route r (slot_key slot) route \<and> \<not> ro_destroyed route \<and> \<not> rt_destroyed r"
  using assms wf_router_get [OF assms(1)]
  by (auto simp: backendFor_def Let_def new_route_def slot_key_hex wf_route_def built_uri split: if_splits option.splits)

lemma backendFor_gives_primary:
  "backendFor f r slot = (r', Some Primary) \<Longrightarrow> slot_key slot = lower (rt_primaryPubkey r) \<and> hex64 (slot_key slot)"
  by (auto simp: backendFor_def Let_def split: if_splits option.splits)

section \<open>Only ever the slot's own signer\<close>

definition fresh_router :: "ustr \<Rightarrow> ustr \<Rightarrow> ustr \<Rightarrow> router" where
  "fresh_router pubkey uri secret = \<lparr>rt_primaryPubkey = pubkey, rt_primaryUri = uri, rt_clientSecret = secret,
     rt_routes = [], rt_destroyed = False\<rparr>"

text \<open>The key a signer that was handed out signs with, given the primary's.\<close>

fun backend_key :: "ustr \<Rightarrow> backend \<Rightarrow> ustr" where
  "backend_key pubkey Primary = slot_key (Some pubkey)"
| "backend_key pubkey (Routed route) = ro_pubkey route"

lemma fresh_wf: "wf_router (fresh_router pubkey uri secret)"
  by (simp add: fresh_router_def wf_router_def)

lemma run_primary: "rt_primaryPubkey (foldl (router_step f) r es) = rt_primaryPubkey r"
proof (induction es arbitrary: r)
  case (Cons e es)
  have "rt_primaryPubkey (router_step f r e) = rt_primaryPubkey r"
    by (cases e) (simp_all add: destroy_route_def destroy_router_def split: option.split)
  then show ?case
    using Cons by simp
qed simp

lemma is_space_lower [simp]: "is_space (lower_unit c) \<longleftrightarrow> is_space c"
  by (auto simp: is_space_def lower_unit_def)

lemma trim_lower: "trim (lower s) = lower (trim s)"
proof -
  have drop: "dropWhile is_space (map lower_unit xs) = map lower_unit (dropWhile is_space xs)" for xs
    by (induction xs) auto
  show ?thesis
    by (simp add: trim_def lower_def rev_map drop)
qed

lemma slot_key_idem [simp]: "slot_key (Some (slot_key s)) = slot_key s"
  by (simp add: slot_key_def trim_lower)

lemma resolve_given:
  assumes "wf_router r" "rt_primaryPubkey r = pubkey"
    "resolveSlotBunkerBackend f (Some pubkey) (Some r) slot withheld = (r', Some b)"
  shows "backend_key pubkey b = slot_key slot \<and> slot_key slot \<noteq> []
    \<and> (\<forall>ws \<in> set_option withheld. \<forall>w \<in> set ws. lower (trim w) \<noteq> slot_key slot)
    \<and> (\<forall>route. b = Routed route \<longrightarrow> wf_route r (slot_key slot) route \<and> \<not> ro_destroyed route \<and> \<not> rt_destroyed r)"
proof -
  let ?slot = "slot_key slot" and ?primary = "slot_key (Some pubkey)"
  have guards: "?slot \<noteq> []" "\<forall>ws \<in> set_option withheld. \<forall>w \<in> set ws. lower (trim w) \<noteq> ?slot"
    using assms(3) by (auto simp: resolveSlotBunkerBackend_def Let_def split: if_splits)
  consider (own) "?primary = ?slot" "b = Primary" | (routed) "?primary \<noteq> ?slot" "snd (backendFor f r (Some ?slot)) = Some b"
    using assms(3) by (auto simp: resolveSlotBunkerBackend_def Let_def split: if_splits prod.splits)
  then show ?thesis
  proof cases
    case own
    then show ?thesis
      using guards by simp
  next
    case routed
    show ?thesis
    proof (cases b)
      case Primary
      have "?slot = lower pubkey"
        using backendFor_gives_primary [of f r "Some ?slot" "fst (backendFor f r (Some ?slot))"] routed(2) Primary assms(2)
        by (simp add: prod_eq_iff)
      then have "?primary = slot_key (Some ?slot)"
        by (simp add: slot_key_def trim_lower [symmetric])
      then show ?thesis
        using routed(1) by simp
    next
      case (Routed route)
      have "wf_route r ?slot route \<and> \<not> ro_destroyed route \<and> \<not> rt_destroyed r"
        using backendFor_given [OF assms(1), of f "Some ?slot" "fst (backendFor f r (Some ?slot))" route] routed(2) Routed
        by (simp add: prod_eq_iff)
      then show ?thesis
        using guards Routed by (auto simp: wf_route_def)
    qed
  qed
qed

text \<open>
  C35 (safety): Whatever lookups, destroyed routes and shut-downs a router has seen, the signer a
  slot resolves to signs with the key of that very slot, never with the primary's when that is
  another; a withheld or unknown slot gets none; and a route handed out is alive, addresses the
  slot's own key and carries the pairing's client secret.
\<close>

theorem slot_backend_identity:
  assumes "r = foldl (router_step f) (fresh_router pubkey uri secret) es"
    and "resolveSlotBunkerBackend f (Some pubkey) (Some r) slot withheld = (r', Some b)"
  shows "backend_key pubkey b = slot_key slot \<and> slot_key slot \<noteq> []
    \<and> (\<forall>ws \<in> set_option withheld. \<forall>w \<in> set ws. lower (trim w) \<noteq> slot_key slot)
    \<and> (\<forall>route. b = Routed route \<longrightarrow> \<not> ro_destroyed route \<and> \<not> rt_destroyed r
        \<and> take 73 (ro_uri route) = u ''bunker://'' @ slot_key slot \<and> ro_clientSecret route = rt_clientSecret r)"
proof -
  have "wf_router r"
    unfolding assms(1) by (rule routes.run_inv) (rule fresh_wf)
  moreover have "rt_primaryPubkey r = pubkey"
    unfolding assms(1) run_primary by (simp add: fresh_router_def)
  ultimately show ?thesis
    using resolve_given [OF _ _ assms(2)] by (auto simp: wf_route_def)
qed

text \<open>A family signer: the primary is the tree's own key, the slot another, its cached route was destroyed.\<close>

definition family_router :: router where
  "family_router = fresh_router (replicate 64 97) (u ''bunker://'' @ replicate 64 97) (replicate 64 49)"

definition used_router :: router where
  "used_router = foldl (router_step id) family_router [Lookup (Some (replicate 64 98)), Kill_route (replicate 64 98)]"

lemma hex_replicate: "hex_unit c \<Longrightarrow> hex64 (replicate 64 c)"
  by (simp add: is_hex_str_def list_all_iff)

lemma family_uri:
  "buildSlotBunkerUri id (u ''bunker://'' @ replicate 64 97) (replicate 64 98) = Some (u ''bunker://'' @ replicate 64 98)"
proof -
  have b: "slot_key (Some (replicate 64 98)) = replicate 64 98" "hex64 (replicate 64 98)" "hex64 (lower (replicate 64 97))"
    using hex_replicate by (simp_all add: slot_key_hex hex_unit_def lower_def lower_unit_def)
  have "trim (u ''bunker://'' @ replicate 64 97) = u ''bunker://'' @ replicate 64 97"
    by (simp add: trim_def u_def of_char_def is_space_def)
  moreover have "bunker_query (u ''bunker://'' @ replicate 64 97) = Some []"
    using b(3) by (simp add: bunker_query_def starts_with_def)
  ultimately show ?thesis
    using b by (simp add: buildSlotBunkerUri_def)
qed

theorem slot_backend_identity_witness:
  "\<exists>r' route. resolveSlotBunkerBackend id (Some (replicate 64 97)) (Some used_router) (Some (replicate 64 98)) None = (r', Some (Routed route))
     \<and> ro_pubkey route = replicate 64 98 \<and> \<not> ro_destroyed route"
proof -
  let ?a = "replicate 64 97 :: ustr" and ?b = "replicate 64 98 :: ustr"
  have b: "slot_key (Some ?b) = ?b" "slot_key (Some ?a) = ?a" "hex64 ?b" "lower ?a = ?a" "?a \<noteq> ?b" "?b \<noteq> []"
    using hex_replicate by (simp_all add: slot_key_hex hex_unit_def lower_def lower_unit_def)
  let ?dead = "\<lparr>ro_clientSecret = replicate 64 48, ro_uri = u ''bunker://'' @ ?b, ro_pubkey = ?b, ro_destroyed = True\<rparr>"
  have first: "fst (backendFor id family_router (Some ?b)) = family_router\<lparr>rt_routes :=
      [(?b, new_route (replicate 64 49) (u ''bunker://'' @ ?b) ?b)]\<rparr>"
    using b family_uri by (simp add: backendFor_def family_router_def fresh_router_def Let_def)
  have used: "used_router = family_router\<lparr>rt_routes := [(?b, ?dead)]\<rparr>"
    using b(1) by (simp add: used_router_def first destroy_route_def new_route_def)
  obtain r' route where given: "resolveSlotBunkerBackend id (Some ?a) (Some used_router) (Some ?b) None = (r', Some (Routed route))"
    using b family_uri by (simp add: resolveSlotBunkerBackend_def backendFor_def used family_router_def fresh_router_def Let_def)
  have "used_router = foldl (router_step id) (fresh_router ?a (u ''bunker://'' @ ?a) (replicate 64 49))
      [Lookup (Some ?b), Kill_route ?b]"
    by (simp add: used_router_def family_router_def)
  from slot_backend_identity [OF this given] show ?thesis
    using given b(1) by auto
qed

section \<open>The connection behind a route\<close>

text \<open>
  A route opens its signer on first use. Signers are numbered in the order they are made; a call
  either shares the one that is open or the attempt under way, or starts an attempt, which settles
  later, perhaps after the route was destroyed. The sets of attempts under way and of signers not
  yet destroyed are what the heap holds.
\<close>

record connection =
  cn_inner :: "nat option"
  cn_connecting :: "nat option"
  cn_destroyed :: bool
  cn_pending :: "nat set"
  cn_open :: "nat set"
  cn_made :: nat

definition new_connection :: connection where
  "new_connection = \<lparr>cn_inner = None, cn_connecting = None, cn_destroyed = False, cn_pending = {}, cn_open = {}, cn_made = 0\<rparr>"

text \<open>\<open>ensure\<close>: the connection after the call, and whether the call was refused.\<close>

definition ensure :: "connection \<Rightarrow> connection \<times> bool" where
  "ensure c =
     (if cn_destroyed c then (c, True)
      else if cn_inner c \<noteq> None then (c, False)
      else if cn_connecting c \<noteq> None then (c, False)
      else (c\<lparr>cn_connecting := Some (cn_made c), cn_pending := insert (cn_made c) (cn_pending c),
              cn_open := insert (cn_made c) (cn_open c), cn_made := Suc (cn_made c)\<rparr>, False))"

text \<open>An attempt that connects after the end destroys its signer again and fails, like one that fails.\<close>

definition attempt_failed :: "nat \<Rightarrow> connection \<Rightarrow> connection" where
  "attempt_failed n c = c\<lparr>cn_pending := cn_pending c - {n}, cn_open := cn_open c - {n}, cn_connecting := None\<rparr>"

definition attempt_connected :: "nat \<Rightarrow> connection \<Rightarrow> connection" where
  "attempt_connected n c =
     (if cn_destroyed c then attempt_failed n c else c\<lparr>cn_pending := cn_pending c - {n}, cn_inner := Some n\<rparr>)"

definition destroy_connection :: "connection \<Rightarrow> connection" where
  "destroy_connection c = c\<lparr>cn_destroyed := True, cn_connecting := None, cn_inner := None,
     cn_open := cn_open c - set_option (cn_inner c)\<rparr>"

text \<open>\<open>signEvent\<close> goes through \<open>ensure\<close> only for the route's own key.\<close>

definition may_sign :: "ustr \<Rightarrow> ustr option \<Rightarrow> bool" where
  "may_sign routeKey eventPubkey \<longleftrightarrow> slot_key eventPubkey = [] \<or> slot_key eventPubkey = routeKey"

inductive conn_step :: "connection \<Rightarrow> connection \<Rightarrow> bool" where
  call: "conn_step c (fst (ensure c))"
| connected: "n \<in> cn_pending c \<Longrightarrow> conn_step c (attempt_connected n c)"
| failed: "n \<in> cn_pending c \<Longrightarrow> conn_step c (attempt_failed n c)"
| destroyed: "conn_step c (destroy_connection c)"

inductive conn_reachable :: "connection \<Rightarrow> bool" where
  start: "conn_reachable new_connection"
| step: "conn_reachable c \<Longrightarrow> conn_step c c' \<Longrightarrow> conn_reachable c'"

inductive_cases conn_stepE: "conn_step c c'"

text \<open>
  While the route lives there is one attempt under way or one signer open, never two; after the end
  only attempts that have not settled keep a signer.
\<close>

definition conn_inv :: "connection \<Rightarrow> bool" where
  "conn_inv c \<longleftrightarrow>
     (if cn_destroyed c then cn_inner c = None \<and> cn_connecting c = None \<and> cn_open c = cn_pending c
      else case cn_inner c of
          Some n \<Rightarrow> cn_pending c = {} \<and> cn_open c = {n}
        | None \<Rightarrow> cn_open c = cn_pending c \<and> cn_pending c = set_option (cn_connecting c))"

lemma ensure_inv: "conn_inv c \<Longrightarrow> conn_inv (fst (ensure c))"
  by (auto simp: conn_inv_def ensure_def split: if_splits option.splits)

lemma failed_inv: "conn_inv c \<Longrightarrow> n \<in> cn_pending c \<Longrightarrow> conn_inv (attempt_failed n c)"
  by (auto simp: conn_inv_def attempt_failed_def split: if_splits option.splits)

lemma connected_inv: "conn_inv c \<Longrightarrow> n \<in> cn_pending c \<Longrightarrow> conn_inv (attempt_connected n c)"
  using failed_inv by (auto simp: conn_inv_def attempt_connected_def attempt_failed_def split: if_splits option.splits)

lemma destroy_inv: "conn_inv c \<Longrightarrow> conn_inv (destroy_connection c)"
  by (auto simp: conn_inv_def destroy_connection_def split: if_splits option.splits)

lemma reachable_inv: "conn_reachable c \<Longrightarrow> conn_inv c"
proof (induction rule: conn_reachable.induct)
  case start
  show ?case
    by (simp add: conn_inv_def new_connection_def)
next
  case (step c c')
  from step.hyps(2) step.IH show ?case
    by (cases rule: conn_stepE) (auto intro: ensure_inv connected_inv failed_inv destroy_inv)
qed

text \<open>
  C36 (invariant): However calls, settling attempts and the destruction of a route interleave, a
  live route never holds two signers, and a destroyed one holds none once its last attempt has
  settled: no connection is left open behind the lock screen, and later calls are refused.
\<close>

theorem route_leaves_nothing_open:
  assumes "conn_reachable c"
  shows "(\<not> cn_destroyed c \<longrightarrow> card (cn_open c) \<le> 1)
    \<and> (cn_destroyed c \<and> cn_pending c = {} \<longrightarrow> cn_open c = {} \<and> cn_inner c = None \<and> snd (ensure c))"
  using reachable_inv [OF assms] by (cases "cn_connecting c") (auto simp: conn_inv_def ensure_def split: if_splits option.splits)

text \<open>A call, the end of the route while the attempt is under way, and the attempt connecting after all.\<close>

theorem route_leaves_nothing_open_witness:
  "\<exists>c. conn_reachable c \<and> cn_made c = 1 \<and> cn_destroyed c \<and> cn_pending c = {} \<and> cn_open c = {}"
proof -
  let ?asked = "fst (ensure new_connection)"
  let ?finished = "attempt_connected 0 (destroy_connection ?asked)"
  have "0 \<in> cn_pending (destroy_connection ?asked)"
    by (simp add: ensure_def new_connection_def destroy_connection_def)
  then have reach: "conn_reachable ?finished"
    by (intro conn_reachable.step [OF _ conn_step.connected] conn_reachable.step [OF _ conn_step.destroyed]
        conn_reachable.step [OF _ conn_step.call] conn_reachable.start)
  moreover have "cn_made ?finished = 1 \<and> cn_destroyed ?finished \<and> cn_pending ?finished = {}"
    by (simp add: ensure_def new_connection_def destroy_connection_def attempt_connected_def attempt_failed_def)
  ultimately show ?thesis
    using route_leaves_nothing_open [OF reach] by blast
qed

end
