(* ===== verification/Keypair_Policy.thy ===== *)
theory Keypair_Policy
  imports Prelude
begin

text \<open>
  \<open>keypair-policy.ts\<close>: which of a user's identities are offered to a site that asks for a sign-in,
  in which order, and which is selected first, from the site's hint, the user's defaults and what
  the user chose at that site before. Its \<open>resolvePolicy\<close> is \<open>resolveKeypairPolicy\<close> here, since
  the stage matrix has a function of that name.
\<close>

section \<open>Requests\<close>

datatype keypair_token = Np_token | Persona_token | Extra_token

record keypair_option =
  ko_key :: ustr
  ko_token :: keypair_token
  ko_label :: ustr
  ko_pubkey :: ustr

record consumer_hint =
  ch_allow :: "keypair_token list"
  ch_prefer :: "keypair_token option"
  ch_reason :: "ustr option"

record user_defaults =
  ud_preferPersonaForSignIns :: "bool option"
  ud_preferredPersonaPubkey :: "ustr option"

text \<open>What is read of the record kept for an origin.\<close>

record origin_memory =
  om_lastKeypair :: ustr
  om_pinned :: bool

record policy_request =
  pq_options :: "keypair_option list"
  pq_consumerHint :: "consumer_hint option"
  pq_requireNpConfirmation :: bool
  pq_userDefaults :: "user_defaults option"
  pq_originMemory :: "origin_memory option"

record resolved_policy =
  rs_ranked :: "keypair_option list"
  rs_hidden :: "keypair_option list"
  rs_defaultKey :: "ustr option"
  rs_requireNpConfirmation :: bool
  rs_caption :: "ustr option"

section \<open>Choosing\<close>

text \<open>\<open>splice\<close> and \<open>unshift\<close> of the first option that fits, when there is one that is not first already.\<close>

definition promote :: "(keypair_option \<Rightarrow> bool) \<Rightarrow> keypair_option list \<Rightarrow> keypair_option list" where
  "promote Q os = (case find_index Q os of
     None \<Rightarrow> os
   | Some i \<Rightarrow> if i > 0 then move_front i os else os)"

definition first_key :: "keypair_option list \<Rightarrow> ustr option" where
  "first_key os = (case os of [] \<Rightarrow> None | p # _ \<Rightarrow> Some (ko_key p))"

text \<open>The option the user pinned for the origin, if it still exists.\<close>

definition pinned_option :: "policy_request \<Rightarrow> keypair_option option" where
  "pinned_option q =
     (case pq_originMemory q of
        None \<Rightarrow> None
      | Some m \<Rightarrow> if om_pinned m then find (\<lambda>p. ko_key p = om_lastKeypair m) (pq_options q) else None)"

text \<open>The preferred persona goes first: the one the user named, else the built-in one.\<close>

definition persona_default :: "user_defaults option \<Rightarrow> keypair_option list \<Rightarrow> keypair_option list" where
  "persona_default defaults os =
     (case defaults of
        None \<Rightarrow> os
      | Some d \<Rightarrow>
          if ud_preferPersonaForSignIns d \<noteq> Some True then os
          else
            (let named = (case ud_preferredPersonaPubkey d of
                   None \<Rightarrow> None
                 | Some pk \<Rightarrow> if pk = [] then None
                     else find_index (\<lambda>p. ko_pubkey p = pk \<and> (ko_token p = Persona_token \<or> ko_token p = Extra_token)) os);
                 target = (if named = None then find_index (\<lambda>p. ko_token p = Persona_token) os else named)
             in case target of None \<Rightarrow> os | Some i \<Rightarrow> if i > 0 then move_front i os else os))"

definition remembered :: "origin_memory option \<Rightarrow> keypair_option list \<Rightarrow> keypair_option list" where
  "remembered memory os =
     (case memory of
        None \<Rightarrow> os
      | Some m \<Rightarrow> if om_pinned m then os else promote (\<lambda>p. ko_key p = om_lastKeypair m) os)"

text \<open>The place of a token in the allow list; a later mention overwrites an earlier one.\<close>

definition token_order :: "keypair_token list \<Rightarrow> keypair_token \<Rightarrow> nat" where
  "token_order allow t = (case find_index (\<lambda>x. x = t) (rev allow) of
     None \<Rightarrow> 999
   | Some i \<Rightarrow> length allow - 1 - i)"

definition defaultCaption :: "keypair_token list \<Rightarrow> ustr" where
  "defaultCaption allow =
     (if allow = [Np_token] then u ''This site asked for your real-name identity''
      else if allow = [Persona_token] then u ''This site asked for a persona''
      else if allow = [Extra_token] then u ''This site asked for one of your extra personas''
      else if Np_token \<in> set allow then u ''This site prefers a specific identity type''
      else u ''This site asked for a persona'')"

text \<open>With a hint: the allowed tokens in the order of the allow list, the preferred token first.\<close>

definition hinted :: "policy_request \<Rightarrow> consumer_hint \<Rightarrow> keypair_option list" where
  "hinted q h =
     (let allowed = filter (\<lambda>p. ko_token p \<in> set (ch_allow h)) (pq_options q);
          by_order = sort_key (\<lambda>p. token_order (ch_allow h) (ko_token p)) allowed;
          preferred = (case ch_prefer h of
              None \<Rightarrow> by_order
            | Some t \<Rightarrow> if t \<in> set (ch_allow h) then promote (\<lambda>p. ko_token p = t) by_order else by_order)
      in if ch_prefer h = None then remembered (pq_originMemory q) preferred else preferred)"

definition resolveKeypairPolicy :: "policy_request \<Rightarrow> resolved_policy" where
  "resolveKeypairPolicy q =
     (let confirm = pq_requireNpConfirmation q in
      case pinned_option q of
        Some p \<Rightarrow> \<lparr>rs_ranked = p # filter (\<lambda>x. ko_key x \<noteq> ko_key p) (pq_options q), rs_hidden = [],
                   rs_defaultKey = Some (ko_key p), rs_requireNpConfirmation = confirm,
                   rs_caption = Some (u ''You pinned this identity for this site'')\<rparr>
      | None \<Rightarrow>
          (let hint = pq_consumerHint q;
               unhinted = (let ranked = remembered (pq_originMemory q) (persona_default (pq_userDefaults q) (pq_options q))
                 in \<lparr>rs_ranked = ranked, rs_hidden = [], rs_defaultKey = first_key ranked,
                     rs_requireNpConfirmation = confirm, rs_caption = Option.bind hint ch_reason\<rparr>)
           in case hint of
                None \<Rightarrow> unhinted
              | Some h \<Rightarrow>
                  if ch_allow h = [] then unhinted
                  else \<lparr>rs_ranked = hinted q h,
                        rs_hidden = filter (\<lambda>p. ko_token p \<notin> set (ch_allow h)) (pq_options q),
                        rs_defaultKey = first_key (hinted q h), rs_requireNpConfirmation = confirm,
                        rs_caption = Some (case ch_reason h of Some r \<Rightarrow> r | None \<Rightarrow> defaultCaption (ch_allow h))\<rparr>))"

section \<open>Beside the picker\<close>

datatype incoming_source = From_guardian | From_dependant

definition shouldOverrideIncomingDefault :: "incoming_source option \<Rightarrow> ustr option \<Rightarrow> ustr option \<Rightarrow> bool \<Rightarrow> bool" where
  "shouldOverrideIncomingDefault incomingSource incomingKey resolverDefaultKey hasConsumerHint =
     (if hasConsumerHint then False
      else if incomingSource \<noteq> Some From_guardian \<or> incomingKey \<noteq> Some (u ''natural-person'') then False
      else if resolverDefaultKey = None \<or> resolverDefaultKey = Some [] \<or> resolverDefaultKey = Some (u ''natural-person'') then False
      else True)"

datatype empty_state = No_persona_configured | No_extra_persona | Np_hidden | Np_dormant | Generic

definition classifyEmptyState :: "consumer_hint option \<Rightarrow> bool \<Rightarrow> bool \<Rightarrow> bool \<Rightarrow> bool \<Rightarrow> empty_state" where
  "classifyEmptyState hint hasPersona hasExtras hasNp npDormant =
     (case hint of
        None \<Rightarrow> Generic
      | Some h \<Rightarrow>
          (let wantsPersona = Persona_token \<in> set (ch_allow h); wantsExtra = Extra_token \<in> set (ch_allow h);
               wantsNp = Np_token \<in> set (ch_allow h)
           in if ch_allow h = [] then Generic
              else if wantsNp \<and> npDormant then Np_dormant
              else if wantsPersona \<and> \<not> hasPersona then No_persona_configured
              else if wantsExtra \<and> \<not> wantsPersona \<and> hasPersona \<and> \<not> hasExtras then No_extra_persona
              else if \<not> wantsNp \<and> hasNp \<and> \<not> hasPersona \<and> \<not> hasExtras then Np_hidden
              else Generic))"

section \<open>What is offered\<close>

lemma mset_moved: "find_index Q os = Some i \<Longrightarrow> mset (move_front i os) = mset os"
  by (simp add: find_index_Some mset_move_front)

lemma mset_promote [simp]: "mset (promote Q os) = mset os"
  by (auto simp: promote_def mset_moved split: option.split)

lemma mset_remembered [simp]: "mset (remembered m os) = mset os"
  by (auto simp: remembered_def split: option.split)

lemma mset_persona_default [simp]: "mset (persona_default d os) = mset os"
  by (auto simp: persona_default_def Let_def mset_moved split: option.split)

lemma mset_hinted: "mset (hinted q h) = mset (filter (\<lambda>p. ko_token p \<in> set (ch_allow h)) (pq_options q))"
  by (auto simp: hinted_def Let_def split: option.split)

lemma set_hinted: "set (hinted q h) = {p \<in> set (pq_options q). ko_token p \<in> set (ch_allow h)}"
  using arg_cong [OF mset_hinted, of set_mset q h] by auto

lemma promote_head:
  assumes "list_ex Q os"
  shows "\<exists>p rest. promote Q os = p # rest \<and> Q p"
proof -
  obtain i where i: "find_index Q os = Some i"
    using assms find_index_None [of Q os] by (auto simp: list_ex_iff)
  then have "i < length os \<and> Q (os ! i)"
    by (rule find_index_Some)
  then show ?thesis
    using i by (cases os) (auto simp: promote_def move_front_def)
qed

lemma pinned_in: "pinned_option q = Some p \<Longrightarrow> p \<in> set (pq_options q)"
  by (auto simp: pinned_option_def find_Some_iff split: option.splits if_splits)

lemma others_of_key:
  assumes "distinct (map ko_key os)" "p \<in> set os"
  shows "mset (p # filter (\<lambda>x. ko_key x \<noteq> ko_key p) os) = mset os"
  using assms
proof (induction os)
  case (Cons x os)
  show ?case
  proof (cases "p = x")
    case True
    then have "filter (\<lambda>x. ko_key x \<noteq> ko_key p) os = os"
      using Cons.prems(1) by (auto simp: filter_id_conv) (metis imageI)
    then show ?thesis
      using True by simp
  next
    case False
    then have "p \<in> set os" "ko_key x \<noteq> ko_key p"
      using Cons.prems by auto
    then show ?thesis
      using Cons by simp
  qed
qed simp

text \<open>The hint binds: there is one that allows something, and no pin overrides it.\<close>

definition binding_hint :: "policy_request \<Rightarrow> consumer_hint option" where
  "binding_hint q = (if pinned_option q \<noteq> None then None
     else case pq_consumerHint q of None \<Rightarrow> None | Some h \<Rightarrow> if ch_allow h = [] then None else Some h)"

lemma resolve_unhinted:
  "binding_hint q = None \<Longrightarrow> pinned_option q = None \<Longrightarrow>
   rs_ranked (resolveKeypairPolicy q) = remembered (pq_originMemory q) (persona_default (pq_userDefaults q) (pq_options q))
   \<and> rs_hidden (resolveKeypairPolicy q) = [] \<and> rs_defaultKey (resolveKeypairPolicy q) = first_key (rs_ranked (resolveKeypairPolicy q))"
  by (auto simp: binding_hint_def resolveKeypairPolicy_def Let_def split: option.splits if_splits)

lemma resolve_hinted:
  "binding_hint q = Some h \<Longrightarrow>
   rs_ranked (resolveKeypairPolicy q) = hinted q h
   \<and> rs_hidden (resolveKeypairPolicy q) = filter (\<lambda>p. ko_token p \<notin> set (ch_allow h)) (pq_options q)
   \<and> rs_defaultKey (resolveKeypairPolicy q) = first_key (hinted q h) \<and> pinned_option q = None"
  by (auto simp: binding_hint_def resolveKeypairPolicy_def Let_def split: option.splits if_splits)

lemma resolve_pinned:
  "pinned_option q = Some p \<Longrightarrow>
   rs_ranked (resolveKeypairPolicy q) = p # filter (\<lambda>x. ko_key x \<noteq> ko_key p) (pq_options q)
   \<and> rs_hidden (resolveKeypairPolicy q) = [] \<and> rs_defaultKey (resolveKeypairPolicy q) = Some (ko_key p)"
  by (simp add: resolveKeypairPolicy_def)

text \<open>
  The picker neither loses nor invents an identity: with distinct keys, what is
  ranked and what is hidden are together exactly the options. The first ranked is the one selected.
  A hint that binds shows exactly the kinds it allows and hides exactly the others, and puts a
  preferred allowed kind first; an identity pinned for the site comes first whatever the hint says.
\<close>

lemma keypair_policy_partition:
  assumes "distinct (map ko_key (pq_options q))"
  shows "mset (rs_ranked (resolveKeypairPolicy q)) + mset (rs_hidden (resolveKeypairPolicy q)) = mset (pq_options q)
    \<and> rs_defaultKey (resolveKeypairPolicy q) = first_key (rs_ranked (resolveKeypairPolicy q))
    \<and> (\<forall>h. binding_hint q = Some h \<longrightarrow>
          set (rs_ranked (resolveKeypairPolicy q)) = {p \<in> set (pq_options q). ko_token p \<in> set (ch_allow h)}
          \<and> (\<forall>t. ch_prefer h = Some t \<and> t \<in> set (ch_allow h) \<and> t \<in> ko_token ` set (pq_options q) \<longrightarrow>
               ko_token (hd (rs_ranked (resolveKeypairPolicy q))) = t))
    \<and> (\<forall>p. pinned_option q = Some p \<longrightarrow> hd (rs_ranked (resolveKeypairPolicy q)) = p)"
proof (cases "pinned_option q")
  case (Some p)
  then show ?thesis
    using resolve_pinned [OF Some] others_of_key [OF assms pinned_in [OF Some]]
    by (simp add: first_key_def binding_hint_def)
next
  case None
  show ?thesis
  proof (cases "binding_hint q")
    case unhinted: None
    then show ?thesis
      using resolve_unhinted [OF unhinted None] None by simp
  next
    case (Some h)
    have "ko_token (hd (hinted q h)) = t"
      if t: "ch_prefer h = Some t" "t \<in> set (ch_allow h)" "t \<in> ko_token ` set (pq_options q)" for t
    proof -
      let ?ordered = "sort_key (\<lambda>p. token_order (ch_allow h) (ko_token p)) (filter (\<lambda>p. ko_token p \<in> set (ch_allow h)) (pq_options q))"
      have "list_ex (\<lambda>p. ko_token p = t) ?ordered"
        using t by (auto simp: list_ex_iff)
      then obtain p rest where "promote (\<lambda>p. ko_token p = t) ?ordered = p # rest" "ko_token p = t"
        using promote_head by blast
      then show ?thesis
        using t by (simp add: hinted_def)
    qed
    moreover have "mset (hinted q h) + mset (filter (\<lambda>p. ko_token p \<notin> set (ch_allow h)) (pq_options q)) = mset (pq_options q)"
      unfolding mset_hinted by (simp add: mset_filter)
    ultimately show ?thesis
      using resolve_hinted [OF Some] set_hinted [of q h] None Some by simp
  qed
qed

definition sample_option :: "string \<Rightarrow> keypair_token \<Rightarrow> keypair_option" where
  "sample_option key t = \<lparr>ko_key = u key, ko_token = t, ko_label = u key, ko_pubkey = u key\<rparr>"

definition sample_request :: policy_request where
  "sample_request = \<lparr>pq_options = [sample_option ''natural-person'' Np_token, sample_option ''persona'' Persona_token, sample_option ''work'' Extra_token],
     pq_consumerHint = Some \<lparr>ch_allow = [Persona_token, Extra_token], ch_prefer = Some Extra_token, ch_reason = None\<rparr>,
     pq_requireNpConfirmation = True, pq_userDefaults = None, pq_originMemory = None\<rparr>"

lemma keypair_policy_partition_witness:
  "set (rs_ranked (resolveKeypairPolicy sample_request)) = {sample_option ''persona'' Persona_token, sample_option ''work'' Extra_token}
    \<and> ko_token (hd (rs_ranked (resolveKeypairPolicy sample_request))) = Extra_token"
proof -
  have keys: "distinct (map ko_key (pq_options sample_request))"
    by (simp add: sample_request_def sample_option_def)
  have "binding_hint sample_request = Some \<lparr>ch_allow = [Persona_token, Extra_token], ch_prefer = Some Extra_token, ch_reason = None\<rparr>"
    by (simp add: binding_hint_def pinned_option_def sample_request_def)
  moreover have "{p \<in> set (pq_options sample_request). ko_token p \<in> set [Persona_token, Extra_token]}
      = {sample_option ''persona'' Persona_token, sample_option ''work'' Extra_token}"
    "Extra_token \<in> ko_token ` set (pq_options sample_request)"
    by (auto simp: sample_request_def sample_option_def)
  ultimately show ?thesis
    using keypair_policy_partition [OF keys] by simp
qed

end
