(* ===== verification/Keep_Types.thy ===== *)
theory Keep_Types
  imports Js_Objects Text_Sanitize
begin

text \<open>
  The constants of \<open>lib/keep-wire.ts\<close> and the records of \<open>lib/keep-store.ts\<close> and
  \<open>lib/keep-messages.ts\<close>: a Keep is a small always-on device, the app holds the invites it handed
  out, the return passes the Keep reports, the owner personas of the Keep and the one list update still
  unanswered. Times are Unix seconds and revisions are counters, both safe integers.
\<close>

named_theorems keep_consts \<open>the numbers of the wire contract\<close>

definition KEEP_MSG_CLAIM_KIND :: int where [keep_consts]: "KEEP_MSG_CLAIM_KIND = 27660"
definition KEEP_MSG_INVITE_KIND :: int where [keep_consts]: "KEEP_MSG_INVITE_KIND = 27661"
definition KEEP_MSG_REVOKE_KIND :: int where [keep_consts]: "KEEP_MSG_REVOKE_KIND = 27662"
definition KEEP_MSG_ACK_KIND :: int where [keep_consts]: "KEEP_MSG_ACK_KIND = 27663"
definition KEEP_MSG_OWNERS_KIND :: int where [keep_consts]: "KEEP_MSG_OWNERS_KIND = 27664"
definition KEEP_MSG_ACCEPT_KIND :: int where [keep_consts]: "KEEP_MSG_ACCEPT_KIND = 27665"
definition KEEP_MSG_SETTINGS_KIND :: int where [keep_consts]: "KEEP_MSG_SETTINGS_KIND = 27666"
definition KEEP_MSG_PASS_REPORT_KIND :: int where [keep_consts]: "KEEP_MSG_PASS_REPORT_KIND = 27667"
definition KEEP_MSG_PASSES_REQUEST_KIND :: int where [keep_consts]: "KEEP_MSG_PASSES_REQUEST_KIND = 27668"

definition KEEP_PERSONAL_INVITE_S :: int where [keep_consts]: "KEEP_PERSONAL_INVITE_S = 30 * 86400"
definition KEEP_GUEST_PASS_S :: int where [keep_consts]: "KEEP_GUEST_PASS_S = 24 * 3600"
definition KEEP_INVITE_LABEL_MAX :: nat where [keep_consts]: "KEEP_INVITE_LABEL_MAX = 40"
definition KEEP_ACK_BACKDATE_S :: int where [keep_consts]: "KEEP_ACK_BACKDATE_S = 2 * 86400"
definition KEEP_ACK_FIRST_LOOKBACK_S :: int where [keep_consts]: "KEEP_ACK_FIRST_LOOKBACK_S = 3 * 86400"
definition KEEP_RESEND_AFTER_S :: int where [keep_consts]: "KEEP_RESEND_AFTER_S = 600"
definition KEEP_PASS_REVOKE_WINDOW_S :: int where [keep_consts]: "KEEP_PASS_REVOKE_WINDOW_S = 30 * 86400"
definition KEEP_MAX_REV :: int where [keep_consts]: "KEEP_MAX_REV = 2 ^ 53"
definition KEEP_MAX_OWNER_PERSONAS :: nat where [keep_consts]: "KEEP_MAX_OWNER_PERSONAS = 16"
definition KEEP_GAMES_INVITE_S :: int where [keep_consts]: "KEEP_GAMES_INVITE_S = 365 * 86400 - 3600"
definition KEEP_GAMES_RENEW_BEFORE_S :: int where [keep_consts]: "KEEP_GAMES_RENEW_BEFORE_S = 30 * 86400"
definition KEEP_MAX_PASSES :: nat where [keep_consts]: "KEEP_MAX_PASSES = 256"
definition KEEP_PASSES_REQUEST_AFTER_S :: int where [keep_consts]: "KEEP_PASSES_REQUEST_AFTER_S = 7 * 86400"
definition CLAIM_ACK_SKEW_S :: int where [keep_consts]: "CLAIM_ACK_SKEW_S = 600"
definition KEEP_LOOKUP_CAP :: nat where [keep_consts]: "KEEP_LOOKUP_CAP = 8"

definition KEEP_SECTION_GAMES :: ustr where "KEEP_SECTION_GAMES = u ''games''"
definition KEEP_SETTING_RETURN_PASSES :: ustr where "KEEP_SETTING_RETURN_PASSES = u ''return_passes''"

section \<open>Unions of names\<close>

datatype keep_scope = All_personas | One_persona
datatype invite_status = Inv_waiting | Inv_active | Inv_revoked | Inv_refused
datatype invite_kind = Personal | Guest
datatype refusal_reason = Bad_expired | Bad_expiry_too_long | Bad_revoked | Bad_full | Bad_conflict
  | Bad_malformed | Bad_stale | Bad_too_many
datatype ack_status = Ack_paired | Ack_active | Ack_revoked | Ack_refused | Ack_updated | Ack_pending
datatype pass_state = Pass_active | Pass_revoked | Pass_expired
datatype pass_via = Via_code | Via_lan | Via_link
datatype update_failure = Fail_stale | Fail_too_many | Fail_malformed
datatype keep_status = Keep_pending | Keep_paired

definition KEEP_SCOPES :: "(string \<times> keep_scope) list" where
  "KEEP_SCOPES = [(''all'', All_personas), (''one'', One_persona)]"

definition STATUSES :: "(string \<times> invite_status) list" where
  "STATUSES = [(''waiting'', Inv_waiting), (''active'', Inv_active), (''revoked'', Inv_revoked), (''refused'', Inv_refused)]"

definition INVITE_KINDS :: "(string \<times> invite_kind) list" where
  "INVITE_KINDS = [(''personal'', Personal), (''guest'', Guest)]"

definition KEEP_REFUSAL_REASONS :: "(string \<times> refusal_reason) list" where
  "KEEP_REFUSAL_REASONS = [(''expired'', Bad_expired), (''expiry_too_long'', Bad_expiry_too_long),
     (''revoked'', Bad_revoked), (''full'', Bad_full), (''conflict'', Bad_conflict),
     (''malformed'', Bad_malformed), (''stale'', Bad_stale), (''too_many'', Bad_too_many)]"

definition KEEP_ACK_STATUSES :: "(string \<times> ack_status) list" where
  "KEEP_ACK_STATUSES = [(''paired'', Ack_paired), (''active'', Ack_active), (''revoked'', Ack_revoked),
     (''refused'', Ack_refused), (''updated'', Ack_updated), (''pending'', Ack_pending)]"

definition KEEP_PASS_STATES :: "(string \<times> pass_state) list" where
  "KEEP_PASS_STATES = [(''active'', Pass_active), (''revoked'', Pass_revoked), (''expired'', Pass_expired)]"

definition KEEP_PASS_VIAS :: "(string \<times> pass_via) list" where
  "KEEP_PASS_VIAS = [(''code'', Via_code), (''lan'', Via_lan), (''link'', Via_link)]"

definition UPDATE_FAILURES :: "(string \<times> update_failure) list" where
  "UPDATE_FAILURES = [(''stale'', Fail_stale), (''too_many'', Fail_too_many), (''malformed'', Fail_malformed)]"

definition KEEP_STATUSES :: "(string \<times> keep_status) list" where
  "KEEP_STATUSES = [(''pending'', Keep_pending), (''paired'', Keep_paired)]"

lemmas keep_tables = KEEP_SCOPES_def STATUSES_def INVITE_KINDS_def KEEP_REFUSAL_REASONS_def
  KEEP_ACK_STATUSES_def KEEP_PASS_STATES_def KEEP_PASS_VIAS_def UPDATE_FAILURES_def KEEP_STATUSES_def

text \<open>Every name of a union stands in its table, so a name written is the name read back.\<close>

lemma tables_ok [simp]:
  "table_ok KEEP_SCOPES" "table_ok STATUSES" "table_ok INVITE_KINDS" "table_ok KEEP_REFUSAL_REASONS"
  "table_ok KEEP_PASS_STATES" "table_ok KEEP_PASS_VIAS" "table_ok UPDATE_FAILURES" "table_ok KEEP_STATUSES"
  by (simp_all add: table_ok_def keep_tables)

lemma tables_full [simp]:
  "sc \<in> snd ` set KEEP_SCOPES" "st \<in> snd ` set STATUSES" "k \<in> snd ` set INVITE_KINDS"
  "rr \<in> snd ` set KEEP_REFUSAL_REASONS" "ps \<in> snd ` set KEEP_PASS_STATES" "v \<in> snd ` set KEEP_PASS_VIAS"
  "uf \<in> snd ` set UPDATE_FAILURES" "ks \<in> snd ` set KEEP_STATUSES"
  by ((cases sc; simp add: keep_tables), (cases st; simp add: keep_tables), (cases k; simp add: keep_tables),
      (cases rr; simp add: keep_tables), (cases ps; simp add: keep_tables), (cases v; simp add: keep_tables),
      (cases uf; simp add: keep_tables), (cases ks; simp add: keep_tables))

lemmas keep_names [simp] = enum_roundtrip [OF tables_ok(1) tables_full(1)]
  enum_roundtrip [OF tables_ok(2) tables_full(2)] enum_roundtrip [OF tables_ok(3) tables_full(3)]
  enum_roundtrip [OF tables_ok(4) tables_full(4)] enum_roundtrip [OF tables_ok(5) tables_full(5)]
  enum_roundtrip [OF tables_ok(6) tables_full(6)] enum_roundtrip [OF tables_ok(7) tables_full(7)]
  enum_roundtrip [OF tables_ok(8) tables_full(8)]

section \<open>Stored records\<close>

record stored_invite =
  vi_grant :: ustr
  vi_secret :: ustr
  vi_kind :: invite_kind
  vi_persona :: "ustr option"
  vi_gamesFor :: "ustr option"
  vi_label :: "ustr option"
  vi_createdAt :: int
  vi_expiration :: int
  vi_status :: invite_status
  vi_reason :: "refusal_reason option"
  vi_revokeSent :: "bool option"
  vi_sentAt :: "int option"
  vi_revokeSentAt :: "int option"
  vi_ackAt :: "int option"

record stored_pass =
  vp_grant :: ustr
  vp_persona :: ustr
  vp_name :: "ustr option"
  vp_state :: pass_state
  vp_expiration :: int
  vp_seenAt :: int
  vp_via :: "pass_via option"
  vp_reportAt :: int
  vp_revokeSent :: "bool option"
  vp_revokeSentAt :: "int option"

text \<open>\<open>failed?: 'stale'\<close> of the settings has one value: it is there or not.\<close>

record keep_settings =
  vs_returnPasses :: bool
  vs_setrev :: int
  vs_composedAt :: int
  vs_sentAt :: int
  vs_confirmed :: bool
  vs_refusedAt :: "int option"
  vs_retried :: "bool option"
  vs_failed :: bool

record owner_accept =
  va_rev :: int
  va_sentAt :: int
  va_composedAt :: int
  va_pending :: "bool option"

record persona_link =
  vl_sections :: "ustr list"
  vl_addedRev :: "int option"
  vl_active :: bool
  vl_accept :: "owner_accept option"

record pending_update =
  vu_rev :: int
  vu_signer :: ustr
  vu_personas :: "(ustr \<times> ustr list) list"
  vu_sentAt :: int
  vu_composedAt :: int
  vu_refusedAt :: "int option"
  vu_retried :: "bool option"
  vu_failed :: "update_failure option"

text \<open>\<open>links\<close> and \<open>ackCursors\<close> are records by persona, in the order their keys were added.\<close>

record stored_keep =
  vk_keep :: ustr
  vk_name :: ustr
  vk_relays :: "ustr list"
  vk_claimedBy :: ustr
  vk_personas :: "ustr list"
  vk_scope :: keep_scope
  vk_rev :: int
  vk_links :: "(ustr \<times> persona_link) list"
  vk_seen :: "ustr list"
  vk_update :: "pending_update option"
  vk_status :: keep_status
  vk_code :: "ustr option"
  vk_claimedAt :: int
  vk_ackCursors :: "(ustr \<times> int) list option"
  vk_invites :: "stored_invite list"
  vk_passes :: "stored_pass list option"
  vk_settings :: "keep_settings option"
  vk_passesRequestedAt :: "int option"

section \<open>Messages\<close>

text \<open>The flags \<open>claim\<close>, \<open>owners\<close> and \<open>settings\<close> are true or absent.\<close>

record keep_ack =
  ak_keep :: ustr
  ak_status :: ack_status
  ak_grant :: "ustr option"
  ak_claim :: bool
  ak_reason :: "refusal_reason option"
  ak_time :: int
  ak_owners :: bool
  ak_rev :: "int option"
  ak_to :: "ustr option"
  ak_settings :: bool
  ak_setrev :: "int option"

record keep_report =
  kr_keep :: ustr
  kr_grant :: ustr
  kr_persona :: ustr
  kr_state :: pass_state
  kr_expiration :: int
  kr_seen :: int
  kr_via :: "pass_via option"
  kr_name :: "ustr option"
  kr_time :: int

datatype keep_message = Ack keep_ack | Report keep_report

text \<open>\<open>!!flag\<close> of an optional flag.\<close>

definition flagged :: "bool option \<Rightarrow> bool" where
  "flagged b \<longleftrightarrow> b = Some True"

end
