(* ===== verification/Keep_Read.thy ===== *)
theory Keep_Read
  imports Keep_Types
begin

text \<open>
  Reading the stored Keeps (\<open>lib/keep-store.ts\<close>): the guards on the decrypted row, the scrubbing of
  what is only a mirror of the Keep's reports, the filling in of the fields older builds did not
  write, and the record the row is used as. \<open>parseStoredKeeps\<close> gives \<open>None\<close> for a row that is not
  a well-formed list; the service then refuses to write over it.
\<close>

section \<open>Guards\<close>

abbreviation isHex64 :: "jsval \<Rightarrow> bool" where
  "isHex64 v \<equiv> is_str v hex64"

abbreviation isHex32 :: "jsval \<Rightarrow> bool" where
  "isHex32 v \<equiv> is_str v hex32"

abbreviation isText :: "jsval \<Rightarrow> bool" where
  "isText v \<equiv> is_str v (\<lambda>s. True)"

definition isInvite :: "jsval \<Rightarrow> bool" where
  "isInvite v \<longleftrightarrow> is_object_type v \<and> isHex32 (get v ''grant'') \<and> isHex64 (get v ''secret'')
     \<and> in_table INVITE_KINDS (get v ''kind'')
     \<and> opt_or (get v ''persona'') (isHex64 (get v ''persona''))
     \<and> opt_or (get v ''gamesFor'') (isHex64 (get v ''gamesFor''))
     \<and> opt_or (get v ''label'') (isText (get v ''label''))
     \<and> isSafeInt (get v ''createdAt'') \<and> isSafeInt (get v ''expiration'')
     \<and> in_table STATUSES (get v ''status'')
     \<and> opt_or (get v ''reason'') (in_table KEEP_REFUSAL_REASONS (get v ''reason''))
     \<and> opt_or (get v ''revokeSent'') (is_bool (get v ''revokeSent''))
     \<and> opt_or (get v ''sentAt'') (isSafeInt (get v ''sentAt''))
     \<and> opt_or (get v ''revokeSentAt'') (isSafeInt (get v ''revokeSentAt''))
     \<and> opt_or (get v ''ackAt'') (isSafeInt (get v ''ackAt''))"

definition isPass :: "jsval \<Rightarrow> bool" where
  "isPass v \<longleftrightarrow> is_object_type v \<and> isHex32 (get v ''grant'') \<and> isHex64 (get v ''persona'')
     \<and> opt_or (get v ''name'') (isText (get v ''name''))
     \<and> in_table KEEP_PASS_STATES (get v ''state'')
     \<and> isCount (get v ''expiration'') \<and> isCount (get v ''seenAt'') \<and> isSafeInt (get v ''reportAt'')
     \<and> opt_or (get v ''via'') (in_table KEEP_PASS_VIAS (get v ''via''))
     \<and> opt_or (get v ''revokeSent'') (is_bool (get v ''revokeSent''))
     \<and> opt_or (get v ''revokeSentAt'') (isSafeInt (get v ''revokeSentAt''))"

definition isSettings :: "jsval \<Rightarrow> bool" where
  "isSettings v \<longleftrightarrow> is_object_type v \<and> is_bool (get v ''returnPasses'') \<and> isCount (get v ''setrev'')
     \<and> isSafeInt (get v ''composedAt'') \<and> isSafeInt (get v ''sentAt'') \<and> is_bool (get v ''confirmed'')
     \<and> opt_or (get v ''refusedAt'') (isSafeInt (get v ''refusedAt''))
     \<and> opt_or (get v ''retried'') (is_bool (get v ''retried''))
     \<and> opt_or (get v ''failed'') (get v ''failed'' = JS ''stale'')"

definition isSections :: "jsval \<Rightarrow> bool" where
  "isSections v = is_arr v (list_all isText)"

definition isAccept :: "jsval \<Rightarrow> bool" where
  "isAccept a \<longleftrightarrow> is_object_type a \<and> isSafeInt (get a ''rev'') \<and> isSafeInt (get a ''sentAt'')
     \<and> opt_or (get a ''composedAt'') (isSafeInt (get a ''composedAt''))
     \<and> opt_or (get a ''pending'') (is_bool (get a ''pending''))"

definition isLink :: "jsval \<Rightarrow> bool" where
  "isLink v \<longleftrightarrow> is_object_type v \<and> isSections (get v ''sections'') \<and> is_bool (get v ''active'')
     \<and> opt_or (get v ''addedRev'') (isSafeInt (get v ''addedRev''))
     \<and> opt_or (get v ''accept'') (isAccept (get v ''accept''))"

definition isUpdatePersona :: "jsval \<Rightarrow> bool" where
  "isUpdatePersona p \<longleftrightarrow> is_object_type p \<and> isHex64 (get p ''persona'') \<and> isSections (get p ''sections'')"

definition isUpdate :: "jsval \<Rightarrow> bool" where
  "isUpdate v \<longleftrightarrow> is_object_type v \<and> isSafeInt (get v ''rev'') \<and> isHex64 (get v ''signer'')
     \<and> is_arr (get v ''personas'') (list_all isUpdatePersona) \<and> isSafeInt (get v ''sentAt'')
     \<and> opt_or (get v ''composedAt'') (isSafeInt (get v ''composedAt''))
     \<and> opt_or (get v ''refusedAt'') (isSafeInt (get v ''refusedAt''))
     \<and> opt_or (get v ''retried'') (is_bool (get v ''retried''))
     \<and> opt_or (get v ''failed'') (in_table UPDATE_FAILURES (get v ''failed''))"

definition isK1dKeep :: "jsval \<Rightarrow> bool" where
  "isK1dKeep v \<longleftrightarrow> is_object_type v \<and> isHex64 (get v ''keep'') \<and> isText (get v ''name'')
     \<and> is_arr (get v ''relays'') (list_all isText) \<and> isHex64 (get v ''claimedBy'')
     \<and> is_arr (get v ''personas'') (list_all isHex64) \<and> in_table KEEP_STATUSES (get v ''status'')
     \<and> opt_or (get v ''code'') (isHex32 (get v ''code'')) \<and> isSafeInt (get v ''claimedAt'')
     \<and> opt_or (get v ''ackCursor'') (isSafeInt (get v ''ackCursor''))
     \<and> is_arr (get v ''invites'') (list_all isInvite)"

definition isKeep :: "jsval \<Rightarrow> bool" where
  "isKeep v \<longleftrightarrow> is_object_type v
     \<and> opt_or (get v ''scope'') (in_table KEEP_SCOPES (get v ''scope''))
     \<and> opt_or (get v ''rev'') (isCount (get v ''rev''))
     \<and> opt_or (get v ''links'') (is_record (get v ''links'') (\<lambda>p l. hex64 p \<and> isLink l))
     \<and> opt_or (get v ''seen'') (is_arr (get v ''seen'') (list_all isHex64))
     \<and> opt_or (get v ''update'') (isUpdate (get v ''update''))
     \<and> opt_or (get v ''passes'') (is_arr (get v ''passes'') (list_all isPass))
     \<and> opt_or (get v ''settings'') (isSettings (get v ''settings''))
     \<and> opt_or (get v ''passesRequestedAt'') (isSafeInt (get v ''passesRequestedAt''))
     \<and> opt_or (get v ''ackCursors'') (is_record (get v ''ackCursors'') (\<lambda>p t. hex64 p \<and> isSafeInt t))
     \<and> isK1dKeep v"

section \<open>Scrubbing\<close>

text \<open>Passes kept: well-formed, and the first of each grant.\<close>

fun kept_passes :: "ustr list \<Rightarrow> jsval list \<Rightarrow> jsval list" where
  "kept_passes grants [] = []"
| "kept_passes grants (p # ps) =
     (case get p ''grant'' of
        JStr g \<Rightarrow> if \<not> isPass p \<or> g \<in> set grants then kept_passes grants ps
                   else p # kept_passes (g # grants) ps
      | _ \<Rightarrow> kept_passes grants ps)"

definition mirror_fields :: "ustr list" where
  "mirror_fields = map u [''passes'', ''settings'', ''passesRequestedAt'']"

definition scrubReturnPasses :: "jsval \<Rightarrow> jsval" where
  "scrubReturnPasses v =
     (case v of
        JObj props \<Rightarrow>
          (let passes = get v ''passes''; settings = get v ''settings'';
               requestedAt = get v ''passesRequestedAt'';
               nextPasses = (case passes of JArr ps \<Rightarrow> Some (kept_passes [] ps) | _ \<Rightarrow> None);
               passesChanged = (case passes of JUndef \<Rightarrow> False
                 | JArr ps \<Rightarrow> length (kept_passes [] ps) \<noteq> length ps | _ \<Rightarrow> True);
               keepSettings = opt_or settings (isSettings settings);
               keepRequestedAt = opt_or requestedAt (isSafeInt requestedAt)
           in if \<not> (passesChanged \<or> \<not> keepSettings \<or> \<not> keepRequestedAt) then v
              else JObj (filter (\<lambda>(k, x). k \<notin> set mirror_fields) props
                @ (case nextPasses of Some ps \<Rightarrow> [(u ''passes'', JArr ps)] | None \<Rightarrow> [])
                @ (if settings \<noteq> JUndef \<and> keepSettings then [(u ''settings'', settings)] else [])
                @ (if requestedAt \<noteq> JUndef \<and> keepRequestedAt then [(u ''passesRequestedAt'', requestedAt)] else [])))
      | _ \<Rightarrow> v)"

section \<open>The typed reading\<close>

definition read_invite :: "jsval \<Rightarrow> stored_invite option" where
  "read_invite v = do {
     g \<leftarrow> as_str (get v ''grant''); s \<leftarrow> as_str (get v ''secret''); k \<leftarrow> as_enum INVITE_KINDS (get v ''kind'');
     p \<leftarrow> as_opt as_str (get v ''persona''); gf \<leftarrow> as_opt as_str (get v ''gamesFor'');
     l \<leftarrow> as_opt as_str (get v ''label''); c \<leftarrow> as_int (get v ''createdAt'');
     e \<leftarrow> as_int (get v ''expiration''); st \<leftarrow> as_enum STATUSES (get v ''status'');
     r \<leftarrow> as_opt (as_enum KEEP_REFUSAL_REASONS) (get v ''reason'');
     rs \<leftarrow> as_opt as_bool (get v ''revokeSent''); sa \<leftarrow> as_opt as_int (get v ''sentAt'');
     ra \<leftarrow> as_opt as_int (get v ''revokeSentAt''); aa \<leftarrow> as_opt as_int (get v ''ackAt'');
     Some \<lparr>vi_grant = g, vi_secret = s, vi_kind = k, vi_persona = p, vi_gamesFor = gf, vi_label = l,
           vi_createdAt = c, vi_expiration = e, vi_status = st, vi_reason = r, vi_revokeSent = rs,
           vi_sentAt = sa, vi_revokeSentAt = ra, vi_ackAt = aa\<rparr> }"

definition read_pass :: "jsval \<Rightarrow> stored_pass option" where
  "read_pass v = do {
     g \<leftarrow> as_str (get v ''grant''); p \<leftarrow> as_str (get v ''persona''); n \<leftarrow> as_opt as_str (get v ''name'');
     st \<leftarrow> as_enum KEEP_PASS_STATES (get v ''state''); e \<leftarrow> as_int (get v ''expiration'');
     sn \<leftarrow> as_int (get v ''seenAt''); via \<leftarrow> as_opt (as_enum KEEP_PASS_VIAS) (get v ''via'');
     ra \<leftarrow> as_int (get v ''reportAt''); rs \<leftarrow> as_opt as_bool (get v ''revokeSent'');
     rt \<leftarrow> as_opt as_int (get v ''revokeSentAt'');
     Some \<lparr>vp_grant = g, vp_persona = p, vp_name = n, vp_state = st, vp_expiration = e, vp_seenAt = sn,
           vp_via = via, vp_reportAt = ra, vp_revokeSent = rs, vp_revokeSentAt = rt\<rparr> }"

definition read_settings :: "jsval \<Rightarrow> keep_settings option" where
  "read_settings v = do {
     rp \<leftarrow> as_bool (get v ''returnPasses''); s \<leftarrow> as_int (get v ''setrev''); c \<leftarrow> as_int (get v ''composedAt'');
     t \<leftarrow> as_int (get v ''sentAt''); cf \<leftarrow> as_bool (get v ''confirmed'');
     r \<leftarrow> as_opt as_int (get v ''refusedAt''); rt \<leftarrow> as_opt as_bool (get v ''retried'');
     Some \<lparr>vs_returnPasses = rp, vs_setrev = s, vs_composedAt = c, vs_sentAt = t, vs_confirmed = cf,
           vs_refusedAt = r, vs_retried = rt, vs_failed = (get v ''failed'' \<noteq> JUndef)\<rparr> }"

text \<open>
  Accepts and updates written before the time of their making was kept read as made at the claim
  (the first half of \<open>migrateKeep\<close>).
\<close>

definition read_accept :: "int \<Rightarrow> jsval \<Rightarrow> owner_accept option" where
  "read_accept claimedAt v = do {
     r \<leftarrow> as_int (get v ''rev''); s \<leftarrow> as_int (get v ''sentAt''); c \<leftarrow> as_opt as_int (get v ''composedAt'');
     p \<leftarrow> as_opt as_bool (get v ''pending'');
     Some \<lparr>va_rev = r, va_sentAt = s, va_composedAt = (case c of None \<Rightarrow> claimedAt | Some t \<Rightarrow> t), va_pending = p\<rparr> }"

definition read_link :: "int \<Rightarrow> jsval \<Rightarrow> persona_link option" where
  "read_link claimedAt v = do {
     s \<leftarrow> as_list as_str (get v ''sections''); a \<leftarrow> as_bool (get v ''active'');
     r \<leftarrow> as_opt as_int (get v ''addedRev''); ac \<leftarrow> as_opt (read_accept claimedAt) (get v ''accept'');
     Some \<lparr>vl_sections = s, vl_addedRev = r, vl_active = a, vl_accept = ac\<rparr> }"

definition read_update_persona :: "jsval \<Rightarrow> (ustr \<times> ustr list) option" where
  "read_update_persona v = do {
     p \<leftarrow> as_str (get v ''persona''); s \<leftarrow> as_list as_str (get v ''sections''); Some (p, s) }"

definition read_update :: "int \<Rightarrow> jsval \<Rightarrow> pending_update option" where
  "read_update claimedAt v = do {
     r \<leftarrow> as_int (get v ''rev''); s \<leftarrow> as_str (get v ''signer'');
     ps \<leftarrow> as_list read_update_persona (get v ''personas''); t \<leftarrow> as_int (get v ''sentAt'');
     c \<leftarrow> as_opt as_int (get v ''composedAt''); ra \<leftarrow> as_opt as_int (get v ''refusedAt'');
     rt \<leftarrow> as_opt as_bool (get v ''retried''); f \<leftarrow> as_opt (as_enum UPDATE_FAILURES) (get v ''failed'');
     Some \<lparr>vu_rev = r, vu_signer = s, vu_personas = ps, vu_sentAt = t,
           vu_composedAt = (case c of None \<Rightarrow> claimedAt | Some c \<Rightarrow> c), vu_refusedAt = ra,
           vu_retried = rt, vu_failed = f\<rparr> }"

definition claimer_link :: persona_link where
  "claimer_link = \<lparr>vl_sections = [KEEP_SECTION_GAMES], vl_addedRev = Some 0, vl_active = True, vl_accept = None\<rparr>"

text \<open>
  \<open>migrateKeep\<close>: a record of the first build has no scope, revision, links or personas met, and one
  cursor for the whole Keep. The list of personas is always the keys of the links.
\<close>

definition migrateKeep :: "jsval \<Rightarrow> stored_keep option" where
  "migrateKeep v = do {
     k \<leftarrow> as_str (get v ''keep''); n \<leftarrow> as_str (get v ''name''); rl \<leftarrow> as_list as_str (get v ''relays'');
     cb \<leftarrow> as_str (get v ''claimedBy''); st \<leftarrow> as_enum KEEP_STATUSES (get v ''status'');
     cd \<leftarrow> as_opt as_str (get v ''code''); ca \<leftarrow> as_int (get v ''claimedAt'');
     iv \<leftarrow> as_list read_invite (get v ''invites''); sc \<leftarrow> as_opt (as_enum KEEP_SCOPES) (get v ''scope'');
     rv \<leftarrow> as_opt as_int (get v ''rev''); ls \<leftarrow> as_opt (as_record (read_link ca)) (get v ''links'');
     sn \<leftarrow> as_opt (as_list as_str) (get v ''seen''); up \<leftarrow> as_opt (read_update ca) (get v ''update'');
     ps \<leftarrow> as_opt (as_list read_pass) (get v ''passes''); se \<leftarrow> as_opt read_settings (get v ''settings'');
     rq \<leftarrow> as_opt as_int (get v ''passesRequestedAt'');
     cs \<leftarrow> as_opt (as_record as_int) (get v ''ackCursors''); legacy \<leftarrow> as_opt as_int (get v ''ackCursor'');
     let links = (case ls of None \<Rightarrow> [(cb, claimer_link)] | Some m \<Rightarrow> m);
         personas = map fst links;
         readers = uniq (cb # personas @ (case up of None \<Rightarrow> [] | Some p \<Rightarrow> [vu_signer p]))
     in Some \<lparr>vk_keep = k, vk_name = n, vk_relays = rl, vk_claimedBy = cb, vk_personas = personas,
           vk_scope = (case sc of None \<Rightarrow> One_persona | Some s \<Rightarrow> s),
           vk_rev = (case rv of None \<Rightarrow> 0 | Some r \<Rightarrow> r), vk_links = links,
           vk_seen = (case sn of None \<Rightarrow> [cb] | Some s \<Rightarrow> s), vk_update = up, vk_status = st, vk_code = cd,
           vk_claimedAt = ca,
           vk_ackCursors = (case cs of Some m \<Rightarrow> Some m
             | None \<Rightarrow> map_option (\<lambda>t. map (\<lambda>p. (p, t)) readers) legacy),
           vk_invites = iv, vk_passes = ps, vk_settings = se, vk_passesRequestedAt = rq\<rparr> }"

text \<open>No two records may name the same Keep.\<close>

definition parseStoredKeeps :: "jsval \<Rightarrow> stored_keep list option" where
  "parseStoredKeeps raw =
     (case raw of
        JArr vs \<Rightarrow>
          (let scrubbed = map scrubReturnPasses vs
           in if list_all isKeep scrubbed \<and> distinct (map (\<lambda>k. get k ''keep'') scrubbed)
              then those (map migrateKeep scrubbed) else None)
      | _ \<Rightarrow> None)"

text \<open>The keys remembered for looking a Keep up.\<close>

definition parseKeepLookups :: "jsval \<Rightarrow> ustr list" where
  "parseKeepLookups raw =
     (case get raw ''keys'' of
        JArr ks \<Rightarrow> take KEEP_LOOKUP_CAP
          (uniq (concat (map (\<lambda>k. case k of JStr s \<Rightarrow> if hex64 s then [s] else [] | _ \<Rightarrow> []) ks)))
      | _ \<Rightarrow> [])"

definition withLookupKey :: "ustr list \<Rightarrow> ustr \<Rightarrow> ustr list" where
  "withLookupKey xs key =
     (let k = lower key
      in if \<not> hex64 k \<or> k \<in> set xs then xs
         else drop (length (xs @ [k]) - KEEP_LOOKUP_CAP) (xs @ [k]))"

end
