(* ===== verification/Keep_Codec.thy ===== *)
theory Keep_Codec
  imports Keep_Read
begin

text \<open>
  The records that can be stored: the bounds a record must meet to be read back, the object it is
  written as, and the round trip. The service refuses to touch a row it cannot read, so a record
  outside these bounds would lock the owner out of every Keep.
\<close>

named_theorems ok_simps \<open>the bounds on stored records\<close>

section \<open>Bounds\<close>

definition ok_invite :: "stored_invite \<Rightarrow> bool" where [ok_simps]:
  "ok_invite i \<longleftrightarrow> hex32 (vi_grant i) \<and> hex64 (vi_secret i) \<and> pred_option hex64 (vi_persona i)
     \<and> pred_option hex64 (vi_gamesFor i) \<and> safe_int (vi_createdAt i) \<and> safe_int (vi_expiration i)
     \<and> pred_option safe_int (vi_sentAt i) \<and> pred_option safe_int (vi_revokeSentAt i)
     \<and> pred_option safe_int (vi_ackAt i)"

definition ok_pass :: "stored_pass \<Rightarrow> bool" where [ok_simps]:
  "ok_pass p \<longleftrightarrow> hex32 (vp_grant p) \<and> hex64 (vp_persona p) \<and> safe_int (vp_expiration p) \<and> 0 \<le> vp_expiration p
     \<and> safe_int (vp_seenAt p) \<and> 0 \<le> vp_seenAt p \<and> safe_int (vp_reportAt p) \<and> pred_option safe_int (vp_revokeSentAt p)"

definition ok_settings :: "keep_settings \<Rightarrow> bool" where [ok_simps]:
  "ok_settings s \<longleftrightarrow> safe_int (vs_setrev s) \<and> 0 \<le> vs_setrev s \<and> safe_int (vs_composedAt s)
     \<and> safe_int (vs_sentAt s) \<and> pred_option safe_int (vs_refusedAt s)"

definition ok_accept :: "owner_accept \<Rightarrow> bool" where [ok_simps]:
  "ok_accept a \<longleftrightarrow> safe_int (va_rev a) \<and> safe_int (va_sentAt a) \<and> safe_int (va_composedAt a)"

definition ok_link :: "persona_link \<Rightarrow> bool" where [ok_simps]:
  "ok_link l \<longleftrightarrow> pred_option safe_int (vl_addedRev l) \<and> pred_option ok_accept (vl_accept l)"

definition ok_update :: "pending_update \<Rightarrow> bool" where [ok_simps]:
  "ok_update w \<longleftrightarrow> safe_int (vu_rev w) \<and> hex64 (vu_signer w) \<and> list_all (\<lambda>(p, s). hex64 p) (vu_personas w)
     \<and> safe_int (vu_sentAt w) \<and> safe_int (vu_composedAt w) \<and> pred_option safe_int (vu_refusedAt w)"

definition ok_links :: "(ustr \<times> persona_link) list \<Rightarrow> bool" where [ok_simps]:
  "ok_links m \<longleftrightarrow> distinct (map fst m) \<and> list_all (\<lambda>(p, l). hex64 p \<and> ok_link l) m"

definition ok_cursors :: "(ustr \<times> int) list \<Rightarrow> bool" where [ok_simps]:
  "ok_cursors m \<longleftrightarrow> distinct (map fst m) \<and> list_all (\<lambda>(p, t). hex64 p \<and> safe_int t) m"

definition ok_passes :: "stored_pass list \<Rightarrow> bool" where [ok_simps]:
  "ok_passes ps \<longleftrightarrow> list_all ok_pass ps \<and> distinct (map vp_grant ps)"

definition ok_keep :: "stored_keep \<Rightarrow> bool" where
  "ok_keep k \<longleftrightarrow> hex64 (vk_keep k) \<and> hex64 (vk_claimedBy k) \<and> vk_personas k = map fst (vk_links k)
     \<and> ok_links (vk_links k) \<and> safe_int (vk_rev k) \<and> 0 \<le> vk_rev k \<and> list_all hex64 (vk_seen k)
     \<and> pred_option ok_update (vk_update k) \<and> pred_option hex32 (vk_code k) \<and> safe_int (vk_claimedAt k)
     \<and> pred_option ok_cursors (vk_ackCursors k) \<and> list_all ok_invite (vk_invites k)
     \<and> pred_option ok_passes (vk_passes k) \<and> pred_option ok_settings (vk_settings k)
     \<and> pred_option safe_int (vk_passesRequestedAt k)"

definition ok_keeps :: "stored_keep list \<Rightarrow> bool" where
  "ok_keeps ks \<longleftrightarrow> list_all ok_keep ks \<and> distinct (map vk_keep ks)"

section \<open>The stored object\<close>

definition enc_invite :: "stored_invite \<Rightarrow> jsval" where
  "enc_invite i = obj
     [(''grant'', JStr (vi_grant i)), (''secret'', JStr (vi_secret i)), (''kind'', enc_enum INVITE_KINDS (vi_kind i)),
      (''persona'', enc_opt JStr (vi_persona i)), (''gamesFor'', enc_opt JStr (vi_gamesFor i)),
      (''label'', enc_opt JStr (vi_label i)), (''createdAt'', enc_int (vi_createdAt i)),
      (''expiration'', enc_int (vi_expiration i)), (''status'', enc_enum STATUSES (vi_status i)),
      (''reason'', enc_opt (enc_enum KEEP_REFUSAL_REASONS) (vi_reason i)),
      (''revokeSent'', enc_opt JBool (vi_revokeSent i)), (''sentAt'', enc_opt enc_int (vi_sentAt i)),
      (''revokeSentAt'', enc_opt enc_int (vi_revokeSentAt i)), (''ackAt'', enc_opt enc_int (vi_ackAt i))]"

definition enc_pass :: "stored_pass \<Rightarrow> jsval" where
  "enc_pass p = obj
     [(''grant'', JStr (vp_grant p)), (''persona'', JStr (vp_persona p)), (''name'', enc_opt JStr (vp_name p)),
      (''state'', enc_enum KEEP_PASS_STATES (vp_state p)), (''expiration'', enc_int (vp_expiration p)),
      (''seenAt'', enc_int (vp_seenAt p)), (''via'', enc_opt (enc_enum KEEP_PASS_VIAS) (vp_via p)),
      (''reportAt'', enc_int (vp_reportAt p)), (''revokeSent'', enc_opt JBool (vp_revokeSent p)),
      (''revokeSentAt'', enc_opt enc_int (vp_revokeSentAt p))]"

definition enc_settings :: "keep_settings \<Rightarrow> jsval" where
  "enc_settings s = obj
     [(''returnPasses'', JBool (vs_returnPasses s)), (''setrev'', enc_int (vs_setrev s)),
      (''composedAt'', enc_int (vs_composedAt s)), (''sentAt'', enc_int (vs_sentAt s)),
      (''confirmed'', JBool (vs_confirmed s)), (''refusedAt'', enc_opt enc_int (vs_refusedAt s)),
      (''retried'', enc_opt JBool (vs_retried s)), (''failed'', if vs_failed s then JS ''stale'' else JUndef)]"

definition enc_accept :: "owner_accept \<Rightarrow> jsval" where
  "enc_accept a = obj [(''rev'', enc_int (va_rev a)), (''sentAt'', enc_int (va_sentAt a)),
     (''composedAt'', enc_int (va_composedAt a)), (''pending'', enc_opt JBool (va_pending a))]"

definition enc_link :: "persona_link \<Rightarrow> jsval" where
  "enc_link l = obj [(''sections'', enc_list JStr (vl_sections l)), (''addedRev'', enc_opt enc_int (vl_addedRev l)),
     (''active'', JBool (vl_active l)), (''accept'', enc_opt enc_accept (vl_accept l))]"

definition enc_update_persona :: "ustr \<times> ustr list \<Rightarrow> jsval" where
  "enc_update_persona q = (case q of (p, s) \<Rightarrow> obj [(''persona'', JStr p), (''sections'', enc_list JStr s)])"

definition enc_update :: "pending_update \<Rightarrow> jsval" where
  "enc_update w = obj
     [(''rev'', enc_int (vu_rev w)), (''signer'', JStr (vu_signer w)),
      (''personas'', enc_list enc_update_persona (vu_personas w)), (''sentAt'', enc_int (vu_sentAt w)),
      (''composedAt'', enc_int (vu_composedAt w)), (''refusedAt'', enc_opt enc_int (vu_refusedAt w)),
      (''retried'', enc_opt JBool (vu_retried w)), (''failed'', enc_opt (enc_enum UPDATE_FAILURES) (vu_failed w))]"

definition enc_keep :: "stored_keep \<Rightarrow> jsval" where
  "enc_keep k = obj
     [(''keep'', JStr (vk_keep k)), (''name'', JStr (vk_name k)), (''relays'', enc_list JStr (vk_relays k)),
      (''claimedBy'', JStr (vk_claimedBy k)), (''personas'', enc_list JStr (vk_personas k)),
      (''scope'', enc_enum KEEP_SCOPES (vk_scope k)), (''rev'', enc_int (vk_rev k)),
      (''links'', enc_record_of enc_link (vk_links k)), (''seen'', enc_list JStr (vk_seen k)),
      (''update'', enc_opt enc_update (vk_update k)), (''status'', enc_enum KEEP_STATUSES (vk_status k)),
      (''code'', enc_opt JStr (vk_code k)), (''claimedAt'', enc_int (vk_claimedAt k)),
      (''ackCursors'', enc_opt (enc_record_of enc_int) (vk_ackCursors k)),
      (''invites'', enc_list enc_invite (vk_invites k)), (''passes'', enc_opt (enc_list enc_pass) (vk_passes k)),
      (''settings'', enc_opt enc_settings (vk_settings k)),
      (''passesRequestedAt'', enc_opt enc_int (vk_passesRequestedAt k))]"

section \<open>Each part is accepted and read back\<close>

lemma enc_enum_defined [simp]: "enc_enum tbl x \<noteq> JUndef"
  by (simp add: enc_enum_def)

lemma enc_record_defined [simp]: "enc_record_of f m \<noteq> JUndef"
  by (simp add: enc_record_of_def)

lemma opt_or_enc: "(\<And>y. f y \<noteq> JUndef) \<Longrightarrow> opt_or (enc_opt f x) (G (enc_opt f x)) = pred_option (\<lambda>y. G (f y)) x"
  by (simp add: enc_opt_or)

lemma opt_str_enc: "opt_or (enc_opt JStr x) (is_str (enc_opt JStr x) Q) = pred_option Q x"
  by (cases x) (simp_all add: opt_or_def is_str_def)

lemma is_str_JStr [simp]: "is_str (JStr s) Q = Q s" and is_bool_JBool [simp]: "is_bool (JBool b)"
  by (simp_all add: is_str_def is_bool_def)

lemma pred_option_True [simp]: "pred_option (\<lambda>x. True) y"
  by (cases y) simp_all

lemma all_text [simp]: "list_all isText (map JStr ss)" "list_all isHex64 (map JStr ss) = list_all hex64 ss"
  by (induction ss) simp_all

lemma as_text_list [simp]: "as_list as_str (enc_list JStr ss) = Some ss"
  by (rule as_list_enc) simp

lemma as_opt_bool [simp]: "as_opt as_bool (enc_opt JBool b) = Some b"
  by (rule as_opt_enc) simp

lemma as_opt_str [simp]: "as_opt as_str (enc_opt JStr b) = Some b"
  by (rule as_opt_enc) simp

lemma as_opt_int [simp]: "as_opt as_int (enc_opt enc_int b) = Some b"
  by (rule as_opt_enc) simp

lemma as_opt_names [simp]:
  "as_opt (as_enum KEEP_REFUSAL_REASONS) (enc_opt (enc_enum KEEP_REFUSAL_REASONS) r) = Some r"
  "as_opt (as_enum KEEP_PASS_VIAS) (enc_opt (enc_enum KEEP_PASS_VIAS) v) = Some v"
  "as_opt (as_enum UPDATE_FAILURES) (enc_opt (enc_enum UPDATE_FAILURES) f) = Some f"
  by (rule as_opt_enc, simp)+

lemma as_opt_present [simp]: "v \<noteq> JUndef \<Longrightarrow> as_opt f v = map_option Some (f v)"
  by (simp add: as_opt_def)

lemma opt_or_present [simp]: "v \<noteq> JUndef \<Longrightarrow> opt_or v b = b" and opt_or_undef [simp]: "opt_or JUndef b"
  by (simp_all add: opt_or_def)

lemma enc_invite_ok: "isInvite (enc_invite i) \<longleftrightarrow> ok_invite i" "read_invite (enc_invite i) = Some i"
  by (simp_all add: isInvite_def enc_invite_def ok_invite_def opt_or_enc opt_str_enc read_invite_def)

lemma enc_pass_ok: "isPass (enc_pass p) \<longleftrightarrow> ok_pass p" "read_pass (enc_pass p) = Some p"
  by (simp_all add: isPass_def enc_pass_def ok_pass_def opt_or_enc opt_str_enc read_pass_def)

lemma stale_flag: "opt_or (if b then JS ''stale'' else JUndef) ((if b then JS ''stale'' else JUndef) = JS ''stale'')"
  by (simp add: opt_or_def)

lemma enc_settings_ok: "isSettings (enc_settings s) \<longleftrightarrow> ok_settings s" "read_settings (enc_settings s) = Some s"
proof -
  show "isSettings (enc_settings s) \<longleftrightarrow> ok_settings s"
    unfolding isSettings_def enc_settings_def ok_settings_def
    by (simp add: opt_or_enc stale_flag del: if_split)
  show "read_settings (enc_settings s) = Some s"
    by (simp add: enc_settings_def read_settings_def)
qed

lemma enc_accept_ok: "isAccept (enc_accept a) \<longleftrightarrow> ok_accept a" "read_accept t (enc_accept a) = Some a"
  by (simp_all add: isAccept_def enc_accept_def ok_accept_def opt_or_enc read_accept_def)

lemma enc_part_defined [simp]:
  "enc_accept a \<noteq> JUndef" "enc_update w \<noteq> JUndef" "enc_settings s \<noteq> JUndef" "enc_pass p \<noteq> JUndef"
  "enc_link l \<noteq> JUndef"
  by (simp_all add: enc_accept_def enc_update_def enc_settings_def enc_pass_def enc_link_def)

lemma enc_link_ok: "isLink (enc_link l) \<longleftrightarrow> ok_link l" "read_link t (enc_link l) = Some l"
proof -
  have a: "as_opt (read_accept t) (enc_opt enc_accept x) = Some x" for x
    by (rule as_opt_enc) (simp add: enc_accept_ok)
  show "isLink (enc_link l) \<longleftrightarrow> ok_link l" "read_link t (enc_link l) = Some l"
    by (simp_all add: isLink_def enc_link_def ok_link_def opt_or_enc read_link_def isSections_def a enc_accept_ok)
qed

lemma enc_update_ok: "isUpdate (enc_update w) \<longleftrightarrow> ok_update w" "read_update t (enc_update w) = Some w"
proof -
  have r: "as_list read_update_persona (enc_list enc_update_persona qs) = Some qs" for qs
    by (rule as_list_enc) (auto simp: read_update_persona_def enc_update_persona_def)
  have g: "list_all isUpdatePersona (map enc_update_persona qs) = list_all (\<lambda>(p, s). hex64 p) qs" for qs
    by (induction qs) (auto simp: isUpdatePersona_def enc_update_persona_def isSections_def)
  show "isUpdate (enc_update w) \<longleftrightarrow> ok_update w" "read_update t (enc_update w) = Some w"
    by (simp_all add: isUpdate_def enc_update_def ok_update_def opt_or_enc read_update_def r g)
qed

section \<open>A Keep is accepted and read back\<close>

lemma kept_passes_enc:
  "list_all ok_pass ps \<Longrightarrow> distinct (map vp_grant ps) \<Longrightarrow> set grants \<inter> vp_grant ` set ps = {}
     \<Longrightarrow> kept_passes grants (map enc_pass ps) = map enc_pass ps"
proof (induction ps arbitrary: grants)
  case (Cons p ps)
  have "get (enc_pass p) ''grant'' = JStr (vp_grant p)"
    by (simp add: enc_pass_def)
  moreover have "kept_passes (vp_grant p # grants) (map enc_pass ps) = map enc_pass ps"
    using Cons by (intro Cons.IH) auto
  ultimately show ?case
    using Cons.prems by (simp add: enc_pass_ok)
qed simp

lemma enc_passes_field: "get (enc_keep k) ''passes'' = enc_opt (enc_list enc_pass) (vk_passes k)"
  and enc_settings_field: "get (enc_keep k) ''settings'' = enc_opt enc_settings (vk_settings k)"
  and enc_requested_field: "get (enc_keep k) ''passesRequestedAt'' = enc_opt enc_int (vk_passesRequestedAt k)"
  and enc_keep_field: "get (enc_keep k) ''keep'' = JStr (vk_keep k)"
  by (simp_all add: enc_keep_def)

lemma scrub_enc: "ok_keep k \<Longrightarrow> scrubReturnPasses (enc_keep k) = enc_keep k"
proof -
  assume ok: "ok_keep k"
  obtain props where v: "enc_keep k = JObj props"
    by (simp add: enc_keep_def obj_def)
  have "kept_passes [] (map enc_pass ps) = map enc_pass ps" if "vk_passes k = Some ps" for ps
    using ok that by (intro kept_passes_enc) (simp_all add: ok_keep_def ok_passes_def)
  then have "\<not> (case get (enc_keep k) ''passes'' of JUndef \<Rightarrow> False
      | JArr ps \<Rightarrow> length (kept_passes [] ps) \<noteq> length ps | _ \<Rightarrow> True)"
    by (cases "vk_passes k") (simp_all add: enc_passes_field enc_list_def)
  moreover have "opt_or (get (enc_keep k) ''settings'') (isSettings (get (enc_keep k) ''settings''))"
    using ok unfolding enc_settings_field by (simp add: opt_or_enc enc_settings_ok ok_keep_def)
  moreover have "opt_or (get (enc_keep k) ''passesRequestedAt'') (isSafeInt (get (enc_keep k) ''passesRequestedAt''))"
    using ok unfolding enc_requested_field by (simp add: opt_or_enc ok_keep_def)
  ultimately show ?thesis
    unfolding scrubReturnPasses_def Let_def by (subst v, simp only: jsval.case if_True not_False_eq_True simp_thms)
qed

lemma isKeep_enc: "ok_keep k \<Longrightarrow> isKeep (enc_keep k)"
proof -
  assume ok: "ok_keep k"
  have links: "is_record (enc_record_of enc_link (vk_links k)) (\<lambda>p l. hex64 p \<and> isLink l)"
    using ok by (simp add: ok_keep_def ok_links_def enc_link_ok)
  have personas: "list_all isHex64 (map JStr (vk_personas k))"
    using ok by (auto simp: ok_keep_def ok_links_def list_all_iff)
  have cursors: "pred_option (\<lambda>m. is_record (enc_record_of enc_int m) (\<lambda>p t. hex64 p \<and> isSafeInt t)) (vk_ackCursors k)"
    using ok by (cases "vk_ackCursors k") (simp_all add: ok_keep_def ok_cursors_def)
  have passes: "pred_option (\<lambda>ps. list_all isPass (map enc_pass ps)) (vk_passes k)"
    using ok by (cases "vk_passes k") (simp_all add: ok_keep_def ok_passes_def list_all_iff enc_pass_ok)
  have invites: "list_all isInvite (map enc_invite (vk_invites k))"
    using ok by (simp add: ok_keep_def list_all_iff enc_invite_ok)
  have fields: "opt_or (enc_opt (enc_record_of enc_int) (vk_ackCursors k))
      (is_record (enc_opt (enc_record_of enc_int) (vk_ackCursors k)) (\<lambda>p t. hex64 p \<and> isSafeInt t))"
    "opt_or (enc_opt (enc_list enc_pass) (vk_passes k)) (is_arr (enc_opt (enc_list enc_pass) (vk_passes k)) (list_all isPass))"
  proof -
    show "opt_or (enc_opt (enc_record_of enc_int) (vk_ackCursors k))
      (is_record (enc_opt (enc_record_of enc_int) (vk_ackCursors k)) (\<lambda>p t. hex64 p \<and> isSafeInt t))"
      using cursors by (cases "vk_ackCursors k") simp_all
    show "opt_or (enc_opt (enc_list enc_pass) (vk_passes k)) (is_arr (enc_opt (enc_list enc_pass) (vk_passes k)) (list_all isPass))"
      using passes by (cases "vk_passes k") simp_all
  qed
  show ?thesis
    using ok links personas fields invites unfolding isKeep_def isK1dKeep_def
    by (simp add: enc_keep_def ok_keep_def opt_or_enc opt_str_enc enc_update_ok enc_settings_ok)
qed

lemma migrateKeep_enc: "ok_keep k \<Longrightarrow> migrateKeep (enc_keep k) = Some k"
proof -
  assume ok: "ok_keep k"
  have links: "as_record (read_link t) (enc_record_of enc_link (vk_links k)) = Some (vk_links k)" for t
    using ok by (intro as_record_enc) (simp_all add: ok_keep_def ok_links_def enc_link_ok)
  have cursors: "as_opt (as_record as_int) (enc_opt (enc_record_of enc_int) (vk_ackCursors k)) = Some (vk_ackCursors k)"
    using ok by (intro as_opt_enc) (simp add: ok_keep_def ok_cursors_def)
  have passes: "as_opt (as_list read_pass) (enc_opt (enc_list enc_pass) (vk_passes k)) = Some (vk_passes k)"
    by (intro as_opt_enc) (simp add: as_list_enc enc_pass_ok)
  have update: "as_opt (read_update t) (enc_opt enc_update (vk_update k)) = Some (vk_update k)" for t
    by (intro as_opt_enc) (simp add: enc_update_ok)
  have settings: "as_opt read_settings (enc_opt enc_settings (vk_settings k)) = Some (vk_settings k)"
    by (intro as_opt_enc) (simp add: enc_settings_ok)
  have invites: "as_list read_invite (enc_list enc_invite (vk_invites k)) = Some (vk_invites k)"
    by (intro as_list_enc) (simp add: enc_invite_ok)
  have same: "vk_personas k = map fst (vk_links k)"
    using ok by (simp add: ok_keep_def)
  show ?thesis
    unfolding migrateKeep_def
    by (simp add: enc_keep_def links cursors passes update settings invites same [symmetric])
      (cases "vk_ackCursors k"; simp)
qed

lemma parse_stored:
  assumes "ok_keeps ks"
  shows "parseStoredKeeps (JArr (map enc_keep ks)) = Some ks"
proof -
  have s: "map scrubReturnPasses (map enc_keep ks) = map enc_keep ks"
    using assms by (auto simp: ok_keeps_def list_all_iff scrub_enc)
  have "list_all isKeep (map enc_keep ks)"
    using assms by (simp add: ok_keeps_def list_all_iff isKeep_enc)
  moreover have "distinct (map (\<lambda>k. get k ''keep'') (map enc_keep ks))"
    using assms unfolding map_map comp_def enc_keep_field
    by (simp add: ok_keeps_def distinct_map inj_on_def)
  moreover have "those (map migrateKeep (map enc_keep ks)) = Some ks"
    using assms by (intro those_map_Some) (simp add: ok_keeps_def list_all_iff migrateKeep_enc)
  ultimately show ?thesis
    unfolding parseStoredKeeps_def Let_def jsval.case s by simp
qed

section \<open>What is read is within the bounds\<close>

lemma read_invite_yields: "isInvite v \<Longrightarrow> yields (read_invite v) ok_invite"
  unfolding isInvite_def read_invite_def
  by (elim conjE, (rule yields_bind, (erule reads | (erule yields_opt, erule reads)))+, simp add: ok_invite_def)

lemma read_pass_yields: "isPass v \<Longrightarrow> yields (read_pass v) (\<lambda>p. ok_pass p \<and> get v ''grant'' = JStr (vp_grant p))"
proof -
  assume g: "isPass v"
  then have "yields (read_pass v) ok_pass"
    unfolding isPass_def read_pass_def
    by (elim conjE) ((rule yields_bind, (erule reads | (erule yields_opt, erule reads)))+, simp add: ok_pass_def)
  moreover have "get v ''grant'' = JStr (vp_grant p)" if "read_pass v = Some p" for p
  proof -
    obtain h where "get v ''grant'' = JStr h"
      using g by (auto simp: isPass_def is_str_iff)
    then show ?thesis
      using that by (auto simp: read_pass_def bind_eq_Some_conv)
  qed
  ultimately show ?thesis
    by (auto simp: yields_def)
qed

lemma read_settings_yields: "isSettings v \<Longrightarrow> yields (read_settings v) ok_settings"
  unfolding isSettings_def read_settings_def
  by (elim conjE, (rule yields_bind, (erule reads | (erule yields_opt, erule reads)))+, simp add: ok_settings_def)

lemma read_accept_yields: "isAccept v \<Longrightarrow> safe_int t \<Longrightarrow> yields (read_accept t v) ok_accept"
  unfolding isAccept_def read_accept_def
  by (elim conjE, (rule yields_bind, (erule reads | (erule yields_opt, erule reads)))+)
    (auto simp: ok_accept_def split: option.splits)

lemma read_sections: "isSections v \<Longrightarrow> yields (as_list as_str v) (\<lambda>x. True)"
  unfolding isSections_def by (rule yields_mono, erule read_all, erule reads) simp

lemma read_link_yields: "isLink v \<Longrightarrow> safe_int t \<Longrightarrow> yields (read_link t v) ok_link"
  unfolding isLink_def read_link_def
  by (elim conjE, (rule yields_bind, (erule read_sections | erule reads | (erule yields_opt, erule reads)
      | (erule yields_opt, erule read_accept_yields, assumption)))+, simp add: ok_link_def)

lemma read_update_persona_yields: "isUpdatePersona v \<Longrightarrow> yields (read_update_persona v) (\<lambda>(p, s). hex64 p)"
  unfolding isUpdatePersona_def read_update_persona_def
  by (elim conjE, (rule yields_bind, (erule read_sections | erule reads))+, simp)

lemma read_update_yields: "isUpdate v \<Longrightarrow> safe_int t \<Longrightarrow> yields (read_update t v) ok_update"
proof -
  assume v: "isUpdate v" and t: "safe_int t"
  have ps: "yields (as_list read_update_persona (get v ''personas'')) (list_all (\<lambda>(p, s). hex64 p))"
    using v unfolding isUpdate_def by (elim conjE) (erule read_all, erule read_update_persona_yields)
  show ?thesis
    using v t unfolding isUpdate_def read_update_def
    by (elim conjE) ((rule yields_bind, (erule reads | rule ps | (erule yields_opt, erule reads)))+,
      auto simp: ok_update_def split: option.splits)
qed

text \<open>The passes that survive the scrub name each grant once.\<close>

lemma kept_passes_distinct:
  "list_all isPass (kept_passes grants ps) \<and> distinct (map (\<lambda>p. get p ''grant'') (kept_passes grants ps))
     \<and> (\<forall>p \<in> set (kept_passes grants ps). \<forall>g \<in> set grants. get p ''grant'' \<noteq> JStr g)"
proof (induction grants ps rule: kept_passes.induct)
  case (2 grants p ps)
  show ?case
    using "2.IH" by (cases "get p ''grant''") auto
qed simp

lemma kept_passes_all: "length (kept_passes grants ps) = length ps \<Longrightarrow> kept_passes grants ps = ps"
proof (induction grants ps rule: kept_passes.induct)
  case (2 grants p ps)
  have le: "length (kept_passes gs qs) \<le> length qs" for gs qs
    by (induction gs qs rule: kept_passes.induct) (auto split: jsval.splits)
  show ?case
    using 2 le [of grants ps] by (auto split: jsval.splits if_splits)
qed simp

definition one_pass_per_grant :: "jsval \<Rightarrow> bool" where
  "one_pass_per_grant v = (case get v ''passes'' of JArr ps \<Rightarrow> distinct (map (\<lambda>p. get p ''grant'') ps) | _ \<Rightarrow> True)"

lemma fld_rebuilt: "k \<in> S \<Longrightarrow> fld (JObj (filter (\<lambda>(k, x). k \<notin> S) xs @ ys)) k = fld (JObj ys) k"
  by (induction xs) auto

lemma scrubbed_passes:
  "scrubReturnPasses v = v \<and> (\<forall>ps. get v ''passes'' = JArr ps \<longrightarrow> kept_passes [] ps = ps)
   \<or> get (scrubReturnPasses v) ''passes''
        = (case get v ''passes'' of JArr ps \<Rightarrow> JArr (kept_passes [] ps) | _ \<Rightarrow> JUndef)"
proof (cases v)
  case (JObj props)
  let ?changed = "(case get v ''passes'' of JUndef \<Rightarrow> False | JArr ps \<Rightarrow> length (kept_passes [] ps) \<noteq> length ps | _ \<Rightarrow> True)
     \<or> \<not> opt_or (get v ''settings'') (isSettings (get v ''settings''))
     \<or> \<not> opt_or (get v ''passesRequestedAt'') (isSafeInt (get v ''passesRequestedAt''))"
  show ?thesis
  proof (cases ?changed)
    case False
    have "scrubReturnPasses v = v"
      using False unfolding scrubReturnPasses_def Let_def by (subst JObj) (simp only: jsval.case if_True simp_thms)
    moreover have "kept_passes [] ps = ps" if "get v ''passes'' = JArr ps" for ps
      using False that by (intro kept_passes_all) simp
    ultimately show ?thesis
      by blast
  next
    case True
    have "get (scrubReturnPasses v) ''passes'' = fld (JObj
         ((case (case get v ''passes'' of JArr ps \<Rightarrow> Some (kept_passes [] ps) | _ \<Rightarrow> None) of
             Some ps \<Rightarrow> [(u ''passes'', JArr ps)] | None \<Rightarrow> [])
          @ (if get v ''settings'' \<noteq> JUndef \<and> opt_or (get v ''settings'') (isSettings (get v ''settings''))
             then [(u ''settings'', get v ''settings'')] else [])
          @ (if get v ''passesRequestedAt'' \<noteq> JUndef
                \<and> opt_or (get v ''passesRequestedAt'') (isSafeInt (get v ''passesRequestedAt''))
             then [(u ''passesRequestedAt'', get v ''passesRequestedAt'')] else []))) (u ''passes'')"
      using True unfolding scrubReturnPasses_def Let_def
      by (subst (1) JObj) (simp only: jsval.case if_False simp_thms, subst fld_rebuilt, simp add: mirror_fields_def, rule refl)
    then show ?thesis
      by (cases "get v ''passes''") simp_all
  qed
qed (simp_all add: scrubReturnPasses_def)

lemma scrub_passes: "one_pass_per_grant (scrubReturnPasses v)"
  using scrubbed_passes [of v] kept_passes_distinct [of "[]"] unfolding one_pass_per_grant_def
  by (auto split: jsval.splits) (metis kept_passes_distinct)+

lemma read_passes_yields:
  assumes "is_arr v (list_all isPass)" and "v = get w ''passes''" and "one_pass_per_grant w"
  shows "yields (as_list read_pass v) ok_passes"
proof -
  obtain ps where v: "v = JArr ps" and all: "list_all isPass ps"
    using assms(1) by (auto simp: is_arr_iff)
  have d: "distinct (map (\<lambda>p. get p ''grant'') ps)"
    using assms(3) unfolding one_pass_per_grant_def assms(2) [symmetric] v by simp
  have "\<exists>qs. those (map read_pass ps) = Some qs \<and> list_all ok_pass qs
      \<and> map (\<lambda>p. get p ''grant'') ps = map (\<lambda>q. JStr (vp_grant q)) qs"
    using all
  proof (induction ps)
    case (Cons p ps)
    then obtain qs where "those (map read_pass ps) = Some qs" "list_all ok_pass qs"
        "map (\<lambda>p. get p ''grant'') ps = map (\<lambda>q. JStr (vp_grant q)) qs"
      by auto
    moreover obtain q where "read_pass p = Some q" "ok_pass q" "get p ''grant'' = JStr (vp_grant q)"
      using read_pass_yields [of p] Cons.prems by (auto simp: yields_def)
    ultimately show ?case
      by simp
  qed simp
  then obtain qs where "those (map read_pass ps) = Some qs" "list_all ok_pass qs"
      "map (\<lambda>p. get p ''grant'') ps = map (\<lambda>q. JStr (vp_grant q)) qs"
    by blast
  moreover from this d have "distinct (map vp_grant qs)"
    by (simp add: distinct_map inj_on_def)
  ultimately show ?thesis
    using v by (simp add: yields_def ok_passes_def)
qed

lemma read_links_yields:
  "is_record v (\<lambda>p l. hex64 p \<and> isLink l) \<Longrightarrow> safe_int t \<Longrightarrow> yields (as_record (read_link t) v) ok_links"
  by (rule yields_mono, erule read_record [where Kp = hex64 and Q = ok_link])
    (auto simp: ok_links_def intro: read_link_yields)

lemma read_cursors_yields:
  "is_record v (\<lambda>p t. hex64 p \<and> isSafeInt t) \<Longrightarrow> yields (as_record as_int v) ok_cursors"
  by (rule yields_mono, erule read_record [where Kp = hex64 and Q = safe_int]) (auto simp: ok_cursors_def intro: reads)

lemma read_hexes: "is_arr v (list_all isHex64) \<Longrightarrow> yields (as_list as_str v) (list_all hex64)"
  by (erule read_all) (erule reads)

lemma read_texts: "is_arr v (list_all isText) \<Longrightarrow> yields (as_list as_str v) (\<lambda>x. True)"
  by (rule yields_mono, erule read_all, erule reads) simp

lemma read_invites: "is_arr v (list_all isInvite) \<Longrightarrow> yields (as_list read_invite v) (list_all ok_invite)"
  by (erule read_all) (erule read_invite_yields)

lemma as_str_self: "is_str v Q \<Longrightarrow> yields (as_str v) (\<lambda>s. Q s \<and> v = JStr s)"
  by (auto simp: is_str_iff)

lemma legacy_cursors_ok:
  assumes "hex64 cb" and "ok_links m" and "pred_option ok_update w" and "safe_int t"
  shows "ok_cursors (map (\<lambda>p. (p, t)) (uniq (cb # map fst m @ (case w of None \<Rightarrow> [] | Some p \<Rightarrow> [vu_signer p]))))"
proof -
  let ?ps = "cb # map fst m @ (case w of None \<Rightarrow> [] | Some p \<Rightarrow> [vu_signer p])"
  have "\<forall>p \<in> set ?ps. hex64 p"
    using assms by (auto simp: ok_links_def ok_update_def list_all_iff split: option.splits)
  then show ?thesis
    using assms(4) distinct_uniq [of ?ps] set_uniq [of ?ps]
    by (simp add: ok_cursors_def list_all_iff comp_def del: uniq.simps set_uniq distinct_uniq)
qed

lemma claimer_link_ok: "ok_link claimer_link"
  by (simp add: ok_link_def claimer_link_def safe_int_def MAX_SAFE_def)

lemma migrateKeep_yields:
  assumes v: "isKeep v" and one: "one_pass_per_grant v"
  shows "yields (migrateKeep v) (\<lambda>k. ok_keep k \<and> get v ''keep'' = JStr (vk_keep k))"
proof -
  have passes: "opt_or (get v ''passes'') (is_arr (get v ''passes'') (list_all isPass))
      \<Longrightarrow> yields (as_opt (as_list read_pass) (get v ''passes'')) (pred_option ok_passes)"
    by (erule yields_opt, erule read_passes_yields [OF _ refl one])
  show ?thesis
    using v unfolding isKeep_def isK1dKeep_def migrateKeep_def
    apply (elim conjE)
    apply (rule yields_bind, erule as_str_self)
    apply (rule yields_bind, erule reads)
    apply (rule yields_bind, erule read_texts)
    apply (rule yields_bind, erule as_str_self)
    apply (rule yields_bind, erule reads)
    apply (rule yields_bind, erule yields_opt, erule reads)
    apply (rule yields_bind, erule reads)
    apply (rule yields_bind, erule read_invites)
    apply (rule yields_bind, erule yields_opt, erule reads)
    apply (rule yields_bind, erule yields_opt, erule reads)
    apply (rule yields_bind, erule yields_opt, erule read_links_yields, assumption)
    apply (rule yields_bind, erule yields_opt, erule read_hexes)
    apply (rule yields_bind, erule yields_opt, erule read_update_yields, assumption)
    apply (rule yields_bind, erule passes)
    apply (rule yields_bind, erule yields_opt, erule read_settings_yields)
    apply (rule yields_bind, erule yields_opt, erule reads)
    apply (rule yields_bind, erule yields_opt, erule read_cursors_yields)
    apply (rule yields_bind, erule yields_opt, erule reads)
    subgoal premises p for k n rl cb st cd ca iv sc rv ls sn up ps se rq cs legacy
    proof -
      let ?links = "case ls of None \<Rightarrow> [(cb, claimer_link)] | Some m \<Rightarrow> m"
      have cb: "hex64 cb" and ca: "safe_int ca" and up: "pred_option ok_update up" and ls: "pred_option ok_links ls"
        and cs: "pred_option ok_cursors cs" and legacy: "pred_option safe_int legacy"
        and rv: "pred_option (\<lambda>n. safe_int n \<and> 0 \<le> n) rv" and sn: "pred_option (list_all hex64) sn"
        using p by blast+
      have l: "ok_links ?links"
        using ls cb by (cases ls) (simp_all add: ok_links_def claimer_link_ok)
      have "pred_option ok_cursors (case cs of Some m \<Rightarrow> Some m | None \<Rightarrow> map_option (\<lambda>t. map (\<lambda>q. (q, t))
          (uniq (cb # map fst ?links @ (case up of None \<Rightarrow> [] | Some w \<Rightarrow> [vu_signer w])))) legacy)"
        using cs legacy legacy_cursors_ok [OF cb l up] by (cases cs; cases legacy) simp_all
      moreover have "case rv of None \<Rightarrow> True | Some r \<Rightarrow> safe_int r \<and> 0 \<le> r"
        using rv by (cases rv) simp_all
      moreover have "list_all hex64 (case sn of None \<Rightarrow> [cb] | Some s \<Rightarrow> s)"
        using sn cb by (cases sn) simp_all
      ultimately show ?thesis
        using l p unfolding Let_def yields_Some ok_keep_def by (cases rv) (simp_all add: safe_int_def MAX_SAFE_def)
    qed
    done
qed

lemma those_yields:
  assumes "\<And>v. v \<in> set vs \<Longrightarrow> yields (f v) (\<lambda>k. P k \<and> key v = JStr (name k))"
  shows "\<exists>ks. those (map f vs) = Some ks \<and> list_all P ks \<and> map key vs = map (\<lambda>k. JStr (name k)) ks"
  using assms
proof (induction vs)
  case (Cons v vs)
  then obtain ks where "those (map f vs) = Some ks" "list_all P ks" "map key vs = map (\<lambda>k. JStr (name k)) ks"
    by auto
  moreover obtain k where "f v = Some k" "P k" "key v = JStr (name k)"
    using Cons.prems [of v] by (auto simp: yields_def)
  ultimately show ?case
    by simp
qed simp

definition well_formed_row :: "jsval \<Rightarrow> bool" where
  "well_formed_row raw = is_arr raw (\<lambda>vs. list_all isKeep (map scrubReturnPasses vs)
     \<and> distinct (map (\<lambda>k. get k ''keep'') (map scrubReturnPasses vs)))"

lemma parse_ok: "well_formed_row raw \<Longrightarrow> \<exists>ks. parseStoredKeeps raw = Some ks \<and> ok_keeps ks"
proof -
  assume "well_formed_row raw"
  then obtain vs where raw: "raw = JArr vs" and all: "list_all isKeep (map scrubReturnPasses vs)"
    and d: "distinct (map (\<lambda>k. get k ''keep'') (map scrubReturnPasses vs))"
    by (auto simp: well_formed_row_def is_arr_iff)
  have "yields (migrateKeep v) (\<lambda>k. ok_keep k \<and> get v ''keep'' = JStr (vk_keep k))"
    if "v \<in> set (map scrubReturnPasses vs)" for v
    using that all by (intro migrateKeep_yields) (auto simp: list_all_iff scrub_passes)
  then obtain ks where ks: "those (map migrateKeep (map scrubReturnPasses vs)) = Some ks" "list_all ok_keep ks"
      "map (\<lambda>k. get k ''keep'') (map scrubReturnPasses vs) = map (\<lambda>k. JStr (vk_keep k)) ks"
    using those_yields [of "map scrubReturnPasses vs" migrateKeep ok_keep "\<lambda>k. get k ''keep''" vk_keep] by blast
  have "distinct (map vk_keep ks)"
    using d unfolding ks(3) by (simp add: distinct_map inj_on_def)
  then show ?thesis
    using raw all d ks by (simp add: parseStoredKeeps_def Let_def ok_keeps_def)
qed

text \<open>
  Whatever the decrypted row is, either it is refused because it is not a list of
  well-formed records that name each Keep once (after the scrub of the passes), or what is read is
  within the bounds of the stored records and, written again as it is used, is read back exactly:
  a list that was read can always be read again, and passing through an older record loses nothing.
\<close>

lemma keeps_read_back:
  "case parseStoredKeeps raw of
     None \<Rightarrow> \<not> well_formed_row raw
   | Some ks \<Rightarrow> ok_keeps ks \<and> parseStoredKeeps (JArr (map enc_keep ks)) = Some ks"
proof (cases "well_formed_row raw")
  case True
  then obtain ks where "parseStoredKeeps raw = Some ks" "ok_keeps ks"
    using parse_ok by blast
  then show ?thesis
    by (simp add: parse_stored)
next
  case False
  then have "parseStoredKeeps raw = None"
    unfolding parseStoredKeeps_def well_formed_row_def by (cases raw) (auto simp: Let_def is_arr_def)
  then show ?thesis
    using False by simp
qed

end
