(* ===== verification/Keep_Messages.thy ===== *)
theory Keep_Messages
  imports Keep_Types
begin

text \<open>
  The messages between the app and a Keep (\<open>lib/keep-messages.ts\<close>): the rumors it sends, with the
  checks that throw, and the strict readers of an ack and of a pass report. Sealing, wrapping and the
  signature checks are calls into the Nostr library; a rumor is read as the JSON object they give.
\<close>

section \<open>What is sent\<close>

record rumor =
  ru_kind :: int
  ru_tags :: "ustr list list"

text \<open>The builders leave out the author and the time, which the backend in hand supplies; \<open>None\<close> is the error thrown.\<close>

definition int_digits :: "int \<Rightarrow> ustr" where
  "int_digits n = (if n < 0 then 45 # nat_text (nat (- n)) else nat_text (nat n))"

definition claimRumor :: "ustr \<Rightarrow> ustr \<Rightarrow> keep_scope option \<Rightarrow> rumor" where
  "claimRumor keep code scope = \<lparr>ru_kind = KEEP_MSG_CLAIM_KIND,
     ru_tags = [ [u ''keep'', keep], [u ''code'', code]]
       @ (case scope of None \<Rightarrow> [] | Some s \<Rightarrow> [ [u ''scope'', name_in KEEP_SCOPES s]])\<rparr>"

definition section_unit :: "nat \<Rightarrow> bool" where
  "section_unit c \<longleftrightarrow> (97 \<le> c \<and> c \<le> 122) \<or> (48 \<le> c \<and> c \<le> 57) \<or> c = 95 \<or> c = 45"

definition SECTION_NAME :: "ustr \<Rightarrow> bool" where
  "SECTION_NAME s \<longleftrightarrow> 1 \<le> length s \<and> length s \<le> 32 \<and> list_all section_unit s"

definition ownersUpdateRumor :: "ustr \<Rightarrow> int \<Rightarrow> (ustr \<times> ustr list) list \<Rightarrow> rumor option" where
  "ownersUpdateRumor keep n personas =
     (if \<not> hex64 keep \<or> n < 1 \<or> n > KEEP_MAX_REV then None
      else if length personas < 1 \<or> length personas > KEEP_MAX_OWNER_PERSONAS then None
      else if \<not> distinct (map fst personas) then None
      else if \<not> list_all (\<lambda>(p, s). hex64 p \<and> list_all SECTION_NAME s) personas then None
      else Some \<lparr>ru_kind = KEEP_MSG_OWNERS_KIND,
        ru_tags = [ [u ''keep'', keep], [u ''rev'', int_digits n]]
          @ map (\<lambda>(p, s). u ''persona'' # p # s) personas\<rparr>)"

definition ownerAcceptRumor :: "ustr \<Rightarrow> int \<Rightarrow> rumor option" where
  "ownerAcceptRumor keep n =
     (if \<not> hex64 keep \<or> n < 1 \<or> n > KEEP_MAX_REV then None
      else Some \<lparr>ru_kind = KEEP_MSG_ACCEPT_KIND, ru_tags = [ [u ''keep'', keep], [u ''rev'', int_digits n]]\<rparr>)"

definition inviteRumor ::
  "ustr \<Rightarrow> ustr \<Rightarrow> ustr \<Rightarrow> int \<Rightarrow> ustr option \<Rightarrow> bool \<Rightarrow> ustr option \<Rightarrow> rumor option" where
  "inviteRumor keep grant secret expiration persona guest label =
     (let named = (persona \<noteq> None \<and> persona \<noteq> Some []);
          name = sanitizeDisplayName (case label of None \<Rightarrow> [] | Some l \<Rightarrow> l) KEEP_INVITE_LABEL_MAX
      in if \<not> hex64 keep \<or> \<not> hex32 grant \<or> \<not> hex64 secret then None
         else if \<not> safe_int expiration \<or> expiration \<le> 0 then None
         else if named = guest then None
         else if named \<and> \<not> pred_option hex64 persona then None
         else Some \<lparr>ru_kind = KEEP_MSG_INVITE_KIND,
           ru_tags = [ [u ''keep'', keep], [u ''grant'', grant], [u ''secret'', secret],
               [u ''expiration'', int_digits expiration],
               (case persona of Some (c # p) \<Rightarrow> [u ''p'', c # p] | _ \<Rightarrow> [u ''guest''])]
             @ (if name = [] then [] else [ [u ''name'', name]])\<rparr>)"

definition revokeRumor :: "ustr \<Rightarrow> ustr \<Rightarrow> rumor option" where
  "revokeRumor keep grant =
     (if \<not> hex64 keep \<or> \<not> hex32 grant then None
      else Some \<lparr>ru_kind = KEEP_MSG_REVOKE_KIND, ru_tags = [ [u ''keep'', keep], [u ''grant'', grant]]\<rparr>)"

definition settingsRumor :: "ustr \<Rightarrow> int \<Rightarrow> bool \<Rightarrow> rumor option" where
  "settingsRumor keep setrev on =
     (if \<not> hex64 keep \<or> setrev < 1 \<or> setrev > KEEP_MAX_REV then None
      else Some \<lparr>ru_kind = KEEP_MSG_SETTINGS_KIND,
        ru_tags = [ [u ''keep'', keep], [u ''setrev'', int_digits setrev],
          [KEEP_SETTING_RETURN_PASSES, if on then u ''on'' else u ''off'']]\<rparr>)"

definition passesRequestRumor :: "ustr \<Rightarrow> rumor option" where
  "passesRequestRumor keep =
     (if \<not> hex64 keep then None
      else Some \<lparr>ru_kind = KEEP_MSG_PASSES_REQUEST_KIND, ru_tags = [ [u ''keep'', keep]]\<rparr>)"

section \<open>Tags\<close>

text \<open>A tag whose elements are all text; \<open>t[i]\<close> past the end is \<open>undefined\<close>.\<close>

definition text_tag :: "jsval \<Rightarrow> ustr list option" where
  "text_tag t = (case t of JArr xs \<Rightarrow> those (map (\<lambda>x. case x of JStr s \<Rightarrow> Some s | _ \<Rightarrow> None) xs) | _ \<Rightarrow> None)"

definition nth_text :: "ustr list \<Rightarrow> nat \<Rightarrow> ustr option" where
  "nth_text t i = (if i < length t then Some (t ! i) else None)"

definition named_tags :: "ustr list list \<Rightarrow> string \<Rightarrow> ustr list list" where
  "named_tags tags name = filter (\<lambda>t. nth_text t 0 = Some (u name)) tags"

definition single_tag :: "ustr list list \<Rightarrow> string \<Rightarrow> ustr list option" where
  "single_tag tags name = (case named_tags tags name of [t] \<Rightarrow> Some t | _ \<Rightarrow> None)"

text \<open>\<open>single(tags, name)?.[1]\<close>.\<close>

definition tag_text :: "ustr list list \<Rightarrow> string \<Rightarrow> ustr option" where
  "tag_text tags name = Option.bind (single_tag tags name) (\<lambda>t. nth_text t 1)"

definition table_value :: "(string \<times> 'a) list \<Rightarrow> ustr option \<Rightarrow> 'a option" where
  "table_value tbl s = Option.bind s (\<lambda>t. map_of (map (\<lambda>(k, x). (u k, x)) tbl) t)"

text \<open>\<open>/^(0|[1-9]\d{0,15})$/\<close>, and its value when it is a safe integer. Up to sixteen digits are exact
  below \<open>2^53\<close>, and rounding never brings a larger number below that.\<close>

definition DECIMAL :: "ustr \<Rightarrow> bool" where
  "DECIMAL s \<longleftrightarrow> s = u ''0'' \<or> (is_digits s \<and> length s \<le> 16 \<and> hd s \<noteq> 48)"

definition parseSafeDecimal :: "ustr option \<Rightarrow> int option" where
  "parseSafeDecimal text = Option.bind text (\<lambda>s.
     if DECIMAL s \<and> int (dec_val s) \<le> MAX_SAFE then Some (int (dec_val s)) else None)"

definition parseRev :: "ustr option \<Rightarrow> int option" where
  "parseRev text = Option.bind (parseSafeDecimal text) (\<lambda>n. if n < MAX_SAFE then Some n else None)"

section \<open>An ack\<close>

definition kind_is :: "jsval \<Rightarrow> int \<Rightarrow> bool" where
  "kind_is rumor k \<longleftrightarrow> get rumor ''kind'' = enc_int k"

definition safe_time :: "jsval \<Rightarrow> int option" where
  "safe_time rumor = (if isSafeInt (get rumor ''created_at'') then as_int (get rumor ''created_at'') else None)"

text \<open>The tags an ack is read from: those that are lists of texts; the others are passed over.\<close>

definition readable_tags :: "jsval \<Rightarrow> ustr list list option" where
  "readable_tags rumor = (case get rumor ''tags'' of
     JArr ts \<Rightarrow> Some (concat (map (\<lambda>t. case text_tag t of None \<Rightarrow> [] | Some x \<Rightarrow> [x]) ts)) | _ \<Rightarrow> None)"

definition plain_ack :: "ustr \<Rightarrow> ack_status \<Rightarrow> int \<Rightarrow> keep_ack" where
  "plain_ack keep status t =
     \<lparr>ak_keep = keep, ak_status = status, ak_grant = None, ak_claim = False, ak_reason = None, ak_time = t,
      ak_owners = False, ak_rev = None, ak_to = None, ak_settings = False, ak_setrev = None\<rparr>"

definition settings_ack :: "ustr list list \<Rightarrow> ustr \<Rightarrow> ack_status \<Rightarrow> int \<Rightarrow> keep_ack option" where
  "settings_ack tags keep status t =
     (if single_tag tags ''setrev'' = None \<or> tag_text tags ''rev'' \<noteq> None \<or> single_tag tags ''grant'' \<noteq> None
         \<or> single_tag tags ''claim'' \<noteq> None then None
      else case parseRev (tag_text tags ''setrev'') of
        None \<Rightarrow> None
      | Some n \<Rightarrow>
          if status = Ack_updated then
            (if tag_text tags ''setting'' \<noteq> Some KEEP_SETTING_RETURN_PASSES then None
             else Some (plain_ack keep status t\<lparr>ak_settings := True, ak_setrev := Some n\<rparr>))
          else if status = Ack_refused \<and> tag_text tags ''reason'' = Some (u ''stale'')
            then Some (plain_ack keep status t\<lparr>ak_settings := True, ak_setrev := Some n, ak_reason := Some Bad_stale\<rparr>)
          else None)"

definition owners_ack :: "ustr list list \<Rightarrow> ustr \<Rightarrow> ack_status \<Rightarrow> int \<Rightarrow> keep_ack option" where
  "owners_ack tags keep status t =
     (let n = parseRev (tag_text tags ''rev'')
      in if status = Ack_updated \<or> status = Ack_pending then
           (if n = None \<or> single_tag tags ''claim'' \<noteq> None then None
            else Some (plain_ack keep status t\<lparr>ak_owners := True, ak_rev := n\<rparr>))
         else case table_value KEEP_REFUSAL_REASONS (tag_text tags ''reason'') of
             None \<Rightarrow> None
           | Some r \<Rightarrow>
               if r = Bad_stale \<and> n = None then None
               else Some (plain_ack keep status t\<lparr>ak_owners := True, ak_reason := Some r, ak_rev := n\<rparr>))"

definition grant_ack :: "ustr list list \<Rightarrow> ustr \<Rightarrow> ack_status \<Rightarrow> int \<Rightarrow> keep_ack option" where
  "grant_ack tags keep status t =
     (let grant = tag_text tags ''grant'';
          reason = table_value KEEP_REFUSAL_REASONS (tag_text tags ''reason'')
      in if status = Ack_paired then
           (if single_tag tags ''claim'' = None then None
            else Some (plain_ack keep status t\<lparr>ak_claim := True\<rparr>))
         else if single_tag tags ''claim'' \<noteq> None \<and> single_tag tags ''grant'' = None then None
         else if \<not> (case grant of None \<Rightarrow> False | Some g \<Rightarrow> hex32 g) then None
         else if status = Ack_refused \<and> reason = None then None
         else Some (plain_ack keep status t\<lparr>ak_grant := grant,
           ak_reason := (if status = Ack_refused then reason else None)\<rparr>))"

definition parseAckRumor :: "jsval \<Rightarrow> ustr \<Rightarrow> keep_ack option" where
  "parseAckRumor rumor keep =
     (if \<not> kind_is rumor KEEP_MSG_ACK_KIND then None
      else case readable_tags rumor of
        None \<Rightarrow> None
      | Some tags \<Rightarrow>
          if tag_text tags ''keep'' \<noteq> Some keep then None
          else (case table_value KEEP_ACK_STATUSES (tag_text tags ''status'') of
             None \<Rightarrow> None
           | Some status \<Rightarrow>
               (case safe_time rumor of
                  None \<Rightarrow> None
                | Some t \<Rightarrow>
                    if named_tags tags ''setrev'' \<noteq> [] \<or> named_tags tags ''setting'' \<noteq> []
                    then settings_ack tags keep status t
                    else if status = Ack_updated \<or> status = Ack_pending
                        \<or> (status = Ack_refused \<and> single_tag tags ''grant'' = None \<and> single_tag tags ''claim'' = None)
                    then owners_ack tags keep status t
                    else grant_ack tags keep status t)))"

section \<open>A pass report\<close>

definition MAX_REPORT_TAGS :: nat where
  "MAX_REPORT_TAGS = 16"

definition report_tags :: "jsval \<Rightarrow> ustr list list option" where
  "report_tags rumor = (case get rumor ''tags'' of
     JArr ts \<Rightarrow> if length ts > MAX_REPORT_TAGS then None
                else (case those (map text_tag ts) of
                        None \<Rightarrow> None
                      | Some tags \<Rightarrow> if [] \<in> set tags then None else Some tags)
   | _ \<Rightarrow> None)"

definition parsePassReportRumor :: "jsval \<Rightarrow> ustr \<Rightarrow> keep_report option" where
  "parsePassReportRumor rumor keep =
     (if \<not> kind_is rumor KEEP_MSG_PASS_REPORT_KIND then None
      else if get rumor ''content'' \<noteq> JUndef \<and> get rumor ''content'' \<noteq> JStr [] then None
      else case report_tags rumor of
        None \<Rightarrow> None
      | Some tags \<Rightarrow>
          if \<exists>t \<in> set tags. lower (hd t) = u ''secret'' then None
          else (case (safe_time rumor, tag_text tags ''grant'', tag_text tags ''p'',
                  table_value KEEP_PASS_STATES (tag_text tags ''state''),
                  parseSafeDecimal (tag_text tags ''expiration''), parseSafeDecimal (tag_text tags ''seen'')) of
             (Some t, Some grant, Some persona, Some state, Some expiration, Some seen) \<Rightarrow>
               if tag_text tags ''keep'' \<noteq> Some keep then None
               else if \<not> hex32 grant \<or> \<not> hex64 persona then None
               else if length (named_tags tags ''via'') > 1 \<or> length (named_tags tags ''name'') > 1 then None
               else (let name = sanitizeDisplayName
                           (case tag_text tags ''name'' of None \<Rightarrow> [] | Some n \<Rightarrow> n) KEEP_INVITE_LABEL_MAX
                     in Some \<lparr>kr_keep = keep, kr_grant = grant, kr_persona = persona, kr_state = state,
                          kr_expiration = expiration, kr_seen = seen,
                          kr_via = table_value KEEP_PASS_VIAS (tag_text tags ''via''),
                          kr_name = (if name = [] then None else Some name), kr_time = t\<rparr>)
           | _ \<Rightarrow> None))"

text \<open>
  What a rumor from a known Keep holds, once the seal has been opened and checked; acks of owners
  and settings messages carry the persona they were addressed to.
\<close>

definition read_rumor :: "jsval \<Rightarrow> ustr \<Rightarrow> ustr \<Rightarrow> keep_message option" where
  "read_rumor rumor keep persona =
     (if kind_is rumor KEEP_MSG_PASS_REPORT_KIND then map_option Report (parsePassReportRumor rumor keep)
      else map_option (\<lambda>a. Ack (if ak_owners a \<or> ak_settings a then a\<lparr>ak_to := Some persona\<rparr> else a))
             (parseAckRumor rumor keep))"

end
