(* ===== verification/Keep_Store.thy ===== *)
theory Keep_Store
  imports Keep_Codec
begin

text \<open>
  The state changes of \<open>lib/keep-store.ts\<close>: claiming and re-pairing a Keep, invites and their
  revokes, the acks of both, return passes and their reports, the return-passes switch, and the
  cursors of the reads. Every change is a function on the list of stored Keeps, or on one of them.
\<close>

section \<open>The list\<close>

definition findKeep :: "stored_keep list \<Rightarrow> ustr \<Rightarrow> stored_keep option" where
  "findKeep ks keep = find (\<lambda>k. vk_keep k = keep) ks"

definition withKeep :: "stored_keep list \<Rightarrow> stored_keep \<Rightarrow> stored_keep list" where
  "withKeep ks k' =
     (if \<exists>k \<in> set ks. vk_keep k = vk_keep k' then map (\<lambda>k. if vk_keep k = vk_keep k' then k' else k) ks
      else ks @ [k'])"

text \<open>The element an earlier \<open>find\<close> returned, replaced (the code compares by reference).\<close>

fun update_first :: "('a \<Rightarrow> bool) \<Rightarrow> 'a \<Rightarrow> 'a list \<Rightarrow> 'a list" where
  "update_first P y [] = []"
| "update_first P y (x # xs) = (if P x then y # xs else x # update_first P y xs)"

section \<open>Claiming\<close>

definition newPendingKeep ::
  "ustr \<Rightarrow> ustr \<Rightarrow> ustr list \<Rightarrow> ustr \<Rightarrow> ustr \<Rightarrow> int \<Rightarrow> keep_scope \<Rightarrow> stored_keep" where
  "newPendingKeep keep name relays claimedBy code now scope =
     \<lparr>vk_keep = keep, vk_name = name, vk_relays = relays, vk_claimedBy = claimedBy,
      vk_personas = [claimedBy], vk_scope = scope, vk_rev = 0, vk_links = [(claimedBy, claimer_link)],
      vk_seen = [claimedBy], vk_update = None, vk_status = Keep_pending, vk_code = Some code,
      vk_claimedAt = now, vk_ackCursors = None, vk_invites = [], vk_passes = None, vk_settings = None,
      vk_passesRequestedAt = None\<rparr>"

definition restartedSettings :: "keep_settings \<Rightarrow> int \<Rightarrow> keep_settings" where
  "restartedSettings s now =
     \<lparr>vs_returnPasses = vs_returnPasses s, vs_setrev = vs_setrev s, vs_composedAt = now, vs_sentAt = 0,
      vs_confirmed = False, vs_refusedAt = None, vs_retried = None, vs_failed = False\<rparr>"

text \<open>The revision of an update, 0 when there is none.\<close>

definition update_rev :: "stored_keep \<Rightarrow> int" where
  "update_rev k = (case vk_update k of None \<Rightarrow> 0 | Some w \<Rightarrow> vu_rev w)"

definition repaired_links :: "stored_keep \<Rightarrow> (ustr \<times> persona_link) list" where
  "repaired_links k =
     (let claimer = vk_claimedBy k;
          mine = (case map_of (vk_links k) claimer of
                    None \<Rightarrow> claimer_link
                  | Some l \<Rightarrow> \<lparr>vl_sections = vl_sections l,
                      vl_addedRev = Some (case vl_addedRev l of None \<Rightarrow> 0 | Some r \<Rightarrow> r),
                      vl_active = True, vl_accept = None\<rparr>)
      in (claimer, mine) # map (\<lambda>(p, l). (p, l\<lparr>vl_accept := None, vl_active := False\<rparr>))
           (filter (\<lambda>(p, l). p \<noteq> claimer) (vk_links k)))"

definition repaired_invite :: "stored_invite \<Rightarrow> stored_invite" where
  "repaired_invite i =
     (if vi_gamesFor i \<noteq> None \<and> vi_gamesFor i \<noteq> Some [] \<and> vi_status i \<noteq> Inv_revoked \<and> vi_status i \<noteq> Inv_refused
         \<and> \<not> flagged (vi_revokeSent i)
      then i\<lparr>vi_status := Inv_waiting, vi_sentAt := Some 0\<rparr> else i)"

definition repairKeep ::
  "stored_keep \<Rightarrow> ustr \<Rightarrow> ustr list \<Rightarrow> ustr \<Rightarrow> int \<Rightarrow> keep_scope option \<Rightarrow> stored_keep" where
  "repairKeep k name relays code now scope =
     k\<lparr>vk_name := name, vk_relays := relays, vk_code := Some code, vk_status := Keep_pending,
       vk_claimedAt := now, vk_scope := (case scope of None \<Rightarrow> vk_scope k | Some s \<Rightarrow> s),
       vk_ackCursors := None, vk_update := None, vk_passesRequestedAt := None,
       vk_settings := map_option (\<lambda>s. restartedSettings s now) (vk_settings k),
       vk_rev := max (vk_rev k) (update_rev k),
       vk_personas := map fst (repaired_links k), vk_links := repaired_links k,
       vk_seen := (if vk_claimedBy k \<in> set (vk_seen k) then vk_seen k else vk_seen k @ [vk_claimedBy k]),
       vk_invites := map repaired_invite (vk_invites k)\<rparr>"

section \<open>Invites\<close>

definition isExpired :: "stored_invite \<Rightarrow> int \<Rightarrow> bool" where
  "isExpired i now \<longleftrightarrow> vi_expiration i \<le> now"

definition withInvite :: "stored_keep \<Rightarrow> stored_invite \<Rightarrow> stored_keep" where
  "withInvite k i = k\<lparr>vk_invites := filter (\<lambda>j. vi_grant j \<noteq> vi_grant i) (vk_invites k) @ [i]\<rparr>"

definition on_invite :: "ustr \<Rightarrow> (stored_invite \<Rightarrow> stored_invite) \<Rightarrow> stored_keep \<Rightarrow> stored_keep" where
  "on_invite g f k = k\<lparr>vk_invites := map (\<lambda>i. if vi_grant i = g then f i else i) (vk_invites k)\<rparr>"

definition markRevokeSent :: "stored_keep \<Rightarrow> ustr \<Rightarrow> int option \<Rightarrow> stored_keep" where
  "markRevokeSent k g now = on_invite g (\<lambda>i. if vi_status i = Inv_revoked then i
     else i\<lparr>vi_revokeSent := Some True,
            vi_revokeSentAt := (case now of None \<Rightarrow> vi_revokeSentAt i | Some t \<Rightarrow> Some t)\<rparr>) k"

definition markInviteSent :: "stored_keep \<Rightarrow> ustr \<Rightarrow> int \<Rightarrow> stored_keep" where
  "markInviteSent k g now = on_invite g (\<lambda>i. i\<lparr>vi_sentAt := Some now\<rparr>) k"

text \<open>\<open>a ?? b ?? c\<close>.\<close>

definition or_else :: "'a option \<Rightarrow> 'a \<Rightarrow> 'a" where
  "or_else x y = (case x of None \<Rightarrow> y | Some z \<Rightarrow> z)"

definition resend_one :: "int \<Rightarrow> stored_invite \<Rightarrow> (stored_invite \<times> bool) list" where
  "resend_one now i =
     (if isExpired i now \<or> vi_status i = Inv_revoked \<or> vi_status i = Inv_refused then []
      else if flagged (vi_revokeSent i) then
        if now - or_else (vi_revokeSentAt i) (or_else (vi_sentAt i) (vi_createdAt i)) > KEEP_RESEND_AFTER_S
        then [(i, True)] else []
      else if vi_status i = Inv_waiting \<and> now - or_else (vi_sentAt i) (vi_createdAt i) > KEEP_RESEND_AFTER_S
        then [(i, False)] else [])"

definition resendDue :: "stored_keep \<Rightarrow> int \<Rightarrow> (stored_invite \<times> bool) list" where
  "resendDue k now =
     (if vk_status k \<noteq> Keep_paired then [] else concat (map (resend_one now) (vk_invites k)))"

section \<open>Acks of claims, invites and revokes\<close>

definition clampAckTime :: "int \<Rightarrow> int \<Rightarrow> int" where
  "clampAckTime t now = min t (now + CLAIM_ACK_SKEW_S)"

text \<open>
  \<open>ack.status as InviteStatus\<close>. Only the four statuses of an invite, revoke or claim ack reach it:
  the parser marks every other ack as one of owners or settings, which goes elsewhere.
\<close>

definition acked_status :: "ack_status \<Rightarrow> invite_status \<Rightarrow> invite_status" where
  "acked_status s old = (case s of Ack_active \<Rightarrow> Inv_active | Ack_revoked \<Rightarrow> Inv_revoked
     | Ack_refused \<Rightarrow> Inv_refused | _ \<Rightarrow> old)"

definition ack_invite :: "keep_ack \<Rightarrow> int \<Rightarrow> stored_invite \<Rightarrow> stored_invite" where
  "ack_invite a t i =
     i\<lparr>vi_ackAt := Some t, vi_status := acked_status (ak_status a) (vi_status i),
       vi_reason := (if ak_status a = Ack_refused then ak_reason a else None),
       vi_revokeSent := (if ak_status a = Ack_revoked then Some False else vi_revokeSent i)\<rparr>"

definition ack_claim :: "keep_ack \<Rightarrow> int \<Rightarrow> stored_keep \<Rightarrow> stored_keep" where
  "ack_claim a t k =
     (if vk_status k = Keep_paired then k
      else if t < vk_claimedAt k - CLAIM_ACK_SKEW_S then k
      else k\<lparr>vk_code := None, vk_status := Keep_paired\<rparr>)"

definition ack_pass :: "keep_ack \<Rightarrow> stored_keep \<Rightarrow> stored_keep" where
  "ack_pass a k =
     (case vk_passes k of
        None \<Rightarrow> k
      | Some ps \<Rightarrow>
          (case find (\<lambda>p. Some (vp_grant p) = ak_grant a) ps of
             None \<Rightarrow> k
           | Some p \<Rightarrow>
               if ak_status a \<noteq> Ack_revoked \<or> vp_state p = Pass_revoked then k
               else k\<lparr>vk_passes := Some (update_first (\<lambda>q. Some (vp_grant q) = ak_grant a)
                        (p\<lparr>vp_state := Pass_revoked, vp_revokeSent := Some False\<rparr>) ps)\<rparr>))"

definition ack_keep :: "keep_ack \<Rightarrow> int \<Rightarrow> stored_keep \<Rightarrow> stored_keep" where
  "ack_keep a now k =
     (let t = clampAckTime (ak_time a) now
      in if ak_claim a then ack_claim a t k
         else (case find (\<lambda>i. Some (vi_grant i) = ak_grant a) (vk_invites k) of
             None \<Rightarrow> ack_pass a k
           | Some i \<Rightarrow>
               if vi_status i = Inv_revoked then k
               else if ak_status a \<noteq> Ack_revoked \<and> (case vi_ackAt i of None \<Rightarrow> False | Some s \<Rightarrow> t < clampAckTime s now)
               then k
               else on_invite (vi_grant i) (\<lambda>j. ack_invite a t i) k))"

text \<open>
  The change of the one Keep a message names; the list as it is when that Keep is not stored. The
  stored list names each Keep once, so a Keep replaced by itself is the list unchanged.
\<close>

definition at_keep :: "stored_keep list \<Rightarrow> ustr \<Rightarrow> (stored_keep \<Rightarrow> stored_keep) \<Rightarrow> stored_keep list" where
  "at_keep ks keep f = (case findKeep ks keep of None \<Rightarrow> ks | Some k \<Rightarrow> withKeep ks (f k))"

definition applyAck :: "stored_keep list \<Rightarrow> keep_ack \<Rightarrow> int \<Rightarrow> stored_keep list" where
  "applyAck ks a now = at_keep ks (ak_keep a) (ack_keep a now)"

section \<open>Return passes\<close>

definition passIsDead :: "stored_pass \<Rightarrow> int \<Rightarrow> bool" where
  "passIsDead p now \<longleftrightarrow> vp_state p = Pass_expired \<or> (vp_state p = Pass_active \<and> vp_expiration p \<le> now)"

definition isPassActive :: "stored_pass \<Rightarrow> int \<Rightarrow> bool" where
  "isPassActive p now \<longleftrightarrow> vp_state p = Pass_active \<and> vp_expiration p > now"

definition passRevokeGivenUp :: "stored_pass \<Rightarrow> int \<Rightarrow> bool" where
  "passRevokeGivenUp p now \<longleftrightarrow> flagged (vp_revokeSent p) \<and> vp_state p \<noteq> Pass_revoked
     \<and> now - vp_expiration p \<ge> KEEP_PASS_REVOKE_WINDOW_S"

definition passes_of :: "stored_keep \<Rightarrow> stored_pass list" where
  "passes_of k = or_else (vk_passes k) []"

definition returningPlayers :: "stored_keep \<Rightarrow> int \<Rightarrow> stored_pass list" where
  "returningPlayers k now =
     sort_key (\<lambda>p. - vp_seenAt p)
       (filter (\<lambda>p. vp_state p \<noteq> Pass_revoked \<and> \<not> passRevokeGivenUp p now
                  \<and> (isPassActive p now \<or> flagged (vp_revokeSent p))) (passes_of k))"

text \<open>\<open>report.name ? \<dots> : found?.name ? \<dots>\<close>: an empty name counts as none.\<close>

definition given_name :: "ustr option \<Rightarrow> ustr option \<Rightarrow> ustr option" where
  "given_name new old = (if new \<noteq> None \<and> new \<noteq> Some [] then new else if old = Some [] then None else old)"

definition reported_pass :: "keep_report \<Rightarrow> int \<Rightarrow> stored_pass option \<Rightarrow> stored_pass" where
  "reported_pass r t old =
     (let waits = (case old of None \<Rightarrow> False | Some p \<Rightarrow> flagged (vp_revokeSent p) \<and> kr_state r \<noteq> Pass_revoked)
      in \<lparr>vp_grant = kr_grant r, vp_persona = kr_persona r,
          vp_name = given_name (kr_name r) (Option.bind old vp_name),
          vp_state = kr_state r, vp_expiration = kr_expiration r, vp_seenAt = kr_seen r,
          vp_via = (case kr_via r of None \<Rightarrow> Option.bind old vp_via | Some v \<Rightarrow> Some v), vp_reportAt = t,
          vp_revokeSent = (if waits then Some True else None),
          vp_revokeSentAt = (if waits then Option.bind old vp_revokeSentAt else None)\<rparr>)"

text \<open>The pass thrown out of a full list: the oldest report of those picked.\<close>

definition evict :: "(stored_pass \<Rightarrow> bool) \<Rightarrow> stored_pass list \<Rightarrow> stored_pass list" where
  "evict pick ps =
     (case sort_key vp_reportAt (filter pick ps) of [] \<Rightarrow> ps | victim # rest \<Rightarrow> remove1 victim ps)"

definition make_room :: "int \<Rightarrow> stored_pass list \<Rightarrow> stored_pass list" where
  "make_room now ps =
     (if length ps < KEEP_MAX_PASSES then ps
      else let ps' = evict (\<lambda>p. passIsDead p now) ps
           in if length ps' < KEEP_MAX_PASSES then ps' else evict (\<lambda>p. vp_state p = Pass_revoked) ps')"

definition report_pass :: "keep_report \<Rightarrow> int \<Rightarrow> stored_keep \<Rightarrow> stored_keep" where
  "report_pass r now k =
     (if \<not> (safe_int (kr_expiration r) \<and> safe_int (kr_seen r) \<and> safe_int (kr_time r)) \<or> kr_expiration r < 0 \<or> kr_seen r < 0
      then k
      else
        (let t = clampAckTime (kr_time r) now; ps = passes_of k; same = (\<lambda>p. vp_grant p = kr_grant r)
         in case find same ps of
              Some p \<Rightarrow>
                if vp_persona p \<noteq> kr_persona r \<or> vp_state p = Pass_revoked then k
                else if t < vp_reportAt p then
                  (if kr_state r \<noteq> Pass_revoked then k
                   else k\<lparr>vk_passes := Some (update_first same (p\<lparr>vp_state := Pass_revoked, vp_revokeSent := None\<rparr>) ps)\<rparr>)
                else if reported_pass r t (Some p) = p then k
                else k\<lparr>vk_passes := Some (update_first same (reported_pass r t (Some p)) ps)\<rparr>
            | None \<Rightarrow>
                if length (make_room now ps) < KEEP_MAX_PASSES
                then k\<lparr>vk_passes := Some (make_room now ps @ [reported_pass r t None])\<rparr> else k))"

definition applyPassReport :: "stored_keep list \<Rightarrow> keep_report \<Rightarrow> int \<Rightarrow> stored_keep list" where
  "applyPassReport ks r now = at_keep ks (kr_keep r) (report_pass r now)"

definition markPassRevokeSent :: "stored_keep \<Rightarrow> ustr \<Rightarrow> int \<Rightarrow> stored_keep" where
  "markPassRevokeSent k g now =
     k\<lparr>vk_passes := Some (map (\<lambda>p. if vp_grant p = g \<and> vp_state p \<noteq> Pass_revoked
         then p\<lparr>vp_revokeSent := Some True, vp_revokeSentAt := Some now\<rparr> else p) (passes_of k))\<rparr>"

definition passRevokesDue :: "stored_keep \<Rightarrow> int \<Rightarrow> stored_pass list" where
  "passRevokesDue k now =
     (if vk_status k \<noteq> Keep_paired then []
      else filter (\<lambda>p. flagged (vp_revokeSent p) \<and> vp_state p \<noteq> Pass_revoked \<and> \<not> passRevokeGivenUp p now
                     \<and> now - or_else (vp_revokeSentAt p) 0 > KEEP_RESEND_AFTER_S) (passes_of k))"

definition lastReportAt :: "stored_keep \<Rightarrow> int" where
  "lastReportAt k = fold (\<lambda>p m. max m (vp_reportAt p)) (passes_of k) 0"

definition passesRequestDue :: "stored_keep \<Rightarrow> int \<Rightarrow> bool \<Rightarrow> bool" where
  "passesRequestDue k now opening =
     (if vk_status k \<noteq> Keep_paired then False
      else let requested = or_else (vk_passesRequestedAt k) 0; last = lastReportAt k
           in if opening then now - requested > KEEP_RESEND_AFTER_S
              else last > 0 \<and> now - max last requested > KEEP_PASSES_REQUEST_AFTER_S)"

definition markPassesRequested :: "stored_keep \<Rightarrow> int \<Rightarrow> stored_keep" where
  "markPassesRequested k now = k\<lparr>vk_passesRequestedAt := Some now\<rparr>"

section \<open>The return-passes switch\<close>

definition returnPassesOn :: "stored_keep \<Rightarrow> bool" where
  "returnPassesOn k = (case vk_settings k of None \<Rightarrow> True | Some s \<Rightarrow> vs_returnPasses s)"

definition setrev_of :: "stored_keep \<Rightarrow> int" where
  "setrev_of k = (case vk_settings k of None \<Rightarrow> 0 | Some s \<Rightarrow> vs_setrev s)"

definition canComposeSettings :: "stored_keep \<Rightarrow> bool" where
  "canComposeSettings k \<longleftrightarrow> setrev_of k < MAX_SAFE - 1"

text \<open>\<open>None\<close> is the \<open>RangeError\<close>.\<close>

definition composeSettings :: "stored_keep \<Rightarrow> bool \<Rightarrow> int \<Rightarrow> stored_keep option" where
  "composeSettings k on now =
     (if \<not> canComposeSettings k then None
      else Some (k\<lparr>vk_settings := Some \<lparr>vs_returnPasses = on, vs_setrev = setrev_of k + 1, vs_composedAt = now,
        vs_sentAt = 0, vs_confirmed = False, vs_refusedAt = None, vs_retried = None, vs_failed = False\<rparr>\<rparr>))"

definition markSettingsSent :: "stored_keep \<Rightarrow> int \<Rightarrow> stored_keep" where
  "markSettingsSent k now = k\<lparr>vk_settings := map_option (\<lambda>s. s\<lparr>vs_sentAt := now\<rparr>) (vk_settings k)\<rparr>"

definition settingsDue :: "stored_keep \<Rightarrow> int \<Rightarrow> bool" where
  "settingsDue k now \<longleftrightarrow> vk_status k = Keep_paired
     \<and> (case vk_settings k of None \<Rightarrow> False
        | Some s \<Rightarrow> \<not> vs_confirmed s \<and> \<not> vs_failed s \<and> now - vs_sentAt s > KEEP_RESEND_AFTER_S)"

text \<open>The new settings an ack gives, or \<open>None\<close> when it changes nothing.\<close>

definition ack_settings :: "keep_ack \<Rightarrow> int \<Rightarrow> keep_settings \<Rightarrow> int \<Rightarrow> keep_settings option" where
  "ack_settings a r s now =
     (if ak_status a = Ack_updated then
        (if r \<noteq> vs_setrev s \<or> vs_confirmed s \<or> vs_failed s then None else Some (s\<lparr>vs_confirmed := True\<rparr>))
      else if ak_status a \<noteq> Ack_refused \<or> ak_reason a \<noteq> Some Bad_stale \<or> vs_confirmed s \<or> vs_failed s then None
      else if r < vs_setrev s then None
      else if (case vs_refusedAt s of None \<Rightarrow> False | Some t \<Rightarrow> ak_time a \<le> t) then None
      else if flagged (vs_retried s) \<or> r \<ge> MAX_SAFE - 1
        then Some (s\<lparr>vs_refusedAt := Some (ak_time a), vs_failed := True\<rparr>)
      else Some \<lparr>vs_returnPasses = vs_returnPasses s, vs_setrev = r + 1, vs_composedAt = now, vs_sentAt = 0,
             vs_confirmed = False, vs_refusedAt = Some (ak_time a), vs_retried = Some True, vs_failed = False\<rparr>)"

definition settings_keep :: "keep_ack \<Rightarrow> int \<Rightarrow> stored_keep \<Rightarrow> stored_keep" where
  "settings_keep a now k =
     (case (vk_settings k, ak_setrev a) of
        (Some s, Some r) \<Rightarrow>
          if \<not> ak_settings a then k
          else if ak_time a < vk_claimedAt k - CLAIM_ACK_SKEW_S \<or> ak_time a < vs_composedAt s - CLAIM_ACK_SKEW_S then k
          else (case ack_settings a r s now of None \<Rightarrow> k | Some s' \<Rightarrow> k\<lparr>vk_settings := Some s'\<rparr>)
      | _ \<Rightarrow> k)"

definition applySettingsAck :: "stored_keep list \<Rightarrow> keep_ack \<Rightarrow> int \<Rightarrow> stored_keep list" where
  "applySettingsAck ks a now = at_keep ks (ak_keep a) (settings_keep a now)"

section \<open>Read cursors\<close>

text \<open>\<open>Math.min\<close> of no numbers is \<open>Infinity\<close>: \<open>None\<close>.\<close>

definition ackReadSince :: "stored_keep list \<Rightarrow> ustr \<Rightarrow> int \<Rightarrow> int option" where
  "ackReadSince ks persona now =
     (case map (\<lambda>k. case Option.bind (vk_ackCursors k) (\<lambda>m. map_of m persona) of
                 None \<Rightarrow> now - KEEP_ACK_FIRST_LOOKBACK_S | Some c \<Rightarrow> c - KEEP_ACK_BACKDATE_S) ks of
        [] \<Rightarrow> None | t # ts \<Rightarrow> Some (fold min ts t))"

text \<open>The newest wrap time of each Keep and persona that was read, capped at \<open>now\<close>.\<close>

definition newest_read ::
  "(ustr \<times> ustr \<times> int) list \<Rightarrow> int \<Rightarrow> (ustr \<times> (ustr \<times> int) list) list" where
  "newest_read reads now =
     fold (\<lambda>(keep, persona, wrapAt) newest.
        let byPersona = or_else (map_of newest keep) [];
            t = (case map_of byPersona persona of None \<Rightarrow> min wrapAt now | Some old \<Rightarrow> max old (min wrapAt now))
        in AList.update keep (AList.update persona t byPersona) newest) reads []"

definition advance_cursors :: "(ustr \<times> int) list \<Rightarrow> stored_keep \<Rightarrow> stored_keep" where
  "advance_cursors found k =
     k\<lparr>vk_ackCursors := fold (\<lambda>(persona, t) cursors.
         case Option.bind cursors (\<lambda>m. map_of m persona) of
           Some c \<Rightarrow> if c \<ge> t then cursors else Some (AList.update persona t (or_else cursors []))
         | None \<Rightarrow> Some (AList.update persona t (or_else cursors []))) found (vk_ackCursors k)\<rparr>"

definition advanceAckCursors ::
  "stored_keep list \<Rightarrow> (ustr \<times> ustr \<times> int) list \<Rightarrow> int \<Rightarrow> stored_keep list" where
  "advanceAckCursors ks reads now =
     map (\<lambda>k. case map_of (newest_read reads now) (vk_keep k) of
              None \<Rightarrow> k | Some found \<Rightarrow> advance_cursors found k) ks"

end
