(* ===== verification/Keep_Owners.thy ===== *)
theory Keep_Owners
  imports Keep_Store
begin

text \<open>
  The owner personas of a Keep (\<open>lib/keep-owners.ts\<close>): who is linked and confirmed, the update of
  the list with its revision, the acks of updates and accepts, and the games invites that follow
  from the list. A link is read for the personas of the Keep; these are always the keys of the links
  (\<open>withLinks\<close>, \<open>migrateKeep\<close>).
\<close>

section \<open>Who is an owner\<close>

definition isActiveOwner :: "stored_keep \<Rightarrow> ustr \<Rightarrow> bool" where
  "isActiveOwner k p \<longleftrightarrow> (case map_of (vk_links k) p of None \<Rightarrow> False | Some l \<Rightarrow> vl_active l)"

definition activeOwners :: "stored_keep \<Rightarrow> ustr list" where
  "activeOwners k = filter (isActiveOwner k) (vk_personas k)"

definition isLinked :: "stored_keep \<Rightarrow> ustr \<Rightarrow> bool" where
  "isLinked k p \<longleftrightarrow> map_of (vk_links k) p \<noteq> None"

definition gamesOn :: "stored_keep \<Rightarrow> ustr \<Rightarrow> bool" where
  "gamesOn k p \<longleftrightarrow> (case map_of (vk_links k) p of None \<Rightarrow> False | Some l \<Rightarrow> KEEP_SECTION_GAMES \<in> set (vl_sections l))"

definition pickSigner :: "stored_keep \<Rightarrow> (ustr \<Rightarrow> bool) \<Rightarrow> ustr option \<Rightarrow> ustr option" where
  "pickSigner k canSign prefer =
     find (\<lambda>p. p \<noteq> [] \<and> isActiveOwner k p \<and> canSign p)
       ((case prefer of None \<Rightarrow> [] | Some p \<Rightarrow> [p]) @ vk_claimedBy k # activeOwners k)"

definition withLinks :: "stored_keep \<Rightarrow> (ustr \<times> persona_link) list \<Rightarrow> stored_keep" where
  "withLinks k m = k\<lparr>vk_links := m, vk_personas := map fst m\<rparr>"

section \<open>Changing the list\<close>

definition last_rev :: "stored_keep \<Rightarrow> int" where
  "last_rev k = max (vk_rev k) (update_rev k)"

definition canCompose :: "stored_keep \<Rightarrow> bool" where
  "canCompose k \<longleftrightarrow> last_rev k < MAX_SAFE"

definition composed_link :: "int \<Rightarrow> int \<Rightarrow> persona_link \<Rightarrow> persona_link" where
  "composed_link r now l =
     l\<lparr>vl_accept := (if vl_active l then None
          else Some \<lparr>va_rev = r, va_sentAt = 0, va_composedAt = now, va_pending = None\<rparr>),
       vl_addedRev := Some (or_else (vl_addedRev l) r)\<rparr>"

text \<open>
  \<open>composeUpdate\<close>: \<open>None\<close> is the \<open>RangeError\<close>, or the \<open>TypeError\<close> of reading the link of a persona
  that has none. The links are built anew in the order of the personas.
\<close>

definition composeUpdate :: "stored_keep \<Rightarrow> ustr \<Rightarrow> int \<Rightarrow> stored_keep option" where
  "composeUpdate k signer now =
     (if \<not> canCompose k then None
      else let r = last_rev k + 1
           in case those (map (\<lambda>p. map_option (Pair p) (map_of (vk_links k) p)) (vk_personas k)) of
                None \<Rightarrow> None
              | Some old \<Rightarrow>
                  let m = fold (\<lambda>(p, l) m. AList.update p (composed_link r now l) m) old []
                  in Some ((withLinks k m)\<lparr>vk_update := Some
                       \<lparr>vu_rev = r, vu_signer = signer,
                        vu_personas = map (\<lambda>p. (p, case map_of m p of None \<Rightarrow> [] | Some l \<Rightarrow> vl_sections l)) (vk_personas k),
                        vu_sentAt = 0, vu_composedAt = now,
                        vu_refusedAt = Option.bind (vk_update k) vu_refusedAt,
                        vu_retried = None, vu_failed = None\<rparr>\<rparr>))"

definition note_seen :: "ustr \<Rightarrow> stored_keep \<Rightarrow> stored_keep" where
  "note_seen p k = (if p \<in> set (vk_seen k) then k else k\<lparr>vk_seen := vk_seen k @ [p]\<rparr>)"

definition linkPersona :: "stored_keep \<Rightarrow> ustr \<Rightarrow> stored_keep option" where
  "linkPersona k p =
     (if isLinked k p \<or> length (vk_personas k) \<ge> KEEP_MAX_OWNER_PERSONAS then None
      else Some (note_seen p (withLinks k (AList.update p
             \<lparr>vl_sections = [KEEP_SECTION_GAMES], vl_addedRev = None, vl_active = False, vl_accept = None\<rparr> (vk_links k)))))"

definition canUnlink :: "stored_keep \<Rightarrow> ustr \<Rightarrow> bool" where
  "canUnlink k p \<longleftrightarrow> isLinked k p \<and> (\<exists>q \<in> set (activeOwners k). q \<noteq> p)"

definition unlinkPersona :: "stored_keep \<Rightarrow> ustr \<Rightarrow> stored_keep option" where
  "unlinkPersona k p =
     (if \<not> canUnlink k p then None
      else Some (note_seen p (withLinks k (filter (\<lambda>(q, l). q \<noteq> p) (vk_links k)))))"

definition setSection :: "stored_keep \<Rightarrow> ustr \<Rightarrow> ustr \<Rightarrow> bool \<Rightarrow> stored_keep option" where
  "setSection k p section on =
     (case map_of (vk_links k) p of
        None \<Rightarrow> None
      | Some l \<Rightarrow>
          if (section \<in> set (vl_sections l)) = on then None
          else Some (withLinks k (AList.update p
                 (l\<lparr>vl_sections := (if on then vl_sections l @ [section]
                                   else filter (\<lambda>s. s \<noteq> section) (vl_sections l))\<rparr>) (vk_links k))))"

section \<open>What the Keep tells us\<close>

text \<open>The update is in: accepts the Keep held are sent again.\<close>

definition resent_accept :: "persona_link \<Rightarrow> persona_link" where
  "resent_accept l = (case vl_accept l of
     None \<Rightarrow> l
   | Some a \<Rightarrow> if flagged (va_pending a) then l\<lparr>vl_accept := Some (a\<lparr>va_sentAt := 0, va_pending := None\<rparr>)\<rparr> else l)"

definition update_done :: "stored_keep \<Rightarrow> stored_keep" where
  "update_done k = withLinks (k\<lparr>vk_update := None\<rparr>) (map (\<lambda>(p, l). (p, resent_accept l)) (vk_links k))"

definition raise_rev :: "int \<Rightarrow> stored_keep \<Rightarrow> stored_keep" where
  "raise_rev r k = k\<lparr>vk_rev := max (vk_rev k) r\<rparr>"

definition answers_update :: "keep_ack \<Rightarrow> ustr \<Rightarrow> pending_update \<Rightarrow> bool" where
  "answers_update a to w \<longleftrightarrow> vu_signer w = to \<and> vu_failed w = None \<and> ak_time a \<ge> vu_composedAt w - CLAIM_ACK_SKEW_S"

definition on_updated :: "keep_ack \<Rightarrow> ustr \<Rightarrow> int \<Rightarrow> stored_keep \<Rightarrow> stored_keep" where
  "on_updated a to r k =
     (let next = raise_rev r k; link = map_of (vk_links k) to
      in if (case vk_update k of None \<Rightarrow> False | Some w \<Rightarrow> answers_update a to w \<and> r = vu_rev w) then update_done next
         else (case link of
             None \<Rightarrow> next
           | Some l \<Rightarrow> (case vl_accept l of
               None \<Rightarrow> next
             | Some c \<Rightarrow> if r \<ge> va_rev c \<and> ak_time a \<ge> va_composedAt c - CLAIM_ACK_SKEW_S
                 then withLinks next (AList.update to (l\<lparr>vl_accept := None, vl_active := True\<rparr>) (vk_links next))
                 else next)))"

definition on_pending :: "keep_ack \<Rightarrow> ustr \<Rightarrow> int \<Rightarrow> stored_keep \<Rightarrow> stored_keep" where
  "on_pending a to r k =
     (let next = raise_rev r k
      in case map_of (vk_links k) to of
           None \<Rightarrow> next
         | Some l \<Rightarrow> (case vl_accept l of
             None \<Rightarrow> next
           | Some c \<Rightarrow> if \<not> flagged (va_pending c) \<and> ak_time a \<ge> va_composedAt c - CLAIM_ACK_SKEW_S
               then withLinks next (AList.update to (l\<lparr>vl_accept := Some (c\<lparr>va_pending := Some True\<rparr>)\<rparr>) (vk_links next))
               else next))"

definition fail_update :: "update_failure \<Rightarrow> pending_update \<Rightarrow> stored_keep \<Rightarrow> stored_keep" where
  "fail_update f w k = k\<lparr>vk_update := Some (w\<lparr>vu_failed := Some f\<rparr>)\<rparr>"

text \<open>A refusal of our update. The outer \<open>None\<close> is an exception of \<open>composeUpdate\<close>.\<close>

definition on_refused :: "keep_ack \<Rightarrow> ustr \<Rightarrow> int \<Rightarrow> stored_keep \<Rightarrow> stored_keep option" where
  "on_refused a to now k =
     (case vk_update k of
        None \<Rightarrow> Some k
      | Some w \<Rightarrow>
          if \<not> answers_update a to w \<or> (case vu_refusedAt w of None \<Rightarrow> False | Some t \<Rightarrow> ak_time a \<le> t) then Some k
          else (let seen = w\<lparr>vu_refusedAt := Some (ak_time a)\<rparr>
                in case (ak_reason a, ak_rev a) of
                     (Some Bad_stale, Some r) \<Rightarrow>
                       if r < vu_rev w then Some k
                       else let next = (raise_rev r k)\<lparr>vk_update := Some seen\<rparr>
                            in if flagged (vu_retried w) then Some (fail_update Fail_stale seen next)
                               else if \<not> canCompose next then Some (fail_update Fail_stale seen next)
                               else map_option (\<lambda>again. again\<lparr>vk_update := map_option (\<lambda>w. w\<lparr>vu_retried := Some True\<rparr>) (vk_update again)\<rparr>)
                                      (composeUpdate next (vu_signer w) now)
                   | (Some Bad_too_many, _) \<Rightarrow> Some (fail_update Fail_too_many seen k)
                   | (Some Bad_malformed, _) \<Rightarrow> Some (fail_update Fail_malformed seen k)
                   | _ \<Rightarrow> Some k))"

definition owners_keep :: "keep_ack \<Rightarrow> int \<Rightarrow> stored_keep \<Rightarrow> stored_keep option" where
  "owners_keep a now k =
     (case ak_to a of
        None \<Rightarrow> Some k
      | Some to \<Rightarrow>
          if \<not> ak_owners a \<or> to = [] then Some k
          else if ak_time a < vk_claimedAt k - CLAIM_ACK_SKEW_S then Some k
          else if (case ak_rev a of None \<Rightarrow> False | Some r \<Rightarrow> \<not> (safe_int r \<and> r < MAX_SAFE)) then Some k
          else (case (ak_status a, ak_rev a) of
             (Ack_updated, Some r) \<Rightarrow> Some (on_updated a to r k)
           | (Ack_pending, Some r) \<Rightarrow> Some (on_pending a to r k)
           | (Ack_refused, _) \<Rightarrow> on_refused a to now k
           | _ \<Rightarrow> Some k))"

definition applyOwnersAck :: "stored_keep list \<Rightarrow> keep_ack \<Rightarrow> int \<Rightarrow> stored_keep list option" where
  "applyOwnersAck ks a now =
     (case findKeep ks (ak_keep a) of
        None \<Rightarrow> Some ks
      | Some k \<Rightarrow> map_option (withKeep ks) (owners_keep a now k))"

section \<open>What is due\<close>

record owners_due =
  due_update :: bool
  due_accepts :: "ustr list"

definition accept_of :: "stored_keep \<Rightarrow> ustr \<Rightarrow> owner_accept option" where
  "accept_of k p = Option.bind (map_of (vk_links k) p) vl_accept"

definition ownersDue :: "stored_keep \<Rightarrow> int \<Rightarrow> owners_due" where
  "ownersDue k now =
     (if vk_status k \<noteq> Keep_paired then \<lparr>due_update = False, due_accepts = []\<rparr>
      else \<lparr>due_update = (case vk_update k of None \<Rightarrow> False
               | Some w \<Rightarrow> vu_failed w = None \<and> now - vu_sentAt w > KEEP_RESEND_AFTER_S),
            due_accepts = (if vk_update k \<noteq> None then []
               else filter (\<lambda>p. case accept_of k p of None \<Rightarrow> False
                                  | Some a \<Rightarrow> now - va_sentAt a > KEEP_RESEND_AFTER_S) (vk_personas k))\<rparr>)"

definition stamp_accept :: "int \<Rightarrow> ustr \<Rightarrow> (ustr \<times> persona_link) list \<Rightarrow> (ustr \<times> persona_link) list" where
  "stamp_accept now p m =
     (case map_of m p of
        None \<Rightarrow> m
      | Some l \<Rightarrow> (case vl_accept l of
          None \<Rightarrow> m
        | Some a \<Rightarrow> AList.update p (l\<lparr>vl_accept := Some (a\<lparr>va_sentAt := now\<rparr>)\<rparr>) m))"

definition markOwnersSent :: "stored_keep \<Rightarrow> owners_due \<Rightarrow> int \<Rightarrow> stored_keep" where
  "markOwnersSent k sent now =
     (let k1 = (if due_update sent then k\<lparr>vk_update := map_option (\<lambda>w. w\<lparr>vu_sentAt := now\<rparr>) (vk_update k)\<rparr> else k)
      in if due_accepts sent = [] then k1
         else withLinks k1 (fold (stamp_accept now) (due_accepts sent) (vk_links k1)))"

section \<open>Games invites of the owner personas\<close>

definition liveInvite :: "int \<Rightarrow> stored_invite \<Rightarrow> bool" where
  "liveInvite now i \<longleftrightarrow> (vi_status i = Inv_waiting \<or> vi_status i = Inv_active) \<and> \<not> flagged (vi_revokeSent i)
     \<and> \<not> isExpired i now"

definition gamesInvitesFor :: "stored_invite list \<Rightarrow> ustr \<Rightarrow> stored_invite list" where
  "gamesInvitesFor is p = filter (\<lambda>i. vi_gamesFor i = Some p) is"

definition longest :: "stored_invite list \<Rightarrow> stored_invite option" where
  "longest is = (case sort_key (\<lambda>i. - vi_expiration i) is of [] \<Rightarrow> None | i # rest \<Rightarrow> Some i)"

definition latest :: "stored_invite list \<Rightarrow> stored_invite option" where
  "latest is = (case sort_key (\<lambda>i. - vi_createdAt i) is of [] \<Rightarrow> None | i # rest \<Rightarrow> Some i)"

definition last_refused :: "stored_invite list \<Rightarrow> bool" where
  "last_refused is \<longleftrightarrow> (case latest is of None \<Rightarrow> False | Some i \<Rightarrow> vi_status i = Inv_refused)"

definition playInvite :: "stored_keep \<Rightarrow> ustr \<Rightarrow> int \<Rightarrow> stored_invite option" where
  "playInvite k p now = longest (filter (\<lambda>i. vi_status i = Inv_active \<and> liveInvite now i) (gamesInvitesFor (vk_invites k) p))"

datatype games_state = Games_off | Games_ready | Games_waiting | Games_refused

definition gamesState :: "stored_keep \<Rightarrow> ustr \<Rightarrow> int \<Rightarrow> games_state" where
  "gamesState k p now =
     (if \<not> gamesOn k p then Games_off
      else let mine = gamesInvitesFor (vk_invites k) p
           in case playInvite k p now of
                Some i \<Rightarrow> if last_refused mine \<and> vi_expiration i - now < KEEP_GAMES_RENEW_BEFORE_S
                          then Games_refused else Games_ready
              | None \<Rightarrow> if \<exists>i \<in> set mine. liveInvite now i then Games_waiting
                        else if last_refused mine then Games_refused else Games_waiting)"

text \<open>
  What a reconciliation is told. The random hex of a new invite is a supply: \<open>rc_fresh n\<close> is the
  grant and the secret of the \<open>n\<close>th invite it makes.
\<close>

record reconcile_context =
  rc_now :: int
  rc_eligible :: "ustr list"
  rc_canSign :: "ustr \<Rightarrow> bool"
  rc_nameOf :: "ustr \<Rightarrow> ustr"
  rc_fresh :: "nat \<Rightarrow> ustr \<times> ustr"

definition GAMES_LABEL_NAME_MAX :: nat where
  "GAMES_LABEL_NAME_MAX = 31"

definition newGamesInvite :: "reconcile_context \<Rightarrow> nat \<Rightarrow> ustr \<Rightarrow> stored_invite" where
  "newGamesInvite C n p =
     \<lparr>vi_grant = fst (rc_fresh C n), vi_secret = snd (rc_fresh C n), vi_kind = Personal, vi_persona = Some p,
      vi_gamesFor = Some p,
      vi_label = Some (concat (take GAMES_LABEL_NAME_MAX (code_points (rc_nameOf C p))) @ u '' (owner)''),
      vi_createdAt = rc_now C, vi_expiration = rc_now C + KEEP_GAMES_INVITE_S, vi_status = Inv_waiting,
      vi_reason = None, vi_revokeSent = None, vi_sentAt = Some 0, vi_revokeSentAt = None, vi_ackAt = None\<rparr>"

definition retryGames :: "stored_keep \<Rightarrow> ustr \<Rightarrow> reconcile_context \<Rightarrow> stored_keep option" where
  "retryGames k p C =
     (if gamesState k p (rc_now C) \<noteq> Games_refused then None
      else Some (k\<lparr>vk_invites := vk_invites k @ [newGamesInvite C 0 p]\<rparr>))"

section \<open>Reconciliation\<close>

text \<open>Step 1: a Keep for all personas links those it has not met.\<close>

definition link_fresh :: "reconcile_context \<Rightarrow> stored_keep \<Rightarrow> stored_keep option" where
  "link_fresh C k =
     (if vk_scope k = All_personas \<and> (case vk_update k of None \<Rightarrow> True | Some w \<Rightarrow> vu_failed w = None) then
        (let room = KEEP_MAX_OWNER_PERSONAS - length (vk_personas k);
             fresh = take room (filter (\<lambda>p. p \<notin> set (vk_seen k) \<and> \<not> isLinked k p) (rc_eligible C));
             first = (vk_rev k = 0 \<and> vk_update k = None);
             signer = (if (fresh \<noteq> [] \<or> first) \<and> canCompose k then pickSigner k (rc_canSign C) None else None)
         in case signer of
              None \<Rightarrow> Some k
            | Some s \<Rightarrow> composeUpdate (fold (\<lambda>p added. or_else (linkPersona added p) added) fresh k) s (rc_now C))
      else Some k)"

definition to_revoke :: "stored_invite \<Rightarrow> stored_invite" where
  "to_revoke i = i\<lparr>vi_revokeSent := Some True, vi_revokeSentAt := Some 0\<rparr>"

definition mark_grant :: "stored_invite \<Rightarrow> stored_invite list \<Rightarrow> stored_invite list" where
  "mark_grant i is = map (\<lambda>j. if vi_grant j = vi_grant i then to_revoke j else j) is"

text \<open>Steps 2 and 3 for one persona, on the invites and the number of invites made so far.\<close>

definition games_step ::
  "reconcile_context \<Rightarrow> stored_keep \<Rightarrow> ustr \<Rightarrow> stored_invite list \<times> nat \<Rightarrow> stored_invite list \<times> nat" where
  "games_step C k p st =
     (case st of (is, n) \<Rightarrow>
        (let now = rc_now C; mine = gamesInvitesFor is p
         in if \<not> gamesOn k p then
              (fold mark_grant (filter (\<lambda>i. vi_status i \<noteq> Inv_revoked \<and> \<not> flagged (vi_revokeSent i)
                   \<and> (vi_status i = Inv_waiting \<or> vi_status i = Inv_active)) mine) is, n)
            else
              (let live = filter (liveInvite now) mine;
                   needs = (\<not> last_refused mine
                     \<and> (case longest live of None \<Rightarrow> True | Some i \<Rightarrow> vi_expiration i - now < KEEP_GAMES_RENEW_BEFORE_S));
                   made = (if needs then (is @ [newGamesInvite C n p], Suc n) else (is, n))
               in case longest (filter (\<lambda>i. vi_status i = Inv_active) live) of
                    None \<Rightarrow> made
                  | Some active \<Rightarrow>
                      if vi_expiration active - now \<ge> KEEP_GAMES_RENEW_BEFORE_S
                      then (fold mark_grant (filter (\<lambda>i. vi_expiration i < vi_expiration active) live) (fst made), snd made)
                      else made)))"

definition games_owners :: "stored_keep \<Rightarrow> ustr list" where
  "games_owners k = uniq (vk_personas k
     @ concat (map (\<lambda>i. case vi_gamesFor i of None \<Rightarrow> [] | Some p \<Rightarrow> if p = [] then [] else [p]) (vk_invites k)))"

definition reconcileKeep :: "stored_keep \<Rightarrow> reconcile_context \<Rightarrow> stored_keep option" where
  "reconcileKeep k C =
     (if vk_status k \<noteq> Keep_paired then Some k
      else map_option (\<lambda>k1. k1\<lparr>vk_invites := fst (fold (games_step C k1) (games_owners k1) (vk_invites k1, 0))\<rparr>)
             (link_fresh C k))"

section \<open>The label\<close>

text \<open>\<open>None\<close> is "All of you"; otherwise the personas to name.\<close>

definition scopeLabel :: "stored_keep \<Rightarrow> ustr list \<Rightarrow> ustr list option" where
  "scopeLabel k accountPersonas =
     (if accountPersonas \<noteq> [] \<and> (\<forall>p \<in> set accountPersonas. isLinked k p) \<and> vk_scope k = All_personas
      then None else Some (vk_personas k))"

end
