(* ===== verification/Keep_Service.thy ===== *)
theory Keep_Service
  imports Keep_Owners Keep_Messages
begin

text \<open>
  What \<open>lib/keep-service.ts\<close> does to the stored list: one function per action, each the \<open>change\<close> it
  hands to \<open>updateStoredKeeps\<close>, which reads, changes and writes the list as one step. Sending is left
  out except for what is to be sent. A change that throws leaves the stored list as it is.
\<close>

section \<open>Claiming\<close>

record pair_link =
  pl_keep :: ustr
  pl_name :: ustr
  pl_relays :: "ustr list"
  pl_code :: ustr

text \<open>\<open>None\<close> is an exception: no key of the persona, or one of \<open>composeUpdate\<close>.\<close>

datatype claim_result = Claim_exists | Claim_other_owner | Claim_new | Claim_repair

definition claimKeep ::
  "stored_keep list \<Rightarrow> pair_link \<Rightarrow> ustr \<Rightarrow> keep_scope \<Rightarrow> (ustr \<Rightarrow> bool) \<Rightarrow> int
     \<Rightarrow> (claim_result \<times> stored_keep list) option" where
  "claimKeep ks link claimedBy scope canSign now =
     (if \<not> canSign claimedBy then None
      else case findKeep ks (pl_keep link) of
        Some k \<Rightarrow>
          if vk_status k = Keep_pending \<and> vk_code k = Some (pl_code link) then Some (Claim_exists, ks)
          else if vk_claimedBy k \<noteq> claimedBy then Some (Claim_other_owner, ks)
          else (let repaired = repairKeep k (pl_name link) (pl_relays link) (pl_code link) now (Some scope)
                in if (vk_scope repaired = All_personas \<or> length (vk_personas repaired) > 1) \<and> canCompose repaired
                   then map_option (\<lambda>k'. (Claim_repair, withKeep ks k')) (composeUpdate repaired claimedBy now)
                   else Some (Claim_repair, withKeep ks repaired))
      | None \<Rightarrow> Some (Claim_new, withKeep ks
          (newPendingKeep (pl_keep link) (pl_name link) (pl_relays link) claimedBy (pl_code link) now scope)))"

section \<open>Invites and passes\<close>

record invite_request =
  iq_kind :: invite_kind
  iq_persona :: "ustr option"
  iq_label :: "ustr option"

definition made_invite :: "invite_request \<Rightarrow> ustr \<Rightarrow> ustr \<Rightarrow> int \<Rightarrow> stored_invite" where
  "made_invite q grant secret now =
     \<lparr>vi_grant = grant, vi_secret = secret, vi_kind = iq_kind q,
      vi_persona = (if iq_kind q = Personal then iq_persona q else None), vi_gamesFor = None,
      vi_label = (if iq_kind q = Personal \<and> iq_label q \<noteq> Some [] then iq_label q else None),
      vi_createdAt = now,
      vi_expiration = now + (if iq_kind q = Guest then KEEP_GUEST_PASS_S else KEEP_PERSONAL_INVITE_S),
      vi_status = Inv_waiting, vi_reason = None, vi_revokeSent = None, vi_sentAt = Some now,
      vi_revokeSentAt = None, vi_ackAt = None\<rparr>"

datatype keep_error = Invalid_invite | Unknown_keep | Persona_unavailable | Not_connected | Not_an_owner
  | Not_linkable | Last_owner | Revision_limit | Exception

definition createInvite ::
  "stored_keep list \<Rightarrow> ustr \<Rightarrow> invite_request \<Rightarrow> ustr option \<Rightarrow> (ustr \<Rightarrow> bool) \<Rightarrow> ustr \<Rightarrow> ustr \<Rightarrow> int
     \<Rightarrow> keep_error + stored_keep list" where
  "createInvite ks keep q actor canSign grant secret now =
     check (iq_kind q = Personal \<longrightarrow> (\<exists>p \<in> set_option (iq_persona q). hex64 p)) Invalid_invite
      (need (findKeep ks keep) Unknown_keep (\<lambda>k.
        need (pickSigner k canSign actor) Persona_unavailable (\<lambda>signer.
          Inr (withKeep ks (withInvite k (made_invite q grant secret now))))))"

text \<open>The caller hands over the Keep and the invite as it has them; the signer is chosen from that copy.\<close>

definition resendInvite ::
  "stored_keep list \<Rightarrow> stored_keep \<Rightarrow> stored_invite \<Rightarrow> ustr option \<Rightarrow> (ustr \<Rightarrow> bool) \<Rightarrow> int \<Rightarrow> keep_error + stored_keep list" where
  "resendInvite ks keep invite actor canSign now =
     need (pickSigner keep canSign actor) Persona_unavailable (\<lambda>signer.
       Inr (at_keep ks (vk_keep keep) (\<lambda>k. markInviteSent k (vi_grant invite) now)))"

text \<open>Marked first; a signer that is missing then only stops the sending.\<close>

definition revokeInvite :: "stored_keep list \<Rightarrow> ustr \<Rightarrow> ustr \<Rightarrow> int \<Rightarrow> stored_keep list" where
  "revokeInvite ks keep grant now = at_keep ks keep (\<lambda>k. markRevokeSent k grant (Some now))"

definition revokePass :: "stored_keep list \<Rightarrow> ustr \<Rightarrow> ustr \<Rightarrow> int \<Rightarrow> stored_keep list" where
  "revokePass ks keep grant now =
     at_keep ks keep (\<lambda>k. if \<exists>p \<in> set (passes_of k). vp_grant p = grant then markPassRevokeSent k grant now else k)"

definition setReturnPasses ::
  "stored_keep list \<Rightarrow> ustr \<Rightarrow> ustr \<Rightarrow> bool \<Rightarrow> (ustr \<Rightarrow> bool) \<Rightarrow> int \<Rightarrow> keep_error + stored_keep list" where
  "setReturnPasses ks keep actor on canSign now =
     check (canSign actor) Persona_unavailable
      (need (findKeep ks keep) Not_connected (\<lambda>k.
        check (vk_status k = Keep_paired) Not_connected
         (check (isActiveOwner k actor) Not_an_owner
          (if returnPassesOn k = on \<and> (case vk_settings k of None \<Rightarrow> True | Some s \<Rightarrow> vs_confirmed s) then Inr ks
           else need (composeSettings k on now) Revision_limit (\<lambda>k'. Inr (withKeep ks k'))))))"

section \<open>Sending what is due\<close>

datatype outgoing = Send_update int "(ustr \<times> ustr list) list" | Send_accept int | Send_invite stored_invite
  | Send_revoke ustr | Send_settings int bool | Send_passes_request

definition stamp_resend :: "int \<Rightarrow> stored_invite \<times> bool \<Rightarrow> stored_keep \<Rightarrow> stored_keep" where
  "stamp_resend now d k = (case d of (i, revoke) \<Rightarrow>
     if revoke then markRevokeSent k (vi_grant i) (Some now) else markInviteSent k (vi_grant i) now)"

text \<open>The messages due for one Keep, each with its signer, and the Keep with the sends noted.\<close>

definition send_due ::
  "(ustr \<Rightarrow> bool) \<Rightarrow> ustr option \<Rightarrow> int \<Rightarrow> stored_keep \<Rightarrow> (ustr \<times> outgoing) list \<times> stored_keep" where
  "send_due canSign openKeep now k =
     (let owners = ownersDue k now;
          upd = (case vk_update k of Some w \<Rightarrow> if due_update owners \<and> canSign (vu_signer w) then Some w else None | None \<Rightarrow> None);
          accepts = filter canSign (due_accepts owners);
          out1 = (case upd of None \<Rightarrow> [] | Some w \<Rightarrow> [(vu_signer w, Send_update (vu_rev w) (vu_personas w))])
            @ concat (map (\<lambda>p. case accept_of k p of None \<Rightarrow> [] | Some a \<Rightarrow> [(p, Send_accept (va_rev a))]) accepts);
          k1 = markOwnersSent k \<lparr>due_update = (upd \<noteq> None), due_accepts = accepts\<rparr> now
      in case pickSigner k canSign None of
           None \<Rightarrow> (out1, k1)
         | Some signer \<Rightarrow>
             (let due = resendDue k now;
                  out2 = map (\<lambda>(i, revoke). (signer, if revoke then Send_revoke (vi_grant i) else Send_invite i)) due;
                  k2 = fold (stamp_resend now) due k1;
                  setting = (if settingsDue k now then vk_settings k else None);
                  out3 = (case setting of None \<Rightarrow> [] | Some s \<Rightarrow> [(signer, Send_settings (vs_setrev s) (vs_returnPasses s))]);
                  k3 = (if setting \<noteq> None then markSettingsSent k2 now else k2);
                  revokes = passRevokesDue k now;
                  out4 = map (\<lambda>p. (signer, Send_revoke (vp_grant p))) revokes;
                  k4 = fold (\<lambda>p k. markPassRevokeSent k (vp_grant p) now) revokes k3;
                  ask = passesRequestDue k now (openKeep = Some (vk_keep k));
                  out5 = (if ask then [(signer, Send_passes_request)] else []);
                  k5 = (if ask then markPassesRequested k4 now else k4)
              in (out1 @ out2 @ out3 @ out4 @ out5, k5)))"

definition resendOutstanding ::
  "stored_keep list \<Rightarrow> (ustr \<Rightarrow> bool) \<Rightarrow> ustr option \<Rightarrow> int \<Rightarrow> (ustr \<times> ustr \<times> outgoing) list \<times> stored_keep list" where
  "resendOutstanding ks canSign openKeep now =
     fold (\<lambda>k (batch, next).
        case send_due canSign openKeep now k of
          ([], k') \<Rightarrow> (batch, next)
        | (out, k') \<Rightarrow> (batch @ map (Pair (vk_keep k)) out, withKeep next k')) ks ([], ks)"

section \<open>Changing the owners\<close>

definition reconcileKeeps :: "stored_keep list \<Rightarrow> reconcile_context \<Rightarrow> stored_keep list option" where
  "reconcileKeeps ks C = those (map (\<lambda>k. reconcileKeep k C) ks)"

datatype owner_change = Link_persona ustr | Unlink_persona ustr | Set_games ustr bool | Retry_update

definition changed_keep :: "stored_keep \<Rightarrow> owner_change \<Rightarrow> stored_keep option" where
  "changed_keep k c = (case c of
       Link_persona p \<Rightarrow> linkPersona k p
     | Unlink_persona p \<Rightarrow> if canUnlink k p then unlinkPersona k p else None
     | Set_games p on \<Rightarrow> setSection k p KEEP_SECTION_GAMES on
     | Retry_update \<Rightarrow> if (case vk_update k of None \<Rightarrow> False | Some w \<Rightarrow> vu_failed w \<noteq> None) then Some k else None)"

definition changeOwners ::
  "stored_keep list \<Rightarrow> ustr \<Rightarrow> ustr \<Rightarrow> owner_change \<Rightarrow> reconcile_context \<Rightarrow> keep_error + stored_keep list" where
  "changeOwners ks keep actor c C =
     check (rc_canSign C actor) Persona_unavailable
      (check (\<forall>p. c = Link_persona p \<longrightarrow> rc_canSign C p) Persona_unavailable
       (need (findKeep ks keep) Not_connected (\<lambda>k.
         check (vk_status k = Keep_paired) Not_connected
          (check (isActiveOwner k actor) Not_an_owner
           (case changed_keep k c of
              None \<Rightarrow> (case c of Link_persona p \<Rightarrow> Inl Not_linkable | Unlink_persona p \<Rightarrow> Inl Last_owner | _ \<Rightarrow> Inr ks)
            | Some k1 \<Rightarrow>
                check (canCompose k1) Revision_limit
                 (need (composeUpdate k1 actor (rc_now C)) Exception (\<lambda>k2.
                   need (reconcileKeep k2 C) Exception (\<lambda>k3. Inr (withKeep ks k3)))))))))"

definition retryGamesInvite ::
  "stored_keep list \<Rightarrow> ustr \<Rightarrow> ustr \<Rightarrow> ustr \<Rightarrow> reconcile_context \<Rightarrow> keep_error + stored_keep list" where
  "retryGamesInvite ks keep actor p C =
     check (rc_canSign C actor) Persona_unavailable
      (need (findKeep ks keep) Not_connected (\<lambda>k.
        check (vk_status k = Keep_paired) Not_connected
         (check (isActiveOwner k actor) Not_an_owner
          (case retryGames k p C of None \<Rightarrow> Inr ks | Some k' \<Rightarrow> Inr (withKeep ks k')))))"

definition forgetKeep :: "stored_keep list \<Rightarrow> ustr \<Rightarrow> stored_keep list" where
  "forgetKeep ks keep = filter (\<lambda>k. vk_keep k \<noteq> keep) ks"

section \<open>Receiving\<close>

definition ackPersonas :: "stored_keep \<Rightarrow> ustr list" where
  "ackPersonas k = uniq (vk_claimedBy k # vk_personas k @ (case vk_update k of None \<Rightarrow> [] | Some w \<Rightarrow> [vu_signer w]))"

definition apply_message :: "int \<Rightarrow> keep_message \<Rightarrow> stored_keep list \<Rightarrow> stored_keep list option" where
  "apply_message now m ks = (case m of
       Report r \<Rightarrow> Some (applyPassReport ks r now)
     | Ack a \<Rightarrow> if ak_settings a then Some (applySettingsAck ks a now)
                else if ak_owners a then applyOwnersAck ks a now else Some (applyAck ks a now))"

definition message_keep :: "keep_message \<Rightarrow> ustr" where
  "message_keep m = (case m of Report r \<Rightarrow> kr_keep r | Ack a \<Rightarrow> ak_keep a)"

text \<open>
  The messages of a read, each with the persona it was addressed to and the time of its wrap, as
  they came out of the checks of the seal.
\<close>

definition applyAckEvents ::
  "stored_keep list \<Rightarrow> (keep_message \<times> ustr \<times> int) list \<Rightarrow> int \<Rightarrow> stored_keep list option" where
  "applyAckEvents ks reads now =
     map_option (\<lambda>ks'. advanceAckCursors ks' (map (\<lambda>(m, persona, wrapAt). (message_keep m, persona, wrapAt)) reads) now)
       (fold_opt (\<lambda>(m, persona, wrapAt). apply_message now m) reads ks)"

end
