(* ===== verification/Keep_Invariant.thy ===== *)
theory Keep_Invariant
  imports Keep_Service
begin

text \<open>
  What every change of the stored Keeps preserves: the bounds that let the list be read back, one
  confirmed owner at least, the revisions of the owners list, the cap on passes. The clock, the acks
  and the reports that reach the changes are within bounds of their own, which the readers ensure.
\<close>

section \<open>Lists and lookups\<close>

lemma findKeep_Some: "findKeep ks keep = Some k \<Longrightarrow> k \<in> set ks \<and> vk_keep k = keep"
  by (auto simp: findKeep_def find_Some_iff)

lemma vk_withKeep: "map vk_keep (withKeep ks k) = (if vk_keep k \<in> vk_keep ` set ks then map vk_keep ks else map vk_keep ks @ [vk_keep k])"
proof -
  have m: "map vk_keep (map (\<lambda>x. if vk_keep x = vk_keep k then k else x) ks) = map vk_keep ks"
    by simp
  have e: "(\<exists>x \<in> set ks. vk_keep x = vk_keep k) \<longleftrightarrow> vk_keep k \<in> vk_keep ` set ks"
    by (auto simp: image_iff eq_commute)
  show ?thesis
    unfolding withKeep_def e using m by (simp del: map_map)
qed

lemma set_withKeep: "k' \<in> set (withKeep ks k) \<Longrightarrow> k' = k \<or> k' \<in> set ks"
  by (auto simp: withKeep_def split: if_splits)

lemma withKeep_all:
  assumes "\<forall>k \<in> set ks. P k" "P k'"
  shows "\<forall>k \<in> set (withKeep ks k'). P k"
  using assms set_withKeep by blast

lemma withKeep_distinct: "distinct (map vk_keep ks) \<Longrightarrow> distinct (map vk_keep (withKeep ks k))"
  unfolding vk_withKeep by auto

lemma at_keep_all:
  assumes "\<forall>k \<in> set ks. P k" and "\<And>k. P k \<Longrightarrow> P (f k)"
  shows "\<forall>k \<in> set (at_keep ks keep f). P k"
proof (cases "findKeep ks keep")
  case (Some k)
  then have "P (f k)"
    using assms findKeep_Some by blast
  then show ?thesis
    using Some withKeep_all [OF assms(1)] by (simp add: at_keep_def)
qed (use assms in \<open>simp add: at_keep_def\<close>)

lemma at_keep_distinct: "distinct (map vk_keep ks) \<Longrightarrow> distinct (map vk_keep (at_keep ks keep f))"
  by (simp add: at_keep_def withKeep_distinct split: option.split)

lemma pred_option_or_else: "pred_option P x \<Longrightarrow> P y \<Longrightarrow> P (or_else x y)"
  by (cases x) (simp_all add: or_else_def)

lemma set_update_first: "x \<in> set (update_first P y xs) \<Longrightarrow> x = y \<or> x \<in> set xs"
  by (induction xs) (auto split: if_splits)

lemma map_update_first:
  "(\<And>x. x \<in> set xs \<Longrightarrow> P x \<Longrightarrow> f x = f y) \<Longrightarrow> map f (update_first P y xs) = map f xs"
  by (induction xs) auto

lemma distinct_map_same:
  "(\<And>x. x \<in> set xs \<Longrightarrow> g (f x) = g x) \<Longrightarrow> distinct (map g xs) \<Longrightarrow> distinct (map g (map f xs))"
proof -
  assume "\<And>x. x \<in> set xs \<Longrightarrow> g (f x) = g x" and d: "distinct (map g xs)"
  then have "map g (map f xs) = map g xs"
    by simp
  with d show ?thesis
    by (simp only:)
qed

lemma length_update_first [simp]: "length (update_first P y xs) = length xs"
  by (induction xs) auto

lemma find_SomeD: "find P xs = Some x \<Longrightarrow> x \<in> set xs \<and> P x"
  by (auto simp: find_Some_iff)

lemma set_AList_update_pair: "(k, v) \<in> set (AList.update p x m) \<Longrightarrow> (k = p \<and> v = x) \<or> (k, v) \<in> set m"
  by (induction m) (auto split: if_splits)

lemma update_all:
  assumes "list_all (\<lambda>(p, l). Q p l) m" "Q p x"
  shows "list_all (\<lambda>(p, l). Q p l) (AList.update p x m)"
  using assms by (induction m) auto

section \<open>Bounds on what comes in\<close>

text \<open>The clock of the device, far from the edge of the safe integers.\<close>

definition clock_ok :: "int \<Rightarrow> bool" where
  "clock_ok now \<longleftrightarrow> 0 \<le> now \<and> now \<le> 2 ^ 52"

lemma clock_safe:
  assumes "clock_ok now" and "0 \<le> d" and "d \<le> 2 ^ 51"
  shows "safe_int (now + d)"
  using assms by (simp add: clock_ok_def safe_int_def MAX_SAFE_def)

lemma clock_safe0 [simp]: "clock_ok now \<Longrightarrow> safe_int now" and safe_zero [simp]: "safe_int 0"
  by (simp_all add: clock_ok_def safe_int_def MAX_SAFE_def)

definition ack_ok :: "keep_ack \<Rightarrow> bool" where
  "ack_ok a \<longleftrightarrow> safe_int (ak_time a) \<and> pred_option (\<lambda>r. 0 \<le> r \<and> r < MAX_SAFE) (ak_rev a)
     \<and> pred_option (\<lambda>r. 0 \<le> r \<and> r < MAX_SAFE) (ak_setrev a) \<and> pred_option hex32 (ak_grant a)
     \<and> (ak_settings a \<longrightarrow> ak_setrev a \<noteq> None \<and> \<not> ak_owners a \<and> \<not> ak_claim a)
     \<and> (ak_owners a \<longrightarrow> \<not> ak_claim a \<and> ak_grant a = None)
     \<and> (\<not> ak_settings a \<and> \<not> ak_owners a \<longrightarrow>
          (if ak_claim a then ak_status a = Ack_paired
           else ak_grant a \<noteq> None \<and> ak_status a \<in> {Ack_active, Ack_revoked, Ack_refused}))"

definition report_ok :: "keep_report \<Rightarrow> bool" where
  "report_ok r \<longleftrightarrow> hex32 (kr_grant r) \<and> hex64 (kr_persona r) \<and> safe_int (kr_expiration r) \<and> 0 \<le> kr_expiration r
     \<and> safe_int (kr_seen r) \<and> 0 \<le> kr_seen r \<and> safe_int (kr_time r)
     \<and> pred_option (\<lambda>n. n \<noteq> [] \<and> length (code_points n) \<le> KEEP_INVITE_LABEL_MAX) (kr_name r)"

fun message_ok :: "ustr \<Rightarrow> keep_message \<Rightarrow> bool" where
  "message_ok keep (Ack a) \<longleftrightarrow> ak_keep a = keep \<and> ack_ok a"
| "message_ok keep (Report r) \<longleftrightarrow> kr_keep r = keep \<and> report_ok r"

lemma parseSafeDecimal_ok: "parseSafeDecimal t = Some n \<Longrightarrow> 0 \<le> n \<and> n \<le> MAX_SAFE \<and> safe_int n"
  by (auto simp: parseSafeDecimal_def bind_eq_Some_conv safe_int_def MAX_SAFE_def split: if_splits)

lemma parseRev_ok: "parseRev t = Some n \<Longrightarrow> 0 \<le> n \<and> n < MAX_SAFE"
  by (auto simp: parseRev_def bind_eq_Some_conv dest: parseSafeDecimal_ok split: if_splits)

lemma safe_time_ok: "safe_time v = Some t \<Longrightarrow> safe_int t"
  by (auto simp: safe_time_def isSafeInt_iff split: if_splits)

lemma plain_ack_simps [simp]:
  "ak_keep (plain_ack keep s t) = keep" "ak_status (plain_ack keep s t) = s" "ak_grant (plain_ack keep s t) = None"
  "ak_claim (plain_ack keep s t) = False" "ak_time (plain_ack keep s t) = t" "ak_owners (plain_ack keep s t) = False"
  "ak_rev (plain_ack keep s t) = None" "ak_settings (plain_ack keep s t) = False" "ak_setrev (plain_ack keep s t) = None"
  by (simp_all add: plain_ack_def)

lemma settings_ack_ok: "settings_ack tags keep s t = Some a \<Longrightarrow> safe_int t \<Longrightarrow> ak_keep a = keep \<and> ack_ok a"
  by (auto simp: settings_ack_def ack_ok_def dest: parseRev_ok split: if_splits option.splits)

lemma owners_ack_ok: "owners_ack tags keep s t = Some a \<Longrightarrow> safe_int t \<Longrightarrow> ak_keep a = keep \<and> ack_ok a"
proof -
  assume a: "owners_ack tags keep s t = Some a" and t: "safe_int t"
  have "pred_option (\<lambda>r. 0 \<le> r \<and> r < MAX_SAFE) (parseRev (tag_text tags ''rev''))"
    using parseRev_ok by (cases "parseRev (tag_text tags ''rev'')") auto
  then show ?thesis
    using a t by (auto simp: owners_ack_def Let_def ack_ok_def split: if_splits option.splits)
qed

lemma grant_ack_ok:
  assumes "grant_ack tags keep s t = Some a" "safe_int t" "s \<noteq> Ack_updated" "s \<noteq> Ack_pending"
  shows "ak_keep a = keep \<and> ack_ok a"
  using assms by (cases s) (auto simp: grant_ack_def Let_def ack_ok_def split: if_splits option.splits)

lemma parseAckRumor_ok:
  assumes "parseAckRumor rumor keep = Some a"
  shows "ak_keep a = keep \<and> ack_ok a \<and> ak_to a = None"
proof -
  obtain tags s t where t: "safe_int t" and cases:
    "settings_ack tags keep s t = Some a \<or> owners_ack tags keep s t = Some a
      \<or> (s \<noteq> Ack_updated \<and> s \<noteq> Ack_pending \<and> grant_ack tags keep s t = Some a)"
    using assms by (auto simp: parseAckRumor_def dest: safe_time_ok split: if_splits option.splits)
  moreover have "ak_to a = None"
    using cases by (auto simp: settings_ack_def owners_ack_def grant_ack_def Let_def plain_ack_def split: if_splits option.splits)
  ultimately show ?thesis
    using settings_ack_ok owners_ack_ok grant_ack_ok by blast
qed

lemma parsePassReportRumor_ok:
  assumes "parsePassReportRumor rumor keep = Some r"
  shows "kr_keep r = keep \<and> report_ok r"
proof -
  have "length (code_points (sanitizeDisplayName s KEEP_INVITE_LABEL_MAX)) \<le> KEEP_INVITE_LABEL_MAX" for s
    by (simp add: sanitizeDisplayName_def capCodePoints_points)
  then show ?thesis
    using assms
    by (auto simp: parsePassReportRumor_def report_ok_def Let_def dest: safe_time_ok parseSafeDecimal_ok
        split: if_splits option.splits)
qed

lemma read_rumor_ok: "read_rumor rumor keep persona = Some m \<Longrightarrow> message_ok keep m"
proof -
  assume m: "read_rumor rumor keep persona = Some m"
  have to: "ack_ok (a\<lparr>ak_to := x\<rparr>) = ack_ok a" for a x
    by (simp add: ack_ok_def)
  show ?thesis
    using m parseAckRumor_ok [of rumor keep] parsePassReportRumor_ok [of rumor keep]
    by (auto simp: read_rumor_def to split: if_splits)
qed

section \<open>The invariant of one Keep\<close>

definition links_inv :: "(ustr \<times> persona_link) list \<Rightarrow> bool" where
  "links_inv m \<longleftrightarrow> ok_links m \<and> (\<forall>(p, l) \<in> set m. vl_active l \<longrightarrow> vl_accept l = None)
     \<and> (\<exists>(p, l) \<in> set m. vl_active l)"

text \<open>Everything but the signer of the update, which a change of the links has to choose anew.\<close>

definition base_inv :: "stored_keep \<Rightarrow> bool" where
  "base_inv k \<longleftrightarrow> ok_keep k \<and> links_inv (vk_links k) \<and> length (passes_of k) \<le> KEEP_MAX_PASSES
     \<and> distinct (map vi_grant (vk_invites k))"

text \<open>A persona that is linked signs for a Keep only once the Keep has confirmed it.\<close>

definition signer_ok :: "stored_keep \<Rightarrow> ustr \<Rightarrow> bool" where
  "signer_ok k s \<longleftrightarrow> hex64 s \<and> (case map_of (vk_links k) s of None \<Rightarrow> True | Some l \<Rightarrow> vl_active l)"

definition inv_keep :: "stored_keep \<Rightarrow> bool" where
  "inv_keep k \<longleftrightarrow> base_inv k \<and> (case vk_update k of None \<Rightarrow> True | Some w \<Rightarrow> signer_ok k (vu_signer w))"

definition inv_keeps :: "stored_keep list \<Rightarrow> bool" where
  "inv_keeps ks \<longleftrightarrow> (\<forall>k \<in> set ks. inv_keep k) \<and> distinct (map vk_keep ks)"

lemma inv_keeps_ok: "inv_keeps ks \<Longrightarrow> ok_keeps ks"
  by (auto simp: inv_keeps_def ok_keeps_def inv_keep_def base_inv_def list_all_iff)

text \<open>A change that leaves links, update, passes and invites alone needs only the bounds of the fields it sets.\<close>

lemma inv_keep_other:
  assumes "inv_keep k" and "ok_keep k'"
    and "vk_links k' = vk_links k" "vk_update k' = vk_update k" "vk_passes k' = vk_passes k" "vk_invites k' = vk_invites k"
  shows "inv_keep k'"
  using assms by (auto simp: inv_keep_def base_inv_def signer_ok_def passes_of_def split: option.splits)

lemma inv_keep_passes:
  assumes "inv_keep k" and "ok_passes ps" and "length ps \<le> KEEP_MAX_PASSES"
  shows "inv_keep (k\<lparr>vk_passes := Some ps\<rparr>)"
  using assms by (auto simp: inv_keep_def base_inv_def signer_ok_def passes_of_def or_else_def ok_keep_def split: option.splits)

lemma inv_keep_invites:
  assumes "inv_keep k" and "list_all ok_invite is" and "distinct (map vi_grant is)"
  shows "inv_keep (k\<lparr>vk_invites := is\<rparr>)"
  using assms by (auto simp: inv_keep_def base_inv_def signer_ok_def passes_of_def ok_keep_def split: option.splits)

lemma inv_keepD:
  assumes "inv_keep k"
  shows "ok_keep k" "links_inv (vk_links k)" "ok_links (vk_links k)" "list_all ok_invite (vk_invites k)"
    "distinct (map vi_grant (vk_invites k))" "ok_passes (passes_of k)" "length (passes_of k) \<le> KEEP_MAX_PASSES"
    "vk_personas k = map fst (vk_links k)" "hex64 (vk_keep k)"
  using assms
  by (auto simp: inv_keep_def base_inv_def links_inv_def ok_keep_def passes_of_def or_else_def ok_passes_def split: option.splits)

section \<open>Invites\<close>

lemma on_invite_inv:
  assumes "inv_keep k" and "\<And>i. ok_invite i \<Longrightarrow> ok_invite (f i)" and "\<And>i. i \<in> set (vk_invites k) \<Longrightarrow> vi_grant i = g \<Longrightarrow> vi_grant (f i) = g"
  shows "inv_keep (on_invite g f k)"
proof -
  have "distinct (map vi_grant (map (\<lambda>i. if vi_grant i = g then f i else i) (vk_invites k)))"
    using assms(3) inv_keepD(5) [OF assms(1)] by (intro distinct_map_same) simp_all
  moreover have "list_all ok_invite (map (\<lambda>i. if vi_grant i = g then f i else i) (vk_invites k))"
    using inv_keepD(4) [OF assms(1)] assms(2) by (auto simp: list_all_iff)
  ultimately show ?thesis
    unfolding on_invite_def by (intro inv_keep_invites assms(1))
qed

lemma markRevokeSent_inv: "inv_keep k \<Longrightarrow> pred_option safe_int now \<Longrightarrow> inv_keep (markRevokeSent k g now)"
  unfolding markRevokeSent_def by (rule on_invite_inv) (auto simp: ok_invite_def split: option.splits)

lemma markInviteSent_inv: "inv_keep k \<Longrightarrow> safe_int now \<Longrightarrow> inv_keep (markInviteSent k g now)"
  unfolding markInviteSent_def by (rule on_invite_inv) (auto simp: ok_invite_def)

lemma withInvite_inv: "inv_keep k \<Longrightarrow> ok_invite i \<Longrightarrow> inv_keep (withInvite k i)"
  unfolding withInvite_def
  by (rule inv_keep_invites) (auto simp: list_all_iff distinct_map_filter dest: inv_keepD)

lemma ack_invite_inv: "inv_keep k \<Longrightarrow> safe_int t \<Longrightarrow> vi_grant i = g \<Longrightarrow> ok_invite i
    \<Longrightarrow> inv_keep (on_invite g (\<lambda>j. ack_invite a t i) k)"
  by (rule on_invite_inv) (auto simp: ok_invite_def ack_invite_def)

section \<open>Passes\<close>

lemma ok_passes_update:
  assumes "ok_passes ps" and "ok_pass p'" and "\<And>p. P p \<Longrightarrow> vp_grant p = vp_grant p'"
  shows "ok_passes (update_first P p' ps)"
proof -
  have "map vp_grant (update_first P p' ps) = map vp_grant ps"
    using assms(3) by (intro map_update_first) simp
  then show ?thesis
    using assms(1,2) set_update_first by (fastforce simp: ok_passes_def list_all_iff)
qed

lemma evict_passes: "ok_passes ps \<Longrightarrow> ok_passes (evict pick ps) \<and> vp_grant ` set (evict pick ps) \<subseteq> vp_grant ` set ps
    \<and> length (evict pick ps) \<le> length ps"
proof -
  assume ps: "ok_passes ps"
  have "distinct (map vp_grant (remove1 v ps))" for v
    using ps by (auto simp: ok_passes_def distinct_map intro: inj_on_subset)
  then show ?thesis
    using ps set_remove1_subset [of _ ps]
    by (fastforce simp: evict_def ok_passes_def list_all_iff length_remove1 split: list.splits)
qed

lemma make_room_passes:
  assumes "ok_passes ps"
  shows "ok_passes (make_room now ps) \<and> vp_grant ` set (make_room now ps) \<subseteq> vp_grant ` set ps"
proof -
  let ?e = "evict (\<lambda>p. passIsDead p now) ps"
  have e: "ok_passes ?e" "vp_grant ` set ?e \<subseteq> vp_grant ` set ps"
    using evict_passes [OF assms] by blast+
  then have "ok_passes (evict pick ?e)" "vp_grant ` set (evict pick ?e) \<subseteq> vp_grant ` set ps" for pick
    using evict_passes [OF e(1)] by blast+
  then show ?thesis
    using assms e unfolding make_room_def Let_def by simp
qed

lemma clamp_safe: "safe_int t \<Longrightarrow> clock_ok now \<Longrightarrow> safe_int (clampAckTime t now)"
  using clock_safe [of now 600] by (auto simp: clampAckTime_def CLAIM_ACK_SKEW_S_def min_def)

lemma reported_pass_ok:
  assumes "report_ok r" "safe_int t" "\<And>p. old = Some p \<Longrightarrow> ok_pass p"
  shows "ok_pass (reported_pass r t old)"
  using assms by (cases old) (auto simp: ok_pass_def reported_pass_def Let_def report_ok_def)

lemma report_pass_inv:
  assumes k: "inv_keep k" and r: "report_ok r" and now: "clock_ok now"
  shows "inv_keep (report_pass r now k)"
proof -
  let ?t = "clampAckTime (kr_time r) now" and ?same = "\<lambda>p. vp_grant p = kr_grant r"
  have t: "safe_int ?t"
    using r now by (simp add: report_ok_def clamp_safe)
  have ps: "ok_passes (passes_of k)" "length (passes_of k) \<le> KEEP_MAX_PASSES"
    using inv_keepD [OF k] by auto
  have upd: "inv_keep (k\<lparr>vk_passes := Some (update_first ?same q (passes_of k))\<rparr>)"
    if "ok_pass q" "vp_grant q = kr_grant r" for q
    using that ps by (intro inv_keep_passes k ok_passes_update) simp_all
  show ?thesis
  proof (cases "find ?same (passes_of k)")
    case None
    have room: "ok_passes (make_room now (passes_of k))" "kr_grant r \<notin> vp_grant ` set (make_room now (passes_of k))"
      using make_room_passes [OF ps(1), of now] None by (auto simp: find_None_iff)
    have "vp_grant (reported_pass r ?t None) = kr_grant r"
      by (simp add: reported_pass_def Let_def)
    with room have "ok_passes (make_room now (passes_of k) @ [reported_pass r ?t None])"
      using reported_pass_ok [OF r t, of None] by (auto simp: ok_passes_def)
    then show ?thesis
      using k None by (auto simp: report_pass_def Let_def intro: inv_keep_passes)
  next
    case (Some p)
    then have p: "ok_pass p" "vp_grant p = kr_grant r"
      using ps(1) find_SomeD [OF Some] by (auto simp: ok_passes_def list_all_iff)
    have "ok_pass (p\<lparr>vp_state := Pass_revoked, vp_revokeSent := None\<rparr>)"
      using p by (simp add: ok_pass_def)
    moreover have "ok_pass (reported_pass r ?t (Some p))"
      using p by (intro reported_pass_ok r t) simp
    moreover have "vp_grant (reported_pass r ?t (Some p)) = kr_grant r"
      by (simp add: reported_pass_def Let_def)
    ultimately show ?thesis
      using k Some upd p by (auto simp: report_pass_def Let_def)
  qed
qed

lemma markPassRevokeSent_inv: "inv_keep k \<Longrightarrow> safe_int now \<Longrightarrow> inv_keep (markPassRevokeSent k g now)"
proof -
  assume k: "inv_keep k" and now: "safe_int now"
  let ?f = "\<lambda>p. if vp_grant p = g \<and> vp_state p \<noteq> Pass_revoked then p\<lparr>vp_revokeSent := Some True, vp_revokeSentAt := Some now\<rparr> else p"
  have "distinct (map vp_grant (map ?f (passes_of k)))"
    using inv_keepD(6) [OF k] by (intro distinct_map_same) (simp_all add: ok_passes_def)
  then have "ok_passes (map ?f (passes_of k))"
    using inv_keepD(6) [OF k] now unfolding ok_passes_def by (auto simp: list_all_iff ok_pass_def)
  then show ?thesis
    unfolding markPassRevokeSent_def using inv_keepD(7) [OF k] by (intro inv_keep_passes k) simp_all
qed

section \<open>Acks of claims, invites and passes\<close>

lemma ack_claim_inv: "inv_keep k \<Longrightarrow> inv_keep (ack_claim a t k)"
  by (auto simp: ack_claim_def inv_keepD(1) ok_keep_def dest: inv_keepD(1) intro!: inv_keep_other [of k])

lemma ack_pass_inv:
  assumes k: "inv_keep k"
  shows "inv_keep (ack_pass a k)"
proof (cases "vk_passes k")
  case (Some ps)
  then have ps: "ok_passes ps" "length ps \<le> KEEP_MAX_PASSES"
    using inv_keepD(6,7) [OF k] by (auto simp: passes_of_def or_else_def)
  show ?thesis
  proof (cases "find (\<lambda>p. Some (vp_grant p) = ak_grant a) ps")
    case (Some p)
    then have p: "ok_pass p" "ak_grant a = Some (vp_grant p)"
      using ps find_SomeD [OF Some] by (auto simp: ok_passes_def list_all_iff)
    have "ok_passes (update_first (\<lambda>q. Some (vp_grant q) = ak_grant a) (p\<lparr>vp_state := Pass_revoked, vp_revokeSent := Some False\<rparr>) ps)"
      using p by (intro ok_passes_update ps) (simp_all add: ok_pass_def)
    then show ?thesis
      using k ps Some \<open>vk_passes k = Some ps\<close> by (auto simp: ack_pass_def intro: inv_keep_passes)
  qed (use k Some in \<open>simp add: ack_pass_def\<close>)
qed (use k in \<open>simp add: ack_pass_def\<close>)

lemma ack_keep_inv:
  assumes k: "inv_keep k" and a: "safe_int (ak_time a)" and now: "clock_ok now"
  shows "inv_keep (ack_keep a now k)"
proof -
  have t: "safe_int (clampAckTime (ak_time a) now)"
    using a now by (rule clamp_safe)
  show ?thesis
  proof (cases "find (\<lambda>i. Some (vi_grant i) = ak_grant a) (vk_invites k)")
    case (Some i)
    then have "ok_invite i"
      using inv_keepD(4) [OF k] find_SomeD [OF Some] by (auto simp: list_all_iff)
    then show ?thesis
      using k t Some by (auto simp: ack_keep_def Let_def intro: ack_claim_inv ack_invite_inv)
  qed (use k in \<open>auto simp: ack_keep_def Let_def intro: ack_claim_inv ack_pass_inv\<close>)
qed

end
