(* ===== verification/Keep_Links.thy ===== *)
theory Keep_Links
  imports Keep_Invariant
begin

text \<open>
  The invariant of a stored Keep through the changes of its owners list: composing an update, linking,
  unlinking, switching a section, and the acks of updates and accepts.
\<close>

section \<open>Links\<close>

lemma map_of_values: "map_of (map (\<lambda>(p, l). (p, f l)) m) q = map_option f (map_of m q)"
  by (induction m) auto

lemma map_of_without: "map_of (filter (\<lambda>(q, l). q \<noteq> p) m) q = (if q = p then None else map_of m q)"
  by (induction m) auto

lemma update_new: "p \<notin> fst ` set m \<Longrightarrow> AList.update p x m = m @ [(p, x)]"
  by (induction m) auto

lemma ok_links_update: "ok_links m \<Longrightarrow> hex64 p \<Longrightarrow> ok_link l \<Longrightarrow> ok_links (AList.update p l m)"
  by (auto simp: ok_links_def distinct_update intro: update_all)

lemma links_inv_update:
  assumes m: "links_inv m" and p: "hex64 p" and l: "ok_link l" "vl_active l \<longrightarrow> vl_accept l = None"
    and keep: "\<And>l0. map_of m p = Some l0 \<Longrightarrow> vl_active l0 \<Longrightarrow> vl_active l"
  shows "links_inv (AList.update p l m)"
proof -
  have d: "distinct (map fst m)"
    using m by (simp add: links_inv_def ok_links_def)
  have "\<forall>(q, x) \<in> set (AList.update p l m). vl_active x \<longrightarrow> vl_accept x = None"
    using m l set_AList_update_pair by (fastforce simp: links_inv_def)
  moreover obtain q x where q: "(q, x) \<in> set m" "vl_active x"
    using m by (auto simp: links_inv_def)
  then have x: "map_of m q = Some x"
    using d by simp
  have "map_of (AList.update p l m) q = Some (if q = p then l else x)"
    using x by (simp add: update_conv')
  then have "(q, if q = p then l else x) \<in> set (AList.update p l m)"
    by (rule map_of_SomeD)
  then have "\<exists>(q, x) \<in> set (AList.update p l m). vl_active x"
    using q x keep by (cases "q = p") force+
  ultimately show ?thesis
    using m p l by (simp add: links_inv_def ok_links_update)
qed

lemma links_inv_map:
  assumes m: "links_inv m"
    and f: "\<And>p l. (p, l) \<in> set m \<Longrightarrow> ok_link l \<Longrightarrow> ok_link (f l) \<and> vl_active (f l) = vl_active l \<and> (vl_active l \<longrightarrow> vl_accept (f l) = None)"
  shows "links_inv (map (\<lambda>(p, l). (p, f l)) m)"
proof -
  have keys: "map fst (map (\<lambda>(p, l). (p, f l)) m) = map fst m"
    by (simp add: comp_def case_prod_unfold)
  have "ok_link l" if "(p, l) \<in> set m" for p l
    using m that by (auto simp: links_inv_def ok_links_def list_all_iff)
  then have fl: "ok_link (f l)" "vl_active (f l) = vl_active l" "vl_active l \<Longrightarrow> vl_accept (f l) = None" if "(p, l) \<in> set m" for p l
    using f that by blast+
  have "ok_links (map (\<lambda>(p, l). (p, f l)) m)"
    using m fl unfolding links_inv_def ok_links_def keys by (auto simp: list_all_iff)
  moreover obtain q x where "(q, x) \<in> set m" "vl_active x"
    using m by (auto simp: links_inv_def)
  then have "\<exists>(q, x) \<in> set (map (\<lambda>(p, l). (p, f l)) m). vl_active x"
    using fl(2) by force
  ultimately show ?thesis
    using fl by (auto simp: links_inv_def)
qed

text \<open>A link the invariant covers.\<close>

lemma links_invD: "links_inv m \<Longrightarrow> map_of m p = Some l \<Longrightarrow> hex64 p \<and> ok_link l \<and> (vl_active l \<longrightarrow> vl_accept l = None)"
  by (auto simp: links_inv_def ok_links_def list_all_iff dest: map_of_SomeD)

lemma base_inv_links:
  assumes "base_inv k" and "links_inv m"
  shows "base_inv (withLinks k m)"
  using assms by (auto simp: base_inv_def withLinks_def ok_keep_def links_inv_def passes_of_def)

lemma base_invD:
  assumes "base_inv k"
  shows "ok_keep k" "links_inv (vk_links k)" "vk_personas k = map fst (vk_links k)" "distinct (map fst (vk_links k))"
    "0 \<le> vk_rev k" "safe_int (vk_rev k)"
  using assms by (auto simp: base_inv_def ok_keep_def links_inv_def ok_links_def)

lemma inv_base: "inv_keep k \<Longrightarrow> base_inv k"
  by (simp add: inv_keep_def)

section \<open>The update of the list\<close>

lemma fold_update_map:
  "distinct (map fst xs) \<Longrightarrow> set (map fst xs) \<inter> fst ` set acc = {}
     \<Longrightarrow> fold (\<lambda>(p, l) m. AList.update p (f l) m) xs acc = acc @ map (\<lambda>(p, l). (p, f l)) xs"
proof (induction xs arbitrary: acc)
  case (Cons x xs)
  obtain p l where x: "x = (p, l)"
    by (cases x)
  have "AList.update p (f l) acc = acc @ [(p, f l)]"
    using Cons.prems x by (intro update_new) auto
  then show ?case
    using Cons x by simp
qed simp

text \<open>What \<open>composeUpdate\<close> does to a Keep whose personas are the keys of its links.\<close>

definition composed :: "stored_keep \<Rightarrow> ustr \<Rightarrow> int \<Rightarrow> stored_keep" where
  "composed k s now =
     (withLinks k (map (\<lambda>(p, l). (p, composed_link (last_rev k + 1) now l)) (vk_links k)))
       \<lparr>vk_update := Some \<lparr>vu_rev = last_rev k + 1, vu_signer = s,
          vu_personas = map (\<lambda>(p, l). (p, vl_sections l)) (vk_links k), vu_sentAt = 0, vu_composedAt = now,
          vu_refusedAt = Option.bind (vk_update k) vu_refusedAt, vu_retried = None, vu_failed = None\<rparr>\<rparr>"

lemma composed_link_sections [simp]: "vl_sections (composed_link r now l) = vl_sections l"
  by (simp add: composed_link_def)

lemma composeUpdate_composed:
  assumes "vk_personas k = map fst (vk_links k)" and "distinct (map fst (vk_links k))"
  shows "composeUpdate k s now = (if canCompose k then Some (composed k s now) else None)"
proof -
  let ?f = "composed_link (last_rev k + 1) now"
  have old: "those (map (\<lambda>p. map_option (Pair p) (map_of (vk_links k) p)) (map fst (vk_links k))) = Some (vk_links k)"
    using assms(2) by (intro those_map_Some) auto
  have m: "fold (\<lambda>(p, l) m. AList.update p (?f l) m) (vk_links k) [] = map (\<lambda>(p, l). (p, ?f l)) (vk_links k)"
    using fold_update_map [OF assms(2), of "[]" ?f] by simp
  have "map (\<lambda>p. (p, case map_of (map (\<lambda>(p, l). (p, ?f l)) (vk_links k)) p of None \<Rightarrow> [] | Some l \<Rightarrow> vl_sections l)) (map fst (vk_links k))
      = map (\<lambda>(p, l). (p, vl_sections l)) (vk_links k)"
    using assms(2) unfolding map_of_values map_map by (intro map_cong) auto
  then show ?thesis
    unfolding composeUpdate_def assms(1) old Let_def option.case m composed_def by simp
qed

lemma update_rev_bounds: "base_inv k \<Longrightarrow> safe_int (last_rev k)" "base_inv k \<Longrightarrow> 0 \<le> last_rev k"
  by (auto simp: last_rev_def update_rev_def base_inv_def ok_keep_def ok_update_def max_def split: option.splits)

lemma composed_inv:
  assumes k: "base_inv k" and s: "signer_ok k s" and now: "clock_ok now" and can: "canCompose k"
  shows "inv_keep (composed k s now)"
proof -
  let ?r = "last_rev k + 1"
  have r: "safe_int ?r"
    using update_rev_bounds [OF k] can by (simp add: safe_int_def canCompose_def)
  have link: "ok_link (composed_link ?r now l)" if "ok_link l" for l
    using that r now by (cases "vl_addedRev l") (auto simp: ok_link_def composed_link_def ok_accept_def or_else_def)
  have m: "links_inv (map (\<lambda>(p, l). (p, composed_link ?r now l)) (vk_links k))"
    using base_invD(2) [OF k] link by (intro links_inv_map) (auto simp: composed_link_def)
  have "pred_option safe_int (Option.bind (vk_update k) vu_refusedAt)"
    using base_invD(1) [OF k] by (cases "vk_update k") (auto simp: ok_keep_def ok_update_def)
  then have "ok_update (the (vk_update (composed k s now)))"
    using s r now base_invD(2) [OF k]
    by (auto simp: composed_def ok_update_def signer_ok_def links_inv_def ok_links_def list_all_iff)
  moreover have "base_inv (withLinks k (map (\<lambda>(p, l). (p, composed_link ?r now l)) (vk_links k)))"
    by (rule base_inv_links [OF k m])
  ultimately have "base_inv (composed k s now)"
    by (auto simp: composed_def base_inv_def ok_keep_def passes_of_def)
  moreover have "signer_ok (composed k s now) s"
    using s by (auto simp: map_of_values composed_def withLinks_def signer_ok_def composed_link_def split: option.splits)
  ultimately show ?thesis
    by (simp add: inv_keep_def composed_def)
qed

section \<open>Linking and unlinking\<close>

lemma note_seen_inv: "base_inv k \<Longrightarrow> hex64 p \<Longrightarrow> base_inv (note_seen p k)"
  by (auto simp: note_seen_def base_inv_def ok_keep_def passes_of_def)

lemma note_seen_simps [simp]:
  "vk_links (note_seen p k) = vk_links k" "vk_update (note_seen p k) = vk_update k" "vk_keep (note_seen p k) = vk_keep k"
  "vk_rev (note_seen p k) = vk_rev k" "vk_personas (note_seen p k) = vk_personas k"
  by (simp_all add: note_seen_def)

lemma withLinks_simps [simp]:
  "vk_links (withLinks k m) = m" "vk_update (withLinks k m) = vk_update k" "vk_keep (withLinks k m) = vk_keep k"
  "vk_rev (withLinks k m) = vk_rev k" "vk_personas (withLinks k m) = map fst m" "vk_invites (withLinks k m) = vk_invites k"
  "vk_status (withLinks k m) = vk_status k" "vk_claimedAt (withLinks k m) = vk_claimedAt k"
  by (simp_all add: withLinks_def)

lemma linkPersona_inv:
  assumes "base_inv k" "hex64 p" "linkPersona k p = Some k'"
  shows "base_inv k'" and "map_of (vk_links k') q = (if q = p then map_of (vk_links k') p else map_of (vk_links k) q)"
    and "vk_update k' = vk_update k" "vk_rev k' = vk_rev k" "vk_keep k' = vk_keep k"
proof -
  let ?l = "\<lparr>vl_sections = [KEEP_SECTION_GAMES], vl_addedRev = None, vl_active = False, vl_accept = None\<rparr>"
  have k': "k' = note_seen p (withLinks k (AList.update p ?l (vk_links k)))" and none: "map_of (vk_links k) p = None"
    using assms(3) by (auto simp: linkPersona_def isLinked_def split: if_splits)
  have "links_inv (AList.update p ?l (vk_links k))"
    using assms(1,2) none by (intro links_inv_update) (auto simp: base_inv_def ok_link_def)
  then show "base_inv k'"
    unfolding k' using assms(1,2) by (intro note_seen_inv base_inv_links)
  show "map_of (vk_links k') q = (if q = p then map_of (vk_links k') p else map_of (vk_links k) q)"
    unfolding k' by (simp add: update_conv')
  show "vk_update k' = vk_update k" "vk_rev k' = vk_rev k" "vk_keep k' = vk_keep k"
    unfolding k' by simp_all
qed

lemma unlinkPersona_inv:
  assumes "base_inv k" "unlinkPersona k p = Some k'"
  shows "base_inv k'" and "map_of (vk_links k') q = (if q = p then None else map_of (vk_links k) q)"
    and "vk_update k' = vk_update k" "vk_rev k' = vk_rev k" "vk_keep k' = vk_keep k"
proof -
  let ?m = "filter (\<lambda>(q, l). q \<noteq> p) (vk_links k)"
  have k': "k' = note_seen p (withLinks k ?m)" and can: "canUnlink k p"
    using assms(2) by (auto simp: unlinkPersona_def split: if_splits)
  obtain w l where w: "w \<noteq> p" "map_of (vk_links k) w = Some l" "vl_active l"
    using can by (auto simp: canUnlink_def activeOwners_def isActiveOwner_def split: option.splits)
  then have "(w, l) \<in> set ?m"
    by (auto dest: map_of_SomeD)
  moreover have "ok_links ?m"
    using base_invD(2) [OF assms(1)] by (auto simp: links_inv_def ok_links_def list_all_iff distinct_map_filter)
  ultimately have "links_inv ?m"
    using base_invD(2) [OF assms(1)] w by (auto simp: links_inv_def)
  moreover have "hex64 p"
    using can links_invD [OF base_invD(2) [OF assms(1)]] by (auto simp: canUnlink_def isLinked_def)
  ultimately show "base_inv k'"
    unfolding k' using assms(1) by (intro note_seen_inv base_inv_links)
  show "map_of (vk_links k') q = (if q = p then None else map_of (vk_links k) q)"
    unfolding k' by (simp add: map_of_without)
  show "vk_update k' = vk_update k" "vk_rev k' = vk_rev k" "vk_keep k' = vk_keep k"
    unfolding k' by simp_all
qed

lemma setSection_inv:
  assumes "base_inv k" "setSection k p section on = Some k'"
  shows "base_inv k'" and "map_option vl_active (map_of (vk_links k') q) = map_option vl_active (map_of (vk_links k) q)"
    and "vk_update k' = vk_update k" "vk_rev k' = vk_rev k" "vk_keep k' = vk_keep k"
proof -
  obtain l where l: "map_of (vk_links k) p = Some l"
      and k': "k' = withLinks k (AList.update p (l\<lparr>vl_sections := (if on then vl_sections l @ [section]
                                   else filter (\<lambda>s. s \<noteq> section) (vl_sections l))\<rparr>) (vk_links k))"
    using assms(2) by (auto simp: setSection_def split: option.splits if_splits)
  have "links_inv (AList.update p (l\<lparr>vl_sections := ss\<rparr>) (vk_links k))" for ss
    using links_invD [OF base_invD(2) [OF assms(1)] l] l
    by (intro links_inv_update base_invD(2) [OF assms(1)]) (auto simp: ok_link_def)
  then show "base_inv k'"
    unfolding k' using assms(1) by (intro base_inv_links)
  show "map_option vl_active (map_of (vk_links k') q) = map_option vl_active (map_of (vk_links k) q)"
    unfolding k' using l by (simp add: update_conv')
  show "vk_update k' = vk_update k" "vk_rev k' = vk_rev k" "vk_keep k' = vk_keep k"
    unfolding k' by simp_all
qed

section \<open>Acks of updates and accepts\<close>

lemma raise_rev_simps [simp]:
  "vk_links (raise_rev r k) = vk_links k" "vk_update (raise_rev r k) = vk_update k" "vk_keep (raise_rev r k) = vk_keep k"
  "vk_rev (raise_rev r k) = max (vk_rev k) r" "vk_personas (raise_rev r k) = vk_personas k"
  by (simp_all add: raise_rev_def)

lemma raise_rev_inv:
  assumes "inv_keep k" "0 \<le> r" "r < MAX_SAFE"
  shows "inv_keep (raise_rev r k)"
proof (rule inv_keep_other [OF assms(1)])
  show "ok_keep (raise_rev r k)"
    using inv_keepD(1) [OF assms(1)] assms(2,3) by (auto simp: raise_rev_def ok_keep_def safe_int_def MAX_SAFE_def)
qed (simp_all add: raise_rev_def)

lemma inv_keep_links:
  assumes k: "inv_keep k" and m: "links_inv m"
    and active: "\<And>p. isActiveOwner k p \<Longrightarrow> map_of m p \<noteq> None \<Longrightarrow> vl_active (the (map_of m p))"
    and keys: "\<And>p. map_of m p \<noteq> None \<Longrightarrow> map_of (vk_links k) p \<noteq> None"
  shows "inv_keep (withLinks k m)"
proof -
  have "signer_ok (withLinks k m) s" if "signer_ok k s" for s
    using that active [of s] keys [of s] by (auto simp: signer_ok_def isActiveOwner_def split: option.splits)
  then show ?thesis
    using base_inv_links [OF inv_base [OF k] m] k by (auto simp: inv_keep_def split: option.splits)
qed

lemma inv_keep_link:
  assumes k: "inv_keep k" and l0: "map_of (vk_links k) p = Some l0"
    and l: "ok_link l" "vl_active l \<longrightarrow> vl_accept l = None" "vl_active l0 \<longrightarrow> vl_active l"
  shows "inv_keep (withLinks k (AList.update p l (vk_links k)))"
proof (rule inv_keep_links [OF k])
  show "links_inv (AList.update p l (vk_links k))"
    using links_invD [OF inv_keepD(2) [OF k] l0] l l0 by (intro links_inv_update inv_keepD(2) [OF k]) auto
qed (use l l0 in \<open>auto simp: update_conv' isActiveOwner_def split: option.splits if_splits\<close>)

lemma update_done_inv:
  assumes k: "inv_keep k"
  shows "inv_keep (update_done k)"
proof -
  have k': "inv_keep (k\<lparr>vk_update := None\<rparr>)"
    using k by (auto simp: inv_keep_def base_inv_def ok_keep_def passes_of_def)
  have "links_inv (map (\<lambda>(p, l). (p, resent_accept l)) (vk_links k))"
    using inv_keepD(2) [OF k]
    by (intro links_inv_map inv_keepD(2) [OF k])
      (auto simp: links_inv_def resent_accept_def ok_link_def ok_accept_def split: option.splits)
  then show ?thesis
    unfolding update_done_def using k'
    by (intro inv_keep_links) (auto simp: map_of_values isActiveOwner_def resent_accept_def split: option.splits)
qed

lemma on_updated_inv:
  assumes k: "inv_keep k" and r: "0 \<le> r" "r < MAX_SAFE"
  shows "inv_keep (on_updated a to r k)"
proof -
  have k1: "inv_keep (raise_rev r k)"
    by (rule raise_rev_inv [OF k r])
  have accept: "inv_keep (withLinks (raise_rev r k) (AList.update to (l\<lparr>vl_accept := None, vl_active := True\<rparr>) (vk_links k)))"
    if "map_of (vk_links k) to = Some l" for l
    using that inv_keep_link [OF k1, of to l "l\<lparr>vl_accept := None, vl_active := True\<rparr>"]
      links_invD [OF inv_keepD(2) [OF k] that] by (simp add: ok_link_def)
  show ?thesis
    using k1 accept update_done_inv [OF k1] by (auto simp: on_updated_def Let_def split: option.split)
qed

lemma on_pending_inv:
  assumes k: "inv_keep k" and r: "0 \<le> r" "r < MAX_SAFE"
  shows "inv_keep (on_pending a to r k)"
proof -
  have k1: "inv_keep (raise_rev r k)"
    by (rule raise_rev_inv [OF k r])
  have accept: "inv_keep (withLinks (raise_rev r k) (AList.update to (l\<lparr>vl_accept := Some (c\<lparr>va_pending := Some True\<rparr>)\<rparr>) (vk_links k)))"
    if "map_of (vk_links k) to = Some l" "vl_accept l = Some c" for l c
    using that inv_keep_link [OF k1, of to l "l\<lparr>vl_accept := Some (c\<lparr>va_pending := Some True\<rparr>)\<rparr>"]
      links_invD [OF inv_keepD(2) [OF k] that(1)] by (auto simp: ok_link_def ok_accept_def)
  show ?thesis
    using k1 accept by (auto simp: on_pending_def Let_def split: option.split)
qed

lemma inv_keep_update:
  assumes "inv_keep k" "ok_update w" "signer_ok k (vu_signer w)"
  shows "inv_keep (k\<lparr>vk_update := Some w\<rparr>)"
  using assms by (auto simp: inv_keep_def base_inv_def ok_keep_def passes_of_def signer_ok_def)

lemma inv_keep_retried:
  "inv_keep k \<Longrightarrow> inv_keep (k\<lparr>vk_update := map_option (\<lambda>w. w\<lparr>vu_retried := x\<rparr>) (vk_update k)\<rparr>)"
  by (cases "vk_update k")
    (auto simp: inv_keep_def base_inv_def ok_keep_def passes_of_def signer_ok_def ok_update_def)

lemma on_refused_inv:
  assumes k: "inv_keep k" and a: "ack_ok a" and now: "clock_ok now"
  shows "\<exists>k'. on_refused a to now k = Some k' \<and> inv_keep k'"
proof (cases "vk_update k")
  case (Some w)
  let ?seen = "w\<lparr>vu_refusedAt := Some (ak_time a)\<rparr>"
  have w: "ok_update w" "signer_ok k (vu_signer w)"
    using k Some by (auto simp: inv_keep_def base_inv_def ok_keep_def)
  have t: "safe_int (ak_time a)"
    using a by (simp add: ack_ok_def)
  have seen: "inv_keep (k'\<lparr>vk_update := Some (?seen\<lparr>vu_failed := f\<rparr>)\<rparr>)" "inv_keep (k'\<lparr>vk_update := Some ?seen\<rparr>)"
    if "inv_keep k'" "vk_links k' = vk_links k" for k' f
    using that w t by (auto intro!: inv_keep_update simp: ok_update_def signer_ok_def)
  have stale: "\<exists>k'. map_option (\<lambda>again. again\<lparr>vk_update := map_option (\<lambda>w. w\<lparr>vu_retried := Some True\<rparr>) (vk_update again)\<rparr>)
        (composeUpdate nx (vu_signer w) now) = Some k' \<and> inv_keep k'"
    if "nx = (raise_rev r k)\<lparr>vk_update := Some ?seen\<rparr>" "canCompose nx" "ak_rev a = Some r" for r nx
  proof -
    have r: "0 \<le> r" "r < MAX_SAFE"
      using a that(3) by (auto simp: ack_ok_def)
    have n: "inv_keep nx"
      unfolding that(1) using raise_rev_inv [OF k r] by (intro seen) simp_all
    have "signer_ok nx (vu_signer w)"
      using w(2) that(1) by (simp add: signer_ok_def)
    then have "inv_keep (composed nx (vu_signer w) now)"
      using n that(2) now by (intro composed_inv inv_base)
    moreover have "composeUpdate nx (vu_signer w) now = Some (composed nx (vu_signer w) now)"
      using base_invD(3,4) [OF inv_base [OF n]] that(2) by (simp add: composeUpdate_composed)
    ultimately show ?thesis
      by (auto intro: inv_keep_retried)
  qed
  have raised: "inv_keep (fail_update f ?seen ((raise_rev r k)\<lparr>vk_update := Some ?seen\<rparr>))" if "ak_rev a = Some r" for r f
    using a that raise_rev_inv [OF k, of r] seen(1) [of "raise_rev r k" "Some f"] by (auto simp: ack_ok_def fail_update_def)
  have plain: "inv_keep (fail_update f ?seen k)" for f
    using seen(1) [OF k refl, of "Some f"] by (simp add: fail_update_def)
  show ?thesis
    using k stale raised plain Some
    by (auto simp: on_refused_def Let_def split: option.split refusal_reason.split)
qed (use k in \<open>simp add: on_refused_def\<close>)

lemma owners_keep_inv:
  assumes k: "inv_keep k" and a: "ack_ok a" and now: "clock_ok now"
  shows "\<exists>k'. owners_keep a now k = Some k' \<and> inv_keep k'"
proof (cases "ak_to a")
  case (Some to)
  have "inv_keep (on_updated a to r k)" "inv_keep (on_pending a to r k)" if "ak_rev a = Some r" for r
    using a that on_updated_inv [OF k] on_pending_inv [OF k] by (auto simp: ack_ok_def)
  then show ?thesis
    using k Some on_refused_inv [OF k a now] by (auto simp: owners_keep_def split: option.split ack_status.split)
qed (use k in \<open>simp add: owners_keep_def\<close>)

end
