(* ===== verification/Keep_Run.thy ===== *)
theory Keep_Run
  imports Keep_Links
begin

text \<open>
  The invariant through the settings, the read cursors, the sends and the reconciliation.
\<close>

section \<open>Settings and cursors\<close>

lemma inv_keep_settings:
  assumes "inv_keep k" "pred_option ok_settings x"
  shows "inv_keep (k\<lparr>vk_settings := x\<rparr>)"
proof (rule inv_keep_other [OF assms(1)])
  show "ok_keep (k\<lparr>vk_settings := x\<rparr>)"
    using inv_keepD(1) [OF assms(1)] assms(2) by (simp add: ok_keep_def)
qed simp_all

lemma setrev_bounds: "inv_keep k \<Longrightarrow> 0 \<le> setrev_of k"
  using inv_keepD(1) [of k] by (auto simp: setrev_of_def ok_keep_def ok_settings_def split: option.splits)

lemma composeSettings_inv:
  assumes "inv_keep k" "composeSettings k on now = Some k'" "clock_ok now"
  shows "inv_keep k'"
proof -
  have "safe_int (setrev_of k + 1)"
    using assms(2) setrev_bounds [OF assms(1)]
    by (auto simp: composeSettings_def canComposeSettings_def safe_int_def MAX_SAFE_def split: if_splits)
  then show ?thesis
    using assms setrev_bounds [OF assms(1)]
    by (auto simp: composeSettings_def ok_settings_def split: if_splits intro!: inv_keep_settings)
qed

lemma markSettingsSent_inv: "inv_keep k \<Longrightarrow> safe_int now \<Longrightarrow> inv_keep (markSettingsSent k now)"
  unfolding markSettingsSent_def using inv_keepD(1) [of k]
  by (intro inv_keep_settings) (auto simp: ok_keep_def ok_settings_def option.pred_map comp_def elim!: option.pred_mono_strong)

lemma settings_keep_inv:
  assumes k: "inv_keep k" and a: "ack_ok a" and now: "clock_ok now"
  shows "inv_keep (settings_keep a now k)"
proof -
  have "ok_settings s'" if "vk_settings k = Some s" "ak_setrev a = Some r" "ack_settings a r s now = Some s'" for s r s'
  proof -
    have s: "ok_settings s"
      using inv_keepD(1) [OF k] that(1) by (simp add: ok_keep_def)
    have "0 \<le> r" "safe_int (r + 1)" "safe_int (ak_time a)"
      using a that(2) by (auto simp: ack_ok_def safe_int_def MAX_SAFE_def)
    with s now that(3) show ?thesis
      by (auto simp: ack_settings_def ok_settings_def split: if_splits)
  qed
  then show ?thesis
    using k by (auto simp: settings_keep_def split: option.split intro: inv_keep_settings)
qed

lemma advance_cursors_inv:
  assumes k: "inv_keep k" and found: "\<forall>(p, t) \<in> set found. hex64 p \<and> safe_int t"
  shows "inv_keep (advance_cursors found k)"
proof -
  let ?step = "\<lambda>(persona, t) cursors.
         case Option.bind cursors (\<lambda>m. map_of m persona) of
           Some c \<Rightarrow> if c \<ge> t then cursors else Some (AList.update persona t (or_else cursors []))
         | None \<Rightarrow> Some (AList.update persona t (or_else cursors []))"
  have step: "pred_option ok_cursors (?step (p, t) c)" if "pred_option ok_cursors c" "hex64 p" "safe_int t" for p t c
  proof -
    have "ok_cursors (AList.update p t (or_else c []))"
      using that by (cases c) (auto simp: ok_cursors_def or_else_def distinct_update intro: update_all)
    then show ?thesis
      using that(1) by (auto split: option.split)
  qed
  have "pred_option ok_cursors (fold ?step found c)" if "pred_option ok_cursors c" for c
    using found that
  proof (induction found arbitrary: c)
    case (Cons x xs)
    then have "pred_option ok_cursors (?step x c)"
      using step [of c "fst x" "snd x"] by (cases x) simp
    then show ?case
      using Cons by simp
  qed simp
  then have "pred_option ok_cursors (vk_ackCursors (advance_cursors found k))"
    using inv_keepD(1) [OF k] by (simp add: advance_cursors_def ok_keep_def)
  then have "ok_keep (advance_cursors found k)"
    using inv_keepD(1) [OF k] by (simp add: advance_cursors_def ok_keep_def)
  then show ?thesis
    by (rule inv_keep_other [OF k]) (simp_all add: advance_cursors_def)
qed

lemma newest_read_ok:
  assumes "\<forall>(keep, p, t) \<in> set reads. hex64 p \<and> safe_int t" and "safe_int now"
  shows "\<forall>(keep, found) \<in> set (newest_read reads now). \<forall>(p, t) \<in> set found. hex64 p \<and> safe_int t"
proof -
  let ?ok = "\<lambda>found. list_all (\<lambda>(p, t). hex64 p \<and> safe_int t) found"
  let ?step = "\<lambda>(keep, persona, wrapAt) newest.
        let byPersona = or_else (map_of newest keep) [];
            t = (case map_of byPersona persona of None \<Rightarrow> min wrapAt now | Some old \<Rightarrow> max old (min wrapAt now))
        in AList.update keep (AList.update persona t byPersona) newest"
  have "list_all (\<lambda>(keep, found). ?ok found) (fold ?step reads m)" if "list_all (\<lambda>(keep, found). ?ok found) m" for m
    using assms(1) that
  proof (induction reads arbitrary: m)
    case (Cons x xs)
    obtain keep p t where x: "x = (keep, p, t)"
      by (cases x)
    let ?by = "or_else (map_of m keep) []"
    have ok: "?ok ?by"
      using Cons.prems(2) by (cases "map_of m keep") (fastforce simp: or_else_def list_all_iff dest: map_of_SomeD)+
    have "safe_int (case map_of ?by p of None \<Rightarrow> min t now | Some old \<Rightarrow> max old (min t now))"
      using ok Cons.prems(1) assms(2) x
      by (auto simp: list_all_iff max_def min_def dest!: map_of_SomeD split: option.split)
    then have "?ok (AList.update p (case map_of ?by p of None \<Rightarrow> min t now | Some old \<Rightarrow> max old (min t now)) ?by)"
      using ok Cons.prems(1) x by (intro update_all) auto
    with Cons.prems(2) have "list_all (\<lambda>(keep, found). ?ok found) (AList.update keep
        (AList.update p (case map_of ?by p of None \<Rightarrow> min t now | Some old \<Rightarrow> max old (min t now)) ?by) m)"
      by (rule update_all [where Q = "\<lambda>keep found. ?ok found"])
    then have "list_all (\<lambda>(keep, found). ?ok found) (?step x m)"
      by (simp only: x Let_def prod.case)
    then show ?case
      using Cons by simp
  qed simp
  then have "list_all (\<lambda>(keep, found). ?ok found) (newest_read reads now)"
    unfolding newest_read_def by simp
  then show ?thesis
    by (auto simp: list_all_iff)
qed

section \<open>Sends\<close>

lemma fold_keeps_inv: "I s \<Longrightarrow> (\<And>x s. x \<in> set xs \<Longrightarrow> I s \<Longrightarrow> I (f x s)) \<Longrightarrow> I (fold f xs s)"
  by (induction xs arbitrary: s) auto

lemma inv_keep_same_active:
  assumes k: "inv_keep k" and m: "links_inv m"
    and same: "\<And>q. map_option vl_active (map_of m q) = map_option vl_active (map_of (vk_links k) q)"
  shows "inv_keep (withLinks k m)"
proof (rule inv_keep_links [OF k m])
  show "vl_active (the (map_of m p))" if "isActiveOwner k p" "map_of m p \<noteq> None" for p
    using same [of p] that by (auto simp: isActiveOwner_def split: option.splits)
  show "map_of (vk_links k) p \<noteq> None" if "map_of m p \<noteq> None" for p
    using same [of p] that by (cases "map_of (vk_links k) p") auto
qed

lemma stamp_accept_inv:
  assumes "links_inv m" "safe_int now"
  shows "links_inv (stamp_accept now p m)" "map_option vl_active (map_of (stamp_accept now p m) q) = map_option vl_active (map_of m q)"
proof -
  have l: "links_inv (AList.update p (l\<lparr>vl_accept := Some (a\<lparr>va_sentAt := now\<rparr>)\<rparr>) m)" if "map_of m p = Some l" "vl_accept l = Some a" for l a
    using that assms links_invD [OF assms(1) that(1)]
    by (intro links_inv_update) (auto simp: ok_link_def ok_accept_def)
  then show "links_inv (stamp_accept now p m)"
    using assms by (auto simp: stamp_accept_def split: option.split)
  show "map_option vl_active (map_of (stamp_accept now p m) q) = map_option vl_active (map_of m q)"
    by (auto simp: stamp_accept_def update_conv' split: option.split)
qed

lemma markOwnersSent_inv:
  assumes k: "inv_keep k" and now: "safe_int now"
  shows "inv_keep (markOwnersSent k sent now)"
proof -
  let ?k = "if due_update sent then k\<lparr>vk_update := map_option (\<lambda>w. w\<lparr>vu_sentAt := now\<rparr>) (vk_update k)\<rparr> else k"
  have k1: "inv_keep ?k"
    using k now by (cases "vk_update k") (auto simp: inv_keep_def base_inv_def ok_keep_def passes_of_def signer_ok_def ok_update_def)
  have links: "vk_links ?k = vk_links k"
    by simp
  have "links_inv (fold (stamp_accept now) ps (vk_links k))
     \<and> (\<forall>q. map_option vl_active (map_of (fold (stamp_accept now) ps (vk_links k)) q) = map_option vl_active (map_of (vk_links k) q))" for ps
    using inv_keepD(2) [OF k] by (rule_tac fold_keeps_inv) (auto simp: stamp_accept_inv now)
  then show ?thesis
    using k1 inv_keep_same_active [OF k1] unfolding markOwnersSent_def Let_def links by auto
qed

lemma stamp_resend_inv: "inv_keep k \<Longrightarrow> safe_int now \<Longrightarrow> inv_keep (stamp_resend now d k)"
  by (cases d) (auto simp: stamp_resend_def markRevokeSent_inv markInviteSent_inv)

lemma markPassesRequested_inv: "inv_keep k \<Longrightarrow> safe_int now \<Longrightarrow> inv_keep (markPassesRequested k now)"
  by (rule inv_keep_other [of k]) (auto simp: markPassesRequested_def ok_keep_def dest: inv_keepD(1))

lemma keep_ids [simp]:
  "vk_keep (markOwnersSent k sent now) = vk_keep k" "vk_keep (stamp_resend now d k) = vk_keep k"
  "vk_keep (markSettingsSent k now) = vk_keep k" "vk_keep (markPassRevokeSent k g now) = vk_keep k"
  "vk_keep (markPassesRequested k now) = vk_keep k" "vk_keep (on_invite g f k) = vk_keep k"
  by (auto simp: markOwnersSent_def Let_def stamp_resend_def markSettingsSent_def markPassRevokeSent_def
      markPassesRequested_def on_invite_def markRevokeSent_def markInviteSent_def split: prod.splits)

lemma fold_keep_id: "(\<And>x k. vk_keep (f x k) = vk_keep k) \<Longrightarrow> vk_keep (fold f xs k) = vk_keep k"
  by (induction xs arbitrary: k) auto

lemma send_due_inv:
  assumes k: "inv_keep k" and now: "clock_ok now"
  shows "inv_keep (snd (send_due canSign asked now k))" "vk_keep (snd (send_due canSign asked now k)) = vk_keep k"
proof -
  have t: "safe_int now"
    using now by simp
  have m: "inv_keep (markOwnersSent k sent now)" for sent
    by (rule markOwnersSent_inv [OF k t])
  have r: "inv_keep (fold (stamp_resend now) ds j)" if "inv_keep j" for ds j
    by (rule fold_keeps_inv [where I = inv_keep, OF that]) (auto intro: stamp_resend_inv t)
  have p: "inv_keep (fold (\<lambda>p k. markPassRevokeSent k (vp_grant p) now) ps j)" if "inv_keep j" for ps j
    by (rule fold_keeps_inv [where I = inv_keep, OF that]) (auto intro: markPassRevokeSent_inv t)
  show "inv_keep (snd (send_due canSign asked now k))"
    unfolding send_due_def Let_def
    by (auto split: option.split intro!: markPassesRequested_inv p markSettingsSent_inv r m t)
  show "vk_keep (snd (send_due canSign asked now k)) = vk_keep k"
    by (auto simp: send_due_def Let_def fold_keep_id split: option.split)
qed

lemma withKeep_inv: "inv_keeps ks \<Longrightarrow> inv_keep k \<Longrightarrow> inv_keeps (withKeep ks k)"
  unfolding inv_keeps_def using withKeep_all [of ks inv_keep k] by (simp add: withKeep_distinct)

lemma at_keep_inv: "inv_keeps ks \<Longrightarrow> (\<And>k. inv_keep k \<Longrightarrow> inv_keep (f k)) \<Longrightarrow> inv_keeps (at_keep ks keep f)"
  unfolding inv_keeps_def using at_keep_all [of ks inv_keep f] by (simp add: at_keep_distinct)

lemma findKeep_inv: "inv_keeps ks \<Longrightarrow> findKeep ks keep = Some k \<Longrightarrow> inv_keep k"
  using findKeep_Some by (auto simp: inv_keeps_def)

lemma resendOutstanding_inv:
  assumes "inv_keeps ks" "clock_ok now"
  shows "inv_keeps (snd (resendOutstanding ks canSign asked now))"
proof -
  let ?f = "\<lambda>k (batch, nx). case send_due canSign asked now k of
          ([], k') \<Rightarrow> (batch, nx) | (out, k') \<Rightarrow> (batch @ map (Pair (vk_keep k)) out, withKeep nx k')"
  have "inv_keeps (snd (fold ?f xs s))" if "inv_keeps (snd s)" "set xs \<subseteq> set ks"
    for xs and s :: "(ustr \<times> ustr \<times> outgoing) list \<times> stored_keep list"
  proof (rule fold_keeps_inv [where I = "\<lambda>s. inv_keeps (snd s)", OF that(1)])
    fix x and s :: "(ustr \<times> ustr \<times> outgoing) list \<times> stored_keep list"
    assume "x \<in> set xs" "inv_keeps (snd s)"
    moreover then have "inv_keep (snd (send_due canSign asked now x))"
      using that(2) assms by (intro send_due_inv) (auto simp: inv_keeps_def)
    ultimately show "inv_keeps (snd (?f x s))"
      by (auto simp: case_prod_unfold split: list.split intro: withKeep_inv)
  qed
  then show ?thesis
    using assms(1) unfolding resendOutstanding_def by simp
qed

section \<open>Reconciliation\<close>

definition context_ok :: "reconcile_context \<Rightarrow> bool" where
  "context_ok C \<longleftrightarrow> clock_ok (rc_now C) \<and> list_all hex64 (rc_eligible C)
     \<and> (\<forall>n. hex32 (fst (rc_fresh C n)) \<and> hex64 (snd (rc_fresh C n)))"

text \<open>
  The random grants a reconciliation may draw, at most one for each persona and invite, are new to
  the Keep and differ (16 random bytes each).
\<close>

definition draws :: "reconcile_context \<Rightarrow> stored_keep \<Rightarrow> nat" where
  "draws C k = length (vk_personas k) + length (rc_eligible C) + length (vk_invites k)"

definition fresh_upto :: "reconcile_context \<Rightarrow> nat \<Rightarrow> ustr set \<Rightarrow> bool" where
  "fresh_upto C N old \<longleftrightarrow> inj_on (\<lambda>n. fst (rc_fresh C n)) {..<N} \<and> (\<forall>n < N. fst (rc_fresh C n) \<notin> old)"

text \<open>A change of the owners may link one persona more before it reconciles.\<close>

definition fresh_for :: "reconcile_context \<Rightarrow> stored_keep \<Rightarrow> bool" where
  "fresh_for C k \<longleftrightarrow> fresh_upto C (Suc (draws C k)) (vi_grant ` set (vk_invites k))"

lemma fresh_upto_mono: "fresh_upto C N old \<Longrightarrow> M \<le> N \<Longrightarrow> fresh_upto C M old"
  by (auto simp: fresh_upto_def inj_on_def)

lemma newGamesInvite_ok: "context_ok C \<Longrightarrow> hex64 p \<Longrightarrow> ok_invite (newGamesInvite C n p)"
  using clock_safe [of "rc_now C" KEEP_GAMES_INVITE_S]
  by (auto simp: context_ok_def ok_invite_def newGamesInvite_def KEEP_GAMES_INVITE_S_def)

definition games_inv :: "reconcile_context \<Rightarrow> ustr set \<Rightarrow> stored_invite list \<times> nat \<Rightarrow> bool" where
  "games_inv C old st \<longleftrightarrow> list_all ok_invite (fst st) \<and> distinct (map vi_grant (fst st))
     \<and> vi_grant ` set (fst st) \<subseteq> old \<union> {fst (rc_fresh C m) | m. m < snd st}"

lemma mark_grant_grants: "map vi_grant (mark_grant i is) = map vi_grant is"
  unfolding mark_grant_def map_map by (rule map_cong) (auto simp: to_revoke_def)

lemma fold_mark_grants: "map vi_grant (fold mark_grant xs is) = map vi_grant is"
  by (induction xs arbitrary: "is") (auto simp: mark_grant_grants)

lemma fold_mark_ok: "list_all ok_invite is \<Longrightarrow> list_all ok_invite (fold mark_grant xs is)"
  by (rule fold_keeps_inv) (auto simp: mark_grant_def to_revoke_def list_all_iff ok_invite_def)

lemma fold_mark_inv: "games_inv C old (is, n) \<Longrightarrow> games_inv C old (fold mark_grant xs is, n)"
proof -
  have "vi_grant ` set (fold mark_grant xs is) = vi_grant ` set is"
    using fold_mark_grants [of xs "is"] by (metis list.set_map)
  then show "games_inv C old (is, n) \<Longrightarrow> games_inv C old (fold mark_grant xs is, n)"
    by (simp add: games_inv_def fold_mark_ok fold_mark_grants)
qed

lemma new_invite_inv:
  assumes C: "context_ok C" and old: "fresh_upto C N old" and st: "games_inv C old (is, n)" and p: "hex64 p" and n: "n < N"
  shows "games_inv C old (is @ [newGamesInvite C n p], Suc n)"
proof -
  have g: "vi_grant (newGamesInvite C n p) = fst (rc_fresh C n)"
    by (simp add: newGamesInvite_def)
  have "fst (rc_fresh C n) \<noteq> fst (rc_fresh C m)" if "m < n" for m
    using old n that inj_onD [of "\<lambda>n. fst (rc_fresh C n)" "{..<N}" n m] by (auto simp: fresh_upto_def)
  then have "fst (rc_fresh C n) \<notin> old \<union> {fst (rc_fresh C m) | m. m < n}"
    using old n by (auto simp: fresh_upto_def)
  moreover have sub: "vi_grant ` set is \<subseteq> old \<union> {fst (rc_fresh C m) | m. m < n}"
    using st by (simp add: games_inv_def)
  ultimately have "fst (rc_fresh C n) \<notin> vi_grant ` set is"
    by blast
  then have "distinct (map vi_grant (is @ [newGamesInvite C n p]))"
    using st by (simp add: games_inv_def g)
  moreover have "vi_grant ` set (is @ [newGamesInvite C n p]) \<subseteq> old \<union> {fst (rc_fresh C m) | m. m < Suc n}"
    using sub by (auto simp: g less_Suc_eq)
  ultimately show ?thesis
    using st newGamesInvite_ok [OF C p, of n] by (simp add: games_inv_def)
qed

lemma games_step_inv:
  assumes C: "context_ok C" and old: "fresh_upto C N old" and st: "games_inv C old st" and p: "hex64 p" and n: "snd st < N"
  shows "games_inv C old (games_step C k p st)"
proof (cases st)
  case (Pair xs n)
  have made: "games_inv C old (xs @ [newGamesInvite C n p], Suc n)" "games_inv C old (xs, n)"
    using new_invite_inv [OF C old _ p, of xs n] st Pair n by auto
  show ?thesis
    unfolding games_step_def Pair using made fold_mark_inv
    by (auto simp: Let_def split: option.split)
qed

lemma games_step_count: "snd (games_step C k p st) \<le> Suc (snd st)"
  by (cases st) (auto simp: games_step_def Let_def split: option.split)

lemma fold_games_inv:
  assumes "context_ok C" "fresh_upto C N old" "games_inv C old st" "\<forall>p \<in> set ps. hex64 p" "snd st + length ps \<le> N"
  shows "games_inv C old (fold (games_step C k) ps st)"
  using assms(3-)
proof (induction ps arbitrary: st)
  case (Cons p ps)
  have "games_inv C old (games_step C k p st)"
    using Cons.prems by (intro games_step_inv [OF assms(1,2)]) auto
  then show ?case
    using Cons.IH [of "games_step C k p st"] Cons.prems games_step_count [of C k p st] by simp
qed simp

lemma games_owners_hex:
  assumes "inv_keep k"
  shows "\<forall>p \<in> set (games_owners k). hex64 p"
proof
  fix p
  assume "p \<in> set (games_owners k)"
  then consider "p \<in> set (vk_personas k)" | i where "i \<in> set (vk_invites k)" "vi_gamesFor i = Some p"
    by (auto simp: games_owners_def split: option.splits if_splits)
  then show "hex64 p"
  proof cases
    case 1
    then show ?thesis
      using inv_keepD(2,8) [OF assms] by (auto simp: links_inv_def ok_links_def list_all_iff)
  next
    case 2
    then show ?thesis
      using inv_keepD(4) [OF assms] by (auto simp: list_all_iff ok_invite_def)
  qed
qed

lemma link_all_inv:
  assumes "base_inv k" "\<forall>p \<in> set ps. hex64 p"
  defines "k' \<equiv> fold (\<lambda>p added. or_else (linkPersona added p) added) ps k"
  shows "base_inv k'" "vk_update k' = vk_update k" "vk_rev k' = vk_rev k" "vk_keep k' = vk_keep k"
    "map_of (vk_links k) q \<noteq> None \<Longrightarrow> map_of (vk_links k') q = map_of (vk_links k) q"
proof -
  have one: "base_inv (or_else (linkPersona j p) j) \<and> vk_update (or_else (linkPersona j p) j) = vk_update j
      \<and> vk_rev (or_else (linkPersona j p) j) = vk_rev j \<and> vk_keep (or_else (linkPersona j p) j) = vk_keep j
      \<and> (\<forall>q. map_of (vk_links j) q \<noteq> None \<longrightarrow> map_of (vk_links (or_else (linkPersona j p) j)) q = map_of (vk_links j) q)"
    if "base_inv j" "hex64 p" for j p
  proof (cases "linkPersona j p")
    case (Some j')
    have "map_of (vk_links j) p = None"
      using Some by (simp add: linkPersona_def isLinked_def split: if_splits)
    then have "map_of (vk_links j') q = map_of (vk_links j) q" if "map_of (vk_links j) q \<noteq> None" for q
      using linkPersona_inv(2) [OF \<open>base_inv j\<close> \<open>hex64 p\<close> Some, of q] that by (cases "q = p") simp_all
    then show ?thesis
      using linkPersona_inv(1,3,4,5) [OF that Some] Some by (simp add: or_else_def)
  qed (use that in \<open>simp add: or_else_def\<close>)
  have "base_inv k' \<and> vk_update k' = vk_update k \<and> vk_rev k' = vk_rev k \<and> vk_keep k' = vk_keep k
     \<and> (\<forall>q. map_of (vk_links k) q \<noteq> None \<longrightarrow> map_of (vk_links k') q = map_of (vk_links k) q)"
    unfolding k'_def
  proof (rule fold_keeps_inv)
    fix p j
    assume p: "p \<in> set ps" and j: "base_inv j \<and> vk_update j = vk_update k \<and> vk_rev j = vk_rev k \<and> vk_keep j = vk_keep k
     \<and> (\<forall>q. map_of (vk_links k) q \<noteq> None \<longrightarrow> map_of (vk_links j) q = map_of (vk_links k) q)"
    show "base_inv (or_else (linkPersona j p) j) \<and> vk_update (or_else (linkPersona j p) j) = vk_update k
        \<and> vk_rev (or_else (linkPersona j p) j) = vk_rev k \<and> vk_keep (or_else (linkPersona j p) j) = vk_keep k
     \<and> (\<forall>q. map_of (vk_links k) q \<noteq> None \<longrightarrow> map_of (vk_links (or_else (linkPersona j p) j)) q = map_of (vk_links k) q)"
      using one [of j p] j p assms(2) by simp
  qed (use assms(1) in simp)
  then show "base_inv k'" "vk_update k' = vk_update k" "vk_rev k' = vk_rev k" "vk_keep k' = vk_keep k"
    "map_of (vk_links k) q \<noteq> None \<Longrightarrow> map_of (vk_links k') q = map_of (vk_links k) q"
    by auto
qed

lemma pickSigner_active: "pickSigner k canSign prefer = Some s \<Longrightarrow> isActiveOwner k s \<and> canSign s"
  by (auto simp: pickSigner_def dest: find_SomeD)

lemma active_signer_ok: "inv_keep k \<Longrightarrow> isActiveOwner k s \<Longrightarrow> signer_ok k s"
  by (auto simp: isActiveOwner_def signer_ok_def dest: links_invD [OF inv_keepD(2)] split: option.splits)

lemma link_fresh_inv:
  assumes k: "inv_keep k" and C: "context_ok C"
  shows "\<exists>k'. link_fresh C k = Some k' \<and> inv_keep k' \<and> vk_keep k' = vk_keep k \<and> vk_invites k' = vk_invites k"
proof -
  define fresh where "fresh = take (KEEP_MAX_OWNER_PERSONAS - length (vk_personas k))
      (filter (\<lambda>p. p \<notin> set (vk_seen k) \<and> \<not> isLinked k p) (rc_eligible C))"
  have fresh: "\<forall>p \<in> set fresh. hex64 p"
    using C by (auto simp: fresh_def context_ok_def list_all_iff dest: in_set_takeD)
  let ?k = "fold (\<lambda>p added. or_else (linkPersona added p) added) fresh k"
  note all = link_all_inv [OF inv_base [OF k] fresh]
  have inv: "vk_invites ?k = vk_invites k"
    by (rule fold_keeps_inv) (auto simp: or_else_def linkPersona_def note_seen_def split: option.split)
  have comp: "\<exists>k'. composeUpdate ?k s (rc_now C) = Some k' \<and> inv_keep k' \<and> vk_keep k' = vk_keep k \<and> vk_invites k' = vk_invites k"
    if "isActiveOwner k s" "canCompose k" for s
  proof -
    have "map_of (vk_links k) s \<noteq> None"
      using that(1) by (auto simp: isActiveOwner_def split: option.splits)
    then have "signer_ok ?k s"
      using active_signer_ok [OF k that(1)] all(5) [of s] by (simp add: signer_ok_def)
    moreover have "canCompose ?k"
      using that(2) all(2,3) by (simp add: canCompose_def last_rev_def update_rev_def)
    ultimately have "inv_keep (composed ?k s (rc_now C))"
      using all(1) C by (intro composed_inv) (auto simp: context_ok_def)
    then show ?thesis
      using base_invD(3,4) [OF all(1)] \<open>canCompose ?k\<close> all(4) inv
      by (auto simp: composeUpdate_composed composed_def)
  qed
  show ?thesis
    unfolding link_fresh_def Let_def fresh_def [symmetric]
    using k comp pickSigner_active by (auto split: option.split if_splits)
qed

lemma length_link_all:
  fixes ps :: "ustr list"
  assumes "vk_personas k = map fst (vk_links k)"
  defines "k' \<equiv> fold (\<lambda>p added. or_else (linkPersona added p) added) ps k"
  shows "vk_personas k' = map fst (vk_links k') \<and> length (vk_personas k') \<le> length (vk_personas k) + length ps"
  using assms(1) unfolding k'_def
proof (induction ps arbitrary: k)
  case (Cons p ps)
  let ?j = "or_else (linkPersona k p) k"
  have "length (AList.update p l m) \<le> Suc (length m)" for l and m :: "(ustr \<times> persona_link) list"
    by (induction m) auto
  then have "vk_personas ?j = map fst (vk_links ?j) \<and> length (vk_personas ?j) \<le> Suc (length (vk_personas k))"
    using Cons.prems by (auto simp: or_else_def linkPersona_def note_seen_def withLinks_def split: option.split)
  then show ?case
    using Cons.IH [of ?j] by auto
qed simp

lemma link_all_distinct:
  fixes ps :: "ustr list"
  assumes "distinct (map fst (vk_links k))"
  shows "distinct (map fst (vk_links (fold (\<lambda>p added. or_else (linkPersona added p) added) ps k)))"
proof (rule fold_keeps_inv [where I = "\<lambda>j. distinct (map fst (vk_links j))", OF assms])
  fix p and j :: stored_keep
  assume "distinct (map fst (vk_links j))"
  moreover have "vk_links j' = AList.update p \<lparr>vl_sections = [KEEP_SECTION_GAMES], vl_addedRev = None, vl_active = False, vl_accept = None\<rparr> (vk_links j)"
    if "linkPersona j p = Some j'" for j'
    using that by (simp add: linkPersona_def note_seen_def withLinks_def split: if_split_asm) auto
  ultimately show "distinct (map fst (vk_links (or_else (linkPersona j p) j)))"
    by (cases "linkPersona j p") (simp_all add: or_else_def AList.distinct_update)
qed

lemma length_link_fresh:
  assumes k: "inv_keep k" and r: "link_fresh C k = Some k'"
  shows "length (vk_personas k') \<le> length (vk_personas k) + length (rc_eligible C)"
proof -
  define fresh where "fresh = take (KEEP_MAX_OWNER_PERSONAS - length (vk_personas k))
      (filter (\<lambda>p. p \<notin> set (vk_seen k) \<and> \<not> isLinked k p) (rc_eligible C))"
  have "length fresh \<le> length (rc_eligible C)"
    unfolding fresh_def by (metis length_filter_le length_take min.cobounded1 min.commute order_trans)
  let ?k = "fold (\<lambda>p added. or_else (linkPersona added p) added) fresh k"
  have "distinct (map fst (vk_links ?k))"
    using inv_keepD(3) [OF k] by (intro link_all_distinct) (simp add: ok_links_def)
  then have comp: "length (vk_personas k2) = length (vk_personas ?k)" if "composeUpdate ?k s now = Some k2" for k2 s now
    using that length_link_all [OF inv_keepD(8) [OF k], of fresh]
    by (auto simp: composeUpdate_composed composed_def withLinks_def split: if_splits)
  have "k' = k \<or> (\<exists>s. composeUpdate ?k s (rc_now C) = Some k')"
    using r unfolding link_fresh_def Let_def fresh_def [symmetric] by (auto split: if_splits option.splits)
  then show ?thesis
    using comp length_link_all [OF inv_keepD(8) [OF k], of fresh] \<open>length fresh \<le> _\<close> by auto
qed

lemma length_games_owners: "length (games_owners k) \<le> length (vk_personas k) + length (vk_invites k)"
proof -
  let ?f = "\<lambda>i. case vi_gamesFor i of None \<Rightarrow> [] | Some p \<Rightarrow> if p = [] then [] else [p]"
  have one: "length (?f i) \<le> 1" for i :: stored_invite
    by (simp split: option.split)
  have "length (concat (map ?f is)) \<le> length is" for "is" :: "stored_invite list"
  proof (induction "is")
    case (Cons i "is")
    then show ?case
      using one [of i] by simp
  qed simp
  then have "length (vk_personas k @ concat (map ?f (vk_invites k))) \<le> length (vk_personas k) + length (vk_invites k)"
    by simp
  then show ?thesis
    unfolding games_owners_def using length_uniq order_trans by blast
qed

lemma reconcileKeep_inv:
  assumes k: "inv_keep k" and C: "context_ok C" and f: "fresh_upto C (draws C k) (vi_grant ` set (vk_invites k))"
  shows "\<exists>k'. reconcileKeep k C = Some k' \<and> inv_keep k' \<and> vk_keep k' = vk_keep k"
proof -
  obtain k1 where k1: "link_fresh C k = Some k1" "inv_keep k1" "vk_keep k1 = vk_keep k" "vk_invites k1 = vk_invites k"
    using link_fresh_inv [OF k C] by blast
  have "length (games_owners k1) \<le> draws C k"
    using length_games_owners [of k1] length_link_fresh [OF k k1(1)] k1(4) by (simp add: draws_def)
  then have "games_inv C (vi_grant ` set (vk_invites k1)) (fold (games_step C k1) (games_owners k1) (vk_invites k1, 0))"
    using f k1 games_owners_hex [OF k1(2)] inv_keepD(4,5) [OF k1(2)]
    by (intro fold_games_inv [OF C, of "draws C k"]) (auto simp: games_inv_def)
  then have "inv_keep (k1\<lparr>vk_invites := fst (fold (games_step C k1) (games_owners k1) (vk_invites k1, 0))\<rparr>)"
    by (intro inv_keep_invites k1) (auto simp: games_inv_def)
  then show ?thesis
    using k k1 by (auto simp: reconcileKeep_def)
qed

end
