(* ===== verification/Keep_System.thy ===== *)
theory Keep_System
  imports Keep_Run
begin

text \<open>
  The stored Keeps as a system: a step relation with one rule per action of the app and one for what
  arrives from the Keeps, the runs from an empty list, and what holds in every state they reach.
\<close>

section \<open>Steps\<close>

text \<open>
  What arrives is what the readers of \<open>Keep_Messages\<close> accepted; the keys and the random hex come from
  the account, the pairing link and the random generator of the platform, whose grants are new.
\<close>

definition arrived :: "keep_message \<times> ustr \<times> int \<Rightarrow> bool" where
  "arrived q = (case q of (m, persona, wrapAt) \<Rightarrow>
     (\<exists>rumor keep. read_rumor rumor keep persona = Some m) \<and> hex64 persona \<and> safe_int wrapAt)"

inductive keeps_step :: "stored_keep list \<Rightarrow> stored_keep list \<Rightarrow> bool" where
  claimed: "keeps_step ks ks'"
    if "claimKeep ks link claimedBy scope canSign now = Some (result, ks')" "hex64 (pl_keep link)" "hex32 (pl_code link)"
      "hex64 claimedBy" "clock_ok now"
| invited: "keeps_step ks ks'"
    if "createInvite ks keep q actor canSign grant secret now = Inr ks'" "hex32 grant" "hex64 secret" "clock_ok now"
      "\<forall>k \<in> set ks. grant \<notin> vi_grant ` set (vk_invites k)"
| invite_resent: "keeps_step ks ks'" if "resendInvite ks keep invite actor canSign now = Inr ks'" "clock_ok now"
| invite_revoked: "keeps_step ks (revokeInvite ks keep grant now)" if "clock_ok now"
| pass_revoked: "keeps_step ks (revokePass ks keep grant now)" if "clock_ok now"
| switched: "keeps_step ks ks'" if "setReturnPasses ks keep actor on canSign now = Inr ks'" "clock_ok now"
| sent: "keeps_step ks (snd (resendOutstanding ks canSign openKeep now))" if "clock_ok now"
| reconciled: "keeps_step ks ks'"
    if "reconcileKeeps ks C = Some ks'" "context_ok C" "\<forall>k \<in> set ks. fresh_for C k"
| owners_changed: "keeps_step ks ks'"
    if "changeOwners ks keep actor c C = Inr ks'" "context_ok C" "\<forall>k \<in> set ks. fresh_for C k"
      "\<forall>p. c = Link_persona p \<longrightarrow> hex64 p"
| games_retried: "keeps_step ks ks'"
    if "retryGamesInvite ks keep actor p C = Inr ks'" "context_ok C" "\<forall>k \<in> set ks. fresh_for C k" "hex64 p"
| forgotten: "keeps_step ks (forgetKeep ks keep)"
| received: "keeps_step ks ks'"
    if "applyAckEvents ks reads now = Some ks'" "\<forall>q \<in> set reads. arrived q" "clock_ok now"

inductive_cases keeps_stepE: "keeps_step ks ks'"

section \<open>Every step keeps the invariant\<close>

lemma newPendingKeep_inv:
  assumes "hex64 (pl_keep link)" "hex32 (pl_code link)" "hex64 who" "clock_ok now"
  shows "inv_keep (newPendingKeep (pl_keep link) name relays who (pl_code link) now scope)"
  using assms claimer_link_ok
  by (simp add: inv_keep_def base_inv_def ok_keep_def newPendingKeep_def links_inv_def ok_links_def claimer_link_def passes_of_def or_else_def)

lemma repaired_links_inv:
  assumes k: "inv_keep k"
  shows "links_inv (repaired_links k)" "map_of (repaired_links k) (vk_claimedBy k) \<noteq> None"
    "vl_active (the (map_of (repaired_links k) (vk_claimedBy k)))"
proof -
  let ?c = "vk_claimedBy k"
  have m: "ok_links (vk_links k)" and c: "hex64 ?c"
    using inv_keepD(1,3) [OF k] by (auto simp: ok_keep_def)
  let ?rest = "map (\<lambda>(p, l). (p, l\<lparr>vl_accept := None, vl_active := False\<rparr>)) (filter (\<lambda>(p, l). p \<noteq> ?c) (vk_links k))"
  have keys: "map fst ?rest = map fst (filter (\<lambda>(p, l). p \<noteq> ?c) (vk_links k))"
    by (simp add: comp_def case_prod_unfold)
  have "distinct (map fst ?rest)" "?c \<notin> set (map fst ?rest)"
    unfolding keys using m by (auto simp: ok_links_def distinct_map_filter)
  moreover have "list_all (\<lambda>(p, l). hex64 p \<and> ok_link l) ?rest"
    using m by (auto simp: ok_links_def list_all_iff ok_link_def)
  moreover obtain mine where mine: "repaired_links k = (?c, mine) # ?rest" "vl_active mine" "vl_accept mine = None" "ok_link mine"
  proof
    let ?mine = "case map_of (vk_links k) ?c of None \<Rightarrow> claimer_link
         | Some l \<Rightarrow> \<lparr>vl_sections = vl_sections l,
             vl_addedRev = Some (case vl_addedRev l of None \<Rightarrow> 0 | Some r \<Rightarrow> r), vl_active = True, vl_accept = None\<rparr>"
    show "repaired_links k = (?c, ?mine) # ?rest"
      by (simp add: repaired_links_def Let_def)
    show "vl_active ?mine" "vl_accept ?mine = None"
      by (simp_all add: claimer_link_def split: option.split)
    show "ok_link ?mine"
      using m claimer_link_ok by (auto simp: ok_links_def list_all_iff ok_link_def or_else_def dest!: map_of_SomeD split: option.split)
  qed
  ultimately show "links_inv (repaired_links k)" "map_of (repaired_links k) ?c \<noteq> None"
    "vl_active (the (map_of (repaired_links k) ?c))"
    using c by (auto simp: links_inv_def ok_links_def)
qed

lemma repairKeep_inv:
  assumes k: "inv_keep k" and "hex32 code" "clock_ok now"
  shows "inv_keep (repairKeep k name relays code now scope)"
proof -
  have invs: "list_all ok_invite (map repaired_invite (vk_invites k))" "distinct (map vi_grant (map repaired_invite (vk_invites k)))"
    using inv_keepD(4,5) [OF k]
    by (auto simp: list_all_iff repaired_invite_def ok_invite_def intro!: distinct_map_same simp del: map_map)
  have "pred_option ok_settings (map_option (\<lambda>s. restartedSettings s now) (vk_settings k))"
    using inv_keepD(1) [OF k] assms(3) by (cases "vk_settings k") (auto simp: ok_keep_def ok_settings_def restartedSettings_def)
  moreover have "safe_int (max (vk_rev k) (update_rev k))" "0 \<le> max (vk_rev k) (update_rev k)"
    using update_rev_bounds [OF inv_base [OF k]] by (auto simp: last_rev_def)
  ultimately show ?thesis
    using k invs assms(2,3) repaired_links_inv(1) [OF k] inv_keepD(1,7) [OF k]
    by (auto simp: inv_keep_def base_inv_def ok_keep_def repairKeep_def links_inv_def passes_of_def)
qed

lemma claimKeep_can: "claimKeep ks link who scope canSign now = Some r \<Longrightarrow> canSign who"
  by (simp add: claimKeep_def split: if_splits)

lemma claimKeep_inv:
  assumes "inv_keeps ks" "claimKeep ks link who scope canSign now = Some (r, ks')" "hex64 (pl_keep link)" "hex32 (pl_code link)"
    "hex64 who" "clock_ok now"
  shows "inv_keeps ks'"
proof (cases "findKeep ks (pl_keep link)")
  case None
  then show ?thesis
    using assms claimKeep_can [OF assms(2)] newPendingKeep_inv [of link who now] by (auto simp: claimKeep_def intro: withKeep_inv)
next
  case (Some k)
  let ?r = "repairKeep k (pl_name link) (pl_relays link) (pl_code link) now (Some scope)"
  have r: "inv_keep ?r"
    using assms findKeep_inv [OF assms(1) Some] by (intro repairKeep_inv) auto
  have claimer: "signer_ok ?r (vk_claimedBy k)"
    using repaired_links_inv [OF findKeep_inv [OF assms(1) Some]] inv_keepD(1) [OF findKeep_inv [OF assms(1) Some]]
    by (auto simp: signer_ok_def repairKeep_def ok_keep_def split: option.split)
  have "inv_keep k'" if "composeUpdate ?r (vk_claimedBy k) now = Some k'" for k'
    using that base_invD(3,4) [OF inv_base [OF r]] composed_inv [OF inv_base [OF r] claimer assms(6)]
    by (auto simp: composeUpdate_composed split: if_splits)
  then show ?thesis
    using assms(1,2) claimKeep_can [OF assms(2)] Some r by (auto simp: claimKeep_def Let_def intro: withKeep_inv split: if_splits)
qed

lemma made_invite_ok:
  assumes "iq_kind q = Personal \<longrightarrow> (\<exists>p \<in> set_option (iq_persona q). hex64 p)" "hex32 g" "hex64 s" "clock_ok now"
  shows "ok_invite (made_invite q g s now)"
  using assms clock_safe [of now KEEP_GUEST_PASS_S] clock_safe [of now KEEP_PERSONAL_INVITE_S]
  by (cases "iq_kind q") (auto simp: ok_invite_def made_invite_def KEEP_GUEST_PASS_S_def KEEP_PERSONAL_INVITE_S_def)

lemma apply_message_inv:
  assumes ks: "inv_keeps ks" and m: "read_rumor rumor keep persona = Some m" and now: "clock_ok now"
  shows "\<exists>ks'. apply_message now m ks = Some ks' \<and> inv_keeps ks'"
proof (cases m)
  case (Report r)
  then have "report_ok r"
    using read_rumor_ok [OF m] by simp
  then show ?thesis
    using ks now Report by (auto simp: apply_message_def applyPassReport_def intro!: at_keep_inv report_pass_inv)
next
  case (Ack a)
  then have a: "ack_ok a" "safe_int (ak_time a)"
    using read_rumor_ok [OF m] by (auto simp: ack_ok_def)
  have "\<exists>ks'. applyOwnersAck ks a now = Some ks' \<and> inv_keeps ks'"
  proof (cases "findKeep ks (ak_keep a)")
    case (Some k)
    then show ?thesis
      using owners_keep_inv [OF findKeep_inv [OF ks Some] a(1) now] ks by (auto simp: applyOwnersAck_def intro: withKeep_inv)
  qed (use ks in \<open>simp add: applyOwnersAck_def\<close>)
  moreover have "inv_keeps (applySettingsAck ks a now)" "inv_keeps (applyAck ks a now)"
    using ks a now by (auto simp: applySettingsAck_def applyAck_def intro!: at_keep_inv settings_keep_inv ack_keep_inv)
  ultimately show ?thesis
    using Ack by (auto simp: apply_message_def)
qed

lemma applyAckEvents_inv:
  assumes "inv_keeps ks" "\<forall>q \<in> set reads. arrived q" "clock_ok now"
  shows "\<exists>ks'. applyAckEvents ks reads now = Some ks' \<and> inv_keeps ks'"
proof -
  have "\<exists>ks'. fold_opt (\<lambda>(m, persona, wrapAt). apply_message now m) reads ks = Some ks' \<and> inv_keeps ks'"
  proof (rule fold_opt_inv [where I = inv_keeps])
    fix q s
    assume q: "q \<in> set reads" and s: "inv_keeps s"
    obtain m persona wrapAt where m: "q = (m, persona, wrapAt)"
      by (metis prod_cases3)
    obtain rumor keep where "read_rumor rumor keep persona = Some m"
      using assms(2) q unfolding m arrived_def by blast
    from apply_message_inv [OF s this assms(3)] show "\<exists>s'. (case q of (m, persona, wrapAt) \<Rightarrow> apply_message now m) s = Some s' \<and> inv_keeps s'"
      unfolding m by simp
  qed (rule assms(1))
  then obtain ks1 where ks1: "fold_opt (\<lambda>(m, persona, wrapAt). apply_message now m) reads ks = Some ks1" "inv_keeps ks1"
    by blast
  let ?reads = "map (\<lambda>(m, persona, wrapAt). (message_keep m, persona, wrapAt)) reads"
  have ok: "\<forall>(keep, p, t) \<in> set ?reads. hex64 p \<and> safe_int t"
    using assms(2) by (auto simp: arrived_def)
  have found: "\<forall>(p, t) \<in> set found. hex64 p \<and> safe_int t" if "map_of (newest_read ?reads now) keep = Some found" for keep found
    using newest_read_ok [OF ok clock_safe0 [OF assms(3)]] that by (auto dest!: map_of_SomeD)
  have "inv_keeps (advanceAckCursors ks1 ?reads now)"
  proof -
    let ?f = "\<lambda>k. case map_of (newest_read ?reads now) (vk_keep k) of None \<Rightarrow> k | Some found \<Rightarrow> advance_cursors found k"
    have id: "vk_keep (?f k) = vk_keep k" for k
      by (simp add: advance_cursors_def split: option.split)
    have "inv_keep (?f k)" if "k \<in> set ks1" for k
      using that ks1(2) found advance_cursors_inv [of k] by (auto simp: inv_keeps_def split: option.split)
    moreover have "distinct (map vk_keep (map ?f ks1))"
      using ks1(2) id unfolding inv_keeps_def by (intro distinct_map_same) auto
    ultimately show ?thesis
      unfolding advanceAckCursors_def inv_keeps_def by (auto simp del: map_map)
  qed
  then show ?thesis
    using ks1 by (auto simp: applyAckEvents_def)
qed

lemma reconcileKeeps_inv:
  assumes ks: "inv_keeps ks" and C: "context_ok C" and f: "\<forall>k \<in> set ks. fresh_for C k"
  shows "\<exists>ks'. reconcileKeeps ks C = Some ks' \<and> inv_keeps ks'"
proof -
  have "\<exists>ks'. those (map (\<lambda>k. reconcileKeep k C) xs) = Some ks' \<and> (\<forall>k \<in> set ks'. inv_keep k) \<and> map vk_keep ks' = map vk_keep xs"
    if "\<forall>k \<in> set xs. inv_keep k \<and> fresh_for C k" for xs
    using that
  proof (induction xs)
    case (Cons x xs)
    then show ?case
      using reconcileKeep_inv [of x C] C fresh_upto_mono [of C "Suc (draws C x)" _ "draws C x"] by (fastforce simp: fresh_for_def)
  qed simp
  then show ?thesis
    using ks f unfolding inv_keeps_def reconcileKeeps_def by force
qed

lemma changed_keep_base:
  assumes k: "inv_keep k" and c: "changed_keep k c = Some k1" and p: "\<forall>p. c = Link_persona p \<longrightarrow> hex64 p"
    and actor: "isActiveOwner k actor"
  shows "base_inv k1 \<and> signer_ok k1 actor \<and> vk_keep k1 = vk_keep k \<and> vk_update k1 = vk_update k \<and> vk_rev k1 = vk_rev k"
proof -
  have s: "signer_ok k actor"
    by (rule active_signer_ok [OF k actor])
  show ?thesis
  proof (cases c)
    case (Link_persona q)
    then have j: "linkPersona k q = Some k1" "hex64 q"
      using c p by (auto simp: changed_keep_def)
    have "map_of (vk_links k) q = None"
      using j(1) by (simp add: linkPersona_def isLinked_def split: if_splits)
    then have "q \<noteq> actor"
      using actor by (auto simp: isActiveOwner_def)
    then show ?thesis
      using linkPersona_inv [OF inv_base [OF k] j(2,1)] s by (auto simp: signer_ok_def)
  next
    case (Unlink_persona q)
    then have j: "unlinkPersona k q = Some k1"
      using c by (simp add: changed_keep_def split: if_splits)
    show ?thesis
      using unlinkPersona_inv [OF inv_base [OF k] j] s by (auto simp: signer_ok_def)
  next
    case (Set_games q on)
    then have j: "setSection k q KEEP_SECTION_GAMES on = Some k1"
      using c by (simp add: changed_keep_def)
    have "map_option vl_active (map_of (vk_links k1) actor) = map_option vl_active (map_of (vk_links k) actor)"
      by (rule setSection_inv(2) [OF inv_base [OF k] j])
    then have "signer_ok k1 actor"
      using s by (auto simp: signer_ok_def split: option.splits)
    then show ?thesis
      using setSection_inv(1,3,4,5) [OF inv_base [OF k] j] by simp
  next
    case Retry_update
    then show ?thesis
      using c k s inv_base by (auto simp: changed_keep_def split: if_splits option.splits)
  qed
qed

lemma changed_keep_size:
  assumes "inv_keep k" "changed_keep k c = Some k1"
  shows "vk_invites k1 = vk_invites k \<and> length (vk_personas k1) \<le> Suc (length (vk_personas k))"
proof -
  have "length (AList.update p l m) \<le> Suc (length m)" "length (filter P m) \<le> Suc (length m)" for p l P and m :: "(ustr \<times> persona_link) list"
    by (induction m) auto
  then have [simp]: "length (AList.update p l (vk_links k)) \<le> Suc (length (vk_personas k))"
    "length (filter P (vk_links k)) \<le> Suc (length (vk_personas k))" for p l P
    using inv_keepD(8) [OF assms(1)] by (metis length_map)+
  show ?thesis
    using assms(2) unfolding changed_keep_def linkPersona_def unlinkPersona_def setSection_def note_seen_def withLinks_def
    by (cases c) (auto split: if_split_asm option.split_asm)
qed

lemma changeOwners_inv:
  assumes ks: "inv_keeps ks" and r: "changeOwners ks keep actor c C = Inr ks'" and C: "context_ok C"
    and f: "\<forall>k \<in> set ks. fresh_for C k" and p: "\<forall>p. c = Link_persona p \<longrightarrow> hex64 p"
  shows "inv_keeps ks'"
proof -
  obtain k where k: "findKeep ks keep = Some k" and actor: "isActiveOwner k actor"
    and rest: "(case changed_keep k c of
              None \<Rightarrow> (case c of Link_persona p \<Rightarrow> Inl Not_linkable | Unlink_persona p \<Rightarrow> Inl Last_owner | _ \<Rightarrow> Inr ks)
            | Some k1 \<Rightarrow> check (canCompose k1) Revision_limit
                 (need (composeUpdate k1 actor (rc_now C)) Exception (\<lambda>k2.
                   need (reconcileKeep k2 C) Exception (\<lambda>k3. Inr (withKeep ks k3))))) = Inr ks'"
    using r by (auto simp: changeOwners_def check_simps)
  have inv: "inv_keep k" and fresh: "fresh_for C k"
    using findKeep_inv [OF ks k] findKeep_Some [OF k] f by auto
  show ?thesis
  proof (cases "changed_keep k c")
    case None
    then show ?thesis
      using rest ks by (auto split: owner_change.splits)
  next
    case (Some k1)
    note b = changed_keep_base [OF inv Some p actor]
    obtain k2 k3 where k2: "composeUpdate k1 actor (rc_now C) = Some k2" and k3: "reconcileKeep k2 C = Some k3" "ks' = withKeep ks k3"
      using rest Some by (auto simp: check_simps)
    have "k2 = composed k1 actor (rc_now C)" "canCompose k1"
      using k2 b base_invD(3,4) [of k1] by (auto simp: composeUpdate_composed split: if_splits)
    then have "inv_keep k2"
      using b C composed_inv [of k1 actor "rc_now C"] by (simp add: context_ok_def)
    moreover have "vk_invites k1 = vk_invites k" "length (vk_personas k1) \<le> Suc (length (vk_personas k))"
      using changed_keep_size [OF inv Some] by auto
    then have "fresh_upto C (draws C k2) (vi_grant ` set (vk_invites k2))"
      using fresh \<open>k2 = _\<close> b by (auto simp: fresh_for_def draws_def composed_def withLinks_def base_inv_def ok_keep_def
          elim!: fresh_upto_mono)
    ultimately show ?thesis
      using reconcileKeep_inv [of k2 C] C k3 ks by (auto intro: withKeep_inv)
  qed
qed

lemma retryGamesInvite_inv:
  assumes ks: "inv_keeps ks" and r: "retryGamesInvite ks keep actor p C = Inr ks'" and C: "context_ok C"
    and f: "\<forall>k \<in> set ks. fresh_for C k" and p: "hex64 p"
  shows "inv_keeps ks'"
proof -
  obtain k where k: "findKeep ks keep = Some k"
    and rest: "(case retryGames k p C of None \<Rightarrow> Inr ks | Some k' \<Rightarrow> Inr (withKeep ks k')) = (Inr ks' :: keep_error + stored_keep list)"
    using r by (auto simp: retryGamesInvite_def check_simps)
  have inv: "inv_keep k" and fresh: "fresh_for C k"
    using findKeep_inv [OF ks k] findKeep_Some [OF k] f by auto
  have "inv_keep k'" if "retryGames k p C = Some k'" for k'
    using that newGamesInvite_ok [OF C p, of 0] fresh inv_keepD(4,5) [OF inv]
    by (auto simp: retryGames_def fresh_for_def fresh_upto_def newGamesInvite_def intro!: inv_keep_invites [OF inv] split: if_splits)
  then show ?thesis
    using rest ks by (auto intro: withKeep_inv split: option.splits)
qed

lemma setReturnPasses_inv:
  assumes ks: "inv_keeps ks" and r: "setReturnPasses ks keep actor on canSign now = Inr ks'" and now: "clock_ok now"
  shows "inv_keeps ks'"
proof -
  obtain k where k: "findKeep ks keep = Some k"
    and rest: "ks' = ks \<or> (\<exists>k'. composeSettings k on now = Some k' \<and> ks' = withKeep ks k')"
    using r by (auto simp: setReturnPasses_def check_simps split: if_splits)
  then show ?thesis
    using ks composeSettings_inv [OF findKeep_inv [OF ks k] _ now] by (auto intro: withKeep_inv)
qed

lemma keeps_step_inv: "keeps_step ks ks' \<Longrightarrow> inv_keeps ks \<Longrightarrow> inv_keeps ks'"
proof (induction rule: keeps_step.induct)
  case (claimed ks link claimedBy scope canSign now result ks')
  show ?case
    by (rule claimKeep_inv [OF claimed(6,1-5)])
next
  case (invited ks keep q actor canSign grant secret now ks')
  then show ?case
    using made_invite_ok [of q grant secret now]
    by (auto simp: createInvite_def check_simps intro!: withKeep_inv withInvite_inv elim: findKeep_inv)
next
  case (invite_resent ks keep invite actor canSign now ks')
  then have "ks' = at_keep ks (vk_keep keep) (\<lambda>k. markInviteSent k (vi_grant invite) now)"
    by (auto simp: resendInvite_def check_simps)
  then show ?case
    using at_keep_inv [OF invite_resent(3), of "\<lambda>k. markInviteSent k (vi_grant invite) now"] markInviteSent_inv invite_resent(2) by simp
next
  case (invite_revoked now ks keep grant)
  show ?case
    unfolding revokeInvite_def by (rule at_keep_inv [OF invite_revoked(2)]) (simp add: markRevokeSent_inv invite_revoked(1))
next
  case (pass_revoked now ks keep grant)
  show ?case
    unfolding revokePass_def by (rule at_keep_inv [OF pass_revoked(2)]) (simp add: markPassRevokeSent_inv pass_revoked(1))
next
  case (switched ks keep actor on canSign now ks')
  show ?case
    by (rule setReturnPasses_inv [OF switched(3,1,2)])
next
  case (sent now ks canSign openKeep)
  then show ?case
    by (simp add: resendOutstanding_inv)
next
  case (reconciled ks C ks')
  then show ?case
    using reconcileKeeps_inv by fastforce
next
  case (owners_changed ks keep actor c C ks')
  show ?case
    by (rule changeOwners_inv [OF owners_changed(5,1-4)])
next
  case (games_retried ks keep actor p C ks')
  show ?case
    by (rule retryGamesInvite_inv [OF games_retried(5,1-4)])
next
  case (forgotten ks keep)
  then show ?case
    by (auto simp: forgetKeep_def inv_keeps_def distinct_map_filter)
next
  case (received ks reads now ks')
  then show ?case
    using applyAckEvents_inv by fastforce
qed

end
