(* ===== verification/Keep_Laws.thy ===== *)
theory Keep_Laws
  imports Keep_System
begin

text \<open>
  What a run of the actions keeps of one Keep: the revisions of its owner list only grow and each
  stands for one list, its invites stay, a revoked invite stays revoked and a revoke once decided
  is not taken back.
\<close>

section \<open>How one Keep may change\<close>

definition same_list :: "pending_update \<Rightarrow> pending_update \<Rightarrow> bool" where
  "same_list w w' \<longleftrightarrow> vu_rev w' = vu_rev w \<and> vu_signer w' = vu_signer w \<and> vu_personas w' = vu_personas w"

definition rev_ext :: "stored_keep \<Rightarrow> stored_keep \<Rightarrow> bool" where
  "rev_ext k k' \<longleftrightarrow> last_rev k \<le> last_rev k'
     \<and> (\<forall>w'. vk_update k' = Some w' \<longrightarrow> (\<exists>w. vk_update k = Some w \<and> same_list w w') \<or> last_rev k < vu_rev w')"

definition invite_ext :: "stored_invite \<Rightarrow> stored_invite \<Rightarrow> bool" where
  "invite_ext i i' \<longleftrightarrow> vi_grant i' = vi_grant i \<and> vi_secret i' = vi_secret i \<and> vi_kind i' = vi_kind i
     \<and> vi_persona i' = vi_persona i \<and> vi_gamesFor i' = vi_gamesFor i \<and> vi_expiration i' = vi_expiration i
     \<and> (vi_status i = Inv_revoked \<longrightarrow> vi_status i' = Inv_revoked)
     \<and> (flagged (vi_revokeSent i) \<longrightarrow> flagged (vi_revokeSent i') \<or> vi_status i' = Inv_revoked)"

definition invites_ext :: "stored_invite list \<Rightarrow> stored_invite list \<Rightarrow> bool" where
  "invites_ext is is' \<longleftrightarrow> (\<forall>i \<in> set is. \<exists>i' \<in> set is'. invite_ext i i')"

definition keep_ext :: "stored_keep \<Rightarrow> stored_keep \<Rightarrow> bool" where
  "keep_ext k k' \<longleftrightarrow> vk_keep k' = vk_keep k \<and> rev_ext k k' \<and> invites_ext (vk_invites k) (vk_invites k')"

lemma same_list_trans: "same_list w w' \<Longrightarrow> same_list w' w'' \<Longrightarrow> same_list w w''"
  by (simp add: same_list_def)

lemma invite_ext_refl [simp]: "invite_ext i i"
  by (simp add: invite_ext_def)

lemma invites_ext_refl [simp]: "invites_ext is is"
  unfolding invites_ext_def using invite_ext_refl by blast

lemma invite_ext_trans: "invite_ext i j \<Longrightarrow> invite_ext j k \<Longrightarrow> invite_ext i k"
  by (auto simp: invite_ext_def)

lemma invites_ext_trans: "invites_ext is js \<Longrightarrow> invites_ext js ks \<Longrightarrow> invites_ext is ks"
  unfolding invites_ext_def using invite_ext_trans by meson

lemma invites_ext_map: "(\<And>i. i \<in> set is \<Longrightarrow> invite_ext i (f i)) \<Longrightarrow> invites_ext is (map f is)"
  by (auto simp: invites_ext_def)

lemma invites_ext_append [simp]: "invites_ext is (is @ js)"
  by (auto simp: invites_ext_def intro: bexI [rotated])

lemma update_rev_le: "vk_update k = Some w \<Longrightarrow> vu_rev w \<le> last_rev k"
  by (simp add: last_rev_def update_rev_def)

lemma rev_ext_refl [simp]: "rev_ext k k"
  by (auto simp: rev_ext_def same_list_def)

lemma rev_ext_trans: "rev_ext k k' \<Longrightarrow> rev_ext k' k'' \<Longrightarrow> rev_ext k k''"
proof -
  assume a: "rev_ext k k'" and b: "rev_ext k' k''"
  have "(\<exists>w. vk_update k = Some w \<and> same_list w w'') \<or> last_rev k < vu_rev w''" if u: "vk_update k'' = Some w''" for w''
  proof -
    consider w' where "vk_update k' = Some w'" "same_list w' w''" | "last_rev k' < vu_rev w''"
      using b u by (auto simp: rev_ext_def)
    then show ?thesis
    proof cases
      case 1
      then show ?thesis
        using a same_list_trans by (force simp: rev_ext_def same_list_def)
    next
      case 2
      then show ?thesis
        using a by (simp add: rev_ext_def)
    qed
  qed
  moreover have "last_rev k \<le> last_rev k''"
    using a b by (simp add: rev_ext_def)
  ultimately show ?thesis
    by (simp add: rev_ext_def)
qed

lemma keep_ext_refl [simp]: "keep_ext k k"
  by (simp add: keep_ext_def)

lemma keep_ext_trans: "keep_ext k k' \<Longrightarrow> keep_ext k' k'' \<Longrightarrow> keep_ext k k''"
  unfolding keep_ext_def using rev_ext_trans invites_ext_trans by (metis (no_types, lifting))

text \<open>A change of other fields, of the invites, and of the update.\<close>

lemma keep_ext_other:
  "vk_keep k' = vk_keep k \<Longrightarrow> vk_rev k' = vk_rev k \<Longrightarrow> vk_update k' = vk_update k \<Longrightarrow> vk_invites k' = vk_invites k
     \<Longrightarrow> keep_ext k k'"
  by (auto simp: keep_ext_def rev_ext_def last_rev_def update_rev_def same_list_def)

lemma keep_ext_invites: "invites_ext (vk_invites k) is \<Longrightarrow> keep_ext k (k\<lparr>vk_invites := is\<rparr>)"
  by (auto simp: keep_ext_def rev_ext_def last_rev_def update_rev_def same_list_def)

lemma keep_ext_on_invite: "(\<And>i. i \<in> set (vk_invites k) \<Longrightarrow> vi_grant i = g \<Longrightarrow> invite_ext i (f i)) \<Longrightarrow> keep_ext k (on_invite g f k)"
  unfolding on_invite_def by (intro keep_ext_invites invites_ext_map) simp

lemma keep_ext_update:
  assumes "vk_keep k' = vk_keep k" "vk_invites k' = vk_invites k" "vk_rev k \<le> vk_rev k'"
    and "\<And>w. vk_update k = Some w \<Longrightarrow> vu_rev w \<le> last_rev k'"
    and "\<And>w'. vk_update k' = Some w' \<Longrightarrow> \<exists>w. vk_update k = Some w \<and> same_list w w'"
  shows "keep_ext k k'"
  using assms by (auto simp: keep_ext_def rev_ext_def last_rev_def [of k] update_rev_def split: option.splits)
    (auto simp: last_rev_def update_rev_def split: option.splits)

lemma composed_ext: "keep_ext k (composed k s now)"
  by (auto simp: keep_ext_def rev_ext_def composed_def last_rev_def update_rev_def)

section \<open>Every change of one Keep\<close>

lemma withInvite_ext: "vi_grant i \<notin> vi_grant ` set (vk_invites k) \<Longrightarrow> keep_ext k (withInvite k i)"
proof -
  assume "vi_grant i \<notin> vi_grant ` set (vk_invites k)"
  then have "filter (\<lambda>j. vi_grant j \<noteq> vi_grant i) (vk_invites k) = vk_invites k"
    by (metis (mono_tags, lifting) filter_True image_eqI)
  then show ?thesis
    by (simp add: withInvite_def keep_ext_invites)
qed

lemma sent_ext [simp]:
  "keep_ext k (markInviteSent k g now)" "keep_ext k (markRevokeSent k g t)" "keep_ext k (markPassRevokeSent k g now)"
  "keep_ext k (markPassesRequested k now)" "keep_ext k (markSettingsSent k now)" "keep_ext k (stamp_resend now d k)"
proof -
  show m: "keep_ext k (markInviteSent k g now)" "keep_ext k (markRevokeSent k g t)" for g t
    unfolding markInviteSent_def markRevokeSent_def by (auto intro!: keep_ext_on_invite simp: invite_ext_def flagged_def)
  show "keep_ext k (stamp_resend now d k)"
    by (cases d) (simp add: stamp_resend_def m)
qed (auto simp: markPassRevokeSent_def markPassesRequested_def markSettingsSent_def intro!: keep_ext_other)

lemma fold_ext: "(\<And>x k. keep_ext k (f x k)) \<Longrightarrow> keep_ext k (fold f xs k)"
  by (induction xs arbitrary: k) (auto intro: keep_ext_trans)

lemma markOwnersSent_ext: "keep_ext k (markOwnersSent k d now)"
proof (rule keep_ext_update)
  show "\<And>w'. vk_update (markOwnersSent k d now) = Some w' \<Longrightarrow> \<exists>w. vk_update k = Some w \<and> same_list w w'"
    by (auto simp: markOwnersSent_def Let_def withLinks_def same_list_def split: if_splits)
  show "\<And>w. vk_update k = Some w \<Longrightarrow> vu_rev w \<le> last_rev (markOwnersSent k d now)"
    by (auto simp: markOwnersSent_def Let_def withLinks_def last_rev_def update_rev_def)
qed (auto simp: markOwnersSent_def Let_def withLinks_def)

lemma send_due_ext: "keep_ext k (snd (send_due canSign asked now k))"
proof -
  have m: "keep_ext k (markOwnersSent k d now)" for d
    by (rule markOwnersSent_ext)
  have r: "keep_ext k (fold (stamp_resend now) ds j)" if "keep_ext k j" for ds j
    using that fold_ext [of "stamp_resend now" j ds] by (rule keep_ext_trans) simp
  have p: "keep_ext k (fold (\<lambda>p k. markPassRevokeSent k (vp_grant p) now) ps j)" if "keep_ext k j" for ps j
    using that fold_ext [of "\<lambda>p k. markPassRevokeSent k (vp_grant p) now" j ps] by (rule keep_ext_trans) simp
  have s: "keep_ext k (markPassesRequested j now)" "keep_ext k (markSettingsSent j now)" if "keep_ext k j" for j
    using that keep_ext_trans sent_ext by blast+
  show ?thesis
    unfolding send_due_def Let_def by (auto split: option.split intro!: s p r m)
qed

lemma ack_invite_ext: "vi_status i \<noteq> Inv_revoked \<Longrightarrow> invite_ext i (ack_invite a t i)"
  by (cases "ak_status a") (auto simp: invite_ext_def ack_invite_def acked_status_def)

lemma ack_keep_ext: "inv_keep k \<Longrightarrow> keep_ext k (ack_keep a now k)"
proof -
  assume k: "inv_keep k"
  have "keep_ext k (on_invite (vi_grant i) (\<lambda>j. ack_invite a t i) k)"
    if "i \<in> set (vk_invites k)" "vi_status i \<noteq> Inv_revoked" for i t
  proof (rule keep_ext_on_invite)
    fix j
    assume "j \<in> set (vk_invites k)" "vi_grant j = vi_grant i"
    then have "j = i"
      using inv_keepD(5) [OF k] that(1) by (auto simp: distinct_map inj_on_def)
    then show "invite_ext j (ack_invite a t i)"
      using that(2) by (simp add: ack_invite_ext)
  qed
  moreover have "keep_ext k (ack_pass a k)" "keep_ext k (ack_claim a t k)" for t
    by (auto simp: ack_pass_def ack_claim_def intro!: keep_ext_other split: option.split)
  ultimately show ?thesis
    by (auto simp: ack_keep_def Let_def dest: find_SomeD split: option.split)
qed

lemma report_pass_ext: "keep_ext k (report_pass r now k)"
  by (auto simp: report_pass_def Let_def intro!: keep_ext_other split: option.split)

lemma settings_keep_ext: "keep_ext k (settings_keep a now k)"
  by (auto simp: settings_keep_def intro!: keep_ext_other split: option.split)

lemma advance_cursors_ext: "keep_ext k (advance_cursors found k)"
  by (auto simp: advance_cursors_def intro!: keep_ext_other)

lemma composeSettings_ext: "composeSettings k on now = Some k' \<Longrightarrow> keep_ext k k'"
  by (auto simp: composeSettings_def intro!: keep_ext_other split: if_splits)

lemma repairKeep_ext: "keep_ext k (repairKeep k name relays code now scope)"
proof -
  have "invites_ext (vk_invites k) (map repaired_invite (vk_invites k))"
    by (intro invites_ext_map) (auto simp: repaired_invite_def invite_ext_def)
  then show ?thesis
    by (auto simp: keep_ext_def rev_ext_def repairKeep_def last_rev_def update_rev_def)
qed

lemma composeUpdate_ext: "composeUpdate k s now = Some k' \<Longrightarrow> keep_ext k k'"
  by (auto simp: composeUpdate_def Let_def withLinks_def keep_ext_def rev_ext_def last_rev_def update_rev_def
      split: if_splits option.splits)

lemma owner_changes_ext:
  "linkPersona k p = Some k' \<Longrightarrow> keep_ext k k'" "unlinkPersona k p = Some k' \<Longrightarrow> keep_ext k k'"
  "setSection k p sec on = Some k' \<Longrightarrow> keep_ext k k'"
  by (auto simp: linkPersona_def unlinkPersona_def setSection_def note_seen_def withLinks_def
      intro!: keep_ext_other split: if_splits option.splits)

lemma changed_keep_ext: "changed_keep k c = Some k' \<Longrightarrow> keep_ext k k'"
  by (cases c) (auto simp: changed_keep_def intro: owner_changes_ext split: if_splits)

lemma raise_rev_ext: "keep_ext k (raise_rev r k)"
  by (rule keep_ext_update) (auto simp: raise_rev_def last_rev_def update_rev_def same_list_def)

lemma on_updated_ext: "keep_ext k (on_updated a to r k)"
proof (cases "case vk_update k of None \<Rightarrow> False | Some w \<Rightarrow> answers_update a to w \<and> r = vu_rev w")
  case True
  then obtain w where w: "vk_update k = Some w" "r = vu_rev w"
    by (auto split: option.splits)
  have "keep_ext k (update_done (raise_rev r k))"
    by (rule keep_ext_update) (use w in \<open>auto simp: update_done_def withLinks_def raise_rev_def last_rev_def\<close>)
  then show ?thesis
    using True by (simp add: on_updated_def Let_def)
next
  case False
  have "keep_ext (raise_rev r k) (withLinks (raise_rev r k) m)" for m
    by (auto simp: withLinks_def intro: keep_ext_other)
  then have "keep_ext k (withLinks (raise_rev r k) m)" for m
    using raise_rev_ext keep_ext_trans by blast
  then show ?thesis
    unfolding on_updated_def Let_def if_not_P [OF False] by (auto simp: raise_rev_ext split: option.split)
qed

lemma on_pending_ext: "keep_ext k (on_pending a to r k)"
proof -
  have "keep_ext (raise_rev r k) (withLinks (raise_rev r k) m)" for m
    by (auto simp: withLinks_def intro: keep_ext_other)
  then have "keep_ext k (withLinks (raise_rev r k) m)" for m
    using raise_rev_ext keep_ext_trans by blast
  then show ?thesis
    by (auto simp: on_pending_def Let_def raise_rev_ext split: option.split)
qed

text \<open>A new note on the update leaves its list.\<close>

lemma note_update_ext: "vk_update k = Some w \<Longrightarrow> same_list w w' \<Longrightarrow> keep_ext k (k\<lparr>vk_update := Some w'\<rparr>)"
  by (rule keep_ext_update) (auto simp: last_rev_def update_rev_def same_list_def)

lemma note_any_ext: "keep_ext k k' \<Longrightarrow> (\<And>w. same_list w (f w)) \<Longrightarrow> keep_ext k (k'\<lparr>vk_update := map_option f (vk_update k')\<rparr>)"
  using keep_ext_other [of "k'\<lparr>vk_update := None\<rparr>" k']
  by (cases "vk_update k'") (auto intro: keep_ext_trans note_update_ext)

lemma on_refused_ext:
  assumes "on_refused a to now k = Some k'"
  shows "keep_ext k k'"
proof (cases "vk_update k")
  case None
  then show ?thesis
    using assms by (simp add: on_refused_def)
next
  case (Some w)
  let ?seen = "w\<lparr>vu_refusedAt := Some (ak_time a)\<rparr>"
  have fail: "keep_ext k (fail_update f ?seen k)" for f
    using note_update_ext [OF Some, of "?seen\<lparr>vu_failed := Some f\<rparr>"] by (simp add: fail_update_def same_list_def)
  have nx: "keep_ext k ((raise_rev r k)\<lparr>vk_update := Some ?seen\<rparr>)" for r
    using keep_ext_trans [OF raise_rev_ext note_update_ext] Some by (simp add: raise_rev_def same_list_def)
  have nx_fail: "keep_ext k (fail_update f ?seen ((raise_rev r k)\<lparr>vk_update := Some ?seen\<rparr>))" for r f
    using keep_ext_trans [OF nx [of r] note_update_ext [of _ ?seen "?seen\<lparr>vu_failed := Some f\<rparr>"]]
    by (simp add: fail_update_def same_list_def)
  have again: "keep_ext k (k2\<lparr>vk_update := map_option (\<lambda>w. w\<lparr>vu_retried := Some True\<rparr>) (vk_update k2)\<rparr>)"
    if "composeUpdate ((raise_rev r k)\<lparr>vk_update := Some ?seen\<rparr>) (vu_signer w) now = Some k2" for r k2
    using keep_ext_trans [OF nx composeUpdate_ext [OF that]] by (rule note_any_ext) (simp add: same_list_def)
  show ?thesis
    using assms Some fail nx_fail again
    by (auto simp: on_refused_def Let_def split: if_splits option.splits refusal_reason.splits)
qed

lemma owners_keep_ext: "owners_keep a now k = Some k' \<Longrightarrow> keep_ext k k'"
  by (auto simp: owners_keep_def on_updated_ext on_pending_ext intro: on_refused_ext split: if_splits option.splits ack_status.splits)

section \<open>Reconciliation\<close>

lemma mark_grant_ext: "invites_ext is (mark_grant i is)"
  unfolding mark_grant_def by (intro invites_ext_map) (auto simp: invite_ext_def to_revoke_def flagged_def)

lemma fold_mark_ext: "invites_ext is (fold mark_grant xs is)"
  by (induction xs arbitrary: "is") (auto intro: invites_ext_trans mark_grant_ext)

lemma games_step_ext: "invites_ext (fst st) (fst (games_step C k p st))"
proof -
  have "invites_ext is (fold mark_grant xs (is @ [i]))" for "is" xs i
    by (rule invites_ext_trans [OF invites_ext_append fold_mark_ext])
  then show ?thesis
    by (cases st) (auto simp: games_step_def Let_def fold_mark_ext split: option.split)
qed

lemma fold_games_ext: "invites_ext (fst st) (fst (fold (games_step C k) ps st))"
proof (induction ps arbitrary: st)
  case (Cons p ps)
  show ?case
    using invites_ext_trans [OF games_step_ext Cons.IH] by simp
qed simp

lemma link_all_ext: "keep_ext k (fold (\<lambda>p added. or_else (linkPersona added p) added) ps k)"
proof (rule fold_ext)
  show "keep_ext k (or_else (linkPersona k p) k)" for p k
    using owner_changes_ext(1) [of k p] by (cases "linkPersona k p") (auto simp: or_else_def)
qed

lemma link_fresh_ext: "link_fresh C k = Some k' \<Longrightarrow> keep_ext k k'"
  by (auto simp: link_fresh_def Let_def intro: keep_ext_trans [OF link_all_ext composeUpdate_ext] split: if_splits option.splits)

lemma reconcileKeep_ext: "reconcileKeep k C = Some k' \<Longrightarrow> keep_ext k k'"
proof -
  assume r: "reconcileKeep k C = Some k'"
  show ?thesis
  proof (cases "vk_status k = Keep_paired")
    case True
    then obtain k1 where k1: "link_fresh C k = Some k1"
        "k' = k1\<lparr>vk_invites := fst (fold (games_step C k1) (games_owners k1) (vk_invites k1, 0))\<rparr>"
      using r by (auto simp: reconcileKeep_def)
    then show ?thesis
      using keep_ext_trans [OF link_fresh_ext [OF k1(1)] keep_ext_invites] fold_games_ext [of "(vk_invites k1, 0)"] by simp
  qed (use r in \<open>simp add: reconcileKeep_def\<close>)
qed

section \<open>Every step\<close>

lemma ext_list_refl: "list_all2 keep_ext ks ks"
  by (simp add: list_all2_refl)

lemma ext_list_trans: "list_all2 keep_ext ks ks1 \<Longrightarrow> list_all2 keep_ext ks1 ks2 \<Longrightarrow> list_all2 keep_ext ks ks2"
  by (rule list_all2_trans) (auto intro: keep_ext_trans)

lemma ext_withKeep:
  assumes "list_all2 keep_ext ks next_ks" "distinct (map vk_keep ks)" "k \<in> set ks" "keep_ext k k'"
  shows "list_all2 keep_ext ks (withKeep next_ks k')"
proof -
  have ids: "map vk_keep next_ks = map vk_keep ks"
    using assms(1) by (induction rule: list_all2_induct) (auto simp: keep_ext_def)
  have "vk_keep k' \<in> set (map vk_keep next_ks)"
    unfolding ids using assms(3,4) by (auto simp: keep_ext_def)
  then have w: "withKeep next_ks k' = map (\<lambda>x. if vk_keep x = vk_keep k' then k' else x) next_ks"
    by (auto simp: withKeep_def)
  show ?thesis
    unfolding w list_all2_conv_all_nth
  proof (intro conjI allI impI)
    show "length ks = length (map (\<lambda>x. if vk_keep x = vk_keep k' then k' else x) next_ks)"
      using assms(1) by (simp add: list_all2_lengthD)
    fix n
    assume n: "n < length ks"
    have e: "keep_ext (ks ! n) (next_ks ! n)" and len: "n < length next_ks"
      using assms(1) n by (auto simp: list_all2_conv_all_nth)
    have "ks ! n = k" if "vk_keep (next_ks ! n) = vk_keep k'"
      using that e n assms(2-4) by (auto simp: keep_ext_def distinct_map inj_on_def)
    then show "keep_ext (ks ! n) (map (\<lambda>x. if vk_keep x = vk_keep k' then k' else x) next_ks ! n)"
      using e assms(4) len by auto
  qed
qed

lemma ext_found:
  "inv_keeps ks \<Longrightarrow> findKeep ks keep = Some k \<Longrightarrow> keep_ext k k' \<Longrightarrow> list_all2 keep_ext ks (withKeep ks k')"
  by (rule ext_withKeep [OF ext_list_refl]) (auto simp: inv_keeps_def dest: findKeep_Some)

lemma ext_at_keep:
  "inv_keeps ks \<Longrightarrow> (\<And>k. inv_keep k \<Longrightarrow> keep_ext k (f k)) \<Longrightarrow> list_all2 keep_ext ks (at_keep ks keep f)"
  using ext_found findKeep_inv by (auto simp: at_keep_def ext_list_refl split: option.split)

lemma resendOutstanding_ext:
  assumes "inv_keeps ks"
  shows "list_all2 keep_ext ks (snd (resendOutstanding ks canSign asked now))"
proof -
  let ?f = "\<lambda>k (batch, nx). case send_due canSign asked now k of
          ([], k') \<Rightarrow> (batch, nx) | (out, k') \<Rightarrow> (batch @ map (Pair (vk_keep k)) out, withKeep nx k')"
  have "list_all2 keep_ext ks (snd (fold ?f ks ([], ks)))"
  proof (rule fold_keeps_inv [where I = "\<lambda>s. list_all2 keep_ext ks (snd s)"])
    fix x and s :: "(ustr \<times> ustr \<times> outgoing) list \<times> stored_keep list"
    assume "x \<in> set ks" "list_all2 keep_ext ks (snd s)"
    then show "list_all2 keep_ext ks (snd (?f x s))"
      using ext_withKeep [of ks "snd s" x "snd (send_due canSign asked now x)"] assms send_due_ext [of x]
      by (auto simp: case_prod_unfold inv_keeps_def split: list.split)
  qed (simp add: ext_list_refl)
  then show ?thesis
    by (simp add: resendOutstanding_def)
qed

lemma apply_message_ext:
  assumes ks: "inv_keeps ks" and r: "apply_message now m ks = Some ks'"
  shows "list_all2 keep_ext ks ks'"
proof (cases m)
  case (Report q)
  then show ?thesis
    using r ks by (auto simp: apply_message_def applyPassReport_def report_pass_ext intro!: ext_at_keep)
next
  case (Ack a)
  have "list_all2 keep_ext ks (applyAck ks a now)" "list_all2 keep_ext ks (applySettingsAck ks a now)"
    unfolding applyAck_def applySettingsAck_def using ks by (auto intro!: ext_at_keep ack_keep_ext settings_keep_ext)
  moreover have "list_all2 keep_ext ks x" if "applyOwnersAck ks a now = Some x" for x
    using that ks owners_keep_ext ext_found by (auto simp: applyOwnersAck_def ext_list_refl split: option.splits)
  ultimately show ?thesis
    using r Ack by (auto simp: apply_message_def split: if_splits)
qed

lemma applyAckEvents_ext:
  assumes "inv_keeps ks" "\<forall>q \<in> set reads. arrived q" "clock_ok now" "applyAckEvents ks reads now = Some ks'"
  shows "list_all2 keep_ext ks ks'"
proof -
  obtain ks1 where ks1: "fold_opt (\<lambda>(m, persona, wrapAt). apply_message now m) reads ks = Some ks1"
    and ks': "ks' = advanceAckCursors ks1 (map (\<lambda>(m, persona, wrapAt). (message_keep m, persona, wrapAt)) reads) now"
    using assms(4) by (auto simp: applyAckEvents_def)
  have "list_all2 keep_ext ks ks1"
    using assms(1,2) ks1
  proof (induction reads arbitrary: ks)
    case (Cons q reads)
    obtain m persona wrapAt where q: "q = (m, persona, wrapAt)"
      by (metis prod_cases3)
    obtain ks2 where ks2: "apply_message now m ks = Some ks2" "fold_opt (\<lambda>(m, persona, wrapAt). apply_message now m) reads ks2 = Some ks1"
      using Cons.prems(3) unfolding q fold_opt.simps prod.case by (cases "apply_message now m ks") (simp_all only: option.case, blast+)
    obtain rumor keep where "read_rumor rumor keep persona = Some m"
      using Cons.prems(2) by (auto simp: q arrived_def)
    then have "inv_keeps ks2"
      using apply_message_inv [OF Cons.prems(1) _ assms(3), of rumor keep persona m] ks2(1) by auto
    then have "list_all2 keep_ext ks2 ks1"
      using Cons.IH [OF _ _ ks2(2)] Cons.prems(2) by simp
    then show ?case
      by (rule ext_list_trans [OF apply_message_ext [OF Cons.prems(1) ks2(1)]])
  qed (simp add: ext_list_refl)
  moreover have "list_all2 keep_ext ks1 ks'"
    unfolding ks' advanceAckCursors_def list_all2_map2
    by (rule list_all2_refl) (simp add: advance_cursors_ext split: option.split)
  ultimately show ?thesis
    by (rule ext_list_trans)
qed

text \<open>A step changes the Keeps it leaves, adds one at the end, or forgets one.\<close>

lemma keeps_step_ext:
  "keeps_step ks ks' \<Longrightarrow> inv_keeps ks \<Longrightarrow>
     list_all2 keep_ext ks ks' \<or> (\<exists>k. vk_keep k \<notin> vk_keep ` set ks \<and> ks' = ks @ [k]) \<or> (\<exists>keep. ks' = forgetKeep ks keep)"
proof (induction rule: keeps_step.induct)
  case (claimed ks link claimedBy scope canSign now result ks')
  show ?case
  proof (cases "findKeep ks (pl_keep link)")
    case None
    then have "\<not> (\<exists>k \<in> set ks. vk_keep k = pl_keep link)"
      by (auto simp: findKeep_def find_None_iff)
    moreover let ?k = "newPendingKeep (pl_keep link) (pl_name link) (pl_relays link) claimedBy (pl_code link) now scope"
    have "vk_keep ?k = pl_keep link"
      by (simp add: newPendingKeep_def)
    ultimately have "vk_keep ?k \<notin> vk_keep ` set ks" "ks' = ks @ [?k]"
      using claimed(1) claimKeep_can [OF claimed(1)] None by (auto simp: claimKeep_def withKeep_def)
    then show ?thesis
      by blast
  next
    case (Some k)
    let ?r = "repairKeep k (pl_name link) (pl_relays link) (pl_code link) now (Some scope)"
    have "keep_ext k k'" if "composeUpdate ?r claimedBy now = Some k'" for k'
      by (rule keep_ext_trans [OF repairKeep_ext composeUpdate_ext [OF that]])
    then show ?thesis
      using claimed(1,6) claimKeep_can [OF claimed(1)] Some ext_found [OF claimed(6) Some] repairKeep_ext
      by (auto simp: claimKeep_def Let_def ext_list_refl split: if_splits)
  qed
next
  case (invited ks keep q actor canSign grant secret now ks')
  then obtain k where k: "findKeep ks keep = Some k" "ks' = withKeep ks (withInvite k (made_invite q grant secret now))"
    by (auto simp: createInvite_def check_simps)
  have "keep_ext k (withInvite k (made_invite q grant secret now))"
    using invited(5) findKeep_Some [OF k(1)] by (intro withInvite_ext) (simp add: made_invite_def)
  then show ?case
    using ext_found [OF invited(6) k(1)] k(2) by simp
next
  case (invite_resent ks keep invite actor canSign now ks')
  then show ?case
    by (auto simp: resendInvite_def check_simps ext_at_keep)
next
  case (invite_revoked now ks keep grant)
  then show ?case
    by (simp add: revokeInvite_def ext_at_keep)
next
  case (pass_revoked now ks keep grant)
  then show ?case
    by (simp add: revokePass_def ext_at_keep)
next
  case (switched ks keep actor on canSign now ks')
  then show ?case
    using ext_found composeSettings_ext by (auto simp: setReturnPasses_def check_simps ext_list_refl split: if_splits)
next
  case (sent now ks canSign openKeep)
  then show ?case
    by (simp add: resendOutstanding_ext)
next
  case (reconciled ks C ks')
  have "list_all2 keep_ext xs ys" if "those (map (\<lambda>k. reconcileKeep k C) xs) = Some ys" for xs ys
    using that by (induction xs arbitrary: ys) (auto split: option.splits intro: reconcileKeep_ext)
  then show ?case
    using reconciled(1) by (simp add: reconcileKeeps_def)
next
  case (owners_changed ks keep actor c C ks')
  obtain k where k: "findKeep ks keep = Some k"
    using owners_changed(1) by (auto simp: changeOwners_def check_simps)
  have "keep_ext k k3" if "changed_keep k c = Some k1" "composeUpdate k1 actor now = Some k2" "reconcileKeep k2 C = Some k3"
    for k1 k2 k3 now
    using that keep_ext_trans changed_keep_ext composeUpdate_ext reconcileKeep_ext by meson
  then show ?case
    using owners_changed(1) k ext_found [OF owners_changed(5) k]
    by (auto simp: changeOwners_def check_simps ext_list_refl split: option.splits owner_change.splits)
next
  case (games_retried ks keep actor p C ks')
  obtain k where k: "findKeep ks keep = Some k"
    using games_retried(1) by (auto simp: retryGamesInvite_def check_simps)
  have "keep_ext k k1" if "retryGames k p C = Some k1" for k1
    using that by (auto simp: retryGames_def intro: keep_ext_invites split: if_splits)
  then show ?case
    using games_retried(1) k ext_found [OF games_retried(5) k]
    by (auto simp: retryGamesInvite_def check_simps ext_list_refl split: option.splits)
next
  case (forgotten ks keep)
  then show ?case
    by blast
next
  case (received ks reads now ks')
  show ?case
    using applyAckEvents_ext [OF received(4,2,3,1)] by simp
qed

section \<open>Runs\<close>

text \<open>The runs in which one Keep is stored all along: it is not forgotten on the way.\<close>

definition kept_step :: "ustr \<Rightarrow> stored_keep list \<Rightarrow> stored_keep list \<Rightarrow> bool" where
  "kept_step keep ks ks' \<longleftrightarrow> keeps_step ks ks' \<and> findKeep ks' keep \<noteq> None"

lemma reached_inv: "keeps_step\<^sup>*\<^sup>* ks ks' \<Longrightarrow> inv_keeps ks \<Longrightarrow> inv_keeps ks'"
  by (induction rule: rtranclp_induct) (auto intro: keeps_step_inv)

lemma empty_inv [simp]: "inv_keeps []"
  by (simp add: inv_keeps_def)

lemma findKeep_ext:
  assumes "list_all2 keep_ext ks ks'" "findKeep ks keep = Some k" "findKeep ks' keep = Some k'"
  shows "keep_ext k k'"
  using assms
proof (induction rule: list_all2_induct)
  case (Cons x xs y ys)
  then show ?case
    by (auto simp: findKeep_def keep_ext_def split: if_splits)
qed (simp add: findKeep_def)

lemma same_id: "inv_keeps ks \<Longrightarrow> k \<in> set ks \<Longrightarrow> k' \<in> set ks \<Longrightarrow> vk_keep k' = vk_keep k \<Longrightarrow> k' = k"
  by (auto simp: inv_keeps_def distinct_map inj_on_def)

lemma step_found_ext:
  assumes "keeps_step ks ks'" "inv_keeps ks" "findKeep ks keep = Some k" "findKeep ks' keep = Some k'"
  shows "keep_ext k k'"
proof -
  have "k' = k" if "k' \<in> set ks"
    using that findKeep_Some [OF assms(3)] findKeep_Some [OF assms(4)] same_id [OF assms(2)] by blast
  moreover have "k' \<in> set ks" if "ks' = ks @ [x]" "vk_keep x \<notin> vk_keep ` set ks" for x
    using that findKeep_Some [OF assms(3)] findKeep_Some [OF assms(4)] by auto
  moreover have "k' \<in> set ks" if "ks' = forgetKeep ks g" for g
    using that findKeep_Some [OF assms(4)] by (auto simp: forgetKeep_def)
  ultimately show ?thesis
    using keeps_step_ext [OF assms(1,2)] findKeep_ext [OF _ assms(3,4)] by auto
qed

lemma kept_run_ext:
  assumes "(kept_step keep)\<^sup>*\<^sup>* ks ks'" "inv_keeps ks" "findKeep ks keep = Some k"
  shows "inv_keeps ks' \<and> (\<exists>k'. findKeep ks' keep = Some k' \<and> keep_ext k k')"
  using assms
proof (induction rule: rtranclp_induct)
  case (step ks1 ks2)
  then obtain k1 k2 where k1: "inv_keeps ks1" "findKeep ks1 keep = Some k1" "keep_ext k k1"
    and k2: "keeps_step ks1 ks2" "findKeep ks2 keep = Some k2"
    by (auto simp: kept_step_def)
  then show ?case
    using keeps_step_inv [OF k2(1)] keep_ext_trans [OF k1(3) step_found_ext [OF k2(1) k1(1,2) k2(2)]] by blast
qed simp

lemma reachable_ext:
  assumes "keeps_step\<^sup>*\<^sup>* [] ks" "(kept_step keep)\<^sup>*\<^sup>* ks ks'" "findKeep ks keep = Some k" "findKeep ks' keep = Some k'"
  shows "keep_ext k k'"
  using kept_run_ext [OF assms(2) reached_inv [OF assms(1) empty_inv] assms(3)] assms(4) by auto

lemma inv_active: "inv_keep k \<Longrightarrow> activeOwners k \<noteq> []"
proof -
  assume k: "inv_keep k"
  then obtain p l where l: "(p, l) \<in> set (vk_links k)" "vl_active l"
    using inv_keepD(2) [OF k] by (auto simp: links_inv_def)
  then have "map_of (vk_links k) p = Some l"
    using inv_keepD(3) [OF k] by (intro map_of_is_SomeI) (auto simp: ok_links_def)
  then have "p \<in> set (activeOwners k)"
    using l inv_keepD(8) [OF k] by (force simp: activeOwners_def isActiveOwner_def)
  then show ?thesis
    by auto
qed

section \<open>Concrete runs\<close>

lemma hexes_eq [simp]: "hexes n c = hexes n d \<longleftrightarrow> n = 0 \<or> c = d" "hexes n c = [] \<longleftrightarrow> n = 0"
  by (auto simp: hexes_def)

definition sample_pair :: "nat \<Rightarrow> pair_link" where
  "sample_pair c = \<lparr>pl_keep = hexes 64 98, pl_name = u ''Den'', pl_relays = [], pl_code = hexes 32 c\<rparr>"

definition sample_keep :: stored_keep where
  "sample_keep = newPendingKeep (hexes 64 98) (u ''Den'') [] (hexes 64 97) (hexes 32 49) 1000 All_personas"

definition sample_again :: "nat \<Rightarrow> int \<Rightarrow> stored_keep \<Rightarrow> stored_keep" where
  "sample_again c now k = composed (repairKeep k (u ''Den'') [] (hexes 32 c) now (Some All_personas)) (hexes 64 97) now"

definition sample_guest :: invite_request where
  "sample_guest = \<lparr>iq_kind = Guest, iq_persona = None, iq_label = None\<rparr>"

lemma sample_claimed: "keeps_step [] [sample_keep]"
  by (rule keeps_step.claimed [of _ "sample_pair 49" "hexes 64 97" All_personas "\<lambda>p. True" 1000 Claim_new])
    (simp_all add: claimKeep_def findKeep_def withKeep_def sample_keep_def sample_pair_def clock_ok_def hex_unit_def)

lemma sample_reclaimed:
  assumes k: "inv_keep k" "vk_keep k = hexes 64 98" "vk_claimedBy k = hexes 64 97" "vk_code k \<noteq> Some (hexes 32 c)" "last_rev k < 10"
    and c: "hex_unit c" "clock_ok now"
  shows "keeps_step [k] [sample_again c now k]"
proof -
  let ?r = "repairKeep k (u ''Den'') [] (hexes 32 c) now (Some All_personas)"
  have r: "inv_keep ?r"
    using k c by (intro repairKeep_inv) auto
  have "canCompose ?r"
    using k(5) by (simp add: canCompose_def last_rev_def update_rev_def repairKeep_def MAX_SAFE_def split: option.splits)
  then have comp: "composeUpdate ?r (hexes 64 97) now = Some (sample_again c now k)"
    unfolding sample_again_def using base_invD(3,4) [OF inv_base [OF r]] by (simp add: composeUpdate_composed)
  have ids: "vk_keep (sample_again c now k) = hexes 64 98" "vk_scope ?r = All_personas" "canCompose ?r"
    using k(2) \<open>canCompose ?r\<close> by (simp_all add: sample_again_def composed_def repairKeep_def withLinks_def)
  show ?thesis
  proof (rule keeps_step.claimed [of _ "sample_pair c" "hexes 64 97" All_personas "\<lambda>p. True" now Claim_repair])
    show "claimKeep [k] (sample_pair c) (hexes 64 97) All_personas (\<lambda>p. True) now = Some (Claim_repair, [sample_again c now k])"
      using k comp ids by (simp add: claimKeep_def findKeep_def withKeep_def sample_pair_def Let_def)
  qed (use c in \<open>simp_all add: sample_pair_def hex_unit_def\<close>)
qed

definition sample_two :: stored_keep where
  "sample_two = sample_again 50 2000 sample_keep"

definition sample_three :: stored_keep where
  "sample_three = sample_again 51 3000 sample_two"

lemma sample_keep_inv: "inv_keep sample_keep"
  using newPendingKeep_inv [of "sample_pair 49" "hexes 64 97" 1000 "u ''Den''" "[]" All_personas]
  by (simp add: sample_keep_def sample_pair_def hex_unit_def clock_ok_def)

lemma sample_reclaim: "keeps_step [sample_keep] [sample_two]"
  unfolding sample_two_def
  by (rule sample_reclaimed [OF sample_keep_inv])
    (simp_all add: sample_keep_def newPendingKeep_def last_rev_def update_rev_def hexes_def hex_unit_def clock_ok_def
      replicate_eq_replicate)

lemma sample_two_inv: "inv_keep sample_two"
  using keeps_step_inv [OF sample_reclaim] sample_keep_inv by (simp add: inv_keeps_def)

lemma sample_fields:
  "vk_keep sample_two = hexes 64 98" "vk_keep sample_three = hexes 64 98" "vk_claimedBy sample_two = hexes 64 97"
  "vk_code sample_two = Some (hexes 32 50)" "vk_invites sample_two = []"
  "vk_rev sample_two = 0" "map_option vu_rev (vk_update sample_two) = Some 1"
  "map_option vu_rev (vk_update sample_three) = Some 2" "vk_status sample_two = Keep_pending"
  by (simp_all add: sample_two_def sample_three_def sample_again_def sample_keep_def composed_def repairKeep_def
      newPendingKeep_def withLinks_def last_rev_def update_rev_def)

lemma sample_reclaim_again: "keeps_step [sample_two] [sample_three]"
  unfolding sample_three_def
  by (rule sample_reclaimed [OF sample_two_inv])
    (use sample_fields in \<open>auto simp: last_rev_def update_rev_def hex_unit_def clock_ok_def hexes_def split: option.splits\<close>)

lemma sample_reach: "keeps_step\<^sup>*\<^sup>* [] [sample_two]"
  using sample_claimed sample_reclaim by (meson converse_rtranclp_into_rtranclp r_into_rtranclp)

lemma sample_kept: "(kept_step (hexes 64 98))\<^sup>*\<^sup>* [sample_two] [sample_three]"
  using sample_reclaim_again by (auto simp: kept_step_def findKeep_def sample_fields intro!: r_into_rtranclp)

text \<open>A guest invite, made and revoked before the Keep is paired again.\<close>

definition sample_invited :: stored_keep where
  "sample_invited = withInvite sample_keep (made_invite sample_guest (hexes 32 53) (hexes 64 54) 1500)"

definition sample_revoked :: stored_keep where
  "sample_revoked = markRevokeSent sample_invited (hexes 32 53) (Some 1600)"

lemma sample_invite: "keeps_step [sample_keep] [sample_invited]"
  by (rule keeps_step.invited [of _ "hexes 64 98" sample_guest None "\<lambda>p. True" "hexes 32 53" "hexes 64 54" 1500])
    (simp_all add: createInvite_def findKeep_def sample_keep_def newPendingKeep_def sample_guest_def pickSigner_def
      isActiveOwner_def claimer_link_def check_def need_def withKeep_def sample_invited_def withInvite_def clock_ok_def
      hex_unit_def)

lemma sample_revoke: "keeps_step [sample_invited] [sample_revoked]"
  using keeps_step.invite_revoked [of 1600 "[sample_invited]" "hexes 64 98" "hexes 32 53"]
  by (simp add: revokeInvite_def at_keep_def findKeep_def withKeep_def sample_invited_def withInvite_def sample_keep_def
      newPendingKeep_def sample_revoked_def markRevokeSent_def on_invite_def clock_ok_def)

lemma sample_revoked_inv: "inv_keep sample_revoked"
  using keeps_step_inv [OF sample_revoke keeps_step_inv [OF sample_invite]] sample_keep_inv by (simp add: inv_keeps_def)

lemma sample_revoked_reach: "keeps_step\<^sup>*\<^sup>* [] [sample_revoked]"
  using sample_claimed sample_invite sample_revoke by (meson converse_rtranclp_into_rtranclp r_into_rtranclp)

lemma sample_revoked_fields:
  "vk_keep sample_revoked = hexes 64 98" "vk_keep (sample_again c now sample_revoked) = hexes 64 98"
  "vk_claimedBy sample_revoked = hexes 64 97"
  "vk_code sample_revoked = Some (hexes 32 49)" "last_rev sample_revoked = 0"
  "map vi_grant (vk_invites sample_revoked) = [hexes 32 53]" "map vi_revokeSent (vk_invites sample_revoked) = [Some True]"
  by (simp_all add: sample_revoked_def sample_invited_def sample_keep_def withInvite_def newPendingKeep_def made_invite_def
      markRevokeSent_def on_invite_def last_rev_def update_rev_def sample_again_def composed_def repairKeep_def withLinks_def)

lemma sample_revoked_kept: "(kept_step (hexes 64 98))\<^sup>*\<^sup>* [sample_revoked] [sample_again 50 2000 sample_revoked]"
proof -
  have "keeps_step [sample_revoked] [sample_again 50 2000 sample_revoked]"
    by (rule sample_reclaimed [OF sample_revoked_inv])
      (simp_all add: sample_revoked_fields hexes_def hex_unit_def clock_ok_def replicate_eq_replicate)
  then show ?thesis
    by (auto simp: kept_step_def findKeep_def sample_revoked_fields intro!: r_into_rtranclp)
qed

section \<open>What always holds\<close>

text \<open>
  C25 (invariant): Whatever the actions of the app and whatever arrives from the Keeps, the list of
  stored Keeps is at every moment read back exactly as it was written, every Keep has a persona that
  it has confirmed as an owner, holds at most 256 return passes, names each invite once, and the
  update that waits was signed by a persona that is confirmed or no longer linked.
\<close>

theorem keeps_stay_readable:
  assumes "keeps_step\<^sup>*\<^sup>* [] ks"
  shows "parseStoredKeeps (JArr (map enc_keep ks)) = Some ks
    \<and> list_all (\<lambda>k. activeOwners k \<noteq> [] \<and> length (passes_of k) \<le> KEEP_MAX_PASSES \<and> distinct (map vi_grant (vk_invites k))
        \<and> pred_option (\<lambda>w. isLinked k (vu_signer w) \<longrightarrow> isActiveOwner k (vu_signer w)) (vk_update k)) ks"
proof -
  have ks: "inv_keeps ks"
    using reached_inv [OF assms] by simp
  have "pred_option (\<lambda>w. isLinked k (vu_signer w) \<longrightarrow> isActiveOwner k (vu_signer w)) (vk_update k)" if "inv_keep k" for k
    using that by (cases "vk_update k") (auto simp: inv_keep_def signer_ok_def isLinked_def isActiveOwner_def)
  then show ?thesis
    using ks parse_stored [OF inv_keeps_ok [OF ks]] inv_active inv_keepD(5,7)
    by (auto simp: inv_keeps_def list_all_iff)
qed

theorem keeps_stay_readable_witness: "parseStoredKeeps (JArr (map enc_keep [sample_two])) = Some [sample_two]"
  using keeps_stay_readable [OF sample_reach] by simp

text \<open>
  Any rumor that passed the seal of a Keep, whatever its tags, is either ignored or
  handled: reading a batch throws nothing, no Keep is added, dropped or reordered, and every Keep is
  changed only as a Keep may change (its revisions grow, its invites stay, revoked ones revoked).
\<close>

lemma any_rumor_is_handled:
  assumes "keeps_step\<^sup>*\<^sup>* [] ks" "\<forall>q \<in> set reads. arrived q" "clock_ok now"
  shows "\<exists>ks'. applyAckEvents ks reads now = Some ks' \<and> list_all2 keep_ext ks ks'
    \<and> parseStoredKeeps (JArr (map enc_keep ks')) = Some ks'"
proof -
  have ks: "inv_keeps ks"
    using reached_inv [OF assms(1)] by simp
  obtain ks' where "applyAckEvents ks reads now = Some ks'" "inv_keeps ks'"
    using applyAckEvents_inv [OF ks assms(2,3)] by blast
  then show ?thesis
    using applyAckEvents_ext [OF ks assms(2,3)] parse_stored [OF inv_keeps_ok] by blast
qed

lemma any_rumor_is_handled_witness:
  "\<exists>ks'. applyAckEvents [sample_two] [] 4000 = Some ks' \<and> list_all2 keep_ext [sample_two] ks'"
  using any_rumor_is_handled [OF sample_reach, of "[]" 4000] by (auto simp: clock_ok_def)

text \<open>
  C26 (safety): A revision number stands for one list of owners. As long as a Keep stays stored,
  the last revision used for it never falls, through claims, re-pairing, refusals and acks, and two
  updates composed at any two moments under the same revision have the same signer and the same
  list: the Keep can never be sent two different lists under one number.
\<close>

theorem revision_stands_for_one_list:
  assumes "keeps_step\<^sup>*\<^sup>* [] ks" "(kept_step keep)\<^sup>*\<^sup>* ks ks'"
    and "findKeep ks keep = Some k" "findKeep ks' keep = Some k'"
  shows "last_rev k \<le> last_rev k'
    \<and> (\<forall>w w'. vk_update k = Some w \<and> vk_update k' = Some w' \<and> vu_rev w' = vu_rev w
        \<longrightarrow> vu_signer w' = vu_signer w \<and> vu_personas w' = vu_personas w)"
  using reachable_ext [OF assms] update_rev_le [of k]
  unfolding keep_ext_def rev_ext_def same_list_def by fastforce

theorem revision_stands_for_one_list_witness:
  "last_rev sample_two \<le> last_rev sample_three"
  using revision_stands_for_one_list [OF sample_reach sample_kept, of sample_two sample_three]
  by (simp add: findKeep_def sample_fields)

text \<open>
  C27 (safety): Invites are never lost or rewritten while their Keep is stored: an invite keeps its
  grant, secret, kind, persona and expiry; once revoked it stays revoked, and once its revoke was
  decided it waits for the Keep to confirm it, whatever is acked, re-paired or reconciled meanwhile.
\<close>

theorem invites_stay_revoked:
  assumes "keeps_step\<^sup>*\<^sup>* [] ks" "(kept_step keep)\<^sup>*\<^sup>* ks ks'"
    and "findKeep ks keep = Some k" "findKeep ks' keep = Some k'" and "i \<in> set (vk_invites k)"
  shows "\<exists>i' \<in> set (vk_invites k'). vi_grant i' = vi_grant i \<and> vi_secret i' = vi_secret i \<and> vi_kind i' = vi_kind i
      \<and> vi_persona i' = vi_persona i \<and> vi_expiration i' = vi_expiration i
      \<and> (vi_status i = Inv_revoked \<longrightarrow> vi_status i' = Inv_revoked)
      \<and> (flagged (vi_revokeSent i) \<longrightarrow> flagged (vi_revokeSent i') \<or> vi_status i' = Inv_revoked)"
  using reachable_ext [OF assms(1-4)] assms(5)
  unfolding keep_ext_def invites_ext_def invite_ext_def by blast

theorem invites_stay_revoked_witness:
  "\<exists>i \<in> set (vk_invites (sample_again 50 2000 sample_revoked)). vi_grant i = hexes 32 53
     \<and> (flagged (vi_revokeSent i) \<or> vi_status i = Inv_revoked)"
proof -
  obtain i where i: "vk_invites sample_revoked = [i]" "vi_grant i = hexes 32 53" "flagged (vi_revokeSent i)"
    using sample_revoked_fields(6,7) by (auto simp: map_eq_Cons_conv flagged_def)
  then show ?thesis
    using invites_stay_revoked [OF sample_revoked_reach sample_revoked_kept, of sample_revoked "sample_again 50 2000 sample_revoked" i]
    by (auto simp: findKeep_def sample_revoked_fields)
qed

end
