(* ===== verification/Keep_Acks.thy ===== *)
theory Keep_Acks
  imports Keep_Laws "HOL-Library.Multiset"
begin

text \<open>
  The acks of the Keeps against their delivery: relays hand over the same message twice and messages
  in any order. What a set of acks says of an invite does not depend on the order, and a message
  that comes again changes nothing.
\<close>

section \<open>The verdict of a set of acks on an invite\<close>

definition invite_view :: "stored_invite \<Rightarrow> invite_status \<times> refusal_reason option \<times> bool" where
  "invite_view i = (vi_status i, vi_reason i, flagged (vi_revokeSent i))"

definition ack_at :: "int \<Rightarrow> keep_ack \<Rightarrow> int" where
  "ack_at now a = clampAckTime (ak_time a) now"

definition is_newest :: "int \<Rightarrow> stored_invite \<Rightarrow> keep_ack list \<Rightarrow> keep_ack \<Rightarrow> bool" where
  "is_newest now i as a \<longleftrightarrow> ak_grant a = Some (vi_grant i)
     \<and> pred_option (\<lambda>s. clampAckTime s now \<le> ack_at now a) (vi_ackAt i)
     \<and> (\<forall>b \<in> set as. ak_grant b = Some (vi_grant i) \<longrightarrow> ack_at now b \<le> ack_at now a)"

text \<open>A revoke wins; else the newest ack that is not older than the one the invite has; else nothing changes.\<close>

definition acks_verdict :: "int \<Rightarrow> keep_ack list \<Rightarrow> stored_invite \<Rightarrow> invite_status \<times> refusal_reason option \<times> bool" where
  "acks_verdict now as i =
     (if vi_status i = Inv_revoked then invite_view i
      else if \<exists>a \<in> set as. ak_grant a = Some (vi_grant i) \<and> ak_status a = Ack_revoked then (Inv_revoked, None, False)
      else case find (is_newest now i as) as of
             None \<Rightarrow> invite_view i
           | Some a \<Rightarrow> (acked_status (ak_status a) (vi_status i), if ak_status a = Ack_refused then ak_reason a else None,
                        flagged (vi_revokeSent i)))"

definition ack_one :: "int \<Rightarrow> keep_ack \<Rightarrow> stored_invite \<Rightarrow> stored_invite" where
  "ack_one now a i =
     (if ak_grant a \<noteq> Some (vi_grant i) \<or> vi_status i = Inv_revoked
         \<or> (ak_status a \<noteq> Ack_revoked \<and> (case vi_ackAt i of None \<Rightarrow> False | Some s \<Rightarrow> ack_at now a < clampAckTime s now))
      then i else ack_invite a (ack_at now a) i)"

definition invite_ack :: "keep_ack \<Rightarrow> bool" where
  "invite_ack a \<longleftrightarrow> ack_ok a \<and> \<not> ak_claim a \<and> \<not> ak_owners a \<and> \<not> ak_settings a"

lemma invite_ackD: "invite_ack a \<Longrightarrow> ak_status a \<in> {Ack_active, Ack_revoked, Ack_refused}"
  by (auto simp: invite_ack_def ack_ok_def)

lemma ack_one_grant [simp]: "vi_grant (ack_one now a i) = vi_grant i"
  by (simp add: ack_one_def ack_invite_def)

lemma ack_keep_invites:
  assumes "invite_ack a" "distinct (map vi_grant (vk_invites k))"
  shows "vk_invites (ack_keep a now k) = map (ack_one now a) (vk_invites k)"
proof (cases "find (\<lambda>i. Some (vi_grant i) = ak_grant a) (vk_invites k)")
  case None
  then have "map (ack_one now a) (vk_invites k) = vk_invites k"
    by (intro map_idI) (auto simp: ack_one_def find_None_iff)
  then show ?thesis
    using None assms(1) by (auto simp: ack_keep_def Let_def invite_ack_def ack_pass_def split: option.split)
next
  case (Some i)
  then have i: "i \<in> set (vk_invites k)" "ak_grant a = Some (vi_grant i)"
    by (auto dest: find_SomeD)
  have others: "j = i" if "j \<in> set (vk_invites k)" "vi_grant j = vi_grant i" for j
    using that assms(2) i(1) by (auto simp: distinct_map inj_on_def)
  let ?skip = "vi_status i = Inv_revoked
      \<or> (ak_status a \<noteq> Ack_revoked \<and> (case vi_ackAt i of None \<Rightarrow> False | Some s \<Rightarrow> ack_at now a < clampAckTime s now))"
  have keep: "ack_keep a now k = (if ?skip then k else on_invite (vi_grant i) (\<lambda>j. ack_invite a (ack_at now a) i) k)"
    using assms(1) Some by (cases "vi_ackAt i") (simp_all add: ack_keep_def Let_def invite_ack_def ack_at_def)
  have one: "ack_one now a j = (if vi_grant j = vi_grant i then if ?skip then i else ack_invite a (ack_at now a) i else j)"
    if "j \<in> set (vk_invites k)" for j
    using others [OF that] i(2) by (auto simp: ack_one_def)
  show ?thesis
  proof (cases ?skip)
    case True
    then have "map (ack_one now a) (vk_invites k) = vk_invites k"
      using one others by (intro map_idI) auto
    then show ?thesis
      using True keep by simp
  next
    case False
    have "vk_invites (ack_keep a now k) = map (\<lambda>j. if vi_grant j = vi_grant i then ack_invite a (ack_at now a) i else j) (vk_invites k)"
      unfolding keep if_not_P [OF False] by (simp add: on_invite_def)
    also have "\<dots> = map (ack_one now a) (vk_invites k)"
      by (rule map_cong [OF refl]) (simp only: one False if_False)
    finally show ?thesis .
  qed
qed

lemma fold_acks_invites:
  assumes "\<forall>a \<in> set as. invite_ack a" "distinct (map vi_grant (vk_invites k))"
  shows "vk_invites (fold (\<lambda>a. ack_keep a now) as k) = map (fold (ack_one now) as) (vk_invites k)"
  using assms
proof (induction as arbitrary: k)
  case (Cons a as)
  have one: "vk_invites (ack_keep a now k) = map (ack_one now a) (vk_invites k)"
    using Cons.prems by (simp add: ack_keep_invites)
  then have "distinct (map vi_grant (vk_invites (ack_keep a now k)))"
    using Cons.prems(2) by (simp add: comp_def)
  then show ?case
    using Cons.IH [of "ack_keep a now k"] Cons.prems(1) one by (simp add: comp_def)
qed simp

section \<open>The order of acks\<close>

lemma ack_invite_simps [simp]:
  "vi_grant (ack_invite a t i) = vi_grant i" "vi_ackAt (ack_invite a t i) = Some t"
  "vi_status (ack_invite a t i) = acked_status (ak_status a) (vi_status i)"
  by (simp_all add: ack_invite_def)

lemma clamp_clamp [simp]: "clampAckTime (clampAckTime t now) now = clampAckTime t now" "clampAckTime (ack_at now a) now = ack_at now a"
  by (simp_all add: clampAckTime_def ack_at_def)

lemma ack_invite_again: "invite_ack a \<Longrightarrow> invite_ack b \<Longrightarrow> ak_status b \<noteq> Ack_revoked \<Longrightarrow>
    ack_invite a t (ack_invite b s i) = ack_invite a t i"
  using invite_ackD [of a] by (auto simp: ack_invite_def acked_status_def)

lemma revoked_stays [simp]: "vi_status i = Inv_revoked \<Longrightarrow> fold (ack_one now) as i = i"
  by (induction as) (auto simp: ack_one_def)

lemma ack_one_other: "ak_grant a \<noteq> Some (vi_grant i) \<Longrightarrow> ack_one now a i = i"
  by (simp add: ack_one_def)

lemma fold_one_grant [simp]: "vi_grant (fold (ack_one now) as i) = vi_grant i"
  by (induction as arbitrary: i) simp_all

lemma greatest_in_list: "xs \<noteq> [] \<Longrightarrow> \<exists>m \<in> set xs. \<forall>x \<in> set xs. f x \<le> (f m :: int)"
proof (induction xs)
  case (Cons x xs)
  then show ?case
    by (cases "xs = []") (auto, meson linear order_trans)
qed simp

definition not_older :: "int \<Rightarrow> stored_invite \<Rightarrow> keep_ack \<Rightarrow> bool" where
  "not_older now i a \<longleftrightarrow> ak_grant a = Some (vi_grant i) \<and> pred_option (\<lambda>s. clampAckTime s now \<le> ack_at now a) (vi_ackAt i)"

lemma newest_exists:
  assumes "b \<in> set as" "not_older now i b"
  shows "\<exists>a \<in> set as. is_newest now i as a"
proof -
  let ?mine = "filter (\<lambda>a. ak_grant a = Some (vi_grant i)) as"
  have b: "b \<in> set ?mine"
    using assms by (simp add: not_older_def)
  then obtain m where m: "m \<in> set ?mine" "\<forall>x \<in> set ?mine. ack_at now x \<le> ack_at now m"
    using greatest_in_list [of ?mine "ack_at now"] by fastforce
  have "is_newest now i as m"
    using m assms(2) b by (cases "vi_ackAt i") (force simp: is_newest_def not_older_def)+
  then show ?thesis
    using m(1) by auto
qed

lemma is_newest_alt:
  "is_newest now i as a \<longleftrightarrow> not_older now i a \<and> (\<forall>b \<in> set as. ak_grant b = Some (vi_grant i) \<longrightarrow> ack_at now b \<le> ack_at now a)"
  by (simp add: is_newest_def not_older_def)

lemma ack_one_applied:
  assumes "ak_grant a = Some (vi_grant i)" "vi_status i \<noteq> Inv_revoked" "ak_status a \<noteq> Ack_revoked"
  shows "ack_one now a i = (if not_older now i a then ack_invite a (ack_at now a) i else i)"
  using assms by (cases "vi_ackAt i") (auto simp: ack_one_def not_older_def)

text \<open>Acks none of which revokes: the newest one decides, or none does.\<close>

lemma fold_newest:
  assumes "\<forall>a \<in> set as. invite_ack a \<and> (ak_grant a = Some (vi_grant i) \<longrightarrow> ak_status a \<noteq> Ack_revoked)"
    and "distinct (map (\<lambda>a. (ak_grant a, ack_at now a)) as)" and "vi_status i \<noteq> Inv_revoked"
  shows "(\<forall>a \<in> set as. is_newest now i as a \<longrightarrow> fold (ack_one now) as i = ack_invite a (ack_at now a) i)
    \<and> ((\<forall>a \<in> set as. \<not> is_newest now i as a) \<longrightarrow> fold (ack_one now) as i = i)"
  using assms(1,2)
proof (induction as rule: rev_induct)
  case (snoc a as)
  let ?st = "fold (ack_one now) as i" and ?new = "is_newest now i (as @ [a])"
  have IH: "\<And>b. b \<in> set as \<Longrightarrow> is_newest now i as b \<Longrightarrow> ?st = ack_invite b (ack_at now b) i"
    "(\<forall>b \<in> set as. \<not> is_newest now i as b) \<Longrightarrow> ?st = i"
    using snoc by auto
  show ?case
  proof (cases "ak_grant a = Some (vi_grant i)")
    case False
    then have "?new b \<longleftrightarrow> is_newest now i as b" for b
      by (auto simp: is_newest_def)
    moreover have "\<not> is_newest now i as a"
      using False by (simp add: is_newest_def)
    ultimately show ?thesis
      using False IH by (auto simp: ack_one_other)
  next
    case True
    then have a: "invite_ack a" "ak_status a \<noteq> Ack_revoked"
      using snoc.prems(1) by auto
    show ?thesis
    proof (cases "\<exists>b \<in> set as. is_newest now i as b")
      case False
      then have old: "\<not> not_older now i b" if "b \<in> set as" for b
        using newest_exists [OF that] by blast
      have st: "?st = i"
        using False IH(2) by blast
      have "?new b \<Longrightarrow> b = a" if "b \<in> set (as @ [a])" for b
        using that old by (auto simp: is_newest_alt)
      moreover have "?new a \<longleftrightarrow> not_older now i a"
        using old True by (cases "vi_ackAt i") (fastforce simp: is_newest_alt not_older_def)+
      ultimately show ?thesis
        using st ack_one_applied [OF True assms(3) a(2)] by auto
    next
      case True': True
      then obtain b where b: "b \<in> set as" "is_newest now i as b"
        by blast
      have st: "?st = ack_invite b (ack_at now b) i"
        by (rule IH(1) [OF b])
      have bg: "ak_grant b = Some (vi_grant i)" "invite_ack b" "ak_status b \<noteq> Ack_revoked" "not_older now i b"
        using b snoc.prems(1) by (auto simp: is_newest_alt not_older_def)
      have live: "vi_status ?st \<noteq> Inv_revoked"
        using st bg(3) invite_ackD [OF bg(2)] by (auto simp: acked_status_def)
      have ne: "ack_at now a \<noteq> ack_at now b"
        using snoc.prems(2) b(1) bg(1) True by force
      have step: "ack_one now a ?st = (if ack_at now b \<le> ack_at now a then ack_invite a (ack_at now a) i else ?st)"
        using ack_one_applied [OF _ live a(2), of now] True st ack_invite_again [OF a(1) bg(2,3)]
        by (simp add: not_older_def)
      show ?thesis
      proof (cases "ack_at now b \<le> ack_at now a")
        case le: True
        have "?new x \<Longrightarrow> x = a" if "x \<in> set (as @ [a])" for x
          using that le ne b(2) True by (auto simp: is_newest_alt not_older_def)
        moreover have "?new a"
          using le b(2) True by (cases "vi_ackAt i") (force simp: is_newest_alt not_older_def)+
        ultimately show ?thesis
          using step le by auto
      next
        case gt: False
        have "?new b" "\<not> ?new a"
          using gt b bg(1,4) by (auto simp: is_newest_alt)
        moreover have "is_newest now i as x" if "?new x" for x
          using that by (simp add: is_newest_alt)
        moreover have "fold (ack_one now) (as @ [a]) i = ?st"
          using step gt by simp
        ultimately show ?thesis
          using IH(1) b(1) by (metis Un_iff empty_iff empty_set insert_iff list.simps(15) set_append)
      qed
    qed
  qed
qed simp

text \<open>Once one of the acks revokes, the invite is revoked.\<close>

lemma fold_revoked:
  assumes "a \<in> set as" "ak_grant a = Some (vi_grant i)" "ak_status a = Ack_revoked" "vi_status i \<noteq> Inv_revoked"
  shows "invite_view (fold (ack_one now) as i) = (Inv_revoked, None, False)"
  using assms
proof (induction as arbitrary: i)
  case (Cons b as)
  show ?case
  proof (cases "ak_grant b = Some (vi_grant i) \<and> ak_status b = Ack_revoked")
    case True
    then have "ack_one now b i = ack_invite b (ack_at now b) i"
      using Cons.prems(4) by (simp add: ack_one_def)
    then have "invite_view (ack_one now b i) = (Inv_revoked, None, False)" "vi_status (ack_one now b i) = Inv_revoked"
      using True by (simp_all add: invite_view_def ack_invite_def acked_status_def flagged_def)
    then show ?thesis
      by simp
  next
    case False
    then have "a \<in> set as"
      using Cons.prems by auto
    moreover have "vi_status (ack_one now b i) \<noteq> Inv_revoked"
      using False Cons.prems(4) by (cases "ak_status b") (auto simp: ack_one_def acked_status_def)
    ultimately show ?thesis
      using Cons.IH [of "ack_one now b i"] Cons.prems(2,3) by simp
  qed
qed simp

lemma fold_verdict:
  assumes "\<forall>a \<in> set as. invite_ack a" and "distinct (map (\<lambda>a. (ak_grant a, ack_at now a)) as)"
  shows "invite_view (fold (ack_one now) as i) = acks_verdict now as i"
proof -
  consider "vi_status i = Inv_revoked"
    | a where "vi_status i \<noteq> Inv_revoked" "a \<in> set as" "ak_grant a = Some (vi_grant i)" "ak_status a = Ack_revoked"
    | "vi_status i \<noteq> Inv_revoked" "\<forall>a \<in> set as. ak_grant a = Some (vi_grant i) \<longrightarrow> ak_status a \<noteq> Ack_revoked"
    by blast
  then show ?thesis
  proof cases
    case 1
    then show ?thesis
      by (simp add: acks_verdict_def)
  next
    case 2
    then show ?thesis
      using fold_revoked [of a as i now] by (auto simp: acks_verdict_def)
  next
    case 3
    note newest = fold_newest [OF _ assms(2) 3(1)]
    have v: "acks_verdict now as i = (case find (is_newest now i as) as of None \<Rightarrow> invite_view i
        | Some a \<Rightarrow> (acked_status (ak_status a) (vi_status i), if ak_status a = Ack_refused then ak_reason a else None,
                     flagged (vi_revokeSent i)))"
      using 3 by (auto simp: acks_verdict_def)
    show ?thesis
    proof (cases "find (is_newest now i as) as")
      case None
      then have "fold (ack_one now) as i = i"
        using newest assms(1) 3(2) by (simp add: find_None_iff)
      then show ?thesis
        by (simp add: v None)
    next
      case (Some a)
      then have a: "a \<in> set as" "is_newest now i as a"
        by (auto dest: find_SomeD)
      then have "ak_status a \<noteq> Ack_revoked"
        using 3(2) by (simp add: is_newest_def)
      then show ?thesis
        using newest assms(1) 3(2) v Some a by (auto simp: invite_view_def ack_invite_def)
    qed
  qed
qed

text \<open>The verdict is one of the set of the acks.\<close>

lemma newest_unique:
  assumes "distinct (map (\<lambda>a. (ak_grant a, ack_at now a)) as)" "a \<in> set as" "b \<in> set as" "is_newest now i as a" "is_newest now i as b"
  shows "a = b"
proof -
  have "inj_on (\<lambda>a. (ak_grant a, ack_at now a)) (set as)"
    using assms(1) by (simp add: distinct_map)
  moreover have "(ak_grant a, ack_at now a) = (ak_grant b, ack_at now b)"
    using assms(2-5) by (auto simp: is_newest_def intro: order_antisym)
  ultimately show ?thesis
    using assms(2,3) by (auto simp: inj_on_def)
qed

lemma find_unique:
  assumes "\<And>x y. x \<in> set xs \<Longrightarrow> y \<in> set xs \<Longrightarrow> P x \<Longrightarrow> P y \<Longrightarrow> x = y" "set ys = set xs"
  shows "find P ys = find P xs"
proof (cases "find P xs")
  case None
  then show ?thesis
    using assms(2) by (metis find_None_iff)
next
  case (Some x)
  then have x: "x \<in> set xs" "P x"
    by (auto dest: find_SomeD)
  then obtain y where "find P ys = Some y"
    using assms(2) by (cases "find P ys") (auto simp: find_None_iff)
  then show ?thesis
    using x Some assms by (metis find_SomeD)
qed

lemma verdict_of_set:
  assumes "distinct (map (\<lambda>a. (ak_grant a, ack_at now a)) as)" "set bs = set as"
  shows "acks_verdict now bs i = acks_verdict now as i"
proof -
  have "is_newest now i bs = is_newest now i as"
    using assms(2) by (auto simp: is_newest_def fun_eq_iff)
  then have f: "find (is_newest now i bs) bs = find (is_newest now i as) as"
    using find_unique [OF _ assms(2)] newest_unique [OF assms(1)] by metis
  show ?thesis
    unfolding acks_verdict_def assms(2) f by (rule refl)
qed

lemma one_clock:
  assumes "distinct (map vi_grant (vk_invites k))"
    and "\<forall>a \<in> set as. invite_ack a" "distinct (map (\<lambda>a. (ak_grant a, ack_at now a)) as)" "mset bs = mset as"
  shows "map invite_view (vk_invites (fold (\<lambda>a. ack_keep a now) bs k)) = map (acks_verdict now as) (vk_invites k)"
proof -
  have set: "set bs = set as"
    by (rule mset_eq_setD [OF assms(4)])
  have "distinct (map (\<lambda>a. (ak_grant a, ack_at now a)) bs)"
    using assms(3,4) by (metis mset_eq_imp_distinct_iff mset_map)
  then have "map invite_view (vk_invites (fold (\<lambda>a. ack_keep a now) bs k)) = map (acks_verdict now bs) (vk_invites k)"
    using fold_acks_invites [of bs k now] fold_verdict [of bs now] assms(1,2) set by simp
  also have "\<dots> = map (acks_verdict now as) (vk_invites k)"
    using verdict_of_set [OF assms(3) set] by simp
  finally show ?thesis .
qed

section \<open>Reads at different moments\<close>

text \<open>What the acks say of an invite by their own dates, whatever clock they were read at.\<close>

definition newest_dated :: "stored_invite \<Rightarrow> keep_ack list \<Rightarrow> keep_ack \<Rightarrow> bool" where
  "newest_dated i as a \<longleftrightarrow> ak_grant a = Some (vi_grant i) \<and> pred_option (\<lambda>s. s \<le> ak_time a) (vi_ackAt i)
     \<and> (\<forall>b \<in> set as. ak_grant b = Some (vi_grant i) \<longrightarrow> ak_time b \<le> ak_time a)"

definition acks_say :: "keep_ack list \<Rightarrow> stored_invite \<Rightarrow> invite_status \<times> refusal_reason option \<times> bool" where
  "acks_say as i =
     (if vi_status i = Inv_revoked then invite_view i
      else if \<exists>a \<in> set as. ak_grant a = Some (vi_grant i) \<and> ak_status a = Ack_revoked then (Inv_revoked, None, False)
      else case find (newest_dated i as) as of
             None \<Rightarrow> invite_view i
           | Some a \<Rightarrow> (acked_status (ak_status a) (vi_status i), if ak_status a = Ack_refused then ak_reason a else None,
                        flagged (vi_revokeSent i)))"

text \<open>Read at a time by which none of the dates is capped.\<close>

definition uncapped :: "int \<Rightarrow> stored_keep \<Rightarrow> bool" where
  "uncapped now k \<longleftrightarrow> (\<forall>i \<in> set (vk_invites k). pred_option (\<lambda>s. s \<le> now + CLAIM_ACK_SKEW_S) (vi_ackAt i))"

lemma dated_verdict:
  assumes "\<forall>a \<in> set as. ak_time a \<le> now + CLAIM_ACK_SKEW_S" "pred_option (\<lambda>s. s \<le> now + CLAIM_ACK_SKEW_S) (vi_ackAt i)"
  shows "acks_verdict now as i = acks_say as i"
proof -
  have t: "ack_at now a = ak_time a" if "a \<in> set as" for a
    using assms(1) that by (simp add: ack_at_def clampAckTime_def)
  have "is_newest now i as a = newest_dated i as a" if "a \<in> set as" for a
    using t that assms(2) by (cases "vi_ackAt i") (auto simp: is_newest_def newest_dated_def clampAckTime_def)
  then have "find (is_newest now i as) as = find (newest_dated i as) as"
    by (intro find_cong) simp_all
  then show ?thesis
    unfolding acks_verdict_def acks_say_def by presburger
qed

lemma ack_keep_any_clock:
  assumes "invite_ack a" "ak_time a \<le> now + CLAIM_ACK_SKEW_S" "ak_time a \<le> late + CLAIM_ACK_SKEW_S" "uncapped now k" "uncapped late k"
  shows "ack_keep a now k = ack_keep a late k"
proof -
  have t: "clampAckTime (ak_time a) now = ak_time a" "clampAckTime (ak_time a) late = ak_time a"
    using assms(2,3) by (simp_all add: clampAckTime_def)
  have s: "clampAckTime x now = x \<and> clampAckTime x late = x" if "i \<in> set (vk_invites k)" "vi_ackAt i = Some x" for i x
    using assms(4,5) that by (fastforce simp: uncapped_def clampAckTime_def)
  show ?thesis
  proof (cases "find (\<lambda>i. Some (vi_grant i) = ak_grant a) (vk_invites k)")
    case (Some i)
    then have "i \<in> set (vk_invites k)"
      by (auto dest: find_SomeD)
    then show ?thesis
      using assms(1) Some s by (cases "vi_ackAt i") (simp_all add: ack_keep_def Let_def invite_ack_def t)
  qed (use assms(1) in \<open>simp add: ack_keep_def Let_def invite_ack_def t\<close>)
qed

lemma ack_keep_uncapped:
  assumes "invite_ack a" "distinct (map vi_grant (vk_invites k))" "uncapped late k" "ak_time a \<le> late + CLAIM_ACK_SKEW_S"
  shows "uncapped late (ack_keep a now k)"
proof -
  have "ack_at now a \<le> late + CLAIM_ACK_SKEW_S"
    using assms(4) by (simp add: ack_at_def clampAckTime_def)
  then show ?thesis
    using assms(3) by (auto simp: uncapped_def ack_keep_invites [OF assms(1,2)] ack_one_def)
qed

lemma uncapped_later: "uncapped now k \<Longrightarrow> now \<le> late \<Longrightarrow> uncapped late k"
  by (fastforce simp: uncapped_def split: option.splits intro: option.pred_mono_strong)

text \<open>Reads at clocks that do not go back are as reads at one late clock.\<close>

lemma reads_at_one_clock:
  assumes "\<forall>(n, a) \<in> set reads. invite_ack a \<and> ak_time a \<le> n + CLAIM_ACK_SKEW_S \<and> n \<le> late \<and> uncapped n k"
    and "sorted_wrt (\<le>) (map fst reads)" "distinct (map vi_grant (vk_invites k))" "uncapped late k"
  shows "fold (\<lambda>(n, a). ack_keep a n) reads k = fold (\<lambda>a. ack_keep a late) (map snd reads) k"
  using assms
proof (induction reads arbitrary: k)
  case (Cons x reads)
  obtain n a where x: "x = (n, a)"
    by fastforce
  have a: "invite_ack a" "ak_time a \<le> n + CLAIM_ACK_SKEW_S" "n \<le> late" "uncapped n k"
    using Cons.prems(1) by (auto simp: x)
  then have same: "ack_keep a n k = ack_keep a late k"
    using Cons.prems(4) by (intro ack_keep_any_clock) auto
  let ?k = "ack_keep a late k"
  have grants: "distinct (map vi_grant (vk_invites ?k))"
    using Cons.prems(3) by (simp add: ack_keep_invites [OF a(1) Cons.prems(3)] comp_def)
  have un: "uncapped m ?k" if "(m, b) \<in> set reads" for m b
  proof -
    have "n \<le> m"
      using Cons.prems(2) that by (force simp: x)
    then show ?thesis
      using ack_keep_uncapped [OF a(1) Cons.prems(3), of m late] Cons.prems(1) that a(2) by (auto simp: x)
  qed
  have "uncapped late ?k"
    using ack_keep_uncapped [OF a(1) Cons.prems(3,4)] a(2,3) by simp
  then have "fold (\<lambda>(n, a). ack_keep a n) reads ?k = fold (\<lambda>a. ack_keep a late) (map snd reads) ?k"
    using Cons.prems(1,2) un grants by (intro Cons.IH) (auto simp: x)
  then show ?case
    by (simp add: x same)
qed simp

text \<open>
  C28 (refinement): What a Keep's acks of invites make of them is a function of the set of acks: relays
  may deliver them in any order and the app may read them at any moments. Read one by one, at clocks that do not
  go back, they give every invite what the set says: revoked if any of them revokes it, else what the newest
  ack says that is not older than the last one heeded, else what it was. Acks of one invite carry different
  dates (of two with one date the code keeps the one it reads last), and no date, of an ack or of the last one heeded,
  is more than ten minutes after the clock it is read at: beyond that the code caps it, and the order of
  reading can show.
\<close>

theorem acks_in_any_order:
  assumes "keeps_step\<^sup>*\<^sup>* [] ks" "findKeep ks name = Some k"
    and "\<forall>a \<in> set as. invite_ack a" "distinct (map (\<lambda>a. (ak_grant a, ak_time a)) as)"
    and "mset (map snd reads) = mset as" "sorted_wrt (\<le>) (map fst reads)"
    and "\<forall>(n, a) \<in> set reads. ak_time a \<le> n + CLAIM_ACK_SKEW_S"
    and "\<forall>(n, a) \<in> set reads. \<forall>i \<in> set (vk_invites k). pred_option (\<lambda>s. s \<le> n + CLAIM_ACK_SKEW_S) (vi_ackAt i)"
  shows "map invite_view (vk_invites (fold (\<lambda>(n, a). ack_keep a n) reads k)) = map (acks_say as) (vk_invites k)"
proof (cases "reads = []")
  case True
  then have "as = []"
    using assms(5) by simp
  then show ?thesis
    using True by (simp add: acks_say_def)
next
  case False
  have grants: "distinct (map vi_grant (vk_invites k))"
    using inv_keepD(5) [OF findKeep_inv [OF reached_inv [OF assms(1) empty_inv] assms(2)]] .
  define late where "late = Max (fst ` set reads)"
  have set: "set as = snd ` set reads"
    using mset_eq_setD [OF assms(5)] by simp
  have le: "n \<le> late" if "(n, a) \<in> set reads" for n a
    using that unfolding late_def by (force intro: Max_ge)
  have "late \<in> fst ` set reads"
    unfolding late_def using False by (intro Max_in) auto
  then have un: "uncapped late k"
    using assms(8) by (auto simp: uncapped_def)
  have times: "\<forall>a \<in> set as. ak_time a \<le> late + CLAIM_ACK_SKEW_S"
    using assms(7) le unfolding set by fastforce
  have "map (\<lambda>a. (ak_grant a, ack_at late a)) as = map (\<lambda>a. (ak_grant a, ak_time a)) as"
    using times by (simp add: ack_at_def clampAckTime_def)
  then have dist: "distinct (map (\<lambda>a. (ak_grant a, ack_at late a)) as)"
    using assms(4) by (simp only:)
  have "fold (\<lambda>(n, a). ack_keep a n) reads k = fold (\<lambda>a. ack_keep a late) (map snd reads) k"
    using assms(3,6-8) le set un grants by (intro reads_at_one_clock) (auto simp: uncapped_def)
  then have "map invite_view (vk_invites (fold (\<lambda>(n, a). ack_keep a n) reads k)) = map (acks_verdict late as) (vk_invites k)"
    using one_clock [OF grants assms(3) dist assms(5)] by simp
  also have "\<dots> = map (acks_say as) (vk_invites k)"
    using dated_verdict [OF times] un by (simp add: uncapped_def)
  finally show ?thesis .
qed

definition sample_ack :: "ack_status \<Rightarrow> int \<Rightarrow> keep_ack" where
  "sample_ack s t = (plain_ack (hexes 64 98) s t)\<lparr>ak_grant := Some (hexes 32 53)\<rparr>"

lemma sample_unacked: "i \<in> set (vk_invites sample_revoked) \<Longrightarrow> vi_ackAt i = None"
  by (auto simp: sample_revoked_def sample_invited_def sample_keep_def withInvite_def newPendingKeep_def made_invite_def
      markRevokeSent_def on_invite_def)

theorem acks_in_any_order_witness:
  "map invite_view (vk_invites (fold (\<lambda>(n, a). ack_keep a n)
      [(2900, sample_ack Ack_refused 2800), (3900, sample_ack Ack_active 1700)] sample_revoked))
    = map (acks_say [sample_ack Ack_active 1700, sample_ack Ack_refused 2800]) (vk_invites sample_revoked)"
  by (rule acks_in_any_order [OF sample_revoked_reach, of "hexes 64 98"])
    (simp_all add: findKeep_def sample_revoked_fields sample_unacked sample_ack_def invite_ack_def ack_ok_def
      CLAIM_ACK_SKEW_S_def safe_int_def MAX_SAFE_def hex_unit_def)

section \<open>Messages that come again\<close>

lemma find_update_first: "find P xs = Some x \<Longrightarrow> P y \<Longrightarrow> find P (update_first P y xs) = Some y"
  by (induction xs) (auto split: if_splits)

lemma update_first_again: "P y \<Longrightarrow> update_first P y (update_first P y xs) = update_first P y xs"
  by (induction xs) auto

lemma withKeep_again: "withKeep (withKeep ks k) k = withKeep ks k"
proof (cases "\<exists>x \<in> set ks. vk_keep x = vk_keep k")
  case True
  then have w: "withKeep ks k = map (\<lambda>x. if vk_keep x = vk_keep k then k else x) ks"
    by (simp add: withKeep_def)
  have "\<exists>x \<in> set (withKeep ks k). vk_keep x = vk_keep k"
    unfolding w using True by auto
  then have "withKeep (withKeep ks k) k = map (\<lambda>x. if vk_keep x = vk_keep k then k else x) (withKeep ks k)"
    by (simp only: withKeep_def [of "withKeep ks k"] if_True)
  then show ?thesis
    unfolding w by (simp add: comp_def)
next
  case False
  then have "map (\<lambda>x. if vk_keep x = vk_keep k then k else x) ks = ks"
    by (intro map_idI) auto
  then show ?thesis
    using False by (simp add: withKeep_def)
qed

lemma findKeep_withKeep: "findKeep (withKeep ks k) (vk_keep k) = Some k"
proof -
  have "find (\<lambda>x. vk_keep x = vk_keep k) (map (\<lambda>x. if vk_keep x = vk_keep k then k else x) xs) = Some k"
    if "\<exists>x \<in> set xs. vk_keep x = vk_keep k" for xs
    using that by (induction xs) auto
  moreover have "find (\<lambda>x. vk_keep x = vk_keep k) (xs @ [k]) = Some k" if "\<not> (\<exists>x \<in> set xs. vk_keep x = vk_keep k)" for xs
    using that by (induction xs) auto
  ultimately show ?thesis
    by (simp add: findKeep_def withKeep_def)
qed

lemma at_keep_again:
  assumes "\<And>k. findKeep ks keep = Some k \<Longrightarrow> vk_keep (f k) = vk_keep k \<and> g (f k) = f k"
  shows "at_keep (at_keep ks keep f) keep g = at_keep ks keep f"
proof (cases "findKeep ks keep")
  case (Some k)
  then have id: "vk_keep (f k) = keep" "g (f k) = f k"
    using assms findKeep_Some by auto
  have "findKeep (withKeep ks (f k)) keep = Some (f k)"
    using findKeep_withKeep [of ks "f k"] id(1) by simp
  then show ?thesis
    using Some id by (simp add: at_keep_def withKeep_again)
qed (simp add: at_keep_def)

text \<open>An ack dated at most ten minutes ahead of the clock that first read it is not clamped, then or later.\<close>

definition timely :: "int \<Rightarrow> int \<Rightarrow> keep_ack \<Rightarrow> bool" where
  "timely now now' a \<longleftrightarrow> now \<le> now' \<and> ak_time a \<le> now + CLAIM_ACK_SKEW_S"

lemma timely_clamp: "timely now now' a \<Longrightarrow> clampAckTime (ak_time a) now = ak_time a \<and> clampAckTime (ak_time a) now' = ak_time a"
  by (auto simp: timely_def clampAckTime_def)

lemma ack_keep_again:
  assumes t: "timely now now' a" and a: "ack_ok a" "\<not> ak_owners a" "\<not> ak_settings a"
  shows "ack_keep a now' (ack_keep a now k) = ack_keep a now k"
proof (cases "ak_claim a")
  case True
  then show ?thesis
    using timely_clamp [OF t] by (auto simp: ack_keep_def Let_def ack_claim_def)
next
  case claim: False
  show ?thesis
  proof (cases "find (\<lambda>i. Some (vi_grant i) = ak_grant a) (vk_invites k)")
    case None
    have "vk_invites (ack_pass a k) = vk_invites k"
      by (simp add: ack_pass_def split: option.split)
    moreover have "ack_pass a (ack_pass a k) = ack_pass a k"
    proof (cases "\<exists>ps p. vk_passes k = Some ps \<and> find (\<lambda>p. Some (vp_grant p) = ak_grant a) ps = Some p")
      case False
      then have "ack_pass a k = k"
        by (cases "vk_passes k"; cases "find (\<lambda>p. Some (vp_grant p) = ak_grant a) (the (vk_passes k))") (simp_all add: ack_pass_def)
      then show ?thesis
        by simp
    next
      case True
      then obtain ps p where ps: "vk_passes k = Some ps" "find (\<lambda>p. Some (vp_grant p) = ak_grant a) ps = Some p"
        by blast
      let ?q = "p\<lparr>vp_state := Pass_revoked, vp_revokeSent := Some False\<rparr>"
      have "find (\<lambda>p. Some (vp_grant p) = ak_grant a) (update_first (\<lambda>p. Some (vp_grant p) = ak_grant a) ?q ps) = Some ?q"
        using ps(2) find_SomeD [OF ps(2)] by (intro find_update_first [OF ps(2)]) simp
      then show ?thesis
        using ps by (simp add: ack_pass_def)
    qed
    ultimately show ?thesis
      using None claim by (simp add: ack_keep_def)
  next
    case (Some i)
    then have i: "ak_grant a = Some (vi_grant i)"
      by (auto dest: find_SomeD)
    let ?t = "ak_time a" and ?k = "on_invite (vi_grant i) (\<lambda>j. ack_invite a (ak_time a) i) k"
    have st: "ak_status a \<in> {Ack_active, Ack_revoked, Ack_refused}"
      using a claim by (auto simp: ack_ok_def)
    have f: "find (\<lambda>j. Some (vi_grant j) = ak_grant a) (vk_invites ?k) = Some (ack_invite a ?t i)"
    proof -
      have "find (\<lambda>j. vi_grant j = vi_grant i) (map (\<lambda>j. if vi_grant j = vi_grant i then ack_invite a ?t i else j) xs) = Some (ack_invite a ?t i)"
        if "i \<in> set xs" for xs
        using that by (induction xs) auto
      then show ?thesis
        using find_SomeD [OF Some] i by (simp add: on_invite_def eq_commute [of "Some (vi_grant _)"])
    qed
    have again: "ack_invite a ?t (ack_invite a ?t i) = ack_invite a ?t i"
      using st by (auto simp: ack_invite_def acked_status_def)
    have k: "on_invite (vi_grant i) (\<lambda>j. ack_invite a ?t (ack_invite a ?t i)) ?k = ?k"
      unfolding again by (simp add: on_invite_def comp_def)
    have fin: "ack_keep a now' ?k = ?k"
      using f k claim by (simp add: ack_keep_def Let_def timely_clamp [OF t])
    show ?thesis
    proof (cases "vi_status i = Inv_revoked \<or> ak_status a \<noteq> Ack_revoked \<and> (case vi_ackAt i of None \<Rightarrow> False | Some s \<Rightarrow> ?t < clampAckTime s now)")
      case True
      have le: "clampAckTime s now \<le> clampAckTime s now'" for s
        using t by (auto simp: clampAckTime_def timely_def)
      have "(case vi_ackAt i of None \<Rightarrow> False | Some s \<Rightarrow> ?t < clampAckTime s now')"
        if "case vi_ackAt i of None \<Rightarrow> False | Some s \<Rightarrow> ?t < clampAckTime s now"
        using that le by (cases "vi_ackAt i") (simp_all add: less_le_trans)
      then have "ack_keep a now k = k \<and> ack_keep a now' k = k"
        unfolding ack_keep_def Let_def Some option.case timely_clamp [OF t, THEN conjunct1] timely_clamp [OF t, THEN conjunct2]
        using True claim by (cases "vi_status i = Inv_revoked") simp_all
      then show ?thesis
        by simp
    next
      case False
      then have "ack_keep a now k = ?k"
        using Some claim timely_clamp [OF t] by (cases "vi_ackAt i") (auto simp: ack_keep_def Let_def)
      then show ?thesis
        using fin by simp
    qed
  qed
qed

lemma ack_settings_again:
  "ack_settings a r s now = Some s' \<Longrightarrow> ack_settings a r s' now' = None"
  "ack_settings a r s now = None \<Longrightarrow> ack_settings a r s now' = None"
proof -
  assume "ack_settings a r s now = Some s'"
  then have "vs_confirmed s' \<or> vs_failed s' \<or> ak_status a \<noteq> Ack_updated \<and> vs_refusedAt s' = Some (ak_time a)"
    by (cases "ak_status a = Ack_updated") (auto simp: ack_settings_def split: if_splits)
  then show "ack_settings a r s' now' = None"
    by (auto simp: ack_settings_def)
next
  assume n: "ack_settings a r s now = None"
  show "ack_settings a r s now' = None"
    by (rule ccontr) (use n in \<open>simp add: ack_settings_def split: if_split_asm\<close>)
qed

lemma settings_keep_again: "settings_keep a now' (settings_keep a now k) = settings_keep a now k"
proof (cases "ak_settings a \<and> vk_settings k \<noteq> None \<and> ak_setrev a \<noteq> None")
  case True
  then obtain s r where s: "vk_settings k = Some s" "ak_setrev a = Some r"
    by auto
  let ?late = "ak_time a < vk_claimedAt k - CLAIM_ACK_SKEW_S \<or> ak_time a < vs_composedAt s - CLAIM_ACK_SKEW_S"
  have eq: "settings_keep a n k = (if ?late then k else case ack_settings a r s n of None \<Rightarrow> k | Some s' \<Rightarrow> k\<lparr>vk_settings := Some s'\<rparr>)" for n
    using True s by (simp add: settings_keep_def)
  have new: "settings_keep a now' (k\<lparr>vk_settings := Some s'\<rparr>) = k\<lparr>vk_settings := Some s'\<rparr>" if "ack_settings a r s now = Some s'" for s'
    using True s(2) ack_settings_again(1) [OF that, of now'] by (simp add: settings_keep_def)
  show ?thesis
    using eq [of now] eq [of now'] new ack_settings_again(2) [of a r s now now']
    by (cases ?late; cases "ack_settings a r s now") simp_all
next
  case False
  then have "settings_keep a n k = k" for n
    by (auto simp: settings_keep_def split: option.split)
  then show ?thesis
    by simp
qed

lemma reported_again: "reported_pass r t (Some (reported_pass r t old)) = reported_pass r t old"
proof -
  have name: "given_name x (given_name x y) = given_name x y" for x y
    by (simp add: given_name_def)
  show ?thesis
    by (cases old; cases "kr_via r"; cases "kr_state r = Pass_revoked")
      (simp_all add: reported_pass_def Let_def name flagged_def)
qed

lemma find_at_end: "find P xs = None \<Longrightarrow> P y \<Longrightarrow> find P (xs @ [y]) = Some y"
  by (induction xs) (auto split: if_splits)

lemma report_pass_again: "report_pass r now (report_pass r now k) = report_pass r now k"
proof -
  let ?t = "clampAckTime (kr_time r) now" and ?same = "\<lambda>p. vp_grant p = kr_grant r" and ?ps = "passes_of k"
  have same: "?same (reported_pass r ?t x)" "vp_persona (reported_pass r ?t x) = kr_persona r"
    "vp_reportAt (reported_pass r ?t x) = ?t" for x
    by (simp_all add: reported_pass_def Let_def)
  have kept: "report_pass r now (k\<lparr>vk_passes := Some qs\<rparr>) = k\<lparr>vk_passes := Some qs\<rparr>"
    if q: "find ?same qs = Some q" "q = reported_pass r ?t x \<or> vp_state q = Pass_revoked" for qs q x
  proof -
    have ps: "passes_of (k\<lparr>vk_passes := Some qs\<rparr>) = qs"
      by (simp add: passes_of_def or_else_def)
    have "vp_persona q \<noteq> kr_persona r \<or> vp_state q = Pass_revoked \<or> reported_pass r ?t (Some q) = q \<and> vp_reportAt q = ?t"
      using q(2) same reported_again [of r ?t x] by auto
    then consider "vp_persona q \<noteq> kr_persona r \<or> vp_state q = Pass_revoked"
      | "reported_pass r ?t (Some q) = q" "\<not> ?t < vp_reportAt q"
      by fastforce
    then show ?thesis
    proof cases
      case 1
      then show ?thesis
        unfolding report_pass_def Let_def ps q(1) option.case by (simp only: if_True if_cancel)
    next
      case 2
      then show ?thesis
        unfolding report_pass_def Let_def ps q(1) option.case by (simp only: if_False if_True if_cancel simp_thms)
    qed
  qed
  show ?thesis
  proof (cases "report_pass r now k = k")
    case False
    show ?thesis
    proof (cases "find ?same ?ps")
      case None
      have "find ?same (make_room now ?ps @ [reported_pass r ?t None]) = Some (reported_pass r ?t None)"
      proof -
        have "set (evict pick ps) \<subseteq> set ps" for pick ps
          by (auto simp: evict_def dest: subsetD [OF set_remove1_subset] split: list.split)
        then have "set (make_room now ?ps) \<subseteq> set ?ps"
          unfolding make_room_def Let_def by (auto dest!: subsetD)
        then have "find ?same (make_room now ?ps) = None"
          using None by (auto simp: find_None_iff)
        then show ?thesis
          using find_at_end [of ?same "make_room now ?ps"] same(1) by simp
      qed
      then have "report_pass r now (k\<lparr>vk_passes := Some (make_room now ?ps @ [reported_pass r ?t None])\<rparr>)
          = k\<lparr>vk_passes := Some (make_room now ?ps @ [reported_pass r ?t None])\<rparr>"
        by (rule kept [OF _ disjI1 [OF refl]])
      moreover have "report_pass r now k = k\<lparr>vk_passes := Some (make_room now ?ps @ [reported_pass r ?t None])\<rparr>"
        using False unfolding report_pass_def Let_def None option.case by presburger
      ultimately show ?thesis
        by simp
    next
      case (Some p)
      let ?q1 = "p\<lparr>vp_state := Pass_revoked, vp_revokeSent := None\<rparr>" and ?q2 = "reported_pass r ?t (Some p)"
      have f: "find ?same (update_first ?same ?q1 ?ps) = Some ?q1" "find ?same (update_first ?same ?q2 ?ps) = Some ?q2"
        using find_SomeD [OF Some] same(1) by (auto intro!: find_update_first [OF Some])
      have "vp_state ?q1 = Pass_revoked"
        by simp
      note fixed = kept [OF f(1) disjI2 [OF this]] kept [OF f(2) disjI1 [OF refl]]
      have "report_pass r now k = k\<lparr>vk_passes := Some (update_first ?same ?q1 ?ps)\<rparr>
          \<or> report_pass r now k = k\<lparr>vk_passes := Some (update_first ?same ?q2 ?ps)\<rparr>"
        using False unfolding report_pass_def Let_def Some option.case by presburger
      then show ?thesis
        by (elim disjE) (simp_all only: fixed)
    qed
  qed simp
qed

section \<open>Acks of the owner list that come again\<close>

lemma raise_rev_id: "r \<le> vk_rev k \<Longrightarrow> raise_rev r k = k"
  by (simp add: raise_rev_def max_def)

lemma on_updated_id:
  assumes "r \<le> vk_rev k" "\<not> (case vk_update k of None \<Rightarrow> False | Some w \<Rightarrow> answers_update a to w \<and> r = vu_rev w)"
    and "\<And>l c. map_of (vk_links k) to = Some l \<Longrightarrow> vl_accept l = Some c \<Longrightarrow>
      \<not> (r \<ge> va_rev c \<and> ak_time a \<ge> va_composedAt c - CLAIM_ACK_SKEW_S)"
  shows "on_updated a to r k = k"
  unfolding on_updated_def Let_def raise_rev_id [OF assms(1)] if_not_P [OF assms(2)]
  using assms(3) by (auto split: option.split)

lemma on_updated_again:
  assumes k: "inv_keep k"
  shows "on_updated a to r (on_updated a to r k) = on_updated a to r k"
proof (cases "case vk_update k of None \<Rightarrow> False | Some w \<Rightarrow> answers_update a to w \<and> r = vu_rev w")
  case True
  then obtain w where w: "vk_update k = Some w" "vu_signer w = to"
    by (auto simp: answers_update_def split: option.splits)
  have eq: "on_updated a to r k = update_done (raise_rev r k)"
    using True by (simp add: on_updated_def Let_def)
  have none: "vl_accept (resent_accept l) = None" if "map_of (vk_links k) to = Some l" for l
    using k w that map_of_SomeD [OF that] by (fastforce simp: inv_keep_def base_inv_def links_inv_def signer_ok_def resent_accept_def)
  have "map_of (map (\<lambda>(p, l). (p, resent_accept l)) m) to = map_option resent_accept (map_of m to)" for m
    by (induction m) auto
  then show ?thesis
    unfolding eq using none by (intro on_updated_id) (auto simp: update_done_def withLinks_def raise_rev_def)
next
  case False
  have eq: "on_updated a to r k = (case map_of (vk_links k) to of
             None \<Rightarrow> raise_rev r k
           | Some l \<Rightarrow> (case vl_accept l of
               None \<Rightarrow> raise_rev r k
             | Some c \<Rightarrow> if r \<ge> va_rev c \<and> ak_time a \<ge> va_composedAt c - CLAIM_ACK_SKEW_S
                 then withLinks (raise_rev r k) (AList.update to (l\<lparr>vl_accept := None, vl_active := True\<rparr>) (vk_links (raise_rev r k)))
                 else raise_rev r k))"
    unfolding on_updated_def Let_def if_not_P [OF False] by (rule refl)
  show ?thesis
  proof (cases "\<exists>l c. map_of (vk_links k) to = Some l \<and> vl_accept l = Some c
      \<and> r \<ge> va_rev c \<and> ak_time a \<ge> va_composedAt c - CLAIM_ACK_SKEW_S")
    case True
    then obtain l where "on_updated a to r k
        = withLinks (raise_rev r k) (AList.update to (l\<lparr>vl_accept := None, vl_active := True\<rparr>) (vk_links (raise_rev r k)))"
      unfolding eq by auto
    then show ?thesis
      using False by (auto simp: raise_rev_def withLinks_def AList.update_conv' intro!: on_updated_id)
  next
    case none: False
    then have "on_updated a to r k = raise_rev r k"
      unfolding eq by (auto split: option.split)
    then show ?thesis
      using False none by (auto simp: raise_rev_def intro!: on_updated_id)
  qed
qed

lemma on_pending_again: "on_pending a to r (on_pending a to r k) = on_pending a to r k"
proof -
  have id: "on_pending a to r j = j" if "r \<le> vk_rev j"
      "\<And>l c. map_of (vk_links j) to = Some l \<Longrightarrow> vl_accept l = Some c \<Longrightarrow>
        \<not> (\<not> flagged (va_pending c) \<and> ak_time a \<ge> va_composedAt c - CLAIM_ACK_SKEW_S)" for j
    unfolding on_pending_def Let_def raise_rev_id [OF that(1)] using that(2) by (auto split: option.split)
  show ?thesis
  proof (cases "\<exists>l c. map_of (vk_links k) to = Some l \<and> vl_accept l = Some c
      \<and> \<not> flagged (va_pending c) \<and> ak_time a \<ge> va_composedAt c - CLAIM_ACK_SKEW_S")
    case True
    then obtain l c where "on_pending a to r k
        = withLinks (raise_rev r k) (AList.update to (l\<lparr>vl_accept := Some (c\<lparr>va_pending := Some True\<rparr>)\<rparr>) (vk_links (raise_rev r k)))"
      unfolding on_pending_def Let_def by auto
    then show ?thesis
      by (auto simp: raise_rev_def withLinks_def AList.update_conv' flagged_def intro!: id)
  next
    case none: False
    then have "on_pending a to r k = raise_rev r k"
      unfolding on_pending_def Let_def by (auto split: option.split)
    then show ?thesis
      using none by (auto simp: raise_rev_def intro!: id)
  qed
qed

lemma on_refused_again:
  assumes "on_refused a to now k = Some k'"
  shows "on_refused a to now' k' = Some k'"
proof -
  have id: "on_refused a to now' j = Some j" if "vk_update j = Some w" "vu_failed w \<noteq> None \<or> vu_refusedAt w = Some (ak_time a)" for j w
    using that by (auto simp: on_refused_def answers_update_def)
  show ?thesis
  proof (cases "vk_update k")
    case None
    then show ?thesis
      using assms by (auto simp: on_refused_def)
  next
    case w: (Some w)
    have comp: "\<exists>w2. vk_update k2 = Some w2 \<and> vu_refusedAt w2 = Some (ak_time a)"
      if "composeUpdate ((raise_rev r k)\<lparr>vk_update := Some (w\<lparr>vu_refusedAt := Some (ak_time a)\<rparr>)\<rparr>) s now = Some k2" for r s k2
      using that by (auto simp: composeUpdate_def Let_def withLinks_def split: if_splits option.splits)
    let ?skip = "\<not> answers_update a to w \<or> (case vu_refusedAt w of None \<Rightarrow> False | Some t \<Rightarrow> ak_time a \<le> t)"
    let ?heeded = "(\<exists>r. ak_reason a = Some Bad_stale \<and> ak_rev a = Some r \<and> \<not> r < vu_rev w)
        \<or> ak_reason a = Some Bad_too_many \<or> ak_reason a = Some Bad_malformed"
    show ?thesis
    proof (cases "?skip \<or> \<not> ?heeded")
      case True
      have "on_refused a to n k = Some k" for n
      proof (cases ?skip)
        case False
        then show ?thesis
          unfolding on_refused_def w option.case Let_def if_not_P [OF False]
          using True by (auto split: option.split refusal_reason.split)
      qed (simp add: on_refused_def w)
      then show ?thesis
        using assms by simp
    next
      case False
      then have live: "\<not> ?skip" and ?heeded
        by blast+
      have "\<exists>w'. vk_update k' = Some w' \<and> (vu_failed w' \<noteq> None \<or> vu_refusedAt w' = Some (ak_time a))"
        using assms \<open>?heeded\<close> unfolding on_refused_def w option.case Let_def if_not_P [OF live]
        by (auto simp: fail_update_def dest!: comp split: if_splits)
      then show ?thesis
        using id by blast
    qed
  qed
qed

lemma owners_keep_again:
  assumes k: "inv_keep k" and r: "owners_keep a now k = Some k'"
  shows "owners_keep a now' k' = Some k'"
proof (cases "ak_to a")
  case None
  then show ?thesis
    using r by (simp add: owners_keep_def)
next
  case (Some to)
  have claimed: "vk_claimedAt (on_updated a to q k) = vk_claimedAt k" "vk_claimedAt (on_pending a to q k) = vk_claimedAt k" for q
    by (simp_all add: on_updated_def on_pending_def Let_def update_done_def withLinks_def raise_rev_def split: option.split)
  have refused: "vk_claimedAt k2 = vk_claimedAt k" if "on_refused a to now k = Some k2" for k2
    using that by (auto simp: on_refused_def Let_def fail_update_def raise_rev_def composeUpdate_def withLinks_def
        split: option.splits if_splits refusal_reason.splits)
  let ?skip = "\<not> ak_owners a \<or> to = [] \<or> ak_time a < vk_claimedAt k - CLAIM_ACK_SKEW_S
      \<or> (case ak_rev a of None \<Rightarrow> False | Some r \<Rightarrow> \<not> (safe_int r \<and> r < MAX_SAFE))"
  show ?thesis
  proof (cases ?skip)
    case True
    then have "owners_keep a n k = Some k" for n
      using Some by (auto simp: owners_keep_def)
    then show ?thesis
      using r by simp
  next
    case False
    have step: "owners_keep a n j = (case (ak_status a, ak_rev a) of
             (Ack_updated, Some r) \<Rightarrow> Some (on_updated a to r j)
           | (Ack_pending, Some r) \<Rightarrow> Some (on_pending a to r j)
           | (Ack_refused, _) \<Rightarrow> on_refused a to n j
           | _ \<Rightarrow> Some j)" if "vk_claimedAt j = vk_claimedAt k" for n j
      using False Some that by (auto simp: owners_keep_def)
    show ?thesis
    proof (cases "ak_status a = Ack_refused")
      case True
      then have "on_refused a to now k = Some k'"
        using r step [of k now] by simp
      then show ?thesis
        using step [of k' now'] True refused on_refused_again by simp
    next
      case other: False
      show ?thesis
        using r step [of k now] step [of k' now'] claimed other on_updated_again [OF k] on_pending_again
        by (cases "ak_status a"; cases "ak_rev a") auto
    qed
  qed
qed

text \<open>
  A message that a relay delivers again changes nothing. An ack of a claim, an
  invite, the owner list or the settings, handled a second time at any later moment, leaves the list
  of Keeps as its first handling left it (if it was not dated more than ten minutes ahead, where the
  clock of the device caps it); so does the report of a pass handled twice in one read. In
  particular an old refusal does not compose a second new list, and an old confirmation does not
  confirm another persona.
\<close>

lemma message_again_changes_nothing:
  assumes "keeps_step\<^sup>*\<^sup>* [] ks" "read_rumor rumor keep persona = Some m" "apply_message now m ks = Some ks'"
    and "case m of Ack a \<Rightarrow> timely now now' a | Report r \<Rightarrow> now' = now"
  shows "apply_message now' m ks' = Some ks'"
proof -
  have ks: "inv_keeps ks"
    using reached_inv [OF assms(1)] by simp
  show ?thesis
  proof (cases m)
    case (Report r)
    then show ?thesis
      using assms(3,4) report_pass_again keep_ext_def report_pass_ext
      by (auto simp: apply_message_def applyPassReport_def intro!: at_keep_again)
  next
    case (Ack a)
    have a: "ack_ok a" and t: "timely now now' a"
      using read_rumor_ok [OF assms(2)] assms(4) Ack by auto
    consider "ak_settings a" | "\<not> ak_settings a" "ak_owners a" | "\<not> ak_settings a" "\<not> ak_owners a"
      by blast
    then show ?thesis
    proof cases
      case 1
      then show ?thesis
        using assms(3) Ack settings_keep_ext settings_keep_again
        by (auto simp: apply_message_def applySettingsAck_def keep_ext_def intro!: at_keep_again)
    next
      case 2
      then have r: "applyOwnersAck ks a now = Some ks'"
        using assms(3) Ack by (simp add: apply_message_def)
      have "applyOwnersAck ks' a now' = Some ks'"
      proof (cases "findKeep ks (ak_keep a)")
        case None
        then show ?thesis
          using r by (simp add: applyOwnersAck_def)
      next
        case (Some k)
        then obtain k' where k': "owners_keep a now k = Some k'" "ks' = withKeep ks k'"
          using r by (auto simp: applyOwnersAck_def)
        have "vk_keep k' = ak_keep a"
          using owners_keep_ext [OF k'(1)] findKeep_Some [OF Some] by (simp add: keep_ext_def)
        then have "findKeep ks' (ak_keep a) = Some k'"
          using findKeep_withKeep [of ks k'] k'(2) by simp
        then show ?thesis
          using owners_keep_again [OF findKeep_inv [OF ks Some] k'(1)] k'(2) by (simp add: applyOwnersAck_def withKeep_again)
      qed
      then show ?thesis
        using 2 Ack by (simp add: apply_message_def)
    next
      case 3
      then show ?thesis
        using assms(3) Ack ack_keep_again [OF t a] ack_keep_ext findKeep_inv [OF ks]
        by (auto simp: apply_message_def applyAck_def keep_ext_def intro!: at_keep_again)
    qed
  qed
qed

definition sample_tag :: "ustr list \<Rightarrow> jsval" where
  "sample_tag t = JArr (map JStr t)"

definition sample_rumor :: "ustr list list \<Rightarrow> jsval" where
  "sample_rumor tags = JObj [(u ''kind'', enc_int KEEP_MSG_ACK_KIND), (u ''created_at'', enc_int 2100),
     (u ''tags'', JArr (map sample_tag tags))]"

definition sample_updated :: keep_ack where
  "sample_updated = (plain_ack (hexes 64 98) Ack_updated 2100)\<lparr>ak_owners := True, ak_rev := Some 1, ak_to := Some (hexes 64 97)\<rparr>"

definition sample_claim_ack :: keep_ack where
  "sample_claim_ack = (plain_ack (hexes 64 98) Ack_paired 2100)\<lparr>ak_claim := True\<rparr>"

lemma text_sample_tag [simp]: "text_tag (sample_tag t) = Some t"
  by (simp add: text_tag_def sample_tag_def comp_def, induction t) auto

lemma sample_rumor_parts:
  "kind_is (sample_rumor tags) KEEP_MSG_ACK_KIND" "\<not> kind_is (sample_rumor tags) KEEP_MSG_PASS_REPORT_KIND"
  "safe_time (sample_rumor tags) = Some 2100" "readable_tags (sample_rumor tags) = Some tags"
proof -
  have g: "get (sample_rumor tags) ''kind'' = enc_int KEEP_MSG_ACK_KIND" "get (sample_rumor tags) ''created_at'' = enc_int 2100"
    "get (sample_rumor tags) ''tags'' = JArr (map sample_tag tags)"
    by (simp_all add: sample_rumor_def u_def)
  show "kind_is (sample_rumor tags) KEEP_MSG_ACK_KIND" "\<not> kind_is (sample_rumor tags) KEEP_MSG_PASS_REPORT_KIND"
    by (simp_all add: kind_is_def g(1)) (simp add: enc_int_def keep_consts)
  show "safe_time (sample_rumor tags) = Some 2100"
    by (simp add: safe_time_def g isSafeInt_iff enc_int_def safe_int_def MAX_SAFE_def as_int_def)
  have "concat (map (\<lambda>t. case text_tag t of None \<Rightarrow> [] | Some x \<Rightarrow> [x]) (map sample_tag tags)) = tags"
    by (induction tags) auto
  then show "readable_tags (sample_rumor tags) = Some tags"
    by (simp add: readable_tags_def g)
qed

lemma sample_read:
  "read_rumor (sample_rumor [ [u ''keep'', hexes 64 98], [u ''status'', u ''updated''], [u ''rev'', u ''1'']])
     (hexes 64 98) (hexes 64 97) = Some (Ack sample_updated)"
proof -
  let ?tags = "[ [u ''keep'', hexes 64 98], [u ''status'', u ''updated''], [u ''rev'', u ''1'']]"
  have v: "tag_text ?tags ''keep'' = Some (hexes 64 98)" "tag_text ?tags ''status'' = Some (u ''updated'')"
    "tag_text ?tags ''rev'' = Some (u ''1'')" "named_tags ?tags ''setrev'' = []" "named_tags ?tags ''setting'' = []"
    "single_tag ?tags ''claim'' = None"
    by (simp_all add: tag_text_def single_tag_def named_tags_def nth_text_def u_def)
  have "table_value KEEP_ACK_STATUSES (Some (u ''updated'')) = Some Ack_updated"
    by (simp add: table_value_def KEEP_ACK_STATUSES_def u_def)
  moreover have "parseRev (Some (u ''1'')) = Some 1"
    by (simp add: parseRev_def parseSafeDecimal_def DECIMAL_def u_def dec_val_def is_digits_def digit_unit_def MAX_SAFE_def)
  ultimately have "parseAckRumor (sample_rumor ?tags) (hexes 64 98)
      = Some (plain_ack (hexes 64 98) Ack_updated 2100\<lparr>ak_owners := True, ak_rev := Some 1\<rparr>)"
    unfolding parseAckRumor_def sample_rumor_parts option.case by (simp add: v owners_ack_def sample_rumor_parts)
  then show ?thesis
    by (simp add: read_rumor_def sample_rumor_parts sample_updated_def plain_ack_def)
qed

lemma sample_claim_read:
  "read_rumor (sample_rumor [ [u ''keep'', hexes 64 98], [u ''status'', u ''paired''], [u ''claim'', u ''1'']])
     (hexes 64 98) (hexes 64 97) = Some (Ack sample_claim_ack)"
proof -
  let ?tags = "[ [u ''keep'', hexes 64 98], [u ''status'', u ''paired''], [u ''claim'', u ''1'']]"
  have v: "tag_text ?tags ''keep'' = Some (hexes 64 98)" "tag_text ?tags ''status'' = Some (u ''paired'')"
    "named_tags ?tags ''setrev'' = []" "named_tags ?tags ''setting'' = []" "single_tag ?tags ''claim'' \<noteq> None"
    by (simp_all add: tag_text_def single_tag_def named_tags_def nth_text_def u_def)
  have "table_value KEEP_ACK_STATUSES (Some (u ''paired'')) = Some Ack_paired"
    by (simp add: table_value_def KEEP_ACK_STATUSES_def u_def)
  then have "parseAckRumor (sample_rumor ?tags) (hexes 64 98) = Some sample_claim_ack"
    unfolding parseAckRumor_def sample_rumor_parts option.case
    by (simp add: v grant_ack_def sample_rumor_parts sample_claim_ack_def)
  then show ?thesis
    by (simp add: read_rumor_def sample_rumor_parts sample_claim_ack_def plain_ack_def)
qed

text \<open>The Keep of the samples once the claim is confirmed.\<close>

definition sample_paired :: stored_keep where
  "sample_paired = sample_two\<lparr>vk_code := None, vk_status := Keep_paired, vk_ackCursors := Some [(hexes 64 97, 2100)]\<rparr>"

lemma sample_pairing: "keeps_step [sample_two] [sample_paired]"
proof (rule keeps_step.received [of _ "[(Ack sample_claim_ack, hexes 64 97, 2100)]" 2200])
  have f: "vk_claimedAt sample_two = 2000" "vk_ackCursors sample_two = None"
    by (simp_all add: sample_two_def sample_again_def composed_def repairKeep_def withLinks_def)
  have "ack_keep sample_claim_ack 2200 sample_two = sample_two\<lparr>vk_code := None, vk_status := Keep_paired\<rparr>"
    by (simp add: ack_keep_def ack_claim_def sample_claim_ack_def plain_ack_def f sample_fields clampAckTime_def CLAIM_ACK_SKEW_S_def)
  then show "applyAckEvents [sample_two] [(Ack sample_claim_ack, hexes 64 97, 2100)] 2200 = Some [sample_paired]"
    by (simp add: applyAckEvents_def apply_message_def applyAck_def at_keep_def findKeep_def withKeep_def sample_fields
        sample_claim_ack_def plain_ack_def advanceAckCursors_def newest_read_def message_keep_def advance_cursors_def f
        or_else_def sample_paired_def)
  show "\<forall>q \<in> set [(Ack sample_claim_ack, hexes 64 97, 2100)]. arrived q"
    using sample_claim_read by (auto simp: arrived_def safe_int_def MAX_SAFE_def hex_unit_def)
qed (simp add: clock_ok_def)

lemma sample_paired_reach: "keeps_step\<^sup>*\<^sup>* [] [sample_paired]"
  using sample_reach sample_pairing by simp

lemma message_again_changes_nothing_witness:
  "\<exists>ks. apply_message 2200 (Ack sample_updated) [sample_two] = Some ks \<and> apply_message 9000 (Ack sample_updated) ks = Some ks"
proof -
  obtain ks where ks: "apply_message 2200 (Ack sample_updated) [sample_two] = Some ks"
    using apply_message_inv [OF reached_inv [OF sample_reach] sample_read, of 2200] by (auto simp: clock_ok_def)
  have "timely 2200 9000 sample_updated"
    by (simp add: timely_def sample_updated_def plain_ack_def CLAIM_ACK_SKEW_S_def)
  then have "apply_message 9000 (Ack sample_updated) ks = Some ks"
    using message_again_changes_nothing [OF sample_reach sample_read ks, of 9000] by simp
  then show ?thesis
    using ks by blast
qed

end
