(* ===== verification/Keep_Settle.thy ===== *)
theory Keep_Settle
  imports Keep_Acks
begin

text \<open>
  The app settling with a Keep: reconciling twice is reconciling once, nothing is sent twice within
  ten minutes, the switch for return passes is confirmed after at most two messages, and the window
  of the next read reaches back far enough.
\<close>

section \<open>Games invites that need no change\<close>

definition games_settled :: "reconcile_context \<Rightarrow> stored_keep \<Rightarrow> ustr \<Rightarrow> stored_invite list \<Rightarrow> bool" where
  "games_settled C k p is =
     (let mine = gamesInvitesFor is p; live = filter (liveInvite (rc_now C)) mine
      in if \<not> gamesOn k p then \<forall>i \<in> set mine. (vi_status i = Inv_waiting \<or> vi_status i = Inv_active) \<longrightarrow> flagged (vi_revokeSent i)
         else (last_refused mine \<or> (\<exists>i \<in> set live. rc_now C + KEEP_GAMES_RENEW_BEFORE_S \<le> vi_expiration i))
           \<and> (\<forall>i \<in> set live. \<forall>j \<in> set live. vi_status j = Inv_active
                \<and> rc_now C + KEEP_GAMES_RENEW_BEFORE_S \<le> vi_expiration j \<longrightarrow> vi_expiration j \<le> vi_expiration i))"

lemma longest_Some: "longest is = Some i \<Longrightarrow> i \<in> set is \<and> (\<forall>j \<in> set is. vi_expiration j \<le> vi_expiration i)"
proof -
  assume "longest is = Some i"
  then obtain rest where s: "sort_key (\<lambda>i. - vi_expiration i) is = i # rest"
    by (auto simp: longest_def split: list.splits)
  have "sorted (map (\<lambda>i. - vi_expiration i) (i # rest))"
    unfolding s [symmetric] by simp
  moreover have "set is = set (i # rest)"
    unfolding s [symmetric] by simp
  ultimately show ?thesis
    by auto
qed

lemma longest_Nil [simp]: "longest [] = None"
  by (simp add: longest_def)

lemma longest_None [simp]: "longest is = None \<longleftrightarrow> is = []"
proof -
  have "sort_key (\<lambda>i. - vi_expiration i) is = [] \<longleftrightarrow> is = []"
    by (metis length_0_conv length_sort)
  then show ?thesis
    by (auto simp: longest_def split: list.splits)
qed

lemma longest_far: "(\<exists>i \<in> set is. t \<le> vi_expiration i) \<longleftrightarrow> (case longest is of None \<Rightarrow> False | Some i \<Rightarrow> t \<le> vi_expiration i)"
proof (cases "longest is")
  case None
  then have "is = []"
    by (simp only: longest_None)
  then show ?thesis
    by simp
next
  case (Some i)
  then show ?thesis
    using longest_Some [OF Some] by (auto intro: order_trans)
qed

text \<open>A settled persona is left alone.\<close>

lemma mark_none: "(\<And>i. i \<in> set xs \<Longrightarrow> False) \<Longrightarrow> fold mark_grant xs is = is"
  by (cases xs) auto

lemma games_step_settled:
  assumes "games_settled C k p is"
  shows "games_step C k p (is, n) = (is, n)"
proof (cases "gamesOn k p")
  case False
  then have "filter (\<lambda>i. vi_status i \<noteq> Inv_revoked \<and> \<not> flagged (vi_revokeSent i)
                   \<and> (vi_status i = Inv_waiting \<or> vi_status i = Inv_active)) (gamesInvitesFor is p) = []"
    using assms by (auto simp: games_settled_def Let_def filter_empty_conv)
  then show ?thesis
    using False by (simp add: games_step_def Let_def)
next
  case True
  let ?now = "rc_now C" and ?mine = "gamesInvitesFor is p"
  let ?live = "filter (liveInvite ?now) ?mine"
  have s: "last_refused ?mine \<or> (case longest ?live of None \<Rightarrow> False | Some i \<Rightarrow> ?now + KEEP_GAMES_RENEW_BEFORE_S \<le> vi_expiration i)"
    using assms True unfolding games_settled_def Let_def longest_far [symmetric] by simp
  then have needs: "\<not> (\<not> last_refused ?mine
       \<and> (case longest ?live of None \<Rightarrow> True | Some i \<Rightarrow> vi_expiration i - ?now < KEEP_GAMES_RENEW_BEFORE_S))"
    by (cases "longest ?live") auto
  show ?thesis
  proof (cases "longest (filter (\<lambda>i. vi_status i = Inv_active) ?live)")
    case None
    then show ?thesis
      unfolding games_step_def Let_def prod.case if_not_P [OF needs] None option.case using True by simp
  next
    case (Some a)
    have a: "a \<in> set ?live" "vi_status a = Inv_active"
      using longest_Some [OF Some] by auto
    have "filter (\<lambda>i. vi_expiration i < vi_expiration a) ?live = []" if "vi_expiration a - ?now \<ge> KEEP_GAMES_RENEW_BEFORE_S"
      using assms True a that by (fastforce simp: games_settled_def Let_def filter_empty_conv)
    then show ?thesis
      unfolding games_step_def Let_def prod.case if_not_P [OF needs] Some option.case using True by auto
  qed
qed

section \<open>What one step of the games invites does\<close>

lemma fold_mark_map: "fold mark_grant xs is = map (\<lambda>j. if vi_grant j \<in> vi_grant ` set xs then to_revoke j else j) is"
proof (induction xs arbitrary: "is")
  case (Cons x xs)
  show ?case
    unfolding fold_Cons comp_apply Cons.IH unfolding mark_grant_def map_map
    by (rule map_cong [OF refl]) (auto simp: to_revoke_def)
qed simp

lemma games_for_mark: "gamesInvitesFor (fold mark_grant xs is) p
    = map (\<lambda>j. if vi_grant j \<in> vi_grant ` set xs then to_revoke j else j) (gamesInvitesFor is p)"
  unfolding fold_mark_map gamesInvitesFor_def by (induction "is") (auto simp: to_revoke_def)

lemma to_revoke_dead [simp]: "\<not> liveInvite now (to_revoke j)" "flagged (vi_revokeSent (to_revoke j))"
  by (simp_all add: liveInvite_def to_revoke_def flagged_def)

lemma new_invite_fields [simp]:
  "vi_gamesFor (newGamesInvite C n p) = Some p" "vi_status (newGamesInvite C n p) = Inv_waiting"
  "vi_expiration (newGamesInvite C n p) = rc_now C + KEEP_GAMES_INVITE_S" "vi_grant (newGamesInvite C n p) = fst (rc_fresh C n)"
  "liveInvite (rc_now C) (newGamesInvite C n p)"
  by (simp_all add: newGamesInvite_def liveInvite_def flagged_def isExpired_def keep_consts)

text \<open>
  The invites after the step of persona \<open>p\<close>: a new one for \<open>p\<close> at the end, or some of \<open>p\<close>'s marked.
\<close>

lemma games_step_cases:
  obtains "fst (games_step C k p (is, n)) = is @ [newGamesInvite C n p]" "gamesOn k p"
      "\<forall>i \<in> set (filter (liveInvite (rc_now C)) (gamesInvitesFor is p)). vi_expiration i < rc_now C + KEEP_GAMES_RENEW_BEFORE_S"
    | xs where "fst (games_step C k p (is, n)) = fold mark_grant xs is" "set xs \<subseteq> set (gamesInvitesFor is p)" "\<not> gamesOn k p"
      "\<forall>i \<in> set (gamesInvitesFor is p) - set xs. vi_status i = Inv_waiting \<or> vi_status i = Inv_active \<longrightarrow> flagged (vi_revokeSent i)"
    | "fst (games_step C k p (is, n)) = is" "gamesOn k p" "games_settled C k p is"
    | a where "gamesOn k p"
      "fst (games_step C k p (is, n)) = fold mark_grant (filter (\<lambda>i. vi_expiration i < vi_expiration a)
         (filter (liveInvite (rc_now C)) (gamesInvitesFor is p))) is"
      "a \<in> set (filter (liveInvite (rc_now C)) (gamesInvitesFor is p))" "vi_status a = Inv_active"
      "rc_now C + KEEP_GAMES_RENEW_BEFORE_S \<le> vi_expiration a"
      "\<forall>j \<in> set (filter (liveInvite (rc_now C)) (gamesInvitesFor is p)). vi_status j = Inv_active \<longrightarrow> vi_expiration j \<le> vi_expiration a"
proof (cases "gamesOn k p")
  case False
  let ?xs = "filter (\<lambda>i. vi_status i \<noteq> Inv_revoked \<and> \<not> flagged (vi_revokeSent i)
                   \<and> (vi_status i = Inv_waiting \<or> vi_status i = Inv_active)) (gamesInvitesFor is p)"
  have "fst (games_step C k p (is, n)) = fold mark_grant ?xs is"
    using False by (simp add: games_step_def Let_def)
  then show ?thesis
    using False by (intro that(2) [of ?xs]) auto
next
  case on: True
  let ?now = "rc_now C" and ?mine = "gamesInvitesFor is p"
  let ?live = "filter (liveInvite ?now) ?mine" and ?far = "\<lambda>i. ?now + KEEP_GAMES_RENEW_BEFORE_S \<le> vi_expiration i"
  let ?act = "longest (filter (\<lambda>i. vi_status i = Inv_active) ?live)"
  define needs where "needs = (\<not> last_refused ?mine
       \<and> (case longest ?live of None \<Rightarrow> True | Some i \<Rightarrow> vi_expiration i - ?now < KEEP_GAMES_RENEW_BEFORE_S))"
  have needs: "needs \<longleftrightarrow> \<not> last_refused ?mine \<and> \<not> (\<exists>i \<in> set ?live. ?far i)"
    unfolding longest_far needs_def by (auto split: option.split)
  have eq: "fst (games_step C k p (is, n)) =
     (let made = (if needs then is @ [newGamesInvite C n p] else is)
      in case ?act of None \<Rightarrow> made
         | Some a \<Rightarrow> if ?far a then fold mark_grant (filter (\<lambda>i. vi_expiration i < vi_expiration a) ?live) made else made)"
    using on unfolding games_step_def Let_def prod.case needs_def [symmetric]
    by (auto simp: add.commute le_diff_eq split: option.split)
  have act: "a \<in> set ?live \<and> vi_status a = Inv_active \<and> (\<forall>j \<in> set ?live. vi_status j = Inv_active \<longrightarrow> vi_expiration j \<le> vi_expiration a)"
    if "?act = Some a" for a
    using longest_Some [OF that] by simp
  show ?thesis
  proof (cases "\<exists>a. ?act = Some a \<and> ?far a")
    case True
    then obtain a where a: "?act = Some a" "?far a"
      by blast
    then have "\<not> needs"
      using needs act by blast
    then have "fst (games_step C k p (is, n)) = fold mark_grant (filter (\<lambda>i. vi_expiration i < vi_expiration a) ?live) is"
      using eq a by (simp add: Let_def)
    then show ?thesis
      using act [OF a(1)] a(2) on that(4) by blast
  next
    case False
    then have made: "fst (games_step C k p (is, n)) = (if needs then is @ [newGamesInvite C n p] else is)"
      unfolding eq Let_def by (auto split: option.split)
    show ?thesis
    proof (cases needs)
      case True
      then show ?thesis
        using made needs on by (intro that(1)) auto
    next
      case no: False
      have "\<not> (vi_status j = Inv_active \<and> ?far j)" if live: "j \<in> set ?live" for j
      proof
        assume j: "vi_status j = Inv_active \<and> ?far j"
        then obtain a where a: "?act = Some a"
          using live by (cases ?act) (auto simp: filter_empty_conv)
        then have "?far a"
          using longest_Some [OF a] j live by fastforce
        then show False
          using False a by blast
      qed
      then have "games_settled C k p is"
        using no needs on by (auto simp: games_settled_def Let_def)
      then show ?thesis
        using made no on that(3) by simp
    qed
  qed
qed

lemma games_for_append: "gamesInvitesFor (is @ [i]) p = gamesInvitesFor is p @ (if vi_gamesFor i = Some p then [i] else [])"
  by (simp add: gamesInvitesFor_def)

lemma games_step_other:
  assumes "distinct (map vi_grant is)" "q \<noteq> p"
  shows "gamesInvitesFor (fst (games_step C k p (is, n))) q = gamesInvitesFor is q"
proof -
  have marked: "gamesInvitesFor (fold mark_grant xs is) q = gamesInvitesFor is q" if sub: "set xs \<subseteq> set (gamesInvitesFor is p)" for xs
  proof -
    have "vi_grant j \<notin> vi_grant ` set xs" if j: "j \<in> set (gamesInvitesFor is q)" for j
    proof
      assume "vi_grant j \<in> vi_grant ` set xs"
      then obtain x where x: "x \<in> set (gamesInvitesFor is p)" "vi_grant x = vi_grant j"
        using sub by force
      then have "x = j"
        using j assms(1) by (auto simp: gamesInvitesFor_def distinct_map dest: inj_onD)
      then show False
        using x(1) j assms(2) by (simp add: gamesInvitesFor_def)
    qed
    then show ?thesis
      unfolding games_for_mark by (intro map_idI) simp
  qed
  show ?thesis
  proof (cases rule: games_step_cases [of C k p "is" n])
    case 4
    then show ?thesis
      using marked by (metis (no_types, lifting) filter_is_subset order_trans)
  qed (use marked assms(2) in \<open>auto simp: games_for_append\<close>)
qed

lemma games_settled_cong: "gamesInvitesFor is p = gamesInvitesFor js p \<Longrightarrow> games_settled C k p is = games_settled C k p js"
  by (simp add: games_settled_def)

lemma games_step_settles:
  assumes "distinct (map vi_grant is)"
  shows "games_settled C k p (fst (games_step C k p (is, n)))"
proof -
  let ?live = "\<lambda>is. filter (liveInvite (rc_now C)) (gamesInvitesFor is p)"
  show ?thesis
  proof (cases rule: games_step_cases [of C k p "is" n])
    case 1
    have "rc_now C + KEEP_GAMES_RENEW_BEFORE_S \<le> rc_now C + KEEP_GAMES_INVITE_S"
      by (simp add: keep_consts)
    then show ?thesis
      unfolding 1(1) using 1(2,3) by (auto simp: games_settled_def Let_def games_for_append)
  next
    case (2 xs)
    have "flagged (vi_revokeSent j)" if j: "j \<in> set (gamesInvitesFor (fst (games_step C k p (is, n))) p)"
        "vi_status j = Inv_waiting \<or> vi_status j = Inv_active" for j
    proof -
      obtain i where i: "i \<in> set (gamesInvitesFor is p)" "j = (if vi_grant i \<in> vi_grant ` set xs then to_revoke i else i)"
        using j(1) unfolding 2(1) games_for_mark by auto
      then show ?thesis
        using 2(4) j(2) by (cases "vi_grant i \<in> vi_grant ` set xs") auto
    qed
    then show ?thesis
      using 2(3) by (simp add: games_settled_def Let_def)
  next
    case 3
    then show ?thesis
      by simp
  next
    case (4 a)
    let ?xs = "filter (\<lambda>i. vi_expiration i < vi_expiration a) (?live is)" and ?is' = "fst (games_step C k p (is, n))"
    have left: "j \<in> set (?live is) \<and> vi_expiration a \<le> vi_expiration j" if j: "j \<in> set (?live ?is')" for j
    proof -
      obtain i where i: "i \<in> set (gamesInvitesFor is p)" "j = (if vi_grant i \<in> vi_grant ` set ?xs then to_revoke i else i)"
        "liveInvite (rc_now C) j"
        using j unfolding 4(2) games_for_mark by auto
      then have "j = i" "i \<notin> set ?xs"
        by (auto split: if_splits)
      then show ?thesis
        using i by auto
    qed
    have "vi_grant a \<notin> vi_grant ` set ?xs"
    proof
      assume "vi_grant a \<in> vi_grant ` set ?xs"
      then obtain i where "i \<in> set ?xs" "vi_grant i = vi_grant a"
        by auto
      then have "i = a"
        using assms 4(3) by (auto simp: gamesInvitesFor_def distinct_map inj_on_def)
      then show False
        using \<open>i \<in> set ?xs\<close> by simp
    qed
    then have "a \<in> set (?live ?is')"
      using 4(3) unfolding 4(2) games_for_mark by (auto intro: image_eqI [of _ _ a])
    moreover have "vi_expiration j \<le> vi_expiration i"
      if "i \<in> set (?live ?is')" "j \<in> set (?live ?is')" "vi_status j = Inv_active" for i j
      using left [OF that(1)] left [OF that(2)] that(3) 4(6) by (auto intro: order_trans)
    ultimately show ?thesis
      using 4(1,5) unfolding games_settled_def Let_def by auto
  qed
qed

text \<open>After the steps of all personas, each is settled.\<close>

lemma fold_games_settled:
  assumes C: "context_ok C" and old: "fresh_upto C N old"
    and "games_inv C old st" "\<forall>p \<in> set ps. hex64 p" "snd st + length ps \<le> N" "\<forall>p \<in> P. games_settled C k p (fst st)"
  shows "\<forall>p \<in> P \<union> set ps. games_settled C k p (fst (fold (games_step C k) ps st))"
  using assms(3-)
proof (induction ps arbitrary: st P)
  case (Cons p ps)
  obtain xs n where st: "st = (xs, n)"
    by (cases st)
  have d: "distinct (map vi_grant xs)"
    using Cons.prems(1) st by (simp add: games_inv_def)
  have inv: "games_inv C old (games_step C k p st)"
    using Cons.prems by (intro games_step_inv [OF C old]) auto
  have "games_settled C k q (fst (games_step C k p st))" if "q \<in> insert p P" for q
    using that games_step_settles [OF d] games_settled_cong [OF games_step_other [OF d]] Cons.prems(4)
    by (cases "q = p") (auto simp: st)
  then show ?case
    using Cons.IH [OF inv, of "insert p P"] Cons.prems(2,3) games_step_count [of C k p st] by simp
qed simp

section \<open>Linking the personas not met yet\<close>

lemma update_absent: "map_of m p = None \<Longrightarrow> AList.update p l m = m @ [(p, l)]"
  by (induction m) (auto split: if_splits)

lemma link_one:
  assumes "\<not> isLinked k p" "length (vk_personas k) < KEEP_MAX_OWNER_PERSONAS" "vk_personas k = map fst (vk_links k)"
  shows "\<exists>j. linkPersona k p = Some j \<and> vk_personas j = vk_personas k @ [p] \<and> vk_personas j = map fst (vk_links j)
    \<and> (\<forall>q. isLinked j q \<longleftrightarrow> q = p \<or> isLinked k q) \<and> set (vk_seen j) = insert p (set (vk_seen k))"
proof -
  have "map_of (vk_links k) p = None"
    using assms(1) by (simp add: isLinked_def)
  then show ?thesis
    using assms by (auto simp: linkPersona_def note_seen_def withLinks_def update_absent isLinked_def map_add_def split: if_splits option.splits)
qed

abbreviation link_all :: "ustr list \<Rightarrow> stored_keep \<Rightarrow> stored_keep" where
  "link_all ps k \<equiv> fold (\<lambda>p added. or_else (linkPersona added p) added) ps k"

lemma link_all_room:
  assumes "distinct ps" "\<forall>p \<in> set ps. \<not> isLinked k p" "length (vk_personas k) + length ps \<le> KEEP_MAX_OWNER_PERSONAS"
    "vk_personas k = map fst (vk_links k)"
  shows "vk_personas (link_all ps k) = vk_personas k @ ps \<and> set (vk_seen (link_all ps k)) = set (vk_seen k) \<union> set ps"
  using assms
proof (induction ps arbitrary: k)
  case (Cons p ps)
  then obtain j where j: "linkPersona k p = Some j" "vk_personas j = vk_personas k @ [p]" "vk_personas j = map fst (vk_links j)"
      "\<forall>q. isLinked j q \<longleftrightarrow> q = p \<or> isLinked k q" "set (vk_seen j) = insert p (set (vk_seen k))"
    using link_one [of k p] by auto
  have "vk_personas (link_all ps j) = vk_personas j @ ps \<and> set (vk_seen (link_all ps j)) = set (vk_seen j) \<union> set ps"
    using Cons.prems j by (intro Cons.IH) auto
  then show ?case
    using j by (simp add: or_else_def)
qed simp

lemma composed_fields [simp]:
  "vk_personas (composed k s now) = map fst (vk_links k)" "vk_seen (composed k s now) = vk_seen k"
  "vk_scope (composed k s now) = vk_scope k" "vk_status (composed k s now) = vk_status k"
  "vk_invites (composed k s now) = vk_invites k"
  by (simp_all add: composed_def withLinks_def comp_def case_prod_unfold)

text \<open>Once linked, there is nobody new: the second reconciliation composes no update.\<close>

lemma link_fresh_again:
  assumes k: "inv_keep k" and C: "context_ok C" "distinct (rc_eligible C)" and r: "link_fresh C k = Some k1"
  shows "link_fresh C (k1\<lparr>vk_invites := is\<rparr>) = Some (k1\<lparr>vk_invites := is\<rparr>)"
proof -
  let ?fresh = "\<lambda>k. take (KEEP_MAX_OWNER_PERSONAS - length (vk_personas k))
      (filter (\<lambda>p. p \<notin> set (vk_seen k) \<and> \<not> isLinked k p) (rc_eligible C))"
  let ?signer = "\<lambda>k. if (?fresh k \<noteq> [] \<or> (vk_rev k = 0 \<and> vk_update k = None)) \<and> canCompose k then pickSigner k (rc_canSign C) None else None"
  have def: "link_fresh C k = (if vk_scope k = All_personas \<and> (case vk_update k of None \<Rightarrow> True | Some w \<Rightarrow> vu_failed w = None)
      then case ?signer k of None \<Rightarrow> Some k | Some s \<Rightarrow> composeUpdate (link_all (?fresh k) k) s (rc_now C) else Some k)" for k
    unfolding link_fresh_def Let_def by (rule refl)
  have inv: "link_fresh C (j\<lparr>vk_invites := is\<rparr>) = Some (j\<lparr>vk_invites := is\<rparr>)" if "\<not> (vk_scope j = All_personas
      \<and> (case vk_update j of None \<Rightarrow> True | Some w \<Rightarrow> vu_failed w = None)) \<or> ?signer j = None" for j
  proof -
    let ?j = "j\<lparr>vk_invites := is\<rparr>"
    have same: "isLinked ?j = isLinked j" "canCompose ?j = canCompose j" "pickSigner ?j c q = pickSigner j c q"
      "vk_personas ?j = vk_personas j" "vk_seen ?j = vk_seen j" "vk_rev ?j = vk_rev j" "vk_update ?j = vk_update j" for c q
      by (simp_all add: fun_eq_iff isLinked_def canCompose_def last_rev_def update_rev_def pickSigner_def isActiveOwner_def activeOwners_def cong: filter_cong)
    have "?signer ?j = ?signer j"
      by (simp only: same)
    then show ?thesis
      unfolding def using that by auto
  qed
  show ?thesis
  proof (cases "vk_scope k = All_personas \<and> (case vk_update k of None \<Rightarrow> True | Some w \<Rightarrow> vu_failed w = None) \<and> ?signer k \<noteq> None")
    case False
    then have "k1 = k"
      using r unfolding def by (auto split: if_splits)
    then show ?thesis
      using False by (intro inv) auto
  next
    case True
    then obtain s where s: "?signer k = Some s" "composeUpdate (link_all (?fresh k) k) s (rc_now C) = Some k1"
      using r unfolding def by auto
    have hex: "\<forall>p \<in> set (?fresh k). hex64 p"
      using C(1) by (auto simp: context_ok_def list_all_iff dest: in_set_takeD)
    note all = link_all_inv [OF inv_base [OF k] hex]
    have k1: "k1 = composed (link_all (?fresh k) k) s (rc_now C)"
      using s(2) base_invD(3,4) [OF all(1)] by (simp add: composeUpdate_composed split: if_splits)
    have room: "length (vk_personas k) \<le> KEEP_MAX_OWNER_PERSONAS \<Longrightarrow>
        vk_personas (link_all (?fresh k) k) = vk_personas k @ ?fresh k \<and> set (vk_seen (link_all (?fresh k) k)) = set (vk_seen k) \<union> set (?fresh k)"
      using C(2) inv_keepD(8) [OF k] by (intro link_all_room) (auto dest: in_set_takeD)
    have "?fresh k1 = []"
    proof (cases "length (vk_personas k) < KEEP_MAX_OWNER_PERSONAS")
      case False
      then have "link_all (?fresh k) k = k"
        by simp
      then have "length (vk_personas k1) = length (vk_personas k)"
        using inv_keepD(8) [OF k] k1 by simp
      then show ?thesis
        using False by simp
    next
      case less: True
      then have grown: "vk_personas k1 = vk_personas k @ ?fresh k" "set (vk_seen k1) = set (vk_seen k) \<union> set (?fresh k)"
        using room k1 base_invD(3) [OF all(1)] by simp_all
      have lk: "isLinked k1 p" if "isLinked k p" for p
      proof -
        have "p \<in> set (vk_personas k1)"
          using that grown(1) inv_keepD(8) [OF k] by (auto simp: isLinked_def dest!: map_of_SomeD intro: rev_image_eqI)
        then show ?thesis
          unfolding k1 isLinked_def composed_def withLinks_def by (auto simp: map_of_eq_None_iff image_iff case_prod_unfold)
      qed
      show ?thesis
      proof (cases "length (?fresh k) = KEEP_MAX_OWNER_PERSONAS - length (vk_personas k)")
        case True
        then show ?thesis
          using grown(1) by simp
      next
        case False
        then have "?fresh k = filter (\<lambda>p. p \<notin> set (vk_seen k) \<and> \<not> isLinked k p) (rc_eligible C)"
          by (simp add: take_all min_def split: if_splits)
        then show ?thesis
          using grown(2) lk by (auto simp: filter_empty_conv)
      qed
    qed
    moreover have "vk_update k1 \<noteq> None"
      by (simp add: k1 composed_def)
    ultimately have "?signer k1 = None"
      by auto
    then show ?thesis
      by (intro inv) blast
  qed
qed

section \<open>Reconciling\<close>

lemma games_settled_links: "vk_links k' = vk_links k \<Longrightarrow> games_settled C k' p is = games_settled C k p is"
  by (simp add: games_settled_def gamesOn_def)

lemma games_step_links: "vk_links k' = vk_links k \<Longrightarrow> games_step C k' p st = games_step C k p st"
  by (cases st) (simp add: games_step_def gamesOn_def)

lemma set_uniq_owners: "set (games_owners k) = set (vk_personas k) \<union> {p. p \<noteq> [] \<and> (\<exists>i \<in> set (vk_invites k). vi_gamesFor i = Some p)}"
proof -
  have "p \<in> set (case x of None \<Rightarrow> [] | Some p \<Rightarrow> if p = [] then [] else [p]) \<longleftrightarrow> p \<noteq> [] \<and> x = Some p" for x :: "ustr option" and p
    by (cases x) auto
  then show ?thesis
    by (auto simp: games_owners_def)
qed

text \<open>New invites are for personas whose step made them.\<close>

lemma fold_games_for:
  "i \<in> set (fst (fold (games_step C k) ps st)) \<Longrightarrow> vi_gamesFor i \<in> vi_gamesFor ` set (fst st) \<union> Some ` set ps"
proof (induction ps arbitrary: st)
  case (Cons p ps)
  obtain xs n where st: "st = (xs, n)"
    by (cases st)
  have mark: "vi_gamesFor ` set (fold mark_grant ys xs) = vi_gamesFor ` set xs" for ys
    unfolding fold_mark_map set_map image_image by (rule image_cong [OF refl]) (simp add: to_revoke_def)
  have "vi_gamesFor ` set (fst (games_step C k p st)) \<subseteq> vi_gamesFor ` set (fst st) \<union> {Some p}"
    unfolding st by (cases rule: games_step_cases [of C k p xs n]) (auto simp: mark)
  then show ?case
    using Cons.IH [of "games_step C k p st"] Cons.prems by auto
qed auto

lemma reconcile_paired:
  assumes k: "inv_keep k" "vk_status k = Keep_paired" and C: "context_ok C" "fresh_for C k" and r: "reconcileKeep k C = Some k2"
  obtains k1 ps where "link_fresh C k = Some k1" "ps = games_owners k1"
    "k2 = k1\<lparr>vk_invites := fst (fold (games_step C k1) ps (vk_invites k1, 0))\<rparr>"
    "\<forall>p \<in> set ps. games_settled C k1 p (vk_invites k2)" "set (games_owners k2) \<subseteq> set ps"
proof -
  obtain k1 where k1: "link_fresh C k = Some k1" "inv_keep k1" "vk_invites k1 = vk_invites k"
    using link_fresh_inv [OF k(1) C(1)] by blast
  let ?ps = "games_owners k1"
  let ?is = "fst (fold (games_step C k1) ?ps (vk_invites k1, 0))"
  have k2: "k2 = k1\<lparr>vk_invites := ?is\<rparr>"
    using r k(2) k1(1) by (auto simp: reconcileKeep_def)
  have g: "games_inv C (vi_grant ` set (vk_invites k1)) (vk_invites k1, 0)"
    using inv_keepD(4,5) [OF k1(2)] by (simp add: games_inv_def)
  have old: "fresh_upto C (draws C k) (vi_grant ` set (vk_invites k1))"
    using C(2) k1(3) fresh_upto_mono by (fastforce simp: fresh_for_def)
  have "length ?ps \<le> draws C k"
    using length_games_owners [of k1] length_link_fresh [OF k(1) k1(1)] k1(3) by (simp add: draws_def)
  have settled: "\<forall>p \<in> set ?ps. games_settled C k1 p (vk_invites k2)"
    using fold_games_settled [OF C(1) old g games_owners_hex [OF k1(2)], of "{}" k1] \<open>length ?ps \<le> _\<close> k2 by simp
  have "p \<in> set ?ps" if "p \<noteq> []" "i \<in> set ?is" "vi_gamesFor i = Some p" for p i
    using fold_games_for [OF that(2)] that(1,3) by (auto simp: set_uniq_owners image_iff intro: sym)
  then have "set (games_owners k2) \<subseteq> set ?ps"
    unfolding set_uniq_owners [of k2] by (auto simp: k2 set_uniq_owners [of k1])
  then show ?thesis
    using that [OF k1(1) refl k2 settled] by blast
qed

lemma fold_settled: "\<forall>p \<in> set ps. games_settled C k p is \<Longrightarrow> fold (games_step C k) ps (is, n) = (is, n)"
  by (induction ps) (simp_all add: games_step_settled)

text \<open>
  C29 (functional): One reconciliation settles a paired Keep: doing it again in the same moment
  changes nothing (no second update of the owner list, no second invite). Afterwards every linked
  persona that plays has a games invite good for another thirty days, unless its last request was
  refused, and no live invite is left for a persona that does not play or is not linked any more.
\<close>

theorem reconcile_settles:
  assumes "keeps_step\<^sup>*\<^sup>* [] ks" "k \<in> set ks" "vk_status k = Keep_paired"
    and "context_ok C" "distinct (rc_eligible C)" "fresh_for C k" "reconcileKeep k C = Some k'"
  shows "reconcileKeep k' C = Some k'
    \<and> list_all (\<lambda>p. gamesOn k' p \<longrightarrow> last_refused (gamesInvitesFor (vk_invites k') p)
        \<or> list_ex (\<lambda>i. liveInvite (rc_now C) i \<and> rc_now C + KEEP_GAMES_RENEW_BEFORE_S \<le> vi_expiration i)
            (gamesInvitesFor (vk_invites k') p)) (vk_personas k')
    \<and> list_all (\<lambda>i. case vi_gamesFor i of None \<Rightarrow> True
        | Some p \<Rightarrow> p \<noteq> [] \<longrightarrow> liveInvite (rc_now C) i \<longrightarrow> gamesOn k' p) (vk_invites k')"
proof -
  have k: "inv_keep k"
    using reached_inv [OF assms(1) empty_inv] assms(2) by (simp add: inv_keeps_def)
  obtain k1 ps where k1: "link_fresh C k = Some k1" "ps = games_owners k1"
    and k': "k' = k1\<lparr>vk_invites := fst (fold (games_step C k1) ps (vk_invites k1, 0))\<rparr>"
    and settled: "\<forall>p \<in> set ps. games_settled C k1 p (vk_invites k')" and sub: "set (games_owners k') \<subseteq> set ps"
    using reconcile_paired [OF k assms(3,4,6,7)] by blast
  have links: "vk_links k' = vk_links k1" "vk_personas k' = vk_personas k1"
    by (simp_all add: k')
  have all: "games_settled C k' p (vk_invites k')" if "p \<in> set ps" for p
    using settled that games_settled_links [OF links(1)] by blast
  have "vk_status k' = Keep_paired"
  proof -
    have "vk_status (link_all xs k) = vk_status k" for xs
      by (rule fold_keeps_inv) (auto simp: or_else_def linkPersona_def note_seen_def withLinks_def split: option.split)
    then have "vk_status k1 = vk_status k"
      using k1(1) by (auto simp: link_fresh_def Let_def composeUpdate_def withLinks_def split: if_splits option.splits)
    then show ?thesis
      using assms(3) by (simp add: k')
  qed
  moreover have "fold (games_step C k') (games_owners k') (vk_invites k', 0) = (vk_invites k', 0)"
    using all sub by (intro fold_settled) blast
  ultimately have "reconcileKeep k' C = Some k'"
    using link_fresh_again [OF k assms(4,5) k1(1)] unfolding reconcileKeep_def k' by simp
  moreover have "p \<in> set ps" if "p \<in> set (vk_personas k')" for p
    using that unfolding k1(2) set_uniq_owners links by simp
  then have "list_all (\<lambda>p. gamesOn k' p \<longrightarrow> last_refused (gamesInvitesFor (vk_invites k') p)
        \<or> list_ex (\<lambda>i. liveInvite (rc_now C) i \<and> rc_now C + KEEP_GAMES_RENEW_BEFORE_S \<le> vi_expiration i)
            (gamesInvitesFor (vk_invites k') p)) (vk_personas k')"
    using all by (fastforce simp: list_all_iff list_ex_iff games_settled_def Let_def)
  moreover have "gamesOn k' p" if "i \<in> set (vk_invites k')" "vi_gamesFor i = Some p" "p \<noteq> []" "liveInvite (rc_now C) i" for i p
  proof (rule ccontr)
    assume off: "\<not> gamesOn k' p"
    have "p \<in> set ps"
      using sub that(1-3) unfolding set_uniq_owners by blast
    then have "vi_status i = Inv_waiting \<or> vi_status i = Inv_active \<longrightarrow> flagged (vi_revokeSent i)"
      using all off that(1,2) by (fastforce simp: games_settled_def Let_def gamesInvitesFor_def)
    then show False
      using that(4) by (auto simp: liveInvite_def)
  qed
  then have "list_all (\<lambda>i. case vi_gamesFor i of None \<Rightarrow> True
        | Some p \<Rightarrow> p \<noteq> [] \<longrightarrow> liveInvite (rc_now C) i \<longrightarrow> gamesOn k' p) (vk_invites k')"
    by (auto simp: list_all_iff split: option.split)
  ultimately show ?thesis
    by blast
qed

definition settle_context :: reconcile_context where
  "settle_context = \<lparr>rc_now = 3000, rc_eligible = [hexes 64 97], rc_canSign = \<lambda>p. True, rc_nameOf = \<lambda>p. u ''Ada'',
     rc_fresh = \<lambda>n. (hexes 32 (48 + n mod 10), hexes 64 48)\<rparr>"

lemma sample_context_ok: "context_ok settle_context"
  by (auto simp: context_ok_def settle_context_def clock_ok_def hex_unit_def)

theorem reconcile_settles_witness:
  "\<exists>k. reconcileKeep sample_paired settle_context = Some k \<and> reconcileKeep k settle_context = Some k"
proof -
  have f: "vk_status sample_paired = Keep_paired" "vk_invites sample_paired = []" "vk_personas sample_paired = [hexes 64 97]"
    by (simp_all add: sample_paired_def sample_fields)
      (simp add: sample_two_def sample_again_def composed_def repairKeep_def withLinks_def repaired_links_def sample_keep_def
        newPendingKeep_def Let_def)
  have fresh: "fresh_for settle_context sample_paired"
    by (auto simp: fresh_for_def draws_def f fresh_upto_def settle_context_def inj_on_def less_Suc_eq)
  have inv: "inv_keep sample_paired"
    using reached_inv [OF sample_paired_reach] by (simp add: inv_keeps_def)
  obtain k where k: "reconcileKeep sample_paired settle_context = Some k"
    using reconcileKeep_inv [OF inv sample_context_ok] fresh_upto_mono fresh by (fastforce simp: fresh_for_def)
  then have "reconcileKeep k settle_context = Some k"
    using reconcile_settles [OF sample_paired_reach _ f(1) sample_context_ok _ fresh k] by (simp add: settle_context_def)
  then show ?thesis
    using k by blast
qed

section \<open>The return-passes switch against a Keep that answers\<close>

text \<open>
  What the comment on \<open>KeepAck.setrev\<close> in \<open>keep-messages.ts\<close> says a Keep answers: to a revision above the
  one it holds \<open>updated\<close> with that revision, to any other \<open>refused stale\<close> with the one it holds.
\<close>

definition settings_reply :: "ustr \<Rightarrow> int \<Rightarrow> int \<Rightarrow> keep_ack \<Rightarrow> bool" where
  "settings_reply keep held r a \<longleftrightarrow> ak_keep a = keep \<and> ak_settings a
     \<and> (if held < r then ak_status a = Ack_updated \<and> ak_setrev a = Some r
        else ak_status a = Ack_refused \<and> ak_reason a = Some Bad_stale \<and> ak_setrev a = Some held)"

text \<open>Dated no more than ten minutes before the claim and before the composition it answers.\<close>

definition in_time :: "stored_keep \<Rightarrow> int \<Rightarrow> keep_ack \<Rightarrow> bool" where
  "in_time k start a \<longleftrightarrow> vk_claimedAt k - CLAIM_ACK_SKEW_S \<le> ak_time a \<and> start - CLAIM_ACK_SKEW_S \<le> ak_time a"

lemma reply_confirms:
  assumes "settings_reply (vk_keep k) held (vs_setrev s) a" "held < vs_setrev s" "vk_settings k = Some s"
    "in_time k (vs_composedAt s) a" "\<not> vs_confirmed s" "\<not> vs_failed s"
  shows "settings_keep a now k = k\<lparr>vk_settings := Some (s\<lparr>vs_confirmed := True\<rparr>)\<rparr>"
  using assms by (simp add: settings_reply_def in_time_def settings_keep_def ack_settings_def)

text \<open>
  C30 (liveness): A switch of the return passes goes through in at most two messages, whatever revision the
  Keep already holds (another device may have been there before). Let the Keep answer as keep-messages.ts says,
  its revision not used up and not moved by a third device meanwhile, each answer with a date of its own. If the first
  answer is dated no more than ten minutes before the claim and the choice, the choice is confirmed when that answer
  is handled, or composed again with the next revision above the one the Keep named, to be sent at
  once; and then any answer to this second message that is dated no more than ten minutes before the
  moment the first one was handled confirms it. The choice is the owner's throughout and never counts as failed. (An answer
  dated earlier is ignored by the code.)
\<close>

theorem settings_confirmed_in_two:
  assumes "composeSettings k on now = Some k1" "0 \<le> held" "held < MAX_SAFE - 1"
    and "settings_reply (vk_keep k) held (setrev_of k1) a" "in_time k now a"
  shows "\<exists>s. vk_settings (settings_keep a now' (markSettingsSent k1 sent)) = Some s \<and> vs_returnPasses s = on \<and> \<not> vs_failed s
    \<and> (if held < setrev_of k1 then vs_confirmed s
       else vs_setrev s = held + 1 \<and> vs_sentAt s = 0
         \<and> (\<forall>b now''. settings_reply (vk_keep k) held (vs_setrev s) b \<and> in_time k now' b \<longrightarrow>
              (\<exists>s'. vk_settings (settings_keep b now'' (markSettingsSent (settings_keep a now' (markSettingsSent k1 sent)) again)) = Some s'
                 \<and> vs_confirmed s' \<and> vs_returnPasses s' = on \<and> \<not> vs_failed s')))"
proof -
  let ?s1 = "\<lparr>vs_returnPasses = on, vs_setrev = setrev_of k + 1, vs_composedAt = now, vs_sentAt = sent, vs_confirmed = False,
    vs_refusedAt = None, vs_retried = None, vs_failed = False\<rparr>"
  let ?k1 = "markSettingsSent k1 sent"
  have k1: "vk_settings ?k1 = Some ?s1" "vk_claimedAt ?k1 = vk_claimedAt k" "vk_keep ?k1 = vk_keep k" "setrev_of k1 = setrev_of k + 1"
    using assms(1) by (auto simp: composeSettings_def markSettingsSent_def setrev_of_def [of k1] split: if_splits)
  have t1: "in_time ?k1 (vs_composedAt ?s1) a"
    using assms(5) k1(2) by (simp add: in_time_def)
  show ?thesis
  proof (cases "held < setrev_of k1")
    case True
    then have "settings_keep a now' ?k1 = ?k1\<lparr>vk_settings := Some (?s1\<lparr>vs_confirmed := True\<rparr>)\<rparr>"
      using reply_confirms [of ?k1 held ?s1 a now'] assms(4) k1 t1 by simp
    then show ?thesis
      using True by simp
  next
    case False
    let ?s2 = "\<lparr>vs_returnPasses = on, vs_setrev = held + 1, vs_composedAt = now', vs_sentAt = 0, vs_confirmed = False,
      vs_refusedAt = Some (ak_time a), vs_retried = Some True, vs_failed = False\<rparr>"
    let ?k2 = "?k1\<lparr>vk_settings := Some ?s2\<rparr>"
    have first: "settings_keep a now' ?k1 = ?k2"
      using False assms(3,4) k1 t1 by (simp add: settings_reply_def in_time_def settings_keep_def ack_settings_def flagged_def)
    have "\<exists>s'. vk_settings (settings_keep b now'' (markSettingsSent ?k2 again)) = Some s'
        \<and> vs_confirmed s' \<and> vs_returnPasses s' = on \<and> \<not> vs_failed s'"
      if "settings_reply (vk_keep k) held (held + 1) b" "in_time k now' b" for b now''
    proof -
      let ?k3 = "markSettingsSent ?k2 again" and ?s3 = "?s2\<lparr>vs_sentAt := again\<rparr>"
      have "vk_settings ?k3 = Some ?s3" "vk_claimedAt ?k3 = vk_claimedAt k" "vk_keep ?k3 = vk_keep k"
        using k1(2,3) by (simp_all add: markSettingsSent_def)
      then have "settings_keep b now'' ?k3 = ?k3\<lparr>vk_settings := Some (?s3\<lparr>vs_confirmed := True\<rparr>)\<rparr>"
        using that by (intro reply_confirms [where held = held]) (simp_all add: in_time_def)
      then show ?thesis
        by simp
    qed
    then show ?thesis
      using False first by simp
  qed
qed

text \<open>The Keep holds revision 7, its refusal and its confirmation are dated hours apart.\<close>

definition sample_stale :: keep_ack where
  "sample_stale = (plain_ack (hexes 64 98) Ack_refused 3000)\<lparr>ak_settings := True, ak_setrev := Some 7, ak_reason := Some Bad_stale\<rparr>"

definition sample_taken :: keep_ack where
  "sample_taken = (plain_ack (hexes 64 98) Ack_updated 20000)\<lparr>ak_settings := True, ak_setrev := Some 8\<rparr>"

theorem settings_confirmed_in_two_witness:
  "\<exists>k1 s. composeSettings sample_paired False 3000 = Some k1
    \<and> vk_settings (settings_keep sample_taken 20001 (markSettingsSent (settings_keep sample_stale 9000 (markSettingsSent k1 3000)) 9000)) = Some s
    \<and> vs_confirmed s \<and> \<not> vs_returnPasses s"
proof -
  have f: "vk_keep sample_paired = hexes 64 98" "vk_claimedAt sample_paired = 2000" "vk_settings sample_paired = None"
    by (simp_all add: sample_paired_def sample_fields)
      (simp_all add: sample_two_def sample_again_def composed_def repairKeep_def withLinks_def sample_keep_def newPendingKeep_def)
  obtain k1 where k1: "composeSettings sample_paired False 3000 = Some k1" "setrev_of k1 = 1"
    by (simp add: composeSettings_def canComposeSettings_def setrev_of_def f MAX_SAFE_def)
  have replies: "settings_reply (vk_keep sample_paired) 7 (setrev_of k1) sample_stale" "in_time sample_paired 3000 sample_stale"
      "settings_reply (vk_keep sample_paired) 7 8 sample_taken" "in_time sample_paired 9000 sample_taken"
    by (simp_all add: settings_reply_def in_time_def sample_stale_def sample_taken_def plain_ack_def f k1(2) CLAIM_ACK_SKEW_S_def)
  from settings_confirmed_in_two [OF k1(1) _ _ replies(1,2), of 9000 3000 9000] obtain s where
      "vk_settings (settings_keep sample_stale 9000 (markSettingsSent k1 3000)) = Some s" "vs_setrev s = 8"
      "\<forall>b now''. settings_reply (vk_keep sample_paired) 7 (vs_setrev s) b \<and> in_time sample_paired 9000 b \<longrightarrow>
        (\<exists>s'. vk_settings (settings_keep b now'' (markSettingsSent (settings_keep sample_stale 9000 (markSettingsSent k1 3000)) 9000)) = Some s'
           \<and> vs_confirmed s' \<and> vs_returnPasses s' = False \<and> \<not> vs_failed s')"
    by (auto simp: MAX_SAFE_def k1(2))
  then show ?thesis
    using replies(3,4) k1(1) by fastforce
qed

section \<open>Two gaps\<close>

text \<open>
  Pairing again links the claimer even when sixteen other personas are linked already: the update
  then names seventeen, and the builder of its rumor throws, so that it is never sent.
\<close>

lemma repair_overfills:
  assumes k: "inv_keep k" and full: "length (vk_personas k) = KEEP_MAX_OWNER_PERSONAS" "vk_claimedBy k \<notin> set (vk_personas k)"
    and r: "composeUpdate (repairKeep k name relays code now scope) (vk_claimedBy k) now = Some k'" and w: "vk_update k' = Some w"
  shows "length (vu_personas w) = 17 \<and> ownersUpdateRumor (vk_keep k') (vu_rev w) (vu_personas w) = None"
proof -
  let ?r = "repairKeep k name relays code now scope"
  have links: "vk_personas k = map fst (vk_links k)"
    by (rule inv_keepD(8) [OF k])
  have "filter (\<lambda>(p, l). p \<noteq> vk_claimedBy k) (vk_links k) = vk_links k"
    using full(2) links by (intro filter_True) force
  then have n: "length (repaired_links k) = 17"
    using full(1) links by (simp add: repaired_links_def Let_def keep_consts)
  have "length (vu_personas w) = length (vk_personas ?r)"
    using r w by (auto simp: composeUpdate_def Let_def withLinks_def split: if_splits option.splits)
  then have "length (vu_personas w) = 17"
    using n by (simp add: repairKeep_def)
  then show ?thesis
    by (simp add: ownersUpdateRumor_def keep_consts)
qed

text \<open>
  An update that has not seen a refusal takes one that is older than itself (within the skew): the
  note of the last refusal goes with the update it was made for, when that one is confirmed.
\<close>

lemma refusal_replayed:
  assumes "vk_update k = Some w" "vu_refusedAt w = None" "vu_failed w = None" "vu_signer w = to"
    and "ak_reason a = Some Bad_too_many" "ak_time a < vu_composedAt w" "vu_composedAt w \<le> ak_time a + CLAIM_ACK_SKEW_S"
  shows "\<exists>k' w'. on_refused a to now k = Some k' \<and> vk_update k' = Some w' \<and> vu_failed w' = Some Fail_too_many"
  using assms by (auto simp: on_refused_def answers_update_def fail_update_def Let_def)

end
