(* ===== verification/Settlement.thy ===== *)
theory Settlement
  imports Prelude
begin

text \<open>
  One answer per request (\<open>lib/auth-request-settlement.ts\<close>). An approval takes seconds and a denial
  stays in reach meanwhile; the guard decides which of the two answers. The second half puts the
  guard under the handlers of \<open>App.tsx\<close> for sign-in requests, whose steps interleave freely.
\<close>

section \<open>The guard\<close>

datatype phase = In_flight | Settled

record settlement =
  se_state :: "ustr \<rightharpoonup> phase"
  se_delivering :: "ustr set"
  se_cancel :: "ustr set"

definition new_settlement :: settlement where
  "new_settlement = \<lparr>se_state = Map.empty, se_delivering = {}, se_cancel = {}\<rparr>"

datatype begin_result = Begin_ok | Begin_in_flight | Begin_settled

definition beginApproval :: "ustr \<Rightarrow> settlement \<Rightarrow> begin_result \<times> settlement" where
  "beginApproval key s =
     (case se_state s key of
        Some In_flight \<Rightarrow> (Begin_in_flight, s)
      | Some Settled \<Rightarrow> (Begin_settled, s)
      | None \<Rightarrow> (Begin_ok, s\<lparr>se_state := (se_state s)(key \<mapsto> In_flight)\<rparr>))"

definition isInFlight :: "ustr \<Rightarrow> settlement \<Rightarrow> bool" where
  "isInFlight key s \<longleftrightarrow> se_state s key = Some In_flight"

definition endApproval :: "ustr \<Rightarrow> settlement \<Rightarrow> settlement" where
  "endApproval key s =
     \<lparr>se_state = (if se_state s key = Some In_flight then (se_state s)(key := None) else se_state s),
      se_delivering = se_delivering s - {key}, se_cancel = se_cancel s - {key}\<rparr>"

definition claimDelivery :: "ustr \<Rightarrow> settlement \<Rightarrow> bool \<times> settlement" where
  "claimDelivery key s =
     (if se_state s key \<noteq> Some In_flight then (False, s)
      else (True, s\<lparr>se_state := (se_state s)(key \<mapsto> Settled), se_delivering := insert key (se_delivering s)\<rparr>))"

definition requestCancelDuringDelivery :: "ustr \<Rightarrow> settlement \<Rightarrow> bool \<times> settlement" where
  "requestCancelDuringDelivery key s =
     (if key \<notin> se_delivering s then (False, s) else (True, s\<lparr>se_cancel := insert key (se_cancel s)\<rparr>))"

definition finishDelivery :: "ustr \<Rightarrow> settlement \<Rightarrow> bool \<times> settlement" where
  "finishDelivery key s =
     (key \<in> se_cancel s, s\<lparr>se_delivering := se_delivering s - {key}, se_cancel := se_cancel s - {key}\<rparr>)"

definition unclaimDelivery :: "ustr \<Rightarrow> settlement \<Rightarrow> settlement" where
  "unclaimDelivery key s =
     s\<lparr>se_delivering := se_delivering s - {key},
       se_state := (if se_state s key = Some Settled then (se_state s)(key \<mapsto> In_flight) else se_state s)\<rparr>"

datatype deny_outcome = Deny_first | Took_over | Already_answered

definition deny :: "ustr \<Rightarrow> settlement \<Rightarrow> deny_outcome \<times> settlement" where
  "deny key s =
     (case se_state s key of
        Some Settled \<Rightarrow> (Already_answered, s)
      | Some In_flight \<Rightarrow> (Took_over, s\<lparr>se_state := (se_state s)(key \<mapsto> Settled)\<rparr>)
      | None \<Rightarrow> (Deny_first, s\<lparr>se_state := (se_state s)(key \<mapsto> Settled)\<rparr>))"

lemmas guard_defs = new_settlement_def beginApproval_def isInFlight_def endApproval_def claimDelivery_def
  requestCancelDuringDelivery_def finishDelivery_def unclaimDelivery_def deny_def

section \<open>Keys\<close>

text \<open>A request object is an address; \<open>nonces\<close> is the weak map of those that were given a number.\<close>

record request_identity =
  ri_object :: nat
  ri_requestId :: "ustr option"
  ri_challenge :: "ustr option"

record nonces =
  no_given :: "nat \<rightharpoonup> nat"
  no_seq :: nat

definition nonce_text :: "nat \<Rightarrow> ustr" where
  "nonce_text n = u ''#'' @ nat_text n"

definition requestObjectKey :: "nat \<Rightarrow> nonces \<Rightarrow> ustr \<times> nonces" where
  "requestObjectKey x N =
     (case no_given N x of
        Some n \<Rightarrow> (nonce_text n, N)
      | None \<Rightarrow> (nonce_text (no_seq N + 1), \<lparr>no_given = (no_given N)(x \<mapsto> no_seq N + 1), no_seq = no_seq N + 1\<rparr>))"

definition opt_text :: "ustr option \<Rightarrow> ustr" where
  "opt_text s = (case s of None \<Rightarrow> [] | Some t \<Rightarrow> t)"

definition authRequestKey :: "request_identity \<Rightarrow> nonces \<Rightarrow> ustr \<times> nonces" where
  "authRequestKey r N =
     (if opt_text (ri_requestId r) \<noteq> [] \<or> opt_text (ri_challenge r) \<noteq> []
      then (opt_text (ri_requestId r) @ u '':'' @ opt_text (ri_challenge r), N)
      else requestObjectKey (ri_object r) N)"

text \<open>Numbers are handed out once.\<close>

definition nonces_ok :: "nonces \<Rightarrow> bool" where
  "nonces_ok N \<longleftrightarrow> inj_on (no_given N) (dom (no_given N)) \<and> (\<forall>x n. no_given N x = Some n \<longrightarrow> n \<le> no_seq N)"

lemma requestObjectKey_ok:
  assumes "nonces_ok N" "requestObjectKey x N = (k, N')"
  shows "nonces_ok N' \<and> requestObjectKey x N' = (k, N') \<and> no_given N \<subseteq>\<^sub>m no_given N'"
proof (cases "no_given N x")
  case None
  then have N': "N' = \<lparr>no_given = (no_given N)(x \<mapsto> no_seq N + 1), no_seq = no_seq N + 1\<rparr>"
    using assms(2) by (simp add: requestObjectKey_def)
  have fresh: "\<forall>y n. no_given N y = Some n \<longrightarrow> n < no_seq N + 1"
    using assms(1) by (fastforce simp: nonces_ok_def)
  have unused: "no_given N y \<noteq> Some (Suc (no_seq N))" for y
    using fresh by fastforce
  have "inj_on (no_given N') (dom (no_given N'))"
    using assms(1) unused unused [symmetric] unfolding N' nonces_ok_def inj_on_def by (auto split: if_splits)
  moreover have "no_given N \<subseteq>\<^sub>m no_given N'"
    using None by (auto simp: N' map_le_def dom_def)
  ultimately show ?thesis
    using assms(2) None fresh by (auto simp: N' nonces_ok_def requestObjectKey_def intro: less_imp_le)
next
  case (Some n)
  then show ?thesis
    using assms by (auto simp: requestObjectKey_def)
qed

lemma object_number: "requestObjectKey x N = (k, N') \<Longrightarrow> \<exists>n. k = nonce_text n"
  by (auto simp: requestObjectKey_def split: option.splits)

text \<open>
  Two requests share one settlement only when they say the same ids, or are one object without ids:
  a number never looks like a pair of ids, and the pair can be read off its text (a challenge holds
  no colon; it is hex).
\<close>

lemma authRequestKey_distinct:
  assumes N: "nonces_ok N" and "authRequestKey r N = (k, N1)" "authRequestKey r' N1 = (k, N2)"
    and colon: "58 \<notin> set (opt_text (ri_challenge r))" "58 \<notin> set (opt_text (ri_challenge r'))"
  shows "opt_text (ri_requestId r) = opt_text (ri_requestId r') \<and> opt_text (ri_challenge r) = opt_text (ri_challenge r')
    \<and> (opt_text (ri_requestId r) \<noteq> [] \<or> opt_text (ri_challenge r) \<noteq> [] \<or> ri_object r = ri_object r')"
proof -
  have number: "58 \<notin> set (nonce_text n)" for n
    using is_digits_nat_text [of n] by (auto simp: nonce_text_def u_def is_digits_def digit_unit_def list_all_iff)
  have pair: "a @ u '':'' @ b = a' @ u '':'' @ b' \<Longrightarrow> 58 \<notin> set b \<Longrightarrow> 58 \<notin> set b' \<Longrightarrow> a = a' \<and> b = b'" for a b a' b' :: ustr
  proof -
    assume e: "a @ u '':'' @ b = a' @ u '':'' @ b'" and c: "58 \<notin> set b" "58 \<notin> set b'"
    then have "rev b @ 58 # rev a = rev b' @ 58 # rev a'"
      by (simp add: u_def) (metis (no_types, lifting) append.assoc append_Cons append_Nil rev.simps(2) rev_append rev_rev_ident)
    then have "takeWhile (\<lambda>c. c \<noteq> 58) (rev b @ 58 # rev a) = takeWhile (\<lambda>c. c \<noteq> 58) (rev b' @ 58 # rev a')"
      by simp
    then have "rev b = rev b'"
      using c by (subst (asm) (1 2) takeWhile_append2) auto
    then show ?thesis
      using e by simp
  qed
  let ?ids = "\<lambda>r. opt_text (ri_requestId r) \<noteq> [] \<or> opt_text (ri_challenge r) \<noteq> []"
  have keys: "ri_object r = ri_object r'" if "\<not> ?ids r" "\<not> ?ids r'"
  proof -
    have r: "requestObjectKey (ri_object r) N = (k, N1)" "requestObjectKey (ri_object r') N1 = (k, N2)"
      using assms(2,3) that by (simp_all add: authRequestKey_def)
    have N1: "nonces_ok N1" "requestObjectKey (ri_object r) N1 = (k, N1)"
      using requestObjectKey_ok [OF N r(1)] by auto
    have N2: "nonces_ok N2" "requestObjectKey (ri_object r') N2 = (k, N2)" "no_given N1 \<subseteq>\<^sub>m no_given N2"
      using requestObjectKey_ok [OF N1(1) r(2)] by auto
    have inj: "nonce_text m = nonce_text n \<Longrightarrow> m = n" for m n
      by (simp add: nonce_text_def)
    obtain m where m: "no_given N1 (ri_object r) = Some m" "k = nonce_text m"
      using N1(2) by (auto simp: requestObjectKey_def split: option.splits dest: arg_cong [where f = no_seq])
    obtain n where n: "no_given N2 (ri_object r') = Some n" "k = nonce_text n"
      using N2(2) by (auto simp: requestObjectKey_def split: option.splits dest: arg_cong [where f = no_seq])
    have "no_given N2 (ri_object r) = Some m"
      using m(1) N2(3) by (metis domI map_le_def)
    then show ?thesis
      using N2(1) n m inj unfolding nonces_ok_def inj_on_def by (metis domI)
  qed
  have mixed: "k \<noteq> nonce_text n" if "k = a @ u '':'' @ b" for n a b
  proof
    assume "k = nonce_text n"
    moreover have "58 \<in> set k"
      by (simp add: that u_def)
    ultimately show False
      using number by blast
  qed
  show ?thesis
  proof (cases "?ids r"; cases "?ids r'")
    assume i: "?ids r" "?ids r'"
    then have "opt_text (ri_requestId r) @ u '':'' @ opt_text (ri_challenge r)
        = opt_text (ri_requestId r') @ u '':'' @ opt_text (ri_challenge r')"
      using assms(2,3) by (simp add: authRequestKey_def)
    then have "opt_text (ri_requestId r) = opt_text (ri_requestId r') \<and> opt_text (ri_challenge r) = opt_text (ri_challenge r')"
      by (rule pair [OF _ colon])
    then show ?thesis
      using i by blast
  next
    assume i: "?ids r" "\<not> ?ids r'"
    then have "k = opt_text (ri_requestId r) @ u '':'' @ opt_text (ri_challenge r)"
      using assms(2,3) by (simp add: authRequestKey_def)
    moreover obtain x N' N'' where "requestObjectKey x N' = (k, N'')"
      using i assms(2,3) by (simp add: authRequestKey_def)
    ultimately show ?thesis
      using mixed object_number by blast
  next
    assume i: "\<not> ?ids r" "?ids r'"
    then have "k = opt_text (ri_requestId r') @ u '':'' @ opt_text (ri_challenge r')"
      using assms(2,3) by (simp add: authRequestKey_def)
    moreover obtain x N' N'' where "requestObjectKey x N' = (k, N'')"
      using i assms(2,3) by (simp add: authRequestKey_def)
    ultimately show ?thesis
      using mixed object_number by blast
  next
    assume "\<not> ?ids r" "\<not> ?ids r'"
    then show ?thesis
      using keys by auto
  qed
qed

section \<open>The handlers of a sign-in request\<close>

text \<open>
  \<open>de_pending\<close> is \<open>pendingAuthRequestRef\<close>; \<open>de_running\<close> holds the approvals between \<open>beginApproval\<close> and
  \<open>endApproval\<close>, each with the key it began under; \<open>de_answers\<close> records what was sent.
\<close>

datatype answer = Approval | Denial

record desk =
  de_guard :: settlement
  de_nonces :: nonces
  de_pending :: "request_identity option"
  de_running :: "(request_identity \<times> ustr) list"
  de_answers :: "(ustr \<times> answer) list"

definition new_desk :: desk where
  "new_desk = \<lparr>de_guard = new_settlement, de_nonces = \<lparr>no_given = Map.empty, no_seq = 0\<rparr>,
     de_pending = None, de_running = [], de_answers = []\<rparr>"

text \<open>\<open>handleApproveAuth\<close> up to its first wait: a request already answered is dismissed.\<close>

definition handleApproveAuth :: "request_identity \<Rightarrow> desk \<Rightarrow> desk" where
  "handleApproveAuth r d =
     (let (key, N) = authRequestKey r (de_nonces d); (began, g) = beginApproval key (de_guard d)
      in case began of
           Begin_settled \<Rightarrow> d\<lparr>de_nonces := N, de_pending := None\<rparr>
         | Begin_in_flight \<Rightarrow> d\<lparr>de_nonces := N\<rparr>
         | Begin_ok \<Rightarrow> d\<lparr>de_nonces := N, de_guard := g, de_running := (r, key) # de_running d\<rparr>)"

text \<open>An approval at the point where it would answer (\<open>claimAuthDelivery\<close>), and its end.\<close>

definition claimAuthDelivery :: "request_identity \<Rightarrow> desk \<Rightarrow> desk" where
  "claimAuthDelivery r d =
     (if de_pending d \<noteq> Some r then d
      else let (key, N) = authRequestKey r (de_nonces d); (claimed, g) = claimDelivery key (de_guard d)
           in d\<lparr>de_nonces := N, de_guard := g,
                de_answers := (if claimed then (key, Approval) # de_answers d else de_answers d)\<rparr>)"

definition approvalEnds :: "request_identity \<times> ustr \<Rightarrow> desk \<Rightarrow> desk" where
  "approvalEnds t d = d\<lparr>de_guard := endApproval (snd t) (de_guard d), de_running := remove1 t (de_running d)\<rparr>"

definition handleDenyAuth :: "request_identity \<Rightarrow> desk \<Rightarrow> desk" where
  "handleDenyAuth r d =
     (let (key, N) = authRequestKey r (de_nonces d); (outcome, g) = deny key (de_guard d)
      in d\<lparr>de_nonces := N, de_guard := g, de_pending := None,
           de_answers := (if outcome = Already_answered then de_answers d else (key, Denial) # de_answers d)\<rparr>)"

inductive desk_step :: "desk \<Rightarrow> desk \<Rightarrow> bool" where
  arrived: "desk_step d (d\<lparr>de_pending := r\<rparr>)"
| approved: "desk_step d (handleApproveAuth r d)" if "de_pending d = Some r"
| delivered: "desk_step d (claimAuthDelivery r d)" if "(r, key) \<in> set (de_running d)"
| ended: "desk_step d (approvalEnds t d)" if "t \<in> set (de_running d)"
| refused: "desk_step d (handleDenyAuth r d)" if "de_pending d = Some r"

definition answers_to :: "ustr \<Rightarrow> desk \<Rightarrow> answer list" where
  "answers_to key d = map snd (filter (\<lambda>(k, a). k = key) (de_answers d))"

definition desk_inv :: "desk \<Rightarrow> bool" where
  "desk_inv d \<longleftrightarrow> distinct (map snd (de_running d))
     \<and> (\<forall>key. (se_state (de_guard d) key = Some Settled \<longrightarrow> length (answers_to key d) = 1)
          \<and> (se_state (de_guard d) key \<noteq> Some Settled \<longrightarrow> answers_to key d = [])
          \<and> (key \<in> snd ` set (de_running d) \<longrightarrow> se_state (de_guard d) key \<noteq> None)
          \<and> (se_state (de_guard d) key = Some In_flight \<longrightarrow> key \<in> snd ` set (de_running d)))"

lemma desk_new: "desk_inv new_desk"
  by (simp add: desk_inv_def new_desk_def answers_to_def new_settlement_def)

lemma approve_inv:
  assumes "desk_inv d"
  shows "desk_inv (handleApproveAuth r d)"
proof -
  obtain key N where k: "authRequestKey r (de_nonces d) = (key, N)"
    by (cases "authRequestKey r (de_nonces d)")
  show ?thesis
  proof (cases "se_state (de_guard d) key")
    case None
    then have "key \<notin> snd ` set (de_running d)"
      using assms by (auto simp: desk_inv_def)
    then show ?thesis
      using assms k None by (auto simp: handleApproveAuth_def beginApproval_def desk_inv_def answers_to_def)
  next
    case (Some p)
    then show ?thesis
      using assms k by (cases p) (auto simp: handleApproveAuth_def beginApproval_def desk_inv_def answers_to_def)
  qed
qed

lemma claim_inv:
  assumes "desk_inv d"
  shows "desk_inv (claimAuthDelivery r d)"
proof -
  obtain key N where k: "authRequestKey r (de_nonces d) = (key, N)"
    by (cases "authRequestKey r (de_nonces d)")
  show ?thesis
    using assms k by (auto simp: claimAuthDelivery_def claimDelivery_def desk_inv_def answers_to_def)
qed

lemma deny_inv:
  assumes "desk_inv d"
  shows "desk_inv (handleDenyAuth r d)"
proof -
  obtain key N where k: "authRequestKey r (de_nonces d) = (key, N)"
    by (cases "authRequestKey r (de_nonces d)")
  show ?thesis
    using assms k by (auto simp: handleDenyAuth_def deny_def desk_inv_def answers_to_def split: option.splits phase.splits)
qed

lemma remove1_keys:
  "distinct (map snd xs) \<Longrightarrow> t \<in> set xs
    \<Longrightarrow> distinct (map snd (remove1 t xs)) \<and> snd ` set (remove1 t xs) = snd ` set xs - {snd t}"
  by (induction xs) (auto simp: image_iff)

lemma one_per_key: "distinct (map snd xs) \<Longrightarrow> length (filter (\<lambda>t. snd t = key) xs) \<le> 1"
proof (induction xs)
  case (Cons x xs)
  moreover from Cons.prems have "snd x = key \<Longrightarrow> filter (\<lambda>t. snd t = key) xs = []"
    by (auto simp: filter_empty_conv image_iff)
  ultimately show ?case
    by auto
qed simp

lemma end_inv:
  assumes d: "desk_inv d" and t: "t \<in> set (de_running d)"
  shows "desk_inv (approvalEnds t d)"
proof -
  have "distinct (map snd (de_running d))"
    using d by (simp add: desk_inv_def)
  then have "distinct (map snd (remove1 t (de_running d)))" "snd ` set (remove1 t (de_running d)) = snd ` set (de_running d) - {snd t}"
    using remove1_keys t by blast+
  then show ?thesis
    using d by (auto simp: approvalEnds_def endApproval_def desk_inv_def answers_to_def)
qed

lemma desk_step_inv: "desk_step d d' \<Longrightarrow> desk_inv d \<Longrightarrow> desk_inv d'"
proof (induction rule: desk_step.induct)
  case (arrived d r)
  then show ?case
    by (simp add: desk_inv_def answers_to_def)
qed (simp_all add: approve_inv claim_inv deny_inv end_inv)

lemma desk_reached: "desk_step\<^sup>*\<^sup>* new_desk d \<Longrightarrow> desk_inv d"
  by (induction rule: rtranclp_induct) (auto simp: desk_new desk_step_inv)

text \<open>
  C15 (safety): A sign-in request is answered once. However the approvals, their waits, the denials
  and newer requests interleave, at most one answer goes out under a key, approved or denied; at most
  one approval runs under it; and a request that nobody is answering and that was not answered is
  open: the next approval may begin.
\<close>

theorem one_answer_per_request:
  assumes "desk_step\<^sup>*\<^sup>* new_desk d"
  shows "length (answers_to key d) \<le> 1
    \<and> length (filter (\<lambda>t. snd t = key) (de_running d)) \<le> 1
    \<and> (key \<notin> snd ` set (de_running d) \<and> answers_to key d = [] \<longrightarrow> fst (beginApproval key (de_guard d)) = Begin_ok)"
proof -
  have inv: "desk_inv d"
    by (rule desk_reached [OF assms])
  then have one: "length (filter (\<lambda>t. snd t = key) (de_running d)) \<le> 1"
    by (intro one_per_key) (simp add: desk_inv_def)
  show ?thesis
  proof (cases "se_state (de_guard d) key")
    case None
    then show ?thesis
      using inv one by (simp add: desk_inv_def beginApproval_def)
  next
    case (Some p)
    then show ?thesis
      using inv one by (cases p) (auto simp: desk_inv_def)
  qed
qed

text \<open>An approval that is denied while it works: it reaches its delivery and sends nothing.\<close>

definition sample_sign_in :: request_identity where
  "sample_sign_in = \<lparr>ri_object = 0, ri_requestId = Some (u ''r1''), ri_challenge = Some (u ''c1'')\<rparr>"

definition sample_race :: desk where
  "sample_race = claimAuthDelivery sample_sign_in (handleDenyAuth sample_sign_in
     (handleApproveAuth sample_sign_in (new_desk\<lparr>de_pending := Some sample_sign_in\<rparr>)))"

theorem one_answer_per_request_witness:
  "answers_to (u ''r1:c1'') sample_race = [Denial] \<and> length (answers_to (u ''r1:c1'') sample_race) \<le> 1"
proof -
  let ?d0 = "new_desk\<lparr>de_pending := Some sample_sign_in\<rparr>"
  let ?d1 = "handleApproveAuth sample_sign_in ?d0"
  let ?d2 = "handleDenyAuth sample_sign_in ?d1"
  have d1: "de_pending ?d1 = Some sample_sign_in" "(sample_sign_in, u ''r1:c1'') \<in> set (de_running ?d1)"
    by (simp_all add: handleApproveAuth_def authRequestKey_def sample_sign_in_def opt_text_def new_desk_def
        new_settlement_def beginApproval_def u_def)
  moreover have "de_running ?d2 = de_running ?d1"
    by (simp add: handleDenyAuth_def split: prod.splits)
  ultimately have "desk_step new_desk ?d0" "desk_step ?d0 ?d1" "desk_step ?d1 ?d2" "desk_step ?d2 sample_race"
    unfolding sample_race_def
    by (auto intro: desk_step.arrived desk_step.approved desk_step.refused desk_step.delivered)
  then have "desk_step\<^sup>*\<^sup>* new_desk sample_race"
    by (meson converse_rtranclp_into_rtranclp rtranclp.rtrancl_refl)
  moreover have "answers_to (u ''r1:c1'') sample_race = [Denial]"
    by (simp add: sample_race_def answers_to_def claimAuthDelivery_def handleDenyAuth_def handleApproveAuth_def
        authRequestKey_def sample_sign_in_def opt_text_def new_desk_def guard_defs u_def)
  ultimately show ?thesis
    using one_answer_per_request [of sample_race "u ''r1:c1''"] by simp
qed

end
