(* ===== verification/Connect_Delivery.thy ===== *)
theory Connect_Delivery
  imports Settlement
begin

text \<open>
  The approval of a connect request (\<open>lib/connect-delivery.ts\<close>, \<open>lib/connect-route-cancel.ts\<close> and the
  handlers of \<open>App.tsx\<close>): it installs a serving route, arms a listener, saves the pairing and publishes
  the response, waiting between the effects, and undoes what it did when the request is withdrawn.
  Each wait is a place of the program; what happens at the end of a wait, up to the next one, is one
  step, and the user, other pairings and failures act between the steps. A platform call that fails has
  had no effect: a response whose confirmation is lost counts as unsent, as the code takes it. The branch of
  \<open>approveConnectUnguarded\<close> for a child's phone paired directly (\<open>deliverChildNostrConnect\<close>) is not modelled.
\<close>

section \<open>The world of one request\<close>

text \<open>Of a stored pairing the flow reads the nonce of the approval that saved it; \<open>client\<close> may be extended.\<close>

record client =
  cl_pairingNonce :: "ustr option"
  cl_relayUrl :: ustr

text \<open>What an approval remembers: its nonce, the pairing before it, the token of its route.\<close>

record connect_approval =
  ap_nonce :: ustr
  ap_previous :: "client option"
  ap_token :: nat

text \<open>What an undo leads to: the end as withdrawn, the end as cancelled, or the relays left to try.\<close>

datatype after_undo = Then_withdrawn | Then_cancelled | Then_relays "ustr list"

datatype place =
  Idle
| Preparing ustr "ustr list"
| Loading ustr "ustr list"
| Arming connect_approval ustr "ustr list"
| Saving connect_approval ustr "ustr list"
| Signing connect_approval "ustr list"
| Publishing connect_approval "ustr list"
| Checking connect_approval after_undo
| Restoring connect_approval after_undo

datatype delivery_result = Connected | Withdrawn | Cancelled | Failed

text \<open>
  \<open>cw_lastToken\<close>, \<open>cw_served\<close>: the transient serving route, the token of the last one installed and
  whether it is there. \<open>cw_tracked\<close>: the entry of the request in the route tracker. History, not in the
  code: \<open>cw_own\<close> is the last token this request installed, \<open>cw_cancelled\<close> whether the user backed out
  before the response was known to be sent.
\<close>

record connect_world =
  cw_guard :: settlement
  cw_pending :: bool
  cw_stored :: "client option"
  cw_lastToken :: nat
  cw_served :: bool
  cw_tracked :: "nat option"
  cw_answers :: "answer list"
  cw_place :: place
  cw_result :: "delivery_result option"
  cw_own :: "nat option"
  cw_cancelled :: bool

definition new_request :: "client option \<Rightarrow> nat \<Rightarrow> bool \<Rightarrow> connect_world" where
  "new_request stored token served =
     \<lparr>cw_guard = new_settlement, cw_pending = True, cw_stored = stored, cw_lastToken = token, cw_served = served,
      cw_tracked = None, cw_answers = [], cw_place = Idle, cw_result = None, cw_own = None, cw_cancelled = False\<rparr>"

section \<open>Effects\<close>

definition stillOpen :: "ustr \<Rightarrow> connect_world \<Rightarrow> bool" where
  "stillOpen key w \<longleftrightarrow> cw_pending w \<and> isInFlight key (cw_guard w)"

definition installRoute :: "connect_world \<Rightarrow> connect_world" where
  "installRoute w = w\<lparr>cw_lastToken := cw_lastToken w + 1, cw_served := True,
     cw_tracked := Some (cw_lastToken w + 1), cw_own := Some (cw_lastToken w + 1)\<rparr>"

definition clearRouteByToken :: "nat \<Rightarrow> connect_world \<Rightarrow> connect_world" where
  "clearRouteByToken token w = (if cw_lastToken w \<noteq> token \<or> \<not> cw_served w then w else w\<lparr>cw_served := False\<rparr>)"

text \<open>The approval is over: \<open>ConnectRouteTracker.forget\<close> when it connected, then \<open>endApproval\<close>.\<close>

definition finish_as :: "ustr \<Rightarrow> delivery_result \<Rightarrow> connect_world \<Rightarrow> connect_world" where
  "finish_as key result w =
     w\<lparr>cw_guard := endApproval key (cw_guard w), cw_place := Idle, cw_result := Some result,
       cw_tracked := (if result = Connected then None else cw_tracked w)\<rparr>"

text \<open>\<open>withdraw(false)\<close>, the head of the loop over the relays, and what follows an undo.\<close>

definition withdrawn_now :: "ustr \<Rightarrow> connect_approval \<Rightarrow> connect_world \<Rightarrow> connect_world" where
  "withdrawn_now key a w = finish_as key Withdrawn (clearRouteByToken (ap_token a) w)"

definition next_relay :: "ustr \<Rightarrow> connect_approval \<Rightarrow> ustr list \<Rightarrow> connect_world \<Rightarrow> connect_world" where
  "next_relay key a relays w =
     (case relays of
        [] \<Rightarrow> finish_as key Failed w
      | r # rest \<Rightarrow> if stillOpen key w then w\<lparr>cw_place := Arming a r rest\<rparr> else withdrawn_now key a w)"

definition resume_after :: "ustr \<Rightarrow> connect_approval \<Rightarrow> after_undo \<Rightarrow> connect_world \<Rightarrow> connect_world" where
  "resume_after key a m w =
     (case m of
        Then_withdrawn \<Rightarrow> withdrawn_now key a w
      | Then_cancelled \<Rightarrow> finish_as key Cancelled (clearRouteByToken (ap_token a) w)
      | Then_relays rs \<Rightarrow> next_relay key a rs w)"

section \<open>The approval, from wait to wait\<close>

definition handleApproveConnect :: "ustr \<Rightarrow> ustr \<Rightarrow> ustr list \<Rightarrow> connect_world \<Rightarrow> connect_world" where
  "handleApproveConnect key nonce relays w =
     (case beginApproval key (cw_guard w) of
        (Begin_settled, g) \<Rightarrow> w\<lparr>cw_pending := False\<rparr>
      | (Begin_in_flight, g) \<Rightarrow> w
      | (Begin_ok, g) \<Rightarrow> w\<lparr>cw_guard := g, cw_place := Preparing nonce relays\<rparr>)"

text \<open>Unlocking and the signer are there: the approval starts only for a request that still waits.\<close>

definition prepared :: "ustr \<Rightarrow> ustr \<Rightarrow> ustr list \<Rightarrow> connect_world \<Rightarrow> connect_world" where
  "prepared key nonce relays w =
     (if \<not> cw_pending w then finish_as key Failed w
      else if \<not> stillOpen key w then finish_as key Withdrawn w
      else w\<lparr>cw_place := Loading nonce relays\<rparr>)"

definition loaded :: "ustr \<Rightarrow> ustr \<Rightarrow> ustr list \<Rightarrow> client option \<Rightarrow> connect_world \<Rightarrow> connect_world" where
  "loaded key nonce relays previous w =
     (if \<not> stillOpen key w then finish_as key Withdrawn w
      else let w' = installRoute w
           in next_relay key \<lparr>ap_nonce = nonce, ap_previous = previous, ap_token = cw_lastToken w'\<rparr> relays w')"

definition armed :: "ustr \<Rightarrow> connect_approval \<Rightarrow> ustr \<Rightarrow> ustr list \<Rightarrow> connect_world \<Rightarrow> connect_world" where
  "armed key a r rest w = (if stillOpen key w then w\<lparr>cw_place := Saving a r rest\<rparr> else withdrawn_now key a w)"

definition saved :: "ustr \<Rightarrow> connect_approval \<Rightarrow> ustr \<Rightarrow> ustr list \<Rightarrow> connect_world \<Rightarrow> connect_world" where
  "saved key a r rest w =
     (let w' = w\<lparr>cw_stored := Some \<lparr>cl_pairingNonce = Some (ap_nonce a), cl_relayUrl = r\<rparr>\<rparr>
      in if stillOpen key w' then w'\<lparr>cw_place := Signing a rest\<rparr> else w'\<lparr>cw_place := Checking a Then_withdrawn\<rparr>)"

text \<open>The response is signed and the relay open: \<open>beforePublish\<close> claims the one answer.\<close>

definition before_publish :: "ustr \<Rightarrow> connect_approval \<Rightarrow> ustr list \<Rightarrow> connect_world \<Rightarrow> connect_world" where
  "before_publish key a rest w =
     (let (claimed, g) = (if cw_pending w then claimDelivery key (cw_guard w) else (False, cw_guard w))
      in if claimed then w\<lparr>cw_guard := g, cw_place := Publishing a rest\<rparr>
         else w\<lparr>cw_place := Checking a Then_withdrawn\<rparr>)"

definition published :: "ustr \<Rightarrow> connect_approval \<Rightarrow> connect_world \<Rightarrow> connect_world" where
  "published key a w =
     (let (cancelled, g) = finishDelivery key (cw_guard w); w' = w\<lparr>cw_guard := g, cw_answers := Approval # cw_answers w\<rparr>
      in if cancelled then w'\<lparr>cw_place := Checking a Then_cancelled\<rparr> else finish_as key Connected w')"

definition publish_failed :: "ustr \<Rightarrow> connect_approval \<Rightarrow> ustr list \<Rightarrow> connect_world \<Rightarrow> connect_world" where
  "publish_failed key a rest w =
     w\<lparr>cw_guard := unclaimDelivery key (cw_guard w), cw_place := Checking a (Then_relays rest)\<rparr>"

text \<open>\<open>undoSave\<close>: first whether the stored pairing is still the one of this approval, then the write.\<close>

definition stillOurs :: "connect_approval \<Rightarrow> connect_world \<Rightarrow> bool" where
  "stillOurs a w \<longleftrightarrow> (case cw_stored w of None \<Rightarrow> False | Some c \<Rightarrow> cl_pairingNonce c = Some (ap_nonce a))"

definition checked :: "ustr \<Rightarrow> connect_approval \<Rightarrow> after_undo \<Rightarrow> connect_world \<Rightarrow> connect_world" where
  "checked key a m w = (if stillOurs a w then w\<lparr>cw_place := Restoring a m\<rparr> else resume_after key a m w)"

definition restored :: "ustr \<Rightarrow> connect_approval \<Rightarrow> after_undo \<Rightarrow> connect_world \<Rightarrow> connect_world" where
  "restored key a m w = resume_after key a m (w\<lparr>cw_stored := ap_previous a\<rparr>)"

section \<open>Backing out\<close>

text \<open>\<open>ConnectRouteTracker.takeOnCancel\<close>: the token to clear, and whether the entry is dropped.\<close>

definition takeOnCancel :: "deny_outcome \<Rightarrow> bool \<Rightarrow> nat option \<Rightarrow> nat option \<times> nat option" where
  "takeOnCancel outcome recorded tracked =
     (if outcome = Already_answered \<and> \<not> recorded then (None, tracked) else (tracked, None))"

definition handleConnectDone :: "ustr \<Rightarrow> connect_world \<Rightarrow> connect_world" where
  "handleConnectDone key w =
     (let (outcome, g) = deny key (cw_guard w);
          (recorded, g') = (if outcome = Already_answered then requestCancelDuringDelivery key g else (False, g));
          (token, tracked) = takeOnCancel outcome recorded (cw_tracked w);
          w' = w\<lparr>cw_guard := g', cw_tracked := tracked, cw_cancelled := cw_cancelled w \<or> outcome \<noteq> Already_answered \<or> recorded\<rparr>;
          w'' = (case token of None \<Rightarrow> w' | Some t \<Rightarrow> clearRouteByToken t w')
      in w''\<lparr>cw_pending := False,
             cw_answers := (if outcome = Already_answered then cw_answers w'' else Denial # cw_answers w'')\<rparr>)"

section \<open>Steps\<close>

text \<open>
  Three kinds: the approval goes on; it goes on after a storage call it does not check has failed;
  or somebody else acts. A call that fails has had no effect.
\<close>

datatype step_kind = Goes_on | Storage_fails | Acts | Interferes

inductive connect_step :: "ustr \<Rightarrow> step_kind \<Rightarrow> connect_world \<Rightarrow> connect_world \<Rightarrow> bool" for key where
  began: "connect_step key Acts w (handleApproveConnect key nonce relays w)" if "cw_pending w"
| ready: "connect_step key Goes_on w (prepared key nonce relays w)" if "cw_place w = Preparing nonce relays"
| not_ready: "connect_step key Goes_on w (finish_as key Failed w)" if "cw_place w = Preparing nonce relays"
| found: "connect_step key Goes_on w (loaded key nonce relays (cw_stored w) w)" if "cw_place w = Loading nonce relays"
| not_found: "connect_step key Storage_fails w (loaded key nonce relays None w)" if "cw_place w = Loading nonce relays"
| armed: "connect_step key Goes_on w (armed key a r rest w)" if "cw_place w = Arming a r rest"
| not_armed: "connect_step key Goes_on w (next_relay key a rest w)" if "cw_place w = Arming a r rest"
| saved: "connect_step key Goes_on w (saved key a r rest w)" if "cw_place w = Saving a r rest"
| not_saved: "connect_step key Goes_on w (next_relay key a rest w)" if "cw_place w = Saving a r rest"
| signed: "connect_step key Goes_on w (before_publish key a rest w)" if "cw_place w = Signing a rest"
| not_signed: "connect_step key Goes_on w (w\<lparr>cw_place := Checking a (Then_relays rest)\<rparr>)" if "cw_place w = Signing a rest"
| published: "connect_step key Goes_on w (published key a w)" if "cw_place w = Publishing a rest"
| not_published: "connect_step key Goes_on w (publish_failed key a rest w)" if "cw_place w = Publishing a rest"
| checked: "connect_step key Goes_on w (checked key a m w)" if "cw_place w = Checking a m"
| not_checked: "connect_step key Storage_fails w (resume_after key a m w)" if "cw_place w = Checking a m"
| restored: "connect_step key Goes_on w (restored key a m w)" if "cw_place w = Restoring a m"
| not_restored: "connect_step key Storage_fails w (resume_after key a m w)" if "cw_place w = Restoring a m"
| backed_out: "connect_step key Acts w (handleConnectDone key w)" if "cw_pending w"
| replaced: "connect_step key Acts w (w\<lparr>cw_pending := False\<rparr>)"
| route_installed: "connect_step key Acts w (w\<lparr>cw_lastToken := cw_lastToken w + 1, cw_served := True\<rparr>)"
| route_cleared: "connect_step key Acts w (w\<lparr>cw_served := False\<rparr>)"
| pairing_written: "connect_step key Interferes w (w\<lparr>cw_stored := c\<rparr>)"

end
