(* ===== verification/Connect_Laws.thy ===== *)
theory Connect_Laws
  imports Connect_Delivery
begin

text \<open>
  What holds of a connect request whatever interleaves with its approvals: one answer, no route left
  once the user backed out, the pairing of before when nothing failed; and that every approval ends.
\<close>

named_theorems connect_defs \<open>the steps of a connect approval\<close>

declare handleApproveConnect_def [connect_defs] prepared_def [connect_defs] loaded_def [connect_defs]
  armed_def [connect_defs] saved_def [connect_defs] before_publish_def [connect_defs] published_def [connect_defs]
  publish_failed_def [connect_defs] checked_def [connect_defs] restored_def [connect_defs]
  resume_after_def [connect_defs] next_relay_def [connect_defs] withdrawn_now_def [connect_defs]
  finish_as_def [connect_defs] clearRouteByToken_def [connect_defs] installRoute_def [connect_defs]
  stillOpen_def [connect_defs]

section \<open>One answer\<close>

definition undecided :: "ustr \<Rightarrow> connect_world \<Rightarrow> bool" where
  "undecided key w \<longleftrightarrow> key \<notin> se_delivering (cw_guard w)
     \<and> (se_state (cw_guard w) key = Some In_flight \<and> cw_answers w = []
        \<or> se_state (cw_guard w) key = Some Settled \<and> cw_answers w = [Denial])"

definition undoing :: "ustr \<Rightarrow> connect_world \<Rightarrow> after_undo \<Rightarrow> bool" where
  "undoing key w m \<longleftrightarrow> (if m = Then_cancelled
     then se_state (cw_guard w) key = Some Settled \<and> cw_answers w = [Approval] \<and> key \<notin> se_delivering (cw_guard w)
     else undecided key w)"

fun answer_inv :: "ustr \<Rightarrow> connect_world \<Rightarrow> place \<Rightarrow> bool" where
  "answer_inv key w Idle \<longleftrightarrow> key \<notin> se_delivering (cw_guard w) \<and> key \<notin> se_cancel (cw_guard w)
     \<and> (se_state (cw_guard w) key = None \<and> cw_answers w = [] \<or> se_state (cw_guard w) key = Some Settled \<and> length (cw_answers w) = 1)
     \<and> (cw_answers w = [Approval] \<longleftrightarrow> cw_result w \<in> {Some Connected, Some Cancelled})"
| "answer_inv key w (Publishing a rest) \<longleftrightarrow> key \<in> se_delivering (cw_guard w)
     \<and> se_state (cw_guard w) key = Some Settled \<and> cw_answers w = [] \<and> (cw_cancelled w \<longrightarrow> key \<in> se_cancel (cw_guard w))"
| "answer_inv key w (Checking a m) \<longleftrightarrow> undoing key w m"
| "answer_inv key w (Restoring a m) \<longleftrightarrow> undoing key w m"
| "answer_inv key w p \<longleftrightarrow> undecided key w"

definition user_inv :: "ustr \<Rightarrow> connect_world \<Rightarrow> bool" where
  "user_inv key w \<longleftrightarrow> (cw_cancelled w \<longrightarrow> \<not> cw_pending w) \<and> (key \<in> se_cancel (cw_guard w) \<longrightarrow> cw_cancelled w)
     \<and> (cw_answers w = [Denial] \<longrightarrow> cw_cancelled w)
     \<and> (cw_place w = Idle \<and> cw_cancelled w \<longrightarrow> cw_result w \<noteq> Some Connected)"

definition guarded :: "ustr \<Rightarrow> connect_world \<Rightarrow> bool" where
  "guarded key w \<longleftrightarrow> answer_inv key w (cw_place w) \<and> user_inv key w"

lemmas guarded_defs = guarded_def user_inv_def undecided_def undoing_def

lemma clear_route: "clearRouteByToken t w = w\<lparr>cw_served := cw_served w \<and> cw_lastToken w \<noteq> t\<rparr>"
  by (cases w) (auto simp: clearRouteByToken_def)

lemma undecided_cong:
  "undecided key (w\<lparr>cw_served := b\<rparr>) = undecided key w" "undecided key (w\<lparr>cw_place := p\<rparr>) = undecided key w"
  "undecided key (w\<lparr>cw_stored := c\<rparr>) = undecided key w" "undecided key (installRoute w) = undecided key w"
  by (simp_all add: undecided_def installRoute_def)

lemma user_cong:
  "user_inv key w \<Longrightarrow> user_inv key (w\<lparr>cw_served := b\<rparr>)" "user_inv key w \<Longrightarrow> user_inv key (w\<lparr>cw_stored := c\<rparr>)"
  "user_inv key w \<Longrightarrow> user_inv key (installRoute w)" "user_inv key w \<Longrightarrow> p \<noteq> Idle \<Longrightarrow> user_inv key (w\<lparr>cw_place := p\<rparr>)"
  by (simp_all add: user_inv_def installRoute_def)

lemmas world_cong = undecided_cong user_cong

lemma finish_guarded:
  assumes "undecided key w" "user_inv key w" "r \<in> {Withdrawn, Failed}"
  shows "guarded key (finish_as key r w)"
  using assms by (auto simp: guarded_defs finish_as_def endApproval_def)

lemma withdrawn_guarded: "undecided key w \<Longrightarrow> user_inv key w \<Longrightarrow> guarded key (withdrawn_now key a w)"
  unfolding withdrawn_now_def clear_route by (intro finish_guarded) (simp_all add: world_cong)

lemma place_guarded: "undecided key w \<Longrightarrow> user_inv key w \<Longrightarrow> p \<noteq> Idle \<Longrightarrow> (\<And>w. undecided key w \<Longrightarrow> answer_inv key w p)
    \<Longrightarrow> guarded key (w\<lparr>cw_place := p\<rparr>)"
  by (simp add: guarded_def world_cong)

lemma next_guarded:
  assumes "undecided key w" "user_inv key w"
  shows "guarded key (next_relay key a rs w)"
  using assms by (cases rs) (auto simp: next_relay_def intro: finish_guarded withdrawn_guarded place_guarded)

lemma resume_guarded:
  assumes "undoing key w m" "user_inv key w"
  shows "guarded key (resume_after key a m w)"
proof (cases m)
  case Then_cancelled
  then show ?thesis
    using assms by (auto simp: resume_after_def guarded_defs finish_as_def endApproval_def clear_route)
qed (use assms in \<open>auto simp: resume_after_def undoing_def intro: next_guarded withdrawn_guarded\<close>)

lemma undoing_cong:
  "undoing key (w\<lparr>cw_place := p\<rparr>) m = undoing key w m" "undoing key (w\<lparr>cw_stored := c\<rparr>) m = undoing key w m"
  by (simp_all add: undoing_def undecided_def)

lemma place_undoing:
  assumes "guarded key w" "cw_place w = Checking a m \<or> cw_place w = Restoring a m"
  shows "undoing key w m \<and> user_inv key w"
  using assms by (auto simp: guarded_def)

lemma place_undecided:
  assumes "guarded key w" "cw_place w \<noteq> Idle" "\<forall>a rest. cw_place w \<noteq> Publishing a rest"
    "\<forall>a. cw_place w \<noteq> Checking a Then_cancelled \<and> cw_place w \<noteq> Restoring a Then_cancelled"
  shows "undecided key w \<and> user_inv key w"
  using assms by (cases "cw_place w") (auto simp: guarded_def undoing_def)

lemma approve_guarded:
  assumes "guarded key w" "cw_pending w"
  shows "guarded key (handleApproveConnect key nonce relays w)"
proof (cases "se_state (cw_guard w) key")
  case None
  then show ?thesis
    using assms by (cases "cw_place w") (auto simp: guarded_defs handleApproveConnect_def beginApproval_def split: if_splits)
next
  case (Some p)
  then show ?thesis
    using assms by (cases p; cases "cw_place w") (auto simp: guarded_defs handleApproveConnect_def beginApproval_def split: if_splits)
qed

lemma back_out_guarded:
  assumes "guarded key w" "cw_pending w"
  shows "guarded key (handleConnectDone key w)"
proof -
  have c: "\<not> cw_cancelled w" "key \<notin> se_cancel (cw_guard w)" "cw_answers w \<noteq> [Denial]"
    using assms by (auto simp: guarded_defs)
  show ?thesis
    using assms c by (cases "cw_place w"; cases "cw_tracked w")
      (auto simp: guarded_defs handleConnectDone_def deny_def requestCancelDuringDelivery_def takeOnCancel_def clear_route
        Let_def split: option.splits phase.splits if_splits)
qed

lemma publish_guarded:
  assumes "guarded key w" "cw_place w = Publishing a rest"
  shows "guarded key (published key a w)" "guarded key (publish_failed key a rest w)"
  using assms by (auto simp: guarded_defs published_def publish_failed_def finishDelivery_def unclaimDelivery_def
      finish_as_def endApproval_def)

lemma claim_guarded:
  assumes "undecided key w" "user_inv key w"
  shows "guarded key (before_publish key a rest w)"
  using assms by (auto simp: guarded_defs before_publish_def claimDelivery_def)

lemma connect_step_guarded: "connect_step key kind w w' \<Longrightarrow> guarded key w \<Longrightarrow> guarded key w'"
proof (induction rule: connect_step.induct)
  case (ready w nonce relays)
  then have u: "undecided key w" "user_inv key w"
    using place_undecided by simp_all
  then show ?case
    by (auto simp: prepared_def intro: finish_guarded place_guarded)
next
  case (found w nonce relays)
  then have u: "undecided key w" "user_inv key w"
    using place_undecided by simp_all
  then show ?case
    by (auto simp: loaded_def Let_def world_cong intro!: finish_guarded next_guarded)
next
  case (not_found w nonce relays)
  then have u: "undecided key w" "user_inv key w"
    using place_undecided by simp_all
  then show ?case
    by (auto simp: loaded_def Let_def world_cong intro!: finish_guarded next_guarded)
next
  case (armed w a r rest)
  then have u: "undecided key w" "user_inv key w"
    using place_undecided by simp_all
  then show ?case
    by (auto simp: armed_def intro: withdrawn_guarded place_guarded)
next
  case (saved w a r rest)
  then have u: "undecided key w" "user_inv key w"
    using place_undecided by simp_all
  then show ?case
    by (auto simp: saved_def Let_def world_cong undoing_def intro!: place_guarded)
next
  case (not_signed w a rest)
  then have "undecided key w" "user_inv key w"
    using place_undecided by simp_all
  then show ?case
    by (auto simp: undoing_def intro!: place_guarded)
next
  case (checked w a m)
  then have u: "undoing key w m" "user_inv key w"
    using place_undoing by blast+
  then show ?case
    by (auto simp: checked_def guarded_def [of key "w\<lparr>cw_place := _\<rparr>"] undoing_cong world_cong intro: resume_guarded)
next
  case (not_checked w a m)
  then show ?case
    using place_undoing resume_guarded by blast
next
  case (restored w a m)
  then have "undoing key w m" "user_inv key w"
    using place_undoing by blast+
  then show ?case
    unfolding restored_def by (intro resume_guarded) (simp_all add: undoing_cong world_cong)
next
  case (not_restored w a m)
  then show ?case
    using place_undoing resume_guarded by blast
next
  case (replaced w)
  then show ?case
    by (cases "cw_place w") (auto simp: guarded_defs)
next
  case (route_installed w)
  then show ?case
    by (cases "cw_place w") (auto simp: guarded_defs)
next
  case (route_cleared w)
  then show ?case
    by (cases "cw_place w") (auto simp: guarded_defs)
next
  case (pairing_written w c)
  then show ?case
    by (cases "cw_place w") (auto simp: guarded_defs)
qed (simp_all add: approve_guarded back_out_guarded publish_guarded claim_guarded place_undecided next_guarded
    finish_guarded place_guarded)

section \<open>The route\<close>

text \<open>The route of this request is being served.\<close>

definition own_served :: "connect_world \<Rightarrow> bool" where
  "own_served w \<longleftrightarrow> cw_served w \<and> cw_own w = Some (cw_lastToken w)"

fun approval_of :: "place \<Rightarrow> connect_approval option" where
  "approval_of (Arming a r rest) = Some a"
| "approval_of (Saving a r rest) = Some a"
| "approval_of (Signing a rest) = Some a"
| "approval_of (Publishing a rest) = Some a"
| "approval_of (Checking a m) = Some a"
| "approval_of (Restoring a m) = Some a"
| "approval_of p = None"

definition route_inv :: "connect_world \<Rightarrow> bool" where
  "route_inv w \<longleftrightarrow> (own_served w \<longrightarrow> cw_tracked w = cw_own w \<or> cw_place w = Idle \<and> cw_result w = Some Connected)
     \<and> (\<forall>a \<in> set_option (approval_of (cw_place w)). cw_own w = Some (ap_token a))
     \<and> (\<forall>t \<in> set_option (cw_own w). t \<le> cw_lastToken w)
     \<and> (cw_cancelled w \<longrightarrow> \<not> own_served w)"

lemmas route_defs = route_inv_def own_served_def

lemma route_own:
  "route_inv w \<Longrightarrow> cw_place w = Arming a r rest \<Longrightarrow> cw_own w = Some (ap_token a)"
  "route_inv w \<Longrightarrow> cw_place w = Saving a r rest \<Longrightarrow> cw_own w = Some (ap_token a)"
  "route_inv w \<Longrightarrow> cw_place w = Signing a rest \<Longrightarrow> cw_own w = Some (ap_token a)"
  "route_inv w \<Longrightarrow> cw_place w = Publishing a rest \<Longrightarrow> cw_own w = Some (ap_token a)"
  "route_inv w \<Longrightarrow> cw_place w = Checking a m \<Longrightarrow> cw_own w = Some (ap_token a)"
  "route_inv w \<Longrightarrow> cw_place w = Restoring a m \<Longrightarrow> cw_own w = Some (ap_token a)"
  by (simp_all add: route_inv_def)

lemma finish_route: "route_inv w \<Longrightarrow> cw_place w \<noteq> Idle \<Longrightarrow> route_inv (finish_as key r w)"
  by (auto simp: route_defs finish_as_def)

lemma clear_route_inv: "route_inv w \<Longrightarrow> route_inv (clearRouteByToken t w)"
  by (auto simp: route_defs clear_route)

lemma withdrawn_route: "route_inv w \<Longrightarrow> cw_place w \<noteq> Idle \<Longrightarrow> route_inv (withdrawn_now key a w)"
  unfolding withdrawn_now_def by (intro finish_route clear_route_inv) (simp_all add: clear_route)

lemma next_route:
  assumes "route_inv w" "cw_place w \<noteq> Idle" "cw_own w = Some (ap_token a)"
  shows "route_inv (next_relay key a rs w)"
proof (cases rs)
  case Nil
  then show ?thesis
    using assms by (simp add: next_relay_def finish_route)
next
  case (Cons r rest)
  have "route_inv (w\<lparr>cw_place := Arming a r rest\<rparr>)"
    using assms by (auto simp: route_defs)
  then show ?thesis
    using assms Cons by (simp add: next_relay_def withdrawn_route)
qed

lemma resume_route:
  assumes "route_inv w" "cw_place w \<noteq> Idle" "cw_own w = Some (ap_token a)"
  shows "route_inv (resume_after key a m w)"
  using assms finish_route [OF clear_route_inv] by (cases m) (auto simp: resume_after_def clear_route intro: next_route withdrawn_route)

lemma route_place:
  assumes "route_inv w" "cw_place w \<noteq> Idle" "\<forall>a \<in> set_option (approval_of p). cw_own w = Some (ap_token a)"
  shows "route_inv (w\<lparr>cw_place := p\<rparr>)"
  using assms by (auto simp: route_defs)

lemma route_cong:
  "route_inv (w\<lparr>cw_stored := c\<rparr>) = route_inv w" "route_inv (w\<lparr>cw_guard := g\<rparr>) = route_inv w"
  "route_inv (w\<lparr>cw_answers := as\<rparr>) = route_inv w" "route_inv (w\<lparr>cw_pending := b\<rparr>) = route_inv w"
  by (simp_all add: route_defs)

lemma install_route:
  assumes "route_inv w" "cw_place w = Loading nonce relays" "\<not> cw_cancelled w"
  shows "route_inv (installRoute w)"
  using assms by (simp add: route_defs installRoute_def)

lemma approve_route:
  assumes "route_inv w" "guarded key w"
  shows "route_inv (handleApproveConnect key nonce relays w)"
proof (cases "se_state (cw_guard w) key")
  case None
  then have "cw_place w = Idle" "cw_result w \<noteq> Some Connected"
    using assms(2) by (cases "cw_place w"; auto simp: guarded_defs split: if_splits)+
  then show ?thesis
    using assms None by (auto simp: route_defs handleApproveConnect_def beginApproval_def)
next
  case (Some p)
  then show ?thesis
    using assms by (cases p) (auto simp: route_defs handleApproveConnect_def beginApproval_def)
qed

lemma back_out_route:
  assumes "route_inv w" "guarded key w"
  shows "route_inv (handleConnectDone key w)"
proof -
  have idle: "cw_place w = Idle \<and> cw_result w = Some Connected
      \<Longrightarrow> se_state (cw_guard w) key = Some Settled \<and> key \<notin> se_delivering (cw_guard w)"
    using assms(2) by (auto simp: guarded_defs)
  show ?thesis
    using assms(1) idle
    by (cases "cw_tracked w") (auto simp: route_defs handleConnectDone_def deny_def requestCancelDuringDelivery_def takeOnCancel_def
        clear_route Let_def split: option.splits phase.splits if_splits)
qed

lemma connect_step_route: "connect_step key kind w w' \<Longrightarrow> guarded key w \<Longrightarrow> route_inv w \<Longrightarrow> route_inv w'"
proof (induction rule: connect_step.induct)
  case (found w nonce relays)
  then show ?case
    by (auto simp: loaded_def Let_def stillOpen_def guarded_defs finish_route
        intro!: next_route install_route) (auto simp: installRoute_def)
next
  case (not_found w nonce relays)
  then show ?case
    by (auto simp: loaded_def Let_def stillOpen_def guarded_defs finish_route
        intro!: next_route install_route) (auto simp: installRoute_def)
next
  case (route_installed w)
  then show ?case
    by (auto simp: route_defs)
next
  case (route_cleared w)
  then show ?case
    by (auto simp: route_defs)
qed (auto simp: prepared_def armed_def saved_def before_publish_def published_def publish_failed_def checked_def restored_def
    Let_def route_cong approve_route back_out_route
    intro!: finish_route withdrawn_route route_place next_route resume_route intro: route_own split: prod.splits)

section \<open>The stored pairing\<close>

definition saved_by :: "connect_approval \<Rightarrow> connect_world \<Rightarrow> bool" where
  "saved_by a w \<longleftrightarrow> (\<exists>r. cw_stored w = Some \<lparr>cl_pairingNonce = Some (ap_nonce a), cl_relayUrl = r\<rparr>)"

fun store_at :: "client option \<Rightarrow> connect_world \<Rightarrow> place \<Rightarrow> bool" where
  "store_at c w Idle \<longleftrightarrow> (if cw_result w = Some Connected then \<exists>a. saved_by a w else cw_stored w = c)"
| "store_at c w (Preparing nonce relays) \<longleftrightarrow> cw_stored w = c"
| "store_at c w (Loading nonce relays) \<longleftrightarrow> cw_stored w = c"
| "store_at c w (Arming a r rest) \<longleftrightarrow> ap_previous a = c \<and> cw_stored w = c"
| "store_at c w (Saving a r rest) \<longleftrightarrow> ap_previous a = c \<and> cw_stored w = c"
| "store_at c w (Signing a rest) \<longleftrightarrow> ap_previous a = c \<and> saved_by a w"
| "store_at c w (Publishing a rest) \<longleftrightarrow> ap_previous a = c \<and> saved_by a w"
| "store_at c w (Checking a m) \<longleftrightarrow> ap_previous a = c \<and> saved_by a w"
| "store_at c w (Restoring a m) \<longleftrightarrow> ap_previous a = c"

definition store_inv :: "client option \<Rightarrow> connect_world \<Rightarrow> bool" where
  "store_inv c w \<longleftrightarrow> store_at c w (cw_place w)"

lemma finish_store: "cw_stored w = c \<Longrightarrow> r \<noteq> Connected \<Longrightarrow> store_inv c (finish_as key r w)"
  by (simp add: store_inv_def finish_as_def)

lemma withdrawn_store: "cw_stored w = c \<Longrightarrow> store_inv c (withdrawn_now key a w)"
  by (simp add: withdrawn_now_def finish_store clear_route)

lemma next_store: "cw_stored w = c \<Longrightarrow> ap_previous a = c \<Longrightarrow> store_inv c (next_relay key a rs w)"
  by (cases rs) (auto simp: next_relay_def finish_store withdrawn_store, simp add: store_inv_def)

lemma resume_store: "cw_stored w = c \<Longrightarrow> ap_previous a = c \<Longrightarrow> store_inv c (resume_after key a m w)"
  by (cases m) (auto simp: resume_after_def next_store withdrawn_store finish_store clear_route)

lemma approve_store:
  assumes "store_inv c w" "guarded key w"
  shows "store_inv c (handleApproveConnect key nonce relays w)"
proof (cases "se_state (cw_guard w) key")
  case None
  then have "cw_place w = Idle" "cw_result w \<noteq> Some Connected"
    using assms(2) by (cases "cw_place w"; auto simp: guarded_defs split: if_splits)+
  then show ?thesis
    using assms None by (simp add: store_inv_def handleApproveConnect_def beginApproval_def)
next
  case (Some p)
  then show ?thesis
    using assms by (cases p; cases "cw_place w") (auto simp: store_inv_def handleApproveConnect_def beginApproval_def saved_by_def)
qed

lemma connect_step_store:
  "connect_step key kind w w' \<Longrightarrow> kind \<in> {Goes_on, Acts} \<Longrightarrow> guarded key w \<Longrightarrow> store_inv c w \<Longrightarrow> store_inv c w'"
proof (induction rule: connect_step.induct)
  case (backed_out w)
  have "cw_place (handleConnectDone key w) = cw_place w" "cw_stored (handleConnectDone key w) = cw_stored w"
      "cw_result (handleConnectDone key w) = cw_result w"
    by (auto simp: handleConnectDone_def Let_def clear_route split: prod.splits option.splits)
  then show ?case
    using backed_out by (cases "cw_place w") (auto simp: store_inv_def saved_by_def)
next
  case (published w a rest)
  then show ?case
    by (auto simp: published_def store_inv_def finish_as_def saved_by_def Let_def split: prod.splits)
next
  case (checked w a m)
  then show ?case
    by (auto simp: checked_def store_inv_def saved_by_def stillOurs_def)
next
  case (replaced w)
  then show ?case
    by (cases "cw_place w") (auto simp: store_inv_def saved_by_def)
next
  case (route_installed w)
  then show ?case
    by (cases "cw_place w") (auto simp: store_inv_def saved_by_def)
next
  case (route_cleared w)
  then show ?case
    by (cases "cw_place w") (auto simp: store_inv_def saved_by_def)
next
  case (not_armed w a r rest)
  then show ?case
    by (simp add: next_store store_inv_def [of _ w])
next
  case (not_saved w a r rest)
  then show ?case
    by (simp add: next_store store_inv_def [of _ w])
next
  case (armed w a r rest)
  then show ?case
    by (auto simp: armed_def withdrawn_store store_inv_def [of _ w]) (simp add: store_inv_def)
next
  case (found w nonce relays)
  then have "cw_stored w = c"
    by (simp add: store_inv_def)
  then show ?case
    by (auto simp: loaded_def Let_def finish_store installRoute_def intro: next_store)
next
  case (restored w a m)
  then show ?case
    by (auto simp: restored_def store_inv_def [of _ w] intro: resume_store)
next
  case (ready w nonce relays)
  then show ?case
    by (auto simp: prepared_def finish_store store_inv_def [of _ w]) (simp add: store_inv_def)
next
  case (not_ready w nonce relays)
  then show ?case
    by (auto simp: finish_store store_inv_def [of _ w])
next
  case (signed w a rest)
  then show ?case
    by (auto simp: before_publish_def store_inv_def saved_by_def split: prod.splits)
next
  case (not_signed w a rest)
  then show ?case
    by (auto simp: store_inv_def saved_by_def)
next
  case (not_published w a rest)
  then show ?case
    by (auto simp: publish_failed_def store_inv_def saved_by_def)
next
  case (saved w a r rest)
  then show ?case
    by (auto simp: saved_def Let_def store_inv_def saved_by_def)
qed (simp_all add: approve_store)

section \<open>Every approval ends\<close>

text \<open>The steps an approval can still make: six for a relay, four after a response was claimed.\<close>

fun steps_after :: "after_undo \<Rightarrow> nat" where
  "steps_after (Then_relays rs) = 6 * length rs"
| "steps_after m = 0"

fun steps_left :: "place \<Rightarrow> nat" where
  "steps_left Idle = 0"
| "steps_left (Preparing nonce rs) = 6 * length rs + 2"
| "steps_left (Loading nonce rs) = 6 * length rs + 1"
| "steps_left (Arming a r rs) = 6 * length rs + 6"
| "steps_left (Saving a r rs) = 6 * length rs + 5"
| "steps_left (Signing a rs) = 6 * length rs + 4"
| "steps_left (Publishing a rs) = 6 * length rs + 3"
| "steps_left (Checking a m) = steps_after m + 2"
| "steps_left (Restoring a m) = steps_after m + 1"

lemma finish_steps: "steps_left (cw_place (finish_as key r w)) = 0" "steps_left (cw_place (withdrawn_now key a w)) = 0"
  by (simp_all add: finish_as_def withdrawn_now_def)

lemma next_steps: "steps_left (cw_place (next_relay key a rs w)) \<le> 6 * length rs"
  by (cases rs) (simp_all add: next_relay_def finish_steps)

lemma resume_steps: "steps_left (cw_place (resume_after key a m w)) \<le> steps_after m"
  using next_steps by (cases m) (auto simp: resume_after_def finish_steps)

lemma step_decreases:
  "connect_step key kind w w' \<Longrightarrow> kind \<in> {Goes_on, Storage_fails} \<Longrightarrow> steps_left (cw_place w') < steps_left (cw_place w)"
proof (induction rule: connect_step.induct)
  case (found w nonce relays)
  then show ?case
    using next_steps [of key _ relays "installRoute w"] by (auto simp: loaded_def Let_def finish_steps less_Suc_eq_le)
next
  case (not_found w nonce relays)
  then show ?case
    using next_steps [of key _ relays "installRoute w"] by (auto simp: loaded_def Let_def finish_steps less_Suc_eq_le)
next
  case (not_armed w a r rest)
  then show ?case
    using next_steps [of key a rest w] by simp
next
  case (not_saved w a r rest)
  then show ?case
    using next_steps [of key a rest w] by simp
next
  case (checked w a m)
  then show ?case
    using resume_steps [of key a m w] by (simp add: checked_def)
next
  case (not_checked w a m)
  then show ?case
    using resume_steps [of key a m w] by simp
next
  case (restored w a m)
  then show ?case
    using resume_steps [of key a m "w\<lparr>cw_stored := ap_previous a\<rparr>"] by (simp add: restored_def)
next
  case (not_restored w a m)
  then show ?case
    using resume_steps [of key a m w] by simp
qed (auto simp: prepared_def armed_def saved_def before_publish_def published_def publish_failed_def Let_def finish_steps
    split: prod.splits)

section \<open>The laws\<close>

text \<open>Any number of steps, of whatever kind; and those of a device whose storage works and that nobody else writes.\<close>

abbreviation any_step :: "ustr \<Rightarrow> connect_world \<Rightarrow> connect_world \<Rightarrow> bool" where
  "any_step key w w' \<equiv> \<exists>kind. connect_step key kind w w'"

abbreviation quiet_step :: "ustr \<Rightarrow> connect_world \<Rightarrow> connect_world \<Rightarrow> bool" where
  "quiet_step key w w' \<equiv> \<exists>kind \<in> {Goes_on, Acts}. connect_step key kind w w'"

lemma request_guarded: "guarded key (new_request c t b)"
  by (simp add: guarded_defs new_request_def new_settlement_def)

lemma request_route: "route_inv (new_request c t b)"
  by (simp add: route_defs new_request_def)

lemma reached_connect: "(any_step key)\<^sup>*\<^sup>* (new_request c t b) w \<Longrightarrow> guarded key w \<and> route_inv w"
proof (induction rule: rtranclp_induct)
  case base
  then show ?case
    by (simp add: request_guarded request_route)
next
  case (step w w')
  then show ?case
    using connect_step_guarded connect_step_route by blast
qed

lemma quiet_run: "(quiet_step key)\<^sup>*\<^sup>* (new_request c t b) w \<Longrightarrow> (any_step key)\<^sup>*\<^sup>* (new_request c t b) w"
  by (erule rtranclp_mono [THEN predicate2D, rotated]) auto

lemma quiet_inv:
  assumes "(quiet_step key)\<^sup>*\<^sup>* (new_request c t b) w"
  shows "store_inv c w"
  using assms
proof (induction rule: rtranclp_induct)
  case base
  then show ?case
    by (simp add: store_inv_def new_request_def)
next
  case (step w w')
  have "guarded key w"
    using reached_connect quiet_run step.hyps(1) by blast
  then show ?case
    using step.hyps(2) step.IH connect_step_store by blast
qed

text \<open>
  C16 (safety): A connect request is answered once, and the result says how. In every run, with
  approvals retried, storage failing and the user backing out anywhere, the app is sent one response
  or one refusal at most; when no approval runs, the last one ended connected or cancelled exactly when
  the response was sent. Once the user has backed out, the route of the request is not served from
  that moment on.
\<close>

theorem connect_answers_once:
  assumes "(any_step key)\<^sup>*\<^sup>* (new_request c t b) w"
  shows "length (cw_answers w) \<le> 1
    \<and> (cw_place w = Idle \<longrightarrow> (cw_answers w = [Approval] \<longleftrightarrow> cw_result w \<in> {Some Connected, Some Cancelled}))
    \<and> (cw_cancelled w \<longrightarrow> \<not> own_served w)"
proof -
  have "guarded key w" "route_inv w"
    using reached_connect [OF assms] by auto
  then show ?thesis
    by (cases "cw_place w") (auto simp: guarded_defs route_inv_def split: if_splits)
qed

text \<open>
  A sample: an app that was paired before is approved again and its one relay takes the response, but
  the user backs out while it is on its way.
\<close>

abbreviation sample_key :: ustr where
  "sample_key \<equiv> u ''#1''"

definition sample_before :: "client option" where
  "sample_before = Some \<lparr>cl_pairingNonce = Some (u ''old''), cl_relayUrl = u ''wss://a''\<rparr>"

abbreviation sample_approval :: connect_approval where
  "sample_approval \<equiv> \<lparr>ap_nonce = u ''new'', ap_previous = sample_before, ap_token = 5\<rparr>"

definition sample_start :: connect_world where
  "sample_start = new_request sample_before 4 False"

definition sample_begun :: connect_world where
  "sample_begun = handleApproveConnect sample_key (u ''new'') [u ''wss://b''] sample_start"

definition sample_publishing :: connect_world where
  "sample_publishing = before_publish sample_key sample_approval [] (saved sample_key sample_approval (u ''wss://b'') []
     (armed sample_key sample_approval (u ''wss://b'') [] (loaded sample_key (u ''new'') [u ''wss://b''] sample_before
       (prepared sample_key (u ''new'') [u ''wss://b''] sample_begun))))"

definition sample_backed_out :: connect_world where
  "sample_backed_out = handleConnectDone sample_key sample_publishing"

definition sample_over :: connect_world where
  "sample_over = restored sample_key sample_approval Then_cancelled (checked sample_key sample_approval Then_cancelled
     (published sample_key sample_approval sample_backed_out))"

lemma sample_places:
  "cw_pending sample_start" "cw_place sample_begun = Preparing (u ''new'') [u ''wss://b'']" "cw_stored sample_begun = sample_before"
  "cw_place (prepared sample_key (u ''new'') [u ''wss://b''] sample_begun) = Loading (u ''new'') [u ''wss://b'']"
  "cw_stored (prepared sample_key (u ''new'') [u ''wss://b''] sample_begun) = sample_before"
  by (simp_all add: sample_begun_def sample_start_def new_request_def connect_defs guard_defs)

definition sample_loaded :: connect_world where
  "sample_loaded = loaded sample_key (u ''new'') [u ''wss://b''] sample_before
     (prepared sample_key (u ''new'') [u ''wss://b''] sample_begun)"

lemma sample_loaded_eq:
  "sample_loaded = \<lparr>cw_guard = \<lparr>se_state = [sample_key \<mapsto> In_flight], se_delivering = {}, se_cancel = {}\<rparr>, cw_pending = True,
     cw_stored = sample_before, cw_lastToken = 5, cw_served = True, cw_tracked = Some 5, cw_answers = [],
     cw_place = Arming sample_approval (u ''wss://b'') [], cw_result = None, cw_own = Some 5, cw_cancelled = False\<rparr>"
  by (simp add: sample_loaded_def sample_begun_def sample_start_def new_request_def connect_defs guard_defs Let_def)

lemma sample_publishing_eq:
  "sample_publishing = sample_loaded\<lparr>cw_guard := \<lparr>se_state = [sample_key \<mapsto> Settled], se_delivering = {sample_key}, se_cancel = {}\<rparr>,
     cw_stored := Some \<lparr>cl_pairingNonce = Some (u ''new''), cl_relayUrl = u ''wss://b''\<rparr>, cw_place := Publishing sample_approval []\<rparr>"
  unfolding sample_publishing_def sample_loaded_def [symmetric] sample_loaded_eq
  by (simp add: connect_defs guard_defs Let_def)

lemma sample_backed_out_eq:
  "sample_backed_out = sample_publishing\<lparr>cw_guard := \<lparr>se_state = [sample_key \<mapsto> Settled], se_delivering = {sample_key}, se_cancel = {sample_key}\<rparr>,
     cw_pending := False, cw_served := False, cw_tracked := None, cw_cancelled := True\<rparr>"
  unfolding sample_backed_out_def sample_publishing_eq sample_loaded_eq
  by (simp add: handleConnectDone_def takeOnCancel_def connect_defs guard_defs Let_def)

lemma sample_over_eq:
  "sample_over = sample_backed_out\<lparr>cw_guard := \<lparr>se_state = [sample_key \<mapsto> Settled], se_delivering = {}, se_cancel = {}\<rparr>,
     cw_stored := sample_before, cw_answers := [Approval], cw_place := Idle, cw_result := Some Cancelled\<rparr>"
  unfolding sample_over_def sample_backed_out_eq sample_publishing_eq sample_loaded_eq
  by (simp add: connect_defs guard_defs stillOurs_def Let_def)

lemma goes_on: "connect_step key Goes_on w w' \<Longrightarrow> quiet_step key w w'"
  by blast

lemma acts: "connect_step key Acts w w' \<Longrightarrow> quiet_step key w w'"
  by blast

lemma three_steps: "R a b \<Longrightarrow> R b c \<Longrightarrow> R c d \<Longrightarrow> R\<^sup>*\<^sup>* a d"
  by (meson converse_rtranclp_into_rtranclp rtranclp.rtrancl_refl)

lemma sample_approved: "(quiet_step sample_key)\<^sup>*\<^sup>* sample_start sample_loaded"
proof -
  let ?p = "prepared sample_key (u ''new'') [u ''wss://b''] sample_begun"
  have "quiet_step sample_key sample_start sample_begun"
    unfolding sample_begun_def using connect_step.began sample_places(1) by blast
  moreover have "quiet_step sample_key sample_begun ?p"
    using connect_step.ready sample_places(2) by blast
  moreover have "quiet_step sample_key ?p sample_loaded"
    unfolding sample_loaded_def using connect_step.found [OF sample_places(4)] unfolding sample_places(5) by blast
  ultimately show ?thesis
    by (rule three_steps)
qed

lemma sample_delivers: "(quiet_step sample_key)\<^sup>*\<^sup>* sample_loaded sample_publishing"
proof -
  let ?a = "armed sample_key sample_approval (u ''wss://b'') [] sample_loaded"
  let ?s = "saved sample_key sample_approval (u ''wss://b'') [] ?a"
  have "quiet_step sample_key sample_loaded ?a"
    using connect_step.armed [of sample_loaded] by (auto simp: sample_loaded_eq)
  moreover have "quiet_step sample_key ?a ?s"
    by (intro goes_on connect_step.saved) (simp_all add: sample_loaded_eq connect_defs guard_defs)
  moreover have "quiet_step sample_key ?s sample_publishing"
    unfolding sample_publishing_def sample_loaded_def [symmetric]
    by (intro goes_on connect_step.signed) (simp_all add: sample_loaded_eq connect_defs guard_defs Let_def)
  ultimately show ?thesis
    by (rule three_steps)
qed

lemma sample_undone: "(quiet_step sample_key)\<^sup>*\<^sup>* sample_publishing sample_over"
proof -
  let ?p = "published sample_key sample_approval sample_backed_out"
  let ?c = "checked sample_key sample_approval Then_cancelled ?p"
  have "quiet_step sample_key sample_publishing sample_backed_out"
    unfolding sample_backed_out_def
    by (intro acts connect_step.backed_out) (simp_all add: sample_publishing_eq sample_loaded_eq)
  moreover have "quiet_step sample_key sample_backed_out ?p"
    by (intro goes_on connect_step.published) (simp_all add: sample_backed_out_eq sample_publishing_eq sample_loaded_eq)
  moreover have "quiet_step sample_key ?p ?c"
    by (intro goes_on connect_step.checked)
      (simp_all add: sample_backed_out_eq sample_publishing_eq sample_loaded_eq connect_defs guard_defs Let_def)
  moreover have "quiet_step sample_key ?c sample_over"
    unfolding sample_over_def by (intro goes_on connect_step.restored)
      (simp_all add: sample_backed_out_eq sample_publishing_eq sample_loaded_eq connect_defs guard_defs stillOurs_def Let_def)
  ultimately show ?thesis
    by (intro converse_rtranclp_into_rtranclp [OF _ three_steps])
qed

lemma sample_reached: "(quiet_step sample_key)\<^sup>*\<^sup>* (new_request sample_before 4 False) sample_over"
  using sample_approved sample_delivers sample_undone unfolding sample_start_def by (meson rtranclp_trans)

theorem connect_answers_once_witness: "cw_answers sample_over = [Approval] \<and> \<not> own_served sample_over"
  using connect_answers_once [OF quiet_run [OF sample_reached]]
  by (simp add: sample_over_eq sample_backed_out_eq)

text \<open>
  C17 (safety): An approval that did not connect leaves the pairing of before. On a device whose storage
  works, with no other pairing of the same app written meanwhile, whenever no approval runs the stored
  pairing is the one from before the request, or the last approval connected and it is the one that
  approval saved; and if the user backed out before the response was known to be sent, it is the one
  from before, whatever relays had been tried.
\<close>

theorem unconnected_leaves_pairing:
  assumes "(quiet_step key)\<^sup>*\<^sup>* (new_request c t b) w" "cw_place w = Idle"
  shows "(if cw_result w = Some Connected then cw_answers w = [Approval] \<and> (\<exists>a. saved_by a w) else cw_stored w = c)
    \<and> (cw_cancelled w \<longrightarrow> cw_stored w = c)"
proof -
  have "guarded key w"
    using reached_connect quiet_run assms(1) by blast
  moreover have "store_inv c w"
    by (rule quiet_inv [OF assms(1)])
  ultimately show ?thesis
    using assms(2) by (auto simp: guarded_defs store_inv_def split: if_splits)
qed

theorem unconnected_leaves_pairing_witness:
  "cw_stored sample_publishing \<noteq> sample_before \<and> cw_cancelled sample_over \<and> cw_stored sample_over = sample_before"
proof -
  have "cw_place sample_over = Idle" "cw_cancelled sample_over"
    by (simp_all add: sample_over_eq sample_backed_out_eq)
  then have "cw_stored sample_over = sample_before"
    using unconnected_leaves_pairing [OF sample_reached] by simp
  then show ?thesis
    by (simp add: sample_over_eq sample_backed_out_eq sample_publishing_eq sample_before_def u_def)
qed

text \<open>The steps of one approval among those of others: how many it made.\<close>

inductive approval_run :: "ustr \<Rightarrow> nat \<Rightarrow> connect_world \<Rightarrow> connect_world \<Rightarrow> bool" for key where
  none: "approval_run key 0 w w"
| own: "approval_run key n w w' \<Longrightarrow> connect_step key kind w' w'' \<Longrightarrow> kind \<in> {Goes_on, Storage_fails}
     \<Longrightarrow> approval_run key (Suc n) w w''"
| other: "approval_run key n w w' \<Longrightarrow> connect_step key kind w' w'' \<Longrightarrow> cw_place w'' = cw_place w'
     \<Longrightarrow> approval_run key n w w''"

lemma run_decreases: "approval_run key n w w' \<Longrightarrow> n + steps_left (cw_place w') \<le> steps_left (cw_place w)"
proof (induction rule: approval_run.induct)
  case (own n w w' kind w'')
  then show ?case
    using step_decreases [of key kind w' w''] by simp
qed auto

lemma place_goes_on: "cw_place w \<noteq> Idle \<Longrightarrow> \<exists>w'. connect_step key Goes_on w w'"
  by (cases "cw_place w") (blast intro: connect_step.intros)+

text \<open>An approval that comes to an end says how.\<close>

lemma ended_results:
  "cw_result (finish_as key r w) \<noteq> None" "cw_result (withdrawn_now key a w) \<noteq> None"
  "cw_place (next_relay key a rs w) = Idle \<Longrightarrow> cw_result (next_relay key a rs w) \<noteq> None"
  "cw_place (resume_after key a m w) = Idle \<Longrightarrow> cw_result (resume_after key a m w) \<noteq> None"
proof -
  show f: "cw_result (finish_as key r w) \<noteq> None" for r w
    by (simp add: finish_as_def)
  then show w: "cw_result (withdrawn_now key a w) \<noteq> None" for w
    by (simp add: withdrawn_now_def)
  show n: "cw_place (next_relay key a rs w) = Idle \<Longrightarrow> cw_result (next_relay key a rs w) \<noteq> None" for rs
    using f w by (cases rs) (auto simp: next_relay_def)
  show "cw_place (resume_after key a m w) = Idle \<Longrightarrow> cw_result (resume_after key a m w) \<noteq> None"
    using f w n by (cases m) (auto simp: resume_after_def)
qed

lemma step_result:
  assumes "connect_step key kind w w'" "cw_place w' = Idle"
  shows "cw_place w = Idle \<and> cw_result w' = cw_result w \<or> cw_result w' \<noteq> None"
  using assms
proof (induction rule: connect_step.induct)
  case (began w nonce relays)
  then show ?case
    by (auto simp: handleApproveConnect_def split: prod.splits begin_result.splits)
next
  case (ready w nonce relays)
  then show ?case
    using ended_results by (auto simp: prepared_def split: if_splits)
next
  case (found w nonce relays)
  then show ?case
    using ended_results by (auto simp: loaded_def Let_def split: if_splits)
next
  case (not_found w nonce relays)
  then show ?case
    using ended_results by (auto simp: loaded_def Let_def split: if_splits)
next
  case (armed w a r rest)
  then show ?case
    using ended_results by (auto simp: armed_def split: if_splits)
next
  case (saved w a r rest)
  then show ?case
    by (auto simp: saved_def Let_def split: if_splits)
next
  case (signed w a rest)
  then show ?case
    by (auto simp: before_publish_def Let_def split: if_splits prod.splits)
next
  case (published w a rest)
  then show ?case
    using ended_results by (auto simp: published_def Let_def split: if_splits prod.splits)
next
  case (not_published w a rest)
  then show ?case
    by (simp add: publish_failed_def)
next
  case (checked w a m)
  then show ?case
    using ended_results by (auto simp: checked_def split: if_splits)
next
  case (restored w a m)
  then show ?case
    using ended_results unfolding restored_def by blast
next
  case (backed_out w)
  then show ?case
    by (auto simp: handleConnectDone_def clear_route Let_def split: prod.splits option.splits if_splits)
qed (use ended_results in auto)

lemma run_reaches: "approval_run key n w w' \<Longrightarrow> (any_step key)\<^sup>*\<^sup>* w w'"
  by (induction rule: approval_run.induct) (auto intro: rtranclp.rtrancl_into_rtrancl)

lemma run_result:
  assumes "approval_run key n w w'" "cw_place w \<noteq> Idle" "cw_place w' = Idle"
  shows "cw_result w' \<noteq> None"
  using assms
proof (induction rule: approval_run.induct)
  case (own n w w' kind w'')
  then show ?case
    using step_result [OF own.hyps(2)] by metis
next
  case (other n w w' kind w'')
  then show ?case
    using step_result [OF other.hyps(2)] by metis
qed simp

text \<open>
  C18 (termination): An approval ends, and leaves the request free. Take any state of a request that its
  handlers and everything else around them can reach, in which an approval over n relays has just begun. It
  makes at most 6n + 2 steps of its own, whatever fails and whoever acts in between, and until it has ended
  it has a step to make at the end of its wait. When it has ended, the request is no longer marked in
  flight, nor being delivered, nor to be cancelled, a result is recorded, and if it has not been answered and
  still waits on the screen a new tap on Approve starts the next approval. So a request stays in flight
  only while a call of the platform does not return.
\<close>

theorem connect_approval_ends:
  assumes "(any_step key)\<^sup>*\<^sup>* (new_request c t b) w" "cw_place w = Preparing nonce relays" "approval_run key n w w'"
  shows "n \<le> 6 * length relays + 2 \<and> (n = 6 * length relays + 2 \<longrightarrow> cw_place w' = Idle)
    \<and> (if cw_place w' = Idle
       then \<not> isInFlight key (cw_guard w') \<and> key \<notin> se_delivering (cw_guard w') \<and> key \<notin> se_cancel (cw_guard w') \<and> cw_result w' \<noteq> None
         \<and> (cw_answers w' = [] \<longrightarrow> cw_place (handleApproveConnect key nonce' relays' w') = Preparing nonce' relays')
       else (\<exists>w''. connect_step key Goes_on w' w''))"
proof -
  have "steps_left p = 0 \<Longrightarrow> p = Idle" for p
    by (cases p) auto
  then have bound: "n \<le> 6 * length relays + 2" "n = 6 * length relays + 2 \<longrightarrow> cw_place w' = Idle"
    using run_decreases [OF assms(3)] assms(2) by fastforce+
  have "(any_step key)\<^sup>*\<^sup>* (new_request c t b) w'"
    using assms(1) run_reaches [OF assms(3)] by (rule rtranclp_trans)
  then have g: "guarded key w'"
    using reached_connect by blast
  have r: "cw_result w' \<noteq> None" if "cw_place w' = Idle"
    using run_result [OF assms(3)] assms(2) that by simp
  have "\<not> isInFlight key (cw_guard w') \<and> key \<notin> se_delivering (cw_guard w') \<and> key \<notin> se_cancel (cw_guard w')
      \<and> (cw_answers w' = [] \<longrightarrow> cw_place (handleApproveConnect key nonce' relays' w') = Preparing nonce' relays')"
    if "cw_place w' = Idle"
    using g that by (auto simp: guarded_def isInFlight_def handleApproveConnect_def beginApproval_def)
  then show ?thesis
    using bound r place_goes_on [of w' key] by auto
qed

theorem connect_approval_ends_witness:
  "isInFlight sample_key (cw_guard sample_begun)
    \<and> (\<exists>w. approval_run sample_key 1 sample_begun w \<and> cw_place w = Idle \<and> \<not> isInFlight sample_key (cw_guard w)
         \<and> cw_place (handleApproveConnect sample_key (u ''again'') [] w) = Preparing (u ''again'') [])"
proof -
  let ?w = "finish_as sample_key Failed sample_begun"
  have reached: "(any_step sample_key)\<^sup>*\<^sup>* (new_request sample_before 4 False) sample_begun"
    unfolding sample_begun_def using connect_step.began [OF sample_places(1), of sample_key] unfolding sample_start_def by blast
  have r: "approval_run sample_key 1 sample_begun ?w"
    using approval_run.own [OF approval_run.none connect_step.not_ready [OF sample_places(2)]] by simp
  have idle: "cw_place ?w = Idle" "cw_answers ?w = []" "isInFlight sample_key (cw_guard sample_begun)"
    by (simp_all add: sample_begun_def sample_start_def new_request_def connect_defs guard_defs)
  then show ?thesis
    using connect_approval_ends [OF reached sample_places(2) r, of "u ''again''" "[]"] r by auto
qed

section \<open>Two gaps\<close>

text \<open>
  The pairing of before could not be read: it counts as none, so backing out deletes it.
\<close>

lemma unread_pairing_is_lost:
  assumes "stillOpen key w" "cw_stored w = Some old"
  shows "\<exists>a. cw_place (loaded key nonce [r] None w) = Arming a r [] \<and> ap_previous a = None
    \<and> (\<forall>w'. cw_stored (restored key a Then_cancelled w') = None)"
  using assms by (auto simp: loaded_def next_relay_def installRoute_def stillOpen_def restored_def resume_after_def
      finish_as_def clear_route Let_def)

text \<open>
  The check that the stored pairing is still the one of this approval and the write that puts the old one
  back are two steps: a pairing written between them is overwritten.
\<close>

lemma newer_pairing_is_overwritten:
  assumes "cw_place w = Checking a Then_withdrawn" "stillOurs a w" "cl_pairingNonce newer \<noteq> Some (ap_nonce a)"
  shows "\<exists>w1 w2 w3. connect_step key Goes_on w w1 \<and> connect_step key Interferes w1 w2 \<and> cw_stored w2 = Some newer
    \<and> connect_step key Goes_on w2 w3 \<and> cw_stored w3 = ap_previous a"
proof -
  let ?w1 = "w\<lparr>cw_place := Restoring a Then_withdrawn\<rparr>"
  let ?w2 = "?w1\<lparr>cw_stored := Some newer\<rparr>"
  have "connect_step key Goes_on w ?w1"
    using connect_step.checked [OF assms(1), of key] assms(2) by (simp add: checked_def)
  moreover have "connect_step key Goes_on ?w2 (restored key a Then_withdrawn ?w2)"
    by (rule connect_step.restored) simp
  moreover have "cw_stored (restored key a Then_withdrawn ?w2) = ap_previous a"
    by (simp add: restored_def resume_after_def withdrawn_now_def finish_as_def clear_route)
  ultimately show ?thesis
    using connect_step.pairing_written [of key ?w1 "Some newer"] by fastforce
qed

end
