(* ===== verification/Secret_Store.thy ===== *)
theory Secret_Store
  imports Prelude "HOL-Library.Word"
begin

text \<open>
  Secrets at rest (\<open>lib/crypto-store.ts\<close>, \<open>lib/aes-crypto.ts\<close>): the wire format of a sealed text, the
  keys remembered while the app is unlocked, and the keys derived ahead of the writes that use them.
  The ciphers, the text coder and the random bytes of the platform are parameters. A write under
  a key derived ahead waits for that key, and the app may be locked meanwhile: its two halves are
  separate steps.
\<close>

type_synonym byte = "8 word"

section \<open>Base64\<close>

definition b64_unit :: "nat \<Rightarrow> nat" where
  "b64_unit d = (if d < 26 then 65 + d else if d < 52 then 71 + d else if d < 62 then d - 4
     else if d = 62 then 43 else 47)"

definition b64_digit :: "nat \<Rightarrow> nat option" where
  "b64_digit c =
     (if 65 \<le> c \<and> c \<le> 90 then Some (c - 65) else if 97 \<le> c \<and> c \<le> 122 then Some (c - 71)
      else if 48 \<le> c \<and> c \<le> 57 then Some (c + 4) else if c = 43 then Some 62 else if c = 47 then Some 63 else None)"

fun sextets :: "byte list \<Rightarrow> nat list" where
  "sextets [] = []"
| "sextets [a] = [unat a div 4, unat a mod 4 * 16]"
| "sextets [a, b] = [unat a div 4, unat a mod 4 * 16 + unat b div 16, unat b mod 16 * 4]"
| "sextets (a # b # c # s) =
     [unat a div 4, unat a mod 4 * 16 + unat b div 16, unat b mod 16 * 4 + unat c div 64, unat c mod 64] @ sextets s"

fun octets :: "nat list \<Rightarrow> byte list" where
  "octets (x # y # z # w # s) =
     [of_nat (x * 4 + y div 16), of_nat (y mod 16 * 16 + z div 4), of_nat (z mod 4 * 64 + w)] @ octets s"
| "octets [x, y, z] = [of_nat (x * 4 + y div 16), of_nat (y mod 16 * 16 + z div 4)]"
| "octets [x, y] = [of_nat (x * 4 + y div 16)]"
| "octets _ = []"

definition btoa :: "byte list \<Rightarrow> ustr" where
  "btoa bs = map b64_unit (sextets bs) @ replicate ((3 - length bs mod 3) mod 3) 61"

text \<open>The decoder of the platform forgives white space and missing padding.\<close>

definition strip_pad :: "ustr \<Rightarrow> ustr" where
  "strip_pad s =
     (if length s mod 4 \<noteq> 0 then s
      else if ends_with s [61, 61] then take (length s - 2) s
      else if ends_with s [61] then take (length s - 1) s else s)"

definition atob :: "ustr \<Rightarrow> byte list option" where
  "atob text =
     (let s = strip_pad (filter (\<lambda>c. c \<notin> {9, 10, 12, 13, 32}) text)
      in if length s mod 4 = 1 then None else map_option octets (those (map b64_digit s)))"

lemma b64_inverse: "d < 64 \<Longrightarrow> b64_digit (b64_unit d) = Some d"
  by (auto simp: b64_unit_def b64_digit_def)

lemma b64_unit_plain: "d < 64 \<Longrightarrow> b64_unit d \<notin> {9, 10, 12, 13, 32, 61}"
  by (auto simp: b64_unit_def)

lemma byte_bound: "unat (b :: byte) < 256"
  using unsigned_less [of b, where ?'a = nat] by simp

lemma sextets_bound: "\<forall>d \<in> set (sextets bs). d < 64"
proof (induction bs rule: sextets.induct)
  case (2 a)
  then show ?case
    using byte_bound [of a] by auto
next
  case (3 a b)
  then show ?case
    using byte_bound [of a] byte_bound [of b] by auto
next
  case (4 a b c s)
  then show ?case
    using byte_bound [of a] byte_bound [of b] byte_bound [of c] by auto
qed simp

lemma octet_parts:
  "unat (b :: byte) div 16 div 16 = 0"
  "unat b div 16 mod 16 * 16 + unat b mod 16 = unat b"
  "unat b div 16 mod 16 * 16 + (unat b mod 16 + unat c div 64 div 4) = unat b"
  "unat c div 64 mod 4 * 64 + unat c mod 64 = unat (c :: byte)"
  using byte_bound [of b] byte_bound [of c] by (auto simp: div_mult2_eq [symmetric])

lemma octets_sextets: "octets (sextets bs) = bs"
  by (induction bs rule: sextets.induct) (simp_all add: octet_parts del: of_nat_add of_nat_mult)

text \<open>The padding of a text that holds no \<open>=\<close> of its own is stripped.\<close>

lemma strip_pad_replicate:
  assumes "61 \<notin> set s" "k \<le> 2" "(length s + k) mod 4 = 0"
  shows "strip_pad (s @ replicate k 61) = s"
proof -
  have "k = 0 \<or> k = 1 \<or> k = 2"
    using assms(2) by auto
  then show ?thesis
  proof (elim disjE)
    assume "k = 0"
    moreover have "\<not> ends_with s (t @ [61])" for t
    proof
      assume e: "ends_with s (t @ [61])"
      then have "61 \<in> set (drop (length s - length (t @ [61])) s)"
        by (simp add: ends_with_def)
      then show False
        using assms(1) by (meson in_set_dropD)
    qed
    from this [of "[61]"] this [of "[]"] have "\<not> ends_with s [61, 61]" "\<not> ends_with s [61]"
      by simp_all
    ultimately show ?thesis
      using assms(3) by (simp add: strip_pad_def)
  next
    assume k: "k = 1"
    have "\<not> ends_with (s @ [61]) [61, 61]"
      using assms(1) by (cases s rule: rev_cases) (auto simp: ends_with_def)
    moreover have "ends_with (s @ [61]) [61]"
      by (simp add: ends_with_def)
    ultimately show ?thesis
      using k assms(3) by (simp add: strip_pad_def)
  next
    assume "k = 2"
    then show ?thesis
      using assms(3) by (simp add: strip_pad_def ends_with_def numeral_2_eq_2)
  qed
qed

lemma sextets_length: "(length (sextets bs) + (3 - length bs mod 3) mod 3) mod 4 = 0 \<and> length (sextets bs) mod 4 \<noteq> 1"
proof (induction bs rule: sextets.induct)
  case (4 a b c s)
  have "Suc (Suc (Suc (length s))) mod 3 = length s mod 3" "Suc (Suc (Suc (Suc n))) mod 4 = n mod 4" for n :: nat
    by presburger+
  then show ?case
    using "4.IH" by simp
qed auto

lemma those_map_digit: "\<forall>d \<in> set ds. d < 64 \<Longrightarrow> those (map (b64_digit \<circ> b64_unit) ds) = Some ds"
  by (induction ds) (auto simp: b64_inverse)

lemma atob_btoa: "atob (btoa bs) = Some bs"
proof -
  let ?s = "map b64_unit (sextets bs)"
  have "c \<notin> {9, 10, 12, 13, 32, 61}" if "c \<in> set ?s" for c
    using that sextets_bound [of bs] b64_unit_plain by (auto simp del: insert_iff)
  then have plain: "61 \<notin> set ?s" "filter (\<lambda>c. c \<notin> {9, 10, 12, 13, 32}) (btoa bs) = btoa bs"
    by (auto simp: btoa_def filter_id_conv simp del: set_map)
  have "strip_pad (btoa bs) = ?s"
    using strip_pad_replicate [OF plain(1)] sextets_length [of bs] by (simp add: btoa_def)
  then show ?thesis
    using plain(2) sextets_length [of bs] those_map_digit [OF sextets_bound]
    by (simp add: atob_def octets_sextets)
qed

section \<open>The platform\<close>

text \<open>
  What the module calls: PBKDF2 and AES-GCM of WebCrypto, the text coder, and the random bytes, here by
  the number of the draw and the length asked for. A derivation may fail.
\<close>

record 'k webcrypto =
  wc_derive :: "ustr \<Rightarrow> byte list \<Rightarrow> 'k option"
  wc_seal :: "'k \<Rightarrow> byte list \<Rightarrow> byte list \<Rightarrow> byte list"
  wc_open :: "'k \<Rightarrow> byte list \<Rightarrow> byte list \<Rightarrow> byte list option"
  wc_encode :: "ustr \<Rightarrow> byte list"
  wc_decode :: "byte list \<Rightarrow> ustr"
  wc_random :: "nat \<Rightarrow> nat \<Rightarrow> byte list"

definition SALT_LENGTH :: nat where
  "SALT_LENGTH = 16"

definition IV_LENGTH :: nat where
  "IV_LENGTH = 12"

text \<open>Documented behaviour: opening inverts sealing, a sealed text carries a tag of 16 bytes, random bytes come as many as asked.\<close>

definition lawful :: "'k webcrypto \<Rightarrow> bool" where
  "lawful W \<longleftrightarrow> (\<forall>k iv p. wc_open W k iv (wc_seal W k iv p) = Some p \<and> 16 \<le> length (wc_seal W k iv p))
     \<and> (\<forall>i n. length (wc_random W i n) = n)"

text \<open>A text the coder gives back: one with no lone surrogate and no byte-order mark at its head.\<close>

definition codes :: "'k webcrypto \<Rightarrow> ustr \<Rightarrow> bool" where
  "codes W t \<longleftrightarrow> wc_decode W (wc_encode W t) = t"

definition aesEncrypt :: "'k webcrypto \<Rightarrow> ustr \<Rightarrow> 'k \<Rightarrow> byte list \<Rightarrow> byte list" where
  "aesEncrypt W t key iv = wc_seal W key iv (wc_encode W t)"

definition aesDecrypt :: "'k webcrypto \<Rightarrow> byte list \<Rightarrow> byte list \<Rightarrow> 'k \<Rightarrow> ustr option" where
  "aesDecrypt W iv ciphertext key = map_option (wc_decode W) (wc_open W key iv ciphertext)"

section \<open>Remembered and spare keys\<close>

text \<open>
  A remembered key is the promise of a derivation; what it will give is known when it is made, so the
  promise is its outcome, \<open>None\<close> a derivation that fails. \<open>kr_drawn\<close> counts the random draws.
\<close>

record 'k spare =
  sk_passphrase :: ustr
  sk_salt :: "byte list"
  sk_key :: "'k option"

record 'k keyring =
  kr_remembered :: "(ustr \<times> 'k option) list"
  kr_for :: "ustr option"
  kr_spares :: "'k spare list"
  kr_drawn :: nat

definition new_keyring :: "'k keyring" where
  "new_keyring = \<lparr>kr_remembered = [], kr_for = None, kr_spares = [], kr_drawn = 0\<rparr>"

definition REMEMBER_MAX :: nat where
  "REMEMBER_MAX = 512"

definition MIN_REMEMBERED_PASSPHRASE :: nat where
  "MIN_REMEMBERED_PASSPHRASE = 32"

definition SPARE_KEYS :: nat where
  "SPARE_KEYS = 4"

definition hex_char :: "nat \<Rightarrow> nat" where
  "hex_char d = (if d < 10 then 48 + d else 87 + d)"

definition saltKey :: "byte list \<Rightarrow> ustr" where
  "saltKey salt = concat (map (\<lambda>b. [hex_char (unat b div 16), hex_char (unat b mod 16)]) salt)"

definition rememberDerivedKeysFor :: "ustr \<Rightarrow> 'k keyring \<Rightarrow> 'k keyring" where
  "rememberDerivedKeysFor unlockKey R =
     (if length unlockKey < MIN_REMEMBERED_PASSPHRASE \<or> kr_for R = Some unlockKey then R
      else R\<lparr>kr_remembered := [], kr_spares := [], kr_for := Some unlockKey\<rparr>)"

definition forgetDerivedKeys :: "'k keyring \<Rightarrow> 'k keyring" where
  "forgetDerivedKeys R = R\<lparr>kr_remembered := [], kr_spares := [], kr_for := None\<rparr>"

text \<open>\<open>while (remembered.size > REMEMBER_MAX) remembered.delete(...)\<close>: the oldest go.\<close>

definition evict_oldest :: "'a list \<Rightarrow> 'a list" where
  "evict_oldest xs = drop (length xs - REMEMBER_MAX) xs"

definition rememberedKey :: "'k webcrypto \<Rightarrow> ustr \<Rightarrow> byte list \<Rightarrow> 'k keyring \<Rightarrow> 'k option \<times> 'k keyring" where
  "rememberedKey W passphrase salt R =
     (if kr_for R \<noteq> Some passphrase then (wc_derive W passphrase salt, R)
      else case map_of (kr_remembered R) (saltKey salt) of
        Some key \<Rightarrow> (key, R\<lparr>kr_remembered := AList.delete (saltKey salt) (kr_remembered R) @ [(saltKey salt, key)]\<rparr>)
      | None \<Rightarrow> (wc_derive W passphrase salt,
          R\<lparr>kr_remembered := evict_oldest (AList.update (saltKey salt) (wc_derive W passphrase salt) (kr_remembered R))\<rparr>))"

text \<open>The \<open>catch\<close> of a remembered derivation.\<close>

definition derivation_failed :: "ustr \<Rightarrow> 'k keyring \<Rightarrow> 'k keyring" where
  "derivation_failed name R =
     (if map_of (kr_remembered R) name = Some None then R\<lparr>kr_remembered := AList.delete name (kr_remembered R)\<rparr> else R)"

definition getRandomValues :: "'k webcrypto \<Rightarrow> nat \<Rightarrow> 'k keyring \<Rightarrow> byte list \<times> 'k keyring" where
  "getRandomValues W n R = (wc_random W (kr_drawn R) n, R\<lparr>kr_drawn := kr_drawn R + 1\<rparr>)"

definition spareKey :: "'k webcrypto \<Rightarrow> ustr \<Rightarrow> 'k keyring \<Rightarrow> 'k spare \<times> 'k keyring" where
  "spareKey W passphrase R =
     (let (salt, R') = getRandomValues W SALT_LENGTH R
      in (\<lparr>sk_passphrase = passphrase, sk_salt = salt, sk_key = wc_derive W passphrase salt\<rparr>, R'))"

function refillSpareKeys :: "'k webcrypto \<Rightarrow> ustr \<Rightarrow> 'k keyring \<Rightarrow> 'k keyring" where
  "refillSpareKeys W passphrase R =
     (if kr_for R = Some passphrase \<and> length (kr_spares R) < SPARE_KEYS
      then let (s, R') = spareKey W passphrase R
           in refillSpareKeys W passphrase (R'\<lparr>kr_spares := kr_spares R @ [s]\<rparr>)
      else R)"
  by pat_completeness auto

termination
  by (relation "measure (\<lambda>(W, p, R). SPARE_KEYS - length (kr_spares R))")
    (auto simp: spareKey_def getRandomValues_def SPARE_KEYS_def)

declare refillSpareKeys.simps [simp del]

text \<open>\<open>takeSpareKey\<close> up to its wait, and after it.\<close>

definition takeSpareKey :: "'k webcrypto \<Rightarrow> ustr \<Rightarrow> 'k keyring \<Rightarrow> 'k spare option \<times> 'k keyring" where
  "takeSpareKey W passphrase R =
     (if kr_for R \<noteq> Some passphrase then (None, R)
      else let (spare, R') = (case kr_spares R of
                 [] \<Rightarrow> spareKey W passphrase R
               | taken # rest \<Rightarrow> if sk_passphrase taken = passphrase then (taken, R\<lparr>kr_spares := rest\<rparr>)
                                else spareKey W passphrase (R\<lparr>kr_spares := rest\<rparr>))
           in (Some spare, refillSpareKeys W passphrase R'))"

definition takenSpareKey :: "ustr \<Rightarrow> 'k spare \<Rightarrow> 'k keyring \<Rightarrow> (byte list \<times> 'k) option \<times> 'k keyring" where
  "takenSpareKey passphrase spare R =
     (case sk_key spare of
        None \<Rightarrow> (None, R)
      | Some key \<Rightarrow> (Some (sk_salt spare, key),
          if kr_for R = Some passphrase
          then R\<lparr>kr_remembered := evict_oldest (AList.update (saltKey (sk_salt spare)) (Some key) (kr_remembered R))\<rparr> else R))"

definition encryptsAhead :: "ustr \<Rightarrow> 'k keyring \<Rightarrow> bool" where
  "encryptsAhead passphrase R \<longleftrightarrow> kr_for R = Some passphrase"

section \<open>Sealing\<close>

text \<open>\<open>base64(salt || iv || ciphertext)\<close>, with a fresh initialisation vector.\<close>

definition sealed_under :: "'k webcrypto \<Rightarrow> byte list \<Rightarrow> 'k \<Rightarrow> ustr \<Rightarrow> 'k keyring \<Rightarrow> ustr \<times> 'k keyring" where
  "sealed_under W salt key plaintext R =
     (let (iv, R') = getRandomValues W IV_LENGTH R in (btoa (salt @ iv @ aesEncrypt W plaintext key iv), R'))"

definition freshSaltKey :: "'k webcrypto \<Rightarrow> ustr \<Rightarrow> 'k keyring \<Rightarrow> (byte list \<times> 'k) option \<times> 'k keyring" where
  "freshSaltKey W passphrase R =
     (let (salt, R') = getRandomValues W SALT_LENGTH R in (map_option (Pair salt) (wc_derive W passphrase salt), R'))"

text \<open>Every writer returns the salt it sealed under too; \<open>None\<close> is a failed derivation.\<close>

definition encryptSecret :: "'k webcrypto \<Rightarrow> ustr \<Rightarrow> ustr \<Rightarrow> 'k keyring \<Rightarrow> (byte list \<times> ustr) option \<times> 'k keyring" where
  "encryptSecret W plaintext passphrase R =
     (case freshSaltKey W passphrase R of
        (None, R') \<Rightarrow> (None, R')
      | (Some (salt, key), R') \<Rightarrow> let (e, R'') = sealed_under W salt key plaintext R' in (Some (salt, e), R''))"

definition finishAhead :: "'k webcrypto \<Rightarrow> ustr \<Rightarrow> ustr \<Rightarrow> 'k spare \<Rightarrow> 'k keyring \<Rightarrow> (byte list \<times> ustr) option \<times> 'k keyring" where
  "finishAhead W plaintext passphrase spare R =
     (case takenSpareKey passphrase spare R of
        (None, R') \<Rightarrow> encryptSecret W plaintext passphrase R'
      | (Some (salt, key), R') \<Rightarrow> let (e, R'') = sealed_under W salt key plaintext R' in (Some (salt, e), R''))"

definition encryptSecretAhead :: "'k webcrypto \<Rightarrow> ustr \<Rightarrow> ustr \<Rightarrow> 'k keyring \<Rightarrow> (byte list \<times> ustr) option \<times> 'k keyring" where
  "encryptSecretAhead W plaintext passphrase R =
     (case takeSpareKey W passphrase R of
        (None, R') \<Rightarrow> encryptSecret W plaintext passphrase R'
      | (Some spare, R') \<Rightarrow> finishAhead W plaintext passphrase spare R')"

fun encryptBatchUnder :: "'k webcrypto \<Rightarrow> ustr list \<Rightarrow> byte list \<times> 'k \<Rightarrow> 'k keyring \<Rightarrow> ustr list \<times> 'k keyring" where
  "encryptBatchUnder W [] sk R = ([], R)"
| "encryptBatchUnder W (t # ts) sk R =
     (let (e, R') = sealed_under W (fst sk) (snd sk) t R; (es, R'') = encryptBatchUnder W ts sk R' in (e # es, R''))"

definition encryptSecretsBatch :: "'k webcrypto \<Rightarrow> ustr list \<Rightarrow> ustr \<Rightarrow> 'k keyring \<Rightarrow> (byte list \<times> ustr list) option \<times> 'k keyring" where
  "encryptSecretsBatch W plaintexts passphrase R =
     (if plaintexts = [] then (Some ([], []), R)
      else case freshSaltKey W passphrase R of
        (None, R') \<Rightarrow> (None, R')
      | (Some sk, R') \<Rightarrow> let (es, R'') = encryptBatchUnder W plaintexts sk R' in (Some (fst sk, es), R''))"

definition finishBatchAhead ::
    "'k webcrypto \<Rightarrow> ustr list \<Rightarrow> ustr \<Rightarrow> 'k spare \<Rightarrow> 'k keyring \<Rightarrow> (byte list \<times> ustr list) option \<times> 'k keyring" where
  "finishBatchAhead W plaintexts passphrase spare R =
     (case takenSpareKey passphrase spare R of
        (None, R') \<Rightarrow> encryptSecretsBatch W plaintexts passphrase R'
      | (Some sk, R') \<Rightarrow> let (es, R'') = encryptBatchUnder W plaintexts sk R' in (Some (fst sk, es), R''))"

definition encryptSecretsBatchAhead :: "'k webcrypto \<Rightarrow> ustr list \<Rightarrow> ustr \<Rightarrow> 'k keyring \<Rightarrow> (byte list \<times> ustr list) option \<times> 'k keyring" where
  "encryptSecretsBatchAhead W plaintexts passphrase R =
     (if plaintexts = [] then (Some ([], []), R)
      else case takeSpareKey W passphrase R of
        (None, R') \<Rightarrow> encryptSecretsBatch W plaintexts passphrase R'
      | (Some spare, R') \<Rightarrow> finishBatchAhead W plaintexts passphrase spare R')"

section \<open>Opening\<close>

definition decryptSecret :: "'k webcrypto \<Rightarrow> ustr \<Rightarrow> ustr \<Rightarrow> 'k keyring \<Rightarrow> ustr option \<times> 'k keyring" where
  "decryptSecret W encrypted passphrase R =
     (case atob encrypted of
        None \<Rightarrow> (None, R)
      | Some combined \<Rightarrow>
          if length combined < SALT_LENGTH + IV_LENGTH + 16 then (None, R)
          else let (key, R') = rememberedKey W passphrase (take SALT_LENGTH combined) R
               in (Option.bind key (aesDecrypt W (take IV_LENGTH (drop SALT_LENGTH combined)) (drop (SALT_LENGTH + IV_LENGTH) combined)), R'))"

definition isEncrypted :: "ustr \<Rightarrow> bool" where
  "isEncrypted text =
     (case atob text of None \<Rightarrow> False | Some decoded \<Rightarrow> SALT_LENGTH + IV_LENGTH + 16 \<le> length decoded)"

text \<open>One row of a batch: \<open>keyCache\<close> asks for the key of a salt once.\<close>

definition decrypt_row ::
    "'k webcrypto \<Rightarrow> ustr \<Rightarrow> ustr \<Rightarrow> (ustr \<times> 'k option) list \<times> 'k keyring \<Rightarrow> ustr option \<times> (ustr \<times> 'k option) list \<times> 'k keyring" where
  "decrypt_row W passphrase encrypted = (\<lambda>(keyCache, R).
     (case atob encrypted of
        None \<Rightarrow> (None, keyCache, R)
      | Some combined \<Rightarrow>
          if length combined < SALT_LENGTH + IV_LENGTH + 16 then (None, keyCache, R)
          else let salt = take SALT_LENGTH combined;
                   (key, cache', R') = (case map_of keyCache (saltKey salt) of
                      Some key \<Rightarrow> (key, keyCache, R)
                    | None \<Rightarrow> let (key, R') = rememberedKey W passphrase salt R in (key, keyCache @ [(saltKey salt, key)], R'))
               in (Option.bind key (aesDecrypt W (take IV_LENGTH (drop SALT_LENGTH combined)) (drop (SALT_LENGTH + IV_LENGTH) combined)),
                   cache', R')))"

fun decrypt_rows ::
    "'k webcrypto \<Rightarrow> ustr \<Rightarrow> ustr list \<Rightarrow> (ustr \<times> 'k option) list \<times> 'k keyring \<Rightarrow> ustr option list \<times> 'k keyring" where
  "decrypt_rows W passphrase [] s = ([], snd s)"
| "decrypt_rows W passphrase (e # es) s =
     (let (r, s') = decrypt_row W passphrase e s; (rs, R) = decrypt_rows W passphrase es s' in (r # rs, R))"

definition decryptSecretsBatch :: "'k webcrypto \<Rightarrow> ustr list \<Rightarrow> ustr \<Rightarrow> 'k keyring \<Rightarrow> ustr option list \<times> 'k keyring" where
  "decryptSecretsBatch W encrypted passphrase R = decrypt_rows W passphrase encrypted ([], R)"

end
