(* ===== verification/Secret_Laws.thy ===== *)
theory Secret_Laws
  imports Secret_Store
begin

text \<open>
  What holds of sealed secrets: the remembered keys never change what is read, whatever is sealed can
  be opened again however locking, unlocking and the waits of the writers interleave, and every salt
  is used by one write.
\<close>

section \<open>A memory of results\<close>

text \<open>
  The interface of a cache: what is looked up is an entry, and putting adds at most the new entry (an
  old one may go). Entries that equal the function they stand for keep every answer right.
\<close>

locale memo =
  fixes f :: "'a \<Rightarrow> 'v" and name :: "'a \<Rightarrow> 'k"
    and get :: "'m \<Rightarrow> 'k \<Rightarrow> 'v option" and put :: "'k \<Rightarrow> 'v \<Rightarrow> 'm \<Rightarrow> 'm" and entries :: "'m \<Rightarrow> ('k \<times> 'v) set"
  assumes get_entry: "get m k = Some v \<Longrightarrow> (k, v) \<in> entries m"
    and put_entry: "entries (put k v m) \<subseteq> insert (k, v) (entries m)"
    and name_inj: "name a = name b \<Longrightarrow> a = b"
begin

definition valid :: "'m \<Rightarrow> bool" where
  "valid m \<longleftrightarrow> (\<forall>k v. (k, v) \<in> entries m \<longrightarrow> (\<exists>a. k = name a \<and> v = f a))"

lemma valid_get: "valid m \<Longrightarrow> get m (name a) = Some v \<Longrightarrow> v = f a"
  using get_entry name_inj unfolding valid_def by blast

lemma valid_put: "valid m \<Longrightarrow> valid (put (name a) (f a) m)"
  using put_entry unfolding valid_def by fast

lemma valid_subset: "valid m \<Longrightarrow> entries m' \<subseteq> entries m \<Longrightarrow> valid m'"
  unfolding valid_def by blast

end

section \<open>Salts and their names\<close>

lemma hex_char_inj: "hex_char c = hex_char d \<Longrightarrow> c = d"
  by (auto simp: hex_char_def split: if_splits)

lemma saltKey_inj: "saltKey a = saltKey b \<Longrightarrow> a = b"
proof (induction a arbitrary: b)
  case Nil
  then show ?case
    by (cases b) (simp_all add: saltKey_def)
next
  case (Cons x a)
  then obtain y b' where b: "b = y # b'"
    by (cases b) (auto simp: saltKey_def)
  have "unat x div 16 = unat y div 16" "unat x mod 16 = unat y mod 16" "saltKey a = saltKey b'"
    using Cons.prems by (auto simp: b saltKey_def dest: hex_char_inj)
  then have "x = y"
    by (metis div_mult_mod_eq word_eq_iff_unsigned)
  then show ?case
    using Cons.IH \<open>saltKey a = saltKey b'\<close> by (simp add: b)
qed

lemma set_evict_oldest: "set (evict_oldest xs) \<subseteq> set xs"
  by (simp add: evict_oldest_def set_drop_subset)

lemma length_evict_oldest: "length (evict_oldest xs) \<le> REMEMBER_MAX"
  by (simp add: evict_oldest_def)

text \<open>The remembered keys of one passphrase, and the cache of a batch.\<close>

interpretation kept_keys: memo "wc_derive W p" saltKey map_of "\<lambda>k v m. evict_oldest (AList.update k v m)" set
  for W :: "'k webcrypto" and p
  using set_evict_oldest set_update by unfold_locales (fast dest: map_of_SomeD saltKey_inj)+

interpretation batch: memo "wc_derive W p" saltKey map_of "\<lambda>k v m. m @ [(k, v)]" set
  for W :: "'k webcrypto" and p
  by unfold_locales (auto dest: map_of_SomeD saltKey_inj)

section \<open>The invariant of the keys\<close>

definition spare_ok :: "'k webcrypto \<Rightarrow> 'k spare \<Rightarrow> bool" where
  "spare_ok W s \<longleftrightarrow> sk_key s = wc_derive W (sk_passphrase s) (sk_salt s) \<and> length (sk_salt s) = SALT_LENGTH"

definition keyring_ok :: "'k webcrypto \<Rightarrow> 'k keyring \<Rightarrow> bool" where
  "keyring_ok W R \<longleftrightarrow>
     (case kr_for R of
        None \<Rightarrow> kr_remembered R = [] \<and> kr_spares R = []
      | Some p \<Rightarrow> MIN_REMEMBERED_PASSPHRASE \<le> length p \<and> kept_keys.valid W p (kr_remembered R)
          \<and> (\<forall>s \<in> set (kr_spares R). sk_passphrase s = p \<and> spare_ok W s))
     \<and> length (kr_remembered R) \<le> REMEMBER_MAX \<and> length (kr_spares R) \<le> SPARE_KEYS"

lemma valid_Nil [simp]: "kept_keys.valid W p []"
  by (simp add: kept_keys.valid_def)

lemma new_ok: "keyring_ok W new_keyring"
  by (simp add: keyring_ok_def new_keyring_def)

lemma remember_ok: "keyring_ok W R \<Longrightarrow> keyring_ok W (rememberDerivedKeysFor key R)"
  by (auto simp: keyring_ok_def rememberDerivedKeysFor_def)

lemma forget_ok: "keyring_ok W (forgetDerivedKeys R)"
  by (simp add: keyring_ok_def forgetDerivedKeys_def)

lemma move_to_end:
  "map_of m k = Some v \<Longrightarrow> set (AList.delete k m @ [(k, v)]) \<subseteq> set m \<and> length (AList.delete k m @ [(k, v)]) \<le> length m"
proof -
  assume k: "map_of m k = Some v"
  then have "(k, v) \<in> set m"
    by (rule map_of_SomeD)
  moreover from this have "length (AList.delete k m) < length m"
    by (auto simp: AList.delete_eq intro: length_filter_less)
  ultimately show ?thesis
    using set_delete [of k m] by auto
qed

text \<open>A key asked for is the derived one, and the ring stays in order.\<close>

lemma rememberedKey_ok:
  assumes "keyring_ok W R"
  shows "fst (rememberedKey W p salt R) = wc_derive W p salt \<and> keyring_ok W (snd (rememberedKey W p salt R))
    \<and> kr_spares (snd (rememberedKey W p salt R)) = kr_spares R \<and> kr_drawn (snd (rememberedKey W p salt R)) = kr_drawn R"
proof (cases "kr_for R = Some p")
  case True
  have v: "kept_keys.valid W p (kr_remembered R)"
    using assms True by (simp add: keyring_ok_def)
  show ?thesis
  proof (cases "map_of (kr_remembered R) (saltKey salt)")
    case None
    show ?thesis
      using assms True None kept_keys.valid_put [OF v, of salt] length_evict_oldest
      by (simp add: rememberedKey_def keyring_ok_def)
  next
    case (Some key)
    then have "key = wc_derive W p salt"
      using kept_keys.valid_get [OF v] by blast
    then show ?thesis
      using assms True Some move_to_end [OF Some] kept_keys.valid_subset [OF v]
      by (auto simp: rememberedKey_def keyring_ok_def simp del: set_append)
  qed
qed (use assms in \<open>simp add: rememberedKey_def\<close>)

lemma getRandom_eq:
  "getRandomValues W n R = (b, R') \<Longrightarrow> b = wc_random W (kr_drawn R) n \<and> R' = R\<lparr>kr_drawn := kr_drawn R + 1\<rparr>"
  by (auto simp: getRandomValues_def)

lemma keyring_drawn [simp]: "keyring_ok W (R\<lparr>kr_drawn := n\<rparr>) = keyring_ok W R"
  by (cases "kr_for R") (simp_all add: keyring_ok_def)

lemma spareKey_eq:
  assumes "lawful W" "spareKey W p R = (s, R')"
  shows "R' = R\<lparr>kr_drawn := kr_drawn R + 1\<rparr> \<and> sk_passphrase s = p \<and> spare_ok W s
    \<and> sk_salt s = wc_random W (kr_drawn R) SALT_LENGTH"
  using assms by (auto simp: spareKey_def spare_ok_def lawful_def dest!: getRandom_eq split: prod.splits)

text \<open>Refilling keeps what holds of a ring while one spare key at a time is added.\<close>

lemma refill_keeps:
  assumes "lawful W" "I R"
    and step: "\<And>R s. I R \<Longrightarrow> kr_for R = Some p \<Longrightarrow> length (kr_spares R) < SPARE_KEYS \<Longrightarrow> sk_passphrase s = p \<Longrightarrow> spare_ok W s \<Longrightarrow>
      sk_salt s = wc_random W (kr_drawn R) SALT_LENGTH \<Longrightarrow> I (R\<lparr>kr_drawn := kr_drawn R + 1, kr_spares := kr_spares R @ [s]\<rparr>)"
  shows "I (refillSpareKeys W p R)"
  using assms(2)
proof (induction "SPARE_KEYS - length (kr_spares R)" arbitrary: R)
  case 0
  then show ?case
    by (simp add: refillSpareKeys.simps)
next
  case (Suc n)
  obtain s R' where s: "spareKey W p R = (s, R')"
    by (cases "spareKey W p R")
  note new = spareKey_eq [OF assms(1) s]
  have less: "length (kr_spares R) < SPARE_KEYS"
    using Suc.hyps(2) by simp
  show ?case
  proof (cases "kr_for R = Some p")
    case True
    then have "I (R'\<lparr>kr_spares := kr_spares R @ [s]\<rparr>)"
      using step [OF Suc.prems True] Suc.hyps(2) new by simp
    then have "I (refillSpareKeys W p (R'\<lparr>kr_spares := kr_spares R @ [s]\<rparr>))"
      using Suc.hyps by (intro Suc.hyps(1)) auto
    then show ?thesis
      using True less s by (simp add: refillSpareKeys.simps [of W p R])
  qed (use Suc.prems in \<open>simp add: refillSpareKeys.simps\<close>)
qed

text \<open>A law of keyrings: a predicate that the moves of a ring keep. The first one is \<open>keyring_ok\<close>.\<close>

lemma refill_ok: "lawful W \<Longrightarrow> keyring_ok W R \<Longrightarrow> keyring_ok W (refillSpareKeys W p R)"
  by (erule refill_keeps [where I = "keyring_ok W"]) (auto simp: keyring_ok_def)

lemma take_ok:
  assumes "lawful W" "keyring_ok W R" "takeSpareKey W p R = (r, R')"
  shows "keyring_ok W R' \<and> (\<forall>s. r = Some s \<longrightarrow> sk_passphrase s = p \<and> spare_ok W s)"
proof (cases "kr_for R = Some p")
  case True
  have for_p: "\<forall>s \<in> set (kr_spares R). sk_passphrase s = p \<and> spare_ok W s"
    using assms(2) True by (simp add: keyring_ok_def)
  show ?thesis
  proof (cases "kr_spares R")
    case Nil
    obtain s R1 where s: "spareKey W p R = (s, R1)"
      by (cases "spareKey W p R")
    have "keyring_ok W R1"
      using assms(2) spareKey_eq [OF assms(1) s] by simp
    then show ?thesis
      using assms(3) True Nil s spareKey_eq [OF assms(1) s] refill_ok [OF assms(1)] by (auto simp: takeSpareKey_def)
  next
    case (Cons s rest)
    have "keyring_ok W (R\<lparr>kr_spares := rest\<rparr>)"
      using assms(2) Cons True by (simp add: keyring_ok_def)
    then show ?thesis
      using assms(3) True Cons for_p refill_ok [OF assms(1)] by (auto simp: takeSpareKey_def)
  qed
qed (use assms in \<open>auto simp: takeSpareKey_def\<close>)

lemma taken_ok:
  assumes "keyring_ok W R" "sk_passphrase s = p" "spare_ok W s" "takenSpareKey p s R = (r, R')"
  shows "keyring_ok W R' \<and> kr_spares R' = kr_spares R \<and> kr_drawn R' = kr_drawn R
    \<and> (\<forall>salt key. r = Some (salt, key) \<longrightarrow> salt = sk_salt s \<and> length salt = SALT_LENGTH \<and> wc_derive W p salt = Some key)"
proof (cases "sk_key s")
  case (Some key)
  then have key: "wc_derive W p (sk_salt s) = Some key"
    using assms(2,3) by (simp add: spare_ok_def)
  have "keyring_ok W (R\<lparr>kr_remembered := evict_oldest (AList.update (saltKey (sk_salt s)) (Some key) (kr_remembered R))\<rparr>)"
    if "kr_for R = Some p"
    using that assms(1) kept_keys.valid_put [of W p "kr_remembered R" "sk_salt s"] length_evict_oldest
    by (simp add: keyring_ok_def key)
  then show ?thesis
    using assms Some key by (auto simp: takenSpareKey_def spare_ok_def)
qed (use assms in \<open>auto simp: takenSpareKey_def\<close>)

lemma freshSaltKey_eq:
  assumes "lawful W" "freshSaltKey W p R = (r, R')"
  shows "R' = R\<lparr>kr_drawn := kr_drawn R + 1\<rparr>
    \<and> (\<forall>salt key. r = Some (salt, key) \<longrightarrow> salt = wc_random W (kr_drawn R) SALT_LENGTH \<and> length salt = SALT_LENGTH
        \<and> wc_derive W p salt = Some key)"
  using assms by (auto simp: freshSaltKey_def lawful_def dest!: getRandom_eq split: prod.splits)

section \<open>What is sealed opens\<close>

definition opens :: "'k webcrypto \<Rightarrow> ustr \<Rightarrow> ustr \<Rightarrow> ustr \<Rightarrow> bool" where
  "opens W p t e \<longleftrightarrow> (\<exists>salt key iv. length salt = SALT_LENGTH \<and> length iv = IV_LENGTH \<and> wc_derive W p salt = Some key
     \<and> e = btoa (salt @ iv @ aesEncrypt W t key iv))"

lemma opens_decrypt:
  assumes "lawful W" "keyring_ok W R" "opens W p t e" "codes W t"
  shows "fst (decryptSecret W e p R) = Some t \<and> isEncrypted e"
proof -
  obtain salt key iv where e: "length salt = SALT_LENGTH" "length iv = IV_LENGTH" "wc_derive W p salt = Some key"
      "e = btoa (salt @ iv @ aesEncrypt W t key iv)"
    using assms(3) by (auto simp: opens_def)
  have "16 \<le> length (aesEncrypt W t key iv)" "aesDecrypt W iv (aesEncrypt W t key iv) key = Some t"
    using assms(1,4) by (simp_all add: lawful_def aesEncrypt_def aesDecrypt_def codes_def)
  then show ?thesis
    using rememberedKey_ok [OF assms(2), of p salt] e
    by (auto simp: decryptSecret_def isEncrypted_def atob_btoa split: prod.splits)
qed

lemma sealed_opens:
  assumes "lawful W" "wc_derive W p salt = Some key" "length salt = SALT_LENGTH" "sealed_under W salt key t R = (e, R')"
  shows "opens W p t e \<and> R' = R\<lparr>kr_drawn := kr_drawn R + 1\<rparr>"
proof -
  let ?iv = "wc_random W (kr_drawn R) IV_LENGTH"
  have "e = btoa (salt @ ?iv @ aesEncrypt W t key ?iv)" "R' = R\<lparr>kr_drawn := kr_drawn R + 1\<rparr>"
    using assms(4) by (auto simp: sealed_under_def dest!: getRandom_eq split: prod.splits)
  moreover have "length ?iv = IV_LENGTH"
    using assms(1) by (simp add: lawful_def)
  ultimately show ?thesis
    using assms(2,3) unfolding opens_def by blast
qed

lemma batch_opens:
  assumes "lawful W" "wc_derive W p salt = Some key" "length salt = SALT_LENGTH"
    "encryptBatchUnder W ts (salt, key) R = (es, R')"
  shows "list_all2 (opens W p) ts es \<and> (\<exists>n. R' = R\<lparr>kr_drawn := kr_drawn R + n\<rparr>)"
  using assms(4)
proof (induction ts arbitrary: R es R')
  case Nil
  then show ?case
    by (auto intro: exI [of _ 0])
next
  case (Cons t ts)
  obtain e R1 es' where e: "sealed_under W salt key t R = (e, R1)" "encryptBatchUnder W ts (salt, key) R1 = (es', R')" "es = e # es'"
    using Cons.prems by (auto split: prod.splits)
  obtain n where "R' = R1\<lparr>kr_drawn := kr_drawn R1 + n\<rparr>" "list_all2 (opens W p) ts es'"
    using Cons.IH [OF e(2)] by auto
  then show ?case
    using sealed_opens [OF assms(1-3) e(1)] e(3) by (auto intro!: exI [of _ "Suc n"])
qed

section \<open>Writers\<close>

text \<open>What a writer may do to a ring, and what it gives: a salt drawn by it or handed to it, and texts that open.\<close>

definition writes :: "'k webcrypto \<Rightarrow> ustr \<Rightarrow> 'k keyring \<Rightarrow> byte list set \<Rightarrow> (byte list \<times> (ustr \<times> ustr) list) option \<Rightarrow> 'k keyring \<Rightarrow> bool" where
  "writes W p R handed r R' \<longleftrightarrow> keyring_ok W R' \<and> kr_spares R' = kr_spares R \<and> kr_drawn R \<le> kr_drawn R'
     \<and> (\<forall>salt rows. r = Some (salt, rows) \<longrightarrow> (\<forall>(t, e) \<in> set rows. opens W p t e)
          \<and> (salt \<in> handed \<or> salt = wc_random W (kr_drawn R) SALT_LENGTH \<and> kr_drawn R < kr_drawn R'))"

abbreviation one_row :: "ustr \<Rightarrow> byte list \<times> ustr \<Rightarrow> byte list \<times> (ustr \<times> ustr) list" where
  "one_row t \<equiv> \<lambda>(salt, e). (salt, [(t, e)])"

abbreviation all_rows :: "ustr list \<Rightarrow> byte list \<times> ustr list \<Rightarrow> byte list \<times> (ustr \<times> ustr) list" where
  "all_rows ts \<equiv> \<lambda>(salt, es). (salt, zip ts es)"

lemma zip_opens: "list_all2 (opens W p) ts es \<Longrightarrow> (t, e) \<in> set (zip ts es) \<Longrightarrow> opens W p t e"
  by (auto simp: list_all2_iff)

lemma under_writes:
  assumes "lawful W" "keyring_ok W R" "wc_derive W p salt = Some key" "length salt = SALT_LENGTH"
  shows "sealed_under W salt key t R = (e, R') \<Longrightarrow> writes W p R {salt} (Some (salt, [(t, e)])) R'"
    "encryptBatchUnder W ts (salt, key) R = (es, R') \<Longrightarrow> writes W p R {salt} (Some (salt, zip ts es)) R'"
  using sealed_opens [OF assms(1,3,4)] batch_opens [OF assms(1,3,4)] assms(2) zip_opens
  by (fastforce simp: writes_def)+

lemma writes_after_draw:
  assumes "writes W p (R\<lparr>kr_drawn := kr_drawn R + 1\<rparr>) {salt} r R'" "salt = wc_random W (kr_drawn R) SALT_LENGTH"
    and "\<forall>s rows. r = Some (s, rows) \<longrightarrow> s = salt"
  shows "writes W p R {} r R'"
  using assms by (auto simp: writes_def)

lemma encryptSecret_writes:
  assumes "lawful W" "keyring_ok W R" "encryptSecret W t p R = (r, R')"
  shows "writes W p R {} (map_option (one_row t) r) R'"
proof (cases "freshSaltKey W p R")
  case (Pair sk R1)
  note fresh = freshSaltKey_eq [OF assms(1) Pair]
  show ?thesis
  proof (cases sk)
    case None
    then show ?thesis
      using assms fresh Pair by (auto simp: encryptSecret_def writes_def)
  next
    case (Some x)
    obtain salt key where x: "x = (salt, key)"
      by fastforce
    obtain e where e: "sealed_under W salt key t R1 = (e, R')" "r = Some (salt, e)"
      using assms(3) Pair Some x by (auto simp: encryptSecret_def split: prod.splits)
    then show ?thesis
      using under_writes(1) [OF assms(1) _ _ _ e(1), of p] fresh assms(2) Some x
      by (auto intro!: writes_after_draw)
  qed
qed

lemma encryptBatch_writes:
  assumes "lawful W" "keyring_ok W R" "ts \<noteq> []" "encryptSecretsBatch W ts p R = (r, R')"
  shows "writes W p R {} (map_option (all_rows ts) r) R'"
proof (cases "freshSaltKey W p R")
  case (Pair sk R1)
  note fresh = freshSaltKey_eq [OF assms(1) Pair]
  show ?thesis
  proof (cases sk)
    case None
    then show ?thesis
      using assms fresh Pair by (auto simp: encryptSecretsBatch_def writes_def)
  next
    case (Some x)
    obtain salt key where x: "x = (salt, key)"
      by fastforce
    obtain es where e: "encryptBatchUnder W ts (salt, key) R1 = (es, R')" "r = Some (salt, es)"
      using assms(3,4) Pair Some x by (auto simp: encryptSecretsBatch_def split: prod.splits)
    then show ?thesis
      using under_writes(2) [OF assms(1) _ _ _ e(1), of p] fresh assms(2) Some x
      by (auto intro!: writes_after_draw)
  qed
qed

text \<open>A writer that waited for its spare key writes under that key, or under a fresh one.\<close>

lemma writes_more:
  "writes W p R1 A r R' \<Longrightarrow> A \<subseteq> B \<Longrightarrow> kr_spares R1 = kr_spares R \<Longrightarrow> kr_drawn R1 = kr_drawn R \<Longrightarrow> writes W p R B r R'"
  by (auto simp: writes_def)

lemma ahead_writes:
  assumes "lawful W" "keyring_ok W R" "sk_passphrase s = p" "spare_ok W s"
  shows "finishAhead W t p s R = (r, R') \<Longrightarrow> writes W p R {sk_salt s} (map_option (one_row t) r) R'"
    and "finishBatchAhead W ts p s R = (rs, R') \<Longrightarrow> ts \<noteq> [] \<Longrightarrow> writes W p R {sk_salt s} (map_option (all_rows ts) rs) R'"
proof -
  obtain sk R1 where taken: "takenSpareKey p s R = (sk, R1)"
    by (cases "takenSpareKey p s R")
  note ok = taken_ok [OF assms(2-4) taken]
  then have ring: "keyring_ok W R1" "kr_spares R1 = kr_spares R" "kr_drawn R1 = kr_drawn R"
    by simp_all
  show "writes W p R {sk_salt s} (map_option (one_row t) r) R'" if f: "finishAhead W t p s R = (r, R')"
  proof (cases sk)
    case None
    then show ?thesis
      using f taken encryptSecret_writes [OF assms(1) ring(1)] writes_more [OF _ _ ring(2,3)]
      by (fastforce simp: finishAhead_def)
  next
    case (Some x)
    obtain salt key where x: "x = (salt, key)"
      by fastforce
    then show ?thesis
      using f taken Some ok under_writes(1) [OF assms(1) ring(1)] writes_more [OF _ _ ring(2,3)]
      by (fastforce simp: finishAhead_def split: prod.splits)
  qed
  show "writes W p R {sk_salt s} (map_option (all_rows ts) rs) R'" if f: "finishBatchAhead W ts p s R = (rs, R')" "ts \<noteq> []"
  proof (cases sk)
    case None
    then show ?thesis
      using f taken encryptBatch_writes [OF assms(1) ring(1) f(2)] writes_more [OF _ _ ring(2,3)]
      by (fastforce simp: finishBatchAhead_def)
  next
    case (Some x)
    obtain salt key where x: "x = (salt, key)"
      by fastforce
    then show ?thesis
      using f taken Some ok under_writes(2) [OF assms(1) ring(1)] writes_more [OF _ _ ring(2,3)]
      by (fastforce simp: finishBatchAhead_def split: prod.splits)
  qed
qed

section \<open>A device at work\<close>

text \<open>
  The keys of a running app with its history: the spare keys handed to writers that still wait for them,
  the salts of the writes made, and every row with its passphrase and text. Locks, unlocks, reads
  and the halves of writers come in any order.
\<close>

record 'k vault =
  va_ring :: "'k keyring"
  va_taken :: "(ustr \<times> 'k spare) list"
  va_used :: "byte list list"
  va_rows :: "(ustr \<times> ustr \<times> ustr) list"

definition new_vault :: "'k vault" where
  "new_vault = \<lparr>va_ring = new_keyring, va_taken = [], va_used = [], va_rows = []\<rparr>"

definition stored :: "ustr \<Rightarrow> (byte list \<times> (ustr \<times> ustr) list) option \<Rightarrow> 'k keyring \<Rightarrow> 'k vault \<Rightarrow> 'k vault" where
  "stored p r R v =
     (case r of
        None \<Rightarrow> v\<lparr>va_ring := R\<rparr>
      | Some (salt, rows) \<Rightarrow> v\<lparr>va_ring := R, va_used := salt # va_used v, va_rows := map (Pair p) rows @ va_rows v\<rparr>)"

inductive vault_step :: "'k webcrypto \<Rightarrow> 'k vault \<Rightarrow> 'k vault \<Rightarrow> bool" for W where
  unlocked: "vault_step W v (v\<lparr>va_ring := rememberDerivedKeysFor key (va_ring v)\<rparr>)"
| locked: "vault_step W v (v\<lparr>va_ring := forgetDerivedKeys (va_ring v)\<rparr>)"
| failed: "vault_step W v (v\<lparr>va_ring := derivation_failed name (va_ring v)\<rparr>)"
| read: "vault_step W v (v\<lparr>va_ring := snd (decryptSecret W e p (va_ring v))\<rparr>)"
| read_batch: "vault_step W v (v\<lparr>va_ring := snd (decryptSecretsBatch W es p (va_ring v))\<rparr>)"
| wrote: "vault_step W v (stored p (map_option (one_row t) r) R v)" if "encryptSecret W t p (va_ring v) = (r, R)"
| wrote_batch: "vault_step W v (stored p (map_option (all_rows ts) r) R v)"
    if "encryptSecretsBatch W ts p (va_ring v) = (r, R)" "ts \<noteq> []"
| taken: "vault_step W v (v\<lparr>va_ring := R, va_taken := (p, s) # va_taken v\<rparr>)"
    if "takeSpareKey W p (va_ring v) = (Some s, R)"
| wrote_ahead: "vault_step W v ((stored p (map_option (one_row t) r) R v)\<lparr>va_taken := remove1 (p, s) (va_taken v)\<rparr>)"
    if "(p, s) \<in> set (va_taken v)" "finishAhead W t p s (va_ring v) = (r, R)"
| wrote_batch_ahead: "vault_step W v ((stored p (map_option (all_rows ts) r) R v)\<lparr>va_taken := remove1 (p, s) (va_taken v)\<rparr>)"
    if "(p, s) \<in> set (va_taken v)" "finishBatchAhead W ts p s (va_ring v) = (r, R)" "ts \<noteq> []"

lemma failed_ok:
  assumes "keyring_ok W R"
  shows "keyring_ok W (derivation_failed name R) \<and> kr_spares (derivation_failed name R) = kr_spares R
    \<and> kr_drawn (derivation_failed name R) = kr_drawn R"
proof (cases "map_of (kr_remembered R) name = Some None")
  case True
  have "length (AList.delete name (kr_remembered R)) \<le> length (kr_remembered R)"
    by (simp add: AList.delete_eq)
  then show ?thesis
    using assms True set_delete [of name "kr_remembered R"] kept_keys.valid_subset
    by (auto simp: derivation_failed_def keyring_ok_def split: option.splits)
qed (use assms in \<open>simp add: derivation_failed_def\<close>)

text \<open>Reading moves keys about, nothing else.\<close>

lemma decrypt_ok:
  assumes "keyring_ok W R"
  shows "keyring_ok W (snd (decryptSecret W e p R)) \<and> kr_spares (snd (decryptSecret W e p R)) = kr_spares R
    \<and> kr_drawn (snd (decryptSecret W e p R)) = kr_drawn R"
  using rememberedKey_ok [OF assms] assms
  by (auto simp: decryptSecret_def split: option.splits prod.splits) (metis snd_conv)+

lemma decrypt_value:
  "keyring_ok W R \<Longrightarrow> fst (decryptSecret W e p R) = fst (decryptSecret W e p new_keyring)"
  using rememberedKey_ok [of W R p] rememberedKey_ok [OF new_ok, of W p]
  by (auto simp: decryptSecret_def split: option.splits prod.splits) (metis fst_conv)+

lemma row_value:
  assumes "keyring_ok W R" "batch.valid W p cache" "decrypt_row W p e (cache, R) = (r, cache', R')"
  shows "r = fst (decryptSecret W e p new_keyring) \<and> keyring_ok W R' \<and> batch.valid W p cache'
    \<and> kr_spares R' = kr_spares R \<and> kr_drawn R' = kr_drawn R"
proof (cases "\<exists>c. atob e = Some c \<and> SALT_LENGTH + IV_LENGTH + 16 \<le> length c")
  case True
  then obtain c where c: "atob e = Some c" "SALT_LENGTH + IV_LENGTH + 16 \<le> length c"
    by auto
  let ?salt = "take SALT_LENGTH c"
  have plain: "fst (decryptSecret W e p new_keyring)
      = Option.bind (wc_derive W p ?salt) (aesDecrypt W (take IV_LENGTH (drop SALT_LENGTH c)) (drop (SALT_LENGTH + IV_LENGTH) c))"
    using c rememberedKey_ok [OF new_ok, of W p ?salt] by (auto simp: decryptSecret_def split: prod.splits)
  show ?thesis
  proof (cases "map_of cache (saltKey ?salt)")
    case None
    then show ?thesis
      using assms c plain rememberedKey_ok [OF assms(1), of p ?salt] batch.valid_put [OF assms(2), of ?salt]
      by (auto simp: decrypt_row_def Let_def split: prod.splits)
  next
    case (Some key)
    then have "key = wc_derive W p ?salt"
      using batch.valid_get [OF assms(2)] by blast
    then show ?thesis
      using assms c plain Some by (auto simp: decrypt_row_def Let_def)
  qed
next
  case False
  then show ?thesis
    using assms by (cases "atob e") (auto simp: decrypt_row_def decryptSecret_def)
qed

lemma rows_value:
  assumes "keyring_ok W R" "batch.valid W p cache" "decrypt_rows W p es (cache, R) = (rs, R')"
  shows "rs = map (\<lambda>e. fst (decryptSecret W e p new_keyring)) es \<and> keyring_ok W R' \<and> kr_spares R' = kr_spares R
    \<and> kr_drawn R' = kr_drawn R"
  using assms
proof (induction es arbitrary: cache R rs)
  case (Cons e es)
  obtain r cache' R1 where r: "decrypt_row W p e (cache, R) = (r, cache', R1)"
    by (cases "decrypt_row W p e (cache, R)") auto
  obtain rs' where rs: "decrypt_rows W p es (cache', R1) = (rs', R')" "rs = r # rs'"
    using Cons.prems(3) r by (auto split: prod.splits)
  show ?case
    using row_value [OF Cons.prems(1,2) r] Cons.IH [OF _ _ rs(1)] rs(2) by simp
qed simp

lemma batch_value:
  assumes "keyring_ok W R" "decryptSecretsBatch W es p R = (rs, R')"
  shows "rs = map (\<lambda>e. fst (decryptSecret W e p new_keyring)) es \<and> keyring_ok W R' \<and> kr_spares R' = kr_spares R
    \<and> kr_drawn R' = kr_drawn R"
  using rows_value [OF assms(1), of p "[]" es rs R'] assms(2)
  by (simp add: decryptSecretsBatch_def batch.valid_def)

text \<open>Whatever runs, the ring is in order, every waiting spare key is a derived one, and every row opens.\<close>

definition vault_ok :: "'k webcrypto \<Rightarrow> 'k vault \<Rightarrow> bool" where
  "vault_ok W v \<longleftrightarrow> keyring_ok W (va_ring v)
     \<and> (\<forall>(p, s) \<in> set (va_taken v). sk_passphrase s = p \<and> spare_ok W s)
     \<and> (\<forall>(p, t, e) \<in> set (va_rows v). opens W p t e)"

lemma stored_ok:
  "writes W p (va_ring v) A r R \<Longrightarrow> vault_ok W v \<Longrightarrow> vault_ok W (stored p r R v)"
  by (cases r) (auto simp: writes_def vault_ok_def stored_def)

lemma stored_taken [simp]: "va_taken (stored p r R v) = va_taken v"
  by (simp add: stored_def split: option.split)

lemma untaken_ok: "vault_ok W v \<Longrightarrow> vault_ok W (v\<lparr>va_taken := remove1 x (va_taken v)\<rparr>)"
  using set_remove1_subset [of x "va_taken v"] by (auto simp: vault_ok_def)

lemma vault_step_ok:
  assumes "lawful W" "vault_step W v v'" "vault_ok W v"
  shows "vault_ok W v'"
proof -
  have ring: "keyring_ok W (va_ring v)"
    using assms(3) by (simp add: vault_ok_def)
  show ?thesis
    using assms(2)
  proof cases
    case unlocked
    then show ?thesis
      using assms(3) remember_ok by (auto simp: vault_ok_def)
  next
    case locked
    then show ?thesis
      using assms(3) forget_ok by (auto simp: vault_ok_def)
  next
    case failed
    then show ?thesis
      using assms(3) failed_ok by (auto simp: vault_ok_def)
  next
    case read
    then show ?thesis
      using assms(3) decrypt_ok by (auto simp: vault_ok_def)
  next
    case (read_batch es p)
    then show ?thesis
      using assms(3) batch_value [of W "va_ring v" es p] by (cases "decryptSecretsBatch W es p (va_ring v)") (auto simp: vault_ok_def)
  next
    case (wrote t p r R)
    then show ?thesis
      using wrote(1) stored_ok [OF encryptSecret_writes [OF assms(1) ring wrote(2)] assms(3)] by simp
  next
    case (wrote_batch ts p r R)
    then show ?thesis
      using wrote_batch(1) stored_ok [OF encryptBatch_writes [OF assms(1) ring wrote_batch(3,2)] assms(3)] by simp
  next
    case (taken p s R)
    then show ?thesis
      using assms(3) take_ok [OF assms(1) ring taken(2)] by (auto simp: vault_ok_def)
  next
    case (wrote_ahead p s t r R)
    then have "writes W p (va_ring v) {sk_salt s} (map_option (one_row t) r) R"
      using assms(3) ahead_writes(1) [OF assms(1) ring] by (auto simp: vault_ok_def)
    then show ?thesis
      using wrote_ahead(1) untaken_ok [OF stored_ok [OF _ assms(3)]] by (metis stored_taken)
  next
    case (wrote_batch_ahead p s ts r R)
    then have "writes W p (va_ring v) {sk_salt s} (map_option (all_rows ts) r) R"
      using assms(3) ahead_writes(2) [OF assms(1) ring] by (auto simp: vault_ok_def)
    then show ?thesis
      using wrote_batch_ahead(1) untaken_ok [OF stored_ok [OF _ assms(3)]] by (metis stored_taken)
  qed
qed

lemma vault_run_ok: "(vault_step W)\<^sup>*\<^sup>* new_vault v \<Longrightarrow> lawful W \<Longrightarrow> vault_ok W v"
  by (induction rule: rtranclp_induct) (auto simp: vault_step_ok, simp add: vault_ok_def new_vault_def new_ok)

section \<open>A salt belongs to one write\<close>

text \<open>The first \<open>N\<close> random salts do not repeat.\<close>

definition salts_differ :: "'k webcrypto \<Rightarrow> nat \<Rightarrow> bool" where
  "salts_differ W N \<longleftrightarrow> inj_on (\<lambda>i. wc_random W i SALT_LENGTH) {..<N}"

text \<open>While at most \<open>N\<close> draws were made, the salts given out, in a list, and those of the spare keys were drawn, each once.\<close>

definition once :: "'k webcrypto \<Rightarrow> nat \<Rightarrow> byte list list \<Rightarrow> 'k keyring \<Rightarrow> bool" where
  "once W N xs R \<longleftrightarrow> (kr_drawn R \<le> N \<longrightarrow> distinct (xs @ map sk_salt (kr_spares R))
     \<and> (\<forall>s \<in> set (xs @ map sk_salt (kr_spares R)). \<exists>i < kr_drawn R. s = wc_random W i SALT_LENGTH))"

lemma distinct_submset:
  assumes "mset ys \<subseteq># mset xs" "distinct xs"
  shows "distinct ys"
proof -
  have "count (mset ys) a = (if a \<in> set ys then 1 else 0)" for a
  proof -
    have "count (mset xs) a \<le> 1"
      using assms(2) by (simp add: distinct_count_atmost_1)
    then have "count (mset ys) a \<le> 1"
      using mset_subset_eq_count [OF assms(1), of a] by linarith
    moreover have "a \<in> set ys \<Longrightarrow> 1 \<le> count (mset ys) a" "a \<notin> set ys \<Longrightarrow> count (mset ys) a = 0"
      by (simp_all add: Suc_le_eq count_mset_0_iff)
    ultimately show ?thesis
      by (metis le_antisym)
  qed
  then show ?thesis
    by (simp add: distinct_count_atmost_1)
qed

lemma once_mset:
  assumes "once W N xs R" "mset (ys @ map sk_salt (kr_spares R')) \<subseteq># mset (xs @ map sk_salt (kr_spares R))" "kr_drawn R \<le> kr_drawn R'"
  shows "once W N ys R'"
proof -
  have "set (ys @ map sk_salt (kr_spares R')) \<subseteq> set (xs @ map sk_salt (kr_spares R))"
    using assms(2) by (metis mset_subset_eqD set_mset_mset subsetI)
  moreover have "distinct (ys @ map sk_salt (kr_spares R'))" if "kr_drawn R' \<le> N"
    using distinct_submset [OF assms(2)] assms(1,3) that by (simp add: once_def)
  ultimately show ?thesis
    using assms(1,3) unfolding once_def by (meson le_trans less_le_trans subsetD)
qed

lemma once_draw:
  assumes "salts_differ W N" "once W N xs R" "kr_spares R' = kr_spares R" "kr_drawn R < kr_drawn R'"
  shows "once W N (wc_random W (kr_drawn R) SALT_LENGTH # xs) R'"
proof (cases "kr_drawn R' \<le> N")
  case True
  then have o: "distinct (xs @ map sk_salt (kr_spares R))"
      "\<forall>s \<in> set (xs @ map sk_salt (kr_spares R)). \<exists>i < kr_drawn R. s = wc_random W i SALT_LENGTH"
    using assms(2,4) unfolding once_def by auto
  have "wc_random W (kr_drawn R) SALT_LENGTH \<notin> set (xs @ map sk_salt (kr_spares R))"
  proof
    assume "wc_random W (kr_drawn R) SALT_LENGTH \<in> set (xs @ map sk_salt (kr_spares R))"
    then obtain i where "i < kr_drawn R" "wc_random W (kr_drawn R) SALT_LENGTH = wc_random W i SALT_LENGTH"
      using o(2) by blast
    then show False
      using assms(1,4) True unfolding salts_differ_def by (metis inj_onD lessThan_iff less_le_trans less_trans nat_neq_iff)
  qed
  moreover have "\<exists>j < kr_drawn R'. s = wc_random W j SALT_LENGTH" if "\<exists>i < kr_drawn R. s = wc_random W i SALT_LENGTH" for s
    using that assms(4) less_trans by blast
  ultimately show ?thesis
    using o assms(3,4) unfolding once_def by auto
qed (simp add: once_def)

lemma once_take:
  assumes "lawful W" "salts_differ W N" "keyring_ok W R" "once W N xs R" "takeSpareKey W p R = (Some s, R')"
  shows "once W N (sk_salt s # xs) R'"
proof -
  have unlocked: "kr_for R = Some p"
    using assms(5) by (auto simp: takeSpareKey_def split: if_splits)
  have refill: "once W N ys (refillSpareKeys W p R1)" if "once W N ys R1" for ys R1
  proof (rule refill_keeps [where I = "once W N ys", OF assms(1) that])
    fix R2 :: "'a keyring" and x :: "'a spare"
    assume r: "once W N ys R2" "sk_salt x = wc_random W (kr_drawn R2) SALT_LENGTH"
    have "once W N (sk_salt x # ys) (R2\<lparr>kr_drawn := kr_drawn R2 + 1\<rparr>)"
      using once_draw [OF assms(2) r(1)] r(2) by simp
    then show "once W N ys (R2\<lparr>kr_drawn := kr_drawn R2 + 1, kr_spares := kr_spares R2 @ [x]\<rparr>)"
      by (rule once_mset) auto
  qed
  show ?thesis
  proof (cases "kr_spares R")
    case Nil
    obtain R1 where s: "spareKey W p R = (s, R1)" "R' = refillSpareKeys W p R1"
      using assms(5) unlocked Nil by (auto simp: takeSpareKey_def split: prod.splits)
    then have "once W N (sk_salt s # xs) R1"
      using once_draw [OF assms(2,4), of R1] spareKey_eq [OF assms(1) s(1)] by simp
    then show ?thesis
      using refill s(2) by blast
  next
    case (Cons x rest)
    then have "sk_passphrase x = p"
      using assms(3) unlocked by (simp add: keyring_ok_def)
    then have s: "s = x" "R' = refillSpareKeys W p (R\<lparr>kr_spares := rest\<rparr>)"
      using assms(5) unlocked Cons by (auto simp: takeSpareKey_def)
    have "once W N (sk_salt s # xs) (R\<lparr>kr_spares := rest\<rparr>)"
      using assms(4) by (rule once_mset) (auto simp: Cons s(1))
    then show ?thesis
      using refill s(2) by blast
  qed
qed

definition vault_salts :: "'k vault \<Rightarrow> byte list list" where
  "vault_salts v = va_used v @ map (sk_salt \<circ> snd) (va_taken v)"

text \<open>A writer that used a salt of its own, or the one handed to it, which is then no longer waiting.\<close>

lemma once_written:
  assumes "salts_differ W N" "once W N (handed @ xs) R" "writes W p R (set handed) r R'" "length handed \<le> 1"
  shows "once W N ((case r of None \<Rightarrow> [] | Some (salt, rows) \<Rightarrow> [salt]) @ xs) R'"
proof -
  have later: "kr_spares R' = kr_spares R" "kr_drawn R \<le> kr_drawn R'"
    using assms(3) by (simp_all add: writes_def)
  have dropped: "once W N xs R" and kept: "once W N (handed @ xs) R'"
    by (rule once_mset [OF assms(2)]; simp add: later)+
  show ?thesis
  proof (cases r)
    case None
    then show ?thesis
      using once_mset [OF dropped, of xs R'] later by simp
  next
    case (Some sr)
    obtain salt rows where sr: "sr = (salt, rows)"
      by fastforce
    have "salt \<in> set handed \<or> salt = wc_random W (kr_drawn R) SALT_LENGTH \<and> kr_drawn R < kr_drawn R'"
      using assms(3) Some sr by (auto simp: writes_def)
    then show ?thesis
    proof
      assume "salt \<in> set handed"
      then have "handed = [salt]"
        using assms(4) by (cases handed) auto
      then show ?thesis
        using kept Some sr by simp
    next
      assume "salt = wc_random W (kr_drawn R) SALT_LENGTH \<and> kr_drawn R < kr_drawn R'"
      then show ?thesis
        using once_draw [OF assms(1) dropped later(1)] Some sr by simp
    qed
  qed
qed

lemma vault_step_once:
  assumes "lawful W" "salts_differ W N" "vault_step W v v'" "vault_ok W v" "once W N (vault_salts v) (va_ring v)"
  shows "once W N (vault_salts v') (va_ring v')"
proof -
  have ring: "keyring_ok W (va_ring v)"
    using assms(4) by (simp add: vault_ok_def)
  have same: "once W N (vault_salts v) R" if "mset (map sk_salt (kr_spares R)) \<subseteq># mset (map sk_salt (kr_spares (va_ring v)))"
      "kr_drawn (va_ring v) \<le> kr_drawn R" for R
    by (rule once_mset [OF assms(5)]) (use that in simp_all)
  have plain: "once W N (vault_salts (stored p r R v)) (va_ring (stored p r R v))" if "writes W p (va_ring v) {} r R" for p r R
  proof -
    have "once W N ((case r of None \<Rightarrow> [] | Some (salt, rows) \<Rightarrow> [salt]) @ vault_salts v) R"
      using once_written [OF assms(2), of "[]" "vault_salts v" "va_ring v" p r R] assms(5) that by simp
    then show ?thesis
      by (cases r) (auto simp: stored_def vault_salts_def)
  qed
  have ahead: "once W N (vault_salts ((stored p r R v)\<lparr>va_taken := remove1 (p, s) (va_taken v)\<rparr>)) (va_ring (stored p r R v))"
    if "(p, s) \<in> set (va_taken v)" "writes W p (va_ring v) {sk_salt s} r R" for p s r R
  proof -
    let ?xs = "va_used v @ map (sk_salt \<circ> snd) (remove1 (p, s) (va_taken v))"
    have "mset (va_taken v) = add_mset (p, s) (mset (remove1 (p, s) (va_taken v)))"
      using that(1) by simp
    then have "mset (map (sk_salt \<circ> snd) (va_taken v)) = add_mset (sk_salt s) (mset (map (sk_salt \<circ> snd) (remove1 (p, s) (va_taken v))))"
      by (simp only: mset_map image_mset_add_mset comp_def snd_conv)
    then have "once W N ([sk_salt s] @ ?xs) (va_ring v)"
      by (intro once_mset [OF assms(5)]) (simp_all add: vault_salts_def)
    from once_written [OF assms(2) this, of p r R] that(2) show ?thesis
      by (cases r) (auto simp: stored_def vault_salts_def)
  qed
  show ?thesis
    using assms(3)
  proof cases
    case unlocked
    then show ?thesis
      using same by (auto simp: vault_salts_def rememberDerivedKeysFor_def)
  next
    case locked
    then show ?thesis
      using same by (auto simp: vault_salts_def forgetDerivedKeys_def)
  next
    case (failed name)
    then show ?thesis
      using same failed_ok [OF ring, of name] by (auto simp: vault_salts_def)
  next
    case (read e p)
    then show ?thesis
      using same decrypt_ok [OF ring, of e p] by (auto simp: vault_salts_def)
  next
    case (read_batch es p)
    then show ?thesis
      using same batch_value [OF ring, of es p] by (cases "decryptSecretsBatch W es p (va_ring v)") (auto simp: vault_salts_def)
  next
    case wrote
    then show ?thesis
      using plain encryptSecret_writes [OF assms(1) ring] by blast
  next
    case wrote_batch
    then show ?thesis
      using plain encryptBatch_writes [OF assms(1) ring] by blast
  next
    case (taken p s R)
    then show ?thesis
      using once_mset [OF once_take [OF assms(1,2) ring assms(5) taken(2)]] by (auto simp: vault_salts_def)
  next
    case (wrote_ahead p s t r R)
    then have "sk_passphrase s = p" "spare_ok W s"
      using assms(4) by (auto simp: vault_ok_def)
    then show ?thesis
      using wrote_ahead(1) ahead [OF wrote_ahead(2)] ahead_writes(1) [OF assms(1) ring _ _ wrote_ahead(3)] by simp
  next
    case (wrote_batch_ahead p s ts r R)
    then have "sk_passphrase s = p" "spare_ok W s"
      using assms(4) by (auto simp: vault_ok_def)
    then show ?thesis
      using wrote_batch_ahead(1) ahead [OF wrote_batch_ahead(2)] ahead_writes(2) [OF assms(1) ring _ _ wrote_batch_ahead(3,4)] by simp
  qed
qed

lemma vault_run_once:
  assumes "(vault_step W)\<^sup>*\<^sup>* new_vault v" "lawful W" "salts_differ W N"
  shows "once W N (vault_salts v) (va_ring v)"
  using assms(1)
proof (induction rule: rtranclp_induct)
  case base
  show ?case
    by (simp add: once_def vault_salts_def new_vault_def new_keyring_def)
next
  case (step v v')
  then show ?case
    using vault_step_once [OF assms(2,3)] vault_run_ok [OF _ assms(2)] by blast
qed

section \<open>A platform for the witnesses\<close>

text \<open>
  A cipher that only tags: the tag tells passphrases of different length apart. The coder writes each
  unit as so many ones and a zero; the random bytes count the draws.
\<close>

definition unary_code :: "ustr \<Rightarrow> byte list" where
  "unary_code t = concat (map (\<lambda>c. replicate c 1 @ [0]) t)"

fun unary_units :: "nat \<Rightarrow> byte list \<Rightarrow> ustr" where
  "unary_units n [] = []"
| "unary_units n (b # bs) = (if b = 0 then n # unary_units 0 bs else unary_units (n + 1) bs)"

lemma unary_units_code: "unary_units 0 (unary_code t) = t"
proof -
  have ones: "unary_units n (replicate c 1 @ 0 # bs) = (n + c) # unary_units 0 bs" for n c bs
    by (induction c arbitrary: n) auto
  show ?thesis
    by (induction t) (simp_all add: unary_code_def ones)
qed

definition cipher_tag :: "ustr \<times> byte list \<Rightarrow> byte list" where
  "cipher_tag k = replicate 15 0 @ [of_nat (length (fst k))]"

definition sample_crypto :: "(ustr \<times> byte list) webcrypto" where
  "sample_crypto = \<lparr>wc_derive = \<lambda>p salt. Some (p, salt), wc_seal = \<lambda>k iv p. cipher_tag k @ p,
     wc_open = \<lambda>k iv c. if take 16 c = cipher_tag k then Some (drop 16 c) else None,
     wc_encode = unary_code, wc_decode = unary_units 0, wc_random = \<lambda>i n. replicate n (of_nat i)\<rparr>"

lemma sample_lawful: "lawful sample_crypto"
  by (simp add: lawful_def sample_crypto_def cipher_tag_def)

lemma sample_salts_differ: "salts_differ sample_crypto 256"
proof -
  have "unat (of_nat i :: byte) = i" if "i < 256" for i
    using that by (simp add: unsigned_of_nat take_bit_eq_mod)
  then have "i = j" if "i < 256" "j < 256" "(of_nat i :: byte) = of_nat j" for i j :: nat
    using that by metis
  then show ?thesis
    by (auto simp: salts_differ_def inj_on_def sample_crypto_def SALT_LENGTH_def)
qed

definition unlock_key :: ustr where
  "unlock_key = hexes 32 97"

text \<open>Unlocked, a write begun, and the write finished while unlocked, or after a lock.\<close>

definition sample_unlocked :: "(ustr \<times> byte list) vault" where
  "sample_unlocked = new_vault\<lparr>va_ring := rememberDerivedKeysFor unlock_key new_keyring\<rparr>"

lemma sample_take:
  "takeSpareKey sample_crypto unlock_key (va_ring sample_unlocked) =
     (Some \<lparr>sk_passphrase = unlock_key, sk_salt = replicate 16 0, sk_key = Some (unlock_key, replicate 16 0)\<rparr>,
      \<lparr>kr_remembered = [], kr_for = Some unlock_key,
       kr_spares = map (\<lambda>i. \<lparr>sk_passphrase = unlock_key, sk_salt = replicate 16 (of_nat i), sk_key = Some (unlock_key, replicate 16 (of_nat i))\<rparr>)
         [1, 2, 3, 4], kr_drawn = 5\<rparr>)"
  by (simp add: sample_unlocked_def new_vault_def new_keyring_def rememberDerivedKeysFor_def takeSpareKey_def spareKey_def
      getRandomValues_def sample_crypto_def SALT_LENGTH_def refillSpareKeys.simps SPARE_KEYS_def Let_def
      MIN_REMEMBERED_PASSPHRASE_def) (simp add: unlock_key_def hexes_def)

definition sample_write :: "ustr \<Rightarrow> bool \<Rightarrow> (ustr \<times> byte list) vault" where
  "sample_write t lock =
     (let (s, R) = takeSpareKey sample_crypto unlock_key (va_ring sample_unlocked);
          v = sample_unlocked\<lparr>va_ring := if lock then forgetDerivedKeys R else R, va_taken := [(unlock_key, the s)]\<rparr>;
          (r, R') = finishAhead sample_crypto t unlock_key (the s) (va_ring v)
      in (stored unlock_key (map_option (one_row t) r) R' v)\<lparr>va_taken := []\<rparr>)"

lemma sample_write_reached: "(vault_step sample_crypto)\<^sup>*\<^sup>* new_vault (sample_write t lock)"
proof -
  obtain s R where take: "takeSpareKey sample_crypto unlock_key (va_ring sample_unlocked) = (Some s, R)"
    using sample_take by blast
  let ?v1 = "sample_unlocked\<lparr>va_ring := R, va_taken := [(unlock_key, s)]\<rparr>"
  let ?v2 = "sample_unlocked\<lparr>va_ring := if lock then forgetDerivedKeys R else R, va_taken := [(unlock_key, s)]\<rparr>"
  obtain r R' where f: "finishAhead sample_crypto t unlock_key s (va_ring ?v2) = (r, R')"
    by (cases "finishAhead sample_crypto t unlock_key s (va_ring ?v2)")
  have "vault_step sample_crypto new_vault sample_unlocked"
    using vault_step.unlocked [of sample_crypto new_vault unlock_key] by (simp add: sample_unlocked_def new_vault_def)
  moreover have "vault_step sample_crypto sample_unlocked ?v1"
    using vault_step.taken [OF take] by (simp add: sample_unlocked_def new_vault_def)
  moreover have "(vault_step sample_crypto)\<^sup>*\<^sup>* ?v1 ?v2"
    using vault_step.locked [of sample_crypto ?v1] by (cases lock) (auto simp: sample_unlocked_def new_vault_def)
  moreover have "vault_step sample_crypto ?v2 (sample_write t lock)"
    using vault_step.wrote_ahead [OF _ f] f by (cases lock) (simp_all add: sample_write_def take)
  ultimately show ?thesis
    by (meson converse_rtranclp_into_rtranclp rtranclp.rtrancl_into_rtrancl)
qed

lemma sample_write_eq:
  "\<exists>e. va_rows (sample_write (u ''hi'') lock) = [(unlock_key, u ''hi'', e)]
     \<and> va_used (sample_write (u ''hi'') lock) = [replicate 16 0] \<and> kr_drawn (va_ring (sample_write (u ''hi'') lock)) = 6
     \<and> kr_for (va_ring (sample_write (u ''hi'') lock)) = (if lock then None else Some unlock_key)
     \<and> length (kr_remembered (va_ring (sample_write (u ''hi'') lock))) = (if lock then 0 else 1)"
  by (cases lock; simp add: sample_write_def sample_take Let_def finishAhead_def takenSpareKey_def forgetDerivedKeys_def
      sealed_under_def getRandomValues_def stored_def evict_oldest_def REMEMBER_MAX_def)
    (simp_all add: sample_unlocked_def new_vault_def)

lemma sample_codes: "codes sample_crypto t"
  by (simp add: codes_def sample_crypto_def unary_units_code)

section \<open>Properties\<close>

text \<open>
  C19 (roundtrip): Whatever is sealed can be opened again. However unlocking, locking, reads, failed
  derivations and the halves of writers interleave, every row any of the four writers made opens with
  its passphrase to the text it was made from, at any later time, whatever keys are remembered then; and
  it is recognised as encrypted.
\<close>

theorem sealed_secret_opens:
  assumes "lawful W" "(vault_step W)\<^sup>*\<^sup>* new_vault v" "(p, t, e) \<in> set (va_rows v)" "codes W t"
  shows "fst (decryptSecret W e p (va_ring v)) = Some t \<and> isEncrypted e"
proof -
  have "vault_ok W v"
    by (rule vault_run_ok [OF assms(2,1)])
  then have "keyring_ok W (va_ring v)" "opens W p t e"
    using assms(3) by (auto simp: vault_ok_def)
  then show ?thesis
    using opens_decrypt [OF assms(1) _ _ assms(4)] by blast
qed

theorem sealed_secret_opens_witness:
  "\<exists>e. va_rows (sample_write (u ''hi'') True) = [(unlock_key, u ''hi'', e)]
     \<and> fst (decryptSecret sample_crypto e unlock_key (va_ring (sample_write (u ''hi'') True))) = Some (u ''hi'') \<and> isEncrypted e"
  using sample_write_eq [of True] sealed_secret_opens [OF sample_lawful sample_write_reached _ sample_codes]
  by (metis list.set_intros(1))

text \<open>
  C20 (equivalence): Remembered keys never show. In every state a device can reach, reading a text gives
  what it gives with no key remembered, where each key is derived afresh, for every text and passphrase,
  well-formed or not; and reading a batch gives for each of its texts what reading that text alone gives,
  although it derives the key of a salt once.
\<close>

theorem remembered_keys_never_show:
  assumes "lawful W" "(vault_step W)\<^sup>*\<^sup>* new_vault v"
  shows "fst (decryptSecret W e p (va_ring v)) = fst (decryptSecret W e p new_keyring)
    \<and> fst (decryptSecretsBatch W es p (va_ring v)) = map (\<lambda>e. fst (decryptSecret W e p new_keyring)) es"
proof -
  have ring: "keyring_ok W (va_ring v)"
    using vault_run_ok [OF assms(2,1)] by (simp add: vault_ok_def)
  then show ?thesis
    using decrypt_value [OF ring] batch_value [OF ring, of es p] by (cases "decryptSecretsBatch W es p (va_ring v)") auto
qed

theorem remembered_keys_never_show_witness:
  "length (kr_remembered (va_ring (sample_write (u ''hi'') False))) = 1
   \<and> (\<exists>e. va_rows (sample_write (u ''hi'') False) = [(unlock_key, u ''hi'', e)]
     \<and> fst (decryptSecretsBatch sample_crypto [e, e, u ''?''] unlock_key (va_ring (sample_write (u ''hi'') False)))
       = map (\<lambda>e. fst (decryptSecret sample_crypto e unlock_key new_keyring)) [e, e, u ''?''])"
  using sample_write_eq [of False] remembered_keys_never_show [OF sample_lawful sample_write_reached] by auto

text \<open>
  C21 (invariant): A salt is used by one write, and keys go with the lock. While the random salts drawn
  so far differ, no two writes share a salt, nor does a write share one with a spare key still waiting;
  at most 512 keys are remembered and four are spare, only ever for an unlock key of 32 characters or
  more; and when the device is locked neither a remembered nor a spare key is left, whatever writer or
  derivation was still under way.
\<close>

theorem salts_used_once:
  assumes "lawful W" "salts_differ W N" "(vault_step W)\<^sup>*\<^sup>* new_vault v" "kr_drawn (va_ring v) \<le> N"
  shows "distinct (va_used v @ map sk_salt (kr_spares (va_ring v)))
    \<and> length (kr_remembered (va_ring v)) \<le> 512 \<and> length (kr_spares (va_ring v)) \<le> 4
    \<and> (case kr_for (va_ring v) of None \<Rightarrow> kr_remembered (va_ring v) = [] \<and> kr_spares (va_ring v) = []
       | Some p \<Rightarrow> 32 \<le> length p)"
proof -
  have "keyring_ok W (va_ring v)"
    using vault_run_ok [OF assms(3,1)] by (simp add: vault_ok_def)
  moreover have "once W N (vault_salts v) (va_ring v)"
    by (rule vault_run_once [OF assms(3,1,2)])
  ultimately show ?thesis
    using assms(4) by (auto simp: once_def vault_salts_def keyring_ok_def REMEMBER_MAX_def SPARE_KEYS_def
        MIN_REMEMBERED_PASSPHRASE_def split: option.splits)
qed

theorem salts_used_once_witness:
  "va_used (sample_write (u ''hi'') True) = [replicate 16 0] \<and> kr_remembered (va_ring (sample_write (u ''hi'') True)) = []"
  using sample_write_eq [of True] salts_used_once [OF sample_lawful sample_salts_differ sample_write_reached, of "u ''hi''" True]
  by auto

end
