(* ===== verification/Json_Text.thy ===== *)
theory Json_Text
  imports Js_Objects Secret_Store
begin

text \<open>
  \<open>JSON.stringify\<close> written out: the text of a dynamic value, as long as the count that bounds stored
  records says. Reading the text back is a parameter of the theories that parse.
\<close>

section \<open>JSON text\<close>

definition hex4 :: "nat \<Rightarrow> ustr" where
  "hex4 c = [hex_char (c div 4096), hex_char (c div 256 mod 16), hex_char (c div 16 mod 16), hex_char (c mod 16)]"

definition escaped :: "nat \<Rightarrow> ustr" where
  "escaped c = (case map_of [(8, 98), (9, 116), (10, 110), (12, 102), (13, 114), (34, 34), (92, 92)] c of
     Some x \<Rightarrow> [92, x] | None \<Rightarrow> if c < 32 then [92, 117] @ hex4 c else [c])"

text \<open>A surrogate without its other half is escaped.\<close>

fun json_str_text :: "ustr \<Rightarrow> ustr" where
  "json_str_text [] = []"
| "json_str_text (c # s) =
     (if 0xD800 \<le> c \<and> c \<le> 0xDBFF then
        (case s of d # t \<Rightarrow> if 0xDC00 \<le> d \<and> d \<le> 0xDFFF then c # d # json_str_text t else [92, 117] @ hex4 c @ json_str_text s
                 | [] \<Rightarrow> [92, 117] @ hex4 c)
      else if 0xDC00 \<le> c \<and> c \<le> 0xDFFF then [92, 117] @ hex4 c @ json_str_text s
      else escaped c @ json_str_text s)"

definition json_quoted :: "ustr \<Rightarrow> ustr" where
  "json_quoted s = 34 # json_str_text s @ [34]"

fun json_text :: "platform \<Rightarrow> jsval \<Rightarrow> ustr" where
  "json_text P JUndef = u ''null''"
| "json_text P JNull = u ''null''"
| "json_text P (JBool b) = (if b then u ''true'' else u ''false'')"
| "json_text P (JNum n) = (case n of Fin r \<Rightarrow> js_number_text P n | _ \<Rightarrow> u ''null'')"
| "json_text P (JStr s) = json_quoted s"
| "json_text P (JArr vs) = 91 # join_comma (map (json_text P) vs) @ [93]"
| "json_text P (JObj ps) = 123 # join_comma (map (\<lambda>p. json_quoted (fst p) @ 58 # json_text P (snd p))
     (filter (\<lambda>p. snd p \<noteq> JUndef) ps)) @ [125]"

lemma join_comma_length: "length (join_comma ss) = comma_sum (map length ss)"
proof -
  have "length (foldl (\<lambda>a t. a @ 44 # t) a ts) = length a + sum_list (map length ts) + length ts" for a and ts :: "ustr list"
    by (induction ts arbitrary: a) auto
  then show ?thesis
    by (cases ss) (auto simp: join_comma_def comma_sum_def)
qed

lemma escaped_length:
  "length (escaped c) = (if c \<in> {8, 9, 10, 12, 13, 34, 92} then 2 else if c < 32 then 6 else 1)" "length (hex4 c) = 4"
  by (simp_all add: escaped_def hex4_def)

lemma json_str_text_length: "length (json_str_text s) = json_str_units s"
proof (induction s rule: json_str_text.induct)
  case (2 c s)
  show ?case
    unfolding json_str_text.simps(2) [of c s] json_str_units.simps(2) [of c s]
    using 2 by (auto simp: escaped_length simp del: json_str_text.simps(2) json_str_units.simps(2) split: list.splits)
qed simp

text \<open>The text is as long as the count that bounds stored records says.\<close>

lemma json_text_length: "length (json_text P v) = json_len P v"
proof (induction v)
  case (JArr vs)
  then show ?case
    by (simp add: join_comma_length comp_def cong: map_cong)
next
  case (JObj ps)
  let ?ps = "filter (\<lambda>p. snd p \<noteq> JUndef) ps"
  have "map (\<lambda>p. length (json_quoted (fst p) @ 58 # json_text P (snd p))) ?ps
      = map (\<lambda>p. 2 + json_str_units (fst p) + 1 + json_len P (snd p)) ?ps"
  proof (rule map_cong)
    fix p
    assume "p \<in> set (filter (\<lambda>p. snd p \<noteq> JUndef) ps)"
    then have "length (json_text P (snd p)) = json_len P (snd p)"
      using JObj [of p "snd p"] by (auto simp: snds.simps)
    then show "length (json_quoted (fst p) @ 58 # json_text P (snd p)) = 2 + json_str_units (fst p) + 1 + json_len P (snd p)"
      by (simp add: json_quoted_def json_str_text_length)
  qed simp
  then have "length (join_comma (map (\<lambda>p. json_quoted (fst p) @ 58 # json_text P (snd p)) ?ps))
      = comma_sum (map (\<lambda>p. 2 + json_str_units (fst p) + 1 + json_len P (snd p)) ?ps)"
    by (simp only: join_comma_length map_map comp_def)
  then show ?case
    by (simp only: json_text.simps json_len.simps length_Cons length_append list.size)
qed (auto simp: json_quoted_def json_str_text_length split: jnum.splits)

section \<open>Objects\<close>

text \<open>A property that is \<open>undefined\<close> is left out of the text, so it is left out of the object here.\<close>

definition json_obj :: "(string \<times> jsval) list \<Rightarrow> jsval" where
  "json_obj ps = obj (filter (\<lambda>(k, v). v \<noteq> JUndef) ps)"

lemma get_json_obj [simp]:
  "distinct (map fst ps) \<Longrightarrow> get (json_obj ps) k = (case map_of ps k of None \<Rightarrow> JUndef | Some v \<Rightarrow> v)"
proof -
  assume d: "distinct (map fst ps)"
  have "map_of (filter (\<lambda>(k, v). v \<noteq> JUndef) ps) k = (case map_of ps k of None \<Rightarrow> None | Some v \<Rightarrow> if v = JUndef then None else Some v)"
    using d by (induction ps) (auto simp: map_of_eq_None_iff split: option.splits)
  then show "get (json_obj ps) k = (case map_of ps k of None \<Rightarrow> JUndef | Some v \<Rightarrow> v)"
    by (simp add: json_obj_def split: option.split)
qed

text \<open>A platform for the examples.\<close>

definition plain_platform :: platform where
  "plain_platform = \<lparr>url_parse = \<lambda>s. None, number_text = \<lambda>r. []\<rparr>"

end
