(* ===== verification/Vault_Envelope.thy ===== *)
theory Vault_Envelope
  imports Json_Text
begin

text \<open>
  The sealed \<open>content\<close> of every private rail (\<open>lib/vault-envelope.ts\<close>): padding to a bucket, the frame
  around key, initialisation vector and ciphertext, and opening it again, with the fallback to a bare
  NIP-44 text. AES-GCM under a raw key, the text coder, the random bytes and the signer's NIP-44 calls
  are parameters; base64 is that of \<open>Secret_Store\<close>.
\<close>

section \<open>Padding\<close>

definition BUCKETS :: "nat list" where
  "BUCKETS = [4096, 8192, 16384, 32768, 65536]"

definition TOP_BUCKET :: nat where
  "TOP_BUCKET = 65536"

definition LENGTH_PREFIX_BYTES :: nat where
  "LENGTH_PREFIX_BYTES = 4"

definition MAX_ENVELOPE_CHARS :: nat where
  "MAX_ENVELOPE_CHARS = 100000"

definition MIN_NIP44_V2_CHARS :: nat where
  "MIN_NIP44_V2_CHARS = 132"

record coder =
  en_encode :: "ustr \<Rightarrow> byte list"
  en_decode :: "byte list \<Rightarrow> ustr"

text \<open>\<open>setUint32(0, n, false)\<close>: four bytes, the highest first; and \<open>getUint32\<close>.\<close>

definition uint32_bytes :: "nat \<Rightarrow> byte list" where
  "uint32_bytes n = [of_nat (n div 16777216), of_nat (n div 65536), of_nat (n div 256), of_nat n]"

definition get_uint32 :: "byte list \<Rightarrow> nat" where
  "get_uint32 bs = foldl (\<lambda>a b. a * 256 + unat b) 0 (take 4 bs)"

definition padToBucket :: "coder \<Rightarrow> ustr \<Rightarrow> nat \<Rightarrow> byte list option" where
  "padToBucket K plaintext maxBucket =
     (let body = en_encode K plaintext;
          needed = LENGTH_PREFIX_BYTES + length body
      in map_option (\<lambda>bucket. uint32_bytes (length body) @ body @ replicate (bucket - needed) 0)
           (find (\<lambda>b. needed \<le> b \<and> b \<le> maxBucket) BUCKETS))"

definition unpad :: "coder \<Rightarrow> byte list \<Rightarrow> ustr option" where
  "unpad K padded =
     (if length padded < LENGTH_PREFIX_BYTES then None
      else let n = get_uint32 padded
           in if n > length padded - LENGTH_PREFIX_BYTES then None
              else Some (en_decode K (take n (drop LENGTH_PREFIX_BYTES padded))))"

section \<open>The frame\<close>

record vault_envelope =
  ve_k :: ustr
  ve_iv :: ustr
  ve_ct :: ustr
  ve_b :: nat

definition envelope_json :: "vault_envelope \<Rightarrow> jsval" where
  "envelope_json e = obj [(''v'', enc_num 2), (''k'', JStr (ve_k e)), (''iv'', JStr (ve_iv e)), (''ct'', JStr (ve_ct e)),
     (''b'', enc_num (of_nat (ve_b e)))]"

definition bucket_of :: "jsval \<Rightarrow> nat option" where
  "bucket_of v = Option.bind (as_num v) (\<lambda>r. find (\<lambda>b. of_nat b = r) BUCKETS)"

definition parseVaultEnvelope :: "(ustr \<Rightarrow> jsval option) \<Rightarrow> ustr \<Rightarrow> vault_envelope option" where
  "parseVaultEnvelope parse content =
     (if length content > MAX_ENVELOPE_CHARS then None
      else case parse content of
        None \<Rightarrow> None
      | Some e \<Rightarrow>
          if \<not> isObj e then None
          else if get e ''v'' \<noteq> JNum (Fin 2) then None
          else (case (as_str (get e ''k''), as_str (get e ''iv''), as_str (get e ''ct''), bucket_of (get e ''b'')) of
              (Some k, Some iv, Some ct, Some b) \<Rightarrow> Some \<lparr>ve_k = k, ve_iv = iv, ve_ct = ct, ve_b = b\<rparr>
            | _ \<Rightarrow> None))"

text \<open>\<open>/^[A-Za-z0-9+/]+={0,2}$/\<close>: a non-empty run of the alphabet, then at most two signs of padding.\<close>

definition STRICT_BASE64 :: "ustr \<Rightarrow> bool" where
  "STRICT_BASE64 s =
     (let body = takeWhile (\<lambda>c. b64_digit c \<noteq> None) s; rest = dropWhile (\<lambda>c. b64_digit c \<noteq> None) s
      in body \<noteq> [] \<and> rest \<in> {[], [61], [61, 61]})"

definition looksLikeNip44V2 :: "ustr \<Rightarrow> bool" where
  "looksLikeNip44V2 content =
     (if length content < MIN_NIP44_V2_CHARS \<or> length content > MAX_ENVELOPE_CHARS then False
      else if length content mod 4 \<noteq> 0 then False
      else if \<not> STRICT_BASE64 content then False
      else case atob (take 4 content) of Some (b # _) \<Rightarrow> b = 2 | _ \<Rightarrow> False)"

section \<open>Sealing and opening\<close>

text \<open>
  AES-GCM under a key imported from its bytes; \<open>None\<close> is a rejected call. The signer: its own key, and
  the two NIP-44 calls. What a remote signer answers may be any value.
\<close>

record gcm =
  gc_seal :: "byte list \<Rightarrow> byte list \<Rightarrow> byte list \<Rightarrow> byte list"
  gc_open :: "byte list \<Rightarrow> byte list \<Rightarrow> byte list \<Rightarrow> byte list option"

record signer =
  sg_pubkey :: ustr
  sg_encrypt :: "ustr \<Rightarrow> ustr \<Rightarrow> ustr option"
  sg_decrypt :: "ustr \<Rightarrow> ustr \<Rightarrow> jsval option"

record seal_opts =
  so_maxBucket :: "nat option"
  so_recipient :: "ustr option"

text \<open>\<open>random\<close> is asked twice, for the content key and for the vector; a generator may answer too short.\<close>

definition sealed_envelope ::
    "coder \<Rightarrow> gcm \<Rightarrow> (nat \<Rightarrow> nat \<Rightarrow> byte list) \<Rightarrow> ustr \<Rightarrow> signer \<Rightarrow> seal_opts \<Rightarrow> vault_envelope option" where
  "sealed_envelope K G random plaintext backend opts =
     (if \<not> hex64 (sg_pubkey backend) then None
      else let recipient = (case so_recipient opts of None \<Rightarrow> sg_pubkey backend | Some r \<Rightarrow> r)
      in if \<not> hex64 recipient then None
      else case padToBucket K plaintext (case so_maxBucket opts of None \<Rightarrow> TOP_BUCKET | Some m \<Rightarrow> m) of
        None \<Rightarrow> None
      | Some padded \<Rightarrow>
          (let rawKey = random 0 32; iv = random 1 IV_LENGTH
           in if length rawKey \<noteq> 32 then None
              else if length iv \<noteq> IV_LENGTH then None
              else map_option (\<lambda>wrapped.
                     \<lparr>ve_k = wrapped, ve_iv = btoa iv, ve_ct = btoa (gc_seal G rawKey iv padded), ve_b = length padded\<rparr>)
                   (sg_encrypt backend recipient (btoa rawKey))))"

definition sealVaultPayload ::
    "platform \<Rightarrow> coder \<Rightarrow> gcm \<Rightarrow> (nat \<Rightarrow> nat \<Rightarrow> byte list) \<Rightarrow> ustr \<Rightarrow> signer \<Rightarrow> seal_opts \<Rightarrow> ustr option" where
  "sealVaultPayload P K G random plaintext backend opts =
     map_option (\<lambda>e. json_text P (envelope_json e)) (sealed_envelope K G random plaintext backend opts)"

text \<open>\<open>atob\<close> of whatever the signer answered reads it as a text.\<close>

definition openVaultPayload ::
    "platform \<Rightarrow> (ustr \<Rightarrow> jsval option) \<Rightarrow> coder \<Rightarrow> gcm \<Rightarrow> ustr \<Rightarrow> signer \<Rightarrow> ustr \<Rightarrow> bool \<Rightarrow> ustr option" where
  "openVaultPayload P parse K G content backend authorPubkey legacyFallback =
     (case parseVaultEnvelope parse content of
        None \<Rightarrow>
          if \<not> legacyFallback then None
          else if \<not> looksLikeNip44V2 content then None
          else Option.bind (sg_decrypt backend authorPubkey content) as_str
      | Some e \<Rightarrow>
          Option.bind (sg_decrypt backend authorPubkey (ve_k e)) (\<lambda>answer.
          Option.bind (js_String P answer) (\<lambda>text.
          Option.bind (atob text) (\<lambda>rawKey.
            if length rawKey \<noteq> 32 then None
            else Option.bind (atob (ve_iv e)) (\<lambda>iv.
                 Option.bind (atob (ve_ct e)) (\<lambda>ct.
                 Option.bind (gc_open G rawKey iv ct) (\<lambda>padded.
                   if length padded \<noteq> ve_b e then None else unpad K padded)))))))"

section \<open>Padding is undone\<close>

lemma uint32_roundtrip: "n < 4294967296 \<Longrightarrow> get_uint32 (uint32_bytes n @ rest) = n"
proof -
  assume n: "n < 4294967296"
  have q: "n div 65536 = n div 256 div 256" "n div 16777216 = n div 256 div 256 div 256"
    by (simp_all add: div_mult2_eq [symmetric])
  have "n div 256 div 256 div 256 mod 256 = n div 256 div 256 div 256"
    using n by (simp add: div_mult2_eq [symmetric] less_mult_imp_div_less)
  then show ?thesis
    by (simp add: get_uint32_def uint32_bytes_def unsigned_of_nat take_bit_eq_mod q)
qed

lemma find_bucket: "find (\<lambda>b. n \<le> b \<and> b \<le> m) BUCKETS = Some b \<Longrightarrow> b \<in> set BUCKETS \<and> n \<le> b \<and> b \<le> m"
  by (auto simp: find_Some_iff)

lemma buckets_small: "b \<in> set BUCKETS \<Longrightarrow> b \<le> 65536"
  by (auto simp: BUCKETS_def)

lemma pad_length:
  assumes "padToBucket K t m = Some padded"
  shows "length padded \<in> set BUCKETS \<and> length padded \<le> m \<and> find (\<lambda>b. 4 + length (en_encode K t) \<le> b \<and> b \<le> m) BUCKETS = Some (length padded)"
proof -
  obtain b where b: "find (\<lambda>b. 4 + length (en_encode K t) \<le> b \<and> b \<le> m) BUCKETS = Some b"
      "padded = uint32_bytes (length (en_encode K t)) @ en_encode K t @ replicate (b - (4 + length (en_encode K t))) 0"
    using assms by (auto simp: padToBucket_def Let_def LENGTH_PREFIX_BYTES_def)
  have "length padded = 4 + length (en_encode K t) + (b - (4 + length (en_encode K t)))"
    by (simp only: b(2) length_append length_replicate) (simp add: uint32_bytes_def)
  then have "length padded = b"
    using find_bucket [OF b(1)] by linarith
  then show ?thesis
    using b(1) find_bucket [OF b(1)] by simp
qed

lemma unpad_pad:
  assumes "padToBucket K t m = Some padded"
  shows "unpad K padded = Some (en_decode K (en_encode K t))"
proof -
  let ?n = "length (en_encode K t)"
  obtain b where b: "find (\<lambda>b. 4 + ?n \<le> b \<and> b \<le> m) BUCKETS = Some b"
      "padded = uint32_bytes ?n @ en_encode K t @ replicate (b - (4 + ?n)) 0"
    using assms by (auto simp: padToBucket_def Let_def LENGTH_PREFIX_BYTES_def)
  have fits: "4 + ?n \<le> b" "b \<le> 65536"
    using find_bucket [OF b(1)] buckets_small by auto
  have "get_uint32 padded = ?n"
    unfolding b(2) using fits by (intro uint32_roundtrip) simp
  moreover have "length (uint32_bytes ?n) = 4"
    by (simp add: uint32_bytes_def)
  ultimately show ?thesis
    using fits by (simp add: unpad_def LENGTH_PREFIX_BYTES_def b(2) Let_def)
qed

section \<open>The frame is read back\<close>

lemma bucket_of_number: "b \<in> set BUCKETS \<Longrightarrow> bucket_of (enc_num (of_nat b)) = Some b"
  by (auto simp: bucket_of_def enc_num_def BUCKETS_def)

lemma parse_envelope:
  assumes "parse (json_text P (envelope_json e)) = Some (envelope_json e)"
    and "length (json_text P (envelope_json e)) \<le> MAX_ENVELOPE_CHARS" "ve_b e \<in> set BUCKETS"
  shows "parseVaultEnvelope parse (json_text P (envelope_json e)) = Some e"
  using assms bucket_of_number [OF assms(3)]
  by (simp add: parseVaultEnvelope_def envelope_json_def) (simp add: enc_num_def)

text \<open>Base64 is as long as its input rounded up to threes, and no character of it is escaped in JSON.\<close>

lemma sextets_count: "length (sextets bs) + (3 - length bs mod 3) mod 3 = 4 * ((length bs + 2) div 3)"
proof (induction bs rule: sextets.induct)
  case (4 a b c s)
  have "(length (a # b # c # s) + 2) div 3 = (length s + 2) div 3 + 1" "length (a # b # c # s) mod 3 = length s mod 3"
    by simp_all
  then show ?case
    using 4 by simp
qed auto

lemma length_btoa: "length (btoa bs) = 4 * ((length bs + 2) div 3)"
  using sextets_count [of bs] by (simp add: btoa_def)

definition plain_unit :: "nat \<Rightarrow> bool" where
  "plain_unit c \<longleftrightarrow> 35 \<le> c \<and> c \<le> 127 \<and> c \<noteq> 92"

lemma json_units_plain: "list_all plain_unit s \<Longrightarrow> json_str_units s = length s"
  by (induction s) (auto simp: plain_unit_def)

lemma b64_unit_range: "d < 64 \<Longrightarrow> plain_unit (b64_unit d)" "plain_unit 61"
  by (auto simp: b64_unit_def plain_unit_def)

lemma btoa_units: "json_str_units (btoa bs) = 4 * ((length bs + 2) div 3)"
proof -
  have "list_all plain_unit (btoa bs)"
    using sextets_bound [of bs] b64_unit_range by (auto simp: btoa_def list_all_iff)
  then show ?thesis
    using json_units_plain length_btoa by metis
qed

section \<open>What is sealed\<close>

text \<open>
  Documented behaviour of AES-GCM: opening inverts sealing, and the tag is sixteen bytes. Of the signer:
  what one side wrapped for the other, the other unwraps.
\<close>

definition lawful_gcm :: "gcm \<Rightarrow> bool" where
  "lawful_gcm G \<longleftrightarrow> (\<forall>rk iv p. gc_open G rk iv (gc_seal G rk iv p) = Some p \<and> length (gc_seal G rk iv p) = length p + 16)"

definition recipient_of :: "signer \<Rightarrow> seal_opts \<Rightarrow> ustr" where
  "recipient_of S opts = (case so_recipient opts of None \<Rightarrow> sg_pubkey S | Some r \<Rightarrow> r)"

definition limit_of :: "seal_opts \<Rightarrow> nat" where
  "limit_of opts = (case so_maxBucket opts of None \<Rightarrow> TOP_BUCKET | Some m \<Rightarrow> m)"

definition unwraps :: "signer \<Rightarrow> ustr \<Rightarrow> signer \<Rightarrow> bool" where
  "unwraps S recipient R \<longleftrightarrow> (\<forall>x w. sg_encrypt S recipient x = Some w \<longrightarrow> sg_decrypt R (sg_pubkey S) w = Some (JStr x))"

text \<open>The text of a wrapped content key takes \<open>n\<close> units in JSON.\<close>

definition wraps_to :: "nat \<Rightarrow> signer \<Rightarrow> ustr \<Rightarrow> bool" where
  "wraps_to n S recipient \<longleftrightarrow> (\<forall>rk w. length rk = 32 \<longrightarrow> sg_encrypt S recipient (btoa rk) = Some w \<longrightarrow> json_str_units w = n)"

lemma sealed_envelope_cases:
  assumes "sealed_envelope K G random t S opts = Some e"
  obtains padded rawKey iv where "padToBucket K t (limit_of opts) = Some padded" "length rawKey = 32" "length iv = 12"
    "sg_encrypt S (recipient_of S opts) (btoa rawKey) = Some (ve_k e)" "ve_iv e = btoa iv"
    "ve_ct e = btoa (gc_seal G rawKey iv padded)" "ve_b e = length padded"
  using assms by (auto simp: sealed_envelope_def Let_def recipient_of_def limit_of_def IV_LENGTH_def split: if_splits option.splits)

lemma json_units_key: "json_str_units (u ''v'') = 1" "json_str_units (u ''k'') = 1" "json_str_units (u ''iv'') = 2"
    "json_str_units (u ''ct'') = 2" "json_str_units (u ''b'') = 1"
  by (simp_all add: u_def of_char_def)

lemma js_two: "js_number_text P (Fin 2) = [50]"
  by (simp add: js_number_text_def is_int_rat_def nat_text.simps [of 2])

lemma envelope_length:
  "length (json_text P (envelope_json e)) =
     35 + json_str_units (ve_k e) + json_str_units (ve_iv e) + json_str_units (ve_ct e) + length (js_number_text P (Fin (of_nat (ve_b e))))"
  unfolding json_text_length by (simp add: envelope_json_def obj_def enc_num_def json_units_key js_two comma_sum_def)

lemma bucket_digits: "b \<in> set BUCKETS \<Longrightarrow> length (js_number_text P (Fin (of_nat b))) = (if b < 10000 then 4 else 5)"
proof -
  have "length (nat_text 4096) = 4" "length (nat_text 8192) = 4" "length (nat_text 16384) = 5" "length (nat_text 32768) = 5"
      "length (nat_text 65536) = 5"
    by (simp_all add: nat_text.simps)
  then show "b \<in> set BUCKETS \<Longrightarrow> length (js_number_text P (Fin (of_nat b))) = (if b < 10000 then 4 else 5)"
    by (auto simp: BUCKETS_def js_number_text_def is_int_rat_def)
qed

definition content_size :: "nat \<Rightarrow> nat \<Rightarrow> nat" where
  "content_size n b = 51 + n + 4 * ((b + 18) div 3) + (if b < 10000 then 4 else 5)"

lemma sealed_size:
  assumes "lawful_gcm G" "sealed_envelope K G random t S opts = Some e" "wraps_to n S (recipient_of S opts)"
  shows "length (json_text P (envelope_json e)) = content_size n (ve_b e)"
proof (rule sealed_envelope_cases [OF assms(2)])
  fix padded rawKey iv
  assume e: "padToBucket K t (limit_of opts) = Some padded" "length rawKey = 32" "length iv = 12"
    "sg_encrypt S (recipient_of S opts) (btoa rawKey) = Some (ve_k e)" "ve_iv e = btoa iv"
    "ve_ct e = btoa (gc_seal G rawKey iv padded)" "ve_b e = length padded"
  have k: "json_str_units (ve_k e) = n"
    using assms(3) e(2,4) unfolding wraps_to_def by simp
  have "length (gc_seal G rawKey iv padded) = length padded + 16"
    using assms(1) by (simp add: lawful_gcm_def)
  then have "json_str_units (ve_iv e) = 16" "json_str_units (ve_ct e) = 4 * ((ve_b e + 18) div 3)"
    using e by (simp_all add: btoa_units add.assoc)
  moreover have "ve_b e \<in> set BUCKETS"
    using pad_length [OF e(1)] e(7) by simp
  ultimately show ?thesis
    by (simp add: envelope_length k bucket_digits content_size_def)
qed

lemma content_size_bound: "b \<in> set BUCKETS \<Longrightarrow> content_size n b \<le> 87460 + n"
  by (auto simp: BUCKETS_def content_size_def)

lemma envelope_read:
  assumes "lawful_gcm G" "en_decode K (en_encode K t) = t" "sealed_envelope K G random t S opts = Some e"
    and "unwraps S (recipient_of S opts) R" "wraps_to n S (recipient_of S opts)" "n \<le> 12000"
    and "parse (json_text P (envelope_json e)) = Some (envelope_json e)"
  shows "\<exists>content. sealVaultPayload P K G random t S opts = Some content \<and> length content \<le> MAX_ENVELOPE_CHARS
    \<and> openVaultPayload P parse K G content R (sg_pubkey S) legacy = Some t"
proof (rule sealed_envelope_cases [OF assms(3)])
  fix padded rawKey iv
  let ?c = "json_text P (envelope_json e)"
  assume e: "padToBucket K t (limit_of opts) = Some padded" "length rawKey = 32" "length iv = 12"
    "sg_encrypt S (recipient_of S opts) (btoa rawKey) = Some (ve_k e)" "ve_iv e = btoa iv"
    "ve_ct e = btoa (gc_seal G rawKey iv padded)" "ve_b e = length padded"
  have b: "ve_b e \<in> set BUCKETS"
    using pad_length [OF e(1)] e(7) by simp
  have size: "length ?c \<le> MAX_ENVELOPE_CHARS"
    using sealed_size [OF assms(1,3,5), of P] content_size_bound [OF b, of n] assms(6) by (simp add: MAX_ENVELOPE_CHARS_def)
  have "parseVaultEnvelope parse ?c = Some e"
    using parse_envelope [where e = e and P = P and parse = parse] assms(7) size b by blast
  moreover have "sg_decrypt R (sg_pubkey S) (ve_k e) = Some (JStr (btoa rawKey))"
    using assms(4) e(4) by (simp add: unwraps_def)
  moreover have "gc_open G rawKey iv (gc_seal G rawKey iv padded) = Some padded"
    using assms(1) by (simp add: lawful_gcm_def)
  ultimately have "openVaultPayload P parse K G ?c R (sg_pubkey S) legacy = Some t"
    using unpad_pad [OF e(1)] assms(2) e by (simp add: openVaultPayload_def atob_btoa)
  then show ?thesis
    using size assms(3) by (simp add: sealVaultPayload_def)
qed

section \<open>Properties\<close>

text \<open>
  C23 (roundtrip): What is sealed can be opened, at every size: whenever sealing succeeds and the
  recipient's signer unwraps what the author's wrapped, the content is short enough to be read and opens to
  the text that was sealed, whatever bucket it fell in and whether or not old formats are accepted.
\<close>

theorem envelope_opens:
  assumes "lawful_gcm G" "en_decode K (en_encode K t) = t" "sealed_envelope K G random t S opts = Some e"
    and "unwraps S (recipient_of S opts) R" "wraps_to n S (recipient_of S opts)" "n \<le> 12000"
    and "parse (json_text P (envelope_json e)) = Some (envelope_json e)"
  shows "\<exists>content. sealVaultPayload P K G random t S opts = Some content \<and> length content \<le> MAX_ENVELOPE_CHARS
    \<and> openVaultPayload P parse K G content R (sg_pubkey S) legacy = Some t"
  using assms by (rule envelope_read)

text \<open>
  C24 (safety): A sealed text shows no more of its length than a bucket. The text of a bucket is the least
  power of two from 4096 to 65536 that holds it with its prefix; any two texts sealed for one recipient that
  fall in the same bucket give contents of exactly the same length; and a text that fits no bucket is
  refused, never cut.
\<close>

theorem envelope_hides_length:
  assumes "lawful_gcm G" "wraps_to n S (recipient_of S opts)" "sealVaultPayload P K G random t S opts = Some c"
  shows "\<exists>b \<in> set BUCKETS. length c = content_size n b \<and> b \<le> limit_of opts \<and> 4 + length (en_encode K t) \<le> b
    \<and> (\<forall>b' \<in> set BUCKETS. 4 + length (en_encode K t) \<le> b' \<longrightarrow> b \<le> b')
    \<and> (\<forall>random' t' c'. sealVaultPayload P K G random' t' S opts = Some c' \<longrightarrow>
         (4 + length (en_encode K t') \<le> b \<and> (\<forall>b' \<in> set BUCKETS. b' < b \<longrightarrow> b' < 4 + length (en_encode K t')) \<longrightarrow> length c' = length c))"
proof -
  have sealed: "\<exists>b \<in> set BUCKETS. length c = content_size n b
      \<and> find (\<lambda>b. 4 + length (en_encode K t) \<le> b \<and> b \<le> limit_of opts) BUCKETS = Some b"
    if "sealVaultPayload P K G random t S opts = Some c" for random t c
  proof -
    obtain e where e: "sealed_envelope K G random t S opts = Some e" "c = json_text P (envelope_json e)"
      using \<open>_ = Some c\<close> by (auto simp: sealVaultPayload_def)
    obtain padded where "padToBucket K t (limit_of opts) = Some padded" "ve_b e = length padded"
      using sealed_envelope_cases [OF e(1)] by metis
    then show ?thesis
      using sealed_size [OF assms(1) e(1) assms(2), of P] pad_length [of K t "limit_of opts"] e(2) by auto
  qed
  have least: "(find (\<lambda>b. m \<le> b \<and> b \<le> l) BUCKETS = Some b) = (b \<in> set BUCKETS \<and> m \<le> b \<and> b \<le> l \<and> (\<forall>b' \<in> set BUCKETS. b' < b \<longrightarrow> b' < m))"
    for m l b :: nat
    by (auto simp: BUCKETS_def)
  obtain b where b: "b \<in> set BUCKETS" "length c = content_size n b"
      "find (\<lambda>b. 4 + length (en_encode K t) \<le> b \<and> b \<le> limit_of opts) BUCKETS = Some b"
    using sealed [OF assms(3)] by blast
  have "length c' = length c"
    if "sealVaultPayload P K G random' t' S opts = Some c'" "4 + length (en_encode K t') \<le> b"
      "\<forall>b' \<in> set BUCKETS. b' < b \<longrightarrow> b' < 4 + length (en_encode K t')" for random' t' c'
  proof -
    note sealed' = sealed [OF that(1)] and fits = that(2,3)
    obtain b' where b': "b' \<in> set BUCKETS" "length c' = content_size n b'" "4 + length (en_encode K t') \<le> b'"
        "\<forall>x \<in> set BUCKETS. x < b' \<longrightarrow> x < 4 + length (en_encode K t')"
      using sealed' unfolding least by auto
    have "b' = b"
      using b' b(1) fits by (metis linorder_neqE_nat not_le)
    then show ?thesis
      using b' b(2) by simp
  qed
  then show ?thesis
    using b unfolding least by (metis not_le)
qed

text \<open>A coder of one byte per unit, a cipher that only tags, and a signer that wraps in the clear.\<close>

definition sample_coder :: coder where
  "sample_coder = \<lparr>en_encode = map of_nat, en_decode = map unat\<rparr>"

definition sample_gcm :: gcm where
  "sample_gcm = \<lparr>gc_seal = (\<lambda>rk iv p. p @ replicate 16 0), gc_open = (\<lambda>rk iv c. Some (take (length c - 16) c))\<rparr>"

definition sample_signer :: signer where
  "sample_signer = \<lparr>sg_pubkey = replicate 64 97, sg_encrypt = (\<lambda>r x. Some x), sg_decrypt = (\<lambda>a w. Some (JStr w))\<rparr>"

definition zeros :: "nat \<Rightarrow> nat \<Rightarrow> byte list" where
  "zeros i n = replicate n 0"

definition self_opts :: seal_opts where
  "self_opts = \<lparr>so_maxBucket = None, so_recipient = None\<rparr>"

lemma sample_laws: "lawful_gcm sample_gcm" "unwraps sample_signer r sample_signer" "wraps_to 44 sample_signer r"
  by (simp_all add: lawful_gcm_def sample_gcm_def unwraps_def wraps_to_def sample_signer_def btoa_units)

lemma sample_sealed:
  "\<exists>e. sealed_envelope sample_coder sample_gcm zeros (u ''hi'') sample_signer self_opts = Some e"
proof -
  have "hex64 (replicate 64 97)"
    using is_hex_hexes [of 64 64 97] by (simp add: hexes_def hex_unit_def)
  then show ?thesis
    by (simp add: sealed_envelope_def sample_signer_def self_opts_def padToBucket_def BUCKETS_def LENGTH_PREFIX_BYTES_def
        TOP_BUCKET_def sample_coder_def zeros_def IV_LENGTH_def Let_def)
qed

theorem envelope_opens_witness:
  "\<exists>e content. sealVaultPayload plain_platform sample_coder sample_gcm zeros (u ''hi'') sample_signer self_opts = Some content
     \<and> openVaultPayload plain_platform (\<lambda>t. Some (envelope_json e)) sample_coder sample_gcm content sample_signer (replicate 64 97) False
       = Some (u ''hi'')"
proof -
  obtain e where e: "sealed_envelope sample_coder sample_gcm zeros (u ''hi'') sample_signer self_opts = Some e"
    using sample_sealed by blast
  have c: "en_decode sample_coder (en_encode sample_coder (u ''hi'')) = u ''hi''"
    by (simp add: sample_coder_def u_def of_char_def)
  have "sg_pubkey sample_signer = replicate 64 97"
    by (simp add: sample_signer_def)
  then show ?thesis
    using envelope_opens [OF sample_laws(1) c e sample_laws(2,3), of "\<lambda>t. Some (envelope_json e)" plain_platform False] by auto
qed

theorem envelope_hides_length_witness:
  "\<exists>c. sealVaultPayload plain_platform sample_coder sample_gcm zeros (u ''hi'') sample_signer self_opts = Some c
     \<and> (\<exists>b \<in> set BUCKETS. length c = content_size 44 b)"
proof -
  obtain c where "sealVaultPayload plain_platform sample_coder sample_gcm zeros (u ''hi'') sample_signer self_opts = Some c"
    using sample_sealed by (auto simp: sealVaultPayload_def)
  then show ?thesis
    using envelope_hides_length [OF sample_laws(1,3)] by blast
qed

end
