(* ===== verification/Rules_Store.thy ===== *)
theory Rules_Store
  imports Child_Wire Json_Text Secret_Laws
begin

text \<open>
  The child rules at rest (\<open>lib/db.ts\<close>, the store \<open>childRules\<close>): rows sealed one by one under the
  unlock key, and the memory of decrypted rules. \<open>JSON.parse\<close> is a parameter.
\<close>

section \<open>Rules as objects\<close>

definition windows_json :: "window list \<Rightarrow> jsval" where
  "windows_json = enc_list (\<lambda>w. obj [(''start'', JStr (w_start w)), (''end'', JStr (w_end w))])"

definition schedule_json :: "schedule \<Rightarrow> jsval" where
  "schedule_json s = json_obj
     [(''v'', enc_num 1), (''tz'', JStr (sch_tz s)), (''paused'', if sch_paused s then JBool True else JUndef),
      (''weekly'', JObj (List.map_filter (\<lambda>k. map_option (\<lambda>ws. (weekday_key k, windows_json ws)) (sch_weekly s k)) WEEKDAY_KEYS)),
      (''overrides'', enc_opt (\<lambda>os. JObj (map (\<lambda>(d, ws). (d, windows_json ws)) os)) (sch_overrides s)),
      (''issuedAt'', enc_num (sch_issuedAt s))]"

fun decision_json :: "decision \<Rightarrow> jsval" where
  "decision_json Allow = JS ''allow''"
| "decision_json Deny = JS ''deny''"

definition binding_json :: "app_binding \<Rightarrow> jsval" where
  "binding_json b = obj [(''v'', enc_num 1), (''appId'', JStr (ab_appId b)), (''installKey'', JStr (ab_installKey b))]"

lemma as_windows_json: "as_windows (windows_json ws) = Some ws" "as_windows JUndef = None"
  by (simp_all add: as_windows_def windows_json_def enc_list_def as_window_def text_of_def comp_def map_idI)

lemma weekday_key_inj: "weekday_key a = weekday_key b \<longleftrightarrow> a = b"
  by (cases a; cases b; simp)

lemma map_of_map_filter:
  assumes "inj f"
  shows "map_of (List.map_filter (\<lambda>k. map_option (\<lambda>w. (f k, g w)) (h k)) ks) (f k) = (if k \<in> set ks then map_option g (h k) else None)"
  using assms by (induction ks) (auto simp: List.map_filter_simps inj_eq split: option.splits)

lemma as_schedule_json: "as_schedule (schedule_json s) = s"
proof -
  have weekly: "as_windows (case map_of (List.map_filter (\<lambda>k. map_option (\<lambda>ws. (weekday_key k, windows_json ws)) (h k)) WEEKDAY_KEYS)
      (weekday_key k) of None \<Rightarrow> JUndef | Some v \<Rightarrow> v) = h k" for h k
  proof -
    have "map_of (List.map_filter (\<lambda>k. map_option (\<lambda>ws. (weekday_key k, windows_json ws)) (h k)) WEEKDAY_KEYS) (weekday_key k)
        = map_option windows_json (h k)"
      by (cases k; subst map_of_map_filter) (simp_all add: inj_def weekday_key_inj WEEKDAY_KEYS_def)
    then show ?thesis
      by (cases "h k") (simp_all add: as_windows_json)
  qed
  have overrides: "map ((\<lambda>(d, ws). (d, case as_windows ws of Some l \<Rightarrow> l | None \<Rightarrow> [])) \<circ> (\<lambda>(d, ws). (d, windows_json ws))) os = os"
    for os :: "(ustr \<times> window list) list"
    by (auto simp: as_windows_json intro: map_idI)
  show ?thesis
    by (cases s; cases "sch_overrides s")
      (simp_all add: as_schedule_def schedule_json_def weekly overrides text_of_def enc_num_def)
qed

text \<open>What \<open>saveChildRule\<close> seals: all but the fields of the row.\<close>

definition rule_fields :: "child_rule \<Rightarrow> (string \<times> jsval) list" where
  "rule_fields r =
     [(''persona'', JStr (cr_persona r)), (''scope'', JStr (cr_scope r)), (''target'', JStr (cr_target r)),
      (''decision'', decision_json (cr_decision r)), (''appPermission'', enc_opt binding_json (cr_appPermission r)),
      (''schedule'', enc_opt schedule_json (cr_schedule r)), (''label'', enc_opt JStr (cr_label r)),
      (''createdAt'', enc_num (cr_createdAt r)), (''expiresAt'', enc_opt enc_num (cr_expiresAt r)),
      (''tombstonedAt'', enc_opt enc_num (cr_tombstonedAt r)), (''lastUsedAt'', enc_opt enc_num (cr_lastUsedAt r))]"

definition rule_content :: "child_rule \<Rightarrow> jsval" where
  "rule_content r = json_obj (rule_fields r)"

record stored_rule =
  sr_id :: ustr
  sr_dependantId :: ustr
  sr_updatedAt :: rat
  sr_encryptedData :: ustr

fun truthy :: "jsval \<Rightarrow> bool" where
  "truthy JUndef = False"
| "truthy JNull = False"
| "truthy (JBool b) = b"
| "truthy (JNum n) = (n \<noteq> NaN \<and> n \<noteq> Fin 0)"
| "truthy (JStr s) = (s \<noteq> [])"
| "truthy _ = True"

text \<open>A number read from JSON text is finite.\<close>

definition decodeChildRule :: "stored_rule \<Rightarrow> jsval \<Rightarrow> child_rule option" where
  "decodeChildRule row b =
     (case (as_str (get b ''persona''), as_str (get b ''scope''), as_str (get b ''target''), decision_of (get b ''decision'')) of
        (Some persona, Some scope, Some target, Some decision) \<Rightarrow>
          Some \<lparr>cr_id = sr_id row, cr_dependantId = sr_dependantId row, cr_persona = persona, cr_scope = scope, cr_target = target,
            cr_decision = decision, cr_appPermission = None,
            cr_schedule = (if truthy (get b ''schedule'') then Some (as_schedule (get b ''schedule'')) else None),
            cr_label = as_str (get b ''label''),
            cr_createdAt = (case as_num (get b ''createdAt'') of Some t \<Rightarrow> t | None \<Rightarrow> sr_updatedAt row),
            cr_updatedAt = sr_updatedAt row, cr_expiresAt = as_num (get b ''expiresAt''),
            cr_tombstonedAt = as_num (get b ''tombstonedAt''), cr_lastUsedAt = as_num (get b ''lastUsedAt'')\<rparr>
      | _ \<Rightarrow> None)"

text \<open>What a saved rule is read back as.\<close>

definition stored_form :: "child_rule \<Rightarrow> child_rule" where
  "stored_form r = r\<lparr>cr_dependantId := lower (cr_dependantId r), cr_appPermission := None\<rparr>"

lemma decision_of_json [simp]: "decision_of (decision_json d) = Some d"
  by (cases d) (simp_all add: decision_of_def)

lemma decode_content:
  "decodeChildRule \<lparr>sr_id = cr_id r, sr_dependantId = lower (cr_dependantId r), sr_updatedAt = cr_updatedAt r, sr_encryptedData = e\<rparr>
     (rule_content r) = Some (stored_form r)"
proof -
  have opt: "as_num (enc_opt enc_num x) = x" "as_str (enc_opt JStr y) = y" for x y
    by (cases x; cases y; simp add: enc_num_def as_num_def as_str_def)+
  have sched: "(truthy (enc_opt schedule_json x) \<longrightarrow> Some (as_schedule (enc_opt schedule_json x)) = x)
      \<and> (\<not> truthy (enc_opt schedule_json x) \<longrightarrow> None = x)" for x
    by (cases x) (simp_all add: as_schedule_json, simp add: schedule_json_def json_obj_def obj_def)
  show ?thesis
    by (cases r) (simp add: decodeChildRule_def rule_content_def rule_fields_def opt sched stored_form_def enc_num_def)
qed

section \<open>The store\<close>

text \<open>
  \<open>rd_rows\<close> is the object store, ordered by its key; \<open>rd_memo\<close> the memory of decrypted rules with the
  unlock key it belongs to; \<open>rd_keys\<close> the keys remembered by \<open>Secret_Store\<close>.
\<close>

record 'k rule_db =
  rd_rows :: "stored_rule list"
  rd_memo :: "(ustr \<times> (ustr \<rightharpoonup> ustr \<times> child_rule)) option"
  rd_keys :: "'k keyring"

fun put_row :: "stored_rule \<Rightarrow> stored_rule list \<Rightarrow> stored_rule list" where
  "put_row row [] = [row]"
| "put_row row (x # xs) =
     (if sr_id row = sr_id x then row # xs else if sr_id row < sr_id x then row # x # xs else x # put_row row xs)"

definition childRuleMemoFor :: "ustr \<Rightarrow> 'k rule_db \<Rightarrow> (ustr \<rightharpoonup> ustr \<times> child_rule)" where
  "childRuleMemoFor key d = (case rd_memo d of Some (k, m) \<Rightarrow> if k = key then m else Map.empty | None \<Rightarrow> Map.empty)"

definition forgetChildRuleCache :: "'k rule_db \<Rightarrow> 'k rule_db" where
  "forgetChildRuleCache d = d\<lparr>rd_memo := None\<rparr>"

text \<open>\<open>False\<close> is a rejected promise: the key could not be derived.\<close>

definition saveChildRule :: "platform \<Rightarrow> 'k webcrypto \<Rightarrow> child_rule \<Rightarrow> ustr \<Rightarrow> 'k rule_db \<Rightarrow> bool \<times> 'k rule_db" where
  "saveChildRule P W rule key d =
     (case encryptSecret W (json_text P (rule_content rule)) key (rd_keys d) of
        (None, R) \<Rightarrow> (False, d\<lparr>rd_keys := R\<rparr>)
      | (Some (salt, encryptedData), R) \<Rightarrow>
          (let row = \<lparr>sr_id = cr_id rule, sr_dependantId = lower (cr_dependantId rule), sr_updatedAt = cr_updatedAt rule,
                      sr_encryptedData = encryptedData\<rparr>;
               memo = childRuleMemoFor key d
           in (True, d\<lparr>rd_keys := R, rd_rows := put_row row (rd_rows d),
                rd_memo := Some (key, memo(cr_id rule := map_option (Pair encryptedData) (decodeChildRule row (rule_content rule))))\<rparr>)))"

text \<open>A row read with no memory: decrypted, parsed, decoded; any failure is a missing rule.\<close>

definition decrypt_parse :: "(ustr \<Rightarrow> jsval option) \<Rightarrow> ustr option \<Rightarrow> stored_rule \<Rightarrow> child_rule option" where
  "decrypt_parse parse text row = Option.bind (Option.bind text parse) (decodeChildRule row)"

definition decryptChildRule ::
    "(ustr \<Rightarrow> jsval option) \<Rightarrow> 'k webcrypto \<Rightarrow> stored_rule \<Rightarrow> ustr \<Rightarrow> 'k rule_db \<Rightarrow> child_rule option \<times> 'k rule_db" where
  "decryptChildRule parse W row key d =
     (let memo = childRuleMemoFor key d
      in if (\<exists>hit \<in> set_option (memo (sr_id row)). fst hit = sr_encryptedData row)
         then (map_option snd (memo (sr_id row)), d\<lparr>rd_memo := Some (key, memo)\<rparr>)
         else let (text, R) = decryptSecret W (sr_encryptedData row) key (rd_keys d);
                  rule = decrypt_parse parse text row
              in (rule, d\<lparr>rd_keys := R, rd_memo := Some (key,
                    case rule of None \<Rightarrow> memo | Some r \<Rightarrow> memo(sr_id row \<mapsto> (sr_encryptedData row, r)))\<rparr>))"

fun decrypt_all ::
    "(ustr \<Rightarrow> jsval option) \<Rightarrow> 'k webcrypto \<Rightarrow> stored_rule list \<Rightarrow> ustr \<Rightarrow> 'k rule_db \<Rightarrow> child_rule list \<times> 'k rule_db" where
  "decrypt_all parse W [] key d = ([], d)"
| "decrypt_all parse W (row # rows) key d =
     (let (r, d') = decryptChildRule parse W row key d; (rs, d'') = decrypt_all parse W rows key d'
      in (case r of None \<Rightarrow> rs | Some rule \<Rightarrow> rule # rs, d''))"

definition listChildRules ::
    "(ustr \<Rightarrow> jsval option) \<Rightarrow> 'k webcrypto \<Rightarrow> ustr \<Rightarrow> ustr \<Rightarrow> 'k rule_db \<Rightarrow> child_rule list \<times> 'k rule_db" where
  "listChildRules parse W dependantId key d =
     decrypt_all parse W (filter (\<lambda>row. sr_dependantId row = lower dependantId) (rd_rows d)) key d"

definition listAllChildRules :: "(ustr \<Rightarrow> jsval option) \<Rightarrow> 'k webcrypto \<Rightarrow> ustr \<Rightarrow> 'k rule_db \<Rightarrow> child_rule list \<times> 'k rule_db" where
  "listAllChildRules parse W key d = decrypt_all parse W (rd_rows d) key d"

definition tombstoneChildRule ::
    "platform \<Rightarrow> (ustr \<Rightarrow> jsval option) \<Rightarrow> 'k webcrypto \<Rightarrow> ustr \<Rightarrow> ustr \<Rightarrow> rat \<Rightarrow> 'k rule_db \<Rightarrow> bool \<times> 'k rule_db" where
  "tombstoneChildRule P parse W name key nowMs d =
     (case find (\<lambda>row. sr_id row = name) (rd_rows d) of
        None \<Rightarrow> (True, d)
      | Some row \<Rightarrow>
          (case decryptChildRule parse W row key d of
             (None, d') \<Rightarrow> (True, d')
           | (Some rule, d') \<Rightarrow> saveChildRule P W (rule\<lparr>cr_tombstonedAt := Some nowMs, cr_updatedAt := nowMs\<rparr>) key d'))"

section \<open>The memory never shows\<close>

definition plain_rule :: "(ustr \<Rightarrow> jsval option) \<Rightarrow> 'k webcrypto \<Rightarrow> ustr \<Rightarrow> stored_rule \<Rightarrow> child_rule option" where
  "plain_rule parse W key row = decrypt_parse parse (fst (decryptSecret W (sr_encryptedData row) key new_keyring)) row"

text \<open>A rule whose text the coder and the JSON parser give back.\<close>

definition storable :: "platform \<Rightarrow> (ustr \<Rightarrow> jsval option) \<Rightarrow> 'k webcrypto \<Rightarrow> child_rule \<Rightarrow> bool" where
  "storable P parse W r \<longleftrightarrow> codes W (json_text P (rule_content r)) \<and> parse (json_text P (rule_content r)) = Some (rule_content r)"

definition memo_fits :: "(ustr \<Rightarrow> jsval option) \<Rightarrow> 'k webcrypto \<Rightarrow> stored_rule list \<Rightarrow> ustr \<Rightarrow> (ustr \<rightharpoonup> ustr \<times> child_rule) \<Rightarrow> bool" where
  "memo_fits parse W rows key m \<longleftrightarrow>
     (\<forall>row \<in> set rows. \<forall>rule. m (sr_id row) = Some (sr_encryptedData row, rule) \<longrightarrow> plain_rule parse W key row = Some rule)"

definition db_ok :: "(ustr \<Rightarrow> jsval option) \<Rightarrow> 'k webcrypto \<Rightarrow> 'k rule_db \<Rightarrow> bool" where
  "db_ok parse W d \<longleftrightarrow> keyring_ok W (rd_keys d) \<and> sorted_wrt (<) (map sr_id (rd_rows d))
     \<and> (\<forall>(key, m) \<in> set_option (rd_memo d). memo_fits parse W (rd_rows d) key m)"

lemma memo_for_fits: "db_ok parse W d \<Longrightarrow> memo_fits parse W (rd_rows d) key (childRuleMemoFor key d)"
  by (auto simp: db_ok_def childRuleMemoFor_def memo_fits_def split: option.splits)

lemma put_row_set:
  "sorted_wrt (<) (map sr_id rows) \<Longrightarrow> set (put_row row rows) = insert row {x \<in> set rows. sr_id x \<noteq> sr_id row}
     \<and> sorted_wrt (<) (map sr_id (put_row row rows))"
proof (induction rows)
  case (Cons x xs)
  then have x: "\<forall>y \<in> set xs. sr_id x < sr_id y"
    by simp
  consider "sr_id row = sr_id x" | "sr_id row < sr_id x" | "sr_id x < sr_id row"
    by fastforce
  then show ?case
  proof cases
    case 1
    then show ?thesis
      using Cons.prems x by auto
  next
    case 2
    then show ?thesis
      using Cons.prems x by (auto dest: less_trans)
  next
    case 3
    then show ?thesis
      using Cons x by auto
  qed
qed simp

lemma row_of_id: "sorted_wrt (<) (map sr_id rows) \<Longrightarrow> a \<in> set rows \<Longrightarrow> b \<in> set rows \<Longrightarrow> sr_id a = sr_id b \<Longrightarrow> a = b"
  by (induction rows) auto

lemma decrypt_rule_ok:
  assumes "db_ok parse W d" "row \<in> set (rd_rows d)"
  shows "fst (decryptChildRule parse W row key d) = plain_rule parse W key row
    \<and> db_ok parse W (snd (decryptChildRule parse W row key d)) \<and> rd_rows (snd (decryptChildRule parse W row key d)) = rd_rows d"
proof -
  let ?m = "childRuleMemoFor key d"
  have fits: "memo_fits parse W (rd_rows d) key ?m"
    using assms(1) by (rule memo_for_fits)
  have ring: "keyring_ok W (rd_keys d)" and order: "sorted_wrt (<) (map sr_id (rd_rows d))"
    using assms(1) by (simp_all add: db_ok_def)
  show ?thesis
  proof (cases "\<exists>hit \<in> set_option (?m (sr_id row)). fst hit = sr_encryptedData row")
    case True
    then obtain rule where "?m (sr_id row) = Some (sr_encryptedData row, rule)"
      by force
    then show ?thesis
      using fits assms by (auto simp: decryptChildRule_def Let_def memo_fits_def db_ok_def)
  next
    case False
    let ?text = "decryptSecret W (sr_encryptedData row) key (rd_keys d)"
    have rule: "decrypt_parse parse (fst ?text) row = plain_rule parse W key row"
      using decrypt_value [OF ring] by (simp add: plain_rule_def)
    have "memo_fits parse W (rd_rows d) key (?m(sr_id row \<mapsto> (sr_encryptedData row, r)))" if "plain_rule parse W key row = Some r" for r
      using fits that row_of_id [OF order _ assms(2)] unfolding memo_fits_def by (metis fun_upd_apply option.inject snd_conv)
    then show ?thesis
      using False rule fits order decrypt_ok [OF ring, of "sr_encryptedData row" key]
      by (auto simp: decryptChildRule_def Let_def db_ok_def split: prod.splits option.splits)
  qed
qed

lemma decrypt_all_ok:
  assumes "db_ok parse W d" "set rows \<subseteq> set (rd_rows d)" "decrypt_all parse W rows key d = (rs, d')"
  shows "rs = List.map_filter (plain_rule parse W key) rows \<and> db_ok parse W d' \<and> rd_rows d' = rd_rows d"
  using assms
proof (induction rows arbitrary: d rs)
  case (Cons row rows)
  obtain r d1 where r: "decryptChildRule parse W row key d = (r, d1)"
    by fastforce
  obtain rs1 where rs1: "decrypt_all parse W rows key d1 = (rs1, d')" "rs = (case r of None \<Rightarrow> rs1 | Some rule \<Rightarrow> rule # rs1)"
    using Cons.prems(3) r by (auto split: prod.splits)
  have d1: "r = plain_rule parse W key row" "db_ok parse W d1" "rd_rows d1 = rd_rows d"
    using decrypt_rule_ok [OF Cons.prems(1), of row key] Cons.prems(2) r by auto
  then show ?case
    using Cons.IH [OF d1(2) _ rs1(1)] Cons.prems(2) rs1(2) by (auto simp: List.map_filter_simps split: option.splits)
qed (simp add: List.map_filter_simps)

section \<open>What is saved is read\<close>

lemma save_ok:
  assumes "lawful W" "db_ok parse W d" "storable P parse W r" "saveChildRule P W r key d = (ok, d')"
  shows "db_ok parse W d' \<and> (\<not> ok \<longrightarrow> rd_rows d' = rd_rows d)
    \<and> (ok \<longrightarrow> (\<exists>row. rd_rows d' = put_row row (rd_rows d) \<and> sr_id row = cr_id r
         \<and> sr_dependantId row = lower (cr_dependantId r) \<and> plain_rule parse W key row = Some (stored_form r)))"
proof -
  let ?t = "json_text P (rule_content r)"
  have ring: "keyring_ok W (rd_keys d)" and order: "sorted_wrt (<) (map sr_id (rd_rows d))"
    using assms(2) by (simp_all add: db_ok_def)
  obtain x R where x: "encryptSecret W ?t key (rd_keys d) = (x, R)"
    by fastforce
  have w: "writes W key (rd_keys d) {} (map_option (one_row ?t) x) R"
    by (rule encryptSecret_writes [OF assms(1) ring x])
  then have R: "keyring_ok W R"
    by (simp add: writes_def)
  show ?thesis
  proof (cases x)
    case None
    then show ?thesis
      using assms(2,4) R x by (auto simp: saveChildRule_def db_ok_def)
  next
    case (Some y)
    obtain salt e where y: "y = (salt, e)"
      by fastforce
    let ?row = "\<lparr>sr_id = cr_id r, sr_dependantId = lower (cr_dependantId r), sr_updatedAt = cr_updatedAt r, sr_encryptedData = e\<rparr>"
    have "opens W key ?t e"
      using w Some y by (auto simp: writes_def)
    then have plain: "plain_rule parse W key ?row = Some (stored_form r)"
      using opens_decrypt [OF assms(1) new_ok] assms(3) decode_content [of r e]
      by (simp add: plain_rule_def decrypt_parse_def storable_def)
    have d': "ok" "d' = d\<lparr>rd_keys := R, rd_rows := put_row ?row (rd_rows d),
        rd_memo := Some (key, (childRuleMemoFor key d)(cr_id r \<mapsto> (e, stored_form r)))\<rparr>"
      using assms(4) x Some y decode_content [of r e] by (auto simp: saveChildRule_def Let_def)
    have "memo_fits parse W (put_row ?row (rd_rows d)) key ((childRuleMemoFor key d)(cr_id r \<mapsto> (e, stored_form r)))"
      using memo_for_fits [OF assms(2), of key] plain put_row_set [OF order, of ?row]
      by (auto simp: memo_fits_def)
    then have "db_ok parse W d'"
      using R put_row_set [OF order, of ?row] by (simp add: db_ok_def d'(2))
    then show ?thesis
      using d' plain by auto
  qed
qed

lemma decode_id: "decodeChildRule row b = Some x \<Longrightarrow> cr_id x = sr_id row \<and> cr_appPermission x = None"
  by (cases "as_str (get b ''persona'')"; cases "as_str (get b ''scope'')"; cases "as_str (get b ''target'')";
      cases "decision_of (get b ''decision'')") (auto simp: decodeChildRule_def)

lemma plain_id: "plain_rule parse W key row = Some x \<Longrightarrow> cr_id x = sr_id row \<and> cr_appPermission x = None"
  using decode_id by (auto simp: plain_rule_def decrypt_parse_def bind_eq_Some_conv)

lemma set_map_filter: "set (List.map_filter f xs) = {y. \<exists>x \<in> set xs. f x = Some y}"
  by (induction xs) (auto simp: List.map_filter_simps split: option.splits)

lemma list_all_set:
  assumes "db_ok parse W d"
  shows "set (fst (listAllChildRules parse W key d)) = {x. \<exists>row \<in> set (rd_rows d). plain_rule parse W key row = Some x}"
  using decrypt_all_ok [OF assms order_refl, of key]
  by (cases "decrypt_all parse W (rd_rows d) key d") (auto simp: listAllChildRules_def set_map_filter)

text \<open>
  The store of a running app: rules are saved, tombstoned and listed under any key, the memory is
  forgotten, the keys of the vault change as other parts use them, and the store is purged.
\<close>

inductive rules_step :: "platform \<Rightarrow> (ustr \<Rightarrow> jsval option) \<Rightarrow> 'k webcrypto \<Rightarrow> 'k rule_db \<Rightarrow> 'k rule_db \<Rightarrow> bool" for P parse W where
  rule_saved: "rules_step P parse W d (snd (saveChildRule P W r key d))" if "storable P parse W r"
| rule_tombstoned: "rules_step P parse W d (snd (tombstoneChildRule P parse W name key now d))"
    if "\<forall>row r. plain_rule parse W key row = Some r \<longrightarrow> storable P parse W (r\<lparr>cr_tombstonedAt := Some now, cr_updatedAt := now\<rparr>)"
| rules_listed: "rules_step P parse W d (snd (listChildRules parse W dep key d))"
| all_listed: "rules_step P parse W d (snd (listAllChildRules parse W key d))"
| memory_forgotten: "rules_step P parse W d (forgetChildRuleCache d)"
| keys_moved: "rules_step P parse W d (d\<lparr>rd_keys := R\<rparr>)" if "keyring_ok W R"
| purged: "rules_step P parse W d ((forgetChildRuleCache d)\<lparr>rd_rows := []\<rparr>)"

definition new_rule_db :: "'k rule_db" where
  "new_rule_db = \<lparr>rd_rows = [], rd_memo = None, rd_keys = new_keyring\<rparr>"

lemma tombstone_ok:
  assumes "lawful W" "db_ok parse W d"
    and "\<forall>row r. plain_rule parse W key row = Some r \<longrightarrow> storable P parse W (r\<lparr>cr_tombstonedAt := Some now, cr_updatedAt := now\<rparr>)"
  shows "db_ok parse W (snd (tombstoneChildRule P parse W name key now d))"
proof (cases "find (\<lambda>row. sr_id row = name) (rd_rows d)")
  case (Some row)
  then have row: "row \<in> set (rd_rows d)"
    by (auto simp: find_Some_iff)
  obtain r d1 where r: "decryptChildRule parse W row key d = (r, d1)"
    by fastforce
  have d1: "r = plain_rule parse W key row" "db_ok parse W d1"
    using decrypt_rule_ok [OF assms(2) row, of key] r by auto
  show ?thesis
  proof (cases r)
    case (Some rule)
    obtain ok d2 where s: "saveChildRule P W (rule\<lparr>cr_tombstonedAt := Some now, cr_updatedAt := now\<rparr>) key d1 = (ok, d2)"
      by fastforce
    then have "db_ok parse W d2"
      using save_ok [OF assms(1) d1(2) _ s] assms(3) d1(1) Some by metis
    then show ?thesis
      using \<open>find _ _ = _\<close> r Some s by (simp add: tombstoneChildRule_def)
  qed (use \<open>find _ _ = _\<close> r d1 in \<open>simp add: tombstoneChildRule_def\<close>)
qed (use assms in \<open>simp add: tombstoneChildRule_def\<close>)

lemma rules_step_ok:
  assumes "lawful W" "rules_step P parse W d d'" "db_ok parse W d"
  shows "db_ok parse W d'"
  using assms(2)
proof cases
  case (rule_saved r key)
  then show ?thesis
    using save_ok [OF assms(1,3)] by (metis surjective_pairing)
next
  case rule_tombstoned
  then show ?thesis
    using tombstone_ok [OF assms(1,3)] by blast
next
  case (rules_listed dep key)
  then show ?thesis
    using decrypt_all_ok [OF assms(3)] by (metis filter_is_subset listChildRules_def surjective_pairing)
next
  case (all_listed key)
  then show ?thesis
    using decrypt_all_ok [OF assms(3) order_refl] by (metis listAllChildRules_def surjective_pairing)
qed (use assms(3) in \<open>auto simp: db_ok_def forgetChildRuleCache_def\<close>)

lemma rules_run_ok: "(rules_step P parse W)\<^sup>*\<^sup>* new_rule_db d \<Longrightarrow> lawful W \<Longrightarrow> db_ok parse W d"
  by (induction rule: rtranclp_induct) (auto simp: rules_step_ok, simp add: db_ok_def new_rule_db_def new_ok)

text \<open>Forgetting, or locking, changes nothing that is read.\<close>

lemma memory_never_shows:
  assumes "(rules_step P parse W)\<^sup>*\<^sup>* new_rule_db d" "lawful W"
  shows "fst (listAllChildRules parse W key d) = fst (listAllChildRules parse W key (d\<lparr>rd_memo := None, rd_keys := new_keyring\<rparr>))
    \<and> fst (listChildRules parse W dep key d) = fst (listChildRules parse W dep key (d\<lparr>rd_memo := None, rd_keys := new_keyring\<rparr>))"
proof -
  have ok: "db_ok parse W d"
    by (rule rules_run_ok [OF assms])
  then have ok': "db_ok parse W (d\<lparr>rd_memo := None, rd_keys := new_keyring\<rparr>)"
    by (simp add: db_ok_def new_ok)
  have plain: "fst (decrypt_all parse W rows key x) = List.map_filter (plain_rule parse W key) rows"
    if "db_ok parse W x" "set rows \<subseteq> set (rd_rows x)" for x :: "'a rule_db" and rows
    using decrypt_all_ok [OF that, of key] by (cases "decrypt_all parse W rows key x") auto
  show ?thesis
    using plain [OF ok] plain [OF ok'] by (simp add: listAllChildRules_def listChildRules_def)
qed

lemma save_lists:
  assumes "lawful W" "db_ok parse W d" "storable P parse W r" "saveChildRule P W r key d = (True, d')"
  shows "stored_form r \<in> set (fst (listAllChildRules parse W key d'))
    \<and> (\<forall>x. cr_id x = cr_id r \<longrightarrow> x \<in> set (fst (listAllChildRules parse W key d')) \<longrightarrow> x = stored_form r)
    \<and> (\<forall>x. cr_id x \<noteq> cr_id r \<longrightarrow>
         (x \<in> set (fst (listAllChildRules parse W key d')) \<longleftrightarrow> x \<in> set (fst (listAllChildRules parse W key d))))"
proof -
  note ok = assms(2)
  obtain row where row: "rd_rows d' = put_row row (rd_rows d)" "sr_id row = cr_id r" "plain_rule parse W key row = Some (stored_form r)"
      "db_ok parse W d'"
    using save_ok [OF assms(1) ok assms(3,4)] by auto
  have "sorted_wrt (<) (map sr_id (rd_rows d))"
    using ok by (simp add: db_ok_def)
  then have rows: "set (rd_rows d') = insert row {x \<in> set (rd_rows d). sr_id x \<noteq> sr_id row}"
    using put_row_set row(1) by metis
  have id: "plain_rule parse W key x = Some y \<Longrightarrow> sr_id x = cr_id y" for x y
    using plain_id by metis
  show ?thesis
    unfolding list_all_set [OF ok] list_all_set [OF row(4)] rows
    using row(2,3) by (auto dest: id) (metis id)
qed

section \<open>Properties\<close>

text \<open>
  C22 (roundtrip): A rule without an app binding that is saved is the rule that is read. After a successful
  save in any state the store can reach, listing under the same key gives the rule, every field of it, with its
  dependant in lower case, gives nothing else under its id, and gives every other rule exactly when it was
  given before, whatever the memory of decrypted rules and of keys holds. The rule's text is assumed
  to be one the coder and the JSON parser give back. A rule with an app binding, which only a standing app
  permission has, is not covered: its binding is lost, see the finding on decodeChildRule.
\<close>

theorem saved_rule_read_back:
  assumes "lawful W" "(rules_step P parse W)\<^sup>*\<^sup>* new_rule_db d" "storable P parse W r" "cr_appPermission r = None"
    and "saveChildRule P W r key d = (True, d')"
  shows "r\<lparr>cr_dependantId := lower (cr_dependantId r)\<rparr> \<in> set (fst (listAllChildRules parse W key d'))
    \<and> (\<forall>x. cr_id x = cr_id r \<longrightarrow> x \<in> set (fst (listAllChildRules parse W key d'))
         \<longrightarrow> x = r\<lparr>cr_dependantId := lower (cr_dependantId r)\<rparr>)
    \<and> (\<forall>x. cr_id x \<noteq> cr_id r \<longrightarrow>
         (x \<in> set (fst (listAllChildRules parse W key d')) \<longleftrightarrow> x \<in> set (fst (listAllChildRules parse W key d))))"
proof -
  have "stored_form r = r\<lparr>cr_dependantId := lower (cr_dependantId r)\<rparr>"
    using assms(4) by (simp add: stored_form_def)
  then show ?thesis
    using save_lists [OF assms(1) rules_run_ok [OF assms(2,1)] assms(3,5)] by simp
qed

definition block_rule :: child_rule where
  "block_rule = \<lparr>cr_id = replicate 32 48, cr_dependantId = replicate 64 97, cr_persona = u ''*'', cr_scope = u ''*'',
     cr_target = u ''app:nip55:com.example.game'', cr_decision = Deny, cr_appPermission = None, cr_schedule = None, cr_label = None,
     cr_createdAt = 1, cr_updatedAt = 1, cr_expiresAt = None, cr_tombstonedAt = None, cr_lastUsedAt = None\<rparr>"

text \<open>A parser that knows the text of one rule.\<close>

definition parse_only :: "child_rule \<Rightarrow> ustr \<Rightarrow> jsval option" where
  "parse_only r t = (if t = json_text plain_platform (rule_content r) then Some (rule_content r) else None)"

lemma sample_storable: "storable plain_platform (parse_only r) sample_crypto r"
  by (simp add: storable_def sample_codes parse_only_def)

lemma sample_saved: "fst (saveChildRule plain_platform sample_crypto r unlock_key new_rule_db)"
  by (simp add: saveChildRule_def encryptSecret_def freshSaltKey_def getRandomValues_def sealed_under_def sample_crypto_def Let_def)

theorem saved_rule_read_back_witness:
  "block_rule \<in> set (fst (listAllChildRules (parse_only block_rule) sample_crypto unlock_key
     (snd (saveChildRule plain_platform sample_crypto block_rule unlock_key new_rule_db))))"
proof -
  have save: "saveChildRule plain_platform sample_crypto block_rule unlock_key new_rule_db
      = (True, snd (saveChildRule plain_platform sample_crypto block_rule unlock_key new_rule_db))"
    using sample_saved by (metis surjective_pairing)
  have plain: "cr_appPermission block_rule = None" and same: "block_rule\<lparr>cr_dependantId := lower (cr_dependantId block_rule)\<rparr> = block_rule"
    by (simp_all add: block_rule_def lower_def lower_unit_def)
  from saved_rule_read_back [OF sample_lawful rtranclp.rtrancl_refl sample_storable plain save] show ?thesis
    unfolding same by blast
qed

end
