(* ===== verification/Rules_Payload.thy ===== *)
theory Rules_Payload
  imports Policy_Compiler Rules_Store Vault_Envelope
begin

text \<open>
  From the guardian's records to the child's phone: the payload published for a dependant
  (\<open>hooks/useChildRulesPublisher.ts\<close>), the personas it may use (\<open>lib/child-device-pairing.ts\<close>), the
  apps it must refuse (\<open>lib/child-permissions.ts\<close>), and the event that carries it
  (\<open>lib/child-rules-wire.ts\<close>), built by the guardian and opened by the child. Keys, signatures and
  NIP-44 are parameters.
\<close>

section \<open>The paired dependant\<close>

text \<open>\<open>ch_direct\<close>: the mode is \<open>heartwood-direct\<close>.\<close>

record child_device =
  ch_direct :: bool
  ch_clientPubkey :: ustr
  ch_boundPersona :: ustr
  ch_removedPersonas :: "ustr list option"

record paired_dependant = dependant_identity +
  dn_displayName :: ustr
  dn_personaName :: ustr
  dn_hiddenKeys :: "ustr list option"
  dn_childDevice :: "child_device option"

datatype persona_role = Role_persona | Role_natural_person | Role_extra

record reply_persona =
  ry_pubkey :: ustr
  ry_name :: ustr
  ry_role :: persona_role

definition bound_key :: "paired_dependant \<Rightarrow> ustr" where
  "bound_key dep = (case dn_childDevice dep of None \<Rightarrow> [] | Some cd \<Rightarrow> lower (ch_boundPersona cd))"

text \<open>Personas removed from the phone, never the bound one.\<close>

definition removed_keys :: "paired_dependant \<Rightarrow> ustr list" where
  "removed_keys dep = filter (\<lambda>k. k \<noteq> bound_key dep)
     (map lower (case dn_childDevice dep of None \<Rightarrow> []
                 | Some cd \<Rightarrow> (case ch_removedPersonas cd of None \<Rightarrow> [] | Some ks \<Rightarrow> ks)))"

definition add_persona :: "paired_dependant \<Rightarrow> ustr \<times> ustr \<times> persona_role \<Rightarrow> reply_persona list \<Rightarrow> reply_persona list" where
  "add_persona dep = (\<lambda>(pubkey, name, role) out.
     (let p = lower pubkey in
      if \<not> hex64 p \<or> p \<in> set (map ry_pubkey out) \<or> p \<in> set (removed_keys dep) \<or> 32 \<le> length out then out
      else out @ [\<lparr>ry_pubkey = p, ry_name = (if name = [] then dn_displayName dep else name), ry_role = role\<rparr>]))"

definition extras_of :: "paired_dependant \<Rightarrow> extra_persona list" where
  "extras_of dep = (case dep_extraPersonas dep of None \<Rightarrow> [] | Some xs \<Rightarrow> xs)"

definition replyPersonas :: "paired_dependant \<Rightarrow> reply_persona list" where
  "replyPersonas dep =
     (let hidden = map lower (case dn_hiddenKeys dep of None \<Rightarrow> [] | Some ks \<Rightarrow> ks)
      in fold (add_persona dep)
           ([(dep_personaKey dep, dn_personaName dep, Role_persona)]
            @ (if isDependantNaturalPersonActive dep then [(dep_publicKey dep, dep_displayName dep, Role_natural_person)] else [])
            @ map (\<lambda>x. (xp_publicKey x, xp_displayName x, Role_extra))
                (filter (\<lambda>x. lower (xp_publicKey x) \<notin> set hidden) (extras_of dep))) [])"

section \<open>The payload\<close>

definition DISCONNECTED_APPS_MAX :: nat where
  "DISCONNECTED_APPS_MAX = 64"

definition isAppBlockRule :: "child_rule \<Rightarrow> bool" where
  "isAppBlockRule r \<longleftrightarrow> cr_decision r = Deny \<and> cr_scope r = u ''*'' \<and> cr_persona r = u ''*'' \<and> is_app_target (cr_target r)"

text \<open>Newest first, each name once, no more than the cap.\<close>

definition disconnectedAppsFromRules :: "child_rule list \<Rightarrow> rat \<Rightarrow> ustr list" where
  "disconnectedAppsFromRules rules nowMs =
     take DISCONNECTED_APPS_MAX (uniq (filter (\<lambda>app. app \<noteq> [] \<and> length app \<le> 200)
       (map (\<lambda>r. drop 4 (cr_target r))
         (sort_key (\<lambda>r. - cr_updatedAt r) (filter (\<lambda>r. isAppBlockRule r \<and> isLiveRule r nowMs) rules)))))"

definition rule_like_of :: "child_rule \<Rightarrow> rule_like" where
  "rule_like_of r = \<lparr>rl_scope = cr_scope r, rl_decision = cr_decision r, rl_tombstonedAt = cr_tombstonedAt r,
     rl_expiresAt = cr_expiresAt r, rl_updatedAt = Some (cr_updatedAt r)\<rparr>"

definition rules_of :: "paired_dependant \<Rightarrow> child_rule list \<Rightarrow> child_rule list" where
  "rules_of dep rules = filter (\<lambda>r. lower (cr_dependantId r) = lower (dep_id dep)) rules"

definition paused :: "schedule option \<Rightarrow> bool" where
  "paused s \<longleftrightarrow> (\<exists>x \<in> set_option s. sch_paused x)"

definition publisher_input :: "paired_dependant \<Rightarrow> child_device \<Rightarrow> child_rule list \<Rightarrow> approval list \<Rightarrow> rat \<Rightarrow> direct_input" where
  "publisher_input dep cd rules approvedOnce nowMs =
     \<lparr>di_stage = dep_autonomyStage dep, di_paused = paused (dep_defaultSchedule dep),
      di_rules = map rule_like_of (rules_of dep rules), di_approvedOnceKinds = approvedOnce, di_boundPersona = ch_boundPersona cd,
      di_auditVisible = resolveAuditVisibility (dep_autonomyStage dep) (dep_auditVisibility dep),
      di_nowSeconds = of_int \<lfloor>nowMs / 1000\<rfloor>\<rparr>"

text \<open>
  The outer option is the exception of the compiler. \<open>collate\<close> gives the key by which \<open>localeCompare\<close>
  orders; the time \<open>updatedAt\<close>, which the publisher adds, is an argument.
\<close>

definition live_rules :: "(ustr \<Rightarrow> nat list) \<Rightarrow> paired_dependant \<Rightarrow> child_rule list \<Rightarrow> rat \<Rightarrow> child_rule list" where
  "live_rules collate dep rules nowMs =
     sort_key (\<lambda>r. collate (cr_id r))
       (map (\<lambda>r. r\<lparr>cr_dependantId := lower (dep_id dep)\<rparr>) (filter (\<lambda>r. isLiveRule r nowMs) (rules_of dep rules)))"

definition childRulesPayloadFor ::
    "(ustr \<Rightarrow> nat list) \<Rightarrow> paired_dependant \<Rightarrow> child_rule list \<Rightarrow> approval list \<Rightarrow> rat \<Rightarrow> rat \<Rightarrow> rules_payload option option" where
  "childRulesPayloadFor collate dep rules approvedOnce nowMs updatedAt =
     (case dn_childDevice dep of
        None \<Rightarrow> Some None
      | Some cd \<Rightarrow>
          if \<not> ch_direct cd then Some None
          else map_option (\<lambda>policy.
            let live = live_rules collate dep rules nowMs
            in Some \<lparr>rp_dependantId = lower (dep_id dep), rp_stage = dep_autonomyStage dep,
                 rp_defaultSchedule = dep_defaultSchedule dep, rp_ceilingKinds = sp_allowedKinds policy, rp_rules = live,
                 rp_disconnectedApps = disconnectedAppsFromRules live nowMs,
                 rp_personas = Some (map ry_pubkey (replyPersonas dep)), rp_updatedAt = updatedAt\<rparr>)
            (compileChildDirectPolicy (publisher_input dep cd rules approvedOnce nowMs)))"

section \<open>The event\<close>

definition rule_json :: "child_rule \<Rightarrow> jsval" where
  "rule_json r = json_obj ([(''id'', JStr (cr_id r)), (''dependantId'', JStr (cr_dependantId r)), (''updatedAt'', enc_num (cr_updatedAt r))]
     @ rule_fields r)"

definition payload_json :: "rules_payload \<Rightarrow> jsval" where
  "payload_json p = json_obj
     [(''v'', enc_num 1), (''dependantId'', JStr (rp_dependantId p)), (''stage'', JStr (stage_name (rp_stage p))),
      (''ceilingKinds'', enc_list (\<lambda>k. enc_num (of_int k)) (rp_ceilingKinds p)), (''rules'', enc_list rule_json (rp_rules p)),
      (''disconnectedApps'', enc_list JStr (rp_disconnectedApps p)), (''updatedAt'', enc_num (rp_updatedAt p)),
      (''personas'', enc_opt (enc_list JStr) (rp_personas p)), (''defaultSchedule'', enc_opt schedule_json (rp_defaultSchedule p))]"

text \<open>Live rules of this dependant only, without usage and tombstone.\<close>

definition wire_rules :: "rules_payload \<Rightarrow> child_rule list" where
  "wire_rules p = map (\<lambda>r. r\<lparr>cr_lastUsedAt := None, cr_tombstonedAt := None\<rparr>)
     (filter (\<lambda>r. cr_dependantId r = rp_dependantId p \<and> \<not> stamped (cr_tombstonedAt r)) (rp_rules p))"

record rail_event =
  re_pubkey :: ustr
  re_kind :: int
  re_created :: int
  re_tags :: "ustr list list"
  re_content :: ustr
  re_seal :: ustr

text \<open>
  The curve: the public key of a private one (\<open>None\<close> for a key that is none), NIP-44 between a private and a
  public key, the signing of an event, \<open>re_seal\<close> its id and signature, and its verification.
\<close>

record curve =
  cu_public :: "ustr \<Rightarrow> ustr option"
  cu_encrypt :: "ustr \<Rightarrow> ustr \<Rightarrow> ustr \<Rightarrow> ustr option"
  cu_decrypt :: "ustr \<Rightarrow> ustr \<Rightarrow> ustr \<Rightarrow> jsval option"
  cu_sign :: "ustr \<Rightarrow> rail_event \<Rightarrow> ustr"
  cu_verify :: "rail_event \<Rightarrow> bool"

definition signer_of :: "curve \<Rightarrow> ustr \<Rightarrow> ustr \<Rightarrow> signer" where
  "signer_of U sk pub = \<lparr>sg_pubkey = pub, sg_encrypt = cu_encrypt U sk, sg_decrypt = cu_decrypt U sk\<rparr>"

definition CHILD_RULES_WIRE_D_TAG :: ustr where
  "CHILD_RULES_WIRE_D_TAG = u ''signet:child-rules:v1''"

definition RULES_KIND :: int where
  "RULES_KIND = 30078"

text \<open>What the two sides share: the platform, its parser, coder and cipher, and the curve.\<close>

record rail =
  ra_platform :: platform
  ra_parse :: "ustr \<Rightarrow> jsval option"
  ra_coder :: coder
  ra_gcm :: gcm
  ra_curve :: curve

text \<open>What is sent of a payload, \<open>None\<close> the exception for a payload of a form the other side would refuse.\<close>

definition sent_payload :: "tz_clock \<Rightarrow> app_env \<Rightarrow> (ustr \<Rightarrow> ustr) \<Rightarrow> rules_payload \<Rightarrow> rules_payload option" where
  "sent_payload C E H p =
     (case checkPayload C E H (payload_json (p\<lparr>rp_rules := wire_rules p\<rparr>)) of Inl _ \<Rightarrow> None | Inr q \<Rightarrow> Some q)"

definition rules_tags :: "ustr \<Rightarrow> ustr list list" where
  "rules_tags client = [[u ''d'', CHILD_RULES_WIRE_D_TAG], [u ''p'', client]]"

definition signed :: "curve \<Rightarrow> ustr \<Rightarrow> rail_event \<Rightarrow> rail_event" where
  "signed U sk ev = ev\<lparr>re_seal := cu_sign U sk ev\<rparr>"

definition buildChildRulesEvent ::
    "rail \<Rightarrow> tz_clock \<Rightarrow> app_env \<Rightarrow> (ustr \<Rightarrow> ustr) \<Rightarrow> (nat \<Rightarrow> nat \<Rightarrow> byte list) \<Rightarrow> rules_payload \<Rightarrow> ustr \<Rightarrow> ustr \<Rightarrow> int \<Rightarrow> rail_event option" where
  "buildChildRulesEvent R C E H random p railPrivateKey childClientPubkey nowS =
     (if \<not> hex64 childClientPubkey \<or> \<not> safe_int nowS then None
      else Option.bind (sent_payload C E H p) (\<lambda>payload.
        Option.bind (cu_public (ra_curve R) railPrivateKey) (\<lambda>railPub.
          map_option (\<lambda>content. signed (ra_curve R) railPrivateKey
              \<lparr>re_pubkey = railPub, re_kind = RULES_KIND, re_created = nowS, re_tags = rules_tags childClientPubkey,
               re_content = content, re_seal = []\<rparr>)
            (sealVaultPayload (ra_platform R) (ra_coder R) (ra_gcm R) random (json_text (ra_platform R) (payload_json payload))
               (signer_of (ra_curve R) railPrivateKey railPub) \<lparr>so_maxBucket = None, so_recipient = Some childClientPubkey\<rparr>))))"

definition openChildRulesEvent ::
    "rail \<Rightarrow> tz_clock \<Rightarrow> app_env \<Rightarrow> (ustr \<Rightarrow> ustr) \<Rightarrow> rail_event \<Rightarrow> ustr \<Rightarrow> ustr \<Rightarrow> ustr \<Rightarrow> rules_payload option" where
  "openChildRulesEvent R C E H ev clientPrivateKey railPubkey dependantId =
     (if \<not> hex64 railPubkey \<or> \<not> hex64 dependantId then None
      else Option.bind (cu_public (ra_curve R) clientPrivateKey) (\<lambda>clientPub.
        if re_pubkey ev \<noteq> railPubkey \<or> re_kind ev \<noteq> RULES_KIND \<or> length (re_content ev) > MAX_ENVELOPE_CHARS
          \<or> re_tags ev \<noteq> rules_tags clientPub then None
        else if \<not> cu_verify (ra_curve R) ev then None
        else Option.bind (openVaultPayload (ra_platform R) (ra_parse R) (ra_coder R) (ra_gcm R) (re_content ev)
               (signer_of (ra_curve R) clientPrivateKey clientPub) railPubkey False) (\<lambda>plaintext.
             Option.bind (ra_parse R plaintext) (\<lambda>v.
               case checkPayload C E H v of
                 Inl _ \<Rightarrow> None
               | Inr payload \<Rightarrow> if rp_dependantId payload \<noteq> dependantId then None else Some payload))))"

text \<open>What the child makes of the text that was sent.\<close>

definition accepted_payload :: "tz_clock \<Rightarrow> app_env \<Rightarrow> (ustr \<Rightarrow> ustr) \<Rightarrow> rules_payload \<Rightarrow> rules_payload option" where
  "accepted_payload C E H p =
     Option.bind (sent_payload C E H p) (\<lambda>q.
       case checkPayload C E H (payload_json q) of Inl _ \<Rightarrow> None | Inr r \<Rightarrow> Some r)"

section \<open>A rule on the wire\<close>

text \<open>What the reader asks of a rule that was written by \<open>rule_json\<close>, and what it makes of it.\<close>

definition kept_time :: "rat option \<Rightarrow> rat option" where
  "kept_time t = Option.bind t (\<lambda>x. if wire_time x then Some x else None)"

definition binding_admitted :: "app_env \<Rightarrow> child_rule \<Rightarrow> bool" where
  "binding_admitted E r \<longleftrightarrow> (\<forall>b \<in> set_option (cr_appPermission r). APP_ID (ab_appId b) \<and> isXOnlyPoint E (ab_installKey b)
     \<and> kept_time (cr_expiresAt r) \<noteq> None \<and> cr_scope r = u ''app-permission'' \<and> cr_persona r \<noteq> u ''*''
     \<and> starts_with (cr_target r) (u ''site:''))"

definition wire_admits :: "app_env \<Rightarrow> (ustr \<Rightarrow> ustr) \<Rightarrow> child_rule \<Rightarrow> bool" where
  "wire_admits E H r \<longleftrightarrow> hex64 (cr_dependantId r) \<and> (cr_persona r = u ''*'' \<or> hex64 (cr_persona r))
     \<and> SCOPE_RE (cr_scope r) \<and> isValidRuleScope (cr_scope r) \<and> TARGET_RE (cr_target r)
     \<and> wire_time (cr_createdAt r) \<and> wire_time (cr_updatedAt r)
     \<and> cr_id r = childRuleId H (cr_dependantId r) (cr_persona r) (cr_scope r) (cr_target r) \<and> binding_admitted E r"

definition crossed :: "tz_clock \<Rightarrow> child_rule \<Rightarrow> child_rule" where
  "crossed C r = r\<lparr>cr_schedule := Option.bind (cr_schedule r) (\<lambda>s. parseScheduleValue C (schedule_json s)),
     cr_label := Option.bind (cr_label r) (\<lambda>l. label_of (JStr l)), cr_expiresAt := kept_time (cr_expiresAt r),
     cr_tombstonedAt := kept_time (cr_tombstonedAt r), cr_lastUsedAt := kept_time (cr_lastUsedAt r)\<rparr>"

lemma posInt_time: "posInt (enc_num t) = (if wire_time t then Some t else None)" "posInt (enc_opt enc_num x) = kept_time x"
  by (cases x; simp add: posInt_def enc_num_def wire_time_def kept_time_def)+

lemma rule_json_fields [simp]:
  "get (rule_json r) ''id'' = JStr (cr_id r)" "get (rule_json r) ''dependantId'' = JStr (cr_dependantId r)"
  "get (rule_json r) ''updatedAt'' = enc_num (cr_updatedAt r)" "get (rule_json r) ''persona'' = JStr (cr_persona r)"
  "get (rule_json r) ''scope'' = JStr (cr_scope r)" "get (rule_json r) ''target'' = JStr (cr_target r)"
  "get (rule_json r) ''decision'' = decision_json (cr_decision r)"
  "get (rule_json r) ''appPermission'' = enc_opt binding_json (cr_appPermission r)"
  "get (rule_json r) ''schedule'' = enc_opt schedule_json (cr_schedule r)"
  "get (rule_json r) ''label'' = enc_opt JStr (cr_label r)" "get (rule_json r) ''createdAt'' = enc_num (cr_createdAt r)"
  "get (rule_json r) ''expiresAt'' = enc_opt enc_num (cr_expiresAt r)"
  "get (rule_json r) ''tombstonedAt'' = enc_opt enc_num (cr_tombstonedAt r)"
  "get (rule_json r) ''lastUsedAt'' = enc_opt enc_num (cr_lastUsedAt r)"
  by (simp_all add: rule_json_def rule_fields_def)

lemma binding_crosses:
  "binding_of E (rule_json r) = (if binding_admitted E r then Some (cr_appPermission r) else None)"
  by (cases "cr_appPermission r")
    (auto simp: binding_of_def Let_def binding_admitted_def posInt_time binding_json_def enc_num_def text_of_def is_str_def)

lemma schedule_crosses: "parseScheduleValue C (enc_opt schedule_json s) = Option.bind s (\<lambda>x. parseScheduleValue C (schedule_json x))"
  by (cases s) (simp_all add: parseScheduleValue_def)

lemma rule_crosses:
  "parseChildRuleRecord C E H (rule_json r) = (if wire_admits E H r then Inr (crossed C r) else Inl ())"
proof -
  have "is_object_type (rule_json r)"
    by (simp add: rule_json_def json_obj_def obj_def)
  moreover have "label_of (enc_opt JStr l) = Option.bind l (\<lambda>x. label_of (JStr x))" for l
    by (cases l) (simp_all add: label_of_def)
  ultimately show ?thesis
    by (simp add: parseChildRuleRecord_def check_def need_def wire_admits_def crossed_def posInt_time binding_crosses schedule_crosses)
qed

text \<open>The fields by which a rule decides; a rule that crosses keeps them.\<close>

definition same_rule :: "child_rule \<Rightarrow> child_rule \<Rightarrow> bool" where
  "same_rule r r' \<longleftrightarrow> cr_id r' = cr_id r \<and> cr_dependantId r' = cr_dependantId r \<and> cr_persona r' = cr_persona r
     \<and> cr_scope r' = cr_scope r \<and> cr_target r' = cr_target r \<and> cr_decision r' = cr_decision r
     \<and> cr_appPermission r' = cr_appPermission r \<and> cr_createdAt r' = cr_createdAt r \<and> cr_updatedAt r' = cr_updatedAt r
     \<and> (cr_expiresAt r' = cr_expiresAt r \<or> cr_expiresAt r' = None)"

lemma same_rule_refl: "same_rule r r" and same_rule_trans: "same_rule r s \<Longrightarrow> same_rule s t \<Longrightarrow> same_rule r t"
  by (auto simp: same_rule_def)

lemma kept_time_cases: "kept_time t = t \<or> kept_time t = None"
  by (cases t) (auto simp: kept_time_def)

lemma kept_time_idem [simp]: "kept_time (kept_time t) = kept_time t"
  by (cases t) (simp_all add: kept_time_def)

lemma crossed_admitted: "wire_admits E H r \<Longrightarrow> wire_admits E H (crossed C r)"
  by (simp add: wire_admits_def binding_admitted_def crossed_def)

lemma kept_crosses:
  "kept_rule C E H dep (rule_json r) = (if wire_admits E H r \<and> cr_dependantId r = dep \<and> kept_time (cr_tombstonedAt r) = None
     then Some ((crossed C r)\<lparr>cr_lastUsedAt := None\<rparr>) else None)"
  by (simp add: kept_rule_def rule_crosses) (simp add: crossed_def)

lemma kept_same: "kept_rule C E H dep (rule_json r) = Some r' \<Longrightarrow> same_rule r r'"
  using kept_time_cases [of "cr_expiresAt r"] by (auto simp: kept_crosses same_rule_def crossed_def split: if_splits)

text \<open>A rule of the dependant that is live and well-formed is kept by both readers.\<close>

lemma kept_twice:
  assumes "wire_admits E H r" "cr_dependantId r = dep" "cr_tombstonedAt r = None"
  shows "\<exists>r1 r2. kept_rule C E H dep (rule_json r) = Some r1 \<and> kept_rule C E H dep (rule_json r1) = Some r2 \<and> same_rule r r2
    \<and> cr_tombstonedAt r2 = None"
proof -
  let ?r1 = "(crossed C r)\<lparr>cr_lastUsedAt := None\<rparr>"
  have k: "kept_time None = None"
    by (simp add: kept_time_def)
  have one: "kept_rule C E H dep (rule_json r) = Some ?r1"
    using assms k by (simp add: kept_crosses)
  have "wire_admits E H ?r1"
    using crossed_admitted [OF assms(1), of C] by (simp add: wire_admits_def binding_admitted_def)
  moreover have "cr_dependantId ?r1 = dep" "cr_tombstonedAt ?r1 = None"
    using assms(2,3) k by (simp_all add: crossed_def)
  ultimately have two: "kept_rule C E H dep (rule_json ?r1) = Some ((crossed C ?r1)\<lparr>cr_lastUsedAt := None\<rparr>)"
    using k by (simp add: kept_crosses)
  moreover have "cr_tombstonedAt ((crossed C ?r1)\<lparr>cr_lastUsedAt := None\<rparr>) = None"
    using assms(3) k by (simp add: crossed_def)
  ultimately show ?thesis
    using one kept_same [OF one] kept_same [OF two] same_rule_trans by blast
qed

section \<open>A payload on the wire\<close>

lemma payload_json_fields [simp]:
  "get (payload_json p) ''v'' = JNum (Fin 1)" "get (payload_json p) ''dependantId'' = JStr (rp_dependantId p)"
  "get (payload_json p) ''stage'' = JStr (stage_name (rp_stage p))"
  "get (payload_json p) ''ceilingKinds'' = enc_list (\<lambda>k. enc_num (of_int k)) (rp_ceilingKinds p)"
  "get (payload_json p) ''rules'' = enc_list rule_json (rp_rules p)"
  "get (payload_json p) ''disconnectedApps'' = enc_list JStr (rp_disconnectedApps p)"
  "get (payload_json p) ''updatedAt'' = enc_num (rp_updatedAt p)"
  "get (payload_json p) ''personas'' = enc_opt (enc_list JStr) (rp_personas p)"
  "get (payload_json p) ''defaultSchedule'' = enc_opt schedule_json (rp_defaultSchedule p)"
  by (simp_all add: payload_json_def) (simp add: enc_num_def)

lemma stage_of_name: "stage_of (JStr (stage_name st)) = Some st"
  by (cases st) (simp_all add: stage_of_def STAGES_def)

lemma array_of_enc:
  assumes "array_of n f (enc_list g xs) = Some ys" "\<And>x y. f (g x) = Some y \<Longrightarrow> y = h x"
  shows "ys = map h xs"
proof -
  have "map (\<lambda>x. f (g x)) xs = map Some ys"
    using assms(1) by (simp add: array_of_def enc_list_def those_Some comp_def split: if_splits)
  then show ?thesis
    using assms(2) by (induction xs arbitrary: ys) auto
qed

lemma schedule_back: "parseScheduleValue C (schedule_json s) = Some s' \<Longrightarrow> s' = s" and schedule_json_def_JUndef: "schedule_json s \<noteq> JUndef"
  by (auto simp: parseScheduleValue_def as_schedule_json split: if_splits) (simp add: schedule_json_def json_obj_def obj_def)

text \<open>A payload that is read gives the payload that was written, but for the rules passed over.\<close>

lemma payload_crosses:
  assumes "checkPayload C E H (payload_json p) = Inr q"
  shows "q = p\<lparr>rp_rules := List.map_filter (\<lambda>r. kept_rule C E H (rp_dependantId p) (rule_json r)) (rp_rules p),
      rp_personas := map_option uniq (rp_personas p)\<rparr> \<and> length (rp_rules p) \<le> 2000"
proof -
  obtain dep st updated kinds items apps personas sched where c:
      "text_where hex64 (JStr (rp_dependantId p)) = Some dep" "stage_of (JStr (stage_name (rp_stage p))) = Some st"
      "posInt (enc_num (rp_updatedAt p)) = Some updated"
      "array_of CHILD_CEILING_MAX kind_value (enc_list (\<lambda>k. enc_num (of_int k)) (rp_ceilingKinds p)) = Some kinds"
      "array_of 2000 Some (enc_list rule_json (rp_rules p)) = Some items"
      "array_of 64 (text_where (\<lambda>s. 0 < length s \<and> length s \<le> 200)) (enc_list JStr (rp_disconnectedApps p)) = Some apps"
      "optional (array_of 32 (text_where hex64)) (enc_opt (enc_list JStr) (rp_personas p)) = Some personas"
      "optional (parseScheduleValue C) (enc_opt schedule_json (rp_defaultSchedule p)) = Some sched"
    and q: "q = \<lparr>rp_dependantId = dep, rp_stage = st, rp_defaultSchedule = sched, rp_ceilingKinds = kinds,
          rp_rules = List.map_filter (kept_rule C E H dep) items,
          rp_disconnectedApps = apps, rp_personas = map_option uniq personas, rp_updatedAt = updated\<rparr>"
    using assms unfolding checkPayload_def check_simps by auto
  have same: "y = x" if "text_where Q (JStr x) = Some y" for Q x y
    using that by (simp add: text_where_def split: if_splits)
  have dep: "dep = rp_dependantId p"
    by (rule same [OF c(1)])
  have "kinds = map (\<lambda>k. k) (rp_ceilingKinds p)"
    by (rule array_of_enc [OF c(4)]) (auto simp: kind_value_def enc_num_def split: if_splits)
  moreover have "apps = map (\<lambda>a. a) (rp_disconnectedApps p)"
    by (rule array_of_enc [OF c(6)]) (rule same)
  moreover have "items = map rule_json (rp_rules p)"
    by (rule array_of_enc [OF c(5)]) simp
  moreover have "personas = rp_personas p"
  proof (cases "rp_personas p")
    case (Some ps)
    have "y = map (\<lambda>a. a) ps" if "array_of 32 (text_where hex64) (enc_list JStr ps) = Some y" for y
      by (rule array_of_enc [OF that]) (rule same)
    then show ?thesis
      using c(7) Some by (auto simp: optional_def)
  qed (use c(7) in \<open>simp add: optional_def\<close>)
  moreover have "sched = rp_defaultSchedule p"
    using c(8) schedule_back schedule_json_def_JUndef by (cases "rp_defaultSchedule p") (auto simp: optional_def)
  moreover have "updated = rp_updatedAt p" "st = rp_stage p"
    using c(2,3) by (simp_all add: posInt_time stage_of_name split: if_splits)
  moreover have "length (rp_rules p) \<le> 2000"
    using c(5) by (simp add: array_of_def enc_list_def split: if_splits)
  ultimately show ?thesis
    by (simp add: q dep List.map_filter_def comp_def filter_map)
qed

text \<open>What the child holds of a payload: everything but rules, and of those what is well-formed.\<close>

lemma accepted_spec:
  assumes "accepted_payload C E H p = Some q"
  shows "rp_dependantId q = rp_dependantId p \<and> rp_stage q = rp_stage p \<and> rp_defaultSchedule q = rp_defaultSchedule p
    \<and> rp_ceilingKinds q = rp_ceilingKinds p \<and> rp_disconnectedApps q = rp_disconnectedApps p \<and> rp_updatedAt q = rp_updatedAt p
    \<and> rp_personas q = map_option uniq (rp_personas p)"
    and "r' \<in> set (rp_rules q) \<Longrightarrow> \<exists>r \<in> set (rp_rules p). same_rule r r'"
    and "r \<in> set (rp_rules p) \<Longrightarrow> wire_admits E H r \<Longrightarrow> cr_dependantId r = rp_dependantId p \<Longrightarrow> \<not> stamped (cr_tombstonedAt r) \<Longrightarrow>
      \<exists>r' \<in> set (rp_rules q). same_rule r r' \<and> cr_tombstonedAt r' = None"
proof -
  let ?d = "rp_dependantId p"
  obtain m where m: "checkPayload C E H (payload_json (p\<lparr>rp_rules := wire_rules p\<rparr>)) = Inr m"
      "checkPayload C E H (payload_json m) = Inr q"
    using assms by (auto simp: accepted_payload_def sent_payload_def split: sum.splits)
  let ?keep = "\<lambda>r. kept_rule C E H ?d (rule_json r)"
  have m_eq: "m = p\<lparr>rp_rules := List.map_filter ?keep (wire_rules p), rp_personas := map_option uniq (rp_personas p)\<rparr>"
    using payload_crosses [OF m(1)] by simp
  have q_eq: "q = m\<lparr>rp_rules := List.map_filter ?keep (rp_rules m), rp_personas := map_option uniq (rp_personas m)\<rparr>"
    using payload_crosses [OF m(2)] by (simp add: m_eq)
  have uniq_idem: "uniq (uniq xs) = uniq xs" for xs :: "'b list"
    by (simp add: uniq_distinct)
  show "rp_dependantId q = rp_dependantId p \<and> rp_stage q = rp_stage p \<and> rp_defaultSchedule q = rp_defaultSchedule p
      \<and> rp_ceilingKinds q = rp_ceilingKinds p \<and> rp_disconnectedApps q = rp_disconnectedApps p \<and> rp_updatedAt q = rp_updatedAt p
      \<and> rp_personas q = map_option uniq (rp_personas p)"
    by (cases "rp_personas p") (simp_all add: q_eq m_eq uniq_idem)
  show "\<exists>r \<in> set (rp_rules p). same_rule r r'" if kept: "r' \<in> set (rp_rules q)"
  proof -
    obtain r1 where r1: "r1 \<in> set (rp_rules m)" "?keep r1 = Some r'"
      using kept by (auto simp: q_eq set_map_filter)
    obtain r0 where r0: "r0 \<in> set (wire_rules p)" "?keep r0 = Some r1"
      using r1(1) by (auto simp: m_eq set_map_filter)
    obtain r where "r \<in> set (rp_rules p)" "same_rule r r0"
      using r0(1) by (auto simp: wire_rules_def same_rule_def)
    then show ?thesis
      using kept_same [OF r0(2)] kept_same [OF r1(2)] same_rule_trans by blast
  qed
  show "\<exists>r' \<in> set (rp_rules q). same_rule r r' \<and> cr_tombstonedAt r' = None"
    if r: "r \<in> set (rp_rules p)" "wire_admits E H r" "cr_dependantId r = ?d" "\<not> stamped (cr_tombstonedAt r)"
  proof -
    let ?r = "r\<lparr>cr_lastUsedAt := None, cr_tombstonedAt := None\<rparr>"
    have "?r \<in> set (wire_rules p)"
      using r(1,3,4) by (auto simp: wire_rules_def)
    moreover have "wire_admits E H ?r"
      using r(2) by (simp add: wire_admits_def binding_admitted_def)
    moreover obtain r1 r2 where k: "?keep ?r = Some r1" "?keep r1 = Some r2" "same_rule ?r r2" "cr_tombstonedAt r2 = None"
      using kept_twice [OF calculation(2), of ?d C] r(3) by auto
    ultimately have "r2 \<in> set (rp_rules q)"
      by (auto simp: q_eq m_eq set_map_filter)
    moreover have "same_rule r ?r"
      by (simp add: same_rule_def)
    ultimately show ?thesis
      using same_rule_trans k(3,4) by blast
  qed
qed

lemma accepted_hex: "accepted_payload C E H p = Some q \<Longrightarrow> hex64 (rp_dependantId p)"
proof -
  assume a: "accepted_payload C E H p = Some q"
  then obtain m where "checkPayload C E H (payload_json m) = Inr q"
    by (cases "sent_payload C E H p") (auto simp: accepted_payload_def split: sum.splits)
  then have "hex64 (rp_dependantId q)"
    using checkPayload_wf by (auto simp: wf_payload_def)
  then show "hex64 (rp_dependantId p)"
    using accepted_spec(1) [OF a] by simp
qed

section \<open>The event carries the payload\<close>

text \<open>Documented behaviour of the curve: what is encrypted to a key opens with it, and what is signed verifies.\<close>

definition lawful_curve :: "curve \<Rightarrow> bool" where
  "lawful_curve U \<longleftrightarrow>
     (\<forall>a b pa pb x w. cu_public U a = Some pa \<longrightarrow> cu_public U b = Some pb \<longrightarrow> cu_encrypt U a pb x = Some w \<longrightarrow>
        cu_decrypt U b pa w = Some (JStr x))
     \<and> (\<forall>sk ev. cu_public U sk = Some (re_pubkey ev) \<longrightarrow> cu_verify U (signed U sk ev))"

text \<open>The parser of the receiving side reads what the sending side wrote: the frame and the payload in it.\<close>

definition reads_back :: "rail \<Rightarrow> jsval \<Rightarrow> bool" where
  "reads_back R v \<longleftrightarrow> ra_parse R (json_text (ra_platform R) v) = Some v"

lemma rules_event_opens:
  assumes "lawful_gcm (ra_gcm R)" "lawful_curve (ra_curve R)"
    and "buildChildRulesEvent R C E H random p railPriv client nowS = Some ev"
    and keys: "cu_public (ra_curve R) railPriv = Some rail" "hex64 rail" "cu_public (ra_curve R) clientPriv = Some client"
    and wraps: "wraps_to n (signer_of (ra_curve R) railPriv rail) client" "n \<le> 12000"
    and sent: "sent_payload C E H p = Some m" "reads_back R (payload_json m)"
    and code: "en_decode (ra_coder R) (en_encode (ra_coder R) (json_text (ra_platform R) (payload_json m))) = json_text (ra_platform R) (payload_json m)"
    and frame: "\<And>e. sealed_envelope (ra_coder R) (ra_gcm R) random (json_text (ra_platform R) (payload_json m))
        (signer_of (ra_curve R) railPriv rail) \<lparr>so_maxBucket = None, so_recipient = Some client\<rparr> = Some e \<Longrightarrow> reads_back R (envelope_json e)"
  shows "openChildRulesEvent R C E H ev clientPriv rail dep
    = (if hex64 dep then Option.bind (accepted_payload C E H p) (\<lambda>q. if rp_dependantId q = dep then Some q else None) else None)"
proof -
  let ?S = "signer_of (ra_curve R) railPriv rail" and ?C = "signer_of (ra_curve R) clientPriv client"
  let ?opts = "\<lparr>so_maxBucket = None, so_recipient = Some client\<rparr>"
  let ?t = "json_text (ra_platform R) (payload_json m)"
  obtain content where content: "sealVaultPayload (ra_platform R) (ra_coder R) (ra_gcm R) random ?t ?S ?opts = Some content"
      "ev = signed (ra_curve R) railPriv \<lparr>re_pubkey = rail, re_kind = RULES_KIND, re_created = nowS, re_tags = rules_tags client,
         re_content = content, re_seal = []\<rparr>"
    using assms(3) sent(1) keys(1) by (auto simp: buildChildRulesEvent_def split: if_splits)
  obtain e where e: "sealed_envelope (ra_coder R) (ra_gcm R) random ?t ?S ?opts = Some e"
    using content(1) by (auto simp: sealVaultPayload_def)
  have side: "recipient_of ?S ?opts = client" "sg_pubkey ?S = rail" "unwraps ?S client ?C"
    using assms(2) keys by (auto simp: recipient_of_def signer_of_def unwraps_def lawful_curve_def)
  have opened: "length content \<le> MAX_ENVELOPE_CHARS
      \<and> openVaultPayload (ra_platform R) (ra_parse R) (ra_coder R) (ra_gcm R) content ?C rail False = Some ?t"
    using envelope_read [OF assms(1) code e, of ?C n "ra_parse R" "ra_platform R" False] side wraps frame [OF e] content(1)
    by (simp add: reads_back_def)
  have "cu_verify (ra_curve R) ev"
    using assms(2) keys(1) by (simp add: content(2) lawful_curve_def)
  then show ?thesis
    using opened sent keys
    by (simp add: openChildRulesEvent_def content(2) signed_def reads_back_def accepted_payload_def)
      (auto split: sum.splits)
qed

section \<open>What the publisher makes is accepted\<close>

lemma rule_lists_range: "rule_lists r k \<Longrightarrow> 0 \<le> k \<and> k \<le> 65535"
proof -
  have "\<forall>x \<in> set ALL_SCOPE_KINDS. 0 \<le> x \<and> x \<le> 65535"
    by (simp add: ALL_SCOPE_KINDS_def SCOPE_KINDS_def)
  then show "rule_lists r k \<Longrightarrow> 0 \<le> k \<and> k \<le> 65535"
    using scope_kinds_all [of "rl_scope r"]
    by (auto simp: rule_lists_def kindFromScope_def Let_def split: if_splits option.splits)
qed

lemma direct_order_range:
  assumes "rule_kinds inp = Some (ks, kr)" "k \<in> set (direct_order inp ks kr)"
  shows "0 \<le> k \<and> k \<le> 65535"
proof -
  have "\<forall>(sc, xs) \<in> set SCOPE_KINDS. \<forall>x \<in> set xs. 0 \<le> x \<and> x \<le> 65535"
    by (simp add: SCOPE_KINDS_def)
  then have stage: "by_stage st k \<Longrightarrow> ?thesis" for st
    by (auto simp: by_stage_def)
  have approved: "k \<in> set (approved_kinds aps now) \<Longrightarrow> ?thesis" for aps now
    by (auto simp: approved_kinds_def is_int_rat_def elim!: Ints_cases)
  have "k \<in> set ks \<or> k \<in> fst ` set kr \<Longrightarrow> ?thesis"
    using rule_kinds_live [OF assms(1), of k] rule_lists_range by (auto simp: by_live_rule_def)
  then show ?thesis
    using assms(2) stage approved by (auto simp: direct_order_def stage_kinds_by_stage CHILD_INTERNAL_KINDS_def)
qed

lemma policy_kinds_ok:
  assumes "compileChildDirectPolicy inp = Some pol"
  shows "length (sp_allowedKinds pol) \<le> CHILD_CEILING_MAX \<and> (\<forall>k \<in> set (sp_allowedKinds pol). 0 \<le> k \<and> k \<le> 65535)"
proof (cases "di_paused inp \<or> di_stage inp = Full_autonomy")
  case True
  then show ?thesis
    using assms by (auto simp: compileChildDirectPolicy_def LOCKED_SLOT_POLICY_def direct_base_def split: if_splits)
next
  case False
  then obtain ks kr where k: "rule_kinds inp = Some (ks, kr)"
      "pol = direct_base inp (sortedUniqueKinds (take CHILD_CEILING_MAX (direct_order inp ks kr)))"
    using direct_policy_cases [OF assms] by blast
  then show ?thesis
    using ceiling_kinds [OF k(1)] direct_order_range [OF k(1)] by (auto simp: direct_base_def dest: in_set_takeD)
qed

definition reply_ok :: "paired_dependant \<Rightarrow> reply_persona list \<Rightarrow> bool" where
  "reply_ok dep out \<longleftrightarrow> length out \<le> 32 \<and> list_all hex64 (map ry_pubkey out) \<and> distinct (map ry_pubkey out)
     \<and> set (map ry_pubkey out) \<inter> set (removed_keys dep) = {}"

lemma add_persona_ok: "reply_ok dep out \<Longrightarrow> reply_ok dep (add_persona dep x out)"
  by (cases x) (auto simp: reply_ok_def add_persona_def Let_def)

lemma add_personas_ok: "reply_ok dep out \<Longrightarrow> reply_ok dep (fold (add_persona dep) xs out)"
  by (induction xs arbitrary: out) (simp_all add: add_persona_ok)

lemma reply_personas_ok: "reply_ok dep (replyPersonas dep)"
  unfolding replyPersonas_def Let_def by (rule add_personas_ok) (simp add: reply_ok_def)

lemma disconnected_ok: "length (disconnectedAppsFromRules rules now) \<le> 64 \<and> (\<forall>a \<in> set (disconnectedAppsFromRules rules now). 0 < length a \<and> length a \<le> 200)"
  by (auto simp: disconnectedAppsFromRules_def DISCONNECTED_APPS_MAX_def dest!: in_set_takeD)

text \<open>A payload whose lists are within bounds is read.\<close>

definition bounded_payload :: "tz_clock \<Rightarrow> rules_payload \<Rightarrow> bool" where
  "bounded_payload C p \<longleftrightarrow> hex64 (rp_dependantId p) \<and> wire_time (rp_updatedAt p) \<and> length (rp_ceilingKinds p) \<le> CHILD_CEILING_MAX
     \<and> (\<forall>k \<in> set (rp_ceilingKinds p). 0 \<le> k \<and> k \<le> 65535) \<and> length (rp_rules p) \<le> 2000
     \<and> length (rp_disconnectedApps p) \<le> 64 \<and> (\<forall>a \<in> set (rp_disconnectedApps p). 0 < length a \<and> length a \<le> 200)
     \<and> (\<forall>ps \<in> set_option (rp_personas p). length ps \<le> 32 \<and> list_all hex64 ps)
     \<and> (\<forall>s \<in> set_option (rp_defaultSchedule p). validateSchedule C (schedule_json s) = None)"

lemma array_of_ok:
  "length xs \<le> n \<Longrightarrow> (\<And>x. x \<in> set xs \<Longrightarrow> f (g x) = Some (h x)) \<Longrightarrow> array_of n f (enc_list g xs) = Some (map h xs)"
  by (simp add: array_of_def enc_list_def those_Some cong: map_cong)

lemma bounded_read:
  assumes "bounded_payload C p"
  shows "checkPayload C E H (payload_json p) = Inr (p\<lparr>rp_rules := List.map_filter (\<lambda>r. kept_rule C E H (rp_dependantId p) (rule_json r)) (rp_rules p),
      rp_personas := map_option uniq (rp_personas p)\<rparr>)"
proof -
  note b = assms [unfolded bounded_payload_def]
  have t: "text_where hex64 (JStr (rp_dependantId p)) = Some (rp_dependantId p)"
    using b by (simp add: text_where_def)
  have k: "array_of CHILD_CEILING_MAX kind_value (enc_list (\<lambda>k. enc_num (of_int k)) (rp_ceilingKinds p)) = Some (map (\<lambda>k. k) (rp_ceilingKinds p))"
    using b by (intro array_of_ok) (auto simp: kind_value_def enc_num_def is_int_rat_def)
  have r: "array_of 2000 Some (enc_list rule_json (rp_rules p)) = Some (map rule_json (rp_rules p))"
    using b by (intro array_of_ok) auto
  have a: "array_of 64 (text_where (\<lambda>s. 0 < length s \<and> length s \<le> 200)) (enc_list JStr (rp_disconnectedApps p)) = Some (map (\<lambda>a. a) (rp_disconnectedApps p))"
    using b by (intro array_of_ok) (auto simp: text_where_def)
  have ps: "optional (array_of 32 (text_where hex64)) (enc_opt (enc_list JStr) (rp_personas p)) = Some (rp_personas p)"
  proof (cases "rp_personas p")
    case (Some xs)
    have "array_of 32 (text_where hex64) (enc_list JStr xs) = Some (map (\<lambda>a. a) xs)"
      using b Some by (intro array_of_ok) (auto simp: text_where_def list_all_iff)
    then show ?thesis
      using Some by (simp add: optional_def)
  qed (simp add: optional_def)
  have "parseScheduleValue C (schedule_json s) = Some s" if "rp_defaultSchedule p = Some s" for s
    using b that by (simp add: parseScheduleValue_def as_schedule_json) (simp add: schedule_json_def json_obj_def obj_def)
  then have sc: "optional (parseScheduleValue C) (enc_opt schedule_json (rp_defaultSchedule p)) = Some (rp_defaultSchedule p)"
    using schedule_json_def_JUndef by (cases "rp_defaultSchedule p") (simp_all add: optional_def)
  have o: "is_object_type (payload_json p)"
    by (simp add: payload_json_def json_obj_def obj_def)
  show ?thesis
    using t k r a ps sc b o
    by (simp add: checkPayload_def stage_of_name posInt_time List.map_filter_def comp_def filter_map)
qed

lemma wire_rules_length: "length (wire_rules p) \<le> length (rp_rules p)"
  by (simp add: wire_rules_def)

lemma bounded_accepted:
  assumes "bounded_payload C p"
  shows "\<exists>q. accepted_payload C E H p = Some q"
proof -
  let ?p = "p\<lparr>rp_rules := wire_rules p\<rparr>"
  have "bounded_payload C ?p"
    using assms wire_rules_length [of p] by (simp add: bounded_payload_def)
  note one = bounded_read [OF this, of E H]
  let ?m = "?p\<lparr>rp_rules := List.map_filter (\<lambda>r. kept_rule C E H (rp_dependantId p) (rule_json r)) (wire_rules p),
      rp_personas := map_option uniq (rp_personas p)\<rparr>"
  have "length (uniq ps) \<le> 32 \<and> list_all hex64 (uniq ps)" if "rp_personas p = Some ps" for ps
    using assms that length_uniq [of ps] by (auto simp: bounded_payload_def list_all_iff)
  then have "bounded_payload C ?m"
    using assms length_map_filter [of "\<lambda>r. kept_rule C E H (rp_dependantId p) (rule_json r)" "wire_rules p"] wire_rules_length [of p]
    by (auto simp: bounded_payload_def)
  note two = bounded_read [OF this, of E H]
  show ?thesis
    using one two by (simp add: accepted_payload_def sent_payload_def)
qed

lemma published_fields:
  assumes "childRulesPayloadFor collate dep rules approvedOnce nowMs t = Some (Some p)"
  obtains cd pol where "dn_childDevice dep = Some cd" "ch_direct cd"
    "compileChildDirectPolicy (publisher_input dep cd rules approvedOnce nowMs) = Some pol"
    "p = \<lparr>rp_dependantId = lower (dep_id dep), rp_stage = dep_autonomyStage dep, rp_defaultSchedule = dep_defaultSchedule dep,
       rp_ceilingKinds = sp_allowedKinds pol, rp_rules = live_rules collate dep rules nowMs,
       rp_disconnectedApps = disconnectedAppsFromRules (live_rules collate dep rules nowMs) nowMs,
       rp_personas = Some (map ry_pubkey (replyPersonas dep)), rp_updatedAt = t\<rparr>"
  using assms by (auto simp: childRulesPayloadFor_def Let_def split: option.splits if_splits)

lemma live_rules_set:
  "set (live_rules collate dep rules nowMs) = {r\<lparr>cr_dependantId := lower (dep_id dep)\<rparr> | r. r \<in> set (rules_of dep rules) \<and> isLiveRule r nowMs}"
  by (auto simp: live_rules_def)

lemma published_bounded:
  assumes "childRulesPayloadFor collate dep rules approvedOnce nowMs t = Some (Some p)"
    and "hex64 (lower (dep_id dep))" "wire_time t" "length (rp_rules p) \<le> 2000"
    and "\<forall>s \<in> set_option (dep_defaultSchedule dep). validateSchedule C (schedule_json s) = None"
  shows "bounded_payload C p"
proof (rule published_fields [OF assms(1)])
  fix cd pol
  assume "compileChildDirectPolicy (publisher_input dep cd rules approvedOnce nowMs) = Some pol"
    and p: "p = \<lparr>rp_dependantId = lower (dep_id dep), rp_stage = dep_autonomyStage dep, rp_defaultSchedule = dep_defaultSchedule dep,
       rp_ceilingKinds = sp_allowedKinds pol, rp_rules = live_rules collate dep rules nowMs,
       rp_disconnectedApps = disconnectedAppsFromRules (live_rules collate dep rules nowMs) nowMs,
       rp_personas = Some (map ry_pubkey (replyPersonas dep)), rp_updatedAt = t\<rparr>"
  then show ?thesis
    using policy_kinds_ok reply_personas_ok [of dep] disconnected_ok assms(2-5) by (simp add: bounded_payload_def reply_ok_def)
qed

section \<open>Properties\<close>

text \<open>
  C13 (functional): What the guardian publishes reaches the child. For a dependant paired to the device,
  with a well-formed id, a schedule that validates and at most 2000 live rules, the payload is accepted, on
  the way out and on arrival, with its stage, schedule, ceiling and blocked apps unchanged; the personas are
  those of the pairing reply, at most 32, distinct, none of them removed from the phone; every well-formed
  live rule is among the child's rules with the same decision, and the child has no rule that is not one of
  the guardian's live rules.
\<close>

theorem published_payload_accepted:
  assumes "childRulesPayloadFor collate dep rules approvedOnce nowMs t = Some (Some p)"
    and "hex64 (lower (dep_id dep))" "wire_time t" "length (rp_rules p) \<le> 2000"
    and "\<forall>s \<in> set_option (dep_defaultSchedule dep). validateSchedule C (schedule_json s) = None"
  shows "\<exists>q. accepted_payload C E H p = Some q \<and> rp_stage q = dep_autonomyStage dep \<and> rp_defaultSchedule q = dep_defaultSchedule dep
    \<and> rp_ceilingKinds q = rp_ceilingKinds p \<and> rp_disconnectedApps q = rp_disconnectedApps p
    \<and> (\<exists>ps. rp_personas q = Some ps \<and> ps = map ry_pubkey (replyPersonas dep) \<and> length ps \<le> 32 \<and> distinct ps
         \<and> set ps \<inter> set (removed_keys dep) = {})
    \<and> (\<forall>r \<in> set (rules_of dep rules). isLiveRule r nowMs \<longrightarrow> wire_admits E H (r\<lparr>cr_dependantId := lower (dep_id dep)\<rparr>) \<longrightarrow>
         (\<exists>r' \<in> set (rp_rules q). same_rule (r\<lparr>cr_dependantId := lower (dep_id dep)\<rparr>) r'))
    \<and> (\<forall>r' \<in> set (rp_rules q). \<exists>r \<in> set (rules_of dep rules). isLiveRule r nowMs \<and> same_rule (r\<lparr>cr_dependantId := lower (dep_id dep)\<rparr>) r')"
proof (rule published_fields [OF assms(1)])
  fix cd pol
  let ?own = "\<lambda>r. r\<lparr>cr_dependantId := lower (dep_id dep)\<rparr>"
  assume p: "p = \<lparr>rp_dependantId = lower (dep_id dep), rp_stage = dep_autonomyStage dep, rp_defaultSchedule = dep_defaultSchedule dep,
       rp_ceilingKinds = sp_allowedKinds pol, rp_rules = live_rules collate dep rules nowMs,
       rp_disconnectedApps = disconnectedAppsFromRules (live_rules collate dep rules nowMs) nowMs,
       rp_personas = Some (map ry_pubkey (replyPersonas dep)), rp_updatedAt = t\<rparr>"
  obtain q where q: "accepted_payload C E H p = Some q"
    using bounded_accepted [OF published_bounded [OF assms]] by blast
  note spec = accepted_spec [OF q]
  have "\<exists>r' \<in> set (rp_rules q). same_rule (?own r) r'"
    if "r \<in> set (rules_of dep rules)" "isLiveRule r nowMs" "wire_admits E H (?own r)" for r
  proof -
    have "?own r \<in> set (rp_rules p)"
      using that by (auto simp: p live_rules_set)
    moreover have "\<not> stamped (cr_tombstonedAt (?own r))"
      using that(2) by (auto simp: isLiveRule_def split: if_splits)
    ultimately show ?thesis
      using spec(3) [of "?own r"] that(3) by (auto simp: p)
  qed
  moreover have "\<exists>r \<in> set (rules_of dep rules). isLiveRule r nowMs \<and> same_rule (?own r) r'" if "r' \<in> set (rp_rules q)" for r'
    using spec(2) [OF that] by (auto simp: p live_rules_set)
  ultimately show ?thesis
    using q spec(1) reply_personas_ok [of dep] by (simp add: p reply_ok_def uniq_distinct)
qed

text \<open>A child at full autonomy, paired, with one app blocked.\<close>

definition paired_child :: "stage \<Rightarrow> paired_dependant" where
  "paired_child st = \<lparr>dep_id = replicate 64 97, dep_publicKey = replicate 64 98, dep_displayName = [], dep_personaKey = replicate 64 100,
     dep_extraPersonas = None, dep_naturalPersonActive = Some False, dep_autonomyStage = st, dep_auditVisibility = None,
     dep_petitionOnDeny = None, dep_defaultSchedule = None, dn_displayName = u ''Kid'', dn_personaName = [], dn_hiddenKeys = None,
     dn_childDevice = Some \<lparr>ch_direct = True, ch_clientPubkey = replicate 64 101, ch_boundPersona = replicate 64 100, ch_removedPersonas = None\<rparr>\<rparr>"

lemma sample_id: "lower (dep_id (paired_child st)) = replicate 64 97" "hex64 (replicate 64 97)"
  using is_hex_hexes [of 64 64 97] by (simp_all add: paired_child_def lower_def lower_unit_def hexes_def hex_unit_def)

lemma sample_time: "wire_time 5"
  by (simp add: wire_time_def is_safe_integer_def is_int_rat_def MAX_SAFE_INTEGER_def)

lemma block_rule_live: "isLiveRule block_rule nowMs" "rules_of (paired_child st) [block_rule] = [block_rule]"
    "block_rule\<lparr>cr_dependantId := replicate 64 97\<rparr> = block_rule"
  by (simp_all add: rules_of_def sample_id) (simp_all add: isLiveRule_def block_rule_def stamped_def lower_def lower_unit_def)

lemma block_rule_admitted: "wire_admits sample_env zero_hash block_rule"
proof -
  have "after_prefix ''app:nip55:'' (cr_target block_rule) = Some (u ''com.example.game'')"
    by (simp add: block_rule_def after_prefix_def starts_with_def) (simp add: u_def)
  then have "TARGET_RE (cr_target block_rule)"
    unfolding TARGET_RE_def has_rest_def by (simp add: u_def of_char_def nip55_unit_def digit_unit_def)
  moreover have "childRuleId zero_hash a b c d = replicate 32 48" for a b c d
    by (simp add: childRuleId_def Let_def zero_hash_def)
  ultimately show ?thesis
    using sample_id(2) by (simp add: wire_admits_def binding_admitted_def) (simp add: block_rule_def SCOPE_RE_def isValidRuleScope_def
        wire_time_def is_safe_integer_def is_int_rat_def MAX_SAFE_INTEGER_def)
qed

lemma sample_publishes:
  "\<exists>p. childRulesPayloadFor (\<lambda>s. s) (paired_child Full_autonomy) [block_rule] [] 1000 5 = Some (Some p) \<and> rp_rules p = [block_rule]"
proof -
  obtain cd where cd: "dn_childDevice (paired_child Full_autonomy) = Some cd" "ch_direct cd"
    by (simp add: paired_child_def)
  obtain pol where "compileChildDirectPolicy (publisher_input (paired_child Full_autonomy) cd [block_rule] [] 1000) = Some pol"
  proof
    show "compileChildDirectPolicy (publisher_input (paired_child Full_autonomy) cd [block_rule] [] 1000)
        = Some (direct_base (publisher_input (paired_child Full_autonomy) cd [block_rule] [] 1000) [])"
      by (simp add: compileChildDirectPolicy_def publisher_input_def paired_child_def paused_def)
  qed
  moreover have "live_rules (\<lambda>s. s) (paired_child Full_autonomy) [block_rule] 1000 = [block_rule]"
    by (simp add: live_rules_def block_rule_live sample_id)
  ultimately show ?thesis
    using cd by (simp add: childRulesPayloadFor_def Let_def)
qed

theorem published_payload_accepted_witness:
  "\<exists>p q. childRulesPayloadFor (\<lambda>s. s) (paired_child Full_autonomy) [block_rule] [] 1000 5 = Some (Some p)
     \<and> accepted_payload sample_clock sample_env zero_hash p = Some q \<and> (\<exists>r \<in> set (rp_rules q). same_rule block_rule r)"
proof -
  obtain p where p: "childRulesPayloadFor (\<lambda>s. s) (paired_child Full_autonomy) [block_rule] [] 1000 5 = Some (Some p)" "rp_rules p = [block_rule]"
    using sample_publishes by blast
  have "dep_defaultSchedule (paired_child Full_autonomy) = None"
    by (simp add: paired_child_def)
  then show ?thesis
    using published_payload_accepted [OF p(1), of sample_clock sample_env zero_hash] sample_id sample_time p block_rule_live block_rule_admitted
    by auto
qed

text \<open>
  The two ends of a rail: the key pairs, a wrapped content key of at most 12000 units, and for the text
  that is sent a coder and a parser that give it back.
\<close>

definition rail_ends :: "rail \<Rightarrow> ustr \<Rightarrow> ustr \<Rightarrow> ustr \<Rightarrow> ustr \<Rightarrow> bool" where
  "rail_ends R railPriv rail clientPriv client \<longleftrightarrow> cu_public (ra_curve R) railPriv = Some rail \<and> hex64 rail
     \<and> cu_public (ra_curve R) clientPriv = Some client
     \<and> (\<exists>n \<le> 12000. wraps_to n (signer_of (ra_curve R) railPriv rail) client)"

definition carries :: "rail \<Rightarrow> (nat \<Rightarrow> nat \<Rightarrow> byte list) \<Rightarrow> ustr \<Rightarrow> ustr \<Rightarrow> ustr \<Rightarrow> rules_payload \<Rightarrow> bool" where
  "carries R random railPriv rail client m \<longleftrightarrow>
     (let t = json_text (ra_platform R) (payload_json m)
      in reads_back R (payload_json m) \<and> en_decode (ra_coder R) (en_encode (ra_coder R) t) = t
         \<and> (\<forall>e \<in> set_option (sealed_envelope (ra_coder R) (ra_gcm R) random t (signer_of (ra_curve R) railPriv rail)
              \<lparr>so_maxBucket = None, so_recipient = Some client\<rparr>). reads_back R (envelope_json e)))"

text \<open>
  C14 (refinement): The event carries the payload and nothing else. What a child opens from the event a
  guardian built for its key is exactly the payload that survives the two readings, when that is its own
  dependant's; a child that expects another author or another dependant, and a holder of another key, open
  nothing.
\<close>

theorem rules_event_arrives:
  assumes "lawful_gcm (ra_gcm R)" "lawful_curve (ra_curve R)" "rail_ends R railPriv rail clientPriv client"
    and "\<forall>m \<in> set_option (sent_payload C E H p). carries R random railPriv rail client m"
    and "buildChildRulesEvent R C E H random p railPriv client nowS = Some ev"
  shows "openChildRulesEvent R C E H ev clientPriv rail dep
      = (if hex64 dep then Option.bind (accepted_payload C E H p) (\<lambda>q. if rp_dependantId q = dep then Some q else None) else None)
    \<and> (rail' \<noteq> rail \<or> cu_public (ra_curve R) key \<noteq> Some client \<longrightarrow> openChildRulesEvent R C E H ev key rail' dep = None)"
proof -
  have ends: "cu_public (ra_curve R) railPriv = Some rail" "hex64 rail" "cu_public (ra_curve R) clientPriv = Some client"
    using assms(3) by (simp_all add: rail_ends_def)
  obtain n where n: "n \<le> 12000" "wraps_to n (signer_of (ra_curve R) railPriv rail) client"
    using assms(3) by (auto simp: rail_ends_def)
  obtain m where m: "sent_payload C E H p = Some m"
    using assms(5) by (auto simp: buildChildRulesEvent_def bind_eq_Some_conv split: if_splits)
  have c: "carries R random railPriv rail client m"
    using assms(4) m by simp
  have "re_pubkey ev = rail" "re_tags ev = rules_tags client"
    using assms(5) m ends(1) by (auto simp: buildChildRulesEvent_def signed_def split: if_splits)
  moreover have "rules_tags a = rules_tags b \<longleftrightarrow> a = b" for a b
    by (auto simp: rules_tags_def)
  ultimately have "rail' \<noteq> rail \<or> cu_public (ra_curve R) key \<noteq> Some client \<longrightarrow> openChildRulesEvent R C E H ev key rail' dep = None"
    by (cases "cu_public (ra_curve R) key") (auto simp: openChildRulesEvent_def)
  then show ?thesis
    using rules_event_opens [OF assms(1,2,5) ends n(2,1) m] c by (simp add: carries_def Let_def)
qed

text \<open>
  A rail whose keys are their own public keys. Its parser tells the two texts it knows by their length.
\<close>

definition sample_curve :: curve where
  "sample_curve = \<lparr>cu_public = Some, cu_encrypt = (\<lambda>k p x. Some x), cu_decrypt = (\<lambda>k p w. Some (JStr w)),
     cu_sign = (\<lambda>k ev. []), cu_verify = (\<lambda>ev. True)\<rparr>"

definition sample_rail :: "jsval \<Rightarrow> jsval \<Rightarrow> rail" where
  "sample_rail payload frame = \<lparr>ra_platform = plain_platform,
     ra_parse = (\<lambda>t. if length t < 4000 then Some payload else Some frame), ra_coder = sample_coder, ra_gcm = sample_gcm, ra_curve = sample_curve\<rparr>"

definition quiet_payload :: rules_payload where
  "quiet_payload = \<lparr>rp_dependantId = replicate 64 97, rp_stage = Request_approve, rp_defaultSchedule = None, rp_ceilingKinds = [1],
     rp_rules = [], rp_disconnectedApps = [], rp_personas = None, rp_updatedAt = 5\<rparr>"

lemma quiet_sent: "sent_payload C E H quiet_payload = Some quiet_payload" "accepted_payload C E H quiet_payload = Some quiet_payload"
proof -
  have "bounded_payload C quiet_payload"
    using sample_id(2) sample_time by (simp add: bounded_payload_def quiet_payload_def CHILD_CEILING_MAX_def)
  from bounded_read [OF this, of E H] have "checkPayload C E H (payload_json quiet_payload) = Inr quiet_payload"
    by (simp add: quiet_payload_def List.map_filter_simps)
  moreover have "quiet_payload\<lparr>rp_rules := wire_rules quiet_payload\<rparr> = quiet_payload"
    by (simp add: quiet_payload_def wire_rules_def)
  ultimately show "sent_payload C E H quiet_payload = Some quiet_payload" "accepted_payload C E H quiet_payload = Some quiet_payload"
    by (simp_all add: sent_payload_def accepted_payload_def)
qed

definition quiet_text :: ustr where
  "quiet_text = json_text plain_platform (payload_json quiet_payload)"

lemma json_str_plain: "list_all plain_unit s \<Longrightarrow> json_str_text s = s"
  by (induction s) (auto simp: plain_unit_def escaped_def)

lemma quiet_text_units: "list_all (\<lambda>c. c < 256) quiet_text" "length quiet_text < 4000"
proof -
  have a: "json_str_text (replicate 64 97) = replicate 64 97"
    by (rule json_str_plain) (simp add: list_all_iff plain_unit_def)
  have t: "quiet_text = u ''{\"v\":1,\"dependantId\":\"'' @ replicate 64 97
      @ u ''\",\"stage\":\"request-approve\",\"ceilingKinds\":[1],\"rules\":[],\"disconnectedApps\":[],\"updatedAt\":5}''"
    by (simp add: quiet_text_def payload_json_def json_obj_def obj_def quiet_payload_def enc_num_def enc_list_def json_quoted_def a
        join_comma_def js_number_text_def is_int_rat_def nat_text.simps)
      (simp add: u_def of_char_def escaped_def)
  show "list_all (\<lambda>c. c < 256) quiet_text"
    unfolding t list_all_append by (simp add: list_all_iff) (simp add: u_def of_char_def)
  show "length quiet_text < 4000"
    unfolding t by simp
qed

lemma byte_coder: "list_all (\<lambda>c. c < 256) t \<Longrightarrow> en_decode sample_coder (en_encode sample_coder t) = t"
  by (induction t) (simp_all add: sample_coder_def unsigned_of_nat take_bit_eq_mod)

lemma quiet_sealed:
  "\<exists>e. sealed_envelope sample_coder sample_gcm zeros quiet_text (signer_of sample_curve (replicate 64 99) (replicate 64 99))
     \<lparr>so_maxBucket = None, so_recipient = Some (replicate 64 101)\<rparr> = Some e"
proof -
  have h: "hex64 (replicate 64 99)" "hex64 (replicate 64 101)"
    using is_hex_hexes [of 64 64 99] is_hex_hexes [of 64 64 101] by (simp_all add: hexes_def hex_unit_def)
  have "find (\<lambda>b. 4 + length quiet_text \<le> b \<and> b \<le> 65536) BUCKETS = Some 4096"
    using quiet_text_units(2) by (simp add: BUCKETS_def)
  then show ?thesis
    by (simp add: sealed_envelope_def signer_of_def h padToBucket_def LENGTH_PREFIX_BYTES_def TOP_BUCKET_def zeros_def
        IV_LENGTH_def sample_curve_def Let_def) (simp add: sample_coder_def Let_def zeros_def IV_LENGTH_def)
qed

theorem rules_event_arrives_witness:
  "\<exists>R ev. buildChildRulesEvent R sample_clock sample_env zero_hash zeros quiet_payload (replicate 64 99) (replicate 64 101) 7 = Some ev
     \<and> openChildRulesEvent R sample_clock sample_env zero_hash ev (replicate 64 101) (replicate 64 99) (replicate 64 97) = Some quiet_payload"
proof -
  let ?rail = "replicate 64 99" and ?child = "replicate 64 101"
  let ?S = "signer_of sample_curve ?rail ?rail" and ?o = "\<lparr>so_maxBucket = None, so_recipient = Some ?child\<rparr>"
  obtain e where e: "sealed_envelope sample_coder sample_gcm zeros quiet_text ?S ?o = Some e"
    using quiet_sealed by blast
  let ?R = "sample_rail (payload_json quiet_payload) (envelope_json e)"
  have R: "ra_platform ?R = plain_platform" "ra_coder ?R = sample_coder" "ra_gcm ?R = sample_gcm" "ra_curve ?R = sample_curve"
    by (simp_all add: sample_rail_def)
  have h: "hex64 ?rail" "hex64 ?child"
    using is_hex_hexes [of 64 64 99] is_hex_hexes [of 64 64 101] by (simp_all add: hexes_def hex_unit_def)
  have w: "wraps_to 44 ?S ?child"
    by (simp add: wraps_to_def signer_of_def sample_curve_def btoa_units)
  have "ve_b e \<in> set BUCKETS"
    using sealed_envelope_cases [OF e] pad_length by metis
  moreover have "recipient_of ?S ?o = ?child"
    by (simp add: recipient_of_def)
  ultimately have long: "4000 \<le> length (json_text plain_platform (envelope_json e))"
    using sealed_size [OF sample_laws(1) e, of 44 plain_platform] w by (auto simp: BUCKETS_def content_size_def)
  have laws: "lawful_curve sample_curve" "rail_ends ?R ?rail ?rail ?child ?child"
    using h(1) w by (auto simp: lawful_curve_def sample_curve_def rail_ends_def R intro: exI [of _ 44])
  have "reads_back ?R (payload_json quiet_payload)" "reads_back ?R (envelope_json e)"
    using quiet_text_units(2) long by (simp_all add: reads_back_def sample_rail_def quiet_text_def)
  then have c: "\<forall>m \<in> set_option (sent_payload sample_clock sample_env zero_hash quiet_payload). carries ?R zeros ?rail ?rail ?child m"
    using e byte_coder [OF quiet_text_units(1)] by (simp add: quiet_sent carries_def R quiet_text_def [symmetric] Let_def)
  obtain ev where ev: "buildChildRulesEvent ?R sample_clock sample_env zero_hash zeros quiet_payload ?rail ?child 7 = Some ev"
    using e h(2) by (simp add: buildChildRulesEvent_def R quiet_sent safe_int_def MAX_SAFE_def sample_curve_def
        sealVaultPayload_def quiet_text_def [symmetric])
  have "rp_dependantId quiet_payload = replicate 64 97"
    by (simp add: quiet_payload_def)
  then have "openChildRulesEvent ?R sample_clock sample_env zero_hash ev ?child ?rail (replicate 64 97) = Some quiet_payload"
    using rules_event_arrives [OF _ _ laws(2) c ev, of "replicate 64 97"] sample_laws(1) laws(1) sample_id(2) by (simp add: R quiet_sent)
  then show ?thesis
    using ev by blast
qed

end
