(* ===== verification/Child_Permissions.thy ===== *)
theory Child_Permissions
  imports Rules_Payload
begin

text \<open>
  The guardian's permission page (\<open>lib/child-permissions.ts\<close>): blocking an app with the handler that
  saves the rules (\<open>onBlockApp\<close> of \<open>App.tsx\<close>), whether an app shows as blocked, and the names of types and
  personas.
\<close>

section \<open>Blocking an app\<close>

datatype app_kind = Nip46_app | Nip55_app | Site_app

text \<open>The fields of a \<open>ConnectedChildApp\<close> these functions read.\<close>

record connected_app =
  kp_appId :: ustr
  kp_kind :: app_kind
  kp_label :: ustr
  kp_url :: "ustr option"

definition blockTargetFor :: "platform \<Rightarrow> connected_app \<Rightarrow> ustr option" where
  "blockTargetFor P app =
     (if kp_kind app = Site_app
      then siteTarget P (if starts_with (kp_appId app) (u ''site:'') then drop 5 (kp_appId app)
                         else case kp_url app of None \<Rightarrow> [] | Some s \<Rightarrow> s)
      else if kp_appId app = [] \<or> starts_with (kp_appId app) (u ''site:'') then None
      else Some (appTarget (kp_appId app)))"

definition block_denial :: "(ustr \<Rightarrow> ustr) \<Rightarrow> ustr \<Rightarrow> connected_app \<Rightarrow> ustr \<Rightarrow> child_rule list \<Rightarrow> rat \<Rightarrow> child_rule" where
  "block_denial H dep app target existing nowMs =
     (let name = childRuleId H dep (u ''*'') (u ''*'') target
      in \<lparr>cr_id = name, cr_dependantId = dep, cr_persona = u ''*'', cr_scope = u ''*'', cr_target = target, cr_decision = Deny,
          cr_appPermission = None, cr_schedule = None, cr_label = (if kp_label app = [] then None else Some (take 100 (kp_label app))),
          cr_createdAt = (case find (\<lambda>r. cr_id r = name) existing of Some prior \<Rightarrow> cr_createdAt prior | None \<Rightarrow> nowMs),
          cr_updatedAt = nowMs, cr_expiresAt = None, cr_tombstonedAt = None, cr_lastUsedAt = None\<rparr>)"

text \<open>The denial first, then a tombstone for each live allowing rule on the same target.\<close>

definition blockAppRules ::
    "platform \<Rightarrow> (ustr \<Rightarrow> ustr) \<Rightarrow> ustr \<Rightarrow> connected_app \<Rightarrow> child_rule list \<Rightarrow> rat \<Rightarrow> child_rule list option" where
  "blockAppRules P H dependantId app existing nowMs =
     map_option (\<lambda>target.
       let dep = lower dependantId;
           denial = block_denial H dep app target existing nowMs
       in denial # map (\<lambda>r. r\<lparr>cr_tombstonedAt := Some nowMs, cr_updatedAt := nowMs\<rparr>)
            (filter (\<lambda>r. lower (cr_dependantId r) = dep \<and> cr_id r \<noteq> cr_id denial \<and> cr_decision r = Allow
               \<and> cr_target r = target \<and> isLiveRule r nowMs) existing))
       (blockTargetFor P app)"

definition isAppBlocked :: "platform \<Rightarrow> connected_app \<Rightarrow> child_rule list \<Rightarrow> ustr list \<Rightarrow> rat \<Rightarrow> bool" where
  "isAppBlocked P app rules disconnectedApps nowMs =
     (if kp_kind app \<noteq> Site_app \<and> (\<exists>a \<in> set disconnectedApps. normaliseAppId a = normaliseAppId (kp_appId app)) then True
      else case blockTargetFor P app of
        None \<Rightarrow> False
      | Some target \<Rightarrow>
          (\<exists>r \<in> set rules. cr_decision r = Deny \<and> cr_scope r = u ''*'' \<and> cr_persona r = u ''*'' \<and> isLiveRule r nowMs
             \<and> targetKey (cr_target r) = targetKey target))"

text \<open>The handler: the rules are saved one after the other, and a failed save ends it.\<close>

fun save_rules :: "platform \<Rightarrow> 'k webcrypto \<Rightarrow> child_rule list \<Rightarrow> ustr \<Rightarrow> 'k rule_db \<Rightarrow> bool \<times> 'k rule_db" where
  "save_rules P W [] key d = (True, d)"
| "save_rules P W (r # rs) key d =
     (let (ok, d') = saveChildRule P W r key d in if ok then save_rules P W rs key d' else (False, d'))"

definition onBlockApp ::
    "platform \<Rightarrow> (ustr \<Rightarrow> ustr) \<Rightarrow> (ustr \<Rightarrow> jsval option) \<Rightarrow> 'k webcrypto \<Rightarrow> ustr \<Rightarrow> connected_app \<Rightarrow> ustr \<Rightarrow> rat \<Rightarrow> 'k rule_db
      \<Rightarrow> bool \<times> 'k rule_db" where
  "onBlockApp P H parse W dependantId app key nowMs d =
     (let (rules, d') = listChildRules parse W dependantId key d
      in case blockAppRules P H dependantId app rules nowMs of
           None \<Rightarrow> (False, d')
         | Some out \<Rightarrow> save_rules P W out key d')"

section \<open>Names on the page\<close>

definition SCOPE_NAMES :: "(ustr \<times> ustr) list" where
  "SCOPE_NAMES = map (\<lambda>(k, v). (u k, u v))
     [(''sign-in'', ''Sign-in''), (''venue-entry'', ''Venue entry''), (''post-public'', ''Public posts''),
      (''react-zap-reply'', ''Reactions and replies''), (''dm-private'', ''Private messages''), (''upload-photo'', ''Photo uploads''),
      (''mutate-identity'', ''Profile changes''), (''pair-device'', ''Device pairing''), (''app-permission'', ''App permissions'')]"

definition otherType :: "int \<Rightarrow> ustr" where
  "otherType n = u ''Other type ('' @ int_text n @ u '')''"

definition EVERY_TYPE :: ustr where
  "EVERY_TYPE = u ''Every type''"

definition RELAY_SIGN_IN :: ustr where
  "RELAY_SIGN_IN = u ''Relay sign-in''"

text \<open>
  \<open>COPY.scopeName[scope] ?? scope\<close>. The table is an object, so a name that every object inherits gives no
  text, here \<open>None\<close>.
\<close>

definition scope_copy :: "ustr \<Rightarrow> ustr option" where
  "scope_copy scope = (case map_of SCOPE_NAMES scope of
     Some name \<Rightarrow> Some name | None \<Rightarrow> if scope \<in> set OBJECT_NAMES then None else Some scope)"

definition ruleTypeName :: "ustr \<Rightarrow> ustr option" where
  "ruleTypeName scope =
     (if scope = u ''app-permission-self'' then Some (u ''Approve online play yourself'')
      else if scope = u ''*'' then Some EVERY_TYPE
      else case kindFromScope scope of Some n \<Rightarrow> Some (otherType (int n)) | None \<Rightarrow> scope_copy scope)"

definition scope_listing :: "int \<Rightarrow> scope option" where
  "scope_listing k = map_option fst (find (\<lambda>(sc, ks). k \<in> set ks) SCOPE_KINDS)"

definition ceilingTypeNames :: "int list \<Rightarrow> stage \<Rightarrow> ustr list" where
  "ceilingTypeNames kinds st =
     (if kinds = [] then (if st = Full_autonomy then [EVERY_TYPE] else [])
      else let ks = filter (\<lambda>k. k \<noteq> RELAY_AUTH_KIND) (sort kinds)
           in uniq (List.map_filter (\<lambda>k. Option.bind (scope_listing k) (\<lambda>sc. scope_copy (scope_name sc))) ks
             @ (if RELAY_AUTH_KIND \<in> set kinds then [RELAY_SIGN_IN] else [])
             @ map otherType (filter (\<lambda>k. scope_listing k = None) ks)))"

text \<open>The personas the page offers; unlike the pairing reply it skips those hidden in the app, and has no cap.\<close>

definition put_persona :: "paired_dependant \<Rightarrow> ustr \<times> ustr \<Rightarrow> (ustr \<times> ustr) list \<Rightarrow> (ustr \<times> ustr) list" where
  "put_persona dep = (\<lambda>(pubkey, name) out.
     (let p = lower pubkey in
      if hex64 p \<and> p \<notin> set (removed_keys dep) \<and> p \<notin> set (map fst out)
      then out @ [(p, if name = [] then dn_displayName dep else name)] else out))"

definition permissionPersonas :: "paired_dependant \<Rightarrow> (ustr \<times> ustr) list" where
  "permissionPersonas dep =
     fold (put_persona dep)
       ([(dep_personaKey dep, dn_personaName dep)]
        @ (if isDependantNaturalPersonActive dep then [(dep_publicKey dep, dep_displayName dep)] else [])
        @ map (\<lambda>x. (xp_publicKey x, xp_displayName x)) (filter (\<lambda>x. \<not> xp_hidden x) (extras_of dep))) []"

section \<open>What is saved stays listed\<close>

lemma save_rules_ok:
  assumes "lawful W" "save_rules P W rs key d = (True, d')" "db_ok parse W d" "list_all (storable P parse W) rs"
  shows "db_ok parse W d' \<and> (\<forall>x. (\<forall>r \<in> set rs. cr_id r \<noteq> cr_id x) \<longrightarrow>
    (x \<in> set (fst (listAllChildRules parse W key d')) \<longleftrightarrow> x \<in> set (fst (listAllChildRules parse W key d))))"
  using assms(2-4)
proof (induction rs arbitrary: d)
  case (Cons r rs)
  obtain d1 where d1: "saveChildRule P W r key d = (True, d1)" "save_rules P W rs key d1 = (True, d')"
    using Cons.prems(1) by (auto split: prod.splits if_splits)
  have one: "db_ok parse W d1"
    using save_ok [OF assms(1) Cons.prems(2) _ d1(1)] Cons.prems(3) by simp
  have "storable P parse W r"
    using Cons.prems(3) by simp
  then show ?case
    using Cons.IH [OF d1(2) one] Cons.prems(3) save_lists [OF assms(1) Cons.prems(2) _ d1(1)] by auto
qed simp

text \<open>After the handler, the denial is on the list of rules.\<close>

lemma block_saved:
  assumes "lawful W" "db_ok parse W d" "onBlockApp P H parse W dep app key nowMs d = (True, d')"
    and "\<forall>out \<in> set_option (blockAppRules P H dep app (fst (listChildRules parse W dep key d)) nowMs). list_all (storable P parse W) out"
  shows "\<exists>target. blockTargetFor P app = Some target
    \<and> block_denial H (lower dep) app target (fst (listChildRules parse W dep key d)) nowMs \<in> set (fst (listAllChildRules parse W key d'))"
proof -
  obtain rules d0 where l: "listChildRules parse W dep key d = (rules, d0)"
    by fastforce
  have d0: "db_ok parse W d0"
    using decrypt_all_ok [OF assms(2) _ l [unfolded listChildRules_def]] by simp
  obtain target where target: "blockTargetFor P app = Some target"
    using assms(3) l by (auto simp: onBlockApp_def blockAppRules_def split: option.splits)
  let ?denial = "block_denial H (lower dep) app target rules nowMs"
  obtain rest where out: "blockAppRules P H dep app rules nowMs = Some (?denial # rest)" "\<forall>r \<in> set rest. cr_id r \<noteq> cr_id ?denial"
    by (auto simp: blockAppRules_def target Let_def)
  obtain d1 where d1: "saveChildRule P W ?denial key d0 = (True, d1)" "save_rules P W rest key d1 = (True, d')"
    using assms(3) l out(1) by (auto simp: onBlockApp_def split: prod.splits if_splits)
  have st: "storable P parse W ?denial" "list_all (storable P parse W) rest"
    using assms(4) l out(1) by simp_all
  have "stored_form ?denial = ?denial"
    by (simp add: stored_form_def block_denial_def Let_def)
  then have "?denial \<in> set (fst (listAllChildRules parse W key d1))"
    using save_lists [OF assms(1) d0 st(1) d1(1)] by simp
  moreover have "db_ok parse W d1"
    using save_ok [OF assms(1) d0 st(1) d1(1)] by simp
  ultimately have "?denial \<in> set (fst (listAllChildRules parse W key d'))"
    using save_rules_ok [OF assms(1) d1(2) _ st(2)] out(2) by auto
  then show ?thesis
    using target l by auto
qed

lemma hex64_app: "hex64 (lower (normaliseAppId a)) \<longleftrightarrow> hex64 (lower a)"
  by (simp add: normaliseAppId_def)

lemma normalise_idem [simp]: "normaliseAppId (normaliseAppId a) = normaliseAppId a"
  unfolding normaliseAppId_def [of "normaliseAppId a"] hex64_app by (simp add: normaliseAppId_def)

lemma normalise_Nil: "normaliseAppId a = [] \<longleftrightarrow> a = []"
  by (simp add: normaliseAppId_def)

lemma appTarget_is_app: "is_app_target (appTarget a)"
  by (simp add: is_app_target_def appTarget_def starts_with_def)

text \<open>A denial that crosses the wire blocks the app for every persona at every time.\<close>

lemma denial_blocks:
  assumes "same_rule (block_denial H dep app target existing t) r" "cr_tombstonedAt r = None" "is_app_target target"
  shows "blocks_app persona [target] nowMs r"
  using assms by (auto simp: same_rule_def block_denial_def Let_def blocks_app_def isLiveRule_def stamped_def persona_matches_def)

lemma denial_admitted:
  assumes "hex64 dep" "TARGET_RE target" "wire_time t" "\<forall>r \<in> set existing. wire_time (cr_createdAt r)"
  shows "wire_admits E H (block_denial H dep app target existing t)"
proof -
  have "SCOPE_RE (u ''*'')" "isValidRuleScope (u ''*'')"
    by (simp_all add: SCOPE_RE_def isValidRuleScope_def)
  moreover have "wire_time (cr_createdAt (block_denial H dep app target existing t))"
    using assms(3,4) by (auto simp: block_denial_def Let_def split: option.splits dest!: find_Some_in)
  ultimately show ?thesis
    using assms by (simp add: wire_admits_def binding_admitted_def) (simp add: block_denial_def Let_def)
qed

section \<open>Properties\<close>

text \<open>
  C12 (safety): Blocking an app, one with its own key or a NIP-55 app but not a website, holds on the child's
  phone. Let the guardian's handler save its rules without an error, in any state the store can reach, the
  app's target have the form the wire admits, the time of the block and of the dependant's rules be positive
  safe integers, and the rules to save be ones the coder and the parser give back. Then under every payload that is
  published from the rules then listed and accepted by the child the app is refused, for any persona at any
  time and stage: every event it asks to have signed and every decryption or encryption, whether or not it is
  among the 64 names the payload lists as blocked, and whatever other rules allow. (A blocked website
  is not refused in every case, see the finding on blockAppRules; with more than 2000 live rules no
  payload is published.)
\<close>

theorem block_reaches_child:
  assumes "lawful W" "(rules_step P parse W)\<^sup>*\<^sup>* new_rule_db d"
    and "onBlockApp P H parse W (dep_id dep) app key nowMs d = (True, d')"
    and "\<forall>out \<in> set_option (blockAppRules P H (dep_id dep) app (fst (listChildRules parse W (dep_id dep) key d)) nowMs).
      list_all (storable P parse W) out"
    and "kp_kind app \<noteq> Site_app" "TARGET_RE (appTarget (kp_appId app))" "wire_time nowMs"
    and "\<forall>r \<in> set (fst (listChildRules parse W (dep_id dep) key d)). wire_time (cr_createdAt r)"
    and "childRulesPayloadFor collate dep (fst (listAllChildRules parse W key d')) approvedOnce later t = Some (Some p)"
    and "accepted_payload C E H p = Some q" "gi_rules g = Some q" "normaliseAppId (gi_appId g) = normaliseAppId (kp_appId app)"
  shows "(\<exists>why rid. decideChildRequest C E g = Some (Refuse why rid) \<and> why \<noteq> Rate_limited)
    \<and> (\<exists>why rid. decideChildCrypto C (Some q) (gi_persona g) (gi_appId g) peer (gi_nowMs g) (gi_rateState g) = Some (Refuse why rid)
         \<and> why \<noteq> Rate_limited)"
proof (rule published_fields [OF assms(9)])
  fix cd pol
  assume p: "p = \<lparr>rp_dependantId = lower (dep_id dep), rp_stage = dep_autonomyStage dep, rp_defaultSchedule = dep_defaultSchedule dep,
       rp_ceilingKinds = sp_allowedKinds pol, rp_rules = live_rules collate dep (fst (listAllChildRules parse W key d')) later,
       rp_disconnectedApps = disconnectedAppsFromRules (live_rules collate dep (fst (listAllChildRules parse W key d')) later) later,
       rp_personas = Some (map ry_pubkey (replyPersonas dep)), rp_updatedAt = t\<rparr>"
  let ?existing = "fst (listChildRules parse W (dep_id dep) key d)" and ?target = "appTarget (kp_appId app)"
  let ?denial = "block_denial H (lower (dep_id dep)) app ?target ?existing nowMs"
  obtain target where target: "blockTargetFor P app = Some target"
      "block_denial H (lower (dep_id dep)) app target ?existing nowMs \<in> set (fst (listAllChildRules parse W key d'))"
    using block_saved [OF assms(1) rules_run_ok [OF assms(2,1)] assms(3,4)] by blast
  then have named: "kp_appId app \<noteq> []" "target = ?target"
    using assms(5) by (auto simp: blockTargetFor_def split: if_splits)
  have hex: "hex64 (lower (dep_id dep))"
    using accepted_hex [OF assms(10)] by (simp add: p)
  have own: "?denial\<lparr>cr_dependantId := lower (dep_id dep)\<rparr> = ?denial" "isLiveRule ?denial later" "cr_dependantId ?denial = lower (dep_id dep)"
      "\<not> stamped (cr_tombstonedAt ?denial)"
    by (simp_all add: block_denial_def Let_def isLiveRule_def stamped_def)
  then have "?denial \<in> set (rp_rules p)"
    using target(2) by (auto simp: p live_rules_set rules_of_def named(2) intro!: exI [of _ ?denial])
  then obtain r where r: "r \<in> set (rp_rules q)" "same_rule ?denial r" "cr_tombstonedAt r = None"
    using accepted_spec(3) [OF assms(10)] denial_admitted [OF hex assms(6-8), of E H app] own(3,4) by (auto simp: p)
  have "blocks_app (gi_persona g) [appTarget (normaliseAppId (gi_appId g))] (gi_nowMs g) r"
    using denial_blocks [OF r(2,3) appTarget_is_app] by (simp add: assms(12) appTarget_def)
  moreover have "normaliseAppId (gi_appId g) \<noteq> []"
    using named(1) assms(12) by (metis normalise_Nil)
  ultimately show ?thesis
    using preflight_refuses [of "gi_appId g" q "gi_persona g" "gi_nowMs g" "gi_rateState g"] preflight_decides [OF _ assms(11)] r(1) by blast
qed

text \<open>The child's guardian blocks an Android app on a device that holds no rule yet.\<close>

definition game :: connected_app where
  "game = \<lparr>kp_appId = u ''nip55:com.example.game'', kp_kind = Nip55_app, kp_label = [], kp_url = None\<rparr>"

definition game_denial :: child_rule where
  "game_denial = block_denial zero_hash (replicate 64 97) game (appTarget (kp_appId game)) [] 5"

lemma game_target: "appTarget (kp_appId game) = u ''app:nip55:com.example.game''" "TARGET_RE (appTarget (kp_appId game))"
    "blockTargetFor plain_platform game = Some (appTarget (kp_appId game))"
proof -
  have n: "normaliseAppId (kp_appId game) = kp_appId game"
    by (simp add: normaliseAppId_def game_def is_hex_str_def)
  show t: "appTarget (kp_appId game) = u ''app:nip55:com.example.game''"
    unfolding appTarget_def n by (simp add: game_def) (simp add: u_def)
  have "after_prefix ''app:nip55:'' (u ''app:nip55:com.example.game'') = Some (u ''com.example.game'')"
    by (simp add: after_prefix_def starts_with_def) (simp add: u_def)
  then show "TARGET_RE (appTarget (kp_appId game))"
    unfolding TARGET_RE_def has_rest_def t by (simp add: u_def of_char_def nip55_unit_def digit_unit_def)
  show "blockTargetFor plain_platform game = Some (appTarget (kp_appId game))"
    by (simp add: blockTargetFor_def game_def) (simp add: starts_with_def u_def)
qed

lemma game_out: "blockAppRules plain_platform zero_hash (dep_id (paired_child st)) game [] 5 = Some [game_denial]"
  by (simp add: blockAppRules_def game_target(3) sample_id game_denial_def)

lemma game_blocked:
  "\<exists>d. onBlockApp plain_platform zero_hash (parse_only game_denial) sample_crypto (dep_id (paired_child Full_autonomy)) game unlock_key 5 new_rule_db = (True, d)
     \<and> length (fst (listAllChildRules (parse_only game_denial) sample_crypto unlock_key d)) \<le> 1"
proof -
  let ?parse = "parse_only game_denial" and ?dep = "dep_id (paired_child Full_autonomy)"
  have none: "listChildRules ?parse sample_crypto ?dep unlock_key new_rule_db = ([], new_rule_db)"
    by (simp add: listChildRules_def new_rule_db_def)
  obtain d where d: "saveChildRule plain_platform sample_crypto game_denial unlock_key new_rule_db = (True, d)"
    using sample_saved by (metis surjective_pairing)
  have ok: "db_ok ?parse sample_crypto new_rule_db"
    by (rule rules_run_ok [OF rtranclp.rtrancl_refl sample_lawful])
  obtain row where row: "rd_rows d = put_row row []" "db_ok ?parse sample_crypto d"
    using save_ok [OF sample_lawful ok sample_storable d] by (auto simp: new_rule_db_def)
  have "length (fst (listAllChildRules ?parse sample_crypto unlock_key d)) \<le> 1"
    using decrypt_all_ok [OF row(2) order_refl, of unlock_key] length_map_filter [of "plain_rule ?parse sample_crypto unlock_key" "rd_rows d"]
    by (cases "decrypt_all ?parse sample_crypto (rd_rows d) unlock_key d") (auto simp: listAllChildRules_def row(1))
  then show ?thesis
    using d by (simp add: onBlockApp_def none game_out)
qed

lemma autonomous_policy:
  "compileChildDirectPolicy (publisher_input (paired_child Full_autonomy) cd rules aps later)
     = Some (direct_base (publisher_input (paired_child Full_autonomy) cd rules aps later) [])"
  by (simp add: compileChildDirectPolicy_def publisher_input_def paired_child_def paused_def)

lemma autonomous_publishes: "\<exists>p. childRulesPayloadFor collate (paired_child Full_autonomy) rules aps later t = Some (Some p)"
proof -
  obtain cd where "dn_childDevice (paired_child Full_autonomy) = Some cd" "ch_direct cd"
    by (simp add: paired_child_def)
  then show ?thesis
    by (simp add: childRulesPayloadFor_def Let_def autonomous_policy)
qed

theorem block_reaches_child_witness:
  "\<exists>p q why rid. accepted_payload sample_clock sample_env zero_hash p = Some q
     \<and> decideChildRequest sample_clock sample_env (sample_gate q 1 [] (kp_appId game)) = Some (Refuse why rid) \<and> why \<noteq> Rate_limited"
proof -
  let ?parse = "parse_only game_denial" and ?dep = "paired_child Full_autonomy"
  obtain d where d: "onBlockApp plain_platform zero_hash ?parse sample_crypto (dep_id ?dep) game unlock_key 5 new_rule_db = (True, d)"
      "length (fst (listAllChildRules ?parse sample_crypto unlock_key d)) \<le> 1"
    using game_blocked by blast
  let ?rules = "fst (listAllChildRules ?parse sample_crypto unlock_key d)"
  obtain p where p: "childRulesPayloadFor (\<lambda>s. s) ?dep ?rules [] 1000 5 = Some (Some p)"
    using autonomous_publishes by blast
  have "length (rp_rules p) \<le> length ?rules"
    by (rule published_fields [OF p]) (simp add: live_rules_def rules_of_def le_trans [OF length_filter_le])
  then have "bounded_payload sample_clock p"
    using published_bounded [OF p, of sample_clock] d(2) sample_id sample_time by (simp add: paired_child_def)
  then obtain q where q: "accepted_payload sample_clock sample_env zero_hash p = Some q"
    using bounded_accepted by blast
  have none: "fst (listChildRules ?parse sample_crypto (dep_id ?dep) unlock_key new_rule_db) = []"
    by (simp add: listChildRules_def new_rule_db_def)
  have out: "\<forall>out \<in> set_option (blockAppRules plain_platform zero_hash (dep_id ?dep) game
      (fst (listChildRules ?parse sample_crypto (dep_id ?dep) unlock_key new_rule_db)) 5). list_all (storable plain_platform ?parse sample_crypto) out"
    using sample_storable [of game_denial] by (simp add: none game_out)
  have "kp_kind game \<noteq> Site_app" "gi_rules (sample_gate q 1 [] (kp_appId game)) = Some q" "gi_appId (sample_gate q 1 [] (kp_appId game)) = kp_appId game"
    by (simp_all add: game_def sample_gate_def)
  then obtain why rid where "decideChildRequest sample_clock sample_env (sample_gate q 1 [] (kp_appId game)) = Some (Refuse why rid)" "why \<noteq> Rate_limited"
    using block_reaches_child [where g = "sample_gate q 1 [] (kp_appId game)" and peer = "[]",
        OF sample_lawful rtranclp.rtrancl_refl d(1) out _ game_target(2) sample_time _ p q] none by auto
  then show ?thesis
    using q by blast
qed

section \<open>Two gaps\<close>

text \<open>
  A permission the guardian gave an app for always does not arrive: the store drops the binding when a
  rule is read, so no payload made from it holds a rule bound to an app, and without the delegation to the
  child nothing grants an app permission.
\<close>

lemma standing_permission_lost:
  assumes "(rules_step P parse W)\<^sup>*\<^sup>* new_rule_db d" "lawful W"
    and "childRulesPayloadFor collate dep (fst (listAllChildRules parse W key d)) approvedOnce nowMs t = Some (Some p)"
    and "accepted_payload C E H p = Some q"
  shows "(\<forall>r \<in> set (rp_rules q). cr_appPermission r = None) \<and> permission_grant q persona later targets False target details = None"
proof (rule published_fields [OF assms(3)])
  fix cd pol
  assume p: "p = \<lparr>rp_dependantId = lower (dep_id dep), rp_stage = dep_autonomyStage dep, rp_defaultSchedule = dep_defaultSchedule dep,
       rp_ceilingKinds = sp_allowedKinds pol, rp_rules = live_rules collate dep (fst (listAllChildRules parse W key d)) nowMs,
       rp_disconnectedApps = disconnectedAppsFromRules (live_rules collate dep (fst (listAllChildRules parse W key d)) nowMs) nowMs,
       rp_personas = Some (map ry_pubkey (replyPersonas dep)), rp_updatedAt = t\<rparr>"
  have "cr_appPermission r = None" if "r \<in> set (fst (listAllChildRules parse W key d))" for r
    using that list_all_set [OF rules_run_ok [OF assms(1,2)], of key] plain_id by blast
  then have "cr_appPermission r = None" if "r \<in> set (rp_rules p)" for r
    using that by (auto simp: p live_rules_set rules_of_def)
  then have unbound: "\<forall>r \<in> set (rp_rules q). cr_appPermission r = None"
    using accepted_spec(2) [OF assms(4)] by (fastforce simp: same_rule_def)
  then have "filter (standing_rule persona target details) (rp_rules q) = []"
    by (auto simp: filter_empty_conv standing_rule_def)
  then show ?thesis
    using unbound by (simp add: permission_grant_def no_rules)
qed

text \<open>
  A block on a site is weaker than a block on an app. The handler withdraws the allowing rules on the site
  itself; one for the same persona on another target of a request, here the peer of a private message, still
  comes before the denial.
\<close>

definition site_app :: connected_app where
  "site_app = \<lparr>kp_appId = u ''site:https://a'', kp_kind = Site_app, kp_label = [], kp_url = None\<rparr>"

definition peer_allow :: child_rule where
  "peer_allow = \<lparr>cr_id = replicate 32 49, cr_dependantId = replicate 64 97, cr_persona = replicate 64 97, cr_scope = u ''dm-private'',
     cr_target = u ''peer:b'', cr_decision = Allow, cr_appPermission = None, cr_schedule = None, cr_label = None,
     cr_createdAt = 1, cr_updatedAt = 1, cr_expiresAt = None, cr_tombstonedAt = None, cr_lastUsedAt = None\<rparr>"

lemma site_block_outranked:
  assumes "blockTargetFor P site_app = Some (u ''site:https://a'')"
  shows "\<exists>denial. blockAppRules P zero_hash (replicate 64 97) site_app [peer_allow] 5 = Some [denial]
    \<and> findRule [denial, peer_allow] (replicate 64 97) (u ''dm-private'') [u ''peer:b'', u ''site:https://a''] 5 = Some peer_allow"
proof -
  let ?denial = "block_denial zero_hash (replicate 64 97) site_app (u ''site:https://a'') [peer_allow] 5"
  have low: "lower (replicate 64 97) = replicate 64 97" "lower (u ''*'') = u ''*''"
    by (simp_all add: lower_def lower_unit_def u_def of_char_def)
  have key: "targetKey (u ''peer:b'') = u ''peer:b''" "targetKey (u ''site:https://a'') = u ''site:https://a''"
    by (simp_all add: targetKey_def is_app_target_def starts_with_def) (simp_all add: u_def lower_def lower_unit_def of_char_def)
  have apps: "\<not> is_app_target (u ''peer:b'')" "\<not> is_app_target (u ''site:https://a'')"
    by (simp_all add: is_app_target_def starts_with_def) (simp_all add: u_def)
  have "length (u ''*'') \<noteq> length (replicate 64 (97 :: nat))"
    by simp
  then have star: "u ''*'' \<noteq> replicate 64 97" "replicate 64 97 \<noteq> u ''*''"
    by metis+
  have deny: "cr_persona ?denial = u ''*''" "cr_target ?denial = u ''site:https://a''" "cr_scope ?denial = u ''*''" "isLiveRule ?denial 5"
    by (simp_all add: block_denial_def Let_def isLiveRule_def stamped_def)
  have allow: "cr_persona peer_allow = replicate 64 97" "cr_target peer_allow = u ''peer:b''" "cr_scope peer_allow = u ''dm-private''"
      "isLiveRule peer_allow 5" "cr_decision peer_allow = Allow"
    by (simp_all add: peer_allow_def isLiveRule_def stamped_def)
  have "blockAppRules P zero_hash (replicate 64 97) site_app [peer_allow] 5 = Some [?denial]"
    by (simp add: blockAppRules_def assms low Let_def allow)
  moreover have "findRule [?denial, peer_allow] (replicate 64 97) (u ''dm-private'') [u ''peer:b'', u ''site:https://a''] 5 = Some peer_allow"
    by (simp add: findRule_def findBlockingAppRule_def apps in_scope_def deny allow levels_def low key star)
  ultimately show ?thesis
    by blast
qed

end
