(* ===== verification/Spec2Isabelle.thy ===== *)
theory Spec2Isabelle
  imports Text_Sanitize Safe_Url Contact_Types Contact_Membership Contact_Guards Contact_Decode
    Contact_Reducer Contact_Records Contact_Store Key_Groups Contact_Replay Contact_Log
    Contact_Facts Contact_Effective Contact_Clock Signing_Scope Grant_Schedule Grant_Merge
    Child_Rules App_Permission Child_Gate Child_Wire Policy_Compiler Policy_Push Signer_Router Signer_Routes
    Keypair_Policy Js_Objects Keep_Types Keep_Read Keep_Codec Keep_Messages Keep_Store Keep_Owners
    Keep_Service Keep_Invariant Keep_Links Keep_Run Keep_System Keep_Laws Keep_Acks Keep_Settle
    Settlement Connect_Delivery Connect_Laws Secret_Store Secret_Laws Json_Text Vault_Envelope
    Rules_Store Rules_Payload Child_Permissions
begin

text \<open>
  A model of the decision-making core of My Signet (\<open>src/src/\<close>, TypeScript): an identity app in
  which a guardian holds the keys of dependants, decides what they may sign, and keeps a directory
  of contacts shared between devices. Relays, the database and the interface are effects at the edge of
  mostly pure functions; those functions are what is modelled, with the state they keep and the order
  in which the app calls them where a property depends on it.

  \<^bold>\<open>Conventions.\<close> A string is the list of its UTF-16 units (\<open>ustr\<close>, literals \<open>u ''...''\<close>). A finite
  JavaScript number is a rational, an integer where the code has checked that it is one; where
  the rounding of doubles matters (the successor of a clock) it is written out. A value read off
  storage or a relay is a \<open>jsval\<close>, and each guard is a function on it. An object is a record, an
  optional field an option, a union of literals a datatype, a \<open>Map\<close> an association list that keeps
  the order of insertion. \<open>null\<close> results are \<open>None\<close>; a result in the sum type carries the reason of a
  refusal; a function that may throw gives one more option, \<open>None\<close> for the exception.

  \<^bold>\<open>Parameters.\<close> What is not in the repository is an argument: the URL parser and the text of a
  fraction (\<open>platform\<close>), the point test of the curve library, the Unicode format class, base64 and
  the JSON parser (\<open>app_env\<close>), the clock of a time zone (\<open>tz_clock\<close>), SHA-256, the query of an
  address without its secret, the supply of random hex (\<open>rc_fresh\<close>) and which personas this device
  can sign for (\<open>canSign\<close>). Of the cryptography: PBKDF2, AES-GCM, the text coder and the random bytes
  (\<open>webcrypto\<close>, \<open>gcm\<close>, \<open>coder\<close>), the signing device's two calls (\<open>push_io\<close>), the signer's NIP-44 calls (\<open>signer\<close>), and the keys and signatures of an event
  (\<open>curve\<close>); the laws assumed of them (\<open>lawful\<close>, \<open>lawful_gcm\<close>, \<open>lawful_curve\<close>) say that opening inverts
  sealing, that a tag has its length, and that a signed event verifies. \<open>collate\<close> is the order of \<open>localeCompare\<close>.
  The witnesses instantiate all of them with concrete functions.

  \<^bold>\<open>Theories.\<close>
  \<^item> \<open>Prelude\<close>: strings, numbers, dynamic values, chains of checks, list lemmas, and the two
    interfaces: an insertion-ordered map, and the replay of a log of events under an invariant.
    \<open>Js_Objects\<close>: records written as objects and read back, field by field.
  \<^item> \<open>Text_Sanitize\<close> (\<open>lib/text-sanitize.ts\<close>), \<open>Safe_Url\<close> (\<open>lib/safe-url.ts\<close>): cleaning of
    attacker-controlled text, and the classifier of private hosts.
  \<^item> Contacts. \<open>Contact_Types\<close> (\<open>types/contacts-v2.ts\<close>) has the data, \<open>Contact_Membership\<close>
    (\<open>lib/contacts-v2-membership.ts\<close>) the lists of a contact. The reducer
    (\<open>lib/contacts-v2-reducer.ts\<close>) is split: \<open>Contact_Guards\<close> validates rows,
    \<open>Contact_Decode\<close> proves that a validated row reads as a typed operation,
    \<open>Contact_Reducer\<close> has one handler per operation and \<open>applyOne\<close>, \<open>Key_Groups\<close> the union-find of
    records that share a key, \<open>Contact_Replay\<close> the whole of \<open>applyOperations\<close>.
    \<open>Contact_Records\<close> has the invariant and its preservation, \<open>Contact_Store\<close> the round trip through
    storage, \<open>Contact_Log\<close> the theorems on a whole log, \<open>Contact_Facts\<close> those on blocks, vouches and
    tombstones. \<open>Contact_Effective\<close> (\<open>lib/contacts-v2-effective.ts\<close>, \<open>lib/contacts-v2-rights.ts\<close>) is the
    view of a contact and who may unblock it; \<open>Contact_Clock\<close> (\<open>lib/contacts-v2-clock.ts\<close>,
    \<open>lib/contacts-v2-scope.ts\<close>) the Lamport clock, the merge of two devices' operations and the
    directory a surface acts in.
  \<^item> Signing for a dependant. \<open>Signing_Scope\<close> (\<open>lib/scope-inference.ts\<close>, \<open>lib/autonomy-gate.ts\<close>,
    \<open>lib/audit-visibility.ts\<close>, \<open>lib/rate-limit.ts\<close>): what a template is about and what the stage says.
    \<open>Grant_Schedule\<close> (\<open>lib/grant-schedule.ts\<close>): weekly windows. \<open>Grant_Merge\<close>
    (\<open>lib/grants-sync.ts\<close>): two devices' remembered grants. \<open>Child_Rules\<close> (\<open>lib/child-rules.ts\<close>):
    which rule decides. \<open>App_Permission\<close> (\<open>lib/app-permission.ts\<close>): the statement an app may ask for.
    \<open>Child_Gate\<close> (\<open>lib/child-gate.ts\<close>): the decision on the child's phone. \<open>Child_Wire\<close>
    (\<open>lib/child-rules-wire.ts\<close>): which rules payload that phone accepts. \<open>Policy_Compiler\<close>
    (\<open>lib/policy-compiler.ts\<close>): the policy of every slot of the family's signing device. \<open>Policy_Push\<close>
    (\<open>lib/policy-push.ts\<close>): which slots a run sends their policy, with the device's two calls as a parameter.
  \<^item> Signers. \<open>Signer_Router\<close> and \<open>Signer_Routes\<close> (\<open>lib/bunker-router.ts\<close>): finding out what a
    signer is, and which signer serves which identity. \<open>Keypair_Policy\<close> (\<open>lib/keypair-policy.ts\<close>):
    which identity a sign-in offers.

  \<^item> Answers. \<open>Settlement\<close> (\<open>lib/auth-request-settlement.ts\<close>): the guard that gives a request one
    answer, and the handlers of a sign-in request that share it (\<open>App.tsx\<close>). \<open>Connect_Delivery\<close>
    (\<open>lib/connect-delivery.ts\<close>, \<open>lib/connect-route-cancel.ts\<close>, the connect handlers of \<open>App.tsx\<close>):
    the approval of a connect request from wait to wait, with everything that can happen in between;
    \<open>Connect_Laws\<close> has what is true of its runs.

  \<^item> At rest. \<open>Secret_Store\<close> (\<open>lib/crypto-store.ts\<close>, \<open>lib/aes-crypto.ts\<close>): sealing and opening, the keys
    remembered while the app is unlocked and those derived ahead; \<open>Secret_Laws\<close> has the runs of a device
    that locks and unlocks. \<open>Rules_Store\<close> (\<open>lib/db.ts\<close>, the store \<open>childRules\<close>): rules sealed row by
    row, and the memory of those decrypted. \<open>Json_Text\<close> is \<open>JSON.stringify\<close>, \<open>Vault_Envelope\<close>
    (\<open>lib/vault-envelope.ts\<close>) the padded and sealed content of every private rail.
  \<^item> From guardian to child. \<open>Rules_Payload\<close>: the payload published for a dependant
    (\<open>hooks/useChildRulesPublisher.ts\<close>), the personas it may use (\<open>lib/child-device-pairing.ts\<close>), and the
    event that carries it (\<open>lib/child-rules-wire.ts\<close>), built and opened. \<open>Child_Permissions\<close>
    (\<open>lib/child-permissions.ts\<close>, \<open>onBlockApp\<close> of \<open>App.tsx\<close>): blocking an app, and the names on the page.

  \<^item> Keeps, the small always-on devices an owner pairs with. \<open>Keep_Types\<close> (\<open>lib/keep-wire.ts\<close> and the
    records of \<open>lib/keep-store.ts\<close>), \<open>Keep_Read\<close> and \<open>Keep_Codec\<close> (reading the stored list, its bounds,
    writing it), \<open>Keep_Messages\<close> (\<open>lib/keep-messages.ts\<close>: rumors sent, acks and reports read),
    \<open>Keep_Store\<close> (the changes of \<open>lib/keep-store.ts\<close>), \<open>Keep_Owners\<close> (\<open>lib/keep-owners.ts\<close>: the owner
    list, its revisions, reconciliation), \<open>Keep_Service\<close> (\<open>lib/keep-service.ts\<close>: what each action does
    to the list). \<open>Keep_Invariant\<close>, \<open>Keep_Links\<close> and \<open>Keep_Run\<close> carry the invariant through every
    change, \<open>Keep_System\<close> is the step relation of the whole, \<open>Keep_Laws\<close>, \<open>Keep_Acks\<close> and
    \<open>Keep_Settle\<close> hold what is true of its runs, of the delivery of acks and of settling with a Keep.

  \<^bold>\<open>How they meet.\<close> Both phones run the same reducer over rows they sync, so its theorems are about
  any log: it returns, keeps the invariant, does not depend on the order of arrival, and nobody
  lifts another's block. The guardian's rules and grants go two ways: as a payload to the child's
  gate (through \<open>Child_Wire\<close>) and as a compiled ceiling to the device; this theory proves that what the gate
  signs lies within the compiled policy, but for a phone bound to a dormant identity, which only the compiler locks. The gate composes the scope, the rules, the schedule, the counter and the ceiling. A rule is
  sealed row by row on the guardian's phone (\<open>Rules_Store\<close> over \<open>Secret_Store\<close>), published in an envelope
  (\<open>Rules_Payload\<close> over \<open>Vault_Envelope\<close>) and decides at the gate; the properties follow it from the button
  that blocks an app to the refusal on the child's phone. The list of stored Keeps is changed by the
  actions of the app and by what relays deliver, in any order and more than once; the step relation has
  one rule for each.

  \<^bold>\<open>What the lemmas show.\<close> Guards and readers: a guarded value has the type the code casts it to.
  Handlers: each keeps the record invariant, on every branch. Logs: folds of steps under an
  invariant (\<open>replay\<close>, \<open>sticky_replay\<close>), interpreted for the rows of a record, for the steps of other
  actors, for tombstones and for the events of a router. Decisions: a signature without asking
  is traced back to the rule, stage, schedule and ceiling that allowed it. Device policies: bounds,
  licences, and that a push sends every slot that differs its policy, and no other. Loops: the retry loop of the probe ends exactly when its
  counters say so; the lifecycle of a connection is a step relation with an inductive invariant.
  Answers: whatever the interleaving, a request is answered once, a refused connection leaves no
  pairing of its own, and an approval comes to an end and frees the request. Secrets: what is sealed opens, the memory of keys
  and of decrypted rows never shows in a result, no salt serves two writes. Envelopes: every size opens again
  and only its bucket shows. Publishing: every payload the guardian builds is one the child accepts, and
  what the gate then signs the compiled policy lists.
  Keeps: every reachable list can be read back, a revision stands for one list, a revoke is final,
  acks commute and repeat without effect, reconciliation is idempotent; two gaps are shown at the
  end of \<open>Keep_Settle\<close>.

  \<^bold>\<open>Fuel and bounds.\<close> The walk to the top of a key group recurses on a counter, one more than the
  number of parents; an acyclic map cannot exceed it, and the lemmas show that the walk always
  returns. The search for the next open minute walks the days of its horizon, the bound that the code
  itself takes as an argument. All other recursion is structural. The retry loop has no bound of
  its own and is a function of the turns observed. A reconciliation draws from its supply of random
  hex one pair for each invite it makes (\<open>draws\<close> bounds them); the clock of the device is
  assumed at most 2^52 seconds (\<open>clock_ok\<close>), where expiries stay safe integers. A wrapped content key of
  at most 12000 units leaves the content of the largest bucket within what the reader takes; a payload of at most
  2000 rules is within its cap.

  \<^bold>\<open>Not modelled.\<close> React components, hooks and pages (\<open>App.tsx\<close>, \<open>pages/\<close>, \<open>hooks/\<close>): rendering,
  effects and event wiring, but for the handlers named above. \<open>lib/db.ts\<close> beyond the store of rules: reads and
  writes of IndexedDB records whose content the other theories produce. The packages: NIP-46 calls,
  the curve and the Nostr library. The firmware of the signing device: what it does with a policy is quoted
  from the head of \<open>lib/policy-compiler.ts\<close> where a text needs it, and is part of no statement. The relay rails (\<open>lib/contacts-v2-sync.ts\<close>, \<open>lib/dependants-sync.ts\<close>,
  \<open>lib/personas-sync.ts\<close>, \<open>lib/child-rules-sync.ts\<close>): which record is fetched and replaced when; of them
  only the merges of operations and of grants and the envelope they share are here. The management calls to the
  device (\<open>lib/heartwood-mgmt.ts\<close>), which are remote calls, the operator lock around a push and the verdicts
  of the panel (\<open>lib/policy-push.ts\<close>); the parser of the sign-in address and its answer
  events (\<open>lib/url-auth.ts\<close>); and the vault of a whole account. The Kotlin and native shells,
  pictures, blob servers, camera and NFC. Interface texts. Of the Keeps, sealing and publishing a rumor, the
  parser of the pairing link and the labels of the pages; of the permission page, its activity log.
\<close>

section \<open>The child's gate and the device's ceiling\<close>

text \<open>
  The guardian compiles one policy for the child's phone, pushes it to the device and publishes its
  kinds as the ceiling of the rules payload (\<open>childRulesPayloadFor\<close> in
  \<open>hooks/useChildRulesPublisher.ts\<close>); the child's phone then decides each request on its own.
\<close>

lemma gate_in_ceiling:
  assumes "decideChildRequest C E g = Some (Sign why rid audit)" "gi_rules g = Some rp"
  shows "tpl_kind (gi_template g) \<in> set (rp_ceilingKinds rp) \<or> rp_stage rp = Full_autonomy"
proof (rule decideChildRequest_Sign [OF assms(1)])
  fix rp'
  assume rp': "gi_rules g = Some rp'"
    and p: "tpl_kind (gi_template g) = 30420 \<Longrightarrow>
       decideAppPermission C E rp' (gi_persona g) (gi_nowMs g)
         (childTargetsFor E (gi_template g) (Some App_permission) (gi_appId g) (gi_siteOrigin g)) (gi_template g)
         (gi_appPermission g) (gi_appId g = u ''mysignet'' \<and> gi_appPermissionApproved g) = Some (Sign why rid audit)"
    and r: "tpl_kind (gi_template g) \<noteq> 30420 \<Longrightarrow>
       decideWithRules C rp' (gi_persona g) (inferScope (gi_template g)) (scope_key (gi_template g) (inferScope (gi_template g)))
         (childTargetsFor E (gi_template g) (inferScope (gi_template g)) (gi_appId g) (gi_siteOrigin g)) (gi_nowMs g)
         (Some (tpl_kind (gi_template g))) (own_relay_auth g) = Some (Sign why rid audit)"
  have same: "rp' = rp"
    using rp' assms(2) by simp
  show ?thesis
  proof (cases "tpl_kind (gi_template g) = 30420")
    case True
    then show ?thesis
      using decideAppPermission_Sign [OF p [OF True]] autonomy_grant_Some same by blast
  next
    case False
    then show ?thesis
      using decideWithRules_Sign [OF r [OF False]] same by auto
  qed
qed

lemma paused_closed: "sch_paused s \<Longrightarrow> \<not> schedule_open C (intersectSchedules (Some s) x) nowMs"
  by (cases x) (auto simp: schedule_open_def isWithinSchedule_def)

lemma paused_signs_nothing:
  assumes "gi_rules g = Some rp" "paused (rp_defaultSchedule rp)"
  shows "decideChildRequest C E g \<noteq> Some (Sign why rid audit)"
proof
  obtain s where s: "rp_defaultSchedule rp = Some s" "sch_paused s"
    using assms(2) by (auto simp: paused_def)
  have closed: "\<not> schedule_open C (Some s) now" "\<not> schedule_open C (intersectSchedules (Some s) x) now" for now x
    using paused_closed [OF s(2), of C None now] paused_closed [OF s(2)] by simp_all
  assume "decideChildRequest C E g = Some (Sign why rid audit)"
  then show False
  proof (rule decideChildRequest_Sign)
    fix rp'
    assume rp': "gi_rules g = Some rp'"
      and p: "tpl_kind (gi_template g) = 30420 \<Longrightarrow>
         decideAppPermission C E rp' (gi_persona g) (gi_nowMs g)
           (childTargetsFor E (gi_template g) (Some App_permission) (gi_appId g) (gi_siteOrigin g)) (gi_template g)
           (gi_appPermission g) (gi_appId g = u ''mysignet'' \<and> gi_appPermissionApproved g) = Some (Sign why rid audit)"
      and r: "tpl_kind (gi_template g) \<noteq> 30420 \<Longrightarrow>
         decideWithRules C rp' (gi_persona g) (inferScope (gi_template g)) (scope_key (gi_template g) (inferScope (gi_template g)))
           (childTargetsFor E (gi_template g) (inferScope (gi_template g)) (gi_appId g) (gi_siteOrigin g)) (gi_nowMs g)
           (Some (tpl_kind (gi_template g))) (own_relay_auth g) = Some (Sign why rid audit)"
    have "rp_defaultSchedule rp' = Some s"
      using rp' assms(1) s(1) by simp
    then show False
      using decideAppPermission_Sign [OF p] decideWithRules_Sign [OF r] closed
      by (cases "tpl_kind (gi_template g) = 30420") (auto split: option.splits)
  qed
qed

text \<open>Publisher and compiler read the same records: the slot of the paired phone gets the published ceiling.\<close>

lemma bound_case: "compileChildDirectPolicy (inp\<lparr>di_boundPersona := lower b\<rparr>) = compileChildDirectPolicy (inp\<lparr>di_boundPersona := b\<rparr>)"
  by (simp add: compileChildDirectPolicy_def direct_base_def [abs_def] rule_kinds_def Let_def)

lemma slot_gets_published:
  assumes "ca_childRules args = Some (map (\<lambda>r. (cr_dependantId r, rule_like_of r)) rules)"
    and "ca_nowSeconds args = of_int \<lfloor>nowMs / 1000\<rfloor>" "approvedOnce = approvedFor (ca_approvedOnceKinds args) (dep_id dep)"
    and "ch_boundPersona cd \<noteq> []" "lower_opt (ds_boundIdentity slot) = lower (ch_boundPersona cd)"
    and "isDependantNaturalPersonActive dep \<or> lower (ch_boundPersona cd) \<noteq> lower (dep_publicKey dep)"
  shows "compileChildDirectSlot (compiler_dependant_of args dep) slot (ca_nowSeconds args)
    = compileChildDirectPolicy (publisher_input dep cd rules approvedOnce nowMs)"
proof -
  have rules: "map snd (filter (\<lambda>(d, r). lower d = lower (dep_id dep)) (map (\<lambda>r. (cr_dependantId r, rule_like_of r)) rules))
      = map rule_like_of (rules_of dep rules)"
    by (induction rules) (simp_all add: rules_of_def)
  have "compileChildDirectSlot (compiler_dependant_of args dep) slot (ca_nowSeconds args)
      = compileChildDirectPolicy ((publisher_input dep cd rules approvedOnce nowMs)\<lparr>di_boundPersona := lower (ch_boundPersona cd)\<rparr>)"
    using assms(4-6) by (auto simp: compileChildDirectSlot_def compiler_dependant_of_def assms(1-3) rules publisher_input_def paused_def
        split: option.split intro!: arg_cong [where f = compileChildDirectPolicy])
  then show ?thesis
    by (simp only: bound_case) (simp add: publisher_input_def)
qed

text \<open>
  For a payload that carries the compiled ceiling and the same stage, every request the gate lets through
  is of a kind the compiled policy approves, and below full autonomy that kind has a licence.
\<close>

lemma gate_within_policy:
  assumes "compileChildDirectPolicy inp = Some p" "\<not> di_paused inp"
    and "gi_rules g = Some rp" "rp_stage rp = di_stage inp" "rp_ceilingKinds rp = sp_allowedKinds p"
    and "decideChildRequest C E g = Some (Sign why rid audit)"
  shows "u ''sign_event'' \<in> set (sp_allowedMethods p) \<and> sp_autoApprove p
    \<and> (if di_stage inp = Full_autonomy then sp_allowedKinds p = []
       else tpl_kind (gi_template g) \<in> set (sp_allowedKinds p) \<and> licensed inp (tpl_kind (gi_template g)))"
proof (cases "di_stage inp = Full_autonomy")
  case True
  then have "p = direct_base inp []"
    using assms(1,2) by (simp add: compileChildDirectPolicy_def)
  then show ?thesis
    using True by (simp add: direct_base_def CHILD_DIRECT_METHODS_def)
next
  case False
  then obtain ks kr where k: "rule_kinds inp = Some (ks, kr)"
      "p = direct_base inp (sortedUniqueKinds (take CHILD_CEILING_MAX (direct_order inp ks kr)))"
    using direct_policy_cases [OF assms(1,2)] by blast
  have listed: "tpl_kind (gi_template g) \<in> set (sp_allowedKinds p)"
    using gate_in_ceiling [OF assms(6,3)] assms(4,5) False by simp
  then have "licensed inp (tpl_kind (gi_template g))"
    using ceiling_kinds [OF k(1)] by (auto simp: k(2) direct_base_def list_all_iff)
  then show ?thesis
    using listed False by (simp add: k(2) direct_base_def CHILD_DIRECT_METHODS_def)
qed

text \<open>
  C11 (refinement): What the child's phone signs without asking is within the policy compiled for the device.
  Let the rules be published from the guardian's records and the slot of the paired phone be compiled from
  the same records at the same second, bound like the pairing to some persona, and let the child's gate sign a request under the payload it
  accepted. Then the dependant is not paused and a policy is compiled. If the phone is bound to the real identity
  and that is not activated, the policy lists no method: the publisher, unlike the compiler, does not
  look at this, so gate and slot differ there. In every other case the policy lists sign_event, approves without a
  button, and its kinds are all (the empty list, at full autonomy) or contain the kind signed, which below
  full autonomy has a licence: the stage, an approval that has not run out, a live allow rule, or relay login.
\<close>

theorem published_within_policy:
  assumes "childRulesPayloadFor collate dep rules approvedOnce nowMs t = Some (Some p)" "accepted_payload C E H p = Some q"
    and "gi_rules g = Some q" "decideChildRequest C E g = Some (Sign why rid audit)" "dn_childDevice dep = Some cd"
    and "ca_childRules args = Some (map (\<lambda>r. (cr_dependantId r, rule_like_of r)) rules)"
    and "ca_nowSeconds args = of_int \<lfloor>nowMs / 1000\<rfloor>" "approvedOnce = approvedFor (ca_approvedOnceKinds args) (dep_id dep)"
    and "ch_boundPersona cd \<noteq> []" "lower_opt (ds_boundIdentity slot) = lower (ch_boundPersona cd)"
  shows "\<not> paused (dep_defaultSchedule dep)
    \<and> (\<exists>pol. compileChildDirectSlot (compiler_dependant_of args dep) slot (ca_nowSeconds args) = Some pol
         \<and> (if \<not> isDependantNaturalPersonActive dep \<and> lower (ch_boundPersona cd) = lower (dep_publicKey dep)
            then sp_allowedMethods pol = []
            else u ''sign_event'' \<in> set (sp_allowedMethods pol) \<and> sp_autoApprove pol
              \<and> (if dep_autonomyStage dep = Full_autonomy then sp_allowedKinds pol = []
                 else tpl_kind (gi_template g) \<in> set (sp_allowedKinds pol)
                   \<and> licensed (publisher_input dep cd rules approvedOnce nowMs) (tpl_kind (gi_template g)))))"
proof (rule published_fields [OF assms(1)])
  fix cd' pol
  let ?inp = "publisher_input dep cd rules approvedOnce nowMs"
  let ?dormant = "\<not> isDependantNaturalPersonActive dep \<and> lower (ch_boundPersona cd) = lower (dep_publicKey dep)"
  assume cd': "dn_childDevice dep = Some cd'"
    and pol: "compileChildDirectPolicy (publisher_input dep cd' rules approvedOnce nowMs) = Some pol"
    and p: "p = \<lparr>rp_dependantId = lower (dep_id dep), rp_stage = dep_autonomyStage dep, rp_defaultSchedule = dep_defaultSchedule dep,
       rp_ceilingKinds = sp_allowedKinds pol, rp_rules = live_rules collate dep rules nowMs,
       rp_disconnectedApps = disconnectedAppsFromRules (live_rules collate dep rules nowMs) nowMs,
       rp_personas = Some (map ry_pubkey (replyPersonas dep)), rp_updatedAt = t\<rparr>"
  have q: "rp_stage q = di_stage ?inp" "rp_ceilingKinds q = sp_allowedKinds pol" "rp_defaultSchedule q = dep_defaultSchedule dep"
    using accepted_spec(1) [OF assms(2)] by (simp_all add: p publisher_input_def)
  have compiled: "compileChildDirectPolicy ?inp = Some pol"
    using pol cd' assms(5) by simp
  have awake: "\<not> paused (dep_defaultSchedule dep)"
    using paused_signs_nothing [OF assms(3), of C E why rid audit] q(3) assms(4) by auto
  then have "\<not> di_paused ?inp"
    by (simp add: publisher_input_def)
  note within_it = gate_within_policy [OF compiled this assms(3) q(1,2) assms(4)]
  show ?thesis
  proof (cases ?dormant)
    case True
    then have "lower_opt (ds_boundIdentity slot) \<in> set (cd_dormantIdentityPubkeys (compiler_dependant_of args dep))"
      using assms(9,10) by (auto simp: compiler_dependant_of_def)
    then show ?thesis
      using awake True by (simp add: compileChildDirectSlot_def LOCKED_SLOT_POLICY_def Let_def)
  next
    case False
    then have "compileChildDirectSlot (compiler_dependant_of args dep) slot (ca_nowSeconds args) = Some pol"
      using slot_gets_published [OF assms(6-10)] compiled by auto
    then show ?thesis
      using awake False within_it by (auto simp: publisher_input_def)
  qed
qed

text \<open>A child whose stage asks for everything, with a rule that lets every app delete events.\<close>

definition deletion_rule :: child_rule where
  "deletion_rule = \<lparr>cr_id = replicate 32 48, cr_dependantId = replicate 64 97, cr_persona = u ''*'', cr_scope = u ''kind:5'',
     cr_target = u ''*'', cr_decision = Allow, cr_appPermission = None, cr_schedule = None, cr_label = None,
     cr_createdAt = 1, cr_updatedAt = 7, cr_expiresAt = None, cr_tombstonedAt = None, cr_lastUsedAt = None\<rparr>"

lemma deletion_rule_facts:
  "rules_of (paired_child st) [deletion_rule] = [deletion_rule]" "isLiveRule deletion_rule nowMs"
  "deletion_rule\<lparr>cr_dependantId := replicate 64 97\<rparr> = deletion_rule" "crossed C deletion_rule = deletion_rule"
  "kindFromScope (u ''kind:5'') = Some 5"
proof -
  show "rules_of (paired_child st) [deletion_rule] = [deletion_rule]"
    by (simp add: rules_of_def sample_id) (simp add: deletion_rule_def lower_def lower_unit_def)
  show "isLiveRule deletion_rule nowMs" "deletion_rule\<lparr>cr_dependantId := replicate 64 97\<rparr> = deletion_rule"
    by (simp_all add: isLiveRule_def stamped_def deletion_rule_def)
  show "crossed C deletion_rule = deletion_rule"
    by (simp add: crossed_def deletion_rule_def kept_time_def)
  show "kindFromScope (u ''kind:5'') = Some 5"
    by (simp add: kindFromScope_def u_def starts_with_def is_digits_def digit_unit_def dec_val_def of_char_def)
qed

lemma deletion_rule_admitted: "wire_admits sample_env zero_hash deletion_rule"
proof -
  have "SCOPE_RE (u ''kind:5'')" "isValidRuleScope (u ''kind:5'')" "TARGET_RE (u ''*'')"
    using deletion_rule_facts(5)
    by (simp_all add: SCOPE_RE_def isValidRuleScope_def TARGET_RE_def) (simp_all add: starts_with_def u_def scope_unit_def of_char_def)
  moreover have "childRuleId zero_hash a b c d = replicate 32 48" for a b c d
    by (simp add: childRuleId_def Let_def zero_hash_def)
  ultimately show ?thesis
    using sample_id(2) by (simp add: wire_admits_def binding_admitted_def) (simp add: deletion_rule_def
        wire_time_def is_safe_integer_def is_int_rat_def MAX_SAFE_INTEGER_def)
qed

lemma deletion_publishes:
  "\<exists>p. childRulesPayloadFor (\<lambda>s. s) (paired_child Request_approve) [deletion_rule] [] 1000 5 = Some (Some p)
     \<and> rp_rules p = [deletion_rule] \<and> rp_stage p = Request_approve \<and> rp_defaultSchedule p = None \<and> rp_disconnectedApps p = []
     \<and> rp_ceilingKinds p = [5, 21235, 22242] \<and> rp_dependantId p = replicate 64 97"
proof -
  obtain cd where cd: "dn_childDevice (paired_child Request_approve) = Some cd" "ch_direct cd"
    by (simp add: paired_child_def)
  let ?inp = "publisher_input (paired_child Request_approve) cd [deletion_rule] [] 1000"
  have fields: "di_stage ?inp = Request_approve" "\<not> di_paused ?inp" "di_approvedOnceKinds ?inp = []" "di_rules ?inp = [rule_like_of deletion_rule]"
    by (simp_all add: publisher_input_def deletion_rule_facts) (simp_all add: paired_child_def paused_def)
  have "rule_kinds ?inp = Some ([], [(5, 7)])"
    using deletion_rule_facts(5) fields
    by (simp add: rule_kinds_def rule_like_of_def deletion_rule_def live_like_def stamped_def take_rule_def)
  moreover have "direct_order ?inp [] [(5, 7)] = [22242, 21235, 5]"
    by (simp add: direct_order_def fields stage_kinds_def SCOPE_KINDS_def CHILD_INTERNAL_KINDS_def approved_kinds_def
        in_order_def NEVER_LISTED_KINDS_def sortedUniqueKinds_def)
  ultimately have "\<exists>pol. compileChildDirectPolicy ?inp = Some pol \<and> sp_allowedKinds pol = [5, 21235, 22242]"
    by (simp add: direct_policy_eq fields direct_base_def sortedUniqueKinds_def CHILD_CEILING_MAX_def)
  then obtain pol where pol: "compileChildDirectPolicy ?inp = Some pol" "sp_allowedKinds pol = [5, 21235, 22242]"
    by blast
  have live: "live_rules (\<lambda>s. s) (paired_child Request_approve) [deletion_rule] 1000 = [deletion_rule]"
    by (simp add: live_rules_def deletion_rule_facts sample_id)
  have "disconnectedAppsFromRules [deletion_rule] 1000 = []"
    by (simp add: disconnectedAppsFromRules_def deletion_rule_def)
  then show ?thesis
    using cd pol live by (simp add: childRulesPayloadFor_def Let_def sample_id) (simp add: paired_child_def)
qed

lemma deletion_accepted:
  assumes "bounded_payload sample_clock p" "rp_rules p = [deletion_rule]" "rp_dependantId p = replicate 64 97"
  shows "\<exists>q. accepted_payload sample_clock sample_env zero_hash p = Some q \<and> rp_rules q = [deletion_rule]"
proof -
  have kept: "kept_rule sample_clock sample_env zero_hash (replicate 64 97) (rule_json deletion_rule) = Some deletion_rule"
    unfolding kept_crosses deletion_rule_facts(4) using deletion_rule_admitted by (simp add: deletion_rule_def kept_time_def)
  have "wire_rules p = [deletion_rule]"
    by (simp add: wire_rules_def assms(2,3)) (simp add: deletion_rule_def stamped_def)
  then have same: "p\<lparr>rp_rules := wire_rules p\<rparr> = p"
    by (simp add: assms(2) [symmetric])
  let ?m = "p\<lparr>rp_personas := map_option uniq (rp_personas p)\<rparr>"
  have one: "checkPayload sample_clock sample_env zero_hash (payload_json p) = Inr ?m"
    using bounded_read [OF assms(1), of sample_env zero_hash] kept
    by (simp add: assms(2,3) List.map_filter_def)
  have "length (uniq ps) \<le> 32 \<and> list_all hex64 (uniq ps)" if "rp_personas p = Some ps" for ps
    using assms(1) that length_uniq [of ps] by (auto simp: bounded_payload_def list_all_iff)
  then have "bounded_payload sample_clock ?m"
    using assms(1) by (auto simp: bounded_payload_def)
  then show ?thesis
    using one bounded_read [of sample_clock ?m sample_env zero_hash] kept
    by (simp add: accepted_payload_def sent_payload_def same assms(2,3) List.map_filter_def)
qed

lemma deletion_signed:
  assumes "rp_rules q = [deletion_rule]" "rp_stage q = Request_approve" "rp_defaultSchedule q = None" "rp_disconnectedApps q = []"
    "5 \<in> set (rp_ceilingKinds q)"
  shows "decideChildRequest sample_clock sample_env (sample_gate q 5 [] (u ''chess'')) = Some (Sign By_rule (Some (cr_id deletion_rule)) True)"
proof -
  have key: "u ''kind:'' @ int_text 5 = u ''kind:5''"
    by (simp add: int_text_def nat_text.simps [of 5] u_def of_char_def)
  have found: "findRule [deletion_rule] persona (u ''kind:5'') targets now = Some deletion_rule" for persona targets now
  proof -
    have "\<not> blocks_app persona targets now deletion_rule" "in_scope (u ''kind:5'') now deletion_rule"
      using deletion_rule_facts(2) [of now] by (simp_all add: in_scope_def blocks_app_def) (simp_all add: deletion_rule_def)
    moreover have "findBlockingAppRule [deletion_rule] persona targets now = None"
      using calculation(1) by (simp add: findBlocking_None)
    moreover have "cr_persona deletion_rule = u ''*''" "cr_target deletion_rule = u ''*''" "cr_decision deletion_rule = Allow"
      by (simp_all add: deletion_rule_def)
    ultimately show ?thesis
      by (simp add: findRule_def levels_def)
  qed
  have quiet: "\<not> blocks_app persona targets now deletion_rule" for persona targets now
    by (simp add: blocks_app_def deletion_rule_def)
  have plain: "cr_decision deletion_rule = Allow" "cr_schedule deletion_rule = None"
    by (simp_all add: deletion_rule_def)
  show ?thesis
    using assms key found quiet plain
    by (simp add: gate_simps own_relay_auth_def RELAY_AUTH_KIND_def)
qed

theorem published_within_policy_witness:
  "\<exists>pol. compileChildDirectSlot (compiler_dependant_of (sample_args\<lparr>ca_childRules := Some [(replicate 64 97, rule_like_of deletion_rule)], ca_nowSeconds := 1\<rparr>)
        (paired_child Request_approve)) (sample_slot\<lparr>ds_boundIdentity := Some (replicate 64 100)\<rparr>) 1 = Some pol
    \<and> 5 \<in> set (sp_allowedKinds pol) \<and> sp_autoApprove pol"
proof -
  let ?args = "sample_args\<lparr>ca_childRules := Some [(replicate 64 97, rule_like_of deletion_rule)], ca_nowSeconds := 1\<rparr>"
  let ?slot = "sample_slot\<lparr>ds_boundIdentity := Some (replicate 64 100)\<rparr>" and ?dep = "paired_child Request_approve"
  obtain p where p: "childRulesPayloadFor (\<lambda>s. s) ?dep [deletion_rule] [] 1000 5 = Some (Some p)"
      "rp_rules p = [deletion_rule]" "rp_stage p = Request_approve" "rp_defaultSchedule p = None" "rp_disconnectedApps p = []"
      "rp_ceilingKinds p = [5, 21235, 22242]" "rp_dependantId p = replicate 64 97"
    using deletion_publishes by blast
  have "bounded_payload sample_clock p"
    using published_bounded [OF p(1), of sample_clock] sample_id sample_time p(2) by (simp add: paired_child_def)
  then obtain q where q: "accepted_payload sample_clock sample_env zero_hash p = Some q" "rp_rules q = [deletion_rule]"
    using deletion_accepted p(2,7) by blast
  have signed: "decideChildRequest sample_clock sample_env (sample_gate q 5 [] (u ''chess'')) = Some (Sign By_rule (Some (cr_id deletion_rule)) True)"
    using accepted_spec(1) [OF q(1)] p by (intro deletion_signed q(2)) simp_all
  obtain cd where cd: "dn_childDevice ?dep = Some cd" "ch_boundPersona cd = replicate 64 100"
    by (simp add: paired_child_def)
  have low: "lower (replicate 64 c) = replicate 64 c" if "c \<in> {98, 100}" for c
    using that by (auto simp: lower_def lower_unit_def)
  have sides: "gi_rules (sample_gate q 5 [] (u ''chess'')) = Some q" "tpl_kind (gi_template (sample_gate q 5 [] (u ''chess''))) = 5"
      "lower_opt (ds_boundIdentity ?slot) = lower (ch_boundPersona cd)" "ch_boundPersona cd \<noteq> []"
      "lower (ch_boundPersona cd) \<noteq> lower (dep_publicKey ?dep)" "dep_autonomyStage ?dep = Request_approve"
      "approvedFor (ca_approvedOnceKinds ?args) (dep_id ?dep) = []"
      "cr_dependantId deletion_rule = replicate 64 97" "ca_childRules ?args = Some (map (\<lambda>r. (cr_dependantId r, rule_like_of r)) [deletion_rule])"
    using low [of 98] low [of 100] by (simp_all add: sample_gate_def lower_opt_def cd(2))
      (simp_all add: paired_child_def approvedFor_def sample_args_def deletion_rule_def)
  then show ?thesis
    using published_within_policy [OF p(1) q(1) sides(1) signed cd(1), of ?args ?slot] by auto
qed

end
